(* ===== verification/Prelude.thy ===== *)
theory Prelude
  imports Main "HOL-Library.Word"
begin

unbundle bit_operations_syntax

text \<open>
  Shared vocabulary of the development: the machine integers of the crate, the
  fallible state-passing actions that model \<open>&mut self\<close> methods returning a
  \<open>Result\<close>, the bounds-checked slice accesses of Rust's \<open>get\<close> and \<open>get_mut\<close>,
  big- and little-endian byte strings, and the simp collections the component
  theories extend.
\<close>

section \<open>Machine integers\<close>

type_synonym u8 = "8 word"
type_synonym u16 = "16 word"
type_synonym u32 = "32 word"
type_synonym u64 = "64 word"
type_synonym bytes = "8 word list"

text \<open>
  A \<open>usize\<close> is a \<open>nat\<close>; where the code checks an addition or a product the
  check is written out against the width of the controller's Cortex-M0+, which is
  the smaller of the two targets the crate is built for.
\<close>

definition usize_max :: nat where
  "usize_max = 2 ^ 32 - 1"

definition checked_add :: "nat \<Rightarrow> nat \<Rightarrow> nat option" where
  "checked_add a b = (if a + b \<le> usize_max then Some (a + b) else None)"

definition checked_mul :: "nat \<Rightarrow> nat \<Rightarrow> nat option" where
  "checked_mul a b = (if a * b \<le> usize_max then Some (a * b) else None)"

definition saturating_add :: "nat \<Rightarrow> nat \<Rightarrow> nat" where
  "saturating_add a b = min (a + b) usize_max"

lemma saturating_add_small [simp]: "a + b \<le> usize_max \<Longrightarrow> saturating_add a b = a + b"
  by (simp add: saturating_add_def)

lemma checked_add_small [simp]: "a + b \<le> usize_max \<Longrightarrow> checked_add a b = Some (a + b)"
  by (simp add: checked_add_def)

lemma checked_mul_small [simp]: "a * b \<le> usize_max \<Longrightarrow> checked_mul a b = Some (a * b)"
  by (simp add: checked_mul_def)

lemma checked_add_Some: "checked_add a b = Some c \<Longrightarrow> c = a + b"
  by (simp add: checked_add_def split: if_splits)

lemma checked_mul_Some: "checked_mul a b = Some c \<Longrightarrow> c = a * b"
  by (simp add: checked_mul_def split: if_splits)

definition sat_add32 :: "u32 \<Rightarrow> u32 \<Rightarrow> u32" where
  "sat_add32 a b = (if unat a + unat b < 2 ^ 32 then a + b else 0xFFFFFFFF)"

lemma unat_sat_add32: "unat (sat_add32 a b) = min (unat a + unat b) (2 ^ 32 - 1)"
  by (auto simp: sat_add32_def unat_word_ariths min_def)

lemma unat_u8: "unat (c :: u8) < 256"
  and unat_u16: "unat (d :: u16) < 65536"
  and unat_u32: "unat (e :: u32) < 4294967296"
  and unat_u64: "unat (f :: u64) < 18446744073709551616"
  using unsigned_less [of c, where ?'a = nat] unsigned_less [of d, where ?'a = nat]
    unsigned_less [of e, where ?'a = nat] unsigned_less [of f, where ?'a = nat]
  by simp_all

section \<open>Fallible actions\<close>

text \<open>
  A method taking \<open>&mut self\<close> and returning \<open>Result<A, E>\<close>: the state comes back
  whether or not the call succeeded, because a mutation made before an early return
  is visible to the caller.
\<close>

type_synonym ('s, 'e, 'a) act = "'s \<Rightarrow> ('e + 'a) \<times> 's"

named_theorems act_simps
named_theorems wire_simps
named_theorems registry_simps

definition ret :: "'a \<Rightarrow> ('s, 'e, 'a) act" where
  "ret x s = (Inr x, s)"

definition fail :: "'e \<Rightarrow> ('s, 'e, 'a) act" where
  "fail e s = (Inl e, s)"

definition andthen :: "('s, 'e, 'a) act \<Rightarrow> ('a \<Rightarrow> ('s, 'e, 'b) act) \<Rightarrow> ('s, 'e, 'b) act" where
  "andthen m f s = (case m s of (Inl e, t) \<Rightarrow> (Inl e, t) | (Inr x, t) \<Rightarrow> f x t)"

definition modify :: "('s \<Rightarrow> 's) \<Rightarrow> ('s, 'e, unit) act" where
  "modify f s = (Inr (), f s)"

definition reads :: "('s \<Rightarrow> 'a) \<Rightarrow> ('s, 'e, 'a) act" where
  "reads f s = (Inr (f s), s)"

definition ok_or :: "'e \<Rightarrow> 'a option \<Rightarrow> ('s, 'e, 'a) act" where
  "ok_or e x s = (case x of None \<Rightarrow> (Inl e, s) | Some a \<Rightarrow> (Inr a, s))"

definition lift_sum :: "'e + 'a \<Rightarrow> ('s, 'e, 'a) act" where
  "lift_sum x s = (x, s)"

definition map_err :: "('e \<Rightarrow> 'f) \<Rightarrow> ('s, 'e, 'a) act \<Rightarrow> ('s, 'f, 'a) act" where
  "map_err g m s = (case m s of (Inl e, t) \<Rightarrow> (Inl (g e), t) | (Inr x, t) \<Rightarrow> (Inr x, t))"

text \<open>\<open>for _ in 0..n\<close> around a fallible body that carries its locals in \<open>acc\<close>.\<close>

primrec repeat_act :: "nat \<Rightarrow> ('a \<Rightarrow> ('s, 'e, 'a) act) \<Rightarrow> 'a \<Rightarrow> ('s, 'e, 'a) act" where
  "repeat_act 0 body acc = ret acc"
| "repeat_act (Suc n) body acc = andthen (body acc) (repeat_act n body)"

primrec for_each :: "('x \<Rightarrow> ('s, 'e, unit) act) \<Rightarrow> 'x list \<Rightarrow> ('s, 'e, unit) act" where
  "for_each body [] = ret ()"
| "for_each body (x # xs) = andthen (body x) (\<lambda>_. for_each body xs)"

lemma ret_run [simp, act_simps]: "ret x s = (Inr x, s)"
  by (simp add: ret_def)

lemma fail_run [simp, act_simps]: "fail e s = (Inl e, s)"
  by (simp add: fail_def)

lemma modify_run [simp, act_simps]: "modify f s = (Inr (), f s)"
  by (simp add: modify_def)

lemma reads_run [simp, act_simps]: "reads f s = (Inr (f s), s)"
  by (simp add: reads_def)

lemma lift_sum_run [simp, act_simps]: "lift_sum x s = (x, s)"
  by (simp add: lift_sum_def)

lemma ok_or_run [simp, act_simps]:
  "ok_or e None s = (Inl e, s)" "ok_or e (Some a) s = (Inr a, s)"
  by (simp_all add: ok_or_def)

lemma andthen_Inr [simp, act_simps]: "m s = (Inr x, t) \<Longrightarrow> andthen m f s = f x t"
  by (simp add: andthen_def)

lemma andthen_Inl [simp, act_simps]: "m s = (Inl e, t) \<Longrightarrow> andthen m f s = (Inl e, t)"
  by (simp add: andthen_def)

lemma map_err_Inr [simp, act_simps]: "m s = (Inr x, t) \<Longrightarrow> map_err g m s = (Inr x, t)"
  by (simp add: map_err_def)

lemma map_err_Inl [simp, act_simps]: "m s = (Inl e, t) \<Longrightarrow> map_err g m s = (Inl (g e), t)"
  by (simp add: map_err_def)

lemma andthen_ret [simp]: "andthen (ret x) f = f x"
  and andthen_fail [simp]: "andthen (fail e) f = fail e"
  and andthen_ok_or_Some [simp]: "andthen (ok_or e (Some x)) f = f x"
  and andthen_ok_or_None [simp]: "andthen (ok_or e None) f = fail e"
  by (simp_all add: andthen_def fun_eq_iff)

lemma andthen_assoc: "andthen (andthen m f) g = andthen m (\<lambda>x. andthen (f x) g)"
  by (auto simp: andthen_def fun_eq_iff split: prod.splits sum.splits)

lemma andthen_InrE:
  assumes "andthen m f s = (Inr y, u)"
  obtains x t where "m s = (Inr x, t)" and "f x t = (Inr y, u)"
  using assms by (auto simp: andthen_def split: prod.splits sum.splits)

lemma ok_or_InrE:
  assumes "ok_or e x s = (Inr a, t)"
  obtains "x = Some a" and "t = s"
  using assms by (cases x) auto

lemma map_err_InrE:
  assumes "map_err g m s = (Inr a, t)"
  obtains "m s = (Inr a, t)"
  using assms by (auto simp: map_err_def split: prod.splits sum.splits)

lemma ret_InrE:
  assumes "ret x s = (Inr y, t)"
  obtains "y = x" and "t = s"
  using assms by simp

lemma for_each_append:
  "for_each body (xs @ ys) s =
     (case for_each body xs s of (Inl e, t) \<Rightarrow> (Inl e, t) | (Inr _, t) \<Rightarrow> for_each body ys t)"
  by (induction xs arbitrary: s) (auto simp: andthen_def split: prod.splits sum.splits)

text \<open>
  An invariant of the state that every successful call keeps: proved once per
  primitive action, it passes through sequencing and loops.
\<close>

definition keeps :: "('s \<Rightarrow> 's \<Rightarrow> bool) \<Rightarrow> ('s, 'e, 'a) act \<Rightarrow> bool" where
  "keeps R m \<longleftrightarrow> (\<forall>s x t. m s = (x, t) \<longrightarrow> R s t)"

lemma keepsI: "(\<And>s x t. m s = (x, t) \<Longrightarrow> R s t) \<Longrightarrow> keeps R m"
  by (simp add: keeps_def)

lemma keepsD: "keeps R m \<Longrightarrow> m s = (x, t) \<Longrightarrow> R s t"
  by (simp add: keeps_def)

lemma keeps_ret [intro]: "reflp R \<Longrightarrow> keeps R (ret x)"
  by (auto simp: keeps_def elim: reflpE)

lemma keeps_fail [intro]: "reflp R \<Longrightarrow> keeps R (fail e)"
  by (auto simp: keeps_def elim: reflpE)

lemma keeps_ok_or [intro]: "reflp R \<Longrightarrow> keeps R (ok_or e x)"
  by (cases x) (auto simp: keeps_def elim: reflpE)

lemma keeps_lift_sum [intro]: "reflp R \<Longrightarrow> keeps R (lift_sum x)"
  by (auto simp: keeps_def elim: reflpE)

lemma keeps_map_err [intro]: "keeps R m \<Longrightarrow> keeps R (map_err g m)"
  by (auto simp: keeps_def map_err_def split: prod.splits sum.splits)

lemma keeps_andthen [intro]:
  "transp R \<Longrightarrow> keeps R m \<Longrightarrow> (\<And>x. keeps R (f x)) \<Longrightarrow> keeps R (andthen m f)"
  unfolding keeps_def andthen_def transp_def
  by (fastforce split: prod.splits sum.splits)

lemma keeps_repeat_act [intro]:
  "reflp R \<Longrightarrow> transp R \<Longrightarrow> (\<And>a. keeps R (body a)) \<Longrightarrow> keeps R (repeat_act n body acc)"
  by (induction n arbitrary: acc) auto

lemma keeps_for_each [intro]:
  "reflp R \<Longrightarrow> transp R \<Longrightarrow> (\<And>x. keeps R (body x)) \<Longrightarrow> keeps R (for_each body xs)"
  by (induction xs) auto

lemma keeps_if [intro]: "keeps R m \<Longrightarrow> keeps R n \<Longrightarrow> keeps R (if b then m else n)"
  by simp

section \<open>Slices\<close>

text \<open>\<open>xs.get(a..b)\<close> and the bounds check of \<open>get_mut\<close>.\<close>

definition slice :: "'a list \<Rightarrow> nat \<Rightarrow> nat \<Rightarrow> 'a list option" where
  "slice xs a b = (if a \<le> b \<and> b \<le> length xs then Some (take (b - a) (drop a xs)) else None)"

definition get_at :: "'a list \<Rightarrow> nat \<Rightarrow> 'a option" where
  "get_at xs i = (if i < length xs then Some (xs ! i) else None)"

text \<open>\<open>dst[a..].copy_from_slice(ys)\<close> once the range is known to be inside \<open>dst\<close>.\<close>

definition splice :: "'a list \<Rightarrow> nat \<Rightarrow> 'a list \<Rightarrow> 'a list" where
  "splice xs a ys = take a xs @ ys @ drop (a + length ys) xs"

lemma length_splice [simp]: "a + length ys \<le> length xs \<Longrightarrow> length (splice xs a ys) = length xs"
  by (simp add: splice_def)

lemma take_splice [simp]: "a + length ys \<le> length xs \<Longrightarrow> take a (splice xs a ys) = take a xs"
  by (simp add: splice_def)

lemma take_splice_end:
  "a + length ys \<le> length xs \<Longrightarrow> take (a + length ys) (splice xs a ys) = take a xs @ ys"
  by (simp add: splice_def)

lemma drop_splice:
  "a + length ys \<le> length xs \<Longrightarrow> drop (a + length ys) (splice xs a ys) = drop (a + length ys) xs"
  by (simp add: splice_def)

lemma splice_Nil [simp]: "splice xs a [] = xs"
  by (simp add: splice_def)

lemma slice_Some: "a \<le> b \<Longrightarrow> b \<le> length xs \<Longrightarrow> slice xs a b = Some (take (b - a) (drop a xs))"
  by (simp add: slice_def)

lemma get_at_Some: "get_at xs i = Some x \<longleftrightarrow> i < length xs \<and> x = xs ! i"
  by (auto simp: get_at_def)

lemma get_at_drop: "drop n xs = y # ys \<Longrightarrow> get_at xs n = Some y"
  by (metis get_at_Some drop_all hd_drop_conv_nth leI list.distinct(1) list.sel(1))

lemma slice_drop:
  assumes "drop n xs = ys @ zs" and "n \<le> length xs"
  shows "slice xs n (n + length ys) = Some ys"
proof -
  have "length xs - n = length ys + length zs"
    using assms(1) by (metis length_append length_drop)
  then have "n + length ys \<le> length xs"
    using assms(2) by linarith
  then show ?thesis
    using assms by (simp add: slice_def)
qed

section \<open>Byte order\<close>

text \<open>\<open>to_be_bytes\<close> at the width \<open>n\<close>: the last \<open>n\<close> bytes of the big-endian form.\<close>

primrec be_bytes :: "nat \<Rightarrow> 'a::len word \<Rightarrow> bytes" where
  "be_bytes 0 x = []"
| "be_bytes (Suc n) x = ucast (drop_bit (8 * n) x) # be_bytes n x"

primrec le_bytes :: "nat \<Rightarrow> 'a::len word \<Rightarrow> bytes" where
  "le_bytes 0 x = []"
| "le_bytes (Suc n) x = ucast x # le_bytes n (drop_bit 8 x)"

text \<open>The accumulation \<open>value = (value << 8) | byte\<close>.\<close>

definition be_fold :: "bytes \<Rightarrow> u64 \<Rightarrow> u64" where
  "be_fold bs v = fold (\<lambda>b acc. (push_bit 8 acc) OR ucast b) bs v"

lemma length_be_bytes [simp]: "length (be_bytes n x) = n"
  by (induction n) auto

lemma length_le_bytes [simp]: "length (le_bytes n x) = n"
  by (induction n arbitrary: x) auto

lemma be_fold_step:
  fixes x :: u64
  assumes "n < 8"
  shows "push_bit 8 (drop_bit (8 * Suc n) x) OR ucast (ucast (drop_bit (8 * n) x) :: u8) =
         drop_bit (8 * n) x"
proof (rule bit_eqI)
  fix m
  assume "possible_bit TYPE(64 word) m"
  then have m: "m < 64"
    by (simp add: possible_bit_word)
  show "bit (push_bit 8 (drop_bit (8 * Suc n) x) OR ucast (ucast (drop_bit (8 * n) x) :: u8)) m
        \<longleftrightarrow> bit (drop_bit (8 * n) x) m"
    using m by (cases "m < 8") (auto simp: bit_simps algebra_simps)
qed

lemma be_fold_be_bytes:
  fixes x :: u64
  assumes "n \<le> 8"
  shows "be_fold (be_bytes n x) (drop_bit (8 * n) x) = x"
  using assms
proof (induction n)
  case 0
  then show ?case by (simp add: be_fold_def)
next
  case (Suc n)
  have "be_fold (be_bytes (Suc n) x) (drop_bit (8 * Suc n) x) =
        be_fold (be_bytes n x)
          (push_bit 8 (drop_bit (8 * Suc n) x) OR ucast (ucast (drop_bit (8 * n) x) :: u8))"
    by (simp add: be_fold_def)
  also have "\<dots> = be_fold (be_bytes n x) (drop_bit (8 * n) x)"
    using Suc.prems by (subst be_fold_step) simp_all
  finally show ?case
    using Suc by simp
qed

lemma be_fold_inverse:
  fixes x :: u64
  assumes "n \<le> 8" and "unat x < 2 ^ (8 * n)"
  shows "be_fold (be_bytes n x) 0 = x"
proof -
  have "unat (drop_bit (8 * n) x) = unat x div 2 ^ (8 * n)"
    using unat_drop_bit_eq [of "8 * n" x] drop_bit_eq_div [of "8 * n" "unat x"]
    by (rule trans)
  then have "drop_bit (8 * n) x = 0"
    using assms(2) by (simp add: unat_eq_zero)
  then show ?thesis
    using be_fold_be_bytes [OF assms(1), of x] by simp
qed

lemma ucast_id_u8 [simp]: "(ucast (x :: u8) :: u8) = x"
  by simp

end
