(* ===== verification/Crc.thy ===== *)
theory Crc
  imports Prelude
begin

text \<open>
  \<open>crates/km43/src/crc.rs\<close>: CRC-16/CCITT-FALSE, bit by bit on a 16-bit register,
  and what it detects. The register update is linear over exclusive or and each bit
  step is injective, so two messages that differ only in two adjacent bytes never
  share a checksum.
\<close>

section \<open>The checksum\<close>

definition POLY :: u16 where "POLY = 0x1021"
definition INIT :: u16 where "INIT = 0xFFFF"

definition crc_bit :: "u16 \<Rightarrow> u16" where
  "crc_bit crc = (if crc AND 0x8000 = 0 then push_bit 1 crc else (push_bit 1 crc) XOR POLY)"

definition crc_byte :: "u8 \<Rightarrow> u16 \<Rightarrow> u16" where
  "crc_byte byte crc = (crc_bit ^^ 8) (crc XOR push_bit 8 (ucast byte))"

lemma funpow_numeral: "(f ^^ numeral k) x = (f ^^ pred_numeral k) (f x)"
  by (simp only: numeral_eq_Suc funpow_Suc_right comp_apply)

definition crc16 :: "bytes \<Rightarrow> u16" where
  "crc16 data = fold crc_byte data INIT"

text \<open>\<open>u16::to_le_bytes\<close> and \<open>u16::from_le_bytes\<close>, the order the frame carries it in.\<close>

definition u16_to_le :: "u16 \<Rightarrow> bytes" where
  "u16_to_le c = [ucast c, ucast (drop_bit 8 c)]"

definition u16_from_le :: "u8 \<Rightarrow> u8 \<Rightarrow> u16" where
  "u16_from_le low high = ucast low OR push_bit 8 (ucast high)"

lemma u16_from_to_le: "u16_from_le (ucast c) (ucast (drop_bit 8 c)) = c"
proof (rule bit_eqI)
  fix n
  assume "possible_bit TYPE(16 word) n"
  then show "bit (u16_from_le (ucast c) (ucast (drop_bit 8 c))) n = bit c n"
    by (cases "n < 8") (auto simp: u16_from_le_def bit_simps possible_bit_word)
qed

lemma bit_u16_from_le: "n < 16 \<Longrightarrow>
  bit (u16_from_le low high) n = (if n < 8 then bit low n else bit high (n - 8))"
  using bit_imp_le_length [of low n]
  by (auto simp: u16_from_le_def bit_or_iff bit_push_bit_iff bit_ucast_iff possible_bit_word)

lemma u16_to_from_le: "u16_to_le (u16_from_le low high) = [low, high]"
proof -
  have "bit (ucast (u16_from_le low high) :: u8) n = bit low n" if "n < 8" for n
    using that by (simp add: bit_ucast_iff bit_u16_from_le)
  then have "ucast (u16_from_le low high) = low"
    by (intro bit_word_eqI) simp
  moreover have "bit (ucast (drop_bit 8 (u16_from_le low high)) :: u8) n = bit high n" if "n < 8" for n
    using that bit_u16_from_le [of "8 + n"] by (simp only: bit_ucast_iff bit_drop_bit_eq) simp
  then have "ucast (drop_bit 8 (u16_from_le low high)) = high"
    by (intro bit_word_eqI) simp
  ultimately show ?thesis
    by (simp add: u16_to_le_def)
qed
lemma length_u16_to_le [simp]: "length (u16_to_le c) = 2"
  by (simp add: u16_to_le_def)

section \<open>Linearity and injectivity\<close>

lemma bit_8000: "bit (0x8000 :: u16) n \<longleftrightarrow> n = 15"
proof -
  have "(0x8000 :: u16) = 2 ^ 15"
    by simp
  then have "bit (0x8000 :: u16) n \<longleftrightarrow> bit (2 ^ 15 :: u16) n"
    by (rule arg_cong)
  also have "\<dots> \<longleftrightarrow> n = 15"
    by (simp only: bit_exp_iff possible_bit_word) auto
  finally show ?thesis .
qed

lemma and_8000: "(c :: u16) AND 0x8000 = (if bit c 15 then 0x8000 else 0)"
proof (rule bit_word_eqI)
  fix n
  show "bit (c AND 0x8000) n = bit (if bit c 15 then 0x8000 else 0 :: u16) n"
    by (cases "bit c 15"; cases "n = 15") (simp_all only: bit_and_iff bit_8000 if_True if_False bit_0_eq bot_fun_def bot_bool_def simp_thms)
qed

lemma and_8000_eq_0: "(c :: u16) AND 0x8000 = 0 \<longleftrightarrow> \<not> bit c 15"
  by (simp only: and_8000) simp

lemma crc_bit_alt: "crc_bit c = (push_bit 1 c) XOR (if bit c 15 then POLY else 0)"
  by (simp add: crc_bit_def and_8000_eq_0)

lemma push_bit_xor_u16: "push_bit n (a XOR b :: u16) = push_bit n a XOR push_bit n b"
  by (rule bit_eqI) (auto simp: bit_simps)

lemma crc_bit_xor: "crc_bit (a XOR b) = crc_bit a XOR crc_bit b"
  by (rule bit_eqI) (auto simp: crc_bit_alt push_bit_xor_u16 bit_simps)

lemma bit_POLY_0: "bit POLY 0"
  by (simp add: POLY_def)

lemma bit_push_1_0: "\<not> bit (push_bit 1 (c :: u16)) 0"
  by (simp only: bit_push_bit_iff) simp

lemma crc_bit_eq_0: "crc_bit c = 0 \<longleftrightarrow> c = 0"
proof
  assume z: "crc_bit c = 0"
  have "bit (crc_bit c) 0 \<longleftrightarrow> bit c 15"
    using bit_push_1_0 [of c] by (simp only: crc_bit_alt bit_xor_iff) (simp add: bit_POLY_0)
  with z have top: "\<not> bit c 15"
    by simp
  with z have shifted: "push_bit 1 c = 0"
    by (simp add: crc_bit_alt)
  show "c = 0"
  proof (rule bit_eqI)
    fix n
    assume "possible_bit TYPE(16 word) n"
    then have n: "n < 16"
      by (simp add: possible_bit_word)
    have "\<not> bit (push_bit 1 c) (Suc n)"
      by (simp only: shifted) simp
    then have "\<not> bit c n" if "n \<noteq> 15"
      using n that by (simp only: bit_push_bit_iff possible_bit_word) simp
    with top show "bit c n = bit (0 :: u16) n"
      by (cases "n = 15") simp_all
  qed
qed (simp add: crc_bit_alt)

lemma xor_eq_0_u16: "(a :: u16) XOR b = 0 \<longleftrightarrow> a = b"
  by (auto simp: bit_eq_iff bit_simps possible_bit_word)

lemma crc_bit_inj: "crc_bit a = crc_bit b \<longleftrightarrow> a = b"
  by (metis crc_bit_eq_0 crc_bit_xor xor_eq_0_u16)

lemma crc_bits_xor: "(crc_bit ^^ n) (a XOR b) = (crc_bit ^^ n) a XOR (crc_bit ^^ n) b"
  by (induction n) (auto simp: crc_bit_xor)

lemma crc_bits_inj: "(crc_bit ^^ n) a = (crc_bit ^^ n) b \<longleftrightarrow> a = b"
  by (induction n) (auto simp: crc_bit_inj)

lemma xor_right_cancel_u16: "(a :: u16) XOR c = b XOR c \<longleftrightarrow> a = b"
  by (metis xor.assoc xor.right_neutral xor_self_eq)

lemma xor_left_cancel_u16: "(c :: u16) XOR a = c XOR b \<longleftrightarrow> a = b"
  using xor_right_cancel_u16 [of a c b] by (simp only: xor.commute)

lemma crc_byte_inj: "crc_byte x c = crc_byte x d \<longleftrightarrow> c = d"
  by (simp only: crc_byte_def crc_bits_inj xor_right_cancel_u16)

lemma fold_crc_inj: "fold crc_byte xs c = fold crc_byte xs d \<longleftrightarrow> c = d"
  by (induction xs arbitrary: c d) (auto simp: crc_byte_inj)

text \<open>Eight bit steps move a low byte to the top half: no bit has been fed back yet.\<close>

lemma crc_bits_low: "n \<le> 8 \<Longrightarrow> (crc_bit ^^ n) (ucast (x :: u8)) = push_bit n (ucast x)"
proof (induction n)
  case (Suc n)
  then have "\<not> bit (push_bit n (ucast x :: u16)) 15"
    using bit_imp_le_length [of x "15 - n"] by (auto simp: bit_simps)
  with Suc show ?case
    by (simp only: funpow.simps comp_apply crc_bit_alt push_bit_push_bit if_False Suc_leD)
      (simp add: ac_simps)
qed simp

lemma crc_two_bytes:
  "crc_byte y (crc_byte x c) =
   (crc_bit ^^ 16) (c XOR push_bit 8 (ucast x) XOR ucast y)"
proof -
  have y: "push_bit 8 (ucast y) = (crc_bit ^^ 8) (ucast y)"
    by (simp add: crc_bits_low)
  have "crc_byte y (crc_byte x c) =
        (crc_bit ^^ 8) ((crc_bit ^^ 8) (c XOR push_bit 8 (ucast x)) XOR (crc_bit ^^ 8) (ucast y))"
    by (simp add: crc_byte_def y)
  also have "\<dots> = (crc_bit ^^ 8) ((crc_bit ^^ 8) (c XOR push_bit 8 (ucast x) XOR ucast y))"
    by (simp only: crc_bits_xor xor.assoc)
  also have "\<dots> = (crc_bit ^^ (8 + 8)) (c XOR push_bit 8 (ucast x) XOR ucast y)"
    by (simp only: funpow_add comp_apply)
  finally show ?thesis by simp
qed

lemma pair_eq_of_xor:
  fixes x x' y y' :: u8
  assumes "push_bit 8 (ucast x) XOR ucast y = (push_bit 8 (ucast x') XOR ucast y' :: u16)"
  shows "x = x' \<and> y = y'"
proof -
  have b: "bit (push_bit 8 (ucast x) XOR ucast y :: u16) n =
           bit (push_bit 8 (ucast x') XOR ucast y' :: u16) n" for n
    using assms by simp
  have high: "\<not> bit (w :: u8) (n + 8)" for w n
    using bit_imp_le_length [of w "n + 8"] by auto
  have "bit y n = bit y' n" if "n < 8" for n
    using b [of n] that by (simp add: bit_simps)
  moreover have "bit x n = bit x' n" if "n < 8" for n
    using b [of "n + 8"] that by (simp add: bit_simps high)
  ultimately show ?thesis
    by (auto intro!: bit_word_eqI)
qed

lemma crc_two_bytes_inj:
  "crc_byte y (crc_byte x c) = crc_byte y' (crc_byte x' c) \<longleftrightarrow> x = x' \<and> y = y'"
proof
  assume "crc_byte y (crc_byte x c) = crc_byte y' (crc_byte x' c)"
  then have "c XOR push_bit 8 (ucast x) XOR ucast y = c XOR push_bit 8 (ucast x') XOR ucast y'"
    by (simp only: crc_two_bytes crc_bits_inj)
  then have "push_bit 8 (ucast x) XOR ucast y = (push_bit 8 (ucast x') XOR ucast y' :: u16)"
    by (simp only: xor.assoc xor_left_cancel_u16)
  then show "x = x' \<and> y = y'"
    by (rule pair_eq_of_xor)
qed simp

lemma crc16_append: "crc16 (xs @ ys) = fold crc_byte ys (crc16 xs)"
  by (simp add: crc16_def)

section \<open>Properties\<close>

text \<open>The check value published for CRC-16/CCITT-FALSE: the nine ASCII digits
  \<open>123456789\<close> give \<open>0x29B1\<close>, which the crate asserts at compile time.\<close>

theorem crc16_check_value: "crc16 [0x31, 0x32, 0x33, 0x34, 0x35, 0x36, 0x37, 0x38, 0x39] = 0x29B1"
  by (simp add: crc16_def crc_byte_def crc_bit_def POLY_def INIT_def funpow_numeral)

text \<open>Corruption confined to two adjacent bytes of a message, at any position and with
  any bytes around it, changes the CRC; so does corruption of one byte.\<close>

theorem crc16_detects_adjacent_bytes:
  "crc16 (before @ [x, y] @ after) = crc16 (before @ [x', y'] @ after) \<longleftrightarrow> x = x' \<and> y = y'"
  by (simp add: crc16_append fold_crc_inj crc_two_bytes_inj)

end
