(* ===== verification/Cobs.thy ===== *)
theory Cobs
  imports Prelude
begin

text \<open>
  \<open>crates/km43/src/cobs.rs\<close>: the COBS encoder and decoder over buffers the caller
  owns. \<open>cobs_encode\<close> and \<open>cobs_decode\<close> follow the code's \<open>Encoder\<close> and
  \<open>Decoder\<close> step by step, destination buffer included; \<open>enc_spec\<close> and \<open>dec_spec\<close>
  are the list functions they are proved to implement, and the round trip is proved
  once on the list functions.
\<close>

section \<open>The code\<close>

datatype cobs_error =
    CobsDestinationTooSmall
  | EmptyFrame
  | ZeroCodeByte
  | ZeroInBlock
  | BlockRunsPastEnd

definition MAX_CODE :: u8 where "MAX_CODE = 0xFF"
definition MAX_BLOCK_DATA :: nat where "MAX_BLOCK_DATA = 254"

definition max_encoded_len :: "nat \<Rightarrow> nat" where
  "max_encoded_len payload =
     saturating_add (saturating_add payload (payload div MAX_BLOCK_DATA)) 1"

record encoder =
  e_dst :: bytes
  code_at :: nat
  e_next :: nat
  code :: u8

definition encoder_new :: "bytes \<Rightarrow> cobs_error + encoder" where
  "encoder_new dst =
     (if dst = [] then Inl CobsDestinationTooSmall
      else Inr \<lparr>e_dst = dst, code_at = 0, e_next = 1, code = 1\<rparr>)"

text \<open>\<open>code.saturating_add(1)\<close> on a byte.\<close>

definition sat_inc8 :: "u8 \<Rightarrow> u8" where
  "sat_inc8 c = (if c = 0xFF then 0xFF else c + 1)"

definition enc_put :: "u8 \<Rightarrow> (encoder, cobs_error, unit) act" where
  "enc_put byte e =
     (if e_next e < length (e_dst e)
      then (Inr (), e\<lparr>e_dst := (e_dst e)[e_next e := byte], e_next := e_next e + 1,
                      code := sat_inc8 (code e)\<rparr>)
      else (Inl CobsDestinationTooSmall, e))"

definition enc_close :: "(encoder, cobs_error, unit) act" where
  "enc_close e =
     (if code_at e < length (e_dst e)
      then let e' = e\<lparr>e_dst := (e_dst e)[code_at e := code e]\<rparr>
           in if e_next e' \<ge> length (e_dst e') then (Inl CobsDestinationTooSmall, e')
              else (Inr (), e'\<lparr>code_at := e_next e', e_next := e_next e' + 1, code := 1\<rparr>)
      else (Inl CobsDestinationTooSmall, e))"

definition enc_push :: "u8 \<Rightarrow> (encoder, cobs_error, unit) act" where
  "enc_push byte e =
     andthen (if code e = MAX_CODE then enc_close else ret ())
       (\<lambda>_. if byte = 0 then enc_close else enc_put byte) e"

definition enc_finish :: "(encoder, cobs_error, nat) act" where
  "enc_finish e =
     (if code_at e < length (e_dst e)
      then (Inr (e_next e), e\<lparr>e_dst := (e_dst e)[code_at e := code e]\<rparr>)
      else (Inl CobsDestinationTooSmall, e))"

text \<open>\<open>encode\<close>, with the destination as it is left.\<close>

definition cobs_encode :: "bytes \<Rightarrow> bytes \<Rightarrow> (cobs_error + nat) \<times> bytes" where
  "cobs_encode src dst =
     (if length dst < max_encoded_len (length src) then (Inl CobsDestinationTooSmall, dst)
      else case encoder_new dst of
             Inl err \<Rightarrow> (Inl err, dst)
           | Inr enc \<Rightarrow>
               (case andthen (for_each enc_push src) (\<lambda>_. enc_finish) enc of
                  (r, enc') \<Rightarrow> (r, e_dst enc')))"

record decoder =
  d_src :: bytes
  d_read :: nat
  d_dst :: bytes
  d_written :: nat

definition dec_put :: "u8 \<Rightarrow> (decoder, cobs_error, unit) act" where
  "dec_put byte d =
     (if d_written d < length (d_dst d)
      then (Inr (), d\<lparr>d_dst := (d_dst d)[d_written d := byte], d_written := d_written d + 1\<rparr>)
      else (Inl CobsDestinationTooSmall, d))"

definition copy_byte :: "u8 \<Rightarrow> (decoder, cobs_error, unit) act" where
  "copy_byte byte d = (if byte = 0 then (Inl ZeroInBlock, d) else dec_put byte d)"

definition copy_block :: "u8 \<Rightarrow> (decoder, cobs_error, unit) act" where
  "copy_block c d =
     (let stop = saturating_add (d_read d) (unat c - 1)
      in case slice (d_src d) (d_read d) stop of
           None \<Rightarrow> (Inl BlockRunsPastEnd, d)
         | Some block \<Rightarrow>
             andthen (for_each copy_byte block) (\<lambda>_. modify (\<lambda>d. d\<lparr>d_read := stop\<rparr>)) d)"

definition same_input :: "decoder \<Rightarrow> decoder \<Rightarrow> bool" where
  "same_input d d' \<longleftrightarrow> d_src d' = d_src d \<and> d_read d' = d_read d"

lemma same_input_preorder [simp, intro]: "reflp same_input" "transp same_input"
  by (auto simp: same_input_def reflp_def transp_def)

lemma dec_put_input: "keeps same_input (dec_put b)"
  by (auto simp: keeps_def same_input_def dec_put_def split: if_splits)

lemma copy_byte_input: "keeps same_input (copy_byte b)"
  using dec_put_input [of b] by (auto simp: keeps_def copy_byte_def same_input_def)

lemma for_each_copy_input: "keeps same_input (for_each copy_byte bs)"
  by (auto intro: copy_byte_input)

lemma copy_block_progress:
  assumes "copy_block c (d\<lparr>d_read := Suc (d_read d)\<rparr>) = (Inr u, d')"
  shows "d_src d' = d_src d \<and> d_read d < d_read d' \<and> d_read d' \<le> length (d_src d)"
  using assms
  by (auto simp: copy_block_def Let_def andthen_def slice_def same_input_def
        dest!: keepsD [OF for_each_copy_input] split: option.splits if_splits prod.splits sum.splits)

text \<open>The \<open>while let\<close> of \<open>Decoder::run\<close>: every block moves \<open>read\<close> forward.\<close>

function dec_run :: "(decoder, cobs_error, nat) act" where
  "dec_run d =
     (case get_at (d_src d) (d_read d) of
        None \<Rightarrow> (Inr (d_written d), d)
      | Some c \<Rightarrow>
          if c = 0 then (Inl ZeroCodeByte, d)
          else case copy_block c (d\<lparr>d_read := d_read d + 1\<rparr>) of
                 (Inl err, d') \<Rightarrow> (Inl err, d')
               | (Inr _, d') \<Rightarrow>
                   (if c \<noteq> MAX_CODE \<and> d_read d' < length (d_src d')
                    then case dec_put 0 d' of
                           (Inl err, d'') \<Rightarrow> (Inl err, d'')
                         | (Inr _, d'') \<Rightarrow> dec_run d''
                    else dec_run d'))"
  by pat_completeness auto
termination
  by (relation "measure (\<lambda>d. length (d_src d) - d_read d)")
    (auto simp: get_at_Some same_input_def dest!: sym [of "(_, _)"]
      dest!: copy_block_progress keepsD [OF dec_put_input] intro!: diff_less_mono2)

declare dec_run.simps [simp del]

definition cobs_decode :: "bytes \<Rightarrow> bytes \<Rightarrow> (cobs_error + nat) \<times> bytes" where
  "cobs_decode src dst =
     (if src = [] then (Inl EmptyFrame, dst)
      else case dec_run \<lparr>d_src = src, d_read = 0, d_dst = dst, d_written = 0\<rparr> of
             (r, d) \<Rightarrow> (r, d_dst d))"

section \<open>The list functions it implements\<close>

text \<open>
  \<open>enc_spec blk xs\<close> is the encoding of \<open>xs\<close> with \<open>blk\<close> already held in the block
  in progress; a full block is closed only when another byte turns up.
\<close>

definition block_code :: "bytes \<Rightarrow> u8" where
  "block_code blk = of_nat (Suc (length blk))"

fun enc_spec :: "bytes \<Rightarrow> bytes \<Rightarrow> bytes" where
  "enc_spec blk [] = block_code blk # blk"
| "enc_spec blk (x # xs) =
     (if length blk = 254
      then block_code blk # blk @ (if x = 0 then block_code [] # enc_spec [] xs else enc_spec [x] xs)
      else if x = 0 then block_code blk # blk @ enc_spec [] xs
      else enc_spec (blk @ [x]) xs)"

fun dec_spec :: "bytes \<Rightarrow> cobs_error + bytes" where
  "dec_spec [] = Inr []"
| "dec_spec (c # xs) =
     (if c = 0 then Inl ZeroCodeByte
      else let n = unat c - 1 in
           if length xs < n then Inl BlockRunsPastEnd
           else if 0 \<in> set (take n xs) then Inl ZeroInBlock
           else case dec_spec (drop n xs) of
                  Inl err \<Rightarrow> Inl err
                | Inr ys \<Rightarrow> Inr (take n xs @ (if c \<noteq> MAX_CODE \<and> drop n xs \<noteq> [] then [0] else []) @ ys))"

lemma block_code_unat: "length blk \<le> 254 \<Longrightarrow> unat (block_code blk) = Suc (length blk)"
  by (simp add: block_code_def unat_of_nat del: of_nat_Suc)

lemma block_code_pos: "length blk \<le> 254 \<Longrightarrow> block_code blk \<noteq> 0"
  using block_code_unat [of blk] by (metis nat.distinct(1) unat_0)

lemma block_code_max: "length blk \<le> 254 \<Longrightarrow> block_code blk = MAX_CODE \<longleftrightarrow> length blk = 254"
  by (simp add: word_unat_eq_iff block_code_unat MAX_CODE_def)

lemma enc_spec_nonempty [simp]: "enc_spec blk xs \<noteq> []"
  by (induction blk xs rule: enc_spec.induct) auto

lemma enc_spec_ge: "length blk < length (enc_spec blk xs)"
  by (induction blk xs rule: enc_spec.induct) auto

lemma enc_spec_zero_free:
  "length blk \<le> 254 \<Longrightarrow> 0 \<notin> set blk \<Longrightarrow> 0 \<notin> set (enc_spec blk xs)"
  by (induction blk xs rule: enc_spec.induct)
    (auto simp: block_code_pos [symmetric] dest: block_code_pos)

lemma enc_spec_length:
  "length blk \<le> 254 \<Longrightarrow>
   length (enc_spec blk xs) \<le> Suc (length blk + length xs + (length blk + length xs) div 254)"
proof (induction blk xs rule: enc_spec.induct)
  case (2 blk x xs)
  have step: "(254 + n) div 254 = Suc (n div 254)" for n :: nat
    by simp
  show ?case
    using 2 by (auto simp: step Suc_le_eq intro: le_trans [OF _ div_le_mono] simp flip: add_Suc_right)
qed simp

lemma dec_enc_spec:
  "length blk \<le> 254 \<Longrightarrow> 0 \<notin> set blk \<Longrightarrow> dec_spec (enc_spec blk xs) = Inr (blk @ xs)"
  by (induction blk xs rule: enc_spec.induct)
    (auto simp: Let_def block_code_unat block_code_pos block_code_max)

lemma dec_spec_length: "dec_spec xs = Inr ys \<Longrightarrow> xs \<noteq> [] \<Longrightarrow> length ys < length xs"
proof (induction xs arbitrary: ys rule: dec_spec.induct)
  case (2 c xs)
  then show ?case
    by (cases "drop (unat c - 1) xs = []")
      (fastforce simp: Let_def split: if_splits sum.splits)+
qed simp

section \<open>The encoder writes \<open>enc_spec\<close>\<close>

text \<open>
  An encoder in the middle of a run: \<open>out\<close> is closed, \<open>h\<close> is the byte held back for
  the code of the block in progress, \<open>blk\<close> its data, and \<open>room\<close> the buffer not yet
  touched.
\<close>

definition enc_state :: "bytes \<Rightarrow> u8 \<Rightarrow> bytes \<Rightarrow> bytes \<Rightarrow> encoder" where
  "enc_state out h blk room =
     \<lparr>e_dst = out @ h # blk @ room, code_at = length out,
      e_next = Suc (length out + length blk), code = block_code blk\<rparr>"

lemma enc_put_state:
  "length blk < 254 \<Longrightarrow>
   enc_put b (enc_state out h blk (t # room)) = (Inr (), enc_state out h (blk @ [b]) room)"
  using block_code_max [of blk]
  by (auto simp: enc_put_def enc_state_def sat_inc8_def block_code_def nth_append
      list_update_append MAX_CODE_def)

lemma enc_close_state:
  "enc_close (enc_state out h blk (t # room)) =
   (Inr (), enc_state (out @ block_code blk # blk) t [] room)"
  by (simp add: enc_close_def enc_state_def block_code_def Let_def list_update_append)

lemma enc_finish_state:
  "enc_finish (enc_state out h blk room) =
   (Inr (Suc (length out + length blk)), enc_state out (block_code blk) blk room)"
  by (simp add: enc_finish_def enc_state_def list_update_append)

lemma enc_push_open:
  "length blk < 254 \<Longrightarrow>
   enc_push b (enc_state out h blk room) =
   (if b = 0 then enc_close else enc_put b) (enc_state out h blk room)"
  using block_code_max [of blk] by (simp add: enc_push_def enc_state_def)

lemma enc_push_full:
  "length blk = 254 \<Longrightarrow>
   enc_push b (enc_state out h blk (t # room)) =
   (if b = 0 then enc_close else enc_put b) (enc_state (out @ block_code blk # blk) t [] room)"
  using block_code_max [of blk]
  by (simp add: enc_push_def enc_close_state) (simp add: enc_state_def)

definition enc_run :: "bytes \<Rightarrow> (encoder, cobs_error, nat) act" where
  "enc_run src = andthen (for_each enc_push src) (\<lambda>_. enc_finish)"

lemma enc_run_Cons: "enc_run (x # xs) = andthen (enc_push x) (\<lambda>_. enc_run xs)"
  by (auto simp: enc_run_def andthen_def fun_eq_iff split: prod.splits sum.splits)

lemma enc_run_state:
  assumes "length blk \<le> 254" and "length (enc_spec blk xs) \<le> Suc (length blk + length room)"
  shows "\<exists>e. enc_run xs (enc_state out h blk room) =
              (Inr (length out + length (enc_spec blk xs)), e) \<and>
             e_dst e = out @ enc_spec blk xs @
                       drop (length (enc_spec blk xs) - Suc (length blk)) room"
  using assms
proof (induction blk xs arbitrary: out h room rule: enc_spec.induct)
  case (1 blk)
  show ?case
    by (simp add: enc_run_def enc_finish_state) (simp add: enc_state_def)
next
  case (2 blk x xs)
  have pos: "0 < length (enc_spec b ys)" for b ys
    by simp
  consider (full_zero) "length blk = 254" "x = 0" | (full) "length blk = 254" "x \<noteq> 0"
    | (zero) "length blk < 254" "x = 0" | (put) "length blk < 254" "x \<noteq> 0"
    using "2.prems"(1) by linarith
  then show ?case
  proof cases
    case full_zero
    with "2.prems" have "2 + length (enc_spec [] xs) \<le> Suc (length room)" by simp
    with pos [of "[]" xs] obtain t u room' where room: "room = t # u # room'"
      by (cases room; cases "List.tl room") auto
    let ?out = "out @ block_code blk # blk @ [block_code []]"
    have step: "enc_push x (enc_state out h blk room) = (Inr (), enc_state ?out u [] room')"
      using full_zero by (simp add: room enc_push_full enc_close_state)
    have "length (enc_spec [] xs) \<le> Suc (length [] + length room')"
      using full_zero "2.prems" room by simp
    from "2.IH"(1) [OF full_zero _ this, of ?out u] step full_zero room show ?thesis
      using pos [of "[]" xs] by (auto simp: enc_run_Cons drop_Cons')
  next
    case full
    with "2.prems" enc_spec_ge [of "[x]" xs] have "2 < Suc (length room)"
      by simp
    then obtain t u room' where room: "room = t # u # room'"
      by (cases room; cases "List.tl room") auto
    let ?out = "out @ block_code blk # blk"
    have step: "enc_push x (enc_state out h blk room) = (Inr (), enc_state ?out t [x] room')"
      using full by (simp add: room enc_push_full enc_put_state)
    have "length (enc_spec [x] xs) \<le> Suc (length [x] + length room')"
      using full "2.prems" room by simp
    from "2.IH"(2) [OF full _ this, of ?out t] step full room show ?thesis
      using enc_spec_ge [of "[x]" xs] by (auto simp: enc_run_Cons drop_Cons' numeral_2_eq_2)
  next
    case zero
    with "2.prems" pos [of "[]" xs] obtain t room' where room: "room = t # room'"
      by (cases room) auto
    let ?out = "out @ block_code blk # blk"
    have step: "enc_push x (enc_state out h blk room) = (Inr (), enc_state ?out t [] room')"
      using zero by (simp add: room enc_push_open enc_close_state)
    have "length (enc_spec [] xs) \<le> Suc (length [] + length room')"
      using zero "2.prems" room by simp
    from "2.IH"(3) [OF _ _ _ this, of ?out t] step zero room show ?thesis
      using pos [of "[]" xs] by (auto simp: enc_run_Cons drop_Cons')
  next
    case put
    with "2.prems" obtain t room' where room: "room = t # room'"
      using enc_spec_ge [of "blk @ [x]" xs] by (cases room) auto
    have step: "enc_push x (enc_state out h blk room) = (Inr (), enc_state out h (blk @ [x]) room')"
      using put by (simp add: room enc_push_open enc_put_state)
    have "length (enc_spec (blk @ [x]) xs) \<le> Suc (length (blk @ [x]) + length room')"
      using put "2.prems" room by simp
    from "2.IH"(4) [OF _ _ _ this, of out h] step put room show ?thesis
      using enc_spec_ge [of "blk @ [x]" xs] by (auto simp: enc_run_Cons drop_Cons')
  qed
qed

text \<open>
  The whole call, for a message whose bound does not overflow a \<open>usize\<close>: the destination
  holds the encoding followed by its own old bytes.
\<close>

lemma max_encoded_len_eq:
  "2 * n < usize_max \<Longrightarrow> max_encoded_len n = Suc (n + n div 254)"
proof -
  assume "2 * n < usize_max"
  moreover have "n div 254 \<le> n" by simp
  ultimately show ?thesis
    by (simp add: max_encoded_len_def MAX_BLOCK_DATA_def saturating_add_def)
qed

lemma enc_spec_fits: "2 * length src < usize_max \<Longrightarrow>
  length (enc_spec [] src) \<le> max_encoded_len (length src)"
  using enc_spec_length [of "[]" src] by (simp add: max_encoded_len_eq)

lemma cobs_encode_eq:
  assumes "2 * length src < usize_max" and "max_encoded_len (length src) \<le> length dst"
  shows "cobs_encode src dst =
         (Inr (length (enc_spec [] src)), splice dst 0 (enc_spec [] src))"
proof -
  have fits: "length (enc_spec [] src) \<le> length dst"
    using assms enc_spec_fits order_trans by blast
  then obtain h room where dst: "dst = h # room"
    using enc_spec_ge [of "[]" src] by (cases dst) auto
  have new: "encoder_new dst = Inr (enc_state [] h [] room)"
    by (simp add: dst encoder_new_def enc_state_def block_code_def)
  from fits dst have "length (enc_spec [] src) \<le> Suc (length [] + length room)"
    by simp
  from enc_run_state [OF _ this, of "[]" h] show ?thesis
    using assms(2) new enc_spec_ge [of "[]" src]
    by (auto simp: cobs_encode_def splice_def dst drop_Cons' simp flip: enc_run_def)
qed

lemma cobs_encode_small:
  "length dst < max_encoded_len (length src) \<Longrightarrow>
   cobs_encode src dst = (Inl CobsDestinationTooSmall, dst)"
  by (simp add: cobs_encode_def)

section \<open>The decoder computes \<open>dec_spec\<close>\<close>

definition put_all :: "bytes \<Rightarrow> decoder \<Rightarrow> decoder" where
  "put_all ys d = d\<lparr>d_dst := splice (d_dst d) (d_written d) ys, d_written := d_written d + length ys\<rparr>"

lemma put_all_fields [simp]:
  "d_src (put_all ys d) = d_src d" "d_read (put_all ys d) = d_read d"
  "d_written (put_all ys d) = d_written d + length ys"
  "d_dst (put_all ys d) = splice (d_dst d) (d_written d) ys"
  by (simp_all add: put_all_def)

lemma put_all_Nil [simp]: "put_all [] d = d"
  by (simp add: put_all_def)

lemma put_all_append:
  "d_written d + length xs + length ys \<le> length (d_dst d) \<Longrightarrow>
   put_all ys (put_all xs d) = put_all (xs @ ys) d"
  by (simp add: put_all_def splice_def drop_append ac_simps)

lemma dec_put_room:
  "d_written d < length (d_dst d) \<Longrightarrow> dec_put b d = (Inr (), put_all [b] d)"
  by (simp add: dec_put_def put_all_def splice_def upd_conv_take_nth_drop)

lemma dec_put_full:
  "\<not> d_written d < length (d_dst d) \<Longrightarrow> dec_put b d = (Inl CobsDestinationTooSmall, d)"
  by (simp add: dec_put_def)

lemma copy_room:
  "d_written d + length bs \<le> length (d_dst d) \<Longrightarrow> 0 \<notin> set bs \<Longrightarrow>
   for_each copy_byte bs d = (Inr (), put_all bs d)"
proof (induction bs arbitrary: d)
  case (Cons b bs)
  then have "copy_byte b d = (Inr (), put_all [b] d)"
    by (simp add: copy_byte_def dec_put_room)
  moreover have "for_each copy_byte bs (put_all [b] d) = (Inr (), put_all bs (put_all [b] d))"
    using Cons by auto
  ultimately show ?case
    using Cons.prems by (simp add: put_all_append)
qed simp

lemma copy_no_room:
  "length (d_dst d) < d_written d + length bs \<Longrightarrow> 0 \<notin> set bs \<Longrightarrow> d_written d \<le> length (d_dst d) \<Longrightarrow>
   fst (for_each copy_byte bs d) = Inl CobsDestinationTooSmall"
proof (induction bs arbitrary: d)
  case (Cons b bs)
  then show ?case
    by (cases "d_written d < length (d_dst d)")
      (simp_all add: copy_byte_def dec_put_room dec_put_full)
qed simp

lemma copy_zero:
  "d_written d + length bs \<le> length (d_dst d) \<Longrightarrow> 0 \<in> set bs \<Longrightarrow>
   fst (for_each copy_byte bs d) = Inl ZeroInBlock"
proof (induction bs arbitrary: d)
  case (Cons b bs)
  then show ?case
    by (cases "b = 0") (simp_all add: copy_byte_def dec_put_room)
qed simp

definition at_input :: "decoder \<Rightarrow> bytes \<Rightarrow> bool" where
  "at_input d xs \<longleftrightarrow>
     drop (d_read d) (d_src d) = xs \<and> d_read d \<le> length (d_src d) \<and>
     length (d_src d) + 255 \<le> usize_max"

lemma at_input_Cons:
  assumes "at_input d (c # xs)"
  shows "get_at (d_src d) (d_read d) = Some c" and "at_input (d\<lparr>d_read := Suc (d_read d)\<rparr>) xs"
  using assms unfolding at_input_def
  by (auto simp: get_at_drop drop_Suc simp flip: tl_drop intro: Suc_leI)
    (metis Suc_leI drop_all list.distinct(1) not_le_imp_less)

lemma at_input_drop:
  assumes "at_input d xs" and "n \<le> length xs"
  shows "at_input (d\<lparr>d_read := d_read d + n\<rparr>) (drop n xs)"
  using assms by (auto simp: at_input_def add.commute)

lemma at_input_put_all [simp]: "at_input (put_all ys d) xs = at_input d xs"
  by (simp add: at_input_def)

lemma at_input_slice:
  "at_input d xs \<Longrightarrow> slice (d_src d) (d_read d) (d_read d + n) =
     (if length xs < n then None else Some (take n xs))"
  by (auto simp: at_input_def slice_def)

lemma copy_block_eq:
  assumes "at_input d xs"
  shows "copy_block c d =
    (if length xs < unat c - 1 then (Inl BlockRunsPastEnd, d)
     else andthen (for_each copy_byte (take (unat c - 1) xs))
            (\<lambda>_. modify (\<lambda>d'. d'\<lparr>d_read := d_read d + (unat c - 1)\<rparr>)) d)"
proof -
  have "unat c < 256"
    by (rule unat_u8)
  then have "d_read d + (unat c - 1) \<le> usize_max"
    using assms unfolding at_input_def by linarith
  then have "saturating_add (d_read d) (unat c - 1) = d_read d + (unat c - 1)"
    by (rule saturating_add_small)
  then show ?thesis
    using at_input_slice [OF assms, of "unat c - 1"] by (simp add: copy_block_def Let_def)
qed

text \<open>One turn of the loop, on a block that is well formed and fits.\<close>

lemma dec_run_block:
  assumes at: "at_input d (c # xs)" and c: "c \<noteq> 0" and n: "n = unat c - 1"
    and whole: "n \<le> length xs" and clean: "0 \<notin> set (take n xs)"
    and room: "d_written d + n \<le> length (d_dst d)"
  shows "dec_run d =
    (let d' = put_all (take n xs) (d\<lparr>d_read := Suc (d_read d) + n\<rparr>) in
     if c \<noteq> MAX_CODE \<and> drop n xs \<noteq> []
     then case dec_put 0 d' of (Inl err, d'') \<Rightarrow> (Inl err, d'') | (Inr _, d'') \<Rightarrow> dec_run d''
     else dec_run d')"
proof -
  let ?d1 = "d\<lparr>d_read := Suc (d_read d)\<rparr>"
  let ?d2 = "put_all (take n xs) (d\<lparr>d_read := Suc (d_read d) + n\<rparr>)"
  have at1: "at_input ?d1 xs"
    using at by (rule at_input_Cons)
  have "for_each copy_byte (take n xs) ?d1 = (Inr (), put_all (take n xs) ?d1)"
    using room whole clean by (intro copy_room) auto
  then have "copy_block c ?d1 = (Inr (), ?d2)"
    using at1 whole by (simp add: copy_block_eq n put_all_def)
  moreover have "d_read ?d2 < length (d_src ?d2) \<longleftrightarrow> drop n xs \<noteq> []"
    using at1 whole by (auto simp: at_input_def)
  ultimately show ?thesis
    using at_input_Cons(1) [OF at] c by (subst dec_run.simps) (simp add: Let_def)
qed

lemma dec_run_bad_block:
  assumes at: "at_input d (c # xs)" and c: "c \<noteq> 0"
    and bad: "fst (copy_block c (d\<lparr>d_read := Suc (d_read d)\<rparr>)) = Inl err"
  shows "fst (dec_run d) = Inl err"
  using at_input_Cons(1) [OF at] c bad
  by (subst dec_run.simps) (auto split: prod.splits)

lemma dec_run_ok:
  assumes "dec_spec xs = Inr ys" and "at_input d xs"
    and "d_written d + length ys \<le> length (d_dst d)"
  shows "dec_run d = (Inr (d_written d + length ys), (put_all ys d)\<lparr>d_read := length (d_src d)\<rparr>)"
  using assms
proof (induction xs arbitrary: d ys rule: dec_spec.induct)
  case 1
  then show ?case
    by (subst dec_run.simps) (auto simp: at_input_def get_at_def put_all_def)
next
  case (2 c xs)
  define n where "n = unat c - 1"
  define gap where "gap = (if c \<noteq> MAX_CODE \<and> drop n xs \<noteq> [] then [0 :: u8] else [])"
  obtain zs where c: "c \<noteq> 0" "n \<le> length xs" "0 \<notin> set (take n xs)"
    and zs: "dec_spec (drop n xs) = Inr zs" and ys: "ys = take n xs @ gap @ zs"
    using "2.prems"(1) by (auto simp: Let_def n_def gap_def split: if_splits sum.splits)
  let ?d = "put_all (take n xs @ gap) (d\<lparr>d_read := Suc (d_read d) + n\<rparr>)"
  have room: "d_written d + n + length gap + length zs \<le> length (d_dst d)"
    using "2.prems"(3) c(2) ys by simp
  have "dec_run d = dec_run ?d"
    using dec_run_block [OF "2.prems"(2) c(1) n_def c(2,3)] room c(2)
    by (auto simp: Let_def gap_def dec_put_room put_all_append)
  also have "\<dots> = (Inr (d_written ?d + length zs), (put_all zs ?d)\<lparr>d_read := length (d_src ?d)\<rparr>)"
  proof (rule "2.IH" [OF c(1) n_def])
    show "at_input ?d (drop n xs)"
      using at_input_drop [OF at_input_Cons(2) [OF "2.prems"(2)] c(2)] by simp
  qed (use c zs room in auto)
  also have "put_all zs ?d = put_all ys (d\<lparr>d_read := Suc (d_read d) + n\<rparr>)"
    using room c(2) ys by (simp add: put_all_append)
  finally show ?case
    using ys c(2) by (simp add: put_all_def ac_simps)
qed

lemma dec_run_full:
  assumes "dec_spec xs = Inr ys" and "at_input d xs"
    and "length (d_dst d) < d_written d + length ys" and "d_written d \<le> length (d_dst d)"
  shows "fst (dec_run d) = Inl CobsDestinationTooSmall"
  using assms
proof (induction xs arbitrary: d ys rule: dec_spec.induct)
  case (2 c xs)
  define n where "n = unat c - 1"
  define gap where "gap = (if c \<noteq> MAX_CODE \<and> drop n xs \<noteq> [] then [0 :: u8] else [])"
  obtain zs where c: "c \<noteq> 0" "n \<le> length xs" "0 \<notin> set (take n xs)"
    and zs: "dec_spec (drop n xs) = Inr zs" and ys: "ys = take n xs @ gap @ zs"
    using "2.prems"(1) by (auto simp: Let_def n_def gap_def split: if_splits sum.splits)
  let ?d = "put_all (take n xs) (d\<lparr>d_read := Suc (d_read d) + n\<rparr>)"
  show ?case
  proof (cases "d_written d + n \<le> length (d_dst d)")
    case False
    have at: "at_input (d\<lparr>d_read := Suc (d_read d)\<rparr>) xs"
      using "2.prems"(2) by (rule at_input_Cons)
    have "fst (for_each copy_byte (take n xs) (d\<lparr>d_read := Suc (d_read d)\<rparr>)) =
          Inl CobsDestinationTooSmall"
      using c(2,3) False "2.prems"(4) by (intro copy_no_room) auto
    with at c(2) show ?thesis
      by (intro dec_run_bad_block [OF "2.prems"(2) c(1)])
        (auto simp: copy_block_eq n_def andthen_def split: prod.splits)
  next
    case True
    note block = dec_run_block [OF "2.prems"(2) c(1) n_def c(2,3) True]
    show ?thesis
    proof (cases "gap \<noteq> [] \<and> \<not> d_written ?d < length (d_dst ?d)")
      case True
      then show ?thesis
        using block by (auto simp: Let_def gap_def dec_put_full split: if_splits)
    next
      case False
      let ?e = "put_all gap ?d"
      have "dec_run d = dec_run ?e"
        using block False by (auto simp: Let_def gap_def dec_put_room split: if_splits)
      moreover have "fst (dec_run ?e) = Inl CobsDestinationTooSmall"
      proof (rule "2.IH" [OF c(1) n_def _ _ zs])
        show "at_input ?e (drop n xs)"
          using at_input_drop [OF at_input_Cons(2) [OF "2.prems"(2)] c(2)] by simp
        show "length (d_dst ?e) < d_written ?e + length zs" "d_written ?e \<le> length (d_dst ?e)"
          using "2.prems"(3) True False ys c(2) by (auto simp: gap_def split: if_splits)
      qed (use c in auto)
      ultimately show ?thesis by simp
    qed
  qed
qed simp

lemma dec_run_err:
  assumes "dec_spec xs = Inl err" and "at_input d xs"
    and "d_written d + length xs \<le> length (d_dst d)"
  shows "fst (dec_run d) = Inl err"
  using assms
proof (induction xs arbitrary: d rule: dec_spec.induct)
  case (2 c xs)
  define n where "n = unat c - 1"
  have at: "at_input (d\<lparr>d_read := Suc (d_read d)\<rparr>) xs"
    using "2.prems"(2) by (rule at_input_Cons)
  consider (zero) "c = 0" | (short) "c \<noteq> 0" "length xs < n"
    | (dirty) "c \<noteq> 0" "n \<le> length xs" "0 \<in> set (take n xs)"
    | (good) "c \<noteq> 0" "n \<le> length xs" "0 \<notin> set (take n xs)"
    by linarith
  then show ?case
  proof cases
    case zero
    then show ?thesis
      using "2.prems" at_input_Cons(1) [OF "2.prems"(2)] by (subst dec_run.simps) auto
  next
    case short
    then show ?thesis
      using "2.prems"(1) at
      by (intro dec_run_bad_block [OF "2.prems"(2)]) (auto simp: copy_block_eq n_def)
  next
    case dirty
    have "fst (for_each copy_byte (take n xs) (d\<lparr>d_read := Suc (d_read d)\<rparr>)) = Inl ZeroInBlock"
      using dirty "2.prems"(3) by (intro copy_zero) auto
    with dirty show ?thesis
      using "2.prems"(1) at
      by (intro dec_run_bad_block [OF "2.prems"(2)])
        (auto simp: copy_block_eq n_def andthen_def Let_def split: prod.splits if_splits)
  next
    case good
    define gap where "gap = (if c \<noteq> MAX_CODE \<and> drop n xs \<noteq> [] then [0 :: u8] else [])"
    let ?e = "put_all gap (put_all (take n xs) (d\<lparr>d_read := Suc (d_read d) + n\<rparr>))"
    have room: "d_written d + n \<le> length (d_dst d)"
      using good "2.prems"(3) by simp
    have "dec_run d = dec_run ?e"
      using dec_run_block [OF "2.prems"(2) good(1) n_def good(2,3) room] "2.prems"(3) good(2)
      by (auto simp: Let_def gap_def dec_put_room)
    moreover have "fst (dec_run ?e) = Inl err"
    proof (rule "2.IH" [OF good(1) n_def])
      show "at_input ?e (drop n xs)"
        using at_input_drop [OF at_input_Cons(2) [OF "2.prems"(2)] good(2)] by simp
      show "dec_spec (drop n xs) = Inl err"
        using good "2.prems"(1) by (auto simp: Let_def n_def split: if_splits sum.splits)
      show "d_written ?e + length (drop n xs) \<le> length (d_dst ?e)"
        using "2.prems"(3) good(2) by (auto simp: gap_def)
    qed (use good in auto)
    ultimately show ?thesis by simp
  qed
qed simp


lemma copy_dirty:
  "0 \<in> set bs \<Longrightarrow> \<exists>err. fst (for_each copy_byte bs d) = Inl err"
proof (induction bs arbitrary: d)
  case (Cons b bs)
  then show ?case
    by (cases "b = 0"; cases "d_written d < length (d_dst d)")
      (auto simp: copy_byte_def dec_put_room dec_put_full)
qed simp

text \<open>Whatever the room, a malformed frame is refused.\<close>

lemma dec_run_refuses:
  assumes "dec_spec xs = Inl err" and "at_input d xs" and "d_written d \<le> length (d_dst d)"
  shows "\<exists>err'. fst (dec_run d) = Inl err'"
  using assms
proof (induction xs arbitrary: d rule: dec_spec.induct)
  case (2 c xs)
  define n where "n = unat c - 1"
  have at: "at_input (d\<lparr>d_read := Suc (d_read d)\<rparr>) xs"
    using "2.prems"(2) by (rule at_input_Cons)
  consider (zero) "c = 0" | (short) "c \<noteq> 0" "length xs < n"
    | (dirty) "c \<noteq> 0" "n \<le> length xs" "0 \<in> set (take n xs)"
    | (full) "c \<noteq> 0" "n \<le> length xs" "0 \<notin> set (take n xs)" "length (d_dst d) < d_written d + n"
    | (good) "c \<noteq> 0" "n \<le> length xs" "0 \<notin> set (take n xs)" "d_written d + n \<le> length (d_dst d)"
    by linarith
  then show ?case
  proof cases
    case zero
    then show ?thesis
      using at_input_Cons(1) [OF "2.prems"(2)] by (subst dec_run.simps) auto
  next
    case short
    then have "fst (copy_block c (d\<lparr>d_read := Suc (d_read d)\<rparr>)) = Inl BlockRunsPastEnd"
      using at by (simp add: copy_block_eq n_def)
    from dec_run_bad_block [OF "2.prems"(2) short(1) this] show ?thesis by blast
  next
    case dirty
    obtain e where "fst (for_each copy_byte (take n xs) (d\<lparr>d_read := Suc (d_read d)\<rparr>)) = Inl e"
      using copy_dirty [OF dirty(3)] by blast
    with dirty at have "fst (copy_block c (d\<lparr>d_read := Suc (d_read d)\<rparr>)) = Inl e"
      by (auto simp: copy_block_eq n_def andthen_def split: prod.splits)
    from dec_run_bad_block [OF "2.prems"(2) dirty(1) this] show ?thesis by blast
  next
    case full
    have "fst (for_each copy_byte (take n xs) (d\<lparr>d_read := Suc (d_read d)\<rparr>)) =
          Inl CobsDestinationTooSmall"
      using full "2.prems"(3) by (intro copy_no_room) auto
    with full at have "fst (copy_block c (d\<lparr>d_read := Suc (d_read d)\<rparr>)) = Inl CobsDestinationTooSmall"
      by (auto simp: copy_block_eq n_def andthen_def split: prod.splits)
    from dec_run_bad_block [OF "2.prems"(2) full(1) this] show ?thesis by blast
  next
    case good
    define gap where "gap = (if c \<noteq> MAX_CODE \<and> drop n xs \<noteq> [] then [0 :: u8] else [])"
    let ?d = "put_all (take n xs) (d\<lparr>d_read := Suc (d_read d) + n\<rparr>)"
    note block = dec_run_block [OF "2.prems"(2) good(1) n_def good(2,3,4)]
    show ?thesis
    proof (cases "gap \<noteq> [] \<and> \<not> d_written ?d < length (d_dst ?d)")
      case True
      then show ?thesis
        using block by (auto simp: Let_def gap_def dec_put_full split: if_splits)
    next
      case False
      let ?e = "put_all gap ?d"
      have "dec_run d = dec_run ?e"
        using block False by (auto simp: Let_def gap_def dec_put_room split: if_splits)
      moreover have "\<exists>err'. fst (dec_run ?e) = Inl err'"
      proof (rule "2.IH" [OF good(1) n_def])
        show "at_input ?e (drop n xs)"
          using at_input_drop [OF at_input_Cons(2) [OF "2.prems"(2)] good(2)] by simp
        show "dec_spec (drop n xs) = Inl err"
          using good "2.prems"(1) by (auto simp: Let_def n_def split: if_splits sum.splits)
        show "d_written ?e \<le> length (d_dst ?e)"
          using False good by (auto simp: gap_def split: if_splits)
      qed (use good in auto)
      ultimately show ?thesis by simp
    qed
  qed
qed simp

section \<open>Whole calls\<close>

definition frame_sized :: "bytes \<Rightarrow> bool" where
  "frame_sized src \<longleftrightarrow> src \<noteq> [] \<and> length src + 255 \<le> usize_max"

definition dec_start :: "bytes \<Rightarrow> bytes \<Rightarrow> decoder" where
  "dec_start src dst = \<lparr>d_src = src, d_read = 0, d_dst = dst, d_written = 0\<rparr>"

lemma dec_start_fields [simp]:
  "d_src (dec_start src dst) = src" "d_read (dec_start src dst) = 0"
  "d_dst (dec_start src dst) = dst" "d_written (dec_start src dst) = 0"
  by (simp_all add: dec_start_def)

lemma at_input_start: "frame_sized src \<Longrightarrow> at_input (dec_start src dst) src"
  by (simp add: at_input_def frame_sized_def)

lemma cobs_decode_run:
  "frame_sized src \<Longrightarrow>
   cobs_decode src dst = (case dec_run (dec_start src dst) of (r, d) \<Rightarrow> (r, d_dst d))"
  by (simp add: cobs_decode_def frame_sized_def dec_start_def)

lemma cobs_decode_ok:
  assumes "dec_spec src = Inr ys" and "frame_sized src" and "length ys \<le> length dst"
  shows "cobs_decode src dst = (Inr (length ys), splice dst 0 ys)"
  using dec_run_ok [OF assms(1) at_input_start [OF assms(2), of dst]] assms(2,3)
  by (simp add: cobs_decode_run)

lemma cobs_decode_full:
  assumes "dec_spec src = Inr ys" and "frame_sized src" and "length dst < length ys"
  shows "fst (cobs_decode src dst) = Inl CobsDestinationTooSmall"
  using dec_run_full [OF assms(1) at_input_start [OF assms(2), of dst]] assms(2,3)
  by (auto simp: cobs_decode_run split: prod.splits)

lemma cobs_decode_err:
  assumes "dec_spec src = Inl err" and "frame_sized src" and "length src \<le> length dst"
  shows "fst (cobs_decode src dst) = Inl err"
  using dec_run_err [OF assms(1) at_input_start [OF assms(2), of dst]] assms(2,3)
  by (auto simp: cobs_decode_run split: prod.splits)

lemma cobs_decode_Inr:
  assumes "cobs_decode src dst = (Inr n, dst')" and "frame_sized src"
  obtains ys where "dec_spec src = Inr ys" and "n = length ys" and "length ys \<le> length dst"
    and "dst' = splice dst 0 ys"
proof (cases "dec_spec src")
  case (Inl err)
  from dec_run_refuses [OF Inl at_input_start [OF assms(2), of dst]] assms show ?thesis
    by (auto simp: cobs_decode_run split: prod.splits)
next
  case (Inr ys)
  show ?thesis
  proof (cases "length ys \<le> length dst")
    case True
    with cobs_decode_ok [OF Inr assms(2)] assms(1) Inr that show ?thesis by simp
  next
    case False
    with cobs_decode_full [OF Inr assms(2), of dst] assms(1) show ?thesis by simp
  qed
qed

text \<open>No call changes the length of the destination.\<close>

definition same_room :: "decoder \<Rightarrow> decoder \<Rightarrow> bool" where
  "same_room d d' \<longleftrightarrow> length (d_dst d') = length (d_dst d)"

lemma same_room_preorder [simp, intro]: "reflp same_room" "transp same_room"
  by (auto simp: same_room_def reflp_def transp_def)

lemma dec_put_keeps_room: "keeps same_room (dec_put b)"
  by (auto simp: keeps_def same_room_def dec_put_def split: if_splits)

lemma copy_byte_keeps_room: "keeps same_room (copy_byte b)"
  using dec_put_keeps_room [of b] by (auto simp: keeps_def copy_byte_def same_room_def)

lemma for_each_copy_keeps_room: "keeps same_room (for_each copy_byte bs)"
  by (auto intro: copy_byte_keeps_room)

lemma copy_block_keeps_room: "keeps same_room (copy_block c)"
  by (auto simp: keeps_def copy_block_def Let_def andthen_def same_room_def
      dest!: keepsD [OF for_each_copy_keeps_room] split: option.splits prod.splits sum.splits)

lemma dec_run_keeps_room: "dec_run d = (x, d') \<Longrightarrow> length (d_dst d') = length (d_dst d)"
proof (induction d arbitrary: x d' rule: dec_run.induct)
  case (1 d)
  show ?case
  proof (cases "get_at (d_src d) (d_read d)")
    case None
    then show ?thesis
      using "1.prems" by (simp add: dec_run.simps)
  next
    case (Some c)
    obtain y e where block: "copy_block c (d\<lparr>d_read := d_read d + 1\<rparr>) = (y, e)"
      by fastforce
    then have room: "length (d_dst e) = length (d_dst d)"
      using keepsD [OF copy_block_keeps_room block] by (simp add: same_room_def)
    obtain z f where put: "dec_put 0 e = (z, f)"
      by fastforce
    then have room': "length (d_dst f) = length (d_dst d)"
      using keepsD [OF dec_put_keeps_room put] room by (simp add: same_room_def)
    show ?thesis
      using "1.prems" Some block put room room' "1.IH" [OF Some _ block [symmetric]]
      by (subst (asm) dec_run.simps) (cases y; cases z; auto split: if_splits)
  qed
qed

lemma cobs_decode_keeps_room: "cobs_decode src dst = (x, dst') \<Longrightarrow> length dst' = length dst"
  by (auto simp: cobs_decode_def dest!: dec_run_keeps_room split: prod.splits if_splits)

section \<open>The interface the framing layer uses\<close>

text \<open>
  A code over byte strings that leaves \<open>delim\<close> out of everything it writes and gives back
  what it was given. Frames written one after another with a delimiter behind each are then
  cut at the delimiters and decoded to the messages, in order.
\<close>

locale delimited_code =
  fixes enc :: "bytes \<Rightarrow> bytes" and dec :: "bytes \<Rightarrow> 'e + bytes" and delim :: u8
  assumes dec_enc: "dec (enc xs) = Inr xs"
    and enc_delim_free: "delim \<notin> set (enc xs)"
    and enc_nonempty: "enc xs \<noteq> []"
begin

lemma enc_inj: "enc xs = enc ys \<longleftrightarrow> xs = ys"
  by (metis dec_enc sum.inject(2))

lemma takeWhile_enc: "takeWhile (\<lambda>b. b \<noteq> delim) (enc xs @ delim # rest) = enc xs"
  using enc_delim_free [of xs] by (subst takeWhile_append2) auto

lemma dropWhile_enc: "dropWhile (\<lambda>b. b \<noteq> delim) (enc xs @ delim # rest) = delim # rest"
  using enc_delim_free [of xs] by (subst dropWhile_append2) auto

text \<open>Two streams of frames are equal only when they carry the same messages.\<close>

lemma stream_inj:
  "concat (map (\<lambda>xs. enc xs @ [delim]) ms) = concat (map (\<lambda>xs. enc xs @ [delim]) ns) \<Longrightarrow> ms = ns"
proof (induction ms arbitrary: ns)
  case Nil
  then show ?case by (cases ns) auto
next
  case (Cons m ms)
  then obtain n ns' where ns: "ns = n # ns'"
    by (cases ns) auto
  let ?cat = "\<lambda>ms. concat (map (\<lambda>xs. enc xs @ [delim]) ms)"
  from Cons.prems ns have eq: "enc m @ delim # ?cat ms = enc n @ delim # ?cat ns'"
    by simp
  then have "enc m = enc n"
    using takeWhile_enc by metis
  then show ?case
    using Cons.IH [of ns'] eq ns by (simp add: enc_inj)
qed

end

interpretation cobs: delimited_code "enc_spec []" dec_spec "0 :: u8"
  by unfold_locales (simp_all add: dec_enc_spec enc_spec_zero_free)

section \<open>Properties\<close>

text \<open>Encoding and decoding over the caller's buffers are inverse: with a destination of
  \<open>max_encoded_len\<close> bytes the encoder succeeds, writes no zero byte, leaves everything past
  the encoding as it was, and the decoder fed the written bytes gives the message back into
  any destination at least as long as it.\<close>

theorem cobs_round_trip:
  assumes "2 * length src + 256 < usize_max"
    and "max_encoded_len (length src) \<le> length dst" and "length src \<le> length out"
  shows "\<exists>n dst'. cobs_encode src dst = (Inr n, dst') \<and> 0 \<notin> set (take n dst') \<and>
           drop n dst' = drop n dst \<and> n \<le> max_encoded_len (length src) \<and>
           cobs_decode (take n dst') out = (Inr (length src), splice out 0 src)"
proof -
  let ?e = "enc_spec [] src"
  have len: "length ?e \<le> max_encoded_len (length src)" "length ?e \<le> length dst"
    using assms(1,2) enc_spec_fits [of src] by auto
  have "length src div 254 \<le> length src"
    by simp
  then have "length ?e + 255 \<le> usize_max"
    using len assms(1) by (simp add: max_encoded_len_eq)
  then have "cobs_decode ?e out = (Inr (length src), splice out 0 src)"
    using assms(3) by (intro cobs_decode_ok) (simp_all add: cobs.dec_enc frame_sized_def)
  moreover have "cobs_encode src dst = (Inr (length ?e), splice dst 0 ?e)"
    using assms by (intro cobs_encode_eq) auto
  ultimately show ?thesis
    using len cobs.enc_delim_free [of src] by (auto simp: splice_def)
qed

lemma cobs_round_trip_witness:
  "\<exists>n dst'. cobs_encode [1, 0, 2] (replicate 8 7) = (Inr n, dst') \<and> 0 \<notin> set (take n dst') \<and>
     drop n dst' = drop n (replicate 8 7) \<and> n \<le> max_encoded_len (length [1, 0, 2 :: u8]) \<and>
     cobs_decode (take n dst') [9, 9, 9] = (Inr (length [1, 0, 2 :: u8]), splice [9, 9, 9] 0 [1, 0, 2])"
  by (rule cobs_round_trip) (simp_all add: usize_max_def max_encoded_len_def MAX_BLOCK_DATA_def)

text \<open>A refused encoding leaves the destination as it was, and the only refusal is a
  destination shorter than \<open>max_encoded_len\<close>: whether a call succeeds depends on the two
  lengths and never on the bytes.\<close>

theorem cobs_encode_all_or_nothing:
  assumes "2 * length src < usize_max"
  shows "cobs_encode src dst =
    (if length dst < max_encoded_len (length src) then (Inl CobsDestinationTooSmall, dst)
     else (Inr (length (enc_spec [] src)), splice dst 0 (enc_spec [] src)))"
  using assms cobs_encode_eq [of src dst] cobs_encode_small [of dst src] by simp

lemma cobs_encode_all_or_nothing_witness:
  "cobs_encode [1, 0] [7, 7] = (Inl CobsDestinationTooSmall, [7, 7])"
  using cobs_encode_all_or_nothing [of "[1, 0]" "[7, 7]"]
  by (simp add: usize_max_def max_encoded_len_def MAX_BLOCK_DATA_def)

text \<open>Decoding accepts exactly the well-formed frames: with a destination as long as the
  frame, the call returns the reference decoder's message, shorter than the frame, or the
  reference decoder's refusal; with any destination, success means the frame was well formed
  and its message fitted.\<close>

theorem cobs_decode_exact:
  assumes "frame_sized src"
  shows "(length src \<le> length dst \<longrightarrow>
            fst (cobs_decode src dst) =
              (case dec_spec src of Inl err \<Rightarrow> Inl err | Inr ys \<Rightarrow> Inr (length ys))) \<and>
         (\<forall>n dst'. cobs_decode src dst = (Inr n, dst') \<longrightarrow>
            n < length src \<and> dec_spec src = Inr (take n dst') \<and> drop n dst' = drop n dst)"
proof (intro conjI impI allI)
  assume room: "length src \<le> length dst"
  show "fst (cobs_decode src dst) =
          (case dec_spec src of Inl err \<Rightarrow> Inl err | Inr ys \<Rightarrow> Inr (length ys))"
  proof (cases "dec_spec src")
    case (Inl err)
    with cobs_decode_err [OF this assms room] show ?thesis by simp
  next
    case (Inr ys)
    have "length ys \<le> length dst"
      using dec_spec_length [OF Inr] assms room by (simp add: frame_sized_def)
    with cobs_decode_ok [OF Inr assms] Inr show ?thesis by simp
  qed
next
  fix n dst'
  assume "cobs_decode src dst = (Inr n, dst')"
  then show "n < length src" "dec_spec src = Inr (take n dst')" "drop n dst' = drop n dst"
    using assms dec_spec_length
    by (auto simp: splice_def frame_sized_def elim!: cobs_decode_Inr)
qed

lemma cobs_decode_exact_witness:
  "fst (cobs_decode [3, 1, 0] [9, 9, 9]) = Inl ZeroInBlock"
  using cobs_decode_exact [of "[3, 1, 0]" "[9, 9, 9]"]
  by (simp add: frame_sized_def usize_max_def)

end
