(* ===== verification/Limits.thy ===== *)
theory Limits
  imports Cobs
begin

text \<open>
  \<open>crates/km43/src/limits.rs\<close> and the scalar constants of the generated registry it
  re-exports: the caps both ends agree on, written as the source writes them, derived ones
  as the derivation. What the source asserts while it compiles is one theorem,
  \<open>limits_hold\<close>.
\<close>

named_theorems limit_defs

section \<open>Constants of the registry\<close>

definition BLE_LAST_FLAG :: u8 where [limit_defs]:
  "BLE_LAST_FLAG = 128"

definition BLE_INDEX_MASK :: u8 where [limit_defs]:
  "BLE_INDEX_MASK = 127"

definition MAX_PAYLOAD :: nat where [limit_defs]:
  "MAX_PAYLOAD = 1024"

definition BLE_MIN_MTU :: u16 where [limit_defs]:
  "BLE_MIN_MTU = 23"

definition BLE_MAX_MTU :: u16 where [limit_defs]:
  "BLE_MAX_MTU = 517"

definition BLE_MAX_VALUE :: nat where [limit_defs]:
  "BLE_MAX_VALUE = 512"

definition BLE_TIMEOUT_MS :: u64 where [limit_defs]:
  "BLE_TIMEOUT_MS = 5000"

definition BLE_TX_CAPACITY :: nat where [limit_defs]:
  "BLE_TX_CAPACITY = 1"

definition MAX_STRING :: nat where [limit_defs]:
  "MAX_STRING = 64"

definition MAX_DEPTH :: u8 where [limit_defs]:
  "MAX_DEPTH = 8"

definition MAX_ADDR :: nat where [limit_defs]:
  "MAX_ADDR = 8"

definition MAX_CONFIG_BUSES :: nat where [limit_defs]:
  "MAX_CONFIG_BUSES = 8"

definition MAX_CONFIG_DEVICES :: nat where [limit_defs]:
  "MAX_CONFIG_DEVICES = 16"

text \<open>\<open>limits.rs\<close>, in its order (\<open>MAX_PRESENCE_SWEEP\<close> after the device cap it is).\<close>

definition MAX_FRAME :: nat where [limit_defs]:
  "MAX_FRAME = 1032"

definition MAX_OPERATION :: nat where [limit_defs]:
  "MAX_OPERATION = 960"

definition MAX_LOG_PAGE_BYTES :: nat where [limit_defs]:
  "MAX_LOG_PAGE_BYTES = 896"

definition MAX_LOG_PAGE_ENTRIES :: nat where [limit_defs]:
  "MAX_LOG_PAGE_ENTRIES = 64"

definition MAX_SESSIONS :: nat where [limit_defs]:
  "MAX_SESSIONS = 8"

definition MAX_CHANNELS :: nat where [limit_defs]:
  "MAX_CHANNELS = 32"

definition MAX_CLIENTS :: nat where [limit_defs]:
  "MAX_CLIENTS = 8"

definition MAX_EVENT_QUEUE :: nat where [limit_defs]:
  "MAX_EVENT_QUEUE = 16"

definition MAX_INFLIGHT :: nat where [limit_defs]:
  "MAX_INFLIGHT = 4"

definition MAX_CMD_DEDUP :: nat where [limit_defs]:
  "MAX_CMD_DEDUP = 32"

definition MAX_CHALLENGES :: nat where [limit_defs]:
  "MAX_CHALLENGES = 8"

definition MAX_AUTH_FAILURES :: u8 where [limit_defs]:
  "MAX_AUTH_FAILURES = 8"

definition MAX_REPLAY_WINDOW :: nat where [limit_defs]:
  "MAX_REPLAY_WINDOW = 64"

definition CRC_BYTES :: nat where [limit_defs]:
  "CRC_BYTES = 2"

definition FRAME_DELIMITER_BYTES :: nat where [limit_defs]:
  "FRAME_DELIMITER_BYTES = 1"

definition ENVELOPE_BYTES :: nat where [limit_defs]:
  "ENVELOPE_BYTES = 11"

definition SEALED_CONTROLLER_CONTENTS_BYTES :: nat where [limit_defs]:
  "SEALED_CONTROLLER_CONTENTS_BYTES = 30"

definition SEALED_REQUEST_CONTENTS_BYTES :: nat where [limit_defs]:
  "SEALED_REQUEST_CONTENTS_BYTES = 20"

definition RESPONSE_TYPE_EXTRA_BYTE :: nat where [limit_defs]:
  "RESPONSE_TYPE_EXTRA_BYTE = 1"

definition RESPONSE_FRAMING_BYTES :: nat where [limit_defs]:
  "RESPONSE_FRAMING_BYTES = ENVELOPE_BYTES + SEALED_CONTROLLER_CONTENTS_BYTES + RESPONSE_TYPE_EXTRA_BYTE"

definition REQUEST_FRAMING_BYTES :: nat where [limit_defs]:
  "REQUEST_FRAMING_BYTES = ENVELOPE_BYTES + SEALED_REQUEST_CONTENTS_BYTES"

definition EVENT_FRAMING_BYTES :: nat where [limit_defs]:
  "EVENT_FRAMING_BYTES = ENVELOPE_BYTES + SEALED_CONTROLLER_CONTENTS_BYTES"

definition INNER_BODY_BYTES :: nat where [limit_defs]:
  "INNER_BODY_BYTES = MAX_PAYLOAD - RESPONSE_FRAMING_BYTES"

definition MAX_OPERATION_CEILING :: nat where [limit_defs]:
  "MAX_OPERATION_CEILING = MAX_PAYLOAD - REQUEST_FRAMING_BYTES"

definition EVENT_FIXED_BYTES :: nat where [limit_defs]:
  "EVENT_FIXED_BYTES = 25"

definition EVENT_RECORD_MAP_HEADER_BYTES :: nat where [limit_defs]:
  "EVENT_RECORD_MAP_HEADER_BYTES = 1"

definition MAX_EVENT_BODY :: nat where [limit_defs]:
  "MAX_EVENT_BODY = MAX_PAYLOAD - EVENT_FRAMING_BYTES - EVENT_RECORD_MAP_HEADER_BYTES - EVENT_FIXED_BYTES"

definition LOG_PAGE_HEADER_BYTES :: nat where [limit_defs]:
  "LOG_PAGE_HEADER_BYTES = 26"

definition LOG_PAGE_CEILING :: nat where [limit_defs]:
  "LOG_PAGE_CEILING = MAX_PAYLOAD - RESPONSE_FRAMING_BYTES - LOG_PAGE_HEADER_BYTES"

definition MAX_SERIES_LEN :: nat where [limit_defs]:
  "MAX_SERIES_LEN = 16"

definition MAX_LABEL :: nat where [limit_defs]:
  "MAX_LABEL = 32"

definition MAX_LINK_TEXT :: nat where [limit_defs]:
  "MAX_LINK_TEXT = 32"

definition MAX_IDENT :: nat where [limit_defs]:
  "MAX_IDENT = 24"

definition MAX_ROW_BYTES :: nat where [limit_defs]:
  "MAX_ROW_BYTES = 184"

definition MAX_SAMPLES :: nat where [limit_defs]:
  "MAX_SAMPLES = 40"

definition MAX_SERIES :: nat where [limit_defs]:
  "MAX_SERIES = 7"

definition MAX_READINGS_BYTES :: nat where [limit_defs]:
  "MAX_READINGS_BYTES = 880"

definition MAX_INVENTORY_PAGE_ROWS :: nat where [limit_defs]:
  "MAX_INVENTORY_PAGE_ROWS = 48"

definition MAX_INVENTORY_PAGE_BYTES :: nat where [limit_defs]:
  "MAX_INVENTORY_PAGE_BYTES = 880"

definition MAX_CONCERN_PAGE_ROWS :: nat where [limit_defs]:
  "MAX_CONCERN_PAGE_ROWS = 12"

definition MAX_CONCERN_PAGE_BYTES :: nat where [limit_defs]:
  "MAX_CONCERN_PAGE_BYTES = 832"

definition MAX_HISTORY_POINTS :: nat where [limit_defs]:
  "MAX_HISTORY_POINTS = 96"

definition MAX_COMPONENT_CMDS :: nat where [limit_defs]:
  "MAX_COMPONENT_CMDS = 4"

definition MAX_VALIDITY_SWEEP :: nat where [limit_defs]:
  "MAX_VALIDITY_SWEEP = 48"

definition MAX_CONCERN_EVENTS_PER_TICK :: nat where [limit_defs]:
  "MAX_CONCERN_EVENTS_PER_TICK = 4"

definition MIN_REV_INTERVAL_MS :: u64 where [limit_defs]:
  "MIN_REV_INTERVAL_MS = 30000"

definition MAX_BUSES :: nat where [limit_defs]:
  "MAX_BUSES = 8"

definition MAX_DEVICES :: nat where [limit_defs]:
  "MAX_DEVICES = 24"

definition MAX_PRESENCE_SWEEP :: nat where [limit_defs]:
  "MAX_PRESENCE_SWEEP = MAX_DEVICES"

definition MAX_COMPONENTS :: nat where [limit_defs]:
  "MAX_COMPONENTS = 160"

definition MAX_SIGNALS :: nat where [limit_defs]:
  "MAX_SIGNALS = 384"

definition MAX_SERIES_ELEMENTS :: nat where [limit_defs]:
  "MAX_SERIES_ELEMENTS = 512"

definition MAX_PARAMS :: nat where [limit_defs]:
  "MAX_PARAMS = 96"

definition MAX_CONCERNS :: nat where [limit_defs]:
  "MAX_CONCERNS = 48"

definition MAX_SELECTORS :: nat where [limit_defs]:
  "MAX_SELECTORS = 12"

definition MAX_HISTORY_SIGNALS :: nat where [limit_defs]:
  "MAX_HISTORY_SIGNALS = 24"

definition MAX_TOPOLOGY_DEPTH :: nat where [limit_defs]:
  "MAX_TOPOLOGY_DEPTH = 4"

definition MAX_CONCERNS_BELOW_FAULT :: nat where [limit_defs]:
  "MAX_CONCERNS_BELOW_FAULT = 24"

definition READINGS_HEADER_BYTES :: nat where [limit_defs]:
  "READINGS_HEADER_BYTES = 42"

definition INVENTORY_HEADER_BYTES :: nat where [limit_defs]:
  "INVENTORY_HEADER_BYTES = 32"

definition CONCERNS_HEADER_BYTES :: nat where [limit_defs]:
  "CONCERNS_HEADER_BYTES = 33"

definition SAMPLE_MAX_BYTES :: nat where [limit_defs]:
  "SAMPLE_MAX_BYTES = 20"

definition SERIES_MAX_BYTES :: nat where [limit_defs]:
  "SERIES_MAX_BYTES = 111"

definition CONCERN_MAX_BYTES :: nat where [limit_defs]:
  "CONCERN_MAX_BYTES = 63"

definition NARROWEST_ROW_BYTES :: nat where [limit_defs]:
  "NARROWEST_ROW_BYTES = 6"

definition VCHANGE_MAX_BYTES :: nat where [limit_defs]:
  "VCHANGE_MAX_BYTES = 11"

definition VALIDITY_SWEEP_HEADER_BYTES :: nat where [limit_defs]:
  "VALIDITY_SWEEP_HEADER_BYTES = 10"

definition PCHANGE_MAX_BYTES :: nat where [limit_defs]:
  "PCHANGE_MAX_BYTES = 9"

definition PRESENCE_SWEEP_HEADER_BYTES :: nat where [limit_defs]:
  "PRESENCE_SWEEP_HEADER_BYTES = 10"

definition HISTORY_FIXED_BYTES :: nat where [limit_defs]:
  "HISTORY_FIXED_BYTES = 65"

definition HISTORY_POINT_EIGHTHS :: nat where [limit_defs]:
  "HISTORY_POINT_EIGHTHS = 65"

definition MAX_SCAN_APS :: nat where [limit_defs]:
  "MAX_SCAN_APS = 16"

definition SCAN_INTERVAL_MS :: u64 where [limit_defs]:
  "SCAN_INTERVAL_MS = 10000"

definition SCAN_TIMEOUT_MS :: u64 where [limit_defs]:
  "SCAN_TIMEOUT_MS = 15000"

definition WIFI_RECORD_INTERVAL_MS :: u64 where [limit_defs]:
  "WIFI_RECORD_INTERVAL_MS = 600000"

definition AP_MAX_BYTES :: nat where [limit_defs]:
  "AP_MAX_BYTES = 46"

definition SCAN_ANSWER_HEADER_BYTES :: nat where [limit_defs]:
  "SCAN_ANSWER_HEADER_BYTES = 17"

definition SCAN_RESULT_HEADER_BYTES :: nat where [limit_defs]:
  "SCAN_RESULT_HEADER_BYTES = 24"

definition WIFI_STATUS_MAX_BYTES :: nat where [limit_defs]:
  "WIFI_STATUS_MAX_BYTES = 21"

definition SCAN_ANSWER_CEILING :: nat where [limit_defs]:
  "SCAN_ANSWER_CEILING = (INNER_BODY_BYTES - SCAN_ANSWER_HEADER_BYTES) div AP_MAX_BYTES"

definition SCAN_RESULT_CEILING :: nat where [limit_defs]:
  "SCAN_RESULT_CEILING = (MAX_PAYLOAD - SCAN_RESULT_HEADER_BYTES) div AP_MAX_BYTES"

definition MAX_ADMINS :: nat where [limit_defs]:
  "MAX_ADMINS = 6"

definition MAX_VIEWERS :: nat where [limit_defs]:
  "MAX_VIEWERS = 1"

definition MAX_INVITES :: nat where [limit_defs]:
  "MAX_INVITES = 4"

definition MAX_INVITES_PER_INVITER :: nat where [limit_defs]:
  "MAX_INVITES_PER_INVITER = 2"

definition INVITE_TTL_MS :: u64 where [limit_defs]:
  "INVITE_TTL_MS = 3600000"

definition INVITE_BUDGET :: u8 where [limit_defs]:
  "INVITE_BUDGET = 3"

definition CLIENT_ROW_MAX_BYTES :: nat where [limit_defs]:
  "CLIENT_ROW_MAX_BYTES = 52"

definition INVITE_ROW_MAX_BYTES :: nat where [limit_defs]:
  "INVITE_ROW_MAX_BYTES = 111"

definition CLIENTS_HEADER_BYTES :: nat where [limit_defs]:
  "CLIENTS_HEADER_BYTES = 5"

definition CLIENTS_MAX_BYTES :: nat where [limit_defs]:
  "CLIENTS_MAX_BYTES = CLIENTS_HEADER_BYTES + MAX_CLIENTS * CLIENT_ROW_MAX_BYTES + MAX_INVITES * INVITE_ROW_MAX_BYTES"

definition SAMPLE_CEILING :: nat where [limit_defs]:
  "SAMPLE_CEILING = (INNER_BODY_BYTES - READINGS_HEADER_BYTES) div SAMPLE_MAX_BYTES"

definition SERIES_CEILING :: nat where [limit_defs]:
  "SERIES_CEILING = (INNER_BODY_BYTES - READINGS_HEADER_BYTES) div SERIES_MAX_BYTES"

definition CONCERN_CEILING :: nat where [limit_defs]:
  "CONCERN_CEILING = (INNER_BODY_BYTES - CONCERNS_HEADER_BYTES) div CONCERN_MAX_BYTES"

definition INVENTORY_PAGE_ROWS_CEILING :: nat where [limit_defs]:
  "INVENTORY_PAGE_ROWS_CEILING = MAX_INVENTORY_PAGE_BYTES div NARROWEST_ROW_BYTES"

definition POINT_CEILING :: nat where [limit_defs]:
  "POINT_CEILING = (INNER_BODY_BYTES - HISTORY_FIXED_BYTES) * 8 div HISTORY_POINT_EIGHTHS"

definition SWEEP_CEILING :: nat where [limit_defs]:
  "SWEEP_CEILING = (MAX_EVENT_BODY - VALIDITY_SWEEP_HEADER_BYTES) div VCHANGE_MAX_BYTES"

definition PRESENCE_SWEEP_CEILING :: nat where [limit_defs]:
  "PRESENCE_SWEEP_CEILING = (MAX_EVENT_BODY - PRESENCE_SWEEP_HEADER_BYTES) div PCHANGE_MAX_BYTES"

definition CLASS_A_TICK_CEILING :: nat where [limit_defs]:
  "CLASS_A_TICK_CEILING = 1 + 1 + MAX_CONCERN_EVENTS_PER_TICK + 1"

section \<open>What the source asserts at compile time\<close>

definition div_ceil :: "nat \<Rightarrow> nat \<Rightarrow> nat" where
  "div_ceil a b = (a + b - 1) div b"

definition caps_fit_their_ceilings :: bool where
  "caps_fit_their_ceilings \<longleftrightarrow>
     unat MAX_DEPTH \<le> 16 \<and> MAX_STRING \<le> 255 \<and>
     MAX_LABEL \<le> MAX_STRING \<and> MAX_IDENT \<le> MAX_STRING \<and> MAX_LINK_TEXT \<le> MAX_STRING \<and>
     MAX_SCAN_APS \<le> SCAN_ANSWER_CEILING \<and> MAX_SCAN_APS \<le> SCAN_RESULT_CEILING \<and>
     CLIENTS_MAX_BYTES \<le> INNER_BODY_BYTES \<and>
     MAX_ADMINS + MAX_VIEWERS < MAX_CLIENTS \<and>
     MAX_INVITES_PER_INVITER < MAX_INVITES \<and>
     MAX_SAMPLES \<le> SAMPLE_CEILING \<and>
     MAX_SERIES \<le> SERIES_CEILING \<and>
     MAX_READINGS_BYTES \<le> INNER_BODY_BYTES - READINGS_HEADER_BYTES \<and>
     MAX_INVENTORY_PAGE_BYTES \<le> INNER_BODY_BYTES - INVENTORY_HEADER_BYTES \<and>
     MAX_INVENTORY_PAGE_ROWS \<le> INVENTORY_PAGE_ROWS_CEILING \<and>
     MAX_CONCERN_PAGE_ROWS \<le> CONCERN_CEILING \<and>
     MAX_CONCERN_PAGE_BYTES \<le> INNER_BODY_BYTES - CONCERNS_HEADER_BYTES \<and>
     MAX_CONCERN_PAGE_ROWS * CONCERN_MAX_BYTES \<le> MAX_CONCERN_PAGE_BYTES \<and>
     MAX_HISTORY_POINTS \<le> POINT_CEILING \<and>
     MAX_VALIDITY_SWEEP \<le> SWEEP_CEILING \<and>
     MAX_PRESENCE_SWEEP \<le> PRESENCE_SWEEP_CEILING"

definition bursts_and_pools_fit :: bool where
  "bursts_and_pools_fit \<longleftrightarrow>
     MAX_SIGNALS > MAX_EVENT_QUEUE * 8 \<and>
     CLASS_A_TICK_CEILING \<le> MAX_EVENT_QUEUE \<and>
     MAX_CONCERNS_BELOW_FAULT < MAX_CONCERNS \<and>
     MAX_SERIES_LEN \<le> MAX_SERIES_ELEMENTS \<and>
     MAX_ROW_BYTES \<le> MAX_INVENTORY_PAGE_BYTES"

definition widest_messages_fit :: bool where
  "widest_messages_fit \<longleftrightarrow>
     RESPONSE_FRAMING_BYTES + READINGS_HEADER_BYTES + MAX_READINGS_BYTES \<le> MAX_PAYLOAD \<and>
     RESPONSE_FRAMING_BYTES + INVENTORY_HEADER_BYTES + MAX_INVENTORY_PAGE_BYTES \<le> MAX_PAYLOAD \<and>
     RESPONSE_FRAMING_BYTES + CONCERNS_HEADER_BYTES + MAX_CONCERN_PAGE_BYTES \<le> MAX_PAYLOAD \<and>
     RESPONSE_FRAMING_BYTES + HISTORY_FIXED_BYTES +
       div_ceil (MAX_HISTORY_POINTS * HISTORY_POINT_EIGHTHS) 8 \<le> MAX_PAYLOAD \<and>
     MAX_FRAME \<ge> max_encoded_len (MAX_PAYLOAD + CRC_BYTES) + FRAME_DELIMITER_BYTES \<and>
     MAX_LOG_PAGE_BYTES \<le> LOG_PAGE_CEILING \<and>
     MAX_OPERATION \<le> MAX_OPERATION_CEILING"

lemma max_encoded_len_payload: "max_encoded_len 1026 = 1031"
  by (simp add: max_encoded_len_def MAX_BLOCK_DATA_def usize_max_def)

section \<open>Properties\<close>

text \<open>Every cap of \<open>limits.rs\<close> sits under the ceiling the source derives for it, every
  widest message fits a payload, and a receive buffer of \<open>MAX_FRAME\<close> bytes holds a full
  payload after COBS has expanded it: the compile-time assertions of the file.\<close>

theorem limits_hold: "caps_fit_their_ceilings \<and> bursts_and_pools_fit \<and> widest_messages_fit"
  unfolding caps_fit_their_ceilings_def bursts_and_pools_fit_def widest_messages_fit_def
  by (intro conjI) (simp_all add: limit_defs div_ceil_def max_encoded_len_payload)

end
