(* ===== verification/Receiver.thy ===== *)
theory Receiver
  imports Prelude
begin

text \<open>
  What the two transports promise the layer above: a receiver that is ready takes the
  pieces a message was cut into, hands the message up at the last of them, and is ready
  again. Proved once here and used by both: messages sent one after another arrive one
  after another.
\<close>

section \<open>Feeding a receiver\<close>

text \<open>The messages a run of inputs makes a receiver hand up, and the state it is left in.\<close>

primrec feed :: "('i \<Rightarrow> 's \<Rightarrow> 'o \<times> 's) \<Rightarrow> ('o \<Rightarrow> 'm option) \<Rightarrow> 'i list \<Rightarrow> 's \<Rightarrow> 'm list \<times> 's" where
  "feed step out [] s = ([], s)"
| "feed step out (i # is) s =
     (case step i s of (x, t) \<Rightarrow>
        (case feed step out is t of (ms, u) \<Rightarrow>
           (case out x of None \<Rightarrow> (ms, u) | Some m \<Rightarrow> (m # ms, u))))"

lemma feed_fst_Cons:
  "fst (feed step out (i # is) s) =
   (case step i s of (x, t) \<Rightarrow> (case out x of None \<Rightarrow> [] | Some m \<Rightarrow> [m]) @ fst (feed step out is t))"
  by (simp split: prod.splits option.splits)

lemma feed_append:
  "feed step out (is @ js) s =
   (case feed step out is s of (ms, t) \<Rightarrow> (case feed step out js t of (ns, u) \<Rightarrow> (ms @ ns, u)))"
  by (induction "is" arbitrary: s) (auto split: prod.splits option.splits)

lemma feed_keeps:
  assumes "\<And>i s x t. good s \<Longrightarrow> step i s = (x, t) \<Longrightarrow> good t"
  shows "good s \<Longrightarrow> feed step out is s = (ms, t) \<Longrightarrow> good t"
proof (induction "is" arbitrary: s ms)
  case (Cons i "is")
  then show ?case
    by (auto split: prod.splits option.splits) (metis assms)+
qed simp

section \<open>The interface\<close>

text \<open>\<open>carries m is\<close>: the inputs \<open>is\<close> are one of the ways of sending \<open>m\<close>.\<close>

locale receiver =
  fixes step :: "'i \<Rightarrow> 's \<Rightarrow> 'o \<times> 's" and out :: "'o \<Rightarrow> 'm option"
    and carries :: "'m \<Rightarrow> 'i list \<Rightarrow> bool" and ready :: "'s \<Rightarrow> bool"
  assumes delivers:
    "ready s \<Longrightarrow> carries m is \<Longrightarrow> \<exists>t. feed step out is s = ([m], t) \<and> ready t"
begin

lemma in_order:
  assumes "list_all2 carries ms iss" and "ready s"
  shows "\<exists>t. feed step out (concat iss) s = (ms, t) \<and> ready t"
  using assms
proof (induction arbitrary: s rule: list_all2_induct)
  case (Cons m ms "is" iss)
  obtain t where first: "feed step out is s = ([m], t)" and "ready t"
    using delivers [OF Cons.prems Cons.hyps(1)] by auto
  with Cons.IH obtain u where "feed step out (concat iss) t = (ms, u)" and "ready u"
    by metis
  with first show ?case
    by (simp add: feed_append)
qed simp

text \<open>Two different sequences of messages never make the same sequence of inputs.\<close>

lemma carries_inj:
  assumes "ready s" and "list_all2 carries ms iss" and "list_all2 carries ns jss"
    and "concat iss = concat jss"
  shows "ms = ns"
  using in_order [OF assms(2,1)] in_order [OF assms(3,1)] by (metis assms(4) prod.inject)

end

text \<open>
  A receiver that finds its footing again: from any state its operations can leave it in,
  one \<open>mark\<close> makes it ready. Noise before a mark cannot cost a message after it.
\<close>

locale resyncing_receiver = receiver +
  fixes good :: "'b \<Rightarrow> bool" and mark :: "'a \<Rightarrow> bool"
  assumes good_step: "good s \<Longrightarrow> step i s = (x, t) \<Longrightarrow> good t"
    and mark_ready: "good s \<Longrightarrow> mark i \<Longrightarrow> step i s = (x, t) \<Longrightarrow> ready t"
begin

lemma resync:
  assumes "good s" and "mark i" and "list_all2 carries ms iss"
  shows "\<exists>lost t. feed step out (noise @ i # concat iss) s = (lost @ ms, t) \<and> ready t"
proof -
  obtain lost t where noise: "feed step out noise s = (lost, t)"
    by fastforce
  have "good t"
    using good_step by (rule feed_keeps [of good step, OF _ assms(1) noise])
  obtain x u where mark: "step i t = (x, u)"
    by fastforce
  with \<open>good t\<close> assms(2) have "ready u"
    by (rule mark_ready)
  then obtain v where "feed step out (concat iss) u = (ms, v)" and "ready v"
    using in_order [OF assms(3)] by blast
  with noise mark show ?thesis
    by (cases "out x") (auto simp: feed_append intro: exI [of _ "lost @ [_]"])
qed

end

end
