(* ===== verification/Frame.thy ===== *)
theory Frame
  imports Receiver Crc Limits
begin

text \<open>
  \<open>crates/km43/src/frame.rs\<close>: \<open>COBS(envelope | crc16) 0x00\<close>, the only thing on the UART.
  \<open>frame_write\<close> is \<open>FrameWriter::write\<close> over the writer's scratch and the caller's
  buffer; \<open>push\<close>, \<open>tick\<close> and \<open>discard\<close> are \<open>FrameReader\<close>'s. The reader is proved to
  compute \<open>frames_in\<close>, the function that cuts a byte stream at its delimiters.
\<close>

section \<open>Writing\<close>

definition DELIMITER :: u8 where [limit_defs]: "DELIMITER = 0x00"
definition MAX_ENCODED :: nat where [limit_defs]: "MAX_ENCODED = MAX_FRAME - FRAME_DELIMITER_BYTES"
definition MAX_DECODED :: nat where [limit_defs]: "MAX_DECODED = MAX_PAYLOAD + CRC_BYTES"

definition max_frame_len :: "nat \<Rightarrow> nat" where
  "max_frame_len payload =
     saturating_add (max_encoded_len (saturating_add payload CRC_BYTES)) FRAME_DELIMITER_BYTES"

datatype frame_error =
    PayloadTooLong
  | FrameDestinationTooSmall
  | FrameTooLong
  | FrameCobs cobs_error
  | MissingCrc
  | BadCrc

record frame_writer =
  fw_body :: bytes

definition writer_new :: frame_writer where
  "writer_new = \<lparr>fw_body = replicate MAX_DECODED 0\<rparr>"

definition encode_refusal :: "cobs_error \<Rightarrow> frame_error" where
  "encode_refusal why =
     (case why of CobsDestinationTooSmall \<Rightarrow> FrameDestinationTooSmall | _ \<Rightarrow> FrameCobs why)"

definition frame_write ::
    "bytes \<Rightarrow> frame_writer \<Rightarrow> bytes \<Rightarrow> (frame_error + nat) \<times> frame_writer \<times> bytes" where
  "frame_write payload w dst =
     (case checked_add (length payload) CRC_BYTES of
        None \<Rightarrow> (Inl PayloadTooLong, w, dst)
      | Some stop \<Rightarrow>
          if length dst < max_frame_len (length payload) then (Inl FrameDestinationTooSmall, w, dst)
          else if stop > length (fw_body w) then (Inl PayloadTooLong, w, dst)
          else
            let w' = w\<lparr>fw_body := splice (fw_body w) 0 (payload @ u16_to_le (crc16 payload))\<rparr>
            in case cobs_encode (take stop (fw_body w')) dst of
                 (Inl why, dst') \<Rightarrow> (Inl (encode_refusal why), w', dst')
               | (Inr encoded, dst') \<Rightarrow>
                   if encoded < length dst'
                   then (Inr (saturating_add encoded 1), w', dst'[encoded := DELIMITER])
                   else (Inl FrameDestinationTooSmall, w', dst'))"

section \<open>Reading\<close>

datatype received =
    Nothing
  | Frame bytes
  | Dropped frame_error
  | Abandoned

record frame_reader =
  fr_encoded :: bytes
  fr_at :: nat
  fr_overlong :: bool
  fr_decoded :: bytes
  fr_waiting :: u32

definition INCOMPLETE_AFTER_MS :: u32 where "INCOMPLETE_AFTER_MS = 50"

definition reader_new :: frame_reader where
  "reader_new =
     \<lparr>fr_encoded = replicate MAX_ENCODED 0, fr_at = 0, fr_overlong = False,
      fr_decoded = replicate MAX_DECODED 0, fr_waiting = 0\<rparr>"

definition hold :: "u8 \<Rightarrow> frame_reader \<Rightarrow> frame_reader" where
  "hold byte r =
     (if fr_at r < length (fr_encoded r)
      then r\<lparr>fr_encoded := (fr_encoded r)[fr_at r := byte], fr_at := saturating_add (fr_at r) 1\<rparr>
      else r\<lparr>fr_overlong := True\<rparr>)"

definition decode_refusal :: "cobs_error \<Rightarrow> frame_error" where
  "decode_refusal why =
     (case why of CobsDestinationTooSmall \<Rightarrow> PayloadTooLong | _ \<Rightarrow> FrameCobs why)"

definition take_frame :: "nat \<Rightarrow> (frame_reader, frame_error, bytes) act" where
  "take_frame len r =
     (case slice (fr_encoded r) 0 len of
        None \<Rightarrow> (Inl FrameTooLong, r)
      | Some body \<Rightarrow>
          (case cobs_decode body (fr_decoded r) of
             (Inl why, dst) \<Rightarrow> (Inl (decode_refusal why), r\<lparr>fr_decoded := dst\<rparr>)
           | (Inr filled, dst) \<Rightarrow>
               let r' = r\<lparr>fr_decoded := dst\<rparr>; envelope_len = filled - CRC_BYTES
               in case slice dst 0 filled of
                    None \<Rightarrow> (Inl MissingCrc, r')
                  | Some frame \<Rightarrow>
                      (case drop envelope_len frame of
                         [low, high] \<Rightarrow>
                           if crc16 (take envelope_len frame) \<noteq> u16_from_le low high
                           then (Inl BadCrc, r')
                           else (Inr (take envelope_len frame), r')
                       | _ \<Rightarrow> (Inl MissingCrc, r'))))"

definition push :: "u8 \<Rightarrow> frame_reader \<Rightarrow> received \<times> frame_reader" where
  "push byte r =
     (if byte \<noteq> DELIMITER then (Nothing, hold byte r)
      else
        let len = fr_at r; r' = r\<lparr>fr_waiting := 0, fr_at := 0\<rparr>
        in if fr_overlong r' then (Dropped FrameTooLong, r'\<lparr>fr_overlong := False\<rparr>)
           else if len = 0 then (Nothing, r')
           else case take_frame len r' of
                  (Inr envelope, r'') \<Rightarrow> (Frame envelope, r'')
                | (Inl why, r'') \<Rightarrow> (Dropped why, r''))"

definition discard :: "frame_reader \<Rightarrow> frame_reader" where
  "discard r = r\<lparr>fr_at := 0, fr_overlong := False, fr_waiting := 0\<rparr>"

definition tick :: "u8 option \<Rightarrow> u32 \<Rightarrow> frame_reader \<Rightarrow> received \<times> frame_reader" where
  "tick byte since_ms r =
     (case byte of
        None \<Rightarrow>
          let r' = r\<lparr>fr_waiting := sat_add32 (fr_waiting r) since_ms\<rparr>
          in if fr_at r' > 0 \<and> fr_waiting r' \<ge> INCOMPLETE_AFTER_MS then (Abandoned, discard r')
             else (Nothing, r')
      | Some b \<Rightarrow> push b (r\<lparr>fr_waiting := 0\<rparr>))"

section \<open>The function the reader computes\<close>

text \<open>The message a run of bytes between two delimiters carries, if it carries one.\<close>

definition frame_of :: "bytes \<Rightarrow> bytes option" where
  "frame_of run =
     (if run = [] \<or> MAX_ENCODED < length run then None
      else case dec_spec run of
             Inl _ \<Rightarrow> None
           | Inr ys \<Rightarrow>
               (let n = length ys - 2 in
                if length ys \<le> MAX_DECODED \<and> drop n ys = u16_to_le (crc16 (take n ys))
                then Some (take n ys) else None))"

fun frames_in :: "bytes \<Rightarrow> bytes \<Rightarrow> bytes list" where
  "frames_in run [] = []"
| "frames_in run (b # bs) =
     (if b \<noteq> 0 then frames_in (run @ [b]) bs
      else case frame_of run of None \<Rightarrow> frames_in [] bs | Some e \<Rightarrow> e # frames_in [] bs)"

fun delivered :: "received \<Rightarrow> bytes option" where
  "delivered (Frame e) = Some e"
| "delivered _ = None"

text \<open>The bytes a message is sent as.\<close>

definition frame_wire :: "bytes \<Rightarrow> bytes" where
  "frame_wire m = enc_spec [] (m @ u16_to_le (crc16 m)) @ [0]"

section \<open>The reader's invariant\<close>

definition reader_ok :: "frame_reader \<Rightarrow> bool" where
  "reader_ok r \<longleftrightarrow>
     length (fr_encoded r) = MAX_ENCODED \<and> length (fr_decoded r) = MAX_DECODED \<and>
     fr_at r \<le> MAX_ENCODED \<and> 0 \<notin> set (take (fr_at r) (fr_encoded r)) \<and>
     (fr_overlong r \<longrightarrow> fr_at r = MAX_ENCODED)"

lemma MAX_ENCODED_val: "MAX_ENCODED = 1031" and MAX_DECODED_val: "MAX_DECODED = 1026"
  by (simp_all add: limit_defs)

lemma crc_le_iff: "crc = u16_from_le low high \<longleftrightarrow> [low, high] = u16_to_le crc"
proof
  assume "[low, high] = u16_to_le crc"
  then have "low = ucast crc" "high = ucast (drop_bit 8 crc)"
    by (simp_all only: u16_to_le_def list.inject)
  then show "crc = u16_from_le low high"
    by (simp only: u16_from_to_le)
qed (simp only: u16_to_from_le)


lemma take_frame_eq:
  assumes "reader_ok r" and "len \<le> MAX_ENCODED" and "0 < len"
    and "body = take len (fr_encoded r)"
  shows "(case take_frame len r of (Inr e, r') \<Rightarrow> Some e | (Inl why, r') \<Rightarrow> None) = frame_of body"
    and "take_frame len r = (x, r') \<Longrightarrow>
         \<exists>dst. r' = r\<lparr>fr_decoded := dst\<rparr> \<and> length dst = MAX_DECODED"
proof -
  have room: "length (fr_decoded r) = MAX_DECODED" and enc: "length (fr_encoded r) = MAX_ENCODED"
    using assms(1) by (auto simp: reader_ok_def)
  have body: "slice (fr_encoded r) 0 len = Some body" and len: "length body = len"
    using assms(2,4) enc by (auto simp: slice_def)
  have sized: "frame_sized body"
    using assms(2,3) len by (auto simp: frame_sized_def MAX_ENCODED_val usize_max_def)
  obtain y dst where dec: "cobs_decode body (fr_decoded r) = (y, dst)"
    by fastforce
  have room': "length dst = MAX_DECODED"
    using cobs_decode_keeps_room [OF dec] room by simp
  show "\<exists>dst. r' = r\<lparr>fr_decoded := dst\<rparr> \<and> length dst = MAX_DECODED"
    if "take_frame len r = (x, r')"
    using that room'
    by (auto simp: take_frame_def body dec Let_def split: sum.splits option.splits list.splits if_splits)
  show "(case take_frame len r of (Inr e, r') \<Rightarrow> Some e | (Inl why, r') \<Rightarrow> None) = frame_of body"
  proof (cases y)
    case (Inl why)
    have "dec_spec body = Inr ys \<Longrightarrow> MAX_DECODED < length ys" for ys
      using cobs_decode_ok [OF _ sized, of ys "fr_decoded r"] dec Inl room by fastforce
    then show ?thesis
      using Inl by (auto simp: take_frame_def body dec frame_of_def Let_def split: sum.splits)
  next
    case (Inr filled)
    then obtain ys where ys: "dec_spec body = Inr ys" "filled = length ys" "length ys \<le> MAX_DECODED"
      and dst: "dst = splice (fr_decoded r) 0 ys"
      using dec room sized by (auto elim: cobs_decode_Inr)
    have frame: "slice dst 0 filled = Some ys"
      using ys dst room by (simp add: slice_def splice_def)
    let ?n = "length ys - 2"
    have tail: "drop ?n ys = u16_to_le (crc16 (take ?n ys)) \<longleftrightarrow>
        (\<exists>low high. drop ?n ys = [low, high] \<and> crc16 (take ?n ys) = u16_from_le low high)"
      by (auto simp: crc_le_iff u16_to_from_le) (simp add: u16_to_le_def u16_to_from_le crc_le_iff)
    show ?thesis
      using ys body dec Inr frame assms(2,3) len
      by (auto simp: take_frame_def frame_of_def Let_def CRC_BYTES_def tail
          split: list.splits if_splits)
  qed
qed


lemma reader_new_ok: "reader_ok reader_new"
  by (simp add: reader_ok_def reader_new_def)

lemma take_update_end: "n < length xs \<Longrightarrow> take (Suc n) (xs[n := x]) = take n xs @ [x]"
  by (simp add: take_Suc_conv_app_nth)

lemma hold_ok: "reader_ok r \<Longrightarrow> byte \<noteq> 0 \<Longrightarrow> reader_ok (hold byte r)"
  by (auto simp: reader_ok_def hold_def take_update_end saturating_add_def usize_max_def MAX_ENCODED_val)

lemma discard_ok: "reader_ok r \<Longrightarrow> reader_ok (discard r)"
  by (simp add: reader_ok_def discard_def)

text \<open>A delimiter leaves the reader with an empty buffer, whatever it held.\<close>

definition reader_idle :: "frame_reader \<Rightarrow> bool" where
  "reader_idle r \<longleftrightarrow> reader_ok r \<and> fr_at r = 0 \<and> \<not> fr_overlong r"

lemma push_delimiter:
  assumes "reader_ok r" and "push 0 r = (x, r')"
  shows "reader_idle r' \<and> fr_waiting r' = 0"
proof -
  let ?r = "r\<lparr>fr_waiting := 0, fr_at := 0\<rparr>"
  have "reader_idle (?r\<lparr>fr_decoded := dst, fr_overlong := False\<rparr>)" if "length dst = MAX_DECODED" for dst
    using assms(1) that by (auto simp: reader_idle_def reader_ok_def)
  moreover have "length (fr_decoded r) = MAX_DECODED"
    using assms(1) by (simp add: reader_ok_def)
  moreover have "\<exists>dst. r' = ?r\<lparr>fr_decoded := dst, fr_overlong := False\<rparr> \<and> length dst = MAX_DECODED"
  proof (cases "fr_overlong r \<or> fr_at r = 0")
    case True
    with assms(2) \<open>length (fr_decoded r) = MAX_DECODED\<close> show ?thesis
      by (intro exI [of _ "fr_decoded r"]) (auto simp: push_def DELIMITER_def Let_def split: if_splits)
  next
    case False
    then obtain y where "take_frame (fr_at r) ?r = (y, r')"
      using assms(2) by (auto simp: push_def DELIMITER_def Let_def split: prod.splits sum.splits)
    moreover have "cobs_decode body (fr_decoded r) = (z, dst) \<Longrightarrow> length dst = MAX_DECODED" for body z dst
      using cobs_decode_keeps_room \<open>length (fr_decoded r) = MAX_DECODED\<close> by simp
    ultimately show ?thesis
      using False \<open>length (fr_decoded r) = MAX_DECODED\<close>
      by (cases r)
        (fastforce simp: take_frame_def Let_def split: option.splits prod.splits sum.splits list.splits if_splits)
  qed
  ultimately show ?thesis
    by auto
qed

lemma push_ok: "reader_ok r \<Longrightarrow> push byte r = (x, r') \<Longrightarrow> reader_ok r'"
  using push_delimiter [of r x r'] hold_ok [of r byte]
  by (cases "byte = 0") (auto simp: push_def DELIMITER_def reader_idle_def)

text \<open>The bytes since the last delimiter, as far as the reader has room for them.\<close>

definition holds :: "frame_reader \<Rightarrow> bytes \<Rightarrow> bool" where
  "holds r run \<longleftrightarrow> reader_ok r \<and>
     (if length run \<le> MAX_ENCODED
      then fr_at r = length run \<and> take (fr_at r) (fr_encoded r) = run \<and> \<not> fr_overlong r
      else fr_overlong r)"

lemma reader_idle_holds: "reader_idle r \<longleftrightarrow> holds r []"
  by (auto simp: reader_idle_def holds_def)

lemma holds_hold:
  assumes "holds r run" and "byte \<noteq> 0"
  shows "holds (hold byte r) (run @ [byte])"
proof -
  have "length (fr_encoded r) = MAX_ENCODED" "fr_at r \<le> MAX_ENCODED"
    using assms(1) by (auto simp: holds_def reader_ok_def)
  then show ?thesis
    using assms hold_ok [of r byte]
    by (auto simp: holds_def hold_def take_update_end saturating_add_def usize_max_def MAX_ENCODED_val
        reader_ok_def split: if_splits)
qed

lemma push_delivers:
  assumes "holds r run"
  shows "delivered (fst (push 0 r)) = frame_of run"
proof (cases "run = [] \<or> MAX_ENCODED < length run")
  case True
  then show ?thesis
    using assms by (auto simp: holds_def push_def DELIMITER_def Let_def frame_of_def)
next
  case False
  let ?r = "r\<lparr>fr_waiting := 0, fr_at := 0\<rparr>"
  have at: "fr_at r = length run" "take (length run) (fr_encoded r) = run" "\<not> fr_overlong r"
    using assms False by (auto simp: holds_def)
  have "reader_ok ?r"
    using assms at(3) by (auto simp: holds_def reader_ok_def)
  then have "(case take_frame (length run) ?r of (Inr e, r') \<Rightarrow> Some e | (Inl why, r') \<Rightarrow> None) =
             frame_of run"
    using at False by (intro take_frame_eq(1)) auto
  then show ?thesis
    using at False by (auto simp: push_def DELIMITER_def Let_def split: prod.splits sum.splits)
qed

lemma feed_frames_in:
  "holds r run \<Longrightarrow> fst (feed push delivered bs r) = frames_in run bs"
proof (induction bs arbitrary: r run)
  case (Cons b bs)
  obtain x r' where step: "push b r = (x, r')"
    by fastforce
  show ?case
  proof (cases "b = 0")
    case True
    then have "holds r' []"
      using push_delimiter [of r x r'] step Cons.prems by (simp add: holds_def reader_idle_def)
    with Cons.IH [OF this] push_delivers [OF Cons.prems] step True show ?thesis
      by (auto split: prod.splits option.splits)
  next
    case False
    then have "x = Nothing" and "holds r' (run @ [b])"
      using step holds_hold [OF Cons.prems] by (auto simp: push_def DELIMITER_def)
    with Cons.IH [OF this(2)] step False show ?thesis
      by (auto split: prod.splits)
  qed
qed simp

lemma feed_keeps_ok: "reader_ok r \<Longrightarrow> feed push delivered bs r = (ms, r') \<Longrightarrow> reader_ok r'"
  by (rule feed_keeps [where good = reader_ok, OF push_ok]) auto

section \<open>Sent and received\<close>

definition frame_sendable :: "bytes \<Rightarrow> bool" where
  "frame_sendable m \<longleftrightarrow> length m \<le> MAX_PAYLOAD"

lemma max_encoded_len_mono: "a \<le> b \<Longrightarrow> max_encoded_len a \<le> max_encoded_len b"
  using div_le_mono [of a b MAX_BLOCK_DATA]
  by (simp add: max_encoded_len_def saturating_add_def)

lemma frame_encoding_length:
  assumes "frame_sendable m"
  shows "length (enc_spec [] (m @ u16_to_le (crc16 m))) \<le> max_encoded_len (length m + 2)"
    and "max_encoded_len (length m + 2) \<le> MAX_ENCODED"
proof -
  have len: "length m + 2 \<le> 1026"
    using assms by (simp add: frame_sendable_def MAX_PAYLOAD_def)
  then show "length (enc_spec [] (m @ u16_to_le (crc16 m))) \<le> max_encoded_len (length m + 2)"
    using enc_spec_fits [of "m @ u16_to_le (crc16 m)"] by (simp add: usize_max_def)
  show "max_encoded_len (length m + 2) \<le> MAX_ENCODED"
    using max_encoded_len_mono [OF len] by (simp add: max_encoded_len_payload MAX_ENCODED_val)
qed

lemma frame_of_wire:
  assumes "frame_sendable m"
  shows "frame_of (enc_spec [] (m @ u16_to_le (crc16 m))) = Some m"
proof -
  have "length (enc_spec [] (m @ u16_to_le (crc16 m))) \<le> MAX_ENCODED"
    using frame_encoding_length [OF assms] by simp
  then show ?thesis
    using assms
    by (simp add: frame_of_def cobs.dec_enc Let_def frame_sendable_def MAX_DECODED_val MAX_PAYLOAD_def)
qed

lemma frames_in_nonzero: "0 \<notin> set xs \<Longrightarrow> frames_in run (xs @ bs) = frames_in (run @ xs) bs"
  by (induction xs arbitrary: run) auto

lemma frames_in_wire: "frame_sendable m \<Longrightarrow> frames_in [] (frame_wire m @ bs) = m # frames_in [] bs"
  by (simp add: frame_wire_def frames_in_nonzero cobs.enc_delim_free frame_of_wire)

lemma feed_snoc_delimiter:
  "reader_ok r \<Longrightarrow> feed push delivered (bs @ [0]) r = (ms, r') \<Longrightarrow> reader_idle r'"
proof -
  assume ok: "reader_ok r" and run: "feed push delivered (bs @ [0]) r = (ms, r')"
  obtain ns t where body: "feed push delivered bs r = (ns, t)"
    by fastforce
  obtain x u where last: "push 0 t = (x, u)"
    by fastforce
  have "u = r'"
    using run body last by (cases "delivered x") (simp_all add: feed_append)
  then show "reader_idle r'"
    using push_delimiter [OF feed_keeps_ok [OF ok body] last] by simp
qed

definition frame_carries :: "bytes \<Rightarrow> bytes \<Rightarrow> bool" where
  "frame_carries m bs \<longleftrightarrow> frame_sendable m \<and> bs = frame_wire m"

interpretation uart: resyncing_receiver push delivered frame_carries reader_idle reader_ok
  "\<lambda>b. b = 0"
proof unfold_locales
  fix r m bs
  assume "reader_idle r" and "frame_carries m bs"
  then have m: "frame_sendable m" and bs: "bs = frame_wire m"
    by (auto simp: frame_carries_def)
  obtain ms r' where run: "feed push delivered (frame_wire m) r = (ms, r')"
    by fastforce
  then have "ms = [m]"
    using feed_frames_in [of r "[]" "frame_wire m"] frames_in_wire [OF m, of "[]"] \<open>reader_idle r\<close>
    by (simp add: reader_idle_holds)
  moreover have "reader_idle r'"
    using run \<open>reader_idle r\<close> unfolding frame_wire_def
    by (intro feed_snoc_delimiter) (auto simp: reader_idle_def)
  ultimately show "\<exists>t. feed push delivered bs r = ([m], t) \<and> reader_idle t"
    using run bs by blast
qed (auto dest: push_ok push_delimiter)

text \<open>What \<open>FrameWriter::write\<close> leaves in the caller's buffer.\<close>

lemma frame_write_eq:
  assumes "length (fw_body w) = MAX_DECODED"
  shows "frame_sendable m \<Longrightarrow> max_frame_len (length m) \<le> length dst \<Longrightarrow>
    \<exists>w'. frame_write m w dst = (Inr (length (frame_wire m)), w', splice dst 0 (frame_wire m)) \<and>
         length (fw_body w') = MAX_DECODED"
proof -
  let ?body = "m @ u16_to_le (crc16 m)"
  assume m: "frame_sendable m" and dst: "max_frame_len (length m) \<le> length dst"
  have small: "length m \<le> 1024"
    using m by (simp add: frame_sendable_def MAX_PAYLOAD_def)
  have enc: "length (enc_spec [] ?body) \<le> max_encoded_len (length m + 2)"
    and bound: "max_encoded_len (length m + 2) \<le> 1031"
    using frame_encoding_length [OF m] by (simp_all add: MAX_ENCODED_val)
  then have room: "max_encoded_len (length m + 2) < length dst"
    using dst small
    by (simp add: max_frame_len_def saturating_add_def usize_max_def CRC_BYTES_def FRAME_DELIMITER_BYTES_def)
  then have "cobs_encode ?body dst = (Inr (length (enc_spec [] ?body)), splice dst 0 (enc_spec [] ?body))"
    using small by (intro cobs_encode_eq) (auto simp: usize_max_def)
  moreover have "(splice dst 0 (enc_spec [] ?body))[length (enc_spec [] ?body) := 0] =
                 splice dst 0 (frame_wire m)"
    using enc room
    by (simp add: splice_def frame_wire_def list_update_append Cons_nth_drop_Suc [symmetric])
  ultimately show "\<exists>w'. frame_write m w dst = (Inr (length (frame_wire m)), w', splice dst 0 (frame_wire m)) \<and>
         length (fw_body w') = MAX_DECODED"
    using small enc room bound dst assms
    by (auto simp: frame_write_def CRC_BYTES_def usize_max_def splice_def MAX_DECODED_val
        DELIMITER_def frame_wire_def checked_add_def saturating_add_def)
qed

lemma length_frame_wire:
  "frame_sendable m \<Longrightarrow> length (frame_wire m) \<le> MAX_FRAME"
  using frame_encoding_length [of m] by (simp add: frame_wire_def MAX_ENCODED_val MAX_FRAME_def)

lemma frame_write_long:
  assumes "length (fw_body w) = MAX_DECODED" and "MAX_PAYLOAD < length m"
  shows "\<exists>why. frame_write m w dst = (Inl why, w, dst)"
  using assms
  by (auto simp: frame_write_def checked_add_def MAX_DECODED_val MAX_PAYLOAD_def CRC_BYTES_def)


section \<open>The incomplete-frame timeout\<close>

fun abandoned :: "received \<Rightarrow> unit option" where
  "abandoned Abandoned = Some ()"
| "abandoned _ = None"

lemma tick_idle:
  "tick None ms r =
     (if 0 < fr_at r \<and> 50 \<le> unat (fr_waiting r) + unat ms then (Abandoned, discard r)
      else (Nothing, r\<lparr>fr_waiting := sat_add32 (fr_waiting r) ms\<rparr>))"
  by (auto simp: tick_def Let_def INCOMPLETE_AFTER_MS_def word_le_nat_alt unat_sat_add32 discard_def)

lemma idle_line: "fr_at r = 0 \<Longrightarrow> fst (feed (tick None) abandoned ts r) = []"
  by (induction ts arbitrary: r) (simp_all add: feed_fst_Cons tick_idle del: feed.simps(2))

lemma idle_run:
  assumes "reader_ok r" and "0 < fr_at r" and "unat (fr_waiting r) < 50"
  shows "fst (feed (tick None) abandoned ts r) =
           (if 50 \<le> unat (fr_waiting r) + sum_list (map unat ts) then [()] else [])"
  using assms
proof (induction ts arbitrary: r)
  case (Cons t ts)
  show ?case
  proof (cases "50 \<le> unat (fr_waiting r) + unat t")
    case True
    moreover have "fst (feed (tick None) abandoned ts (discard r)) = []"
      by (rule idle_line) (simp add: discard_def)
    ultimately show ?thesis
      using Cons.prems by (simp add: feed_fst_Cons tick_idle [of t r] del: feed.simps(2))
  next
    case False
    then have w: "unat (sat_add32 (fr_waiting r) t) = unat (fr_waiting r) + unat t"
      by (simp add: unat_sat_add32)
    have "reader_ok (r\<lparr>fr_waiting := sat_add32 (fr_waiting r) t\<rparr>)"
      using Cons.prems(1) by (simp add: reader_ok_def)
    from Cons.IH [OF this] Cons.prems False w show ?thesis
      by (simp add: feed_fst_Cons tick_idle [of t r] add.assoc del: feed.simps(2))
  qed
qed simp

section \<open>Properties\<close>

text \<open>A payload of at most 1024 bytes, framed into any buffer of \<open>max_frame_len\<close> bytes,
  takes at most \<open>MAX_FRAME\<close> bytes, leaves the rest of the buffer alone, and fed byte by byte
  to any idle reader is handed up once, as it was sent, leaving the reader idle again.\<close>

theorem frame_round_trip:
  assumes "length m \<le> MAX_PAYLOAD" and "max_frame_len (length m) \<le> length dst"
    and "length (fw_body w) = MAX_DECODED" and "reader_idle r"
  shows "\<exists>n w' dst' r'. frame_write m w dst = (Inr n, w', dst') \<and> n \<le> MAX_FRAME \<and>
           drop n dst' = drop n dst \<and>
           feed push delivered (take n dst') r = ([m], r') \<and> reader_idle r'"
proof -
  have m: "frame_sendable m"
    using assms(1) by (simp add: frame_sendable_def)
  obtain w' where "frame_write m w dst = (Inr (length (frame_wire m)), w', splice dst 0 (frame_wire m))"
    using frame_write_eq [OF assms(3) m assms(2)] by blast
  moreover obtain r' where "feed push delivered (frame_wire m) r = ([m], r')" and "reader_idle r'"
    using uart.delivers [OF assms(4)] m by (auto simp: frame_carries_def)
  ultimately show ?thesis
    using length_frame_wire [OF m] by (auto simp: splice_def)
qed

lemma frame_round_trip_witness:
  "\<exists>n w' dst' r'. frame_write [1, 0, 2] writer_new (replicate 20 7) = (Inr n, w', dst') \<and>
     n \<le> MAX_FRAME \<and> drop n dst' = drop n (replicate 20 7) \<and>
     feed push delivered (take n dst') reader_new = ([[1, 0, 2]], r') \<and> reader_idle r'"
  by (rule frame_round_trip)
    (simp_all add: limit_defs max_frame_len_def max_encoded_len_def MAX_BLOCK_DATA_def usize_max_def
      writer_new_def reader_idle_def reader_new_ok, simp_all add: reader_new_def)

text \<open>C30. Resynchronisation: whatever state the reader is in and whatever bytes went before,
  one delimiter later every frame of a stream is handed up, in order, none lost, none added.\<close>

theorem frame_resync:
  assumes "reader_ok r" and "list_all frame_sendable ms"
  shows "\<exists>lost r'. feed push delivered (noise @ 0 # concat (map frame_wire ms)) r = (lost @ ms, r') \<and>
           reader_idle r'"
proof -
  have "list_all2 frame_carries ms (map frame_wire ms)"
    using assms(2) by (simp add: list.rel_map list_all_iff frame_carries_def list.rel_refl_strong)
  then show ?thesis
    using assms(1) by (intro uart.resync) auto
qed

lemma frame_resync_witness:
  "\<exists>lost r'. feed push delivered ([1, 2, 3] @ 0 # concat (map frame_wire [[5], [], [0, 0]])) reader_new
     = (lost @ [[5], [], [0, 0]], r') \<and> reader_idle r'"
  by (rule frame_resync) (simp_all add: reader_new_ok frame_sendable_def limit_defs)

text \<open>C33. The reader hands up exactly the messages of the bytes it was fed: cut at the
  delimiters, a run of 1 to 1031 bytes that COBS decodes to at most 1024 bytes and a matching
  CRC is a message and nothing else is. The reader's two buffers and its overlong flag are an
  implementation of that function, over any stream.\<close>

theorem reader_refines_frames_in:
  assumes "reader_idle r"
  shows "fst (feed push delivered bs r) = frames_in [] bs"
  using assms feed_frames_in [of r "[]" bs] by (simp add: reader_idle_holds)

lemma reader_refines_frames_in_witness:
  "fst (feed push delivered [2, 7, 0] reader_new) = []"
proof -
  have "reader_idle reader_new"
    using reader_new_ok by (simp add: reader_idle_def reader_new_def)
  then have "fst (feed push delivered [2, 7, 0] reader_new) = frames_in [] [2, 7, 0]"
    by (rule reader_refines_frames_in)
  also have "\<dots> = []"
    by (simp add: frame_of_def MAX_ENCODED_val MAX_DECODED_val MAX_CODE_def u16_to_le_def)
  finally show ?thesis .
qed

text \<open>What every operation keeps and what a delimiter always does: the two buffers stay at
  their sizes, the run holds no zero and never passes the buffer, and after a delimiter the
  reader is idle and its clock is zero whatever was in it.\<close>

theorem reader_invariant:
  assumes "reader_ok r"
  shows "(\<forall>x r'. push b r = (x, r') \<longrightarrow> reader_ok r' \<and> (b = 0 \<longrightarrow> reader_idle r' \<and> fr_waiting r' = 0)) \<and>
    (\<forall>x r'. tick byte ms r = (x, r') \<longrightarrow> reader_ok r') \<and> reader_idle (discard r) \<and> reader_idle reader_new"
proof (intro conjI allI impI)
  fix x r'
  assume push: "push b r = (x, r')"
  then show "reader_ok r'"
    using push_ok [OF assms] by blast
  assume "b = 0"
  then show "reader_idle r'" "fr_waiting r' = 0"
    using push_delimiter [of r x r'] assms push by auto
next
  fix x r'
  assume "tick byte ms r = (x, r')"
  moreover have "reader_ok (r\<lparr>fr_waiting := w\<rparr>)" for w
    using assms by (simp add: reader_ok_def)
  ultimately show "reader_ok r'"
    using assms discard_ok [of r]
    by (cases byte) (auto simp: tick_idle split: if_splits, auto simp: tick_def dest: push_ok)
next
  show "reader_idle (discard r)" "reader_idle reader_new"
    using assms reader_new_ok
    by (auto simp: reader_idle_def discard_def reader_ok_def reader_new_def)
qed

lemma reader_invariant_witness: "reader_ok (snd (push 5 reader_new))"
  using reader_invariant [OF reader_new_ok, of 5 None 0] by (metis prod.collapse)

text \<open>The incomplete-frame timeout: an open run is thrown away exactly when the idle time
  since its last byte reaches 50 ms, once, however the time was cut into ticks; an idle line is
  never reported, for however long.\<close>

theorem stalled_run_abandoned:
  assumes "reader_ok r" and "unat (fr_waiting r) < 50"
  shows "fst (feed (tick None) abandoned ts r) =
           (if 0 < fr_at r \<and> 50 \<le> unat (fr_waiting r) + sum_list (map unat ts) then [()] else [])"
  using idle_run [OF assms(1) _ assms(2), of ts] idle_line [of r ts] by (cases "fr_at r = 0") simp_all

lemma stalled_run_abandoned_witness:
  "fst (feed (tick None) abandoned [20, 29, 1, 90] (hold 7 reader_new)) = [()]"
  using stalled_run_abandoned [OF hold_ok [OF reader_new_ok], of 7 "[20, 29, 1, 90]"]
  by (simp add: hold_def reader_new_def limit_defs saturating_add_def usize_max_def)

end
