(* ===== verification/Ble.thy ===== *)
theory Ble
  imports Receiver Limits
begin

text \<open>
  \<open>crates/km43/src/ble.rs\<close>: fragmentation of one message into GATT values and back.
  \<open>ble_receive\<close> is the receiver with its expiry and its resets, \<open>ble_enqueue\<close>,
  \<open>ble_fragment\<close> and \<open>ble_accepted\<close> the sender; \<open>fragments\<close> is the list of values a
  message is cut into, which the sender is proved to offer and the receiver to put together
  again.
\<close>

section \<open>Negotiated sizes\<close>

datatype ble_error = BleMtuRange | ValueLimit | BleLength | Sequence | BleBusy | Buffer | Idle

datatype ble_mtu = BleMtu u16
datatype ble_value_limit = BleValueLimit nat

definition ble_mtu_new :: "u16 \<Rightarrow> ble_error + ble_mtu" where
  "ble_mtu_new mtu =
     (if BLE_MIN_MTU \<le> mtu \<and> mtu \<le> BLE_MAX_MTU then Inr (BleMtu mtu) else Inl BleMtuRange)"

primrec mtu_value_len :: "ble_mtu \<Rightarrow> nat" where
  "mtu_value_len (BleMtu mtu) = min (unat mtu - 3) BLE_MAX_VALUE"

definition mtu_value_limit :: "ble_mtu \<Rightarrow> ble_value_limit" where
  "mtu_value_limit mtu = BleValueLimit (mtu_value_len mtu)"

definition value_limit_new :: "nat \<Rightarrow> ble_error + ble_value_limit" where
  "value_limit_new value_len =
     (let minimum = unat BLE_MIN_MTU - 3
      in if minimum \<le> value_len \<and> value_len \<le> BLE_MAX_VALUE
         then Inr (BleValueLimit value_len) else Inl ValueLimit)"

definition mtu_select :: "ble_mtu \<Rightarrow> nat \<Rightarrow> ble_error + ble_value_limit" where
  "mtu_select mtu value_len =
     (if value_len > mtu_value_len mtu then Inl ValueLimit else value_limit_new value_len)"

primrec limit_value_len :: "ble_value_limit \<Rightarrow> nat" where
  "limit_value_len (BleValueLimit n) = n"

section \<open>The receiver\<close>

record ble_receiver =
  br_bytes :: bytes
  br_len :: nat
  br_active :: "(u8 \<times> u8 \<times> u64) option"

definition ble_receiver_new :: ble_receiver where
  "ble_receiver_new = \<lparr>br_bytes = replicate MAX_PAYLOAD 0, br_len = 0, br_active = None\<rparr>"

definition receiver_reset :: "ble_receiver \<Rightarrow> ble_receiver" where
  "receiver_reset r = r\<lparr>br_active := None, br_len := 0\<rparr>"

definition receiver_expire :: "u64 \<Rightarrow> ble_receiver \<Rightarrow> ble_receiver" where
  "receiver_expire now_ms r =
     (case br_active r of
        Some (_, _, last_ms) \<Rightarrow>
          if now_ms < last_ms \<or> now_ms - last_ms \<ge> BLE_TIMEOUT_MS then receiver_reset r else r
      | None \<Rightarrow> r)"

definition receiver_append :: "bytes \<Rightarrow> ble_mtu \<Rightarrow> u64 \<Rightarrow> (ble_receiver, ble_error, bool) act" where
  "receiver_append val mtu now_ms r =
     (if length val < 3 \<or> length val > mtu_value_len mtu then (Inl BleLength, r)
      else case val of
        msg_id # flags # data \<Rightarrow>
          let index = flags AND BLE_INDEX_MASK;
              final = (flags AND BLE_LAST_FLAG \<noteq> 0);
              r1 = (case br_active r of
                      Some (previous, _, _) \<Rightarrow> if previous \<noteq> msg_id then receiver_reset r else r
                    | None \<Rightarrow> r)
          in if (case br_active r1 of Some (_, expected, _) \<Rightarrow> expected \<noteq> index | None \<Rightarrow> index \<noteq> 0)
             then (Inl Sequence, r1)
             else
               let r2 = (case br_active r1 of None \<Rightarrow> r1\<lparr>br_len := 0\<rparr> | Some _ \<Rightarrow> r1)
               in (case checked_add (br_len r2) (length data) of
                     None \<Rightarrow> (Inl BleLength, r2)
                   | Some stop \<Rightarrow>
                       if \<not> final \<and> (index = BLE_INDEX_MASK \<or> stop \<ge> MAX_PAYLOAD)
                       then (Inl BleLength, r2)
                       else if stop > length (br_bytes r2) then (Inl BleLength, r2)
                       else
                         let r3 = r2\<lparr>br_bytes := splice (br_bytes r2) (br_len r2) data, br_len := stop\<rparr>
                         in if final then (Inr True, r3\<lparr>br_active := None\<rparr>)
                            else if index = 255 then (Inl Sequence, r3)
                            else (Inr False, r3\<lparr>br_active := Some (msg_id, index + 1, now_ms)\<rparr>))
      | _ \<Rightarrow> (Inl BleLength, r))"

definition ble_receive :: "bytes \<Rightarrow> ble_mtu \<Rightarrow> u64 \<Rightarrow> (ble_receiver, ble_error, bytes option) act" where
  "ble_receive val mtu now_ms r =
     (case receiver_append val mtu now_ms (receiver_expire now_ms r) of
        (Inr True, r') \<Rightarrow> (Inr (slice (br_bytes r') 0 (br_len r')), r')
      | (Inr False, r') \<Rightarrow> (Inr None, r')
      | (Inl err, r') \<Rightarrow> (Inl err, receiver_reset r'))"

section \<open>The sender\<close>

record ble_pending =
  p_len :: nat
  p_offset :: nat
  p_index :: u8
  p_limit :: ble_value_limit
  p_offered :: "nat option"

record ble_sender =
  bs_bytes :: bytes
  bs_pending :: "ble_pending option"
  bs_next_id :: u8

definition ble_sender_new :: ble_sender where
  "ble_sender_new = \<lparr>bs_bytes = replicate MAX_PAYLOAD 0, bs_pending = None, bs_next_id = 0\<rparr>"

definition ble_enqueue :: "bytes \<Rightarrow> ble_value_limit \<Rightarrow> (ble_sender, ble_error, unit) act" where
  "ble_enqueue message limit s =
     (if bs_pending s \<noteq> None then (Inl BleBusy, s)
      else if message = [] \<or> length message > MAX_PAYLOAD then (Inl BleLength, s)
      else if length message > length (bs_bytes s) then (Inl BleLength, s)
      else (Inr (), s\<lparr>bs_bytes := splice (bs_bytes s) 0 message,
                      bs_pending := Some \<lparr>p_len = length message, p_offset = 0, p_index = 0,
                                          p_limit = limit, p_offered = None\<rparr>\<rparr>))"

definition ble_fragment :: "bytes \<Rightarrow> ble_sender \<Rightarrow> (ble_error + nat) \<times> ble_sender \<times> bytes" where
  "ble_fragment out s =
     (case bs_pending s of
        None \<Rightarrow> (Inl Idle, s, out)
      | Some p \<Rightarrow>
          let stop = min (saturating_add (p_offset p) (limit_value_len (p_limit p) - 2)) (p_len p)
          in case slice (bs_bytes s) (p_offset p) stop of
               None \<Rightarrow> (Inl BleLength, s, out)
             | Some data \<Rightarrow>
                 let size = length data + 2
                 in if size > usize_max then (Inl BleLength, s, out)
                    else if size > length out then (Inl Buffer, s, out)
                    else (Inr size,
                          s\<lparr>bs_pending := Some (p\<lparr>p_offered := Some stop\<rparr>)\<rparr>,
                          splice out 0
                            (bs_next_id s # (p_index p OR (if stop = p_len p then BLE_LAST_FLAG else 0)) # data)))"

definition ble_accepted :: "(ble_sender, ble_error, unit) act" where
  "ble_accepted s =
     (case bs_pending s of
        None \<Rightarrow> (Inl Idle, s)
      | Some p \<Rightarrow>
          (case p_offered p of
             None \<Rightarrow> (Inl Idle, s)
           | Some stop \<Rightarrow>
               let p' = p\<lparr>p_offered := None\<rparr>
               in if stop = p_len p
                  then (Inr (), s\<lparr>bs_pending := None,
                                 bs_next_id := (if bs_next_id s = 255 then 0 else bs_next_id s + 1)\<rparr>)
                  else if p_index p = 255
                  then (Inl Sequence, s\<lparr>bs_pending := Some (p'\<lparr>p_offset := stop\<rparr>)\<rparr>)
                  else (Inr (), s\<lparr>bs_pending := Some (p'\<lparr>p_offset := stop, p_index := p_index p + 1\<rparr>)\<rparr>)))"

definition sender_reset :: "ble_sender \<Rightarrow> ble_sender" where
  "sender_reset s = s\<lparr>bs_pending := None, bs_next_id := 0\<rparr>"

section \<open>The values of a message\<close>

text \<open>\<open>d\<close> data bytes to a value; the last value carries the flag.\<close>

function fragments :: "u8 \<Rightarrow> nat \<Rightarrow> u8 \<Rightarrow> bytes \<Rightarrow> bytes list" where
  "fragments msg_id d index m =
     (if d = 0 \<or> length m \<le> d then [msg_id # (index OR BLE_LAST_FLAG) # m]
      else (msg_id # index # take d m) # fragments msg_id d (index + 1) (drop d m))"
  by pat_completeness auto
termination
  by (relation "measure (\<lambda>(_, _, _, m). length m)") auto

declare fragments.simps [simp del]

lemma fragments_last: "length m \<le> d \<Longrightarrow> fragments msg_id d i m = [msg_id # (i OR BLE_LAST_FLAG) # m]"
  by (subst fragments.simps) simp

lemma fragments_more: "0 < d \<Longrightarrow> d < length m \<Longrightarrow>
  fragments msg_id d i m = (msg_id # i # take d m) # fragments msg_id d (i + 1) (drop d m)"
  by (subst fragments.simps) simp

lemma fragments_nonempty [simp]: "fragments msg_id d i m \<noteq> []"
  by (subst fragments.simps) simp

text \<open>The header byte: seven bits of index and the flag.\<close>

lemma index_mask: "BLE_INDEX_MASK = mask 7"
  by (simp add: BLE_INDEX_MASK_def mask_eq_exp_minus_1)

lemma bit_last_flag: "bit BLE_LAST_FLAG n \<longleftrightarrow> n = 7"
proof -
  have "BLE_LAST_FLAG = push_bit 7 1"
    by (simp add: BLE_LAST_FLAG_def)
  then have "bit BLE_LAST_FLAG n \<longleftrightarrow> bit (push_bit 7 1 :: u8) n"
    by simp
  then show ?thesis
    unfolding bit_push_bit_iff bit_1_iff possible_bit_word by auto
qed

lemma flags_index:
  assumes "i < 128"
  shows "(i OR BLE_LAST_FLAG) AND BLE_INDEX_MASK = i" and "i AND BLE_INDEX_MASK = i"
proof -
  have plain: "i AND mask 7 = i"
    using assms by (intro less_mask_eq) simp
  have "BLE_LAST_FLAG AND mask 7 = 0"
    by (rule bit_word_eqI) (simp add: bit_and_iff bit_last_flag bit_mask_iff)
  with plain show "i AND BLE_INDEX_MASK = i" "(i OR BLE_LAST_FLAG) AND BLE_INDEX_MASK = i"
    by (simp_all add: index_mask bit.conj_disj_distrib2)
qed

lemma flags_final:
  assumes "i < 128"
  shows "(i OR BLE_LAST_FLAG) AND BLE_LAST_FLAG \<noteq> 0" and "i AND BLE_LAST_FLAG = 0"
proof -
  have "(i OR BLE_LAST_FLAG) AND BLE_LAST_FLAG = BLE_LAST_FLAG"
    by (rule bit_word_eqI) (auto simp: bit_and_iff bit_or_iff)
  then show "(i OR BLE_LAST_FLAG) AND BLE_LAST_FLAG \<noteq> 0"
    by (simp add: BLE_LAST_FLAG_def)
  have "\<not> bit (i AND BLE_INDEX_MASK) 7"
    by (simp add: index_mask bit_and_iff bit_mask_iff)
  then have "\<not> bit i 7"
    using flags_index(2) [OF assms] by simp
  then show "i AND BLE_LAST_FLAG = 0"
    by (intro bit_word_eqI) (auto simp: bit_and_iff bit_last_flag)
qed


section \<open>Reassembly\<close>

definition receiver_clear :: "ble_receiver \<Rightarrow> bool" where
  "receiver_clear r \<longleftrightarrow> length (br_bytes r) = MAX_PAYLOAD \<and> br_active r = None"

text \<open>\<open>so_far\<close> has arrived in the values \<open>0..i\<close> of message \<open>msg_id\<close>, the last at \<open>t\<close>.\<close>

definition awaits :: "ble_receiver \<Rightarrow> u8 \<Rightarrow> u8 \<Rightarrow> bytes \<Rightarrow> u64 \<Rightarrow> bool" where
  "awaits r msg_id i so_far t \<longleftrightarrow>
     length (br_bytes r) = MAX_PAYLOAD \<and>
     (if i = 0 then br_active r = None \<and> so_far = []
      else br_active r = Some (msg_id, i, t) \<and> br_len r = length so_far \<and>
           take (length so_far) (br_bytes r) = so_far)"

definition in_time :: "u64 \<Rightarrow> u64 \<Rightarrow> bool" where
  "in_time t u \<longleftrightarrow> t \<le> u \<and> u - t < BLE_TIMEOUT_MS"

fun steady :: "u64 \<Rightarrow> u64 list \<Rightarrow> bool" where
  "steady t [] = True"
| "steady t (u # us) = (in_time t u \<and> steady u us)"

lemma expire_awaits: "awaits r msg_id i so_far t \<Longrightarrow> in_time t now \<Longrightarrow> receiver_expire now r = r"
  by (auto simp: awaits_def receiver_expire_def in_time_def split: option.splits if_splits)

lemma append_awaits:
  assumes "awaits r msg_id i so_far t" and "data \<noteq> []" and "length data + 2 \<le> mtu_value_len mtu"
    and "flags AND BLE_INDEX_MASK = i" and "length so_far + length data \<le> MAX_PAYLOAD"
    and "flags AND BLE_LAST_FLAG = 0 \<Longrightarrow> i < 127 \<and> length so_far + length data < MAX_PAYLOAD"
  shows "receiver_append (msg_id # flags # data) mtu now r =
    (let r' = r\<lparr>br_bytes := splice (br_bytes r) (length so_far) data,
               br_len := length so_far + length data\<rparr>
     in if flags AND BLE_LAST_FLAG \<noteq> 0 then (Inr True, r'\<lparr>br_active := None\<rparr>)
        else (Inr False, r'\<lparr>br_active := Some (msg_id, i + 1, now)\<rparr>))"
proof -
  have size: "\<not> length (msg_id # flags # data) < 3" "length data + length so_far \<le> usize_max"
    using assms(2,5) by (auto simp: MAX_PAYLOAD_def usize_max_def Suc_le_eq numeral_3_eq_3)
  have "i \<noteq> 255 \<and> i \<noteq> BLE_INDEX_MASK" if "flags AND BLE_LAST_FLAG = 0"
    using assms(6) [OF that] by (auto simp: BLE_INDEX_MASK_def)
  then show ?thesis
    using assms size
    by (cases "i = 0")
      (auto simp: receiver_append_def awaits_def Let_def checked_add_def add.commute)
qed

lemma receive_next:
  assumes "awaits r msg_id i so_far t" and "in_time t now" and "data \<noteq> []"
    and "length data + 2 \<le> mtu_value_len mtu" and "i < 127"
    and "length so_far + length data < MAX_PAYLOAD"
  shows "\<exists>r'. ble_receive (msg_id # i # data) mtu now r = (Inr None, r') \<and>
              awaits r' msg_id (i + 1) (so_far @ data) now"
proof -
  have i: "i < 128" "i + 1 \<noteq> 0"
    using assms(5) by (auto simp: less_trans [of i 127 128] eq_neg_iff_add_eq_0 [symmetric])
  have "take (length so_far) (br_bytes r) = so_far" "length (br_bytes r) = MAX_PAYLOAD"
    using assms(1) by (auto simp: awaits_def split: if_splits)
  then show ?thesis
    using append_awaits [OF assms(1,3,4) flags_index(2) [OF i(1)]] assms(5,6) i
      expire_awaits [OF assms(1,2)] flags_final(2) [OF i(1)]
      take_splice_end [of "length so_far" data "br_bytes r"]
    by (auto simp: ble_receive_def Let_def awaits_def)
qed

lemma receive_last:
  assumes "awaits r msg_id i so_far t" and "in_time t now" and "data \<noteq> []"
    and "length data + 2 \<le> mtu_value_len mtu" and "i < 128"
    and "length so_far + length data \<le> MAX_PAYLOAD"
  shows "\<exists>r'. ble_receive (msg_id # (i OR BLE_LAST_FLAG) # data) mtu now r = (Inr (Some (so_far @ data)), r') \<and>
              receiver_clear r'"
proof -
  have bytes: "take (length so_far) (br_bytes r) = so_far" "length (br_bytes r) = MAX_PAYLOAD"
    using assms(1) by (auto simp: awaits_def split: if_splits)
  then have "slice (splice (br_bytes r) (length so_far) data) 0 (length so_far + length data) =
             Some (so_far @ data)"
    using take_splice_end [of "length so_far" data "br_bytes r"] assms(6) by (simp add: slice_def)
  then show ?thesis
    using append_awaits [OF assms(1,3,4) flags_index(1) [OF assms(5)] assms(6)] bytes assms(6)
      expire_awaits [OF assms(1,2)] flags_final(1) [OF assms(5)]
    by (auto simp: ble_receive_def Let_def receiver_clear_def)
qed

text \<open>A timed value goes in; a whole message may come out.\<close>

definition ble_step :: "ble_mtu \<Rightarrow> bytes \<times> u64 \<Rightarrow> ble_receiver \<Rightarrow> (ble_error + bytes option) \<times> ble_receiver" where
  "ble_step mtu v r = ble_receive (fst v) mtu (snd v) r"

fun handed_up :: "ble_error + bytes option \<Rightarrow> bytes option" where
  "handed_up (Inr (Some m)) = Some m"
| "handed_up _ = None"

lemma unat_inc_u8: "i < 127 \<Longrightarrow> unat (i + 1 :: u8) = Suc (unat i)"
  by (simp add: unat_word_ariths word_less_nat_alt)

lemma receive_fragments:
  assumes "awaits r msg_id i so_far t" and "steady t ts"
    and "length ts = length (fragments msg_id d i m)"
    and "m \<noteq> []" and "length so_far + length m \<le> MAX_PAYLOAD" and "length so_far = unat i * d"
    and "18 \<le> d" and "d + 2 \<le> mtu_value_len mtu"
  shows "\<exists>r'. feed (ble_step mtu) handed_up (zip (fragments msg_id d i m) ts) r = ([so_far @ m], r') \<and>
              receiver_clear r'"
  using assms(1-6)
proof (induction "length m" arbitrary: m i so_far r t ts rule: less_induct)
  case less
  have "unat i * 18 \<le> unat i * d"
    using assms(7) by (rule mult_le_mono2)
  moreover have "unat i * d \<le> 1024"
    using less.prems(5,6) by (simp add: MAX_PAYLOAD_def)
  ultimately have "unat i < 57"
    by linarith
  then have i: "i < 127" "i < 128"
    by (simp_all add: word_less_nat_alt)
  show ?case
  proof (cases "length m \<le> d")
    case True
    with less.prems(3) obtain now where ts: "ts = [now]"
      by (auto simp: fragments_last length_Suc_conv)
    show ?thesis
      using receive_last [OF less.prems(1) _ less.prems(4) _ i(2) less.prems(5), of now mtu] less.prems(2)
        assms(8) True
      by (auto simp: fragments_last ts ble_step_def)
  next
    case False
    have d: "0 < d" "d < length m"
      using False assms(7) by auto
    with less.prems(3) obtain now us where ts: "ts = now # us"
      by (auto simp: fragments_more length_Suc_conv)
    obtain r' where r': "ble_receive (msg_id # i # take d m) mtu now r = (Inr None, r')"
      and next_aw: "awaits r' msg_id (i + 1) (so_far @ take d m) now"
      using receive_next [OF less.prems(1) _ _ _ i(1), of now "take d m" mtu] less.prems(2,4,5) d assms(8) ts
      by auto
    have "\<exists>r''. feed (ble_step mtu) handed_up (zip (fragments msg_id d (i + 1) (drop d m)) us) r' =
            ([(so_far @ take d m) @ drop d m], r'') \<and> receiver_clear r''"
    proof (rule less.hyps [OF _ next_aw])
      show "length (so_far @ take d m) = unat (i + 1) * d"
        using less.prems(6) d unat_inc_u8 [OF i(1)] by simp
    qed (use less.prems d ts in \<open>auto simp: fragments_more\<close>)
    then show ?thesis
      using r' d ts by (auto simp: fragments_more ble_step_def)
  qed
qed

text \<open>The ways a message may arrive: any identifier, any value limit both ends allow, any times
  less than the timeout apart.\<close>

definition ble_carries :: "ble_mtu \<Rightarrow> bytes \<Rightarrow> (bytes \<times> u64) list \<Rightarrow> bool" where
  "ble_carries mtu m vs \<longleftrightarrow>
     m \<noteq> [] \<and> length m \<le> MAX_PAYLOAD \<and>
     (\<exists>msg_id d ts. 18 \<le> d \<and> d + 2 \<le> mtu_value_len mtu \<and> ts \<noteq> [] \<and> steady (hd ts) (List.tl ts) \<and>
        length ts = length (fragments msg_id d 0 m) \<and> vs = zip (fragments msg_id d 0 m) ts)"

definition receiver_ok :: "ble_receiver \<Rightarrow> bool" where
  "receiver_ok r \<longleftrightarrow> length (br_bytes r) = MAX_PAYLOAD \<and> br_len r \<le> MAX_PAYLOAD"

lemma reset_ok: "receiver_ok r \<Longrightarrow> receiver_ok (receiver_reset r) \<and> receiver_clear (receiver_reset r)"
  by (simp add: receiver_ok_def receiver_clear_def receiver_reset_def)

lemma expire_ok: "receiver_ok r \<Longrightarrow> receiver_ok (receiver_expire now r)"
  using reset_ok by (auto simp: receiver_expire_def split: option.splits)

lemma append_ok: "receiver_ok r \<Longrightarrow> receiver_append val mtu now r = (x, r') \<Longrightarrow> receiver_ok r'"
  by (auto simp: receiver_append_def receiver_ok_def receiver_reset_def Let_def
      dest!: checked_add_Some split: if_splits list.splits option.splits)

lemma receive_ok: "receiver_ok r \<Longrightarrow> ble_receive val mtu now r = (x, r') \<Longrightarrow> receiver_ok r'"
  using append_ok [OF expire_ok [of r now], of val mtu now] reset_ok
  by (auto simp: ble_receive_def split: prod.splits sum.splits bool.splits)

lemma receive_error_clear:
  "receiver_ok r \<Longrightarrow> ble_receive val mtu now r = (Inl err, r') \<Longrightarrow> receiver_clear r'"
  using append_ok [OF expire_ok [of r now], of val mtu now] reset_ok
  by (auto simp: ble_receive_def split: prod.splits sum.splits bool.splits)

lemma receive_malformed: "length val < 3 \<Longrightarrow> fst (ble_receive val mtu now r) = Inl BleLength"
  by (simp add: ble_receive_def receiver_append_def)

interpretation ble: resyncing_receiver "ble_step mtu" handed_up "ble_carries mtu" receiver_clear
  receiver_ok "\<lambda>v. length (fst v) < 3" for mtu
proof unfold_locales
  fix r m vs
  assume r: "receiver_clear r" and "ble_carries mtu m vs"
  then obtain msg_id d ts where m: "m \<noteq> []" "length m \<le> MAX_PAYLOAD" and d: "18 \<le> d" "d + 2 \<le> mtu_value_len mtu"
    and ts: "ts \<noteq> []" "steady (hd ts) (List.tl ts)" "length ts = length (fragments msg_id d 0 m)"
    and vs: "vs = zip (fragments msg_id d 0 m) ts"
    by (auto simp: ble_carries_def)
  have "awaits r msg_id 0 [] (hd ts)"
    using r by (simp add: receiver_clear_def awaits_def)
  moreover have "steady (hd ts) ts"
    using ts(1,2) by (cases ts) (auto simp: in_time_def BLE_TIMEOUT_MS_def)
  ultimately show "\<exists>r'. feed (ble_step mtu) handed_up vs r = ([m], r') \<and> receiver_clear r'"
    using receive_fragments [of r msg_id 0 "[]" "hd ts" ts d m mtu] m d ts(3) vs by simp
next
  fix r v x r'
  assume "receiver_ok r" and "length (fst v) < 3" and step: "ble_step mtu v r = (x, r')"
  moreover from this have "x = Inl BleLength"
    using receive_malformed [of "fst v" mtu "snd v" r] by (simp add: ble_step_def)
  ultimately show "receiver_clear r'"
    using receive_error_clear by (auto simp: ble_step_def)
qed (auto simp: ble_step_def intro: receive_ok)


section \<open>What the sender offers\<close>

definition sender_idle :: "ble_sender \<Rightarrow> bool" where
  "sender_idle s \<longleftrightarrow> length (bs_bytes s) = MAX_PAYLOAD \<and> bs_pending s = None"

definition sending :: "ble_sender \<Rightarrow> u8 \<Rightarrow> nat \<Rightarrow> u8 \<Rightarrow> bytes \<Rightarrow> bool" where
  "sending s msg_id d i m \<longleftrightarrow>
     (\<exists>p. bs_pending s = Some p \<and> bs_next_id s = msg_id \<and> p_index p = i \<and>
          p_limit p = BleValueLimit (d + 2) \<and> p_len p = p_offset p + length m \<and>
          p_len p \<le> MAX_PAYLOAD \<and> length (bs_bytes s) = MAX_PAYLOAD \<and>
          take (length m) (drop (p_offset p) (bs_bytes s)) = m)"

text \<open>One value offered and admitted, and a whole message, \<open>n\<close> values at most.\<close>

definition offer_next :: "ble_sender \<Rightarrow> (bytes \<times> ble_sender) option" where
  "offer_next s =
     (case ble_fragment (replicate BLE_MAX_VALUE 0) s of
        (Inr n, s', out) \<Rightarrow> (case ble_accepted s' of (Inr _, t) \<Rightarrow> Some (take n out, t) | _ \<Rightarrow> None)
      | _ \<Rightarrow> None)"

primrec offer_all :: "nat \<Rightarrow> ble_sender \<Rightarrow> bytes list \<times> ble_sender" where
  "offer_all 0 s = ([], s)"
| "offer_all (Suc n) s =
     (case offer_next s of
        None \<Rightarrow> ([], s)
      | Some (v, t) \<Rightarrow> (case offer_all n t of (vs, u) \<Rightarrow> (v # vs, u)))"

lemma fragment_sending:
  assumes "bs_pending s = Some p" and "p_limit p = BleValueLimit (d + 2)"
    and "p_len p = p_offset p + length m" and "p_len p \<le> MAX_PAYLOAD"
    and "length (bs_bytes s) = MAX_PAYLOAD" and "take (length m) (drop (p_offset p) (bs_bytes s)) = m"
    and "d + 2 \<le> length out" and "d \<le> 510"
  shows "ble_fragment out s =
    (Inr (length (take d m) + 2), s\<lparr>bs_pending := Some (p\<lparr>p_offered := Some (p_offset p + length (take d m))\<rparr>)\<rparr>,
     splice out 0 (bs_next_id s # (p_index p OR (if length m \<le> d then BLE_LAST_FLAG else 0)) # take d m))"
proof -
  have stop: "min (saturating_add (p_offset p) d) (p_len p) = p_offset p + length (take d m)"
    using assms(3,4,8) by (simp add: saturating_add_def usize_max_def MAX_PAYLOAD_def min_def)
  have "take (length (take d m)) (drop (p_offset p) (bs_bytes s)) = take d m"
    using arg_cong [OF assms(6), of "take d"] by (simp add: take_map min.commute)
  then have data: "slice (bs_bytes s) (p_offset p) (p_offset p + length (take d m)) = Some (take d m)"
    using assms(3-5) by (simp add: slice_def)
  show ?thesis
    using assms stop data
    by (auto simp: ble_fragment_def Let_def usize_max_def not_le min_def)
qed

lemma offer_next_sending:
  assumes "sending s msg_id d i m" and "m \<noteq> []" and "0 < d" and "d + 2 \<le> BLE_MAX_VALUE" and "i < 127"
  shows "\<exists>t. offer_next s = Some (hd (fragments msg_id d i m), t) \<and> bs_bytes t = bs_bytes s \<and>
    (if length m \<le> d
     then bs_pending t = None \<and> bs_next_id t = (if msg_id = 255 then 0 else msg_id + 1)
     else sending t msg_id d (i + 1) (drop d m))"
proof -
  obtain p where p: "bs_pending s = Some p" "bs_next_id s = msg_id" "p_index p = i"
      "p_limit p = BleValueLimit (d + 2)" "p_len p = p_offset p + length m" "p_len p \<le> MAX_PAYLOAD"
      "length (bs_bytes s) = MAX_PAYLOAD" "take (length m) (drop (p_offset p) (bs_bytes s)) = m"
    using assms(1) by (auto simp: sending_def)
  have rest: "take (length m - d) (drop (p_offset p + d) (bs_bytes s)) = drop d m"
    using arg_cong [OF p(8), of "drop d"] by (simp add: drop_take add.commute)
  have "i \<noteq> 255"
    using assms(5) by auto
  then show ?thesis
    using fragment_sending [OF p(1,4-8), of "replicate BLE_MAX_VALUE 0"] assms(2-4) p rest
    by (cases "length m \<le> d")
      (auto simp: offer_next_def ble_accepted_def splice_def fragments_last fragments_more
        sending_def BLE_MAX_VALUE_def Let_def)
qed

lemma offer_all_sending:
  assumes "sending s msg_id d i m" and "m \<noteq> []" and "0 < d" and "d + 2 \<le> BLE_MAX_VALUE"
    and "unat i + length (fragments msg_id d i m) \<le> 127" and "length (fragments msg_id d i m) \<le> n"
  shows "\<exists>t. offer_all n s = (fragments msg_id d i m, t) \<and> sender_idle t \<and>
             bs_next_id t = (if msg_id = 255 then 0 else msg_id + 1)"
  using assms
proof (induction n arbitrary: s i m)
  case (Suc n)
  have "0 < length (fragments msg_id d i m)"
    by simp
  then have "unat i < 127"
    using Suc.prems(5) by linarith
  then have i: "i < 127"
    by (simp add: word_less_nat_alt)
  have bytes: "length (bs_bytes s) = MAX_PAYLOAD"
    using Suc.prems(1) by (auto simp: sending_def)
  obtain t where t: "offer_next s = Some (hd (fragments msg_id d i m), t)" "bs_bytes t = bs_bytes s"
    "if length m \<le> d then bs_pending t = None \<and> bs_next_id t = (if msg_id = 255 then 0 else msg_id + 1)
     else sending t msg_id d (i + 1) (drop d m)"
    using offer_next_sending [OF Suc.prems(1-4) i] by blast
  show ?case
  proof (cases "length m \<le> d")
    case True
    then have "offer_next t = None"
      using t by (simp add: offer_next_def ble_fragment_def)
    then have "offer_all n t = ([], t)"
      by (cases n) simp_all
    with t True bytes show ?thesis
      by (simp add: fragments_last sender_idle_def)
  next
    case False
    with Suc.prems(3) have frags: "fragments msg_id d i m = (msg_id # i # take d m) # fragments msg_id d (i + 1) (drop d m)"
      by (simp add: fragments_more)
    have "\<exists>u. offer_all n t = (fragments msg_id d (i + 1) (drop d m), u) \<and> sender_idle u \<and>
             bs_next_id u = (if msg_id = 255 then 0 else msg_id + 1)"
      using Suc.prems t False frags unat_inc_u8 [OF i] by (intro Suc.IH) auto
    with t(1) frags show ?thesis
      by auto
  qed
qed simp

lemma fragments_count: "18 \<le> d \<Longrightarrow> length (fragments msg_id d i m) \<le> Suc (length m div 18)"
proof (induction msg_id d i m rule: fragments.induct)
  case (1 msg_id d i m)
  show ?case
  proof (cases "length m \<le> d")
    case True
    then show ?thesis by (simp add: fragments_last)
  next
    case False
    have "length (fragments msg_id d (i + 1) (drop d m)) \<le> Suc ((length m - d) div 18)"
      using 1 False by auto
    also have "(length m - d) div 18 \<le> (length m - 18) div 18"
      using "1.prems" by (intro div_le_mono) simp
    finally show ?thesis
      using False "1.prems" le_div_geq [of 18 "length m"] by (simp add: fragments_more)
  qed
qed

lemma fragments_length: "v \<in> set (fragments msg_id d i m) \<Longrightarrow> 0 < d \<Longrightarrow> length v \<le> d + 2"
proof (induction msg_id d i m rule: fragments.induct)
  case (1 msg_id d i m)
  then show ?case
    by (cases "length m \<le> d") (auto simp: fragments_last fragments_more)
qed


section \<open>Where a message that is handed up came from\<close>

text \<open>\<open>vs\<close> are values \<open>0, 1, ..\<close> of one message; only the last, if any, has the flag set.\<close>

definition is_run :: "u8 \<Rightarrow> (nat \<Rightarrow> bool) \<Rightarrow> bytes list \<Rightarrow> bool" where
  "is_run msg_id final vs \<longleftrightarrow>
     (\<forall>k < length vs. 3 \<le> length (vs ! k) \<and> vs ! k ! 0 = msg_id \<and>
        unat (vs ! k ! 1 AND BLE_INDEX_MASK) = k \<and>
        (vs ! k ! 1 AND BLE_LAST_FLAG \<noteq> 0 \<longleftrightarrow> final k))"

definition run_data :: "bytes list \<Rightarrow> bytes" where
  "run_data vs = concat (map (drop 2) vs)"

definition assembled :: "ble_receiver \<Rightarrow> bytes list \<Rightarrow> bool" where
  "assembled r vs \<longleftrightarrow> receiver_ok r \<and>
     (case br_active r of
        None \<Rightarrow> vs = []
      | Some (msg_id, n, _) \<Rightarrow>
          vs \<noteq> [] \<and> is_run msg_id (\<lambda>k. False) vs \<and> unat n = length vs \<and> length vs \<le> 127 \<and>
          br_len r = length (run_data vs) \<and> take (br_len r) (br_bytes r) = run_data vs)"

lemma assembled_clear: "receiver_ok r \<Longrightarrow> br_active r = None \<Longrightarrow> assembled r []"
  by (simp add: assembled_def)

lemma is_run_Nil [simp]: "is_run msg_id f []"
  by (simp add: is_run_def)

lemma is_run_snoc:
  assumes "is_run msg_id (\<lambda>k. False) vs" and "3 \<le> length v" and "v ! 0 = msg_id"
    and "unat (v ! 1 AND BLE_INDEX_MASK) = length vs" and "v ! 1 AND BLE_LAST_FLAG \<noteq> 0 \<longleftrightarrow> b"
  shows "is_run msg_id (\<lambda>k. b \<and> k = length vs) (vs @ [v])"
  using assms by (auto simp: is_run_def nth_append less_Suc_eq)

text \<open>One accepted value joins the run in progress, or starts a run of its own.\<close>

lemma append_assembled:
  assumes "assembled r vs" and "receiver_append val mtu now r = (Inr final, r')"
  shows "\<exists>us msg_id. us \<in> {vs, []} \<and> is_run msg_id (\<lambda>k. final \<and> k = length us) (us @ [val]) \<and>
           br_len r' = length (run_data (us @ [val])) \<and> br_len r' \<le> MAX_PAYLOAD \<and>
           take (br_len r') (br_bytes r') = run_data (us @ [val]) \<and>
           br_active r' = (if final then None else Some (msg_id, of_nat (Suc (length us)), now)) \<and>
           (\<not> final \<longrightarrow> Suc (length us) \<le> 127) \<and> receiver_ok r'"
proof -
  obtain msg_id flags data where val: "val = msg_id # flags # data" "data \<noteq> []"
    using assms(2) by (auto simp: receiver_append_def split: if_splits list.splits)
  let ?i = "flags AND BLE_INDEX_MASK"
  have i: "unat ?i < 128"
  proof -
    have "?i < 2 ^ 7"
      unfolding index_mask by (rule and_mask_less_size) (simp add: word_size)
    then show ?thesis
      by (simp add: word_less_nat_alt)
  qed
  have ok: "length (br_bytes r) = MAX_PAYLOAD" "receiver_ok r"
    using assms(1) by (auto simp: assembled_def receiver_ok_def)
  define joins where "joins = (case br_active r of Some (p, _) \<Rightarrow> p = msg_id | None \<Rightarrow> False)"
  define us where "us = (if joins then vs else [])"
  define len where "len = length (run_data us)"
  have idx: "unat ?i = length us" and fin: "final = (flags AND BLE_LAST_FLAG \<noteq> 0)"
    and room: "len + length data \<le> MAX_PAYLOAD" and non_last: "\<not> final \<Longrightarrow> ?i \<noteq> BLE_INDEX_MASK"
    and bytes: "br_bytes r' = splice (br_bytes r) len data" and len': "br_len r' = len + length data"
    and active: "br_active r' = (if final then None else Some (msg_id, ?i + 1, now))"
    using assms ok unfolding len_def
    by (auto simp: receiver_append_def val us_def joins_def assembled_def receiver_reset_def run_data_def
        unat_eq_zero Let_def split: if_splits option.splits dest!: checked_add_Some)
  have run: "is_run msg_id (\<lambda>k. False) us" and kept: "take len (br_bytes r) = run_data us"
    using assms(1) by (auto simp: us_def joins_def assembled_def len_def run_data_def split: option.splits if_splits)
  have "?i + 1 = of_nat (Suc (length us))"
    by (simp flip: idx)
  moreover have "Suc (length us) \<le> 127" if "\<not> final"
    using non_last [OF that] i idx by (cases "length us = 127") (auto simp: BLE_INDEX_MASK_def word_unat_eq_iff)
  moreover have "is_run msg_id (\<lambda>k. final \<and> k = length us) (us @ [val])"
    using run val idx fin by (intro is_run_snoc) (auto simp: Suc_le_eq numeral_3_eq_3)
  moreover have "take (len + length data) (br_bytes r') = run_data (us @ [val])"
    using take_splice_end [of len data "br_bytes r"] room ok kept bytes by (simp add: val run_data_def)
  moreover have "receiver_ok r'"
    using append_ok ok(2) assms(2) by blast
  ultimately show ?thesis
    using active len' room val
    by (intro exI [of _ us] exI [of _ msg_id]) (auto simp: us_def run_data_def len_def)
qed

lemma expire_assembled: "assembled r vs \<Longrightarrow> \<exists>us \<in> {vs, []}. assembled (receiver_expire now r) us"
  by (auto simp: receiver_expire_def split: option.splits prod.splits
      intro: assembled_clear simp: assembled_def receiver_reset_def receiver_ok_def)

lemma receive_assembled:
  assumes "assembled r vs" and "ble_receive val mtu now r = (x, r')"
  shows "\<exists>us \<in> {vs, []}. case x of
      Inr (Some m) \<Rightarrow> (\<exists>msg_id. is_run msg_id (\<lambda>k. k = length us) (us @ [val])) \<and>
                       m = run_data (us @ [val]) \<and> length m \<le> MAX_PAYLOAD \<and> assembled r' []
    | Inr None \<Rightarrow> assembled r' (us @ [val])
    | Inl _ \<Rightarrow> assembled r' []"
proof -
  obtain ws where ws: "ws \<in> {vs, []}" "assembled (receiver_expire now r) ws"
    using expire_assembled [OF assms(1)] by blast
  obtain y s where app: "receiver_append val mtu now (receiver_expire now r) = (y, s)"
    by fastforce
  show ?thesis
  proof (cases y)
    case (Inl err)
    have "receiver_ok s"
      using app append_ok ws(2) by (auto simp: assembled_def)
    then have "assembled (receiver_reset s) []"
      using reset_ok by (auto simp: assembled_def receiver_reset_def)
    with Inl assms(2) app show ?thesis
      by (auto simp: ble_receive_def)
  next
    case (Inr final)
    from append_assembled [OF ws(2) app [unfolded Inr]] obtain us msg_id where us: "us \<in> {ws, []}"
      "is_run msg_id (\<lambda>k. final \<and> k = length us) (us @ [val])"
      "br_len s = length (run_data (us @ [val]))" "br_len s \<le> MAX_PAYLOAD"
      "take (br_len s) (br_bytes s) = run_data (us @ [val])"
      "br_active s = (if final then None else Some (msg_id, of_nat (Suc (length us)), now))"
      "\<not> final \<Longrightarrow> Suc (length us) \<le> 127" "receiver_ok s"
      by blast
    show ?thesis
    proof (cases final)
      case True
      have "slice (br_bytes s) 0 (br_len s) = Some (run_data (us @ [val]))"
        using us(4,5,8) by (simp add: slice_def receiver_ok_def)
      with True us ws(1) Inr app assms(2) show ?thesis
        by (intro bexI [of _ us]) (auto simp: ble_receive_def assembled_def)
    next
      case False
      then have "assembled s (us @ [val])"
        using us by (simp add: assembled_def unat_of_nat del: of_nat_Suc)
      with False us(1) ws(1) Inr app assms(2) show ?thesis
        by (intro bexI [of _ us]) (auto simp: ble_receive_def)
    qed
  qed
qed

lemma feed_assembled:
  assumes "assembled r vs0" and "feed (ble_step mtu) handed_up vs r = (ms, r')"
  shows "\<exists>pre run. vs0 @ map fst vs = pre @ run \<and> assembled r' run"
  using assms
proof (induction vs arbitrary: r vs0 ms)
  case Nil
  then show ?case by auto
next
  case (Cons v vs)
  obtain x s where "ble_step mtu v r = (x, s)"
    by fastforce
  moreover from this obtain ns where rest: "feed (ble_step mtu) handed_up vs s = (ns, r')"
    using Cons.prems(2) by (auto split: prod.splits option.splits)
  ultimately have step: "ble_receive (fst v) mtu (snd v) r = (x, s)"
    by (simp add: ble_step_def)
  from receive_assembled [OF Cons.prems(1) step] obtain us where us: "us \<in> {vs0, []}"
    and "case x of
      Inr (Some m) \<Rightarrow> (\<exists>msg_id. is_run msg_id (\<lambda>k. k = length us) (us @ [fst v])) \<and>
                       m = run_data (us @ [fst v]) \<and> length m \<le> MAX_PAYLOAD \<and> assembled s []
    | Inr None \<Rightarrow> assembled s (us @ [fst v])
    | Inl _ \<Rightarrow> assembled s []"
    by blast
  then have "assembled s (us @ [fst v]) \<or> assembled s []"
    by (auto split: sum.splits option.splits)
  then obtain ws where ws: "ws = us @ [fst v] \<or> ws = []" "assembled s ws"
    by blast
  obtain pre run where run: "ws @ map fst vs = pre @ run" "assembled r' run"
    using Cons.IH [OF ws(2) rest] by blast
  have "\<exists>pre'. vs0 @ map fst (v # vs) = pre' @ ws @ map fst vs"
    using us ws(1) by auto
  then show ?case
    using run by (metis append.assoc)
qed

section \<open>Properties\<close>

text \<open>C31. Fragmentation and reassembly are inverse: an idle sender takes a message of 1 to 1024
  bytes with any value limit the receiving end's MTU allows, offers at most 57 values none
  longer than the limit, is idle again with the next identifier, and the values arriving less
  than the timeout apart make a receiver with nothing in assembly hand up the message and
  nothing else.\<close>

theorem ble_round_trip:
  assumes "sender_idle s" and "receiver_clear r" and "m \<noteq> []" and "length m \<le> MAX_PAYLOAD"
    and "mtu_select mtu n = Inr limit"
  shows "\<exists>s1 vs s2. ble_enqueue m limit s = (Inr (), s1) \<and> offer_all 64 s1 = (vs, s2) \<and>
     sender_idle s2 \<and> bs_next_id s2 = (if bs_next_id s = 255 then 0 else bs_next_id s + 1) \<and>
     vs \<noteq> [] \<and> length vs \<le> 57 \<and> (\<forall>v \<in> set vs. length v \<le> limit_value_len limit) \<and>
     (\<forall>t ts. length vs = length (t # ts) \<and> steady t ts \<longrightarrow>
        (\<exists>r'. feed (ble_step mtu) handed_up (zip vs (t # ts)) r = ([m], r') \<and> receiver_clear r'))"
proof -
  have n: "20 \<le> n" "n \<le> 512" "n \<le> mtu_value_len mtu" and limit: "limit = BleValueLimit n"
    using assms(5) by (auto simp: mtu_select_def value_limit_new_def limit_defs split: if_splits)
  define d where "d = n - 2"
  then have d: "n = d + 2" "18 \<le> d"
    using n by auto
  let ?vs = "fragments (bs_next_id s) d 0 m"
  obtain s1 where s1: "ble_enqueue m limit s = (Inr (), s1)" "sending s1 (bs_next_id s) d 0 m"
    using assms(1,3,4) limit d
    by (auto simp: ble_enqueue_def sender_idle_def sending_def splice_def)
  have "length m div 18 \<le> 1024 div 18"
    using assms(4) by (intro div_le_mono) (simp add: MAX_PAYLOAD_def)
  then have count: "length ?vs \<le> 57"
    using fragments_count [OF d(2), of "bs_next_id s" 0 m] by simp
  then obtain s2 where s2: "offer_all 64 s1 = (?vs, s2)" "sender_idle s2"
    "bs_next_id s2 = (if bs_next_id s = 255 then 0 else bs_next_id s + 1)"
    using offer_all_sending [OF s1(2) assms(3), of 64] d n by (auto simp: BLE_MAX_VALUE_def)
  have "\<exists>r'. feed (ble_step mtu) handed_up (zip ?vs (t # ts)) r = ([m], r') \<and> receiver_clear r'"
    if "length ?vs = length (t # ts)" "steady t ts" for t ts
  proof -
    have "ble_carries mtu m (zip ?vs (t # ts))"
      unfolding ble_carries_def using that assms(3,4) d n
      by (intro conjI exI [of _ "bs_next_id s"] exI [of _ d] exI [of _ "t # ts"]) auto
    with assms(2) show ?thesis
      by (rule ble.delivers)
  qed
  then show ?thesis
    using s1 s2 count fragments_length [of _ "bs_next_id s" d 0 m] d limit
    by (intro exI [of _ s1] exI [of _ ?vs] exI [of _ s2]) auto
qed

lemma ble_round_trip_witness:
  "\<exists>s1 vs s2. ble_enqueue [1, 2, 3] (BleValueLimit 20) ble_sender_new = (Inr (), s1) \<and>
     offer_all 64 s1 = (vs, s2) \<and> sender_idle s2 \<and>
     bs_next_id s2 = (if bs_next_id ble_sender_new = 255 then 0 else bs_next_id ble_sender_new + 1) \<and>
     vs \<noteq> [] \<and> length vs \<le> 57 \<and>
     (\<forall>v \<in> set vs. length v \<le> limit_value_len (BleValueLimit 20)) \<and>
     (\<forall>t ts. length vs = length (t # ts) \<and> steady t ts \<longrightarrow>
        (\<exists>r'. feed (ble_step (BleMtu 23)) handed_up (zip vs (t # ts)) ble_receiver_new = ([[1, 2, 3]], r') \<and>
              receiver_clear r'))"
  by (rule ble_round_trip [where n = 20])
    (simp_all add: sender_idle_def ble_sender_new_def receiver_clear_def ble_receiver_new_def limit_defs
      mtu_select_def value_limit_new_def)

text \<open>C32. Nothing is handed up that was not sent as one unbroken run: whatever values arrived
  before, a message that comes out is the data of the last values received, which carry one
  identifier, the indices \<open>0, 1, 2, ..\<close> with none missing or repeated, and the final flag on
  the last and on no other; it fits a payload.\<close>

theorem ble_hands_up_whole_runs:
  assumes "receiver_ok r" and "br_active r = None"
    and "feed (ble_step mtu) handed_up vs r = (ms, r')"
    and "handed_up (fst (ble_step mtu v r')) = Some m"
  shows "\<exists>pre run msg_id. map fst (vs @ [v]) = pre @ run \<and>
           is_run msg_id (\<lambda>k. Suc k = length run) run \<and> m = run_data run \<and> length m \<le> MAX_PAYLOAD"
proof -
  obtain pre parts where parts: "map fst vs = pre @ parts" "assembled r' parts"
    using feed_assembled [OF assembled_clear [OF assms(1,2)] assms(3)] by auto
  obtain r'' where step: "ble_receive (fst v) mtu (snd v) r' = (Inr (Some m), r'')"
    using assms(4) by (cases "ble_step mtu v r'") (auto simp: ble_step_def elim: handed_up.elims)
  obtain us msg_id where us: "us \<in> {parts, []}" "is_run msg_id (\<lambda>k. k = length us) (us @ [fst v])"
    "m = run_data (us @ [fst v])" "length m \<le> MAX_PAYLOAD"
    using receive_assembled [OF parts(2) step] by (simp only: sum.case option.case) blast
  have "\<exists>pre'. map fst (vs @ [v]) = pre' @ us @ [fst v]"
    using parts(1) us(1) by auto
  moreover have "is_run msg_id (\<lambda>k. Suc k = length (us @ [fst v])) (us @ [fst v])"
    using us(2) by simp
  ultimately show ?thesis
    using us(3,4) by blast
qed

lemma ble_hands_up_whole_runs_witness:
  "\<exists>pre run msg_id. map fst ([([9, 0, 7], 0 :: u64)] @ [([9, 129, 8], 1)]) = pre @ run \<and>
     is_run msg_id (\<lambda>k. Suc k = length run) run \<and> [7, 8] = run_data run \<and> length [7, 8 :: u8] \<le> MAX_PAYLOAD"
proof -
  have start: "awaits ble_receiver_new 9 0 [] 0" "in_time 0 0" "in_time 0 1"
    by (simp_all add: awaits_def ble_receiver_new_def in_time_def BLE_TIMEOUT_MS_def)
  obtain r' where first: "ble_receive [9, 0, 7] (BleMtu 23) 0 ble_receiver_new = (Inr None, r')"
    and aw: "awaits r' 9 1 [7] 0"
    using receive_next [OF start(1,2), of "[7]" "BleMtu 23"] by (auto simp: limit_defs)
  obtain r'' where second: "ble_receive [9, 1 OR BLE_LAST_FLAG, 8] (BleMtu 23) 1 r' = (Inr (Some [7, 8]), r'')"
    using receive_last [OF aw start(3), of "[8]" "BleMtu 23"] by (auto simp: limit_defs)
  have "(1 :: u8) OR BLE_LAST_FLAG = 129"
    by (simp add: BLE_LAST_FLAG_def)
  then have "feed (ble_step (BleMtu 23)) handed_up [([9, 0, 7], 0)] ble_receiver_new = ([], r')"
    "handed_up (fst (ble_step (BleMtu 23) ([9, 129, 8], 1) r')) = Some [7, 8]"
    using first second by (simp_all add: ble_step_def)
  then show ?thesis
    by (rule ble_hands_up_whole_runs [rotated 2])
      (simp_all add: receiver_ok_def ble_receiver_new_def)
qed

text \<open>Refusals: a rejected value clears whatever was in assembly, an expired assembly is
  cleared before the value is looked at, no operation grows the buffer, and after any malformed
  value a stream of messages, each sent with any identifier, limit and timing, is handed up in
  order.\<close>

theorem ble_refusals_clear:
  assumes "receiver_ok r"
  shows "(\<forall>err r'. ble_receive val mtu now r = (Inl err, r') \<longrightarrow> receiver_clear r') \<and>
         receiver_ok (snd (ble_receive val mtu now r)) \<and>
         (\<forall>msg_id n t. br_active r = Some (msg_id, n, t) \<and> \<not> in_time t now \<longrightarrow>
            receiver_clear (receiver_expire now r)) \<and>
         (length bad < 3 \<and> list_all2 (ble_carries mtu) ms iss \<longrightarrow>
            (\<exists>lost r'. feed (ble_step mtu) handed_up (noise @ (bad, now) # concat iss) r = (lost @ ms, r') \<and>
                       receiver_clear r'))"
proof (intro conjI allI impI)
  show "receiver_clear r'" if "ble_receive val mtu now r = (Inl err, r')" for err r'
    using assms that by (rule receive_error_clear)
  show "receiver_ok (snd (ble_receive val mtu now r))"
    by (rule receive_ok [OF assms]) (rule prod.collapse [symmetric])
  show "receiver_clear (receiver_expire now r)"
    if "br_active r = Some (msg_id, n, t) \<and> \<not> in_time t now" for msg_id n t
    using that reset_ok [OF assms] by (auto simp: receiver_expire_def in_time_def not_le)
  show "\<exists>lost r'. feed (ble_step mtu) handed_up (noise @ (bad, now) # concat iss) r = (lost @ ms, r') \<and>
          receiver_clear r'"
    if "length bad < 3 \<and> list_all2 (ble_carries mtu) ms iss"
    using ble.resync [OF assms, of "(bad, now)" mtu ms iss noise] that by simp
qed

lemma ble_refusals_clear_witness:
  "receiver_ok (snd (ble_receive [1, 5, 2] (BleMtu 23) 0 ble_receiver_new))"
  using ble_refusals_clear [of ble_receiver_new "[1, 5, 2]" "BleMtu 23" 0]
  by (simp add: receiver_ok_def ble_receiver_new_def)

end
