(* ===== verification/Registry.thy ===== *)
theory Registry
  imports Limits
begin

text \<open>
  \<open>crates/km43/src/generated.rs\<close>: the closed enumerations of the wire registry that the
  modelled messages carry. For each, the datatype has the source's variants in its order,
  \<open>_num\<close> is the \<open>as u8\<close> or \<open>as u16\<close> cast over the declared discriminants, \<open>_of\<close> the
  \<open>TryFrom\<close> match arm for arm. One locale states what a registry enumeration promises
  and every one of them is an interpretation of it.
\<close>

section \<open>What an enumeration promises\<close>

locale registry_enum =
  fixes of_num :: "'w \<Rightarrow> 'a option" and num_of :: "'a \<Rightarrow> 'w"
  assumes of_num_of: "of_num (num_of x) = Some x"
    and num_of_num: "of_num w = Some x \<Longrightarrow> num_of x = w"
begin

lemma of_num_iff: "of_num w = Some x \<longleftrightarrow> w = num_of x"
  using of_num_of num_of_num by blast

lemma num_of_inj: "num_of x = num_of y \<longleftrightarrow> x = y"
  by (metis of_num_of option.inject)

lemma unknown_iff: "of_num w = None \<longleftrightarrow> w \<notin> range num_of"
  using of_num_iff by (metis not_None_eq rangeE rangeI)

end

text \<open>The laws from a table of match arms.\<close>

lemma registry_enumI:
  assumes "of_num = map_of arms" and "list_all (\<lambda>(w, x). num_of x = w) arms"
    and "distinct (map fst arms)" and "\<And>x. (num_of x, x) \<in> set arms"
  shows "registry_enum of_num num_of"
proof
  show "of_num (num_of x) = Some x" for x
    using assms by (simp add: map_of_is_SomeI)
  show "num_of x = w" if "of_num w = Some x" for w x
    using assms(1,2) that by (fastforce simp: list_all_iff dest: map_of_SomeD)
qed

section \<open>The enumerations\<close>

subsection \<open>\<open>MessageType\<close>\<close>

datatype message_type =
    Mt_Discover | Mt_DiscoverResponse | Mt_Hello | Mt_HelloResponse | Mt_Subscribe
  | Mt_SubscribeResponse | Mt_EventResponse | Mt_ReadLog | Mt_ReadLogResponse
  | Mt_GetConfig | Mt_GetConfigResponse | Mt_SetConfig | Mt_SetConfigResponse | Mt_Command
  | Mt_CommandResponse | Mt_Firmware | Mt_FirmwareResponse | Mt_Time | Mt_TimeResponse
  | Mt_Pair | Mt_PairResponse | Mt_Goodbye | Mt_GoodbyeResponse | Mt_Inventory
  | Mt_InventoryResponse | Mt_Readings | Mt_ReadingsResponse | Mt_Concerns
  | Mt_ConcernsResponse | Mt_History | Mt_HistoryResponse | Mt_WifiScan
  | Mt_WifiScanResponse | Mt_WifiStatus | Mt_WifiStatusResponse | Mt_Enrol
  | Mt_EnrolResponse | Mt_Vouch | Mt_VouchResponse | Mt_Invite | Mt_InviteResponse
  | Mt_Approve | Mt_ApproveResponse | Mt_Remove | Mt_RemoveResponse | Mt_Clients
  | Mt_ClientsResponse | Mt_ErrorResponse

primrec message_type_num :: "message_type \<Rightarrow> u8" where
    "message_type_num Mt_Discover = 0x0"
  | "message_type_num Mt_DiscoverResponse = 0x80"
  | "message_type_num Mt_Hello = 0x1"
  | "message_type_num Mt_HelloResponse = 0x81"
  | "message_type_num Mt_Subscribe = 0x3"
  | "message_type_num Mt_SubscribeResponse = 0x83"
  | "message_type_num Mt_EventResponse = 0x4"
  | "message_type_num Mt_ReadLog = 0x5"
  | "message_type_num Mt_ReadLogResponse = 0x85"
  | "message_type_num Mt_GetConfig = 0x6"
  | "message_type_num Mt_GetConfigResponse = 0x86"
  | "message_type_num Mt_SetConfig = 0x7"
  | "message_type_num Mt_SetConfigResponse = 0x87"
  | "message_type_num Mt_Command = 0x8"
  | "message_type_num Mt_CommandResponse = 0x88"
  | "message_type_num Mt_Firmware = 0x9"
  | "message_type_num Mt_FirmwareResponse = 0x89"
  | "message_type_num Mt_Time = 0xA"
  | "message_type_num Mt_TimeResponse = 0x8A"
  | "message_type_num Mt_Pair = 0xB"
  | "message_type_num Mt_PairResponse = 0x8B"
  | "message_type_num Mt_Goodbye = 0xC"
  | "message_type_num Mt_GoodbyeResponse = 0x8C"
  | "message_type_num Mt_Inventory = 0xD"
  | "message_type_num Mt_InventoryResponse = 0x8D"
  | "message_type_num Mt_Readings = 0xE"
  | "message_type_num Mt_ReadingsResponse = 0x8E"
  | "message_type_num Mt_Concerns = 0xF"
  | "message_type_num Mt_ConcernsResponse = 0x8F"
  | "message_type_num Mt_History = 0x10"
  | "message_type_num Mt_HistoryResponse = 0x90"
  | "message_type_num Mt_WifiScan = 0x11"
  | "message_type_num Mt_WifiScanResponse = 0x91"
  | "message_type_num Mt_WifiStatus = 0x12"
  | "message_type_num Mt_WifiStatusResponse = 0x92"
  | "message_type_num Mt_Enrol = 0x13"
  | "message_type_num Mt_EnrolResponse = 0x93"
  | "message_type_num Mt_Vouch = 0x14"
  | "message_type_num Mt_VouchResponse = 0x94"
  | "message_type_num Mt_Invite = 0x15"
  | "message_type_num Mt_InviteResponse = 0x95"
  | "message_type_num Mt_Approve = 0x16"
  | "message_type_num Mt_ApproveResponse = 0x96"
  | "message_type_num Mt_Remove = 0x17"
  | "message_type_num Mt_RemoveResponse = 0x97"
  | "message_type_num Mt_Clients = 0x18"
  | "message_type_num Mt_ClientsResponse = 0x98"
  | "message_type_num Mt_ErrorResponse = 0xFF"

definition message_type_arms :: "(u8 \<times> message_type) list" where [registry_simps]:
  "message_type_arms =
    [(0x0, Mt_Discover), (0x80, Mt_DiscoverResponse), (0x1, Mt_Hello),
     (0x81, Mt_HelloResponse), (0x3, Mt_Subscribe), (0x83, Mt_SubscribeResponse),
     (0x4, Mt_EventResponse), (0x5, Mt_ReadLog), (0x85, Mt_ReadLogResponse),
     (0x6, Mt_GetConfig), (0x86, Mt_GetConfigResponse), (0x7, Mt_SetConfig),
     (0x87, Mt_SetConfigResponse), (0x8, Mt_Command), (0x88, Mt_CommandResponse),
     (0x9, Mt_Firmware), (0x89, Mt_FirmwareResponse), (0xA, Mt_Time), (0x8A, Mt_TimeResponse),
     (0xB, Mt_Pair), (0x8B, Mt_PairResponse), (0xC, Mt_Goodbye), (0x8C, Mt_GoodbyeResponse),
     (0xD, Mt_Inventory), (0x8D, Mt_InventoryResponse), (0xE, Mt_Readings),
     (0x8E, Mt_ReadingsResponse), (0xF, Mt_Concerns), (0x8F, Mt_ConcernsResponse),
     (0x10, Mt_History), (0x90, Mt_HistoryResponse), (0x11, Mt_WifiScan),
     (0x91, Mt_WifiScanResponse), (0x12, Mt_WifiStatus), (0x92, Mt_WifiStatusResponse),
     (0x13, Mt_Enrol), (0x93, Mt_EnrolResponse), (0x14, Mt_Vouch), (0x94, Mt_VouchResponse),
     (0x15, Mt_Invite), (0x95, Mt_InviteResponse), (0x16, Mt_Approve),
     (0x96, Mt_ApproveResponse), (0x17, Mt_Remove), (0x97, Mt_RemoveResponse),
     (0x18, Mt_Clients), (0x98, Mt_ClientsResponse), (0xFF, Mt_ErrorResponse)]"

definition message_type_of :: "u8 \<Rightarrow> message_type option" where
  "message_type_of v = map_of message_type_arms v"

interpretation message_type: registry_enum message_type_of message_type_num
proof (rule registry_enumI [of _ message_type_arms])
  show "(message_type_num x, x) \<in> set message_type_arms" for x
    by (cases x) (simp_all add: message_type_arms_def)
qed (simp_all add: message_type_arms_def message_type_of_def fun_eq_iff)

subsection \<open>\<open>LinkMessageType\<close>\<close>

datatype link_message_type =
    Lm_LinkUp | Lm_LinkUpAck | Lm_Heartbeat | Lm_HeartbeatAck | Lm_ClientConnected
  | Lm_ClientConnectedAck | Lm_ClientDisconnected | Lm_ClientDisconnectedAck
  | Lm_CloseConnection | Lm_CloseConnectionAck | Lm_NetConfig | Lm_NetConfigAck
  | Lm_TimeOffer | Lm_TimeOfferAck | Lm_CommsRelease | Lm_CommsReleaseAck
  | Lm_EnterDownload | Lm_EnterDownloadAck | Lm_PairingWindow | Lm_PairingWindowAck
  | Lm_WifiScan | Lm_WifiScanAck | Lm_WifiScanResult | Lm_WifiScanResultAck | Lm_WifiState
  | Lm_WifiStateAck

primrec link_message_type_num :: "link_message_type \<Rightarrow> u8" where
    "link_message_type_num Lm_LinkUp = 0x60"
  | "link_message_type_num Lm_LinkUpAck = 0xE0"
  | "link_message_type_num Lm_Heartbeat = 0x61"
  | "link_message_type_num Lm_HeartbeatAck = 0xE1"
  | "link_message_type_num Lm_ClientConnected = 0x62"
  | "link_message_type_num Lm_ClientConnectedAck = 0xE2"
  | "link_message_type_num Lm_ClientDisconnected = 0x63"
  | "link_message_type_num Lm_ClientDisconnectedAck = 0xE3"
  | "link_message_type_num Lm_CloseConnection = 0x64"
  | "link_message_type_num Lm_CloseConnectionAck = 0xE4"
  | "link_message_type_num Lm_NetConfig = 0x65"
  | "link_message_type_num Lm_NetConfigAck = 0xE5"
  | "link_message_type_num Lm_TimeOffer = 0x66"
  | "link_message_type_num Lm_TimeOfferAck = 0xE6"
  | "link_message_type_num Lm_CommsRelease = 0x67"
  | "link_message_type_num Lm_CommsReleaseAck = 0xE7"
  | "link_message_type_num Lm_EnterDownload = 0x68"
  | "link_message_type_num Lm_EnterDownloadAck = 0xE8"
  | "link_message_type_num Lm_PairingWindow = 0x69"
  | "link_message_type_num Lm_PairingWindowAck = 0xE9"
  | "link_message_type_num Lm_WifiScan = 0x6A"
  | "link_message_type_num Lm_WifiScanAck = 0xEA"
  | "link_message_type_num Lm_WifiScanResult = 0x6B"
  | "link_message_type_num Lm_WifiScanResultAck = 0xEB"
  | "link_message_type_num Lm_WifiState = 0x6C"
  | "link_message_type_num Lm_WifiStateAck = 0xEC"

definition link_message_type_arms :: "(u8 \<times> link_message_type) list" where [registry_simps]:
  "link_message_type_arms =
    [(0x60, Lm_LinkUp), (0xE0, Lm_LinkUpAck), (0x61, Lm_Heartbeat), (0xE1, Lm_HeartbeatAck),
     (0x62, Lm_ClientConnected), (0xE2, Lm_ClientConnectedAck), (0x63, Lm_ClientDisconnected),
     (0xE3, Lm_ClientDisconnectedAck), (0x64, Lm_CloseConnection),
     (0xE4, Lm_CloseConnectionAck), (0x65, Lm_NetConfig), (0xE5, Lm_NetConfigAck),
     (0x66, Lm_TimeOffer), (0xE6, Lm_TimeOfferAck), (0x67, Lm_CommsRelease),
     (0xE7, Lm_CommsReleaseAck), (0x68, Lm_EnterDownload), (0xE8, Lm_EnterDownloadAck),
     (0x69, Lm_PairingWindow), (0xE9, Lm_PairingWindowAck), (0x6A, Lm_WifiScan),
     (0xEA, Lm_WifiScanAck), (0x6B, Lm_WifiScanResult), (0xEB, Lm_WifiScanResultAck),
     (0x6C, Lm_WifiState), (0xEC, Lm_WifiStateAck)]"

definition link_message_type_of :: "u8 \<Rightarrow> link_message_type option" where
  "link_message_type_of v = map_of link_message_type_arms v"

interpretation link_message_type: registry_enum link_message_type_of link_message_type_num
proof (rule registry_enumI [of _ link_message_type_arms])
  show "(link_message_type_num x, x) \<in> set link_message_type_arms" for x
    by (cases x) (simp_all add: link_message_type_arms_def)
qed (simp_all add: link_message_type_arms_def link_message_type_of_def fun_eq_iff)

datatype link_direction = Either | CommsToController | ControllerToComms

primrec link_direction_of :: "link_message_type \<Rightarrow> link_direction" where
    "link_direction_of Lm_LinkUp = Either"
  | "link_direction_of Lm_LinkUpAck = Either"
  | "link_direction_of Lm_Heartbeat = Either"
  | "link_direction_of Lm_HeartbeatAck = Either"
  | "link_direction_of Lm_ClientConnected = CommsToController"
  | "link_direction_of Lm_ClientConnectedAck = CommsToController"
  | "link_direction_of Lm_ClientDisconnected = CommsToController"
  | "link_direction_of Lm_ClientDisconnectedAck = CommsToController"
  | "link_direction_of Lm_TimeOffer = CommsToController"
  | "link_direction_of Lm_TimeOfferAck = CommsToController"
  | "link_direction_of Lm_WifiScanResult = CommsToController"
  | "link_direction_of Lm_WifiScanResultAck = CommsToController"
  | "link_direction_of Lm_WifiState = CommsToController"
  | "link_direction_of Lm_WifiStateAck = CommsToController"
  | "link_direction_of Lm_CloseConnection = ControllerToComms"
  | "link_direction_of Lm_CloseConnectionAck = ControllerToComms"
  | "link_direction_of Lm_NetConfig = ControllerToComms"
  | "link_direction_of Lm_NetConfigAck = ControllerToComms"
  | "link_direction_of Lm_CommsRelease = ControllerToComms"
  | "link_direction_of Lm_CommsReleaseAck = ControllerToComms"
  | "link_direction_of Lm_EnterDownload = ControllerToComms"
  | "link_direction_of Lm_EnterDownloadAck = ControllerToComms"
  | "link_direction_of Lm_PairingWindow = ControllerToComms"
  | "link_direction_of Lm_PairingWindowAck = ControllerToComms"
  | "link_direction_of Lm_WifiScan = ControllerToComms"
  | "link_direction_of Lm_WifiScanAck = ControllerToComms"

subsection \<open>\<open>ErrorCode\<close>\<close>

datatype error_code =
    Ec_MalformedFrame | Ec_UnknownMessageType | Ec_ProtocolMajorMismatch
  | Ec_HelloRequiredFirst | Ec_PayloadTooLarge | Ec_UnknownSection | Ec_BusyRetry
  | Ec_SessionTableFull | Ec_SessionExpired | Ec_AuthenticationFailed | Ec_UnknownClient
  | Ec_StaleChallengeReconnectAndRetry | Ec_ChallengeUnavailable | Ec_UnsupportedSuite
  | Ec_RoleNotPermitted

primrec error_code_num :: "error_code \<Rightarrow> u16" where
    "error_code_num Ec_MalformedFrame = 0x1"
  | "error_code_num Ec_UnknownMessageType = 0x2"
  | "error_code_num Ec_ProtocolMajorMismatch = 0x3"
  | "error_code_num Ec_HelloRequiredFirst = 0x4"
  | "error_code_num Ec_PayloadTooLarge = 0x5"
  | "error_code_num Ec_UnknownSection = 0x6"
  | "error_code_num Ec_BusyRetry = 0x7"
  | "error_code_num Ec_SessionTableFull = 0x8"
  | "error_code_num Ec_SessionExpired = 0x9"
  | "error_code_num Ec_AuthenticationFailed = 0xA"
  | "error_code_num Ec_UnknownClient = 0xC"
  | "error_code_num Ec_StaleChallengeReconnectAndRetry = 0xE"
  | "error_code_num Ec_ChallengeUnavailable = 0x12"
  | "error_code_num Ec_UnsupportedSuite = 0x13"
  | "error_code_num Ec_RoleNotPermitted = 0x14"

definition error_code_arms :: "(u16 \<times> error_code) list" where [registry_simps]:
  "error_code_arms =
    [(0x1, Ec_MalformedFrame), (0x2, Ec_UnknownMessageType), (0x3, Ec_ProtocolMajorMismatch),
     (0x4, Ec_HelloRequiredFirst), (0x5, Ec_PayloadTooLarge), (0x6, Ec_UnknownSection),
     (0x7, Ec_BusyRetry), (0x8, Ec_SessionTableFull), (0x9, Ec_SessionExpired),
     (0xA, Ec_AuthenticationFailed), (0xC, Ec_UnknownClient),
     (0xE, Ec_StaleChallengeReconnectAndRetry), (0x12, Ec_ChallengeUnavailable),
     (0x13, Ec_UnsupportedSuite), (0x14, Ec_RoleNotPermitted)]"

definition error_code_of :: "u16 \<Rightarrow> error_code option" where
  "error_code_of v = map_of error_code_arms v"

interpretation error_code: registry_enum error_code_of error_code_num
proof (rule registry_enumI [of _ error_code_arms])
  show "(error_code_num x, x) \<in> set error_code_arms" for x
    by (cases x) (simp_all add: error_code_arms_def)
qed (simp_all add: error_code_arms_def error_code_of_def fun_eq_iff)

subsection \<open>\<open>Approve\<close>\<close>

datatype approve_outcome =
    Apo_Enrolled | Apo_Declined | Apo_Unauthorised | Apo_UnknownInvite | Apo_InviterGone
  | Apo_Refused | Apo_KnownKey | Apo_TableFull | Apo_NotStored

primrec approve_outcome_num :: "approve_outcome \<Rightarrow> u8" where
    "approve_outcome_num Apo_Enrolled = 0x1"
  | "approve_outcome_num Apo_Declined = 0x2"
  | "approve_outcome_num Apo_Unauthorised = 0x3"
  | "approve_outcome_num Apo_UnknownInvite = 0x4"
  | "approve_outcome_num Apo_InviterGone = 0x5"
  | "approve_outcome_num Apo_Refused = 0x6"
  | "approve_outcome_num Apo_KnownKey = 0x7"
  | "approve_outcome_num Apo_TableFull = 0x8"
  | "approve_outcome_num Apo_NotStored = 0x9"

definition approve_outcome_arms :: "(u8 \<times> approve_outcome) list" where [registry_simps]:
  "approve_outcome_arms =
    [(0x1, Apo_Enrolled), (0x2, Apo_Declined), (0x3, Apo_Unauthorised),
     (0x4, Apo_UnknownInvite), (0x5, Apo_InviterGone), (0x6, Apo_Refused),
     (0x7, Apo_KnownKey), (0x8, Apo_TableFull), (0x9, Apo_NotStored)]"

definition approve_outcome_of :: "u8 \<Rightarrow> approve_outcome option" where
  "approve_outcome_of v = map_of approve_outcome_arms v"

interpretation approve_outcome: registry_enum approve_outcome_of approve_outcome_num
proof (rule registry_enumI [of _ approve_outcome_arms])
  show "(approve_outcome_num x, x) \<in> set approve_outcome_arms" for x
    by (cases x) (simp_all add: approve_outcome_arms_def)
qed (simp_all add: approve_outcome_arms_def approve_outcome_of_def fun_eq_iff)

subsection \<open>\<open>Command\<close>\<close>

datatype command_outcome =
    Co_Accepted | Co_Rejected | Co_Duplicate | Co_Inhibited | Co_Unauthorised | Co_Shadowed
  | Co_StaleTopology | Co_WrongTarget

primrec command_outcome_num :: "command_outcome \<Rightarrow> u8" where
    "command_outcome_num Co_Accepted = 0x1"
  | "command_outcome_num Co_Rejected = 0x2"
  | "command_outcome_num Co_Duplicate = 0x3"
  | "command_outcome_num Co_Inhibited = 0x4"
  | "command_outcome_num Co_Unauthorised = 0x5"
  | "command_outcome_num Co_Shadowed = 0x6"
  | "command_outcome_num Co_StaleTopology = 0x7"
  | "command_outcome_num Co_WrongTarget = 0x8"

definition command_outcome_arms :: "(u8 \<times> command_outcome) list" where [registry_simps]:
  "command_outcome_arms =
    [(0x1, Co_Accepted), (0x2, Co_Rejected), (0x3, Co_Duplicate), (0x4, Co_Inhibited),
     (0x5, Co_Unauthorised), (0x6, Co_Shadowed), (0x7, Co_StaleTopology), (0x8, Co_WrongTarget)]"

definition command_outcome_of :: "u8 \<Rightarrow> command_outcome option" where
  "command_outcome_of v = map_of command_outcome_arms v"

interpretation command_outcome: registry_enum command_outcome_of command_outcome_num
proof (rule registry_enumI [of _ command_outcome_arms])
  show "(command_outcome_num x, x) \<in> set command_outcome_arms" for x
    by (cases x) (simp_all add: command_outcome_arms_def)
qed (simp_all add: command_outcome_arms_def command_outcome_of_def fun_eq_iff)

subsection \<open>\<open>Invite\<close>\<close>

datatype invite_outcome =
    Io_Proposed | Io_Unauthorised | Io_InvitesFull | Io_KnownKey | Io_TableFull | Io_NoBudget

primrec invite_outcome_num :: "invite_outcome \<Rightarrow> u8" where
    "invite_outcome_num Io_Proposed = 0x1"
  | "invite_outcome_num Io_Unauthorised = 0x2"
  | "invite_outcome_num Io_InvitesFull = 0x3"
  | "invite_outcome_num Io_KnownKey = 0x4"
  | "invite_outcome_num Io_TableFull = 0x5"
  | "invite_outcome_num Io_NoBudget = 0x6"

definition invite_outcome_arms :: "(u8 \<times> invite_outcome) list" where [registry_simps]:
  "invite_outcome_arms =
    [(0x1, Io_Proposed), (0x2, Io_Unauthorised), (0x3, Io_InvitesFull), (0x4, Io_KnownKey),
     (0x5, Io_TableFull), (0x6, Io_NoBudget)]"

definition invite_outcome_of :: "u8 \<Rightarrow> invite_outcome option" where
  "invite_outcome_of v = map_of invite_outcome_arms v"

interpretation invite_outcome: registry_enum invite_outcome_of invite_outcome_num
proof (rule registry_enumI [of _ invite_outcome_arms])
  show "(invite_outcome_num x, x) \<in> set invite_outcome_arms" for x
    by (cases x) (simp_all add: invite_outcome_arms_def)
qed (simp_all add: invite_outcome_arms_def invite_outcome_of_def fun_eq_iff)

subsection \<open>\<open>Remove\<close>\<close>

datatype remove_outcome =
    Rm_Removed | Rm_Gone | Rm_Protected | Rm_Unauthorised | Rm_NotStored

primrec remove_outcome_num :: "remove_outcome \<Rightarrow> u8" where
    "remove_outcome_num Rm_Removed = 0x1"
  | "remove_outcome_num Rm_Gone = 0x2"
  | "remove_outcome_num Rm_Protected = 0x3"
  | "remove_outcome_num Rm_Unauthorised = 0x4"
  | "remove_outcome_num Rm_NotStored = 0x5"

definition remove_outcome_arms :: "(u8 \<times> remove_outcome) list" where [registry_simps]:
  "remove_outcome_arms =
    [(0x1, Rm_Removed), (0x2, Rm_Gone), (0x3, Rm_Protected), (0x4, Rm_Unauthorised),
     (0x5, Rm_NotStored)]"

definition remove_outcome_of :: "u8 \<Rightarrow> remove_outcome option" where
  "remove_outcome_of v = map_of remove_outcome_arms v"

interpretation remove_outcome: registry_enum remove_outcome_of remove_outcome_num
proof (rule registry_enumI [of _ remove_outcome_arms])
  show "(remove_outcome_num x, x) \<in> set remove_outcome_arms" for x
    by (cases x) (simp_all add: remove_outcome_arms_def)
qed (simp_all add: remove_outcome_arms_def remove_outcome_of_def fun_eq_iff)

subsection \<open>\<open>Time\<close>\<close>

datatype time_outcome =
    To_Accepted | To_Rejected | To_Unauthorised | To_NeedsButton

primrec time_outcome_num :: "time_outcome \<Rightarrow> u8" where
    "time_outcome_num To_Accepted = 0x1"
  | "time_outcome_num To_Rejected = 0x2"
  | "time_outcome_num To_Unauthorised = 0x3"
  | "time_outcome_num To_NeedsButton = 0x4"

definition time_outcome_arms :: "(u8 \<times> time_outcome) list" where [registry_simps]:
  "time_outcome_arms =
    [(0x1, To_Accepted), (0x2, To_Rejected), (0x3, To_Unauthorised), (0x4, To_NeedsButton)]"

definition time_outcome_of :: "u8 \<Rightarrow> time_outcome option" where
  "time_outcome_of v = map_of time_outcome_arms v"

interpretation time_outcome: registry_enum time_outcome_of time_outcome_num
proof (rule registry_enumI [of _ time_outcome_arms])
  show "(time_outcome_num x, x) \<in> set time_outcome_arms" for x
    by (cases x) (simp_all add: time_outcome_arms_def)
qed (simp_all add: time_outcome_arms_def time_outcome_of_def fun_eq_iff)

subsection \<open>\<open>Vouch\<close>\<close>

datatype vouch_outcome =
    Vo_Vouched | Vo_BadVerifier

primrec vouch_outcome_num :: "vouch_outcome \<Rightarrow> u8" where
    "vouch_outcome_num Vo_Vouched = 0x1"
  | "vouch_outcome_num Vo_BadVerifier = 0x2"

definition vouch_outcome_arms :: "(u8 \<times> vouch_outcome) list" where [registry_simps]:
  "vouch_outcome_arms =
    [(0x1, Vo_Vouched), (0x2, Vo_BadVerifier)]"

definition vouch_outcome_of :: "u8 \<Rightarrow> vouch_outcome option" where
  "vouch_outcome_of v = map_of vouch_outcome_arms v"

interpretation vouch_outcome: registry_enum vouch_outcome_of vouch_outcome_num
proof (rule registry_enumI [of _ vouch_outcome_arms])
  show "(vouch_outcome_num x, x) \<in> set vouch_outcome_arms" for x
    by (cases x) (simp_all add: vouch_outcome_arms_def)
qed (simp_all add: vouch_outcome_arms_def vouch_outcome_of_def fun_eq_iff)

subsection \<open>\<open>BootReason\<close>\<close>

datatype boot_reason =
    Br_Power | Br_Watchdog | Br_SoftwareReset | Br_Panic | Br_PinReset
  | Br_OptionByteReload | Br_WindowWatchdog | Br_LowPowerEntry

primrec boot_reason_num :: "boot_reason \<Rightarrow> u8" where
    "boot_reason_num Br_Power = 0x1"
  | "boot_reason_num Br_Watchdog = 0x2"
  | "boot_reason_num Br_SoftwareReset = 0x4"
  | "boot_reason_num Br_Panic = 0x5"
  | "boot_reason_num Br_PinReset = 0x6"
  | "boot_reason_num Br_OptionByteReload = 0x7"
  | "boot_reason_num Br_WindowWatchdog = 0x8"
  | "boot_reason_num Br_LowPowerEntry = 0x9"

definition boot_reason_arms :: "(u8 \<times> boot_reason) list" where [registry_simps]:
  "boot_reason_arms =
    [(0x1, Br_Power), (0x2, Br_Watchdog), (0x4, Br_SoftwareReset), (0x5, Br_Panic),
     (0x6, Br_PinReset), (0x7, Br_OptionByteReload), (0x8, Br_WindowWatchdog),
     (0x9, Br_LowPowerEntry)]"

definition boot_reason_of :: "u8 \<Rightarrow> boot_reason option" where
  "boot_reason_of v = map_of boot_reason_arms v"

interpretation boot_reason: registry_enum boot_reason_of boot_reason_num
proof (rule registry_enumI [of _ boot_reason_arms])
  show "(boot_reason_num x, x) \<in> set boot_reason_arms" for x
    by (cases x) (simp_all add: boot_reason_arms_def)
qed (simp_all add: boot_reason_arms_def boot_reason_of_def fun_eq_iff)

subsection \<open>\<open>ClientKind\<close>\<close>

datatype client_kind =
    Ck_App | Ck_Browser | Ck_Cloud | Ck_Cli

primrec client_kind_num :: "client_kind \<Rightarrow> u8" where
    "client_kind_num Ck_App = 0x1"
  | "client_kind_num Ck_Browser = 0x2"
  | "client_kind_num Ck_Cloud = 0x3"
  | "client_kind_num Ck_Cli = 0x4"

definition client_kind_arms :: "(u8 \<times> client_kind) list" where [registry_simps]:
  "client_kind_arms =
    [(0x1, Ck_App), (0x2, Ck_Browser), (0x3, Ck_Cloud), (0x4, Ck_Cli)]"

definition client_kind_of :: "u8 \<Rightarrow> client_kind option" where
  "client_kind_of v = map_of client_kind_arms v"

interpretation client_kind: registry_enum client_kind_of client_kind_num
proof (rule registry_enumI [of _ client_kind_arms])
  show "(client_kind_num x, x) \<in> set client_kind_arms" for x
    by (cases x) (simp_all add: client_kind_arms_def)
qed (simp_all add: client_kind_arms_def client_kind_of_def fun_eq_iff)

subsection \<open>\<open>InviteDecision\<close>\<close>

datatype invite_decision =
    Id_Approve | Id_Decline

primrec invite_decision_num :: "invite_decision \<Rightarrow> u8" where
    "invite_decision_num Id_Approve = 0x1"
  | "invite_decision_num Id_Decline = 0x2"

definition invite_decision_arms :: "(u8 \<times> invite_decision) list" where [registry_simps]:
  "invite_decision_arms =
    [(0x1, Id_Approve), (0x2, Id_Decline)]"

definition invite_decision_of :: "u8 \<Rightarrow> invite_decision option" where
  "invite_decision_of v = map_of invite_decision_arms v"

interpretation invite_decision: registry_enum invite_decision_of invite_decision_num
proof (rule registry_enumI [of _ invite_decision_arms])
  show "(invite_decision_num x, x) \<in> set invite_decision_arms" for x
    by (cases x) (simp_all add: invite_decision_arms_def)
qed (simp_all add: invite_decision_arms_def invite_decision_of_def fun_eq_iff)

subsection \<open>\<open>Presence\<close>\<close>

datatype presence =
    Pr_Online | Pr_Degraded | Pr_Offline | Pr_NeverSeen

primrec presence_num :: "presence \<Rightarrow> u8" where
    "presence_num Pr_Online = 0x1"
  | "presence_num Pr_Degraded = 0x2"
  | "presence_num Pr_Offline = 0x3"
  | "presence_num Pr_NeverSeen = 0x4"

definition presence_arms :: "(u8 \<times> presence) list" where [registry_simps]:
  "presence_arms =
    [(0x1, Pr_Online), (0x2, Pr_Degraded), (0x3, Pr_Offline), (0x4, Pr_NeverSeen)]"

definition presence_of :: "u8 \<Rightarrow> presence option" where
  "presence_of v = map_of presence_arms v"

interpretation presence: registry_enum presence_of presence_num
proof (rule registry_enumI [of _ presence_arms])
  show "(presence_num x, x) \<in> set presence_arms" for x
    by (cases x) (simp_all add: presence_arms_def)
qed (simp_all add: presence_arms_def presence_of_def fun_eq_iff)

subsection \<open>\<open>Provenance\<close>\<close>

datatype provenance =
    Pv_None | Pv_Measured | Pv_Counted | Pv_Derived | Pv_Estimated | Pv_Reported
  | Pv_Commanded

primrec provenance_num :: "provenance \<Rightarrow> u8" where
    "provenance_num Pv_None = 0x0"
  | "provenance_num Pv_Measured = 0x1"
  | "provenance_num Pv_Counted = 0x2"
  | "provenance_num Pv_Derived = 0x3"
  | "provenance_num Pv_Estimated = 0x4"
  | "provenance_num Pv_Reported = 0x5"
  | "provenance_num Pv_Commanded = 0x6"

definition provenance_arms :: "(u8 \<times> provenance) list" where [registry_simps]:
  "provenance_arms =
    [(0x0, Pv_None), (0x1, Pv_Measured), (0x2, Pv_Counted), (0x3, Pv_Derived),
     (0x4, Pv_Estimated), (0x5, Pv_Reported), (0x6, Pv_Commanded)]"

definition provenance_of :: "u8 \<Rightarrow> provenance option" where
  "provenance_of v = map_of provenance_arms v"

interpretation provenance: registry_enum provenance_of provenance_num
proof (rule registry_enumI [of _ provenance_arms])
  show "(provenance_num x, x) \<in> set provenance_arms" for x
    by (cases x) (simp_all add: provenance_arms_def)
qed (simp_all add: provenance_arms_def provenance_of_def fun_eq_iff)

subsection \<open>\<open>Role\<close>\<close>

datatype role =
    Role_Owner | Role_Admin | Role_Viewer

primrec role_num :: "role \<Rightarrow> u8" where
    "role_num Role_Owner = 0x1"
  | "role_num Role_Admin = 0x2"
  | "role_num Role_Viewer = 0x3"

definition role_arms :: "(u8 \<times> role) list" where [registry_simps]:
  "role_arms =
    [(0x1, Role_Owner), (0x2, Role_Admin), (0x3, Role_Viewer)]"

definition role_of :: "u8 \<Rightarrow> role option" where
  "role_of v = map_of role_arms v"

interpretation role: registry_enum role_of role_num
proof (rule registry_enumI [of _ role_arms])
  show "(role_num x, x) \<in> set role_arms" for x
    by (cases x) (simp_all add: role_arms_def)
qed (simp_all add: role_arms_def role_of_def fun_eq_iff)

subsection \<open>\<open>Suite\<close>\<close>

datatype suite =
    Su_X25519ChachapolySha256

primrec suite_num :: "suite \<Rightarrow> u8" where
    "suite_num Su_X25519ChachapolySha256 = 0x1"

definition suite_arms :: "(u8 \<times> suite) list" where [registry_simps]:
  "suite_arms =
    [(0x1, Su_X25519ChachapolySha256)]"

definition suite_of :: "u8 \<Rightarrow> suite option" where
  "suite_of v = map_of suite_arms v"

interpretation suite: registry_enum suite_of suite_num
proof (rule registry_enumI [of _ suite_arms])
  show "(suite_num x, x) \<in> set suite_arms" for x
    by (cases x) (simp_all add: suite_arms_def)
qed (simp_all add: suite_arms_def suite_of_def fun_eq_iff)

subsection \<open>\<open>TimeSource\<close>\<close>

datatype time_source =
    Ts_Client | Ts_NtpViaComms

primrec time_source_num :: "time_source \<Rightarrow> u8" where
    "time_source_num Ts_Client = 0x1"
  | "time_source_num Ts_NtpViaComms = 0x2"

definition time_source_arms :: "(u8 \<times> time_source) list" where [registry_simps]:
  "time_source_arms =
    [(0x1, Ts_Client), (0x2, Ts_NtpViaComms)]"

definition time_source_of :: "u8 \<Rightarrow> time_source option" where
  "time_source_of v = map_of time_source_arms v"

interpretation time_source: registry_enum time_source_of time_source_num
proof (rule registry_enumI [of _ time_source_arms])
  show "(time_source_num x, x) \<in> set time_source_arms" for x
    by (cases x) (simp_all add: time_source_arms_def)
qed (simp_all add: time_source_arms_def time_source_of_def fun_eq_iff)

subsection \<open>\<open>TopologyChangeReason\<close>\<close>

datatype topology_change_reason =
    Tc_Boot | Tc_ConfigWrite | Tc_SubDeviceAdopted | Tc_SubDeviceRemoved | Tc_DeviceReplaced

primrec topology_change_reason_num :: "topology_change_reason \<Rightarrow> u8" where
    "topology_change_reason_num Tc_Boot = 0x1"
  | "topology_change_reason_num Tc_ConfigWrite = 0x2"
  | "topology_change_reason_num Tc_SubDeviceAdopted = 0x3"
  | "topology_change_reason_num Tc_SubDeviceRemoved = 0x4"
  | "topology_change_reason_num Tc_DeviceReplaced = 0x5"

definition topology_change_reason_arms :: "(u8 \<times> topology_change_reason) list" where [registry_simps]:
  "topology_change_reason_arms =
    [(0x1, Tc_Boot), (0x2, Tc_ConfigWrite), (0x3, Tc_SubDeviceAdopted),
     (0x4, Tc_SubDeviceRemoved), (0x5, Tc_DeviceReplaced)]"

definition topology_change_reason_of :: "u8 \<Rightarrow> topology_change_reason option" where
  "topology_change_reason_of v = map_of topology_change_reason_arms v"

interpretation topology_change_reason: registry_enum topology_change_reason_of topology_change_reason_num
proof (rule registry_enumI [of _ topology_change_reason_arms])
  show "(topology_change_reason_num x, x) \<in> set topology_change_reason_arms" for x
    by (cases x) (simp_all add: topology_change_reason_arms_def)
qed (simp_all add: topology_change_reason_arms_def topology_change_reason_of_def fun_eq_iff)

subsection \<open>\<open>Validity\<close>\<close>

datatype validity =
    Va_Ok | Va_Stale | Va_Initialising | Va_Unsupported | Va_SensorFault | Va_OutOfRange
  | Va_Absent | Va_UnnamedState | Va_Reset

primrec validity_num :: "validity \<Rightarrow> u8" where
    "validity_num Va_Ok = 0x1"
  | "validity_num Va_Stale = 0x2"
  | "validity_num Va_Initialising = 0x3"
  | "validity_num Va_Unsupported = 0x4"
  | "validity_num Va_SensorFault = 0x5"
  | "validity_num Va_OutOfRange = 0x6"
  | "validity_num Va_Absent = 0x7"
  | "validity_num Va_UnnamedState = 0x8"
  | "validity_num Va_Reset = 0x9"

definition validity_arms :: "(u8 \<times> validity) list" where [registry_simps]:
  "validity_arms =
    [(0x1, Va_Ok), (0x2, Va_Stale), (0x3, Va_Initialising), (0x4, Va_Unsupported),
     (0x5, Va_SensorFault), (0x6, Va_OutOfRange), (0x7, Va_Absent), (0x8, Va_UnnamedState),
     (0x9, Va_Reset)]"

definition validity_of :: "u8 \<Rightarrow> validity option" where
  "validity_of v = map_of validity_arms v"

interpretation validity: registry_enum validity_of validity_num
proof (rule registry_enumI [of _ validity_arms])
  show "(validity_num x, x) \<in> set validity_arms" for x
    by (cases x) (simp_all add: validity_arms_def)
qed (simp_all add: validity_arms_def validity_of_def fun_eq_iff)

subsection \<open>\<open>CommandKind\<close>\<close>

datatype command_kind =
    Cm_StartGenerator | Cm_StopGenerator | Cm_RunExerciseCycleNow | Cm_SetOutput
  | Cm_AcknowledgeConcern | Cm_ClearOverride

primrec command_kind_num :: "command_kind \<Rightarrow> u16" where
    "command_kind_num Cm_StartGenerator = 0x101"
  | "command_kind_num Cm_StopGenerator = 0x102"
  | "command_kind_num Cm_RunExerciseCycleNow = 0x103"
  | "command_kind_num Cm_SetOutput = 0x201"
  | "command_kind_num Cm_AcknowledgeConcern = 0x203"
  | "command_kind_num Cm_ClearOverride = 0x301"

definition command_kind_arms :: "(u16 \<times> command_kind) list" where [registry_simps]:
  "command_kind_arms =
    [(0x101, Cm_StartGenerator), (0x102, Cm_StopGenerator), (0x103, Cm_RunExerciseCycleNow),
     (0x201, Cm_SetOutput), (0x203, Cm_AcknowledgeConcern), (0x301, Cm_ClearOverride)]"

definition command_kind_of :: "u16 \<Rightarrow> command_kind option" where
  "command_kind_of v = map_of command_kind_arms v"

interpretation command_kind: registry_enum command_kind_of command_kind_num
proof (rule registry_enumI [of _ command_kind_arms])
  show "(command_kind_num x, x) \<in> set command_kind_arms" for x
    by (cases x) (simp_all add: command_kind_arms_def)
qed (simp_all add: command_kind_arms_def command_kind_of_def fun_eq_iff)

subsection \<open>\<open>ConfigSection\<close>\<close>

datatype config_section =
    Cs_IdentityAndSite | Cs_Channels | Cs_BusesAndDevices | Cs_GeneratorBehaviour
  | Cs_FrostBehaviour | Cs_ScheduleBehaviour | Cs_LoadShedBehaviour | Cs_Network | Cs_Cloud

primrec config_section_num :: "config_section \<Rightarrow> u16" where
    "config_section_num Cs_IdentityAndSite = 0x1"
  | "config_section_num Cs_Channels = 0x2"
  | "config_section_num Cs_BusesAndDevices = 0x3"
  | "config_section_num Cs_GeneratorBehaviour = 0x10"
  | "config_section_num Cs_FrostBehaviour = 0x11"
  | "config_section_num Cs_ScheduleBehaviour = 0x12"
  | "config_section_num Cs_LoadShedBehaviour = 0x13"
  | "config_section_num Cs_Network = 0x20"
  | "config_section_num Cs_Cloud = 0x21"

definition config_section_arms :: "(u16 \<times> config_section) list" where [registry_simps]:
  "config_section_arms =
    [(0x1, Cs_IdentityAndSite), (0x2, Cs_Channels), (0x3, Cs_BusesAndDevices),
     (0x10, Cs_GeneratorBehaviour), (0x11, Cs_FrostBehaviour), (0x12, Cs_ScheduleBehaviour),
     (0x13, Cs_LoadShedBehaviour), (0x20, Cs_Network), (0x21, Cs_Cloud)]"

definition config_section_of :: "u16 \<Rightarrow> config_section option" where
  "config_section_of v = map_of config_section_arms v"

interpretation config_section: registry_enum config_section_of config_section_num
proof (rule registry_enumI [of _ config_section_arms])
  show "(config_section_num x, x) \<in> set config_section_arms" for x
    by (cases x) (simp_all add: config_section_arms_def)
qed (simp_all add: config_section_arms_def config_section_of_def fun_eq_iff)

subsection \<open>\<open>LinkErrorCode\<close>\<close>

datatype link_error_code =
    Le_WrongSide | Le_LinkTypeOnClientTransport | Le_BeforeLinkUp | Le_UnknownHandle
  | Le_ConnectionTableFull | Le_LinkMajorMismatch | Le_TooManyOutstanding
  | Le_NonZeroSession | Le_NoAuthorisation

primrec link_error_code_num :: "link_error_code \<Rightarrow> u16" where
    "link_error_code_num Le_WrongSide = 0x100"
  | "link_error_code_num Le_LinkTypeOnClientTransport = 0x101"
  | "link_error_code_num Le_BeforeLinkUp = 0x102"
  | "link_error_code_num Le_UnknownHandle = 0x103"
  | "link_error_code_num Le_ConnectionTableFull = 0x104"
  | "link_error_code_num Le_LinkMajorMismatch = 0x105"
  | "link_error_code_num Le_TooManyOutstanding = 0x106"
  | "link_error_code_num Le_NonZeroSession = 0x107"
  | "link_error_code_num Le_NoAuthorisation = 0x108"

definition link_error_code_arms :: "(u16 \<times> link_error_code) list" where [registry_simps]:
  "link_error_code_arms =
    [(0x100, Le_WrongSide), (0x101, Le_LinkTypeOnClientTransport), (0x102, Le_BeforeLinkUp),
     (0x103, Le_UnknownHandle), (0x104, Le_ConnectionTableFull),
     (0x105, Le_LinkMajorMismatch), (0x106, Le_TooManyOutstanding),
     (0x107, Le_NonZeroSession), (0x108, Le_NoAuthorisation)]"

definition link_error_code_of :: "u16 \<Rightarrow> link_error_code option" where
  "link_error_code_of v = map_of link_error_code_arms v"

interpretation link_error_code: registry_enum link_error_code_of link_error_code_num
proof (rule registry_enumI [of _ link_error_code_arms])
  show "(link_error_code_num x, x) \<in> set link_error_code_arms" for x
    by (cases x) (simp_all add: link_error_code_arms_def)
qed (simp_all add: link_error_code_arms_def link_error_code_of_def fun_eq_iff)

definition ERROR_NEEDS_A_SEAL :: "(u16 \<times> bool) list" where [registry_simps]:
  "ERROR_NEEDS_A_SEAL =
    [(1, False), (2, False), (3, False), (4, False), (5, False), (6, True),
     (7, True), (8, False), (9, False), (10, False), (12, False), (14, False),
     (18, False), (19, False), (20, True)]"

text \<open>The table is sorted by code, so the binary search of the source is a lookup.\<close>

definition needs_a_seal :: "error_code \<Rightarrow> bool" where
  "needs_a_seal e =
     (case map_of ERROR_NEEDS_A_SEAL (error_code_num e) of Some m \<Rightarrow> m | None \<Rightarrow> False)"

definition EVENT_IS_CLASS_A :: "(u16 \<times> bool) list" where [registry_simps]:
  "EVENT_IS_CLASS_A =
    [(258, True), (513, True), (514, True), (515, True), (769, True), (770, True),
     (1025, True), (1281, True), (1282, True), (1537, True), (1538, True), (1539, True),
     (1540, True), (1541, True), (1542, True), (1793, True), (1794, True), (2049, True),
     (2050, True), (2051, True), (2052, True), (2053, True), (2054, True), (2055, True),
     (2305, True), (2306, True)]"

datatype event_kind = EventKind u16

primrec is_class_a :: "event_kind \<Rightarrow> bool option" where
  "is_class_a (EventKind k) = map_of EVENT_IS_CLASS_A k"

definition SIGNAL_VALIDITY_CHANGED :: event_kind where [registry_simps]: "SIGNAL_VALIDITY_CHANGED = EventKind 0x0102"
definition GENERATOR_STATE_CHANGED :: event_kind where [registry_simps]: "GENERATOR_STATE_CHANGED = EventKind 0x0201"
definition GENERATOR_COMMAND_WITHDRAWN :: event_kind where [registry_simps]: "GENERATOR_COMMAND_WITHDRAWN = EventKind 0x0202"
definition GENERATOR_STOP_NOT_HONOURED :: event_kind where [registry_simps]: "GENERATOR_STOP_NOT_HONOURED = EventKind 0x0203"
definition BEHAVIOUR_DECISION :: event_kind where [registry_simps]: "BEHAVIOUR_DECISION = EventKind 0x0301"
definition BEHAVIOUR_INHIBITED :: event_kind where [registry_simps]: "BEHAVIOUR_INHIBITED = EventKind 0x0302"
definition OUTPUT_CHANGED :: event_kind where [registry_simps]: "OUTPUT_CHANGED = EventKind 0x0401"
definition CONCERN_RAISED :: event_kind where [registry_simps]: "CONCERN_RAISED = EventKind 0x0501"
definition CONCERN_CHANGED :: event_kind where [registry_simps]: "CONCERN_CHANGED = EventKind 0x0502"
definition BOOT :: event_kind where [registry_simps]: "BOOT = EventKind 0x0601"
definition CONFIG_CHANGED :: event_kind where [registry_simps]: "CONFIG_CHANGED = EventKind 0x0602"
definition CLIENT_ENROLLED :: event_kind where [registry_simps]: "CLIENT_ENROLLED = EventKind 0x0603"
definition TIME_SET :: event_kind where [registry_simps]: "TIME_SET = EventKind 0x0604"
definition CLIENT_REMOVED :: event_kind where [registry_simps]: "CLIENT_REMOVED = EventKind 0x0605"
definition INVITE_PROPOSED :: event_kind where [registry_simps]: "INVITE_PROPOSED = EventKind 0x0606"
definition RECORDS_DROPPED :: event_kind where [registry_simps]: "RECORDS_DROPPED = EventKind 0x0701"
definition RECORD_FAILED_CRC :: event_kind where [registry_simps]: "RECORD_FAILED_CRC = EventKind 0x0702"
definition COMMS_LINK_LOST :: event_kind where [registry_simps]: "COMMS_LINK_LOST = EventKind 0x0801"
definition COMMS_POWER_CYCLED :: event_kind where [registry_simps]: "COMMS_POWER_CYCLED = EventKind 0x0802"
definition COMMS_UNRECOVERABLE :: event_kind where [registry_simps]: "COMMS_UNRECOVERABLE = EventKind 0x0803"
definition SESSIONS_SHED_FOR_BACKPRESSURE :: event_kind where [registry_simps]: "SESSIONS_SHED_FOR_BACKPRESSURE = EventKind 0x0804"
definition COMMS_BOOT_NOISE :: event_kind where [registry_simps]: "COMMS_BOOT_NOISE = EventKind 0x0805"
definition WIFI_STATUS_CHANGED :: event_kind where [registry_simps]: "WIFI_STATUS_CHANGED = EventKind 0x0806"
definition COMMS_HELD_DOWN :: event_kind where [registry_simps]: "COMMS_HELD_DOWN = EventKind 0x0807"
definition TOPOLOGY_CHANGED :: event_kind where [registry_simps]: "TOPOLOGY_CHANGED = EventKind 0x0901"
definition DEVICE_PRESENCE_CHANGED :: event_kind where [registry_simps]: "DEVICE_PRESENCE_CHANGED = EventKind 0x0902"

section \<open>Codes of two spaces, and capabilities\<close>

datatype incoming = Client error_code | LinkLocal link_error_code | Unknown u16

definition incoming_of :: "u16 \<Rightarrow> incoming" where
  "incoming_of v =
     (case error_code_of v of
        Some e \<Rightarrow> Client e
      | None \<Rightarrow> (case link_error_code_of v of Some l \<Rightarrow> LinkLocal l | None \<Rightarrow> Unknown v))"

datatype client_capability = ClientCapability u16

definition WRITE_CONFIG :: client_capability where "WRITE_CONFIG = ClientCapability 1"
definition WRITE_NETWORK_AND_CLOUD :: client_capability where "WRITE_NETWORK_AND_CLOUD = ClientCapability 2"
definition SEND_COMMAND :: client_capability where "SEND_COMMAND = ClientCapability 4"
definition SET_CLOCK :: client_capability where "SET_CLOCK = ClientCapability 8"
definition PUSH_FIRMWARE :: client_capability where "PUSH_FIRMWARE = ClientCapability 16"
definition READ_PRIVATE :: client_capability where "READ_PRIVATE = ClientCapability 32"
definition INVITE :: client_capability where "INVITE = ClientCapability 64"
definition APPROVE :: client_capability where "APPROVE = ClientCapability 128"

fun allows :: "client_capability \<Rightarrow> client_capability \<Rightarrow> bool" where
  "allows (ClientCapability self) (ClientCapability want) \<longleftrightarrow> self AND want = want"

primrec granted :: "role \<Rightarrow> client_capability" where
    "granted Role_Owner = ClientCapability 0xFF"
  | "granted Role_Admin = ClientCapability 0x7D"
  | "granted Role_Viewer = ClientCapability 0"

lemmas capability_defs = WRITE_CONFIG_def WRITE_NETWORK_AND_CLOUD_def SEND_COMMAND_def SET_CLOCK_def
  PUSH_FIRMWARE_def READ_PRIVATE_def INVITE_def APPROVE_def

end
