(* ===== verification/Utf8.thy ===== *)
theory Utf8
  imports Prelude
begin

text \<open>
  The check \<open>core::str::from_utf8\<close> makes, from the Unicode table of well-formed byte
  sequences: no overlong form, no surrogate, nothing past U+10FFFF. A \<open>&str\<close> of the
  source is modelled as its bytes.
\<close>

definition byte_in :: "u8 \<Rightarrow> u8 \<Rightarrow> u8 \<Rightarrow> bool" where
  "byte_in lo hi b \<longleftrightarrow> lo \<le> b \<and> b \<le> hi"

abbreviation continuation :: "u8 \<Rightarrow> bool" where
  "continuation \<equiv> byte_in 0x80 0xBF"

fun utf8 :: "bytes \<Rightarrow> bool" where
  "utf8 [] = True"
| "utf8 (a # rest) =
     (if a < 0x80 then utf8 rest
      else if byte_in 0xC2 0xDF a then
        (case rest of b # rest' \<Rightarrow> continuation b \<and> utf8 rest' | _ \<Rightarrow> False)
      else if byte_in 0xE0 0xEF a then
        (case rest of b # c # rest' \<Rightarrow>
           (if a = 0xE0 then byte_in 0xA0 0xBF b
            else if a = 0xED then byte_in 0x80 0x9F b else continuation b) \<and>
           continuation c \<and> utf8 rest' | _ \<Rightarrow> False)
      else if byte_in 0xF0 0xF4 a then
        (case rest of b # c # d # rest' \<Rightarrow>
           (if a = 0xF0 then byte_in 0x90 0xBF b
            else if a = 0xF4 then byte_in 0x80 0x8F b else continuation b) \<and>
           continuation c \<and> continuation d \<and> utf8 rest' | _ \<Rightarrow> False)
      else False)"

lemma utf8_ascii: "list_all (\<lambda>b. b < 0x80) bs \<Longrightarrow> utf8 bs"
  by (induction bs) auto

lemma utf8_append: "utf8 xs \<Longrightarrow> utf8 ys \<Longrightarrow> utf8 (xs @ ys)"
  by (induction xs rule: utf8.induct) (auto split: if_splits list.splits)

end
