(* ===== verification/Cbor_Nest.thy ===== *)
theory Cbor_Nest
  imports Limits
begin

text \<open>
  \<open>crates/km43/src/cbor.rs\<close>, the part the reader and the writer share: errors, major types,
  argument widths, the rank a key sorts at, and the stack of open containers with what each
  still owes.
\<close>

section \<open>Errors and heads\<close>

datatype cbor_error =
    EndOfInput | TrailingBytes | TrailingItem | Unfinished | IndefiniteLength | TagNotAllowed
  | FloatNotAllowed | SimpleValueNotAllowed | ReservedHead | KeyNotInteger | RepeatedKey
  | MisplacedKey | KeysNotAscending | DepthExceeded | StringTooLong | InvalidUtf8 | WrongType
  | IntegerOutOfRange | CborDestinationTooSmall

datatype major = Unsigned | Negative | Bytes | Text | Array | Map | Tag | Simple

primrec major_bits :: "major \<Rightarrow> u8" where
    "major_bits Unsigned = 0"
  | "major_bits Negative = 1"
  | "major_bits Bytes = 2"
  | "major_bits Text = 3"
  | "major_bits Array = 4"
  | "major_bits Map = 5"
  | "major_bits Tag = 6"
  | "major_bits Simple = 7"

definition major_of :: "u8 \<Rightarrow> major" where
  "major_of byte =
     (let inner = drop_bit 5 byte in
      if inner = 0 then Unsigned
      else if inner = 1 then Negative
      else if inner = 2 then Bytes
      else if inner = 3 then Text
      else if inner = 4 then Array
      else if inner = 5 then Map
      else if inner = 6 then Tag
      else Simple)"

datatype width = Inline | One | Two | Four | Eight

definition width_of :: "u64 \<Rightarrow> width" where
  "width_of argument =
     (if argument < 24 then Inline
      else if argument \<le> 0xFF then One
      else if argument \<le> 0xFFFF then Two
      else if argument \<le> 0xFFFFFFFF then Four
      else Eight)"

primrec width_bytes :: "width \<Rightarrow> nat" where
    "width_bytes Inline = 0"
  | "width_bytes One = 1"
  | "width_bytes Two = 2"
  | "width_bytes Four = 4"
  | "width_bytes Eight = 8"

primrec width_info :: "width \<Rightarrow> u8 \<Rightarrow> u8" where
    "width_info Inline low = low"
  | "width_info One low = 24"
  | "width_info Two low = 25"
  | "width_info Four low = 26"
  | "width_info Eight low = 27"

text \<open>A head with, for a string, the string: after it the reader is between items.\<close>

datatype head =
    HUnsigned u64 | HNegative u64 | HBytes bytes | HText bytes | HArray nat | HMap nat | HBool bool

section \<open>Where a key sorts\<close>

text \<open>RFC 8949 order, as the derived \<open>Ord\<close> has it: unsigned before negative, then by argument.\<close>

datatype key_rank = KeyRank bool u64

instantiation key_rank :: linorder
begin

fun less_eq_key_rank :: "key_rank \<Rightarrow> key_rank \<Rightarrow> bool" where
  "less_eq_key_rank (KeyRank n a) (KeyRank m b) \<longleftrightarrow> (\<not> n \<and> m) \<or> (n = m \<and> a \<le> b)"

definition less_key_rank :: "key_rank \<Rightarrow> key_rank \<Rightarrow> bool" where
  "less_key_rank k l \<longleftrightarrow> k \<le> l \<and> \<not> l \<le> k"

instance
proof
  fix k l m :: key_rank
  show "k < l \<longleftrightarrow> k \<le> l \<and> \<not> l \<le> k" by (rule less_key_rank_def)
  show "k \<le> k" by (cases k) auto
  show "k \<le> l \<Longrightarrow> l \<le> m \<Longrightarrow> k \<le> m" by (cases k; cases l; cases m) auto
  show "k \<le> l \<Longrightarrow> l \<le> k \<Longrightarrow> k = l" by (cases k; cases l) auto
  show "k \<le> l \<or> l \<le> k" by (cases k; cases l) auto
qed

end

lemma less_key_rank [simp]:
  "KeyRank n a < KeyRank m b \<longleftrightarrow> (\<not> n \<and> m) \<or> (n = m \<and> a < b)"
  by (auto simp: less_key_rank_def)

section \<open>Open containers\<close>

datatype nesting = NArray | NMap

record open_container =
  kind :: nesting
  remaining :: nat
  last_key :: "key_rank option"
  start :: nat

record nest =
  n_open :: "open_container list"
  depth :: nat
  deepest :: nat

record unsettled =
  u_key :: key_rank
  u_from :: nat
  u_to :: nat

definition NESTING :: nat where "NESTING = unat MAX_DEPTH"

definition EMPTY :: open_container where
  "EMPTY = \<lparr>kind = NArray, remaining = 0, last_key = None, start = 0\<rparr>"

definition nest_new :: nest where
  "nest_new = \<lparr>n_open = replicate NESTING EMPTY, depth = 0, deepest = 0\<rparr>"

definition innermost :: "nest \<Rightarrow> open_container option" where
  "innermost n = (if depth n = 0 then None else get_at (n_open n) (depth n - 1))"

text \<open>The loop of \<open>Nest::settle\<close> over the depth.\<close>

primrec settled_depth :: "open_container list \<Rightarrow> nat \<Rightarrow> nat" where
  "settled_depth os 0 = 0"
| "settled_depth os (Suc d) =
     (case get_at os d of
        None \<Rightarrow> Suc d
      | Some inner \<Rightarrow> if remaining inner \<noteq> 0 then Suc d else settled_depth os d)"

definition settle :: "nest \<Rightarrow> nest" where
  "settle n = n\<lparr>depth := settled_depth (n_open n) (depth n)\<rparr>"

definition at_key :: "nest \<Rightarrow> bool" where
  "at_key n = (case innermost n of Some inner \<Rightarrow> kind inner = NMap \<and> remaining inner mod 2 = 0 | None \<Rightarrow> False)"

definition count_item :: "(nest, cbor_error, unit) act" where
  "count_item n =
     (if depth n = 0 then (Inr (), n)
      else let index = depth n - 1 in
        case get_at (n_open n) index of
          None \<Rightarrow> (Inl DepthExceeded, n)
        | Some inner \<Rightarrow>
            (Inr (), n\<lparr>n_open := (n_open n)[index := inner\<lparr>remaining := remaining inner - 1\<rparr>]\<rparr>))"

definition has_room :: "nest \<Rightarrow> bool" where
  "has_room n \<longleftrightarrow> depth n < length (n_open n)"

definition nest_push :: "nesting \<Rightarrow> nat \<Rightarrow> nat \<Rightarrow> (nest, cbor_error, unit) act" where
  "nest_push k items at n =
     (if depth n < length (n_open n)
      then let n' = n\<lparr>n_open := (n_open n)[depth n :=
                         \<lparr>kind = k, remaining = items, last_key = None, start = at\<rparr>],
                      depth := saturating_add (depth n) 1\<rparr>
           in (Inr (), n'\<lparr>deepest := max (deepest n') (depth n')\<rparr>)
      else (Inl DepthExceeded, n))"

definition take_key :: "u64 \<Rightarrow> (nest, cbor_error, unit) act" where
  "take_key k n =
     (if depth n = 0 then (Inl MisplacedKey, n)
      else let index = depth n - 1 in
        case get_at (n_open n) index of
          None \<Rightarrow> (Inl DepthExceeded, n)
        | Some inner \<Rightarrow>
            (let key = KeyRank False k in
             if (case last_key inner of Some greatest \<Rightarrow> key \<le> greatest | None \<Rightarrow> False)
             then (Inl KeysNotAscending, n)
             else (Inr (), n\<lparr>n_open := (n_open n)[index := inner\<lparr>last_key := Some key\<rparr>]\<rparr>)))"

definition read_key :: "key_rank \<Rightarrow> nat \<Rightarrow> (nest, cbor_error, unsettled option) act" where
  "read_key key at n =
     (if depth n = 0 then (Inl MisplacedKey, n)
      else let index = depth n - 1 in
        case get_at (n_open n) index of
          None \<Rightarrow> (Inl DepthExceeded, n)
        | Some inner \<Rightarrow>
            (if (case last_key inner of Some greatest \<Rightarrow> key \<le> greatest | None \<Rightarrow> False)
             then (Inr (Some \<lparr>u_key = key, u_from = start inner, u_to = at\<rparr>), n)
             else (Inr None, n\<lparr>n_open := (n_open n)[index := inner\<lparr>last_key := Some key\<rparr>]\<rparr>)))"

section \<open>The stack, abstractly\<close>

text \<open>
  What the containers owe, innermost first. The code's array and its depth are an
  implementation of this list.
\<close>

definition nest_ok :: "nest \<Rightarrow> bool" where
  "nest_ok n \<longleftrightarrow> length (n_open n) = NESTING \<and> depth n \<le> NESTING"

definition stack :: "nest \<Rightarrow> open_container list" where
  "stack n = rev (take (depth n) (n_open n))"

definition settle_stack :: "open_container list \<Rightarrow> open_container list" where
  "settle_stack = dropWhile (\<lambda>inner. remaining inner = 0)"

definition stack_at_key :: "open_container list \<Rightarrow> bool" where
  "stack_at_key st = (case st of inner # _ \<Rightarrow> kind inner = NMap \<and> even (remaining inner) | [] \<Rightarrow> False)"

definition count_stack :: "open_container list \<Rightarrow> open_container list" where
  "count_stack st = (case st of inner # rest \<Rightarrow> inner\<lparr>remaining := remaining inner - 1\<rparr> # rest | [] \<Rightarrow> [])"

lemma NESTING_val: "NESTING = 8"
  by (simp add: NESTING_def MAX_DEPTH_def)

lemma nest_new_ok [simp]: "nest_ok nest_new"
  by (simp add: nest_ok_def nest_new_def)

lemma stack_new [simp]: "stack nest_new = []"
  by (simp add: stack_def nest_new_def)

lemma length_stack: "nest_ok n \<Longrightarrow> length (stack n) = depth n"
  by (simp add: stack_def nest_ok_def)

lemma settled_depth_le: "settled_depth os d \<le> d"
  by (induction d) (auto split: option.splits)

lemma settled_depth_stack:
  "d \<le> length os \<Longrightarrow> rev (take (settled_depth os d) os) = settle_stack (rev (take d os))"
  by (induction d) (auto simp: get_at_def settle_stack_def take_Suc_conv_app_nth)

lemma settle_ok [simp]: "nest_ok n \<Longrightarrow> nest_ok (settle n)"
  using settled_depth_le [of "n_open n" "depth n"] by (simp add: nest_ok_def settle_def)

lemma deepest_settle [simp]: "deepest (settle n) = deepest n"
  by (simp add: settle_def)

lemma stack_settle [simp]: "nest_ok n \<Longrightarrow> stack (settle n) = settle_stack (stack n)"
  by (simp add: stack_def settle_def nest_ok_def settled_depth_stack)

lemma stack_innermost:
  assumes "nest_ok n"
  shows "innermost n = (case stack n of inner # _ \<Rightarrow> Some inner | [] \<Rightarrow> None)"
proof (cases "depth n")
  case (Suc d)
  then show ?thesis
    using assms by (simp add: innermost_def stack_def nest_ok_def get_at_def take_Suc_conv_app_nth)
qed (simp add: innermost_def stack_def)

lemma at_key_stack: "nest_ok n \<Longrightarrow> at_key n = stack_at_key (stack n)"
  by (auto simp: at_key_def stack_innermost stack_at_key_def even_iff_mod_2_eq_zero split: list.splits)

text \<open>An update of the innermost container, and an empty stack, in one lemma.\<close>

lemma stack_update:
  assumes "nest_ok n" and "depth n = Suc d"
  shows "stack (n\<lparr>n_open := (n_open n)[d := x]\<rparr>) = x # List.tl (stack n)"
    and "get_at (n_open n) d = Some (hd (stack n))" and "stack n \<noteq> []"
    and "nest_ok (n\<lparr>n_open := (n_open n)[d := x]\<rparr>)"
  using assms by (auto simp: stack_def nest_ok_def get_at_def take_Suc_conv_app_nth)

lemma stack_Nil_iff: "nest_ok n \<Longrightarrow> stack n = [] \<longleftrightarrow> depth n = 0"
  using length_stack [of n] by auto

lemma count_item_stack:
  assumes "nest_ok n"
  shows "\<exists>n'. count_item n = (Inr (), n') \<and> nest_ok n' \<and> stack n' = count_stack (stack n) \<and>
              deepest n' = deepest n"
proof (cases "depth n")
  case 0
  then show ?thesis
    using assms by (simp add: count_item_def count_stack_def stack_def)
next
  case (Suc d)
  note up = stack_update [OF assms Suc]
  show ?thesis
    using up Suc by (cases "stack n") (auto simp: count_item_def Let_def count_stack_def)
qed

lemma nest_push_stack:
  assumes "nest_ok n"
  shows "nest_push k items at n =
    (if length (stack n) < NESTING
     then (Inr (), snd (nest_push k items at n)) else (Inl DepthExceeded, n))"
    and "length (stack n) < NESTING \<Longrightarrow>
      nest_ok (snd (nest_push k items at n)) \<and>
      stack (snd (nest_push k items at n)) =
        \<lparr>kind = k, remaining = items, last_key = None, start = at\<rparr> # stack n \<and>
      deepest (snd (nest_push k items at n)) = max (deepest n) (Suc (length (stack n)))"
  using assms length_stack [OF assms]
  by (auto simp: nest_push_def Let_def nest_ok_def stack_def take_Suc_conv_app_nth saturating_add_def
      usize_max_def NESTING_val)

definition above_last :: "key_rank \<Rightarrow> open_container \<Rightarrow> bool" where
  "above_last k inner \<longleftrightarrow> (case last_key inner of Some greatest \<Rightarrow> greatest < k | None \<Rightarrow> True)"

lemma read_key_stack:
  assumes "nest_ok n" and "stack n = inner # st" and "above_last k inner"
  shows "\<exists>n'. read_key k at n = (Inr None, n') \<and> nest_ok n' \<and>
              stack n' = inner\<lparr>last_key := Some k\<rparr> # st \<and> deepest n' = deepest n"
proof -
  obtain d where d: "depth n = Suc d"
    using assms stack_Nil_iff [OF assms(1)] by (cases "depth n") auto
  show ?thesis
    using stack_update [OF assms(1) d] d assms(2,3)
    by (auto simp: read_key_def Let_def above_last_def not_le split: option.splits)
qed

lemma take_key_stack:
  assumes "nest_ok n" and "stack n = inner # st"
  shows "above_last (KeyRank False k) inner \<Longrightarrow>
      \<exists>n'. take_key k n = (Inr (), n') \<and> nest_ok n' \<and>
           stack n' = inner\<lparr>last_key := Some (KeyRank False k)\<rparr> # st \<and> deepest n' = deepest n"
    and "\<not> above_last (KeyRank False k) inner \<Longrightarrow> take_key k n = (Inl KeysNotAscending, n)"
proof -
  obtain d where d: "depth n = Suc d"
    using assms stack_Nil_iff [OF assms(1)] by (cases "depth n") auto
  show "above_last (KeyRank False k) inner \<Longrightarrow>
      \<exists>n'. take_key k n = (Inr (), n') \<and> nest_ok n' \<and>
           stack n' = inner\<lparr>last_key := Some (KeyRank False k)\<rparr> # st \<and> deepest n' = deepest n"
    "\<not> above_last (KeyRank False k) inner \<Longrightarrow> take_key k n = (Inl KeysNotAscending, n)"
    using stack_update [OF assms(1) d] d assms(2)
    by (auto simp: take_key_def Let_def above_last_def not_le split: option.splits)
qed


section \<open>Levels\<close>

text \<open>What the specifications speak of: kind, items owed and greatest key of each container.\<close>

type_synonym level = "nesting \<times> nat \<times> key_rank option"

definition level_of :: "open_container \<Rightarrow> level" where
  "level_of c = (kind c, remaining c, last_key c)"

definition levels :: "nest \<Rightarrow> level list" where
  "levels n = map level_of (stack n)"

definition settle_levels :: "level list \<Rightarrow> level list" where
  "settle_levels = dropWhile (\<lambda>(k, n, l). n = 0)"

fun levels_at_key :: "level list \<Rightarrow> bool" where
  "levels_at_key ((k, n, l) # rest) \<longleftrightarrow> k = NMap \<and> even n"
| "levels_at_key [] \<longleftrightarrow> False"

fun count_levels :: "level list \<Rightarrow> level list" where
  "count_levels ((k, n, l) # rest) = (k, n - 1, l) # rest"
| "count_levels [] = []"

fun above_key :: "key_rank \<Rightarrow> key_rank option \<Rightarrow> bool" where
  "above_key k (Some l) \<longleftrightarrow> l < k"
| "above_key k None \<longleftrightarrow> True"

lemma settle_levels_simps [simp]:
  "settle_levels [] = []"
  "settle_levels ((k, 0, l) # rest) = settle_levels rest"
  "settle_levels ((k, Suc n, l) # rest) = (k, Suc n, l) # rest"
  "0 < m \<Longrightarrow> settle_levels ((k, m, l) # rest) = (k, m, l) # rest"
  by (simp_all add: settle_levels_def)

lemma settle_levels_idem [simp]: "settle_levels (settle_levels L) = settle_levels L"
  by (simp add: settle_levels_def)

lemma length_settle_levels: "length (settle_levels L) \<le> length L"
  unfolding settle_levels_def by (rule length_dropWhile_le)

lemma settle_levels_map: "map level_of (settle_stack st) = settle_levels (map level_of st)"
  by (induction st) (auto simp: settle_stack_def settle_levels_def level_of_def)

lemma levels_settle [simp]: "nest_ok n \<Longrightarrow> levels (settle n) = settle_levels (levels n)"
  by (simp add: levels_def settle_levels_map)

lemma at_key_levels: "nest_ok n \<Longrightarrow> at_key n = levels_at_key (levels n)"
  by (cases "stack n") (auto simp: at_key_stack stack_at_key_def levels_def level_of_def)

lemma length_levels: "nest_ok n \<Longrightarrow> length (levels n) = depth n"
  by (simp add: levels_def length_stack)

lemma depth_levels: "nest_ok n \<Longrightarrow> depth n = 0 \<longleftrightarrow> levels n = []"
  by (simp add: levels_def stack_Nil_iff)

lemma count_item_levels:
  assumes "nest_ok n"
  obtains n' where "count_item n = (Inr (), n')" and "nest_ok n'"
    and "levels n' = count_levels (levels n)" and "deepest n' = deepest n"
proof -
  obtain n' where "count_item n = (Inr (), n')" "nest_ok n'" "stack n' = count_stack (stack n)"
    "deepest n' = deepest n"
    using count_item_stack [OF assms] by blast
  then show ?thesis
    using that by (cases "stack n") (auto simp: levels_def count_stack_def level_of_def)
qed

lemma nest_push_levels:
  assumes "nest_ok n" and "length (levels n) < NESTING"
  obtains n' where "nest_push k items at n = (Inr (), n')" and "nest_ok n'"
    and "levels n' = (k, items, None) # levels n" and "deepest n' = max (deepest n) (Suc (length (levels n)))"
proof -
  have len: "length (stack n) < NESTING"
    using assms by (simp add: levels_def)
  have "nest_push k items at n = (Inr (), snd (nest_push k items at n))"
    using nest_push_stack(1) [OF assms(1), of k items at] len by simp
  with nest_push_stack(2) [OF assms(1) len, of k items at] show ?thesis
    by (intro that) (auto simp: levels_def level_of_def)
qed

lemma nest_push_full:
  "nest_ok n \<Longrightarrow> \<not> length (levels n) < NESTING \<Longrightarrow> nest_push k items at n = (Inl DepthExceeded, n)"
  using nest_push_stack(1) [of n k items at] by (simp add: levels_def)

lemma read_key_levels:
  assumes "nest_ok n" and "levels n = (k, m, l) # rest" and "above_key key l"
  obtains n' where "read_key key at n = (Inr None, n')" and "nest_ok n'"
    and "levels n' = (k, m, Some key) # rest" and "deepest n' = deepest n"
proof -
  obtain c st where st: "stack n = c # st" "level_of c = (k, m, l)" "map level_of st = rest"
    using assms(2) by (auto simp: levels_def)
  then have "above_last key c"
    using assms(3) by (cases l) (auto simp: above_last_def level_of_def)
  then obtain n' where "read_key key at n = (Inr None, n')" "nest_ok n'"
    "stack n' = c\<lparr>last_key := Some key\<rparr> # st" "deepest n' = deepest n"
    using read_key_stack [OF assms(1) st(1)] by blast
  with st show ?thesis
    by (intro that [of n']) (auto simp: levels_def level_of_def)
qed

lemma take_key_levels:
  assumes "nest_ok n" and "levels n = (k, m, l) # rest"
  shows "above_key (KeyRank False key) l \<Longrightarrow>
      \<exists>n'. take_key key n = (Inr (), n') \<and> nest_ok n' \<and>
           levels n' = (k, m, Some (KeyRank False key)) # rest"
    and "\<not> above_key (KeyRank False key) l \<Longrightarrow> take_key key n = (Inl KeysNotAscending, n)"
proof -
  obtain c st where st: "stack n = c # st" "level_of c = (k, m, l)" "map level_of st = rest"
    using assms(2) by (auto simp: levels_def)
  have above: "above_last (KeyRank False key) c \<longleftrightarrow> above_key (KeyRank False key) l"
    using st(2) by (cases l) (auto simp: above_last_def level_of_def)
  show "\<exists>n'. take_key key n = (Inr (), n') \<and> nest_ok n' \<and>
           levels n' = (k, m, Some (KeyRank False key)) # rest" if asc: "above_key (KeyRank False key) l"
  proof -
    obtain n' where "take_key key n = (Inr (), n')" "nest_ok n'"
      "stack n' = c\<lparr>last_key := Some (KeyRank False key)\<rparr> # st"
      using take_key_stack(1) [OF assms(1) st(1), of key] above asc by auto
    with st show ?thesis
      by (auto simp: levels_def level_of_def)
  qed
  show "take_key key n = (Inl KeysNotAscending, n)" if "\<not> above_key (KeyRank False key) l"
    using take_key_stack(2) [OF assms(1) st(1)] above that by auto
qed

end
