(* ===== verification/Cbor_Reader.thy ===== *)
theory Cbor_Reader
  imports Cbor_Nest Utf8
begin

text \<open>
  \<open>CborReader\<close> of \<open>crates/km43/src/cbor.rs\<close>, method by method. \<open>head\<close> and \<open>search\<close>
  call each other in the source: \<open>search\<close> walks earlier pairs with a reader whose checks
  are off, and that reader never searches. The methods are written over the search they
  use (\<open>head_with\<close>), the search over the methods with none, and \<open>search_loop_head\<close>
  shows that the knot is the source's.
\<close>

section \<open>Reading one head\<close>

record reader =
  rd_bytes :: bytes
  rd_next :: nat
  rd_nest :: nest
  rd_checks :: bool
  rd_walking :: bool
  rd_unsettled :: "unsettled option"
  rd_skipped :: "unsettled option"

type_synonym 'a reading = "(reader, cbor_error, 'a) act"

definition reader_over :: "bytes \<Rightarrow> reader" where
  "reader_over bs =
     \<lparr>rd_bytes = bs, rd_next = 0, rd_nest = nest_new, rd_checks = True, rd_walking = False,
      rd_unsettled = None, rd_skipped = None\<rparr>"

text \<open>A call on the reader's nest.\<close>

definition on_nest :: "(nest, cbor_error, 'a) act \<Rightarrow> 'a reading" where
  "on_nest m r = (case m (rd_nest r) of (x, n) \<Rightarrow> (x, r\<lparr>rd_nest := n\<rparr>))"

definition rd_take :: "nat \<Rightarrow> bytes reading" where
  "rd_take len r =
     (case checked_add (rd_next r) len of
        None \<Rightarrow> (Inl EndOfInput, r)
      | Some stop \<Rightarrow>
          (case slice (rd_bytes r) (rd_next r) stop of
             None \<Rightarrow> (Inl EndOfInput, r)
           | Some taken \<Rightarrow> (Inr taken, r\<lparr>rd_next := stop\<rparr>)))"

definition rd_argument :: "u8 \<Rightarrow> u64 reading" where
  "rd_argument info =
     (if info \<le> 23 then ret (ucast info)
      else if info = 24 then andthen (rd_take 1) (\<lambda>bs. ret (be_fold bs 0))
      else if info = 25 then andthen (rd_take 2) (\<lambda>bs. ret (be_fold bs 0))
      else if info = 26 then andthen (rd_take 4) (\<lambda>bs. ret (be_fold bs 0))
      else if info = 27 then andthen (rd_take 8) (\<lambda>bs. ret (be_fold bs 0))
      else if info \<le> 30 then fail ReservedHead
      else fail IndefiniteLength)"

definition rd_length :: "u8 \<Rightarrow> nat reading" where
  "rd_length info =
     andthen (rd_argument info) (\<lambda>v. if unat v \<le> usize_max then ret (unat v) else fail EndOfInput)"

definition rd_count :: "u8 \<Rightarrow> nat \<Rightarrow> nat reading" where
  "rd_count info per_item =
     andthen (rd_length info) (\<lambda>count.
       andthen (ok_or EndOfInput (checked_mul count per_item)) (\<lambda>items r.
         if items > length (rd_bytes r) - rd_next r then (Inl EndOfInput, r) else (Inr count, r)))"

definition simple_head :: "u8 \<Rightarrow> cbor_error + head" where
  "simple_head info =
     (if info = 20 then Inr (HBool False)
      else if info = 21 then Inr (HBool True)
      else if 25 \<le> info \<and> info \<le> 27 then Inl FloatNotAllowed
      else if 28 \<le> info \<and> info \<le> 30 then Inl ReservedHead
      else if 31 \<le> info then Inl IndefiniteLength
      else Inl SimpleValueNotAllowed)"

definition rd_decode :: "u8 \<Rightarrow> head reading" where
  "rd_decode first =
     (let info = first AND 0x1F in
      case major_of first of
        Unsigned \<Rightarrow> andthen (rd_argument info) (\<lambda>v. ret (HUnsigned v))
      | Negative \<Rightarrow> andthen (rd_argument info) (\<lambda>v. ret (HNegative v))
      | Bytes \<Rightarrow> andthen (rd_length info) (\<lambda>len. andthen (rd_take len) (\<lambda>raw. ret (HBytes raw)))
      | Text \<Rightarrow>
          andthen (rd_length info) (\<lambda>len.
            if len > MAX_STRING then fail StringTooLong
            else andthen (rd_take len) (\<lambda>raw. if utf8 raw then ret (HText raw) else fail InvalidUtf8))
      | Array \<Rightarrow> andthen (rd_count info 1) (\<lambda>count. ret (HArray count))
      | Map \<Rightarrow> andthen (rd_count info 2) (\<lambda>count. ret (HMap count))
      | Tag \<Rightarrow> fail TagNotAllowed
      | Simple \<Rightarrow> lift_sum (simple_head info))"

fun key_of_head :: "head \<Rightarrow> key_rank option" where
  "key_of_head (HUnsigned v) = Some (KeyRank False v)"
| "key_of_head (HNegative v) = Some (KeyRank True v)"
| "key_of_head _ = None"

section \<open>Accounting, walking and the search for a repeated key\<close>

type_synonym search = "reader \<Rightarrow> unsettled \<Rightarrow> cbor_error + unit"

definition settle_skipped_with :: "search \<Rightarrow> unit reading" where
  "settle_skipped_with srch r =
     (case rd_skipped r of
        None \<Rightarrow> (Inr (), r)
      | Some key \<Rightarrow> (srch (r\<lparr>rd_skipped := None\<rparr>) key, r\<lparr>rd_skipped := None\<rparr>))"

text \<open>What \<open>head\<close> does with a key, and with a value, before counting it.\<close>

definition note_key :: "search \<Rightarrow> bool \<Rightarrow> nat \<Rightarrow> head \<Rightarrow> unit reading" where
  "note_key srch key_position at h r =
     (if key_position then
        (case key_of_head h of
           None \<Rightarrow> (Inl KeyNotInteger, r)
         | Some key \<Rightarrow>
             if rd_checks r then
               andthen (on_nest (read_key key at)) (\<lambda>u r'.
                 case (u, rd_walking r') of
                   (Some key', True) \<Rightarrow> (srch r' key', r')
                 | (_, False) \<Rightarrow> (Inr (), r'\<lparr>rd_unsettled := u\<rparr>)
                 | (None, True) \<Rightarrow> (Inr (), r')) r
             else (Inr (), r))
      else if \<not> rd_walking r then (Inr (), r\<lparr>rd_unsettled := None\<rparr>)
      else (Inr (), r))"

definition open_head :: "head \<Rightarrow> unit reading" where
  "open_head h r =
     (case h of
        HArray count \<Rightarrow> on_nest (nest_push NArray count (rd_next r)) r
      | HMap pairs \<Rightarrow>
          (case checked_mul pairs 2 of
             None \<Rightarrow> (Inl EndOfInput, r)
           | Some items \<Rightarrow> on_nest (nest_push NMap items (rd_next r)) r)
      | _ \<Rightarrow> (Inr (), r))"

text \<open>
  The position past the head byte is written \<open>+ 1\<close>: the byte was there, so the source's
  saturating addition does not saturate.
\<close>

definition head_rest :: "search \<Rightarrow> bool \<Rightarrow> nat \<Rightarrow> u8 \<Rightarrow> head reading" where
  "head_rest srch key_position at first =
     andthen (rd_decode first) (\<lambda>h.
     andthen (note_key srch key_position at h) (\<lambda>_.
     andthen (on_nest count_item) (\<lambda>_.
     andthen (open_head h) (\<lambda>_. ret h))))"

definition head_byte :: "search \<Rightarrow> head reading" where
  "head_byte srch r =
     (case get_at (rd_bytes r) (rd_next r) of
        None \<Rightarrow> (Inl EndOfInput, r)
      | Some first \<Rightarrow>
          head_rest srch (at_key (rd_nest r)) (rd_next r) first (r\<lparr>rd_next := rd_next r + 1\<rparr>))"

definition settle_nest :: "reader \<Rightarrow> reader" where
  "settle_nest r = r\<lparr>rd_nest := settle (rd_nest r)\<rparr>"

definition head_with :: "search \<Rightarrow> head reading" where
  "head_with srch =
     andthen (\<lambda>r. if rd_walking r then (Inr (), r) else settle_skipped_with srch r) (\<lambda>_.
     andthen (modify settle_nest) (\<lambda>_. head_byte srch))"

text \<open>Nothing moves back, nothing passes the end, and the input is never touched.\<close>

definition advances :: "reader \<Rightarrow> reader \<Rightarrow> bool" where
  "advances r r' \<longleftrightarrow> rd_bytes r' = rd_bytes r \<and> rd_next r \<le> rd_next r' \<and>
     (rd_next r \<le> length (rd_bytes r) \<longrightarrow> rd_next r' \<le> length (rd_bytes r)) \<and>
     rd_checks r' = rd_checks r \<and> rd_walking r' = rd_walking r"

lemma advances_preorder [simp, intro]: "reflp advances" "transp advances"
  by (auto simp: advances_def reflp_def transp_def)

lemma on_nest_advances [intro]: "keeps advances (on_nest m)"
  by (auto simp: keeps_def on_nest_def advances_def split: prod.splits)

lemma rd_take_advances [intro]: "keeps advances (rd_take len)"
  by (auto simp: keeps_def rd_take_def advances_def slice_def dest: checked_add_Some
      split: option.splits if_splits)

lemma rd_argument_advances [intro]: "keeps advances (rd_argument info)"
  by (auto simp: rd_argument_def)

lemma rd_length_advances [intro]: "keeps advances (rd_length info)"
  by (auto simp: rd_length_def)

lemma rd_count_advances [intro]: "keeps advances (rd_count info n)"
  unfolding rd_count_def
  by (intro keeps_andthen keeps_ok_or rd_length_advances advances_preorder keepsI)
    (auto simp: advances_def split: if_splits)

lemma rd_decode_advances [intro]: "keeps advances (rd_decode first)"
  unfolding rd_decode_def Let_def
  by (cases "major_of first")
    (auto intro!: keeps_andthen keeps_if keeps_ret keeps_fail rd_length_advances rd_take_advances)

lemma settle_skipped_advances [intro]: "keeps advances (settle_skipped_with srch)"
  by (auto simp: keeps_def settle_skipped_with_def advances_def split: option.splits)

lemma note_key_advances [intro]: "keeps advances (note_key srch k at h)"
  by (rule keepsI)
    (auto simp: note_key_def on_nest_def andthen_def advances_def
      split: if_splits option.splits prod.splits sum.splits bool.splits)

lemma open_head_advances [intro]: "keeps advances (open_head h)"
  by (rule keepsI)
    (auto simp: open_head_def on_nest_def advances_def split: head.splits option.splits prod.splits)

lemma head_rest_advances [intro]: "keeps advances (head_rest srch k at first)"
  unfolding head_rest_def
  by (intro keeps_andthen rd_decode_advances note_key_advances on_nest_advances open_head_advances
      keeps_ret advances_preorder)

lemma settle_nest_fields [simp]:
  "rd_bytes (settle_nest r) = rd_bytes r" "rd_next (settle_nest r) = rd_next r"
  "rd_checks (settle_nest r) = rd_checks r" "rd_walking (settle_nest r) = rd_walking r"
  "rd_unsettled (settle_nest r) = rd_unsettled r" "rd_skipped (settle_nest r) = rd_skipped r"
  "rd_nest (settle_nest r) = settle (rd_nest r)"
  by (simp_all add: settle_nest_def)

lemma head_byte_step:
  assumes "head_byte srch r = (x, r')"
  shows "advances r r' \<and> (\<forall>h. x = Inr h \<longrightarrow> rd_next r < rd_next r' \<and> rd_next r < length (rd_bytes r))"
proof (cases "get_at (rd_bytes r) (rd_next r)")
  case None
  then show ?thesis
    using assms by (auto simp: head_byte_def advances_def)
next
  case (Some first)
  then have "advances (r\<lparr>rd_next := rd_next r + 1\<rparr>) r'"
    using assms by (auto simp: head_byte_def intro: keepsD [OF head_rest_advances])
  then show ?thesis
    using Some by (auto simp: advances_def get_at_Some)
qed

lemma head_with_split:
  assumes "head_with srch r = (x, r')"
  obtains (refused) err where "x = Inl err" and "r' = r\<lparr>rd_skipped := None\<rparr>"
  | (read) s where "s = r \<or> s = r\<lparr>rd_skipped := None\<rparr>" and "head_byte srch (settle_nest s) = (x, r')"
  using assms
  by (auto simp: head_with_def andthen_def settle_skipped_with_def
      split: if_splits option.splits prod.splits sum.splits)

lemma head_with_step:
  assumes "head_with srch r = (x, r')"
  shows "advances r r'" and "x = Inr h \<Longrightarrow> rd_next r < rd_next r' \<and> rd_next r < length (rd_bytes r)"
proof -
  have "advances r r' \<and> (\<forall>h. x = Inr h \<longrightarrow> rd_next r < rd_next r' \<and> rd_next r < length (rd_bytes r))"
    using assms
  proof (cases rule: head_with_split)
    case (refused err)
    then show ?thesis by (simp add: advances_def)
  next
    case (read s)
    then show ?thesis
      using head_byte_step [OF read(2)] by (auto simp: advances_def)
  qed
  then show "advances r r'" "x = Inr h \<Longrightarrow> rd_next r < rd_next r' \<and> rd_next r < length (rd_bytes r)"
    by auto
qed


function walk_loop :: "search \<Rightarrow> nat \<Rightarrow> unit reading" where
  "walk_loop srch floor r =
     (let s = settle_nest r in
      if depth (rd_nest s) \<le> floor then (Inr (), s)
      else case head_with srch s of
             (Inl err, t) \<Rightarrow> (Inl err, t)
           | (Inr _, t) \<Rightarrow> walk_loop srch floor t)"
  by pat_completeness auto
termination
proof (relation "measure (\<lambda>(srch, floor, r). length (rd_bytes r) - rd_next r)")
  fix srch :: search and floor r s x t h
  assume "s = settle_nest r" and head: "(x, t) = head_with srch s" and x: "x = Inr h"
  then have "advances s t" "rd_next s < rd_next t" "rd_next s < length (rd_bytes s)"
    using head_with_step [OF head [symmetric]] by auto
  then show "((srch, floor, t), (srch, floor, r)) \<in> measure (\<lambda>(srch, floor, r). length (rd_bytes r) - rd_next r)"
    using \<open>s = settle_nest r\<close> by (auto simp: advances_def)
qed simp

declare walk_loop.simps [simp del]

definition walk_with :: "search \<Rightarrow> unit reading" where
  "walk_with srch r =
     (let s = settle_nest r; floor = depth (rd_nest s)
      in andthen (head_with srch) (\<lambda>_. walk_loop srch floor) s)"

definition skip_with :: "search \<Rightarrow> unit reading" where
  "skip_with srch =
     andthen (settle_skipped_with srch) (\<lambda>_ r.
       case walk_with srch (r\<lparr>rd_skipped := rd_unsettled r, rd_unsettled := None, rd_walking := True\<rparr>) of
         (x, r') \<Rightarrow> (x, r'\<lparr>rd_walking := rd_walking r\<rparr>))"

lemma walk_loop_advances: "walk_loop srch floor r = (x, t) \<Longrightarrow> advances r t"
proof (induction srch floor r arbitrary: x t rule: walk_loop.induct)
  case (1 srch floor r)
  obtain y s where head: "head_with srch (settle_nest r) = (y, s)"
    by fastforce
  have "advances (settle_nest r) s"
    using head_with_step(1) [OF head] .
  then have s: "advances r s"
    by (simp add: advances_def)
  show ?case
  proof (cases y)
    case (Inl err)
    then show ?thesis
      using "1.prems" head s by (auto simp: walk_loop.simps [of srch floor r] Let_def advances_def split: if_splits)
  next
    case (Inr h)
    show ?thesis
    proof (cases "depth (settle (rd_nest r)) \<le> floor")
      case True
      then show ?thesis
        using "1.prems" by (auto simp: walk_loop.simps [of srch floor r] Let_def advances_def)
    next
      case False
      then have "walk_loop srch floor s = (x, t)"
        using "1.prems" head Inr by (simp add: walk_loop.simps [of srch floor r] Let_def)
      then have "advances s t"
        using "1.IH" [OF refl _ head [symmetric] Inr] False by simp
      with s show ?thesis
        by (rule transpD [OF advances_preorder(2)])
    qed
  qed
qed

lemma walk_step:
  assumes "walk_with srch r = (x, t)"
  shows "advances r t \<and> (\<forall>u. x = Inr u \<longrightarrow> rd_next r < rd_next t \<and> rd_next r < length (rd_bytes r))"
proof -
  obtain y s where head: "head_with srch (settle_nest r) = (y, s)"
    by fastforce
  have s: "advances r s"
    using head_with_step(1) [OF head] by (simp add: advances_def)
  show ?thesis
  proof (cases y)
    case (Inl err)
    then show ?thesis
      using assms head s by (auto simp: walk_with_def Let_def)
  next
    case (Inr h)
    then have "walk_loop srch (depth (settle (rd_nest r))) s = (x, t)"
      using assms head by (simp add: walk_with_def Let_def)
    then have "advances s t"
      by (rule walk_loop_advances)
    with s head_with_step(2) [OF head Inr] show ?thesis
      by (auto simp: advances_def)
  qed
qed

lemma skip_with_step:
  assumes "skip_with srch r = (x, t)"
  shows "advances r t" and "x = Inr u \<Longrightarrow> rd_next r < rd_next t \<and> rd_next r < length (rd_bytes r)"
proof -
  have "advances r t \<and> (\<forall>u. x = Inr u \<longrightarrow> rd_next r < rd_next t \<and> rd_next r < length (rd_bytes r))"
    using assms walk_step
    by (auto simp: skip_with_def andthen_def settle_skipped_with_def advances_def
        split: option.splits prod.splits sum.splits) (fastforce simp: advances_def)+
  then show "advances r t" "x = Inr u \<Longrightarrow> rd_next r < rd_next t \<and> rd_next r < length (rd_bytes r)"
    by auto
qed

text \<open>The search itself: every reader below it has its checks off and searches nothing.\<close>

definition no_search :: search where
  "no_search r key = Inr ()"

function search_loop :: "key_rank \<Rightarrow> reader \<Rightarrow> cbor_error + unit" where
  "search_loop key r =
     (if rd_next r < length (rd_bytes r) then
        (case head_with no_search r of
           (Inl err, _) \<Rightarrow> Inl err
         | (Inr h, s) \<Rightarrow>
             (case key_of_head h of
                None \<Rightarrow> Inl KeyNotInteger
              | Some found \<Rightarrow>
                  if found = key then Inl RepeatedKey
                  else case skip_with no_search s of
                         (Inl err, _) \<Rightarrow> Inl err
                       | (Inr _, t) \<Rightarrow> search_loop key t))
      else Inr ())"
  by pat_completeness auto
termination
proof (relation "measure (\<lambda>(key, r). length (rd_bytes r) - rd_next r)")
  fix key r x s h found y t u
  assume "rd_next r < length (rd_bytes r)"
    and head: "(x, s) = head_with no_search r" "x = Inr h"
    and skip: "(y, t) = skip_with no_search s" "y = Inr u"
  then show "((key, t), key, r) \<in> measure (\<lambda>(key, r). length (rd_bytes r) - rd_next r)"
    using head_with_step [OF head(1) [symmetric]] skip_with_step [OF skip(1) [symmetric]]
    by (auto simp: advances_def)
qed simp

declare search_loop.simps [simp del]

definition search :: search where
  "search r key =
     (case slice (rd_bytes r) (u_from key) (u_to key) of
        None \<Rightarrow> Inl EndOfInput
      | Some earlier \<Rightarrow> search_loop (u_key key) ((reader_over earlier)\<lparr>rd_checks := False\<rparr>))"

section \<open>The public methods\<close>

definition head :: "head reading" where "head = head_with search"
definition settle_skipped :: "unit reading" where "settle_skipped = settle_skipped_with search"
definition walk :: "unit reading" where "walk = walk_with search"
definition skip :: "unit reading" where "skip = skip_with search"

definition rd_array :: "nat reading" where
  "rd_array = andthen head (\<lambda>h. case h of HArray count \<Rightarrow> ret count | _ \<Rightarrow> fail WrongType)"

definition rd_map :: "nat reading" where
  "rd_map = andthen head (\<lambda>h. case h of HMap pairs \<Rightarrow> ret pairs | _ \<Rightarrow> fail WrongType)"

text \<open>\<open>i64\<close> values are \<open>int\<close>s; \<open>try_from\<close> bounds the argument at \<open>i64::MAX\<close>.\<close>

definition negative :: "u64 \<Rightarrow> cbor_error + int" where
  "negative argument =
     (if unat argument < 2 ^ 63 then Inr (- 1 - int (unat argument)) else Inl IntegerOutOfRange)"

definition rd_key :: "int reading" where
  "rd_key = andthen head (\<lambda>h. case h of
       HUnsigned v \<Rightarrow> if unat v < 2 ^ 63 then ret (int (unat v)) else fail IntegerOutOfRange
     | HNegative a \<Rightarrow> lift_sum (negative a)
     | _ \<Rightarrow> fail KeyNotInteger)"

definition rd_u64 :: "u64 reading" where
  "rd_u64 = andthen head (\<lambda>h. case h of
       HUnsigned v \<Rightarrow> ret v
     | HNegative _ \<Rightarrow> fail IntegerOutOfRange
     | _ \<Rightarrow> fail WrongType)"

definition rd_u32 :: "u32 reading" where
  "rd_u32 = andthen rd_u64 (\<lambda>v. if unat v < 2 ^ 32 then ret (ucast v) else fail IntegerOutOfRange)"

definition rd_u16 :: "u16 reading" where
  "rd_u16 = andthen rd_u64 (\<lambda>v. if unat v < 2 ^ 16 then ret (ucast v) else fail IntegerOutOfRange)"

definition rd_u8 :: "u8 reading" where
  "rd_u8 = andthen rd_u64 (\<lambda>v. if unat v < 2 ^ 8 then ret (ucast v) else fail IntegerOutOfRange)"

text \<open>\<open>i32\<close> values are \<open>int\<close>s in its range.\<close>

definition fits_i32 :: "int \<Rightarrow> bool" where
  "fits_i32 n \<longleftrightarrow> - (2 ^ 31) \<le> n \<and> n < 2 ^ 31"

definition rd_i32 :: "int reading" where
  "rd_i32 = andthen head (\<lambda>h. case h of
       HUnsigned v \<Rightarrow> if fits_i32 (int (unat v)) then ret (int (unat v)) else fail IntegerOutOfRange
     | HNegative a \<Rightarrow>
         andthen (lift_sum (negative a)) (\<lambda>n. if fits_i32 n then ret n else fail IntegerOutOfRange)
     | _ \<Rightarrow> fail WrongType)"

definition rd_bool :: "bool reading" where
  "rd_bool = andthen head (\<lambda>h. case h of HBool b \<Rightarrow> ret b | _ \<Rightarrow> fail WrongType)"

definition rd_byte_string :: "bytes reading" where
  "rd_byte_string = andthen head (\<lambda>h. case h of HBytes raw \<Rightarrow> ret raw | _ \<Rightarrow> fail WrongType)"

definition rd_text :: "bytes reading" where
  "rd_text = andthen head (\<lambda>h. case h of HText raw \<Rightarrow> ret raw | _ \<Rightarrow> fail WrongType)"

definition rd_raw :: "bytes reading" where
  "rd_raw r = andthen skip (\<lambda>_ r'. ok_or EndOfInput (slice (rd_bytes r') (rd_next r) (rd_next r')) r') r"

definition rd_finish :: "reader \<Rightarrow> cbor_error + unit" where
  "rd_finish r =
     (case settle_skipped r of
        (Inl err, _) \<Rightarrow> Inl err
      | (Inr _, s) \<Rightarrow>
          if depth (settle (rd_nest s)) \<noteq> 0 then Inl Unfinished
          else if rd_next s < length (rd_bytes s) then Inl TrailingBytes
          else Inr ())"

section \<open>The knot\<close>

text \<open>A reader with its checks off never asks for a search, so which search it is given is
  of no consequence: the search loop runs the reader's own \<open>head\<close> and \<open>skip\<close>.\<close>

definition checks_off :: "reader \<Rightarrow> bool" where
  "checks_off r \<longleftrightarrow> \<not> rd_checks r \<and> rd_skipped r = None \<and> rd_unsettled r = None"

lemma decode_keeps_checks:
  "keeps (\<lambda>r r'. rd_skipped r' = rd_skipped r \<and> rd_unsettled r' = rd_unsettled r \<and> rd_checks r' = rd_checks r)
     (rd_decode first)"
proof -
  define R where "R r r' \<longleftrightarrow> rd_skipped r' = rd_skipped r \<and> rd_unsettled r' = rd_unsettled r \<and>
    rd_checks r' = rd_checks r" for r r' :: reader
  have [simp, intro]: "reflp R" "transp R"
    by (auto simp: R_def reflp_def transp_def)
  have take: "keeps R (rd_take n)" for n
    by (auto simp: keeps_def rd_take_def R_def split: option.splits)
  have arg: "keeps R (rd_argument i)" for i
    using take by (auto simp: rd_argument_def)
  have len: "keeps R (rd_length i)" for i
    using arg by (auto simp: rd_length_def)
  have count: "keeps R (rd_count i n)" for i n
    unfolding rd_count_def by (intro keeps_andthen keeps_ok_or len keepsI) (auto simp: R_def split: if_splits)
  have "keeps R (rd_decode first)"
    unfolding rd_decode_def Let_def
    by (cases "major_of first") (auto intro!: keeps_andthen keeps_if keeps_ret keeps_fail len take arg count)
  then show ?thesis
    by (simp add: R_def [abs_def])
qed


definition same_checks :: "reader \<Rightarrow> reader \<Rightarrow> bool" where
  "same_checks r r' \<longleftrightarrow> (checks_off r \<longrightarrow> checks_off r')"

lemma same_checks_preorder [simp, intro]: "reflp same_checks" "transp same_checks"
  by (auto simp: same_checks_def reflp_def transp_def)

lemma head_rest_checks_off: "keeps same_checks (head_rest srch k at first)"
proof -
  have decode: "keeps same_checks (rd_decode first)"
    using decode_keeps_checks [of first] by (auto simp: keeps_def same_checks_def checks_off_def)
  have noted: "keeps same_checks (note_key srch k at h)" for h
    by (rule keepsI) (auto simp: note_key_def same_checks_def checks_off_def split: if_splits option.splits)
  have nest: "keeps same_checks (on_nest m)" for m :: "(nest, cbor_error, unit) act"
    by (auto simp: keeps_def on_nest_def same_checks_def checks_off_def split: prod.splits)
  have opened: "keeps same_checks (open_head h)" for h
    by (rule keepsI)
      (auto simp: open_head_def on_nest_def same_checks_def checks_off_def
        split: head.splits option.splits prod.splits)
  show ?thesis
    unfolding head_rest_def
    by (intro keeps_andthen decode noted nest opened keeps_ret same_checks_preorder)
qed

lemma note_key_checks_off: "checks_off r \<Longrightarrow> note_key s k at h r = note_key s' k at h r"
  by (simp add: note_key_def checks_off_def split: option.splits)

lemma andthen_cong: "m s = (Inr x, t) \<Longrightarrow> f x t = g x t \<Longrightarrow> andthen m f s = andthen m g s"
  by (simp add: andthen_def)

lemma head_rest_cong: "checks_off r \<Longrightarrow> head_rest s k at first r = head_rest s' k at first r"
proof (cases "rd_decode first r")
  fix x r'
  assume off: "checks_off r" and decode: "rd_decode first r = (x, r')"
  then have "checks_off r'"
    using keepsD [OF decode_keeps_checks decode] by (simp add: checks_off_def)
  then have "note_key s k at h r' = note_key s' k at h r'" for h
    by (rule note_key_checks_off)
  then show ?thesis
    using decode by (cases x) (simp_all add: head_rest_def andthen_def)
qed

lemma head_with_checks_off:
  assumes "checks_off r"
  shows "head_with s r = head_with s' r"
    and "head_with s r = (x, r') \<Longrightarrow> checks_off r'"
proof -
  have off: "checks_off (r\<lparr>rd_next := n, rd_nest := m\<rparr>)" for n m
    using assms by (simp add: checks_off_def)
  have start: "(if rd_walking r then (Inr (), r) else settle_skipped_with s r) = (Inr (), r)" for s
    using assms by (simp add: settle_skipped_with_def checks_off_def)
  then have byte: "head_with s r = head_byte s (settle_nest r)" for s
    by (simp add: head_with_def)
  have next_off: "checks_off ((settle_nest r)\<lparr>rd_next := n\<rparr>)" for n
    using assms by (simp add: checks_off_def settle_nest_def)
  then show "head_with s r = head_with s' r"
    unfolding byte head_byte_def by (auto intro: head_rest_cong split: option.splits)
  show "checks_off r'" if "head_with s r = (x, r')"
    using that next_off assms keepsD [OF head_rest_checks_off]
    unfolding byte head_byte_def
    by (auto simp: same_checks_def checks_off_def settle_nest_def split: option.splits)
qed

lemma walk_loop_checks_off:
  "checks_off r \<Longrightarrow> walk_loop s floor r = walk_loop s' floor r \<and>
     (\<forall>x t. walk_loop s floor r = (x, t) \<longrightarrow> checks_off t)"
proof (induction s floor r rule: walk_loop.induct)
  case (1 s floor r)
  have off: "checks_off (settle_nest r)"
    using 1 by (simp add: checks_off_def)
  obtain y t where head: "head_with s (settle_nest r) = (y, t)"
    by fastforce
  then have head': "head_with s' (settle_nest r) = (y, t)" and "checks_off t"
    using head_with_checks_off [OF off] by metis+
  then show ?case
    using "1.IH" [OF refl _ head [symmetric]] head off
    by (cases y) (auto simp: walk_loop.simps [of _ floor r] Let_def)
qed

lemma skip_with_checks_off:
  assumes "checks_off r"
  shows "skip_with s r = skip_with s' r" and "skip_with s r = (x, t) \<Longrightarrow> checks_off t"
proof -
  let ?r = "settle_nest (r\<lparr>rd_skipped := rd_unsettled r, rd_unsettled := None, rd_walking := True\<rparr>)"
  have off: "checks_off ?r"
    using assms by (simp add: checks_off_def)
  obtain y u where head: "head_with s ?r = (y, u)" and u: "checks_off u"
    using head_with_checks_off(2) [OF off] by fastforce
  then have head': "head_with s' ?r = (y, u)"
    using head_with_checks_off(1) [OF off] by metis
  have start: "settle_skipped_with s r = (Inr (), r)" for s
    using assms by (simp add: settle_skipped_with_def checks_off_def)
  have loop: "walk_loop s floor u = walk_loop s' floor u"
    "walk_loop s floor u = (z, v) \<Longrightarrow> checks_off v" for floor z v
    using walk_loop_checks_off [OF u] by blast+
  show "skip_with s r = skip_with s' r"
    using head head' loop(1) by (cases y) (simp_all add: skip_with_def start walk_with_def Let_def)
  show "checks_off t" if "skip_with s r = (x, t)"
    using that head u loop(2)
    by (cases y) (auto simp: skip_with_def start walk_with_def Let_def checks_off_def split: prod.splits)
qed

text \<open>The loop of \<open>CborReader::search\<close> as the source writes it, over \<open>head\<close> and \<open>skip\<close>.\<close>

lemma search_loop_head:
  assumes "checks_off r"
  shows "search_loop key r =
     (if rd_next r < length (rd_bytes r) then
        (case head r of
           (Inl err, _) \<Rightarrow> Inl err
         | (Inr h, s) \<Rightarrow>
             (case key_of_head h of
                None \<Rightarrow> Inl KeyNotInteger
              | Some found \<Rightarrow>
                  if found = key then Inl RepeatedKey
                  else case skip s of
                         (Inl err, _) \<Rightarrow> Inl err
                       | (Inr _, t) \<Rightarrow> search_loop key t))
      else Inr ())"
proof -
  obtain x s where head: "head_with no_search r = (x, s)" and off: "checks_off s"
    using head_with_checks_off(2) [OF assms] by fastforce
  then have "head r = (x, s)"
    using head_with_checks_off(1) [OF assms] by (metis head_def)
  moreover have "skip_with no_search s = skip s"
    using skip_with_checks_off(1) [OF off] by (simp add: skip_def)
  ultimately show ?thesis
    using head by (cases x) (simp_all add: search_loop.simps [of key r] split: option.split)
qed

end
