(* ===== verification/Cbor_Writer.thy ===== *)
theory Cbor_Writer
  imports Cbor_Reader
begin

text \<open>
  \<open>CborWriter\<close> of \<open>crates/km43/src/cbor.rs\<close>, method by method, over the buffer it was
  given. The specification lemmas say what each method appends and what it does to the
  stack of open containers; \<open>refused\<close> says that a call that fails has written nothing.
\<close>

section \<open>The methods\<close>

record writer =
  wr_dst :: bytes
  wr_next :: nat
  wr_nest :: nest

type_synonym 'a writing = "(writer, cbor_error, 'a) act"

definition writer_over :: "bytes \<Rightarrow> writer" where
  "writer_over dst = \<lparr>wr_dst = dst, wr_next = 0, wr_nest = nest_new\<rparr>"

definition in_nest :: "(nest, cbor_error, 'a) act \<Rightarrow> 'a writing" where
  "in_nest m w = (case m (wr_nest w) of (x, n) \<Rightarrow> (x, w\<lparr>wr_nest := n\<rparr>))"

definition wr_reserve :: "nat \<Rightarrow> (nat \<times> nat) writing" where
  "wr_reserve len w =
     (case checked_add (wr_next w) len of
        None \<Rightarrow> (Inl CborDestinationTooSmall, w)
      | Some stop \<Rightarrow>
          if stop > length (wr_dst w) then (Inl CborDestinationTooSmall, w)
          else (Inr (wr_next w, stop), w\<lparr>wr_next := stop\<rparr>))"

definition wr_emit :: "bytes \<Rightarrow> unit writing" where
  "wr_emit data =
     andthen (wr_reserve (length data)) (\<lambda>(from, stop) w.
       (Inr (), w\<lparr>wr_dst := splice (wr_dst w) from data\<rparr>))"

definition wr_ensure :: "nat \<Rightarrow> unit writing" where
  "wr_ensure len w =
     (case checked_add (wr_next w) len of
        None \<Rightarrow> (Inl CborDestinationTooSmall, w)
      | Some stop \<Rightarrow>
          if stop > length (wr_dst w) then (Inl CborDestinationTooSmall, w) else (Inr (), w))"

definition wr_head :: "major \<Rightarrow> u64 \<Rightarrow> nat \<Rightarrow> unit writing" where
  "wr_head major argument payload =
     (let width = width_of argument; big_endian = be_bytes 8 argument; low = last big_endian
      in andthen (ok_or CborDestinationTooSmall (slice big_endian (8 - width_bytes width) 8)) (\<lambda>tail.
         andthen (ok_or CborDestinationTooSmall
                    (Option.bind (checked_add (length tail) 1) (\<lambda>n. checked_add n payload))) (\<lambda>total.
         andthen (wr_ensure total) (\<lambda>_.
         andthen (wr_emit [(push_bit 5 (major_bits major)) OR width_info width low]) (\<lambda>_.
         wr_emit tail)))))"

definition wr_open_item :: "unit writing" where
  "wr_open_item =
     andthen (modify (\<lambda>w. w\<lparr>wr_nest := settle (wr_nest w)\<rparr>)) (\<lambda>_ w.
       if at_key (wr_nest w) then (Inl MisplacedKey, w)
       else if depth (wr_nest w) = 0 \<and> wr_next w \<noteq> 0 then (Inl TrailingItem, w)
       else (Inr (), w))"

text \<open>\<open>u64::try_from\<close> of a length, which a \<open>u64\<close> always holds here.\<close>

definition len_argument :: "nat \<Rightarrow> u64 writing" where
  "len_argument len =
     (if len < 2 ^ 64 then ret (of_nat len) else fail CborDestinationTooSmall)"

definition need_room :: "unit writing" where
  "need_room w = (if has_room (wr_nest w) then (Inr (), w) else (Inl DepthExceeded, w))"

definition wr_array :: "nat \<Rightarrow> unit writing" where
  "wr_array len =
     andthen wr_open_item (\<lambda>_.
     andthen need_room (\<lambda>_.
     andthen (len_argument len) (\<lambda>n.
     andthen (wr_head Array n 0) (\<lambda>_.
     andthen (in_nest count_item) (\<lambda>_.
     in_nest (nest_push NArray len 0))))))"

definition wr_map :: "nat \<Rightarrow> unit writing" where
  "wr_map pairs =
     andthen wr_open_item (\<lambda>_.
     andthen need_room (\<lambda>_.
     andthen (ok_or CborDestinationTooSmall (checked_mul pairs 2)) (\<lambda>items.
     andthen (len_argument pairs) (\<lambda>n.
     andthen (wr_head Map n 0) (\<lambda>_.
     andthen (in_nest count_item) (\<lambda>_.
     in_nest (nest_push NMap items 0)))))))"

text \<open>The key is an \<open>i64\<close>, modelled as an \<open>int\<close> below \<open>2^63\<close>.\<close>

definition wr_key :: "int \<Rightarrow> unit writing" where
  "wr_key key =
     andthen (if 0 \<le> key then ret (of_int key) else fail IntegerOutOfRange) (\<lambda>k.
     andthen (modify (\<lambda>w. w\<lparr>wr_nest := settle (wr_nest w)\<rparr>)) (\<lambda>_.
     andthen (\<lambda>w. if at_key (wr_nest w) then (Inr (), w) else (Inl MisplacedKey, w)) (\<lambda>_.
     andthen (in_nest (take_key k)) (\<lambda>_.
     andthen (wr_head Unsigned k 0) (\<lambda>_.
     in_nest count_item)))))"

definition wr_u64 :: "u64 \<Rightarrow> unit writing" where
  "wr_u64 v =
     andthen wr_open_item (\<lambda>_. andthen (wr_head Unsigned v 0) (\<lambda>_. in_nest count_item))"

definition wr_i32 :: "int \<Rightarrow> unit writing" where
  "wr_i32 v =
     andthen wr_open_item (\<lambda>_.
       let magnitude = nat \<bar>v\<bar> in
       andthen (if v < 0 then wr_head Negative (of_nat (magnitude - 1)) 0
                else wr_head Unsigned (of_nat magnitude) 0) (\<lambda>_. in_nest count_item))"

definition wr_bool :: "bool \<Rightarrow> unit writing" where
  "wr_bool v =
     andthen wr_open_item (\<lambda>_.
     andthen (wr_head Simple (if v then 21 else 20) 0) (\<lambda>_. in_nest count_item))"

definition wr_byte_string :: "bytes \<Rightarrow> unit writing" where
  "wr_byte_string v =
     andthen wr_open_item (\<lambda>_.
     andthen (len_argument (length v)) (\<lambda>n.
     andthen (wr_head Bytes n (length v)) (\<lambda>_.
     andthen (wr_emit v) (\<lambda>_. in_nest count_item))))"

definition wr_bytes_to_fill :: "nat \<Rightarrow> (nat \<times> nat) writing" where
  "wr_bytes_to_fill len =
     andthen wr_open_item (\<lambda>_.
     andthen (len_argument len) (\<lambda>n.
     andthen (wr_head Bytes n len) (\<lambda>_.
     andthen (wr_reserve len) (\<lambda>(from, stop).
     andthen (modify (\<lambda>w. w\<lparr>wr_dst := splice (wr_dst w) from (replicate len 0)\<rparr>)) (\<lambda>_.
     andthen (in_nest count_item) (\<lambda>_. reads (\<lambda>w. (from, wr_next w))))))))"

definition wr_text :: "bytes \<Rightarrow> unit writing" where
  "wr_text v =
     andthen wr_open_item (\<lambda>_.
       if length v > MAX_STRING then fail StringTooLong
       else andthen (len_argument (length v)) (\<lambda>n.
            andthen (wr_head Text n (length v)) (\<lambda>_.
            andthen (wr_emit v) (\<lambda>_. in_nest count_item))))"

text \<open>\<open>raw\<close> walks the item with a reader of its own and asks how deep it went.\<close>

definition walk_item :: "bytes \<Rightarrow> cbor_error + nat" where
  "walk_item item =
     (case skip (reader_over item) of
        (Inl err, _) \<Rightarrow> Inl err
      | (Inr _, r) \<Rightarrow>
          (case rd_finish r of Inl err \<Rightarrow> Inl err | Inr _ \<Rightarrow> Inr (deepest (rd_nest r))))"

definition wr_raw :: "bytes \<Rightarrow> unit writing" where
  "wr_raw item =
     andthen wr_open_item (\<lambda>_.
     andthen (lift_sum (walk_item item)) (\<lambda>deep w.
       if saturating_add (depth (wr_nest w)) deep > NESTING then (Inl DepthExceeded, w)
       else andthen (wr_emit item) (\<lambda>_. in_nest count_item) w))"

definition wr_finish :: "writer \<Rightarrow> cbor_error + nat" where
  "wr_finish w = (if depth (settle (wr_nest w)) \<noteq> 0 then Inl Unfinished else Inr (wr_next w))"

section \<open>What a call appends\<close>

text \<open>The head the source writes: major type, argument in the shortest form.\<close>

definition head_bytes :: "major \<Rightarrow> u64 \<Rightarrow> bytes" where
  "head_bytes major argument =
     ((push_bit 5 (major_bits major)) OR width_info (width_of argument) (ucast argument)) #
     be_bytes (width_bytes (width_of argument)) argument"

definition put :: "bytes \<Rightarrow> writer \<Rightarrow> writer" where
  "put bs w = w\<lparr>wr_dst := splice (wr_dst w) (wr_next w) bs, wr_next := wr_next w + length bs\<rparr>"

definition writer_ok :: "writer \<Rightarrow> bool" where
  "writer_ok w \<longleftrightarrow> nest_ok (wr_nest w) \<and> wr_next w \<le> length (wr_dst w) \<and> length (wr_dst w) \<le> usize_max"

lemma length_head_bytes [simp]: "length (head_bytes m a) = Suc (width_bytes (width_of a))"
  by (simp add: head_bytes_def)

lemma width_bytes_le: "width_bytes w \<le> 8"
  by (cases w) auto

lemma be_bytes_drop: "n \<le> k \<Longrightarrow> drop (k - n) (be_bytes k x) = be_bytes n x"
proof (induction k)
  case (Suc k)
  then show ?case by (cases "n = Suc k") (auto simp: Suc_diff_le)
qed simp

lemma last_be_bytes: "last (be_bytes (Suc n) x) = ucast x"
  by (induction n) auto

lemma put_fields [simp]:
  "wr_nest (put bs w) = wr_nest w" "wr_next (put bs w) = wr_next w + length bs"
  "wr_dst (put bs w) = splice (wr_dst w) (wr_next w) bs"
  by (simp_all add: put_def)

lemma put_Nil [simp]: "put [] w = w"
  by (simp add: put_def)

lemma put_put: "wr_next w + length xs + length ys \<le> length (wr_dst w) \<Longrightarrow>
  put ys (put xs w) = put (xs @ ys) w"
  by (simp add: put_def splice_def drop_append ac_simps)

lemma emit_eq:
  assumes "writer_ok w"
  shows "wr_emit bs w = (if wr_next w + length bs \<le> length (wr_dst w)
     then (Inr (), put bs w) else (Inl CborDestinationTooSmall, w))"
  using assms
  by (auto simp: wr_emit_def wr_reserve_def andthen_def checked_add_def writer_ok_def put_def)

lemma put_ok: "writer_ok w \<Longrightarrow> wr_next w + length bs \<le> length (wr_dst w) \<Longrightarrow> writer_ok (put bs w)"
  by (simp add: writer_ok_def)

lemma ensure_eq:
  assumes "writer_ok w"
  shows "wr_ensure n w = (if wr_next w + n \<le> length (wr_dst w)
     then (Inr (), w) else (Inl CborDestinationTooSmall, w))"
  using assms by (auto simp: wr_ensure_def checked_add_def writer_ok_def)

lemma slice_be_bytes: "slice (be_bytes 8 a) (8 - width_bytes w) 8 = Some (be_bytes (width_bytes w) a)"
  using width_bytes_le [of w] by (simp add: slice_def be_bytes_drop)

lemma head_eq:
  assumes "writer_ok w"
  shows "wr_head major a payload w =
    (if wr_next w + length (head_bytes major a) + payload \<le> length (wr_dst w)
     then (Inr (), put (head_bytes major a) w) else (Inl CborDestinationTooSmall, w))"
proof -
  let ?n = "width_bytes (width_of a)"
  let ?b = "push_bit 5 (major_bits major) OR width_info (width_of a) (ucast a)"
  have low: "last (be_bytes 8 a) = ucast a"
    using last_be_bytes [of 7 a] by simp
  show ?thesis
  proof (cases "wr_next w + (Suc ?n + payload) \<le> length (wr_dst w)")
    case True
    then have one: "wr_emit [?b] w = (Inr (), put [?b] w)" and "writer_ok (put [?b] w)"
      using assms by (auto simp: emit_eq put_ok)
    then have "wr_emit (be_bytes ?n a) (put [?b] w) = (Inr (), put (?b # be_bytes ?n a) w)"
      using True by (simp add: emit_eq put_put)
    with True one assms show ?thesis
      by (simp add: wr_head_def Let_def slice_be_bytes low andthen_def ensure_eq writer_ok_def head_bytes_def)
  next
    case False
    then have "Option.bind (checked_add ?n 1) (\<lambda>n. checked_add n payload) = None \<or>
      Option.bind (checked_add ?n 1) (\<lambda>n. checked_add n payload) = Some (Suc ?n + payload)"
      by (auto simp: checked_add_def)
    with False assms show ?thesis
      by (auto simp: wr_head_def Let_def slice_be_bytes low andthen_def ensure_eq)
  qed
qed


section \<open>Calls that write one item\<close>

text \<open>\<open>m\<close> appends \<open>bs\<close> if there is room for all of it and otherwise touches nothing.\<close>

definition emits :: "unit writing \<Rightarrow> bytes \<Rightarrow> bool" where
  "emits m bs \<longleftrightarrow> (\<forall>w. writer_ok w \<longrightarrow> m w =
     (if wr_next w + length bs \<le> length (wr_dst w) then (Inr (), put bs w)
      else (Inl CborDestinationTooSmall, w)))"

lemma emits_emit: "emits (wr_emit bs) bs"
  by (simp add: emits_def emit_eq)

lemma emits_head: "emits (wr_head m a 0) (head_bytes m a)"
  by (simp add: emits_def head_eq)

lemma emits_head_payload: "emits (andthen (wr_head m a (length v)) (\<lambda>_. wr_emit v)) (head_bytes m a @ v)"
  by (auto simp: emits_def head_eq andthen_def emit_eq put_ok put_put)

lemma emits_if: "emits m bs \<Longrightarrow> emits n cs \<Longrightarrow> emits (if b then m else n) (if b then bs else cs)"
  by simp

definition settled :: "writer \<Rightarrow> writer" where
  "settled w = w\<lparr>wr_nest := settle (wr_nest w)\<rparr>"

definition counted :: "writer \<Rightarrow> writer" where
  "counted w = snd (in_nest count_item w)"

lemma settled_fields [simp]:
  "wr_dst (settled w) = wr_dst w" "wr_next (settled w) = wr_next w"
  "wr_nest (settled w) = settle (wr_nest w)"
  by (simp_all add: settled_def)

lemma settled_ok [simp]: "writer_ok w \<Longrightarrow> writer_ok (settled w)"
  by (simp add: writer_ok_def)

lemma counted_eq:
  assumes "writer_ok w"
  shows "in_nest count_item w = (Inr (), counted w)" and "writer_ok (counted w)"
    and "wr_dst (counted w) = wr_dst w" and "wr_next (counted w) = wr_next w"
    and "levels (wr_nest (counted w)) = count_levels (levels (wr_nest w))"
proof -
  obtain n where "count_item (wr_nest w) = (Inr (), n)" "nest_ok n"
    "levels n = count_levels (levels (wr_nest w))"
    using count_item_levels [of "wr_nest w"] assms by (auto simp: writer_ok_def)
  then show "in_nest count_item w = (Inr (), counted w)" "writer_ok (counted w)"
    "wr_dst (counted w) = wr_dst w" "wr_next (counted w) = wr_next w"
    "levels (wr_nest (counted w)) = count_levels (levels (wr_nest w))"
    using assms by (auto simp: in_nest_def counted_def writer_ok_def)
qed

definition item_refusal :: "writer \<Rightarrow> cbor_error option" where
  "item_refusal w =
     (if at_key (settle (wr_nest w)) then Some MisplacedKey
      else if depth (settle (wr_nest w)) = 0 \<and> wr_next w \<noteq> 0 then Some TrailingItem
      else None)"

lemma open_item_eq:
  "wr_open_item w = (case item_refusal w of Some err \<Rightarrow> (Inl err, settled w) | None \<Rightarrow> (Inr (), settled w))"
  by (simp add: wr_open_item_def item_refusal_def settled_def)

lemma value_call:
  assumes "emits m bs" and "writer_ok w"
  shows "andthen wr_open_item (\<lambda>_. andthen m (\<lambda>_. in_nest count_item)) w =
    (case item_refusal w of
       Some err \<Rightarrow> (Inl err, settled w)
     | None \<Rightarrow> if wr_next w + length bs \<le> length (wr_dst w) then (Inr (), counted (put bs (settled w)))
               else (Inl CborDestinationTooSmall, settled w))"
proof -
  have "m (settled w) = (if wr_next w + length bs \<le> length (wr_dst w) then (Inr (), put bs (settled w))
      else (Inl CborDestinationTooSmall, settled w))"
    using assms by (simp add: emits_def)
  moreover have "in_nest count_item (put bs (settled w)) = (Inr (), counted (put bs (settled w)))"
    if "wr_next w + length bs \<le> length (wr_dst w)"
    using that assms(2) by (intro counted_eq(1) put_ok) auto
  ultimately show ?thesis
    by (auto simp: andthen_def open_item_eq split: option.splits)
qed

text \<open>The calls of this shape, each with the bytes it appends.\<close>

definition appends :: "unit writing \<Rightarrow> bytes \<Rightarrow> bool" where
  "appends m bs \<longleftrightarrow> (\<exists>body. emits body bs \<and> m = andthen wr_open_item (\<lambda>_. andthen body (\<lambda>_. in_nest count_item)))"

lemma appendsI: "emits body bs \<Longrightarrow> appends (andthen wr_open_item (\<lambda>_. andthen body (\<lambda>_. in_nest count_item))) bs"
  by (auto simp: appends_def)

lemma len_argument_small [simp]: "len < 2 ^ 64 \<Longrightarrow> len_argument len = ret (of_nat len)"
  by (simp add: len_argument_def)

lemma len_argument_big [simp]: "\<not> len < 2 ^ 64 \<Longrightarrow> len_argument len = fail CborDestinationTooSmall"
  by (simp add: len_argument_def)

definition i32_bytes :: "int \<Rightarrow> bytes" where
  "i32_bytes v = (if v < 0 then head_bytes Negative (of_nat (nat (- v) - 1))
                  else head_bytes Unsigned (of_nat (nat v)))"

lemma appends_u64: "appends (wr_u64 v) (head_bytes Unsigned v)"
  unfolding wr_u64_def by (intro appendsI emits_head)

lemma appends_i32: "appends (wr_i32 v) (i32_bytes v)"
proof -
  have "wr_i32 v = andthen wr_open_item (\<lambda>_. andthen
    (if v < 0 then wr_head Negative (of_nat (nat (- v) - 1)) 0 else wr_head Unsigned (of_nat (nat v)) 0)
    (\<lambda>_. in_nest count_item))"
    by (simp add: wr_i32_def Let_def)
  then show ?thesis
    unfolding i32_bytes_def by (auto intro!: appendsI emits_if emits_head)
qed

lemma appends_bool: "appends (wr_bool v) (head_bytes Simple (if v then 21 else 20))"
  unfolding wr_bool_def by (intro appendsI emits_head)

lemma appends_byte_string:
  assumes "length v < 2 ^ 64"
  shows "appends (wr_byte_string v) (head_bytes Bytes (of_nat (length v)) @ v)"
  using appendsI [OF emits_head_payload [of Bytes "of_nat (length v)" v]] assms
  by (simp add: wr_byte_string_def andthen_assoc)

lemma appends_text:
  assumes "length v \<le> MAX_STRING"
  shows "appends (wr_text v) (head_bytes Text (of_nat (length v)) @ v)"
proof -
  have "wr_text v = andthen wr_open_item (\<lambda>_. andthen (wr_head Text (of_nat (length v)) (length v))
     (\<lambda>_. andthen (wr_emit v) (\<lambda>_. in_nest count_item)))"
    using assms by (simp add: wr_text_def MAX_STRING_def)
  then show ?thesis
    using appendsI [OF emits_head_payload [of Text "of_nat (length v)" v]] by (simp add: andthen_assoc)
qed

section \<open>A refused call writes nothing\<close>

definition refusing :: "'a writing \<Rightarrow> bool" where
  "refusing m \<longleftrightarrow> (\<forall>w x w'. writer_ok w \<longrightarrow> m w = (x, w') \<longrightarrow> writer_ok w' \<and>
     (\<forall>err. x = Inl err \<longrightarrow> wr_dst w' = wr_dst w \<and> wr_next w' = wr_next w))"

lemma refusingI:
  "(\<And>w x w'. writer_ok w \<Longrightarrow> m w = (x, w') \<Longrightarrow>
     writer_ok w' \<and> (\<forall>err. x = Inl err \<longrightarrow> wr_dst w' = wr_dst w \<and> wr_next w' = wr_next w)) \<Longrightarrow> refusing m"
  unfolding refusing_def by blast

lemma refusingD:
  assumes "refusing m" and "writer_ok w" and "m w = (x, w')"
  shows "writer_ok w'" and "x = Inl err \<Longrightarrow> wr_dst w' = wr_dst w" and "x = Inl err \<Longrightarrow> wr_next w' = wr_next w"
  using assms unfolding refusing_def by blast+

lemma appends_refusing: "appends m bs \<Longrightarrow> refusing m"
  unfolding appends_def refusing_def
  by (auto simp: value_call counted_eq put_ok split: option.splits if_splits)

text \<open>A call that neither writes nor changes what the writer is, before one that refuses.\<close>

definition quiet :: "'a writing \<Rightarrow> bool" where
  "quiet m \<longleftrightarrow> (\<forall>w x w'. writer_ok w \<longrightarrow> m w = (x, w') \<longrightarrow>
     writer_ok w' \<and> wr_dst w' = wr_dst w \<and> wr_next w' = wr_next w)"

lemma quiet_andthen [intro]:
  assumes "quiet m" and "\<And>x. refusing (f x)"
  shows "refusing (andthen m f)"
  unfolding refusing_def
proof (intro allI impI)
  fix w x w'
  assume ok: "writer_ok w" and run: "andthen m f w = (x, w')"
  obtain y u where m: "m w = (y, u)"
    by fastforce
  then have u: "writer_ok u" "wr_dst u = wr_dst w" "wr_next u = wr_next w"
    using assms(1) ok unfolding quiet_def by blast+
  show "writer_ok w' \<and> (\<forall>err. x = Inl err \<longrightarrow> wr_dst w' = wr_dst w \<and> wr_next w' = wr_next w)"
  proof (cases y)
    case (Inl err)
    then show ?thesis
      using run m u by auto
  next
    case (Inr a)
    then have "f a u = (x, w')"
      using run m by simp
    then show ?thesis
      using assms(2) [of a] u(1) unfolding refusing_def u(2) [symmetric] u(3) [symmetric] by blast
  qed
qed

lemma quiet_refusing [intro]: "quiet m \<Longrightarrow> refusing m"
  unfolding quiet_def refusing_def by blast

lemma quiet_simple [intro]:
  "quiet wr_open_item" "quiet need_room" "quiet (ok_or err x)" "quiet (len_argument n)"
  "quiet (lift_sum y)" "quiet (fail err)" "quiet (ret z)"
  by (auto simp: quiet_def open_item_eq need_room_def len_argument_def ok_or_def
      split: option.splits if_splits)

lemma quiet_in_nest: "(\<And>n x n'. nest_ok n \<Longrightarrow> m n = (x, n') \<Longrightarrow> nest_ok n') \<Longrightarrow> quiet (in_nest m)"
  by (auto simp: quiet_def in_nest_def writer_ok_def split: prod.splits)

text \<open>Opening a container: the room on the stack is asked for before the head is written.\<close>

lemma push_after_count:
  assumes "writer_ok w" and "has_room (wr_nest w)"
  shows "\<exists>w'. andthen (in_nest count_item) (\<lambda>_. in_nest (nest_push k items 0)) w = (Inr (), w') \<and>
     writer_ok w' \<and> wr_dst w' = wr_dst w \<and> wr_next w' = wr_next w \<and>
     levels (wr_nest w') = (k, items, None) # count_levels (levels (wr_nest w))"
proof -
  have "length (levels (wr_nest (counted w))) = length (levels (wr_nest w))"
    using counted_eq(5) [OF assms(1)] by (cases "levels (wr_nest w)") auto
  then have "length (levels (wr_nest (counted w))) < NESTING"
    using assms by (simp add: has_room_def writer_ok_def length_levels nest_ok_def)
  moreover have "nest_ok (wr_nest (counted w))"
    using counted_eq(2) [OF assms(1)] by (simp add: writer_ok_def)
  ultimately obtain n where "nest_push k items 0 (wr_nest (counted w)) = (Inr (), n)" "nest_ok n"
    "levels n = (k, items, None) # levels (wr_nest (counted w))"
    using nest_push_levels [of "wr_nest (counted w)" k items 0] by blast
  then show ?thesis
    using counted_eq [OF assms(1)] assms(1)
    by (auto simp: andthen_def in_nest_def [of "nest_push _ _ _"] writer_ok_def)
qed

lemma container_refusing:
  "refusing (andthen need_room (\<lambda>_. andthen (wr_head m a 0) (\<lambda>_.
     andthen (in_nest count_item) (\<lambda>_. in_nest (nest_push k items 0)))))"
  unfolding refusing_def
proof (intro allI impI)
  fix w x w'
  assume ok: "writer_ok w"
    and run: "andthen need_room (\<lambda>_. andthen (wr_head m a 0) (\<lambda>_.
      andthen (in_nest count_item) (\<lambda>_. in_nest (nest_push k items 0)))) w = (x, w')"
  let ?bs = "head_bytes m a"
  show "writer_ok w' \<and> (\<forall>err. x = Inl err \<longrightarrow> wr_dst w' = wr_dst w \<and> wr_next w' = wr_next w)"
  proof (cases "has_room (wr_nest w) \<and> wr_next w + length ?bs \<le> length (wr_dst w)")
    case True
    then have "writer_ok (put ?bs w)" "has_room (wr_nest (put ?bs w))"
      using ok by (auto intro: put_ok)
    from push_after_count [OF this, of k items] True run ok show ?thesis
      by (auto simp: need_room_def head_eq andthen_def [of need_room] andthen_def [of "wr_head _ _ _"])
  next
    case False
    then show ?thesis
      using run ok by (auto simp: need_room_def head_eq andthen_def split: if_splits)
  qed
qed


lemma emits_count:
  assumes "emits m bs" and "writer_ok w"
  shows "andthen m (\<lambda>_. in_nest count_item) w =
    (if wr_next w + length bs \<le> length (wr_dst w) then (Inr (), counted (put bs w))
     else (Inl CborDestinationTooSmall, w))"
  using assms by (auto simp: andthen_def emits_def counted_eq(1) put_ok)

lemma emits_count_refusing: "emits m bs \<Longrightarrow> refusing (andthen m (\<lambda>_. in_nest count_item))"
  by (auto simp: refusing_def emits_count counted_eq put_ok split: if_splits)

lemma take_key_ok: "nest_ok n \<Longrightarrow> take_key k n = (x, n') \<Longrightarrow> nest_ok n'"
  by (auto simp: take_key_def Let_def nest_ok_def split: if_splits option.splits)

lemma refusing_array: "refusing (wr_array len)"
proof (cases "len < 2 ^ 64")
  case True
  then show ?thesis
    unfolding wr_array_def using container_refusing by (auto intro: quiet_andthen)
next
  case False
  then show ?thesis
    unfolding wr_array_def by (auto intro!: quiet_andthen)
qed

lemma refusing_map: "refusing (wr_map len)"
proof (cases "checked_mul len 2")
  case None
  then show ?thesis
    unfolding wr_map_def by (auto intro!: quiet_andthen)
next
  case (Some items)
  then have "len < 2 ^ 64"
    by (auto simp: checked_mul_def usize_max_def split: if_splits)
  with Some show ?thesis
    unfolding wr_map_def using container_refusing by (auto intro: quiet_andthen)
qed

lemma refusing_key: "refusing (wr_key k)"
proof -
  have quiets: "quiet (modify (\<lambda>w. w\<lparr>wr_nest := settle (wr_nest w)\<rparr>))"
    "quiet (\<lambda>w. if at_key (wr_nest w) then (Inr (), w) else (Inl MisplacedKey, w))"
    "quiet (if 0 \<le> k then ret (of_int k :: u64) else fail IntegerOutOfRange)"
    by (auto simp: quiet_def writer_ok_def split: if_splits)
  have key: "quiet (in_nest (take_key j))" for j
    using take_key_ok by (rule quiet_in_nest)
  have tail: "refusing (andthen (wr_head Unsigned j 0) (\<lambda>_. in_nest count_item))" for j
    by (rule emits_count_refusing [OF emits_head])
  show ?thesis
    unfolding wr_key_def
    by (rule quiet_andthen, fact, rule quiet_andthen, fact, rule quiet_andthen, fact,
        rule quiet_andthen, fact, fact)
qed

lemma refusing_byte_string: "refusing (wr_byte_string v)"
proof (cases "length v < 2 ^ 64")
  case True
  show ?thesis
    by (rule appends_refusing [OF appends_byte_string [OF True]])
next
  case False
  then show ?thesis
    unfolding wr_byte_string_def by (auto intro!: quiet_andthen)
qed

lemma refusing_text: "refusing (wr_text v)"
proof (cases "length v \<le> MAX_STRING")
  case True
  show ?thesis
    by (rule appends_refusing [OF appends_text [OF True]])
next
  case False
  then have "wr_text v = andthen wr_open_item (\<lambda>_. fail StringTooLong)"
    by (simp add: wr_text_def)
  then show ?thesis
    by (auto intro: quiet_andthen)
qed

lemma refusing_raw: "refusing (wr_raw item)"
proof -
  have tail: "refusing (\<lambda>w. if saturating_add (depth (wr_nest w)) deep > NESTING then (Inl DepthExceeded, w)
       else andthen (wr_emit item) (\<lambda>_. in_nest count_item) w)" for deep
  proof (rule refusingI)
    fix w x w'
    assume ok: "writer_ok w"
      and run: "(if saturating_add (depth (wr_nest w)) deep > NESTING then (Inl DepthExceeded, w)
        else andthen (wr_emit item) (\<lambda>_. in_nest count_item) w) = (x, w')"
    show "writer_ok w' \<and> (\<forall>err. x = Inl err \<longrightarrow> wr_dst w' = wr_dst w \<and> wr_next w' = wr_next w)"
    proof (cases "saturating_add (depth (wr_nest w)) deep > NESTING")
      case True
      with run ok show ?thesis by auto
    next
      case False
      with run have "andthen (wr_emit item) (\<lambda>_. in_nest count_item) w = (x, w')"
        by simp
      from refusingD [OF emits_count_refusing [OF emits_emit [of item]] ok this] show ?thesis
        by blast
    qed
  qed
  show ?thesis
    unfolding wr_raw_def
    by (rule quiet_andthen, rule quiet_simple, rule quiet_andthen, rule quiet_simple, fact)
qed

lemma fill_eq:
  assumes "writer_ok w"
  shows "andthen (wr_head m a len) (\<lambda>_. andthen (wr_reserve len) (\<lambda>(from, stop).
     andthen (modify (\<lambda>w. w\<lparr>wr_dst := splice (wr_dst w) from (replicate len 0)\<rparr>)) (\<lambda>_.
     andthen (in_nest count_item) (\<lambda>_. reads (\<lambda>w. (from, wr_next w)))))) w =
   (if wr_next w + length (head_bytes m a) + len \<le> length (wr_dst w)
    then (Inr (wr_next w + length (head_bytes m a), wr_next w + length (head_bytes m a) + len),
          counted (put (head_bytes m a @ replicate len 0) w))
    else (Inl CborDestinationTooSmall, w))"
proof (cases "wr_next w + length (head_bytes m a) + len \<le> length (wr_dst w)")
  case True
  let ?w = "put (head_bytes m a) w" and ?v = "put (head_bytes m a @ replicate len 0) w"
  have w: "writer_ok ?w" "writer_ok ?v"
    using True assms by (auto intro!: put_ok)
  have reserve: "wr_reserve len ?w = (Inr (wr_next ?w, wr_next ?w + len), ?w\<lparr>wr_next := wr_next ?w + len\<rparr>)"
    using True w(1) by (auto simp: wr_reserve_def checked_add_def writer_ok_def)
  have "?w\<lparr>wr_next := wr_next ?w + len, wr_dst := splice (wr_dst ?w) (wr_next ?w) (replicate len 0)\<rparr> =
        put (replicate len 0) ?w"
    by (simp add: put_def)
  also have "\<dots> = ?v"
    using True by (intro put_put) auto
  finally have filled: "?w\<lparr>wr_next := wr_next ?w + len,
      wr_dst := splice (wr_dst ?w) (wr_next ?w) (replicate len 0)\<rparr> = ?v" .
  have head: "wr_head m a len w = (Inr (), ?w)"
    using True assms by (simp add: head_eq)
  show ?thesis
    using True head reserve filled counted_eq(1,4) [OF w(2)] put_fields(2)
    by (simp add: andthen_def del: put_fields(3))
qed (use assms in \<open>simp add: head_eq andthen_def\<close>)

lemma refusing_bytes_to_fill: "refusing (wr_bytes_to_fill len)"
proof (cases "len < 2 ^ 64")
  case True
  have tail: "refusing (andthen (wr_head Bytes (of_nat len) len) (\<lambda>_. andthen (wr_reserve len) (\<lambda>(from, stop).
     andthen (modify (\<lambda>w. w\<lparr>wr_dst := splice (wr_dst w) from (replicate len 0)\<rparr>)) (\<lambda>_.
     andthen (in_nest count_item) (\<lambda>_. reads (\<lambda>w. (from, wr_next w)))))))"
    by (auto simp: refusing_def fill_eq counted_eq put_ok split: if_splits)
  show ?thesis
    unfolding wr_bytes_to_fill_def len_argument_small [OF True] andthen_ret
    by (rule quiet_andthen, rule quiet_simple, fact)
next
  case False
  then show ?thesis
    unfolding wr_bytes_to_fill_def by (auto intro!: quiet_andthen)
qed

end
