(* ===== verification/Cbor_Wire.thy ===== *)
theory Cbor_Wire
  imports Cbor_Writer
begin

text \<open>
  Writer against reader. \<open>item_bytes\<close> are the bytes of one head; the reader gives back the
  head the writer wrote. \<open>reading\<close> and \<open>writing\<close> say where a reader and a writer
  stand (the containers still open and the bytes ahead or behind), and the rules of
  \<open>wire_rules\<close> step a call from one such place to the next: what the message bodies are
  verified with.
\<close>

named_theorems wire_rules

section \<open>Runs\<close>

definition runs :: "('s, 'e, 'a) act \<Rightarrow> 's \<Rightarrow> ('a \<Rightarrow> 's \<Rightarrow> bool) \<Rightarrow> bool" where
  "runs m s Q \<longleftrightarrow> (\<exists>x t. m s = (Inr x, t) \<and> Q x t)"

lemma runsI: "m s = (Inr x, t) \<Longrightarrow> Q x t \<Longrightarrow> runs m s Q"
  by (auto simp: runs_def)

lemma runs_andthen: "runs m s (\<lambda>x t. runs (f x) t Q) \<Longrightarrow> runs (andthen m f) s Q"
  by (auto simp: runs_def)

lemma runs_ret [simp]: "runs (ret x) s Q \<longleftrightarrow> Q x s"
  by (simp add: runs_def)

lemma runs_modify [simp]: "runs (modify f) s Q \<longleftrightarrow> Q () (f s)"
  by (simp add: runs_def)

lemma runs_reads [simp]: "runs (reads f) s Q \<longleftrightarrow> Q (f s) s"
  by (simp add: runs_def)

lemma runs_ok_or [simp]: "runs (ok_or e (Some x)) s Q \<longleftrightarrow> Q x s"
  by (simp add: runs_def)

lemma runs_lift_sum [simp]: "runs (lift_sum (Inr x)) s Q \<longleftrightarrow> Q x s"
  by (simp add: runs_def)

lemma runs_map_err: "runs m s Q \<Longrightarrow> runs (map_err g m) s Q"
  by (auto simp: runs_def map_err_def)

lemma runs_weaken: "runs m s P \<Longrightarrow> (\<And>x t. P x t \<Longrightarrow> Q x t) \<Longrightarrow> runs m s Q"
  by (auto simp: runs_def)

section \<open>Heads\<close>

fun item_bytes :: "head \<Rightarrow> bytes" where
  "item_bytes (HUnsigned a) = head_bytes Unsigned a"
| "item_bytes (HNegative a) = head_bytes Negative a"
| "item_bytes (HBytes v) = head_bytes Bytes (of_nat (length v)) @ v"
| "item_bytes (HText v) = head_bytes Text (of_nat (length v)) @ v"
| "item_bytes (HArray n) = head_bytes Array (of_nat n)"
| "item_bytes (HMap n) = head_bytes Map (of_nat n)"
| "item_bytes (HBool b) = head_bytes Simple (if b then 21 else 20)"

text \<open>A head a reader with \<open>left\<close> bytes behind it accepts.\<close>

fun head_ok :: "head \<Rightarrow> nat \<Rightarrow> bool" where
  "head_ok (HBytes v) left \<longleftrightarrow> length v \<le> usize_max"
| "head_ok (HText v) left \<longleftrightarrow> length v \<le> MAX_STRING \<and> utf8 v"
| "head_ok (HArray n) left \<longleftrightarrow> n \<le> left \<and> n \<le> usize_max"
| "head_ok (HMap n) left \<longleftrightarrow> 2 * n \<le> left \<and> 2 * n \<le> usize_max"
| "head_ok _ left \<longleftrightarrow> True"

lemma bit_small_u8: "(i :: u8) < 32 \<Longrightarrow> bit i n \<Longrightarrow> n < 5"
proof -
  assume "i < 32" and "bit i n"
  then have "i AND mask 5 = i"
    by (intro less_mask_eq) simp
  with \<open>bit i n\<close> have "bit (i AND mask 5) n"
    by simp
  then show "n < 5"
    by (simp add: bit_and_iff bit_mask_iff)
qed

lemma head_byte_split:
  assumes "b < 8" and "i < 32"
  shows "drop_bit 5 (push_bit 5 b OR i) = (b :: u8)" and "(push_bit 5 b OR i) AND 0x1F = i"
proof -
  have b: "bit b n \<Longrightarrow> n < 3" for n
  proof -
    assume "bit b n"
    have "b AND mask 3 = b"
      using assms(1) by (intro less_mask_eq) simp
    with \<open>bit b n\<close> have "bit (b AND mask 3) n"
      by simp
    then show "n < 3"
      by (simp add: bit_and_iff bit_mask_iff)
  qed
  have i: "\<not> bit i (n + 5)" for n
    using bit_small_u8 [OF assms(2), of "n + 5"] by auto
  show "drop_bit 5 (push_bit 5 b OR i) = b"
  proof (rule bit_word_eqI)
    fix n
    assume "n < LENGTH(8)"
    then show "bit (drop_bit 5 (push_bit 5 b OR i)) n = bit b n"
      using b [of n] i [of n]
      by (auto simp: bit_drop_bit_eq bit_or_iff bit_push_bit_iff possible_bit_word add.commute)
  qed
  have mask: "(0x1F :: u8) = mask 5"
    by (simp add: mask_eq_exp_minus_1)
  show "(push_bit 5 b OR i) AND 0x1F = i"
    unfolding mask
  proof (rule bit_word_eqI)
    fix n
    assume "n < LENGTH(8)"
    then show "bit ((push_bit 5 b OR i) AND mask 5) n = bit i n"
      using bit_small_u8 [OF assms(2), of n]
      by (auto simp: bit_and_iff bit_or_iff bit_push_bit_iff bit_mask_iff possible_bit_word)
  qed
qed

lemma major_bits_less: "major_bits m < 8"
  by (cases m) auto

lemma ucast_small: "a < 24 \<Longrightarrow> unat (ucast (a :: u64) :: u8) = unat a"
  by (simp add: word_less_nat_alt unsigned_ucast_eq take_bit_nat_eq_self)

lemma width_info_less: "width_info (width_of a) (ucast a) < 32"
  using ucast_small [of a] by (auto simp: width_of_def word_less_nat_alt)

lemma hd_head_bytes:
  "major_of (hd (head_bytes m a)) = m"
  "hd (head_bytes m a) AND 0x1F = width_info (width_of a) (ucast a)"
  using head_byte_split [OF major_bits_less width_info_less, of m a]
  by (cases m; simp add: head_bytes_def major_of_def Let_def)+

lemma tl_head_bytes: "List.tl (head_bytes m a) = be_bytes (width_bytes (width_of a)) a"
  by (simp add: head_bytes_def)

lemma head_bytes_append:
  "hd (head_bytes m a @ v) = hd (head_bytes m a)"
  "List.tl (head_bytes m a @ v) = be_bytes (width_bytes (width_of a)) a @ v"
  by (simp_all add: head_bytes_def)

section \<open>What a reader has ahead\<close>

definition ahead :: "reader \<Rightarrow> bytes \<Rightarrow> bool" where
  "ahead r xs \<longleftrightarrow> drop (rd_next r) (rd_bytes r) = xs \<and> rd_next r \<le> length (rd_bytes r) \<and>
     length (rd_bytes r) \<le> usize_max"

definition past :: "nat \<Rightarrow> reader \<Rightarrow> reader" where
  "past n r = r\<lparr>rd_next := rd_next r + n\<rparr>"

lemma past_0 [simp]: "past 0 r = r"
  by (simp add: past_def)

lemma past_past [simp]: "past m (past n r) = past (n + m) r"
  by (simp add: past_def ac_simps)

lemma ahead_length: "ahead r xs \<Longrightarrow> length xs = length (rd_bytes r) - rd_next r \<and> rd_next r + length xs \<le> usize_max"
  by (auto simp: ahead_def)

lemma ahead_past: "ahead r (ys @ xs) \<Longrightarrow> ahead (past (length ys) r) xs"
  using ahead_length [of r "ys @ xs"]
  by (auto simp: ahead_def past_def) (metis add.commute append_eq_conv_conj drop_drop)

lemma take_ahead: "ahead r (ys @ xs) \<Longrightarrow> rd_take (length ys) r = (Inr ys, past (length ys) r)"
  using ahead_length [of r "ys @ xs"] slice_drop [of "rd_next r" "rd_bytes r" ys xs]
  by (auto simp: rd_take_def ahead_def past_def checked_add_def)

lemma width_bytes_bound: "unat a < 2 ^ (8 * width_bytes (width_of a)) \<or> width_of a = Inline"
  using unat_u64 [of a] by (auto simp: width_of_def word_less_nat_alt word_le_nat_alt not_less not_le)

lemma argument_ahead:
  assumes "ahead r (be_bytes (width_bytes (width_of a)) a @ xs)"
  shows "rd_argument (width_info (width_of a) (ucast a)) r = (Inr a, past (width_bytes (width_of a)) r)"
proof (cases "width_of a")
  case Inline
  then have a: "a < 24"
    by (auto simp: width_of_def split: if_splits)
  then have "(ucast a :: u8) \<le> 23"
    using ucast_small [OF a] by (simp add: word_le_nat_alt word_less_nat_alt)
  moreover have "ucast (ucast a :: u8) = a"
  proof -
    have "a < 2 ^ 8"
      using a by (simp add: word_less_nat_alt)
    then have "take_bit 8 a = a"
      by (simp only: take_bit_eq_mask less_mask_eq)
    then show ?thesis
      by (simp add: word_unat_eq_iff unsigned_ucast_eq)
  qed
  ultimately show ?thesis
    using Inline by (simp add: rd_argument_def)
next
  case One
  then show ?thesis
    using take_ahead [OF assms] be_fold_inverse [of 1 a] width_bytes_bound [of a]
    by (simp add: rd_argument_def andthen_def)
next
  case Two
  then show ?thesis
    using take_ahead [OF assms] be_fold_inverse [of 2 a] width_bytes_bound [of a]
    by (simp add: rd_argument_def andthen_def)
next
  case Four
  then show ?thesis
    using take_ahead [OF assms] be_fold_inverse [of 4 a] width_bytes_bound [of a]
    by (simp add: rd_argument_def andthen_def)
next
  case Eight
  then show ?thesis
    using take_ahead [OF assms] be_fold_inverse [of 8 a] width_bytes_bound [of a]
    by (simp add: rd_argument_def andthen_def)
qed


lemma length_ahead_le: "ahead r (ys @ xs) \<Longrightarrow> length ys \<le> usize_max \<and> length xs \<le> usize_max"
  using ahead_length [of r "ys @ xs"] by auto

lemma usize_u64: "n \<le> usize_max \<Longrightarrow> unat (of_nat n :: u64) = n"
  by (simp add: usize_max_def unat_of_nat)

lemma length_argument_ahead:
  assumes "ahead r (be_bytes (width_bytes (width_of (of_nat n))) (of_nat n :: u64) @ xs)" and "n \<le> usize_max"
  shows "rd_length (width_info (width_of (of_nat n)) (ucast (of_nat n :: u64))) r =
    (Inr n, past (width_bytes (width_of (of_nat n))) r)"
  using argument_ahead [OF assms(1)] assms(2) by (simp add: rd_length_def andthen_def usize_u64)

lemma count_ahead:
  assumes "ahead r (be_bytes (width_bytes (width_of (of_nat n))) (of_nat n :: u64) @ xs)"
    and "n * k \<le> length xs" and "n \<le> usize_max"
  shows "rd_count (width_info (width_of (of_nat n)) (ucast (of_nat n :: u64))) k r =
    (Inr n, past (width_bytes (width_of (of_nat n))) r)"
proof -
  have "n * k \<le> usize_max"
    using length_ahead_le [OF assms(1)] assms(2) by simp
  moreover have "ahead (past (width_bytes (width_of (of_nat n :: u64))) r) xs"
    using ahead_past [OF assms(1)] by simp
  ultimately show ?thesis
    using length_argument_ahead [OF assms(1,3)] assms(2)
    by (auto simp: rd_count_def andthen_def dest!: ahead_length)
qed

lemma string_ahead:
  assumes "ahead r (be_bytes (width_bytes (width_of (of_nat (length v)))) (of_nat (length v) :: u64) @ v @ xs)"
    and "length v \<le> usize_max"
  shows "rd_length (width_info (width_of (of_nat (length v))) (ucast (of_nat (length v) :: u64))) r =
      (Inr (length v), past (width_bytes (width_of (of_nat (length v) :: u64))) r)"
    and "rd_take (length v) (past (width_bytes (width_of (of_nat (length v) :: u64))) r) =
      (Inr v, past (width_bytes (width_of (of_nat (length v) :: u64)) + length v) r)"
proof -
  show "rd_length (width_info (width_of (of_nat (length v))) (ucast (of_nat (length v) :: u64))) r =
      (Inr (length v), past (width_bytes (width_of (of_nat (length v) :: u64))) r)"
    using assms by (rule length_argument_ahead)
  have "ahead (past (width_bytes (width_of (of_nat (length v) :: u64))) r) (v @ xs)"
    using ahead_past [OF assms(1)] by simp
  from take_ahead [OF this] show "rd_take (length v) (past (width_bytes (width_of (of_nat (length v) :: u64))) r) =
      (Inr v, past (width_bytes (width_of (of_nat (length v) :: u64)) + length v) r)"
    by simp
qed

text \<open>The reader decodes the head the writer wrote.\<close>

lemma decode_item:
  assumes "ahead r (List.tl (item_bytes h) @ xs)" and "head_ok h (length xs)"
  shows "rd_decode (hd (item_bytes h)) r = (Inr h, past (length (List.tl (item_bytes h))) r)"
proof (cases h)
  case (HUnsigned a)
  then show ?thesis
    using argument_ahead [of r a xs] assms(1)
    by (simp add: rd_decode_def hd_head_bytes tl_head_bytes andthen_def)
next
  case (HNegative a)
  then show ?thesis
    using argument_ahead [of r a xs] assms(1)
    by (simp add: rd_decode_def hd_head_bytes tl_head_bytes andthen_def)
next
  case (HBytes v)
  let ?n = "width_bytes (width_of (of_nat (length v)))"
  have "ahead r (be_bytes ?n (of_nat (length v) :: u64) @ v @ xs)" and len: "length v \<le> usize_max"
    using assms HBytes by (simp_all add: head_bytes_def)
  from string_ahead [OF this] show ?thesis
    using HBytes by (simp add: rd_decode_def hd_head_bytes head_bytes_append andthen_def)
next
  case (HText v)
  let ?n = "width_bytes (width_of (of_nat (length v)))"
  have "ahead r (be_bytes ?n (of_nat (length v) :: u64) @ v @ xs)" and len: "length v \<le> usize_max"
    using assms HText by (simp_all add: head_bytes_def MAX_STRING_def usize_max_def)
  from string_ahead [OF this] show ?thesis
    using HText assms(2) by (simp add: rd_decode_def hd_head_bytes head_bytes_append andthen_def)
next
  case (HArray n)
  then show ?thesis
    using count_ahead [of r n xs 1] assms
    by (simp add: rd_decode_def hd_head_bytes tl_head_bytes andthen_def)
next
  case (HMap n)
  then show ?thesis
    using count_ahead [of r n xs 2] assms
    by (simp add: rd_decode_def hd_head_bytes tl_head_bytes andthen_def)
next
  case (HBool b)
  have "width_of 20 = Inline" "width_of 21 = Inline"
    by (simp_all add: width_of_def)
  then show ?thesis
    using HBool by (cases b) (simp_all add: rd_decode_def hd_head_bytes simple_head_def tl_head_bytes)
qed


section \<open>Where a reader stands\<close>

text \<open>
  The containers still owed items, innermost first and none of them finished, and the bytes
  ahead; no key is waiting to be searched for. \<open>walking\<close> is set inside a skip, \<open>checks\<close>
  is off in the search for a repeated key.
\<close>

definition stands :: "bool \<Rightarrow> bool \<Rightarrow> reader \<Rightarrow> level list \<Rightarrow> bytes \<Rightarrow> bool" where
  "stands checks walking r L xs \<longleftrightarrow>
     nest_ok (rd_nest r) \<and> settle_levels (levels (rd_nest r)) = L \<and> ahead r xs \<and>
     rd_checks r = checks \<and> rd_walking r = walking \<and> rd_unsettled r = None \<and> rd_skipped r = None \<and>
     length (levels (rd_nest r)) \<le> deepest (rd_nest r)"

abbreviation reading :: "reader \<Rightarrow> level list \<Rightarrow> bytes \<Rightarrow> bool" where
  "reading \<equiv> stands True False"

fun opens :: "head \<Rightarrow> level list" where
  "opens (HArray n) = [(NArray, n, None)]"
| "opens (HMap n) = [(NMap, 2 * n, None)]"
| "opens _ = []"

lemma stands_over: "length bs \<le> usize_max \<Longrightarrow> reading (reader_over bs) [] bs"
  by (simp add: stands_def reader_over_def ahead_def levels_def)

lemma item_bytes_Cons: "item_bytes h = hd (item_bytes h) # List.tl (item_bytes h)"
  by (cases h) (simp_all add: head_bytes_def)

lemma stands_settle: "stands c w r L xs \<Longrightarrow> stands c w (settle_nest r) L xs \<and> levels (rd_nest (settle_nest r)) = L"
  using length_settle_levels [of "levels (rd_nest r)"] by (auto simp: stands_def ahead_def)

text \<open>The part of \<open>head\<close> a standing reader reaches.\<close>

lemma head_stands:
  assumes "stands c w r L (item_bytes h @ xs)" and "head_ok h (length xs)"
  shows "head r = andthen (note_key search (levels_at_key L) (rd_next r) h) (\<lambda>_.
     andthen (on_nest count_item) (\<lambda>_. andthen (open_head h) (\<lambda>_. ret h)))
     (past (length (item_bytes h)) (settle_nest r))"
proof -
  let ?r = "settle_nest r" and ?b = "hd (item_bytes h)" and ?bs = "List.tl (item_bytes h)"
  have r: "stands c w ?r L (?b # ?bs @ xs)" and L: "levels (rd_nest ?r) = L"
    using stands_settle [OF assms(1)] item_bytes_Cons [of h] by (metis append_Cons)+
  have first: "get_at (rd_bytes ?r) (rd_next ?r) = Some ?b"
    using r by (auto simp: stands_def ahead_def intro: get_at_drop)
  have "ahead (past 1 ?r) (?bs @ xs)"
    using r ahead_past [of ?r "[?b]" "?bs @ xs"] by (simp add: stands_def)
  then have decode: "rd_decode ?b (past 1 ?r) = (Inr h, past (length ?bs) (past 1 ?r))"
    using assms(2) by (rule decode_item)
  have len: "length (item_bytes h) = Suc (length ?bs)"
    by (subst item_bytes_Cons) simp
  have "(if rd_walking r then (Inr (), r) else settle_skipped_with search r) = (Inr (), r)"
    using assms(1) by (simp add: stands_def settle_skipped_with_def)
  then have "head r = head_byte search ?r"
    by (simp add: head_def head_with_def)
  also have "\<dots> = head_rest search (levels_at_key L) (rd_next r) ?b (past 1 ?r)"
    using first L r by (simp add: head_byte_def past_def at_key_levels stands_def)
  also have "\<dots> = andthen (note_key search (levels_at_key L) (rd_next r) h) (\<lambda>_.
     andthen (on_nest count_item) (\<lambda>_. andthen (open_head h) (\<lambda>_. ret h)))
     (past (length (item_bytes h)) ?r)"
    unfolding head_rest_def andthen_Inr [where m = "rd_decode ?b" and s = "past 1 ?r", OF decode] by (simp only: len past_past plus_1_eq_Suc)
  finally show ?thesis .
qed

text \<open>Counting the item and opening what it opens.\<close>

lemma count_and_open:
  assumes "nest_ok (rd_nest r)" and "levels (rd_nest r) = L" and "length L \<le> deepest (rd_nest r)"
    and "opens h = [] \<or> length L < NESTING" and "head_ok h left"
  obtains N where "andthen (on_nest count_item) (\<lambda>_. andthen (open_head h) (\<lambda>_. ret h)) r =
      (Inr h, r\<lparr>rd_nest := N\<rparr>)"
    and "nest_ok N" and "levels N = opens h @ count_levels L"
    and "deepest N = max (deepest (rd_nest r)) (length (opens h @ L))"
proof -
  obtain n where n: "count_item (rd_nest r) = (Inr (), n)" "nest_ok n" "levels n = count_levels L"
    "deepest n = deepest (rd_nest r)"
    using count_item_levels [OF assms(1)] assms(2) by metis
  have count: "on_nest count_item r = (Inr (), r\<lparr>rd_nest := n\<rparr>)"
    using n(1) by (simp add: on_nest_def)
  have len: "length (count_levels L) = length L"
    by (cases L) auto
  consider (none) "opens h = []" "open_head h (r\<lparr>rd_nest := n\<rparr>) = (Inr (), r\<lparr>rd_nest := n\<rparr>)"
    | (container) k m where "opens h = [(k, m, None)]" "length L < NESTING"
        "open_head h (r\<lparr>rd_nest := n\<rparr>) = on_nest (nest_push k m (rd_next r)) (r\<lparr>rd_nest := n\<rparr>)"
    using assms(4,5) by (cases h) (auto simp: open_head_def mult.commute)
  then show ?thesis
  proof cases
    case none
    then show ?thesis
      using n assms(3) count by (intro that [of n]) (auto simp: andthen_Inr)
  next
    case container
    then have "length (levels n) < NESTING"
      using n(3) len by simp
    then obtain N where N: "nest_push k m (rd_next r) n = (Inr (), N)" "nest_ok N"
      "levels N = (k, m, None) # levels n" "deepest N = max (deepest n) (Suc (length (levels n)))"
      using nest_push_levels [OF n(2)] by blast
    then have "open_head h (r\<lparr>rd_nest := n\<rparr>) = (Inr (), r\<lparr>rd_nest := N\<rparr>)"
      using container(3) by (simp add: on_nest_def)
    then show ?thesis
      using N n len container(1) count by (intro that [of N]) (auto simp: andthen_Inr)
  qed
qed

lemma head_value:
  assumes "stands c w r L (item_bytes h @ xs)" and "head_ok h (length xs)" and "\<not> levels_at_key L"
    and "opens h = [] \<or> length L < NESTING"
  obtains r' where "head r = (Inr h, r')" and "stands c w r' (settle_levels (opens h @ count_levels L)) xs"
    and "deepest (rd_nest r') = max (deepest (rd_nest r)) (length (opens h @ L))"
proof -
  let ?r = "past (length (item_bytes h)) (settle_nest r)"
  have r: "stands c w (settle_nest r) L (item_bytes h @ xs)" "levels (rd_nest (settle_nest r)) = L"
    using stands_settle [OF assms(1)] by auto
  have nest: "rd_nest ?r = rd_nest (settle_nest r)" and deep: "deepest (rd_nest ?r) = deepest (rd_nest r)"
    by (simp_all add: past_def)
  have "nest_ok (rd_nest ?r)" "levels (rd_nest ?r) = L" "length L \<le> deepest (rd_nest ?r)"
    using r unfolding nest stands_def by auto
  from count_and_open [OF this assms(4,2)] obtain N where
    run: "andthen (on_nest count_item) (\<lambda>_. andthen (open_head h) (\<lambda>_. ret h)) ?r = (Inr h, ?r\<lparr>rd_nest := N\<rparr>)"
    and N: "nest_ok N" "levels N = opens h @ count_levels L"
    "deepest N = max (deepest (rd_nest r)) (length (opens h @ L))"
    unfolding deep by blast
  have noted: "note_key search (levels_at_key L) (rd_next r) h ?r = (Inr (), ?r)"
    using assms(1,3) by (auto simp: note_key_def stands_def past_def settle_nest_def)
  have len: "length (count_levels L) = length L"
    by (cases L) auto
  have "ahead ?r xs"
    using r(1) ahead_past by (simp add: stands_def)
  then have "ahead (?r\<lparr>rd_nest := N\<rparr>) xs"
    by (simp add: ahead_def)
  then have "stands c w (?r\<lparr>rd_nest := N\<rparr>) (settle_levels (opens h @ count_levels L)) xs"
    using r(1) N len by (simp add: stands_def past_def)
  moreover have "head r = (Inr h, ?r\<lparr>rd_nest := N\<rparr>)"
    unfolding head_stands [OF assms(1,2)] 
      andthen_Inr [where m = "note_key search (levels_at_key L) (rd_next r) h" and s = ?r, OF noted] by (rule run)
  ultimately show ?thesis
    using that N(3) by simp
qed

text \<open>A key above every key before it in its map is noted and needs no search.\<close>

definition noted_key :: "bool \<Rightarrow> key_rank \<Rightarrow> key_rank option \<Rightarrow> key_rank option" where
  "noted_key checks k l = (if checks then Some k else l)"

lemma noted_key_simps [simp]: "noted_key True k l = Some k" "noted_key False k l = l"
  by (simp_all add: noted_key_def)

lemma head_key:
  assumes "stands c w r ((NMap, n, l) # rest) (item_bytes h @ xs)" and "head_ok h (length xs)"
    and "even n" and "key_of_head h = Some k" and "c \<Longrightarrow> above_key k l"
  obtains r' where "head r = (Inr h, r')"
    and "stands c w r' (settle_levels ((NMap, n - 1, noted_key c k l) # rest)) xs"
    and "deepest (rd_nest r') = deepest (rd_nest r)"
proof -
  let ?L = "(NMap, n, l) # rest" and ?M = "(NMap, n, noted_key c k l) # rest"
  let ?r = "past (length (item_bytes h)) (settle_nest r)"
  have r: "stands c w (settle_nest r) ?L (item_bytes h @ xs)" "levels (rd_nest (settle_nest r)) = ?L"
    using stands_settle [OF assms(1)] by auto
  have nest: "rd_nest ?r = rd_nest (settle_nest r)"
    by (simp add: past_def)
  have "\<exists>m. note_key search (levels_at_key ?L) (rd_next r) h ?r = (Inr (), ?r\<lparr>rd_nest := m\<rparr>) \<and>
      nest_ok m \<and> levels m = ?M \<and> deepest m = deepest (rd_nest r)"
  proof (cases c)
    case True
    then obtain m where m: "read_key k (rd_next r) (rd_nest ?r) = (Inr None, m)" "nest_ok m"
      "levels m = ?M" "deepest m = deepest (rd_nest r)"
      using read_key_levels [of "rd_nest ?r" NMap n l rest k "rd_next r"] r assms(5) nest
      by (auto simp: stands_def)
    then show ?thesis
      using r(1) assms(3,4) True
      by (intro exI [of _ m], cases w) (auto simp: note_key_def stands_def past_def on_nest_def andthen_def settle_nest_def)
  next
    case False
    then show ?thesis
      using r assms(3,4) by (intro exI [of _ "rd_nest ?r"]) (auto simp: note_key_def stands_def past_def)
  qed
  then obtain m where noted: "note_key search (levels_at_key ?L) (rd_next r) h ?r = (Inr (), ?r\<lparr>rd_nest := m\<rparr>)"
    and m: "nest_ok m" "levels m = ?M" "deepest m = deepest (rd_nest r)"
    by blast
  let ?s = "?r\<lparr>rd_nest := m\<rparr>"
  have "opens h = []"
    using assms(4) by (cases h) auto
  moreover have "length ?M \<le> deepest (rd_nest ?s)"
    using r m by (auto simp: stands_def)
  ultimately obtain N where
    run: "andthen (on_nest count_item) (\<lambda>_. andthen (open_head h) (\<lambda>_. ret h)) ?s = (Inr h, ?s\<lparr>rd_nest := N\<rparr>)"
    and N: "nest_ok N" "levels N = (NMap, n - 1, noted_key c k l) # rest" "deepest N = deepest (rd_nest r)"
    using count_and_open [of ?s ?M h "length xs"] m assms(2) by (auto simp: max_absorb1)
  have "ahead ?r xs"
    using r(1) ahead_past by (simp add: stands_def)
  then have "ahead (?s\<lparr>rd_nest := N\<rparr>) xs"
    by (simp add: ahead_def)
  moreover have "length ?L \<le> deepest (rd_nest r)"
    using r by (auto simp: stands_def)
  ultimately have "stands c w (?s\<lparr>rd_nest := N\<rparr>) (settle_levels ((NMap, n - 1, noted_key c k l) # rest)) xs"
    using r(1) N by (simp add: stands_def past_def)
  moreover have "head r = (Inr h, ?s\<lparr>rd_nest := N\<rparr>)"
    unfolding head_stands [OF assms(1,2)]
      andthen_Inr [where m = "note_key search (levels_at_key ?L) (rd_next r) h" and s = ?r, OF noted] by (rule run)
  ultimately show ?thesis
    using that N(3) by simp
qed

section \<open>Rules for the reader's methods\<close>

definition key_bytes :: "int \<Rightarrow> bytes" where
  "key_bytes k = head_bytes Unsigned (of_int k)"

definition key_rank :: "int \<Rightarrow> key_rank" where
  "key_rank k = KeyRank False (of_int k)"

definition good_key :: "int \<Rightarrow> bool" where
  "good_key k \<longleftrightarrow> 0 \<le> k \<and> k < 2 ^ 63"

lemma length_key_bytes [simp]: "length (key_bytes k) = Suc (width_bytes (width_of (of_int k)))"
  by (simp add: key_bytes_def)

lemma unat_good_key: "good_key k \<Longrightarrow> unat (of_int k :: u64) = nat k"
  by (simp add: good_key_def unat_eq_nat_uint uint_word_of_int_eq take_bit_int_eq_self)

lemma key_rank_less: "good_key j \<Longrightarrow> good_key k \<Longrightarrow> key_rank j < key_rank k \<longleftrightarrow> j < k"
  by (auto simp: key_rank_def word_less_nat_alt unat_good_key) (auto simp: good_key_def)

lemma good_key_numeral [simp]: "good_key 0" "good_key 1"
  "(numeral n :: int) < 2 ^ 63 \<Longrightarrow> good_key (numeral n)"
  by (simp_all add: good_key_def)

text \<open>A key that may follow the keys already seen.\<close>

fun next_key :: "int \<Rightarrow> key_rank option \<Rightarrow> bool" where
  "next_key k None \<longleftrightarrow> good_key k"
| "next_key k (Some l) \<longleftrightarrow> good_key k \<and> l < key_rank k"

lemma next_key_simps [simp]:
  "good_key j \<Longrightarrow> next_key k (Some (key_rank j)) \<longleftrightarrow> good_key k \<and> j < k"
  using key_rank_less by auto

declare next_key.simps(2) [simp del]

lemma next_key_iff: "next_key k l \<longleftrightarrow> good_key k \<and> above_key (key_rank k) l"
  by (cases l) (auto simp: next_key.simps)

lemma read_key_rule [wire_rules]:
  assumes "reading r ((NMap, n, l) # rest) (key_bytes k @ xs)" and "even n" and "next_key k l"
    and "\<And>r'. reading r' (settle_levels ((NMap, n - 1, Some (key_rank k)) # rest)) xs \<Longrightarrow> Q k r'"
  shows "runs rd_key r Q"
proof -
  have good: "good_key k" and above: "above_key (key_rank k) l"
    using assms(3) by (simp_all add: next_key_iff)
  obtain r' where r': "head r = (Inr (HUnsigned (of_int k)), r')"
    "reading r' (settle_levels ((NMap, n - 1, Some (key_rank k)) # rest)) xs"
    using head_key [of True False r n l rest "HUnsigned (of_int k)" xs "key_rank k"] assms(1,2) above
    by (auto simp: key_bytes_def key_rank_def)
  have "rd_key r = (Inr k, r')"
    using r'(1) good by (simp add: rd_key_def andthen_def unat_good_key) (simp add: good_key_def nat_less_iff)
  with assms(4) [OF r'(2)] show ?thesis
    by (auto intro: runsI)
qed

text \<open>A value: \<open>item\<close> is the head the writer wrote, \<open>m\<close> the method that reads it.\<close>

lemma read_value:
  assumes "reading r L (item_bytes h @ xs)" and "head_ok h (length xs)" and "\<not> levels_at_key L"
    and "opens h = [] \<or> length L < NESTING"
    and "\<And>r'. reading r' (settle_levels (opens h @ count_levels L)) xs \<Longrightarrow> runs (f h) r' Q"
  shows "runs (andthen head f) r Q"
proof -
  obtain r' where "head r = (Inr h, r')" "reading r' (settle_levels (opens h @ count_levels L)) xs"
    using head_value [OF assms(1-4)] by blast
  then show ?thesis
    using assms(5) by (auto intro: runs_andthen runsI)
qed

lemma read_u64_rule [wire_rules]:
  assumes "reading r L (head_bytes Unsigned v @ xs)" and "\<not> levels_at_key L"
    and "\<And>r'. reading r' (settle_levels (count_levels L)) xs \<Longrightarrow> Q v r'"
  shows "runs rd_u64 r Q"
  unfolding rd_u64_def using assms by (intro read_value [of r L "HUnsigned v"]) auto

lemma ucast_u64_unat:
  "unat (ucast (a :: u32) :: u64) = unat a" "unat (ucast (b :: u16) :: u64) = unat b"
  "unat (ucast (c :: u8) :: u64) = unat c"
  by (simp_all add: unsigned_ucast_eq take_bit_nat_eq_self unsigned_less [THEN less_le_trans])

lemma ucast_u64_ucast [simp]:
  "ucast (ucast (a :: u32) :: u64) = a" "ucast (ucast (b :: u16) :: u64) = b"
  "ucast (ucast (c :: u8) :: u64) = c"
  by (rule bit_word_eqI; simp add: bit_ucast_iff)+

lemma read_u32_rule [wire_rules]:
  assumes "reading r L (head_bytes Unsigned (ucast (v :: u32)) @ xs)" and "\<not> levels_at_key L"
    and "\<And>r'. reading r' (settle_levels (count_levels L)) xs \<Longrightarrow> Q v r'"
  shows "runs rd_u32 r Q"
  unfolding rd_u32_def using assms unat_u32 [of v]
  by (intro runs_andthen read_u64_rule) (auto simp: ucast_u64_unat)

lemma read_u16_rule [wire_rules]:
  assumes "reading r L (head_bytes Unsigned (ucast (v :: u16)) @ xs)" and "\<not> levels_at_key L"
    and "\<And>r'. reading r' (settle_levels (count_levels L)) xs \<Longrightarrow> Q v r'"
  shows "runs rd_u16 r Q"
  unfolding rd_u16_def using assms unat_u16 [of v]
  by (intro runs_andthen read_u64_rule) (auto simp: ucast_u64_unat)

lemma read_u8_rule [wire_rules]:
  assumes "reading r L (head_bytes Unsigned (ucast (v :: u8)) @ xs)" and "\<not> levels_at_key L"
    and "\<And>r'. reading r' (settle_levels (count_levels L)) xs \<Longrightarrow> Q v r'"
  shows "runs rd_u8 r Q"
  unfolding rd_u8_def using assms unat_u8 [of v]
  by (intro runs_andthen read_u64_rule) (auto simp: ucast_u64_unat)

lemma read_bool_rule [wire_rules]:
  assumes "reading r L (head_bytes Simple (if b then 21 else 20) @ xs)" and "\<not> levels_at_key L"
    and "\<And>r'. reading r' (settle_levels (count_levels L)) xs \<Longrightarrow> Q b r'"
  shows "runs rd_bool r Q"
  unfolding rd_bool_def using assms by (intro read_value [of r L "HBool b"]) auto

lemma reading_length: "stands c w r L xs \<Longrightarrow> length xs \<le> usize_max"
  by (auto simp: stands_def ahead_def)

lemma read_bytes_rule [wire_rules]:
  assumes "reading r L (head_bytes Bytes (of_nat (length v)) @ v @ xs)" and "\<not> levels_at_key L"
    and "\<And>r'. reading r' (settle_levels (count_levels L)) xs \<Longrightarrow> Q v r'"
  shows "runs rd_byte_string r Q"
  unfolding rd_byte_string_def using assms reading_length [OF assms(1)]
  by (intro read_value [of r L "HBytes v"]) auto

lemma read_text_rule [wire_rules]:
  assumes "reading r L (head_bytes Text (of_nat (length v)) @ v @ xs)" and "\<not> levels_at_key L"
    and "length v \<le> MAX_STRING" and "utf8 v"
    and "\<And>r'. reading r' (settle_levels (count_levels L)) xs \<Longrightarrow> Q v r'"
  shows "runs rd_text r Q"
  unfolding rd_text_def using assms by (intro read_value [of r L "HText v"]) auto

lemma read_i32_rule [wire_rules]:
  assumes "reading r L (i32_bytes v @ xs)" and "\<not> levels_at_key L" and "fits_i32 v"
    and "\<And>r'. reading r' (settle_levels (count_levels L)) xs \<Longrightarrow> Q v r'"
  shows "runs rd_i32 r Q"
proof (cases "v < 0")
  case True
  let ?a = "of_nat (nat (- v) - 1) :: u64"
  have a: "unat ?a = nat (- v) - 1"
    using assms(3) True by (intro usize_u64) (simp add: fits_i32_def usize_max_def)
  then have "negative ?a = Inr v"
    using assms(3) True by (simp add: negative_def fits_i32_def)
  then show ?thesis
    unfolding rd_i32_def using assms True
    by (intro read_value [of r L "HNegative ?a"]) (auto simp: i32_bytes_def intro!: runs_andthen)
next
  case False
  let ?a = "of_nat (nat v) :: u64"
  have a: "unat ?a = nat v"
    using assms(3) False by (intro usize_u64) (simp add: fits_i32_def usize_max_def)
  then show ?thesis
    unfolding rd_i32_def using assms False
    by (intro read_value [of r L "HUnsigned ?a"]) (auto simp: i32_bytes_def)
qed

lemma read_array_rule [wire_rules]:
  assumes "reading r L (head_bytes Array (of_nat n) @ xs)" and "\<not> levels_at_key L"
    and "length L < NESTING" and "n \<le> length xs"
    and "\<And>r'. reading r' (settle_levels ((NArray, n, None) # count_levels L)) xs \<Longrightarrow> Q n r'"
  shows "runs rd_array r Q"
  unfolding rd_array_def using assms reading_length [OF assms(1)]
  by (intro read_value [of r L "HArray n"]) auto

lemma read_map_rule [wire_rules]:
  assumes "reading r L (head_bytes Map (of_nat n) @ xs)" and "\<not> levels_at_key L"
    and "length L < NESTING" and "2 * n \<le> length xs"
    and "\<And>r'. reading r' (settle_levels ((NMap, 2 * n, None) # count_levels L)) xs \<Longrightarrow> Q n r'"
  shows "runs rd_map r Q"
  unfolding rd_map_def using assms reading_length [OF assms(1)]
  by (intro read_value [of r L "HMap n"]) auto

lemma read_finish: "reading r [] [] \<Longrightarrow> rd_finish r = Inr ()"
  by (auto simp: rd_finish_def settle_skipped_def settle_skipped_with_def stands_def depth_levels ahead_def)


section \<open>Rules for the writer's methods\<close>

text \<open>The writer has written \<open>out\<close> at the front of \<open>dst\<close> and nothing after it.\<close>

definition writing :: "writer \<Rightarrow> level list \<Rightarrow> bytes \<Rightarrow> bytes \<Rightarrow> bool" where
  "writing w L out dst \<longleftrightarrow>
     writer_ok w \<and> settle_levels (levels (wr_nest w)) = L \<and> wr_next w = length out \<and>
     length out \<le> length dst \<and> wr_dst w = splice dst 0 out"

lemma writing_over: "length dst \<le> usize_max \<Longrightarrow> writing (writer_over dst) [] [] dst"
  by (simp add: writing_def writer_over_def writer_ok_def levels_def)

lemma splice_splice:
  "length out + length bs \<le> length dst \<Longrightarrow>
   splice (splice dst 0 out) (length out) bs = splice dst 0 (out @ bs)"
  by (simp add: splice_def add.commute)

lemma writing_settled:
  "writing w L out dst \<Longrightarrow> writing (settled w) L out dst \<and> levels (wr_nest (settled w)) = L"
  by (auto simp: writing_def writer_ok_def)

lemma writing_put:
  assumes "writing w L out dst" and "length out + length bs \<le> length dst"
  shows "writer_ok (put bs w)" and "wr_dst (put bs w) = splice dst 0 (out @ bs)"
    and "wr_next (put bs w) = length (out @ bs)" and "wr_next w + length bs \<le> length (wr_dst w)"
  using assms by (auto simp: writing_def put_ok splice_splice)

lemma item_refusal_None:
  "writing w L out dst \<Longrightarrow> \<not> levels_at_key L \<Longrightarrow> (L = [] \<Longrightarrow> out = []) \<Longrightarrow> item_refusal w = None"
  by (auto simp: item_refusal_def writing_def writer_ok_def at_key_levels depth_levels)

lemma write_value:
  assumes "appends m bs" and "writing w L out dst" and "\<not> levels_at_key L" and "L = [] \<Longrightarrow> out = []"
    and "length out + length bs \<le> length dst"
    and "\<And>w'. writing w' (settle_levels (count_levels L)) (out @ bs) dst \<Longrightarrow> Q () w'"
  shows "runs m w Q"
proof -
  let ?w = "put bs (settled w)"
  have w: "writing (settled w) L out dst" "levels (wr_nest (settled w)) = L"
    using writing_settled [OF assms(2)] by auto
  note put = writing_put [OF w(1) assms(5)]
  obtain body where body: "emits body bs" "m = andthen wr_open_item (\<lambda>_. andthen body (\<lambda>_. in_nest count_item))"
    using assms(1) by (auto simp: appends_def)
  have ok: "writer_ok w"
    using assms(2) by (simp add: writing_def)
  have "m w = (Inr (), counted ?w)"
    unfolding body(2) value_call [OF body(1) ok] using item_refusal_None [OF assms(2-4)] put(4) by simp
  moreover have "writing (counted ?w) (settle_levels (count_levels L)) (out @ bs) dst"
    using counted_eq [OF put(1)] put w(2) assms(5) by (simp add: writing_def)
  ultimately show ?thesis
    using assms(6) by (auto intro: runsI)
qed

lemma write_u64_rule [wire_rules]:
  assumes "writing w L out dst" and "\<not> levels_at_key L" and "L = [] \<Longrightarrow> out = []"
    and "length out + length (head_bytes Unsigned v) \<le> length dst"
    and "\<And>w'. writing w' (settle_levels (count_levels L)) (out @ head_bytes Unsigned v) dst \<Longrightarrow> Q () w'"
  shows "runs (wr_u64 v) w Q"
  using write_value [OF appends_u64] assms by blast

lemma write_i32_rule [wire_rules]:
  assumes "writing w L out dst" and "\<not> levels_at_key L" and "L = [] \<Longrightarrow> out = []"
    and "length out + length (i32_bytes v) \<le> length dst"
    and "\<And>w'. writing w' (settle_levels (count_levels L)) (out @ i32_bytes v) dst \<Longrightarrow> Q () w'"
  shows "runs (wr_i32 v) w Q"
  using write_value [OF appends_i32] assms by blast

lemma write_bool_rule [wire_rules]:
  assumes "writing w L out dst" and "\<not> levels_at_key L" and "L = [] \<Longrightarrow> out = []"
    and "length out + length (head_bytes Simple (if b then 21 else 20)) \<le> length dst"
    and "\<And>w'. writing w' (settle_levels (count_levels L)) (out @ head_bytes Simple (if b then 21 else 20)) dst
      \<Longrightarrow> Q () w'"
  shows "runs (wr_bool b) w Q"
  using write_value [OF appends_bool] assms by blast

lemma write_bytes_rule [wire_rules]:
  assumes "writing w L out dst" and "\<not> levels_at_key L" and "L = [] \<Longrightarrow> out = []"
    and "length out + length (head_bytes Bytes (of_nat (length v)) @ v) \<le> length dst"
    and "\<And>w'. writing w' (settle_levels (count_levels L)) (out @ head_bytes Bytes (of_nat (length v)) @ v) dst
      \<Longrightarrow> Q () w'"
  shows "runs (wr_byte_string v) w Q"
proof -
  have "length v < 2 ^ 64"
    using assms(1,4) by (auto simp: writing_def writer_ok_def usize_max_def)
  then show ?thesis
    using write_value [OF appends_byte_string] assms by blast
qed

lemma write_text_rule [wire_rules]:
  assumes "writing w L out dst" and "\<not> levels_at_key L" and "L = [] \<Longrightarrow> out = []"
    and "length v \<le> MAX_STRING"
    and "length out + length (head_bytes Text (of_nat (length v)) @ v) \<le> length dst"
    and "\<And>w'. writing w' (settle_levels (count_levels L)) (out @ head_bytes Text (of_nat (length v)) @ v) dst
      \<Longrightarrow> Q () w'"
  shows "runs (wr_text v) w Q"
  using write_value [OF appends_text [OF assms(4)]] assms by blast

lemma write_key_rule [wire_rules]:
  assumes "writing w ((NMap, n, l) # rest) out dst" and "even n" and "next_key k l"
    and "length out + length (key_bytes k) \<le> length dst"
    and "\<And>w'. writing w' (settle_levels ((NMap, n - 1, Some (key_rank k)) # rest)) (out @ key_bytes k) dst
      \<Longrightarrow> Q () w'"
  shows "runs (wr_key k) w Q"
proof -
  let ?L = "(NMap, n, l) # rest" and ?w = "settled w"
  have k: "0 \<le> k" and above: "above_key (KeyRank False (of_int k)) l"
    using assms(3) by (simp_all add: next_key_iff good_key_def key_rank_def)
  have w: "writing ?w ?L out dst" "levels (wr_nest ?w) = ?L"
    using writing_settled [OF assms(1)] by auto
  then have nest: "nest_ok (wr_nest ?w)" and at: "at_key (wr_nest ?w)"
    using assms(2) by (auto simp: writing_def writer_ok_def at_key_levels)
  obtain m where m: "take_key (of_int k) (wr_nest ?w) = (Inr (), m)" "nest_ok m"
    "levels m = (NMap, n, Some (KeyRank False (of_int k))) # rest"
    using take_key_levels(1) [OF nest w(2) above] by blast
  let ?v = "?w\<lparr>wr_nest := m\<rparr>"
  have "writer_ok ?w"
    using w(1) by (simp only: writing_def)
  then have ok: "writer_ok ?v"
    using m(2) by (simp add: writer_ok_def)
  then have "writing ?v (settle_levels (levels m)) out dst"
    using w(1) by (simp add: writing_def)
  note put = writing_put [OF this assms(4)]
  have "wr_key k w = andthen (wr_head Unsigned (of_int k) 0) (\<lambda>_. in_nest count_item) ?v"
    using k at m(1) by (simp add: wr_key_def andthen_def in_nest_def settled_def)
  also have "\<dots> = (Inr (), counted (put (key_bytes k) ?v))"
    using emits_count [OF emits_head ok] put(4) by (simp add: key_bytes_def)
  finally have "wr_key k w = (Inr (), counted (put (key_bytes k) ?v))" .
  moreover have "writing (counted (put (key_bytes k) ?v))
      (settle_levels ((NMap, n - 1, Some (key_rank k)) # rest)) (out @ key_bytes k) dst"
    using counted_eq [OF put(1)] put m(3) assms(4) by (simp add: writing_def key_rank_def)
  ultimately show ?thesis
    using assms(5) by (auto intro: runsI)
qed

text \<open>Opening a container with room on the stack.\<close>

lemma write_container:
  assumes "writing w L out dst" and "\<not> levels_at_key L" and "L = [] \<Longrightarrow> out = []"
    and "length L < NESTING" and "length out + length (head_bytes m a) \<le> length dst"
    and "\<And>w'. writing w' (settle_levels ((k, items, None) # count_levels L)) (out @ head_bytes m a) dst \<Longrightarrow> Q () w'"
  shows "runs (andthen wr_open_item (\<lambda>_. andthen need_room (\<lambda>_. andthen (wr_head m a 0) (\<lambda>_.
     andthen (in_nest count_item) (\<lambda>_. in_nest (nest_push k items 0)))))) w Q"
proof -
  let ?w = "settled w"
  let ?p = "put (head_bytes m a) ?w"
  have w: "writing ?w L out dst" "levels (wr_nest ?w) = L"
    using writing_settled [OF assms(1)] by auto
  note put = writing_put [OF w(1) assms(5)]
  have room: "has_room (wr_nest ?w)" and ok: "writer_ok ?w"
    using w assms(4) length_levels [of "wr_nest ?w"]
    by (auto simp: writing_def writer_ok_def has_room_def nest_ok_def)
  obtain w' where w': "andthen (in_nest count_item) (\<lambda>_. in_nest (nest_push k items 0)) ?p = (Inr (), w')"
    "writer_ok w'" "wr_dst w' = wr_dst ?p" "wr_next w' = wr_next ?p"
    "levels (wr_nest w') = (k, items, None) # count_levels (levels (wr_nest ?p))"
    using push_after_count [OF put(1), of k items] room by auto
  have "wr_open_item w = (Inr (), ?w)" "need_room ?w = (Inr (), ?w)" "wr_head m a 0 ?w = (Inr (), ?p)"
    using item_refusal_None [OF assms(1-3)] room put(4) ok
    by (simp_all add: open_item_eq need_room_def head_eq)
  moreover have "writing w' (settle_levels ((k, items, None) # count_levels L)) (out @ head_bytes m a) dst"
    using w' put w(2) assms(5) by (simp add: writing_def)
  ultimately show ?thesis
    using w'(1) assms(6) by (auto intro!: runsI)
qed

lemma write_array_rule [wire_rules]:
  assumes "writing w L out dst" and "\<not> levels_at_key L" and "L = [] \<Longrightarrow> out = []"
    and "length L < NESTING" and "n \<le> usize_max"
    and "length out + length (head_bytes Array (of_nat n)) \<le> length dst"
    and "\<And>w'. writing w' (settle_levels ((NArray, n, None) # count_levels L)) (out @ head_bytes Array (of_nat n)) dst
      \<Longrightarrow> Q () w'"
  shows "runs (wr_array n) w Q"
proof -
  have "n < 2 ^ 64"
    using assms(5) by (simp add: usize_max_def)
  then show ?thesis
    unfolding wr_array_def len_argument_small [OF \<open>n < 2 ^ 64\<close>] andthen_ret
    by (intro write_container) (use assms in auto)
qed

lemma write_map_rule [wire_rules]:
  assumes "writing w L out dst" and "\<not> levels_at_key L" and "L = [] \<Longrightarrow> out = []"
    and "length L < NESTING" and "2 * n \<le> usize_max"
    and "length out + length (head_bytes Map (of_nat n)) \<le> length dst"
    and "\<And>w'. writing w' (settle_levels ((NMap, 2 * n, None) # count_levels L)) (out @ head_bytes Map (of_nat n)) dst
      \<Longrightarrow> Q () w'"
  shows "runs (wr_map n) w Q"
proof -
  have "n < 2 ^ 64" and "checked_mul n 2 = Some (2 * n)"
    using assms(5) by (auto simp: usize_max_def checked_mul_def)
  then show ?thesis
    unfolding wr_map_def len_argument_small [OF \<open>n < 2 ^ 64\<close>] andthen_ret
    by (simp only: andthen_ok_or_Some) (intro write_container, use assms in auto)
qed

lemma write_finish: "writing w [] out dst \<Longrightarrow> wr_finish w = Inr (length out)"
  by (simp add: writing_def writer_ok_def wr_finish_def depth_levels)

end
