(* ===== verification/Cbor_Item.thy ===== *)
theory Cbor_Item
  imports Cbor_Wire
begin

text \<open>
  Whole items: trees of heads in the deterministic encoding. \<open>skip\<close> takes exactly one off
  the input, however deep, \<open>raw\<close> hands back its bytes and the writer's \<open>raw\<close> copies them,
  which is how \<open>Event\<close> bodies and \<open>Command\<close> arguments travel.
\<close>

datatype item =
    IUint u64
  | INeg u64
  | IBytes bytes
  | IText bytes
  | IBool bool
  | IArray "item list"
  | IMap "(key_rank \<times> item) list"

primrec rank_head :: "key_rank \<Rightarrow> head" where
  "rank_head (KeyRank neg a) = (if neg then HNegative a else HUnsigned a)"

fun head_of :: "item \<Rightarrow> head" where
  "head_of (IUint a) = HUnsigned a"
| "head_of (INeg a) = HNegative a"
| "head_of (IBytes v) = HBytes v"
| "head_of (IText v) = HText v"
| "head_of (IBool b) = HBool b"
| "head_of (IArray ts) = HArray (length ts)"
| "head_of (IMap kvs) = HMap (length kvs)"

fun enc_item :: "item \<Rightarrow> bytes" where
  "enc_item (IArray ts) = item_bytes (HArray (length ts)) @ concat (map enc_item ts)"
| "enc_item (IMap kvs) =
     item_bytes (HMap (length kvs)) @
     concat (map (\<lambda>kv. item_bytes (rank_head (fst kv)) @ enc_item (snd kv)) kvs)"
| "enc_item t = item_bytes (head_of t)"

text \<open>What the deterministic encoding allows: bounded text, keys strictly ascending.\<close>

fun wf_item :: "item \<Rightarrow> bool" where
  "wf_item (IText v) \<longleftrightarrow> length v \<le> MAX_STRING \<and> utf8 v"
| "wf_item (IArray ts) \<longleftrightarrow> list_all wf_item ts"
| "wf_item (IMap kvs) \<longleftrightarrow> sorted_wrt (<) (map fst kvs) \<and> list_all (\<lambda>kv. wf_item (snd kv)) kvs"
| "wf_item _ \<longleftrightarrow> True"

fun item_depth :: "item \<Rightarrow> nat" where
  "item_depth (IArray ts) = Suc (foldr max (map item_depth ts) 0)"
| "item_depth (IMap kvs) = Suc (foldr max (map (\<lambda>kv. item_depth (snd kv)) kvs) 0)"
| "item_depth _ = 0"

lemma foldr_max_ge: "x \<in> set xs \<Longrightarrow> (x :: nat) \<le> foldr max xs 0"
  by (induction xs) auto

lemma key_of_rank_head [simp]: "key_of_head (rank_head k) = Some k"
  by (cases k) simp

lemma opens_rank_head [simp]: "opens (rank_head k) = []"
  by (cases k) simp

lemma head_ok_rank_head [simp]: "head_ok (rank_head k) n"
  by (cases k) simp

lemma length_item_bytes_pos: "0 < length (item_bytes h)"
  by (cases h) simp_all

lemma enc_item_pos: "0 < length (enc_item t)"
  using length_item_bytes_pos by (cases t) (simp_all del: item_bytes.simps add: trans_less_add1)

lemma concat_length_ge: "(\<And>x. x \<in> set xs \<Longrightarrow> k \<le> length (f x)) \<Longrightarrow> k * length xs \<le> length (concat (map f xs))"
  by (induction xs) (auto, metis add_le_mono)

lemma enc_items_length: "length ts \<le> length (concat (map enc_item ts))"
  using concat_length_ge [of ts 1 enc_item] enc_item_pos by (simp add: Suc_le_eq)

lemma enc_pairs_length:
  "2 * length kvs \<le> length (concat (map (\<lambda>kv. item_bytes (rank_head (fst kv)) @ enc_item (snd kv)) kvs))"
proof (rule concat_length_ge)
  fix kv :: "key_rank \<times> item"
  show "2 \<le> length (item_bytes (rank_head (fst kv)) @ enc_item (snd kv))"
    using length_item_bytes_pos [of "rank_head (fst kv)"] enc_item_pos [of "snd kv"]
    by (simp only: length_append)
qed

section \<open>The walk\<close>

lemma walk_loop_stop:
  assumes "stands c True r L xs" and "length L \<le> floor"
  shows "walk_loop search floor r = (Inr (), settle_nest r)"
proof -
  have "depth (rd_nest (settle_nest r)) = length L"
    using stands_settle [OF assms(1)] length_levels [of "rd_nest (settle_nest r)"]
    by (auto simp: stands_def)
  then show ?thesis
    using assms(2) by (simp add: walk_loop.simps [of _ _ r] Let_def)
qed

lemma walk_loop_continue:
  assumes "stands c True r L xs" and "floor < length L"
  shows "walk_loop search floor r = andthen head (\<lambda>_. walk_loop search floor) (settle_nest r)"
proof -
  have "depth (rd_nest (settle_nest r)) = length L"
    using stands_settle [OF assms(1)] length_levels [of "rd_nest (settle_nest r)"]
    by (auto simp: stands_def)
  then show ?thesis
    using assms(2) by (simp add: walk_loop.simps [of _ _ r] Let_def andthen_def head_def)
qed

text \<open>The walk over what is left of an item ends where the item does.\<close>

definition walks_to :: "bool \<Rightarrow> nat \<Rightarrow> nat \<Rightarrow> reader \<Rightarrow> unit reading \<Rightarrow> level list \<Rightarrow> bytes \<Rightarrow> bool" where
  "walks_to c floor bound r m L xs \<longleftrightarrow>
     (\<exists>r'. m r = walk_loop search floor r' \<and> stands c True r' L xs \<and>
           deepest (rd_nest r') \<le> max (deepest (rd_nest r)) bound)"

abbreviation step_walk :: "nat \<Rightarrow> unit reading" where
  "step_walk floor \<equiv> andthen head (\<lambda>_. walk_loop search floor)"

definition item_walks :: "item \<Rightarrow> bool" where
  "item_walks t \<longleftrightarrow> (\<forall>c r M xs floor. stands c True r M (enc_item t @ xs) \<longrightarrow> wf_item t \<longrightarrow>
     \<not> levels_at_key M \<longrightarrow> length M + item_depth t \<le> NESTING \<longrightarrow> floor \<le> length M \<longrightarrow>
     walks_to c floor (length M + item_depth t) r (step_walk floor) (settle_levels (count_levels M)) xs)"

lemma item_walksD:
  assumes "item_walks t" and "stands c True r M (enc_item t @ xs)" and "wf_item t" and "\<not> levels_at_key M"
    and "length M + item_depth t \<le> NESTING" and "floor \<le> length M"
  shows "walks_to c floor (length M + item_depth t) r (step_walk floor) (settle_levels (count_levels M)) xs"
  using assms unfolding item_walks_def by blast

lemma walk_leaf:
  assumes "stands c True r M (item_bytes h @ xs)" and "head_ok h (length xs)" and "opens h = []"
    and "\<not> levels_at_key M"
  shows "walks_to c floor (length M) r (step_walk floor) (settle_levels (count_levels M)) xs"
proof -
  obtain r' where "head r = (Inr h, r')" "stands c True r' (settle_levels (opens h @ count_levels M)) xs"
    "deepest (rd_nest r') = max (deepest (rd_nest r)) (length (opens h @ M))"
    using head_value [OF assms(1,2,4)] assms(3) by blast
  then show ?thesis
    using assms(3) by (auto simp: walks_to_def andthen_def)
qed

lemma walk_items:
  assumes "\<And>t. t \<in> set ts \<Longrightarrow> item_walks t" and "list_all wf_item ts"
    and "stands c True r (settle_levels ((NArray, length ts, l) # R)) (concat (map enc_item ts) @ xs)"
    and "Suc (length R) + foldr max (map item_depth ts) 0 \<le> NESTING" and "floor \<le> length R"
  shows "walks_to c floor (Suc (length R) + foldr max (map item_depth ts) 0) r
     (walk_loop search floor) (settle_levels R) xs"
  using assms
proof (induction ts arbitrary: r)
  case Nil
  then show ?case by (auto simp: walks_to_def)
next
  case (Cons t ts)
  let ?M = "(NArray, Suc (length ts), l) # R"
  have r: "stands c True r ?M (enc_item t @ concat (map enc_item ts) @ xs)"
    using Cons.prems(3) by simp
  have loop: "walk_loop search floor r = step_walk floor (settle_nest r)"
    using walk_loop_continue [OF r] Cons.prems(5) by simp
  have "walks_to c floor (length ?M + item_depth t) (settle_nest r) (step_walk floor)
      (settle_levels (count_levels ?M)) (concat (map enc_item ts) @ xs)"
    using Cons.prems(1) [of t] stands_settle [OF r] Cons.prems(2,4,5) by (intro item_walksD) auto
  then obtain s where s: "step_walk floor (settle_nest r) = walk_loop search floor s"
    "stands c True s (settle_levels ((NArray, length ts, l) # R)) (concat (map enc_item ts) @ xs)"
    "deepest (rd_nest s) \<le> max (deepest (rd_nest r)) (Suc (length R) + item_depth t)"
    by (auto simp: walks_to_def)
  have "walks_to c floor (Suc (length R) + foldr max (map item_depth ts) 0) s
     (walk_loop search floor) (settle_levels R) xs"
    using Cons.prems s(2) by (intro Cons.IH) auto
  then show ?case
    unfolding walks_to_def loop s(1) using s(3) by fastforce
qed

lemma walk_pairs:
  assumes "\<And>kv. kv \<in> set kvs \<Longrightarrow> item_walks (snd kv)" and "list_all (\<lambda>kv. wf_item (snd kv)) kvs"
    and "c \<Longrightarrow> sorted_wrt (<) (map fst kvs)" and "\<And>k. c \<Longrightarrow> k \<in> set (map fst kvs) \<Longrightarrow> above_key k l"
    and "stands c True r (settle_levels ((NMap, 2 * length kvs, l) # R))
      (concat (map (\<lambda>kv. item_bytes (rank_head (fst kv)) @ enc_item (snd kv)) kvs) @ xs)"
    and "Suc (length R) + foldr max (map (\<lambda>kv. item_depth (snd kv)) kvs) 0 \<le> NESTING" and "floor \<le> length R"
  shows "walks_to c floor (Suc (length R) + foldr max (map (\<lambda>kv. item_depth (snd kv)) kvs) 0) r
     (walk_loop search floor) (settle_levels R) xs"
  using assms
proof (induction kvs arbitrary: r l)
  case Nil
  then show ?case by (auto simp: walks_to_def)
next
  case (Cons kv kvs)
  let ?rest = "concat (map (\<lambda>kv. item_bytes (rank_head (fst kv)) @ enc_item (snd kv)) kvs) @ xs"
  let ?k = "fst kv" and ?t = "snd kv"
  let ?M = "(NMap, 2 * Suc (length kvs), l) # R" and ?N = "(NMap, Suc (2 * length kvs), noted_key c ?k l) # R"
  have r: "stands c True r ?M (item_bytes (rank_head ?k) @ enc_item ?t @ ?rest)"
    using Cons.prems(5) by simp
  have "walk_loop search floor r = step_walk floor (settle_nest r)"
    using walk_loop_continue [OF r] Cons.prems(7) by simp
  moreover obtain s where s: "head (settle_nest r) = (Inr (rank_head ?k), s)"
    "stands c True s (settle_levels ?N) (enc_item ?t @ ?rest)" "deepest (rd_nest s) = deepest (rd_nest r)"
    using head_key [of c True "settle_nest r" "2 * Suc (length kvs)" l R "rank_head ?k" "enc_item ?t @ ?rest" ?k]
      stands_settle [OF r] Cons.prems(4) by auto
  ultimately have loop: "walk_loop search floor r = walk_loop search floor s"
    by (simp add: andthen_def)
  have s2: "stands c True s ?N (enc_item ?t @ ?rest)"
    using s(2) by simp
  have loop2: "walk_loop search floor s = step_walk floor (settle_nest s)"
    using walk_loop_continue [OF s2] Cons.prems(7) by simp
  have "walks_to c floor (length ?N + item_depth ?t) (settle_nest s) (step_walk floor)
      (settle_levels (count_levels ?N)) ?rest"
    using Cons.prems(1) [of kv] stands_settle [OF s2] Cons.prems(2,6,7) by (intro item_walksD) auto
  then obtain u where u: "step_walk floor (settle_nest s) = walk_loop search floor u"
    "stands c True u (settle_levels ((NMap, 2 * length kvs, noted_key c ?k l) # R)) ?rest"
    "deepest (rd_nest u) \<le> max (deepest (rd_nest r)) (Suc (length R) + item_depth ?t)"
    using s(3) by (auto simp: walks_to_def)
  have "walks_to c floor (Suc (length R) + foldr max (map (\<lambda>kv. item_depth (snd kv)) kvs) 0) u
     (walk_loop search floor) (settle_levels R) xs"
    using Cons.prems u(2) by (intro Cons.IH [where l = "noted_key c ?k l"]) (auto simp: noted_key_def)
  then show ?case
    unfolding walks_to_def loop loop2 u(1) using u(3) by fastforce
qed


lemma item_walks: "item_walks t"
proof (induction t)
  case (IArray ts)
  show ?case
    unfolding item_walks_def
  proof (intro allI impI)
    fix c r M xs floor
    assume st: "stands c True r M (enc_item (IArray ts) @ xs)" and wf: "wf_item (IArray ts)"
      and M: "\<not> levels_at_key M" and depth: "length M + item_depth (IArray ts) \<le> NESTING"
      and floor: "floor \<le> length M"
    let ?body = "concat (map enc_item ts) @ xs"
    have ok: "head_ok (HArray (length ts)) (length ?body)"
      using enc_items_length [of ts] reading_length [OF st] by simp
    have start: "stands c True r M (item_bytes (HArray (length ts)) @ ?body)"
      using st by simp
    have room: "opens (HArray (length ts)) = [] \<or> length M < NESTING"
      using depth by simp
    obtain s where s: "head r = (Inr (HArray (length ts)), s)"
      "stands c True s (settle_levels ((NArray, length ts, None) # count_levels M)) ?body"
      "deepest (rd_nest s) = max (deepest (rd_nest r)) (Suc (length M))"
      by (rule head_value [OF start ok M room]) auto
    have len: "length (count_levels M) = length M"
      by (cases M) auto
    have "walks_to c floor (Suc (length (count_levels M)) + foldr max (map item_depth ts) 0) s
      (walk_loop search floor) (settle_levels (count_levels M)) xs"
      using IArray wf depth floor len s(2) by (intro walk_items) auto
    then show "walks_to c floor (length M + item_depth (IArray ts)) r (step_walk floor)
      (settle_levels (count_levels M)) xs"
      using s(1,3) len by (fastforce simp: walks_to_def andthen_def)
  qed
next
  case (IMap kvs)
  show ?case
    unfolding item_walks_def
  proof (intro allI impI)
    fix c r M xs floor
    assume st: "stands c True r M (enc_item (IMap kvs) @ xs)" and wf: "wf_item (IMap kvs)"
      and M: "\<not> levels_at_key M" and depth: "length M + item_depth (IMap kvs) \<le> NESTING"
      and floor: "floor \<le> length M"
    let ?body = "concat (map (\<lambda>kv. item_bytes (rank_head (fst kv)) @ enc_item (snd kv)) kvs) @ xs"
    have ok: "head_ok (HMap (length kvs)) (length ?body)"
      using enc_pairs_length [of kvs] reading_length [OF st] by simp
    have start: "stands c True r M (item_bytes (HMap (length kvs)) @ ?body)"
      using st by simp
    have room: "opens (HMap (length kvs)) = [] \<or> length M < NESTING"
      using depth by simp
    obtain s where s: "head r = (Inr (HMap (length kvs)), s)"
      "stands c True s (settle_levels ((NMap, 2 * length kvs, None) # count_levels M)) ?body"
      "deepest (rd_nest s) = max (deepest (rd_nest r)) (Suc (length M))"
      by (rule head_value [OF start ok M room]) auto
    have len: "length (count_levels M) = length M"
      by (cases M) auto
    have walks: "item_walks (snd kv)" if "kv \<in> set kvs" for kv
      using IMap [OF that] by (cases kv) (auto simp: Basic_BNFs.snds.simps)
    have "walks_to c floor (Suc (length (count_levels M)) + foldr max (map (\<lambda>kv. item_depth (snd kv)) kvs) 0) s
      (walk_loop search floor) (settle_levels (count_levels M)) xs"
      using walks wf depth floor len s(2) by (intro walk_pairs [where l = None]) auto
    then show "walks_to c floor (length M + item_depth (IMap kvs)) r (step_walk floor)
      (settle_levels (count_levels M)) xs"
      using s(1,3) len by (fastforce simp: walks_to_def andthen_def)
  qed
next
  case (IBytes v)
  show ?case
    unfolding item_walks_def
    using walk_leaf [of _ _ _ "HBytes v"] reading_length by fastforce
qed (use walk_leaf [of _ _ _ "HUnsigned _"] walk_leaf [of _ _ _ "HNegative _"] walk_leaf [of _ _ _ "HText _"]
    walk_leaf [of _ _ _ "HBool _"] in \<open>auto simp: item_walks_def\<close>)


section \<open>Skip and raw\<close>

lemma skip_item:
  assumes "stands c False r L (enc_item t @ xs)" and "wf_item t" and "\<not> levels_at_key L"
    and "length L + item_depth t \<le> NESTING"
  obtains r' where "skip r = (Inr (), r')" and "stands c False r' (settle_levels (count_levels L)) xs"
    and "deepest (rd_nest r') \<le> max (deepest (rd_nest r)) (length L + item_depth t)"
proof -
  let ?r = "r\<lparr>rd_skipped := rd_unsettled r, rd_unsettled := None, rd_walking := True\<rparr>"
  have r: "stands c True ?r L (enc_item t @ xs)"
    using assms(1) by (simp add: stands_def ahead_def)
  note st = stands_settle [OF r]
  have floor: "depth (rd_nest (settle_nest ?r)) = length L"
    using st length_levels [of "rd_nest (settle_nest ?r)"] by (auto simp: stands_def)
  obtain s where s: "step_walk (length L) (settle_nest ?r) = walk_loop search (length L) s"
    "stands c True s (settle_levels (count_levels L)) xs"
    "deepest (rd_nest s) \<le> max (deepest (rd_nest r)) (length L + item_depth t)"
    using item_walksD [OF item_walks st [THEN conjunct1] assms(2,3,4) order_refl]
    by (auto simp: walks_to_def)
  have "length (settle_levels (count_levels L)) \<le> length (count_levels L)"
    by (rule length_settle_levels)
  also have "\<dots> = length L"
    by (cases L) auto
  finally have "walk_loop search (length L) s = (Inr (), settle_nest s)"
    by (rule walk_loop_stop [OF s(2)])
  then have "walk_with search ?r = (Inr (), settle_nest s)"
    using s(1) floor by (simp add: walk_with_def Let_def head_def)
  then have "skip r = (Inr (), (settle_nest s)\<lparr>rd_walking := False\<rparr>)"
    using assms(1) by (simp add: skip_def skip_with_def settle_skipped_with_def stands_def andthen_def)
  moreover have "stands c False ((settle_nest s)\<lparr>rd_walking := False\<rparr>) (settle_levels (count_levels L)) xs"
    using stands_settle [OF s(2)] by (auto simp: stands_def ahead_def)
  ultimately show ?thesis
    using that s(3) by simp
qed

lemma skip_rule [wire_rules]:
  assumes "reading r L (enc_item t @ xs)" and "wf_item t" and "\<not> levels_at_key L"
    and "length L + item_depth t \<le> NESTING"
    and "\<And>r'. reading r' (settle_levels (count_levels L)) xs \<Longrightarrow> Q () r'"
  shows "runs skip r Q"
proof -
  obtain r' where "skip r = (Inr (), r')" "reading r' (settle_levels (count_levels L)) xs"
    using skip_item [OF assms(1-4)] by blast
  then show ?thesis
    using assms(5) by (auto intro: runsI)
qed

lemma raw_rule [wire_rules]:
  assumes "reading r L (enc_item t @ xs)" and "wf_item t" and "\<not> levels_at_key L"
    and "length L + item_depth t \<le> NESTING"
    and "\<And>r'. reading r' (settle_levels (count_levels L)) xs \<Longrightarrow> Q (enc_item t) r'"
  shows "runs rd_raw r Q"
proof -
  obtain r' where r': "skip r = (Inr (), r')" "reading r' (settle_levels (count_levels L)) xs"
    using skip_item [OF assms(1-4)] by blast
  have same: "rd_bytes r' = rd_bytes r"
    using skip_with_step(1) [of search r] r'(1) by (simp add: skip_def advances_def)
  have "ahead r (enc_item t @ xs)" "ahead r' xs"
    using assms(1) r'(2) by (simp_all add: stands_def)
  then have "rd_next r' = rd_next r + length (enc_item t)"
    using ahead_length [of r "enc_item t @ xs"] ahead_length [of r' xs] same
    by (auto simp: ahead_def)
  moreover have "slice (rd_bytes r) (rd_next r) (rd_next r + length (enc_item t)) = Some (enc_item t)"
    using \<open>ahead r (enc_item t @ xs)\<close> by (auto simp: ahead_def intro: slice_drop)
  ultimately have "rd_raw r = (Inr (enc_item t), r')"
    using r'(1) same by (simp add: rd_raw_def andthen_def)
  with assms(5) [OF r'(2)] show ?thesis
    by (auto intro: runsI)
qed

lemma walk_item_ok:
  assumes "wf_item t" and "item_depth t \<le> NESTING" and "length (enc_item t) \<le> usize_max"
  shows "\<exists>d. walk_item (enc_item t) = Inr d \<and> d \<le> item_depth t"
proof -
  have r: "reading (reader_over (enc_item t)) [] (enc_item t @ [])"
    using stands_over [OF assms(3)] by simp
  have depth: "length ([] :: level list) + item_depth t \<le> NESTING"
    using assms(2) by simp
  obtain r' where r': "skip (reader_over (enc_item t)) = (Inr (), r')"
    "reading r' (settle_levels (count_levels [])) []"
    "deepest (rd_nest r') \<le> max (deepest (rd_nest (reader_over (enc_item t)))) (length ([] :: level list) + item_depth t)"
    by (rule skip_item [OF r assms(1) _ depth]) auto
  then show ?thesis
    using read_finish [of r'] by (auto simp: walk_item_def reader_over_def nest_new_def)
qed

lemma write_raw_rule [wire_rules]:
  assumes "writing w L out dst" and "\<not> levels_at_key L" and "L = [] \<Longrightarrow> out = []"
    and "wf_item t" and "length L + item_depth t \<le> NESTING"
    and "length out + length (enc_item t) \<le> length dst"
    and "\<And>w'. writing w' (settle_levels (count_levels L)) (out @ enc_item t) dst \<Longrightarrow> Q () w'"
  shows "runs (wr_raw (enc_item t)) w Q"
proof -
  let ?w = "settled w"
  have w: "writing ?w L out dst" "levels (wr_nest ?w) = L"
    using writing_settled [OF assms(1)] by auto
  note put = writing_put [OF w(1) assms(6)]
  have ok: "writer_ok ?w" and depth: "depth (wr_nest ?w) = length L"
    using w length_levels [of "wr_nest ?w"] by (auto simp: writing_def writer_ok_def)
  have "length (enc_item t) \<le> usize_max"
    using assms(1,6) by (auto simp: writing_def writer_ok_def)
  then obtain d where d: "walk_item (enc_item t) = Inr d" "d \<le> item_depth t"
    using walk_item_ok [OF assms(4)] assms(5) by auto
  have fits: "\<not> NESTING < saturating_add (depth (wr_nest ?w)) d"
    using d(2) depth assms(5) by (simp add: saturating_add_def NESTING_val)
  have "wr_raw (enc_item t) w = andthen (wr_emit (enc_item t)) (\<lambda>_. in_nest count_item) ?w"
    using item_refusal_None [OF assms(1-3)] d(1) fits by (simp add: wr_raw_def andthen_def [of wr_open_item]
        andthen_def [of "lift_sum _"] open_item_eq)
  also have "\<dots> = (Inr (), counted (put (enc_item t) ?w))"
    using emits_count [OF emits_emit ok] put(4) by simp
  finally have "wr_raw (enc_item t) w = (Inr (), counted (put (enc_item t) ?w))" .
  moreover have "writing (counted (put (enc_item t) ?w)) (settle_levels (count_levels L)) (out @ enc_item t) dst"
    using counted_eq [OF put(1)] put w(2) assms(6) by (simp add: writing_def)
  ultimately show ?thesis
    using assms(7) by (auto intro: runsI)
qed


section \<open>The search for a repeated key\<close>

definition enc_pairs :: "(key_rank \<times> item) list \<Rightarrow> bytes" where
  "enc_pairs kvs = concat (map (\<lambda>kv. item_bytes (rank_head (fst kv)) @ enc_item (snd kv)) kvs)"

lemma enc_pairs_simps [simp]:
  "enc_pairs [] = []"
  "enc_pairs (kv # kvs) = item_bytes (rank_head (fst kv)) @ enc_item (snd kv) @ enc_pairs kvs"
  by (simp_all add: enc_pairs_def)

definition skippable :: "item \<Rightarrow> bool" where
  "skippable t \<longleftrightarrow> wf_item t \<and> item_depth t \<le> NESTING"

lemma search_pairs:
  assumes "stands False False r [] (enc_pairs kvs)" and "list_all (\<lambda>kv. skippable (snd kv)) kvs"
  shows "search_loop k r = (if k \<in> fst ` set kvs then Inl RepeatedKey else Inr ())"
  using assms
proof (induction kvs arbitrary: r)
  case Nil
  then show ?case
    by (auto simp: search_loop.simps [of k r] stands_def ahead_def)
next
  case (Cons kv kvs)
  let ?k = "fst kv" and ?t = "snd kv"
  have r: "stands False False r [] (item_bytes (rank_head ?k) @ enc_item ?t @ enc_pairs kvs)"
    using Cons.prems(1) by simp
  have off: "checks_off r"
    using r by (simp add: stands_def checks_off_def)
  have more: "rd_next r < length (rd_bytes r)"
    using r length_item_bytes_pos [of "rank_head ?k"] by (auto simp: stands_def ahead_def)
      (metis append_is_Nil_conv drop_all leI length_greater_0_conv)
  obtain s where s: "head r = (Inr (rank_head ?k), s)" "stands False False s [] (enc_item ?t @ enc_pairs kvs)"
    using head_value [OF r] by auto
  have t: "wf_item ?t" "length ([] :: level list) + item_depth ?t \<le> NESTING"
    using Cons.prems(2) by (auto simp: skippable_def)
  obtain u where u: "skip s = (Inr (), u)" "stands False False u [] (enc_pairs kvs)"
    using skip_item [OF s(2) t(1) _ t(2)] by auto
  have "search_loop k u = (if k \<in> fst ` set kvs then Inl RepeatedKey else Inr ())"
    using Cons.IH [OF u(2)] Cons.prems(2) by simp
  then show ?case
    using search_loop_head [OF off, of k] more s(1) u(1) by auto
qed

section \<open>Properties\<close>

text \<open>A refused write writes nothing: whatever the writer's state, when any of its methods
  fails the buffer is byte for byte what it was and the position has not moved, so a caller
  can never send half an item.\<close>

theorem cbor_refused_write_writes_nothing:
  assumes "writer_ok w"
    and "m \<in> {wr_array n, wr_map n, wr_key k, wr_u64 a, wr_i32 i, wr_bool b, wr_byte_string v,
               wr_text v, wr_raw v}"
    and "m w = (x, w')"
  shows "writer_ok w' \<and> (\<forall>err. x = Inl err \<longrightarrow> wr_dst w' = wr_dst w \<and> wr_next w' = wr_next w)"
proof -
  have "refusing m"
    using assms(2) refusing_array refusing_map refusing_key refusing_byte_string refusing_text refusing_raw
      appends_refusing [OF appends_u64] appends_refusing [OF appends_i32] appends_refusing [OF appends_bool]
    by auto
  from refusingD [OF this assms(1,3)] show ?thesis
    by blast
qed

lemma cbor_refused_write_writes_nothing_witness:
  "writer_ok (snd (wr_u64 500 (writer_over [7, 7]))) \<and>
   (if \<exists>err. fst (wr_u64 500 (writer_over [7, 7])) = Inl err
    then wr_dst (snd (wr_u64 500 (writer_over [7, 7]))) = [7, 7] else True)"
  using cbor_refused_write_writes_nothing [where w = "writer_over [7, 7]" and m = "wr_u64 500" and a = 500
      and x = "fst (wr_u64 500 (writer_over [7, 7]))" and w' = "snd (wr_u64 500 (writer_over [7, 7]))"]
  by (auto simp: writer_over_def writer_ok_def usize_max_def)

text \<open>The writer's integers are in shortest form and the reader gives them back: one byte
  below 24, then two, three, five and nine at the thresholds \<open>2^8\<close>, \<open>2^16\<close> and \<open>2^32\<close>.\<close>

theorem cbor_uint_round_trip:
  assumes "9 \<le> length dst" and "length dst \<le> usize_max"
  shows "\<exists>w. wr_u64 v (writer_over dst) = (Inr (), w) \<and>
    wr_finish w = Inr (if v < 24 then 1 else if v < 2 ^ 8 then 2 else if v < 2 ^ 16 then 3
                       else if v < 2 ^ 32 then 5 else 9) \<and>
    (\<exists>r. rd_u64 (reader_over (take (wr_next w) (wr_dst w))) = (Inr v, r) \<and> rd_finish r = Inr ())"
proof -
  let ?bs = "head_bytes Unsigned v"
  have len: "length ?bs = (if v < 24 then 1 else if v < 2 ^ 8 then 2 else if v < 2 ^ 16 then 3
                       else if v < 2 ^ 32 then 5 else 9)"
    by (auto simp: width_of_def word_less_nat_alt word_le_nat_alt)
  have "length ?bs \<le> 9"
    using width_bytes_le by simp
  then have "runs (wr_u64 v) (writer_over dst) (\<lambda>_ w. writing w [] ?bs dst)"
    using assms by (intro write_u64_rule [OF writing_over]) auto
  then obtain w where w: "wr_u64 v (writer_over dst) = (Inr (), w)" "writing w [] ?bs dst"
    by (auto simp: runs_def)
  have out: "take (wr_next w) (wr_dst w) = ?bs"
    using w(2) by (auto simp: writing_def splice_def)
  have "runs rd_u64 (reader_over ?bs) (\<lambda>x r. x = v \<and> reading r [] [])"
  proof (rule read_u64_rule)
    show "reading (reader_over ?bs) [] (head_bytes Unsigned v @ [])"
      using stands_over [of ?bs] assms \<open>length ?bs \<le> 9\<close> by simp
  qed auto
  then show ?thesis
    using w(1) write_finish [OF w(2)] len out read_finish by (auto simp: runs_def)
qed

lemma cbor_uint_round_trip_witness:
  "\<exists>w. wr_u64 24 (writer_over (replicate 9 0)) = (Inr (), w) \<and> wr_finish w = Inr 2"
  using cbor_uint_round_trip [of "replicate 9 0" 24] by (auto simp: usize_max_def)

text \<open>An item this version has no schema for travels unchanged: copied in by \<open>raw\<close>, read
  back by \<open>raw\<close>, however its containers nest up to the limit, its bytes are what they were
  and nothing is left over.\<close>

theorem cbor_raw_round_trip:
  assumes "skippable t" and "length (enc_item t) \<le> length dst" and "length dst \<le> usize_max"
  shows "\<exists>w. wr_raw (enc_item t) (writer_over dst) = (Inr (), w) \<and> wr_finish w = Inr (length (enc_item t)) \<and>
    wr_dst w = splice dst 0 (enc_item t) \<and>
    (\<exists>r. rd_raw (reader_over (enc_item t)) = (Inr (enc_item t), r) \<and> rd_finish r = Inr ())"
proof -
  have t: "wf_item t" "length ([] :: level list) + item_depth t \<le> NESTING"
    using assms(1) by (auto simp: skippable_def)
  have "runs (wr_raw (enc_item t)) (writer_over dst) (\<lambda>_ w. writing w [] (enc_item t) dst)"
    by (rule write_raw_rule [OF writing_over [OF assms(3)] _ _ t]) (use assms(2) in auto)
  then obtain w where w: "wr_raw (enc_item t) (writer_over dst) = (Inr (), w)" "writing w [] (enc_item t) dst"
    by (auto simp: runs_def)
  have "reading (reader_over (enc_item t)) [] (enc_item t @ [])"
    using stands_over [of "enc_item t"] assms by simp
  then have "runs rd_raw (reader_over (enc_item t)) (\<lambda>x r. x = enc_item t \<and> reading r [] [])"
    by (rule raw_rule [OF _ t(1) _ t(2)]) auto
  then show ?thesis
    using w write_finish [OF w(2)] read_finish by (auto simp: runs_def writing_def)
qed

lemma cbor_raw_round_trip_witness:
  "\<exists>w. wr_raw (enc_item (IMap [(KeyRank False 1, IArray [IUint 5, IBool True])])) (writer_over (replicate 16 0)) = (Inr (), w) \<and>
     wr_finish w = Inr 5"
  using cbor_raw_round_trip [of "IMap [(KeyRank False 1, IArray [IUint 5, IBool True])]" "replicate 16 0"]
  by (auto simp: skippable_def NESTING_val usize_max_def width_of_def)

text \<open>The search for a repeated key is exact: over any earlier pairs of a map, in any key
  order, their values nested as deep as the limit, it refuses the key if one of the pairs
  has it and accepts it if none has.\<close>

theorem cbor_search_exact:
  assumes "slice (rd_bytes r) (u_from u) (u_to u) = Some (enc_pairs kvs)"
    and "list_all (\<lambda>kv. skippable (snd kv)) kvs" and "length (enc_pairs kvs) \<le> usize_max"
  shows "search r u = (if u_key u \<in> fst ` set kvs then Inl RepeatedKey else Inr ())"
proof -
  have "stands False False ((reader_over (enc_pairs kvs))\<lparr>rd_checks := False\<rparr>) [] (enc_pairs kvs)"
    using stands_over [OF assms(3)] by (simp add: stands_def ahead_def)
  then show ?thesis
    using search_pairs assms(1,2) by (simp add: search_def)
qed

lemma cbor_search_exact_witness:
  "search (reader_over (enc_pairs [(KeyRank False 9, IUint 0)]))
     \<lparr>u_key = KeyRank False 9, u_from = 0, u_to = length (enc_pairs [(KeyRank False 9, IUint 0)])\<rparr> =
   (if KeyRank False 9 \<in> fst ` set [(KeyRank False 9, IUint 0)] then Inl RepeatedKey else Inr ())"
  using cbor_search_exact [where r = "reader_over (enc_pairs [(KeyRank False 9, IUint 0)])"
      and u = "\<lparr>u_key = KeyRank False 9, u_from = 0, u_to = length (enc_pairs [(KeyRank False 9, IUint 0)])\<rparr>"
      and kvs = "[(KeyRank False 9, IUint 0)]"]
  by (simp add: reader_over_def slice_def skippable_def NESTING_val usize_max_def width_of_def)

text \<open>No input makes the reader loop or leave its buffer: every head and every skip that
  succeeds consumes at least one byte, none moves back or past the end, and a refusal leaves
  the input and the position inside it.\<close>

theorem cbor_reader_progress:
  assumes "rd_next r \<le> length (rd_bytes r)" and "m \<in> {andthen head (\<lambda>_. ret ()), skip}"
    and "m r = (x, r')"
  shows "rd_bytes r' = rd_bytes r \<and> rd_next r \<le> rd_next r' \<and> rd_next r' \<le> length (rd_bytes r) \<and>
    (x = Inr () \<longrightarrow> rd_next r < rd_next r')"
proof -
  obtain y s where head: "head r = (y, s)"
    by fastforce
  from head_with_step [of search r y s] head have "advances r s"
    "\<And>h. y = Inr h \<Longrightarrow> rd_next r < rd_next s"
    by (auto simp: head_def)
  moreover have "advances r r'" "x = Inr () \<Longrightarrow> rd_next r < rd_next r'" if "m = skip"
    using that assms(3) skip_with_step [of search r x r'] by (auto simp: skip_def)
  ultimately show ?thesis
    using assms head by (cases y) (auto simp: advances_def)
qed

lemma cbor_reader_progress_witness:
  "rd_next (snd (skip (reader_over [0x9F, 0]))) \<le> length (rd_bytes (reader_over [0x9F, 0]))"
  using cbor_reader_progress [of "reader_over [0x9F, 0]" skip "fst (skip (reader_over [0x9F, 0]))"
      "snd (skip (reader_over [0x9F, 0]))"]
  by (simp only: reader_over_def) auto

end
