(* ===== verification/Body.thy ===== *)
theory Body
  imports Cbor_Item
begin

text \<open>
  What the message bodies share: the loop over a map's pairs with its \<open>once\<close> slots, the
  shape of an \<open>encode\<close> and a \<open>decode\<close>, and the contract every body codec keeps. A body's
  abstract value is its list of numbered fields, each an item tree; \<open>encode\<close> must write
  the deterministic encoding of exactly that map and \<open>decode\<close> must give the value back
  from it, with any pairs of a later version after its own.
\<close>

section \<open>The shape of a body decoder\<close>

text \<open>\<open>once(&mut slot, key, value)?\<close>: a second value for a key is refused.\<close>

definition once :: "'e \<Rightarrow> 'v option \<Rightarrow> 'v \<Rightarrow> ('s, 'e, 'v option) act" where
  "once duplicate slot v = (if slot \<noteq> None then fail duplicate else ret (Some v))"

text \<open>\<open>for _ in 0..pairs { match body.key()? { .. } }\<close>, the slots threaded through \<open>field\<close>.\<close>

definition pairs_loop ::
  "(cbor_error \<Rightarrow> 'e) \<Rightarrow> ('a \<Rightarrow> int \<Rightarrow> (reader, 'e, 'a) act) \<Rightarrow> nat \<Rightarrow> 'a \<Rightarrow> (reader, 'e, 'a) act" where
  "pairs_loop err field = (\<lambda>n. repeat_act n (\<lambda>acc. andthen (map_err err rd_key) (field acc)))"

definition map_fields ::
  "(cbor_error \<Rightarrow> 'e) \<Rightarrow> ('a \<Rightarrow> int \<Rightarrow> (reader, 'e, 'a) act) \<Rightarrow> 'a \<Rightarrow> (reader, 'e, 'a) act" where
  "map_fields err field acc = andthen (map_err err rd_map) (\<lambda>pairs. pairs_loop err field pairs acc)"

text \<open>\<open>_ => body.skip()?\<close>: a key this build does not know.\<close>

definition skipped :: "(cbor_error \<Rightarrow> 'e) \<Rightarrow> 'a \<Rightarrow> (reader, 'e, 'a) act" where
  "skipped err acc = andthen (map_err err skip) (\<lambda>_. ret acc)"

definition finishing :: "(cbor_error \<Rightarrow> 'e) \<Rightarrow> (reader, 'e, unit) act" where
  "finishing err r = (map_sum err id (rd_finish r), r)"

definition decoding :: "(reader, 'e, 'a) act \<Rightarrow> bytes \<Rightarrow> 'e + 'a" where
  "decoding m bs = fst (m (reader_over bs))"

text \<open>An encoder over \<open>&mut [u8]\<close>: the outcome, and the bytes as it leaves them.\<close>

definition encoding :: "(cbor_error \<Rightarrow> 'e) \<Rightarrow> (writer, 'e, unit) act \<Rightarrow> bytes \<Rightarrow> ('e + nat) \<times> bytes" where
  "encoding err m dst =
     (case m (writer_over dst) of
        (Inl e, w) \<Rightarrow> (Inl e, wr_dst w)
      | (Inr _, w) \<Rightarrow> (map_sum err id (wr_finish w), wr_dst w))"

section \<open>Fields\<close>

definition pairs_of :: "(int \<times> item) list \<Rightarrow> (key_rank \<times> item) list" where
  "pairs_of fs = map (\<lambda>(k, t). (key_rank k, t)) fs"

definition map_item :: "(int \<times> item) list \<Rightarrow> item" where
  "map_item fs = IMap (pairs_of fs)"

definition field_bytes :: "(int \<times> item) list \<Rightarrow> bytes" where
  "field_bytes fs = concat (map (\<lambda>(k, t). key_bytes k @ enc_item t) fs)"

definition map_bytes :: "(int \<times> item) list \<Rightarrow> bytes" where
  "map_bytes fs = enc_item (map_item fs)"

lemma field_bytes_simps [simp]:
  "field_bytes [] = []"
  "field_bytes ((k, t) # fs) = key_bytes k @ enc_item t @ field_bytes fs"
  "field_bytes (fs @ gs) = field_bytes fs @ field_bytes gs"
  by (simp_all add: field_bytes_def)

lemma key_item_bytes [simp]: "item_bytes (rank_head (key_rank k)) = key_bytes k"
  by (simp add: key_rank_def key_bytes_def)

lemma map_bytes_eq: "map_bytes fs = head_bytes Map (of_nat (length fs)) @ field_bytes fs"
proof -
  have "concat (map (\<lambda>kv. item_bytes (rank_head (fst kv)) @ enc_item (snd kv)) (pairs_of fs)) = field_bytes fs"
    by (induction fs) (auto simp: pairs_of_def)
  then show ?thesis
    by (simp add: map_bytes_def map_item_def pairs_of_def)
qed

lemma width_of_small [simp]:
  "width_of 0 = Inline" "width_of 1 = Inline"
  "(numeral n :: u64) < 24 \<Longrightarrow> width_of (numeral n) = Inline"
  by (simp_all add: width_of_def)

lemma field_bytes_length: "2 * length fs \<le> length (field_bytes fs)"
proof (induction fs)
  case (Cons f fs)
  then show ?case
    using enc_item_pos [of "snd f"] by (cases f) (simp add: Suc_le_eq del: length_greater_0_conv)
qed simp

section \<open>Rules for the loop\<close>

lemma runs_Pair [simp]: "runs (Pair (Inr x)) s Q \<longleftrightarrow> Q x s"
  by (simp add: runs_def)

lemma andthen_Pair [simp]: "andthen (Pair (Inr x)) f = f x" "andthen (Pair (Inl e)) f = Pair (Inl e)"
  by (simp_all add: andthen_def fun_eq_iff)

lemma andthen_lift_sum [simp]:
  "andthen (lift_sum (Inr x)) f = f x" "andthen (lift_sum (Inl e)) f = fail e"
  by (simp_all add: andthen_def fun_eq_iff)

lemma pairs_loop_0 [simp]: "pairs_loop err field 0 acc = ret acc"
  by (simp add: pairs_loop_def)

lemma pairs_loop_Suc:
  "pairs_loop err field (Suc n) acc =
     andthen (map_err err rd_key) (\<lambda>k. andthen (field acc k) (pairs_loop err field n))"
  by (simp add: pairs_loop_def andthen_assoc)

lemma map_fields_rule:
  assumes "reading r L (map_bytes fs @ xs)" and "\<not> levels_at_key L" and "length L < NESTING"
    and "\<And>r'. reading r' (settle_levels ((NMap, 2 * length fs, None) # count_levels L)) (field_bytes fs @ xs) \<Longrightarrow>
      runs (pairs_loop err field (length fs) acc) r' Q"
  shows "runs (map_fields err field acc) r Q"
  unfolding map_fields_def
proof (rule runs_andthen, rule runs_map_err, rule read_map_rule)
  show "reading r L (head_bytes Map (of_nat (length fs)) @ field_bytes fs @ xs)"
    using assms(1) by (simp add: map_bytes_eq)
  show "2 * length fs \<le> length (field_bytes fs @ xs)"
    using field_bytes_length [of fs] by simp
qed (use assms in auto)

lemma pairs_loop_step:
  assumes "reading r ((NMap, Suc (Suc (2 * n)), l) # rest) (key_bytes k @ xs)" and "next_key k l"
    and "\<And>r'. reading r' ((NMap, Suc (2 * n), Some (key_rank k)) # rest) xs \<Longrightarrow>
      runs (field acc k) r' (\<lambda>acc' t. runs (pairs_loop err field n acc') t Q)"
  shows "runs (pairs_loop err field (Suc n) acc) r Q"
  unfolding pairs_loop_Suc
proof (rule runs_andthen, rule runs_map_err, rule read_key_rule)
  show "reading r ((NMap, 2 * Suc n, l) # rest) (key_bytes k @ xs)"
    using assms(1) by simp
  show "runs (andthen (field acc k) (pairs_loop err field n)) r' Q"
    if "reading r' (settle_levels ((NMap, 2 * Suc n - 1, Some (key_rank k)) # rest)) xs" for r'
    using that assms(3) by (intro runs_andthen) simp
qed (use assms(2) in auto)

lemma runs_once: "Q (Some v) s \<Longrightarrow> runs (once d None v) s Q"
  by (simp add: once_def)

lemma runs_ok_orI: "case x of Some v \<Rightarrow> Q v s | None \<Rightarrow> False \<Longrightarrow> runs (ok_or e x) s Q"
  by (cases x) simp_all

text \<open>Pairs of a later version, after every key this one knows.\<close>

fun extends :: "int \<Rightarrow> nat \<Rightarrow> (int \<times> item) list \<Rightarrow> bool" where
  "extends k room [] \<longleftrightarrow> True"
| "extends k room ((j, t) # fs) \<longleftrightarrow>
     k < j \<and> good_key j \<and> wf_item t \<and> item_depth t \<le> room \<and> extends j room fs"

lemma pairs_loop_extended:
  assumes "reading r (settle_levels ((NMap, 2 * length fs, Some (key_rank l)) # rest)) (field_bytes fs @ xs)"
    and "good_key l \<and> l \<le> k" and "extends k room fs" and "Suc (length rest) + room \<le> NESTING"
    and "\<And>j. k < j \<Longrightarrow> field acc j = skipped err acc"
    and "\<And>r'. reading r' (settle_levels rest) xs \<Longrightarrow> Q acc r'"
  shows "runs (pairs_loop err field (length fs) acc) r Q"
  using assms(1,2,3,5)
proof (induction fs arbitrary: r k l)
  case Nil
  then show ?case using assms(6) by simp
next
  case (Cons f fs)
  obtain j t where f: "f = (j, t)"
    by fastforce
  have j: "k < j" "good_key j" "wf_item t" "item_depth t \<le> room" "extends j room fs"
    using Cons.prems(3) f by simp_all
  have "runs (pairs_loop err field (Suc (length fs)) acc) r Q"
  proof (rule pairs_loop_step)
    show "reading r ((NMap, Suc (Suc (2 * length fs)), Some (key_rank l)) # rest)
        (key_bytes j @ enc_item t @ field_bytes fs @ xs)"
      using Cons.prems(1) f by simp
    show "next_key j (Some (key_rank l))"
      using j Cons.prems(2) by simp
    show "runs (field acc j) r' (\<lambda>acc' s. runs (pairs_loop err field (length fs) acc') s Q)"
      if r': "reading r' ((NMap, Suc (2 * length fs), Some (key_rank j)) # rest) (enc_item t @ field_bytes fs @ xs)"
      for r'
      unfolding Cons.prems(4) [OF j(1)] skipped_def
    proof (rule runs_andthen, rule runs_map_err, rule skip_rule [OF r' j(3)])
      show "length ((NMap, Suc (2 * length fs), Some (key_rank j)) # rest) + item_depth t \<le> NESTING"
        using assms(4) j(4) by simp
      show "runs (ret acc) s (\<lambda>acc' s. runs (pairs_loop err field (length fs) acc') s Q)"
        if "reading s (settle_levels (count_levels ((NMap, Suc (2 * length fs), Some (key_rank j)) # rest)))
            (field_bytes fs @ xs)" for s
        using that Cons.IH [of s j j] Cons.prems(4) j by simp
    qed simp
  qed
  then show ?case by simp
qed

text \<open>The value of a pair, one rule per method.\<close>

named_theorems loop_rules

abbreviation at_value :: "reader \<Rightarrow> nat \<Rightarrow> key_rank option \<Rightarrow> level list \<Rightarrow> bytes \<Rightarrow> bool" where
  "at_value r n l rest xs \<equiv> reading r ((NMap, Suc n, l) # rest) xs"

abbreviation at_pair :: "reader \<Rightarrow> nat \<Rightarrow> key_rank option \<Rightarrow> level list \<Rightarrow> bytes \<Rightarrow> bool" where
  "at_pair r n l rest xs \<equiv> reading r (settle_levels ((NMap, n, l) # rest)) xs"

lemma loop_u64 [loop_rules]:
  "at_value r n l rest (head_bytes Unsigned v @ xs) \<Longrightarrow> even n \<Longrightarrow> (\<And>r'. at_pair r' n l rest xs \<Longrightarrow> Q v r') \<Longrightarrow> runs rd_u64 r Q"
  by (rule read_u64_rule) auto

lemma loop_u32 [loop_rules]:
  "at_value r n l rest (head_bytes Unsigned (ucast (v :: u32)) @ xs) \<Longrightarrow> even n \<Longrightarrow> (\<And>r'. at_pair r' n l rest xs \<Longrightarrow> Q v r') \<Longrightarrow>
   runs rd_u32 r Q"
  by (rule read_u32_rule) auto

lemma loop_u16 [loop_rules]:
  "at_value r n l rest (head_bytes Unsigned (ucast (v :: u16)) @ xs) \<Longrightarrow> even n \<Longrightarrow> (\<And>r'. at_pair r' n l rest xs \<Longrightarrow> Q v r') \<Longrightarrow>
   runs rd_u16 r Q"
  by (rule read_u16_rule) auto

lemma loop_u8 [loop_rules]:
  "at_value r n l rest (head_bytes Unsigned (ucast (v :: u8)) @ xs) \<Longrightarrow> even n \<Longrightarrow> (\<And>r'. at_pair r' n l rest xs \<Longrightarrow> Q v r') \<Longrightarrow>
   runs rd_u8 r Q"
  by (rule read_u8_rule) auto

lemma loop_bool [loop_rules]:
  "at_value r n l rest (head_bytes Simple (if b then 21 else 20) @ xs) \<Longrightarrow> even n \<Longrightarrow> (\<And>r'. at_pair r' n l rest xs \<Longrightarrow> Q b r') \<Longrightarrow>
   runs rd_bool r Q"
  by (rule read_bool_rule) auto

lemma loop_bytes [loop_rules]:
  "at_value r n l rest (head_bytes Bytes (of_nat (length v)) @ v @ xs) \<Longrightarrow> even n \<Longrightarrow> (\<And>r'. at_pair r' n l rest xs \<Longrightarrow> Q v r') \<Longrightarrow>
   runs rd_byte_string r Q"
  by (rule read_bytes_rule) auto

lemma loop_text [loop_rules]:
  "at_value r n l rest (head_bytes Text (of_nat (length v)) @ v @ xs) \<Longrightarrow> length v \<le> MAX_STRING \<Longrightarrow> utf8 v \<Longrightarrow> even n \<Longrightarrow>
   (\<And>r'. at_pair r' n l rest xs \<Longrightarrow> Q v r') \<Longrightarrow> runs rd_text r Q"
  by (rule read_text_rule) auto

lemma loop_raw [loop_rules]:
  "at_value r n l [] (enc_item t @ xs) \<Longrightarrow> wf_item t \<Longrightarrow> item_depth t \<le> 7 \<Longrightarrow> even n \<Longrightarrow>
   (\<And>r'. at_pair r' n l [] xs \<Longrightarrow> Q (enc_item t) r') \<Longrightarrow> runs rd_raw r Q"
  by (rule raw_rule) (auto simp: NESTING_val)

section \<open>The shape of an encoder\<close>

lemma encoding_eq:
  assumes "length dst \<le> usize_max" and "runs m (writer_over dst) (\<lambda>_ w. writing w [] bs dst)"
  shows "encoding err m dst = (Inr (length bs), splice dst 0 bs)"
  using assms(2) write_finish by (auto simp: runs_def encoding_def writing_def)

lemma decoding_InrE:
  assumes "decoding m bs = Inr x"
  obtains s where "m (reader_over bs) = (Inr x, s)"
  using assms by (cases "m (reader_over bs)") (auto simp: decoding_def)

lemma lift_sum_InrE:
  assumes "lift_sum x s = (Inr y, t)"
  obtains "x = Inr y" and "t = s"
  using assms by simp

lemmas decode_InrE = decoding_InrE andthen_InrE ok_or_InrE lift_sum_InrE ret_InrE

lemma decoding_eq: "runs m (reader_over bs) (\<lambda>x r. x = v) \<Longrightarrow> decoding m bs = Inr v"
  by (auto simp: runs_def decoding_def)

lemma runs_finishing: "reading r [] [] \<Longrightarrow> Q () r \<Longrightarrow> runs (finishing err) r Q"
  by (auto simp: runs_def finishing_def read_finish)

lemma reading_over: "length bs \<le> usize_max \<Longrightarrow> reading (reader_over bs) [] (bs @ [])"
  using stands_over by simp

text \<open>How deep an item inside a top-level map may itself nest.\<close>

definition INNER :: nat where "INNER = NESTING - 1"

lemma INNER_val: "INNER = 7"
  by (simp add: INNER_def NESTING_val)

text \<open>The pairs after the last one known, at the top of a body.\<close>

lemma later_pairs:
  assumes "at_pair r (2 * length fs) (Some (key_rank l)) [] (field_bytes fs)" and "extends k INNER fs"
    and "good_key l" and "l \<le> k"
    and "\<And>j. k < j \<Longrightarrow> field acc j = skipped err acc"
    and "\<And>r'. reading r' [] [] \<Longrightarrow> Q acc r'"
  shows "runs (pairs_loop err field (length fs) acc) r Q"
proof -
  have first: "at_pair r (2 * length fs) (Some (key_rank l)) [] (field_bytes fs @ [])"
    using assms(1) by simp
  have room: "Suc (length ([] :: level list)) + INNER \<le> NESTING"
    by (simp add: INNER_val NESTING_val)
  have finish: "reading r' (settle_levels []) [] \<Longrightarrow> Q acc r'" for r'
    using assms(6) by simp
  show ?thesis
    by (rule pairs_loop_extended [where k = k and l = l and rest = "[]" and xs = "[]" and room = INNER and err = err])
      (fact first conjI [OF assms(3,4)] assms(2) room assms(5) finish)+
qed

text \<open>A body of which this version knows no key.\<close>

lemma skip_pairs:
  assumes "at_pair r (2 * length gs) None [] (field_bytes gs)" and "extends (- 1) INNER gs"
    and "\<And>r'. reading r' [] [] \<Longrightarrow> Q () r'"
  shows "runs (pairs_loop err (\<lambda>_ _. skipped err ()) (length gs) ()) r Q"
proof (cases gs)
  case Nil
  then show ?thesis using assms by simp
next
  case (Cons g hs)
  obtain j t where g: "g = (j, t)"
    by fastforce
  have j: "good_key j" "wf_item t" "item_depth t \<le> INNER" "extends j INNER hs"
    using assms(2) Cons g by simp_all
  have "runs (pairs_loop err (\<lambda>_ _. skipped err ()) (Suc (length hs)) ()) r Q"
  proof (rule pairs_loop_step)
    show "reading r [(NMap, Suc (Suc (2 * length hs)), None)] (key_bytes j @ enc_item t @ field_bytes hs)"
      using assms(1) Cons g by simp
    show "next_key j None"
      using j(1) by simp
    show "runs (skipped err ()) r' (\<lambda>acc' s. runs (pairs_loop err (\<lambda>_ _. skipped err ()) (length hs) acc') s Q)"
      if r': "reading r' [(NMap, Suc (2 * length hs), Some (key_rank j))] (enc_item t @ field_bytes hs)" for r'
      unfolding skipped_def
      by (rule runs_andthen, rule runs_map_err, rule skip_rule [OF r' j(2)])
        (use j assms(3) in \<open>auto intro!: later_pairs [where l = j and k = j] simp: INNER_val NESTING_val skipped_def\<close>)
  qed
  then show ?thesis
    using Cons by simp
qed

lemmas decode_rules = pairs_loop_step runs_andthen runs_map_err runs_ok_orI runs_once later_pairs runs_finishing loop_rules
lemmas encode_rules = runs_andthen wire_rules writing_over
lemmas body_simps = map_bytes_eq NESTING_val

lemma decodes:
  assumes "length (map_bytes fs) \<le> usize_max"
    and "\<And>r. at_pair r (2 * length fs) None [] (field_bytes fs) \<Longrightarrow>
      runs (pairs_loop err field (length fs) acc) r (\<lambda>x r. runs (f x) r (\<lambda>y _. y = v))"
  shows "decoding (andthen (map_fields err field acc) f) (map_bytes fs) = Inr v"
  by (intro decoding_eq runs_andthen map_fields_rule [OF reading_over])
    (use assms in \<open>auto simp: NESTING_val\<close>)

lemma encodes:
  assumes "length (map_bytes fs) \<le> length dst" and "length dst \<le> usize_max"
    and "runs m (writer_over dst) (\<lambda>_ w. writing w [] (map_bytes fs) dst)"
  shows "encoding err (map_err err m) dst = (Inr (length (map_bytes fs)), splice dst 0 (map_bytes fs))"
  using assms by (intro encoding_eq runs_map_err)

section \<open>What a decoder may give back\<close>

definition yields :: "('a \<Rightarrow> bool) \<Rightarrow> ('s, 'e, 'a) act \<Rightarrow> bool" where
  "yields P m \<longleftrightarrow> (\<forall>s x t. m s = (Inr x, t) \<longrightarrow> P x)"

lemma yieldsI: "(\<And>s x t. m s = (Inr x, t) \<Longrightarrow> P x) \<Longrightarrow> yields P m"
  by (simp add: yields_def)

lemma yieldsD: "yields P m \<Longrightarrow> m s = (Inr x, t) \<Longrightarrow> P x"
  unfolding yields_def by blast

lemma yields_andthen: "yields P m \<Longrightarrow> (\<And>x. P x \<Longrightarrow> yields Q (f x)) \<Longrightarrow> yields Q (andthen m f)"
  by (rule yieldsI) (blast elim: andthen_InrE dest: yieldsD)

lemma yields_then: "(\<And>x. yields Q (f x)) \<Longrightarrow> yields Q (andthen m f)"
  by (rule yieldsI) (blast elim: andthen_InrE dest: yieldsD)


lemma yields_simps [simp]:
  "yields P (ret x) \<longleftrightarrow> P x" "yields P (fail e)" "yields P (lift_sum (Inr x)) \<longleftrightarrow> P x"
  "yields P (map_err g m) \<longleftrightarrow> yields P m"
  by (auto simp: yields_def map_err_def split: prod.splits sum.splits)

lemma yields_once: "P (Some v) \<Longrightarrow> yields P (once d slot v)"
  by (simp add: once_def)

lemma yields_map_err: "yields P m \<Longrightarrow> yields P (map_err g m)"
  by simp

lemma yields_pairs_loop:
  assumes "P acc" and "\<And>a k. P a \<Longrightarrow> yields P (field a k)"
  shows "yields P (pairs_loop err field n acc)"
  using assms(1)
proof (induction n arbitrary: acc)
  case (Suc n)
  then show ?case
    unfolding pairs_loop_Suc by (intro yields_then yields_andthen [of P]) (use assms(2) in auto)
qed simp

lemma yields_take: "yields (\<lambda>v. length v \<le> usize_max) (rd_take n)"
  by (rule yieldsI) (auto simp: rd_take_def slice_def checked_add_def split: if_splits option.splits)

abbreviation small_string :: "head \<Rightarrow> bool" where
  "small_string h \<equiv> (\<forall>v. h = HBytes v \<longrightarrow> length v \<le> usize_max)"

lemma yields_decode: "yields small_string (rd_decode first)"
proof (cases "major_of first")
  case Simple
  then show ?thesis
    by (auto simp: rd_decode_def simple_head_def yields_def Let_def split: if_splits)
qed (auto simp: rd_decode_def intro!: yields_then yields_andthen [OF yields_take])

lemma yields_head: "yields small_string head"
proof (rule yieldsI)
  fix r h t
  assume "head r = (Inr h, t)"
  then obtain s where "head_byte search s = (Inr h, t)"
    unfolding head_def by (auto elim: head_with_split)
  then obtain at first u where "head_rest search at (rd_next s) first u = (Inr h, t)"
    by (auto simp: head_byte_def split: option.splits)
  moreover have "yields small_string (head_rest search at (rd_next s) first)"
    unfolding head_rest_def by (intro yields_andthen [OF yields_decode] yields_then) simp
  ultimately show "small_string h"
    by (rule yieldsD [rotated])
qed

lemma yields_byte_string: "yields (\<lambda>v. length v \<le> usize_max) rd_byte_string"
  unfolding rd_byte_string_def by (intro yields_andthen [OF yields_head]) (auto split: head.splits)

lemma fst_InrE:
  assumes "fst p = Inr x"
  obtains t where "p = (Inr x, t)"
  using assms by (cases p) simp

section \<open>The contract\<close>

locale body_codec =
  fixes encode :: "'a \<Rightarrow> bytes \<Rightarrow> ('e + nat) \<times> bytes"
    and decode :: "bytes \<Rightarrow> 'e + 'a"
    and fields :: "'a \<Rightarrow> (int \<times> item) list"
    and valid :: "'a \<Rightarrow> bool"
    and last_known :: int
  assumes encode_writes: "\<lbrakk>valid x; length (map_bytes (fields x)) \<le> length dst; length dst \<le> usize_max\<rbrakk> \<Longrightarrow>
      encode x dst = (Inr (length (map_bytes (fields x))), splice dst 0 (map_bytes (fields x)))"
    and decode_extended: "\<lbrakk>valid x; extends last_known INNER fs; length (map_bytes (fields x @ fs)) \<le> usize_max\<rbrakk> \<Longrightarrow>
      decode (map_bytes (fields x @ fs)) = Inr x"
begin

lemma decode_fields: "valid x \<Longrightarrow> length (map_bytes (fields x)) \<le> usize_max \<Longrightarrow> decode (map_bytes (fields x)) = Inr x"
  using decode_extended [of x "[]"] by simp

text \<open>What a sender writes, a receiver reads.\<close>

lemma round_trip:
  assumes "valid x" and "length (map_bytes (fields x)) \<le> length dst" and "length dst \<le> usize_max"
  shows "\<exists>n out. encode x dst = (Inr n, out) \<and> length out = length dst \<and> decode (take n out) = Inr x"
proof -
  have "encode x dst = (Inr (length (map_bytes (fields x))), splice dst 0 (map_bytes (fields x)))"
    using assms by (rule encode_writes)
  moreover have "take (length (map_bytes (fields x))) (splice dst 0 (map_bytes (fields x))) = map_bytes (fields x)"
    by (simp add: splice_def)
  ultimately show ?thesis
    using decode_fields [OF assms(1)] assms(2,3) by simp
qed

text \<open>Two values that are not the same are not the same bytes.\<close>

lemma fields_inj:
  assumes "valid x" and "valid y" and "length (map_bytes (fields x)) \<le> usize_max"
    and "map_bytes (fields x) = map_bytes (fields y)"
  shows "x = y"
  using decode_fields [of x] decode_fields [of y] assms by simp

text \<open>The same with the bound a caller sizes its buffer by.\<close>

lemma fits:
  assumes "valid x" and "length (map_bytes (fields x)) \<le> k" and "k \<le> length dst" and "length dst \<le> usize_max"
  shows "\<exists>n out. encode x dst = (Inr n, out) \<and> n \<le> k \<and> decode (take n out) = Inr x"
proof -
  have "encode x dst = (Inr (length (map_bytes (fields x))), splice dst 0 (map_bytes (fields x)))"
    using assms by (intro encode_writes) auto
  then show ?thesis
    using decode_fields [OF assms(1)] assms(2-4) by (simp add: splice_def)
qed

end

text \<open>A decoder that lets nothing through but what its encoder was made for.\<close>

locale faithful_codec = body_codec +
  assumes decode_valid: "decode bs = Inr x \<Longrightarrow> valid x"
begin

text \<open>Whatever was read can be written again, and reads the same.\<close>

lemma rewrite:
  assumes "decode bs = Inr x" and "length (map_bytes (fields x)) \<le> k" and "k \<le> length dst" and "length dst \<le> usize_max"
  shows "\<exists>n out. encode x dst = (Inr n, out) \<and> n \<le> k \<and> decode (take n out) = Inr x"
  by (rule fits [OF decode_valid [OF assms(1)] assms(2-4)])

end

end
