(* ===== verification/Envelope.thy ===== *)
theory Envelope
  imports Body Registry
begin

text \<open>
  \<open>crates/km43/src/envelope.rs\<close>: the four elements every message wears, read and written for
  the client transport and for the link between the two chips. A \<open>session_id\<close> of 0 is the
  absence of a session; the body reader is handed on standing at the body's first key.
\<close>

section \<open>Opcodes\<close>

definition ELEMENTS :: nat where "ELEMENTS = 4"

datatype opcode = Opcode u8

definition RESPONSE :: u8 where "RESPONSE = 0x80"
definition LINK_LOCAL_FIRST :: u8 where "LINK_LOCAL_FIRST = 0x60"
definition LINK_LOCAL_LAST :: u8 where "LINK_LOCAL_LAST = 0x7E"

definition opcode_of :: "message_type \<Rightarrow> opcode" where
  "opcode_of k = Opcode (message_type_num k)"

primrec opcode_byte :: "opcode \<Rightarrow> u8" where
  "opcode_byte (Opcode b) = b"

primrec opcode_is_response :: "opcode \<Rightarrow> bool" where
  "opcode_is_response (Opcode b) \<longleftrightarrow> b AND RESPONSE \<noteq> 0"

primrec is_link_local :: "opcode \<Rightarrow> bool" where
  "is_link_local (Opcode b) \<longleftrightarrow>
     (let request = b AND NOT RESPONSE in LINK_LOCAL_FIRST \<le> request \<and> request \<le> LINK_LOCAL_LAST)"

datatype envelope_error =
    WrongLength
  | UnknownType u8
  | LinkLocalType u8
  | EnvelopeCbor cbor_error

primrec client_type :: "opcode \<Rightarrow> envelope_error + message_type" where
  "client_type (Opcode b) =
     (if is_link_local (Opcode b) then Inl (LinkLocalType b)
      else case message_type_of b of Some k \<Rightarrow> Inr k | None \<Rightarrow> Inl (UnknownType b))"

section \<open>Sessions and headers\<close>

text \<open>The payload of \<open>Assigned\<close> is a \<open>NonZeroU16\<close>; \<open>session_ok\<close> is that type.\<close>

datatype session_id = NoSession | Assigned u16

definition session_of :: "u16 \<Rightarrow> session_id" where
  "session_of raw = (if raw = 0 then NoSession else Assigned raw)"

primrec session_num :: "session_id \<Rightarrow> u16" where
  "session_num NoSession = 0"
| "session_num (Assigned raw) = raw"

primrec session_ok :: "session_id \<Rightarrow> bool" where
  "session_ok NoSession \<longleftrightarrow> True"
| "session_ok (Assigned raw) \<longleftrightarrow> raw \<noteq> 0"

type_synonym req_id = u32

record header =
  h_kind :: message_type
  h_session :: session_id
  h_req_id :: req_id

definition header_is_response :: "header \<Rightarrow> bool" where
  "header_is_response h = opcode_is_response (opcode_of (h_kind h))"

definition write_scalars ::
  "opcode \<Rightarrow> session_id \<Rightarrow> req_id \<Rightarrow> nat \<Rightarrow> (writer, envelope_error, unit) act" where
  "write_scalars opcode session req_id keys = map_err EnvelopeCbor (
     andthen (wr_array ELEMENTS) (\<lambda>_.
     andthen (wr_u64 (ucast (opcode_byte opcode))) (\<lambda>_.
     andthen (wr_u64 (ucast (session_num session))) (\<lambda>_.
     andthen (wr_u64 (ucast req_id)) (\<lambda>_.
     wr_map keys)))))"

text \<open>The writer over \<open>dst\<close> that \<open>write\<close> hands back is the state the action leaves.\<close>

definition header_write :: "header \<Rightarrow> nat \<Rightarrow> (writer, envelope_error, unit) act" where
  "header_write h keys = write_scalars (opcode_of (h_kind h)) (h_session h) (h_req_id h) keys"

record link_header =
  lh_kind :: link_message_type
  lh_session :: session_id
  lh_req_id :: req_id

definition link_header_write :: "link_header \<Rightarrow> nat \<Rightarrow> (writer, envelope_error, unit) act" where
  "link_header_write h keys = write_scalars (Opcode (link_message_type_num (lh_kind h))) (lh_session h) (lh_req_id h) keys"

section \<open>Envelopes\<close>

record envelope =
  e_header :: header
  e_keys :: nat
  e_body :: reader

record link_envelope =
  le_opcode :: u8
  le_session :: session_id
  le_req_id :: req_id
  le_keys :: nat
  le_body :: reader

definition four_elements_open :: "(reader, envelope_error, unit) act" where
  "four_elements_open =
     andthen (map_err EnvelopeCbor rd_array) (\<lambda>elements.
     if elements \<noteq> ELEMENTS then fail WrongLength else ret ())"

definition scalars :: "(reader, envelope_error, u8 \<times> session_id \<times> req_id \<times> nat) act" where
  "scalars =
     andthen (map_err EnvelopeCbor rd_u8) (\<lambda>opcode.
     andthen (map_err EnvelopeCbor rd_u16) (\<lambda>session.
     andthen (map_err EnvelopeCbor rd_u32) (\<lambda>req_id.
     andthen (map_err EnvelopeCbor rd_map) (\<lambda>keys.
     ret (opcode, session_of session, req_id, keys)))))"

definition read_link :: "(reader, envelope_error, link_envelope) act" where
  "read_link =
     andthen scalars (\<lambda>(opcode, session, req_id, keys). reads (\<lambda>body.
       \<lparr>le_opcode = opcode, le_session = session, le_req_id = req_id, le_keys = keys, le_body = body\<rparr>))"

definition four_elements_read :: "(reader, envelope_error, envelope) act" where
  "four_elements_read =
     andthen (map_err EnvelopeCbor rd_u8) (\<lambda>b.
     andthen (lift_sum (client_type (Opcode b))) (\<lambda>mt.
     andthen (map_err EnvelopeCbor rd_u16) (\<lambda>session.
     andthen (map_err EnvelopeCbor rd_u32) (\<lambda>req_id.
     andthen (map_err EnvelopeCbor rd_map) (\<lambda>keys. reads (\<lambda>body.
       \<lparr>e_header = \<lparr>h_kind = mt, h_session = session_of session, h_req_id = req_id\<rparr>,
        e_keys = keys, e_body = body\<rparr>))))))"

definition envelope_decode :: "bytes \<Rightarrow> envelope_error + envelope" where
  "envelope_decode = decoding (andthen four_elements_open (\<lambda>_. four_elements_read))"

definition link_envelope_decode :: "bytes \<Rightarrow> envelope_error + link_envelope" where
  "link_envelope_decode = decoding (andthen four_elements_open (\<lambda>_. read_link))"

section \<open>Refusals\<close>

datatype refusal = RefuseClient error_code | RefuseLink link_error_code

primrec refusal_code :: "refusal \<Rightarrow> u16" where
  "refusal_code (RefuseClient c) = error_code_num c"
| "refusal_code (RefuseLink c) = link_error_code_num c"

primrec envelope_refusal :: "envelope_error \<Rightarrow> refusal" where
  "envelope_refusal WrongLength = RefuseClient Ec_MalformedFrame"
| "envelope_refusal (EnvelopeCbor _) = RefuseClient Ec_MalformedFrame"
| "envelope_refusal (UnknownType _) = RefuseClient Ec_UnknownMessageType"
| "envelope_refusal (LinkLocalType _) = RefuseLink Le_LinkTypeOnClientTransport"

section \<open>Opcode spaces\<close>

lemma client_type_of_kind: "client_type (opcode_of k) = Inr k"
proof -
  have "\<not> is_link_local (Opcode (message_type_num k))"
    by (cases k; simp add: RESPONSE_def LINK_LOCAL_FIRST_def LINK_LOCAL_LAST_def; simp add: word_le_nat_alt)
  then show ?thesis
    by (simp add: opcode_of_def message_type.of_num_of)
qed

lemma client_type_of_link: "client_type (Opcode (link_message_type_num l)) = Inl (LinkLocalType (link_message_type_num l))"
  by (cases l) (simp_all add: RESPONSE_def LINK_LOCAL_FIRST_def LINK_LOCAL_LAST_def)

lemma client_type_Inr: "client_type (Opcode b) = Inr k \<longleftrightarrow> b = message_type_num k"
proof
  assume "client_type (Opcode b) = Inr k"
  then have "message_type_of b = Some k"
    by (simp split: if_splits option.splits)
  then show "b = message_type_num k"
    by (simp add: message_type.of_num_iff)
next
  assume "b = message_type_num k"
  then show "client_type (Opcode b) = Inr k"
    using client_type_of_kind [of k] by (simp only: opcode_of_def)
qed

section \<open>What the envelope puts on the wire\<close>

definition scalar_bytes :: "u8 \<Rightarrow> session_id \<Rightarrow> req_id \<Rightarrow> bytes" where
  "scalar_bytes b session req_id =
     head_bytes Array (of_nat ELEMENTS) @ head_bytes Unsigned (ucast b) @
     head_bytes Unsigned (ucast (session_num session)) @ head_bytes Unsigned (ucast req_id)"

definition header_bytes :: "header \<Rightarrow> bytes" where
  "header_bytes h = scalar_bytes (message_type_num (h_kind h)) (h_session h) (h_req_id h)"

abbreviation body_levels :: "nat \<Rightarrow> level list" where
  "body_levels keys \<equiv> settle_levels [(NMap, 2 * keys, None), (NArray, 0, None)]"

lemma scalar_bytes_length: "length (scalar_bytes b session req_id) \<le> 1 + 2 + 3 + 5"
proof -
  have w: "width_bytes (width_of (ucast b)) \<le> 1" for b :: u8
    using unat_u8 [of b] by (simp add: width_of_def word_le_nat_alt ucast_u64_unat)
  have "width_bytes (width_of (ucast s)) \<le> 2" for s :: u16
    using unat_u16 [of s] by (simp add: width_of_def word_le_nat_alt ucast_u64_unat)
  moreover have "width_bytes (width_of (ucast q)) \<le> 4" for q :: u32
    using unat_u32 [of q] by (simp add: width_of_def word_le_nat_alt ucast_u64_unat)
  ultimately have "width_bytes (width_of (ucast b)) + (width_bytes (width_of (ucast (session_num session))) +
      width_bytes (width_of (ucast req_id))) \<le> 1 + (2 + 4)"
    using w by (intro add_mono)
  then show ?thesis
    by (simp add: scalar_bytes_def ELEMENTS_def)
qed

lemma session_of_num: "session_ok s \<Longrightarrow> session_of (session_num s) = s"
  by (cases s) (simp_all add: session_of_def)

lemma session_of_ok [simp]: "session_ok (session_of raw)"
  by (simp add: session_of_def)

lemma write_scalars_rule:
  assumes "length (scalar_bytes b session q) + length (head_bytes Map (of_nat keys)) \<le> length dst"
    and "length dst \<le> usize_max" and "2 * keys \<le> usize_max"
    and "\<And>w. writing w (body_levels keys) (scalar_bytes b session q @ head_bytes Map (of_nat keys)) dst \<Longrightarrow> Q () w"
  shows "runs (write_scalars (Opcode b) session q keys) (writer_over dst) Q"
  unfolding write_scalars_def using assms(1-3)
  by (intro runs_map_err)
    (simp add: scalar_bytes_def ELEMENTS_def NESTING_val usize_max_def | rule encode_rules | assumption
      | rule assms(4))+

definition scalar_rest :: "u8 \<Rightarrow> session_id \<Rightarrow> req_id \<Rightarrow> nat \<Rightarrow> bytes \<Rightarrow> bytes" where
  "scalar_rest b session q keys body =
     head_bytes Unsigned (ucast b) @ head_bytes Unsigned (ucast (session_num session)) @
     head_bytes Unsigned (ucast q) @ head_bytes Map (of_nat keys) @ body"

lemma four_elements_open_rule:
  assumes "reading r [] (head_bytes Array (of_nat ELEMENTS) @ scalar_rest b session q keys body)"
    and "\<And>r'. reading r' [(NArray, 4, None)] (scalar_rest b session q keys body) \<Longrightarrow> Q () r'"
  shows "runs four_elements_open r Q"
  unfolding four_elements_open_def
proof (intro runs_andthen runs_map_err, rule read_array_rule [OF assms(1)])
  show "ELEMENTS \<le> length (scalar_rest b session q keys body)"
    by (simp add: ELEMENTS_def scalar_rest_def)
qed (use assms(2) in \<open>simp_all add: NESTING_val ELEMENTS_def\<close>)

lemma scalars_rule:
  assumes "reading r [(NArray, 4, None)] (scalar_rest b session q keys body)" and "2 * keys \<le> length body"
    and "session_ok session"
    and "\<And>r'. reading r' (body_levels keys) body \<Longrightarrow> Q (b, session, q, keys) r'"
  shows "runs scalars r Q"
  unfolding scalars_def
  by (insert assms(1-3), simp add: scalar_rest_def, ((rule runs_andthen runs_map_err)+, rule wire_rules, assumption,
    simp_all add: NESTING_val session_of_num)+, rule assms(4))

lemma four_elements_read_rule:
  assumes "reading r [(NArray, 4, None)] (scalar_rest b session q keys body)" and "2 * keys \<le> length body"
    and "client_type (Opcode b) = Inr mt" and "session_ok session"
    and "\<And>r'. reading r' (body_levels keys) body \<Longrightarrow>
      Q \<lparr>e_header = \<lparr>h_kind = mt, h_session = session, h_req_id = q\<rparr>, e_keys = keys, e_body = r'\<rparr> r'"
  shows "runs four_elements_read r Q"
  unfolding four_elements_read_def
  by (insert assms(1-4), simp add: scalar_rest_def del: client_type.simps, ((rule runs_andthen runs_map_err)+,
    rule wire_rules, assumption, simp_all add: NESTING_val session_of_num del: client_type.simps)+, rule assms(5))

lemma envelope_decode_eq:
  assumes "session_ok (h_session h)" and "2 * keys \<le> length body"
    and "length (header_bytes h @ head_bytes Map (of_nat keys) @ body) \<le> usize_max"
  obtains r where "envelope_decode (header_bytes h @ head_bytes Map (of_nat keys) @ body) =
      Inr \<lparr>e_header = h, e_keys = keys, e_body = r\<rparr>"
    and "reading r (body_levels keys) body"
proof -
  let ?b = "message_type_num (h_kind h)" and ?bs = "header_bytes h @ head_bytes Map (of_nat keys) @ body"
  have bs: "?bs = head_bytes Array (of_nat ELEMENTS) @ scalar_rest ?b (h_session h) (h_req_id h) keys body"
    by (simp add: header_bytes_def scalar_bytes_def scalar_rest_def)
  have "runs (andthen four_elements_open (\<lambda>_. four_elements_read)) (reader_over ?bs)
      (\<lambda>e _. e_header e = h \<and> e_keys e = keys \<and> reading (e_body e) (body_levels keys) body)"
  proof (rule runs_andthen, rule four_elements_open_rule)
    show "reading (reader_over ?bs) []
        (head_bytes Array (of_nat ELEMENTS) @ scalar_rest ?b (h_session h) (h_req_id h) keys body)"
      unfolding bs [symmetric] using assms(3) by (rule stands_over)
    show "runs four_elements_read r'
        (\<lambda>e _. e_header e = h \<and> e_keys e = keys \<and> reading (e_body e) (body_levels keys) body)"
      if "reading r' [(NArray, 4, None)] (scalar_rest ?b (h_session h) (h_req_id h) keys body)" for r'
      using assms(1,2) client_type_of_kind [of "h_kind h"]
      by (intro four_elements_read_rule [OF that]) (auto simp: opcode_of_def)
  qed
  then obtain e where "envelope_decode ?bs = Inr e" "e_header e = h" "e_keys e = keys"
    "reading (e_body e) (body_levels keys) body"
    by (auto simp: envelope_decode_def decoding_def runs_def)
  then show ?thesis
    using that [of "e_body e"] by (cases e) simp
qed

lemma link_envelope_decode_eq:
  assumes "session_ok session" and "2 * keys \<le> length body"
    and "length (scalar_bytes b session q @ head_bytes Map (of_nat keys) @ body) \<le> usize_max"
  obtains r where "link_envelope_decode (scalar_bytes b session q @ head_bytes Map (of_nat keys) @ body) =
      Inr \<lparr>le_opcode = b, le_session = session, le_req_id = q, le_keys = keys, le_body = r\<rparr>"
    and "reading r (body_levels keys) body"
proof -
  let ?bs = "scalar_bytes b session q @ head_bytes Map (of_nat keys) @ body"
  have bs: "?bs = head_bytes Array (of_nat ELEMENTS) @ scalar_rest b session q keys body"
    by (simp add: scalar_bytes_def scalar_rest_def)
  have "runs (andthen four_elements_open (\<lambda>_. read_link)) (reader_over ?bs)
      (\<lambda>e _. \<exists>r. e = \<lparr>le_opcode = b, le_session = session, le_req_id = q, le_keys = keys, le_body = r\<rparr> \<and>
        reading r (body_levels keys) body)"
    unfolding read_link_def bs using assms(1,2) assms(3) [unfolded bs]
    by (intro runs_andthen four_elements_open_rule [OF stands_over] scalars_rule) auto
  then show ?thesis
    using that by (auto simp: link_envelope_decode_def decoding_def runs_def)
qed

lemma envelope_decode_refused_type:
  assumes "client_type (Opcode b) = Inl err"
    and "length (head_bytes Array (of_nat ELEMENTS) @ scalar_rest b session q keys body) \<le> usize_max"
  shows "envelope_decode (head_bytes Array (of_nat ELEMENTS) @ scalar_rest b session q keys body) = Inl err"
proof -
  let ?bs = "head_bytes Array (of_nat ELEMENTS) @ scalar_rest b session q keys body"
  have "runs (andthen four_elements_open (\<lambda>_. map_err EnvelopeCbor rd_u8)) (reader_over ?bs) (\<lambda>v _. v = b)"
    by (intro runs_andthen four_elements_open_rule [OF stands_over [OF assms(2)]])
      (auto intro!: runs_map_err read_u8_rule simp: scalar_rest_def)
  then obtain r r' where r: "four_elements_open (reader_over ?bs) = (Inr (), r)"
    "map_err EnvelopeCbor rd_u8 r = (Inr b, r')"
    unfolding runs_def by (auto elim!: andthen_InrE)
  show ?thesis
    using r assms(1)
    by (simp add: envelope_decode_def decoding_def four_elements_read_def andthen_def del: client_type.simps)
qed

section \<open>Properties\<close>

text \<open>A header survives the wire: written over any buffer that holds it and followed by any
  body of the promised pairs, the receiver decodes the same type, session, \<open>req_id\<close> and number
  of pairs, and its reader stands at the body's first byte.\<close>

theorem envelope_round_trip:
  assumes "session_ok (h_session h)" and "2 * keys \<le> length body"
    and "length (header_bytes h @ head_bytes Map (of_nat keys)) \<le> length dst"
    and "length dst + length body \<le> usize_max"
  shows "\<exists>w r. header_write h keys (writer_over dst) = (Inr (), w) \<and>
    envelope_decode (take (wr_next w) (wr_dst w) @ body) = Inr \<lparr>e_header = h, e_keys = keys, e_body = r\<rparr> \<and>
    reading r (body_levels keys) body"
proof -
  let ?out = "header_bytes h @ head_bytes Map (of_nat keys)"
  have "runs (header_write h keys) (writer_over dst) (\<lambda>_ w. writing w (body_levels keys) ?out dst)"
    unfolding header_write_def opcode_of_def header_bytes_def
    using assms by (intro write_scalars_rule) (auto simp: header_bytes_def)
  then obtain w where w: "header_write h keys (writer_over dst) = (Inr (), w)"
    "writing w (body_levels keys) ?out dst"
    by (auto simp: runs_def)
  have out: "take (wr_next w) (wr_dst w) = ?out"
    using w(2) by (simp add: writing_def splice_def)
  obtain r where "envelope_decode (header_bytes h @ head_bytes Map (of_nat keys) @ body) =
      Inr \<lparr>e_header = h, e_keys = keys, e_body = r\<rparr>" "reading r (body_levels keys) body"
    using assms by (elim envelope_decode_eq) (auto simp: header_bytes_def)
  then show ?thesis
    using w(1) out by auto
qed

definition example_header :: header where
  "example_header = \<lparr>h_kind = Mt_GetConfig, h_session = Assigned 3, h_req_id = 70000\<rparr>"

lemma envelope_round_trip_witness:
  "\<exists>w r. header_write example_header 1 (writer_over (replicate 16 0)) = (Inr (), w) \<and>
    envelope_decode (take (wr_next w) (wr_dst w) @ [1, 5]) = Inr \<lparr>e_header = example_header, e_keys = 1, e_body = r\<rparr> \<and>
    reading r (body_levels 1) [1, 5]"
  by (rule envelope_round_trip)
    (simp_all add: example_header_def header_bytes_def scalar_bytes_def ELEMENTS_def usize_max_def width_of_def)

text \<open>The two opcode spaces are disjoint: every client type is accepted as itself, and a
  frame of the link between the chips, whatever its type, session and body, is refused on a
  client transport as error 257 and decodes on the link to what was written.\<close>

theorem link_frames_stay_on_the_link:
  assumes "session_ok session" and "2 * keys \<le> length body"
    and "length (scalar_bytes (link_message_type_num l) session q @ head_bytes Map (of_nat keys) @ body) \<le> usize_max"
  shows "client_type (opcode_of k) = Inr k \<and>
    (\<exists>err. envelope_decode (scalar_bytes (link_message_type_num l) session q @ head_bytes Map (of_nat keys) @ body) = Inl err \<and>
      refusal_code (envelope_refusal err) = 257) \<and>
    (\<exists>r. link_envelope_decode (scalar_bytes (link_message_type_num l) session q @ head_bytes Map (of_nat keys) @ body) =
      Inr \<lparr>le_opcode = link_message_type_num l, le_session = session, le_req_id = q, le_keys = keys, le_body = r\<rparr>)"
proof (intro conjI client_type_of_kind)
  let ?b = "link_message_type_num l"
  have bs: "scalar_bytes ?b session q @ head_bytes Map (of_nat keys) @ body =
      head_bytes Array (of_nat ELEMENTS) @ scalar_rest ?b session q keys body"
    by (simp add: scalar_bytes_def scalar_rest_def)
  show "\<exists>err. envelope_decode (scalar_bytes ?b session q @ head_bytes Map (of_nat keys) @ body) = Inl err \<and>
      refusal_code (envelope_refusal err) = 257"
    using envelope_decode_refused_type [OF client_type_of_link assms(3) [unfolded bs]]
    unfolding bs by simp
  show "\<exists>r. link_envelope_decode (scalar_bytes ?b session q @ head_bytes Map (of_nat keys) @ body) =
      Inr \<lparr>le_opcode = ?b, le_session = session, le_req_id = q, le_keys = keys, le_body = r\<rparr>"
    using link_envelope_decode_eq [OF assms] by blast
qed

lemma link_frames_stay_on_the_link_witness:
  "\<exists>err. envelope_decode (scalar_bytes (link_message_type_num Lm_Heartbeat) NoSession 9 @ head_bytes Map (of_nat 0) @ []) =
     Inl err \<and> refusal_code (envelope_refusal err) = 257"
  using link_frames_stay_on_the_link [of NoSession 0 "[]" Lm_Heartbeat 9 Mt_Hello]
  by (simp add: scalar_bytes_def ELEMENTS_def usize_max_def width_of_def)

text \<open>An envelope of any other length is refused for its length, before the element that
  would be its type is looked at: nothing after the array head changes the answer.\<close>

theorem envelope_length_first:
  assumes "n \<noteq> 4" and "n \<le> length xs" and "length (head_bytes Array (of_nat n) @ xs) \<le> usize_max"
  shows "envelope_decode (head_bytes Array (of_nat n) @ xs) = Inl WrongLength"
proof -
  have "runs rd_array (reader_over (head_bytes Array (of_nat n) @ xs)) (\<lambda>m _. m = n)"
    by (rule read_array_rule [OF stands_over [OF assms(3)]]) (use assms(2) in \<open>auto simp: NESTING_val\<close>)
  then obtain r where "map_err EnvelopeCbor rd_array (reader_over (head_bytes Array (of_nat n) @ xs)) = (Inr n, r)"
    by (auto simp: runs_def)
  then show ?thesis
    using assms(1)
    by (simp add: envelope_decode_def decoding_def four_elements_open_def ELEMENTS_def andthen_def)
qed

lemma envelope_length_first_witness:
  "envelope_decode (head_bytes Array (of_nat 5) @ [0xFF, 0xFF, 0xFF, 0xFF, 0xFF]) = Inl WrongLength"
  by (rule envelope_length_first) (simp_all add: usize_max_def width_of_def)

end
