(* ===== verification/Time.thy ===== *)
theory Time
  imports Body Registry
begin

text \<open>
  \<open>crates/km43/src/time.rs\<close>: the signed operation that sets the clock and the controller's
  answer. Key 2 of the operation is retired and skipped like any unknown key.
\<close>

section \<open>Keys\<close>

datatype time_key = TimeAt

definition TIME_KEY_COUNT :: nat where "TIME_KEY_COUNT = 1"

definition time_key_of :: "int \<Rightarrow> time_key option" where
  "time_key_of number = (if number = 1 then Some TimeAt else None)"

primrec time_key_number :: "time_key \<Rightarrow> int" where
  "time_key_number TimeAt = 1"

datatype time_ack_key = TimeAckOutcome | TimeAckAt

definition time_ack_key_of :: "int \<Rightarrow> time_ack_key option" where
  "time_ack_key_of number =
     (if number = 1 then Some TimeAckOutcome else if number = 2 then Some TimeAckAt else None)"

primrec time_ack_key_number :: "time_ack_key \<Rightarrow> int" where
  "time_ack_key_number TimeAckOutcome = 1"
| "time_ack_key_number TimeAckAt = 2"

datatype time_body_key = TimeOperationKey time_key | TimeAckKey time_ack_key

datatype time_error =
    Time_Missing time_body_key
  | Time_Duplicate time_body_key
  | Time_UnknownOutcome u8
  | Time_AcceptedWithoutClock
  | Time_Cbor cbor_error

definition MAX_TIME_OPERATION_BYTES :: nat where "MAX_TIME_OPERATION_BYTES = 11"
definition MAX_TIME_ACK_BYTES :: nat where "MAX_TIME_ACK_BYTES = 13"

section \<open>The operation\<close>

record time_operation =
  to_at :: u64

definition time_operation_encode :: "time_operation \<Rightarrow> bytes \<Rightarrow> (time_error + nat) \<times> bytes" where
  "time_operation_encode op = encoding Time_Cbor (map_err Time_Cbor (
     andthen (wr_map TIME_KEY_COUNT) (\<lambda>_.
     andthen (wr_key (time_key_number TimeAt)) (\<lambda>_.
     wr_u64 (to_at op)))))"

definition time_operation_field :: "u64 option \<Rightarrow> int \<Rightarrow> (reader, time_error, u64 option) act" where
  "time_operation_field at number =
     (case time_key_of number of
        Some TimeAt \<Rightarrow> andthen (map_err Time_Cbor rd_u64) (once (Time_Duplicate (TimeOperationKey TimeAt)) at)
      | None \<Rightarrow> skipped Time_Cbor at)"

definition time_operation_decode :: "bytes \<Rightarrow> time_error + time_operation" where
  "time_operation_decode = decoding (
     andthen (map_fields Time_Cbor time_operation_field None) (\<lambda>at.
     andthen (finishing Time_Cbor) (\<lambda>_.
     andthen (ok_or (Time_Missing (TimeOperationKey TimeAt)) at) (\<lambda>t.
     ret \<lparr>to_at = t\<rparr>))))"

section \<open>The answer\<close>

record time_ack =
  ta_outcome :: time_outcome
  ta_at :: "u64 option"

fun time_ack_new :: "time_outcome \<Rightarrow> u64 option \<Rightarrow> time_error + time_ack" where
  "time_ack_new To_Accepted None = Inl Time_AcceptedWithoutClock"
| "time_ack_new outcome at = Inr \<lparr>ta_outcome = outcome, ta_at = at\<rparr>"

definition time_ack_encode :: "time_ack \<Rightarrow> bytes \<Rightarrow> (time_error + nat) \<times> bytes" where
  "time_ack_encode ack = encoding Time_Cbor (map_err Time_Cbor (
     andthen (wr_map (if ta_at ack \<noteq> None then 2 else 1)) (\<lambda>_.
     andthen (wr_key (time_ack_key_number TimeAckOutcome)) (\<lambda>_.
     andthen (wr_u64 (ucast (time_outcome_num (ta_outcome ack)))) (\<lambda>_.
     case ta_at ack of
       Some at \<Rightarrow> andthen (wr_key (time_ack_key_number TimeAckAt)) (\<lambda>_. wr_u64 at)
     | None \<Rightarrow> ret ())))))"

fun time_ack_field ::
  "time_outcome option \<times> u64 option \<Rightarrow> int \<Rightarrow> (reader, time_error, time_outcome option \<times> u64 option) act" where
  "time_ack_field (outcome, at) number =
     (case time_ack_key_of number of
        Some TimeAckOutcome \<Rightarrow>
          andthen (map_err Time_Cbor rd_u8) (\<lambda>n.
          andthen (ok_or (Time_UnknownOutcome n) (time_outcome_of n)) (\<lambda>v.
          andthen (once (Time_Duplicate (TimeAckKey TimeAckOutcome)) outcome v) (\<lambda>o'. ret (o', at))))
      | Some TimeAckAt \<Rightarrow>
          andthen (map_err Time_Cbor rd_u64) (\<lambda>v.
          andthen (once (Time_Duplicate (TimeAckKey TimeAckAt)) at v) (\<lambda>a'. ret (outcome, a')))
      | None \<Rightarrow> skipped Time_Cbor (outcome, at))"

definition time_ack_decode :: "bytes \<Rightarrow> time_error + time_ack" where
  "time_ack_decode = decoding (
     andthen (map_fields Time_Cbor time_ack_field (None, None)) (\<lambda>(outcome, at).
     andthen (finishing Time_Cbor) (\<lambda>_.
     andthen (ok_or (Time_Missing (TimeAckKey TimeAckOutcome)) outcome) (\<lambda>o'.
     lift_sum (time_ack_new o' at)))))"

section \<open>Both are codecs\<close>

definition time_operation_fields :: "time_operation \<Rightarrow> (int \<times> item) list" where
  "time_operation_fields op = [(1, IUint (to_at op))]"

definition time_ack_fields :: "time_ack \<Rightarrow> (int \<times> item) list" where
  "time_ack_fields ack =
     (1, IUint (ucast (time_outcome_num (ta_outcome ack)))) #
     (case ta_at ack of Some at \<Rightarrow> [(2, IUint at)] | None \<Rightarrow> [])"

definition time_ack_valid :: "time_ack \<Rightarrow> bool" where
  "time_ack_valid ack \<longleftrightarrow> (ta_outcome ack = To_Accepted \<longrightarrow> ta_at ack \<noteq> None)"

lemmas time_defs = time_key_of_def time_ack_key_of_def TIME_KEY_COUNT_def

interpretation time_operation: body_codec time_operation_encode time_operation_decode time_operation_fields
  "\<lambda>_. True" 1
proof
  fix op :: time_operation and dst :: bytes
  assume "length (map_bytes (time_operation_fields op)) \<le> length dst" and "length dst \<le> usize_max"
  then show "time_operation_encode op dst =
      (Inr (length (map_bytes (time_operation_fields op))), splice dst 0 (map_bytes (time_operation_fields op)))"
    unfolding time_operation_encode_def
    by (intro encodes) (auto intro!: encode_rules simp: time_operation_fields_def time_defs body_simps)
next
  fix op :: time_operation and fs
  assume "extends 1 INNER fs" and "length (map_bytes (time_operation_fields op @ fs)) \<le> usize_max"
  then show "time_operation_decode (map_bytes (time_operation_fields op @ fs)) = Inr op"
    unfolding time_operation_decode_def
    by (intro decodes)
      (simp add: time_operation_fields_def time_operation_field_def time_defs | rule decode_rules)+
qed

lemma time_ack_new_valid: "time_ack_valid ack \<Longrightarrow> time_ack_new (ta_outcome ack) (ta_at ack) = Inr ack"
  by (cases ack rule: time_ack.cases; cases "ta_outcome ack"; cases "ta_at ack") (auto simp: time_ack_valid_def)

interpretation time_ack: body_codec time_ack_encode time_ack_decode time_ack_fields time_ack_valid 2
proof
  fix ack :: time_ack and dst :: bytes
  assume "length (map_bytes (time_ack_fields ack)) \<le> length dst" and "length dst \<le> usize_max"
  then show "time_ack_encode ack dst =
      (Inr (length (map_bytes (time_ack_fields ack))), splice dst 0 (map_bytes (time_ack_fields ack)))"
    unfolding time_ack_encode_def
    by (intro encodes; cases "ta_at ack")
      (auto intro!: encode_rules simp: time_ack_fields_def time_defs body_simps)
next
  fix ack :: time_ack and fs
  assume "time_ack_valid ack" and "extends 2 INNER fs" and "length (map_bytes (time_ack_fields ack @ fs)) \<le> usize_max"
  then show "time_ack_decode (map_bytes (time_ack_fields ack @ fs)) = Inr ack"
    unfolding time_ack_decode_def
    using time_ack_new_valid [of ack]
    by (intro decodes; cases "ta_at ack")
      (simp add: time_outcome.of_num_of time_ack_fields_def time_defs | rule decode_rules)+
qed

section \<open>Properties\<close>

text \<open>The clock a client sets is the clock the controller reads: into any buffer of
  \<open>MAX_TIME_OPERATION_BYTES\<close> the operation is written, within that bound and whatever time it
  names, and \<open>TimeOperation::decode\<close> gives it back from the bytes written.\<close>

theorem time_operation_round_trip:
  assumes "MAX_TIME_OPERATION_BYTES \<le> length dst" and "length dst \<le> usize_max"
  shows "\<exists>n out. time_operation_encode op dst = (Inr n, out) \<and> n \<le> MAX_TIME_OPERATION_BYTES \<and>
    length out = length dst \<and> time_operation_decode (take n out) = Inr op"
proof -
  have n: "length (map_bytes (time_operation_fields op)) \<le> MAX_TIME_OPERATION_BYTES"
    using width_bytes_le [of "width_of (to_at op)"]
    by (simp add: map_bytes_eq time_operation_fields_def MAX_TIME_OPERATION_BYTES_def)
  then show ?thesis
    using time_operation.encode_writes [of op dst] time_operation.round_trip [of op dst] assms
    by fastforce
qed

lemma time_operation_round_trip_witness:
  "\<exists>n out. time_operation_encode \<lparr>to_at = 1700000000000\<rparr> (replicate 11 0) = (Inr n, out) \<and>
    n \<le> MAX_TIME_OPERATION_BYTES \<and> length out = length (replicate 11 (0 :: u8)) \<and>
    time_operation_decode (take n out) = Inr \<lparr>to_at = 1700000000000\<rparr>"
  by (rule time_operation_round_trip) (simp_all add: MAX_TIME_OPERATION_BYTES_def usize_max_def)

text \<open>No bytes at all decode to an answer that moved the clock and does not say where: an
  \<open>accepted\<close> outcome always carries the clock, and every answer there is survives being sent,
  with pairs of a later version after it.\<close>

theorem time_ack_decode_exact:
  "(time_ack_decode bs = Inr ack \<longrightarrow> time_ack_valid ack) \<and>
   (time_ack_valid ack \<and> extends 2 INNER fs \<and> length (map_bytes (time_ack_fields ack @ fs)) \<le> usize_max \<longrightarrow>
      time_ack_decode (map_bytes (time_ack_fields ack @ fs)) = Inr ack)"
proof (intro conjI impI)
  assume "time_ack_decode bs = Inr ack"
  then obtain outcome at where "time_ack_new outcome at = Inr ack"
    unfolding time_ack_decode_def by (auto elim!: decode_InrE)
  then show "time_ack_valid ack"
    by (cases outcome; cases at) (auto simp: time_ack_valid_def)
qed (use time_ack.decode_extended in blast)

lemma time_ack_decode_exact_witness:
  "time_ack_decode (map_bytes [(1, IUint 1), (2, IUint 5), (7, IBool True)]) =
     Inr \<lparr>ta_outcome = To_Accepted, ta_at = Some 5\<rparr>"
  using time_ack_decode_exact [of "[]" "\<lparr>ta_outcome = To_Accepted, ta_at = Some 5\<rparr>" "[(7, IBool True)]"]
  by (simp add: time_ack_fields_def time_ack_valid_def map_bytes_eq INNER_val usize_max_def width_of_def)

end
