(* ===== verification/Anti_Replay.thy ===== *)
theory Anti_Replay
  imports Prelude
begin

text \<open>
  What an anti-replay guard promises, whatever it counts: the nonce window of a sealed session
  and the floor of an event stream are both interpretations. \<open>guard n g\<close> is the guard after it
  took \<open>n\<close>, or nothing when it refuses.
\<close>

primrec taken :: "('n \<Rightarrow> 'g \<Rightarrow> 'g option) \<Rightarrow> 'n list \<Rightarrow> 'g \<Rightarrow> 'n list \<times> 'g" where
  "taken guard [] g = ([], g)"
| "taken guard (n # ns) g =
     (case guard n g of
        None \<Rightarrow> taken guard ns g
      | Some g' \<Rightarrow> (case taken guard ns g' of (ms, g'') \<Rightarrow> (n # ms, g'')))"

locale anti_replay =
  fixes guard :: "'n \<Rightarrow> 'g \<Rightarrow> 'g option"
    and good :: "'g \<Rightarrow> bool"
  assumes take_good: "good g \<Longrightarrow> guard n g = Some g' \<Longrightarrow> good g'"
    and take_spends: "good g \<Longrightarrow> guard n g = Some g' \<Longrightarrow> guard n g' = None"
    and spent_stays: "good g \<Longrightarrow> guard n g = Some g' \<Longrightarrow> guard m g = None \<Longrightarrow> guard m g' = None"
begin

lemma taken_spent:
  assumes "good g" and "taken guard ns g = (ms, g')"
  shows "good g' \<and> distinct ms \<and> set ms \<subseteq> set ns \<and> (\<forall>m. guard m g = None \<longrightarrow> m \<notin> set ms \<and> guard m g' = None) \<and>
    (\<forall>m \<in> set ms. guard m g' = None)"
  using assms
proof (induction ns arbitrary: g ms)
  case (Cons n ns)
  show ?case
  proof (cases "guard n g")
    case None
    then show ?thesis
      using Cons.IH [of g ms] Cons.prems by auto
  next
    case (Some h)
    then obtain ks where ks: "taken guard ns h = (ks, g')" "ms = n # ks"
      using Cons.prems(2) by (auto split: prod.splits)
    have h: "good h" "guard n h = None" "\<And>m. guard m g = None \<Longrightarrow> guard m h = None"
      using Cons.prems(1) Some take_good take_spends spent_stays by blast+
    from Cons.IH [OF h(1) ks(1)] ks(2) h(2,3) Some show ?thesis
      by auto
  qed
qed simp

text \<open>However often and in whatever order the nonces arrive, none is taken twice.\<close>

lemma taken_once:
  assumes "good g"
  shows "distinct (fst (taken guard ns g))"
  using taken_spent [OF assms] by (metis prod.collapse)

end

end
