(* ===== verification/Crypto.thy ===== *)
theory Crypto
  imports Prelude
begin

text \<open>
  The primitives of \<open>crates/km43/src/noise.rs\<close> that come from other crates, as one argument of
  every definition that calls them: ChaCha20-Poly1305, SHA-256, HMAC-SHA256 and X25519. What
  the protocol relies on is \<open>crypto_ok\<close>; \<open>example_crypto\<close> is a concrete instance. Around
  them, the two functions every seal and every open goes through.
\<close>

definition KEY_BYTES :: nat where "KEY_BYTES = 32"
definition TAG_BYTES :: nat where "TAG_BYTES = 16"
definition SEALED_KEY_BYTES :: nat where "SEALED_KEY_BYTES = KEY_BYTES + TAG_BYTES"
definition CHALLENGE_BYTES :: nat where "CHALLENGE_BYTES = 16"

lemmas crypto_sizes = KEY_BYTES_def TAG_BYTES_def SEALED_KEY_BYTES_def

datatype noise_error =
    Noise_Truncated | Noise_Decrypt | Noise_LowOrderPoint | Noise_NonceExhausted | Noise_DestinationTooSmall

text \<open>
  \<open>c_encrypt\<close> gives the ciphertext and the tag or the length error, \<open>c_decrypt\<close> the plaintext
  if the tag verifies, \<open>c_dh\<close> the shared secret if it is contributory.
\<close>

record crypto =
  c_encrypt :: "bytes \<Rightarrow> bytes \<Rightarrow> bytes \<Rightarrow> bytes \<Rightarrow> (bytes \<times> bytes) option"
  c_decrypt :: "bytes \<Rightarrow> bytes \<Rightarrow> bytes \<Rightarrow> bytes \<Rightarrow> bytes \<Rightarrow> bytes option"
  c_sha256 :: "bytes \<Rightarrow> bytes"
  c_hmac :: "bytes \<Rightarrow> bytes \<Rightarrow> bytes"
  c_public :: "bytes \<Rightarrow> bytes"
  c_dh :: "bytes \<Rightarrow> bytes \<Rightarrow> bytes option"

text \<open>
  The documented behaviour relied on. Encryption of a buffer the address space can hold gives a
  ciphertext of its length and a 16-byte tag; decryption inverts it and accepts nothing else;
  digests, tags and keys have their sizes; a Diffie-Hellman of two key pairs is the same from
  either side.
\<close>

definition crypto_ok :: "crypto \<Rightarrow> bool" where
  "crypto_ok C \<longleftrightarrow>
     (\<forall>k n ad m. length m \<le> usize_max \<longrightarrow>
        (\<exists>c t. c_encrypt C k n ad m = Some (c, t) \<and> length c = length m \<and> length t = TAG_BYTES)) \<and>
     (\<forall>k n ad m c t. length m \<le> usize_max \<longrightarrow>
        c_decrypt C k n ad c t = Some m \<longleftrightarrow> c_encrypt C k n ad m = Some (c, t)) \<and>
     (\<forall>k n ad c t m. c_decrypt C k n ad c t = Some m \<longrightarrow> length m = length c) \<and>
     (\<forall>m. length (c_sha256 C m) = KEY_BYTES) \<and>
     (\<forall>k m. length (c_hmac C k m) = KEY_BYTES) \<and>
     (\<forall>a. length (c_public C a) = KEY_BYTES) \<and>
     (\<forall>a b. c_dh C a (c_public C b) = c_dh C b (c_public C a)) \<and>
     (\<forall>a p s. c_dh C a p = Some s \<longrightarrow> length s = KEY_BYTES)"

lemma crypto_ok_sizes:
  assumes "crypto_ok C"
  shows "length (c_sha256 C m) = KEY_BYTES" "length (c_hmac C k m) = KEY_BYTES" "length (c_public C a) = KEY_BYTES"
  using assms by (simp_all add: crypto_ok_def)

lemma crypto_ok_dh: "crypto_ok C \<Longrightarrow> c_dh C a (c_public C b) = c_dh C b (c_public C a)"
  by (simp add: crypto_ok_def)

lemma crypto_ok_encrypt:
  assumes "crypto_ok C" and "length m \<le> usize_max"
  obtains c t where "c_encrypt C k n ad m = Some (c, t)" and "length c = length m" and "length t = TAG_BYTES"
    and "c_decrypt C k n ad c t = Some m"
proof -
  have "\<exists>c t. c_encrypt C k n ad m = Some (c, t) \<and> length c = length m \<and> length t = TAG_BYTES"
    and "\<And>c t. c_decrypt C k n ad c t = Some m \<longleftrightarrow> c_encrypt C k n ad m = Some (c, t)"
    using assms by (simp_all add: crypto_ok_def)
  then show ?thesis
    using that by blast
qed

text \<open>Noise's nonce layout: four zero bytes, then the counter little-endian.\<close>

definition nonce_bytes :: "u64 \<Rightarrow> bytes" where
  "nonce_bytes nonce = replicate 4 0 @ le_bytes 8 nonce"

text \<open>Over the caller's body and tag buffers, as they come back.\<close>

definition seal_in_place ::
  "crypto \<Rightarrow> bytes \<Rightarrow> u64 \<Rightarrow> bytes \<Rightarrow> bytes \<Rightarrow> bytes \<Rightarrow> (noise_error + unit) \<times> bytes \<times> bytes" where
  "seal_in_place C key nonce ad body tag_out =
     (case c_encrypt C key (nonce_bytes nonce) ad body of
        None \<Rightarrow> (Inl Noise_DestinationTooSmall, body, tag_out)
      | Some (ciphertext, tag) \<Rightarrow>
          if TAG_BYTES \<le> length tag_out then (Inr (), ciphertext, splice tag_out 0 tag)
          else (Inl Noise_DestinationTooSmall, ciphertext, tag_out))"

definition open_in_place ::
  "crypto \<Rightarrow> bytes \<Rightarrow> u64 \<Rightarrow> bytes \<Rightarrow> bytes \<Rightarrow> bytes \<Rightarrow> (noise_error + unit) \<times> bytes" where
  "open_in_place C key nonce ad body tag =
     (if length tag \<noteq> TAG_BYTES then (Inl Noise_Truncated, body)
      else case c_decrypt C key (nonce_bytes nonce) ad body tag of
             None \<Rightarrow> (Inl Noise_Decrypt, body)
           | Some plain \<Rightarrow> (Inr (), plain))"

text \<open>What a seal puts in the frame.\<close>

definition sealed_bytes :: "crypto \<Rightarrow> bytes \<Rightarrow> u64 \<Rightarrow> bytes \<Rightarrow> bytes \<Rightarrow> bytes" where
  "sealed_bytes C key nonce ad m =
     (case c_encrypt C key (nonce_bytes nonce) ad m of Some (c, t) \<Rightarrow> c @ t | None \<Rightarrow> [])"

lemma seal_in_place_eq:
  assumes "crypto_ok C" and "length m \<le> usize_max" and "length tag_out = TAG_BYTES"
  obtains c t where "seal_in_place C key nonce ad m tag_out = (Inr (), c, t)"
    and "sealed_bytes C key nonce ad m = c @ t" and "length c = length m" and "length t = TAG_BYTES"
    and "open_in_place C key nonce ad c t = (Inr (), m)"
proof -
  obtain c t where ct: "c_encrypt C key (nonce_bytes nonce) ad m = Some (c, t)" "length c = length m"
    "length t = TAG_BYTES" "c_decrypt C key (nonce_bytes nonce) ad c t = Some m"
    using crypto_ok_encrypt [OF assms(1,2)] by blast
  then have "seal_in_place C key nonce ad m tag_out = (Inr (), c, t)"
    using assms(3) by (simp add: seal_in_place_def splice_def)
  then show ?thesis
    using that ct by (simp add: sealed_bytes_def open_in_place_def)
qed

lemma length_sealed_bytes:
  assumes "crypto_ok C" and "length m \<le> usize_max"
  shows "length (sealed_bytes C key nonce ad m) = length m + TAG_BYTES"
  using seal_in_place_eq [OF assms, of "replicate TAG_BYTES 0"] by (metis length_append length_replicate)

lemma open_in_place_ok:
  assumes "crypto_ok C" and "open_in_place C key nonce ad c t = (Inr (), m)" and "length c \<le> usize_max"
  shows "c_encrypt C key (nonce_bytes nonce) ad m = Some (c, t)" and "length m = length c"
    and "sealed_bytes C key nonce ad m = c @ t"
proof -
  have d: "c_decrypt C key (nonce_bytes nonce) ad c t = Some m"
    using assms(2) by (auto simp: open_in_place_def split: if_splits option.splits)
  show m: "length m = length c"
    using assms(1) d unfolding crypto_ok_def by blast
  show "c_encrypt C key (nonce_bytes nonce) ad m = Some (c, t)"
    using assms(1,3) d m unfolding crypto_ok_def by metis
  then show "sealed_bytes C key nonce ad m = c @ t"
    by (simp add: sealed_bytes_def)
qed

text \<open>An instance, for evaluation: no secrecy, but every law.\<close>

definition pad_to :: "nat \<Rightarrow> bytes \<Rightarrow> bytes" where
  "pad_to n xs = take n (xs @ replicate n 0)"

definition example_crypto :: crypto where
  "example_crypto = \<lparr>
     c_encrypt = (\<lambda>k n ad m. Some (m, pad_to TAG_BYTES (drop 4 n @ k))),
     c_decrypt = (\<lambda>k n ad c t. if t = pad_to TAG_BYTES (drop 4 n @ k) then Some c else None),
     c_sha256 = pad_to KEY_BYTES,
     c_hmac = (\<lambda>k m. pad_to KEY_BYTES (map2 (XOR) (pad_to KEY_BYTES k) (pad_to KEY_BYTES m))),
     c_public = pad_to KEY_BYTES,
     c_dh = (\<lambda>a p. Some (map2 (XOR) (pad_to KEY_BYTES a) (pad_to KEY_BYTES p)))\<rparr>"

lemma length_pad_to [simp]: "length (pad_to n xs) = n"
  by (simp add: pad_to_def)

lemma pad_to_same [simp]: "length xs = n \<Longrightarrow> pad_to n xs = xs"
  by (simp add: pad_to_def)

lemma map2_xor_commute: "map2 (XOR) xs ys = map2 (XOR) ys (xs :: bytes)"
  by (induction xs ys rule: list_induct2') (simp_all add: ac_simps)

lemma example_crypto_ok: "crypto_ok example_crypto"
  unfolding crypto_ok_def example_crypto_def using map2_xor_commute by (auto split: if_splits)

end
