(* ===== verification/Window.thy ===== *)
theory Window
  imports Anti_Replay Envelope Crypto
begin

text \<open>
  \<open>Window\<close> of \<open>crates/km43/src/sealed.rs\<close>: the highest nonce a receiving direction accepted and
  a bit for each of the positions below it. It implements the set of nonces accepted so far,
  restricted to the last \<open>span\<close> positions.
\<close>

datatype sealed_key = SealedKey | NonceKey

datatype seal_error =
    Seal_UnknownKey int
  | Seal_Duplicate sealed_key
  | Seal_Missing sealed_key
  | Seal_NotSealed message_type
  | Seal_EventCarriesReqId req_id
  | Seal_Replayed u64
  | Seal_TooOld u64
  | Seal_Reserved
  | Seal_Open noise_error
  | Seal_Exhausted
  | Seal_DestinationTooSmall
  | Seal_TooLargeToWrite
  | Seal_Cbor cbor_error

record window =
  w_highest :: "u64 option"
  w_seen :: u64
  w_span :: u64

definition window_new :: "nat \<Rightarrow> window" where
  "window_new span =
     \<lparr>w_highest = None, w_seen = 0, w_span = (if span < 2 ^ 64 then of_nat span else 64)\<rparr>"

definition saturating_sub64 :: "u64 \<Rightarrow> u64 \<Rightarrow> u64" where
  "saturating_sub64 a b = (if b \<le> a then a - b else 0)"

definition checked_shl :: "u64 \<Rightarrow> nat \<Rightarrow> u64 option" where
  "checked_shl v n = (if n < 64 then Some (push_bit n v) else None)"

text \<open>\<open>u32::try_from(age).ok().and_then(|age| v.checked_shl(age))\<close>.\<close>

definition shifted :: "u64 \<Rightarrow> u64 \<Rightarrow> u64 option" where
  "shifted v age = (if unat age < 2 ^ 32 then checked_shl v (unat age) else None)"

definition window_admits :: "window \<Rightarrow> u64 \<Rightarrow> seal_error + unit" where
  "window_admits w nonce =
     (case w_highest w of
        None \<Rightarrow> Inr ()
      | Some highest \<Rightarrow>
          if highest < nonce then Inr ()
          else let age = saturating_sub64 highest nonce in
            if w_span w \<le> age then Inl (Seal_TooOld nonce)
            else case shifted 1 age of
                   None \<Rightarrow> Inl (Seal_TooOld nonce)
                 | Some b \<Rightarrow> if w_seen w AND b = 0 then Inr () else Inl (Seal_Replayed nonce))"

definition window_accept :: "u64 \<Rightarrow> window \<Rightarrow> window" where
  "window_accept nonce w =
     (case w_highest w of
        None \<Rightarrow> w\<lparr>w_highest := Some nonce, w_seen := 1\<rparr>
      | Some highest \<Rightarrow>
          if highest < nonce then
            w\<lparr>w_seen := (case shifted (w_seen w) (saturating_sub64 nonce highest) of Some s \<Rightarrow> s | None \<Rightarrow> 0) OR 1,
              w_highest := Some nonce\<rparr>
          else case shifted 1 (saturating_sub64 highest nonce) of
                 Some b \<Rightarrow> w\<lparr>w_seen := w_seen w OR b\<rparr>
               | None \<Rightarrow> w)"

section \<open>The set it stands for\<close>

definition tracks :: "window \<Rightarrow> nat set \<Rightarrow> bool" where
  "tracks w S \<longleftrightarrow> unat (w_span w) \<le> 64 \<and>
     (case w_highest w of
        None \<Rightarrow> S = {}
      | Some highest \<Rightarrow> unat highest \<in> S \<and> (\<forall>n \<in> S. n \<le> unat highest) \<and>
          (\<forall>k < 64. bit (w_seen w) k \<longleftrightarrow> k \<le> unat highest \<and> unat highest - k \<in> S))"

text \<open>What a window with that set should admit.\<close>

definition admissible :: "nat \<Rightarrow> nat set \<Rightarrow> nat \<Rightarrow> bool" where
  "admissible span S n \<longleftrightarrow> S = {} \<or> Max S < n \<or> (Max S - n < span \<and> n \<notin> S)"

lemma shifted_eq: "shifted v age = (if unat age < 64 then Some (push_bit (unat age) v) else None)"
  by (simp add: shifted_def checked_shl_def)

lemma unat_saturating_sub64: "unat (saturating_sub64 a b) = unat a - unat b"
  by (simp add: saturating_sub64_def unat_sub word_le_nat_alt)

lemma bit_single: "(w :: u64) AND 2 ^ n = 0 \<longleftrightarrow> \<not> bit w n"
  by (rule and_exp_eq_0_iff_not_bit)

lemma bit_power: "k < 64 \<Longrightarrow> bit (2 ^ n :: u64) k \<longleftrightarrow> n = k"
  by (auto simp: bit_exp_iff possible_bit_word)

lemma tracks_new: "span \<le> 64 \<Longrightarrow> tracks (window_new span) {}"
  by (simp add: tracks_def window_new_def unat_of_nat)

lemma tracks_Max:
  assumes "tracks w S" and "w_highest w = Some h"
  shows "Max S = unat h" and "finite S" and "S \<noteq> {}"
proof -
  have S: "unat h \<in> S" "\<forall>n \<in> S. n \<le> unat h"
    using assms by (auto simp: tracks_def)
  then show "finite S"
    using finite_nat_set_iff_bounded_le by blast
  with S show "Max S = unat h"
    by (auto intro: Max_eqI)
  show "S \<noteq> {}"
    using S by auto
qed

lemma admits_iff:
  assumes "tracks w S"
  shows "window_admits w n = Inr () \<longleftrightarrow> admissible (unat (w_span w)) S (unat n)"
proof (cases "w_highest w")
  case None
  then show ?thesis
    using assms by (simp add: window_admits_def tracks_def admissible_def)
next
  case (Some h)
  note M = tracks_Max [OF assms Some]
  have seen: "bit (w_seen w) k \<longleftrightarrow> k \<le> unat h \<and> unat h - k \<in> S" if "k < 64" for k
    using that assms Some by (simp add: tracks_def)
  have span: "unat (w_span w) \<le> 64"
    using assms by (simp add: tracks_def)
  show ?thesis
  proof (cases "h < n")
    case True
    then show ?thesis
      using Some M by (simp add: window_admits_def admissible_def word_less_nat_alt)
  next
    case False
    then have le: "unat n \<le> unat h"
      by (simp add: word_less_nat_alt)
    show ?thesis
    proof (cases "unat h - unat n < unat (w_span w)")
      case True
      then have "window_admits w n = Inr () \<longleftrightarrow> \<not> bit (w_seen w) (unat h - unat n)"
        using span False Some
        by (simp add: window_admits_def Let_def shifted_eq unat_saturating_sub64 word_le_nat_alt bit_single)
      then show ?thesis
        using seen [of "unat h - unat n"] True span le M by (simp add: admissible_def)
    next
      case False
      then have "window_admits w n \<noteq> Inr ()"
        using \<open>\<not> h < n\<close> Some
        by (simp add: window_admits_def Let_def unat_saturating_sub64 word_le_nat_alt)
      then show ?thesis
        using False le M by (simp add: admissible_def)
    qed
  qed
qed

lemma accept_tracks:
  assumes "tracks w S"
  shows "tracks (window_accept n w) (insert (unat n) S)"
proof (cases "w_highest w")
  case None
  then show ?thesis
    using assms by (auto simp: window_accept_def tracks_def bit_1_iff)
next
  case (Some h)
  have S: "unat h \<in> S" "\<forall>m \<in> S. m \<le> unat h" "unat (w_span w) \<le> 64"
    and seen: "\<And>k. k < 64 \<Longrightarrow> bit (w_seen w) k \<longleftrightarrow> k \<le> unat h \<and> unat h - k \<in> S"
    using assms Some by (auto simp: tracks_def)
  show ?thesis
  proof (cases "h < n")
    case True
    then have lt: "unat h < unat n"
      by (simp add: word_less_nat_alt)
    let ?s = "unat n - unat h"
    let ?w = "window_accept n w"
    have highest: "w_highest ?w = Some n" "w_span ?w = w_span w"
      using True Some by (simp_all add: window_accept_def)
    have "bit (w_seen ?w) k \<longleftrightarrow> k \<le> unat n \<and> unat n - k \<in> insert (unat n) S" if k: "k < 64" for k
    proof -
      have "bit (w_seen ?w) k \<longleftrightarrow> k = 0 \<or> (?s \<le> k \<and> bit (w_seen w) (k - ?s))"
        using True Some k
        by (auto simp: window_accept_def shifted_eq unat_saturating_sub64 bit_or_iff bit_1_iff bit_push_bit_iff)
      also have "\<dots> \<longleftrightarrow> k = 0 \<or> (?s \<le> k \<and> k - ?s \<le> unat h \<and> unat h - (k - ?s) \<in> S)"
        using seen [of "k - ?s"] k by auto
      also have "\<dots> \<longleftrightarrow> k \<le> unat n \<and> unat n - k \<in> insert (unat n) S"
      proof -
        have "unat n - k \<in> S \<Longrightarrow> ?s \<le> k"
          using S(2) by fastforce
        moreover have "?s \<le> k \<Longrightarrow> unat h - (k - ?s) = unat n - k"
          using lt by simp
        ultimately show ?thesis
          using lt by auto
      qed
      finally show ?thesis .
    qed
    then show ?thesis
      using S lt highest by (auto simp: tracks_def)
  next
    case False
    then have le: "unat n \<le> unat h"
      by (simp add: word_less_nat_alt)
    let ?a = "unat h - unat n"
    let ?w = "window_accept n w"
    have highest: "w_highest ?w = Some h" "w_span ?w = w_span w"
      using False Some by (simp_all add: window_accept_def split: option.splits)
    have "bit (w_seen ?w) k \<longleftrightarrow> k \<le> unat h \<and> unat h - k \<in> insert (unat n) S" if k: "k < 64" for k
    proof -
      have "bit (w_seen ?w) k \<longleftrightarrow> bit (w_seen w) k \<or> k = ?a"
        using False Some k
        by (auto simp: window_accept_def shifted_eq unat_saturating_sub64 bit_or_iff bit_power)
      also have "\<dots> \<longleftrightarrow> k \<le> unat h \<and> unat h - k \<in> insert (unat n) S"
        using seen [OF k] le by auto
      finally show ?thesis .
    qed
    then show ?thesis
      using S le highest by (auto simp: tracks_def)
  qed
qed

section \<open>The window is an anti-replay guard\<close>

definition window_take :: "u64 \<Rightarrow> window \<Rightarrow> window option" where
  "window_take n w = (case window_admits w n of Inr _ \<Rightarrow> Some (window_accept n w) | Inl _ \<Rightarrow> None)"

lemma window_take_None: "tracks w S \<Longrightarrow> window_take n w = None \<longleftrightarrow> \<not> admissible (unat (w_span w)) S (unat n)"
  using admits_iff [of w S n] by (auto simp: window_take_def split: sum.splits)

lemma window_take_Some: "window_take n w = Some w' \<Longrightarrow> w' = window_accept n w"
  by (simp add: window_take_def split: sum.splits)

lemma span_window_accept [simp]: "w_span (window_accept n w) = w_span w"
  by (simp add: window_accept_def split: option.splits)

lemma admissible_insert:
  assumes "finite S" and "\<not> admissible span S m"
  shows "\<not> admissible span (insert n S) m"
proof -
  have "S \<noteq> {}" "m \<le> Max S" "span \<le> Max S - m \<or> m \<in> S"
    using assms(2) by (auto simp: admissible_def)
  moreover have "Max S \<le> Max (insert n S)"
    using assms(1) \<open>S \<noteq> {}\<close> by (simp add: Max_mono subset_insertI)
  ultimately show ?thesis
    by (auto simp: admissible_def simp del: Max_insert)
qed

definition window_good :: "window \<Rightarrow> bool" where
  "window_good w \<longleftrightarrow> (\<exists>S. finite S \<and> tracks w S)"

interpretation window: anti_replay window_take window_good
proof
  fix w n w' m
  assume "window_good w" and take: "window_take n w = Some w'"
  then obtain S where S: "finite S" "tracks w S" and w': "w' = window_accept n w"
    using window_take_Some by (auto simp: window_good_def)
  have S': "tracks w' (insert (unat n) S)"
    using accept_tracks [OF S(2)] w' by simp
  then show "window_good w'"
    unfolding window_good_def using S(1) by (intro exI [of _ "insert (unat n) S"]) simp
  have "\<not> admissible (unat (w_span w)) (insert (unat n) S) (unat n)"
    using S(1) by (auto simp: admissible_def not_less)
  then show "window_take n w' = None"
    using window_take_None [OF S'] w' by simp
  show "window_take m w' = None" if "window_take m w = None"
    using that window_take_None [OF S(2)] window_take_None [OF S'] admissible_insert [OF S(1)] w' by auto
qed

section \<open>Properties\<close>

text \<open>C27. The window implements the set of nonces accepted: after any run of arrivals, in any
  order and with any repetitions, a nonce is admitted exactly when it is above the highest
  accepted or is one of the last \<open>span\<close> positions and was not accepted before. A replay is
  never admitted and an honest late frame inside the window always is.\<close>

theorem window_admits_exactly_the_fresh:
  assumes "0 < span" and "span \<le> 64"
  shows "let (accepted, w) = taken window_take ns (window_new span) in
    distinct accepted \<and>
    (window_admits w n = Inr () \<longleftrightarrow>
       (n \<notin> set accepted \<and> (\<forall>m. m \<in> set accepted \<longrightarrow> unat m < unat n + span)))"
proof -
  have run: "finite S \<Longrightarrow> tracks w S \<Longrightarrow> taken window_take ks w = (ms, w') \<Longrightarrow>
      tracks w' (unat ` set ms \<union> S) \<and> w_span w' = w_span w" for ks ms w w' and S :: "nat set"
  proof (induction ks arbitrary: w ms S)
    case (Cons k ks)
    show ?case
    proof (cases "window_take k w")
      case None
      then show ?thesis
        using Cons.IH [OF Cons.prems(1,2)] Cons.prems(3) by simp
    next
      case (Some v)
      then obtain js where js: "taken window_take ks v = (js, w')" "ms = k # js"
        using Cons.prems(3) by (auto split: prod.splits)
      have v: "v = window_accept k w"
        using Some by (rule window_take_Some)
      have "tracks w' (unat ` set js \<union> insert (unat k) S) \<and> w_span w' = w_span v"
        using accept_tracks [OF Cons.prems(2), of k] Cons.prems(1) v js(1) by (intro Cons.IH) simp_all
      then show ?thesis
        using js(2) v by simp
    qed
  qed simp
  obtain accepted w where w: "taken window_take ns (window_new span) = (accepted, w)"
    by fastforce
  let ?S = "unat ` set accepted"
  have start: "tracks (window_new span) {}"
    using assms(2) by (rule tracks_new)
  have tracks: "tracks w ?S" and sp: "unat (w_span w) = span"
    using run [OF _ start w] assms(2) by (auto simp: window_new_def unat_of_nat)
  have "window_good (window_new span)"
    unfolding window_good_def using start by (intro exI [of _ "{}"]) simp
  then have "distinct accepted"
    using window.taken_once [of "window_new span" ns] w by simp
  moreover have "admissible span ?S (unat n) \<longleftrightarrow> n \<notin> set accepted \<and> (\<forall>m. m \<in> set accepted \<longrightarrow> unat m < unat n + span)"
  proof (cases "set accepted = {}")
    case False
    define M where "M = Max ?S"
    have "M < unat n + span \<longleftrightarrow> (\<forall>m. m \<in> set accepted \<longrightarrow> unat m < unat n + span)"
      unfolding M_def using False by (subst Max_less_iff) auto
    moreover have "unat n \<in> ?S \<longleftrightarrow> n \<in> set accepted"
      by (auto simp: word_unat_eq_iff [symmetric])
    moreover have "M < unat n \<Longrightarrow> unat n \<notin> ?S"
      unfolding M_def using False by (auto dest: Max_ge [rotated])
    ultimately show ?thesis
      using assms(1) False unfolding admissible_def M_def [symmetric] by auto
  qed (simp add: admissible_def)
  ultimately show ?thesis
    using admits_iff [OF tracks, of n] sp w by simp
qed

lemma window_admits_exactly_the_fresh_witness:
  "let (accepted, w) = taken window_take [5, 3, 5, 9, 3] (window_new 4) in
    distinct accepted \<and>
    (window_admits w 7 = Inr () \<longleftrightarrow>
       (7 \<notin> set accepted \<and> (\<forall>m. m \<in> set accepted \<longrightarrow> unat m < unat (7 :: u64) + 4)))"
  by (rule window_admits_exactly_the_fresh) simp_all

end
