(* ===== verification/Sealed.thy ===== *)
theory Sealed
  imports Window
begin

text \<open>
  \<open>crates/km43/src/sealed.rs\<close>: the sealed body every message of a session wears. A sealer
  owns its key and its counter, so a nonce is used once per key; an opener owns its key and its
  window, and hands out a plaintext only after the tag verified. The cipher is an argument.
\<close>

section \<open>Directions\<close>

datatype direction = Request | Controller

primrec direction_of :: "message_type \<Rightarrow> direction option" where
  "direction_of Mt_Subscribe = Some Request"
| "direction_of Mt_ReadLog = Some Request"
| "direction_of Mt_GetConfig = Some Request"
| "direction_of Mt_SetConfig = Some Request"
| "direction_of Mt_Command = Some Request"
| "direction_of Mt_Firmware = Some Request"
| "direction_of Mt_Time = Some Request"
| "direction_of Mt_Goodbye = Some Request"
| "direction_of Mt_Inventory = Some Request"
| "direction_of Mt_Readings = Some Request"
| "direction_of Mt_Concerns = Some Request"
| "direction_of Mt_History = Some Request"
| "direction_of Mt_WifiScan = Some Request"
| "direction_of Mt_WifiStatus = Some Request"
| "direction_of Mt_Vouch = Some Request"
| "direction_of Mt_Clients = Some Request"
| "direction_of Mt_Invite = Some Request"
| "direction_of Mt_Approve = Some Request"
| "direction_of Mt_Remove = Some Request"
| "direction_of Mt_EnrolResponse = Some Controller"
| "direction_of Mt_SubscribeResponse = Some Controller"
| "direction_of Mt_EventResponse = Some Controller"
| "direction_of Mt_ReadLogResponse = Some Controller"
| "direction_of Mt_GetConfigResponse = Some Controller"
| "direction_of Mt_SetConfigResponse = Some Controller"
| "direction_of Mt_CommandResponse = Some Controller"
| "direction_of Mt_FirmwareResponse = Some Controller"
| "direction_of Mt_TimeResponse = Some Controller"
| "direction_of Mt_GoodbyeResponse = Some Controller"
| "direction_of Mt_InventoryResponse = Some Controller"
| "direction_of Mt_ReadingsResponse = Some Controller"
| "direction_of Mt_ConcernsResponse = Some Controller"
| "direction_of Mt_HistoryResponse = Some Controller"
| "direction_of Mt_WifiScanResponse = Some Controller"
| "direction_of Mt_WifiStatusResponse = Some Controller"
| "direction_of Mt_VouchResponse = Some Controller"
| "direction_of Mt_ClientsResponse = Some Controller"
| "direction_of Mt_InviteResponse = Some Controller"
| "direction_of Mt_ApproveResponse = Some Controller"
| "direction_of Mt_RemoveResponse = Some Controller"
| "direction_of Mt_ErrorResponse = Some Controller"
| "direction_of Mt_Discover = None"
| "direction_of Mt_DiscoverResponse = None"
| "direction_of Mt_Hello = None"
| "direction_of Mt_HelloResponse = None"
| "direction_of Mt_Pair = None"
| "direction_of Mt_PairResponse = None"
| "direction_of Mt_Enrol = None"

definition sealed_key_of :: "int \<Rightarrow> sealed_key option" where
  "sealed_key_of number = (if number = 1 then Some SealedKey else if number = 2 then Some NonceKey else None)"

primrec sealed_key_number :: "sealed_key \<Rightarrow> int" where
  "sealed_key_number SealedKey = 1"
| "sealed_key_number NonceKey = 2"

definition direction_check :: "header \<Rightarrow> seal_error + direction" where
  "direction_check h =
     (case direction_of (h_kind h) of
        None \<Rightarrow> Inl (Seal_NotSealed (h_kind h))
      | Some direction \<Rightarrow>
          if h_kind h = Mt_EventResponse \<and> h_req_id h \<noteq> 0 then Inl (Seal_EventCarriesReqId (h_req_id h))
          else Inr direction)"

definition AD_BYTES :: nat where "AD_BYTES = 1 + 2 + 4"
definition LAST_NONCE :: u64 where "LAST_NONCE = - 1"

definition associated_data :: "header \<Rightarrow> bytes" where
  "associated_data h =
     [message_type_num (h_kind h)] @ be_bytes 2 (session_num (h_session h)) @ be_bytes 4 (h_req_id h)"

section \<open>Sealing\<close>

record request_sealer =
  rs_key :: bytes
  rs_next :: u32

record controller_sealer =
  cs_key :: bytes
  cs_next :: u64

record opener =
  op_key :: bytes
  op_window :: window

record client_channel =
  cl_tx :: request_sealer
  cl_rx :: opener

record controller_channel =
  ct_tx :: controller_sealer
  ct_rx :: opener

definition opener_new :: "bytes \<Rightarrow> nat \<Rightarrow> opener" where
  "opener_new key span = \<lparr>op_key = key, op_window = window_new span\<rparr>"

definition client_channel_new :: "bytes \<Rightarrow> bytes \<Rightarrow> client_channel" where
  "client_channel_new send receive =
     \<lparr>cl_tx = \<lparr>rs_key = send, rs_next = 1\<rparr>, cl_rx = opener_new receive MAX_REPLAY_WINDOW\<rparr>"

definition controller_channel_new :: "bytes \<Rightarrow> bytes \<Rightarrow> controller_channel" where
  "controller_channel_new send receive =
     \<lparr>ct_tx = \<lparr>cs_key = send, cs_next = 0\<rparr>, ct_rx = opener_new receive (saturating_add MAX_INFLIGHT 1)\<rparr>"

text \<open>The closure that reserves the ciphertext, and the whole frame around it.\<close>

definition write_frame ::
  "header \<Rightarrow> nat \<Rightarrow> u64 option \<Rightarrow> (writer, seal_error, nat \<times> nat) act" where
  "write_frame h sealed_len carried =
     andthen (map_err (\<lambda>_. Seal_TooLargeToWrite) (header_write h (if carried \<noteq> None then 2 else 1))) (\<lambda>_.
     map_err (\<lambda>_. Seal_TooLargeToWrite) (
       andthen (wr_key (sealed_key_number SealedKey)) (\<lambda>_.
       andthen (wr_bytes_to_fill sealed_len) (\<lambda>range.
       case carried of
         None \<Rightarrow> ret range
       | Some v \<Rightarrow> andthen (wr_key (sealed_key_number NonceKey)) (\<lambda>_. andthen (wr_u64 v) (\<lambda>_. ret range))))))"

definition write_sealed ::
  "crypto \<Rightarrow> bytes \<Rightarrow> header \<Rightarrow> u64 \<Rightarrow> u64 option \<Rightarrow> bytes \<Rightarrow> bytes \<Rightarrow> (seal_error + nat) \<times> bytes" where
  "write_sealed C key h nonce carried inner dst =
     (case checked_add (length inner) TAG_BYTES of
        None \<Rightarrow> (Inl Seal_TooLargeToWrite, dst)
      | Some sealed_len \<Rightarrow>
          (case write_frame h sealed_len carried (writer_over dst) of
             (Inl e, w) \<Rightarrow> (Inl e, wr_dst w)
           | (Inr (from, stop), w) \<Rightarrow>
               (case wr_finish w of
                  Inl _ \<Rightarrow> (Inl Seal_TooLargeToWrite, wr_dst w)
                | Inr len \<Rightarrow>
                    (case slice (wr_dst w) from stop of
                       None \<Rightarrow> (Inl Seal_TooLargeToWrite, wr_dst w)
                     | Some region \<Rightarrow>
                         if length region < length inner then (Inl Seal_TooLargeToWrite, wr_dst w)
                         else case seal_in_place C key nonce (associated_data h) inner (drop (length inner) region) of
                                (Inl why, body, tag) \<Rightarrow> (Inl (Seal_Open why), splice (wr_dst w) from (body @ tag))
                              | (Inr _, body, tag) \<Rightarrow> (Inr len, splice (wr_dst w) from (body @ tag))))))"

definition seal_request ::
  "crypto \<Rightarrow> message_type \<Rightarrow> session_id \<Rightarrow> bytes \<Rightarrow> bytes \<Rightarrow> request_sealer \<Rightarrow>
     (seal_error + req_id \<times> nat) \<times> bytes \<times> request_sealer" where
  "seal_request C mt session inner dst s =
     (if direction_of mt \<noteq> Some Request then (Inl (Seal_NotSealed mt), dst, s)
      else if \<not> unat (rs_next s) + 1 < 2 ^ 32 then (Inl Seal_Exhausted, dst, s)
      else let s' = s\<lparr>rs_next := rs_next s + 1\<rparr>;
               h = \<lparr>h_kind = mt, h_session = session, h_req_id = rs_next s\<rparr>
           in case write_sealed C (rs_key s) h (ucast (rs_next s)) None inner dst of
                (Inl e, out) \<Rightarrow> (Inl e, out, s')
              | (Inr len, out) \<Rightarrow> (Inr (h_req_id h, len), out, s'))"

definition seal_response ::
  "crypto \<Rightarrow> header \<Rightarrow> bytes \<Rightarrow> bytes \<Rightarrow> controller_sealer \<Rightarrow> (seal_error + nat) \<times> bytes \<times> controller_sealer" where
  "seal_response C h inner dst s =
     (case direction_check h of
        Inl e \<Rightarrow> (Inl e, dst, s)
      | Inr direction \<Rightarrow>
          if direction \<noteq> Controller then (Inl (Seal_NotSealed (h_kind h)), dst, s)
          else if cs_next s = LAST_NONCE then (Inl Seal_Exhausted, dst, s)
          else case write_sealed C (cs_key s) h (cs_next s) (Some (cs_next s)) inner dst of
                 (x, out) \<Rightarrow> (x, out, s\<lparr>cs_next := cs_next s + 1\<rparr>))"

section \<open>Opening\<close>

record sealed =
  sl_header :: header
  sl_nonce :: u64
  sl_ciphertext :: bytes

record opened =
  o_header :: header
  o_inner :: bytes

fun sealed_field ::
  "direction \<Rightarrow> u64 option \<times> bytes option \<Rightarrow> int \<Rightarrow> (reader, seal_error, u64 option \<times> bytes option) act" where
  "sealed_field direction (nonce, body) number =
     (case sealed_key_of number of
        None \<Rightarrow> fail (Seal_UnknownKey number)
      | Some SealedKey \<Rightarrow>
          andthen (map_err Seal_Cbor rd_byte_string) (\<lambda>v.
          andthen (once (Seal_Duplicate SealedKey) body v) (\<lambda>body'. ret (nonce, body')))
      | Some NonceKey \<Rightarrow>
          if direction = Request then fail (Seal_UnknownKey number)
          else andthen (map_err Seal_Cbor rd_u64) (\<lambda>v.
               andthen (once (Seal_Duplicate NonceKey) nonce v) (\<lambda>nonce'. ret (nonce', body))))"

definition sealed_decode :: "envelope \<Rightarrow> seal_error + sealed" where
  "sealed_decode e =
     (case direction_check (e_header e) of
        Inl err \<Rightarrow> Inl err
      | Inr direction \<Rightarrow> fst (
          andthen (pairs_loop Seal_Cbor (sealed_field direction) (e_keys e) (None, None)) (\<lambda>(nonce, body).
          andthen (finishing Seal_Cbor) (\<lambda>_.
          andthen (if direction = Request then ret (ucast (h_req_id (e_header e)))
                   else ok_or (Seal_Missing NonceKey) nonce) (\<lambda>n.
          andthen (ok_or (Seal_Missing SealedKey) body) (\<lambda>ciphertext.
          ret \<lparr>sl_header = e_header e, sl_nonce = n, sl_ciphertext = ciphertext\<rparr>)))) (e_body e)))"

definition sealed_open ::
  "crypto \<Rightarrow> sealed \<Rightarrow> bytes \<Rightarrow> opener \<Rightarrow> (seal_error + opened) \<times> bytes \<times> opener" where
  "sealed_open C s dst rx =
     (if sl_nonce s = LAST_NONCE then (Inl Seal_Reserved, dst, rx)
      else case window_admits (op_window rx) (sl_nonce s) of
        Inl e \<Rightarrow> (Inl e, dst, rx)
      | Inr _ \<Rightarrow>
          if length (sl_ciphertext s) < TAG_BYTES then (Inl (Seal_Open Noise_Truncated), dst, rx)
          else let body_len = length (sl_ciphertext s) - TAG_BYTES;
                   ciphertext = take body_len (sl_ciphertext s);
                   tag = drop body_len (sl_ciphertext s)
            in if length dst < body_len then (Inl Seal_DestinationTooSmall, dst, rx)
               else case open_in_place C (op_key rx) (sl_nonce s) (associated_data (sl_header s)) ciphertext tag of
                      (Inl why, _) \<Rightarrow> (Inl (Seal_Open why), splice dst 0 (replicate body_len 0), rx)
                    | (Inr _, plain) \<Rightarrow>
                        (Inr \<lparr>o_header = sl_header s, o_inner = plain\<rparr>, splice dst 0 plain,
                         rx\<lparr>op_window := window_accept (sl_nonce s) (op_window rx)\<rparr>))"

section \<open>Refusals\<close>

primrec seal_refusal :: "seal_error \<Rightarrow> refusal option" where
  "seal_refusal (Seal_Missing key) =
     (case key of SealedKey \<Rightarrow> Some (RefuseClient Ec_AuthenticationFailed)
      | NonceKey \<Rightarrow> Some (RefuseClient Ec_MalformedFrame))"
| "seal_refusal (Seal_Open _) = Some (RefuseClient Ec_AuthenticationFailed)"
| "seal_refusal (Seal_UnknownKey _) = Some (RefuseClient Ec_MalformedFrame)"
| "seal_refusal (Seal_Duplicate _) = Some (RefuseClient Ec_MalformedFrame)"
| "seal_refusal (Seal_NotSealed _) = Some (RefuseClient Ec_MalformedFrame)"
| "seal_refusal (Seal_EventCarriesReqId _) = Some (RefuseClient Ec_MalformedFrame)"
| "seal_refusal (Seal_Cbor _) = Some (RefuseClient Ec_MalformedFrame)"
| "seal_refusal Seal_TooLargeToWrite = Some (RefuseClient Ec_PayloadTooLarge)"
| "seal_refusal Seal_DestinationTooSmall = Some (RefuseClient Ec_PayloadTooLarge)"
| "seal_refusal Seal_Exhausted = Some (RefuseClient Ec_SessionExpired)"
| "seal_refusal (Seal_Replayed _) = None"
| "seal_refusal (Seal_TooOld _) = None"
| "seal_refusal Seal_Reserved = None"

primrec seal_counts :: "seal_error \<Rightarrow> bool" where
  "seal_counts (Seal_Missing key) \<longleftrightarrow> key = SealedKey"
| "seal_counts (Seal_Open _) \<longleftrightarrow> True"
| "seal_counts (Seal_UnknownKey _) \<longleftrightarrow> False"
| "seal_counts (Seal_Duplicate _) \<longleftrightarrow> False"
| "seal_counts (Seal_NotSealed _) \<longleftrightarrow> False"
| "seal_counts (Seal_EventCarriesReqId _) \<longleftrightarrow> False"
| "seal_counts (Seal_Cbor _) \<longleftrightarrow> False"
| "seal_counts Seal_TooLargeToWrite \<longleftrightarrow> False"
| "seal_counts Seal_DestinationTooSmall \<longleftrightarrow> False"
| "seal_counts Seal_Exhausted \<longleftrightarrow> False"
| "seal_counts (Seal_Replayed _) \<longleftrightarrow> False"
| "seal_counts (Seal_TooOld _) \<longleftrightarrow> False"
| "seal_counts Seal_Reserved \<longleftrightarrow> False"

section \<open>What a sealed frame is\<close>

lemma write_fill_rule:
  assumes "writing w L out dst" and "\<not> levels_at_key L" and "L = [] \<Longrightarrow> out = []"
    and "length out + length (head_bytes Bytes (of_nat n)) + n \<le> length dst"
    and "\<And>w'. writing w' (settle_levels (count_levels L)) (out @ head_bytes Bytes (of_nat n) @ replicate n 0) dst \<Longrightarrow>
      Q (length out + length (head_bytes Bytes (of_nat n)), length out + length (head_bytes Bytes (of_nat n)) + n) w'"
  shows "runs (wr_bytes_to_fill n) w Q"
proof -
  let ?bs = "head_bytes Bytes (of_nat n) @ replicate n 0" and ?s = "settled w"
  have w: "writing ?s L out dst" "levels (wr_nest ?s) = L"
    using writing_settled [OF assms(1)] by auto
  have room: "length out + length ?bs \<le> length dst"
    using assms(4) by simp
  note put = writing_put [OF w(1) room]
  have "n < 2 ^ 64"
    using assms(1,4) by (auto simp: writing_def writer_ok_def usize_max_def)
  then have "wr_bytes_to_fill n w =
      (Inr (length out + length (head_bytes Bytes (of_nat n)), length out + length (head_bytes Bytes (of_nat n)) + n),
       counted (put ?bs ?s))"
    using item_refusal_None [OF assms(1-3)] fill_eq [of ?s Bytes "of_nat n" n] w room
    by (simp add: wr_bytes_to_fill_def andthen_def open_item_eq writing_def)
  moreover have "writing (counted (put ?bs ?s)) (settle_levels (count_levels L)) (out @ ?bs) dst"
    using counted_eq [OF put(1)] put w(2) room by (simp add: writing_def)
  ultimately show ?thesis
    using assms(5) by (auto intro: runsI)
qed

definition carried_bytes :: "u64 option \<Rightarrow> bytes" where
  "carried_bytes carried = (case carried of None \<Rightarrow> [] | Some v \<Rightarrow> key_bytes 2 @ head_bytes Unsigned v)"

definition frame_head :: "header \<Rightarrow> u64 option \<Rightarrow> nat \<Rightarrow> bytes" where
  "frame_head h carried sealed_len =
     header_bytes h @ head_bytes Map (of_nat (if carried \<noteq> None then 2 else 1)) @ key_bytes 1 @
     head_bytes Bytes (of_nat sealed_len)"

definition sealed_frame :: "crypto \<Rightarrow> bytes \<Rightarrow> header \<Rightarrow> u64 \<Rightarrow> u64 option \<Rightarrow> bytes \<Rightarrow> bytes" where
  "sealed_frame C key h nonce carried inner =
     frame_head h carried (length inner + TAG_BYTES) @ sealed_bytes C key nonce (associated_data h) inner @
     carried_bytes carried"

lemma write_frame_rule:
  assumes "length (frame_head h carried n) + n + length (carried_bytes carried) \<le> length dst"
    and "length dst \<le> usize_max"
    and "\<And>w. writing w [] (frame_head h carried n @ replicate n 0 @ carried_bytes carried) dst \<Longrightarrow>
      Q (length (frame_head h carried n), length (frame_head h carried n) + n) w"
  shows "runs (write_frame h n carried) (writer_over dst) Q"
  unfolding write_frame_def header_write_def opcode_of_def
proof (rule runs_andthen, rule runs_map_err, rule write_scalars_rule)
  fix w
  assume "writing w (body_levels (if carried \<noteq> None then 2 else 1))
    (scalar_bytes (message_type_num (h_kind h)) (h_session h) (h_req_id h) @
     head_bytes Map (of_nat (if carried \<noteq> None then 2 else 1))) dst"
  then have w: "writing w [(NMap, if carried \<noteq> None then 4 else 2, None), (NArray, 0, None)]
      (header_bytes h @ head_bytes Map (of_nat (if carried \<noteq> None then 2 else 1))) dst"
    by (cases carried) (simp_all add: header_bytes_def)
  show "runs (map_err (\<lambda>_. Seal_TooLargeToWrite)
     (andthen (wr_key (sealed_key_number SealedKey)) (\<lambda>_. andthen (wr_bytes_to_fill n) (\<lambda>range.
       case carried of None \<Rightarrow> ret range
       | Some v \<Rightarrow> andthen (wr_key (sealed_key_number NonceKey)) (\<lambda>_. andthen (wr_u64 v) (\<lambda>_. ret range)))))) w Q"
  proof (intro runs_map_err runs_andthen, rule write_key_rule [OF w], goal_cases even next_key room filled)
    case (filled w')
    note filled = filled [simplified]
    show ?case
    proof (rule runs_andthen, rule write_fill_rule [OF filled], goal_cases even first room next_key)
      case (next_key v)
      then show ?case
        using assms
        by (cases carried)
          (auto intro!: runs_andthen write_key_rule write_u64_rule simp: frame_head_def carried_bytes_def)
    qed (use assms in \<open>auto simp: frame_head_def\<close>)
  qed (use assms in \<open>auto simp: frame_head_def\<close>)
qed (use assms in \<open>auto simp: frame_head_def header_bytes_def usize_max_def\<close>)

lemma splice_splice_inside:
  assumes "length a + length b + length c \<le> length dst" and "length b' = length b"
  shows "splice (splice dst 0 (a @ b @ c)) (length a) b' = splice dst 0 (a @ b' @ c)"
  using assms by (simp add: splice_def add.assoc)

lemma write_sealed_eq:
  assumes "crypto_ok C" and "length (sealed_frame C key h nonce carried inner) \<le> length dst"
    and "length dst \<le> usize_max" and inner: "length inner \<le> usize_max"
  shows "write_sealed C key h nonce carried inner dst =
    (Inr (length (sealed_frame C key h nonce carried inner)), splice dst 0 (sealed_frame C key h nonce carried inner))"
proof -
  let ?n = "length inner + TAG_BYTES" and ?ad = "associated_data h"
  let ?head = "frame_head h carried ?n" and ?tail = "carried_bytes carried"
  have sealed: "length (sealed_bytes C key nonce ?ad inner) = ?n"
    using length_sealed_bytes [OF assms(1) inner] .
  have room: "length ?head + ?n + length ?tail \<le> length dst"
    using assms(2) sealed by (simp add: sealed_frame_def)
  have "runs (write_frame h ?n carried) (writer_over dst)
      (\<lambda>range w. range = (length ?head, length ?head + ?n) \<and> writing w [] (?head @ replicate ?n 0 @ ?tail) dst)"
    using room assms(3) by (intro write_frame_rule) simp_all
  then obtain w where w: "write_frame h ?n carried (writer_over dst) = (Inr (length ?head, length ?head + ?n), w)"
    "writing w [] (?head @ replicate ?n 0 @ ?tail) dst"
    by (auto simp: runs_def)
  have dst: "wr_dst w = splice dst 0 (?head @ replicate ?n 0 @ ?tail)"
    using w(2) by (simp add: writing_def)
  have region: "slice (wr_dst w) (length ?head) (length ?head + ?n) = Some (replicate ?n 0)"
    unfolding dst using room by (simp add: slice_def splice_def)
  obtain c t where ct: "seal_in_place C key nonce ?ad inner (replicate TAG_BYTES 0) = (Inr (), c, t)"
    "sealed_bytes C key nonce ?ad inner = c @ t"
    by (rule seal_in_place_eq [OF assms(1) inner, of "replicate TAG_BYTES 0" key nonce ?ad]) simp_all
  have "splice (wr_dst w) (length ?head) (c @ t) = splice dst 0 (sealed_frame C key h nonce carried inner)"
    unfolding dst sealed_frame_def ct(2) [symmetric]
    using splice_splice_inside [of ?head "replicate ?n 0" ?tail dst "sealed_bytes C key nonce ?ad inner"] room sealed
    by simp
  moreover have "checked_add (length inner) TAG_BYTES = Some ?n"
    using room assms(3) by (simp add: checked_add_def)
  ultimately show ?thesis
    using w(1) write_finish [OF w(2)] region ct sealed
    by (simp add: write_sealed_def sealed_frame_def)
qed

text \<open>The receiver's half: the pairs in the order they were written, and nothing after them.\<close>

lemma request_pairs:
  assumes "reading r [(NMap, 2, None), (NArray, 0, None)] (key_bytes 1 @ head_bytes Bytes (of_nat (length ct)) @ ct)"
    and "\<And>r'. reading r' [] [] \<Longrightarrow> Q (None, Some ct) r'"
  shows "runs (pairs_loop Seal_Cbor (sealed_field Request) 1 (None, None)) r Q"
proof -
  have r: "reading r [(NMap, Suc (Suc (2 * 0)), None), (NArray, 0, None)]
      (key_bytes 1 @ head_bytes Bytes (of_nat (length ct)) @ ct @ [])"
    using assms(1) by (simp add: eval_nat_numeral)
  show ?thesis
    unfolding One_nat_def
  proof (rule pairs_loop_step [OF r])
    show "runs (sealed_field Request (None, None) 1) r'
        (\<lambda>acc' t. runs (pairs_loop Seal_Cbor (sealed_field Request) 0 acc') t Q)"
      if r': "at_value r' (2 * 0) (Some (key_rank 1)) [(NArray, 0, None)]
        (head_bytes Bytes (of_nat (length ct)) @ ct @ [])" for r'
    proof -
      have "runs rd_byte_string r' (\<lambda>v t. v = ct \<and> reading t [] [])"
        by (rule loop_bytes [OF r']) simp_all
      then show ?thesis
        using assms(2) by (auto simp: runs_def sealed_key_of_def once_def)
    qed
  qed simp
qed

lemma response_pairs:
  assumes "reading r [(NMap, 4, None), (NArray, 0, None)]
      (key_bytes 1 @ head_bytes Bytes (of_nat (length ct)) @ ct @ key_bytes 2 @ head_bytes Unsigned v)"
    and "\<And>r'. reading r' [] [] \<Longrightarrow> Q (Some v, Some ct) r'"
  shows "runs (pairs_loop Seal_Cbor (sealed_field Controller) 2 (None, None)) r Q"
proof -
  have r: "reading r [(NMap, Suc (Suc (2 * 1)), None), (NArray, 0, None)]
      (key_bytes 1 @ head_bytes Bytes (of_nat (length ct)) @ ct @ key_bytes 2 @ head_bytes Unsigned v @ [])"
    using assms(1) by (simp add: eval_nat_numeral)
  have two: "(2 :: nat) = Suc 1"
    by simp
  show ?thesis
    unfolding two
  proof (rule pairs_loop_step [OF r])
    show "runs (sealed_field Controller (None, None) 1) r'
        (\<lambda>acc' t. runs (pairs_loop Seal_Cbor (sealed_field Controller) 1 acc') t Q)"
      if r': "at_value r' (2 * 1) (Some (key_rank 1)) [(NArray, 0, None)]
        (head_bytes Bytes (of_nat (length ct)) @ ct @ key_bytes 2 @ head_bytes Unsigned v @ [])" for r'
    proof -
      have "runs rd_byte_string r' (\<lambda>x t. x = ct \<and> reading t [(NMap, Suc (Suc (2 * 0)), Some (key_rank 1)), (NArray, 0, None)]
          (key_bytes 2 @ head_bytes Unsigned v @ []))"
        by (rule loop_bytes [OF r']) (simp_all add: eval_nat_numeral)
      moreover have "runs (pairs_loop Seal_Cbor (sealed_field Controller) (Suc 0) (None, Some ct)) t Q"
        if t: "reading t [(NMap, Suc (Suc (2 * 0)), Some (key_rank 1)), (NArray, 0, None)]
          (key_bytes 2 @ head_bytes Unsigned v @ [])" for t
      proof (rule pairs_loop_step [OF t])
        show "runs (sealed_field Controller (None, Some ct) 2) r'
            (\<lambda>acc' t. runs (pairs_loop Seal_Cbor (sealed_field Controller) 0 acc') t Q)"
          if r': "at_value r' (2 * 0) (Some (key_rank 2)) [(NArray, 0, None)] (head_bytes Unsigned v @ [])" for r'
        proof -
          have "runs rd_u64 r' (\<lambda>x t. x = v \<and> reading t [] [])"
            by (rule loop_u64 [OF r']) simp_all
          then show ?thesis
            using assms(2) by (auto simp: runs_def sealed_key_of_def once_def)
        qed
      qed simp
      ultimately show ?thesis
        by (auto simp: runs_def sealed_key_of_def once_def)
    qed
  qed simp
qed

text \<open>A nonce travels in the request id of a request, in its own field of everything else.\<close>

definition carries :: "header \<Rightarrow> u64 option \<Rightarrow> u64 \<Rightarrow> bool" where
  "carries h carried nonce \<longleftrightarrow>
     (case direction_check h of
        Inl _ \<Rightarrow> False
      | Inr Request \<Rightarrow> carried = None \<and> nonce = ucast (h_req_id h)
      | Inr Controller \<Rightarrow> carried = Some nonce)"

lemma sealed_decode_eq:
  assumes "carries h carried nonce" and "session_ok (h_session h)"
    and "crypto_ok C" and "length inner \<le> usize_max"
    and "length (sealed_frame C key h nonce carried inner) \<le> usize_max"
  obtains e where "envelope_decode (sealed_frame C key h nonce carried inner) = Inr e" and "e_header e = h"
    and "sealed_decode e =
      Inr \<lparr>sl_header = h, sl_nonce = nonce, sl_ciphertext = sealed_bytes C key nonce (associated_data h) inner\<rparr>"
proof -
  let ?ct = "sealed_bytes C key nonce (associated_data h) inner"
  let ?keys = "if carried \<noteq> None then 2 else 1 :: nat"
  let ?body = "key_bytes 1 @ head_bytes Bytes (of_nat (length ?ct)) @ ?ct @ carried_bytes carried"
  have len: "length ?ct = length inner + TAG_BYTES"
    using length_sealed_bytes [OF assms(3,4)] .
  have frame: "sealed_frame C key h nonce carried inner = header_bytes h @ head_bytes Map (of_nat ?keys) @ ?body"
    by (simp add: sealed_frame_def frame_head_def len)
  have "2 * ?keys \<le> length ?body"
    by (cases carried) (simp_all add: carried_bytes_def)
  then obtain r where e: "envelope_decode (sealed_frame C key h nonce carried inner) =
      Inr \<lparr>e_header = h, e_keys = ?keys, e_body = r\<rparr>" "reading r (body_levels ?keys) ?body"
    using envelope_decode_eq [OF assms(2), of ?keys ?body] assms(5) unfolding frame by metis
  let ?e = "\<lparr>e_header = h, e_keys = ?keys, e_body = r\<rparr>"
  let ?v = "\<lparr>sl_header = h, sl_nonce = nonce, sl_ciphertext = ?ct\<rparr>"
  obtain direction where dir: "direction_check h = Inr direction"
    using assms(1) by (auto simp: carries_def split: sum.splits)
  have "sealed_decode ?e = Inr ?v"
  proof (cases direction)
    case Request
    then have "carried = None" "nonce = ucast (h_req_id h)"
      using assms(1) dir by (simp_all add: carries_def)
    moreover have "runs (pairs_loop Seal_Cbor (sealed_field Request) 1 (None, None)) r
        (\<lambda>x t. x = (None, Some ?ct) \<and> reading t [] [])"
      using e(2) calculation by (intro request_pairs) (simp_all add: carried_bytes_def)
    ultimately show ?thesis
      using Request dir by (auto simp: sealed_decode_def runs_def finishing_def read_finish)
  next
    case Controller
    then have "carried = Some nonce"
      using assms(1) dir by (simp add: carries_def)
    moreover have "runs (pairs_loop Seal_Cbor (sealed_field Controller) 2 (None, None)) r
        (\<lambda>x t. x = (Some nonce, Some ?ct) \<and> reading t [] [])"
      using e(2) calculation by (intro response_pairs) (simp_all add: carried_bytes_def)
    ultimately show ?thesis
      using Controller dir by (auto simp: sealed_decode_def runs_def finishing_def read_finish)
  qed
  then show ?thesis
    using that e(1) by fastforce
qed

end
