(* ===== verification/Session.thy ===== *)
theory Session
  imports Sealed Limits
begin

text \<open>
  A sealed session end to end (\<open>crates/km43/src/sealed.rs\<close>): what each end sends the other
  opens, nothing else opens, and whatever the network replays, reorders or withholds, every
  request is delivered at most once. The network is a step relation over the two ends.
\<close>

section \<open>The framing budget\<close>

lemma width_bytes_small:
  "unat a < 24 \<Longrightarrow> width_bytes (width_of a) = 0"
  "unat a < 256 \<Longrightarrow> width_bytes (width_of a) \<le> 1"
  "unat a < 65536 \<Longrightarrow> width_bytes (width_of a) \<le> 2"
  "unat a < 4294967296 \<Longrightarrow> width_bytes (width_of a) \<le> 4"
  by (simp_all add: width_of_def word_less_nat_alt word_le_nat_alt)

definition framing_bytes :: "header \<Rightarrow> nat" where
  "framing_bytes h =
     (case direction_of (h_kind h) of
        Some Request \<Rightarrow> REQUEST_FRAMING_BYTES
      | _ \<Rightarrow> if h_kind h = Mt_EventResponse then EVENT_FRAMING_BYTES else RESPONSE_FRAMING_BYTES) +
     (if h_kind h = Mt_Clients then 1 else 0)"

lemma header_bytes_length:
  "length (header_bytes h) \<le> 10 + (if unat (message_type_num (h_kind h)) < 24 then 0 else 1)"
proof -
  let ?k = "message_type_num (h_kind h)"
  have "width_bytes (width_of (ucast (session_num (h_session h)))) \<le> 2"
    and "width_bytes (width_of (ucast (h_req_id h))) \<le> 4"
    using unat_u16 [of "session_num (h_session h)"] unat_u32 [of "h_req_id h"]
    by (simp_all add: width_bytes_small ucast_u64_unat)
  moreover have "width_bytes (width_of (ucast ?k)) \<le> (if unat ?k < 24 then 0 else 1)"
    using unat_u8 [of ?k] width_bytes_small(1,2) [of "ucast ?k"] by (auto simp: ucast_u64_unat)
  ultimately show ?thesis
    by (simp add: header_bytes_def scalar_bytes_def ELEMENTS_def)
qed

lemma framing_bytes_eq:
  assumes "carries h carried nonce"
  shows "framing_bytes h = 31 + (if unat (message_type_num (h_kind h)) < 24 then 0 else 1) +
    (if carried = None then 0 else 10)"
proof -
  obtain direction where "direction_of (h_kind h) = Some direction" "(carried = None) = (direction = Request)"
    using assms by (auto simp: carries_def direction_check_def split: option.splits sum.splits if_splits direction.splits)
  then show ?thesis
    by (cases "h_kind h") (auto simp: framing_bytes_def limit_defs)
qed

lemma sealed_frame_length:
  assumes "crypto_ok C" and "carries h carried nonce" and "length inner + TAG_BYTES < 65536"
  shows "length (sealed_frame C key h nonce carried inner) \<le> length inner + framing_bytes h"
proof -
  have n: "length inner \<le> usize_max"
    using assms(3) by (simp add: usize_max_def)
  have "width_bytes (width_of (of_nat (length inner + TAG_BYTES))) \<le> 2"
    using assms(3) usize_u64 [of "length inner + TAG_BYTES"] by (intro width_bytes_small) (simp add: usize_max_def)
  moreover have "length (carried_bytes carried) \<le> (if carried = None then 0 else 10)"
    using width_bytes_le [of "width_of nonce"] width_bytes_le
    by (cases carried) (auto simp: carried_bytes_def)
  ultimately show ?thesis
    using header_bytes_length [of h] framing_bytes_eq [OF assms(2)] length_sealed_bytes [OF assms(1) n, of key nonce "associated_data h"]
    by (cases carried) (simp_all add: sealed_frame_def frame_head_def TAG_BYTES_def)
qed

section \<open>What opens\<close>

lemma sealed_open_Inl: "sealed_open C s dst rx = (Inl e, out, rx') \<Longrightarrow> rx' = rx"
  by (auto simp: sealed_open_def Let_def split: if_splits sum.splits prod.splits)

lemma sealed_open_Inr:
  assumes "crypto_ok C" and "sealed_open C s dst rx = (Inr o', out, rx')" and "length (sl_ciphertext s) \<le> usize_max"
  shows "o_header o' = sl_header s" and "sl_nonce s \<noteq> LAST_NONCE"
    and "window_admits (op_window rx) (sl_nonce s) = Inr ()"
    and "sl_ciphertext s = sealed_bytes C (op_key rx) (sl_nonce s) (associated_data (sl_header s)) (o_inner o')"
    and "rx' = rx\<lparr>op_window := window_accept (sl_nonce s) (op_window rx)\<rparr>"
    and "out = splice dst 0 (o_inner o')" and "length (o_inner o') + TAG_BYTES = length (sl_ciphertext s)"
proof -
  let ?n = "length (sl_ciphertext s) - TAG_BYTES"
  have *: "open_in_place C (op_key rx) (sl_nonce s) (associated_data (sl_header s)) (take ?n (sl_ciphertext s))
      (drop ?n (sl_ciphertext s)) = (Inr (), o_inner o')" "TAG_BYTES \<le> length (sl_ciphertext s)"
    and "o_header o' = sl_header s" "sl_nonce s \<noteq> LAST_NONCE"
    "window_admits (op_window rx) (sl_nonce s) = Inr ()"
    "rx' = rx\<lparr>op_window := window_accept (sl_nonce s) (op_window rx)\<rparr>"
    "out = splice dst 0 (o_inner o')"
    using assms(2) by (auto simp: sealed_open_def Let_def split: if_splits sum.splits prod.splits)
  then show "o_header o' = sl_header s" "sl_nonce s \<noteq> LAST_NONCE"
    "window_admits (op_window rx) (sl_nonce s) = Inr ()"
    "rx' = rx\<lparr>op_window := window_accept (sl_nonce s) (op_window rx)\<rparr>"
    "out = splice dst 0 (o_inner o')"
    by simp_all
  have "length (take ?n (sl_ciphertext s)) \<le> usize_max"
    using assms(3) by simp
  from open_in_place_ok [OF assms(1) *(1) this] *(2)
  show "sl_ciphertext s = sealed_bytes C (op_key rx) (sl_nonce s) (associated_data (sl_header s)) (o_inner o')"
    and "length (o_inner o') + TAG_BYTES = length (sl_ciphertext s)"
    by simp_all
qed

lemma sealed_open_genuine:
  assumes "crypto_ok C" and "sl_nonce s \<noteq> LAST_NONCE" and "window_admits (op_window rx) (sl_nonce s) = Inr ()"
    and "sl_ciphertext s = sealed_bytes C (op_key rx) (sl_nonce s) (associated_data (sl_header s)) inner"
    and "length inner \<le> length dst" and "length inner \<le> usize_max"
  shows "sealed_open C s dst rx = (Inr \<lparr>o_header = sl_header s, o_inner = inner\<rparr>, splice dst 0 inner,
    rx\<lparr>op_window := window_accept (sl_nonce s) (op_window rx)\<rparr>)"
proof -
  obtain c t where ct: "sl_ciphertext s = c @ t" "length c = length inner" "length t = TAG_BYTES"
    "open_in_place C (op_key rx) (sl_nonce s) (associated_data (sl_header s)) c t = (Inr (), inner)"
    by (rule seal_in_place_eq [OF assms(1,6), of "replicate TAG_BYTES 0" "op_key rx" "sl_nonce s"
        "associated_data (sl_header s)"]) (use assms(4) in auto)
  then show ?thesis
    using assms(2,3,5) by (simp add: sealed_open_def Let_def)
qed

section \<open>The two directions\<close>

lemma carries_request:
  "direction_of mt = Some Request \<Longrightarrow> carries \<lparr>h_kind = mt, h_session = session, h_req_id = q\<rparr> None (ucast q)"
  by (cases mt) (simp_all add: carries_def direction_check_def)

lemma carries_response: "direction_check h = Inr Controller \<Longrightarrow> carries h (Some n) n"
  by (simp add: carries_def)

text \<open>A frame one end wrote, taken apart at the other.\<close>

definition arrival :: "crypto \<Rightarrow> bytes \<Rightarrow> bytes \<Rightarrow> opener \<Rightarrow> opened option \<times> opener" where
  "arrival C frame dst rx =
     (case envelope_decode frame of
        Inl _ \<Rightarrow> (None, rx)
      | Inr e \<Rightarrow>
          (case sealed_decode e of
             Inl _ \<Rightarrow> (None, rx)
           | Inr s \<Rightarrow> (case sealed_open C s dst rx of
               (Inl _, _, rx') \<Rightarrow> (None, rx') | (Inr o', _, rx') \<Rightarrow> (Some o', rx'))))"

lemma arrival_genuine:
  assumes "crypto_ok C" and "carries h carried nonce" and "session_ok (h_session h)" and "nonce \<noteq> LAST_NONCE"
    and "length (sealed_frame C (op_key rx) h nonce carried inner) \<le> usize_max"
    and "window_admits (op_window rx) nonce = Inr ()" and "length inner \<le> length dst" and "length dst \<le> usize_max"
  shows "arrival C (sealed_frame C (op_key rx) h nonce carried inner) dst rx =
    (Some \<lparr>o_header = h, o_inner = inner\<rparr>, rx\<lparr>op_window := window_accept nonce (op_window rx)\<rparr>)"
proof -
  have inner: "length inner \<le> usize_max"
    using assms(7,8) by simp
  obtain e where e: "envelope_decode (sealed_frame C (op_key rx) h nonce carried inner) = Inr e" "sealed_decode e =
      Inr \<lparr>sl_header = h, sl_nonce = nonce, sl_ciphertext = sealed_bytes C (op_key rx) nonce (associated_data h) inner\<rparr>"
    by (rule sealed_decode_eq [OF assms(2,3,1) inner assms(5)])
  then show ?thesis
    using sealed_open_genuine [OF assms(1), of "\<lparr>sl_header = h, sl_nonce = nonce,
        sl_ciphertext = sealed_bytes C (op_key rx) nonce (associated_data h) inner\<rparr>" rx inner dst] assms(4,6,7) inner
    by (simp add: arrival_def)
qed

lemma arrival_replay:
  assumes "window_admits (op_window rx) nonce \<noteq> Inr ()" and "crypto_ok C" and "carries h carried nonce"
    and "session_ok (h_session h)" and "length inner \<le> usize_max"
    and "length (sealed_frame C key h nonce carried inner) \<le> usize_max"
  shows "arrival C (sealed_frame C key h nonce carried inner) dst rx = (None, rx)"
proof -
  obtain e where "envelope_decode (sealed_frame C key h nonce carried inner) = Inr e" "sealed_decode e =
      Inr \<lparr>sl_header = h, sl_nonce = nonce, sl_ciphertext = sealed_bytes C key nonce (associated_data h) inner\<rparr>"
    by (rule sealed_decode_eq [OF assms(3,4,2,5,6)])
  then show ?thesis
    using assms(1) by (cases "window_admits (op_window rx) nonce") (auto simp: arrival_def sealed_open_def)
qed

lemma window_accept_spends: "window_good w \<Longrightarrow> window_admits w n = Inr () \<Longrightarrow> window_admits (window_accept n w) n \<noteq> Inr ()"
  using window.take_spends [of w n "window_accept n w"] by (auto simp: window_take_def)

lemma ucast_not_last: "(ucast (q :: u32) :: u64) \<noteq> LAST_NONCE"
proof
  assume "(ucast q :: u64) = LAST_NONCE"
  then have "unat (ucast q :: u64) = unat (- 1 :: u64)"
    by (simp add: LAST_NONCE_def)
  then show False
    using unat_u32 [of q] by (simp add: ucast_u64_unat unsigned_minus_1_eq_mask mask_eq_exp_minus_1)
qed

text \<open>What each sealer writes.\<close>

lemma seal_request_eq:
  assumes "crypto_ok C" and "direction_of mt = Some Request" and "unat (rs_next s) + 1 < 2 ^ 32"
    and "h = \<lparr>h_kind = mt, h_session = session, h_req_id = rs_next s\<rparr>"
    and "length (sealed_frame C (rs_key s) h (ucast (rs_next s)) None inner) \<le> length dst"
    and "length dst \<le> usize_max" and "length inner \<le> usize_max"
  shows "seal_request C mt session inner dst s =
    (Inr (rs_next s, length (sealed_frame C (rs_key s) h (ucast (rs_next s)) None inner)),
     splice dst 0 (sealed_frame C (rs_key s) h (ucast (rs_next s)) None inner), s\<lparr>rs_next := rs_next s + 1\<rparr>)"
  using write_sealed_eq [OF assms(1) assms(5-7)] assms(2-4) by (simp add: seal_request_def Let_def)

lemma seal_response_eq:
  assumes "crypto_ok C" and "direction_check h = Inr Controller" and "cs_next s \<noteq> LAST_NONCE"
    and "length (sealed_frame C (cs_key s) h (cs_next s) (Some (cs_next s)) inner) \<le> length dst"
    and "length dst \<le> usize_max" and "length inner \<le> usize_max"
  shows "seal_response C h inner dst s =
    (Inr (length (sealed_frame C (cs_key s) h (cs_next s) (Some (cs_next s)) inner)),
     splice dst 0 (sealed_frame C (cs_key s) h (cs_next s) (Some (cs_next s)) inner), s\<lparr>cs_next := cs_next s + 1\<rparr>)"
  using write_sealed_eq [OF assms(1) assms(4-6)] assms(2,3) by (simp add: seal_response_def)

section \<open>Properties of one message\<close>

text \<open>C29. The framing constants of \<open>limits.rs\<close> are enough: whatever the session, the request id
  and the nonce, a sealed frame is the inner body and at most \<open>REQUEST_FRAMING_BYTES\<close>,
  \<open>RESPONSE_FRAMING_BYTES\<close> or \<open>EVENT_FRAMING_BYTES\<close> more - and one byte more for \<open>Clients\<close>,
  whose type does not fit in one CBOR byte. A buffer of that size is never refused.\<close>

theorem sealed_framing_budget:
  assumes "crypto_ok C" and "carries h carried nonce" and "length inner + TAG_BYTES < 65536"
    and "length inner + framing_bytes h \<le> length dst" and "length dst \<le> usize_max"
  shows "\<exists>n out. write_sealed C key h nonce carried inner dst = (Inr n, out) \<and> n \<le> length inner + framing_bytes h"
proof -
  have "length (sealed_frame C key h nonce carried inner) \<le> length inner + framing_bytes h"
    by (rule sealed_frame_length [OF assms(1-3)])
  then show ?thesis
    using write_sealed_eq [OF assms(1), of key h nonce carried inner dst] assms(3-5) by (simp add: usize_max_def)
qed

lemma sealed_framing_budget_witness:
  "framing_bytes \<lparr>h_kind = Mt_Clients, h_session = Assigned 65535, h_req_id = 4000000000\<rparr> = 32 \<and>
   (\<exists>n out. write_sealed example_crypto (replicate 32 1)
      \<lparr>h_kind = Mt_Clients, h_session = Assigned 65535, h_req_id = 4000000000\<rparr> 4000000000 None [1, 2, 3] (replicate 35 0) =
      (Inr n, out) \<and> n \<le> 35)"
proof -
  let ?h = "\<lparr>h_kind = Mt_Clients, h_session = Assigned 65535, h_req_id = 4000000000\<rparr>"
  have b: "framing_bytes ?h = 32"
    by (simp add: framing_bytes_def limit_defs)
  have "carries ?h None 4000000000"
    by (simp add: carries_def direction_check_def)
  then have "\<exists>n out. write_sealed example_crypto (replicate 32 1) ?h 4000000000 None [1, 2, 3] (replicate 35 0) = (Inr n, out) \<and>
      n \<le> length ([1, 2, 3] :: bytes) + framing_bytes ?h"
    by (intro sealed_framing_budget) (simp_all add: example_crypto_ok b usize_max_def TAG_BYTES_def)
  then show ?thesis
    using b by simp
qed

lemma request_delivered:
  assumes "crypto_ok C" and "direction_of mt = Some Request" and "session_ok session"
    and "unat (rs_next tx) + 1 < 2 ^ 32" and "rs_key tx = op_key rx" and "window_good (op_window rx)"
    and "window_admits (op_window rx) (ucast (rs_next tx)) = Inr ()"
    and "length inner + REQUEST_FRAMING_BYTES + 1 \<le> MAX_PAYLOAD"
    and "MAX_PAYLOAD \<le> length dst" and "length dst \<le> usize_max" and "MAX_PAYLOAD \<le> length buf" and "length buf \<le> usize_max"
  shows "\<exists>n out rx'. seal_request C mt session inner dst tx = (Inr (rs_next tx, n), out, tx\<lparr>rs_next := rs_next tx + 1\<rparr>) \<and>
    n \<le> MAX_PAYLOAD \<and>
    arrival C (take n out) buf rx =
      (Some \<lparr>o_header = \<lparr>h_kind = mt, h_session = session, h_req_id = rs_next tx\<rparr>, o_inner = inner\<rparr>, rx') \<and>
    arrival C (take n out) buf rx' = (None, rx')"
proof -
  let ?h = "\<lparr>h_kind = mt, h_session = session, h_req_id = rs_next tx\<rparr>" and ?n = "ucast (rs_next tx) :: u64"
  let ?f = "sealed_frame C (op_key rx) ?h ?n None inner"
  let ?rx = "rx\<lparr>op_window := window_accept ?n (op_window rx)\<rparr>"
  have carries: "carries ?h None ?n"
    by (rule carries_request [OF assms(2)])
  have inner: "length inner + TAG_BYTES < 65536"
    using assms(8) by (simp add: limit_defs TAG_BYTES_def)
  have "framing_bytes ?h \<le> REQUEST_FRAMING_BYTES + 1"
    using assms(2) by (simp add: framing_bytes_def)
  then have f: "length ?f \<le> MAX_PAYLOAD"
    using sealed_frame_length [OF assms(1) carries inner, of "op_key rx"] assms(8) by simp
  have small: "length inner \<le> usize_max" "length ?f \<le> usize_max" "length inner \<le> length buf"
    using f assms(8-12) by (simp_all add: usize_max_def)
  have sealed: "seal_request C mt session inner dst tx =
      (Inr (rs_next tx, length ?f), splice dst 0 ?f, tx\<lparr>rs_next := rs_next tx + 1\<rparr>)"
    using seal_request_eq [OF assms(1,2,4) refl, of session inner dst] f small(1) assms(5,9,10) by simp
  have "window_admits (op_window ?rx) ?n \<noteq> Inr ()"
    using window_accept_spends [OF assms(6,7)] by simp
  then have again: "arrival C ?f buf ?rx = (None, ?rx)"
    using arrival_replay [OF _ assms(1) carries _ small(1), of ?rx "op_key rx" buf] assms(3) small(2) by simp
  have first: "arrival C ?f buf rx = (Some \<lparr>o_header = ?h, o_inner = inner\<rparr>, ?rx)"
    using arrival_genuine [OF assms(1) carries _ ucast_not_last small(2) assms(7) small(3) assms(12)] assms(3) by simp
  have "take (length ?f) (splice dst 0 ?f) = ?f"
    by (simp add: splice_def)
  then show ?thesis
    using sealed first again f by auto
qed

text \<open>A request is delivered, once: what \<open>RequestSealer::seal\<close> writes, the controller's
  \<open>Sealed::decode\<close> and \<open>open\<close> give back with the header it was sealed under, whenever the
  window still admits its number; the same frame arriving again is refused and changes
  nothing.\<close>

theorem request_delivered_once:
  assumes "crypto_ok C" and "direction_of mt = Some Request" and "session_ok session"
    and "unat (rs_next tx) + 1 < 2 ^ 32" and "rs_key tx = op_key rx" and "window_good (op_window rx)"
    and "window_admits (op_window rx) (ucast (rs_next tx)) = Inr ()"
    and "length inner + REQUEST_FRAMING_BYTES + 1 \<le> MAX_PAYLOAD"
    and "MAX_PAYLOAD \<le> length dst" and "length dst \<le> usize_max" and "MAX_PAYLOAD \<le> length buf" and "length buf \<le> usize_max"
  shows "\<exists>n out rx'. seal_request C mt session inner dst tx = (Inr (rs_next tx, n), out, tx\<lparr>rs_next := rs_next tx + 1\<rparr>) \<and>
    n \<le> MAX_PAYLOAD \<and>
    arrival C (take n out) buf rx =
      (Some \<lparr>o_header = \<lparr>h_kind = mt, h_session = session, h_req_id = rs_next tx\<rparr>, o_inner = inner\<rparr>, rx') \<and>
    arrival C (take n out) buf rx' = (None, rx')"
  using assms by (rule request_delivered)

lemma request_delivered_once_witness:
  "\<exists>n out rx'. seal_request example_crypto Mt_Time (Assigned 7) [1, 2, 3] (replicate 1024 0) \<lparr>rs_key = [9], rs_next = 1\<rparr> =
      (Inr (rs_next \<lparr>rs_key = [9], rs_next = 1\<rparr>, n), out, \<lparr>rs_key = [9], rs_next = 1\<rparr>\<lparr>rs_next := 1 + 1\<rparr>) \<and>
    n \<le> MAX_PAYLOAD \<and>
    arrival example_crypto (take n out) (replicate 1024 0) (opener_new [9] 8) =
      (Some \<lparr>o_header = \<lparr>h_kind = Mt_Time, h_session = Assigned 7, h_req_id = 1\<rparr>, o_inner = [1, 2, 3]\<rparr>, rx') \<and>
    arrival example_crypto (take n out) (replicate 1024 0) rx' = (None, rx')"
proof -
  have "tracks (op_window (opener_new [9] 8)) {}"
    using tracks_new [of 8] by (simp add: opener_new_def)
  then have "window_good (op_window (opener_new [9] 8))"
    unfolding window_good_def by (intro exI [of _ "{}"]) simp
  then show ?thesis
    using request_delivered_once [of example_crypto Mt_Time "Assigned 7" "\<lparr>rs_key = [9], rs_next = 1\<rparr>" "opener_new [9] 8"
        "[1, 2, 3]" "replicate 1024 0" "replicate 1024 0"] example_crypto_ok
    by (simp add: opener_new_def window_new_def window_admits_def limit_defs usize_max_def)
qed

text \<open>The controller's messages are delivered, once: a response or an event travels under its
  own nonce, opens at the client as the inner body it was sealed from, within \<open>MAX_PAYLOAD\<close>, and
  the same frame again is refused and changes nothing.\<close>

theorem controller_message_delivered_once:
  assumes "crypto_ok C" and "direction_check h = Inr Controller" and "session_ok (h_session h)"
    and "cs_next tx \<noteq> LAST_NONCE" and "cs_key tx = op_key rx" and "window_good (op_window rx)"
    and "window_admits (op_window rx) (cs_next tx) = Inr ()"
    and "length inner \<le> INNER_BODY_BYTES"
    and "MAX_PAYLOAD \<le> length dst" and "length dst \<le> usize_max" and "MAX_PAYLOAD \<le> length buf" and "length buf \<le> usize_max"
  shows "\<exists>n out rx'. seal_response C h inner dst tx = (Inr n, out, tx\<lparr>cs_next := cs_next tx + 1\<rparr>) \<and>
    n \<le> MAX_PAYLOAD \<and> arrival C (take n out) buf rx = (Some \<lparr>o_header = h, o_inner = inner\<rparr>, rx') \<and>
    arrival C (take n out) buf rx' = (None, rx')"
proof -
  let ?n = "cs_next tx"
  let ?f = "sealed_frame C (op_key rx) h ?n (Some ?n) inner"
  let ?rx = "rx\<lparr>op_window := window_accept ?n (op_window rx)\<rparr>"
  have carries: "carries h (Some ?n) ?n"
    by (rule carries_response [OF assms(2)])
  have inner: "length inner + TAG_BYTES < 65536"
    using assms(8) by (simp add: limit_defs TAG_BYTES_def)
  have "framing_bytes h \<le> RESPONSE_FRAMING_BYTES"
    using framing_bytes_eq [OF carries] by (simp add: limit_defs)
  then have f: "length ?f \<le> MAX_PAYLOAD"
    using sealed_frame_length [OF assms(1) carries inner, of "op_key rx"] assms(8) by (simp add: limit_defs)
  have small: "length inner \<le> usize_max" "length ?f \<le> usize_max" "length inner \<le> length buf"
    using f assms(8-12) by (simp_all add: usize_max_def limit_defs)
  have sealed: "seal_response C h inner dst tx = (Inr (length ?f), splice dst 0 ?f, tx\<lparr>cs_next := ?n + 1\<rparr>)"
    using seal_response_eq [OF assms(1,2,4), of inner dst] f small(1) assms(5,9,10) by simp
  have "window_admits (op_window ?rx) ?n \<noteq> Inr ()"
    using window_accept_spends [OF assms(6,7)] by simp
  then have again: "arrival C ?f buf ?rx = (None, ?rx)"
    using arrival_replay [OF _ assms(1) carries assms(3) small(1), of ?rx "op_key rx" buf] small(2) by simp
  have first: "arrival C ?f buf rx = (Some \<lparr>o_header = h, o_inner = inner\<rparr>, ?rx)"
    by (rule arrival_genuine [OF assms(1) carries assms(3,4) small(2) assms(7) small(3) assms(12)])
  have "take (length ?f) (splice dst 0 ?f) = ?f"
    by (simp add: splice_def)
  then show ?thesis
    using sealed first again f by auto
qed

lemma controller_message_delivered_once_witness:
  "\<exists>n out rx'. seal_response example_crypto \<lparr>h_kind = Mt_EventResponse, h_session = Assigned 7, h_req_id = 0\<rparr> [1, 2, 3]
      (replicate 1024 0) \<lparr>cs_key = [9], cs_next = 41\<rparr> = (Inr n, out, \<lparr>cs_key = [9], cs_next = 41\<rparr>\<lparr>cs_next := 41 + 1\<rparr>) \<and>
    n \<le> MAX_PAYLOAD \<and>
    arrival example_crypto (take n out) (replicate 1024 0) (opener_new [9] 64) =
      (Some \<lparr>o_header = \<lparr>h_kind = Mt_EventResponse, h_session = Assigned 7, h_req_id = 0\<rparr>, o_inner = [1, 2, 3]\<rparr>, rx') \<and>
    arrival example_crypto (take n out) (replicate 1024 0) rx' = (None, rx')"
proof -
  have "tracks (op_window (opener_new [9] 64)) {}"
    using tracks_new [of 64] by (simp add: opener_new_def)
  then have "window_good (op_window (opener_new [9] 64))"
    unfolding window_good_def by (intro exI [of _ "{}"]) simp
  then show ?thesis
    using controller_message_delivered_once [of example_crypto "\<lparr>h_kind = Mt_EventResponse, h_session = Assigned 7, h_req_id = 0\<rparr>"
        "\<lparr>cs_key = [9], cs_next = 41\<rparr>" "opener_new [9] 64" "[1, 2, 3]" "replicate 1024 0" "replicate 1024 0"] example_crypto_ok
    by (simp add: opener_new_def window_new_def window_admits_def limit_defs usize_max_def LAST_NONCE_def direction_check_def)
qed

text \<open>C28. A plaintext is handed out only for the ciphertext a holder of the key sealed under that
  nonce and that header: \<open>open\<close> succeeds with \<open>m\<close> exactly when the nonce is not the reserved one,
  the window admits it, the bytes are the seal of \<open>m\<close> and the buffer holds it. A refusal leaves
  the opener as it was, and after a failed tag the buffer holds zeros.\<close>

theorem open_is_authentic:
  assumes "crypto_ok C" and "length (sl_ciphertext s) \<le> usize_max"
  shows "((\<exists>out rx'. sealed_open C s dst rx = (Inr \<lparr>o_header = sl_header s, o_inner = m\<rparr>, out, rx')) \<longleftrightarrow>
      sl_nonce s \<noteq> LAST_NONCE \<and> window_admits (op_window rx) (sl_nonce s) = Inr () \<and>
      length m \<le> length dst \<and> length m \<le> usize_max \<and>
      sl_ciphertext s = sealed_bytes C (op_key rx) (sl_nonce s) (associated_data (sl_header s)) m) \<and>
    (\<forall>e out rx'. sealed_open C s dst rx = (Inl e, out, rx') \<longrightarrow> rx' = rx \<and>
      (out = dst \<or> out = splice dst 0 (replicate (length (sl_ciphertext s) - TAG_BYTES) 0)))"
proof (intro conjI iffI allI impI)
  assume "\<exists>out rx'. sealed_open C s dst rx = (Inr \<lparr>o_header = sl_header s, o_inner = m\<rparr>, out, rx')"
  then obtain out rx' where opened: "sealed_open C s dst rx = (Inr \<lparr>o_header = sl_header s, o_inner = m\<rparr>, out, rx')"
    by blast
  note facts = sealed_open_Inr [OF assms(1) opened assms(2)]
  show "sl_nonce s \<noteq> LAST_NONCE" "window_admits (op_window rx) (sl_nonce s) = Inr ()"
    "sl_ciphertext s = sealed_bytes C (op_key rx) (sl_nonce s) (associated_data (sl_header s)) m"
    using facts by simp_all
  show "length m \<le> usize_max"
    using facts(7) assms(2) by simp
  show "length m \<le> length dst"
    using opened facts(7) by (auto simp: sealed_open_def Let_def split: if_splits sum.splits prod.splits)
next
  assume "sl_nonce s \<noteq> LAST_NONCE \<and> window_admits (op_window rx) (sl_nonce s) = Inr () \<and>
      length m \<le> length dst \<and> length m \<le> usize_max \<and>
      sl_ciphertext s = sealed_bytes C (op_key rx) (sl_nonce s) (associated_data (sl_header s)) m"
  then show "\<exists>out rx'. sealed_open C s dst rx = (Inr \<lparr>o_header = sl_header s, o_inner = m\<rparr>, out, rx')"
    using sealed_open_genuine [OF assms(1), of s rx m dst] by blast
next
  fix e out rx'
  assume refused: "sealed_open C s dst rx = (Inl e, out, rx')"
  then show "rx' = rx"
    by (rule sealed_open_Inl)
  show "out = dst \<or> out = splice dst 0 (replicate (length (sl_ciphertext s) - TAG_BYTES) 0)"
    using refused by (auto simp: sealed_open_def Let_def split: if_splits sum.splits prod.splits)
qed

lemma open_is_authentic_witness:
  "\<exists>out rx'. sealed_open example_crypto
     \<lparr>sl_header = \<lparr>h_kind = Mt_Time, h_session = Assigned 7, h_req_id = 1\<rparr>, sl_nonce = 1,
      sl_ciphertext = [4, 5, 6, 1, 0, 0, 0, 0, 0, 0, 0, 9, 0, 0, 0, 0, 0, 0, 0]\<rparr> [0, 0, 0, 0] (opener_new [9] 8) =
     (Inr \<lparr>o_header = \<lparr>h_kind = Mt_Time, h_session = Assigned 7, h_req_id = 1\<rparr>, o_inner = [4, 5, 6]\<rparr>, out, rx')"
proof -
  let ?s = "\<lparr>sl_header = \<lparr>h_kind = Mt_Time, h_session = Assigned 7, h_req_id = 1\<rparr>, sl_nonce = 1,
      sl_ciphertext = [4, 5, 6, 1, 0, 0, 0, 0, 0, 0, 0, 9, 0, 0, 0, 0, 0, 0, 0]\<rparr>"
  have "le_bytes 8 (1 :: u64) = [1, 0, 0, 0, 0, 0, 0, 0]"
    by (simp add: eval_nat_numeral)
  then have "sealed_bytes example_crypto [9] 1 ad [4, 5, 6] = sl_ciphertext ?s" for ad
    by (simp add: sealed_bytes_def example_crypto_def nonce_bytes_def pad_to_def TAG_BYTES_def numeral_eq_Suc)
  then show ?thesis
    using open_is_authentic [OF example_crypto_ok, of ?s "[0, 0, 0, 0]" "opener_new [9] 8" "[4, 5, 6]"]
    by (simp add: usize_max_def LAST_NONCE_def opener_new_def window_new_def window_admits_def)
qed

section \<open>A session under a hostile network\<close>

text \<open>
  The client seals requests; the network shows the controller any bytes it likes, as often as it
  likes. It cannot forge: bytes that open under the session's key are bytes the client sealed,
  for a header with the same associated data.
\<close>

record session =
  ss_tx :: request_sealer
  ss_rx :: opener
  ss_sent :: "(header \<times> bytes) list"
  ss_got :: "(header \<times> bytes) list"

definition session_start :: "bytes \<Rightarrow> session" where
  "session_start key =
     \<lparr>ss_tx = cl_tx (client_channel_new key []), ss_rx = ct_rx (controller_channel_new [] key), ss_sent = [], ss_got = []\<rparr>"

definition unforged :: "crypto \<Rightarrow> bytes \<Rightarrow> session \<Rightarrow> bool" where
  "unforged C frame s \<longleftrightarrow>
     (\<forall>e d m. envelope_decode frame = Inr e \<and> sealed_decode e = Inr d \<and>
        sl_ciphertext d = sealed_bytes C (op_key (ss_rx s)) (sl_nonce d) (associated_data (sl_header d)) m \<longrightarrow>
        (\<exists>h. (h, m) \<in> set (ss_sent s) \<and> associated_data h = associated_data (sl_header d)))"

inductive session_step :: "crypto \<Rightarrow> session \<Rightarrow> session \<Rightarrow> bool" for C where
  client_seals: "session_ok session \<Longrightarrow> seal_request C mt session inner dst (ss_tx s) = (x, out, tx) \<Longrightarrow>
    session_step C s (s\<lparr>ss_tx := tx,
      ss_sent := (case x of Inr (q, _) \<Rightarrow> (\<lparr>h_kind = mt, h_session = session, h_req_id = q\<rparr>, inner) # ss_sent s | Inl _ \<Rightarrow> ss_sent s)\<rparr>)"
| network_shows: "unforged C frame s \<Longrightarrow> arrival C frame dst (ss_rx s) = (x, rx) \<Longrightarrow>
    session_step C s (s\<lparr>ss_rx := rx,
      ss_got := (case x of Some o' \<Rightarrow> (o_header o', o_inner o') # ss_got s | None \<Rightarrow> ss_got s)\<rparr>)"

definition numbers :: "(header \<times> bytes) list \<Rightarrow> nat list" where
  "numbers ms = map (\<lambda>(h, _). unat (h_req_id h)) ms"

definition session_inv :: "bytes \<Rightarrow> session \<Rightarrow> bool" where
  "session_inv key s \<longleftrightarrow>
     rs_key (ss_tx s) = key \<and> op_key (ss_rx s) = key \<and>
     sorted_wrt (>) (numbers (ss_sent s)) \<and> (\<forall>n \<in> set (numbers (ss_sent s)). n < unat (rs_next (ss_tx s))) \<and>
     (\<forall>(h, m) \<in> set (ss_sent s). session_ok (h_session h) \<and> direction_of (h_kind h) = Some Request) \<and>
     set (ss_got s) \<subseteq> set (ss_sent s) \<and> distinct (numbers (ss_got s)) \<and>
     tracks (op_window (ss_rx s)) (set (numbers (ss_got s)))"

lemma be_bytes_bits: "be_bytes n x = be_bytes n y \<Longrightarrow> i < 8 * n \<Longrightarrow> i < LENGTH('a) \<Longrightarrow> bit x i \<longleftrightarrow> bit (y :: 'a :: len word) i"
proof (induction n)
  case (Suc n)
  show ?case
  proof (cases "i < 8 * n")
    case False
    have "bit (ucast (drop_bit (8 * n) x) :: u8) (i - 8 * n) \<longleftrightarrow> bit (ucast (drop_bit (8 * n) y) :: u8) (i - 8 * n)"
      using Suc.prems(1) by simp
    moreover have "i - 8 * n < 8"
      using Suc.prems(2) by simp
    ultimately show ?thesis
      using False Suc.prems(3) by (simp add: bit_ucast_iff bit_drop_bit_eq possible_bit_word)
  qed (use Suc in simp)
qed simp

lemma be_bytes_inj: "LENGTH('a) \<le> 8 * n \<Longrightarrow> be_bytes n x = be_bytes n y \<longleftrightarrow> x = (y :: 'a :: len word)"
  using be_bytes_bits [of n x y] by (auto intro!: bit_word_eqI)

lemma associated_data_inj:
  assumes "session_ok (h_session g)" and "session_ok (h_session h)" and "associated_data g = associated_data h"
  shows "g = h"
proof -
  have "message_type_num (h_kind g) = message_type_num (h_kind h)"
    and "be_bytes 2 (session_num (h_session g)) @ be_bytes 4 (h_req_id g) =
      be_bytes 2 (session_num (h_session h)) @ be_bytes 4 (h_req_id h)"
    using assms(3) by (simp_all add: associated_data_def)
  then have "h_kind g = h_kind h" "session_num (h_session g) = session_num (h_session h)" "h_req_id g = h_req_id h"
    by (simp_all add: message_type.num_of_inj be_bytes_inj)
  moreover have "h_session g = h_session h"
    using calculation(2) session_of_num assms(1,2) by metis
  ultimately show ?thesis
    by simp
qed

text \<open>So what a sealed body decodes to.\<close>

lemma sealed_decode_Inr:
  assumes "sealed_decode e = Inr d"
  shows "sl_header d = e_header e" and "length (sl_ciphertext d) \<le> usize_max"
    and "direction_of (h_kind (e_header e)) = Some Request \<Longrightarrow> sl_nonce d = ucast (h_req_id (e_header e))"
proof -
  let ?P = "\<lambda>(n :: u64 option, b). \<forall>v. b = Some v \<longrightarrow> length v \<le> usize_max"
  obtain direction where dir: "direction_check (e_header e) = Inr direction"
    using assms by (auto simp: sealed_decode_def split: sum.splits)
  have "yields ?P (sealed_field direction acc k)" if P: "?P acc" for acc k
  proof (cases acc)
    case (Pair n b)
    have "yields ?P (andthen (once (Seal_Duplicate SealedKey) b v) (\<lambda>b'. ret (n, b')))" if "length v \<le> usize_max" for v
      using that by (intro yields_andthen [of "\<lambda>b'. b' = Some v"] yields_once) simp_all
    moreover have "yields ?P (andthen (map_err Seal_Cbor rd_u64)
        (\<lambda>v. andthen (once (Seal_Duplicate NonceKey) n v) (\<lambda>n'. ret (n', b))))"
      using P Pair by (intro yields_then) simp
    moreover have "yields ?P (andthen (map_err Seal_Cbor rd_byte_string)
        (\<lambda>v. andthen (once (Seal_Duplicate SealedKey) b v) (\<lambda>b'. ret (n, b'))))"
      using calculation(1) by (rule yields_andthen [OF yields_map_err [OF yields_byte_string]])
    ultimately show ?thesis
      using Pair by (simp split: option.split sealed_key.split)
  qed
  then have loop: "yields ?P (pairs_loop Seal_Cbor (sealed_field direction) (e_keys e) (None, None))"
    by (intro yields_pairs_loop) auto
  obtain n b r where "pairs_loop Seal_Cbor (sealed_field direction) (e_keys e) (None, None) (e_body e) = (Inr (n, Some b), r)"
    and d: "sl_header d = e_header e" "sl_ciphertext d = b"
      "direction = Request \<Longrightarrow> sl_nonce d = ucast (h_req_id (e_header e))"
    using assms dir unfolding sealed_decode_def
    by (auto elim!: fst_InrE andthen_InrE ok_or_InrE split: if_splits)
  with yieldsD [OF loop] show "sl_header d = e_header e" "length (sl_ciphertext d) \<le> usize_max"
    by auto
  show "sl_nonce d = ucast (h_req_id (e_header e))" if "direction_of (h_kind (e_header e)) = Some Request"
    using that d(3) dir by (auto simp: direction_check_def split: if_splits)
qed

lemma envelope_decode_session: "envelope_decode bs = Inr e \<Longrightarrow> session_ok (h_session (e_header e))"
  unfolding envelope_decode_def four_elements_read_def
  by (auto elim!: decoding_InrE andthen_InrE)

lemma arrival_Some:
  assumes "arrival C frame dst rx = (Some o', rx')"
  obtains e d out where "envelope_decode frame = Inr e" and "sealed_decode e = Inr d"
    and "sealed_open C d dst rx = (Inr o', out, rx')"
  using assms by (auto simp: arrival_def split: sum.splits prod.splits)

lemma arrival_None: "arrival C frame dst rx = (None, rx') \<Longrightarrow> rx' = rx"
  by (auto simp: arrival_def split: sum.splits prod.splits dest: sealed_open_Inl)

lemma window_good_tracks: "tracks w S \<Longrightarrow> finite S \<Longrightarrow> window_good w"
  by (auto simp: window_good_def)

lemma seal_request_Inr:
  assumes "seal_request C mt session inner dst s = (x, out, s')"
  shows "rs_key s' = rs_key s" and "unat (rs_next s) \<le> unat (rs_next s')"
    and "x = Inr (q, n) \<Longrightarrow> q = rs_next s \<and> unat (rs_next s') = unat (rs_next s) + 1 \<and> direction_of mt = Some Request"
proof -
  have "s' = s \<or> s' = s\<lparr>rs_next := rs_next s + 1\<rparr> \<and> unat (rs_next s) + 1 < 2 ^ 32"
    using assms by (auto simp: seal_request_def Let_def split: if_splits prod.splits sum.splits)
  moreover have "unat (rs_next s) + 1 < 2 ^ 32 \<Longrightarrow> unat (rs_next s + 1) = unat (rs_next s) + 1"
    by (simp add: unat_word_ariths)
  ultimately show "rs_key s' = rs_key s" "unat (rs_next s) \<le> unat (rs_next s')"
    by auto
  assume "x = Inr (q, n)"
  then show "q = rs_next s \<and> unat (rs_next s') = unat (rs_next s) + 1 \<and> direction_of mt = Some Request"
    using assms by (auto simp: seal_request_def Let_def unat_word_ariths split: if_splits prod.splits sum.splits)
qed

lemma session_inv_start: "session_inv key (session_start key)"
  using tracks_new [of "saturating_add MAX_INFLIGHT 1"]
  by (simp add: session_inv_def session_start_def numbers_def client_channel_new_def controller_channel_new_def
      opener_new_def limit_defs usize_max_def)

lemma numbers_simps [simp]: "numbers [] = []" "numbers ((h, m) # ms) = unat (h_req_id h) # numbers ms"
  by (simp_all add: numbers_def)

lemma session_inv_step:
  assumes "crypto_ok C" and "session_step C s s'" and "session_inv key s"
  shows "session_inv key s'"
  using assms(2)
proof cases
  case (client_seals session mt inner dst x out tx)
  note tx = seal_request_Inr [OF client_seals(3)]
  show ?thesis
  proof (cases x)
    case (Inl e)
    then show ?thesis
      using client_seals(1) tx(1,2) assms(3) by (auto simp: session_inv_def)
  next
    case (Inr qn)
    then obtain q n where q: "x = Inr (q, n)"
      by (cases qn) simp
    then have next': "q = rs_next (ss_tx s)" "unat (rs_next tx) = unat (rs_next (ss_tx s)) + 1" "direction_of mt = Some Request"
      using tx(3) by simp_all
    show ?thesis
      using client_seals(1,2) q next' tx(1) assms(3) by (auto simp: session_inv_def less_Suc_eq)
  qed
next
  case (network_shows frame dst x rx)
  show ?thesis
  proof (cases x)
    case None
    then have "rx = ss_rx s"
      using network_shows(3) arrival_None by simp
    then show ?thesis
      using None network_shows(1) assms(3) by simp
  next
    case (Some o')
    obtain e d out where e: "envelope_decode frame = Inr e" "sealed_decode e = Inr d"
      "sealed_open C d dst (ss_rx s) = (Inr o', out, rx)"
      using network_shows(3) Some by (auto elim: arrival_Some)
    note d = sealed_decode_Inr [OF e(2)]
    note opened = sealed_open_Inr [OF assms(1) e(3) d(2)]
    obtain h where h: "(h, o_inner o') \<in> set (ss_sent s)" "associated_data h = associated_data (sl_header d)"
      using network_shows(2) e opened(4) unfolding unforged_def by blast
    have sent: "session_ok (h_session h)" "direction_of (h_kind h) = Some Request"
      using h(1) assms(3) by (auto simp: session_inv_def)
    have header: "sl_header d = h"
      using associated_data_inj [OF _ sent(1) h(2) [symmetric]] envelope_decode_session [OF e(1)] d(1) by simp
    then have nonce: "unat (sl_nonce d) = unat (h_req_id h)"
      using d(1,3) sent(2) by (simp add: ucast_u64_unat)
    let ?S = "set (numbers (ss_got s))"
    have tr: "tracks (op_window (ss_rx s)) ?S"
      using assms(3) by (simp add: session_inv_def)
    have "admissible (unat (w_span (op_window (ss_rx s)))) ?S (unat (h_req_id h))"
      using admits_iff [OF tr, of "sl_nonce d"] opened(3) nonce by simp
    then have "unat (h_req_id h) \<notin> ?S"
      by (auto simp: admissible_def dest: Max_ge [rotated])
    moreover have "tracks (window_accept (sl_nonce d) (op_window (ss_rx s))) (insert (unat (h_req_id h)) ?S)"
      using accept_tracks [OF tr, of "sl_nonce d"] nonce by simp
    ultimately show ?thesis
      using network_shows(1) Some opened(1,5) header h(1) assms(3) by (simp add: session_inv_def)
  qed
qed

text \<open>A run with a request in it, so that what is said of reachable states is not of the first one
  only.\<close>

lemma example_session:
  obtains s where "(session_step example_crypto)\<^sup>*\<^sup>* (session_start [9]) s"
    and "ss_got s = [(\<lparr>h_kind = Mt_Time, h_session = Assigned 7, h_req_id = 1\<rparr>, [1, 2, 3])]"
    and "rs_next (ss_tx s) = 2"
proof -
  let ?s = "session_start [9]" and ?h = "\<lparr>h_kind = Mt_Time, h_session = Assigned 7, h_req_id = 1\<rparr>"
  let ?dst = "replicate 1024 0 :: bytes"
  have start: "ss_tx ?s = \<lparr>rs_key = [9], rs_next = 1\<rparr>" "ss_rx ?s = opener_new [9] (saturating_add MAX_INFLIGHT 1)"
    "ss_sent ?s = []" "ss_got ?s = []"
    by (simp_all add: session_start_def client_channel_new_def controller_channel_new_def)
  have "session_inv [9] ?s"
    by (rule session_inv_start)
  then have good: "window_good (op_window (ss_rx ?s))"
    using window_good_tracks by (auto simp: session_inv_def)
  obtain n out rx where sealed: "seal_request example_crypto Mt_Time (Assigned 7) [1, 2, 3] ?dst (ss_tx ?s) =
      (Inr (1, n), out, \<lparr>rs_key = [9], rs_next = 2\<rparr>)"
    and shown: "arrival example_crypto (take n out) ?dst (ss_rx ?s) = (Some \<lparr>o_header = ?h, o_inner = [1, 2, 3]\<rparr>, rx)"
    using request_delivered [OF example_crypto_ok, of Mt_Time "Assigned 7" "ss_tx ?s" "ss_rx ?s" "[1, 2, 3]" ?dst ?dst] good
    unfolding start by (auto simp: opener_new_def window_new_def window_admits_def limit_defs usize_max_def)
  let ?t = "?s\<lparr>ss_tx := \<lparr>rs_key = [9], rs_next = 2\<rparr>, ss_sent := [(?h, [1, 2, 3])]\<rparr>"
  have first: "session_step example_crypto ?s ?t"
    using client_seals [OF _ sealed] start by simp
  obtain e d o' where d: "envelope_decode (take n out) = Inr e" "sealed_decode e = Inr d"
    "sealed_open example_crypto d ?dst (ss_rx ?s) = (Inr \<lparr>o_header = ?h, o_inner = [1, 2, 3]\<rparr>, o', rx)"
    using shown by (rule arrival_Some)
  note opened = sealed_open_Inr [OF example_crypto_ok d(3) sealed_decode_Inr(2) [OF d(2)]]
  have "unforged example_crypto (take n out) ?t"
    using d(1,2) opened(1,4) by (auto simp: unforged_def sealed_bytes_def example_crypto_def)
  then have second: "session_step example_crypto ?t (?t\<lparr>ss_rx := rx, ss_got := [(?h, [1, 2, 3])]\<rparr>)"
    using network_shows [of example_crypto "take n out" ?t ?dst] shown start by fastforce
  have "(session_step example_crypto)\<^sup>*\<^sup>* ?s ?t"
    using first by (rule r_into_rtranclp)
  then have "(session_step example_crypto)\<^sup>*\<^sup>* ?s (?t\<lparr>ss_rx := rx, ss_got := [(?h, [1, 2, 3])]\<rparr>)"
    using second by (rule rtranclp.rtrancl_into_rtrancl)
  then show ?thesis
    by (rule that) simp_all
qed

section \<open>Properties of a session\<close>

text \<open>C25. Whatever the network does - replay, reorder, withhold, corrupt, or show bytes of its own
  that are not a seal under the session's key - every request the controller acts on is one the
  client sealed, with that header and that body, and no request is acted on twice.\<close>

theorem session_delivers_at_most_once:
  assumes "crypto_ok C" and "(session_step C)\<^sup>*\<^sup>* (session_start key) s"
  shows "set (ss_got s) \<subseteq> set (ss_sent s) \<and> distinct (numbers (ss_got s)) \<and> distinct (numbers (ss_sent s))"
proof -
  have "session_inv key s"
    using assms(2) by induction (auto intro: session_inv_start session_inv_step [OF assms(1)])
  then have "set (ss_got s) \<subseteq> set (ss_sent s)" "distinct (numbers (ss_got s))" "sorted_wrt (>) (numbers (ss_sent s))"
    by (simp_all add: session_inv_def)
  moreover have "sorted_wrt (>) ns \<Longrightarrow> distinct ns" for ns :: "nat list"
    by (induction ns) auto
  ultimately show ?thesis
    by blast
qed

lemma session_delivers_at_most_once_witness:
  "\<exists>s :: session. ss_got s = [(\<lparr>h_kind = Mt_Time, h_session = Assigned 7, h_req_id = 1\<rparr>, [1, 2, 3])] \<and>
    set (ss_got s) \<subseteq> set (ss_sent s) \<and> distinct (numbers (ss_got s)) \<and> distinct (numbers (ss_sent s))"
proof -
  obtain s where s: "(session_step example_crypto)\<^sup>*\<^sup>* (session_start [9]) s"
    "ss_got s = [(\<lparr>h_kind = Mt_Time, h_session = Assigned 7, h_req_id = 1\<rparr>, [1, 2, 3])]"
    by (rule example_session)
  then show ?thesis
    using session_delivers_at_most_once [OF example_crypto_ok s(1)] by (intro exI [of _ s]) simp
qed

text \<open>C26. However the network behaved so far, it cannot lock the client out: from every reachable
  state, a request sealed now and shown to the controller is delivered.\<close>

theorem session_next_request_gets_through:
  assumes "crypto_ok C" and "(session_step C)\<^sup>*\<^sup>* (session_start key) s"
    and "direction_of mt = Some Request" and "session_ok session" and "unat (rs_next (ss_tx s)) + 1 < 2 ^ 32"
    and "length inner + REQUEST_FRAMING_BYTES + 1 \<le> MAX_PAYLOAD"
    and "MAX_PAYLOAD \<le> length dst" and "length dst \<le> usize_max" and "MAX_PAYLOAD \<le> length buf" and "length buf \<le> usize_max"
  shows "\<exists>n out rx. seal_request C mt session inner dst (ss_tx s) =
      (Inr (rs_next (ss_tx s), n), out, (ss_tx s)\<lparr>rs_next := rs_next (ss_tx s) + 1\<rparr>) \<and>
    arrival C (take n out) buf (ss_rx s) =
      (Some \<lparr>o_header = \<lparr>h_kind = mt, h_session = session, h_req_id = rs_next (ss_tx s)\<rparr>, o_inner = inner\<rparr>, rx)"
proof -
  let ?h = "\<lparr>h_kind = mt, h_session = session, h_req_id = rs_next (ss_tx s)\<rparr>" and ?n = "ucast (rs_next (ss_tx s)) :: u64"
  have inv: "session_inv key s"
    using assms(2) by induction (auto intro: session_inv_start session_inv_step [OF assms(1)])
  let ?S = "set (numbers (ss_got s))"
  have key: "rs_key (ss_tx s) = op_key (ss_rx s)" and tr: "tracks (op_window (ss_rx s)) ?S"
    using inv by (simp_all add: session_inv_def)
  have below: "k < unat ?n" if "k \<in> ?S" for k
    using inv that by (auto simp: session_inv_def numbers_def ucast_u64_unat)
  have "admissible (unat (w_span (op_window (ss_rx s)))) ?S (unat ?n)"
    using below by (cases "?S = {}") (auto simp: admissible_def)
  then have "window_admits (op_window (ss_rx s)) ?n = Inr ()"
    using admits_iff [OF tr] by simp
  then show ?thesis
    using request_delivered [OF assms(1,3-5) key window_good_tracks [OF tr] _ assms(6-10)] by fastforce
qed

lemma session_next_request_gets_through_witness:
  "\<exists>(s :: session) n out rx. ss_got s = [(\<lparr>h_kind = Mt_Time, h_session = Assigned 7, h_req_id = 1\<rparr>, [1, 2, 3])] \<and>
    seal_request example_crypto Mt_Goodbye (Assigned 7) [4] (replicate 1024 0) (ss_tx s) =
      (Inr (rs_next (ss_tx s), n), out, (ss_tx s)\<lparr>rs_next := rs_next (ss_tx s) + 1\<rparr>) \<and>
    arrival example_crypto (take n out) (replicate 1024 0) (ss_rx s) =
      (Some \<lparr>o_header = \<lparr>h_kind = Mt_Goodbye, h_session = Assigned 7, h_req_id = rs_next (ss_tx s)\<rparr>, o_inner = [4]\<rparr>, rx)"
proof -
  obtain s where s: "(session_step example_crypto)\<^sup>*\<^sup>* (session_start [9]) s"
    "ss_got s = [(\<lparr>h_kind = Mt_Time, h_session = Assigned 7, h_req_id = 1\<rparr>, [1, 2, 3])]" "rs_next (ss_tx s) = 2"
    by (rule example_session)
  obtain n out rx where "seal_request example_crypto Mt_Goodbye (Assigned 7) [4] (replicate 1024 0) (ss_tx s) =
      (Inr (rs_next (ss_tx s), n), out, (ss_tx s)\<lparr>rs_next := rs_next (ss_tx s) + 1\<rparr>) \<and>
    arrival example_crypto (take n out) (replicate 1024 0) (ss_rx s) =
      (Some \<lparr>o_header = \<lparr>h_kind = Mt_Goodbye, h_session = Assigned 7, h_req_id = rs_next (ss_tx s)\<rparr>, o_inner = [4]\<rparr>, rx)"
    using session_next_request_gets_through [OF example_crypto_ok s(1), of Mt_Goodbye "Assigned 7" "[4]"
        "replicate 1024 0" "replicate 1024 0"] s(3)
    by (auto simp: limit_defs usize_max_def)
  then show ?thesis
    using s(2) by (intro exI [of _ s] exI [of _ n] exI [of _ out] exI [of _ rx]) simp
qed

end
