(* ===== verification/Noise.thy ===== *)
theory Noise
  imports Sealed
begin

text \<open>
  \<open>crates/km43/src/noise.rs\<close>: Noise's cipher and symmetric states, the handshakes \<open>XXpsk0\<close>
  (pairing) and \<open>IK\<close> (a session), message by message. A method over \<open>&mut self\<close> and a
  destination slice is an action on the pair of the two; the primitives are the argument
  \<open>C\<close>.
\<close>

definition BLOCK_BYTES :: nat where "BLOCK_BYTES = 64"
definition NONCE_RESERVED :: u64 where "NONCE_RESERVED = - 1"

definition PAIRING_NAME :: bytes where
  "PAIRING_NAME = map of_char ''Noise_XXpsk0_25519_ChaChaPoly_SHA256''"

definition SESSION_NAME :: bytes where
  "SESSION_NAME = map of_char ''Noise_IK_25519_ChaChaPoly_SHA256''"

section \<open>Keys\<close>

type_synonym public_key = bytes

record static_key =
  sk_secret :: bytes
  sk_public :: public_key

definition from_secret :: "crypto \<Rightarrow> bytes \<Rightarrow> static_key" where
  "from_secret C secret = \<lparr>sk_secret = secret, sk_public = c_public C secret\<rparr>"

definition generate :: "crypto \<Rightarrow> bytes \<Rightarrow> static_key" where
  "generate C entropy = from_secret C entropy"

definition agree :: "crypto \<Rightarrow> static_key \<Rightarrow> public_key \<Rightarrow> noise_error + bytes" where
  "agree C key theirs =
     (case c_dh C (sk_secret key) theirs of Some shared \<Rightarrow> Inr shared | None \<Rightarrow> Inl Noise_LowOrderPoint)"

section \<open>Cipher states\<close>

record cipher =
  ci_key :: "bytes option"
  ci_nonce :: u64

definition cipher_empty :: cipher where
  "cipher_empty = \<lparr>ci_key = None, ci_nonce = 0\<rparr>"

definition cipher_keyed :: "bytes \<Rightarrow> cipher" where
  "cipher_keyed key = \<lparr>ci_key = Some key, ci_nonce = 0\<rparr>"

definition take_nonce :: "(cipher, noise_error, u64) act" where
  "take_nonce c =
     (if ci_nonce c = NONCE_RESERVED then (Inl Noise_NonceExhausted, c)
      else (Inr (ci_nonce c), c\<lparr>ci_nonce := ci_nonce c + 1\<rparr>))"

fun cipher_encrypt :: "crypto \<Rightarrow> bytes \<Rightarrow> bytes \<Rightarrow> (cipher \<times> bytes, noise_error, nat) act" where
  "cipher_encrypt C ad plaintext (c, dst) =
     (case ci_key c of
        None \<Rightarrow>
          if length dst < length plaintext then (Inl Noise_DestinationTooSmall, c, dst)
          else (Inr (length plaintext), c, splice dst 0 plaintext)
      | Some key \<Rightarrow>
          (case take_nonce c of
             (Inl e, c') \<Rightarrow> (Inl e, c', dst)
           | (Inr nonce, c') \<Rightarrow>
               (case checked_add (length plaintext) TAG_BYTES of
                  None \<Rightarrow> (Inl Noise_DestinationTooSmall, c', dst)
                | Some len \<Rightarrow>
                    if length dst < len then (Inl Noise_DestinationTooSmall, c', dst)
                    else case seal_in_place C key nonce ad plaintext (take TAG_BYTES (drop (length plaintext) dst)) of
                           (Inl e, body, tag) \<Rightarrow> (Inl e, c', splice dst 0 (body @ tag))
                         | (Inr _, body, tag) \<Rightarrow> (Inr len, c', splice dst 0 (body @ tag)))))"

fun cipher_decrypt :: "crypto \<Rightarrow> bytes \<Rightarrow> bytes \<Rightarrow> (cipher \<times> bytes, noise_error, nat) act" where
  "cipher_decrypt C ad ciphertext (c, dst) =
     (case ci_key c of
        None \<Rightarrow>
          if length dst < length ciphertext then (Inl Noise_DestinationTooSmall, c, dst)
          else (Inr (length ciphertext), c, splice dst 0 ciphertext)
      | Some key \<Rightarrow>
          if length ciphertext < TAG_BYTES then (Inl Noise_Truncated, c, dst)
          else let body_len = length ciphertext - TAG_BYTES;
                   body = take body_len ciphertext;
                   tag = drop body_len ciphertext
            in if length dst < body_len then (Inl Noise_DestinationTooSmall, c, dst)
               else if ci_nonce c = NONCE_RESERVED then (Inl Noise_NonceExhausted, c, splice dst 0 body)
               else case open_in_place C key (ci_nonce c) ad body tag of
                      (Inl _, _) \<Rightarrow> (Inl Noise_Decrypt, c, splice dst 0 (replicate body_len 0))
                    | (Inr _, plain) \<Rightarrow> (Inr body_len, c\<lparr>ci_nonce := ci_nonce c + 1\<rparr>, splice dst 0 plain))"

section \<open>HKDF\<close>

definition hmac :: "crypto \<Rightarrow> bytes \<Rightarrow> bytes list \<Rightarrow> bytes" where
  "hmac C key parts = c_hmac C (take BLOCK_BYTES (key @ replicate BLOCK_BYTES 0)) (concat parts)"

definition hkdf2 :: "crypto \<Rightarrow> bytes \<Rightarrow> bytes \<Rightarrow> bytes \<times> bytes" where
  "hkdf2 C chaining material =
     (let temp = hmac C chaining [material];
          first = hmac C temp [[1]];
          second = hmac C temp [first, [2]]
      in (first, second))"

definition hkdf3 :: "crypto \<Rightarrow> bytes \<Rightarrow> bytes \<Rightarrow> bytes \<times> bytes \<times> bytes" where
  "hkdf3 C chaining material =
     (let temp = hmac C chaining [material];
          first = hmac C temp [[1]];
          second = hmac C temp [first, [2]];
          third = hmac C temp [second, [3]]
      in (first, second, third))"

section \<open>The symmetric state\<close>

record symmetric =
  sy_cipher :: cipher
  sy_chaining :: bytes
  sy_hash :: bytes

definition mix_hash :: "crypto \<Rightarrow> bytes \<Rightarrow> symmetric \<Rightarrow> symmetric" where
  "mix_hash C data s = s\<lparr>sy_hash := c_sha256 C (sy_hash s @ data)\<rparr>"

definition symmetric_start :: "crypto \<Rightarrow> bytes \<Rightarrow> bytes \<Rightarrow> symmetric" where
  "symmetric_start C name prologue =
     (let hash = (if length name \<le> KEY_BYTES then take KEY_BYTES (name @ replicate KEY_BYTES 0) else c_sha256 C name)
      in mix_hash C prologue \<lparr>sy_cipher = cipher_empty, sy_chaining = hash, sy_hash = hash\<rparr>)"

definition mix_key :: "crypto \<Rightarrow> bytes \<Rightarrow> symmetric \<Rightarrow> symmetric" where
  "mix_key C material s =
     (case hkdf2 C (sy_chaining s) material of
        (chaining, key) \<Rightarrow> s\<lparr>sy_chaining := chaining, sy_cipher := cipher_keyed key\<rparr>)"

definition mix_key_and_hash :: "crypto \<Rightarrow> bytes \<Rightarrow> symmetric \<Rightarrow> symmetric" where
  "mix_key_and_hash C material s =
     (case hkdf3 C (sy_chaining s) material of
        (chaining, extra, key) \<Rightarrow>
          (mix_hash C extra (s\<lparr>sy_chaining := chaining\<rparr>))\<lparr>sy_cipher := cipher_keyed key\<rparr>)"

type_synonym 'a noise = "(symmetric \<times> bytes, noise_error, 'a) act"

definition mixing :: "(symmetric \<Rightarrow> symmetric) \<Rightarrow> unit noise" where
  "mixing f = modify (\<lambda>(s, dst). (f s, dst))"

fun encrypt_and_hash :: "crypto \<Rightarrow> bytes \<Rightarrow> nat noise" where
  "encrypt_and_hash C plaintext (s, dst) =
     (case cipher_encrypt C (sy_hash s) plaintext (sy_cipher s, dst) of
        (Inl e, c, dst') \<Rightarrow> (Inl e, s\<lparr>sy_cipher := c\<rparr>, dst')
      | (Inr len, c, dst') \<Rightarrow>
          if len \<le> length dst' then (Inr len, mix_hash C (take len dst') (s\<lparr>sy_cipher := c\<rparr>), dst')
          else (Inl Noise_DestinationTooSmall, s\<lparr>sy_cipher := c\<rparr>, dst'))"

fun decrypt_and_hash :: "crypto \<Rightarrow> bytes \<Rightarrow> nat noise" where
  "decrypt_and_hash C ciphertext (s, dst) =
     (case cipher_decrypt C (sy_hash s) ciphertext (sy_cipher s, dst) of
        (Inl e, c, dst') \<Rightarrow> (Inl e, s\<lparr>sy_cipher := c\<rparr>, dst')
      | (Inr len, c, dst') \<Rightarrow> (Inr len, mix_hash C ciphertext (s\<lparr>sy_cipher := c\<rparr>), dst'))"

fun send_ephemeral :: "crypto \<Rightarrow> static_key \<Rightarrow> bool \<Rightarrow> nat noise" where
  "send_ephemeral C key psk (s, dst) =
     (if length dst < KEY_BYTES then (Inl Noise_DestinationTooSmall, s, dst)
      else let s' = mix_hash C (sk_public key) s
        in (Inr KEY_BYTES, if psk then mix_key C (sk_public key) s' else s', splice dst 0 (sk_public key)))"

definition first_key :: "bytes \<Rightarrow> noise_error + public_key" where
  "first_key msg = (case slice msg 0 KEY_BYTES of None \<Rightarrow> Inl Noise_Truncated | Some key \<Rightarrow> Inr key)"

definition read_ephemeral :: "crypto \<Rightarrow> bytes \<Rightarrow> bool \<Rightarrow> public_key noise" where
  "read_ephemeral C msg psk =
     andthen (lift_sum (first_key msg)) (\<lambda>key.
     andthen (mixing (mix_hash C key)) (\<lambda>_.
     andthen (if psk then mixing (mix_key C key) else ret ()) (\<lambda>_. ret key)))"

text \<open>Decrypts into a 32-byte array of its own.\<close>

definition read_static :: "crypto \<Rightarrow> bytes \<Rightarrow> public_key noise" where
  "read_static C msg =
     andthen (ok_or Noise_Truncated (slice msg 0 SEALED_KEY_BYTES)) (\<lambda>sealed (s, dst).
       case decrypt_and_hash C sealed (s, replicate KEY_BYTES 0) of
         (Inl e, s', _) \<Rightarrow> (Inl e, s', dst)
       | (Inr len, s', out) \<Rightarrow> if len \<noteq> KEY_BYTES then (Inl Noise_Truncated, s', dst) else (Inr out, s', dst))"

record session_keys =
  initiator_to_responder :: bytes
  responder_to_initiator :: bytes
  handshake_hash :: bytes

definition split_keys :: "crypto \<Rightarrow> symmetric \<Rightarrow> session_keys" where
  "split_keys C s =
     (case hkdf2 C (sy_chaining s) [] of
        (first, second) \<Rightarrow>
          \<lparr>initiator_to_responder = first, responder_to_initiator = second, handshake_hash = sy_hash s\<rparr>)"

definition for_initiator :: "session_keys \<Rightarrow> client_channel" where
  "for_initiator k = client_channel_new (initiator_to_responder k) (responder_to_initiator k)"

definition for_responder :: "session_keys \<Rightarrow> controller_channel" where
  "for_responder k = controller_channel_new (responder_to_initiator k) (initiator_to_responder k)"

section \<open>What goes on the wire, and the state it leaves\<close>

lemma length_hmac [simp]: "crypto_ok C \<Longrightarrow> length (hmac C key parts) = KEY_BYTES"
  by (simp add: hmac_def crypto_ok_sizes)

definition ciphertext :: "crypto \<Rightarrow> symmetric \<Rightarrow> bytes \<Rightarrow> bytes" where
  "ciphertext C s plaintext =
     (case ci_key (sy_cipher s) of
        None \<Rightarrow> plaintext
      | Some key \<Rightarrow> sealed_bytes C key (ci_nonce (sy_cipher s)) (sy_hash s) plaintext)"

definition cipher_next :: "cipher \<Rightarrow> cipher" where
  "cipher_next c = (case ci_key c of None \<Rightarrow> c | Some _ \<Rightarrow> c\<lparr>ci_nonce := ci_nonce c + 1\<rparr>)"

text \<open>The state either side is in once that ciphertext is in the transcript.\<close>

definition after :: "crypto \<Rightarrow> symmetric \<Rightarrow> bytes \<Rightarrow> symmetric" where
  "after C s ct = mix_hash C ct (s\<lparr>sy_cipher := cipher_next (sy_cipher s)\<rparr>)"

definition usable :: "symmetric \<Rightarrow> bool" where
  "usable s \<longleftrightarrow> ci_nonce (sy_cipher s) \<noteq> NONCE_RESERVED"

definition sealed_len :: "symmetric \<Rightarrow> nat \<Rightarrow> nat" where
  "sealed_len s n = (if ci_key (sy_cipher s) = None then n else n + TAG_BYTES)"

lemma length_ciphertext:
  "crypto_ok C \<Longrightarrow> length plaintext \<le> usize_max \<Longrightarrow> length (ciphertext C s plaintext) = sealed_len s (length plaintext)"
  by (auto simp: ciphertext_def sealed_len_def length_sealed_bytes split: option.split)

lemma encrypt_rule:
  assumes "crypto_ok C" and "usable s" and "length plaintext + TAG_BYTES \<le> usize_max"
    and "sealed_len s (length plaintext) \<le> length dst"
  shows "encrypt_and_hash C plaintext (s, dst) =
    (Inr (length (ciphertext C s plaintext)), after C s (ciphertext C s plaintext), splice dst 0 (ciphertext C s plaintext))"
proof (cases "ci_key (sy_cipher s)")
  case None
  then show ?thesis
    using assms(4) by (simp add: ciphertext_def after_def cipher_next_def sealed_len_def splice_def)
next
  case (Some key)
  have n: "length plaintext \<le> usize_max"
    using assms(3) by simp
  have room: "length plaintext + TAG_BYTES \<le> length dst"
    using assms(4) Some by (simp add: sealed_len_def)
  obtain c t where ct: "seal_in_place C key (ci_nonce (sy_cipher s)) (sy_hash s) plaintext
      (take TAG_BYTES (drop (length plaintext) dst)) = (Inr (), c, t)"
    "sealed_bytes C key (ci_nonce (sy_cipher s)) (sy_hash s) plaintext = c @ t" "length c = length plaintext" "length t = TAG_BYTES"
    by (rule seal_in_place_eq [OF assms(1) n, of "take TAG_BYTES (drop (length plaintext) dst)" key "ci_nonce (sy_cipher s)" "sy_hash s"])
      (use room in auto)
  then show ?thesis
    using Some assms(2,3) room
    by (simp add: take_nonce_def usable_def ciphertext_def after_def cipher_next_def splice_def)
qed

lemma decrypt_rule:
  assumes "crypto_ok C" and "usable s" and "length plaintext \<le> usize_max" and "length plaintext \<le> length dst"
  shows "decrypt_and_hash C (ciphertext C s plaintext) (s, dst) =
    (Inr (length plaintext), after C s (ciphertext C s plaintext), splice dst 0 plaintext)"
proof (cases "ci_key (sy_cipher s)")
  case None
  then show ?thesis
    using assms(4) by (simp add: ciphertext_def after_def cipher_next_def)
next
  case (Some key)
  obtain c t where "sealed_bytes C key (ci_nonce (sy_cipher s)) (sy_hash s) plaintext = c @ t"
    "length c = length plaintext" "length t = TAG_BYTES"
    "open_in_place C key (ci_nonce (sy_cipher s)) (sy_hash s) c t = (Inr (), plaintext)"
    by (rule seal_in_place_eq [OF assms(1,3), of "replicate TAG_BYTES 0" key "ci_nonce (sy_cipher s)" "sy_hash s"]) auto
  then show ?thesis
    using Some assms(2,4) by (simp add: usable_def ciphertext_def after_def cipher_next_def Let_def)
qed

text \<open>Decryption accepts nothing but what encryption in that state writes.\<close>

lemma decrypt_exact:
  assumes "crypto_ok C" and "decrypt_and_hash C ct (s, dst) = (Inr n, s', dst')" and "length ct \<le> usize_max"
  obtains plaintext where "ct = ciphertext C s plaintext" and "n = length plaintext" and "s' = after C s ct"
    and "dst' = splice dst 0 plaintext" and "n \<le> length dst" and "n \<le> usize_max"
proof (cases "ci_key (sy_cipher s)")
  case None
  then show ?thesis
    using assms(2,3) by (intro that [of ct]) (auto simp: ciphertext_def after_def cipher_next_def split: if_splits)
next
  case (Some key)
  let ?n = "length ct - TAG_BYTES"
  obtain plaintext where plain: "open_in_place C key (ci_nonce (sy_cipher s)) (sy_hash s) (take ?n ct) (drop ?n ct) = (Inr (), plaintext)"
    and rest: "n = ?n" "s' = after C s ct" "dst' = splice dst 0 plaintext" "?n \<le> length dst" "TAG_BYTES \<le> length ct"
    using assms(2) Some
    by (auto simp: Let_def after_def cipher_next_def split: if_splits sum.splits prod.splits)
  have "length (take ?n ct) \<le> usize_max"
    using assms(3) by simp
  from open_in_place_ok [OF assms(1) plain this] rest Some assms(3) show ?thesis
    by (intro that [of plaintext]) (auto simp: ciphertext_def)
qed

text \<open>A forged message does not move the nonce.\<close>

lemma decrypt_failed: "cipher_decrypt C ad ct (c, dst) = (Inl e, c', dst') \<Longrightarrow> c' = c"
  by (auto simp: Let_def split: option.splits if_splits sum.splits prod.splits)

end
