(* ===== verification/Handshake.thy ===== *)
theory Handshake
  imports Noise Session
begin

text \<open>
  The two handshakes of \<open>crates/km43/src/noise.rs\<close>, one definition per message and side, and
  what they promise: both sides end in the same transcript with the same keys, each has the
  other's static key, every payload arrives, and a side accepts nothing but the message its
  peer would have written.
\<close>

section \<open>Buffers\<close>

text \<open>\<open>dst.get_mut(at..)\<close>, and a step that consumes its state.\<close>

fun at_tail :: "nat \<Rightarrow> 'a noise \<Rightarrow> 'a noise" where
  "at_tail at m (s, dst) =
     (if length dst < at then (Inl Noise_DestinationTooSmall, s, dst)
      else case m (s, drop at dst) of (x, s', tail) \<Rightarrow> (x, s', take at dst @ tail))"

definition stepping :: "'a noise \<Rightarrow> symmetric \<Rightarrow> bytes \<Rightarrow> (noise_error + 'a) \<times> bytes" where
  "stepping m s dst = (case m (s, dst) of (x, _, dst') \<Rightarrow> (x, dst'))"

definition agreed :: "crypto \<Rightarrow> static_key \<Rightarrow> public_key \<Rightarrow> unit noise" where
  "agreed C key theirs = andthen (lift_sum (agree C key theirs)) (\<lambda>shared. mixing (mix_key C shared))"

definition rest_of :: "bytes \<Rightarrow> nat \<Rightarrow> bytes noise" where
  "rest_of msg at = ok_or Noise_Truncated (if at \<le> length msg then Some (drop at msg) else None)"

definition plain_of :: "nat \<Rightarrow> bytes noise" where
  "plain_of len = andthen (reads snd) (\<lambda>dst. ok_or Noise_DestinationTooSmall (slice dst 0 len))"

section \<open>Pairing\<close>

record pair_initiator =
  pi_state :: symmetric
  pi_ephemeral :: static_key

record pair_replied =
  pr_state :: symmetric
  pr_their_ephemeral :: public_key
  pr_controller :: public_key

record pair_requested =
  pq_state :: symmetric
  pq_their_ephemeral :: public_key

record pair_awaiting =
  pa_state :: symmetric
  pa_ephemeral :: static_key

record pair_finished =
  pf_client :: public_key
  pf_keys :: session_keys

definition pair_state :: "crypto \<Rightarrow> bytes \<Rightarrow> bytes \<Rightarrow> symmetric" where
  "pair_state C prologue psk = mix_key_and_hash C psk (symmetric_start C PAIRING_NAME prologue)"

definition pair_start ::
  "crypto \<Rightarrow> bytes \<Rightarrow> bytes \<Rightarrow> bytes \<Rightarrow> bytes \<Rightarrow> bytes \<Rightarrow> (noise_error + pair_initiator \<times> nat) \<times> bytes" where
  "pair_start C prologue psk entropy payload dst =
     (let ephemeral = generate C entropy in
      stepping (
        andthen (send_ephemeral C ephemeral True) (\<lambda>front.
        andthen (at_tail front (encrypt_and_hash C payload)) (\<lambda>body.
        reads (\<lambda>(s, _). (\<lparr>pi_state = s, pi_ephemeral = ephemeral\<rparr>, saturating_add front body)))))
        (pair_state C prologue psk) dst)"

definition pair_read_reply ::
  "crypto \<Rightarrow> pair_initiator \<Rightarrow> bytes \<Rightarrow> bytes \<Rightarrow> (noise_error + pair_replied \<times> bytes) \<times> bytes" where
  "pair_read_reply C i msg dst =
     stepping (
       andthen (read_ephemeral C msg True) (\<lambda>theirs.
       andthen (agreed C (pi_ephemeral i) theirs) (\<lambda>_.
       andthen (rest_of msg KEY_BYTES) (\<lambda>rest.
       andthen (read_static C rest) (\<lambda>controller.
       andthen (agreed C (pi_ephemeral i) controller) (\<lambda>_.
       andthen (rest_of rest SEALED_KEY_BYTES) (\<lambda>payload.
       andthen (decrypt_and_hash C payload) (\<lambda>len.
       andthen (plain_of len) (\<lambda>plain.
       reads (\<lambda>(s, _). (\<lparr>pr_state = s, pr_their_ephemeral = theirs, pr_controller = controller\<rparr>, plain)))))))))))
       (pi_state i) dst"

definition pair_finish ::
  "crypto \<Rightarrow> pair_replied \<Rightarrow> static_key \<Rightarrow> bytes \<Rightarrow> bytes \<Rightarrow> (noise_error + session_keys \<times> nat) \<times> bytes" where
  "pair_finish C r key payload dst =
     stepping (
       andthen (encrypt_and_hash C (sk_public key)) (\<lambda>front.
       andthen (agreed C key (pr_their_ephemeral r)) (\<lambda>_.
       andthen (at_tail front (encrypt_and_hash C payload)) (\<lambda>body.
       reads (\<lambda>(s, _). (split_keys C s, saturating_add front body))))))
       (pr_state r) dst"

definition pair_read_request ::
  "crypto \<Rightarrow> bytes \<Rightarrow> bytes \<Rightarrow> bytes \<Rightarrow> bytes \<Rightarrow> (noise_error + pair_requested \<times> bytes) \<times> bytes" where
  "pair_read_request C prologue psk msg dst =
     stepping (
       andthen (read_ephemeral C msg True) (\<lambda>theirs.
       andthen (rest_of msg KEY_BYTES) (\<lambda>payload.
       andthen (decrypt_and_hash C payload) (\<lambda>len.
       andthen (plain_of len) (\<lambda>plain.
       reads (\<lambda>(s, _). (\<lparr>pq_state = s, pq_their_ephemeral = theirs\<rparr>, plain)))))))
       (pair_state C prologue psk) dst"

definition pair_reply ::
  "crypto \<Rightarrow> pair_requested \<Rightarrow> static_key \<Rightarrow> bytes \<Rightarrow> bytes \<Rightarrow> bytes \<Rightarrow> (noise_error + pair_awaiting \<times> nat) \<times> bytes" where
  "pair_reply C q controller entropy payload dst =
     (let ephemeral = generate C entropy in
      stepping (
        andthen (send_ephemeral C ephemeral True) (\<lambda>at.
        andthen (agreed C ephemeral (pq_their_ephemeral q)) (\<lambda>_.
        andthen (at_tail at (encrypt_and_hash C (sk_public controller))) (\<lambda>sealed.
        andthen (agreed C controller (pq_their_ephemeral q)) (\<lambda>_.
        andthen (at_tail (saturating_add at sealed) (encrypt_and_hash C payload)) (\<lambda>body.
        reads (\<lambda>(s, _). (\<lparr>pa_state = s, pa_ephemeral = ephemeral\<rparr>, saturating_add (saturating_add at sealed) body))))))))
        (pq_state q) dst)"

definition pair_read_finish ::
  "crypto \<Rightarrow> pair_awaiting \<Rightarrow> bytes \<Rightarrow> bytes \<Rightarrow> (noise_error + pair_finished \<times> bytes) \<times> bytes" where
  "pair_read_finish C w msg dst =
     stepping (
       andthen (read_static C msg) (\<lambda>client.
       andthen (agreed C (pa_ephemeral w) client) (\<lambda>_.
       andthen (rest_of msg SEALED_KEY_BYTES) (\<lambda>payload.
       andthen (decrypt_and_hash C payload) (\<lambda>len.
       andthen (plain_of len) (\<lambda>plain.
       reads (\<lambda>(s, _). (\<lparr>pf_client = client, pf_keys = split_keys C s\<rparr>, plain))))))))
       (pa_state w) dst"

section \<open>Opening a session\<close>

record hello_initiator =
  hi_state :: symmetric
  hi_ephemeral :: static_key

record hello_claimed =
  hc_state :: symmetric
  hc_their_ephemeral :: public_key
  hc_client :: public_key

record hello_proved =
  hp_state :: symmetric
  hp_their_ephemeral :: public_key
  hp_client :: public_key

definition hello_state :: "crypto \<Rightarrow> bytes \<Rightarrow> public_key \<Rightarrow> symmetric" where
  "hello_state C prologue controller = mix_hash C controller (symmetric_start C SESSION_NAME prologue)"

definition hello_start ::
  "crypto \<Rightarrow> bytes \<Rightarrow> public_key \<Rightarrow> static_key \<Rightarrow> bytes \<Rightarrow> bytes \<Rightarrow> bytes \<Rightarrow>
     (noise_error + hello_initiator \<times> nat) \<times> bytes" where
  "hello_start C prologue controller client entropy payload dst =
     (let ephemeral = generate C entropy in
      stepping (
        andthen (send_ephemeral C ephemeral False) (\<lambda>at.
        andthen (agreed C ephemeral controller) (\<lambda>_.
        andthen (at_tail at (encrypt_and_hash C (sk_public client))) (\<lambda>sealed.
        andthen (agreed C client controller) (\<lambda>_.
        andthen (at_tail (saturating_add at sealed) (encrypt_and_hash C payload)) (\<lambda>body.
        reads (\<lambda>(s, _). (\<lparr>hi_state = s, hi_ephemeral = ephemeral\<rparr>, saturating_add (saturating_add at sealed) body))))))))
        (hello_state C prologue controller) dst)"

definition hello_read_reply ::
  "crypto \<Rightarrow> hello_initiator \<Rightarrow> static_key \<Rightarrow> bytes \<Rightarrow> bytes \<Rightarrow> (noise_error + session_keys \<times> bytes) \<times> bytes" where
  "hello_read_reply C i client msg dst =
     stepping (
       andthen (read_ephemeral C msg False) (\<lambda>theirs.
       andthen (agreed C (hi_ephemeral i) theirs) (\<lambda>_.
       andthen (agreed C client theirs) (\<lambda>_.
       andthen (rest_of msg KEY_BYTES) (\<lambda>payload.
       andthen (decrypt_and_hash C payload) (\<lambda>len.
       andthen (plain_of len) (\<lambda>plain.
       reads (\<lambda>(s, _). (split_keys C s, plain)))))))))
       (hi_state i) dst"

definition hello_read_claim :: "crypto \<Rightarrow> bytes \<Rightarrow> static_key \<Rightarrow> bytes \<Rightarrow> noise_error + hello_claimed" where
  "hello_read_claim C prologue controller msg = fst (
     stepping (
       andthen (read_ephemeral C msg False) (\<lambda>theirs.
       andthen (agreed C controller theirs) (\<lambda>_.
       andthen (rest_of msg KEY_BYTES) (\<lambda>rest.
       andthen (read_static C rest) (\<lambda>client.
       reads (\<lambda>(s, _). \<lparr>hc_state = s, hc_their_ephemeral = theirs, hc_client = client\<rparr>))))))
       (hello_state C prologue (sk_public controller)) [])"

definition hello_prove ::
  "crypto \<Rightarrow> hello_claimed \<Rightarrow> static_key \<Rightarrow> bytes \<Rightarrow> bytes \<Rightarrow> (noise_error + hello_proved \<times> bytes) \<times> bytes" where
  "hello_prove C c controller msg dst =
     stepping (
       andthen (agreed C controller (hc_client c)) (\<lambda>_.
       andthen (rest_of msg (saturating_add KEY_BYTES SEALED_KEY_BYTES)) (\<lambda>payload.
       andthen (decrypt_and_hash C payload) (\<lambda>len.
       andthen (plain_of len) (\<lambda>plain.
       reads (\<lambda>(s, _).
         (\<lparr>hp_state = s, hp_their_ephemeral = hc_their_ephemeral c, hp_client = hc_client c\<rparr>, plain)))))))
       (hc_state c) dst"

definition hello_reply ::
  "crypto \<Rightarrow> hello_proved \<Rightarrow> bytes \<Rightarrow> bytes \<Rightarrow> bytes \<Rightarrow> (noise_error + session_keys \<times> nat) \<times> bytes" where
  "hello_reply C p entropy payload dst =
     (let ephemeral = generate C entropy in
      stepping (
        andthen (send_ephemeral C ephemeral False) (\<lambda>front.
        andthen (agreed C ephemeral (hp_their_ephemeral p)) (\<lambda>_.
        andthen (agreed C ephemeral (hp_client p)) (\<lambda>_.
        andthen (at_tail front (encrypt_and_hash C payload)) (\<lambda>body.
        reads (\<lambda>(s, _). (split_keys C s, saturating_add front body)))))))
        (hp_state p) dst)"

section \<open>The messages as values\<close>

text \<open>
  Each message, and the symmetric state once it is in the transcript: what the writer writes
  and the only thing the reader accepts.
\<close>

definition mixed_ephemeral :: "crypto \<Rightarrow> bool \<Rightarrow> public_key \<Rightarrow> symmetric \<Rightarrow> symmetric" where
  "mixed_ephemeral C psk e s = (let s' = mix_hash C e s in if psk then mix_key C e s' else s')"

definition carried :: "crypto \<Rightarrow> symmetric \<Rightarrow> bytes \<Rightarrow> bytes \<times> symmetric" where
  "carried C s m = (ciphertext C s m, after C s (ciphertext C s m))"

definition pair_first :: "crypto \<Rightarrow> symmetric \<Rightarrow> public_key \<Rightarrow> bytes \<Rightarrow> bytes \<times> symmetric" where
  "pair_first C s e m = (case carried C (mixed_ephemeral C True e s) m of (ct, t) \<Rightarrow> (e @ ct, t))"

definition pair_second ::
  "crypto \<Rightarrow> symmetric \<Rightarrow> public_key \<Rightarrow> bytes \<Rightarrow> public_key \<Rightarrow> bytes \<Rightarrow> bytes \<Rightarrow> bytes \<times> symmetric" where
  "pair_second C s e ee controller es m =
     (case carried C (mix_key C ee (mixed_ephemeral C True e s)) controller of (c1, t) \<Rightarrow>
      case carried C (mix_key C es t) m of (c2, u) \<Rightarrow> (e @ c1 @ c2, u))"

definition pair_third :: "crypto \<Rightarrow> symmetric \<Rightarrow> public_key \<Rightarrow> bytes \<Rightarrow> bytes \<Rightarrow> bytes \<times> symmetric" where
  "pair_third C s client se m =
     (case carried C s client of (c1, t) \<Rightarrow>
      case carried C (mix_key C se t) m of (c2, u) \<Rightarrow> (c1 @ c2, u))"

definition hello_first ::
  "crypto \<Rightarrow> symmetric \<Rightarrow> public_key \<Rightarrow> bytes \<Rightarrow> public_key \<Rightarrow> bytes \<Rightarrow> bytes \<Rightarrow> bytes \<times> symmetric" where
  "hello_first C s e es client ss m =
     (case carried C (mix_key C es (mixed_ephemeral C False e s)) client of (c1, t) \<Rightarrow>
      case carried C (mix_key C ss t) m of (c2, u) \<Rightarrow> (e @ c1 @ c2, u))"

definition hello_second ::
  "crypto \<Rightarrow> symmetric \<Rightarrow> public_key \<Rightarrow> bytes \<Rightarrow> bytes \<Rightarrow> bytes \<Rightarrow> bytes \<times> symmetric" where
  "hello_second C s e ee se m =
     (case carried C (mix_key C se (mix_key C ee (mixed_ephemeral C False e s))) m of (ct, t) \<Rightarrow> (e @ ct, t))"

lemmas message_defs = pair_first_def pair_second_def pair_third_def hello_first_def hello_second_def carried_def

text \<open>Where a key is in play, and that its nonce is far from the reserved one.\<close>

definition keyed :: "symmetric \<Rightarrow> bool" where
  "keyed s \<longleftrightarrow> ci_key (sy_cipher s) \<noteq> None"

lemma mix_hash_cipher [simp]: "sy_cipher (mix_hash C d s) = sy_cipher s"
  by (simp add: mix_hash_def)

lemma mix_key_cipher [simp]: "keyed (mix_key C k s)" "usable (mix_key C k s)"
  by (simp_all add: mix_key_def keyed_def usable_def cipher_keyed_def NONCE_RESERVED_def split: prod.split)

lemma keyed_usable [simp]: "keyed (mix_hash C d s) = keyed s" "usable (mix_hash C d s) = usable s" "keyed (after C s ct) = keyed s"
  by (auto simp: keyed_def usable_def after_def cipher_next_def split: option.split)

lemma mixed_ephemeral_psk [simp]: "keyed (mixed_ephemeral C True e s)" "usable (mixed_ephemeral C True e s)"
  by (simp_all add: mixed_ephemeral_def Let_def)

lemma after_mix_key_usable [simp]: "usable (after C (mix_key C k s) ct)"
  by (simp add: after_def usable_def cipher_next_def mix_key_def cipher_keyed_def NONCE_RESERVED_def split: prod.split)

lemma sealed_len_keyed: "keyed s \<Longrightarrow> sealed_len s n = n + TAG_BYTES"
  by (auto simp: keyed_def sealed_len_def)

lemma length_ciphertext_keyed:
  "crypto_ok C \<Longrightarrow> keyed s \<Longrightarrow> length m \<le> usize_max \<Longrightarrow> length (ciphertext C s m) = length m + TAG_BYTES"
  by (simp add: length_ciphertext sealed_len_keyed)

section \<open>Each step\<close>

text \<open>Writing at the front and then behind what is there.\<close>

lemma send_ephemeral_rule:
  assumes "length (sk_public key) = KEY_BYTES" and "KEY_BYTES \<le> length dst"
    and "Q KEY_BYTES (mixed_ephemeral C psk (sk_public key) s, splice dst 0 (sk_public key))"
  shows "runs (send_ephemeral C key psk) (s, dst) Q"
  using assms by (simp add: runs_def mixed_ephemeral_def Let_def)

lemma agreed_rule:
  assumes "c_dh C (sk_secret key) theirs = Some shared" and "Q () (mix_key C shared s, dst)"
  shows "runs (agreed C key theirs) (s, dst) Q"
  using assms by (simp add: runs_def agreed_def agree_def mixing_def)

lemma encrypt_front_rule:
  assumes "crypto_ok C" and "usable s" and "keyed s" and "length m + TAG_BYTES \<le> usize_max"
    and "length m + TAG_BYTES \<le> length dst"
    and "Q (length m + TAG_BYTES) (after C s (ciphertext C s m), splice dst 0 (ciphertext C s m))"
  shows "runs (encrypt_and_hash C m) (s, dst) Q"
  using encrypt_rule [OF assms(1,2,4)] assms length_ciphertext_keyed [OF assms(1,3)]
  by (simp add: runs_def sealed_len_keyed)

lemma encrypt_tail_rule:
  assumes "crypto_ok C" and "usable s" and "keyed s" and "length m + TAG_BYTES \<le> usize_max"
    and "length out = at" and "at + (length m + TAG_BYTES) \<le> length dst"
    and "Q (length m + TAG_BYTES) (after C s (ciphertext C s m), splice dst 0 (out @ ciphertext C s m))"
  shows "runs (at_tail at (encrypt_and_hash C m)) (s, splice dst 0 out) Q"
proof -
  have "length (ciphertext C s m) = length m + TAG_BYTES"
    using length_ciphertext_keyed [OF assms(1,3)] assms(4) by simp
  moreover have "drop at (splice dst 0 out) = drop at dst"
    using assms(5,6) by (simp add: splice_def)
  moreover have "take at (splice dst 0 out) = out"
    using assms(5) by (simp add: splice_def)
  ultimately show ?thesis
    using encrypt_rule [OF assms(1,2,4), of "drop at dst"] assms(3,5-7)
    by (simp add: runs_def sealed_len_keyed) (simp add: splice_def add.commute)
qed

lemma decrypt_step:
  assumes "crypto_ok C" and "usable s" and "length m \<le> usize_max" and "length m \<le> length dst"
    and "Q (length m) (after C s (ciphertext C s m), splice dst 0 m)"
  shows "runs (decrypt_and_hash C (ciphertext C s m)) (s, dst) Q"
  using decrypt_rule [OF assms(1-4)] assms(5) by (simp add: runs_def)

lemma plain_of_rule: "length m \<le> length dst \<Longrightarrow> Q m (s, splice dst 0 m) \<Longrightarrow> runs (plain_of (length m)) (s, splice dst 0 m) Q"
  by (simp add: runs_def plain_of_def slice_def splice_def)

lemma read_ephemeral_rule:
  assumes "length e = KEY_BYTES" and "Q e (mixed_ephemeral C psk e s, dst)"
  shows "runs (read_ephemeral C (e @ rest) psk) (s, dst) Q"
  using assms
  by (cases psk) (simp_all add: runs_def read_ephemeral_def first_key_def slice_def mixing_def mixed_ephemeral_def Let_def)

lemma read_static_rule:
  assumes "crypto_ok C" and "usable s" and "keyed s" and "length k = KEY_BYTES"
    and "Q k (after C s (ciphertext C s k), dst)"
  shows "runs (read_static C (ciphertext C s k @ rest)) (s, dst) Q"
proof -
  have k: "length k \<le> usize_max"
    using assms(4) by (simp add: KEY_BYTES_def usize_max_def)
  then have "length (ciphertext C s k) = SEALED_KEY_BYTES"
    using length_ciphertext_keyed [OF assms(1,3)] assms(4) by (simp add: SEALED_KEY_BYTES_def)
  then show ?thesis
    using decrypt_rule [OF assms(1,2) k, of "replicate KEY_BYTES 0"] assms(4,5)
    by (simp add: runs_def read_static_def slice_def splice_def)
qed

lemma rest_of_rule: "length front = at \<Longrightarrow> Q rest s \<Longrightarrow> runs (rest_of (front @ rest) at) s Q"
  by (simp add: runs_def rest_of_def)

lemma stepping_runs: "runs m (s, dst) (\<lambda>x t. x = v \<and> snd t = out) \<Longrightarrow> stepping m s dst = (Inr v, out)"
  by (auto simp: runs_def stepping_def split: prod.splits)

lemmas writer_rules = runs_andthen send_ephemeral_rule encrypt_tail_rule encrypt_front_rule
lemmas reader_rules = runs_andthen read_ephemeral_rule read_static_rule rest_of_rule decrypt_step plain_of_rule

lemma runs_reads_pair: "Q (f (s, dst)) (s, dst) \<Longrightarrow> runs (reads f) (s, dst) Q"
  by simp

section \<open>Each message\<close>

lemma generate_simps [simp]:
  "sk_secret (generate C x) = x" "sk_public (generate C x) = c_public C x"
  "sk_secret (from_secret C x) = x" "sk_public (from_secret C x) = c_public C x"
  by (simp_all add: generate_def from_secret_def)

lemma length_public: "crypto_ok C \<Longrightarrow> length (c_public C x) = KEY_BYTES"
  by (rule crypto_ok_sizes)

lemma pair_start_eq:
  assumes "crypto_ok C" and "pair_first C (pair_state C prologue psk) (c_public C e) m = (msg, t)"
    and "KEY_BYTES + (length m + TAG_BYTES) \<le> length dst" and "length dst \<le> usize_max"
  shows "pair_start C prologue psk e m dst = (Inr (\<lparr>pi_state = t, pi_ephemeral = generate C e\<rparr>, length msg), splice dst 0 msg)"
proof -
  let ?s = "mixed_ephemeral C True (c_public C e) (pair_state C prologue psk)"
  have m: "length m \<le> usize_max" "length m + TAG_BYTES \<le> usize_max"
    using assms(3,4) by simp_all
  have msg: "msg = c_public C e @ ciphertext C ?s m" "t = after C ?s (ciphertext C ?s m)"
    using assms(2) by (simp_all add: message_defs)
  have "length msg = KEY_BYTES + (length m + TAG_BYTES)"
    using length_ciphertext_keyed [OF assms(1) _ m(1), of ?s] length_public [OF assms(1)] msg by simp
  then show ?thesis
    unfolding pair_start_def Let_def
    using assms m length_public [OF assms(1)]
    by (intro stepping_runs writer_rules) (simp_all add: msg)
qed

lemma pair_read_request_eq:
  assumes "crypto_ok C" and "pair_first C (pair_state C prologue psk) e m = (msg, t)" and "length e = KEY_BYTES"
    and "length m \<le> length dst" and "length dst \<le> usize_max"
  shows "pair_read_request C prologue psk msg dst = (Inr (\<lparr>pq_state = t, pq_their_ephemeral = e\<rparr>, m), splice dst 0 m)"
proof -
  let ?s = "mixed_ephemeral C True e (pair_state C prologue psk)"
  have msg: "msg = e @ ciphertext C ?s m" "t = after C ?s (ciphertext C ?s m)"
    using assms(2) by (simp_all add: message_defs)
  show ?thesis
    unfolding pair_read_request_def msg
    using assms
    by (intro stepping_runs reader_rules) simp_all
qed

lemma pair_reply_eq:
  assumes "crypto_ok C" and "c_dh C x (pq_their_ephemeral q) = Some ee" and "c_dh C r (pq_their_ephemeral q) = Some es"
    and "pair_second C (pq_state q) (c_public C x) ee (c_public C r) es m = (msg, t)"
    and "KEY_BYTES + SEALED_KEY_BYTES + (length m + TAG_BYTES) \<le> length dst" and "length dst \<le> usize_max"
  shows "pair_reply C q (from_secret C r) x m dst =
    (Inr (\<lparr>pa_state = t, pa_ephemeral = generate C x\<rparr>, length msg), splice dst 0 msg)"
proof -
  let ?s = "mix_key C ee (mixed_ephemeral C True (c_public C x) (pq_state q))"
  let ?c = "ciphertext C ?s (c_public C r)"
  let ?u = "mix_key C es (after C ?s ?c)"
  have m: "length m \<le> usize_max" "length m + TAG_BYTES \<le> usize_max"
    using assms(5,6) by simp_all
  note pub = length_public [OF assms(1)]
  have msg: "msg = c_public C x @ ?c @ ciphertext C ?u m" "t = after C ?u (ciphertext C ?u m)"
    using assms(4) by (simp_all add: message_defs)
  have len: "length ?c = KEY_BYTES + TAG_BYTES" "length (ciphertext C ?u m) = length m + TAG_BYTES"
    using length_ciphertext_keyed [OF assms(1)] pub m by (simp_all add: KEY_BYTES_def usize_max_def)
  show ?thesis
    unfolding pair_reply_def Let_def
    using assms m pub len
    by (intro stepping_runs writer_rules agreed_rule [of C "generate C x" _ ee] agreed_rule [of C "from_secret C r" _ es]) (simp_all add: msg SEALED_KEY_BYTES_def KEY_BYTES_def TAG_BYTES_def usize_max_def)
qed

lemma pair_read_reply_eq:
  assumes "crypto_ok C" and "c_dh C (sk_secret (pi_ephemeral i)) e = Some ee" and "c_dh C (sk_secret (pi_ephemeral i)) k = Some es"
    and "pair_second C (pi_state i) e ee k es m = (msg, t)" and "length e = KEY_BYTES" and "length k = KEY_BYTES"
    and "length m \<le> length dst" and "length dst \<le> usize_max"
  shows "pair_read_reply C i msg dst =
    (Inr (\<lparr>pr_state = t, pr_their_ephemeral = e, pr_controller = k\<rparr>, m), splice dst 0 m)"
proof -
  let ?s = "mix_key C ee (mixed_ephemeral C True e (pi_state i))"
  let ?c = "ciphertext C ?s k"
  let ?u = "mix_key C es (after C ?s ?c)"
  have msg: "msg = e @ ?c @ ciphertext C ?u m" "t = after C ?u (ciphertext C ?u m)"
    using assms(4) by (simp_all add: message_defs)
  have len: "length ?c = SEALED_KEY_BYTES"
    using length_ciphertext_keyed [OF assms(1)] assms(6) by (simp add: KEY_BYTES_def usize_max_def SEALED_KEY_BYTES_def)
  show ?thesis
    unfolding pair_read_reply_def msg
    using assms len
    by (intro stepping_runs reader_rules agreed_rule [OF assms(2)] agreed_rule [OF assms(3)]) simp_all
qed

lemma pair_finish_eq:
  assumes "crypto_ok C" and "c_dh C c (pr_their_ephemeral r) = Some se" and "usable (pr_state r)" and "keyed (pr_state r)"
    and "pair_third C (pr_state r) (c_public C c) se m = (msg, t)"
    and "SEALED_KEY_BYTES + (length m + TAG_BYTES) \<le> length dst" and "length dst \<le> usize_max"
  shows "pair_finish C r (from_secret C c) m dst = (Inr (split_keys C t, length msg), splice dst 0 msg)"
proof -
  let ?c = "ciphertext C (pr_state r) (c_public C c)"
  let ?u = "mix_key C se (after C (pr_state r) ?c)"
  have m: "length m \<le> usize_max" "length m + TAG_BYTES \<le> usize_max"
    using assms(6,7) by simp_all
  note pub = length_public [OF assms(1)]
  have msg: "msg = ?c @ ciphertext C ?u m" "t = after C ?u (ciphertext C ?u m)"
    using assms(5) by (simp_all add: message_defs)
  have len: "length ?c = KEY_BYTES + TAG_BYTES" "length (ciphertext C ?u m) = length m + TAG_BYTES"
    using length_ciphertext_keyed [OF assms(1)] assms(4) pub m by (simp_all add: KEY_BYTES_def usize_max_def)
  show ?thesis
    unfolding pair_finish_def
    using assms m pub len
    by (intro stepping_runs writer_rules agreed_rule [of C "from_secret C c" _ se])
      (simp_all add: msg SEALED_KEY_BYTES_def KEY_BYTES_def TAG_BYTES_def usize_max_def)
qed

lemma pair_read_finish_eq:
  assumes "crypto_ok C" and "c_dh C (sk_secret (pa_ephemeral w)) k = Some se" and "usable (pa_state w)" and "keyed (pa_state w)"
    and "pair_third C (pa_state w) k se m = (msg, t)" and "length k = KEY_BYTES"
    and "length m \<le> length dst" and "length dst \<le> usize_max"
  shows "pair_read_finish C w msg dst = (Inr (\<lparr>pf_client = k, pf_keys = split_keys C t\<rparr>, m), splice dst 0 m)"
proof -
  let ?c = "ciphertext C (pa_state w) k"
  let ?u = "mix_key C se (after C (pa_state w) ?c)"
  have msg: "msg = ?c @ ciphertext C ?u m" "t = after C ?u (ciphertext C ?u m)"
    using assms(5) by (simp_all add: message_defs)
  have len: "length ?c = SEALED_KEY_BYTES"
    using length_ciphertext_keyed [OF assms(1)] assms(4,6) by (simp add: KEY_BYTES_def usize_max_def SEALED_KEY_BYTES_def)
  show ?thesis
    unfolding pair_read_finish_def msg
    using assms len
    by (intro stepping_runs reader_rules agreed_rule [OF assms(2)]) simp_all
qed

lemma hello_start_eq:
  assumes "crypto_ok C" and "c_dh C x k = Some es" and "c_dh C c k = Some ss"
    and "hello_first C (hello_state C prologue k) (c_public C x) es (c_public C c) ss m = (msg, t)"
    and "KEY_BYTES + SEALED_KEY_BYTES + (length m + TAG_BYTES) \<le> length dst" and "length dst \<le> usize_max"
  shows "hello_start C prologue k (from_secret C c) x m dst =
    (Inr (\<lparr>hi_state = t, hi_ephemeral = generate C x\<rparr>, length msg), splice dst 0 msg)"
proof -
  let ?s = "mix_key C es (mixed_ephemeral C False (c_public C x) (hello_state C prologue k))"
  let ?c = "ciphertext C ?s (c_public C c)"
  let ?u = "mix_key C ss (after C ?s ?c)"
  have m: "length m \<le> usize_max" "length m + TAG_BYTES \<le> usize_max"
    using assms(5,6) by simp_all
  note pub = length_public [OF assms(1)]
  have msg: "msg = c_public C x @ ?c @ ciphertext C ?u m" "t = after C ?u (ciphertext C ?u m)"
    using assms(4) by (simp_all add: message_defs)
  have len: "length ?c = KEY_BYTES + TAG_BYTES" "length (ciphertext C ?u m) = length m + TAG_BYTES"
    using length_ciphertext_keyed [OF assms(1)] pub m by (simp_all add: KEY_BYTES_def usize_max_def)
  show ?thesis
    unfolding hello_start_def Let_def
    using assms m pub len
    by (intro stepping_runs writer_rules agreed_rule [of C "generate C x" _ es] agreed_rule [of C "from_secret C c" _ ss])
      (simp_all add: msg SEALED_KEY_BYTES_def KEY_BYTES_def TAG_BYTES_def usize_max_def)
qed

lemma hello_read_claim_eq:
  assumes "crypto_ok C" and "c_dh C (sk_secret k) e = Some es"
    and "hello_first C (hello_state C prologue (sk_public k)) e es c ss m = (msg, t)" and "length e = KEY_BYTES" and "length c = KEY_BYTES"
  shows "hello_read_claim C prologue k msg =
    Inr \<lparr>hc_state = (let s = mix_key C es (mixed_ephemeral C False e (hello_state C prologue (sk_public k))) in after C s (ciphertext C s c)),
      hc_their_ephemeral = e, hc_client = c\<rparr>"
proof -
  let ?s = "mix_key C es (mixed_ephemeral C False e (hello_state C prologue (sk_public k)))"
  let ?c = "ciphertext C ?s c"
  let ?u = "mix_key C ss (after C ?s ?c)"
  let ?v = "\<lparr>hc_state = after C ?s ?c, hc_their_ephemeral = e, hc_client = c\<rparr>"
  have msg: "msg = e @ ?c @ ciphertext C ?u m"
    using assms(3) by (simp_all add: message_defs)
  have "stepping (
       andthen (read_ephemeral C msg False) (\<lambda>theirs.
       andthen (agreed C k theirs) (\<lambda>_.
       andthen (rest_of msg KEY_BYTES) (\<lambda>rest.
       andthen (read_static C rest) (\<lambda>client.
       reads (\<lambda>(s, _). \<lparr>hc_state = s, hc_their_ephemeral = theirs, hc_client = client\<rparr>))))))
       (hello_state C prologue (sk_public k)) [] = (Inr ?v, [])"
    unfolding msg
    using assms by (intro stepping_runs reader_rules agreed_rule [OF assms(2)]) simp_all
  then show ?thesis
    unfolding hello_read_claim_def by (simp add: Let_def)
qed

lemma hello_prove_eq:
  assumes "crypto_ok C" and "c_dh C (sk_secret k) (hc_client c) = Some ss" and "length front = KEY_BYTES + SEALED_KEY_BYTES"
    and "carried C (mix_key C ss (hc_state c)) m = (ct, t)"
    and "length m \<le> length dst" and "length dst \<le> usize_max"
  shows "hello_prove C c k (front @ ct) dst =
    (Inr (\<lparr>hp_state = t, hp_their_ephemeral = hc_their_ephemeral c, hp_client = hc_client c\<rparr>, m), splice dst 0 m)"
proof -
  have at: "saturating_add KEY_BYTES SEALED_KEY_BYTES = KEY_BYTES + SEALED_KEY_BYTES"
    by (simp add: crypto_sizes usize_max_def)
  have ct: "ct = ciphertext C (mix_key C ss (hc_state c)) m" "t = after C (mix_key C ss (hc_state c)) ct"
    using assms(4) by (auto simp: message_defs)
  show ?thesis
    unfolding hello_prove_def at ct
    using assms by (intro stepping_runs reader_rules agreed_rule [OF assms(2)]) simp_all
qed

lemma hello_reply_eq:
  assumes "crypto_ok C" and "c_dh C x (hp_their_ephemeral p) = Some ee" and "c_dh C x (hp_client p) = Some se"
    and "hello_second C (hp_state p) (c_public C x) ee se m = (msg, t)"
    and "KEY_BYTES + (length m + TAG_BYTES) \<le> length dst" and "length dst \<le> usize_max"
  shows "hello_reply C p x m dst = (Inr (split_keys C t, length msg), splice dst 0 msg)"
proof -
  let ?s = "mix_key C se (mix_key C ee (mixed_ephemeral C False (c_public C x) (hp_state p)))"
  have m: "length m \<le> usize_max" "length m + TAG_BYTES \<le> usize_max"
    using assms(5,6) by simp_all
  note pub = length_public [OF assms(1)]
  have msg: "msg = c_public C x @ ciphertext C ?s m" "t = after C ?s (ciphertext C ?s m)"
    using assms(4) by (simp_all add: message_defs)
  have len: "length (ciphertext C ?s m) = length m + TAG_BYTES"
    using length_ciphertext_keyed [OF assms(1)] m by simp
  show ?thesis
    unfolding hello_reply_def Let_def
    using assms m pub len
    by (intro stepping_runs runs_andthen send_ephemeral_rule encrypt_tail_rule
        agreed_rule [of C "generate C x" "hp_their_ephemeral p" ee] agreed_rule [of C "generate C x" "hp_client p" se])
      (simp_all add: msg)
qed

lemma hello_read_reply_eq:
  assumes "crypto_ok C" and "c_dh C (sk_secret (hi_ephemeral i)) e = Some ee" and "c_dh C (sk_secret k) e = Some se"
    and "hello_second C (hi_state i) e ee se m = (msg, t)" and "length e = KEY_BYTES"
    and "length m \<le> length dst" and "length dst \<le> usize_max"
  shows "hello_read_reply C i k msg dst = (Inr (split_keys C t, m), splice dst 0 m)"
proof -
  let ?s = "mix_key C se (mix_key C ee (mixed_ephemeral C False e (hi_state i)))"
  have msg: "msg = e @ ciphertext C ?s m" "t = after C ?s (ciphertext C ?s m)"
    using assms(4) by (simp_all add: message_defs)
  show ?thesis
    unfolding hello_read_reply_def msg
    using assms by (intro stepping_runs reader_rules agreed_rule [OF assms(2)] agreed_rule [OF assms(3)]) simp_all
qed

section \<open>What comes back is what was sent\<close>

lemma take_message: "take (length msg) (splice dst 0 msg) = msg"
  by (simp add: splice_def)

lemma pair_second_state: "pair_second C s e ee k es m = (msg, t) \<Longrightarrow> keyed t \<and> usable t"
  by (auto simp: message_defs)

lemma hello_first_split:
  assumes "crypto_ok C" and "hello_first C s e es c ss m = (msg, t)" and "length e = KEY_BYTES" and "length c = KEY_BYTES"
  obtains front ct where "msg = front @ ct" and "length front = KEY_BYTES + SEALED_KEY_BYTES"
    and "carried C (mix_key C ss (let u = mix_key C es (mixed_ephemeral C False e s) in after C u (ciphertext C u c))) m = (ct, t)"
proof -
  let ?u = "mix_key C es (mixed_ephemeral C False e s)"
  have "length (ciphertext C ?u c) = SEALED_KEY_BYTES"
    using length_ciphertext_keyed [OF assms(1)] assms(4) by (simp add: crypto_sizes usize_max_def)
  then show ?thesis
    using assms(2,3) by (intro that [of "e @ ciphertext C ?u c"]) (auto simp: message_defs Let_def)
qed

lemma hello_lengths:
  assumes "crypto_ok C" and "length e = KEY_BYTES" and "length c = KEY_BYTES" and "length m \<le> usize_max"
  shows "length (fst (hello_first C s e es c ss m)) = length m + 96" and "length (fst (hello_second C s e ee se m)) = length m + 48"
  using assms length_ciphertext_keyed [OF assms(1)]
  by (simp_all add: message_defs crypto_sizes usize_max_def)

lemma hello_runs_over:
  assumes "crypto_ok C"
    and "c_dh C x (c_public C r) = Some es" and "c_dh C c (c_public C r) = Some ss"
    and "c_dh C x (c_public C y) = Some ee" and "c_dh C c (c_public C y) = Some se"
    and "length p + 96 \<le> length dst" and "length dst \<le> usize_max" and "length q + 48 \<le> length dst'" and "length dst' \<le> usize_max"
    and "length p \<le> length buf" and "length buf \<le> usize_max" and "length q \<le> length buf'" and "length buf' \<le> usize_max"
  obtains i n out claim proof' k n' out' where
    "hello_start C prologue (c_public C r) (from_secret C c) x p dst = (Inr (i, n), out)"
    and "hello_read_claim C prologue (from_secret C r) (take n out) = Inr claim" and "hc_client claim = c_public C c"
    and "hello_prove C claim (from_secret C r) (take n out) buf = (Inr (proof', p), splice buf 0 p)"
    and "hp_client proof' = c_public C c"
    and "hello_reply C proof' y q dst' = (Inr (k, n'), out')"
    and "hello_read_reply C i (from_secret C c) (take n' out') buf' = (Inr (k, q), splice buf' 0 q)"
    and "n = length p + 96" and "n' = length q + 48" and "hi_ephemeral i = generate C x"
    and "length out = length dst" and "length out' = length dst'"
proof -
  let ?s = "hello_state C prologue (c_public C r)"
  note pub = length_public [OF assms(1)]
  note swap = crypto_ok_dh [OF assms(1)]
  obtain m1 t1 where m1: "hello_first C ?s (c_public C x) es (c_public C c) ss p = (m1, t1)"
    by fastforce
  let ?i = "\<lparr>hi_state = t1, hi_ephemeral = generate C x\<rparr>"
  let ?out = "splice dst 0 m1"
  have start: "hello_start C prologue (c_public C r) (from_secret C c) x p dst = (Inr (?i, length m1), ?out)"
    by (rule hello_start_eq [OF assms(1-3) m1]) (use assms(6,7) in \<open>simp_all add: crypto_sizes\<close>)
  define claim where "claim = \<lparr>hc_state = (let s = mix_key C es (mixed_ephemeral C False (c_public C x) ?s) in
      after C s (ciphertext C s (c_public C c))), hc_their_ephemeral = c_public C x, hc_client = c_public C c\<rparr>"
  have "c_dh C (sk_secret (from_secret C r)) (c_public C x) = Some es"
    using assms(2) swap [of r x] by simp
  then have claimed: "hello_read_claim C prologue (from_secret C r) (take (length m1) ?out) = Inr claim"
    unfolding claim_def take_message using hello_read_claim_eq [OF assms(1), of "from_secret C r" "c_public C x" es prologue]
      m1 pub by simp
  obtain front ct where ct: "m1 = front @ ct" "length front = KEY_BYTES + SEALED_KEY_BYTES"
    "carried C (mix_key C ss (hc_state claim)) p = (ct, t1)"
    by (rule hello_first_split [OF assms(1) m1 pub pub]) (rule that; simp add: claim_def)
  let ?proof = "\<lparr>hp_state = t1, hp_their_ephemeral = c_public C x, hp_client = c_public C c\<rparr>"
  have "c_dh C (sk_secret (from_secret C r)) (hc_client claim) = Some ss"
    using assms(3) swap [of r c] by (simp add: claim_def)
  then have proved: "hello_prove C claim (from_secret C r) (take (length m1) ?out) buf = (Inr (?proof, p), splice buf 0 p)"
    unfolding take_message ct(1)
    using hello_prove_eq [OF assms(1) _ ct(2,3) assms(10,11)] by (simp add: claim_def)
  obtain m2 t2 where m2: "hello_second C t1 (c_public C y) ee se q = (m2, t2)"
    by fastforce
  have reply: "hello_reply C ?proof y q dst' = (Inr (split_keys C t2, length m2), splice dst' 0 m2)"
    by (rule hello_reply_eq [OF assms(1), where ee = ee and se = se])
      (use assms(4,5,8,9) m2 swap [of y x] swap [of y c] in \<open>simp_all add: crypto_sizes\<close>)
  have read: "hello_read_reply C ?i (from_secret C c) (take (length m2) (splice dst' 0 m2)) buf' = (Inr (split_keys C t2, q), splice buf' 0 q)"
    unfolding take_message
    by (rule hello_read_reply_eq [OF assms(1), where ee = ee and se = se]) (use assms m2 pub in simp_all)
  have "length m1 = length p + 96" "length m2 = length q + 48"
    using hello_lengths [OF assms(1) pub pub] assms(6-9) m1 m2 by (metis fst_conv le_trans le_add1)+
  moreover have "length ?out = length dst" "length (splice dst' 0 m2) = length dst'"
    using calculation assms(6,8) by simp_all
  ultimately show ?thesis
    by (intro that [OF start claimed _ proved _ reply read]) (simp_all add: claim_def)
qed

lemma hello_runs:
  assumes "crypto_ok C"
    and "c_dh C x (c_public C r) = Some es" and "c_dh C c (c_public C r) = Some ss"
    and "c_dh C x (c_public C y) = Some ee" and "c_dh C c (c_public C y) = Some se"
    and "length p + 96 \<le> length dst" and "length q + 96 \<le> length dst" and "length dst \<le> usize_max"
    and "length p \<le> length buf" and "length q \<le> length buf" and "length buf \<le> usize_max"
  obtains i n out claim proof' k n' out' where
    "hello_start C prologue (c_public C r) (from_secret C c) x p dst = (Inr (i, n), out)"
    and "hello_read_claim C prologue (from_secret C r) (take n out) = Inr claim" and "hc_client claim = c_public C c"
    and "hello_prove C claim (from_secret C r) (take n out) buf = (Inr (proof', p), splice buf 0 p)"
    and "hp_client proof' = c_public C c"
    and "hello_reply C proof' y q dst = (Inr (k, n'), out')"
    and "hello_read_reply C i (from_secret C c) (take n' out') buf = (Inr (k, q), splice buf 0 q)"
    and "n = length p + 96" and "n' = length q + 48" and "hi_ephemeral i = generate C x"
proof -
  have q: "length q + 48 \<le> length dst"
    using assms(7) by simp
  show ?thesis
    by (rule hello_runs_over [OF assms(1-6,8) q assms(8,9,11,10,11), of prologue]) (rule that)
qed

lemma pair_runs_over:
  assumes "crypto_ok C"
    and "c_dh C x (c_public C y) = Some ee" and "c_dh C x (c_public C r) = Some es" and "c_dh C c (c_public C y) = Some se"
    and "length p + 48 \<le> length d1" and "length d1 \<le> usize_max" and "length q + 96 \<le> length d2" and "length d2 \<le> usize_max"
    and "length z + 64 \<le> length d3" and "length d3 \<le> usize_max"
    and "length p \<le> length b1" and "length b1 \<le> usize_max" and "length q \<le> length b2" and "length b2 \<le> usize_max"
    and "length z \<le> length b3" and "length b3 \<le> usize_max"
  obtains i n1 o1 a w n2 o2 g k n3 o3 f where
    "pair_start C prologue psk x p d1 = (Inr (i, n1), o1)"
    and "pair_read_request C prologue psk (take n1 o1) b1 = (Inr (a, p), splice b1 0 p)"
    and "pair_reply C a (from_secret C r) y q d2 = (Inr (w, n2), o2)"
    and "pair_read_reply C i (take n2 o2) b2 = (Inr (g, q), splice b2 0 q)" and "pr_controller g = c_public C r"
    and "pair_finish C g (from_secret C c) z d3 = (Inr (k, n3), o3)"
    and "pair_read_finish C w (take n3 o3) b3 = (Inr (f, z), splice b3 0 z)" and "pf_client f = c_public C c" and "pf_keys f = k"
    and "pq_state a = pi_state i" and "n1 = length p + 48" and "n2 = length q + 96" and "n3 = length z + 64"
    and "length o1 = length d1" and "length o2 = length d2" and "length o3 = length d3"
proof -
  note pub = length_public [OF assms(1)]
  note swap = crypto_ok_dh [OF assms(1)]
  obtain m1 t1 where m1: "pair_first C (pair_state C prologue psk) (c_public C x) p = (m1, t1)"
    by fastforce
  obtain m2 t2 where m2: "pair_second C t1 (c_public C y) ee (c_public C r) es q = (m2, t2)"
    by fastforce
  obtain m3 t3 where m3: "pair_third C t2 (c_public C c) se z = (m3, t3)"
    by fastforce
  have t2: "keyed t2" "usable t2"
    using pair_second_state [OF m2] by simp_all
  have "length m1 = length p + 48" "length m2 = length q + 96" "length m3 = length z + 64"
    using m1 m2 m3 t2 pub length_ciphertext_keyed [OF assms(1)] assms(11-16)
    by (auto simp: message_defs crypto_sizes usize_max_def)
  moreover have "pair_start C prologue psk x p d1 = (Inr (\<lparr>pi_state = t1, pi_ephemeral = generate C x\<rparr>, length m1), splice d1 0 m1)"
    by (rule pair_start_eq [OF assms(1) m1]) (use assms(5,6) in \<open>simp_all add: crypto_sizes\<close>)
  moreover have "pair_read_request C prologue psk (take (length m1) (splice d1 0 m1)) b1 =
      (Inr (\<lparr>pq_state = t1, pq_their_ephemeral = c_public C x\<rparr>, p), splice b1 0 p)"
    unfolding take_message by (rule pair_read_request_eq [OF assms(1) m1 pub assms(11,12)])
  moreover have "pair_reply C \<lparr>pq_state = t1, pq_their_ephemeral = c_public C x\<rparr> (from_secret C r) y q d2 =
      (Inr (\<lparr>pa_state = t2, pa_ephemeral = generate C y\<rparr>, length m2), splice d2 0 m2)"
    by (rule pair_reply_eq [OF assms(1), where ee = ee and es = es])
      (use assms(2,3,7,8) m2 swap [of y x] swap [of r x] in \<open>simp_all add: crypto_sizes\<close>)
  moreover have "pair_read_reply C \<lparr>pi_state = t1, pi_ephemeral = generate C x\<rparr> (take (length m2) (splice d2 0 m2)) b2 =
      (Inr (\<lparr>pr_state = t2, pr_their_ephemeral = c_public C y, pr_controller = c_public C r\<rparr>, q), splice b2 0 q)"
    unfolding take_message
    by (rule pair_read_reply_eq [OF assms(1), where ee = ee and es = es]) (use assms(2,3,13,14) m2 pub in simp_all)
  moreover have "pair_finish C \<lparr>pr_state = t2, pr_their_ephemeral = c_public C y, pr_controller = c_public C r\<rparr> (from_secret C c) z d3 =
      (Inr (split_keys C t3, length m3), splice d3 0 m3)"
    by (rule pair_finish_eq [OF assms(1), where se = se]) (use assms(4,9,10) m3 t2 in \<open>simp_all add: crypto_sizes\<close>)
  moreover have "pair_read_finish C \<lparr>pa_state = t2, pa_ephemeral = generate C y\<rparr> (take (length m3) (splice d3 0 m3)) b3 =
      (Inr (\<lparr>pf_client = c_public C c, pf_keys = split_keys C t3\<rparr>, z), splice b3 0 z)"
    unfolding take_message
    by (rule pair_read_finish_eq [OF assms(1), where se = se])
      (use assms(4,15,16) m3 t2 pub swap [of y c] in simp_all)
  moreover have "length (splice d1 0 m1) = length d1" "length (splice d2 0 m2) = length d2" "length (splice d3 0 m3) = length d3"
    using calculation(1-3) assms(5,7,9) by simp_all
  ultimately show ?thesis
    by (intro that) (assumption | (simp; fail))+
qed

section \<open>A side accepts only what its peer writes\<close>

lemma read_ephemeral_InrE:
  assumes "read_ephemeral C msg psk (s, dst) = (Inr k, u)"
  obtains "take KEY_BYTES msg = k" and "length k = KEY_BYTES" and "u = (mixed_ephemeral C psk k s, dst)"
  using assms
  by (cases psk)
    (auto simp: read_ephemeral_def first_key_def slice_def mixing_def mixed_ephemeral_def Let_def
      elim!: andthen_InrE split: if_splits)

lemma agreed_InrE:
  assumes "agreed C key theirs (s, dst) = (Inr y, u)"
  obtains shared where "c_dh C (sk_secret key) theirs = Some shared" and "u = (mix_key C shared s, dst)"
  using assms by (auto simp: agreed_def agree_def mixing_def elim!: andthen_InrE split: option.splits)

lemma rest_of_InrE:
  assumes "rest_of msg at s = (Inr rest, u)"
  obtains "rest = drop at msg" and "at \<le> length msg" and "u = s"
  using assms by (auto simp: rest_of_def elim!: ok_or_InrE split: if_splits)

lemma read_static_InrE:
  assumes "crypto_ok C" and "read_static C msg (s, dst) = (Inr k, u)" and "length msg \<le> usize_max"
  obtains rest where "msg = ciphertext C s k @ rest" and "length (ciphertext C s k) = SEALED_KEY_BYTES"
    and "length k = KEY_BYTES" and "u = (after C s (ciphertext C s k), dst)"
proof -
  obtain n s' out where d: "decrypt_and_hash C (take SEALED_KEY_BYTES msg) (s, replicate KEY_BYTES 0) = (Inr n, s', out)"
    and n: "n = KEY_BYTES" "k = out" "u = (s', dst)" "SEALED_KEY_BYTES \<le> length msg"
    using assms(2)
    by (auto simp: read_static_def slice_def simp del: decrypt_and_hash.simps elim!: andthen_InrE ok_or_InrE
        split: prod.splits sum.splits if_splits)
  have "length (take SEALED_KEY_BYTES msg) \<le> usize_max"
    using assms(3) by simp
  then obtain m where m: "take SEALED_KEY_BYTES msg = ciphertext C s m" "n = length m" "s' = after C s (take SEALED_KEY_BYTES msg)"
    "out = splice (replicate KEY_BYTES 0) 0 m"
    by (rule decrypt_exact [OF assms(1) d])
  then have "out = m"
    using n(1) by (simp add: splice_def)
  then show ?thesis
    using that [of "drop SEALED_KEY_BYTES msg"] m n by (metis append_take_drop_id length_take min.absorb2)
qed

lemma payload_InrE:
  assumes "crypto_ok C" and "andthen (decrypt_and_hash C ct) (\<lambda>len. andthen (plain_of len) f) (s, dst) = (Inr y, u)"
    and "length ct \<le> usize_max"
  obtains m where "ct = ciphertext C s m" and "length m \<le> usize_max" and "f m (after C s ct, splice dst 0 m) = (Inr y, u)"
proof -
  obtain n v where d: "decrypt_and_hash C ct (s, dst) = (Inr n, v)" and p: "andthen (plain_of n) f v = (Inr y, u)"
    using assms(2) by (rule andthen_InrE)
  obtain s' dst' where v: "v = (s', dst')"
    by fastforce
  obtain m where "ct = ciphertext C s m" "n = length m" "s' = after C s ct" "dst' = splice dst 0 m" "n \<le> length dst" "n \<le> usize_max"
    by (rule decrypt_exact [OF assms(1) d [unfolded v] assms(3)])
  then show ?thesis
    using p v by (intro that [of m]) (auto simp: plain_of_def slice_def splice_def elim!: andthen_InrE ok_or_InrE split: if_splits)
qed

lemma stepping_InrE:
  assumes "stepping m s dst = (Inr y, out)"
  obtains u where "m (s, dst) = (Inr y, u, out)"
  using assms by (auto simp: stepping_def split: prod.splits)

lemma hello_read_claim_exact:
  assumes "crypto_ok C" and "hello_read_claim C prologue k msg = Inr claim" and "length msg \<le> usize_max"
  obtains es rest where "c_dh C (sk_secret k) (hc_their_ephemeral claim) = Some es" and "length (hc_their_ephemeral claim) = KEY_BYTES"
    and "let s = mix_key C es (mixed_ephemeral C False (hc_their_ephemeral claim) (hello_state C prologue (sk_public k)));
           ct = ciphertext C s (hc_client claim)
         in msg = hc_their_ephemeral claim @ ct @ rest \<and> length ct = SEALED_KEY_BYTES \<and> hc_state claim = after C s ct"
proof -
  let ?s = "hello_state C prologue (sk_public k)"
  obtain u where u: "andthen (read_ephemeral C msg False) (\<lambda>theirs. andthen (agreed C k theirs) (\<lambda>_.
      andthen (rest_of msg KEY_BYTES) (\<lambda>rest. andthen (read_static C rest) (\<lambda>client.
      reads (\<lambda>(s, _). \<lparr>hc_state = s, hc_their_ephemeral = theirs, hc_client = client\<rparr>))))) (?s, []) = (Inr claim, u)"
    using assms(2) unfolding hello_read_claim_def by (auto elim!: fst_InrE stepping_InrE)
  obtain e v where e: "read_ephemeral C msg False (?s, []) = (Inr e, v)"
    and v: "andthen (agreed C k e) (\<lambda>_. andthen (rest_of msg KEY_BYTES) (\<lambda>rest. andthen (read_static C rest) (\<lambda>client.
      reads (\<lambda>(s, _). \<lparr>hc_state = s, hc_their_ephemeral = e, hc_client = client\<rparr>)))) v = (Inr claim, u)"
    using u by (rule andthen_InrE)
  have msg: "take KEY_BYTES msg = e" "length e = KEY_BYTES" and v': "v = (mixed_ephemeral C False e ?s, [])"
    using e by (auto elim: read_ephemeral_InrE)
  obtain es rest client w where es: "c_dh C (sk_secret k) e = Some es" and rest: "rest = drop KEY_BYTES msg"
    and client: "read_static C rest (mix_key C es (mixed_ephemeral C False e ?s), []) = (Inr client, w)"
    and claim: "claim = \<lparr>hc_state = fst w, hc_their_ephemeral = e, hc_client = client\<rparr>"
    using v unfolding v' by (auto elim!: andthen_InrE agreed_InrE rest_of_InrE split: prod.splits)
  have "length rest \<le> usize_max"
    using assms(3) rest by simp
  from read_static_InrE [OF assms(1) client this]
  obtain more_rest where "rest = ciphertext C (mix_key C es (mixed_ephemeral C False e ?s)) client @ more_rest"
    "length (ciphertext C (mix_key C es (mixed_ephemeral C False e ?s)) client) = SEALED_KEY_BYTES"
    "w = (after C (mix_key C es (mixed_ephemeral C False e ?s)) (ciphertext C (mix_key C es (mixed_ephemeral C False e ?s)) client), [])"
    by blast
  moreover have "msg = e @ rest"
    using rest msg(1) append_take_drop_id by metis
  ultimately show ?thesis
    using that [of es more_rest] es claim msg(2) by (simp add: Let_def)
qed

lemma hello_prove_exact:
  assumes "crypto_ok C" and "hello_prove C claim k msg dst = (Inr (p, m), out)" and "length msg \<le> usize_max"
  obtains ss ct where "c_dh C (sk_secret k) (hc_client claim) = Some ss"
    and "ct = drop (KEY_BYTES + SEALED_KEY_BYTES) msg"
    and "carried C (mix_key C ss (hc_state claim)) m = (ct, hp_state p)" and "hp_client p = hc_client claim"
    and "hp_their_ephemeral p = hc_their_ephemeral claim"
proof -
  have at: "saturating_add KEY_BYTES SEALED_KEY_BYTES = KEY_BYTES + SEALED_KEY_BYTES"
    by (simp add: crypto_sizes usize_max_def)
  let ?f = "\<lambda>plain. reads (\<lambda>(s, _ :: bytes).
      (\<lparr>hp_state = s, hp_their_ephemeral = hc_their_ephemeral claim, hp_client = hc_client claim\<rparr>, plain))"
  obtain ss ct u where ss: "c_dh C (sk_secret k) (hc_client claim) = Some ss"
    and ct: "ct = drop (KEY_BYTES + SEALED_KEY_BYTES) msg"
    and p: "andthen (decrypt_and_hash C ct) (\<lambda>len. andthen (plain_of len) ?f) (mix_key C ss (hc_state claim), dst) = (Inr (p, m), u)"
    using assms(2) unfolding hello_prove_def at
    by (auto elim!: stepping_InrE andthen_InrE [of "agreed _ _ _"] andthen_InrE [of "rest_of _ _"] agreed_InrE rest_of_InrE)
  have n: "length ct \<le> usize_max"
    using assms(3) ct by simp
  have "ct = ciphertext C (mix_key C ss (hc_state claim)) m"
    and "p = \<lparr>hp_state = after C (mix_key C ss (hc_state claim)) ct, hp_their_ephemeral = hc_their_ephemeral claim,
      hp_client = hc_client claim\<rparr>"
    by (rule payload_InrE [OF assms(1) p n]; simp)+
  then show ?thesis
    using that [OF ss ct] by (auto simp: carried_def)
qed

lemma hello_read_reply_exact:
  assumes "crypto_ok C" and "hello_read_reply C i k msg dst = (Inr (keys, m), out)" and "length msg \<le> usize_max"
  obtains e ee se t where "take KEY_BYTES msg = e" and "length e = KEY_BYTES"
    and "c_dh C (sk_secret (hi_ephemeral i)) e = Some ee" and "c_dh C (sk_secret k) e = Some se"
    and "hello_second C (hi_state i) e ee se m = (msg, t)" and "keys = split_keys C t"
proof -
  let ?f = "\<lambda>plain. reads (\<lambda>(s, _ :: bytes). (split_keys C s, plain))"
  obtain e ee se ct u where e: "take KEY_BYTES msg = e" "length e = KEY_BYTES" "c_dh C (sk_secret (hi_ephemeral i)) e = Some ee"
      "c_dh C (sk_secret k) e = Some se" and ct: "ct = drop KEY_BYTES msg"
    and p: "andthen (decrypt_and_hash C ct) (\<lambda>len. andthen (plain_of len) ?f)
      (mix_key C se (mix_key C ee (mixed_ephemeral C False e (hi_state i))), dst) = (Inr (keys, m), u)"
    using assms(2) unfolding hello_read_reply_def
    by (auto elim!: stepping_InrE andthen_InrE [of "read_ephemeral _ _ _"] andthen_InrE [of "agreed _ _ _"]
        andthen_InrE [of "rest_of _ _"] read_ephemeral_InrE agreed_InrE rest_of_InrE)
  have n: "length ct \<le> usize_max"
    using assms(3) ct by simp
  have "ct = ciphertext C (mix_key C se (mix_key C ee (mixed_ephemeral C False e (hi_state i)))) m"
    and "keys = split_keys C (after C (mix_key C se (mix_key C ee (mixed_ephemeral C False e (hi_state i)))) ct)"
    by (rule payload_InrE [OF assms(1) p n]; simp)+
  moreover have "msg = e @ ct"
    using e(1) ct append_take_drop_id by metis
  ultimately show ?thesis
    using that [OF e] by (auto simp: message_defs)
qed

section \<open>Properties\<close>

text \<open>Pairing completes and both ends agree: run message by message over any buffers with room,
  every payload arrives as it was sent, the client pins the controller's key, the controller
  stores the client's, and both hold the same two session keys and the same transcript hash.\<close>

theorem pairing_agrees:
  assumes "crypto_ok C"
    and "c_dh C x (c_public C y) = Some ee" and "c_dh C x (c_public C r) = Some es" and "c_dh C c (c_public C y) = Some se"
    and "length p + 96 \<le> length dst" and "length q + 96 \<le> length dst" and "length z + 96 \<le> length dst"
    and "length dst \<le> usize_max"
    and "length p \<le> length buf" and "length q \<le> length buf" and "length z \<le> length buf" and "length buf \<le> usize_max"
  shows "\<exists>i n1 d1 a b1 w n2 d2 g b2 k n3 d3 f b3.
    pair_start C prologue psk x p dst = (Inr (i, n1), d1) \<and>
    pair_read_request C prologue psk (take n1 d1) buf = (Inr (a, p), b1) \<and>
    pair_reply C a (from_secret C r) y q dst = (Inr (w, n2), d2) \<and>
    pair_read_reply C i (take n2 d2) buf = (Inr (g, q), b2) \<and> pr_controller g = c_public C r \<and>
    pair_finish C g (from_secret C c) z dst = (Inr (k, n3), d3) \<and>
    pair_read_finish C w (take n3 d3) buf = (Inr (f, z), b3) \<and> pf_client f = c_public C c \<and> pf_keys f = k"
proof -
  have d: "length p + 48 \<le> length dst" "length z + 64 \<le> length dst"
    using assms(5,7) by simp_all
  obtain i n1 o1 a w n2 o2 g k n3 o3 f where
    "pair_start C prologue psk x p dst = (Inr (i, n1), o1)"
    "pair_read_request C prologue psk (take n1 o1) buf = (Inr (a, p), splice buf 0 p)"
    "pair_reply C a (from_secret C r) y q dst = (Inr (w, n2), o2)"
    "pair_read_reply C i (take n2 o2) buf = (Inr (g, q), splice buf 0 q)" "pr_controller g = c_public C r"
    "pair_finish C g (from_secret C c) z dst = (Inr (k, n3), o3)"
    "pair_read_finish C w (take n3 o3) buf = (Inr (f, z), splice buf 0 z)" "pf_client f = c_public C c" "pf_keys f = k"
    by (rule pair_runs_over [OF assms(1-4) d(1) assms(8,6,8) d(2) assms(8,9,12,10,12,11,12), of prologue psk]) (rule that)
  then show ?thesis
    by (intro exI conjI)
qed

lemma example_dh: "\<exists>s. c_dh example_crypto a (c_public example_crypto b) = Some s"
  by (simp add: example_crypto_def)

lemma pairing_agrees_witness:
  "\<exists>i n1 d1 a b1 w n2 d2 g b2 k n3 d3 f b3.
    pair_start example_crypto [9] [8] [1] [5] (replicate 200 0) = (Inr (i, n1), d1) \<and>
    pair_read_request example_crypto [9] [8] (take n1 d1) (replicate 8 0) = (Inr (a, [5]), b1) \<and>
    pair_reply example_crypto a (from_secret example_crypto [3]) [2] [6] (replicate 200 0) = (Inr (w, n2), d2) \<and>
    pair_read_reply example_crypto i (take n2 d2) (replicate 8 0) = (Inr (g, [6]), b2) \<and>
    pr_controller g = c_public example_crypto [3] \<and>
    pair_finish example_crypto g (from_secret example_crypto [4]) [7] (replicate 200 0) = (Inr (k, n3), d3) \<and>
    pair_read_finish example_crypto w (take n3 d3) (replicate 8 0) = (Inr (f, [7]), b3) \<and>
    pf_client f = c_public example_crypto [4] \<and> pf_keys f = k"
proof -
  obtain ee es se where "c_dh example_crypto [1] (c_public example_crypto [2]) = Some ee"
    "c_dh example_crypto [1] (c_public example_crypto [3]) = Some es" "c_dh example_crypto [4] (c_public example_crypto [2]) = Some se"
    using example_dh [of "[1]" "[2]"] example_dh [of "[1]" "[3]"] example_dh [of "[4]" "[2]"] by blast
  then show ?thesis
    by (rule pairing_agrees [OF example_crypto_ok]) (simp_all add: usize_max_def)
qed

text \<open>Opening a session completes and the session works: the controller learns the client's key
  and then has it proved, both payloads arrive, both ends hold the same keys, and the first
  request the client seals under them opens at the controller as it was sealed.\<close>

theorem hello_opens_a_session:
  assumes "crypto_ok C"
    and "c_dh C x (c_public C r) = Some es" and "c_dh C c (c_public C r) = Some ss"
    and "c_dh C x (c_public C y) = Some ee" and "c_dh C c (c_public C y) = Some se"
    and "length p + 96 \<le> length dst" and "length q + 96 \<le> length dst" and "length dst \<le> usize_max"
    and "length p \<le> length buf" and "length q \<le> length buf" and "length buf \<le> usize_max"
    and "direction_of mt = Some Request" and "session_ok session" and "length inner + REQUEST_FRAMING_BYTES + 1 \<le> MAX_PAYLOAD"
    and "MAX_PAYLOAD \<le> length dst" and "MAX_PAYLOAD \<le> length buf"
  shows "\<exists>i n1 d1 claim proof' k n2 d2 n3 d3 tx rx.
    hello_start C prologue (c_public C r) (from_secret C c) x p dst = (Inr (i, n1), d1) \<and>
    hello_read_claim C prologue (from_secret C r) (take n1 d1) = Inr claim \<and> hc_client claim = c_public C c \<and>
    hello_prove C claim (from_secret C r) (take n1 d1) buf = (Inr (proof', p), splice buf 0 p) \<and> hp_client proof' = c_public C c \<and>
    hello_reply C proof' y q dst = (Inr (k, n2), d2) \<and>
    hello_read_reply C i (from_secret C c) (take n2 d2) buf = (Inr (k, q), splice buf 0 q) \<and>
    seal_request C mt session inner dst (cl_tx (for_initiator k)) = (Inr (1, n3), d3, tx) \<and>
    arrival C (take n3 d3) buf (ct_rx (for_responder k)) =
      (Some \<lparr>o_header = \<lparr>h_kind = mt, h_session = session, h_req_id = 1\<rparr>, o_inner = inner\<rparr>, rx)"
proof -
  obtain i n1 d1 claim proof' k n2 d2 where run:
    "hello_start C prologue (c_public C r) (from_secret C c) x p dst = (Inr (i, n1), d1)"
    "hello_read_claim C prologue (from_secret C r) (take n1 d1) = Inr claim" "hc_client claim = c_public C c"
    "hello_prove C claim (from_secret C r) (take n1 d1) buf = (Inr (proof', p), splice buf 0 p)"
    "hp_client proof' = c_public C c" "hello_reply C proof' y q dst = (Inr (k, n2), d2)"
    "hello_read_reply C i (from_secret C c) (take n2 d2) buf = (Inr (k, q), splice buf 0 q)"
    by (rule hello_runs [OF assms(1-11), of prologue]) (rule that)
  let ?tx = "cl_tx (for_initiator k)" and ?rx = "ct_rx (for_responder k)"
  have ends: "rs_next ?tx = 1" "rs_key ?tx = op_key ?rx" "op_window ?rx = window_new (saturating_add MAX_INFLIGHT 1)"
    by (simp_all add: for_initiator_def for_responder_def client_channel_new_def controller_channel_new_def opener_new_def)
  have "tracks (op_window ?rx) {}"
    using tracks_new [of "saturating_add MAX_INFLIGHT 1"] ends(3) by (simp add: limit_defs usize_max_def)
  then have good: "window_good (op_window ?rx)"
    by (rule window_good_tracks) simp
  have "window_admits (op_window ?rx) (ucast (rs_next ?tx)) = Inr ()"
    by (simp add: ends window_new_def window_admits_def)
  from request_delivered [OF assms(1,12,13) _ ends(2) good this assms(14,15,8,16,11)] ends(1)
  obtain n3 d3 tx rx where "seal_request C mt session inner dst ?tx = (Inr (1, n3), d3, tx)"
    "arrival C (take n3 d3) buf ?rx = (Some \<lparr>o_header = \<lparr>h_kind = mt, h_session = session, h_req_id = 1\<rparr>, o_inner = inner\<rparr>, rx)"
    by auto
  with run show ?thesis
    by (intro exI conjI) assumption+
qed

lemma hello_opens_a_session_witness:
  "\<exists>i n1 d1 claim proof' k n2 d2 n3 d3 tx rx.
    hello_start example_crypto [9] (c_public example_crypto [3]) (from_secret example_crypto [4]) [1] [5] (replicate 1100 0) =
      (Inr (i, n1), d1) \<and>
    hello_read_claim example_crypto [9] (from_secret example_crypto [3]) (take n1 d1) = Inr claim \<and>
    hc_client claim = c_public example_crypto [4] \<and>
    hello_prove example_crypto claim (from_secret example_crypto [3]) (take n1 d1) (replicate 1024 0) =
      (Inr (proof', [5]), splice (replicate 1024 0) 0 [5]) \<and> hp_client proof' = c_public example_crypto [4] \<and>
    hello_reply example_crypto proof' [2] [6] (replicate 1100 0) = (Inr (k, n2), d2) \<and>
    hello_read_reply example_crypto i (from_secret example_crypto [4]) (take n2 d2) (replicate 1024 0) =
      (Inr (k, [6]), splice (replicate 1024 0) 0 [6]) \<and>
    seal_request example_crypto Mt_Time (Assigned 3) [7, 7] (replicate 1100 0) (cl_tx (for_initiator k)) = (Inr (1, n3), d3, tx) \<and>
    arrival example_crypto (take n3 d3) (replicate 1024 0) (ct_rx (for_responder k)) =
      (Some \<lparr>o_header = \<lparr>h_kind = Mt_Time, h_session = Assigned 3, h_req_id = 1\<rparr>, o_inner = [7, 7]\<rparr>, rx)"
proof -
  obtain es ss ee se where "c_dh example_crypto [1] (c_public example_crypto [3]) = Some es"
    "c_dh example_crypto [4] (c_public example_crypto [3]) = Some ss" "c_dh example_crypto [1] (c_public example_crypto [2]) = Some ee"
    "c_dh example_crypto [4] (c_public example_crypto [2]) = Some se"
    using example_dh [of "[1]" "[2]"] example_dh [of "[1]" "[3]"] example_dh [of "[4]" "[2]"] example_dh [of "[4]" "[3]"]
    by blast
  then show ?thesis
    by (rule hello_opens_a_session [OF example_crypto_ok]) (simp_all add: usize_max_def limit_defs)
qed

text \<open>A run to instantiate what follows at.\<close>

lemma example_hello:
  obtains i n1 d1 claim proof' k n2 d2 where
    "hello_read_claim example_crypto [9] (from_secret example_crypto [3]) (take n1 d1) = Inr claim"
    and "hc_client claim = c_public example_crypto [4]"
    and "hello_prove example_crypto claim (from_secret example_crypto [3]) (take n1 d1) (replicate 8 0) =
      (Inr (proof', [5]), splice (replicate 8 0) 0 [5])"
    and "hello_read_reply example_crypto i (from_secret example_crypto [4]) (take n2 d2) (replicate 8 0) =
      (Inr (k, [6]), splice (replicate 8 0) 0 [6])"
    and "n1 = 97" and "n2 = 49" and "hi_ephemeral i = generate example_crypto [1]"
proof -
  obtain es ss ee se where dh: "c_dh example_crypto [1] (c_public example_crypto [3]) = Some es"
    "c_dh example_crypto [4] (c_public example_crypto [3]) = Some ss" "c_dh example_crypto [1] (c_public example_crypto [2]) = Some ee"
    "c_dh example_crypto [4] (c_public example_crypto [2]) = Some se"
    using example_dh [of "[1]" "[2]"] example_dh [of "[1]" "[3]"] example_dh [of "[4]" "[2]"] example_dh [of "[4]" "[3]"]
    by blast
  show ?thesis
    by (rule hello_runs [OF example_crypto_ok dh, where p = "[5]" and q = "[6]" and dst = "replicate 200 0" and buf = "replicate 8 0"
        and prologue = "[9]"]) (use that in \<open>simp_all add: usize_max_def\<close>)
qed

lemma example_public: "length msg = n \<Longrightarrow> KEY_BYTES \<le> n \<Longrightarrow> c_public example_crypto (take KEY_BYTES msg) = take KEY_BYTES msg"
  by (simp add: example_crypto_def pad_to_def)

text \<open>C23. The controller takes a session request only as the message the holder of the claimed key
  writes for this controller and this prologue: when \<open>read_claim\<close> and then \<open>prove\<close> succeed, any
  client whose keys are the claimed static key and the ephemeral of the message writes, for that
  payload, exactly those bytes and is then in the controller's state.\<close>

theorem hello_request_is_the_clients:
  assumes "crypto_ok C" and "length msg \<le> usize_max"
    and "hello_read_claim C prologue (from_secret C r) msg = Inr claim"
    and "hello_prove C claim (from_secret C r) msg buf = (Inr (proof', m), out)"
    and "c_public C x = take KEY_BYTES msg" and "c_public C c = hc_client claim"
    and "length m + 96 \<le> length dst" and "length dst \<le> usize_max"
  shows "hello_start C prologue (c_public C r) (from_secret C c) x m dst =
      (Inr (\<lparr>hi_state = hp_state proof', hi_ephemeral = generate C x\<rparr>, length msg), splice dst 0 msg) \<and>
    hp_client proof' = c_public C c"
proof -
  let ?s = "hello_state C prologue (c_public C r)" and ?e = "take KEY_BYTES msg" and ?k = "hc_client claim"
  note swap = crypto_ok_dh [OF assms(1)]
  obtain es rest where es: "c_dh C r (hc_their_ephemeral claim) = Some es" "length (hc_their_ephemeral claim) = KEY_BYTES"
    and claim: "let s = mix_key C es (mixed_ephemeral C False (hc_their_ephemeral claim) ?s); ct = ciphertext C s ?k
      in msg = hc_their_ephemeral claim @ ct @ rest \<and> length ct = SEALED_KEY_BYTES \<and> hc_state claim = after C s ct"
    by (rule hello_read_claim_exact [OF assms(1,3,2), unfolded generate_simps])
  then have e: "hc_their_ephemeral claim = c_public C x"
    using assms(5) by (simp add: Let_def)
  obtain ss ct where ss: "c_dh C r ?k = Some ss" and ct: "ct = drop (KEY_BYTES + SEALED_KEY_BYTES) msg"
    "carried C (mix_key C ss (hc_state claim)) m = (ct, hp_state proof')" "hp_client proof' = ?k"
    by (rule hello_prove_exact [OF assms(1,4,2), unfolded generate_simps])
  have same: "ct = rest"
    using ct(1) claim es(2) by (simp add: Let_def)
  have "hello_first C ?s (c_public C x) es (c_public C c) ss m = (msg, hp_state proof')"
    using claim ct(2) assms(6) e same by (auto simp: message_defs Let_def)
  moreover have "c_dh C x (c_public C r) = Some es" "c_dh C c (c_public C r) = Some ss"
    using es(1) ss assms(6) e swap [of x r] swap [of c r] by simp_all
  ultimately show ?thesis
    using hello_start_eq [OF assms(1)] assms(6-8) ct(3) by (simp add: crypto_sizes)
qed

lemma hello_request_is_the_clients_witness:
  "\<exists>msg claim proof' out. hello_read_claim example_crypto [9] (from_secret example_crypto [3]) msg = Inr claim \<and>
    hello_prove example_crypto claim (from_secret example_crypto [3]) msg (replicate 8 0) = (Inr (proof', [5]), out) \<and>
    hello_start example_crypto [9] (c_public example_crypto [3]) (from_secret example_crypto [4]) (take 32 msg) [5] (replicate 200 0) =
      (Inr (\<lparr>hi_state = hp_state proof', hi_ephemeral = generate example_crypto (take 32 msg)\<rparr>, length msg),
       splice (replicate 200 0) 0 msg) \<and>
    hp_client proof' = c_public example_crypto [4]"
proof -
  obtain n1 d1 claim proof' where run:
    "hello_read_claim example_crypto [9] (from_secret example_crypto [3]) (take n1 d1) = Inr claim"
    "hc_client claim = c_public example_crypto [4]"
    "hello_prove example_crypto claim (from_secret example_crypto [3]) (take n1 d1) (replicate 8 0) =
      (Inr (proof', [5]), splice (replicate 8 0) 0 [5])" "n1 = 97"
    by (rule example_hello)
  have small: "length (take n1 d1) \<le> usize_max"
    using run(4) by (simp add: usize_max_def)
  obtain es rest where "length (hc_their_ephemeral claim) = KEY_BYTES" and "let s = mix_key example_crypto es (mixed_ephemeral
      example_crypto False (hc_their_ephemeral claim) (hello_state example_crypto [9] (sk_public (from_secret example_crypto [3]))));
      ct = ciphertext example_crypto s (hc_client claim)
    in take n1 d1 = hc_their_ephemeral claim @ ct @ rest \<and> length ct = SEALED_KEY_BYTES \<and> hc_state claim = after example_crypto s ct"
    by (rule hello_read_claim_exact [OF example_crypto_ok run(1) small]) (rule that)
  then have "KEY_BYTES \<le> length (take n1 d1)"
    by (simp only: Let_def length_append)
  then have "c_public example_crypto (take KEY_BYTES (take n1 d1)) = take KEY_BYTES (take n1 d1)"
    by (rule example_public [OF refl])
  from hello_request_is_the_clients [OF example_crypto_ok small run(1,3) this run(2) [symmetric], where dst = "replicate 200 0"] run
  show ?thesis
    by - (rule exI [of _ "take n1 d1"], rule exI [of _ claim], rule exI [of _ proof'], simp add: usize_max_def KEY_BYTES_def)
qed

text \<open>C24. The client takes an answer only as the one the controller it addressed writes: when
  \<open>read_reply\<close> succeeds, a controller that proved this client's request and drew the ephemeral of
  the message writes, for that payload, exactly those bytes and ends with the same keys.\<close>

theorem hello_reply_is_the_controllers:
  assumes "crypto_ok C" and "length msg \<le> usize_max"
    and "hello_read_reply C \<lparr>hi_state = t, hi_ephemeral = generate C x\<rparr> (from_secret C c) msg buf = (Inr (keys, m), out)"
    and "c_public C y = take KEY_BYTES msg" and "length m + 96 \<le> length dst" and "length dst \<le> usize_max"
  shows "hello_reply C \<lparr>hp_state = t, hp_their_ephemeral = c_public C x, hp_client = c_public C c\<rparr> y m dst =
    (Inr (keys, length msg), splice dst 0 msg)"
proof -
  obtain e ee se u where e: "take KEY_BYTES msg = e" "length e = KEY_BYTES" "c_dh C x e = Some ee" "c_dh C c e = Some se"
    "hello_second C t e ee se m = (msg, u)" "keys = split_keys C u"
    by (rule hello_read_reply_exact [OF assms(1,3,2)]) (use that in simp)
  then show ?thesis
    using hello_reply_eq [OF assms(1), where p = "\<lparr>hp_state = t, hp_their_ephemeral = c_public C x, hp_client = c_public C c\<rparr>"
        and x = y and ee = ee and se = se and m = m and msg = msg and t = u and dst = dst]
      crypto_ok_dh [OF assms(1), of y x] crypto_ok_dh [OF assms(1), of y c] assms(4-6)
    by (simp add: crypto_sizes)
qed

lemma hello_reply_is_the_controllers_witness:
  "\<exists>t msg keys out. hello_read_reply example_crypto \<lparr>hi_state = t, hi_ephemeral = generate example_crypto [1]\<rparr>
      (from_secret example_crypto [4]) msg (replicate 8 0) = (Inr (keys, [6]), out) \<and>
    hello_reply example_crypto \<lparr>hp_state = t, hp_their_ephemeral = c_public example_crypto [1], hp_client = c_public example_crypto [4]\<rparr>
      (take 32 msg) [6] (replicate 200 0) = (Inr (keys, length msg), splice (replicate 200 0) 0 msg)"
proof -
  obtain i k n2 d2 where run: "hello_read_reply example_crypto i (from_secret example_crypto [4]) (take n2 d2) (replicate 8 0) =
      (Inr (k, [6]), splice (replicate 8 0) 0 [6])" "n2 = 49" "hi_ephemeral i = generate example_crypto [1]"
    by (rule example_hello)
  then obtain t where i: "i = \<lparr>hi_state = t, hi_ephemeral = generate example_crypto [1]\<rparr>"
    by (cases i) simp
  have small: "length (take n2 d2) \<le> usize_max"
    using run(2) by (simp add: usize_max_def)
  obtain e where "take KEY_BYTES (take n2 d2) = e" "length e = KEY_BYTES"
    by (rule hello_read_reply_exact [OF example_crypto_ok run(1) small]) (rule that)
  then have "c_public example_crypto (take KEY_BYTES (take n2 d2)) = take KEY_BYTES (take n2 d2)"
    by (intro example_public [OF refl]) (metis length_take min.cobounded1)
  from hello_reply_is_the_controllers [OF example_crypto_ok small run(1) [unfolded i] this, where dst = "replicate 200 0"] run(1) i
  show ?thesis
    by - (rule exI [of _ t], rule exI [of _ "take n2 d2"], rule exI [of _ k], simp add: usize_max_def KEY_BYTES_def)
qed

end
