(* ===== verification/Event.thy ===== *)
theory Event
  imports Body Registry Limits Anti_Replay
begin

text \<open>
  \<open>crates/km43/src/event.rs\<close>: the one message that arrives unasked, carried with its own map
  uninterpreted, and the mark that stops it arriving twice. The mark is the second
  anti-replay guard of the crate and an instance of the same contract as the nonce window.
\<close>

section \<open>Keys\<close>

datatype event_key = EvSeq | EvAt | EvKind | EvBody

definition EVENT_KEY_COUNT :: nat where "EVENT_KEY_COUNT = 4"

definition event_key_of :: "int \<Rightarrow> event_key option" where
  "event_key_of number =
     (if number = 1 then Some EvSeq else if number = 2 then Some EvAt else if number = 3 then Some EvKind
      else if number = 4 then Some EvBody else None)"

primrec event_key_number :: "event_key \<Rightarrow> int" where
  "event_key_number EvSeq = 1"
| "event_key_number EvAt = 2"
| "event_key_number EvKind = 3"
| "event_key_number EvBody = 4"

datatype event_error =
    Ev_Missing event_key
  | Ev_Duplicate event_key
  | Ev_BodyTooLong nat
  | Ev_Replayed u64 u64
  | Ev_SeqAtTheCeiling
  | Ev_Cbor cbor_error

primrec event_kind_num :: "event_kind \<Rightarrow> u16" where
  "event_kind_num (EventKind k) = k"

section \<open>The record\<close>

record event =
  ev_seq :: u64
  ev_at :: "u64 option"
  ev_kind :: event_kind
  ev_body :: bytes

text \<open>Key 4 is a map this reader can walk to the end, key by key.\<close>

definition shaped :: "bytes \<Rightarrow> event_error + unit" where
  "shaped body =
     (if length body > MAX_EVENT_BODY then Inl (Ev_BodyTooLong (length body))
      else decoding (andthen (map_fields Ev_Cbor (\<lambda>_ _. skipped Ev_Cbor ()) ()) (\<lambda>_. finishing Ev_Cbor)) body)"

definition event_new :: "u64 \<Rightarrow> u64 option \<Rightarrow> event_kind \<Rightarrow> bytes \<Rightarrow> event_error + event" where
  "event_new seq at k body =
     (case shaped body of
        Inl e \<Rightarrow> Inl e
      | Inr _ \<Rightarrow> Inr \<lparr>ev_seq = seq, ev_at = at, ev_kind = k, ev_body = body\<rparr>)"

definition event_encode_into :: "event \<Rightarrow> (writer, cbor_error, unit) act" where
  "event_encode_into ev =
     andthen (wr_map (EVENT_KEY_COUNT - (if ev_at ev = None then 1 else 0))) (\<lambda>_.
     andthen (wr_key (event_key_number EvSeq)) (\<lambda>_.
     andthen (wr_u64 (ev_seq ev)) (\<lambda>_.
     andthen (case ev_at ev of
         Some at \<Rightarrow> andthen (wr_key (event_key_number EvAt)) (\<lambda>_. wr_u64 at)
       | None \<Rightarrow> ret ()) (\<lambda>_.
     andthen (wr_key (event_key_number EvKind)) (\<lambda>_.
     andthen (wr_u64 (ucast (event_kind_num (ev_kind ev)))) (\<lambda>_.
     andthen (wr_key (event_key_number EvBody)) (\<lambda>_.
     wr_raw (ev_body ev))))))))"

definition event_encode :: "event \<Rightarrow> bytes \<Rightarrow> (event_error + nat) \<times> bytes" where
  "event_encode ev = encoding Ev_Cbor (map_err Ev_Cbor (event_encode_into ev))"

type_synonym event_slots = "u64 option \<times> u64 option \<times> u16 option \<times> bytes option"

fun event_field :: "event_slots \<Rightarrow> int \<Rightarrow> (reader, event_error, event_slots) act" where
  "event_field (seq, at, k, body) number =
     (case event_key_of number of
        Some EvSeq \<Rightarrow>
          andthen (map_err Ev_Cbor rd_u64) (\<lambda>v.
          andthen (once (Ev_Duplicate EvSeq) seq v) (\<lambda>seq'. ret (seq', at, k, body)))
      | Some EvAt \<Rightarrow>
          andthen (map_err Ev_Cbor rd_u64) (\<lambda>v.
          andthen (once (Ev_Duplicate EvAt) at v) (\<lambda>at'. ret (seq, at', k, body)))
      | Some EvKind \<Rightarrow>
          andthen (map_err Ev_Cbor rd_u16) (\<lambda>v.
          andthen (once (Ev_Duplicate EvKind) k v) (\<lambda>k'. ret (seq, at, k', body)))
      | Some EvBody \<Rightarrow>
          andthen (map_err Ev_Cbor rd_raw) (\<lambda>v.
          andthen (once (Ev_Duplicate EvBody) body v) (\<lambda>body'. ret (seq, at, k, body')))
      | None \<Rightarrow> skipped Ev_Cbor (seq, at, k, body))"

definition event_decode_from :: "(reader, event_error, event) act" where
  "event_decode_from =
     andthen (map_fields Ev_Cbor event_field (None, None, None, None)) (\<lambda>(seq, at, k, body).
     andthen (ok_or (Ev_Missing EvBody) body) (\<lambda>body'.
     andthen (lift_sum (shaped body')) (\<lambda>_.
     andthen (ok_or (Ev_Missing EvSeq) seq) (\<lambda>seq'.
     andthen (ok_or (Ev_Missing EvKind) k) (\<lambda>k'.
     ret \<lparr>ev_seq = seq', ev_at = at, ev_kind = EventKind k', ev_body = body'\<rparr>)))))"

definition event_decode :: "bytes \<Rightarrow> event_error + event" where
  "event_decode = decoding (andthen event_decode_from (\<lambda>ev. andthen (finishing Ev_Cbor) (\<lambda>_. ret ev)))"

primrec event_refusal :: "event_error \<Rightarrow> error_code" where
  "event_refusal (Ev_Missing _) = Ec_MalformedFrame"
| "event_refusal (Ev_Duplicate _) = Ec_MalformedFrame"
| "event_refusal (Ev_BodyTooLong _) = Ec_MalformedFrame"
| "event_refusal (Ev_Replayed _ _) = Ec_MalformedFrame"
| "event_refusal Ev_SeqAtTheCeiling = Ec_MalformedFrame"
| "event_refusal (Ev_Cbor _) = Ec_MalformedFrame"

section \<open>The mark\<close>

datatype event_mark = EventMark u64

primrec mark_floor :: "event_mark \<Rightarrow> u64" where
  "mark_floor (EventMark f) = f"

definition accepting_from :: "u64 \<Rightarrow> event_mark" where
  "accepting_from seq = EventMark seq"

definition mark_accept :: "event \<Rightarrow> (event_mark, event_error, unit) act" where
  "mark_accept ev m =
     (let seq = ev_seq ev in
      if seq < mark_floor m then (Inl (Ev_Replayed (mark_floor m) seq), m)
      else if seq = - 1 then (Inl Ev_SeqAtTheCeiling, m)
      else (Inr (), EventMark (seq + 1)))"

section \<open>The codec\<close>

lemma shaped_map:
  assumes "extends (- 1) INNER gs" and "length (map_bytes gs) \<le> MAX_EVENT_BODY"
  shows "shaped (map_bytes gs) = Inr ()"
proof -
  have "length (map_bytes gs) \<le> usize_max"
    using assms(2) by (simp add: limit_defs usize_max_def)
  then have "decoding (andthen (map_fields Ev_Cbor (\<lambda>_ _. skipped Ev_Cbor ()) ()) (\<lambda>_. finishing Ev_Cbor)) (map_bytes gs) = Inr ()"
    using assms(1) by (intro decodes) (auto intro!: skip_pairs runs_finishing)
  then show ?thesis
    using assms(2) by (simp add: shaped_def)
qed

text \<open>A record whose body is some deterministic map, one level deeper than it stands alone.\<close>

definition event_fields :: "event \<Rightarrow> (int \<times> item) list \<Rightarrow> (int \<times> item) list" where
  "event_fields ev gs =
     (1, IUint (ev_seq ev)) #
     (case ev_at ev of Some at \<Rightarrow> [(2, IUint at)] | None \<Rightarrow> []) @
     [(3, IUint (ucast (event_kind_num (ev_kind ev)))), (4, map_item gs)]"

definition carries_map :: "event \<Rightarrow> (int \<times> item) list \<Rightarrow> bool" where
  "carries_map ev gs \<longleftrightarrow> ev_body ev = map_bytes gs \<and> extends (- 1) 6 gs \<and> length (map_bytes gs) \<le> MAX_EVENT_BODY"

lemma extends_mono: "extends k room gs \<Longrightarrow> room \<le> room' \<Longrightarrow> extends k room' gs"
  by (induction gs arbitrary: k) auto

lemma extends_wf:
  assumes "extends k room gs" and "- 1 \<le> k"
  shows "wf_item (map_item gs) \<and> item_depth (map_item gs) \<le> Suc room \<and> (\<forall>g \<in> set gs. k < fst g)"
  using assms
proof (induction gs arbitrary: k)
  case Nil
  then show ?case by (simp add: map_item_def pairs_of_def)
next
  case (Cons g gs)
  obtain j t where g: "g = (j, t)"
    by fastforce
  have IH: "wf_item (map_item gs) \<and> item_depth (map_item gs) \<le> Suc room \<and> (\<forall>g \<in> set gs. j < fst g)"
    using Cons.prems g by (intro Cons.IH) simp_all
  have good: "extends k room fs \<Longrightarrow> \<forall>g \<in> set fs. good_key (fst g)" for k fs
    by (induction fs arbitrary: k) fastforce+
  have "\<forall>h \<in> set gs. key_rank j < key_rank (fst h)"
    using IH good [of j gs] Cons.prems(1) g by (auto simp: key_rank_less)
  then show ?case
    using IH Cons.prems g by (fastforce simp: map_item_def pairs_of_def)
qed

lemma event_kind_num_inverse [simp]: "EventKind (event_kind_num k) = k"
  by (cases k) simp

lemma event_encode_writes:
  assumes "carries_map ev gs" and "length (map_bytes (event_fields ev gs)) \<le> length dst" and "length dst \<le> usize_max"
  shows "event_encode ev dst =
    (Inr (length (map_bytes (event_fields ev gs))), splice dst 0 (map_bytes (event_fields ev gs)))"
proof -
  have body: "wf_item (map_item gs)" "item_depth (map_item gs) \<le> 7" "ev_body ev = enc_item (map_item gs)"
    using assms(1) extends_wf [of "- 1" 6 gs] by (simp_all add: carries_map_def map_bytes_def)
  show ?thesis
    unfolding event_encode_def event_encode_into_def body(3)
    using assms(2,3) body(1,2)
    by (intro encodes; cases "ev_at ev")
      (auto intro!: encode_rules simp: event_fields_def EVENT_KEY_COUNT_def body_simps)
qed

lemma event_decode_extended:
  assumes "carries_map ev gs" and "extends 4 INNER fs" and "length (map_bytes (event_fields ev gs @ fs)) \<le> usize_max"
  shows "event_decode (map_bytes (event_fields ev gs @ fs)) = Inr ev"
proof -
  have body: "wf_item (map_item gs)" "item_depth (map_item gs) \<le> 7" "ev_body ev = enc_item (map_item gs)"
    using assms(1) extends_wf [of "- 1" 6 gs] by (simp_all add: carries_map_def map_bytes_def)
  have inner: "shaped (ev_body ev) = Inr ()"
    using assms(1) shaped_map [of gs] extends_mono [of "- 1" 6 gs INNER] by (simp add: carries_map_def INNER_val)
  have eq: "event_decode = decoding (andthen (map_fields Ev_Cbor event_field (None, None, None, None)) (\<lambda>(seq, at, k, body).
     andthen (ok_or (Ev_Missing EvBody) body) (\<lambda>body'.
     andthen (lift_sum (shaped body')) (\<lambda>_.
     andthen (ok_or (Ev_Missing EvSeq) seq) (\<lambda>seq'.
     andthen (ok_or (Ev_Missing EvKind) k) (\<lambda>k'.
     andthen (finishing Ev_Cbor) (\<lambda>_.
     ret \<lparr>ev_seq = seq', ev_at = at, ev_kind = EventKind k', ev_body = body'\<rparr>)))))))"
    unfolding event_decode_def event_decode_from_def by (simp add: andthen_assoc case_prod_unfold)
  show ?thesis
    unfolding eq using assms(2,3) body inner
    by (intro decodes; cases "ev_at ev") (simp add: event_fields_def event_key_of_def | rule decode_rules)+
qed

section \<open>The mark is an anti-replay guard\<close>

definition mark_take :: "event \<Rightarrow> event_mark \<Rightarrow> event_mark option" where
  "mark_take ev m = (case mark_accept ev m of (Inr _, m') \<Rightarrow> Some m' | (Inl _, _) \<Rightarrow> None)"

lemma mark_take_eq:
  "mark_take ev m = (if unat (mark_floor m) \<le> unat (ev_seq ev) \<and> unat (ev_seq ev) < 2 ^ 64 - 1
     then Some (EventMark (ev_seq ev + 1)) else None)"
proof -
  have "unat (ev_seq ev) < 2 ^ 64 - 1 \<longleftrightarrow> ev_seq ev \<noteq> - 1"
    using unat_u64 [of "ev_seq ev"]
    by (auto simp: word_unat_eq_iff unsigned_minus_1_eq_mask mask_eq_exp_minus_1)
  then show ?thesis
    by (auto simp: mark_take_def mark_accept_def Let_def word_less_nat_alt)
qed

lemma unat_next: "unat s < 2 ^ 64 - 1 \<Longrightarrow> unat (s + 1 :: u64) = unat s + 1"
  by (simp add: unat_word_ariths)

lemma mark_take_Some:
  assumes "mark_take ev m = Some m'"
  shows "unat (mark_floor m) \<le> unat (ev_seq ev)" and "unat (mark_floor m') = unat (ev_seq ev) + 1"
    and "unat (ev_seq ev) < 2 ^ 64 - 1"
  using assms unat_next [of "ev_seq ev"] by (auto simp: mark_take_eq split: if_splits)

interpretation event_mark: anti_replay mark_take "\<lambda>_. True"
proof
  fix ev ev' :: event and m m'
  assume taken: "mark_take ev m = Some m'"
  then have m': "unat (mark_floor m') = unat (ev_seq ev) + 1" "unat (mark_floor m) \<le> unat (ev_seq ev)"
    by (simp_all add: mark_take_Some)
  show "mark_take ev m' = None"
    using m' by (simp add: mark_take_eq)
  show "mark_take ev' m' = None" if "mark_take ev' m = None"
    using that m' by (auto simp: mark_take_eq split: if_splits)
qed simp

lemma mark_run:
  assumes "taken mark_take evs (EventMark f) = (accepted, m)"
  shows "sorted_wrt (<) (map (\<lambda>ev. unat (ev_seq ev)) accepted) \<and>
    list_all (\<lambda>a. unat f \<le> unat (ev_seq a)) accepted \<and>
    unat (mark_floor m) = (if accepted = [] then unat f else unat (ev_seq (last accepted)) + 1)"
  using assms
proof (induction evs arbitrary: f accepted)
  case (Cons ev evs)
  show ?case
  proof (cases "mark_take ev (EventMark f)")
    case None
    then show ?thesis
      using Cons.IH [of f accepted] Cons.prems by simp
  next
    case (Some m')
    then obtain g where g: "m' = EventMark g"
      by (cases m')
    obtain as where as: "taken mark_take evs (EventMark g) = (as, m)" "accepted = ev # as"
      using Cons.prems Some g by (auto split: prod.splits)
    have "unat f \<le> unat (ev_seq ev)" "unat g = unat (ev_seq ev) + 1"
      using mark_take_Some [OF Some] g by simp_all
    then show ?thesis
      using Cons.IH [OF as(1)] as(2) by (auto simp: list_all_iff)
  qed
qed auto

section \<open>Properties\<close>

text \<open>An event survives the wire: whatever map it carries and whether or not the clock was ever
  set, \<open>Event::encode\<close> writes the deterministic encoding of its fields and \<open>Event::decode\<close> gives
  the record back from it, its body byte for byte, with fields of a later version after them.\<close>

theorem event_round_trip:
  assumes "carries_map ev gs" and "extends 4 INNER fs" and "length (map_bytes (event_fields ev gs)) \<le> length dst"
    and "length dst \<le> usize_max" and "length (map_bytes (event_fields ev gs @ fs)) \<le> usize_max"
  shows "event_decode (map_bytes (event_fields ev gs @ fs)) = Inr ev \<and>
    (\<exists>n out. event_encode ev dst = (Inr n, out) \<and> take n out = map_bytes (event_fields ev gs) \<and>
      event_decode (take n out) = Inr ev)"
proof -
  let ?bs = "map_bytes (event_fields ev gs)"
  have small: "length ?bs \<le> usize_max"
    using assms(3,4) by simp
  have "event_encode ev dst = (Inr (length ?bs), splice dst 0 ?bs)"
    by (rule event_encode_writes [OF assms(1,3,4)])
  moreover have "event_decode ?bs = Inr ev"
    using event_decode_extended [OF assms(1), of "[]"] small by simp
  ultimately show ?thesis
    using event_decode_extended [OF assms(1,2,5)] by (auto simp: splice_def)
qed

lemma event_round_trip_witness:
  "\<exists>n out. event_encode \<lparr>ev_seq = 70000, ev_at = Some 5, ev_kind = BOOT, ev_body = map_bytes [(1, IUint 7)]\<rparr> (replicate 64 0) =
      (Inr n, out) \<and>
    event_decode (take n out) = Inr \<lparr>ev_seq = 70000, ev_at = Some 5, ev_kind = BOOT, ev_body = map_bytes [(1, IUint 7)]\<rparr>"
proof -
  let ?ev = "\<lparr>ev_seq = 70000, ev_at = Some 5, ev_kind = BOOT, ev_body = map_bytes [(1, IUint 7)]\<rparr>" and ?gs = "[(1, IUint 7)]"
  have w: "width_of 70000 = Four" "width_of 0x0601 = Two"
    by (simp_all add: width_of_def)
  have "carries_map ?ev ?gs"
    by (simp add: carries_map_def map_bytes_eq limit_defs)
  moreover have "length (map_bytes (event_fields ?ev ?gs)) \<le> 64"
    by (simp add: event_fields_def map_bytes_eq BOOT_def map_item_def pairs_of_def key_rank_def w)
  ultimately show ?thesis
    using event_round_trip [of ?ev ?gs "[]" "replicate 64 0"] by (auto simp: usize_max_def)
qed

text \<open>C39. However a relay replays, reorders or withholds the events of a subscription, the client
  acts on each position at most once and only forwards: the positions accepted rise strictly from
  \<open>accepted_from_seq\<close>, and an event is refused exactly when its position is below
  \<open>accepted_from_seq\<close>, is not above everything accepted before it, or is the last position there is,
  above which the mark could not stand.\<close>

theorem event_mark_moves_forward:
  "let (accepted, m) = taken mark_take evs (accepting_from s) in
     sorted_wrt (<) (map (\<lambda>ev. unat (ev_seq ev)) accepted) \<and>
     (\<forall>ev. (mark_take ev m \<noteq> None) =
        (unat s \<le> unat (ev_seq ev) \<and> unat (ev_seq ev) < 2 ^ 64 - 1 \<and>
         list_all (\<lambda>a. unat (ev_seq a) < unat (ev_seq ev)) accepted))"
proof -
  obtain accepted m where run: "taken mark_take evs (accepting_from s) = (accepted, m)"
    by fastforce
  have "sorted_wrt (<) (map (\<lambda>ev. unat (ev_seq ev)) accepted)"
    and floor: "list_all (\<lambda>a. unat s \<le> unat (ev_seq a)) accepted"
      "unat (mark_floor m) = (if accepted = [] then unat s else unat (ev_seq (last accepted)) + 1)"
    using mark_run [OF run [unfolded accepting_from_def]] by simp_all
  moreover have "unat (mark_floor m) \<le> unat (ev_seq ev) \<longleftrightarrow>
      unat s \<le> unat (ev_seq ev) \<and> list_all (\<lambda>a. unat (ev_seq a) < unat (ev_seq ev)) accepted" for ev :: event
  proof (cases accepted rule: rev_cases)
    case (snoc as a)
    then show ?thesis
      using calculation by (auto simp: sorted_wrt_append list_all_iff)
  qed (use floor in simp)
  ultimately show ?thesis
    using run by (auto simp: mark_take_eq)
qed

end
