(* ===== verification/Requests.thy ===== *)
theory Requests
  imports Session
begin

text \<open>
  What a message type needs before it is answered (\<open>crates/km43/src/admission.rs\<close>), the writes
  whose inner body is the operation itself (\<open>signed.rs\<close>) and where a refusal is addressed
  (\<open>routing.rs\<close>).
\<close>

section \<open>Admission\<close>

datatype admission = WithoutSession | OnlyWithSession | NotARequest

primrec admits :: "message_type \<Rightarrow> admission" where
  "admits Mt_Discover = WithoutSession"
| "admits Mt_Hello = WithoutSession"
| "admits Mt_Pair = WithoutSession"
| "admits Mt_Enrol = WithoutSession"
| "admits Mt_Subscribe = OnlyWithSession"
| "admits Mt_ReadLog = OnlyWithSession"
| "admits Mt_GetConfig = OnlyWithSession"
| "admits Mt_SetConfig = OnlyWithSession"
| "admits Mt_Command = OnlyWithSession"
| "admits Mt_Firmware = OnlyWithSession"
| "admits Mt_Time = OnlyWithSession"
| "admits Mt_Goodbye = OnlyWithSession"
| "admits Mt_Inventory = OnlyWithSession"
| "admits Mt_Readings = OnlyWithSession"
| "admits Mt_Concerns = OnlyWithSession"
| "admits Mt_History = OnlyWithSession"
| "admits Mt_WifiScan = OnlyWithSession"
| "admits Mt_WifiStatus = OnlyWithSession"
| "admits Mt_Vouch = OnlyWithSession"
| "admits Mt_Clients = OnlyWithSession"
| "admits Mt_Invite = OnlyWithSession"
| "admits Mt_Approve = OnlyWithSession"
| "admits Mt_Remove = OnlyWithSession"
| "admits Mt_DiscoverResponse = NotARequest"
| "admits Mt_HelloResponse = NotARequest"
| "admits Mt_SubscribeResponse = NotARequest"
| "admits Mt_EventResponse = NotARequest"
| "admits Mt_ReadLogResponse = NotARequest"
| "admits Mt_GetConfigResponse = NotARequest"
| "admits Mt_SetConfigResponse = NotARequest"
| "admits Mt_CommandResponse = NotARequest"
| "admits Mt_FirmwareResponse = NotARequest"
| "admits Mt_TimeResponse = NotARequest"
| "admits Mt_PairResponse = NotARequest"
| "admits Mt_EnrolResponse = NotARequest"
| "admits Mt_GoodbyeResponse = NotARequest"
| "admits Mt_InventoryResponse = NotARequest"
| "admits Mt_ReadingsResponse = NotARequest"
| "admits Mt_ConcernsResponse = NotARequest"
| "admits Mt_HistoryResponse = NotARequest"
| "admits Mt_WifiScanResponse = NotARequest"
| "admits Mt_WifiStatusResponse = NotARequest"
| "admits Mt_VouchResponse = NotARequest"
| "admits Mt_ClientsResponse = NotARequest"
| "admits Mt_InviteResponse = NotARequest"
| "admits Mt_ApproveResponse = NotARequest"
| "admits Mt_RemoveResponse = NotARequest"
| "admits Mt_ErrorResponse = NotARequest"

section \<open>Signed writes\<close>

primrec signs :: "message_type \<Rightarrow> bool" where
  "signs Mt_SetConfig = True"
| "signs Mt_Command = True"
| "signs Mt_Firmware = True"
| "signs Mt_Time = True"
| "signs Mt_Invite = True"
| "signs Mt_Approve = True"
| "signs Mt_Remove = True"
| "signs Mt_Discover = False"
| "signs Mt_DiscoverResponse = False"
| "signs Mt_Hello = False"
| "signs Mt_HelloResponse = False"
| "signs Mt_Inventory = False"
| "signs Mt_InventoryResponse = False"
| "signs Mt_Readings = False"
| "signs Mt_ReadingsResponse = False"
| "signs Mt_Concerns = False"
| "signs Mt_ConcernsResponse = False"
| "signs Mt_History = False"
| "signs Mt_HistoryResponse = False"
| "signs Mt_WifiScan = False"
| "signs Mt_WifiScanResponse = False"
| "signs Mt_WifiStatus = False"
| "signs Mt_WifiStatusResponse = False"
| "signs Mt_Vouch = False"
| "signs Mt_VouchResponse = False"
| "signs Mt_Subscribe = False"
| "signs Mt_SubscribeResponse = False"
| "signs Mt_EventResponse = False"
| "signs Mt_ReadLog = False"
| "signs Mt_ReadLogResponse = False"
| "signs Mt_GetConfig = False"
| "signs Mt_GetConfigResponse = False"
| "signs Mt_SetConfigResponse = False"
| "signs Mt_CommandResponse = False"
| "signs Mt_FirmwareResponse = False"
| "signs Mt_TimeResponse = False"
| "signs Mt_Pair = False"
| "signs Mt_PairResponse = False"
| "signs Mt_Enrol = False"
| "signs Mt_EnrolResponse = False"
| "signs Mt_Goodbye = False"
| "signs Mt_GoodbyeResponse = False"
| "signs Mt_Clients = False"
| "signs Mt_ClientsResponse = False"
| "signs Mt_InviteResponse = False"
| "signs Mt_ApproveResponse = False"
| "signs Mt_RemoveResponse = False"
| "signs Mt_ErrorResponse = False"

datatype signed_error =
    Signed_NotSigned message_type
  | Signed_OperationTooLong nat
  | Signed_Sealed seal_error

record signed =
  sg_kind :: message_type
  sg_operation :: bytes

record signed_write =
  sw_header :: header
  sw_operation :: bytes

definition within_cap :: "bytes \<Rightarrow> signed_error + unit" where
  "within_cap operation =
     (if length operation > MAX_OPERATION then Inl (Signed_OperationTooLong (length operation)) else Inr ())"

definition signed_new :: "message_type \<Rightarrow> bytes \<Rightarrow> signed_error + signed" where
  "signed_new k operation =
     (if \<not> signs k then Inl (Signed_NotSigned k)
      else case within_cap operation of
             Inl e \<Rightarrow> Inl e
           | Inr _ \<Rightarrow> Inr \<lparr>sg_kind = k, sg_operation = operation\<rparr>)"

definition signed_seal ::
  "crypto \<Rightarrow> signed \<Rightarrow> session_id \<Rightarrow> bytes \<Rightarrow> request_sealer \<Rightarrow>
     (signed_error + req_id \<times> nat) \<times> bytes \<times> request_sealer" where
  "signed_seal C w session dst tx =
     (case seal_request C (sg_kind w) session (sg_operation w) dst tx of
        (x, rest) \<Rightarrow> (map_sum Signed_Sealed id x, rest))"

definition signed_read :: "opened \<Rightarrow> signed_error + signed_write" where
  "signed_read o' =
     (if \<not> signs (h_kind (o_header o')) then Inl (Signed_NotSigned (h_kind (o_header o')))
      else case within_cap (o_inner o') of
             Inl e \<Rightarrow> Inl e
           | Inr _ \<Rightarrow> Inr \<lparr>sw_header = o_header o', sw_operation = o_inner o'\<rparr>)"

primrec signed_refusal :: "signed_error \<Rightarrow> refusal option" where
  "signed_refusal (Signed_Sealed why) = seal_refusal why"
| "signed_refusal (Signed_OperationTooLong _) = Some (RefuseClient Ec_PayloadTooLarge)"
| "signed_refusal (Signed_NotSigned _) = Some (RefuseClient Ec_MalformedFrame)"

section \<open>Routing a refusal\<close>

datatype conn = Conn u16

definition conn_new :: "u16 \<Rightarrow> conn option" where
  "conn_new handle = (if handle = 0 then None else Some (Conn handle))"

primrec conn_get :: "conn \<Rightarrow> u16" where
  "conn_get (Conn handle) = handle"

datatype about =
    AClientFrame header conn
  | AFrameThatDidNotParse conn
  | APreSessionRequest conn req_id
  | ALinkLocalFrame

datatype route = ToClient conn | StaysOnTheLink

record address =
  ad_session :: session_id
  ad_req_id :: req_id
  ad_route :: route

primrec addressed :: "about \<Rightarrow> address" where
  "addressed (AClientFrame header conn) =
     \<lparr>ad_session = h_session header, ad_req_id = h_req_id header, ad_route = ToClient conn\<rparr>"
| "addressed (AFrameThatDidNotParse conn) = \<lparr>ad_session = NoSession, ad_req_id = 0, ad_route = ToClient conn\<rparr>"
| "addressed (APreSessionRequest conn req_id) =
     \<lparr>ad_session = session_of (conn_get conn), ad_req_id = req_id, ad_route = ToClient conn\<rparr>"
| "addressed ALinkLocalFrame = \<lparr>ad_session = NoSession, ad_req_id = 0, ad_route = StaysOnTheLink\<rparr>"

section \<open>Properties\<close>

text \<open>The four tables that decide what may be done with a message type agree, type by type: the
  types that need a session are exactly those a client seals, the signed writes are among them,
  a type sealed by the controller is never taken as a request, and nothing that opens a session
  travels sealed.\<close>

theorem request_tables_agree:
  "(direction_of k = Some Request) = (admits k = OnlyWithSession) \<and>
   (signs k \<longrightarrow> admits k = OnlyWithSession) \<and>
   (direction_of k = Some Controller \<longrightarrow> admits k = NotARequest) \<and>
   (admits k = WithoutSession \<longrightarrow> direction_of k = None) \<and>
   (admits k = NotARequest) = (opcode_is_response (opcode_of k) \<or> k = Mt_EventResponse)"
  by (cases k) (simp_all add: opcode_of_def RESPONSE_def)

lemma request_tables_agree_witness:
  "admits Mt_Invite = OnlyWithSession \<and> admits Mt_EventResponse = NotARequest \<and> direction_of Mt_Pair = None"
  using request_tables_agree [of Mt_Invite] request_tables_agree [of Mt_EventResponse] request_tables_agree [of Mt_Pair]
  by simp

text \<open>A signed write reaches its handler whole and only as what it is: an operation within
  \<open>MAX_OPERATION\<close> of a signed type, sealed by the client and opened at the controller, reads
  back as the same operation under the same type and session, and a second arrival of the frame
  reaches no handler.\<close>

theorem signed_write_delivered_once:
  assumes "crypto_ok C" and "signed_new k operation = Inr w" and "session_ok session"
    and "unat (rs_next tx) + 1 < 2 ^ 32" and "rs_key tx = op_key rx" and "window_good (op_window rx)"
    and "window_admits (op_window rx) (ucast (rs_next tx)) = Inr ()"
    and "MAX_PAYLOAD \<le> length dst" and "length dst \<le> usize_max" and "MAX_PAYLOAD \<le> length buf" and "length buf \<le> usize_max"
  shows "\<exists>n out tx' o' rx'. signed_seal C w session dst tx = (Inr (rs_next tx, n), out, tx') \<and>
    arrival C (take n out) buf rx = (Some o', rx') \<and>
    signed_read o' = Inr \<lparr>sw_header = \<lparr>h_kind = k, h_session = session, h_req_id = rs_next tx\<rparr>, sw_operation = operation\<rparr> \<and>
    arrival C (take n out) buf rx' = (None, rx')"
proof -
  have w: "signs k" "length operation \<le> MAX_OPERATION" "w = \<lparr>sg_kind = k, sg_operation = operation\<rparr>"
    using assms(2) by (auto simp: signed_new_def within_cap_def split: if_splits)
  then have k: "direction_of k = Some Request"
    by (cases k) simp_all
  have "length operation + REQUEST_FRAMING_BYTES + 1 \<le> MAX_PAYLOAD"
    using w(2) by (simp add: limit_defs)
  from request_delivered [OF assms(1) k assms(3-7) this assms(8-11)] obtain n out rx' where
    run: "seal_request C k session operation dst tx = (Inr (rs_next tx, n), out, tx\<lparr>rs_next := rs_next tx + 1\<rparr>)"
      "arrival C (take n out) buf rx =
        (Some \<lparr>o_header = \<lparr>h_kind = k, h_session = session, h_req_id = rs_next tx\<rparr>, o_inner = operation\<rparr>, rx')"
      "arrival C (take n out) buf rx' = (None, rx')"
    by blast
  show ?thesis
    by (intro exI conjI, simp add: signed_seal_def run w(3), rule run(2))
      (use run(3) w in \<open>simp_all add: signed_read_def within_cap_def\<close>)
qed

lemma signed_write_delivered_once_witness:
  "\<exists>n out tx' o' rx'. signed_seal example_crypto \<lparr>sg_kind = Mt_Time, sg_operation = [1, 2, 3]\<rparr> (Assigned 7)
      (replicate 1024 0) \<lparr>rs_key = [9], rs_next = 1\<rparr> = (Inr (1, n), out, tx') \<and>
    arrival example_crypto (take n out) (replicate 1024 0) (opener_new [9] 8) = (Some o', rx') \<and>
    signed_read o' = Inr \<lparr>sw_header = \<lparr>h_kind = Mt_Time, h_session = Assigned 7, h_req_id = 1\<rparr>, sw_operation = [1, 2, 3]\<rparr> \<and>
    arrival example_crypto (take n out) (replicate 1024 0) rx' = (None, rx')"
proof -
  have "tracks (op_window (opener_new [9] 8)) {}"
    using tracks_new [of 8] by (simp add: opener_new_def)
  then have "window_good (op_window (opener_new [9] 8))"
    unfolding window_good_def by (intro exI [of _ "{}"]) simp
  then show ?thesis
    using signed_write_delivered_once [of example_crypto Mt_Time "[1, 2, 3]" "\<lparr>sg_kind = Mt_Time, sg_operation = [1, 2, 3]\<rparr>"
        "Assigned 7" "\<lparr>rs_key = [9], rs_next = 1\<rparr>" "opener_new [9] 8" "replicate 1024 0" "replicate 1024 0"] example_crypto_ok
    by (simp add: signed_new_def within_cap_def opener_new_def window_new_def window_admits_def limit_defs usize_max_def)
qed

end
