(* ===== verification/Empty.thy ===== *)
theory Empty
  imports Body Envelope
begin

text \<open>
  \<open>crates/km43/src/empty.rs\<close>: the body with no keys, which a later version may put keys into.
\<close>

datatype empty_error =
    Empty_NotAnEmptyInnerBody message_type
  | Empty_TooLargeToWrite
  | Empty_Cbor cbor_error

primrec wears_one :: "message_type \<Rightarrow> bool" where
  "wears_one Mt_Goodbye = True"
| "wears_one Mt_GoodbyeResponse = True"
| "wears_one Mt_WifiStatus = True"
| "wears_one Mt_Clients = True"
| "wears_one Mt_Discover = False"
| "wears_one Mt_DiscoverResponse = False"
| "wears_one Mt_Hello = False"
| "wears_one Mt_HelloResponse = False"
| "wears_one Mt_Inventory = False"
| "wears_one Mt_InventoryResponse = False"
| "wears_one Mt_Readings = False"
| "wears_one Mt_ReadingsResponse = False"
| "wears_one Mt_Concerns = False"
| "wears_one Mt_ConcernsResponse = False"
| "wears_one Mt_History = False"
| "wears_one Mt_HistoryResponse = False"
| "wears_one Mt_WifiScan = False"
| "wears_one Mt_WifiScanResponse = False"
| "wears_one Mt_WifiStatusResponse = False"
| "wears_one Mt_Vouch = False"
| "wears_one Mt_VouchResponse = False"
| "wears_one Mt_Subscribe = False"
| "wears_one Mt_SubscribeResponse = False"
| "wears_one Mt_EventResponse = False"
| "wears_one Mt_ReadLog = False"
| "wears_one Mt_ReadLogResponse = False"
| "wears_one Mt_GetConfig = False"
| "wears_one Mt_GetConfigResponse = False"
| "wears_one Mt_SetConfig = False"
| "wears_one Mt_SetConfigResponse = False"
| "wears_one Mt_Command = False"
| "wears_one Mt_CommandResponse = False"
| "wears_one Mt_Firmware = False"
| "wears_one Mt_FirmwareResponse = False"
| "wears_one Mt_Time = False"
| "wears_one Mt_TimeResponse = False"
| "wears_one Mt_Pair = False"
| "wears_one Mt_PairResponse = False"
| "wears_one Mt_Enrol = False"
| "wears_one Mt_EnrolResponse = False"
| "wears_one Mt_ClientsResponse = False"
| "wears_one Mt_Invite = False"
| "wears_one Mt_InviteResponse = False"
| "wears_one Mt_Approve = False"
| "wears_one Mt_ApproveResponse = False"
| "wears_one Mt_Remove = False"
| "wears_one Mt_RemoveResponse = False"
| "wears_one Mt_ErrorResponse = False"

definition empty_encode :: "message_type \<Rightarrow> bytes \<Rightarrow> (empty_error + nat) \<times> bytes" where
  "empty_encode k dst =
     (if \<not> wears_one k then (Inl (Empty_NotAnEmptyInnerBody k), dst)
      else encoding (\<lambda>_. Empty_TooLargeToWrite) (map_err (\<lambda>_. Empty_TooLargeToWrite) (wr_map 0)) dst)"

definition empty_decode :: "message_type \<Rightarrow> bytes \<Rightarrow> empty_error + unit" where
  "empty_decode k payload =
     (if \<not> wears_one k then Inl (Empty_NotAnEmptyInnerBody k)
      else decoding (andthen (map_fields Empty_Cbor (\<lambda>_ _. skipped Empty_Cbor ()) ()) (\<lambda>_. finishing Empty_Cbor)) payload)"

primrec empty_refusal :: "empty_error \<Rightarrow> refusal" where
  "empty_refusal Empty_TooLargeToWrite = RefuseClient Ec_PayloadTooLarge"
| "empty_refusal (Empty_NotAnEmptyInnerBody _) = RefuseClient Ec_MalformedFrame"
| "empty_refusal (Empty_Cbor _) = RefuseClient Ec_MalformedFrame"

lemma empty_encode_eq:
  assumes "wears_one k" and "1 \<le> length dst" and "length dst \<le> usize_max"
  shows "empty_encode k dst = (Inr 1, splice dst 0 [0xA0])"
proof -
  have bytes: "map_bytes [] = [0xA0]"
    by (simp add: map_bytes_eq head_bytes_def)
  have "encoding (\<lambda>_. Empty_TooLargeToWrite) (map_err (\<lambda>_. Empty_TooLargeToWrite) (wr_map 0)) dst =
      (Inr (length (map_bytes [])), splice dst 0 (map_bytes []))"
    using assms(2,3) by (intro encodes) (auto intro!: encode_rules simp: bytes body_simps)
  then show ?thesis
    using assms(1) by (simp add: empty_encode_def bytes)
qed

lemma empty_decode_extended:
  assumes "wears_one k" and "extends (- 1) INNER fs" and "length (map_bytes fs) \<le> usize_max"
  shows "empty_decode k (map_bytes fs) = Inr ()"
  unfolding empty_decode_def using assms
  by simp (intro decodes; (auto intro!: skip_pairs runs_finishing)?)

section \<open>Properties\<close>

text \<open>The empty body can grow: \<open>EmptyBody::encode\<close> writes the one byte of an empty map, and
  \<open>decode\<close> takes that byte and any deterministic map a later version may put there, whatever its
  keys and however they nest, as the same request.\<close>

theorem empty_body_stays_open:
  assumes "wears_one k" and "1 \<le> length dst" and "length dst \<le> usize_max"
    and "extends (- 1) INNER fs" and "length (map_bytes fs) \<le> usize_max"
  shows "\<exists>n out. empty_encode k dst = (Inr n, out) \<and> take n out = [0xA0] \<and> drop n out = drop n dst \<and>
    empty_decode k (take n out) = Inr () \<and> empty_decode k (map_bytes fs) = Inr ()"
proof -
  have bytes: "map_bytes [] = [0xA0]"
    by (simp add: map_bytes_eq head_bytes_def)
  then have "empty_decode k [0xA0] = Inr ()"
    using empty_decode_extended [OF assms(1), of "[]"] by (simp add: usize_max_def)
  then show ?thesis
    using empty_encode_eq [OF assms(1-3)] empty_decode_extended [OF assms(1,4,5)] assms(2)
    by (auto simp: splice_def)
qed

lemma empty_body_stays_open_witness:
  "empty_decode Mt_Goodbye (map_bytes [(1, IUint 3), (2, IText [])]) = Inr ()"
  using empty_body_stays_open [of Mt_Goodbye "[0]" "[(1, IUint 3), (2, IText [])]"]
  by (auto simp: map_bytes_eq INNER_val usize_max_def MAX_STRING_def)

end
