(* ===== verification/Subscribe.thy ===== *)
theory Subscribe
  imports Event Envelope
begin

text \<open>
  \<open>crates/km43/src/subscribe.rs\<close>: where a client's event stream starts. The arithmetic of
  \<open>SubscribeAck::answer\<close> is verified against what the client asked for, together with the
  mark of \<open>event.rs\<close> the client opens at the position it is given.
\<close>

section \<open>Keys\<close>

datatype subscribe_key = SubFromSeq

definition SUBSCRIBE_KEY_COUNT :: nat where "SUBSCRIBE_KEY_COUNT = 1"

definition subscribe_key_of :: "int \<Rightarrow> subscribe_key option" where
  "subscribe_key_of number = (if number = 1 then Some SubFromSeq else None)"

primrec subscribe_key_number :: "subscribe_key \<Rightarrow> int" where
  "subscribe_key_number SubFromSeq = 1"

datatype ack_key = AckAcceptedFromSeq | AckOldestSeq | AckCurrentSeq | AckGap

definition ACK_KEY_COUNT :: nat where "ACK_KEY_COUNT = 4"

definition ack_key_of :: "int \<Rightarrow> ack_key option" where
  "ack_key_of number =
     (if number = 1 then Some AckAcceptedFromSeq else if number = 2 then Some AckOldestSeq
      else if number = 3 then Some AckCurrentSeq else if number = 4 then Some AckGap else None)"

primrec ack_key_number :: "ack_key \<Rightarrow> int" where
  "ack_key_number AckAcceptedFromSeq = 1"
| "ack_key_number AckOldestSeq = 2"
| "ack_key_number AckCurrentSeq = 3"
| "ack_key_number AckGap = 4"

datatype subscribe_body_key = SubRequestKey subscribe_key | SubAckKey ack_key

datatype subscribe_error =
    Sub_Missing subscribe_body_key
  | Sub_Duplicate subscribe_body_key
  | Sub_ZeroIsNotAPosition
  | Sub_OldestPastNewest
  | Sub_LogAtTheCeiling
  | Sub_Cbor cbor_error

primrec subscribe_refusal :: "subscribe_error \<Rightarrow> refusal" where
  "subscribe_refusal (Sub_Missing _) = RefuseClient Ec_MalformedFrame"
| "subscribe_refusal (Sub_Duplicate _) = RefuseClient Ec_MalformedFrame"
| "subscribe_refusal Sub_ZeroIsNotAPosition = RefuseClient Ec_MalformedFrame"
| "subscribe_refusal Sub_OldestPastNewest = RefuseClient Ec_MalformedFrame"
| "subscribe_refusal Sub_LogAtTheCeiling = RefuseClient Ec_MalformedFrame"
| "subscribe_refusal (Sub_Cbor _) = RefuseClient Ec_MalformedFrame"

section \<open>What is asked, and of what\<close>

datatype replay = LiveOnly | ReplayFrom u64

primrec replay_wire :: "replay \<Rightarrow> u64" where
  "replay_wire LiveOnly = 0"
| "replay_wire (ReplayFrom at) = at"

definition replay_of :: "u64 \<Rightarrow> replay" where
  "replay_of raw = (if raw = 0 then LiveOnly else ReplayFrom raw)"

record log_extent =
  le_oldest :: u64
  le_newest :: u64

definition extent_empty :: log_extent where
  "extent_empty = \<lparr>le_oldest = 0, le_newest = 0\<rparr>"

definition extent_holding :: "u64 \<Rightarrow> u64 \<Rightarrow> subscribe_error + log_extent" where
  "extent_holding oldest newest =
     (if oldest = 0 \<or> newest = 0 then Inl Sub_ZeroIsNotAPosition
      else if oldest > newest then Inl Sub_OldestPastNewest
      else Inr \<lparr>le_oldest = oldest, le_newest = newest\<rparr>)"

record subscribe =
  sub_replay :: replay

definition subscribe_encode :: "subscribe \<Rightarrow> bytes \<Rightarrow> (subscribe_error + nat) \<times> bytes" where
  "subscribe_encode s = encoding Sub_Cbor (map_err Sub_Cbor (
     andthen (wr_map SUBSCRIBE_KEY_COUNT) (\<lambda>_.
     andthen (wr_key (subscribe_key_number SubFromSeq)) (\<lambda>_.
     wr_u64 (replay_wire (sub_replay s))))))"

text \<open>The request refuses a second \<open>from_seq\<close> before reading its value.\<close>

definition subscribe_field :: "u64 option \<Rightarrow> int \<Rightarrow> (reader, subscribe_error, u64 option) act" where
  "subscribe_field from_seq number =
     (case subscribe_key_of number of
        Some key \<Rightarrow>
          if from_seq \<noteq> None then fail (Sub_Duplicate (SubRequestKey key))
          else andthen (map_err Sub_Cbor rd_u64) (\<lambda>v. ret (Some v))
      | None \<Rightarrow> skipped Sub_Cbor from_seq)"

definition subscribe_decode :: "bytes \<Rightarrow> subscribe_error + subscribe" where
  "subscribe_decode = decoding (
     andthen (map_fields Sub_Cbor subscribe_field None) (\<lambda>from_seq.
     andthen (finishing Sub_Cbor) (\<lambda>_.
     andthen (ok_or (Sub_Missing (SubRequestKey SubFromSeq)) from_seq) (\<lambda>raw.
     ret \<lparr>sub_replay = replay_of raw\<rparr>))))"

section \<open>The answer\<close>

record subscribe_ack =
  sa_accepted :: u64
  sa_extent :: log_extent
  sa_gap :: bool

definition subscribe_answer :: "subscribe \<Rightarrow> log_extent \<Rightarrow> subscribe_error + subscribe_ack" where
  "subscribe_answer request log =
     (case sub_replay request of
        LiveOnly \<Rightarrow>
          if le_newest log = - 1 then Inl Sub_LogAtTheCeiling
          else Inr \<lparr>sa_accepted = le_newest log + 1, sa_extent = log, sa_gap = False\<rparr>
      | ReplayFrom at \<Rightarrow>
          Inr \<lparr>sa_accepted = max at (le_oldest log), sa_extent = log, sa_gap = (at < le_oldest log)\<rparr>)"

definition subscribe_ack_encode :: "subscribe_ack \<Rightarrow> bytes \<Rightarrow> (subscribe_error + nat) \<times> bytes" where
  "subscribe_ack_encode ack = encoding Sub_Cbor (map_err Sub_Cbor (
     andthen (wr_map ACK_KEY_COUNT) (\<lambda>_.
     andthen (wr_key (ack_key_number AckAcceptedFromSeq)) (\<lambda>_.
     andthen (wr_u64 (sa_accepted ack)) (\<lambda>_.
     andthen (wr_key (ack_key_number AckOldestSeq)) (\<lambda>_.
     andthen (wr_u64 (le_oldest (sa_extent ack))) (\<lambda>_.
     andthen (wr_key (ack_key_number AckCurrentSeq)) (\<lambda>_.
     andthen (wr_u64 (le_newest (sa_extent ack))) (\<lambda>_.
     andthen (wr_key (ack_key_number AckGap)) (\<lambda>_.
     wr_bool (sa_gap ack)))))))))))"

record ack_slots =
  as_accepted :: "u64 option"
  as_oldest :: "u64 option"
  as_current :: "u64 option"
  as_gap :: "bool option"

definition ack_slots_empty :: ack_slots where
  "ack_slots_empty = \<lparr>as_accepted = None, as_oldest = None, as_current = None, as_gap = None\<rparr>"

primrec ack_slots_fill :: "ack_key \<Rightarrow> ack_slots \<Rightarrow> (reader, subscribe_error, ack_slots) act" where
  "ack_slots_fill AckAcceptedFromSeq slots =
     andthen (map_err Sub_Cbor rd_u64) (\<lambda>v.
     andthen (once (Sub_Duplicate (SubAckKey AckAcceptedFromSeq)) (as_accepted slots) v) (\<lambda>s.
     ret (slots\<lparr>as_accepted := s\<rparr>)))"
| "ack_slots_fill AckOldestSeq slots =
     andthen (map_err Sub_Cbor rd_u64) (\<lambda>v.
     andthen (once (Sub_Duplicate (SubAckKey AckOldestSeq)) (as_oldest slots) v) (\<lambda>s.
     ret (slots\<lparr>as_oldest := s\<rparr>)))"
| "ack_slots_fill AckCurrentSeq slots =
     andthen (map_err Sub_Cbor rd_u64) (\<lambda>v.
     andthen (once (Sub_Duplicate (SubAckKey AckCurrentSeq)) (as_current slots) v) (\<lambda>s.
     ret (slots\<lparr>as_current := s\<rparr>)))"
| "ack_slots_fill AckGap slots =
     andthen (map_err Sub_Cbor rd_bool) (\<lambda>v.
     andthen (once (Sub_Duplicate (SubAckKey AckGap)) (as_gap slots) v) (\<lambda>s.
     ret (slots\<lparr>as_gap := s\<rparr>)))"

definition ack_slots_field :: "ack_slots \<Rightarrow> int \<Rightarrow> (reader, subscribe_error, ack_slots) act" where
  "ack_slots_field slots number =
     (case ack_key_of number of Some key \<Rightarrow> ack_slots_fill key slots | None \<Rightarrow> skipped Sub_Cbor slots)"

definition ack_extent :: "u64 \<Rightarrow> u64 \<Rightarrow> subscribe_error + log_extent" where
  "ack_extent oldest current =
     (if oldest = 0 \<and> current = 0 then Inr extent_empty else extent_holding oldest current)"

definition ack_slots_complete :: "ack_slots \<Rightarrow> (reader, subscribe_error, subscribe_ack) act" where
  "ack_slots_complete slots =
     andthen (ok_or (Sub_Missing (SubAckKey AckAcceptedFromSeq)) (as_accepted slots)) (\<lambda>accepted.
     andthen (ok_or (Sub_Missing (SubAckKey AckOldestSeq)) (as_oldest slots)) (\<lambda>oldest.
     andthen (ok_or (Sub_Missing (SubAckKey AckCurrentSeq)) (as_current slots)) (\<lambda>current.
     andthen (ok_or (Sub_Missing (SubAckKey AckGap)) (as_gap slots)) (\<lambda>gap.
     andthen (lift_sum (ack_extent oldest current)) (\<lambda>extent.
     ret \<lparr>sa_accepted = accepted, sa_extent = extent, sa_gap = gap\<rparr>)))))"

definition subscribe_ack_decode :: "bytes \<Rightarrow> subscribe_error + subscribe_ack" where
  "subscribe_ack_decode = decoding (
     andthen (map_fields Sub_Cbor ack_slots_field ack_slots_empty) (\<lambda>slots.
     andthen (finishing Sub_Cbor) (\<lambda>_.
     ack_slots_complete slots)))"

section \<open>Both are codecs\<close>

definition subscribe_valid :: "subscribe \<Rightarrow> bool" where
  "subscribe_valid s \<longleftrightarrow> sub_replay s \<noteq> ReplayFrom 0"

definition subscribe_fields :: "subscribe \<Rightarrow> (int \<times> item) list" where
  "subscribe_fields s = [(1, IUint (replay_wire (sub_replay s)))]"

definition extent_valid :: "log_extent \<Rightarrow> bool" where
  "extent_valid log \<longleftrightarrow> log = extent_empty \<or> extent_holding (le_oldest log) (le_newest log) = Inr log"

definition subscribe_ack_fields :: "subscribe_ack \<Rightarrow> (int \<times> item) list" where
  "subscribe_ack_fields ack =
     [(1, IUint (sa_accepted ack)), (2, IUint (le_oldest (sa_extent ack))),
      (3, IUint (le_newest (sa_extent ack))), (4, IBool (sa_gap ack))]"

lemmas subscribe_defs = subscribe_key_of_def ack_key_of_def SUBSCRIBE_KEY_COUNT_def ACK_KEY_COUNT_def

lemma replay_of_wire: "r \<noteq> ReplayFrom 0 \<Longrightarrow> replay_of (replay_wire r) = r"
  by (cases r) (auto simp: replay_of_def)

interpretation subscribe: body_codec subscribe_encode subscribe_decode subscribe_fields subscribe_valid 1
proof
  fix s :: subscribe and dst :: bytes
  assume "length (map_bytes (subscribe_fields s)) \<le> length dst" and "length dst \<le> usize_max"
  then show "subscribe_encode s dst =
      (Inr (length (map_bytes (subscribe_fields s))), splice dst 0 (map_bytes (subscribe_fields s)))"
    unfolding subscribe_encode_def
    by (intro encodes) (auto intro!: encode_rules simp: subscribe_fields_def subscribe_defs body_simps)
next
  fix s :: subscribe and fs
  assume "subscribe_valid s" and "extends 1 INNER fs" and "length (map_bytes (subscribe_fields s @ fs)) \<le> usize_max"
  then show "subscribe_decode (map_bytes (subscribe_fields s @ fs)) = Inr s"
    unfolding subscribe_decode_def
    by (intro decodes)
      (simp add: subscribe_fields_def subscribe_field_def subscribe_valid_def replay_of_wire subscribe_defs | rule decode_rules)+
qed

lemma ack_extent_valid: "extent_valid log \<Longrightarrow> ack_extent (le_oldest log) (le_newest log) = Inr log"
  by (cases log) (auto simp: ack_extent_def extent_valid_def extent_empty_def extent_holding_def split: if_splits)

interpretation subscribe_ack: body_codec subscribe_ack_encode subscribe_ack_decode subscribe_ack_fields
  "\<lambda>ack. extent_valid (sa_extent ack)" 4
proof
  fix ack :: subscribe_ack and dst :: bytes
  assume "length (map_bytes (subscribe_ack_fields ack)) \<le> length dst" and "length dst \<le> usize_max"
  then show "subscribe_ack_encode ack dst =
      (Inr (length (map_bytes (subscribe_ack_fields ack))), splice dst 0 (map_bytes (subscribe_ack_fields ack)))"
    unfolding subscribe_ack_encode_def
    by (intro encodes) (auto intro!: encode_rules simp: subscribe_ack_fields_def subscribe_defs body_simps)
next
  fix ack :: subscribe_ack and fs
  assume "extent_valid (sa_extent ack)" and "extends 4 INNER fs"
    and "length (map_bytes (subscribe_ack_fields ack @ fs)) \<le> usize_max"
  then show "subscribe_ack_decode (map_bytes (subscribe_ack_fields ack @ fs)) = Inr ack"
    unfolding subscribe_ack_decode_def ack_slots_complete_def using ack_extent_valid [of "sa_extent ack"]
    by (intro decodes)
      (simp add: subscribe_ack_fields_def ack_slots_field_def ack_slots_empty_def subscribe_defs | rule decode_rules)+
qed

section \<open>What a subscription delivers\<close>

text \<open>The positions a client wants: nothing that already exists, or everything from one on.\<close>

definition wanted :: "subscribe \<Rightarrow> log_extent \<Rightarrow> u64 \<Rightarrow> bool" where
  "wanted request log p \<longleftrightarrow>
     (case sub_replay request of LiveOnly \<Rightarrow> le_newest log < p | ReplayFrom at \<Rightarrow> at \<le> p)"

lemma next_le_iff:
  assumes "(x :: u64) \<noteq> - 1"
  shows "x + 1 \<le> p \<longleftrightarrow> x < p"
proof -
  have "unat x < 2 ^ 64 - 1"
    using assms unat_u64 [of x] by (auto simp: word_unat_eq_iff unsigned_minus_1_eq_mask mask_eq_exp_minus_1)
  then show ?thesis
    using unat_next [of x] by (simp add: word_le_nat_alt word_less_nat_alt Suc_le_eq)
qed

lemma answer_from:
  assumes "subscribe_answer request log = Inr ack" and "le_oldest log \<le> p"
  shows "sa_accepted ack \<le> p \<longleftrightarrow> wanted request log p"
  using assms next_le_iff [of "le_newest log" p]
  by (auto simp: subscribe_answer_def wanted_def split: replay.splits if_splits)

lemma answer_gap:
  assumes "extent_valid log" and "subscribe_valid request" and "subscribe_answer request log = Inr ack"
  shows "sa_gap ack \<longleftrightarrow> (\<exists>p. p \<noteq> 0 \<and> p < le_oldest log \<and> wanted request log p)"
proof (cases "sub_replay request")
  case LiveOnly
  have "le_oldest log \<le> le_newest log"
    using assms(1) by (auto simp: extent_valid_def extent_empty_def extent_holding_def split: if_splits)
  then show ?thesis
    using assms(3) LiveOnly by (auto simp: subscribe_answer_def wanted_def split: if_splits)
next
  case (ReplayFrom at)
  then show ?thesis
    using assms(2,3) by (auto simp: subscribe_answer_def subscribe_valid_def wanted_def intro: exI [of _ at])
qed

lemma answer_extent: "subscribe_answer request log = Inr ack \<Longrightarrow> sa_extent ack = log"
  by (auto simp: subscribe_answer_def split: replay.splits if_splits)

lemma mark_takes_all:
  assumes "sorted_wrt (\<lambda>a b. ev_seq a < ev_seq b) evs" and "\<forall>ev \<in> set evs. f \<le> ev_seq ev \<and> ev_seq ev \<noteq> - 1"
  shows "fst (taken mark_take evs (EventMark f)) = evs"
  using assms
proof (induction evs arbitrary: f)
  case (Cons ev evs)
  have ev: "f \<le> ev_seq ev" "ev_seq ev \<noteq> - 1"
    using Cons.prems(2) by simp_all
  then have "mark_take ev (EventMark f) = Some (EventMark (ev_seq ev + 1))"
    by (auto simp: mark_take_def mark_accept_def Let_def not_less)
  moreover have "fst (taken mark_take evs (EventMark (ev_seq ev + 1))) = evs"
    using Cons.prems ev by (intro Cons.IH) (auto simp: next_le_iff)
  ultimately show ?case
    by (simp add: case_prod_unfold)
qed simp

section \<open>Properties\<close>

text \<open>A subscription starts where it was asked to, and a client is told of a gap exactly when
  there is one: the answer is refused only to a live-only subscription of a log at the last
  position there is; otherwise every record the log holds or will ever hold lies at or past
  \<open>accepted_from_seq\<close> exactly when it was asked for, \<open>gap\<close> is set exactly when some position asked
  for has fallen off the ring, and the answer reads back at the client as it was given.\<close>

theorem subscribe_answer_exact:
  assumes "extent_valid log" and "subscribe_valid request"
  shows "case subscribe_answer request log of
      Inl e \<Rightarrow> e = Sub_LogAtTheCeiling \<and> sub_replay request = LiveOnly \<and> le_newest log = - 1
    | Inr ack \<Rightarrow>
        (\<forall>p. le_oldest log \<le> p \<longrightarrow> (sa_accepted ack \<le> p \<longleftrightarrow> wanted request log p)) \<and>
        (sa_gap ack \<longleftrightarrow> (\<exists>p. p \<noteq> 0 \<and> p < le_oldest log \<and> wanted request log p)) \<and>
        subscribe_ack_decode (map_bytes (subscribe_ack_fields ack)) = Inr ack"
proof (cases "subscribe_answer request log")
  case (Inl e)
  then show ?thesis
    by (auto simp: subscribe_answer_def split: replay.splits if_splits)
next
  case (Inr ack)
  have "length (map_bytes (subscribe_ack_fields ack)) \<le> 64"
    using width_bytes_le [of "width_of (sa_accepted ack)"] width_bytes_le [of "width_of (le_oldest (sa_extent ack))"]
      width_bytes_le [of "width_of (le_newest (sa_extent ack))"]
    by (simp add: map_bytes_eq subscribe_ack_fields_def)
  then have "subscribe_ack_decode (map_bytes (subscribe_ack_fields ack)) = Inr ack"
    using answer_extent [OF Inr] assms(1) by (intro subscribe_ack.decode_fields) (simp_all add: usize_max_def)
  then show ?thesis
    using Inr answer_from [OF Inr] answer_gap [OF assms Inr] by simp
qed

lemma subscribe_answer_exact_witness:
  "\<exists>ack. subscribe_answer \<lparr>sub_replay = ReplayFrom 3\<rparr> \<lparr>le_oldest = 5, le_newest = 9\<rparr> = Inr ack \<and>
    sa_gap ack \<and> sa_accepted ack \<le> 5 \<and> subscribe_ack_decode (map_bytes (subscribe_ack_fields ack)) = Inr ack"
proof -
  have "extent_valid \<lparr>le_oldest = 5, le_newest = 9\<rparr>" and "subscribe_valid \<lparr>sub_replay = ReplayFrom 3\<rparr>"
    by (simp_all add: extent_valid_def extent_holding_def subscribe_valid_def)
  from subscribe_answer_exact [OF this] show ?thesis
    by (auto simp: subscribe_answer_def wanted_def intro!: exI [of _ 3])
qed

text \<open>C35. A client receives the records it asked for, all of them and in order: when the controller
  sends the log's records from \<open>accepted_from_seq\<close> on and the client opens its mark there, the
  events it accepts are exactly those the subscription asked for.\<close>

theorem subscription_delivers_what_was_asked:
  assumes "subscribe_answer request log = Inr ack"
    and "sorted_wrt (\<lambda>a b. ev_seq a < ev_seq b) evs"
    and "\<forall>ev \<in> set evs. le_oldest log \<le> ev_seq ev \<and> ev_seq ev \<noteq> - 1"
  shows "fst (taken mark_take (filter (\<lambda>ev. sa_accepted ack \<le> ev_seq ev) evs) (accepting_from (sa_accepted ack))) =
    filter (\<lambda>ev. wanted request log (ev_seq ev)) evs"
proof -
  have "filter (\<lambda>ev. wanted request log (ev_seq ev)) evs = filter (\<lambda>ev. sa_accepted ack \<le> ev_seq ev) evs"
    using answer_from [OF assms(1)] assms(3) by (intro filter_cong) auto
  then show ?thesis
    unfolding accepting_from_def using assms(2,3)
    by (subst mark_takes_all) (auto intro: sorted_wrt_filter)
qed

lemma subscription_delivers_what_was_asked_witness:
  "let evs = map (\<lambda>s. \<lparr>ev_seq = s, ev_at = None, ev_kind = BOOT, ev_body = [0xA0]\<rparr>) [5, 6, 9] in
   fst (taken mark_take (filter (\<lambda>ev. 6 \<le> ev_seq ev) evs) (accepting_from 6)) = List.tl evs"
  using subscription_delivers_what_was_asked [of "\<lparr>sub_replay = ReplayFrom 6\<rparr>" "\<lparr>le_oldest = 5, le_newest = 9\<rparr>"
      "\<lparr>sa_accepted = 6, sa_extent = \<lparr>le_oldest = 5, le_newest = 9\<rparr>, sa_gap = False\<rparr>"
      "map (\<lambda>s. \<lparr>ev_seq = s, ev_at = None, ev_kind = BOOT, ev_body = [0xA0]\<rparr>) [5, 6, 9]"]
  by (simp add: subscribe_answer_def wanted_def)

end
