(* ===== verification/Drbg.thy ===== *)
theory Drbg
  imports Noise
begin

text \<open>
  \<open>crates/km43/src/drbg.rs\<close>: the controller's random bit generator. The storage is outside the
  crate (the trait \<open>DrbgStore\<close>), so it is an argument: two operations on a state of any type.
  Around the draw, the life of a controller: draws, draws whose future is dropped at each of its
  two waits, resets and restarts from what the store holds.
\<close>

definition DRBG_OUT :: bytes where "DRBG_OUT = map of_char ''km43/v1/drbg-out''"
definition DRBG_NEXT :: bytes where "DRBG_NEXT = map of_char ''km43/v1/drbg-next''"

datatype drbg = Drbg bytes

primrec drbg_state :: "drbg \<Rightarrow> bytes" where
  "drbg_state (Drbg state) = state"

definition from_stored :: "bytes \<Rightarrow> drbg" where
  "from_stored state = Drbg state"

datatype drbg_error = NotStored

record 's drbg_store =
  store_write :: "bytes \<Rightarrow> 's \<Rightarrow> bool \<times> 's"
  store_read :: "'s \<Rightarrow> bytes option \<times> 's"

definition keyed :: "crypto \<Rightarrow> bytes \<Rightarrow> bytes list \<Rightarrow> bytes" where
  "keyed C state parts = c_hmac C (take BLOCK_BYTES (state @ replicate BLOCK_BYTES 0)) (concat parts)"

definition draw_mixing ::
  "crypto \<Rightarrow> 's drbg_store \<Rightarrow> bytes \<Rightarrow> drbg \<Rightarrow> 's \<Rightarrow> (drbg_error + drbg \<times> bytes) \<times> 's" where
  "draw_mixing C St extra g s =
     (let next = keyed C (drbg_state g) [DRBG_NEXT, extra];
          out = keyed C (drbg_state g) [DRBG_OUT]
      in case store_write St next s of
           (False, s1) \<Rightarrow> (Inl NotStored, s1)
         | (True, s1) \<Rightarrow>
             (case store_read St s1 of
                (None, s2) \<Rightarrow> (Inl NotStored, s2)
              | (Some read_back, s2) \<Rightarrow>
                  if next \<noteq> read_back then (Inl NotStored, s2)
                  else (Inr (Drbg next, out), s2)))"

definition draw :: "crypto \<Rightarrow> 's drbg_store \<Rightarrow> drbg \<Rightarrow> 's \<Rightarrow> (drbg_error + drbg \<times> bytes) \<times> 's" where
  "draw C St = draw_mixing C St []"

section \<open>A controller's life\<close>

text \<open>
  What the trait asks of a store, and less: it keeps one value, a write leaves the old or the new
  one behind whatever it answers, and a read gives back no other.
\<close>

definition durable :: "'s drbg_store \<Rightarrow> ('s \<Rightarrow> bytes) \<Rightarrow> bool" where
  "durable St held \<longleftrightarrow>
     (\<forall>v s. held (snd (store_write St v s)) \<in> {held s, v}) \<and>
     (\<forall>s. held (snd (store_read St s)) = held s \<and> (\<forall>v. fst (store_read St s) = Some v \<longrightarrow> v = held s))"

text \<open>
  The generator in memory, if there is one; the store; the draws released so far.
\<close>

record 's controller =
  co_generator :: "drbg option"
  co_store :: 's
  co_released :: "bytes list"

inductive life_step :: "crypto \<Rightarrow> 's drbg_store \<Rightarrow> 's controller \<Rightarrow> 's controller \<Rightarrow> bool" for C St where
  released: "\<lbrakk>co_generator c = Some g; draw_mixing C St extra g (co_store c) = (Inr (g', out), s)\<rbrakk> \<Longrightarrow>
    life_step C St c \<lparr>co_generator = Some g', co_store = s, co_released = co_released c @ [out]\<rparr>"
| withheld: "\<lbrakk>co_generator c = Some g; draw_mixing C St extra g (co_store c) = (Inl e, s)\<rbrakk> \<Longrightarrow>
    life_step C St c (c\<lparr>co_generator := None, co_store := s\<rparr>)"
| dropped_in_read: "\<lbrakk>co_generator c = Some g; s = snd (store_write St (keyed C (drbg_state g) [DRBG_NEXT, extra]) (co_store c))\<rbrakk> \<Longrightarrow>
    life_step C St c (c\<lparr>co_generator := None, co_store := s\<rparr>)"
| reset: "life_step C St c (c\<lparr>co_generator := None\<rparr>)"
| restarted: "store_read St (co_store c) = (Some state, s) \<Longrightarrow>
    life_step C St c (c\<lparr>co_generator := Some (from_stored state), co_store := s\<rparr>)"

definition manufactured :: "'s \<Rightarrow> 's controller" where
  "manufactured s = \<lparr>co_generator = None, co_store = s, co_released = []\<rparr>"

text \<open>A run of the generator: each state the successor of the one before.\<close>

definition successive :: "crypto \<Rightarrow> bytes list \<Rightarrow> bool" where
  "successive C states \<longleftrightarrow>
     (\<forall>i. Suc i < length states \<longrightarrow> (\<exists>extra. states ! Suc i = keyed C (states ! i) [DRBG_NEXT, extra]))"

definition draw_of :: "crypto \<Rightarrow> bytes \<Rightarrow> bytes" where
  "draw_of C state = keyed C state [DRBG_OUT]"

text \<open>
  The store holds the last state of a run, every draw released came from an earlier state, each
  from its own, and the generator in memory, if there is one, is at the last.
\<close>

definition life_inv :: "crypto \<Rightarrow> ('s \<Rightarrow> bytes) \<Rightarrow> bytes \<Rightarrow> 's controller \<Rightarrow> bytes list \<Rightarrow> nat list \<Rightarrow> bool" where
  "life_inv C held seed c states idx \<longleftrightarrow>
     states \<noteq> [] \<and> states ! 0 = seed \<and> successive C states \<and> last states = held (co_store c) \<and>
     sorted_wrt (<) idx \<and> (\<forall>i \<in> set idx. Suc i < length states) \<and>
     co_released c = map (\<lambda>i. draw_of C (states ! i)) idx \<and>
     (\<forall>g. co_generator c = Some g \<longrightarrow> drbg_state g = last states)"

lemma successive_snoc:
  assumes "successive C states" and "states \<noteq> []"
  shows "successive C (states @ [keyed C (last states) [DRBG_NEXT, extra]])"
  unfolding successive_def
proof (intro allI impI)
  let ?t = "keyed C (last states) [DRBG_NEXT, extra]"
  fix i assume "Suc i < length (states @ [?t])"
  then consider "Suc i < length states" | "Suc i = length states"
    by fastforce
  then show "\<exists>extra'. (states @ [?t]) ! Suc i = keyed C ((states @ [?t]) ! i) [DRBG_NEXT, extra']"
  proof cases
    case 1
    then show ?thesis
      using assms(1) by (simp add: successive_def nth_append)
  next
    case 2
    then have "states ! i = last states"
      using assms(2) by (metis diff_Suc_1 last_conv_nth)
    then show ?thesis
      using 2 by (auto simp: nth_append)
  qed
qed

lemma life_inv_advance:
  assumes "life_inv C held seed c states idx" and "co_generator c = Some g"
    and "held s = keyed C (drbg_state g) [DRBG_NEXT, extra]"
  shows "life_inv C held seed (c\<lparr>co_generator := None, co_store := s\<rparr>) (states @ [held s]) idx"
  using assms successive_snoc [of C states extra]
  by (auto simp: life_inv_def nth_append intro!: nth_equalityI less_SucI)

text \<open>Whatever becomes of a write, the store is at the same place or one further.\<close>

lemma life_inv_written:
  assumes "durable St held" and "life_inv C held seed c states idx" and "co_generator c = Some g"
    and "held s = held (snd (store_write St (keyed C (drbg_state g) [DRBG_NEXT, extra]) (co_store c)))"
  shows "\<exists>states'. life_inv C held seed (c\<lparr>co_generator := None, co_store := s\<rparr>) states' idx"
proof -
  have "held s = held (co_store c) \<or> held s = keyed C (drbg_state g) [DRBG_NEXT, extra]"
    using assms(1,4) by (auto simp: durable_def)
  then show ?thesis
  proof
    assume "held s = held (co_store c)"
    then have "life_inv C held seed (c\<lparr>co_generator := None, co_store := s\<rparr>) states idx"
      using assms(2) by (simp add: life_inv_def)
    then show ?thesis ..
  qed (use life_inv_advance [OF assms(2,3)] in blast)
qed

lemma durable_read:
  assumes "durable St held" and "store_read St s = (r, s')"
  shows "held s' = held s" and "r = Some v \<Longrightarrow> v = held s"
proof -
  have "held (snd (store_read St s)) = held s" "fst (store_read St s) = Some v \<longrightarrow> v = held s"
    using assms(1) unfolding durable_def by blast+
  then show "held s' = held s" "r = Some v \<Longrightarrow> v = held s"
    using assms(2) by simp_all
qed

text \<open>A draw is released only over a store that holds its successor.\<close>

lemma draw_released:
  assumes "durable St held" and "draw_mixing C St extra g s = (Inr (g', out), s')"
  shows "g' = Drbg (held s')" and "held s' = keyed C (drbg_state g) [DRBG_NEXT, extra]" and "out = draw_of C (drbg_state g)"
proof -
  let ?t = "keyed C (drbg_state g) [DRBG_NEXT, extra]"
  obtain s1 where s1: "store_write St ?t s = (True, s1)" "store_read St s1 = (Some ?t, s')"
    and g': "g' = Drbg ?t" "out = draw_of C (drbg_state g)"
    using assms(2) by (auto simp: draw_mixing_def draw_of_def Let_def split: prod.splits bool.splits option.splits if_splits)
  show "g' = Drbg (held s')" "held s' = ?t" "out = draw_of C (drbg_state g)"
    using durable_read [OF assms(1) s1(2)] g' by simp_all
qed

lemma draw_withheld:
  assumes "durable St held" and "draw_mixing C St extra g s = (Inl e, s')"
  shows "held s' = held (snd (store_write St (keyed C (drbg_state g) [DRBG_NEXT, extra]) s))"
proof -
  obtain ok s1 where w: "store_write St (keyed C (drbg_state g) [DRBG_NEXT, extra]) s = (ok, s1)"
    by fastforce
  show ?thesis
    using assms(2) w durable_read(1) [OF assms(1), of s1]
    by (auto simp: draw_mixing_def Let_def split: bool.splits prod.splits option.splits if_splits)
qed

lemma life_inv_step:
  assumes "durable St held" and "life_step C St c c'" and "life_inv C held seed c states idx"
  shows "\<exists>states' idx'. life_inv C held seed c' states' idx'"
  using assms(2)
proof (cases rule: life_step.cases)
  case (released g extra g' out s)
  note d = draw_released [OF assms(1) released(3)]
  have inv: "life_inv C held seed (c\<lparr>co_generator := None, co_store := s\<rparr>) (states @ [held s]) idx"
    by (rule life_inv_advance [OF assms(3) released(2) d(2)])
  have last: "states \<noteq> []" "drbg_state g = states ! (length states - 1)"
    using assms(3) released(2) last_conv_nth [of states] by (simp_all add: life_inv_def)
  have "life_inv C held seed c' (states @ [held s]) (idx @ [length states - 1])"
    using inv last released(1) d assms(3) by (auto simp: life_inv_def sorted_wrt_append nth_append)
  then show ?thesis by blast
next
  case (withheld g extra e s)
  then show ?thesis
    using life_inv_written [OF assms(1,3) withheld(2) draw_withheld [OF assms(1) withheld(3)]] by blast
next
  case (dropped_in_read g s extra)
  then show ?thesis
    using life_inv_written [OF assms(1,3) dropped_in_read(2), of s extra] by auto
next
  case reset
  have "life_inv C held seed c' states idx"
    using assms(3) reset by (simp add: life_inv_def)
  then show ?thesis by blast
next
  case (restarted state s)
  then have "state = held (co_store c)" "held s = held (co_store c)"
    using durable_read [OF assms(1) restarted(2)] by simp_all
  then have "life_inv C held seed c' states idx"
    using assms(3) restarted(1) by (simp add: life_inv_def from_stored_def)
  then show ?thesis by blast
qed

lemma life_inv_reachable:
  assumes "durable St held" and "(life_step C St)\<^sup>*\<^sup>* (manufactured s) c"
  shows "\<exists>states idx. life_inv C held (held s) c states idx"
  using assms(2)
proof (induction rule: rtranclp_induct)
  case base
  have "life_inv C held (held s) (manufactured s) [held s] []"
    by (simp add: life_inv_def manufactured_def successive_def)
  then show ?case by blast
next
  case (step c c')
  then show ?case
    using life_inv_step [OF assms(1) step(2)] by blast
qed

section \<open>Properties\<close>

text \<open>C36. The generator never releases a draw it may have to make again: over any store that keeps
  one value and reads back no other, whatever writes it loses, however often a draw's future is
  dropped or the controller resets and restarts, the draws released come from strictly
  advancing positions of one run of successors, and the store is always past all of them.\<close>

theorem drbg_draws_move_forward:
  assumes "durable St held" and "(life_step C St)\<^sup>*\<^sup>* (manufactured s) c"
  shows "\<exists>states idx. states \<noteq> [] \<and> states ! 0 = held s \<and> last states = held (co_store c) \<and>
    (\<forall>i. Suc i < length states \<longrightarrow> (\<exists>extra. states ! Suc i = keyed C (states ! i) [DRBG_NEXT, extra])) \<and>
    sorted_wrt (<) idx \<and> (\<forall>i \<in> set idx. Suc i < length states) \<and>
    co_released c = map (\<lambda>i. keyed C (states ! i) [DRBG_OUT]) idx \<and>
    (\<forall>g. co_generator c = Some g \<longrightarrow> drbg_state g = last states)"
proof -
  obtain states idx where "life_inv C held (held s) c states idx"
    using life_inv_reachable [OF assms] by blast
  then show ?thesis
    unfolding life_inv_def successive_def draw_of_def by blast
qed

text \<open>The store of the tests: it keeps what it was given.\<close>

definition fram :: "bytes drbg_store" where
  "fram = \<lparr>store_write = \<lambda>v s. (True, v), store_read = \<lambda>s. (Some s, s)\<rparr>"

lemma fram_durable: "durable fram (\<lambda>s. s)"
  by (simp add: durable_def fram_def)

lemma drbg_draws_move_forward_witness:
  "\<exists>c :: bytes controller. (life_step example_crypto fram)\<^sup>*\<^sup>* (manufactured (replicate 32 7)) c \<and> co_released c \<noteq> [] \<and>
    (\<exists>states idx. states ! 0 = replicate 32 7 \<and> sorted_wrt (<) idx \<and> (\<forall>i \<in> set idx. Suc i < length states) \<and>
      co_released c = map (\<lambda>i. keyed example_crypto (states ! i) [DRBG_OUT]) idx)"
proof -
  let ?s = "replicate 32 7 :: bytes" and ?c = "manufactured (replicate 32 7) :: bytes controller"
  let ?t = "keyed example_crypto ?s [DRBG_NEXT, []]"
  let ?d = "\<lparr>co_generator = Some (Drbg ?t), co_store = ?t, co_released = [keyed example_crypto ?s [DRBG_OUT]]\<rparr>"
  have "life_step example_crypto fram ?c (?c\<lparr>co_generator := Some (from_stored ?s), co_store := ?s\<rparr>)"
    by (rule life_step.restarted) (simp add: fram_def manufactured_def)
  moreover have "life_step example_crypto fram (?c\<lparr>co_generator := Some (from_stored ?s), co_store := ?s\<rparr>) ?d"
    using life_step.released [of "?c\<lparr>co_generator := Some (from_stored ?s), co_store := ?s\<rparr>" "Drbg ?s" example_crypto fram "[]"]
    by (simp add: fram_def manufactured_def from_stored_def draw_mixing_def Let_def)
  ultimately have run: "(life_step example_crypto fram)\<^sup>*\<^sup>* ?c ?d"
    by (meson converse_rtranclp_into_rtranclp r_into_rtranclp)
  obtain states idx where "states ! 0 = replicate 32 7" "sorted_wrt (<) idx" "\<forall>i \<in> set idx. Suc i < length states"
    "co_released ?d = map (\<lambda>i. keyed example_crypto (states ! i) [DRBG_OUT]) idx"
    using drbg_draws_move_forward [OF fram_durable run] by blast
  then show ?thesis
    using run by (intro exI [of _ ?d] conjI exI [of _ states] exI [of _ idx]) auto
qed

end
