(* ===== verification/Registry_More.thy ===== *)
theory Registry_More
  imports Registry
begin

text \<open>
  The remaining closed enumerations of \<open>crates/km43/src/generated.rs\<close>, in its order: the outcomes,
  reasons and states the message bodies carry, the measurement vocabulary and the link's own.
  Each is an interpretation of \<open>registry_enum\<close>.
\<close>

subsection \<open>\<open>Concerns\<close>\<close>

datatype concerns_outcome =
    Cno_Ok | Cno_Superseded | Cno_OutOfRange

primrec concerns_outcome_num :: "concerns_outcome \<Rightarrow> u8" where
    "concerns_outcome_num Cno_Ok = 0x1"
  | "concerns_outcome_num Cno_Superseded = 0x2"
  | "concerns_outcome_num Cno_OutOfRange = 0x3"

definition concerns_outcome_arms :: "(u8 \<times> concerns_outcome) list" where [registry_simps]:
  "concerns_outcome_arms =
    [(0x1, Cno_Ok), (0x2, Cno_Superseded), (0x3, Cno_OutOfRange)]"

definition concerns_outcome_of :: "u8 \<Rightarrow> concerns_outcome option" where
  "concerns_outcome_of v = map_of concerns_outcome_arms v"

interpretation concerns_outcome: registry_enum concerns_outcome_of concerns_outcome_num
proof (rule registry_enumI [of _ concerns_outcome_arms])
  show "(concerns_outcome_num x, x) \<in> set concerns_outcome_arms" for x
    by (cases x) (simp_all add: concerns_outcome_arms_def)
qed (simp_all add: concerns_outcome_arms_def concerns_outcome_of_def fun_eq_iff)

subsection \<open>\<open>Firmware\<close>\<close>

datatype firmware_outcome =
    Fwo_Accepted | Fwo_BadOffset | Fwo_BadSignature | Fwo_WrongTarget | Fwo_TooLarge
  | Fwo_NoTransferInProgress | Fwo_NotOwner | Fwo_Unauthorised

primrec firmware_outcome_num :: "firmware_outcome \<Rightarrow> u8" where
    "firmware_outcome_num Fwo_Accepted = 0x1"
  | "firmware_outcome_num Fwo_BadOffset = 0x2"
  | "firmware_outcome_num Fwo_BadSignature = 0x3"
  | "firmware_outcome_num Fwo_WrongTarget = 0x4"
  | "firmware_outcome_num Fwo_TooLarge = 0x5"
  | "firmware_outcome_num Fwo_NoTransferInProgress = 0x6"
  | "firmware_outcome_num Fwo_NotOwner = 0x7"
  | "firmware_outcome_num Fwo_Unauthorised = 0x8"

definition firmware_outcome_arms :: "(u8 \<times> firmware_outcome) list" where [registry_simps]:
  "firmware_outcome_arms =
    [(0x1, Fwo_Accepted), (0x2, Fwo_BadOffset), (0x3, Fwo_BadSignature),
     (0x4, Fwo_WrongTarget), (0x5, Fwo_TooLarge), (0x6, Fwo_NoTransferInProgress),
     (0x7, Fwo_NotOwner), (0x8, Fwo_Unauthorised)]"

definition firmware_outcome_of :: "u8 \<Rightarrow> firmware_outcome option" where
  "firmware_outcome_of v = map_of firmware_outcome_arms v"

interpretation firmware_outcome: registry_enum firmware_outcome_of firmware_outcome_num
proof (rule registry_enumI [of _ firmware_outcome_arms])
  show "(firmware_outcome_num x, x) \<in> set firmware_outcome_arms" for x
    by (cases x) (simp_all add: firmware_outcome_arms_def)
qed (simp_all add: firmware_outcome_arms_def firmware_outcome_of_def fun_eq_iff)

subsection \<open>\<open>History\<close>\<close>

datatype history_outcome =
    Hio_Ok | Hio_Superseded | Hio_UnknownSignal | Hio_SeriesNotHistorable | Hio_NoHistory
  | Hio_OutOfRange

primrec history_outcome_num :: "history_outcome \<Rightarrow> u8" where
    "history_outcome_num Hio_Ok = 0x1"
  | "history_outcome_num Hio_Superseded = 0x2"
  | "history_outcome_num Hio_UnknownSignal = 0x3"
  | "history_outcome_num Hio_SeriesNotHistorable = 0x4"
  | "history_outcome_num Hio_NoHistory = 0x5"
  | "history_outcome_num Hio_OutOfRange = 0x6"

definition history_outcome_arms :: "(u8 \<times> history_outcome) list" where [registry_simps]:
  "history_outcome_arms =
    [(0x1, Hio_Ok), (0x2, Hio_Superseded), (0x3, Hio_UnknownSignal),
     (0x4, Hio_SeriesNotHistorable), (0x5, Hio_NoHistory), (0x6, Hio_OutOfRange)]"

definition history_outcome_of :: "u8 \<Rightarrow> history_outcome option" where
  "history_outcome_of v = map_of history_outcome_arms v"

interpretation history_outcome: registry_enum history_outcome_of history_outcome_num
proof (rule registry_enumI [of _ history_outcome_arms])
  show "(history_outcome_num x, x) \<in> set history_outcome_arms" for x
    by (cases x) (simp_all add: history_outcome_arms_def)
qed (simp_all add: history_outcome_arms_def history_outcome_of_def fun_eq_iff)

subsection \<open>\<open>Inventory\<close>\<close>

datatype inventory_outcome =
    Ivo_Ok | Ivo_Superseded | Ivo_UnknownKind | Ivo_OutOfRange

primrec inventory_outcome_num :: "inventory_outcome \<Rightarrow> u8" where
    "inventory_outcome_num Ivo_Ok = 0x1"
  | "inventory_outcome_num Ivo_Superseded = 0x2"
  | "inventory_outcome_num Ivo_UnknownKind = 0x3"
  | "inventory_outcome_num Ivo_OutOfRange = 0x4"

definition inventory_outcome_arms :: "(u8 \<times> inventory_outcome) list" where [registry_simps]:
  "inventory_outcome_arms =
    [(0x1, Ivo_Ok), (0x2, Ivo_Superseded), (0x3, Ivo_UnknownKind), (0x4, Ivo_OutOfRange)]"

definition inventory_outcome_of :: "u8 \<Rightarrow> inventory_outcome option" where
  "inventory_outcome_of v = map_of inventory_outcome_arms v"

interpretation inventory_outcome: registry_enum inventory_outcome_of inventory_outcome_num
proof (rule registry_enumI [of _ inventory_outcome_arms])
  show "(inventory_outcome_num x, x) \<in> set inventory_outcome_arms" for x
    by (cases x) (simp_all add: inventory_outcome_arms_def)
qed (simp_all add: inventory_outcome_arms_def inventory_outcome_of_def fun_eq_iff)

subsection \<open>\<open>Pair\<close>\<close>

datatype pair_outcome =
    Pao_Enrolled | Pao_WindowClosed | Pao_TableFull | Pao_Reclaimed | Pao_Proceed
  | Pao_NotStored

primrec pair_outcome_num :: "pair_outcome \<Rightarrow> u8" where
    "pair_outcome_num Pao_Enrolled = 0x1"
  | "pair_outcome_num Pao_WindowClosed = 0x2"
  | "pair_outcome_num Pao_TableFull = 0x4"
  | "pair_outcome_num Pao_Reclaimed = 0x5"
  | "pair_outcome_num Pao_Proceed = 0x6"
  | "pair_outcome_num Pao_NotStored = 0x7"

definition pair_outcome_arms :: "(u8 \<times> pair_outcome) list" where [registry_simps]:
  "pair_outcome_arms =
    [(0x1, Pao_Enrolled), (0x2, Pao_WindowClosed), (0x4, Pao_TableFull), (0x5, Pao_Reclaimed),
     (0x6, Pao_Proceed), (0x7, Pao_NotStored)]"

definition pair_outcome_of :: "u8 \<Rightarrow> pair_outcome option" where
  "pair_outcome_of v = map_of pair_outcome_arms v"

interpretation pair_outcome: registry_enum pair_outcome_of pair_outcome_num
proof (rule registry_enumI [of _ pair_outcome_arms])
  show "(pair_outcome_num x, x) \<in> set pair_outcome_arms" for x
    by (cases x) (simp_all add: pair_outcome_arms_def)
qed (simp_all add: pair_outcome_arms_def pair_outcome_of_def fun_eq_iff)

subsection \<open>\<open>Readings\<close>\<close>

datatype readings_outcome =
    Rdo_Ok | Rdo_Superseded | Rdo_UnknownSelector | Rdo_OutOfRange

primrec readings_outcome_num :: "readings_outcome \<Rightarrow> u8" where
    "readings_outcome_num Rdo_Ok = 0x1"
  | "readings_outcome_num Rdo_Superseded = 0x2"
  | "readings_outcome_num Rdo_UnknownSelector = 0x3"
  | "readings_outcome_num Rdo_OutOfRange = 0x4"

definition readings_outcome_arms :: "(u8 \<times> readings_outcome) list" where [registry_simps]:
  "readings_outcome_arms =
    [(0x1, Rdo_Ok), (0x2, Rdo_Superseded), (0x3, Rdo_UnknownSelector), (0x4, Rdo_OutOfRange)]"

definition readings_outcome_of :: "u8 \<Rightarrow> readings_outcome option" where
  "readings_outcome_of v = map_of readings_outcome_arms v"

interpretation readings_outcome: registry_enum readings_outcome_of readings_outcome_num
proof (rule registry_enumI [of _ readings_outcome_arms])
  show "(readings_outcome_num x, x) \<in> set readings_outcome_arms" for x
    by (cases x) (simp_all add: readings_outcome_arms_def)
qed (simp_all add: readings_outcome_arms_def readings_outcome_of_def fun_eq_iff)

subsection \<open>\<open>SetConfig\<close>\<close>

datatype set_config_outcome =
    Sco_Accepted | Sco_StaleVersion | Sco_Invalid | Sco_Unauthorised | Sco_ExceedsCap
  | Sco_Staged

primrec set_config_outcome_num :: "set_config_outcome \<Rightarrow> u8" where
    "set_config_outcome_num Sco_Accepted = 0x1"
  | "set_config_outcome_num Sco_StaleVersion = 0x2"
  | "set_config_outcome_num Sco_Invalid = 0x3"
  | "set_config_outcome_num Sco_Unauthorised = 0x4"
  | "set_config_outcome_num Sco_ExceedsCap = 0x5"
  | "set_config_outcome_num Sco_Staged = 0x9"

definition set_config_outcome_arms :: "(u8 \<times> set_config_outcome) list" where [registry_simps]:
  "set_config_outcome_arms =
    [(0x1, Sco_Accepted), (0x2, Sco_StaleVersion), (0x3, Sco_Invalid),
     (0x4, Sco_Unauthorised), (0x5, Sco_ExceedsCap), (0x9, Sco_Staged)]"

definition set_config_outcome_of :: "u8 \<Rightarrow> set_config_outcome option" where
  "set_config_outcome_of v = map_of set_config_outcome_arms v"

interpretation set_config_outcome: registry_enum set_config_outcome_of set_config_outcome_num
proof (rule registry_enumI [of _ set_config_outcome_arms])
  show "(set_config_outcome_num x, x) \<in> set set_config_outcome_arms" for x
    by (cases x) (simp_all add: set_config_outcome_arms_def)
qed (simp_all add: set_config_outcome_arms_def set_config_outcome_of_def fun_eq_iff)

subsection \<open>\<open>Bucket\<close>\<close>

datatype bucket =
    Bucket_Day | Bucket_Hour | Bucket_QuarterHour

primrec bucket_num :: "bucket \<Rightarrow> u8" where
    "bucket_num Bucket_Day = 0x1"
  | "bucket_num Bucket_Hour = 0x2"
  | "bucket_num Bucket_QuarterHour = 0x3"

definition bucket_arms :: "(u8 \<times> bucket) list" where [registry_simps]:
  "bucket_arms =
    [(0x1, Bucket_Day), (0x2, Bucket_Hour), (0x3, Bucket_QuarterHour)]"

definition bucket_of :: "u8 \<Rightarrow> bucket option" where
  "bucket_of v = map_of bucket_arms v"

interpretation bucket: registry_enum bucket_of bucket_num
proof (rule registry_enumI [of _ bucket_arms])
  show "(bucket_num x, x) \<in> set bucket_arms" for x
    by (cases x) (simp_all add: bucket_arms_def)
qed (simp_all add: bucket_arms_def bucket_of_def fun_eq_iff)

subsection \<open>\<open>ChargeStage\<close>\<close>

datatype charge_stage =
    ChargeStage_Off | ChargeStage_Bulk | ChargeStage_Absorption | ChargeStage_Float
  | ChargeStage_Equalise | ChargeStage_Storage | ChargeStage_Fault

primrec charge_stage_num :: "charge_stage \<Rightarrow> u8" where
    "charge_stage_num ChargeStage_Off = 0x1"
  | "charge_stage_num ChargeStage_Bulk = 0x2"
  | "charge_stage_num ChargeStage_Absorption = 0x3"
  | "charge_stage_num ChargeStage_Float = 0x4"
  | "charge_stage_num ChargeStage_Equalise = 0x5"
  | "charge_stage_num ChargeStage_Storage = 0x6"
  | "charge_stage_num ChargeStage_Fault = 0x7"

definition charge_stage_arms :: "(u8 \<times> charge_stage) list" where [registry_simps]:
  "charge_stage_arms =
    [(0x1, ChargeStage_Off), (0x2, ChargeStage_Bulk), (0x3, ChargeStage_Absorption),
     (0x4, ChargeStage_Float), (0x5, ChargeStage_Equalise), (0x6, ChargeStage_Storage),
     (0x7, ChargeStage_Fault)]"

definition charge_stage_of :: "u8 \<Rightarrow> charge_stage option" where
  "charge_stage_of v = map_of charge_stage_arms v"

interpretation charge_stage: registry_enum charge_stage_of charge_stage_num
proof (rule registry_enumI [of _ charge_stage_arms])
  show "(charge_stage_num x, x) \<in> set charge_stage_arms" for x
    by (cases x) (simp_all add: charge_stage_arms_def)
qed (simp_all add: charge_stage_arms_def charge_stage_of_def fun_eq_iff)

subsection \<open>\<open>ConcernState\<close>\<close>

datatype concern_state =
    ConcernState_Active | ConcernState_ActiveAcked | ConcernState_LatchedCleared
  | ConcernState_ClearingBlocked | ConcernState_Cleared

primrec concern_state_num :: "concern_state \<Rightarrow> u8" where
    "concern_state_num ConcernState_Active = 0x1"
  | "concern_state_num ConcernState_ActiveAcked = 0x2"
  | "concern_state_num ConcernState_LatchedCleared = 0x3"
  | "concern_state_num ConcernState_ClearingBlocked = 0x4"
  | "concern_state_num ConcernState_Cleared = 0x5"

definition concern_state_arms :: "(u8 \<times> concern_state) list" where [registry_simps]:
  "concern_state_arms =
    [(0x1, ConcernState_Active), (0x2, ConcernState_ActiveAcked),
     (0x3, ConcernState_LatchedCleared), (0x4, ConcernState_ClearingBlocked),
     (0x5, ConcernState_Cleared)]"

definition concern_state_of :: "u8 \<Rightarrow> concern_state option" where
  "concern_state_of v = map_of concern_state_arms v"

interpretation concern_state: registry_enum concern_state_of concern_state_num
proof (rule registry_enumI [of _ concern_state_arms])
  show "(concern_state_num x, x) \<in> set concern_state_arms" for x
    by (cases x) (simp_all add: concern_state_arms_def)
qed (simp_all add: concern_state_arms_def concern_state_of_def fun_eq_iff)

subsection \<open>\<open>ControlOwner\<close>\<close>

datatype control_owner =
    ControlOwner_LocalPanel | ControlOwner_ThisController | ControlOwner_Bms
  | ControlOwner_GxEss | ControlOwner_RemoteClient | ControlOwner_DeviceAutomation

primrec control_owner_num :: "control_owner \<Rightarrow> u8" where
    "control_owner_num ControlOwner_LocalPanel = 0x1"
  | "control_owner_num ControlOwner_ThisController = 0x2"
  | "control_owner_num ControlOwner_Bms = 0x3"
  | "control_owner_num ControlOwner_GxEss = 0x4"
  | "control_owner_num ControlOwner_RemoteClient = 0x5"
  | "control_owner_num ControlOwner_DeviceAutomation = 0x6"

definition control_owner_arms :: "(u8 \<times> control_owner) list" where [registry_simps]:
  "control_owner_arms =
    [(0x1, ControlOwner_LocalPanel), (0x2, ControlOwner_ThisController),
     (0x3, ControlOwner_Bms), (0x4, ControlOwner_GxEss), (0x5, ControlOwner_RemoteClient),
     (0x6, ControlOwner_DeviceAutomation)]"

definition control_owner_of :: "u8 \<Rightarrow> control_owner option" where
  "control_owner_of v = map_of control_owner_arms v"

interpretation control_owner: registry_enum control_owner_of control_owner_num
proof (rule registry_enumI [of _ control_owner_arms])
  show "(control_owner_num x, x) \<in> set control_owner_arms" for x
    by (cases x) (simp_all add: control_owner_arms_def)
qed (simp_all add: control_owner_arms_def control_owner_of_def fun_eq_iff)

subsection \<open>\<open>Direction\<close>\<close>

datatype signal_direction =
    Dir_PositiveIsIn | Dir_PositiveIsOut | Dir_MagnitudeOnly

primrec signal_direction_num :: "signal_direction \<Rightarrow> u8" where
    "signal_direction_num Dir_PositiveIsIn = 0x1"
  | "signal_direction_num Dir_PositiveIsOut = 0x2"
  | "signal_direction_num Dir_MagnitudeOnly = 0x3"

definition signal_direction_arms :: "(u8 \<times> signal_direction) list" where [registry_simps]:
  "signal_direction_arms =
    [(0x1, Dir_PositiveIsIn), (0x2, Dir_PositiveIsOut), (0x3, Dir_MagnitudeOnly)]"

definition signal_direction_of :: "u8 \<Rightarrow> signal_direction option" where
  "signal_direction_of v = map_of signal_direction_arms v"

interpretation signal_direction: registry_enum signal_direction_of signal_direction_num
proof (rule registry_enumI [of _ signal_direction_arms])
  show "(signal_direction_num x, x) \<in> set signal_direction_arms" for x
    by (cases x) (simp_all add: signal_direction_arms_def)
qed (simp_all add: signal_direction_arms_def signal_direction_of_def fun_eq_iff)

subsection \<open>\<open>GeneratorSelector\<close>\<close>

datatype generator_selector =
    GeneratorSelector_Auto | GeneratorSelector_Off | GeneratorSelector_Manual

primrec generator_selector_num :: "generator_selector \<Rightarrow> u8" where
    "generator_selector_num GeneratorSelector_Auto = 0x1"
  | "generator_selector_num GeneratorSelector_Off = 0x2"
  | "generator_selector_num GeneratorSelector_Manual = 0x3"

definition generator_selector_arms :: "(u8 \<times> generator_selector) list" where [registry_simps]:
  "generator_selector_arms =
    [(0x1, GeneratorSelector_Auto), (0x2, GeneratorSelector_Off),
     (0x3, GeneratorSelector_Manual)]"

definition generator_selector_of :: "u8 \<Rightarrow> generator_selector option" where
  "generator_selector_of v = map_of generator_selector_arms v"

interpretation generator_selector: registry_enum generator_selector_of generator_selector_num
proof (rule registry_enumI [of _ generator_selector_arms])
  show "(generator_selector_num x, x) \<in> set generator_selector_arms" for x
    by (cases x) (simp_all add: generator_selector_arms_def)
qed (simp_all add: generator_selector_arms_def generator_selector_of_def fun_eq_iff)

subsection \<open>\<open>GeneratorState\<close>\<close>

datatype generator_state =
    GeneratorState_Stopped | GeneratorState_Starting | GeneratorState_Running
  | GeneratorState_RunningNotOurs | GeneratorState_StopNotHonoured | GeneratorState_GaveUp

primrec generator_state_num :: "generator_state \<Rightarrow> u8" where
    "generator_state_num GeneratorState_Stopped = 0x1"
  | "generator_state_num GeneratorState_Starting = 0x2"
  | "generator_state_num GeneratorState_Running = 0x3"
  | "generator_state_num GeneratorState_RunningNotOurs = 0x4"
  | "generator_state_num GeneratorState_StopNotHonoured = 0x5"
  | "generator_state_num GeneratorState_GaveUp = 0x6"

definition generator_state_arms :: "(u8 \<times> generator_state) list" where [registry_simps]:
  "generator_state_arms =
    [(0x1, GeneratorState_Stopped), (0x2, GeneratorState_Starting),
     (0x3, GeneratorState_Running), (0x4, GeneratorState_RunningNotOurs),
     (0x5, GeneratorState_StopNotHonoured), (0x6, GeneratorState_GaveUp)]"

definition generator_state_of :: "u8 \<Rightarrow> generator_state option" where
  "generator_state_of v = map_of generator_state_arms v"

interpretation generator_state: registry_enum generator_state_of generator_state_num
proof (rule registry_enumI [of _ generator_state_arms])
  show "(generator_state_num x, x) \<in> set generator_state_arms" for x
    by (cases x) (simp_all add: generator_state_arms_def)
qed (simp_all add: generator_state_arms_def generator_state_of_def fun_eq_iff)

subsection \<open>\<open>HeldDownReason\<close>\<close>

datatype held_down_reason =
    HeldDownReason_NoDeviceId | HeldDownReason_RevisionsSpent

primrec held_down_reason_num :: "held_down_reason \<Rightarrow> u8" where
    "held_down_reason_num HeldDownReason_NoDeviceId = 0x0"
  | "held_down_reason_num HeldDownReason_RevisionsSpent = 0x1"

definition held_down_reason_arms :: "(u8 \<times> held_down_reason) list" where [registry_simps]:
  "held_down_reason_arms =
    [(0x0, HeldDownReason_NoDeviceId), (0x1, HeldDownReason_RevisionsSpent)]"

definition held_down_reason_of :: "u8 \<Rightarrow> held_down_reason option" where
  "held_down_reason_of v = map_of held_down_reason_arms v"

interpretation held_down_reason: registry_enum held_down_reason_of held_down_reason_num
proof (rule registry_enumI [of _ held_down_reason_arms])
  show "(held_down_reason_num x, x) \<in> set held_down_reason_arms" for x
    by (cases x) (simp_all add: held_down_reason_arms_def)
qed (simp_all add: held_down_reason_arms_def held_down_reason_of_def fun_eq_iff)

subsection \<open>\<open>HistorySource\<close>\<close>

datatype history_source =
    HistorySource_DeviceReported | HistorySource_ControllerDerived

primrec history_source_num :: "history_source \<Rightarrow> u8" where
    "history_source_num HistorySource_DeviceReported = 0x1"
  | "history_source_num HistorySource_ControllerDerived = 0x2"

definition history_source_arms :: "(u8 \<times> history_source) list" where [registry_simps]:
  "history_source_arms =
    [(0x1, HistorySource_DeviceReported), (0x2, HistorySource_ControllerDerived)]"

definition history_source_of :: "u8 \<Rightarrow> history_source option" where
  "history_source_of v = map_of history_source_arms v"

interpretation history_source: registry_enum history_source_of history_source_num
proof (rule registry_enumI [of _ history_source_arms])
  show "(history_source_num x, x) \<in> set history_source_arms" for x
    by (cases x) (simp_all add: history_source_arms_def)
qed (simp_all add: history_source_arms_def history_source_of_def fun_eq_iff)

subsection \<open>\<open>HistoryStopReason\<close>\<close>

datatype history_stop_reason =
    HistoryStopReason_DeviceReplaced | HistoryStopReason_ComponentReassigned
  | HistoryStopReason_GapInRecord | HistoryStopReason_EndOfRecord
  | HistoryStopReason_OlderThanStore | HistoryStopReason_PageFull

primrec history_stop_reason_num :: "history_stop_reason \<Rightarrow> u8" where
    "history_stop_reason_num HistoryStopReason_DeviceReplaced = 0x1"
  | "history_stop_reason_num HistoryStopReason_ComponentReassigned = 0x2"
  | "history_stop_reason_num HistoryStopReason_GapInRecord = 0x3"
  | "history_stop_reason_num HistoryStopReason_EndOfRecord = 0x4"
  | "history_stop_reason_num HistoryStopReason_OlderThanStore = 0x5"
  | "history_stop_reason_num HistoryStopReason_PageFull = 0x6"

definition history_stop_reason_arms :: "(u8 \<times> history_stop_reason) list" where [registry_simps]:
  "history_stop_reason_arms =
    [(0x1, HistoryStopReason_DeviceReplaced), (0x2, HistoryStopReason_ComponentReassigned),
     (0x3, HistoryStopReason_GapInRecord), (0x4, HistoryStopReason_EndOfRecord),
     (0x5, HistoryStopReason_OlderThanStore), (0x6, HistoryStopReason_PageFull)]"

definition history_stop_reason_of :: "u8 \<Rightarrow> history_stop_reason option" where
  "history_stop_reason_of v = map_of history_stop_reason_arms v"

interpretation history_stop_reason: registry_enum history_stop_reason_of history_stop_reason_num
proof (rule registry_enumI [of _ history_stop_reason_arms])
  show "(history_stop_reason_num x, x) \<in> set history_stop_reason_arms" for x
    by (cases x) (simp_all add: history_stop_reason_arms_def)
qed (simp_all add: history_stop_reason_arms_def history_stop_reason_of_def fun_eq_iff)

subsection \<open>\<open>InventoryKind\<close>\<close>

datatype inventory_kind =
    InventoryKind_Buses | InventoryKind_Devices | InventoryKind_Components
  | InventoryKind_Signals | InventoryKind_Parameters

primrec inventory_kind_num :: "inventory_kind \<Rightarrow> u8" where
    "inventory_kind_num InventoryKind_Buses = 0x1"
  | "inventory_kind_num InventoryKind_Devices = 0x2"
  | "inventory_kind_num InventoryKind_Components = 0x3"
  | "inventory_kind_num InventoryKind_Signals = 0x4"
  | "inventory_kind_num InventoryKind_Parameters = 0x5"

definition inventory_kind_arms :: "(u8 \<times> inventory_kind) list" where [registry_simps]:
  "inventory_kind_arms =
    [(0x1, InventoryKind_Buses), (0x2, InventoryKind_Devices),
     (0x3, InventoryKind_Components), (0x4, InventoryKind_Signals),
     (0x5, InventoryKind_Parameters)]"

definition inventory_kind_of :: "u8 \<Rightarrow> inventory_kind option" where
  "inventory_kind_of v = map_of inventory_kind_arms v"

interpretation inventory_kind: registry_enum inventory_kind_of inventory_kind_num
proof (rule registry_enumI [of _ inventory_kind_arms])
  show "(inventory_kind_num x, x) \<in> set inventory_kind_arms" for x
    by (cases x) (simp_all add: inventory_kind_arms_def)
qed (simp_all add: inventory_kind_arms_def inventory_kind_of_def fun_eq_iff)

subsection \<open>\<open>Parity\<close>\<close>

datatype parity =
    Parity_None | Parity_Even | Parity_Odd

primrec parity_num :: "parity \<Rightarrow> u8" where
    "parity_num Parity_None = 0x1"
  | "parity_num Parity_Even = 0x2"
  | "parity_num Parity_Odd = 0x3"

definition parity_arms :: "(u8 \<times> parity) list" where [registry_simps]:
  "parity_arms =
    [(0x1, Parity_None), (0x2, Parity_Even), (0x3, Parity_Odd)]"

definition parity_of :: "u8 \<Rightarrow> parity option" where
  "parity_of v = map_of parity_arms v"

interpretation parity: registry_enum parity_of parity_num
proof (rule registry_enumI [of _ parity_arms])
  show "(parity_num x, x) \<in> set parity_arms" for x
    by (cases x) (simp_all add: parity_arms_def)
qed (simp_all add: parity_arms_def parity_of_def fun_eq_iff)

subsection \<open>\<open>PylontechVersion\<close>\<close>

datatype pylontech_version =
    PylontechVersion_V12 | PylontechVersion_V13

primrec pylontech_version_num :: "pylontech_version \<Rightarrow> u8" where
    "pylontech_version_num PylontechVersion_V12 = 0x1"
  | "pylontech_version_num PylontechVersion_V13 = 0x2"

definition pylontech_version_arms :: "(u8 \<times> pylontech_version) list" where [registry_simps]:
  "pylontech_version_arms =
    [(0x1, PylontechVersion_V12), (0x2, PylontechVersion_V13)]"

definition pylontech_version_of :: "u8 \<Rightarrow> pylontech_version option" where
  "pylontech_version_of v = map_of pylontech_version_arms v"

interpretation pylontech_version: registry_enum pylontech_version_of pylontech_version_num
proof (rule registry_enumI [of _ pylontech_version_arms])
  show "(pylontech_version_num x, x) \<in> set pylontech_version_arms" for x
    by (cases x) (simp_all add: pylontech_version_arms_def)
qed (simp_all add: pylontech_version_arms_def pylontech_version_of_def fun_eq_iff)

subsection \<open>\<open>Quality\<close>\<close>

datatype quality =
    Quality_Measured | Quality_Counted | Quality_Estimated | Quality_Stale | Quality_Absent

primrec quality_num :: "quality \<Rightarrow> u8" where
    "quality_num Quality_Measured = 0x1"
  | "quality_num Quality_Counted = 0x2"
  | "quality_num Quality_Estimated = 0x3"
  | "quality_num Quality_Stale = 0x4"
  | "quality_num Quality_Absent = 0x5"

definition quality_arms :: "(u8 \<times> quality) list" where [registry_simps]:
  "quality_arms =
    [(0x1, Quality_Measured), (0x2, Quality_Counted), (0x3, Quality_Estimated),
     (0x4, Quality_Stale), (0x5, Quality_Absent)]"

definition quality_of :: "u8 \<Rightarrow> quality option" where
  "quality_of v = map_of quality_arms v"

interpretation quality: registry_enum quality_of quality_num
proof (rule registry_enumI [of _ quality_arms])
  show "(quality_num x, x) \<in> set quality_arms" for x
    by (cases x) (simp_all add: quality_arms_def)
qed (simp_all add: quality_arms_def quality_of_def fun_eq_iff)

subsection \<open>\<open>ScanRefusal\<close>\<close>

datatype scan_refusal =
    ScanRefusal_TooSoon | ScanRefusal_RadioOff | ScanRefusal_LinkDown
  | ScanRefusal_Unauthorised

primrec scan_refusal_num :: "scan_refusal \<Rightarrow> u8" where
    "scan_refusal_num ScanRefusal_TooSoon = 0x1"
  | "scan_refusal_num ScanRefusal_RadioOff = 0x2"
  | "scan_refusal_num ScanRefusal_LinkDown = 0x3"
  | "scan_refusal_num ScanRefusal_Unauthorised = 0x4"

definition scan_refusal_arms :: "(u8 \<times> scan_refusal) list" where [registry_simps]:
  "scan_refusal_arms =
    [(0x1, ScanRefusal_TooSoon), (0x2, ScanRefusal_RadioOff), (0x3, ScanRefusal_LinkDown),
     (0x4, ScanRefusal_Unauthorised)]"

definition scan_refusal_of :: "u8 \<Rightarrow> scan_refusal option" where
  "scan_refusal_of v = map_of scan_refusal_arms v"

interpretation scan_refusal: registry_enum scan_refusal_of scan_refusal_num
proof (rule registry_enumI [of _ scan_refusal_arms])
  show "(scan_refusal_num x, x) \<in> set scan_refusal_arms" for x
    by (cases x) (simp_all add: scan_refusal_arms_def)
qed (simp_all add: scan_refusal_arms_def scan_refusal_of_def fun_eq_iff)

subsection \<open>\<open>ScanState\<close>\<close>

datatype scan_state =
    ScanState_None | ScanState_Running | ScanState_Complete | ScanState_Failed

primrec scan_state_num :: "scan_state \<Rightarrow> u8" where
    "scan_state_num ScanState_None = 0x1"
  | "scan_state_num ScanState_Running = 0x2"
  | "scan_state_num ScanState_Complete = 0x3"
  | "scan_state_num ScanState_Failed = 0x4"

definition scan_state_arms :: "(u8 \<times> scan_state) list" where [registry_simps]:
  "scan_state_arms =
    [(0x1, ScanState_None), (0x2, ScanState_Running), (0x3, ScanState_Complete),
     (0x4, ScanState_Failed)]"

definition scan_state_of :: "u8 \<Rightarrow> scan_state option" where
  "scan_state_of v = map_of scan_state_arms v"

interpretation scan_state: registry_enum scan_state_of scan_state_num
proof (rule registry_enumI [of _ scan_state_arms])
  show "(scan_state_num x, x) \<in> set scan_state_arms" for x
    by (cases x) (simp_all add: scan_state_arms_def)
qed (simp_all add: scan_state_arms_def scan_state_of_def fun_eq_iff)

subsection \<open>\<open>Severity\<close>\<close>

datatype severity =
    Severity_Info | Severity_Warning | Severity_Fault | Severity_Protection

primrec severity_num :: "severity \<Rightarrow> u8" where
    "severity_num Severity_Info = 0x1"
  | "severity_num Severity_Warning = 0x2"
  | "severity_num Severity_Fault = 0x3"
  | "severity_num Severity_Protection = 0x4"

definition severity_arms :: "(u8 \<times> severity) list" where [registry_simps]:
  "severity_arms =
    [(0x1, Severity_Info), (0x2, Severity_Warning), (0x3, Severity_Fault),
     (0x4, Severity_Protection)]"

definition severity_of :: "u8 \<Rightarrow> severity option" where
  "severity_of v = map_of severity_arms v"

interpretation severity: registry_enum severity_of severity_num
proof (rule registry_enumI [of _ severity_arms])
  show "(severity_num x, x) \<in> set severity_arms" for x
    by (cases x) (simp_all add: severity_arms_def)
qed (simp_all add: severity_arms_def severity_of_def fun_eq_iff)

subsection \<open>\<open>Shape\<close>\<close>

datatype shape =
    Shape_Scalar | Shape_Series

primrec shape_num :: "shape \<Rightarrow> u8" where
    "shape_num Shape_Scalar = 0x1"
  | "shape_num Shape_Series = 0x2"

definition shape_arms :: "(u8 \<times> shape) list" where [registry_simps]:
  "shape_arms =
    [(0x1, Shape_Scalar), (0x2, Shape_Series)]"

definition shape_of :: "u8 \<Rightarrow> shape option" where
  "shape_of v = map_of shape_arms v"

interpretation shape: registry_enum shape_of shape_num
proof (rule registry_enumI [of _ shape_arms])
  show "(shape_num x, x) \<in> set shape_arms" for x
    by (cases x) (simp_all add: shape_arms_def)
qed (simp_all add: shape_arms_def shape_of_def fun_eq_iff)

subsection \<open>\<open>SignalDomain\<close>\<close>

datatype signal_domain =
    SignalDomain_Live | SignalDomain_Lifetime | SignalDomain_SinceReset
  | SignalDomain_Today | SignalDomain_Yesterday | SignalDomain_LimitUpper
  | SignalDomain_LimitLower | SignalDomain_Max | SignalDomain_Min

primrec signal_domain_num :: "signal_domain \<Rightarrow> u8" where
    "signal_domain_num SignalDomain_Live = 0x1"
  | "signal_domain_num SignalDomain_Lifetime = 0x2"
  | "signal_domain_num SignalDomain_SinceReset = 0x3"
  | "signal_domain_num SignalDomain_Today = 0x4"
  | "signal_domain_num SignalDomain_Yesterday = 0x5"
  | "signal_domain_num SignalDomain_LimitUpper = 0x6"
  | "signal_domain_num SignalDomain_LimitLower = 0x7"
  | "signal_domain_num SignalDomain_Max = 0x8"
  | "signal_domain_num SignalDomain_Min = 0x9"

definition signal_domain_arms :: "(u8 \<times> signal_domain) list" where [registry_simps]:
  "signal_domain_arms =
    [(0x1, SignalDomain_Live), (0x2, SignalDomain_Lifetime), (0x3, SignalDomain_SinceReset),
     (0x4, SignalDomain_Today), (0x5, SignalDomain_Yesterday), (0x6, SignalDomain_LimitUpper),
     (0x7, SignalDomain_LimitLower), (0x8, SignalDomain_Max), (0x9, SignalDomain_Min)]"

definition signal_domain_of :: "u8 \<Rightarrow> signal_domain option" where
  "signal_domain_of v = map_of signal_domain_arms v"

interpretation signal_domain: registry_enum signal_domain_of signal_domain_num
proof (rule registry_enumI [of _ signal_domain_arms])
  show "(signal_domain_num x, x) \<in> set signal_domain_arms" for x
    by (cases x) (simp_all add: signal_domain_arms_def)
qed (simp_all add: signal_domain_arms_def signal_domain_of_def fun_eq_iff)

subsection \<open>\<open>Transport\<close>\<close>

datatype transport =
    Transport_Rs485 | Transport_Can | Transport_VeDirect | Transport_LocalIo | Transport_Ip
  | Transport_Onewire | Transport_Internal

primrec transport_num :: "transport \<Rightarrow> u8" where
    "transport_num Transport_Rs485 = 0x1"
  | "transport_num Transport_Can = 0x2"
  | "transport_num Transport_VeDirect = 0x3"
  | "transport_num Transport_LocalIo = 0x4"
  | "transport_num Transport_Ip = 0x5"
  | "transport_num Transport_Onewire = 0x6"
  | "transport_num Transport_Internal = 0x7"

definition transport_arms :: "(u8 \<times> transport) list" where [registry_simps]:
  "transport_arms =
    [(0x1, Transport_Rs485), (0x2, Transport_Can), (0x3, Transport_VeDirect),
     (0x4, Transport_LocalIo), (0x5, Transport_Ip), (0x6, Transport_Onewire),
     (0x7, Transport_Internal)]"

definition transport_of :: "u8 \<Rightarrow> transport option" where
  "transport_of v = map_of transport_arms v"

interpretation transport: registry_enum transport_of transport_num
proof (rule registry_enumI [of _ transport_arms])
  show "(transport_num x, x) \<in> set transport_arms" for x
    by (cases x) (simp_all add: transport_arms_def)
qed (simp_all add: transport_arms_def transport_of_def fun_eq_iff)

subsection \<open>\<open>Unit\<close>\<close>

datatype measure_unit =
    Unit_Volt | Unit_Ampere | Unit_Watt | Unit_WattHour | Unit_AmpereHour
  | Unit_DegreeCelsius | Unit_Percent | Unit_Hertz | Unit_Second | Unit_Minute | Unit_Hour
  | Unit_Count | Unit_Ohm | Unit_Pascal | Unit_Litre | Unit_None

primrec measure_unit_num :: "measure_unit \<Rightarrow> u8" where
    "measure_unit_num Unit_Volt = 0x1"
  | "measure_unit_num Unit_Ampere = 0x2"
  | "measure_unit_num Unit_Watt = 0x3"
  | "measure_unit_num Unit_WattHour = 0x4"
  | "measure_unit_num Unit_AmpereHour = 0x5"
  | "measure_unit_num Unit_DegreeCelsius = 0x6"
  | "measure_unit_num Unit_Percent = 0x7"
  | "measure_unit_num Unit_Hertz = 0x8"
  | "measure_unit_num Unit_Second = 0x9"
  | "measure_unit_num Unit_Minute = 0xA"
  | "measure_unit_num Unit_Hour = 0xB"
  | "measure_unit_num Unit_Count = 0xC"
  | "measure_unit_num Unit_Ohm = 0xD"
  | "measure_unit_num Unit_Pascal = 0xE"
  | "measure_unit_num Unit_Litre = 0xF"
  | "measure_unit_num Unit_None = 0x10"

definition measure_unit_arms :: "(u8 \<times> measure_unit) list" where [registry_simps]:
  "measure_unit_arms =
    [(0x1, Unit_Volt), (0x2, Unit_Ampere), (0x3, Unit_Watt), (0x4, Unit_WattHour),
     (0x5, Unit_AmpereHour), (0x6, Unit_DegreeCelsius), (0x7, Unit_Percent),
     (0x8, Unit_Hertz), (0x9, Unit_Second), (0xA, Unit_Minute), (0xB, Unit_Hour),
     (0xC, Unit_Count), (0xD, Unit_Ohm), (0xE, Unit_Pascal), (0xF, Unit_Litre),
     (0x10, Unit_None)]"

definition measure_unit_of :: "u8 \<Rightarrow> measure_unit option" where
  "measure_unit_of v = map_of measure_unit_arms v"

interpretation measure_unit: registry_enum measure_unit_of measure_unit_num
proof (rule registry_enumI [of _ measure_unit_arms])
  show "(measure_unit_num x, x) \<in> set measure_unit_arms" for x
    by (cases x) (simp_all add: measure_unit_arms_def)
qed (simp_all add: measure_unit_arms_def measure_unit_of_def fun_eq_iff)

subsection \<open>\<open>Vtype\<close>\<close>

datatype vtype =
    Vtype_Gauge | Vtype_Counter | Vtype_Enum | Vtype_Flags

primrec vtype_num :: "vtype \<Rightarrow> u8" where
    "vtype_num Vtype_Gauge = 0x1"
  | "vtype_num Vtype_Counter = 0x2"
  | "vtype_num Vtype_Enum = 0x3"
  | "vtype_num Vtype_Flags = 0x4"

definition vtype_arms :: "(u8 \<times> vtype) list" where [registry_simps]:
  "vtype_arms =
    [(0x1, Vtype_Gauge), (0x2, Vtype_Counter), (0x3, Vtype_Enum), (0x4, Vtype_Flags)]"

definition vtype_of :: "u8 \<Rightarrow> vtype option" where
  "vtype_of v = map_of vtype_arms v"

interpretation vtype: registry_enum vtype_of vtype_num
proof (rule registry_enumI [of _ vtype_arms])
  show "(vtype_num x, x) \<in> set vtype_arms" for x
    by (cases x) (simp_all add: vtype_arms_def)
qed (simp_all add: vtype_arms_def vtype_of_def fun_eq_iff)

subsection \<open>\<open>WifiBand\<close>\<close>

datatype wifi_band =
    WifiBand_Ghz24 | WifiBand_Ghz5 | WifiBand_Ghz6

primrec wifi_band_num :: "wifi_band \<Rightarrow> u8" where
    "wifi_band_num WifiBand_Ghz24 = 0x1"
  | "wifi_band_num WifiBand_Ghz5 = 0x2"
  | "wifi_band_num WifiBand_Ghz6 = 0x3"

definition wifi_band_arms :: "(u8 \<times> wifi_band) list" where [registry_simps]:
  "wifi_band_arms =
    [(0x1, WifiBand_Ghz24), (0x2, WifiBand_Ghz5), (0x3, WifiBand_Ghz6)]"

definition wifi_band_of :: "u8 \<Rightarrow> wifi_band option" where
  "wifi_band_of v = map_of wifi_band_arms v"

interpretation wifi_band: registry_enum wifi_band_of wifi_band_num
proof (rule registry_enumI [of _ wifi_band_arms])
  show "(wifi_band_num x, x) \<in> set wifi_band_arms" for x
    by (cases x) (simp_all add: wifi_band_arms_def)
qed (simp_all add: wifi_band_arms_def wifi_band_of_def fun_eq_iff)

subsection \<open>\<open>WifiFailure\<close>\<close>

datatype wifi_failure =
    WifiFailure_AuthFailed | WifiFailure_NotFound | WifiFailure_NoIp | WifiFailure_Lost
  | WifiFailure_Other

primrec wifi_failure_num :: "wifi_failure \<Rightarrow> u8" where
    "wifi_failure_num WifiFailure_AuthFailed = 0x1"
  | "wifi_failure_num WifiFailure_NotFound = 0x2"
  | "wifi_failure_num WifiFailure_NoIp = 0x3"
  | "wifi_failure_num WifiFailure_Lost = 0x4"
  | "wifi_failure_num WifiFailure_Other = 0x5"

definition wifi_failure_arms :: "(u8 \<times> wifi_failure) list" where [registry_simps]:
  "wifi_failure_arms =
    [(0x1, WifiFailure_AuthFailed), (0x2, WifiFailure_NotFound), (0x3, WifiFailure_NoIp),
     (0x4, WifiFailure_Lost), (0x5, WifiFailure_Other)]"

definition wifi_failure_of :: "u8 \<Rightarrow> wifi_failure option" where
  "wifi_failure_of v = map_of wifi_failure_arms v"

interpretation wifi_failure: registry_enum wifi_failure_of wifi_failure_num
proof (rule registry_enumI [of _ wifi_failure_arms])
  show "(wifi_failure_num x, x) \<in> set wifi_failure_arms" for x
    by (cases x) (simp_all add: wifi_failure_arms_def)
qed (simp_all add: wifi_failure_arms_def wifi_failure_of_def fun_eq_iff)

subsection \<open>\<open>WifiSecurity\<close>\<close>

datatype wifi_security =
    WifiSecurity_Open | WifiSecurity_Wpa2Personal | WifiSecurity_Wpa3Personal
  | WifiSecurity_Other

primrec wifi_security_num :: "wifi_security \<Rightarrow> u8" where
    "wifi_security_num WifiSecurity_Open = 0x1"
  | "wifi_security_num WifiSecurity_Wpa2Personal = 0x2"
  | "wifi_security_num WifiSecurity_Wpa3Personal = 0x3"
  | "wifi_security_num WifiSecurity_Other = 0x4"

definition wifi_security_arms :: "(u8 \<times> wifi_security) list" where [registry_simps]:
  "wifi_security_arms =
    [(0x1, WifiSecurity_Open), (0x2, WifiSecurity_Wpa2Personal),
     (0x3, WifiSecurity_Wpa3Personal), (0x4, WifiSecurity_Other)]"

definition wifi_security_of :: "u8 \<Rightarrow> wifi_security option" where
  "wifi_security_of v = map_of wifi_security_arms v"

interpretation wifi_security: registry_enum wifi_security_of wifi_security_num
proof (rule registry_enumI [of _ wifi_security_arms])
  show "(wifi_security_num x, x) \<in> set wifi_security_arms" for x
    by (cases x) (simp_all add: wifi_security_arms_def)
qed (simp_all add: wifi_security_arms_def wifi_security_of_def fun_eq_iff)

subsection \<open>\<open>WifiState\<close>\<close>

datatype wifi_state =
    WifiState_Off | WifiState_Joining | WifiState_Joined | WifiState_Failed

primrec wifi_state_num :: "wifi_state \<Rightarrow> u8" where
    "wifi_state_num WifiState_Off = 0x1"
  | "wifi_state_num WifiState_Joining = 0x2"
  | "wifi_state_num WifiState_Joined = 0x3"
  | "wifi_state_num WifiState_Failed = 0x4"

definition wifi_state_arms :: "(u8 \<times> wifi_state) list" where [registry_simps]:
  "wifi_state_arms =
    [(0x1, WifiState_Off), (0x2, WifiState_Joining), (0x3, WifiState_Joined),
     (0x4, WifiState_Failed)]"

definition wifi_state_of :: "u8 \<Rightarrow> wifi_state option" where
  "wifi_state_of v = map_of wifi_state_arms v"

interpretation wifi_state: registry_enum wifi_state_of wifi_state_num
proof (rule registry_enumI [of _ wifi_state_arms])
  show "(wifi_state_num x, x) \<in> set wifi_state_arms" for x
    by (cases x) (simp_all add: wifi_state_arms_def)
qed (simp_all add: wifi_state_arms_def wifi_state_of_def fun_eq_iff)

subsection \<open>\<open>BehaviourKey\<close>\<close>

datatype behaviour_key =
    BehaviourKey_Shadow

primrec behaviour_key_num :: "behaviour_key \<Rightarrow> u16" where
    "behaviour_key_num BehaviourKey_Shadow = 0x1"

definition behaviour_key_arms :: "(u16 \<times> behaviour_key) list" where [registry_simps]:
  "behaviour_key_arms =
    [(0x1, BehaviourKey_Shadow)]"

definition behaviour_key_of :: "u16 \<Rightarrow> behaviour_key option" where
  "behaviour_key_of v = map_of behaviour_key_arms v"

interpretation behaviour_key: registry_enum behaviour_key_of behaviour_key_num
proof (rule registry_enumI [of _ behaviour_key_arms])
  show "(behaviour_key_num x, x) \<in> set behaviour_key_arms" for x
    by (cases x) (simp_all add: behaviour_key_arms_def)
qed (simp_all add: behaviour_key_arms_def behaviour_key_of_def fun_eq_iff)

subsection \<open>\<open>CapabilityBit\<close>\<close>

datatype capability_bit =
    CapabilityBit_EventLogReadable | CapabilityBit_ConfigurationWritable
  | CapabilityBit_CommandsAccepted | CapabilityBit_FirmwareUpdateAccepted
  | CapabilityBit_ClockSettableByClient | CapabilityBit_CountedStateOfChargeAvailable
  | CapabilityBit_ACMeteringOnTheGenerator | CapabilityBit_AnyBehaviourIsInShadowMode
  | CapabilityBit_WifiScanAndJoinStatus

primrec capability_bit_num :: "capability_bit \<Rightarrow> u16" where
    "capability_bit_num CapabilityBit_EventLogReadable = 0x0"
  | "capability_bit_num CapabilityBit_ConfigurationWritable = 0x1"
  | "capability_bit_num CapabilityBit_CommandsAccepted = 0x2"
  | "capability_bit_num CapabilityBit_FirmwareUpdateAccepted = 0x3"
  | "capability_bit_num CapabilityBit_ClockSettableByClient = 0x4"
  | "capability_bit_num CapabilityBit_CountedStateOfChargeAvailable = 0x5"
  | "capability_bit_num CapabilityBit_ACMeteringOnTheGenerator = 0x6"
  | "capability_bit_num CapabilityBit_AnyBehaviourIsInShadowMode = 0x7"
  | "capability_bit_num CapabilityBit_WifiScanAndJoinStatus = 0x8"

definition capability_bit_arms :: "(u16 \<times> capability_bit) list" where [registry_simps]:
  "capability_bit_arms =
    [(0x0, CapabilityBit_EventLogReadable), (0x1, CapabilityBit_ConfigurationWritable),
     (0x2, CapabilityBit_CommandsAccepted), (0x3, CapabilityBit_FirmwareUpdateAccepted),
     (0x4, CapabilityBit_ClockSettableByClient),
     (0x5, CapabilityBit_CountedStateOfChargeAvailable),
     (0x6, CapabilityBit_ACMeteringOnTheGenerator),
     (0x7, CapabilityBit_AnyBehaviourIsInShadowMode),
     (0x8, CapabilityBit_WifiScanAndJoinStatus)]"

definition capability_bit_of :: "u16 \<Rightarrow> capability_bit option" where
  "capability_bit_of v = map_of capability_bit_arms v"

interpretation capability_bit: registry_enum capability_bit_of capability_bit_num
proof (rule registry_enumI [of _ capability_bit_arms])
  show "(capability_bit_num x, x) \<in> set capability_bit_arms" for x
    by (cases x) (simp_all add: capability_bit_arms_def)
qed (simp_all add: capability_bit_arms_def capability_bit_of_def fun_eq_iff)

subsection \<open>\<open>DeviceOption\<close>\<close>

datatype device_option =
    DeviceOption_CurrentDirection | DeviceOption_PylontechVersion
  | DeviceOption_VeDirect3v3 | DeviceOption_PollPeriod

primrec device_option_num :: "device_option \<Rightarrow> u16" where
    "device_option_num DeviceOption_CurrentDirection = 0x1"
  | "device_option_num DeviceOption_PylontechVersion = 0x2"
  | "device_option_num DeviceOption_VeDirect3v3 = 0x3"
  | "device_option_num DeviceOption_PollPeriod = 0x4"

definition device_option_arms :: "(u16 \<times> device_option) list" where [registry_simps]:
  "device_option_arms =
    [(0x1, DeviceOption_CurrentDirection), (0x2, DeviceOption_PylontechVersion),
     (0x3, DeviceOption_VeDirect3v3), (0x4, DeviceOption_PollPeriod)]"

definition device_option_of :: "u16 \<Rightarrow> device_option option" where
  "device_option_of v = map_of device_option_arms v"

interpretation device_option: registry_enum device_option_of device_option_num
proof (rule registry_enumI [of _ device_option_arms])
  show "(device_option_num x, x) \<in> set device_option_arms" for x
    by (cases x) (simp_all add: device_option_arms_def)
qed (simp_all add: device_option_arms_def device_option_of_def fun_eq_iff)

subsection \<open>\<open>ClientConnected\<close>\<close>

datatype client_connected_outcome =
    Cco_Accepted | Cco_RefusedTableFull | Cco_RefusedHandleInUse | Cco_RefusedLinkNotUp

primrec client_connected_outcome_num :: "client_connected_outcome \<Rightarrow> u8" where
    "client_connected_outcome_num Cco_Accepted = 0x1"
  | "client_connected_outcome_num Cco_RefusedTableFull = 0x2"
  | "client_connected_outcome_num Cco_RefusedHandleInUse = 0x3"
  | "client_connected_outcome_num Cco_RefusedLinkNotUp = 0x4"

definition client_connected_outcome_arms :: "(u8 \<times> client_connected_outcome) list" where [registry_simps]:
  "client_connected_outcome_arms =
    [(0x1, Cco_Accepted), (0x2, Cco_RefusedTableFull), (0x3, Cco_RefusedHandleInUse),
     (0x4, Cco_RefusedLinkNotUp)]"

definition client_connected_outcome_of :: "u8 \<Rightarrow> client_connected_outcome option" where
  "client_connected_outcome_of v = map_of client_connected_outcome_arms v"

interpretation client_connected_outcome: registry_enum client_connected_outcome_of client_connected_outcome_num
proof (rule registry_enumI [of _ client_connected_outcome_arms])
  show "(client_connected_outcome_num x, x) \<in> set client_connected_outcome_arms" for x
    by (cases x) (simp_all add: client_connected_outcome_arms_def)
qed (simp_all add: client_connected_outcome_arms_def client_connected_outcome_of_def fun_eq_iff)

subsection \<open>\<open>ClientDisconnected\<close>\<close>

datatype client_disconnected_outcome =
    Cdo_Released | Cdo_UnknownHandle

primrec client_disconnected_outcome_num :: "client_disconnected_outcome \<Rightarrow> u8" where
    "client_disconnected_outcome_num Cdo_Released = 0x1"
  | "client_disconnected_outcome_num Cdo_UnknownHandle = 0x2"

definition client_disconnected_outcome_arms :: "(u8 \<times> client_disconnected_outcome) list" where [registry_simps]:
  "client_disconnected_outcome_arms =
    [(0x1, Cdo_Released), (0x2, Cdo_UnknownHandle)]"

definition client_disconnected_outcome_of :: "u8 \<Rightarrow> client_disconnected_outcome option" where
  "client_disconnected_outcome_of v = map_of client_disconnected_outcome_arms v"

interpretation client_disconnected_outcome: registry_enum client_disconnected_outcome_of client_disconnected_outcome_num
proof (rule registry_enumI [of _ client_disconnected_outcome_arms])
  show "(client_disconnected_outcome_num x, x) \<in> set client_disconnected_outcome_arms" for x
    by (cases x) (simp_all add: client_disconnected_outcome_arms_def)
qed (simp_all add: client_disconnected_outcome_arms_def client_disconnected_outcome_of_def fun_eq_iff)

subsection \<open>\<open>CloseConnection\<close>\<close>

datatype close_connection_outcome =
    Clo_Closed | Clo_UnknownHandle

primrec close_connection_outcome_num :: "close_connection_outcome \<Rightarrow> u8" where
    "close_connection_outcome_num Clo_Closed = 0x1"
  | "close_connection_outcome_num Clo_UnknownHandle = 0x2"

definition close_connection_outcome_arms :: "(u8 \<times> close_connection_outcome) list" where [registry_simps]:
  "close_connection_outcome_arms =
    [(0x1, Clo_Closed), (0x2, Clo_UnknownHandle)]"

definition close_connection_outcome_of :: "u8 \<Rightarrow> close_connection_outcome option" where
  "close_connection_outcome_of v = map_of close_connection_outcome_arms v"

interpretation close_connection_outcome: registry_enum close_connection_outcome_of close_connection_outcome_num
proof (rule registry_enumI [of _ close_connection_outcome_arms])
  show "(close_connection_outcome_num x, x) \<in> set close_connection_outcome_arms" for x
    by (cases x) (simp_all add: close_connection_outcome_arms_def)
qed (simp_all add: close_connection_outcome_arms_def close_connection_outcome_of_def fun_eq_iff)

subsection \<open>\<open>CommsRelease\<close>\<close>

datatype comms_release_outcome =
    Cro_Authorised | Cro_Installed | Cro_Activated | Cro_RefusedDigestMismatch
  | Cro_RefusedSignature | Cro_RefusedNoSpace | Cro_RolledBack

primrec comms_release_outcome_num :: "comms_release_outcome \<Rightarrow> u8" where
    "comms_release_outcome_num Cro_Authorised = 0x1"
  | "comms_release_outcome_num Cro_Installed = 0x2"
  | "comms_release_outcome_num Cro_Activated = 0x3"
  | "comms_release_outcome_num Cro_RefusedDigestMismatch = 0x4"
  | "comms_release_outcome_num Cro_RefusedSignature = 0x5"
  | "comms_release_outcome_num Cro_RefusedNoSpace = 0x6"
  | "comms_release_outcome_num Cro_RolledBack = 0x7"

definition comms_release_outcome_arms :: "(u8 \<times> comms_release_outcome) list" where [registry_simps]:
  "comms_release_outcome_arms =
    [(0x1, Cro_Authorised), (0x2, Cro_Installed), (0x3, Cro_Activated),
     (0x4, Cro_RefusedDigestMismatch), (0x5, Cro_RefusedSignature), (0x6, Cro_RefusedNoSpace),
     (0x7, Cro_RolledBack)]"

definition comms_release_outcome_of :: "u8 \<Rightarrow> comms_release_outcome option" where
  "comms_release_outcome_of v = map_of comms_release_outcome_arms v"

interpretation comms_release_outcome: registry_enum comms_release_outcome_of comms_release_outcome_num
proof (rule registry_enumI [of _ comms_release_outcome_arms])
  show "(comms_release_outcome_num x, x) \<in> set comms_release_outcome_arms" for x
    by (cases x) (simp_all add: comms_release_outcome_arms_def)
qed (simp_all add: comms_release_outcome_arms_def comms_release_outcome_of_def fun_eq_iff)

subsection \<open>\<open>EnterDownload\<close>\<close>

datatype enter_download_outcome =
    Edo_Entering | Edo_RefusedOutsideWindow

primrec enter_download_outcome_num :: "enter_download_outcome \<Rightarrow> u8" where
    "enter_download_outcome_num Edo_Entering = 0x1"
  | "enter_download_outcome_num Edo_RefusedOutsideWindow = 0x2"

definition enter_download_outcome_arms :: "(u8 \<times> enter_download_outcome) list" where [registry_simps]:
  "enter_download_outcome_arms =
    [(0x1, Edo_Entering), (0x2, Edo_RefusedOutsideWindow)]"

definition enter_download_outcome_of :: "u8 \<Rightarrow> enter_download_outcome option" where
  "enter_download_outcome_of v = map_of enter_download_outcome_arms v"

interpretation enter_download_outcome: registry_enum enter_download_outcome_of enter_download_outcome_num
proof (rule registry_enumI [of _ enter_download_outcome_arms])
  show "(enter_download_outcome_num x, x) \<in> set enter_download_outcome_arms" for x
    by (cases x) (simp_all add: enter_download_outcome_arms_def)
qed (simp_all add: enter_download_outcome_arms_def enter_download_outcome_of_def fun_eq_iff)

subsection \<open>\<open>NetConfig\<close>\<close>

datatype net_config_outcome =
    Nco_Stored | Nco_RejectedInvalid | Nco_NvsWriteFailed

primrec net_config_outcome_num :: "net_config_outcome \<Rightarrow> u8" where
    "net_config_outcome_num Nco_Stored = 0x1"
  | "net_config_outcome_num Nco_RejectedInvalid = 0x2"
  | "net_config_outcome_num Nco_NvsWriteFailed = 0x3"

definition net_config_outcome_arms :: "(u8 \<times> net_config_outcome) list" where [registry_simps]:
  "net_config_outcome_arms =
    [(0x1, Nco_Stored), (0x2, Nco_RejectedInvalid), (0x3, Nco_NvsWriteFailed)]"

definition net_config_outcome_of :: "u8 \<Rightarrow> net_config_outcome option" where
  "net_config_outcome_of v = map_of net_config_outcome_arms v"

interpretation net_config_outcome: registry_enum net_config_outcome_of net_config_outcome_num
proof (rule registry_enumI [of _ net_config_outcome_arms])
  show "(net_config_outcome_num x, x) \<in> set net_config_outcome_arms" for x
    by (cases x) (simp_all add: net_config_outcome_arms_def)
qed (simp_all add: net_config_outcome_arms_def net_config_outcome_of_def fun_eq_iff)

subsection \<open>\<open>TimeOffer\<close>\<close>

datatype time_offer_outcome =
    Tof_Accepted | Tof_RefusedImplausible | Tof_RefusedStepTooLarge | Tof_RefusedRateLimited

primrec time_offer_outcome_num :: "time_offer_outcome \<Rightarrow> u8" where
    "time_offer_outcome_num Tof_Accepted = 0x1"
  | "time_offer_outcome_num Tof_RefusedImplausible = 0x2"
  | "time_offer_outcome_num Tof_RefusedStepTooLarge = 0x4"
  | "time_offer_outcome_num Tof_RefusedRateLimited = 0x5"

definition time_offer_outcome_arms :: "(u8 \<times> time_offer_outcome) list" where [registry_simps]:
  "time_offer_outcome_arms =
    [(0x1, Tof_Accepted), (0x2, Tof_RefusedImplausible), (0x4, Tof_RefusedStepTooLarge),
     (0x5, Tof_RefusedRateLimited)]"

definition time_offer_outcome_of :: "u8 \<Rightarrow> time_offer_outcome option" where
  "time_offer_outcome_of v = map_of time_offer_outcome_arms v"

interpretation time_offer_outcome: registry_enum time_offer_outcome_of time_offer_outcome_num
proof (rule registry_enumI [of _ time_offer_outcome_arms])
  show "(time_offer_outcome_num x, x) \<in> set time_offer_outcome_arms" for x
    by (cases x) (simp_all add: time_offer_outcome_arms_def)
qed (simp_all add: time_offer_outcome_arms_def time_offer_outcome_of_def fun_eq_iff)

subsection \<open>\<open>WifiScan\<close>\<close>

datatype wifi_scan_outcome =
    Wso_Started | Wso_RefusedBusy | Wso_RefusedRadioOff

primrec wifi_scan_outcome_num :: "wifi_scan_outcome \<Rightarrow> u8" where
    "wifi_scan_outcome_num Wso_Started = 0x1"
  | "wifi_scan_outcome_num Wso_RefusedBusy = 0x2"
  | "wifi_scan_outcome_num Wso_RefusedRadioOff = 0x3"

definition wifi_scan_outcome_arms :: "(u8 \<times> wifi_scan_outcome) list" where [registry_simps]:
  "wifi_scan_outcome_arms =
    [(0x1, Wso_Started), (0x2, Wso_RefusedBusy), (0x3, Wso_RefusedRadioOff)]"

definition wifi_scan_outcome_of :: "u8 \<Rightarrow> wifi_scan_outcome option" where
  "wifi_scan_outcome_of v = map_of wifi_scan_outcome_arms v"

interpretation wifi_scan_outcome: registry_enum wifi_scan_outcome_of wifi_scan_outcome_num
proof (rule registry_enumI [of _ wifi_scan_outcome_arms])
  show "(wifi_scan_outcome_num x, x) \<in> set wifi_scan_outcome_arms" for x
    by (cases x) (simp_all add: wifi_scan_outcome_arms_def)
qed (simp_all add: wifi_scan_outcome_arms_def wifi_scan_outcome_of_def fun_eq_iff)

subsection \<open>\<open>WifiScanResult\<close>\<close>

datatype wifi_scan_result_outcome =
    Wro_Complete | Wro_Failed

primrec wifi_scan_result_outcome_num :: "wifi_scan_result_outcome \<Rightarrow> u8" where
    "wifi_scan_result_outcome_num Wro_Complete = 0x1"
  | "wifi_scan_result_outcome_num Wro_Failed = 0x2"

definition wifi_scan_result_outcome_arms :: "(u8 \<times> wifi_scan_result_outcome) list" where [registry_simps]:
  "wifi_scan_result_outcome_arms =
    [(0x1, Wro_Complete), (0x2, Wro_Failed)]"

definition wifi_scan_result_outcome_of :: "u8 \<Rightarrow> wifi_scan_result_outcome option" where
  "wifi_scan_result_outcome_of v = map_of wifi_scan_result_outcome_arms v"

interpretation wifi_scan_result_outcome: registry_enum wifi_scan_result_outcome_of wifi_scan_result_outcome_num
proof (rule registry_enumI [of _ wifi_scan_result_outcome_arms])
  show "(wifi_scan_result_outcome_num x, x) \<in> set wifi_scan_result_outcome_arms" for x
    by (cases x) (simp_all add: wifi_scan_result_outcome_arms_def)
qed (simp_all add: wifi_scan_result_outcome_arms_def wifi_scan_result_outcome_of_def fun_eq_iff)

subsection \<open>\<open>CloseReason\<close>\<close>

datatype close_reason =
    CloseReason_SessionExpired | CloseReason_Shedding | CloseReason_AuthenticationFailures
  | CloseReason_Resync

primrec close_reason_num :: "close_reason \<Rightarrow> u8" where
    "close_reason_num CloseReason_SessionExpired = 0x1"
  | "close_reason_num CloseReason_Shedding = 0x2"
  | "close_reason_num CloseReason_AuthenticationFailures = 0x3"
  | "close_reason_num CloseReason_Resync = 0x4"

definition close_reason_arms :: "(u8 \<times> close_reason) list" where [registry_simps]:
  "close_reason_arms =
    [(0x1, CloseReason_SessionExpired), (0x2, CloseReason_Shedding),
     (0x3, CloseReason_AuthenticationFailures), (0x4, CloseReason_Resync)]"

definition close_reason_of :: "u8 \<Rightarrow> close_reason option" where
  "close_reason_of v = map_of close_reason_arms v"

interpretation close_reason: registry_enum close_reason_of close_reason_num
proof (rule registry_enumI [of _ close_reason_arms])
  show "(close_reason_num x, x) \<in> set close_reason_arms" for x
    by (cases x) (simp_all add: close_reason_arms_def)
qed (simp_all add: close_reason_arms_def close_reason_of_def fun_eq_iff)

subsection \<open>\<open>CommsReleaseOp\<close>\<close>

datatype comms_release_op =
    CommsReleaseOp_Authorise | CommsReleaseOp_Activate | CommsReleaseOp_Revoke
  | CommsReleaseOp_ConfirmHealthy

primrec comms_release_op_num :: "comms_release_op \<Rightarrow> u8" where
    "comms_release_op_num CommsReleaseOp_Authorise = 0x1"
  | "comms_release_op_num CommsReleaseOp_Activate = 0x2"
  | "comms_release_op_num CommsReleaseOp_Revoke = 0x3"
  | "comms_release_op_num CommsReleaseOp_ConfirmHealthy = 0x4"

definition comms_release_op_arms :: "(u8 \<times> comms_release_op) list" where [registry_simps]:
  "comms_release_op_arms =
    [(0x1, CommsReleaseOp_Authorise), (0x2, CommsReleaseOp_Activate),
     (0x3, CommsReleaseOp_Revoke), (0x4, CommsReleaseOp_ConfirmHealthy)]"

definition comms_release_op_of :: "u8 \<Rightarrow> comms_release_op option" where
  "comms_release_op_of v = map_of comms_release_op_arms v"

interpretation comms_release_op: registry_enum comms_release_op_of comms_release_op_num
proof (rule registry_enumI [of _ comms_release_op_arms])
  show "(comms_release_op_num x, x) \<in> set comms_release_op_arms" for x
    by (cases x) (simp_all add: comms_release_op_arms_def)
qed (simp_all add: comms_release_op_arms_def comms_release_op_of_def fun_eq_iff)

subsection \<open>\<open>DisconnectReason\<close>\<close>

datatype disconnect_reason =
    DisconnectReason_ClosedByClient | DisconnectReason_TransportError
  | DisconnectReason_IdleTimeout | DisconnectReason_ClosedByComms

primrec disconnect_reason_num :: "disconnect_reason \<Rightarrow> u8" where
    "disconnect_reason_num DisconnectReason_ClosedByClient = 0x1"
  | "disconnect_reason_num DisconnectReason_TransportError = 0x2"
  | "disconnect_reason_num DisconnectReason_IdleTimeout = 0x3"
  | "disconnect_reason_num DisconnectReason_ClosedByComms = 0x4"

definition disconnect_reason_arms :: "(u8 \<times> disconnect_reason) list" where [registry_simps]:
  "disconnect_reason_arms =
    [(0x1, DisconnectReason_ClosedByClient), (0x2, DisconnectReason_TransportError),
     (0x3, DisconnectReason_IdleTimeout), (0x4, DisconnectReason_ClosedByComms)]"

definition disconnect_reason_of :: "u8 \<Rightarrow> disconnect_reason option" where
  "disconnect_reason_of v = map_of disconnect_reason_arms v"

interpretation disconnect_reason: registry_enum disconnect_reason_of disconnect_reason_num
proof (rule registry_enumI [of _ disconnect_reason_arms])
  show "(disconnect_reason_num x, x) \<in> set disconnect_reason_arms" for x
    by (cases x) (simp_all add: disconnect_reason_arms_def)
qed (simp_all add: disconnect_reason_arms_def disconnect_reason_of_def fun_eq_iff)

subsection \<open>\<open>DownloadReason\<close>\<close>

datatype download_reason =
    DownloadReason_Bench | DownloadReason_Recovery

primrec download_reason_num :: "download_reason \<Rightarrow> u8" where
    "download_reason_num DownloadReason_Bench = 0x1"
  | "download_reason_num DownloadReason_Recovery = 0x2"

definition download_reason_arms :: "(u8 \<times> download_reason) list" where [registry_simps]:
  "download_reason_arms =
    [(0x1, DownloadReason_Bench), (0x2, DownloadReason_Recovery)]"

definition download_reason_of :: "u8 \<Rightarrow> download_reason option" where
  "download_reason_of v = map_of download_reason_arms v"

interpretation download_reason: registry_enum download_reason_of download_reason_num
proof (rule registry_enumI [of _ download_reason_arms])
  show "(download_reason_num x, x) \<in> set download_reason_arms" for x
    by (cases x) (simp_all add: download_reason_arms_def)
qed (simp_all add: download_reason_arms_def download_reason_of_def fun_eq_iff)

subsection \<open>\<open>LinkTransport\<close>\<close>

datatype link_transport =
    LinkTransport_Ble | LinkTransport_WifiLocal | LinkTransport_Cloud | LinkTransport_Usb

primrec link_transport_num :: "link_transport \<Rightarrow> u8" where
    "link_transport_num LinkTransport_Ble = 0x1"
  | "link_transport_num LinkTransport_WifiLocal = 0x2"
  | "link_transport_num LinkTransport_Cloud = 0x3"
  | "link_transport_num LinkTransport_Usb = 0x4"

definition link_transport_arms :: "(u8 \<times> link_transport) list" where [registry_simps]:
  "link_transport_arms =
    [(0x1, LinkTransport_Ble), (0x2, LinkTransport_WifiLocal), (0x3, LinkTransport_Cloud),
     (0x4, LinkTransport_Usb)]"

definition link_transport_of :: "u8 \<Rightarrow> link_transport option" where
  "link_transport_of v = map_of link_transport_arms v"

interpretation link_transport: registry_enum link_transport_of link_transport_num
proof (rule registry_enumI [of _ link_transport_arms])
  show "(link_transport_num x, x) \<in> set link_transport_arms" for x
    by (cases x) (simp_all add: link_transport_arms_def)
qed (simp_all add: link_transport_arms_def link_transport_of_def fun_eq_iff)

subsection \<open>\<open>NetConfigOp\<close>\<close>

datatype net_config_op =
    NetConfigOp_Set | NetConfigOp_Clear

primrec net_config_op_num :: "net_config_op \<Rightarrow> u8" where
    "net_config_op_num NetConfigOp_Set = 0x1"
  | "net_config_op_num NetConfigOp_Clear = 0x2"

definition net_config_op_arms :: "(u8 \<times> net_config_op) list" where [registry_simps]:
  "net_config_op_arms =
    [(0x1, NetConfigOp_Set), (0x2, NetConfigOp_Clear)]"

definition net_config_op_of :: "u8 \<Rightarrow> net_config_op option" where
  "net_config_op_of v = map_of net_config_op_arms v"

interpretation net_config_op: registry_enum net_config_op_of net_config_op_num
proof (rule registry_enumI [of _ net_config_op_arms])
  show "(net_config_op_num x, x) \<in> set net_config_op_arms" for x
    by (cases x) (simp_all add: net_config_op_arms_def)
qed (simp_all add: net_config_op_arms_def net_config_op_of_def fun_eq_iff)

end
