(* ===== verification/Keys.thy ===== *)
theory Keys
  imports Noise Registry_More
begin

text \<open>
  What names an enrolment and what is derived for it: \<open>crates/km43/src/kdf.rs\<close> (the identifiers,
  the label, HKDF and the fingerprint), \<open>crates/km43/src/mac.rs\<close> (the HMAC tags and the labels
  that keep them apart) and the two keys \<open>StaticKey\<close> of \<open>noise.rs\<close> agrees on. The main fact is
  that the preimages of all tags are separate.
\<close>

section \<open>Identifiers\<close>

definition PRINTED_SECRET_BYTES :: nat where "PRINTED_SECRET_BYTES = 32"
definition DEVICE_ID_BYTES :: nat where "DEVICE_ID_BYTES = 16"
definition FINGERPRINT_BYTES :: nat where "FINGERPRINT_BYTES = 16"
definition FIRST_BLOCK :: u8 where "FIRST_BLOCK = 1"

type_synonym device_id = bytes

datatype epoch = Epoch u32
datatype client_id = ClientId u32
datatype generation = Generation u32

primrec epoch_get :: "epoch \<Rightarrow> u32" where "epoch_get (Epoch n) = n"
primrec client_id_get :: "client_id \<Rightarrow> u32" where "client_id_get (ClientId n) = n"
primrec generation_get :: "generation \<Rightarrow> u32" where "generation_get (Generation n) = n"

definition epoch_new :: "u32 \<Rightarrow> epoch option" where
  "epoch_new raw = (if raw = 0 then None else Some (Epoch raw))"

definition client_id_new :: "u32 \<Rightarrow> client_id option" where
  "client_id_new raw = (if raw = 0 then None else Some (ClientId raw))"

definition generation_new :: "u32 \<Rightarrow> generation option" where
  "generation_new raw = (if raw = 0 then None else Some (Generation raw))"

definition client_slot :: "client_id \<Rightarrow> nat" where
  "client_slot c = unat (client_id_get c) - 1"

definition generation_next :: "generation \<Rightarrow> generation option" where
  "generation_next g = (if generation_get g = - 1 then None else Some (Generation (generation_get g + 1)))"

text \<open>The values the constructors give: none of them names anything at zero.\<close>

definition epoch_ok :: "epoch \<Rightarrow> bool" where "epoch_ok e \<longleftrightarrow> epoch_get e \<noteq> 0"
definition client_id_ok :: "client_id \<Rightarrow> bool" where "client_id_ok c \<longleftrightarrow> client_id_get c \<noteq> 0"
definition generation_ok :: "generation \<Rightarrow> bool" where "generation_ok g \<longleftrightarrow> generation_get g \<noteq> 0"

lemma new_get [simp]:
  "epoch_ok e \<Longrightarrow> epoch_new (epoch_get e) = Some e"
  "client_id_ok c \<Longrightarrow> client_id_new (client_id_get c) = Some c"
  "generation_ok g \<Longrightarrow> generation_new (generation_get g) = Some g"
  by (induction e; induction c; induction g;
    simp add: epoch_new_def epoch_ok_def client_id_new_def client_id_ok_def generation_new_def generation_ok_def)+

lemma new_Some:
  "epoch_new n = Some e \<longleftrightarrow> e = Epoch n \<and> n \<noteq> 0"
  "client_id_new n = Some c \<longleftrightarrow> c = ClientId n \<and> n \<noteq> 0"
  "generation_new n = Some g \<longleftrightarrow> g = Generation n \<and> n \<noteq> 0"
  by (auto simp: epoch_new_def client_id_new_def generation_new_def)

lemma get_inject [simp]:
  "epoch_get e = epoch_get e' \<longleftrightarrow> e = e'"
  "client_id_get c = client_id_get c' \<longleftrightarrow> c = c'"
  "generation_get g = generation_get g' \<longleftrightarrow> g = g'"
  by (metis epoch_get.simps epoch.exhaust) (metis client_id_get.simps client_id.exhaust,
    metis generation_get.simps generation.exhaust)

section \<open>Derivations\<close>

datatype derivation = PairPsk | PairRefusal | AdmitKey | VouchKey

primrec derivation_str :: "derivation \<Rightarrow> bytes" where
  "derivation_str PairPsk = map of_char ''km43/v1/pair-psk''"
| "derivation_str PairRefusal = map of_char ''km43/v1/pair-refusal''"
| "derivation_str AdmitKey = map of_char ''km43/v1/admit-key''"
| "derivation_str VouchKey = map of_char ''km43/v1/vouch-key''"

text \<open>RFC 5869: \<open>PRK = HMAC(salt, IKM)\<close> and \<open>T(1) = HMAC(PRK, info | 0x01)\<close>.\<close>

definition prk_of :: "crypto \<Rightarrow> bytes \<Rightarrow> bytes \<Rightarrow> bytes" where
  "prk_of C salt ikm = hmac C salt [ikm]"

definition expand_key :: "crypto \<Rightarrow> bytes \<Rightarrow> derivation \<Rightarrow> bytes" where
  "expand_key C prk derivation = hmac C prk [derivation_str derivation, [FIRST_BLOCK]]"

record label =
  la_device_id :: device_id
  la_printed_secret :: bytes

definition label_derive :: "crypto \<Rightarrow> label \<Rightarrow> derivation \<Rightarrow> bytes" where
  "label_derive C la derivation = expand_key C (prk_of C (la_device_id la) (la_printed_secret la)) derivation"

definition pair_psk :: "crypto \<Rightarrow> label \<Rightarrow> bytes" where
  "pair_psk C la = label_derive C la PairPsk"

definition refusal_key :: "crypto \<Rightarrow> label \<Rightarrow> bytes" where
  "refusal_key C la = label_derive C la PairRefusal"

definition admit_key :: "crypto \<Rightarrow> device_id \<Rightarrow> bytes \<Rightarrow> bytes" where
  "admit_key C device_id shared = expand_key C (prk_of C device_id shared) AdmitKey"

definition vouch_key :: "crypto \<Rightarrow> device_id \<Rightarrow> bytes \<Rightarrow> bytes" where
  "vouch_key C device_id shared = expand_key C (prk_of C device_id shared) VouchKey"

definition static_admit_key :: "crypto \<Rightarrow> static_key \<Rightarrow> device_id \<Rightarrow> public_key \<Rightarrow> noise_error + bytes" where
  "static_admit_key C key device_id peer = map_sum id (admit_key C device_id) (agree C key peer)"

definition static_vouch_key :: "crypto \<Rightarrow> static_key \<Rightarrow> device_id \<Rightarrow> public_key \<Rightarrow> noise_error + bytes" where
  "static_vouch_key C key device_id peer = map_sum id (vouch_key C device_id) (agree C key peer)"

definition FINGERPRINT_LABEL :: bytes where
  "FINGERPRINT_LABEL = map of_char ''km43/v1/controller-fp''"

definition fingerprint_of :: "crypto \<Rightarrow> public_key \<Rightarrow> bytes" where
  "fingerprint_of C controller = take FINGERPRINT_BYTES (c_sha256 C (FINGERPRINT_LABEL @ controller))"

definition vouches_for :: "crypto \<Rightarrow> bytes \<Rightarrow> public_key \<Rightarrow> bool" where
  "vouches_for C printed controller \<longleftrightarrow> printed = fingerprint_of C controller"

text \<open>Both ends of an enrolment, and of a vouch, reach the same key.\<close>

lemma agree_sym:
  assumes "crypto_ok C"
  shows "agree C (from_secret C a) (sk_public (from_secret C b)) = agree C (from_secret C b) (sk_public (from_secret C a))"
  using crypto_ok_dh [OF assms, of a b] by (simp add: agree_def from_secret_def)

lemma static_keys_agree:
  assumes "crypto_ok C"
  shows "static_admit_key C (from_secret C a) d (sk_public (from_secret C b)) =
      static_admit_key C (from_secret C b) d (sk_public (from_secret C a))"
    and "static_vouch_key C (from_secret C a) d (sk_public (from_secret C b)) =
      static_vouch_key C (from_secret C b) d (sk_public (from_secret C a))"
  by (simp_all add: static_admit_key_def static_vouch_key_def agree_sym [OF assms, of a b])

section \<open>Tags\<close>

definition MAC_TAG_BYTES :: nat where "MAC_TAG_BYTES = 16"

datatype domain = PairRefused | HelloAdmit | VouchDomain | InviteProof | InviteConfirm

primrec domain_str :: "domain \<Rightarrow> bytes" where
  "domain_str PairRefused = map of_char ''km43/v1/pair-refused''"
| "domain_str HelloAdmit = map of_char ''km43/v1/hello-admit''"
| "domain_str VouchDomain = map of_char ''km43/v1/vouch''"
| "domain_str InviteProof = map of_char ''km43/v1/invite-proof''"
| "domain_str InviteConfirm = map of_char ''km43/v1/invite-confirm''"

datatype mac_error = Mac_WrongWidth nat | Mac_Mismatch

definition tag_verify :: "bytes \<Rightarrow> bytes \<Rightarrow> mac_error + unit" where
  "tag_verify tag candidate =
     (if length candidate \<noteq> MAC_TAG_BYTES then Inl (Mac_WrongWidth (length candidate))
      else if tag = candidate then Inr () else Inl Mac_Mismatch)"

text \<open>A preimage under construction: the padded key, and what was fed.\<close>

record preimage =
  pre_block :: bytes
  pre_fed :: bytes

definition preimage_under :: "bytes \<Rightarrow> domain \<Rightarrow> preimage" where
  "preimage_under key d = \<lparr>pre_block = take BLOCK_BYTES (key @ replicate BLOCK_BYTES 0), pre_fed = domain_str d\<rparr>"

definition preimage_bytes :: "bytes \<Rightarrow> preimage \<Rightarrow> preimage" where
  "preimage_bytes v p = p\<lparr>pre_fed := pre_fed p @ v\<rparr>"

definition preimage_tag :: "crypto \<Rightarrow> preimage \<Rightarrow> bytes" where
  "preimage_tag C p = take MAC_TAG_BYTES (c_hmac C (pre_block p) (pre_fed p))"

definition refusal_preimage :: "bytes \<Rightarrow> bytes \<Rightarrow> pair_outcome \<Rightarrow> preimage" where
  "refusal_preimage key h1 outcome =
     preimage_bytes [pair_outcome_num outcome] (preimage_bytes h1 (preimage_under key PairRefused))"

definition admit_preimage :: "bytes \<Rightarrow> bytes \<Rightarrow> bytes \<Rightarrow> preimage" where
  "admit_preimage key prologue handshake =
     preimage_bytes handshake (preimage_bytes prologue (preimage_under key HelloAdmit))"

definition invite_proof_preimage :: "bytes \<Rightarrow> bytes \<Rightarrow> preimage" where
  "invite_proof_preimage key transcript = preimage_bytes transcript (preimage_under key InviteProof)"

definition invite_confirm_preimage :: "bytes \<Rightarrow> bytes \<Rightarrow> client_id \<Rightarrow> generation \<Rightarrow> preimage" where
  "invite_confirm_preimage key transcript c g =
     preimage_bytes (be_bytes 4 (generation_get g)) (preimage_bytes (be_bytes 4 (client_id_get c))
       (preimage_bytes transcript (preimage_under key InviteConfirm)))"

record vouch_statement =
  vs_device_id :: device_id
  vs_epoch :: epoch
  vs_client_id :: client_id
  vs_generation :: generation
  vs_nonce :: bytes
  vs_binding :: bytes

definition vouch_preimage :: "bytes \<Rightarrow> vouch_statement \<Rightarrow> preimage" where
  "vouch_preimage key s =
     preimage_bytes (vs_binding s) (preimage_bytes (vs_nonce s)
       (preimage_bytes (be_bytes 4 (generation_get (vs_generation s)))
       (preimage_bytes (be_bytes 4 (client_id_get (vs_client_id s)))
       (preimage_bytes (be_bytes 4 (epoch_get (vs_epoch s)))
       (preimage_bytes (vs_device_id s) (preimage_under key VouchDomain))))))"

definition refusal_tag :: "crypto \<Rightarrow> bytes \<Rightarrow> bytes \<Rightarrow> pair_outcome \<Rightarrow> bytes" where
  "refusal_tag C key h1 outcome = preimage_tag C (refusal_preimage key h1 outcome)"

definition admit_tag :: "crypto \<Rightarrow> bytes \<Rightarrow> bytes \<Rightarrow> bytes \<Rightarrow> bytes" where
  "admit_tag C key prologue handshake = preimage_tag C (admit_preimage key prologue handshake)"

definition invite_proof :: "crypto \<Rightarrow> bytes \<Rightarrow> bytes \<Rightarrow> bytes" where
  "invite_proof C key transcript = preimage_tag C (invite_proof_preimage key transcript)"

definition invite_confirm :: "crypto \<Rightarrow> bytes \<Rightarrow> bytes \<Rightarrow> client_id \<Rightarrow> generation \<Rightarrow> bytes" where
  "invite_confirm C key transcript c g = preimage_tag C (invite_confirm_preimage key transcript c g)"

definition vouch_tag :: "crypto \<Rightarrow> bytes \<Rightarrow> vouch_statement \<Rightarrow> bytes" where
  "vouch_tag C key s = preimage_tag C (vouch_preimage key s)"

lemma length_tag:
  assumes "crypto_ok C"
  shows "length (preimage_tag C p) = MAC_TAG_BYTES"
  using crypto_ok_sizes(2) [OF assms] by (simp add: preimage_tag_def MAC_TAG_BYTES_def KEY_BYTES_def)

section \<open>Separation\<close>

text \<open>\<open>u32::from_be_bytes\<close>.\<close>

fun from_be32 :: "bytes \<Rightarrow> u32" where
  "from_be32 [a, b, c, d] =
     push_bit 24 (ucast a) OR push_bit 16 (ucast b) OR push_bit 8 (ucast c) OR ucast d"
| "from_be32 _ = 0"

lemma be_bytes_4: "be_bytes 4 x = [ucast (drop_bit 24 x), ucast (drop_bit 16 x), ucast (drop_bit 8 x), ucast x]"
proof -
  have four: "4 = Suc (Suc (Suc (Suc 0)))"
    by simp
  show ?thesis
    by (simp only: four be_bytes.simps) simp
qed

lemma from_be32_be_bytes [simp]: "from_be32 (be_bytes 4 (x :: u32)) = x"
  unfolding be_bytes_4 from_be32.simps
proof (rule bit_word_eqI)
  fix n assume "n < LENGTH(32)"
  then consider "n < 8" | "8 \<le> n" "n < 16" | "16 \<le> n" "n < 24" | "24 \<le> n" "n < 32"
    by force
  then show "bit (push_bit 24 (ucast (ucast (drop_bit 24 x) :: u8)) OR push_bit 16 (ucast (ucast (drop_bit 16 x) :: u8)) OR
      push_bit 8 (ucast (ucast (drop_bit 8 x) :: u8)) OR ucast (ucast x :: u8) :: u32) n = bit x n"
    by cases (auto simp: bit_simps)
qed

lemma length_4: "length (bs :: bytes) = 4 \<Longrightarrow> \<exists>a b c d. bs = [a, b, c, d]"
  by (auto simp: eval_nat_numeral length_Suc_conv)

lemma be_bytes_from_be32:
  assumes "length bs = 4"
  shows "be_bytes 4 (from_be32 bs) = bs"
proof -
  obtain a b c d where bs: "bs = [a, b, c, d]"
    using length_4 [OF assms] by blast
  show ?thesis
    unfolding bs be_bytes_4 from_be32.simps list.inject
    by (intro conjI bit_word_eqI refl) (auto simp: bit_simps dest: bit_imp_le_length)
qed

lemma be_bytes_4_inject [simp]: "be_bytes 4 (x :: u32) = be_bytes 4 y \<longleftrightarrow> x = y"
  by (metis from_be32_be_bytes)

definition PROLOGUE_BYTES :: nat where "PROLOGUE_BYTES = 16 + 1 + 2 + 16 + 4 + 16 + 2"

datatype tagged =
    Tagged_Refusal bytes pair_outcome
  | Tagged_Admit bytes bytes
  | Tagged_Vouch vouch_statement
  | Tagged_InviteProof bytes
  | Tagged_InviteConfirm bytes client_id generation

primrec tagged_preimage :: "bytes \<Rightarrow> tagged \<Rightarrow> preimage" where
  "tagged_preimage key (Tagged_Refusal h1 outcome) = refusal_preimage key h1 outcome"
| "tagged_preimage key (Tagged_Admit prologue handshake) = admit_preimage key prologue handshake"
| "tagged_preimage key (Tagged_Vouch s) = vouch_preimage key s"
| "tagged_preimage key (Tagged_InviteProof transcript) = invite_proof_preimage key transcript"
| "tagged_preimage key (Tagged_InviteConfirm transcript c g) = invite_confirm_preimage key transcript c g"

primrec tagged_domain :: "tagged \<Rightarrow> domain" where
  "tagged_domain (Tagged_Refusal _ _) = PairRefused"
| "tagged_domain (Tagged_Admit _ _) = HelloAdmit"
| "tagged_domain (Tagged_Vouch _) = VouchDomain"
| "tagged_domain (Tagged_InviteProof _) = InviteProof"
| "tagged_domain (Tagged_InviteConfirm _ _ _) = InviteConfirm"

text \<open>The widths the types of the source fix.\<close>

primrec tagged_ok :: "tagged \<Rightarrow> bool" where
  "tagged_ok (Tagged_Refusal h1 _) \<longleftrightarrow> length h1 = KEY_BYTES"
| "tagged_ok (Tagged_Admit prologue _) \<longleftrightarrow> length prologue = PROLOGUE_BYTES"
| "tagged_ok (Tagged_Vouch s) \<longleftrightarrow>
     length (vs_device_id s) = DEVICE_ID_BYTES \<and> length (vs_nonce s) = 16 \<and> length (vs_binding s) = 32"
| "tagged_ok (Tagged_InviteProof _) \<longleftrightarrow> True"
| "tagged_ok (Tagged_InviteConfirm _ _ _) \<longleftrightarrow> True"

lemma domain_str_prefix_free: "domain_str d @ xs = domain_str d' @ ys \<longleftrightarrow> d = d' \<and> xs = ys"
  by (cases d; cases d'; simp)

lemmas preimage_defs = preimage_bytes_def preimage_under_def refusal_preimage_def admit_preimage_def
  vouch_preimage_def invite_proof_preimage_def invite_confirm_preimage_def

lemma tagged_fed: "\<exists>xs. pre_fed (tagged_preimage key t) = domain_str (tagged_domain t) @ xs"
  by (cases t) (simp_all add: preimage_defs)

lemma tagged_same_domain:
  assumes "pre_fed (tagged_preimage key t) = pre_fed (tagged_preimage key' t')"
  shows "tagged_domain t = tagged_domain t'"
  using assms tagged_fed [of key t] tagged_fed [of key' t'] by (auto simp: domain_str_prefix_free)

text \<open>No tag of this protocol is a tag of anything else: two things that are tagged, of the same
  kind or of different kinds, feed the HMAC the same bytes only if they are the same thing, field
  by field.\<close>

theorem mac_preimages_separate:
  assumes "tagged_ok t" and "tagged_ok t'"
  shows "pre_fed (tagged_preimage key t) = pre_fed (tagged_preimage key' t') \<longleftrightarrow> t = t'"
proof
  assume eq: "pre_fed (tagged_preimage key t) = pre_fed (tagged_preimage key' t')"
  note dom = tagged_same_domain [OF eq]
  show "t = t'"
  proof (cases t)
    case (Tagged_Refusal h1 outcome)
    then show ?thesis
      using eq dom assms by (cases t') (simp_all add: preimage_defs pair_outcome.num_of_inj)
  next
    case (Tagged_Admit prologue handshake)
    then show ?thesis
      using eq dom assms by (cases t') (simp_all add: preimage_defs)
  next
    case (Tagged_Vouch s)
    then show ?thesis
      using eq dom assms by (cases t') (simp_all add: preimage_defs)
  next
    case (Tagged_InviteProof transcript)
    then show ?thesis
      using eq dom by (cases t') (simp_all add: preimage_defs)
  next
    case (Tagged_InviteConfirm transcript c g)
    then show ?thesis
      using eq dom by (cases t') (simp_all add: preimage_defs)
  qed
qed (cases t'; simp add: preimage_defs)

lemma mac_preimages_separate_witness:
  "pre_fed (tagged_preimage [1] (Tagged_InviteProof [1, 2])) \<noteq>
    pre_fed (tagged_preimage [1] (Tagged_InviteConfirm [1, 2] (ClientId 1) (Generation 1)))"
  using mac_preimages_separate [of "Tagged_InviteProof [1, 2]" "Tagged_InviteConfirm [1, 2] (ClientId 1) (Generation 1)"
      "[1]" "[1]"] by simp

end
