(* ===== verification/Framed.thy ===== *)
theory Framed
  imports Body Envelope
begin

text \<open>
  What the messages that travel bare in an envelope share: a header written for a number of pairs
  and the pairs after it, and the loop over an envelope's pairs. \<open>frame_bytes\<close> is the whole
  envelope of a list of numbered fields; \<open>framed_codec\<close> is the contract of \<open>body_codec\<close> at the
  level of whole envelopes.
\<close>

section \<open>The shapes\<close>

text \<open>\<open>header.write(pairs, dst)?\<close>, then the pairs, then \<open>finish\<close>.\<close>

definition enveloping ::
  "(cbor_error \<Rightarrow> 'e) \<Rightarrow> (writer, 'e, unit) act \<Rightarrow> (writer, cbor_error, unit) act \<Rightarrow> bytes \<Rightarrow> ('e + nat) \<times> bytes" where
  "enveloping err front m = encoding err (andthen front (\<lambda>_. map_err err m))"

text \<open>\<open>envelope.keys()\<close>, \<open>envelope.into_body()\<close> and the loop.\<close>

definition enclosed ::
  "(cbor_error \<Rightarrow> 'e) \<Rightarrow> ('a \<Rightarrow> int \<Rightarrow> (reader, 'e, 'a) act) \<Rightarrow> 'a \<Rightarrow> ('a \<Rightarrow> (reader, 'e, 'b) act) \<Rightarrow> envelope \<Rightarrow> 'e + 'b" where
  "enclosed err field acc f e = fst (andthen (pairs_loop err field (e_keys e) acc) f (e_body e))"

definition frame_bytes :: "header \<Rightarrow> (int \<times> item) list \<Rightarrow> bytes" where
  "frame_bytes h fs = header_bytes h @ map_bytes fs"

lemma frame_bytes_eq:
  "frame_bytes h fs = header_bytes h @ head_bytes Map (of_nat (length fs)) @ field_bytes fs"
  by (simp add: frame_bytes_def map_bytes_eq)

lemma length_frame_bytes: "length (frame_bytes h fs) \<le> 11 + length (map_bytes fs)"
  using scalar_bytes_length [of "message_type_num (h_kind h)" "h_session h" "h_req_id h"]
  by (simp add: frame_bytes_def header_bytes_def)

section \<open>Rules\<close>

lemma encloses_scalars:
  assumes "length (scalar_bytes b session q @ map_bytes fs) \<le> length dst" and "length dst \<le> usize_max"
    and "n = length fs"
    and "\<And>w. writing w (body_levels (length fs)) (scalar_bytes b session q @ head_bytes Map (of_nat (length fs))) dst \<Longrightarrow>
      runs m w (\<lambda>_ w. writing w [] (scalar_bytes b session q @ map_bytes fs) dst)"
  shows "enveloping err (map_err env (write_scalars (Opcode b) session q n)) m dst =
    (Inr (length (scalar_bytes b session q @ map_bytes fs)), splice dst 0 (scalar_bytes b session q @ map_bytes fs))"
  unfolding enveloping_def
proof (rule encoding_eq [OF assms(2)], intro runs_andthen runs_map_err)
  have "length (field_bytes fs) \<le> length dst"
    using assms(1) by (simp add: map_bytes_eq)
  then have "2 * length fs \<le> usize_max"
    using field_bytes_length [of fs] assms(2) by simp
  then show "runs (write_scalars (Opcode b) session q n) (writer_over dst)
      (\<lambda>_ s. runs (map_err err m) s (\<lambda>_ w. writing w [] (scalar_bytes b session q @ map_bytes fs) dst))"
    unfolding assms(3)
    using assms(1,2,4) by (intro write_scalars_rule runs_map_err) (simp_all add: map_bytes_eq)
qed

lemma encloses:
  assumes "length (frame_bytes h fs) \<le> length dst" and "length dst \<le> usize_max"
    and "n = length fs"
    and "\<And>w. writing w (body_levels (length fs)) (header_bytes h @ head_bytes Map (of_nat (length fs))) dst \<Longrightarrow>
      runs m w (\<lambda>_ w. writing w [] (frame_bytes h fs) dst)"
  shows "enveloping err (map_err env (header_write h n)) m dst =
    (Inr (length (frame_bytes h fs)), splice dst 0 (frame_bytes h fs))"
  using encloses_scalars [of "message_type_num (h_kind h)" "h_session h" "h_req_id h" fs dst n m err env] assms
  by (simp add: header_write_def opcode_of_def header_bytes_def frame_bytes_def)

abbreviation in_envelope :: "level list" where
  "in_envelope \<equiv> [(NArray, 0, None)]"

lemma later_pairs_framed:
  assumes "at_pair r (2 * length fs) (Some (key_rank l)) in_envelope (field_bytes fs)" and "extends k 6 fs"
    and "good_key l" and "l \<le> k"
    and "\<And>j. k < j \<Longrightarrow> field acc j = skipped err acc"
    and "\<And>r'. reading r' [] [] \<Longrightarrow> Q acc r'"
  shows "runs (pairs_loop err field (length fs) acc) r Q"
proof -
  have first: "at_pair r (2 * length fs) (Some (key_rank l)) in_envelope (field_bytes fs @ [])"
    using assms(1) by simp
  have room: "Suc (length in_envelope) + 6 \<le> NESTING"
    by (simp add: NESTING_val)
  have finish: "reading r' (settle_levels in_envelope) [] \<Longrightarrow> Q acc r'" for r'
    using assms(6) by simp
  show ?thesis
    by (rule pairs_loop_extended [where k = k and l = l and rest = in_envelope and xs = "[]" and room = 6 and err = err])
      (fact first conjI [OF assms(3,4)] assms(2) room assms(5) finish)+
qed

lemmas framed_rules = pairs_loop_step runs_andthen runs_map_err runs_ok_orI runs_once later_pairs_framed runs_finishing loop_rules

lemma decodes_frame:
  assumes "session_ok (h_session h)" and "length (frame_bytes h fs) \<le> usize_max"
    and "\<And>r. at_pair r (2 * length fs) None in_envelope (field_bytes fs) \<Longrightarrow>
        runs (pairs_loop err field (length fs) acc) r (\<lambda>x r. runs (f x) r (\<lambda>y _. y = v))"
  obtains e where "envelope_decode (frame_bytes h fs) = Inr e" and "e_header e = h"
    and "enclosed err field acc f e = Inr v"
proof -
  obtain r where r: "envelope_decode (frame_bytes h fs) = Inr \<lparr>e_header = h, e_keys = length fs, e_body = r\<rparr>"
    "reading r (body_levels (length fs)) (field_bytes fs)"
    using envelope_decode_eq [OF assms(1) field_bytes_length [of fs] assms(2) [unfolded frame_bytes_eq]]
    unfolding frame_bytes_eq by blast
  have "runs (andthen (pairs_loop err field (length fs) acc) f) r (\<lambda>y _. y = v)"
    using r(2) assms(3) by (intro runs_andthen) simp
  then show ?thesis
    using that [OF r(1)] by (auto simp: enclosed_def runs_def)
qed

section \<open>The contract\<close>

locale framed_codec =
  fixes put :: "'a \<Rightarrow> header \<Rightarrow> bytes \<Rightarrow> ('e + nat) \<times> bytes"
    and decode :: "envelope \<Rightarrow> 'e + 'a"
    and fields :: "'a \<Rightarrow> (int \<times> item) list"
    and valid :: "'a \<Rightarrow> bool"
    and names :: "header \<Rightarrow> bool"
    and last_known :: int
  assumes put_frame: "\<lbrakk>valid x; names h; length (frame_bytes h (fields x)) \<le> length dst; length dst \<le> usize_max\<rbrakk> \<Longrightarrow>
      put x h dst = (Inr (length (frame_bytes h (fields x))), splice dst 0 (frame_bytes h (fields x)))"
    and decode_frame: "\<lbrakk>valid x; names h; session_ok (h_session h); extends last_known 6 fs;
        length (frame_bytes h (fields x @ fs)) \<le> usize_max\<rbrakk> \<Longrightarrow>
      \<exists>e. envelope_decode (frame_bytes h (fields x @ fs)) = Inr e \<and> e_header e = h \<and> decode e = Inr x"
begin

text \<open>What a sender writes into any buffer with room, a receiver reads out of the bytes written.\<close>

lemma round_trip:
  assumes "valid x" and "names h" and "session_ok (h_session h)"
    and "length (frame_bytes h (fields x)) \<le> length dst" and "length dst \<le> usize_max"
  shows "\<exists>n out e. put x h dst = (Inr n, out) \<and> n = length (frame_bytes h (fields x)) \<and> length out = length dst \<and>
    take n out = frame_bytes h (fields x) \<and>
    envelope_decode (take n out) = Inr e \<and> e_header e = h \<and> decode e = Inr x"
proof -
  have "take (length (frame_bytes h (fields x))) (splice dst 0 (frame_bytes h (fields x))) = frame_bytes h (fields x)"
    by (simp add: splice_def)
  then show ?thesis
    using put_frame [OF assms(1,2,4,5)] decode_frame [OF assms(1-3), of "[]"] assms(4,5) by auto
qed

end

end
