(* ===== verification/Field_Rules.thy ===== *)
theory Field_Rules
  imports Framed
begin

text \<open>
  A calculus for message bodies, one field at a time. \<open>writes_item m t\<close> and \<open>reads_item m t v\<close>
  say what a call does with one item wherever it stands; \<open>writes_pairs\<close> and \<open>reads_pairs\<close> chain
  them over the numbered fields of a map, so that a body of any number of fields is verified by
  one rule per field.
\<close>

named_theorems item_rules

section \<open>Writing\<close>

definition writes_item :: "(writer, 'e, unit) act \<Rightarrow> item \<Rightarrow> bool" where
  "writes_item m t \<longleftrightarrow> (\<forall>w L out dst. writing w L out dst \<longrightarrow> \<not> levels_at_key L \<longrightarrow> (L = [] \<longrightarrow> out = []) \<longrightarrow>
     length L + item_depth t \<le> NESTING \<longrightarrow> length out + length (enc_item t) \<le> length dst \<longrightarrow>
     runs m w (\<lambda>_ w'. writing w' (settle_levels (count_levels L)) (out @ enc_item t) dst))"

lemma writes_itemI:
  assumes "\<And>w L out dst. \<lbrakk>writing w L out dst; \<not> levels_at_key L; L = [] \<Longrightarrow> out = [];
      length L + item_depth t \<le> NESTING; length out + length (enc_item t) \<le> length dst\<rbrakk> \<Longrightarrow>
    runs m w (\<lambda>_ w'. writing w' (settle_levels (count_levels L)) (out @ enc_item t) dst)"
  shows "writes_item m t"
  using assms by (simp add: writes_item_def)

lemma writes_u64 [item_rules]: "writes_item (wr_u64 v) (IUint v)"
  by (rule writes_itemI, rule write_u64_rule) auto

lemma writes_bool [item_rules]: "writes_item (wr_bool b) (IBool b)"
  by (rule writes_itemI, rule write_bool_rule) auto

lemma writes_bytes [item_rules]: "writes_item (wr_byte_string v) (IBytes v)"
  by (rule writes_itemI, rule write_bytes_rule) auto

lemma writes_text [item_rules]: "length v \<le> MAX_STRING \<Longrightarrow> writes_item (wr_text v) (IText v)"
  by (rule writes_itemI, rule write_text_rule) auto

lemma writes_raw [item_rules]: "wf_item t \<Longrightarrow> writes_item (wr_raw (enc_item t)) t"
  by (rule writes_itemI, rule write_raw_rule) auto

primrec ascending :: "key_rank option \<Rightarrow> (int \<times> item) list \<Rightarrow> bool" where
  "ascending l [] \<longleftrightarrow> True"
| "ascending l (f # fs) \<longleftrightarrow> next_key (fst f) l \<and> ascending (Some (key_rank (fst f))) fs"

primrec last_key :: "key_rank option \<Rightarrow> (int \<times> item) list \<Rightarrow> key_rank option" where
  "last_key l [] = l"
| "last_key l (f # fs) = last_key (Some (key_rank (fst f))) fs"

definition shallow :: "nat \<Rightarrow> (int \<times> item) list \<Rightarrow> bool" where
  "shallow room fs \<longleftrightarrow> (\<forall>f \<in> set fs. item_depth (snd f) \<le> room)"

lemma shallow_simps [simp]:
  "shallow room []" "shallow room (f # fs) \<longleftrightarrow> item_depth (snd f) \<le> room \<and> shallow room fs"
  "shallow room (fs @ gs) \<longleftrightarrow> shallow room fs \<and> shallow room gs"
  by (auto simp: shallow_def)

lemma ascending_append [simp]: "ascending l (fs @ gs) \<longleftrightarrow> ascending l fs \<and> ascending (last_key l fs) gs"
  by (induction fs arbitrary: l) auto

lemma last_key_append [simp]: "last_key l (fs @ gs) = last_key (last_key l fs) gs"
  by (induction fs arbitrary: l) auto

definition writes_pairs :: "(writer, 'e, unit) act \<Rightarrow> (int \<times> item) list \<Rightarrow> bool" where
  "writes_pairs m fs \<longleftrightarrow> (\<forall>w n l rest out dst.
     writing w (settle_levels ((NMap, 2 * length fs + n, l) # rest)) out dst \<longrightarrow> even n \<longrightarrow> ascending l fs \<longrightarrow>
     (\<exists>room. shallow room fs \<and> Suc (length rest) + room \<le> NESTING) \<longrightarrow>
     length out + length (field_bytes fs) \<le> length dst \<longrightarrow>
     runs m w (\<lambda>_ w'. writing w' (settle_levels ((NMap, n, last_key l fs) # rest)) (out @ field_bytes fs) dst))"

lemma writes_pairsI:
  assumes "\<And>w n l rest out dst room. \<lbrakk>writing w (settle_levels ((NMap, 2 * length fs + n, l) # rest)) out dst; even n;
      ascending l fs; shallow room fs; Suc (length rest) + room \<le> NESTING;
      length out + length (field_bytes fs) \<le> length dst\<rbrakk> \<Longrightarrow>
    runs m w (\<lambda>_ w'. writing w' (settle_levels ((NMap, n, last_key l fs) # rest)) (out @ field_bytes fs) dst)"
  shows "writes_pairs m fs"
  using assms unfolding writes_pairs_def by blast

lemma writes_pairsD:
  "\<lbrakk>writes_pairs m fs; writing w (settle_levels ((NMap, 2 * length fs + n, l) # rest)) out dst; even n; ascending l fs;
    shallow room fs; Suc (length rest) + room \<le> NESTING; length out + length (field_bytes fs) \<le> length dst\<rbrakk> \<Longrightarrow>
   runs m w (\<lambda>_ w'. writing w' (settle_levels ((NMap, n, last_key l fs) # rest)) (out @ field_bytes fs) dst)"
  unfolding writes_pairs_def by blast

lemma writes_none [item_rules]: "writes_pairs (ret ()) []"
  by (rule writes_pairsI) simp

lemma writes_append:
  assumes "writes_pairs m fs" and "writes_pairs m' gs"
  shows "writes_pairs (andthen m (\<lambda>_. m')) (fs @ gs)"
proof (rule writes_pairsI)
  fix w n l rest out dst room
  assume w: "writing w (settle_levels ((NMap, 2 * length (fs @ gs) + n, l) # rest)) out dst" "even n"
    "ascending l (fs @ gs)" "shallow room (fs @ gs)" "Suc (length rest) + room \<le> NESTING"
    "length out + length (field_bytes (fs @ gs)) \<le> length dst"
  have "runs m w (\<lambda>_ w'. writing w' (settle_levels ((NMap, 2 * length gs + n, last_key l fs) # rest)) (out @ field_bytes fs) dst)"
    using w by (intro writes_pairsD [OF assms(1)]) (simp_all add: algebra_simps)
  then show "runs (andthen m (\<lambda>_. m')) w
      (\<lambda>_ w'. writing w' (settle_levels ((NMap, n, last_key l (fs @ gs)) # rest)) (out @ field_bytes (fs @ gs)) dst)"
  proof (rule runs_andthen [OF runs_weaken])
    fix x :: unit and w'
    assume "writing w' (settle_levels ((NMap, 2 * length gs + n, last_key l fs) # rest)) (out @ field_bytes fs) dst"
    from writes_pairsD [OF assms(2) this w(2) _ _ w(5)] w
    show "runs m' w' (\<lambda>_ w'. writing w' (settle_levels ((NMap, n, last_key l (fs @ gs)) # rest)) (out @ field_bytes (fs @ gs)) dst)"
      by simp
  qed
qed

text \<open>Each rule comes twice: for an encoder whose steps carry the reader's own errors, and for one that
  turns each of them into the body's.\<close>

lemma map_err_id [simp]: "map_err (\<lambda>e. e) m = m"
  by (auto simp: map_err_def fun_eq_iff split: prod.splits sum.splits)

lemma writes_item_err [item_rules]: "writes_item m t \<Longrightarrow> writes_item (map_err err m) t"
  unfolding writes_item_def by (blast intro: runs_map_err)

lemma writes_last_err [item_rules]:
  assumes "writes_item v t"
  shows "writes_pairs (andthen (map_err err (wr_key k)) (\<lambda>_. v)) [(k, t)]"
proof (rule writes_pairsI)
  fix w n l rest out dst room
  assume w: "writing w (settle_levels ((NMap, 2 * length [(k, t)] + n, l) # rest)) out dst" "even n"
    "ascending l [(k, t)]" "shallow room [(k, t)]" "Suc (length rest) + room \<le> NESTING"
    "length out + length (field_bytes [(k, t)]) \<le> length dst"
  show "runs (andthen (map_err err (wr_key k)) (\<lambda>_. v)) w
      (\<lambda>_ w'. writing w' (settle_levels ((NMap, n, last_key l [(k, t)]) # rest)) (out @ field_bytes [(k, t)]) dst)"
  proof (rule runs_andthen, rule runs_map_err, rule write_key_rule)
    show "writing w ((NMap, Suc (Suc n), l) # rest) out dst"
      using w(1) by simp
    fix w'
    assume "writing w' (settle_levels ((NMap, Suc (Suc n) - 1, Some (key_rank k)) # rest)) (out @ key_bytes k) dst"
    then have w': "writing w' ((NMap, Suc n, Some (key_rank k)) # rest) (out @ key_bytes k) dst"
      by simp
    show "runs v w' (\<lambda>_ w'. writing w' (settle_levels ((NMap, n, last_key l [(k, t)]) # rest)) (out @ field_bytes [(k, t)]) dst)"
      using assms [unfolded writes_item_def, rule_format, OF w'] w by simp
  qed (use w in simp_all)
qed

lemma writes_Cons_err [item_rules]:
  assumes "writes_item v t" and "writes_pairs m fs"
  shows "writes_pairs (andthen (map_err err (wr_key k)) (\<lambda>_. andthen v (\<lambda>_. m))) ((k, t) # fs)"
  using writes_append [OF writes_last_err [OF assms(1)] assms(2), of err k] by (simp add: andthen_assoc)

lemma writes_last [item_rules]: "writes_item v t \<Longrightarrow> writes_pairs (andthen (wr_key k) (\<lambda>_. v)) [(k, t)]"
  using writes_last_err [where err = "\<lambda>e. e"] by simp

lemma writes_Cons [item_rules]:
  "writes_item v t \<Longrightarrow> writes_pairs m fs \<Longrightarrow>
   writes_pairs (andthen (wr_key k) (\<lambda>_. andthen v (\<lambda>_. m))) ((k, t) # fs)"
  using writes_Cons_err [where err = "\<lambda>e. e"] by simp

lemma writes_option [item_rules]:
  "(\<And>v. o' = Some v \<Longrightarrow> writes_pairs (m v) (fs v)) \<Longrightarrow>
   writes_pairs (case o' of Some v \<Rightarrow> m v | None \<Rightarrow> ret ()) (case o' of Some v \<Rightarrow> fs v | None \<Rightarrow> [])"
  by (cases o') (auto intro: writes_none)

text \<open>A whole map, as a message body and as an item of one.\<close>

definition fields_ok :: "(int \<times> item) list \<Rightarrow> bool" where
  "fields_ok fs \<longleftrightarrow> ascending None fs \<and> (\<forall>f \<in> set fs. wf_item (snd f))"

lemma pairs_of_simps [simp]: "map snd (pairs_of fs) = map snd fs" "map fst (pairs_of fs) = map (key_rank \<circ> fst) fs"
  by (induction fs) (auto simp: pairs_of_def)

lemma depth_map_item: "shallow room fs \<Longrightarrow> item_depth (map_item fs) \<le> Suc room"
  by (induction fs) (auto simp: map_item_def pairs_of_def)

lemma depth_map_item_ge: "shallow (item_depth (map_item fs) - 1) fs"
  unfolding shallow_def
proof
  fix f assume f: "f \<in> set fs"
  have "item_depth (map_item fs) = Suc (foldr max (map (\<lambda>f. item_depth (snd f)) fs) 0)"
    by (simp add: map_item_def pairs_of_def comp_def case_prod_unfold)
  then show "item_depth (snd f) \<le> item_depth (map_item fs) - 1"
    using f foldr_max_ge [of "item_depth (snd f)" "map (\<lambda>f. item_depth (snd f)) fs"] by auto
qed

lemma depth_map_item_pos: "0 < item_depth (map_item fs)"
  by (simp add: map_item_def)

lemma writes_map_err [item_rules]:
  assumes "writes_pairs m fs" and "ascending None fs" and "n = length fs"
  shows "writes_item (andthen (map_err err (wr_map n)) (\<lambda>_. m)) (map_item fs)"
proof (rule writes_itemI)
  fix w L out dst
  assume w: "writing w L out dst" "\<not> levels_at_key L" "L = [] \<Longrightarrow> out = []"
    "length L + item_depth (map_item fs) \<le> NESTING" "length out + length (enc_item (map_item fs)) \<le> length dst"
  have bytes: "enc_item (map_item fs) = head_bytes Map (of_nat (length fs)) @ field_bytes fs"
    using map_bytes_eq [of fs] by (simp add: map_bytes_def)
  have room: "length L < NESTING" "Suc (length L) + (item_depth (map_item fs) - 1) \<le> NESTING"
    using w(4) depth_map_item_pos [of fs] by simp_all
  have "length dst \<le> usize_max"
    using w(1) by (auto simp: writing_def writer_ok_def)
  then have small: "2 * n \<le> usize_max"
    using field_bytes_length [of fs] w(5) assms(3) by (simp add: bytes)
  show "runs (andthen (map_err err (wr_map n)) (\<lambda>_. m)) w
      (\<lambda>_ w'. writing w' (settle_levels (count_levels L)) (out @ enc_item (map_item fs)) dst)"
  proof (rule runs_andthen, rule runs_map_err, rule write_map_rule [OF w(1-3) room(1) small])
    fix w'
    assume "writing w' (settle_levels ((NMap, 2 * n, None) # count_levels L)) (out @ head_bytes Map (of_nat n)) dst"
    moreover have "length (count_levels L) = length L"
      by (cases L) auto
    ultimately have "runs m w' (\<lambda>_ w''. writing w'' (settle_levels ((NMap, 0, last_key None fs) # count_levels L))
        ((out @ head_bytes Map (of_nat n)) @ field_bytes fs) dst)"
      using assms(2,3) depth_map_item_ge [of fs] room(2) w(5)
      by (intro writes_pairsD [OF assms(1)]) (simp_all add: bytes)
    then show "runs m w' (\<lambda>_ w''. writing w'' (settle_levels (count_levels L)) (out @ enc_item (map_item fs)) dst)"
      using assms(3) by (simp add: bytes)
  qed (use w assms(3) bytes in simp_all)
qed

lemma writes_map [item_rules]:
  "writes_pairs m fs \<Longrightarrow> ascending None fs \<Longrightarrow> n = length fs \<Longrightarrow> writes_item (andthen (wr_map n) (\<lambda>_. m)) (map_item fs)"
  using writes_map_err [where err = "\<lambda>e. e"] by simp

text \<open>The two encoders of the crate: a body on its own, and a body in its envelope.\<close>

lemma encodes_fields:
  assumes "writes_pairs m fs" and "ascending None fs" and "shallow 7 fs" and "n = length fs"
    and "length (map_bytes fs) \<le> length dst" and "length dst \<le> usize_max"
  shows "encoding err (map_err err (andthen (wr_map n) (\<lambda>_. m))) dst = (Inr (length (map_bytes fs)), splice dst 0 (map_bytes fs))"
proof (rule encodes [OF assms(5,6)])
  have w: "writing (writer_over dst) [] [] dst"
    by (rule writing_over [OF assms(6)])
  have "writes_item (andthen (wr_map n) (\<lambda>_. m)) (map_item fs)"
    by (rule writes_map [OF assms(1,2,4)])
  from this [unfolded writes_item_def, rule_format, OF w] depth_map_item [OF assms(3)] assms(5)
  show "runs (andthen (wr_map n) (\<lambda>_. m)) (writer_over dst) (\<lambda>_ w. writing w [] (map_bytes fs) dst)"
    by (simp add: map_bytes_def NESTING_val)
qed

lemma encloses_fields:
  assumes "writes_pairs m fs" and "ascending None fs" and "shallow 6 fs" and "n = length fs"
    and "length (frame_bytes h fs) \<le> length dst" and "length dst \<le> usize_max"
  shows "enveloping err (map_err env (header_write h n)) m dst = (Inr (length (frame_bytes h fs)), splice dst 0 (frame_bytes h fs))"
proof (rule encloses [OF assms(5,6,4)])
  fix w
  assume "writing w (body_levels (length fs)) (header_bytes h @ head_bytes Map (of_nat (length fs))) dst"
  then have "runs m w (\<lambda>_ w'. writing w' (settle_levels ((NMap, 0, last_key None fs) # in_envelope))
      ((header_bytes h @ head_bytes Map (of_nat (length fs))) @ field_bytes fs) dst)"
    using assms(2,3,5) by (intro writes_pairsD [OF assms(1), where room = 6]) (simp_all add: NESTING_val frame_bytes_eq)
  then show "runs m w (\<lambda>_ w. writing w [] (frame_bytes h fs) dst)"
    by (simp add: frame_bytes_eq)
qed

section \<open>Reading\<close>

definition reads_item :: "(reader, 'e, 'v) act \<Rightarrow> item \<Rightarrow> 'v \<Rightarrow> bool" where
  "reads_item m t v \<longleftrightarrow> (\<forall>r L xs. reading r L (enc_item t @ xs) \<longrightarrow> \<not> levels_at_key L \<longrightarrow> L \<noteq> [] \<longrightarrow>
     length L + item_depth t \<le> NESTING \<longrightarrow> runs m r (\<lambda>x r'. x = v \<and> reading r' (settle_levels (count_levels L)) xs))"

lemma reads_itemI:
  assumes "\<And>r L xs. \<lbrakk>reading r L (enc_item t @ xs); \<not> levels_at_key L; L \<noteq> []; length L + item_depth t \<le> NESTING\<rbrakk> \<Longrightarrow>
    runs m r (\<lambda>x r'. x = v \<and> reading r' (settle_levels (count_levels L)) xs)"
  shows "reads_item m t v"
  using assms by (simp add: reads_item_def)

lemma reads_u64 [item_rules]: "reads_item rd_u64 (IUint v) v"
  by (rule reads_itemI, rule read_u64_rule) auto

lemma reads_u32 [item_rules]: "reads_item rd_u32 (IUint (ucast v)) v"
  by (rule reads_itemI, rule read_u32_rule) auto

lemma reads_u16 [item_rules]: "reads_item rd_u16 (IUint (ucast v)) v"
  by (rule reads_itemI, rule read_u16_rule) auto

lemma reads_u8 [item_rules]: "reads_item rd_u8 (IUint (ucast v)) v"
  by (rule reads_itemI, rule read_u8_rule) auto

lemma reads_bool [item_rules]: "reads_item rd_bool (IBool b) b"
  by (rule reads_itemI, rule read_bool_rule) auto

lemma reads_bytes [item_rules]: "reads_item rd_byte_string (IBytes v) v"
  by (rule reads_itemI, rule read_bytes_rule) auto

lemma reads_text [item_rules]: "length v \<le> MAX_STRING \<Longrightarrow> utf8 v \<Longrightarrow> reads_item rd_text (IText v) v"
  by (rule reads_itemI, rule read_text_rule) auto

lemma reads_raw [item_rules]: "wf_item t \<Longrightarrow> reads_item rd_raw t (enc_item t)"
  by (rule reads_itemI, rule raw_rule) auto

lemma reads_skip: "wf_item t \<Longrightarrow> reads_item (skipped err acc) t acc"
  unfolding skipped_def
  by (rule reads_itemI, intro runs_andthen runs_map_err, rule skip_rule) auto

lemma reads_map_err [item_rules]: "reads_item m t v \<Longrightarrow> reads_item (map_err err m) t v"
  by (auto simp: reads_item_def intro: runs_map_err)

lemma reads_then:
  assumes "reads_item m t v" and "f v = ret x"
  shows "reads_item (andthen m f) t x"
  unfolding reads_item_def
proof (intro allI impI runs_andthen)
  fix r L xs
  assume "reading r L (enc_item t @ xs)" "\<not> levels_at_key L" "L \<noteq> []" "length L + item_depth t \<le> NESTING"
  with assms(1) have "runs m r (\<lambda>x r'. x = v \<and> reading r' (settle_levels (count_levels L)) xs)"
    unfolding reads_item_def by blast
  then show "runs m r (\<lambda>y t. runs (f y) t (\<lambda>y r'. y = x \<and> reading r' (settle_levels (count_levels L)) xs))"
    by (rule runs_weaken) (use assms(2) in auto)
qed

fun reads_pairs :: "('a \<Rightarrow> int \<Rightarrow> (reader, 'e, 'a) act) \<Rightarrow> (int \<times> item) list \<Rightarrow> 'a \<Rightarrow> 'a \<Rightarrow> bool" where
  "reads_pairs field [] acc acc' \<longleftrightarrow> acc' = acc"
| "reads_pairs field (f # fs) acc acc' \<longleftrightarrow>
     (\<exists>next. reads_item (field acc (fst f)) (snd f) next \<and> reads_pairs field fs next acc')"

lemma reads_Nil [item_rules]: "reads_pairs field [] acc acc"
  by simp

lemma reads_Cons [item_rules]:
  "reads_item (field acc k) t next \<Longrightarrow> reads_pairs field fs next acc' \<Longrightarrow> reads_pairs field ((k, t) # fs) acc acc'"
  by auto

lemma reads_pairs_append:
  "reads_pairs field fs acc acc1 \<Longrightarrow> reads_pairs field gs acc1 acc2 \<Longrightarrow> reads_pairs field (fs @ gs) acc acc2"
  by (induction fs arbitrary: acc) auto

text \<open>A value read, converted or not, and kept in its slot.\<close>

named_theorems slot_rules

lemma reads_slot [slot_rules]:
  assumes "reads_item m t v" and "slot = None"
  shows "reads_item (andthen m (\<lambda>v. andthen (once d slot v) (\<lambda>s. ret (upd s)))) t (upd (Some v))"
  using assms by (intro reads_then) (auto simp: once_def)

lemma reads_slot_map [slot_rules]:
  assumes "reads_item m t v" and "slot = None"
  shows "reads_item (andthen m (\<lambda>v. andthen (once d slot (g v)) (\<lambda>s. ret (upd s)))) t (upd (Some (g v)))"
  using assms by (intro reads_then) (auto simp: once_def)

lemma reads_slot_sum [slot_rules]:
  assumes "reads_item m t v" and "g v = Inr x" and "slot = None"
  shows "reads_item (andthen m (\<lambda>v. andthen (lift_sum (g v)) (\<lambda>w. andthen (once d slot w) (\<lambda>s. ret (upd s))))) t (upd (Some x))"
  by (rule reads_then [OF assms(1)]) (simp add: assms(2,3) once_def andthen_def fun_eq_iff)

lemma reads_slot_option [slot_rules]:
  assumes "reads_item m t v" and "g v = Some x" and "slot = None"
  shows "reads_item (andthen m (\<lambda>v. andthen (ok_or e (g v)) (\<lambda>w. andthen (once d slot w) (\<lambda>s. ret (upd s))))) t (upd (Some x))"
  by (rule reads_then [OF assms(1)]) (simp add: assms(2,3) once_def andthen_def fun_eq_iff)

text \<open>The loop over the pairs a decoder knows, and what stands after them.\<close>

lemma pairs_loop_fields:
  assumes "reads_pairs field fs acc acc'" and "at_pair r (2 * (length fs + n)) l rest (field_bytes fs @ xs)"
    and "ascending l fs" and "shallow room fs" and "Suc (length rest) + room \<le> NESTING"
    and "\<And>r'. at_pair r' (2 * n) (last_key l fs) rest xs \<Longrightarrow> runs (pairs_loop err field n acc') r' Q"
  shows "runs (pairs_loop err field (length fs + n) acc) r Q"
  using assms(1-4,6)
proof (induction fs arbitrary: acc r l)
  case (Cons f fs)
  obtain k t where f: "f = (k, t)"
    by fastforce
  obtain acc1 where acc1: "reads_item (field acc k) t acc1" "reads_pairs field fs acc1 acc'"
    using Cons.prems(1) f by auto
  have "runs (pairs_loop err field (Suc (length fs + n)) acc) r Q"
  proof (rule pairs_loop_step)
    show "reading r ((NMap, Suc (Suc (2 * (length fs + n))), l) # rest) (key_bytes k @ enc_item t @ field_bytes fs @ xs)"
      using Cons.prems(2) f by simp
    show "next_key k l"
      using Cons.prems(3) f by simp
    fix r'
    assume r': "reading r' ((NMap, Suc (2 * (length fs + n)), Some (key_rank k)) # rest) (enc_item t @ field_bytes fs @ xs)"
    have "runs (field acc k) r' (\<lambda>x s. x = acc1 \<and>
        reading s (settle_levels (count_levels ((NMap, Suc (2 * (length fs + n)), Some (key_rank k)) # rest))) (field_bytes fs @ xs))"
      using acc1(1) [unfolded reads_item_def, rule_format, OF r'] Cons.prems(4) assms(5) f by simp
    then show "runs (field acc k) r' (\<lambda>acc' s. runs (pairs_loop err field (length fs + n) acc') s Q)"
      by (rule runs_weaken) (use Cons.prems f acc1(2) in \<open>auto intro!: Cons.IH\<close>)
  qed
  then show ?case
    by simp
qed simp

lemma extends_reads:
  "extends k room gs \<Longrightarrow> (\<And>j. k < j \<Longrightarrow> field acc j = skipped err acc) \<Longrightarrow> reads_pairs field gs acc acc"
proof (induction gs arbitrary: k)
  case (Cons g gs)
  obtain j t where g: "g = (j, t)"
    by fastforce
  have "reads_pairs field gs acc acc"
    using Cons.prems g by (intro Cons.IH [of j]) auto
  then show ?case
    using Cons.prems g reads_skip [of t err acc] by (auto intro!: exI [of _ acc])
qed simp

lemma extends_shallow: "extends k room gs \<Longrightarrow> shallow room gs"
  by (induction gs arbitrary: k) auto

lemma extends_ascending:
  "extends k room gs \<Longrightarrow> l = None \<or> (\<exists>j. l = Some (key_rank j) \<and> good_key j \<and> j \<le> k) \<Longrightarrow> ascending l gs"
proof (induction gs arbitrary: k l)
  case (Cons g gs)
  obtain j t where g: "g = (j, t)"
    by fastforce
  have "ascending (Some (key_rank j)) gs"
    using Cons.prems(1) g by (intro Cons.IH [of j]) auto
  then show ?case
    using Cons.prems g by auto
qed simp

definition known :: "int \<Rightarrow> (int \<times> item) list \<Rightarrow> bool" where
  "known k fs \<longleftrightarrow> (\<forall>f \<in> set fs. fst f \<le> k)"

lemma known_simps [simp]:
  "known k []" "known k (f # fs) \<longleftrightarrow> fst f \<le> k \<and> known k fs" "known k (fs @ gs) \<longleftrightarrow> known k fs \<and> known k gs"
  by (auto simp: known_def)

lemma ascending_extends:
  assumes "ascending None fs" and "known k fs" and "extends k room gs"
  shows "ascending None (fs @ gs)"
proof -
  have "ascending l fs \<Longrightarrow> known k fs \<Longrightarrow> l = None \<or> (\<exists>j. l = Some (key_rank j) \<and> good_key j \<and> j \<le> k) \<Longrightarrow>
      last_key l fs = None \<or> (\<exists>j. last_key l fs = Some (key_rank j) \<and> good_key j \<and> j \<le> k)" for l
    by (induction fs arbitrary: l) (fastforce simp: next_key_iff)+
  then show ?thesis
    using assms extends_ascending by simp
qed

text \<open>The two decoders of the crate: the fields it knows, then any of a later version.\<close>

lemma decodes_fields:
  assumes "reads_pairs field fs acc acc'" and "ascending None fs" and "shallow 7 fs" and "known k fs"
    and "extends k INNER gs" and "\<And>j. k < j \<Longrightarrow> field acc' j = skipped err acc'"
    and "length (map_bytes (fs @ gs)) \<le> usize_max"
    and "\<And>r. reading r [] [] \<Longrightarrow> runs (f acc') r (\<lambda>y _. y = v)"
  shows "decoding (andthen (map_fields err field acc) f) (map_bytes (fs @ gs)) = Inr v"
proof (rule decodes [OF assms(7)])
  fix r
  assume "at_pair r (2 * length (fs @ gs)) None [] (field_bytes (fs @ gs))"
  moreover have "reads_pairs field (fs @ gs) acc acc'"
    using assms(1) extends_reads [of k _ gs field acc' err, OF assms(5,6)] by (rule reads_pairs_append)
  ultimately have "runs (pairs_loop err field (length (fs @ gs) + 0) acc) r (\<lambda>x r. runs (f x) r (\<lambda>y _. y = v))"
    using assms(3,8) extends_shallow [OF assms(5)] ascending_extends [OF assms(2,4,5)]
    by (intro pairs_loop_fields [where acc' = acc' and room = 7 and l = None and rest = "[]" and xs = "[]"])
      (simp_all add: INNER_val NESTING_val)
  then show "runs (pairs_loop err field (length (fs @ gs)) acc) r (\<lambda>x r. runs (f x) r (\<lambda>y _. y = v))"
    by simp
qed

lemma encloses_decodes_fields:
  assumes "reads_pairs field fs acc acc'" and "ascending None fs" and "shallow 6 fs" and "known k fs"
    and "extends k 6 gs" and "\<And>j. k < j \<Longrightarrow> field acc' j = skipped err acc'"
    and "session_ok (h_session h)" and "length (frame_bytes h (fs @ gs)) \<le> usize_max"
    and "\<And>r. reading r [] [] \<Longrightarrow> runs (f acc') r (\<lambda>y _. y = v)"
  obtains e where "envelope_decode (frame_bytes h (fs @ gs)) = Inr e" and "e_header e = h"
    and "enclosed err field acc f e = Inr v"
proof (rule decodes_frame [OF assms(7,8)])
  fix r
  assume "at_pair r (2 * length (fs @ gs)) None in_envelope (field_bytes (fs @ gs))"
  moreover have "reads_pairs field (fs @ gs) acc acc'"
    using assms(1) extends_reads [of k _ gs field acc' err, OF assms(5,6)] by (rule reads_pairs_append)
  ultimately have "runs (pairs_loop err field (length (fs @ gs) + 0) acc) r (\<lambda>x r. runs (f x) r (\<lambda>y _. y = v))"
    using assms(3,9) extends_shallow [OF assms(5)] ascending_extends [OF assms(2,4,5)]
    by (intro pairs_loop_fields [where acc' = acc' and room = 6 and l = None and rest = in_envelope and xs = "[]"])
      (simp_all add: NESTING_val)
  then show "runs (pairs_loop err field (length (fs @ gs)) acc) r (\<lambda>x r. runs (f x) r (\<lambda>y _. y = v))"
    by simp
qed (use that in blast)

text \<open>A body that may carry no key beyond its own.\<close>

lemma encloses_decodes_exactly:
  assumes "reads_pairs field fs acc acc'" and "ascending None fs" and "shallow 6 fs"
    and "session_ok (h_session h)" and "length (frame_bytes h fs) \<le> usize_max"
    and "\<And>r. reading r [] [] \<Longrightarrow> runs (f acc') r (\<lambda>y _. y = v)"
  obtains e where "envelope_decode (frame_bytes h fs) = Inr e" and "e_header e = h"
    and "enclosed err field acc f e = Inr v"
proof (rule decodes_frame [OF assms(4,5)])
  fix r
  assume "at_pair r (2 * length fs) None in_envelope (field_bytes fs)"
  then have "runs (pairs_loop err field (length fs + 0) acc) r (\<lambda>x r. runs (f x) r (\<lambda>y _. y = v))"
    using assms(1-3,6)
    by (intro pairs_loop_fields [where acc' = acc' and room = 6 and l = None and rest = in_envelope and xs = "[]"])
      (simp_all add: NESTING_val)
  then show "runs (pairs_loop err field (length fs) acc) r (\<lambda>x r. runs (f x) r (\<lambda>y _. y = v))"
    by simp
qed (use that in blast)

end
