(* ===== verification/Report.thy ===== *)
theory Report
  imports Field_Rules Keys
begin

text \<open>
  \<open>crates/km43/src/handshake.rs\<close>: the answer to a \<open>Discover\<close>, the report a session opens with, the
  version both ends settle on and the prologue both handshakes hash first. The one message nobody
  authenticates is safe to act on because all of it that a client decides on is in the prologue:
  two prologues are the same bytes only if every field is the same.
\<close>

definition BSTR16 :: nat where "BSTR16 = 16"
definition TEXT_MAX :: nat where "TEXT_MAX = 2 + MAX_STRING"
definition MAX_DISCOVER_BODY :: nat where "MAX_DISCOVER_BODY = 54 + TEXT_MAX"
definition TOPOLOGY_REPORT_BYTES :: nat where "TOPOLOGY_REPORT_BYTES = 59"
definition MAX_HELLO_REPORT :: nat where
  "MAX_HELLO_REPORT = 71 + 2 * TEXT_MAX + TOPOLOGY_REPORT_BYTES + 2 * 7 + 1"

section \<open>Keys and refusals\<close>

datatype discover_key =
    Dk_ProtocolMajor | Dk_ProtocolMinor | Dk_DeviceId | Dk_Model | Dk_Provisioned | Dk_PairingOpen
  | Dk_Challenge | Dk_Epoch

definition discover_key_of :: "int \<Rightarrow> discover_key option" where
  "discover_key_of number =
     map_of [(1, Dk_ProtocolMajor), (2, Dk_ProtocolMinor), (3, Dk_DeviceId), (4, Dk_Model), (5, Dk_Provisioned),
       (6, Dk_PairingOpen), (7, Dk_Challenge), (8, Dk_Epoch)] number"

primrec discover_key_number :: "discover_key \<Rightarrow> int" where
  "discover_key_number Dk_ProtocolMajor = 1"
| "discover_key_number Dk_ProtocolMinor = 2"
| "discover_key_number Dk_DeviceId = 3"
| "discover_key_number Dk_Model = 4"
| "discover_key_number Dk_Provisioned = 5"
| "discover_key_number Dk_PairingOpen = 6"
| "discover_key_number Dk_Challenge = 7"
| "discover_key_number Dk_Epoch = 8"

datatype report_key =
    Rk_ProtocolMajor | Rk_ProtocolMinor | Rk_SessionId | Rk_FwController | Rk_FwComms
  | Rk_Capabilities | Rk_LogOldestSeq | Rk_LogNewestSeq | Rk_StateSeq | Rk_TimeKnown | Rk_MaxSessions
  | Rk_MaxChannels | Rk_MaxClients | Rk_MaxEventQueue | Rk_MaxInflight | Rk_MaxCmdDedup | Rk_Rev
  | Rk_TopoDigest | Rk_MaxBuses | Rk_MaxDevices | Rk_MaxComponents | Rk_MaxSignals
  | Rk_MaxSeriesElements | Rk_MaxParams | Rk_MaxConcerns | Rk_MaxSelectors | Rk_MaxHistorySignals
  | Rk_MaxTopologyDepth | Rk_ClientId | Rk_Generation

definition report_key_of :: "int \<Rightarrow> report_key option" where
  "report_key_of number =
     map_of [(1, Rk_ProtocolMajor), (2, Rk_ProtocolMinor), (3, Rk_SessionId), (4, Rk_FwController),
       (5, Rk_FwComms), (6, Rk_Capabilities), (7, Rk_LogOldestSeq), (8, Rk_LogNewestSeq),
       (9, Rk_StateSeq), (10, Rk_TimeKnown), (12, Rk_MaxSessions), (13, Rk_MaxChannels),
       (14, Rk_MaxClients), (15, Rk_MaxEventQueue), (16, Rk_MaxInflight), (17, Rk_MaxCmdDedup),
       (18, Rk_Rev), (19, Rk_TopoDigest), (20, Rk_MaxBuses), (21, Rk_MaxDevices), (22, Rk_MaxComponents),
       (23, Rk_MaxSignals), (24, Rk_MaxSeriesElements), (25, Rk_MaxParams), (26, Rk_MaxConcerns),
       (27, Rk_MaxSelectors), (28, Rk_MaxHistorySignals), (29, Rk_MaxTopologyDepth), (30, Rk_ClientId),
       (31, Rk_Generation)] number"

primrec report_key_number :: "report_key \<Rightarrow> int" where
  "report_key_number Rk_ProtocolMajor = 1"
| "report_key_number Rk_ProtocolMinor = 2"
| "report_key_number Rk_SessionId = 3"
| "report_key_number Rk_FwController = 4"
| "report_key_number Rk_FwComms = 5"
| "report_key_number Rk_Capabilities = 6"
| "report_key_number Rk_LogOldestSeq = 7"
| "report_key_number Rk_LogNewestSeq = 8"
| "report_key_number Rk_StateSeq = 9"
| "report_key_number Rk_TimeKnown = 10"
| "report_key_number Rk_MaxSessions = 12"
| "report_key_number Rk_MaxChannels = 13"
| "report_key_number Rk_MaxClients = 14"
| "report_key_number Rk_MaxEventQueue = 15"
| "report_key_number Rk_MaxInflight = 16"
| "report_key_number Rk_MaxCmdDedup = 17"
| "report_key_number Rk_Rev = 18"
| "report_key_number Rk_TopoDigest = 19"
| "report_key_number Rk_MaxBuses = 20"
| "report_key_number Rk_MaxDevices = 21"
| "report_key_number Rk_MaxComponents = 22"
| "report_key_number Rk_MaxSignals = 23"
| "report_key_number Rk_MaxSeriesElements = 24"
| "report_key_number Rk_MaxParams = 25"
| "report_key_number Rk_MaxConcerns = 26"
| "report_key_number Rk_MaxSelectors = 27"
| "report_key_number Rk_MaxHistorySignals = 28"
| "report_key_number Rk_MaxTopologyDepth = 29"
| "report_key_number Rk_ClientId = 30"
| "report_key_number Rk_Generation = 31"

datatype body_key = DiscoverBody discover_key | ReportBody report_key

datatype handshake_error =
    Hs_Missing body_key
  | Hs_Duplicate body_key
  | Hs_WrongWidth body_key nat
  | Hs_WrongMessage message_type message_type
  | Hs_SessionMismatch session_id session_id
  | Hs_MajorMismatch u8 u8
  | Hs_ChannelsAboveCeiling u8
  | Hs_NoSuchSlot
  | Hs_ZeroGeneration
  | Hs_ZeroEpoch
  | Hs_NoHandle
  | Hs_Envelope envelope_error
  | Hs_Cbor cbor_error

primrec handshake_refusal :: "handshake_error \<Rightarrow> refusal" where
  "handshake_refusal (Hs_MajorMismatch _ _) = RefuseClient Ec_ProtocolMajorMismatch"
| "handshake_refusal (Hs_Envelope why) = envelope_refusal why"
| "handshake_refusal (Hs_Missing _) = RefuseClient Ec_MalformedFrame"
| "handshake_refusal (Hs_Duplicate _) = RefuseClient Ec_MalformedFrame"
| "handshake_refusal (Hs_WrongWidth _ _) = RefuseClient Ec_MalformedFrame"
| "handshake_refusal (Hs_WrongMessage _ _) = RefuseClient Ec_MalformedFrame"
| "handshake_refusal (Hs_SessionMismatch _ _) = RefuseClient Ec_MalformedFrame"
| "handshake_refusal (Hs_ChannelsAboveCeiling _) = RefuseClient Ec_MalformedFrame"
| "handshake_refusal Hs_NoSuchSlot = RefuseClient Ec_MalformedFrame"
| "handshake_refusal Hs_ZeroGeneration = RefuseClient Ec_MalformedFrame"
| "handshake_refusal Hs_ZeroEpoch = RefuseClient Ec_MalformedFrame"
| "handshake_refusal Hs_NoHandle = RefuseClient Ec_MalformedFrame"
| "handshake_refusal (Hs_Cbor _) = RefuseClient Ec_MalformedFrame"

definition sixteen :: "body_key \<Rightarrow> bytes \<Rightarrow> handshake_error + bytes" where
  "sixteen key raw = (if length raw = BSTR16 then Inr raw else Inl (Hs_WrongWidth key (length raw)))"

definition eight :: "body_key \<Rightarrow> bytes \<Rightarrow> handshake_error + bytes" where
  "eight key raw = (if length raw = 8 then Inr raw else Inl (Hs_WrongWidth key (length raw)))"

definition expected_kind :: "header \<Rightarrow> message_type \<Rightarrow> handshake_error + unit" where
  "expected_kind h k = (if h_kind h = k then Inr () else Inl (Hs_WrongMessage k (h_kind h)))"

definition taken_slot :: "body_key \<Rightarrow> 'v option \<Rightarrow> (reader, handshake_error, 'v) act" where
  "taken_slot key slot = ok_or (Hs_Missing key) slot"

section \<open>The version\<close>

record version =
  ve_major :: u8
  ve_minor :: u8

definition V1_0 :: version where "V1_0 = \<lparr>ve_major = 1, ve_minor = 0\<rparr>"

definition version_agreed :: "version \<Rightarrow> version \<Rightarrow> handshake_error + version" where
  "version_agreed ours theirs =
     (if ve_major ours \<noteq> ve_major theirs then Inl (Hs_MajorMismatch (ve_major ours) (ve_major theirs))
      else Inr \<lparr>ve_major = ve_major ours, ve_minor = min (ve_minor ours) (ve_minor theirs)\<rparr>)"

section \<open>\<open>Discover 0x80\<close>\<close>

record discovery =
  di_version :: version
  di_device_id :: bytes
  di_model :: bytes
  di_provisioned :: bool
  di_pairing_open :: bool
  di_challenge :: bytes
  di_epoch :: epoch

definition discovery_pairs :: "discovery \<Rightarrow> (writer, cbor_error, unit) act" where
  "discovery_pairs d =
     andthen (wr_key (discover_key_number Dk_ProtocolMajor)) (\<lambda>_. andthen (wr_u64 (ucast (ve_major (di_version d)))) (\<lambda>_.
     andthen (wr_key (discover_key_number Dk_ProtocolMinor)) (\<lambda>_. andthen (wr_u64 (ucast (ve_minor (di_version d)))) (\<lambda>_.
     andthen (wr_key (discover_key_number Dk_DeviceId)) (\<lambda>_. andthen (wr_byte_string (di_device_id d)) (\<lambda>_.
     andthen (wr_key (discover_key_number Dk_Model)) (\<lambda>_. andthen (wr_text (di_model d)) (\<lambda>_.
     andthen (wr_key (discover_key_number Dk_Provisioned)) (\<lambda>_. andthen (wr_bool (di_provisioned d)) (\<lambda>_.
     andthen (wr_key (discover_key_number Dk_PairingOpen)) (\<lambda>_. andthen (wr_bool (di_pairing_open d)) (\<lambda>_.
     andthen (wr_key (discover_key_number Dk_Challenge)) (\<lambda>_. andthen (wr_byte_string (di_challenge d)) (\<lambda>_.
     andthen (wr_key (discover_key_number Dk_Epoch)) (\<lambda>_. wr_u64 (ucast (epoch_get (di_epoch d))))))))))))))))))"

definition DISCOVER_KEY_COUNT :: nat where "DISCOVER_KEY_COUNT = 8"

definition discovery_write :: "discovery \<Rightarrow> header \<Rightarrow> bytes \<Rightarrow> (handshake_error + nat) \<times> bytes" where
  "discovery_write d h dst =
     (case expected_kind h Mt_DiscoverResponse of
        Inl e \<Rightarrow> (Inl e, dst)
      | Inr _ \<Rightarrow> enveloping Hs_Cbor (map_err Hs_Envelope (header_write h DISCOVER_KEY_COUNT)) (discovery_pairs d) dst)"

record discover_slots =
  ds_major :: "u8 option"
  ds_minor :: "u8 option"
  ds_device_id :: "bytes option"
  ds_model :: "bytes option"
  ds_provisioned :: "bool option"
  ds_pairing_open :: "bool option"
  ds_challenge :: "bytes option"
  ds_epoch :: "epoch option"

definition discover_slots_empty :: discover_slots where
  "discover_slots_empty = \<lparr>ds_major = None, ds_minor = None, ds_device_id = None, ds_model = None,
     ds_provisioned = None, ds_pairing_open = None, ds_challenge = None, ds_epoch = None\<rparr>"

primrec discover_fill :: "discover_key \<Rightarrow> discover_slots \<Rightarrow> (reader, handshake_error, discover_slots) act" where
  "discover_fill Dk_ProtocolMajor slots =
     andthen (map_err Hs_Cbor rd_u8) (\<lambda>v.
     andthen (once (Hs_Duplicate (DiscoverBody Dk_ProtocolMajor)) (ds_major slots) v) (\<lambda>s.
     ret (slots\<lparr>ds_major := s\<rparr>)))"
| "discover_fill Dk_ProtocolMinor slots =
     andthen (map_err Hs_Cbor rd_u8) (\<lambda>v.
     andthen (once (Hs_Duplicate (DiscoverBody Dk_ProtocolMinor)) (ds_minor slots) v) (\<lambda>s.
     ret (slots\<lparr>ds_minor := s\<rparr>)))"
| "discover_fill Dk_DeviceId slots =
     andthen (map_err Hs_Cbor rd_byte_string) (\<lambda>v.
     andthen (lift_sum (sixteen (DiscoverBody Dk_DeviceId) v)) (\<lambda>v'.
     andthen (once (Hs_Duplicate (DiscoverBody Dk_DeviceId)) (ds_device_id slots) v') (\<lambda>s.
     ret (slots\<lparr>ds_device_id := s\<rparr>))))"
| "discover_fill Dk_Model slots =
     andthen (map_err Hs_Cbor rd_text) (\<lambda>v.
     andthen (once (Hs_Duplicate (DiscoverBody Dk_Model)) (ds_model slots) v) (\<lambda>s.
     ret (slots\<lparr>ds_model := s\<rparr>)))"
| "discover_fill Dk_Provisioned slots =
     andthen (map_err Hs_Cbor rd_bool) (\<lambda>v.
     andthen (once (Hs_Duplicate (DiscoverBody Dk_Provisioned)) (ds_provisioned slots) v) (\<lambda>s.
     ret (slots\<lparr>ds_provisioned := s\<rparr>)))"
| "discover_fill Dk_PairingOpen slots =
     andthen (map_err Hs_Cbor rd_bool) (\<lambda>v.
     andthen (once (Hs_Duplicate (DiscoverBody Dk_PairingOpen)) (ds_pairing_open slots) v) (\<lambda>s.
     ret (slots\<lparr>ds_pairing_open := s\<rparr>)))"
| "discover_fill Dk_Challenge slots =
     andthen (map_err Hs_Cbor rd_byte_string) (\<lambda>v.
     andthen (lift_sum (sixteen (DiscoverBody Dk_Challenge) v)) (\<lambda>v'.
     andthen (once (Hs_Duplicate (DiscoverBody Dk_Challenge)) (ds_challenge slots) v') (\<lambda>s.
     ret (slots\<lparr>ds_challenge := s\<rparr>))))"
| "discover_fill Dk_Epoch slots =
     andthen (map_err Hs_Cbor rd_u32) (\<lambda>v.
     andthen (ok_or Hs_ZeroEpoch (epoch_new v)) (\<lambda>v'.
     andthen (once (Hs_Duplicate (DiscoverBody Dk_Epoch)) (ds_epoch slots) v') (\<lambda>s.
     ret (slots\<lparr>ds_epoch := s\<rparr>))))"

definition discover_field :: "discover_slots \<Rightarrow> int \<Rightarrow> (reader, handshake_error, discover_slots) act" where
  "discover_field slots number =
     (case discover_key_of number of Some key \<Rightarrow> discover_fill key slots | None \<Rightarrow> skipped Hs_Cbor slots)"

definition discover_complete :: "discover_slots \<Rightarrow> (reader, handshake_error, discovery) act" where
  "discover_complete slots =
     andthen (taken_slot (DiscoverBody Dk_ProtocolMajor) (ds_major slots)) (\<lambda>major.
     andthen (taken_slot (DiscoverBody Dk_ProtocolMinor) (ds_minor slots)) (\<lambda>minor.
     andthen (taken_slot (DiscoverBody Dk_DeviceId) (ds_device_id slots)) (\<lambda>device_id.
     andthen (taken_slot (DiscoverBody Dk_Model) (ds_model slots)) (\<lambda>model.
     andthen (taken_slot (DiscoverBody Dk_Provisioned) (ds_provisioned slots)) (\<lambda>provisioned.
     andthen (taken_slot (DiscoverBody Dk_PairingOpen) (ds_pairing_open slots)) (\<lambda>pairing_open.
     andthen (taken_slot (DiscoverBody Dk_Challenge) (ds_challenge slots)) (\<lambda>challenge.
     andthen (taken_slot (DiscoverBody Dk_Epoch) (ds_epoch slots)) (\<lambda>epoch.
     ret \<lparr>di_version = \<lparr>ve_major = major, ve_minor = minor\<rparr>, di_device_id = device_id, di_model = model, di_provisioned = provisioned,
       di_pairing_open = pairing_open, di_challenge = challenge, di_epoch = epoch\<rparr>))))))))"

definition discovery_decode :: "envelope \<Rightarrow> handshake_error + discovery" where
  "discovery_decode e =
     (case expected_kind (e_header e) Mt_DiscoverResponse of
        Inl err \<Rightarrow> Inl err
      | Inr _ \<Rightarrow> enclosed Hs_Cbor discover_field discover_slots_empty (\<lambda>slots.
          andthen (finishing Hs_Cbor) (\<lambda>_. discover_complete slots)) e)"

section \<open>The report\<close>

record caps =
  ca_sessions :: u8
  ca_channels :: u8
  ca_clients :: u8
  ca_event_queue :: u16
  ca_inflight :: u8
  ca_cmd_dedup :: u16

definition CHANNEL_CEILING :: u8 where "CHANNEL_CEILING = 32"

definition caps_this_controller :: caps where
  "caps_this_controller = \<lparr>ca_sessions = 8, ca_channels = 32, ca_clients = 8, ca_event_queue = 16,
     ca_inflight = 4, ca_cmd_dedup = 32\<rparr>"

definition within_ceiling :: "caps \<Rightarrow> handshake_error + unit" where
  "within_ceiling c =
     (if ca_channels c > CHANNEL_CEILING then Inl (Hs_ChannelsAboveCeiling (ca_channels c)) else Inr ())"

definition caps_encode :: "caps \<Rightarrow> (writer, cbor_error, unit) act" where
  "caps_encode c =
     andthen (wr_key (report_key_number Rk_MaxSessions)) (\<lambda>_. andthen (wr_u64 (ucast (ca_sessions c))) (\<lambda>_.
     andthen (wr_key (report_key_number Rk_MaxChannels)) (\<lambda>_. andthen (wr_u64 (ucast (ca_channels c))) (\<lambda>_.
     andthen (wr_key (report_key_number Rk_MaxClients)) (\<lambda>_. andthen (wr_u64 (ucast (ca_clients c))) (\<lambda>_.
     andthen (wr_key (report_key_number Rk_MaxEventQueue)) (\<lambda>_. andthen (wr_u64 (ucast (ca_event_queue c))) (\<lambda>_.
     andthen (wr_key (report_key_number Rk_MaxInflight)) (\<lambda>_. andthen (wr_u64 (ucast (ca_inflight c))) (\<lambda>_.
     andthen (wr_key (report_key_number Rk_MaxCmdDedup)) (\<lambda>_. wr_u64 (ucast (ca_cmd_dedup c)))))))))))))"

record topology =
  tp_rev :: u32
  tp_digest :: bytes
  tp_buses :: u8
  tp_devices :: u16
  tp_components :: u16
  tp_signals :: u16
  tp_series_elements :: u16
  tp_params :: u16
  tp_concerns :: u16
  tp_selectors :: u8
  tp_history_signals :: u16
  tp_topology_depth :: u8

definition topology_this_controller :: topology where
  "topology_this_controller = \<lparr>tp_rev = 0, tp_digest = replicate 8 0, tp_buses = 8, tp_devices = 24,
     tp_components = 160, tp_signals = 384, tp_series_elements = 512, tp_params = 96, tp_concerns = 48,
     tp_selectors = 12, tp_history_signals = 24, tp_topology_depth = 4\<rparr>"

definition topology_caps :: "topology \<Rightarrow> (report_key \<times> u64) list" where
  "topology_caps t =
     [(Rk_MaxBuses, ucast (tp_buses t)), (Rk_MaxDevices, ucast (tp_devices t)),
      (Rk_MaxComponents, ucast (tp_components t)), (Rk_MaxSignals, ucast (tp_signals t)),
      (Rk_MaxSeriesElements, ucast (tp_series_elements t)), (Rk_MaxParams, ucast (tp_params t)),
      (Rk_MaxConcerns, ucast (tp_concerns t)), (Rk_MaxSelectors, ucast (tp_selectors t)),
      (Rk_MaxHistorySignals, ucast (tp_history_signals t)), (Rk_MaxTopologyDepth, ucast (tp_topology_depth t))]"

definition topology_encode :: "topology \<Rightarrow> (writer, cbor_error, unit) act" where
  "topology_encode t =
     andthen (wr_key (report_key_number Rk_Rev)) (\<lambda>_. andthen (wr_u64 (ucast (tp_rev t))) (\<lambda>_.
     andthen (wr_key (report_key_number Rk_TopoDigest)) (\<lambda>_. andthen (wr_byte_string (tp_digest t)) (\<lambda>_.
     for_each (\<lambda>(key, v). andthen (wr_key (report_key_number key)) (\<lambda>_. wr_u64 v)) (topology_caps t)))))"

record hello_report =
  hr_version :: version
  hr_session :: session_id
  hr_fw_controller :: bytes
  hr_fw_comms :: bytes
  hr_capabilities :: u32
  hr_log_oldest_seq :: u64
  hr_log_newest_seq :: u64
  hr_state_seq :: u64
  hr_time_known :: bool
  hr_caps :: caps
  hr_topology :: topology
  hr_client_id :: client_id
  hr_generation :: generation

definition report_pairs :: "hello_report \<Rightarrow> (writer, cbor_error, unit) act" where
  "report_pairs r =
     andthen (wr_key (report_key_number Rk_ProtocolMajor)) (\<lambda>_. andthen (wr_u64 (ucast (ve_major (hr_version r)))) (\<lambda>_.
     andthen (wr_key (report_key_number Rk_ProtocolMinor)) (\<lambda>_. andthen (wr_u64 (ucast (ve_minor (hr_version r)))) (\<lambda>_.
     andthen (wr_key (report_key_number Rk_SessionId)) (\<lambda>_. andthen (wr_u64 (ucast (session_num (hr_session r)))) (\<lambda>_.
     andthen (wr_key (report_key_number Rk_FwController)) (\<lambda>_. andthen (wr_text (hr_fw_controller r)) (\<lambda>_.
     andthen (wr_key (report_key_number Rk_FwComms)) (\<lambda>_. andthen (wr_text (hr_fw_comms r)) (\<lambda>_.
     andthen (wr_key (report_key_number Rk_Capabilities)) (\<lambda>_. andthen (wr_u64 (ucast (hr_capabilities r))) (\<lambda>_.
     andthen (wr_key (report_key_number Rk_LogOldestSeq)) (\<lambda>_. andthen (wr_u64 (hr_log_oldest_seq r)) (\<lambda>_.
     andthen (wr_key (report_key_number Rk_LogNewestSeq)) (\<lambda>_. andthen (wr_u64 (hr_log_newest_seq r)) (\<lambda>_.
     andthen (wr_key (report_key_number Rk_StateSeq)) (\<lambda>_. andthen (wr_u64 (hr_state_seq r)) (\<lambda>_.
     andthen (wr_key (report_key_number Rk_TimeKnown)) (\<lambda>_. andthen (wr_bool (hr_time_known r)) (\<lambda>_.
     andthen (caps_encode (hr_caps r)) (\<lambda>_.
     andthen (topology_encode (hr_topology r)) (\<lambda>_.
     andthen (wr_key (report_key_number Rk_ClientId)) (\<lambda>_. andthen (wr_u64 (ucast (client_id_get (hr_client_id r)))) (\<lambda>_.
     andthen (wr_key (report_key_number Rk_Generation)) (\<lambda>_. wr_u64 (ucast (generation_get (hr_generation r)))
     )))))))))))))))))))))))))"

definition REPORT_KEY_COUNT :: nat where "REPORT_KEY_COUNT = 30"

definition report_encode :: "hello_report \<Rightarrow> bytes \<Rightarrow> (handshake_error + nat) \<times> bytes" where
  "report_encode r dst =
     (case within_ceiling (hr_caps r) of
        Inl e \<Rightarrow> (Inl e, dst)
      | Inr _ \<Rightarrow> encoding Hs_Cbor (map_err Hs_Cbor (andthen (wr_map REPORT_KEY_COUNT) (\<lambda>_. report_pairs r))) dst)"

record caps_slots =
  cs_sessions :: "u8 option"
  cs_channels :: "u8 option"
  cs_clients :: "u8 option"
  cs_event_queue :: "u16 option"
  cs_inflight :: "u8 option"
  cs_cmd_dedup :: "u16 option"

record topo_slots =
  ts_rev :: "u32 option"
  ts_digest :: "bytes option"
  ts_buses :: "u8 option"
  ts_devices :: "u16 option"
  ts_components :: "u16 option"
  ts_signals :: "u16 option"
  ts_series_elements :: "u16 option"
  ts_params :: "u16 option"
  ts_concerns :: "u16 option"
  ts_selectors :: "u8 option"
  ts_history_signals :: "u16 option"
  ts_topology_depth :: "u8 option"

record report_slots =
  rs_major :: "u8 option"
  rs_minor :: "u8 option"
  rs_session :: "session_id option"
  rs_fw_controller :: "bytes option"
  rs_fw_comms :: "bytes option"
  rs_capabilities :: "u32 option"
  rs_log_oldest_seq :: "u64 option"
  rs_log_newest_seq :: "u64 option"
  rs_state_seq :: "u64 option"
  rs_time_known :: "bool option"
  rs_caps :: caps_slots
  rs_topo :: topo_slots
  rs_client_id :: "client_id option"
  rs_generation :: "generation option"

definition caps_slots_empty :: caps_slots where
  "caps_slots_empty = \<lparr>cs_sessions = None, cs_channels = None, cs_clients = None, cs_event_queue = None,
     cs_inflight = None, cs_cmd_dedup = None\<rparr>"

definition topo_slots_empty :: topo_slots where
  "topo_slots_empty = \<lparr>ts_rev = None, ts_digest = None, ts_buses = None, ts_devices = None, ts_components = None,
     ts_signals = None, ts_series_elements = None, ts_params = None, ts_concerns = None, ts_selectors = None,
     ts_history_signals = None, ts_topology_depth = None\<rparr>"

definition report_slots_empty :: report_slots where
  "report_slots_empty = \<lparr>rs_major = None, rs_minor = None, rs_session = None, rs_fw_controller = None,
     rs_fw_comms = None, rs_capabilities = None, rs_log_oldest_seq = None, rs_log_newest_seq = None,
     rs_state_seq = None, rs_time_known = None, rs_caps = caps_slots_empty, rs_topo = topo_slots_empty,
     rs_client_id = None, rs_generation = None\<rparr>"

primrec report_fill :: "report_key \<Rightarrow> report_slots \<Rightarrow> (reader, handshake_error, report_slots) act" where
  "report_fill Rk_ProtocolMajor slots =
     andthen (map_err Hs_Cbor rd_u8) (\<lambda>v.
     andthen (once (Hs_Duplicate (ReportBody Rk_ProtocolMajor)) (rs_major slots) v) (\<lambda>s.
     ret (slots\<lparr>rs_major := s\<rparr>)))"
| "report_fill Rk_ProtocolMinor slots =
     andthen (map_err Hs_Cbor rd_u8) (\<lambda>v.
     andthen (once (Hs_Duplicate (ReportBody Rk_ProtocolMinor)) (rs_minor slots) v) (\<lambda>s.
     ret (slots\<lparr>rs_minor := s\<rparr>)))"
| "report_fill Rk_SessionId slots =
     andthen (map_err Hs_Cbor rd_u16) (\<lambda>v.
     andthen (once (Hs_Duplicate (ReportBody Rk_SessionId)) (rs_session slots) (session_of v)) (\<lambda>s.
     ret (slots\<lparr>rs_session := s\<rparr>)))"
| "report_fill Rk_FwController slots =
     andthen (map_err Hs_Cbor rd_text) (\<lambda>v.
     andthen (once (Hs_Duplicate (ReportBody Rk_FwController)) (rs_fw_controller slots) v) (\<lambda>s.
     ret (slots\<lparr>rs_fw_controller := s\<rparr>)))"
| "report_fill Rk_FwComms slots =
     andthen (map_err Hs_Cbor rd_text) (\<lambda>v.
     andthen (once (Hs_Duplicate (ReportBody Rk_FwComms)) (rs_fw_comms slots) v) (\<lambda>s.
     ret (slots\<lparr>rs_fw_comms := s\<rparr>)))"
| "report_fill Rk_Capabilities slots =
     andthen (map_err Hs_Cbor rd_u32) (\<lambda>v.
     andthen (once (Hs_Duplicate (ReportBody Rk_Capabilities)) (rs_capabilities slots) v) (\<lambda>s.
     ret (slots\<lparr>rs_capabilities := s\<rparr>)))"
| "report_fill Rk_LogOldestSeq slots =
     andthen (map_err Hs_Cbor rd_u64) (\<lambda>v.
     andthen (once (Hs_Duplicate (ReportBody Rk_LogOldestSeq)) (rs_log_oldest_seq slots) v) (\<lambda>s.
     ret (slots\<lparr>rs_log_oldest_seq := s\<rparr>)))"
| "report_fill Rk_LogNewestSeq slots =
     andthen (map_err Hs_Cbor rd_u64) (\<lambda>v.
     andthen (once (Hs_Duplicate (ReportBody Rk_LogNewestSeq)) (rs_log_newest_seq slots) v) (\<lambda>s.
     ret (slots\<lparr>rs_log_newest_seq := s\<rparr>)))"
| "report_fill Rk_StateSeq slots =
     andthen (map_err Hs_Cbor rd_u64) (\<lambda>v.
     andthen (once (Hs_Duplicate (ReportBody Rk_StateSeq)) (rs_state_seq slots) v) (\<lambda>s.
     ret (slots\<lparr>rs_state_seq := s\<rparr>)))"
| "report_fill Rk_TimeKnown slots =
     andthen (map_err Hs_Cbor rd_bool) (\<lambda>v.
     andthen (once (Hs_Duplicate (ReportBody Rk_TimeKnown)) (rs_time_known slots) v) (\<lambda>s.
     ret (slots\<lparr>rs_time_known := s\<rparr>)))"
| "report_fill Rk_MaxSessions slots =
     andthen (map_err Hs_Cbor rd_u8) (\<lambda>v.
     andthen (once (Hs_Duplicate (ReportBody Rk_MaxSessions)) (cs_sessions (rs_caps slots)) v) (\<lambda>s.
     ret (slots\<lparr>rs_caps := (rs_caps slots)\<lparr>cs_sessions := s\<rparr>\<rparr>)))"
| "report_fill Rk_MaxChannels slots =
     andthen (map_err Hs_Cbor rd_u8) (\<lambda>v.
     andthen (once (Hs_Duplicate (ReportBody Rk_MaxChannels)) (cs_channels (rs_caps slots)) v) (\<lambda>s.
     ret (slots\<lparr>rs_caps := (rs_caps slots)\<lparr>cs_channels := s\<rparr>\<rparr>)))"
| "report_fill Rk_MaxClients slots =
     andthen (map_err Hs_Cbor rd_u8) (\<lambda>v.
     andthen (once (Hs_Duplicate (ReportBody Rk_MaxClients)) (cs_clients (rs_caps slots)) v) (\<lambda>s.
     ret (slots\<lparr>rs_caps := (rs_caps slots)\<lparr>cs_clients := s\<rparr>\<rparr>)))"
| "report_fill Rk_MaxEventQueue slots =
     andthen (map_err Hs_Cbor rd_u16) (\<lambda>v.
     andthen (once (Hs_Duplicate (ReportBody Rk_MaxEventQueue)) (cs_event_queue (rs_caps slots)) v) (\<lambda>s.
     ret (slots\<lparr>rs_caps := (rs_caps slots)\<lparr>cs_event_queue := s\<rparr>\<rparr>)))"
| "report_fill Rk_MaxInflight slots =
     andthen (map_err Hs_Cbor rd_u8) (\<lambda>v.
     andthen (once (Hs_Duplicate (ReportBody Rk_MaxInflight)) (cs_inflight (rs_caps slots)) v) (\<lambda>s.
     ret (slots\<lparr>rs_caps := (rs_caps slots)\<lparr>cs_inflight := s\<rparr>\<rparr>)))"
| "report_fill Rk_MaxCmdDedup slots =
     andthen (map_err Hs_Cbor rd_u16) (\<lambda>v.
     andthen (once (Hs_Duplicate (ReportBody Rk_MaxCmdDedup)) (cs_cmd_dedup (rs_caps slots)) v) (\<lambda>s.
     ret (slots\<lparr>rs_caps := (rs_caps slots)\<lparr>cs_cmd_dedup := s\<rparr>\<rparr>)))"
| "report_fill Rk_Rev slots =
     andthen (map_err Hs_Cbor rd_u32) (\<lambda>v.
     andthen (once (Hs_Duplicate (ReportBody Rk_Rev)) (ts_rev (rs_topo slots)) v) (\<lambda>s.
     ret (slots\<lparr>rs_topo := (rs_topo slots)\<lparr>ts_rev := s\<rparr>\<rparr>)))"
| "report_fill Rk_TopoDigest slots =
     andthen (map_err Hs_Cbor rd_byte_string) (\<lambda>v.
     andthen (lift_sum (eight (ReportBody Rk_TopoDigest) v)) (\<lambda>v'.
     andthen (once (Hs_Duplicate (ReportBody Rk_TopoDigest)) (ts_digest (rs_topo slots)) v') (\<lambda>s.
     ret (slots\<lparr>rs_topo := (rs_topo slots)\<lparr>ts_digest := s\<rparr>\<rparr>))))"
| "report_fill Rk_MaxBuses slots =
     andthen (map_err Hs_Cbor rd_u8) (\<lambda>v.
     andthen (once (Hs_Duplicate (ReportBody Rk_MaxBuses)) (ts_buses (rs_topo slots)) v) (\<lambda>s.
     ret (slots\<lparr>rs_topo := (rs_topo slots)\<lparr>ts_buses := s\<rparr>\<rparr>)))"
| "report_fill Rk_MaxDevices slots =
     andthen (map_err Hs_Cbor rd_u16) (\<lambda>v.
     andthen (once (Hs_Duplicate (ReportBody Rk_MaxDevices)) (ts_devices (rs_topo slots)) v) (\<lambda>s.
     ret (slots\<lparr>rs_topo := (rs_topo slots)\<lparr>ts_devices := s\<rparr>\<rparr>)))"
| "report_fill Rk_MaxComponents slots =
     andthen (map_err Hs_Cbor rd_u16) (\<lambda>v.
     andthen (once (Hs_Duplicate (ReportBody Rk_MaxComponents)) (ts_components (rs_topo slots)) v) (\<lambda>s.
     ret (slots\<lparr>rs_topo := (rs_topo slots)\<lparr>ts_components := s\<rparr>\<rparr>)))"
| "report_fill Rk_MaxSignals slots =
     andthen (map_err Hs_Cbor rd_u16) (\<lambda>v.
     andthen (once (Hs_Duplicate (ReportBody Rk_MaxSignals)) (ts_signals (rs_topo slots)) v) (\<lambda>s.
     ret (slots\<lparr>rs_topo := (rs_topo slots)\<lparr>ts_signals := s\<rparr>\<rparr>)))"
| "report_fill Rk_MaxSeriesElements slots =
     andthen (map_err Hs_Cbor rd_u16) (\<lambda>v.
     andthen (once (Hs_Duplicate (ReportBody Rk_MaxSeriesElements)) (ts_series_elements (rs_topo slots)) v) (\<lambda>s.
     ret (slots\<lparr>rs_topo := (rs_topo slots)\<lparr>ts_series_elements := s\<rparr>\<rparr>)))"
| "report_fill Rk_MaxParams slots =
     andthen (map_err Hs_Cbor rd_u16) (\<lambda>v.
     andthen (once (Hs_Duplicate (ReportBody Rk_MaxParams)) (ts_params (rs_topo slots)) v) (\<lambda>s.
     ret (slots\<lparr>rs_topo := (rs_topo slots)\<lparr>ts_params := s\<rparr>\<rparr>)))"
| "report_fill Rk_MaxConcerns slots =
     andthen (map_err Hs_Cbor rd_u16) (\<lambda>v.
     andthen (once (Hs_Duplicate (ReportBody Rk_MaxConcerns)) (ts_concerns (rs_topo slots)) v) (\<lambda>s.
     ret (slots\<lparr>rs_topo := (rs_topo slots)\<lparr>ts_concerns := s\<rparr>\<rparr>)))"
| "report_fill Rk_MaxSelectors slots =
     andthen (map_err Hs_Cbor rd_u8) (\<lambda>v.
     andthen (once (Hs_Duplicate (ReportBody Rk_MaxSelectors)) (ts_selectors (rs_topo slots)) v) (\<lambda>s.
     ret (slots\<lparr>rs_topo := (rs_topo slots)\<lparr>ts_selectors := s\<rparr>\<rparr>)))"
| "report_fill Rk_MaxHistorySignals slots =
     andthen (map_err Hs_Cbor rd_u16) (\<lambda>v.
     andthen (once (Hs_Duplicate (ReportBody Rk_MaxHistorySignals)) (ts_history_signals (rs_topo slots)) v) (\<lambda>s.
     ret (slots\<lparr>rs_topo := (rs_topo slots)\<lparr>ts_history_signals := s\<rparr>\<rparr>)))"
| "report_fill Rk_MaxTopologyDepth slots =
     andthen (map_err Hs_Cbor rd_u8) (\<lambda>v.
     andthen (once (Hs_Duplicate (ReportBody Rk_MaxTopologyDepth)) (ts_topology_depth (rs_topo slots)) v) (\<lambda>s.
     ret (slots\<lparr>rs_topo := (rs_topo slots)\<lparr>ts_topology_depth := s\<rparr>\<rparr>)))"
| "report_fill Rk_ClientId slots =
     andthen (map_err Hs_Cbor rd_u32) (\<lambda>v.
     andthen (ok_or Hs_NoSuchSlot (client_id_new v)) (\<lambda>v'.
     andthen (once (Hs_Duplicate (ReportBody Rk_ClientId)) (rs_client_id slots) v') (\<lambda>s.
     ret (slots\<lparr>rs_client_id := s\<rparr>))))"
| "report_fill Rk_Generation slots =
     andthen (map_err Hs_Cbor rd_u32) (\<lambda>v.
     andthen (ok_or Hs_ZeroGeneration (generation_new v)) (\<lambda>v'.
     andthen (once (Hs_Duplicate (ReportBody Rk_Generation)) (rs_generation slots) v') (\<lambda>s.
     ret (slots\<lparr>rs_generation := s\<rparr>))))"

definition report_field :: "report_slots \<Rightarrow> int \<Rightarrow> (reader, handshake_error, report_slots) act" where
  "report_field slots number =
     (case report_key_of number of Some key \<Rightarrow> report_fill key slots | None \<Rightarrow> skipped Hs_Cbor slots)"

definition caps_complete :: "caps_slots \<Rightarrow> (reader, handshake_error, caps) act" where
  "caps_complete slots =
     andthen (taken_slot (ReportBody Rk_MaxSessions) (cs_sessions slots)) (\<lambda>a0.
     andthen (taken_slot (ReportBody Rk_MaxChannels) (cs_channels slots)) (\<lambda>a1.
     andthen (taken_slot (ReportBody Rk_MaxClients) (cs_clients slots)) (\<lambda>a2.
     andthen (taken_slot (ReportBody Rk_MaxEventQueue) (cs_event_queue slots)) (\<lambda>a3.
     andthen (taken_slot (ReportBody Rk_MaxInflight) (cs_inflight slots)) (\<lambda>a4.
     andthen (taken_slot (ReportBody Rk_MaxCmdDedup) (cs_cmd_dedup slots)) (\<lambda>a5.
     ret \<lparr>ca_sessions = a0, ca_channels = a1, ca_clients = a2, ca_event_queue = a3, ca_inflight = a4, ca_cmd_dedup = a5\<rparr>))))))"

definition topo_complete :: "topo_slots \<Rightarrow> (reader, handshake_error, topology) act" where
  "topo_complete slots =
     andthen (taken_slot (ReportBody Rk_Rev) (ts_rev slots)) (\<lambda>a0.
     andthen (taken_slot (ReportBody Rk_TopoDigest) (ts_digest slots)) (\<lambda>a1.
     andthen (taken_slot (ReportBody Rk_MaxBuses) (ts_buses slots)) (\<lambda>a2.
     andthen (taken_slot (ReportBody Rk_MaxDevices) (ts_devices slots)) (\<lambda>a3.
     andthen (taken_slot (ReportBody Rk_MaxComponents) (ts_components slots)) (\<lambda>a4.
     andthen (taken_slot (ReportBody Rk_MaxSignals) (ts_signals slots)) (\<lambda>a5.
     andthen (taken_slot (ReportBody Rk_MaxSeriesElements) (ts_series_elements slots)) (\<lambda>a6.
     andthen (taken_slot (ReportBody Rk_MaxParams) (ts_params slots)) (\<lambda>a7.
     andthen (taken_slot (ReportBody Rk_MaxConcerns) (ts_concerns slots)) (\<lambda>a8.
     andthen (taken_slot (ReportBody Rk_MaxSelectors) (ts_selectors slots)) (\<lambda>a9.
     andthen (taken_slot (ReportBody Rk_MaxHistorySignals) (ts_history_signals slots)) (\<lambda>a10.
     andthen (taken_slot (ReportBody Rk_MaxTopologyDepth) (ts_topology_depth slots)) (\<lambda>a11.
     ret \<lparr>tp_rev = a0, tp_digest = a1, tp_buses = a2, tp_devices = a3, tp_components = a4, tp_signals = a5,
       tp_series_elements = a6, tp_params = a7, tp_concerns = a8, tp_selectors = a9,
       tp_history_signals = a10, tp_topology_depth = a11\<rparr>))))))))))))"

definition report_complete :: "report_slots \<Rightarrow> (reader, handshake_error, hello_report) act" where
  "report_complete slots =
     andthen (taken_slot (ReportBody Rk_ProtocolMajor) (rs_major slots)) (\<lambda>major.
     andthen (taken_slot (ReportBody Rk_ProtocolMinor) (rs_minor slots)) (\<lambda>minor.
     andthen (taken_slot (ReportBody Rk_SessionId) (rs_session slots)) (\<lambda>session.
     andthen (taken_slot (ReportBody Rk_FwController) (rs_fw_controller slots)) (\<lambda>fw_controller.
     andthen (taken_slot (ReportBody Rk_FwComms) (rs_fw_comms slots)) (\<lambda>fw_comms.
     andthen (taken_slot (ReportBody Rk_Capabilities) (rs_capabilities slots)) (\<lambda>capabilities.
     andthen (taken_slot (ReportBody Rk_LogOldestSeq) (rs_log_oldest_seq slots)) (\<lambda>log_oldest_seq.
     andthen (taken_slot (ReportBody Rk_LogNewestSeq) (rs_log_newest_seq slots)) (\<lambda>log_newest_seq.
     andthen (taken_slot (ReportBody Rk_StateSeq) (rs_state_seq slots)) (\<lambda>state_seq.
     andthen (taken_slot (ReportBody Rk_TimeKnown) (rs_time_known slots)) (\<lambda>time_known.
     andthen (caps_complete (rs_caps slots)) (\<lambda>caps.
     andthen (topo_complete (rs_topo slots)) (\<lambda>topology.
     andthen (taken_slot (ReportBody Rk_ClientId) (rs_client_id slots)) (\<lambda>client_id.
     andthen (taken_slot (ReportBody Rk_Generation) (rs_generation slots)) (\<lambda>generation.
     ret \<lparr>hr_version = \<lparr>ve_major = major, ve_minor = minor\<rparr>, hr_session = session, hr_fw_controller = fw_controller, hr_fw_comms = fw_comms,
       hr_capabilities = capabilities, hr_log_oldest_seq = log_oldest_seq,
       hr_log_newest_seq = log_newest_seq, hr_state_seq = state_seq, hr_time_known = time_known,
       hr_caps = caps, hr_topology = topology, hr_client_id = client_id, hr_generation = generation\<rparr>))))))))))))))"

definition report_decode :: "bytes \<Rightarrow> session_id \<Rightarrow> handshake_error + hello_report" where
  "report_decode payload envelope = decoding (
     andthen (map_fields Hs_Cbor report_field report_slots_empty) (\<lambda>slots.
     andthen (finishing Hs_Cbor) (\<lambda>_.
     andthen (report_complete slots) (\<lambda>report.
     if hr_session report \<noteq> envelope then fail (Hs_SessionMismatch envelope (hr_session report))
     else andthen (lift_sum (within_ceiling (hr_caps report))) (\<lambda>_. ret report))))) payload"

section \<open>The prologue\<close>

record prologue_fields =
  pf_suite :: suite
  pf_version :: version
  pf_device_id :: device_id
  pf_epoch :: epoch
  pf_challenge :: bytes
  pf_handle :: session_id

definition PROLOGUE_LABEL :: bytes where "PROLOGUE_LABEL = map of_char ''km43/v1/prologue''"

text \<open>The parts in order, copied over a buffer of zeros.\<close>

definition prologue_parts :: "prologue_fields \<Rightarrow> bytes" where
  "prologue_parts f = concat
     [PROLOGUE_LABEL, [suite_num (pf_suite f)], [ve_major (pf_version f), ve_minor (pf_version f)], pf_device_id f,
      be_bytes 4 (epoch_get (pf_epoch f)), pf_challenge f, be_bytes 2 (session_num (pf_handle f))]"

definition prologue_new :: "prologue_fields \<Rightarrow> bytes" where
  "prologue_new f = take PROLOGUE_BYTES (prologue_parts f @ drop (length (prologue_parts f)) (replicate PROLOGUE_BYTES 0))"

definition prologue_from_discovery :: "discovery \<Rightarrow> suite \<Rightarrow> bytes \<Rightarrow> session_id \<Rightarrow> bytes" where
  "prologue_from_discovery d suite challenge handle = prologue_new
     \<lparr>pf_suite = suite, pf_version = di_version d, pf_device_id = di_device_id d, pf_epoch = di_epoch d,
      pf_challenge = challenge, pf_handle = handle\<rparr>"

section \<open>Both are codecs\<close>

definition text_ok :: "bytes \<Rightarrow> bool" where
  "text_ok v \<longleftrightarrow> length v \<le> MAX_STRING \<and> utf8 v"

definition discovery_valid :: "discovery \<Rightarrow> bool" where
  "discovery_valid d \<longleftrightarrow> length (di_device_id d) = BSTR16 \<and> length (di_challenge d) = BSTR16 \<and>
     text_ok (di_model d) \<and> epoch_ok (di_epoch d)"

definition discovery_fields :: "discovery \<Rightarrow> (int \<times> item) list" where
  "discovery_fields d =
     [(1, IUint (ucast (ve_major (di_version d)))), (2, IUint (ucast (ve_minor (di_version d)))),
      (3, IBytes (di_device_id d)), (4, IText (di_model d)), (5, IBool (di_provisioned d)),
      (6, IBool (di_pairing_open d)), (7, IBytes (di_challenge d)), (8, IUint (ucast (epoch_get (di_epoch d))))]"

lemma discovery_pairs_writes: "text_ok (di_model d) \<Longrightarrow> writes_pairs (discovery_pairs d) (discovery_fields d)"
  unfolding discovery_pairs_def discovery_fields_def discover_key_number.simps
  by (intro item_rules) (simp add: text_ok_def)

lemma discovery_fields_ok [simp]:
  "ascending None (discovery_fields d)" "shallow room (discovery_fields d)" "known 8 (discovery_fields d)"
  "length (discovery_fields d) = 8"
  by (simp_all add: discovery_fields_def good_key_def)

definition discovery_slots :: "discovery \<Rightarrow> discover_slots" where
  "discovery_slots d = \<lparr>ds_major = Some (ve_major (di_version d)), ds_minor = Some (ve_minor (di_version d)),
     ds_device_id = Some (di_device_id d), ds_model = Some (di_model d), ds_provisioned = Some (di_provisioned d),
     ds_pairing_open = Some (di_pairing_open d), ds_challenge = Some (di_challenge d), ds_epoch = Some (di_epoch d)\<rparr>"

lemma discover_field_simps:
  "discover_field s 1 = discover_fill Dk_ProtocolMajor s" "discover_field s 2 = discover_fill Dk_ProtocolMinor s"
  "discover_field s 3 = discover_fill Dk_DeviceId s" "discover_field s 4 = discover_fill Dk_Model s"
  "discover_field s 5 = discover_fill Dk_Provisioned s" "discover_field s 6 = discover_fill Dk_PairingOpen s"
  "discover_field s 7 = discover_fill Dk_Challenge s" "discover_field s 8 = discover_fill Dk_Epoch s"
  "8 < j \<Longrightarrow> discover_field s j = skipped Hs_Cbor s"
  by (simp_all add: discover_field_def discover_key_of_def)

lemma discovery_pairs_reads:
  assumes "discovery_valid d"
  shows "reads_pairs discover_field (discovery_fields d) discover_slots_empty (discovery_slots d)"
proof -
  have d: "sixteen key (di_device_id d) = Inr (di_device_id d)" "sixteen key (di_challenge d) = Inr (di_challenge d)"
    "length (di_model d) \<le> MAX_STRING" "utf8 (di_model d)" "epoch_new (epoch_get (di_epoch d)) = Some (di_epoch d)" for key
    using assms by (simp_all add: discovery_valid_def sixteen_def text_ok_def)
  have "reads_pairs discover_field (discovery_fields d) discover_slots_empty (discover_slots_empty
    \<lparr>ds_major := Some (ve_major (di_version d)), ds_minor := Some (ve_minor (di_version d)),
     ds_device_id := Some (di_device_id d), ds_model := Some (di_model d), ds_provisioned := Some (di_provisioned d),
     ds_pairing_open := Some (di_pairing_open d), ds_challenge := Some (di_challenge d), ds_epoch := Some (di_epoch d)\<rparr>)"
    unfolding discovery_fields_def
    by (rule reads_Nil | rule reads_Cons | simp only: discover_field_simps discover_fill.simps | rule slot_rules
      | rule item_rules d | simp add: discover_slots_empty_def; fail)+
  then show ?thesis
    by (simp add: discover_slots_empty_def discovery_slots_def)
qed

lemma discovery_finish:
  assumes "discovery_valid d" and "reading r [] []"
  shows "runs (andthen (finishing Hs_Cbor) (\<lambda>_. discover_complete (discovery_slots d))) r (\<lambda>y _. y = d)"
  by (cases d, cases "di_version d")
    (auto intro!: runs_andthen runs_finishing [OF assms(2)] simp: discover_complete_def taken_slot_def discovery_slots_def)

interpretation discovery: framed_codec discovery_write discovery_decode discovery_fields discovery_valid
  "\<lambda>h. h_kind h = Mt_DiscoverResponse" 8
proof
  fix d h and dst :: bytes
  assume "discovery_valid d" "h_kind h = Mt_DiscoverResponse" "length (frame_bytes h (discovery_fields d)) \<le> length dst"
    "length dst \<le> usize_max"
  then show "discovery_write d h dst =
      (Inr (length (frame_bytes h (discovery_fields d))), splice dst 0 (frame_bytes h (discovery_fields d)))"
    unfolding discovery_write_def
    by (simp add: expected_kind_def, intro encloses_fields)
      (auto simp: discovery_pairs_writes discovery_valid_def DISCOVER_KEY_COUNT_def)
next
  fix d h fs
  assume d: "discovery_valid d" and h: "h_kind h = Mt_DiscoverResponse" "session_ok (h_session h)"
    and fs: "extends 8 6 fs" "length (frame_bytes h (discovery_fields d @ fs)) \<le> usize_max"
  obtain e where "envelope_decode (frame_bytes h (discovery_fields d @ fs)) = Inr e" "e_header e = h"
    "enclosed Hs_Cbor discover_field discover_slots_empty (\<lambda>slots.
          andthen (finishing Hs_Cbor) (\<lambda>_. discover_complete slots)) e = Inr d"
    by (rule encloses_decodes_fields [where err = Hs_Cbor and f = "\<lambda>slots. andthen (finishing Hs_Cbor) (\<lambda>_. discover_complete slots)",
      OF discovery_pairs_reads [OF d] _ _ _ fs(1) _ h(2) fs(2) discovery_finish [OF d]])
      (auto simp: discover_field_simps)
  then show "\<exists>e. envelope_decode (frame_bytes h (discovery_fields d @ fs)) = Inr e \<and> e_header e = h \<and> discovery_decode e = Inr d"
    using h(1) by (auto simp: discovery_decode_def expected_kind_def)
qed

definition caps_fields :: "caps \<Rightarrow> (int \<times> item) list" where
  "caps_fields c =
     [(12, IUint (ucast (ca_sessions c))), (13, IUint (ucast (ca_channels c))), (14, IUint (ucast (ca_clients c))),
      (15, IUint (ucast (ca_event_queue c))), (16, IUint (ucast (ca_inflight c))), (17, IUint (ucast (ca_cmd_dedup c)))]"

definition topology_fields :: "topology \<Rightarrow> (int \<times> item) list" where
  "topology_fields t = (18, IUint (ucast (tp_rev t))) # (19, IBytes (tp_digest t)) #
     map (\<lambda>(key, v). (report_key_number key, IUint v)) (topology_caps t)"

definition report_fields :: "hello_report \<Rightarrow> (int \<times> item) list" where
  "report_fields r =
     (1, IUint (ucast (ve_major (hr_version r)))) # (2, IUint (ucast (ve_minor (hr_version r)))) #
     (3, IUint (ucast (session_num (hr_session r)))) # (4, IText (hr_fw_controller r)) # (5, IText (hr_fw_comms r)) #
     (6, IUint (ucast (hr_capabilities r))) # (7, IUint (hr_log_oldest_seq r)) # (8, IUint (hr_log_newest_seq r)) #
     (9, IUint (hr_state_seq r)) # (10, IBool (hr_time_known r)) #
     caps_fields (hr_caps r) @ topology_fields (hr_topology r) @
     [(30, IUint (ucast (client_id_get (hr_client_id r)))), (31, IUint (ucast (generation_get (hr_generation r))))]"

definition report_valid :: "session_id \<Rightarrow> hello_report \<Rightarrow> bool" where
  "report_valid session r \<longleftrightarrow> hr_session r = session \<and> session_ok session \<and> text_ok (hr_fw_controller r) \<and>
     text_ok (hr_fw_comms r) \<and> ca_channels (hr_caps r) \<le> CHANNEL_CEILING \<and> length (tp_digest (hr_topology r)) = 8 \<and>
     client_id_ok (hr_client_id r) \<and> generation_ok (hr_generation r)"

lemma writes_for_each:
  assumes "\<And>x. writes_pairs (f x) [g x]"
  shows "writes_pairs (for_each f xs) (map g xs)"
proof (induction xs)
  case (Cons x xs)
  then show ?case
    using writes_append [OF assms [of x] Cons.IH] by simp
qed (simp only: for_each.simps list.map writes_none)

lemma caps_writes: "writes_pairs (caps_encode c) (caps_fields c)"
  unfolding caps_encode_def caps_fields_def report_key_number.simps by (intro item_rules)

lemma topology_writes: "writes_pairs (topology_encode t) (topology_fields t)"
  unfolding topology_encode_def topology_fields_def report_key_number.simps
  by (intro item_rules writes_for_each) (auto split: prod.splits intro: item_rules)

lemma report_writes:
  assumes "report_valid session r"
  shows "writes_pairs (report_pairs r) (report_fields r)"
proof -
  have "length (hr_fw_controller r) \<le> MAX_STRING" "length (hr_fw_comms r) \<le> MAX_STRING"
    using assms by (simp_all add: report_valid_def text_ok_def)
  then show ?thesis
    unfolding report_pairs_def report_fields_def report_key_number.simps
    by (intro writes_Cons writes_append caps_writes topology_writes item_rules)
qed

lemma report_fields_ok [simp]:
  "ascending None (report_fields r)" "shallow room (report_fields r)" "known 31 (report_fields r)"
  "length (report_fields r) = 30"
  by (simp_all add: report_fields_def caps_fields_def topology_fields_def topology_caps_def good_key_def)

lemma report_field_simps:
  "report_field s 1 = report_fill Rk_ProtocolMajor s"
  "report_field s 2 = report_fill Rk_ProtocolMinor s"
  "report_field s 3 = report_fill Rk_SessionId s"
  "report_field s 4 = report_fill Rk_FwController s"
  "report_field s 5 = report_fill Rk_FwComms s"
  "report_field s 6 = report_fill Rk_Capabilities s"
  "report_field s 7 = report_fill Rk_LogOldestSeq s"
  "report_field s 8 = report_fill Rk_LogNewestSeq s"
  "report_field s 9 = report_fill Rk_StateSeq s"
  "report_field s 10 = report_fill Rk_TimeKnown s"
  "report_field s 12 = report_fill Rk_MaxSessions s"
  "report_field s 13 = report_fill Rk_MaxChannels s"
  "report_field s 14 = report_fill Rk_MaxClients s"
  "report_field s 15 = report_fill Rk_MaxEventQueue s"
  "report_field s 16 = report_fill Rk_MaxInflight s"
  "report_field s 17 = report_fill Rk_MaxCmdDedup s"
  "report_field s 18 = report_fill Rk_Rev s"
  "report_field s 19 = report_fill Rk_TopoDigest s"
  "report_field s 20 = report_fill Rk_MaxBuses s"
  "report_field s 21 = report_fill Rk_MaxDevices s"
  "report_field s 22 = report_fill Rk_MaxComponents s"
  "report_field s 23 = report_fill Rk_MaxSignals s"
  "report_field s 24 = report_fill Rk_MaxSeriesElements s"
  "report_field s 25 = report_fill Rk_MaxParams s"
  "report_field s 26 = report_fill Rk_MaxConcerns s"
  "report_field s 27 = report_fill Rk_MaxSelectors s"
  "report_field s 28 = report_fill Rk_MaxHistorySignals s"
  "report_field s 29 = report_fill Rk_MaxTopologyDepth s"
  "report_field s 30 = report_fill Rk_ClientId s"
  "report_field s 31 = report_fill Rk_Generation s"
  "31 < j \<Longrightarrow> report_field s j = skipped Hs_Cbor s"
  by (simp_all add: report_field_def report_key_of_def)

definition caps_known :: "caps \<Rightarrow> caps_slots" where
  "caps_known c = \<lparr>cs_sessions = Some (ca_sessions c), cs_channels = Some (ca_channels c),
     cs_clients = Some (ca_clients c), cs_event_queue = Some (ca_event_queue c), cs_inflight = Some (ca_inflight c),
     cs_cmd_dedup = Some (ca_cmd_dedup c)\<rparr>"

definition topo_known :: "topology \<Rightarrow> topo_slots" where
  "topo_known t = \<lparr>ts_rev = Some (tp_rev t), ts_digest = Some (tp_digest t), ts_buses = Some (tp_buses t),
     ts_devices = Some (tp_devices t), ts_components = Some (tp_components t), ts_signals = Some (tp_signals t),
     ts_series_elements = Some (tp_series_elements t), ts_params = Some (tp_params t), ts_concerns = Some (tp_concerns t),
     ts_selectors = Some (tp_selectors t), ts_history_signals = Some (tp_history_signals t),
     ts_topology_depth = Some (tp_topology_depth t)\<rparr>"

definition report_known :: "hello_report \<Rightarrow> report_slots" where
  "report_known r = \<lparr>rs_major = Some (ve_major (hr_version r)), rs_minor = Some (ve_minor (hr_version r)),
     rs_session = Some (hr_session r), rs_fw_controller = Some (hr_fw_controller r), rs_fw_comms = Some (hr_fw_comms r),
     rs_capabilities = Some (hr_capabilities r), rs_log_oldest_seq = Some (hr_log_oldest_seq r),
     rs_log_newest_seq = Some (hr_log_newest_seq r), rs_state_seq = Some (hr_state_seq r),
     rs_time_known = Some (hr_time_known r), rs_caps = caps_known (hr_caps r), rs_topo = topo_known (hr_topology r),
     rs_client_id = Some (hr_client_id r), rs_generation = Some (hr_generation r)\<rparr>"

lemmas slots_simps = report_slots.simps caps_slots.simps topo_slots.simps

lemma caps_reads:
  "reads_pairs report_field (caps_fields c) (s\<lparr>rs_caps := caps_slots_empty\<rparr>) (s\<lparr>rs_caps := caps_known c\<rparr>)"
  unfolding caps_fields_def caps_slots_empty_def caps_known_def
  by (cases s, simp only: slots_simps)
    (rule reads_Nil | simp only: slots_simps | rule reads_Cons | simp only: report_field_simps report_fill.simps | rule slot_rules
      | rule item_rules | simp; fail)+

lemma topology_reads:
  assumes "length (tp_digest t) = 8"
  shows "reads_pairs report_field (topology_fields t) (s\<lparr>rs_topo := topo_slots_empty\<rparr>) (s\<lparr>rs_topo := topo_known t\<rparr>)"
proof -
  have d: "eight key (tp_digest t) = Inr (tp_digest t)" for key
    using assms by (simp add: eight_def)
  show ?thesis
    unfolding topology_fields_def topology_caps_def topo_slots_empty_def topo_known_def
    by (cases s, simp only: slots_simps list.map prod.case report_key_number.simps)
      (rule reads_Nil | simp only: slots_simps | rule reads_Cons | simp only: report_field_simps report_fill.simps | rule slot_rules
        | rule item_rules d | simp; fail)+
qed

lemma report_reads:
  assumes "report_valid session r"
  shows "reads_pairs report_field (report_fields r) report_slots_empty (report_known r)"
proof -
  let ?last = "(report_known r)\<lparr>rs_client_id := None, rs_generation := None\<rparr>"
  let ?mid = "?last\<lparr>rs_topo := topo_slots_empty\<rparr>"
  let ?first = "?mid\<lparr>rs_caps := caps_slots_empty\<rparr>"
  have r: "length (hr_fw_controller r) \<le> MAX_STRING" "utf8 (hr_fw_controller r)" "length (hr_fw_comms r) \<le> MAX_STRING"
    "utf8 (hr_fw_comms r)" "session_of (session_num (hr_session r)) = hr_session r"
    "client_id_new (client_id_get (hr_client_id r)) = Some (hr_client_id r)"
    "generation_new (generation_get (hr_generation r)) = Some (hr_generation r)"
    using assms session_of_num by (auto simp: report_valid_def text_ok_def)
  have "reads_item (report_field s 3) (IUint (ucast (session_num (hr_session r)))) (s\<lparr>rs_session := Some (hr_session r)\<rparr>)"
    if "rs_session s = None" for s :: report_slots
  proof -
    have "reads_item (map_err Hs_Cbor rd_u16) (IUint (ucast (session_num (hr_session r)))) (session_num (hr_session r))"
      by (intro item_rules)
    from reads_slot_map [OF this that, where g = session_of and upd = "\<lambda>v. s\<lparr>rs_session := v\<rparr>"] show ?thesis
      unfolding report_field_simps report_fill.simps r(5) by blast
  qed
  note session = this
  have "reads_pairs report_field (caps_fields (hr_caps r)) ?first ?mid"
    using caps_reads [of "hr_caps r" ?mid] by (simp add: report_known_def)
  moreover have "reads_pairs report_field (topology_fields (hr_topology r)) ?mid ?last"
    using topology_reads [of "hr_topology r" ?last] assms by (simp add: report_known_def report_valid_def)
  moreover have "reads_pairs report_field [(30, IUint (ucast (client_id_get (hr_client_id r)))),
      (31, IUint (ucast (generation_get (hr_generation r))))] ?last (report_known r)"
    unfolding report_known_def
    by (simp only: slots_simps)
      (rule reads_Nil | simp only: slots_simps | rule reads_Cons | simp only: report_field_simps report_fill.simps | rule slot_rules
        | rule item_rules r | simp; fail)+
  ultimately have "reads_pairs report_field (caps_fields (hr_caps r) @ topology_fields (hr_topology r) @
      [(30, IUint (ucast (client_id_get (hr_client_id r)))), (31, IUint (ucast (generation_get (hr_generation r))))])
      ?first (report_known r)"
    by (intro reads_pairs_append)
  then have tail: "reads_pairs report_field (caps_fields (hr_caps r) @ topology_fields (hr_topology r) @
      [(30, IUint (ucast (client_id_get (hr_client_id r)))), (31, IUint (ucast (generation_get (hr_generation r))))])
      s (report_known r)" if "s = ?first" for s
    using that by simp
  show ?thesis
    unfolding report_fields_def
    by (rule tail, simp add: report_known_def; fail | simp only: report_slots_empty_def slots_simps
      | rule reads_Cons | rule session | simp only: report_field_simps report_fill.simps | rule slot_rules
      | rule item_rules r | simp add: report_known_def; fail)+
qed

lemma report_decoded:
  assumes "report_valid session r" and "extends 31 INNER fs" and "length (map_bytes (report_fields r @ fs)) \<le> usize_max"
  shows "report_decode (map_bytes (report_fields r @ fs)) session = Inr r"
  unfolding report_decode_def
proof (rule decodes_fields [OF report_reads [OF assms(1)] _ _ _ assms(2) _ assms(3)])
  fix s assume s: "reading s [] []"
  have "hr_session r = session" "within_ceiling (hr_caps r) = Inr ()"
    using assms(1) by (auto simp: report_valid_def within_ceiling_def)
  then show "runs (andthen (finishing Hs_Cbor) (\<lambda>_. andthen (report_complete (report_known r)) (\<lambda>report.
      if hr_session report \<noteq> session then fail (Hs_SessionMismatch session (hr_session report))
      else andthen (lift_sum (within_ceiling (hr_caps report))) (\<lambda>_. ret report)))) s (\<lambda>y _. y = r)"
    by (intro runs_andthen runs_finishing [OF s]; cases r; cases "hr_version r"; cases "hr_caps r"; cases "hr_topology r")
      (simp add: report_complete_def caps_complete_def topo_complete_def taken_slot_def report_known_def caps_known_def
        topo_known_def)
qed (simp_all add: report_field_simps)

interpretation report: body_codec report_encode "\<lambda>bs. report_decode bs session" report_fields "report_valid session" 31 for session
proof
  fix r and dst :: bytes
  assume r: "report_valid session r" and dst: "length (map_bytes (report_fields r)) \<le> length dst" "length dst \<le> usize_max"
  have "within_ceiling (hr_caps r) = Inr ()"
    using r by (auto simp: report_valid_def within_ceiling_def)
  then show "report_encode r dst = (Inr (length (map_bytes (report_fields r))), splice dst 0 (map_bytes (report_fields r)))"
    using encodes_fields [OF report_writes [OF r] _ _ _ dst, of REPORT_KEY_COUNT Hs_Cbor]
    by (simp add: report_encode_def REPORT_KEY_COUNT_def)
qed (rule report_decoded)

section \<open>Sizes\<close>

lemma width_narrow:
  "width_bytes (width_of (ucast (a :: u8))) \<le> 1" "width_bytes (width_of (ucast (b :: u16))) \<le> 2"
  "width_bytes (width_of (ucast (c :: u32))) \<le> 4"
  using unat_u8 [of a] unat_u16 [of b] unat_u32 [of c]
  by (simp_all add: width_of_def word_le_nat_alt ucast_u64_unat)

lemma width_text: "length v \<le> MAX_STRING \<Longrightarrow> width_bytes (width_of (of_nat (length v))) \<le> 1"
  by (simp add: width_of_def MAX_STRING_def word_le_nat_alt unat_of_nat take_bit_nat_eq_self)

lemma width_of_wide_keys:
  "width_of 24 = One" "width_of 25 = One" "width_of 26 = One" "width_of 27 = One" "width_of 28 = One"
  "width_of 29 = One" "width_of 30 = One" "width_of 31 = One"
  by (simp_all add: width_of_def)

lemma discovery_bound:
  assumes "discovery_valid d"
  shows "length (map_bytes (discovery_fields d)) \<le> MAX_DISCOVER_BODY"
proof -
  have "length (di_device_id d) = 16" "length (di_challenge d) = 16" "length (di_model d) \<le> 64"
    using assms by (simp_all add: discovery_valid_def text_ok_def BSTR16_def MAX_STRING_def)
  then show ?thesis
    using width_narrow(1) [of "ve_major (di_version d)"] width_narrow(1) [of "ve_minor (di_version d)"]
      width_narrow(3) [of "epoch_get (di_epoch d)"] width_text [of "di_model d"]
    by (simp add: map_bytes_eq discovery_fields_def MAX_DISCOVER_BODY_def TEXT_MAX_def MAX_STRING_def)
qed

lemma report_bound:
  assumes "report_valid session r"
  shows "length (map_bytes (report_fields r)) \<le> MAX_HELLO_REPORT"
proof -
  have r: "length (hr_fw_controller r) \<le> 64" "length (hr_fw_comms r) \<le> 64" "length (tp_digest (hr_topology r)) = 8"
    using assms by (simp_all add: report_valid_def text_ok_def MAX_STRING_def)
  have c: "length (field_bytes (caps_fields (hr_caps r))) \<le> 20"
    using width_narrow(1) [of "ca_sessions (hr_caps r)"] width_narrow(1) [of "ca_channels (hr_caps r)"]
      width_narrow(1) [of "ca_clients (hr_caps r)"] width_narrow(2) [of "ca_event_queue (hr_caps r)"]
      width_narrow(1) [of "ca_inflight (hr_caps r)"] width_narrow(2) [of "ca_cmd_dedup (hr_caps r)"]
    by (simp add: caps_fields_def)
  have t: "length (field_bytes (topology_fields (hr_topology r))) \<le> TOPOLOGY_REPORT_BYTES"
    using r(3) width_narrow(3) [of "tp_rev (hr_topology r)"] width_narrow(1) [of "tp_buses (hr_topology r)"]
      width_narrow(2) [of "tp_devices (hr_topology r)"] width_narrow(2) [of "tp_components (hr_topology r)"]
      width_narrow(2) [of "tp_signals (hr_topology r)"] width_narrow(2) [of "tp_series_elements (hr_topology r)"]
      width_narrow(2) [of "tp_params (hr_topology r)"] width_narrow(2) [of "tp_concerns (hr_topology r)"]
      width_narrow(1) [of "tp_selectors (hr_topology r)"] width_narrow(2) [of "tp_history_signals (hr_topology r)"]
      width_narrow(1) [of "tp_topology_depth (hr_topology r)"]
    by (simp add: topology_fields_def topology_caps_def TOPOLOGY_REPORT_BYTES_def width_of_wide_keys)
  have "length (map_bytes (report_fields r)) = 2 + length (field_bytes (report_fields r))"
    by (simp add: map_bytes_eq width_of_wide_keys)
  then show ?thesis
    using r(1,2) c t width_narrow(1) [of "ve_major (hr_version r)"] width_narrow(1) [of "ve_minor (hr_version r)"]
      width_narrow(2) [of "session_num (hr_session r)"] width_text [of "hr_fw_controller r"] width_text [of "hr_fw_comms r"]
      width_narrow(3) [of "hr_capabilities r"] width_bytes_le [of "width_of (hr_log_oldest_seq r)"]
      width_bytes_le [of "width_of (hr_log_newest_seq r)"] width_bytes_le [of "width_of (hr_state_seq r)"]
      width_narrow(3) [of "client_id_get (hr_client_id r)"] width_narrow(3) [of "generation_get (hr_generation r)"]
    by (simp add: report_fields_def MAX_HELLO_REPORT_def TEXT_MAX_def MAX_STRING_def width_of_wide_keys)
qed

section \<open>What a report decodes to\<close>

definition report_body :: "(reader, handshake_error, hello_report) act" where
  "report_body = andthen (map_fields Hs_Cbor report_field report_slots_empty) (\<lambda>slots.
     andthen (finishing Hs_Cbor) (\<lambda>_. report_complete slots))"

lemma report_decode_eq:
  "report_decode bs session =
     (case decoding report_body bs of
        Inl e \<Rightarrow> Inl e
      | Inr r \<Rightarrow> if hr_session r \<noteq> session then Inl (Hs_SessionMismatch session (hr_session r))
          else map_sum id (\<lambda>_. r) (within_ceiling (hr_caps r)))"
proof -
  have "report_decode bs session = decoding (andthen report_body (\<lambda>report.
     if hr_session report \<noteq> session then fail (Hs_SessionMismatch session (hr_session report))
     else andthen (lift_sum (within_ceiling (hr_caps report))) (\<lambda>_. ret report))) bs"
    by (simp add: report_decode_def report_body_def andthen_assoc)
  then show ?thesis
    by (auto simp: decoding_def andthen_def [of report_body] within_ceiling_def split: prod.splits sum.splits)
qed

lemma report_body_decodes:
  assumes "report_valid session r" and "length (map_bytes (report_fields r)) \<le> usize_max"
  shows "decoding report_body (map_bytes (report_fields r)) = Inr r"
  using report.decode_fields [OF assms] unfolding report_decode_eq
  by (auto simp: within_ceiling_def split: sum.splits if_splits)

section \<open>The prologue binds every field\<close>

definition prologue_ok :: "prologue_fields \<Rightarrow> bool" where
  "prologue_ok f \<longleftrightarrow> length (pf_device_id f) = DEVICE_ID_BYTES \<and> length (pf_challenge f) = CHALLENGE_BYTES \<and>
     session_ok (pf_handle f)"

lemma prologue_new_eq: "prologue_ok f \<Longrightarrow> prologue_new f = prologue_parts f"
  by (simp add: prologue_new_def prologue_parts_def prologue_ok_def PROLOGUE_BYTES_def PROLOGUE_LABEL_def
      DEVICE_ID_BYTES_def CHALLENGE_BYTES_def)

lemma be_bytes_2_inject [simp]: "be_bytes 2 (x :: u16) = be_bytes 2 y \<longleftrightarrow> x = y"
proof
  assume "be_bytes 2 x = be_bytes 2 y"
  then have "ucast (drop_bit 8 x) = (ucast (drop_bit 8 y) :: u8)" "ucast x = (ucast y :: u8)"
    by (simp_all add: numeral_2_eq_2)
  then have high: "bit (ucast (drop_bit 8 x) :: u8) n \<longleftrightarrow> bit (ucast (drop_bit 8 y) :: u8) n"
    and low: "bit (ucast x :: u8) n \<longleftrightarrow> bit (ucast y :: u8) n" for n
    by simp_all
  show "x = y"
  proof (rule bit_word_eqI)
    fix n assume n: "n < LENGTH(16)"
    show "bit x n = bit y n"
      using low [of n] high [of "n - 8"] n by (cases "n < 8") (auto simp: bit_simps)
  qed
qed simp

section \<open>Properties\<close>

text \<open>C34. A \<open>Discover\<close> rewritten in flight fails the handshake: the prologue is 57 bytes, and two
  prologues are the same bytes only if the suite, the version, the \<open>device_id\<close>, the epoch, the
  challenge and the handle are all the same, so the two ends hash the same thing only if they
  saw the same thing.\<close>

theorem prologue_binds_every_field:
  fixes f g :: prologue_fields
  assumes "prologue_ok f" and "prologue_ok g"
  shows "length (prologue_new f) = PROLOGUE_BYTES \<and> (prologue_new f = prologue_new g \<longleftrightarrow> f = g)"
proof (rule conjI)
  show "length (prologue_new f) = PROLOGUE_BYTES"
    unfolding prologue_new_eq [OF assms(1)]
    using assms(1) by (simp add: prologue_parts_def prologue_ok_def PROLOGUE_BYTES_def PROLOGUE_LABEL_def
        DEVICE_ID_BYTES_def CHALLENGE_BYTES_def)
  have session: "session_num s = session_num t \<longleftrightarrow> s = t" if "session_ok s" "session_ok t" for s t
    using session_of_num [OF that(1)] session_of_num [OF that(2)] by metis
  show "prologue_new f = prologue_new g \<longleftrightarrow> f = g"
    unfolding prologue_new_eq [OF assms(1)] prologue_new_eq [OF assms(2)]
    using assms by (cases f; cases g; cases "pf_version f"; cases "pf_version g")
      (auto simp: prologue_parts_def prologue_ok_def suite.num_of_inj session)
qed

lemma prologue_binds_every_field_witness:
  "let f = \<lparr>pf_suite = Su_X25519ChachapolySha256, pf_version = V1_0, pf_device_id = replicate 16 7, pf_epoch = Epoch 1,
      pf_challenge = replicate 16 9, pf_handle = Assigned 3\<rparr> in
   prologue_new f \<noteq> prologue_new (f\<lparr>pf_epoch := Epoch 2\<rparr>) \<and> length (prologue_new f) = PROLOGUE_BYTES"
proof -
  let ?f = "\<lparr>pf_suite = Su_X25519ChachapolySha256, pf_version = V1_0, pf_device_id = replicate 16 7, pf_epoch = Epoch 1,
      pf_challenge = replicate 16 9, pf_handle = Assigned 3\<rparr> :: prologue_fields"
  have "prologue_ok ?f" "prologue_ok (?f\<lparr>pf_epoch := Epoch 2\<rparr>)"
    by (simp_all add: prologue_ok_def DEVICE_ID_BYTES_def CHALLENGE_BYTES_def)
  from prologue_binds_every_field [OF this] show ?thesis
    by simp
qed

text \<open>A client acts on a \<open>Discover\<close> as the controller sent it: written within
  \<open>MAX_DISCOVER_BODY\<close> and eleven bytes of envelope, it decodes to what was sent, and the prologue
  the client builds from it is the one the controller builds from its own values.\<close>

theorem discovery_round_trip:
  assumes "discovery_valid d" and "h_kind h = Mt_DiscoverResponse" and "session_ok (h_session h)"
    and "11 + MAX_DISCOVER_BODY \<le> length dst" and "length dst \<le> usize_max"
  shows "\<exists>n out e d'. discovery_write d h dst = (Inr n, out) \<and> n \<le> 11 + MAX_DISCOVER_BODY \<and>
    envelope_decode (take n out) = Inr e \<and> e_header e = h \<and> discovery_decode e = Inr d' \<and> d' = d \<and>
    prologue_from_discovery d' suite challenge (h_session (e_header e)) = prologue_new
      \<lparr>pf_suite = suite, pf_version = di_version d, pf_device_id = di_device_id d, pf_epoch = di_epoch d,
       pf_challenge = challenge, pf_handle = h_session h\<rparr>"
proof -
  have "length (frame_bytes h (discovery_fields d)) \<le> 11 + MAX_DISCOVER_BODY"
    using length_frame_bytes [of h "discovery_fields d"] discovery_bound [OF assms(1)] by simp
  then show ?thesis
    using discovery.round_trip [OF assms(1-3) _ assms(5)] assms(4)
    by (fastforce simp: prologue_from_discovery_def)
qed

lemma discovery_round_trip_witness:
  "let d = \<lparr>di_version = V1_0, di_device_id = replicate 16 7, di_model = [0x6F, 0x38, 0x39], di_provisioned = True,
      di_pairing_open = False, di_challenge = replicate 16 9, di_epoch = Epoch 3\<rparr>;
    h = \<lparr>h_kind = Mt_DiscoverResponse, h_session = Assigned 4, h_req_id = 1\<rparr> in
   \<exists>n out e. discovery_write d h (replicate 200 0) = (Inr n, out) \<and> envelope_decode (take n out) = Inr e \<and>
     discovery_decode e = Inr d"
proof -
  let ?d = "\<lparr>di_version = V1_0, di_device_id = replicate 16 7, di_model = [0x6F, 0x38, 0x39], di_provisioned = True,
      di_pairing_open = False, di_challenge = replicate 16 9, di_epoch = Epoch 3\<rparr> :: discovery"
  have "utf8 [0x6F, 0x38, 0x39]"
    by (simp add: utf8.simps)
  then have "discovery_valid ?d"
    by (simp add: discovery_valid_def BSTR16_def text_ok_def MAX_STRING_def epoch_ok_def)
  from discovery_round_trip [OF this, where h = "\<lparr>h_kind = Mt_DiscoverResponse, h_session = Assigned 4, h_req_id = 1\<rparr>"
      and dst = "replicate 200 0" and suite = Su_X25519ChachapolySha256 and challenge = "[]"] show ?thesis
    by (auto simp: MAX_DISCOVER_BODY_def TEXT_MAX_def MAX_STRING_def usize_max_def Let_def)
qed

text \<open>A session's report is what the controller said, and of that session: it is written within
  \<open>MAX_HELLO_REPORT\<close>, reads back as it was under the session it was written for and is refused
  under any other, and no bytes at all decode to a report of another session or with more
  channels than the ceiling.\<close>

theorem hello_report_round_trip:
  assumes "report_valid session r" and "MAX_HELLO_REPORT \<le> length dst" and "length dst \<le> usize_max"
  shows "\<exists>n out. report_encode r dst = (Inr n, out) \<and> n \<le> MAX_HELLO_REPORT \<and>
    (\<forall>other. report_decode (take n out) other =
      (if other = session then Inr r else Inl (Hs_SessionMismatch other session))) \<and>
    (\<forall>bs r'. report_decode bs session = Inr r' \<longrightarrow> hr_session r' = session \<and> ca_channels (hr_caps r') \<le> CHANNEL_CEILING)"
proof -
  let ?bs = "map_bytes (report_fields r)"
  have n: "length ?bs \<le> MAX_HELLO_REPORT"
    by (rule report_bound [OF assms(1)])
  have r: "hr_session r = session" "within_ceiling (hr_caps r) = Inr ()"
    using assms(1) by (auto simp: report_valid_def within_ceiling_def)
  have "decoding report_body ?bs = Inr r"
    using n assms by (intro report_body_decodes [OF assms(1)]) simp
  then have "report_decode ?bs other = (if other = session then Inr r else Inl (Hs_SessionMismatch other session))" for other
    using r by (simp add: report_decode_eq)
  moreover have "report_encode r dst = (Inr (length ?bs), splice dst 0 ?bs)"
    using n assms by (intro report.encode_writes [OF assms(1)]) simp_all
  moreover have "hr_session r' = session \<and> ca_channels (hr_caps r') \<le> CHANNEL_CEILING"
    if "report_decode bs session = Inr r'" for bs r'
    using that by (auto simp: report_decode_eq within_ceiling_def split: sum.splits if_splits)
  ultimately show ?thesis
    using n by (auto simp: splice_def)
qed

lemma hello_report_round_trip_witness:
  "let r = \<lparr>hr_version = V1_0, hr_session = Assigned 4, hr_fw_controller = [], hr_fw_comms = [], hr_capabilities = 5,
      hr_log_oldest_seq = 1, hr_log_newest_seq = 9, hr_state_seq = 2, hr_time_known = True, hr_caps = caps_this_controller,
      hr_topology = topology_this_controller, hr_client_id = ClientId 2, hr_generation = Generation 1\<rparr> in
   \<exists>n out. report_encode r (replicate 300 0) = (Inr n, out) \<and> report_decode (take n out) (Assigned 4) = Inr r \<and>
     report_decode (take n out) (Assigned 5) = Inl (Hs_SessionMismatch (Assigned 5) (Assigned 4))"
proof -
  let ?r = "\<lparr>hr_version = V1_0, hr_session = Assigned 4, hr_fw_controller = [], hr_fw_comms = [], hr_capabilities = 5,
      hr_log_oldest_seq = 1, hr_log_newest_seq = 9, hr_state_seq = 2, hr_time_known = True, hr_caps = caps_this_controller,
      hr_topology = topology_this_controller, hr_client_id = ClientId 2, hr_generation = Generation 1\<rparr> :: hello_report"
  have "report_valid (Assigned 4) ?r"
    by (simp add: report_valid_def text_ok_def utf8.simps caps_this_controller_def CHANNEL_CEILING_def
        topology_this_controller_def client_id_ok_def generation_ok_def)
  from hello_report_round_trip [OF this, of "replicate 300 0"] show ?thesis
    by (auto simp: MAX_HELLO_REPORT_def TEXT_MAX_def TOPOLOGY_REPORT_BYTES_def MAX_STRING_def usize_max_def Let_def)
qed

end
