(* ===== verification/Enrolment.thy ===== *)
theory Enrolment
  imports Report
begin

text \<open>
  \<open>crates/km43/src/kdf/stored.rs\<close>: the enrolment a client holds, its copy in storage and the way
  back, which compares the stored \<open>device_id\<close> with a \<open>Discover\<close> and nothing else.
\<close>

definition STORED_FORMAT :: u8 where "STORED_FORMAT = 2"
definition STORED_BYTES :: nat where
  "STORED_BYTES = 1 + DEVICE_ID_BYTES + KEY_BYTES + KEY_BYTES + 1 + 4 + 4 + 4"

record enrolment =
  en_device_id :: device_id
  en_controller :: public_key
  en_key :: static_key
  en_suite :: suite
  en_epoch :: epoch
  en_slot :: "(client_id \<times> generation) option"

definition enrolment_new :: "device_id \<Rightarrow> public_key \<Rightarrow> static_key \<Rightarrow> suite \<Rightarrow> epoch \<Rightarrow> enrolment" where
  "enrolment_new device_id controller key suite epoch =
     \<lparr>en_device_id = device_id, en_controller = controller, en_key = key, en_suite = suite,
      en_epoch = epoch, en_slot = None\<rparr>"

definition with_slot :: "client_id \<Rightarrow> generation \<Rightarrow> enrolment \<Rightarrow> enrolment" where
  "with_slot c g en = en\<lparr>en_slot := Some (c, g)\<rparr>"

definition enrolment_admit_key :: "crypto \<Rightarrow> enrolment \<Rightarrow> noise_error + bytes" where
  "enrolment_admit_key C en = static_admit_key C (en_key en) (en_device_id en) (en_controller en)"

record stored_enrolment =
  st_device_id :: device_id
  st_controller :: public_key
  st_secret :: bytes
  st_suite :: suite
  st_epoch :: epoch
  st_slot :: "(client_id \<times> generation) option"

definition stored :: "enrolment \<Rightarrow> stored_enrolment" where
  "stored en = \<lparr>st_device_id = en_device_id en, st_controller = en_controller en,
     st_secret = sk_secret (en_key en), st_suite = en_suite en, st_epoch = en_epoch en, st_slot = en_slot en\<rparr>"

text \<open>The fields chained, and zipped over the caller's array.\<close>

definition slot_words :: "(client_id \<times> generation) option \<Rightarrow> u32 \<times> u32" where
  "slot_words slot = (case slot of None \<Rightarrow> (0, 0) | Some (c, g) \<Rightarrow> (client_id_get c, generation_get g))"

definition stored_parts :: "stored_enrolment \<Rightarrow> bytes" where
  "stored_parts st = [STORED_FORMAT] @ st_device_id st @ st_controller st @ st_secret st @
     [suite_num (st_suite st)] @ be_bytes 4 (epoch_get (st_epoch st)) @
     be_bytes 4 (fst (slot_words (st_slot st))) @ be_bytes 4 (snd (slot_words (st_slot st)))"

definition stored_encode :: "stored_enrolment \<Rightarrow> bytes \<Rightarrow> bytes" where
  "stored_encode st dst = take (length dst) (stored_parts st) @ drop (length (stored_parts st)) dst"

datatype stored_error =
    St_WrongLength nat
  | St_UnknownFormat u8
  | St_UnknownSuite u8
  | St_ZeroEpoch
  | St_HalfASlot
  | St_OtherController

text \<open>\<open>split_first_chunk\<close>.\<close>

definition chunk :: "nat \<Rightarrow> (bytes, stored_error, bytes) act" where
  "chunk n bs = (if n \<le> length bs then (Inr (take n bs), drop n bs) else (Inl (St_WrongLength (length bs)), bs))"

definition stored_slot :: "u32 \<Rightarrow> u32 \<Rightarrow> stored_error + (client_id \<times> generation) option" where
  "stored_slot c g =
     (case (client_id_new c, generation_new g) of
        (Some c', Some g') \<Rightarrow> Inr (Some (c', g'))
      | (None, None) \<Rightarrow> Inr None
      | _ \<Rightarrow> Inl St_HalfASlot)"

definition stored_decode :: "bytes \<Rightarrow> stored_error + stored_enrolment" where
  "stored_decode bs =
     (if length bs \<noteq> STORED_BYTES then Inl (St_WrongLength (length bs))
      else fst (
        andthen (map_err (\<lambda>_. St_WrongLength (length bs)) (chunk 1)) (\<lambda>format.
        if hd format \<noteq> STORED_FORMAT then fail (St_UnknownFormat (hd format))
        else
        andthen (map_err (\<lambda>_. St_WrongLength (length bs)) (chunk DEVICE_ID_BYTES)) (\<lambda>device_id.
        andthen (map_err (\<lambda>_. St_WrongLength (length bs)) (chunk KEY_BYTES)) (\<lambda>controller.
        andthen (map_err (\<lambda>_. St_WrongLength (length bs)) (chunk KEY_BYTES)) (\<lambda>secret.
        andthen (map_err (\<lambda>_. St_WrongLength (length bs)) (chunk 1)) (\<lambda>suite.
        andthen (map_err (\<lambda>_. St_WrongLength (length bs)) (chunk 4)) (\<lambda>epoch.
        andthen (map_err (\<lambda>_. St_WrongLength (length bs)) (chunk 4)) (\<lambda>client_id.
        andthen (map_err (\<lambda>_. St_WrongLength (length bs)) (chunk 4)) (\<lambda>generation.
        andthen (lift_sum (stored_slot (from_be32 client_id) (from_be32 generation))) (\<lambda>slot.
        andthen (ok_or (St_UnknownSuite (hd suite)) (suite_of (hd suite))) (\<lambda>suite.
        andthen (ok_or St_ZeroEpoch (epoch_new (from_be32 epoch))) (\<lambda>epoch.
        ret \<lparr>st_device_id = device_id, st_controller = controller, st_secret = secret, st_suite = suite,
          st_epoch = epoch, st_slot = slot\<rparr>))))))))))) bs))"

definition restore :: "crypto \<Rightarrow> stored_enrolment \<Rightarrow> discovery \<Rightarrow> stored_error + enrolment" where
  "restore C st d =
     (if di_device_id d \<noteq> st_device_id st then Inl St_OtherController
      else Inr \<lparr>en_device_id = st_device_id st, en_controller = st_controller st,
        en_key = from_secret C (st_secret st), en_suite = st_suite st, en_epoch = st_epoch st,
        en_slot = st_slot st\<rparr>)"

section \<open>The layout is exact\<close>

definition stored_valid :: "stored_enrolment \<Rightarrow> bool" where
  "stored_valid st \<longleftrightarrow> length (st_device_id st) = DEVICE_ID_BYTES \<and> length (st_controller st) = KEY_BYTES \<and>
     length (st_secret st) = KEY_BYTES \<and> epoch_ok (st_epoch st) \<and>
     (\<forall>c g. st_slot st = Some (c, g) \<longrightarrow> client_id_ok c \<and> generation_ok g)"

lemma length_stored_parts: "stored_valid st \<Longrightarrow> length (stored_parts st) = STORED_BYTES"
  by (simp add: stored_valid_def stored_parts_def STORED_BYTES_def)

lemma stored_encode_eq: "stored_valid st \<Longrightarrow> length dst = STORED_BYTES \<Longrightarrow> stored_encode st dst = stored_parts st"
  by (simp add: stored_encode_def length_stored_parts)

lemma chunk_step:
  "length xs = n \<Longrightarrow> andthen (map_err e (chunk n)) f (xs @ ys) = f xs ys"
  by (simp add: chunk_def andthen_def map_err_def)

lemma chunk_last: "length xs = n \<Longrightarrow> andthen (map_err e (chunk n)) f xs = f xs []"
  using chunk_step [of xs n e f "[]"] by simp

lemma stored_slot_words:
  assumes "\<And>c g. slot = Some (c, g) \<Longrightarrow> client_id_ok c \<and> generation_ok g"
  shows "stored_slot (fst (slot_words slot)) (snd (slot_words slot)) = Inr slot"
  using assms by (auto simp: stored_slot_def slot_words_def client_id_new_def generation_new_def
      client_id_ok_def generation_ok_def split: option.split) (metis client_id_get.simps client_id.exhaust
      generation_get.simps generation.exhaust)+

lemma stored_slot_InrE:
  assumes "stored_slot c g = Inr slot"
  shows "slot_words slot = (c, g)" and "slot = Some (c', g') \<Longrightarrow> client_id_ok c' \<and> generation_ok g'"
  using assms by (auto simp: stored_slot_def slot_words_def client_id_new_def generation_new_def
      client_id_ok_def generation_ok_def split: if_splits)

text \<open>What decoding makes of the eight fields.\<close>

lemma stored_decode_split:
  assumes "length d = DEVICE_ID_BYTES" and "length c = KEY_BYTES" and "length k = KEY_BYTES"
    and "length e = 4" and "length i = 4" and "length g = 4"
  shows "stored_decode ([f] @ d @ c @ k @ [u] @ e @ i @ g) =
    (if f \<noteq> STORED_FORMAT then Inl (St_UnknownFormat f)
     else case stored_slot (from_be32 i) (from_be32 g) of
       Inl err \<Rightarrow> Inl err
     | Inr slot \<Rightarrow>
         (case suite_of u of None \<Rightarrow> Inl (St_UnknownSuite u)
          | Some suite \<Rightarrow>
             (case epoch_new (from_be32 e) of None \<Rightarrow> Inl St_ZeroEpoch
              | Some epoch \<Rightarrow> Inr \<lparr>st_device_id = d, st_controller = c, st_secret = k, st_suite = suite,
                  st_epoch = epoch, st_slot = slot\<rparr>)))"
proof -
  have n: "length ([f] @ d @ c @ k @ [u] @ e @ i @ g) = STORED_BYTES"
    using assms by (simp add: STORED_BYTES_def)
  have one: "\<And>b :: u8. length [b] = 1"
    by simp_all
  show ?thesis
  proof (cases "f = STORED_FORMAT")
    case True
    show ?thesis
      unfolding stored_decode_def n
      by (simp only: True chunk_step [OF one] list.sel simp_thms if_False)
        (simp only: chunk_step [OF one] chunk_step [OF assms(1)] chunk_step [OF assms(2)]
          chunk_step [OF assms(3)] chunk_step [OF assms(4)] chunk_step [OF assms(5)] chunk_last [OF assms(6)],
         simp add: andthen_def split: sum.split option.split)
  next
    case False
    then show ?thesis
      unfolding stored_decode_def n by (simp only: chunk_step [OF one] list.sel) simp
  qed
qed

lemma split_length:
  assumes "length bs = n + m"
  obtains xs ys where "bs = xs @ ys" and "length xs = n" and "length ys = m"
  using assms by (metis append_eq_conv_conj append_take_drop_id length_append length_drop length_take
      diff_add_inverse le_add1 min_absorb2)

lemma length_1E:
  assumes "length bs = 1"
  obtains b where "bs = [b]"
  using assms by (cases bs) auto

lemma stored_decode_iff: "stored_decode bs = Inr st \<longleftrightarrow> stored_valid st \<and> bs = stored_parts st"
proof
  assume st: "stored_valid st \<and> bs = stored_parts st"
  have "stored_slot (fst (slot_words (st_slot st))) (snd (slot_words (st_slot st))) = Inr (st_slot st)"
    using st by (intro stored_slot_words) (simp add: stored_valid_def)
  then show "stored_decode bs = Inr st"
    using st unfolding stored_parts_def
    by (simp only: stored_valid_def length_be_bytes stored_decode_split)
      (simp add: suite.of_num_of)
next
  assume st: "stored_decode bs = Inr st"
  have n: "length bs = STORED_BYTES"
    using st by (simp add: stored_decode_def split: if_splits)
  have "length bs = 1 + (DEVICE_ID_BYTES + (KEY_BYTES + (KEY_BYTES + (1 + (4 + (4 + 4))))))"
    using n by (simp add: STORED_BYTES_def)
  then obtain f d c k u e i g where bs: "bs = [f] @ d @ c @ k @ [u] @ e @ i @ g"
    and len: "length d = DEVICE_ID_BYTES" "length c = KEY_BYTES" "length k = KEY_BYTES" "length e = 4" "length i = 4" "length g = 4"
    by (elim split_length length_1E) blast
  have "stored_decode ([f] @ d @ c @ k @ [u] @ e @ i @ g) = Inr st"
    using st bs by simp
  note st' = this [unfolded stored_decode_split [OF len]]
  obtain slot suite epoch where parts: "f = STORED_FORMAT" "stored_slot (from_be32 i) (from_be32 g) = Inr slot"
    "suite_of (u) = Some suite" "epoch_new (from_be32 e) = Some epoch"
    "st = \<lparr>st_device_id = d, st_controller = c, st_secret = k, st_suite = suite, st_epoch = epoch, st_slot = slot\<rparr>"
    using st' by (auto split: if_splits sum.splits option.splits)
  have words: "slot_words slot = (from_be32 i, from_be32 g)" "\<And>c g. slot = Some (c, g) \<Longrightarrow> client_id_ok c \<and> generation_ok g"
    using stored_slot_InrE [OF parts(2)] by auto
  have "stored_valid st"
    using len words(2) parts by (auto simp: stored_valid_def new_Some epoch_ok_def)
  moreover have "bs = stored_parts st"
    using words(1) parts len be_bytes_from_be32 suite.num_of_num [OF parts(3)]
    by (subst bs) (simp add: stored_parts_def new_Some)
  ultimately show "stored_valid st \<and> bs = stored_parts st" ..
qed

section \<open>Properties\<close>

text \<open>C38. A relaunched client holds what it paired with: an enrolment stored, written over any
  buffer, read back and restored against a \<open>Discover\<close> of its controller, whatever epoch that
  names, is the same enrolment, deriving the same admission key; any other controller is
  refused; and no bytes decode to a stored enrolment but its own encoding.\<close>

theorem enrolment_survives_a_restart:
  assumes "stored_valid (stored en)" and "en_key en = from_secret C secret" and "length dst = STORED_BYTES"
  shows "stored_decode (stored_encode (stored en) dst) = Inr (stored en) \<and>
    (\<forall>d. restore C (stored en) d = (if di_device_id d = en_device_id en then Inr en else Inl St_OtherController)) \<and>
    (\<forall>bs st. stored_decode bs = Inr st \<longleftrightarrow> stored_valid st \<and> bs = stored_encode st dst)"
proof (intro conjI allI)
  show "stored_decode (stored_encode (stored en) dst) = Inr (stored en)"
    using assms by (simp add: stored_encode_eq stored_decode_iff)
  show "restore C (stored en) d = (if di_device_id d = en_device_id en then Inr en else Inl St_OtherController)" for d
    using assms(2) by (simp add: restore_def stored_def from_secret_def)
  show "stored_decode bs = Inr st \<longleftrightarrow> stored_valid st \<and> bs = stored_encode st dst" for bs st
    using assms(3) by (auto simp: stored_encode_eq stored_decode_iff)
qed

lemma enrolment_survives_a_restart_witness:
  "let en = with_slot (ClientId 7) (Generation 2) (enrolment_new (replicate 16 0xAB) (c_public example_crypto [3])
      (from_secret example_crypto (replicate 32 4)) Su_X25519ChachapolySha256 (Epoch 3)) in
   stored_decode (stored_encode (stored en) (replicate 94 0)) = Inr (stored en) \<and>
   length (stored_encode (stored en) (replicate 94 0)) = 94"
proof -
  let ?en = "with_slot (ClientId 7) (Generation 2) (enrolment_new (replicate 16 0xAB) (c_public example_crypto [3])
      (from_secret example_crypto (replicate 32 4)) Su_X25519ChachapolySha256 (Epoch 3))"
  have v: "stored_valid (stored ?en)"
    by (simp add: stored_valid_def stored_def with_slot_def enrolment_new_def from_secret_def crypto_ok_sizes(3) [OF example_crypto_ok]
        DEVICE_ID_BYTES_def KEY_BYTES_def epoch_ok_def client_id_ok_def generation_ok_def)
  have n: "length (replicate 94 (0 :: u8)) = STORED_BYTES"
    by (simp add: STORED_BYTES_def DEVICE_ID_BYTES_def KEY_BYTES_def)
  have "en_key ?en = from_secret example_crypto (replicate 32 4)"
    by (simp add: with_slot_def enrolment_new_def)
  note restart = enrolment_survives_a_restart [OF v this n]
  have "length (stored_encode (stored ?en) (replicate 94 0)) = 94"
    unfolding stored_encode_eq [OF v n] using length_stored_parts [OF v] n by simp
  then show ?thesis
    unfolding Let_def by (intro conjI restart [THEN conjunct1])
qed

end
