(* ===== verification/Staged.thy ===== *)
theory Staged
  imports Prelude
begin

text \<open>
  The step the handshakes share: a message is written over a fresh array of zeros and the part
  that was written is taken, an array too small being refused with the caller's own error.
\<close>

definition over_zeros :: "'e \<Rightarrow> nat \<Rightarrow> (bytes, 'e, 'a) act \<Rightarrow> ('a \<Rightarrow> nat) \<Rightarrow> 'e + 'a \<times> bytes" where
  "over_zeros big room m len =
     (case m (replicate room 0) of
        (Inl e, _) \<Rightarrow> Inl e
      | (Inr x, buf) \<Rightarrow> (case slice buf 0 (len x) of None \<Rightarrow> Inl big | Some out \<Rightarrow> Inr (x, out)))"

lemma over_zeros_eq:
  assumes "m (replicate room 0) = (Inr x, buf)" and "len x \<le> length buf"
  shows "over_zeros big room m len = Inr (x, take (len x) buf)"
  using assms by (simp add: over_zeros_def slice_def)

text \<open>A body encoded on its own, and a step that also hands over a state.\<close>

lemma over_zeros_body:
  assumes "encode (replicate room 0) = (Inr (length bs), splice (replicate room 0) 0 bs)" and "length bs \<le> room"
  shows "over_zeros big room encode id = Inr (length bs, bs)"
  using over_zeros_eq [of encode room "length bs" "splice (replicate room 0) 0 bs" id] assms by (simp add: splice_def)

lemma over_zeros_step:
  assumes "m (replicate room 0) = (Inr (x, n), buf)" and "n \<le> length buf"
  shows "over_zeros big room (map_err err m) snd = Inr ((x, n), take n buf)"
  using over_zeros_eq [of "map_err err m" room "(x, n)" buf snd] assms by simp

end
