(* ===== verification/Hello.thy ===== *)
theory Hello
  imports Enrolment Handshake Staged
begin

text \<open>
  \<open>crates/km43/src/hello.rs\<close>: \<open>Hello 0x01\<close> and \<open>Hello 0x81\<close>, which carry the \<open>IK\<close> handshake
  of \<open>Handshake\<close> and around it the suite, the admission tag, the offer and the report. The
  controller's side is the chain arrival, admitted, proved, reply; the client's is start and
  finish.
\<close>

definition MAX_HELLO_OFFER :: nat where "MAX_HELLO_OFFER = 1 + 3 + 2 + 2 + 2 + MAX_STRING"

definition MAX_HELLO_MESSAGE_1 :: nat where
  "MAX_HELLO_MESSAGE_1 = KEY_BYTES + SEALED_KEY_BYTES + MAX_HELLO_OFFER + TAG_BYTES"

definition MAX_HELLO_MESSAGE_2 :: nat where
  "MAX_HELLO_MESSAGE_2 = KEY_BYTES + MAX_HELLO_REPORT + TAG_BYTES"

datatype offer_key = Ok_ProtocolMajor | Ok_ProtocolMinor | Ok_ClientVersion

definition OFFER_KEY_COUNT :: nat where "OFFER_KEY_COUNT = 3"

definition offer_key_of :: "int \<Rightarrow> offer_key option" where
  "offer_key_of number =
     (if number = 1 then Some Ok_ProtocolMajor
      else if number = 2 then Some Ok_ProtocolMinor
      else if number = 3 then Some Ok_ClientVersion
      else None)"

primrec offer_key_number :: "offer_key \<Rightarrow> int" where
  "offer_key_number Ok_ProtocolMajor = 1"
| "offer_key_number Ok_ProtocolMinor = 2"
| "offer_key_number Ok_ClientVersion = 3"

datatype hello_key = Hk_Suite | Hk_Handshake | Hk_Admit | Hk_Offer offer_key

datatype hello_error =
    He_UnknownKey int
  | He_Duplicate hello_key
  | He_Missing hello_key
  | He_UnsupportedSuite u8
  | He_NotAdmitted
  | He_AdmitWidth nat
  | He_KeyMismatch
  | He_Noise noise_error
  | He_WrongMessage message_type message_type
  | He_NotThisRequest u32
  | He_NoHandle
  | He_Report handshake_error
  | He_TooLargeToWrite
  | He_Envelope envelope_error
  | He_Cbor cbor_error

fun hello_refusal :: "hello_error \<Rightarrow> refusal" where
  "hello_refusal (He_UnsupportedSuite _) = RefuseClient Ec_UnsupportedSuite"
| "hello_refusal He_NotAdmitted = RefuseClient Ec_UnknownClient"
| "hello_refusal (He_Noise Noise_DestinationTooSmall) = RefuseClient Ec_PayloadTooLarge"
| "hello_refusal He_KeyMismatch = RefuseClient Ec_AuthenticationFailed"
| "hello_refusal (He_Noise _) = RefuseClient Ec_AuthenticationFailed"
| "hello_refusal (He_AdmitWidth _) = RefuseClient Ec_AuthenticationFailed"
| "hello_refusal (He_Report why) = handshake_refusal why"
| "hello_refusal (He_Envelope why) = envelope_refusal why"
| "hello_refusal He_TooLargeToWrite = RefuseClient Ec_PayloadTooLarge"
| "hello_refusal _ = RefuseClient Ec_MalformedFrame"

fun hello_counts :: "hello_error \<Rightarrow> bool" where
  "hello_counts (He_Noise why) \<longleftrightarrow> why \<noteq> Noise_DestinationTooSmall"
| "hello_counts He_NotAdmitted \<longleftrightarrow> True"
| "hello_counts (He_AdmitWidth _) \<longleftrightarrow> True"
| "hello_counts He_KeyMismatch \<longleftrightarrow> True"
| "hello_counts _ \<longleftrightarrow> False"

definition hello_expected :: "header \<Rightarrow> message_type \<Rightarrow> hello_error + unit" where
  "hello_expected h k = (if h_kind h = k then Inr () else Inl (He_WrongMessage k (h_kind h)))"

section \<open>The offer\<close>

record hello_offer =
  of_version :: version
  of_client_version :: bytes

definition offer_pairs :: "hello_offer \<Rightarrow> (writer, cbor_error, unit) act" where
  "offer_pairs offer =
     andthen (wr_key (offer_key_number Ok_ProtocolMajor)) (\<lambda>_. andthen (wr_u64 (ucast (ve_major (of_version offer)))) (\<lambda>_.
     andthen (wr_key (offer_key_number Ok_ProtocolMinor)) (\<lambda>_. andthen (wr_u64 (ucast (ve_minor (of_version offer)))) (\<lambda>_.
     andthen (wr_key (offer_key_number Ok_ClientVersion)) (\<lambda>_. wr_text (of_client_version offer))))))"

definition offer_encode :: "hello_offer \<Rightarrow> bytes \<Rightarrow> (hello_error + nat) \<times> bytes" where
  "offer_encode offer dst = encoding He_Cbor (map_err He_Cbor (andthen (wr_map OFFER_KEY_COUNT) (\<lambda>_. offer_pairs offer))) dst"

record offer_slots =
  os_major :: "u8 option"
  os_minor :: "u8 option"
  os_client_version :: "bytes option"

definition offer_slots_empty :: offer_slots where
  "offer_slots_empty = \<lparr>os_major = None, os_minor = None, os_client_version = None\<rparr>"

primrec offer_fill :: "offer_key \<Rightarrow> offer_slots \<Rightarrow> (reader, hello_error, offer_slots) act" where
  "offer_fill Ok_ProtocolMajor slots =
     andthen (map_err He_Cbor rd_u8) (\<lambda>v.
     andthen (once (He_Duplicate (Hk_Offer Ok_ProtocolMajor)) (os_major slots) v) (\<lambda>s.
     ret (slots\<lparr>os_major := s\<rparr>)))"
| "offer_fill Ok_ProtocolMinor slots =
     andthen (map_err He_Cbor rd_u8) (\<lambda>v.
     andthen (once (He_Duplicate (Hk_Offer Ok_ProtocolMinor)) (os_minor slots) v) (\<lambda>s.
     ret (slots\<lparr>os_minor := s\<rparr>)))"
| "offer_fill Ok_ClientVersion slots =
     andthen (map_err He_Cbor rd_text) (\<lambda>v.
     andthen (once (He_Duplicate (Hk_Offer Ok_ClientVersion)) (os_client_version slots) v) (\<lambda>s.
     ret (slots\<lparr>os_client_version := s\<rparr>)))"

definition offer_field :: "offer_slots \<Rightarrow> int \<Rightarrow> (reader, hello_error, offer_slots) act" where
  "offer_field slots number =
     (case offer_key_of number of Some key \<Rightarrow> offer_fill key slots | None \<Rightarrow> skipped He_Cbor slots)"

definition offer_complete :: "offer_slots \<Rightarrow> (reader, hello_error, hello_offer) act" where
  "offer_complete slots =
     andthen (ok_or (He_Missing (Hk_Offer Ok_ProtocolMajor)) (os_major slots)) (\<lambda>major.
     andthen (ok_or (He_Missing (Hk_Offer Ok_ProtocolMinor)) (os_minor slots)) (\<lambda>minor.
     andthen (ok_or (He_Missing (Hk_Offer Ok_ClientVersion)) (os_client_version slots)) (\<lambda>client_version.
     ret \<lparr>of_version = \<lparr>ve_major = major, ve_minor = minor\<rparr>, of_client_version = client_version\<rparr>)))"

definition offer_decode :: "bytes \<Rightarrow> hello_error + hello_offer" where
  "offer_decode bs = decoding (
     andthen (map_fields He_Cbor offer_field offer_slots_empty) (\<lambda>slots.
     andthen (finishing He_Cbor) (\<lambda>_. offer_complete slots))) bs"

section \<open>The client\<close>

record hello_pending =
  hn_initiator :: hello_initiator
  hn_header :: header
  hn_ours :: version

definition hello_pairs :: "suite \<Rightarrow> bytes \<Rightarrow> bytes \<Rightarrow> (writer, cbor_error, unit) act" where
  "hello_pairs suite message admit =
     andthen (wr_key 1) (\<lambda>_. andthen (wr_u64 (ucast (suite_num suite))) (\<lambda>_.
     andthen (wr_key 2) (\<lambda>_. andthen (wr_byte_string message) (\<lambda>_.
     andthen (wr_key 3) (\<lambda>_. wr_byte_string admit)))))"

definition pending_start ::
  "crypto \<Rightarrow> bytes \<Rightarrow> enrolment \<Rightarrow> bytes \<Rightarrow> hello_offer \<Rightarrow> header \<Rightarrow> (bytes, hello_error, hello_pending \<times> nat) act" where
  "pending_start C prologue en ephemeral offer h =
     andthen (lift_sum (hello_expected h Mt_Hello)) (\<lambda>_.
     andthen (lift_sum (over_zeros He_TooLargeToWrite MAX_HELLO_OFFER (offer_encode offer) id)) (\<lambda>(_, payload).
     andthen (lift_sum (over_zeros He_TooLargeToWrite MAX_HELLO_MESSAGE_1
       (map_err He_Noise (hello_start C prologue (en_controller en) (en_key en) ephemeral payload)) snd)) (\<lambda>((initiator, _), msg).
     andthen (map_err He_Noise (lift_sum (enrolment_admit_key C en))) (\<lambda>key.
     andthen (enveloping He_Cbor (map_err He_Envelope (header_write h 3))
       (hello_pairs (en_suite en) msg (admit_tag C key prologue msg))) (\<lambda>written.
     ret (\<lparr>hn_initiator = initiator, hn_header = h, hn_ours = of_version offer\<rparr>, written))))))"

definition answer_field :: "bytes option \<Rightarrow> int \<Rightarrow> (reader, hello_error, bytes option) act" where
  "answer_field handshake number =
     (if number = 1 then
        andthen (map_err He_Cbor rd_byte_string) (\<lambda>v. once (He_Duplicate Hk_Handshake) handshake v)
      else fail (He_UnknownKey number))"

definition answer_message :: "envelope \<Rightarrow> hello_error + bytes" where
  "answer_message e = enclosed He_Cbor answer_field None (\<lambda>handshake.
     andthen (finishing He_Cbor) (\<lambda>_. ok_or (He_Missing Hk_Handshake) handshake)) e"

record hello_session =
  hs_channel :: client_channel
  hs_version :: version
  hs_report :: hello_report

definition pending_finish ::
  "crypto \<Rightarrow> enrolment \<Rightarrow> hello_pending \<Rightarrow> envelope \<Rightarrow> (bytes, hello_error, hello_session) act" where
  "pending_finish C en pending e =
     (let h = e_header e in
      andthen (lift_sum (hello_expected h Mt_HelloResponse)) (\<lambda>_.
      if h_req_id h \<noteq> h_req_id (hn_header pending) then fail (He_NotThisRequest (h_req_id h))
      else if h_session h = NoSession then fail He_NoHandle
      else
      andthen (lift_sum (answer_message e)) (\<lambda>msg.
      andthen (map_err He_Noise (hello_read_reply C (hn_initiator pending) (en_key en) msg)) (\<lambda>(keys, payload).
      andthen (map_err He_Report (lift_sum (report_decode payload (h_session h)))) (\<lambda>report.
      andthen (map_err He_Report (lift_sum (version_agreed (hn_ours pending) (hr_version report)))) (\<lambda>version.
      ret \<lparr>hs_channel = for_initiator keys, hs_version = version, hs_report = report\<rparr>))))))"

section \<open>The controller\<close>

record arrival_slots =
  as_suite :: "u8 option"
  as_handshake :: "bytes option"
  as_admit :: "bytes option"

definition arrival_slots_empty :: arrival_slots where
  "arrival_slots_empty = \<lparr>as_suite = None, as_handshake = None, as_admit = None\<rparr>"

definition arrival_field :: "arrival_slots \<Rightarrow> int \<Rightarrow> (reader, hello_error, arrival_slots) act" where
  "arrival_field slots number =
     (if number = 1 then
        andthen (map_err He_Cbor rd_u8) (\<lambda>v. andthen (once (He_Duplicate Hk_Suite) (as_suite slots) v) (\<lambda>s.
        ret (slots\<lparr>as_suite := s\<rparr>)))
      else if number = 2 then
        andthen (map_err He_Cbor rd_byte_string) (\<lambda>v. andthen (once (He_Duplicate Hk_Handshake) (as_handshake slots) v) (\<lambda>s.
        ret (slots\<lparr>as_handshake := s\<rparr>)))
      else if number = 3 then
        andthen (map_err He_Cbor rd_byte_string) (\<lambda>v. andthen (once (He_Duplicate Hk_Admit) (as_admit slots) v) (\<lambda>s.
        ret (slots\<lparr>as_admit := s\<rparr>)))
      else fail (He_UnknownKey number))"

record hello_arrival =
  ha_header :: header
  ha_suite :: suite
  ha_handshake :: bytes
  ha_admit :: bytes

definition arrival_complete :: "header \<Rightarrow> arrival_slots \<Rightarrow> (reader, hello_error, hello_arrival) act" where
  "arrival_complete h slots =
     andthen (ok_or (He_Missing Hk_Suite) (as_suite slots)) (\<lambda>suite.
     andthen (ok_or (He_UnsupportedSuite suite) (suite_of suite)) (\<lambda>suite.
     andthen (ok_or (He_Missing Hk_Handshake) (as_handshake slots)) (\<lambda>handshake.
     andthen (ok_or (He_Missing Hk_Admit) (as_admit slots)) (\<lambda>admit.
     ret \<lparr>ha_header = h, ha_suite = suite, ha_handshake = handshake, ha_admit = admit\<rparr>))))"

definition arrival_decode :: "envelope \<Rightarrow> hello_error + hello_arrival" where
  "arrival_decode e =
     (case hello_expected (e_header e) Mt_Hello of
        Inl err \<Rightarrow> Inl err
      | Inr _ \<Rightarrow> enclosed He_Cbor arrival_field arrival_slots_empty (\<lambda>slots.
          andthen (finishing He_Cbor) (\<lambda>_. arrival_complete (e_header e) slots)) e)"

record 'k admitted =
  ad_slot :: 'k
  ad_header :: header
  ad_suite :: suite
  ad_handshake :: bytes

fun admit_loop :: "crypto \<Rightarrow> bytes \<Rightarrow> bytes \<Rightarrow> bytes \<Rightarrow> 'k option \<Rightarrow> ('k \<times> bytes) list \<Rightarrow> hello_error + 'k option" where
  "admit_loop C prologue msg tag found [] = Inr found"
| "admit_loop C prologue msg tag found ((slot, key) # slots) =
     (let verified = tag_verify (admit_tag C key prologue msg) tag;
          found = (if verified = Inr () \<and> found = None then Some slot else found)
      in case verified of
           Inl (Mac_WrongWidth len) \<Rightarrow> Inl (He_AdmitWidth len)
         | _ \<Rightarrow> admit_loop C prologue msg tag found slots)"

definition arrival_admit :: "crypto \<Rightarrow> bytes \<Rightarrow> ('k \<times> bytes) list \<Rightarrow> hello_arrival \<Rightarrow> hello_error + 'k admitted" where
  "arrival_admit C prologue slots a =
     (case admit_loop C prologue (ha_handshake a) (ha_admit a) None slots of
        Inl e \<Rightarrow> Inl e
      | Inr None \<Rightarrow> Inl He_NotAdmitted
      | Inr (Some slot) \<Rightarrow>
          Inr \<lparr>ad_slot = slot, ad_header = ha_header a, ad_suite = ha_suite a, ad_handshake = ha_handshake a\<rparr>)"

record 'k proved =
  pv_slot :: 'k
  pv_header :: header
  pv_offer :: hello_offer
  pv_responder :: hello_proved

definition admitted_prove ::
  "crypto \<Rightarrow> bytes \<Rightarrow> static_key \<Rightarrow> public_key \<times> suite \<Rightarrow> 'k admitted \<Rightarrow> (bytes, hello_error, 'k proved) act" where
  "admitted_prove C prologue controller enrolled a =
     (if ad_suite a \<noteq> snd enrolled then fail (He_UnsupportedSuite (suite_num (ad_suite a)))
      else
      andthen (map_err He_Noise (lift_sum (hello_read_claim C prologue controller (ad_handshake a)))) (\<lambda>claim.
      if hc_client claim \<noteq> fst enrolled then fail He_KeyMismatch
      else
      andthen (map_err He_Noise (hello_prove C claim controller (ad_handshake a))) (\<lambda>(responder, payload).
      andthen (lift_sum (offer_decode payload)) (\<lambda>offer.
      ret \<lparr>pv_slot = ad_slot a, pv_header = ad_header a, pv_offer = offer, pv_responder = responder\<rparr>))))"

definition proved_reply ::
  "crypto \<Rightarrow> bytes \<Rightarrow> hello_report \<Rightarrow> 'k proved \<Rightarrow> (bytes, hello_error, controller_channel \<times> nat) act" where
  "proved_reply C ephemeral report p =
     andthen (lift_sum (over_zeros He_TooLargeToWrite MAX_HELLO_REPORT (map_err He_Report (report_encode report)) id)) (\<lambda>(_, payload).
     andthen (lift_sum (over_zeros He_TooLargeToWrite MAX_HELLO_MESSAGE_2
       (map_err He_Noise (hello_reply C (pv_responder p) ephemeral payload)) snd)) (\<lambda>((keys, _), msg).
     andthen (enveloping He_Cbor (map_err He_Envelope (header_write ((pv_header p)\<lparr>h_kind := Mt_HelloResponse\<rparr>) 1))
       (andthen (wr_key 1) (\<lambda>_. wr_byte_string msg))) (\<lambda>written.
     ret (for_responder keys, written))))"

section \<open>The offer is a codec\<close>

definition offer_fields :: "hello_offer \<Rightarrow> (int \<times> item) list" where
  "offer_fields offer =
     [(1, IUint (ucast (ve_major (of_version offer)))), (2, IUint (ucast (ve_minor (of_version offer)))),
      (3, IText (of_client_version offer))]"

definition offer_valid :: "hello_offer \<Rightarrow> bool" where
  "offer_valid offer \<longleftrightarrow> text_ok (of_client_version offer)"

lemma offer_pairs_writes: "offer_valid offer \<Longrightarrow> writes_pairs (offer_pairs offer) (offer_fields offer)"
  unfolding offer_pairs_def offer_fields_def offer_key_number.simps
  by (intro item_rules) (simp add: offer_valid_def text_ok_def)

lemma offer_fields_ok [simp]:
  "ascending None (offer_fields offer)" "shallow room (offer_fields offer)" "known 3 (offer_fields offer)"
  "length (offer_fields offer) = 3"
  by (simp_all add: offer_fields_def good_key_def)

lemma offer_field_simps:
  "offer_field s 1 = offer_fill Ok_ProtocolMajor s" "offer_field s 2 = offer_fill Ok_ProtocolMinor s"
  "offer_field s 3 = offer_fill Ok_ClientVersion s" "3 < j \<Longrightarrow> offer_field s j = skipped He_Cbor s"
  by (simp_all add: offer_field_def offer_key_of_def)

lemma offer_reads:
  assumes "offer_valid offer"
  shows "reads_pairs offer_field (offer_fields offer) offer_slots_empty
    \<lparr>os_major = Some (ve_major (of_version offer)), os_minor = Some (ve_minor (of_version offer)),
     os_client_version = Some (of_client_version offer)\<rparr>"
proof -
  have cv: "length (of_client_version offer) \<le> MAX_STRING" "utf8 (of_client_version offer)"
    using assms by (simp_all add: offer_valid_def text_ok_def)
  have "reads_pairs offer_field (offer_fields offer) offer_slots_empty (offer_slots_empty
    \<lparr>os_major := Some (ve_major (of_version offer)), os_minor := Some (ve_minor (of_version offer)),
     os_client_version := Some (of_client_version offer)\<rparr>)"
    unfolding offer_fields_def
    by (rule reads_Nil | rule reads_Cons | simp only: offer_field_simps offer_fill.simps | rule slot_rules
      | rule item_rules cv | simp add: offer_slots_empty_def; fail)+
  then show ?thesis
    by (simp add: offer_slots_empty_def)
qed

interpretation offer: body_codec offer_encode offer_decode offer_fields offer_valid 3
proof
  fix offer and dst :: bytes
  assume "offer_valid offer" "length (map_bytes (offer_fields offer)) \<le> length dst" "length dst \<le> usize_max"
  then show "offer_encode offer dst =
      (Inr (length (map_bytes (offer_fields offer))), splice dst 0 (map_bytes (offer_fields offer)))"
    unfolding offer_encode_def OFFER_KEY_COUNT_def by (intro encodes_fields) (simp_all add: offer_pairs_writes)
next
  fix offer fs
  assume offer: "offer_valid offer" and fs: "extends 3 INNER fs" "length (map_bytes (offer_fields offer @ fs)) \<le> usize_max"
  show "offer_decode (map_bytes (offer_fields offer @ fs)) = Inr offer"
    unfolding offer_decode_def
    by (rule decodes_fields [OF offer_reads [OF offer] _ _ _ fs(1) _ fs(2)])
      (cases offer, cases "of_version offer",
       auto intro!: runs_andthen runs_finishing simp: offer_complete_def offer_field_simps)
qed

lemma offer_bound: "offer_valid offer \<Longrightarrow> length (map_bytes (offer_fields offer)) \<le> MAX_HELLO_OFFER"
  using width_narrow(1) [of "ve_major (of_version offer)"] width_narrow(1) [of "ve_minor (of_version offer)"]
    width_text [of "of_client_version offer"]
  by (simp add: map_bytes_eq offer_fields_def offer_valid_def text_ok_def MAX_HELLO_OFFER_def MAX_STRING_def)

section \<open>The two bodies\<close>

definition hello_fields :: "suite \<Rightarrow> bytes \<Rightarrow> bytes \<Rightarrow> (int \<times> item) list" where
  "hello_fields suite msg tag = [(1, IUint (ucast (suite_num suite))), (2, IBytes msg), (3, IBytes tag)]"

lemma hello_fields_ok [simp]:
  "ascending None (hello_fields suite msg tag)" "shallow room (hello_fields suite msg tag)"
  "length (hello_fields suite msg tag) = 3"
  by (simp_all add: hello_fields_def good_key_def)

lemma hello_pairs_writes: "writes_pairs (hello_pairs suite msg tag) (hello_fields suite msg tag)"
  unfolding hello_pairs_def hello_fields_def by (intro item_rules)

lemma arrival_field_simps:
  "arrival_field s 1 = andthen (map_err He_Cbor rd_u8) (\<lambda>v.
     andthen (once (He_Duplicate Hk_Suite) (as_suite s) v) (\<lambda>t. ret (s\<lparr>as_suite := t\<rparr>)))"
  "arrival_field s 2 = andthen (map_err He_Cbor rd_byte_string) (\<lambda>v.
     andthen (once (He_Duplicate Hk_Handshake) (as_handshake s) v) (\<lambda>t. ret (s\<lparr>as_handshake := t\<rparr>)))"
  "arrival_field s 3 = andthen (map_err He_Cbor rd_byte_string) (\<lambda>v.
     andthen (once (He_Duplicate Hk_Admit) (as_admit s) v) (\<lambda>t. ret (s\<lparr>as_admit := t\<rparr>)))"
  by (simp_all add: arrival_field_def)

lemma arrival_reads:
  "reads_pairs arrival_field (hello_fields suite msg tag) arrival_slots_empty
    \<lparr>as_suite = Some (suite_num suite), as_handshake = Some msg, as_admit = Some tag\<rparr>"
proof -
  have "reads_pairs arrival_field (hello_fields suite msg tag) arrival_slots_empty (arrival_slots_empty
    \<lparr>as_suite := Some (suite_num suite), as_handshake := Some msg, as_admit := Some tag\<rparr>)"
    unfolding hello_fields_def
    by (rule reads_Nil | rule reads_Cons | simp only: arrival_field_simps | rule slot_rules
      | rule item_rules | simp add: arrival_slots_empty_def; fail)+
  then show ?thesis
    by (simp add: arrival_slots_empty_def)
qed

lemma arrival_decode_frame:
  assumes "h_kind h = Mt_Hello" and "session_ok (h_session h)" and "length (frame_bytes h (hello_fields suite msg tag)) \<le> usize_max"
  obtains e where "envelope_decode (frame_bytes h (hello_fields suite msg tag)) = Inr e" and "e_header e = h"
    and "arrival_decode e = Inr \<lparr>ha_header = h, ha_suite = suite, ha_handshake = msg, ha_admit = tag\<rparr>"
proof -
  obtain e where "envelope_decode (frame_bytes h (hello_fields suite msg tag)) = Inr e" "e_header e = h"
    "enclosed He_Cbor arrival_field arrival_slots_empty (\<lambda>slots. andthen (finishing He_Cbor) (\<lambda>_. arrival_complete h slots)) e =
      Inr \<lparr>ha_header = h, ha_suite = suite, ha_handshake = msg, ha_admit = tag\<rparr>"
    by (rule encloses_decodes_exactly [where err = He_Cbor
        and f = "\<lambda>slots. andthen (finishing He_Cbor) (\<lambda>_. arrival_complete h slots)", OF arrival_reads _ _ assms(2,3)])
      (auto intro!: runs_andthen runs_finishing simp: arrival_complete_def suite.of_num_of)
  then show ?thesis
    using that assms(1) by (simp add: arrival_decode_def hello_expected_def)
qed

definition reply_fields :: "bytes \<Rightarrow> (int \<times> item) list" where
  "reply_fields msg = [(1, IBytes msg)]"

lemma reply_fields_ok [simp]:
  "ascending None (reply_fields msg)" "shallow room (reply_fields msg)" "length (reply_fields msg) = 1"
  by (simp_all add: reply_fields_def good_key_def)

lemma answer_decode_frame:
  assumes "session_ok (h_session h)" and "length (frame_bytes h (reply_fields msg)) \<le> usize_max"
  obtains e where "envelope_decode (frame_bytes h (reply_fields msg)) = Inr e" and "e_header e = h"
    and "answer_message e = Inr msg"
proof -
  have "reads_item (answer_field None 1) (IBytes msg) (Some msg)"
    unfolding answer_field_def if_P [OF refl]
    by (rule reads_then [OF reads_map_err [OF reads_bytes]]) (simp add: once_def)
  then have r: "reads_pairs answer_field (reply_fields msg) None (Some msg)"
    by (simp add: reply_fields_def)
  show ?thesis
    by (rule encloses_decodes_exactly [where err = He_Cbor
        and f = "\<lambda>handshake. andthen (finishing He_Cbor) (\<lambda>_. ok_or (He_Missing Hk_Handshake) handshake)", OF r _ _ assms])
      (auto intro!: runs_andthen runs_finishing that simp: answer_message_def)
qed

section \<open>Each step\<close>

lemma length_hello_frame:
  assumes "length msg \<le> MAX_HELLO_MESSAGE_1" and "length tag = MAC_TAG_BYTES"
  shows "length (frame_bytes h (hello_fields suite msg tag)) \<le> MAX_PAYLOAD"
proof -
  have "length (map_bytes (hello_fields suite msg tag)) \<le> 24 + length msg + 16"
    using width_narrow(1) [of "suite_num suite"] width_bytes_le [of "width_of (of_nat (length msg))"] assms(2)
    by (simp add: map_bytes_eq hello_fields_def MAC_TAG_BYTES_def width_of_small)
  then show ?thesis
    using length_frame_bytes [of h "hello_fields suite msg tag"] assms(1)
    by (simp add: MAX_HELLO_MESSAGE_1_def MAX_HELLO_OFFER_def crypto_sizes limit_defs MAX_STRING_def)
qed

lemma length_reply_frame:
  assumes "length msg \<le> MAX_HELLO_MESSAGE_2"
  shows "length (frame_bytes h (reply_fields msg)) \<le> MAX_PAYLOAD"
proof -
  have "length (map_bytes (reply_fields msg)) \<le> 11 + length msg"
    using width_bytes_le [of "width_of (of_nat (length msg))"] by (simp add: map_bytes_eq reply_fields_def)
  then show ?thesis
    using length_frame_bytes [of h "reply_fields msg"] assms
    by (simp add: MAX_HELLO_MESSAGE_2_def MAX_HELLO_REPORT_def TEXT_MAX_def TOPOLOGY_REPORT_BYTES_def crypto_sizes limit_defs MAX_STRING_def)
qed

lemma pending_start_eq:
  assumes "h_kind h = Mt_Hello" and "offer_valid offer"
    and "hello_start C prologue (en_controller en) (en_key en) x (map_bytes (offer_fields offer))
      (replicate MAX_HELLO_MESSAGE_1 0) = (Inr (i, n), out)" and "n \<le> length out"
    and "enrolment_admit_key C en = Inr key"
    and "bs = frame_bytes h (hello_fields (en_suite en) (take n out) (admit_tag C key prologue (take n out)))"
    and "length bs \<le> length dst" and "length dst \<le> usize_max"
  shows "pending_start C prologue en x offer h dst =
    (Inr (\<lparr>hn_initiator = i, hn_header = h, hn_ours = of_version offer\<rparr>, length bs), splice dst 0 bs)"
proof -
  have "over_zeros He_TooLargeToWrite MAX_HELLO_OFFER (offer_encode offer) id =
      Inr (length (map_bytes (offer_fields offer)), map_bytes (offer_fields offer))"
    using offer_bound [OF assms(2)]
    by (intro over_zeros_body offer.encode_writes) (simp_all add: assms(2) MAX_HELLO_OFFER_def MAX_STRING_def usize_max_def)
  moreover have "enveloping He_Cbor (map_err He_Envelope (header_write h 3))
      (hello_pairs (en_suite en) (take n out) (admit_tag C key prologue (take n out))) dst = (Inr (length bs), splice dst 0 bs)"
    unfolding assms(6) by (rule encloses_fields) (use assms(6-8) hello_pairs_writes in simp_all)
  ultimately show ?thesis
    using over_zeros_step [where big = He_TooLargeToWrite and err = He_Noise and
        m = "hello_start C prologue (en_controller en) (en_key en) x (map_bytes (offer_fields offer))", OF assms(3,4)] assms(1,5)
    by (simp add: pending_start_def hello_expected_def)
qed

lemma proved_reply_eq:
  assumes "report_valid session report" and "hello_reply C (pv_responder p) y (map_bytes (report_fields report))
      (replicate MAX_HELLO_MESSAGE_2 0) = (Inr (k, n), out)" and "n \<le> length out"
    and "bs = frame_bytes ((pv_header p)\<lparr>h_kind := Mt_HelloResponse\<rparr>) (reply_fields (take n out))"
    and "length bs \<le> length dst" and "length dst \<le> usize_max"
  shows "proved_reply C y report p dst = (Inr (for_responder k, length bs), splice dst 0 bs)"
proof -
  have "report_encode report (replicate MAX_HELLO_REPORT 0) =
      (Inr (length (map_bytes (report_fields report))), splice (replicate MAX_HELLO_REPORT 0) 0 (map_bytes (report_fields report)))"
    using report_bound [OF assms(1)]
    by (intro report.encode_writes [OF assms(1)])
      (simp_all add: MAX_HELLO_REPORT_def TEXT_MAX_def TOPOLOGY_REPORT_BYTES_def MAX_STRING_def usize_max_def)
  then have "over_zeros He_TooLargeToWrite MAX_HELLO_REPORT (map_err He_Report (report_encode report)) id =
      Inr (length (map_bytes (report_fields report)), map_bytes (report_fields report))"
    using report_bound [OF assms(1)] by (intro over_zeros_body) simp_all
  moreover have "enveloping He_Cbor (map_err He_Envelope (header_write ((pv_header p)\<lparr>h_kind := Mt_HelloResponse\<rparr>) 1))
      (andthen (wr_key 1) (\<lambda>_. wr_byte_string (take n out))) dst = (Inr (length bs), splice dst 0 bs)"
    unfolding assms(4)
    by (rule encloses_fields) (use assms(4-6) in \<open>auto simp: reply_fields_def intro!: item_rules\<close>)
  ultimately show ?thesis
    using over_zeros_step [where big = He_TooLargeToWrite and err = He_Noise and m = "hello_reply C (pv_responder p) y (map_bytes (report_fields report))",
        OF assms(2,3)] by (simp add: proved_reply_def)
qed

text \<open>Admission names a slot whose key tags the message, the first of them.\<close>

lemma admit_loop_eq:
  assumes "length tag = MAC_TAG_BYTES"
  shows "admit_loop C prologue msg tag found slots = Inr (case found of Some s \<Rightarrow> Some s
    | None \<Rightarrow> map_option fst (List.find (\<lambda>(_, key). admit_tag C key prologue msg = tag) slots))"
  by (induction slots arbitrary: found)
    (use assms in \<open>auto simp: tag_verify_def Let_def split: option.split\<close>)

lemma arrival_admit_eq:
  assumes "length (ha_admit a) = MAC_TAG_BYTES"
  shows "arrival_admit C prologue slots a =
    (case List.find (\<lambda>(_, key). admit_tag C key prologue (ha_handshake a) = ha_admit a) slots of
       None \<Rightarrow> Inl He_NotAdmitted
     | Some (slot, _) \<Rightarrow>
         Inr \<lparr>ad_slot = slot, ad_header = ha_header a, ad_suite = ha_suite a, ad_handshake = ha_handshake a\<rparr>)"
  by (auto simp: arrival_admit_def admit_loop_eq [OF assms] split: option.split)

lemma arrival_admit_own:
  assumes "length (ha_admit a) = MAC_TAG_BYTES" and "admit_tag C key prologue (ha_handshake a) = ha_admit a"
  obtains (own) "\<forall>(s, k) \<in> set before. admit_tag C k prologue (ha_handshake a) \<noteq> ha_admit a"
      and "arrival_admit C prologue (before @ (slot, key) # later) a =
        Inr \<lparr>ad_slot = slot, ad_header = ha_header a, ad_suite = ha_suite a, ad_handshake = ha_handshake a\<rparr>"
    | (earlier) s k where "(s, k) \<in> set before" and "admit_tag C k prologue (ha_handshake a) = ha_admit a"
      and "arrival_admit C prologue (before @ (slot, key) # later) a =
        Inr \<lparr>ad_slot = s, ad_header = ha_header a, ad_suite = ha_suite a, ad_handshake = ha_handshake a\<rparr>"
proof -
  let ?tags = "\<lambda>(_, key). admit_tag C key prologue (ha_handshake a) = ha_admit a"
  show ?thesis
  proof (cases "List.find ?tags before")
    case None
    then have "List.find ?tags (before @ (slot, key) # later) = Some (slot, key)"
      using assms(2) by (induction before) (auto split: if_splits)
    then show ?thesis
      using None by (intro own) (auto simp: find_None_iff arrival_admit_eq [OF assms(1)])
  next
    case (Some found)
    then have "List.find ?tags (before @ (slot, key) # later) = Some found"
      by (induction before) (auto split: if_splits)
    moreover have "found \<in> set before \<and> ?tags found"
      using Some unfolding find_Some_iff by (metis nth_mem)
    ultimately show ?thesis
      by (cases found) (auto intro: earlier simp: arrival_admit_eq [OF assms(1)])
  qed
qed

text \<open>A tag of another width, over any slots: refused at the first key tried.\<close>

lemma arrival_admit_width:
  assumes "length (ha_admit a) \<noteq> MAC_TAG_BYTES"
  shows "arrival_admit C prologue slots a = Inl (if slots = [] then He_NotAdmitted else He_AdmitWidth (length (ha_admit a)))"
  using assms by (cases slots) (auto simp: arrival_admit_def tag_verify_def Let_def)

lemma hello_counts_iff:
  "hello_counts e \<longleftrightarrow> hello_refusal e \<in> {RefuseClient Ec_AuthenticationFailed, RefuseClient Ec_UnknownClient}"
proof -
  have env: "envelope_refusal why \<notin> {RefuseClient Ec_AuthenticationFailed, RefuseClient Ec_UnknownClient}" for why
    by (cases why) simp_all
  then have "handshake_refusal why \<notin> {RefuseClient Ec_AuthenticationFailed, RefuseClient Ec_UnknownClient}" for why
    by (cases why) simp_all
  then show ?thesis
    using env by (cases e rule: hello_counts.cases) (auto, (metis noise_error.exhaust hello_refusal.simps)?)
qed

text \<open>In the example instance: two clients' admission keys, and their tags told apart by the first byte.\<close>

lemma example_admit_keys:
  "static_admit_key example_crypto (from_secret example_crypto [3]) (replicate 16 7) (c_public example_crypto [4]) =
     Inr (0x6B # [106, 51, 52, 40, 113, 54, 40, 102, 99, 106, 110, 115, 42, 108, 98, 121, 1] @ replicate 14 0)"
  "static_admit_key example_crypto (from_secret example_crypto [3]) (replicate 16 7) (c_public example_crypto [5]) =
     Inr (0x6A # [106, 51, 52, 40, 113, 54, 40, 102, 99, 106, 110, 115, 42, 108, 98, 121, 1] @ replicate 14 0)"
  by code_simp+

lemma example_admit_tag:
  "\<exists>rest. admit_tag example_crypto (x # k) prologue m = (x XOR 0x6B) # rest"
proof -
  have "pad_to n (y # ys) = y # pad_to (n - 1) ys" if "0 < n" for n y ys
    using that by (cases n) (simp_all add: pad_to_def replicate_append_same [symmetric])
  then show ?thesis
    by (simp add: admit_tag_def preimage_tag_def admit_preimage_def preimage_under_def preimage_bytes_def example_crypto_def
        KEY_BYTES_def MAC_TAG_BYTES_def BLOCK_BYTES_def numeral_eq_Suc)
qed
section \<open>Properties\<close>

text \<open>C8. A session opens: against the controller key a client pinned, its \<open>Hello\<close> is at most a
  payload and is admitted by the first slot whose key gives its admission tag. That is the client's
  own slot, unless the key of a slot tried before it gives this very message the same 16 bytes, which
  a truncated HMAC cannot rule out. Admitted as itself, the client proves its key and shows its
  offer, and the answer brings the report back, the agreed version with it, leaving both ends with
  the two directions of one pair of keys.\<close>

theorem hello_opens_the_slots_session:
  assumes "crypto_ok C"
    and "c_dh C x (c_public C r) = Some es" and "c_dh C c (c_public C r) = Some ss"
    and "c_dh C x (c_public C y) = Some ee" and "c_dh C c (c_public C y) = Some se"
    and "en_key en = from_secret C c" and "en_controller en = c_public C r"
    and "static_admit_key C (from_secret C r) (en_device_id en) (c_public C c) = Inr key"
    and "slots = before @ (slot, key) # later"
    and "h_kind h = Mt_Hello" and "session_ok (h_session h)" and "h_session h \<noteq> NoSession"
    and "offer_valid offer" and "report_valid (h_session h) report"
    and "ve_major (hr_version report) = ve_major (of_version offer)"
    and "MAX_PAYLOAD \<le> length dst" and "length dst \<le> usize_max"
    and "MAX_HELLO_OFFER \<le> length buf" and "MAX_HELLO_REPORT \<le> length buf" and "length buf \<le> usize_max"
  shows "\<exists>pending n1 d1 e1 a w.
    pending_start C prologue en x offer h dst = (Inr (pending, n1), d1) \<and> n1 \<le> MAX_PAYLOAD \<and>
    envelope_decode (take n1 d1) = Inr e1 \<and> arrival_decode e1 = Inr a \<and>
    ha_admit a = admit_tag C key prologue (ha_handshake a) \<and> arrival_admit C prologue slots a = Inr w \<and>
    ((\<exists>k'. (ad_slot w, k') \<in> set before \<and> admit_tag C k' prologue (ha_handshake a) = ha_admit a) \<or>
     ad_slot w = slot \<and> (\<exists>p b1 k n2 d2 e2 s b2.
      admitted_prove C prologue (from_secret C r) (c_public C c, en_suite en) w buf = (Inr p, b1) \<and>
      pv_slot p = slot \<and> pv_offer p = offer \<and>
      proved_reply C y report p dst = (Inr (for_responder k, n2), d2) \<and> n2 \<le> MAX_PAYLOAD \<and>
      envelope_decode (take n2 d2) = Inr e2 \<and> pending_finish C en pending e2 buf = (Inr s, b2) \<and>
      hs_channel s = for_initiator k \<and> hs_report s = report \<and>
      version_agreed (of_version offer) (hr_version report) = Inr (hs_version s)))"
proof -
  let ?p = "map_bytes (offer_fields offer)" and ?q = "map_bytes (report_fields report)"
  have p: "length ?p \<le> MAX_HELLO_OFFER" and q: "length ?q \<le> MAX_HELLO_REPORT"
    using offer_bound [OF assms(13)] report_bound [OF assms(14)] by auto
  have room: "length ?p + 96 \<le> MAX_HELLO_MESSAGE_1" "length ?q + 48 \<le> MAX_HELLO_MESSAGE_2"
    "MAX_HELLO_MESSAGE_1 \<le> usize_max" "MAX_HELLO_MESSAGE_2 \<le> usize_max"
    using p q by (simp_all add: MAX_HELLO_MESSAGE_1_def MAX_HELLO_MESSAGE_2_def crypto_sizes MAX_HELLO_OFFER_def MAX_STRING_def
        MAX_HELLO_REPORT_def TEXT_MAX_def TOPOLOGY_REPORT_BYTES_def usize_max_def)
  obtain i n out claim proof' k n' out' where run:
    "hello_start C prologue (c_public C r) (from_secret C c) x ?p (replicate MAX_HELLO_MESSAGE_1 0) = (Inr (i, n), out)"
    "hello_read_claim C prologue (from_secret C r) (take n out) = Inr claim" "hc_client claim = c_public C c"
    "hello_prove C claim (from_secret C r) (take n out) buf = (Inr (proof', ?p), splice buf 0 ?p)"
    "hello_reply C proof' y ?q (replicate MAX_HELLO_MESSAGE_2 0) = (Inr (k, n'), out')"
    "hello_read_reply C i (from_secret C c) (take n' out') buf = (Inr (k, ?q), splice buf 0 ?q)"
    and n: "n = length ?p + 96" "n' = length ?q + 48" "length out = MAX_HELLO_MESSAGE_1" "length out' = MAX_HELLO_MESSAGE_2"
    by (rule hello_runs_over [OF assms(1-5), where p = ?p and q = ?q and dst = "replicate MAX_HELLO_MESSAGE_1 0"
          and dst' = "replicate MAX_HELLO_MESSAGE_2 0" and buf = buf and buf' = buf and prologue = prologue])
      (use room p q assms(18-20) that in auto)
  let ?msg = "take n out" and ?msg' = "take n' out'"
  have msgs: "length ?msg \<le> MAX_HELLO_MESSAGE_1" "length ?msg' \<le> MAX_HELLO_MESSAGE_2" "n \<le> length out" "n' \<le> length out'"
    using n room by auto
  have own: "enrolment_admit_key C en = Inr key"
    using static_keys_agree(1) [OF assms(1), of c "en_device_id en" r] assms(6-8)
    by (simp add: enrolment_admit_key_def from_secret_def)
  let ?tag = "admit_tag C key prologue ?msg"
  have tag: "length ?tag = MAC_TAG_BYTES"
    using length_tag [OF assms(1)] by (simp add: admit_tag_def)
  let ?f1 = "frame_bytes h (hello_fields (en_suite en) ?msg ?tag)"
  have f1: "length ?f1 \<le> MAX_PAYLOAD" "length ?f1 \<le> length dst" "length ?f1 \<le> usize_max"
    using length_hello_frame [OF msgs(1) tag, of h "en_suite en"] assms(16,17) by auto
  have start: "pending_start C prologue en x offer h dst =
      (Inr (\<lparr>hn_initiator = i, hn_header = h, hn_ours = of_version offer\<rparr>, length ?f1), splice dst 0 ?f1)"
    by (rule pending_start_eq [OF assms(10,13) _ msgs(3) own refl f1(2) assms(17)]) (use run(1) assms(6,7) in simp)
  let ?a = "\<lparr>ha_header = h, ha_suite = en_suite en, ha_handshake = ?msg, ha_admit = ?tag\<rparr>"
  obtain e1 where e1: "envelope_decode ?f1 = Inr e1" "arrival_decode e1 = Inr ?a"
    by (rule arrival_decode_frame [OF assms(10,11) f1(3)]) (rule that)
  let ?w = "\<lparr>ad_slot = slot, ad_header = h, ad_suite = en_suite en, ad_handshake = ?msg\<rparr>"
  let ?p' = "\<lparr>pv_slot = slot, pv_header = h, pv_offer = offer, pv_responder = proof'\<rparr>"
  have "offer_decode ?p = Inr offer"
    using offer.decode_fields [OF assms(13)] p assms(18,20) by simp
  then have prove: "admitted_prove C prologue (from_secret C r) (c_public C c, en_suite en) ?w buf = (Inr ?p', splice buf 0 ?p)"
    using run(2-4) by (simp add: admitted_prove_def)
  let ?h2 = "h\<lparr>h_kind := Mt_HelloResponse\<rparr>"
  let ?f2 = "frame_bytes ?h2 (reply_fields ?msg')"
  have f2: "length ?f2 \<le> MAX_PAYLOAD" "length ?f2 \<le> length dst" "length ?f2 \<le> usize_max"
    using length_reply_frame [OF msgs(2), of ?h2] assms(16,17) by auto
  have reply: "proved_reply C y report ?p' dst = (Inr (for_responder k, length ?f2), splice dst 0 ?f2)"
    by (rule proved_reply_eq [OF assms(14) _ msgs(4) _ f2(2) assms(17)]) (use run(5) in simp_all)
  obtain e2 where e2: "envelope_decode ?f2 = Inr e2" "e_header e2 = ?h2" "answer_message e2 = Inr ?msg'"
    by (rule answer_decode_frame [of ?h2, OF _ f2(3)]) (use assms(11) that in auto)
  have "report_decode ?q (h_session h) = Inr report"
    using report.decode_fields [OF assms(14)] q assms(19,20) by simp
  moreover obtain v where v: "version_agreed (of_version offer) (hr_version report) = Inr v"
    using assms(15) by (simp add: version_agreed_def)
  ultimately have finish: "pending_finish C en \<lparr>hn_initiator = i, hn_header = h, hn_ours = of_version offer\<rparr> e2 buf =
      (Inr \<lparr>hs_channel = for_initiator k, hs_version = v, hs_report = report\<rparr>, splice buf 0 ?q)"
    using run(6) e2(2,3) assms(6,12) by (simp add: pending_finish_def hello_expected_def)
  have opened: "\<exists>p b1 k n2 d2 e2 s b2.
      admitted_prove C prologue (from_secret C r) (c_public C c, en_suite en) ?w buf = (Inr p, b1) \<and>
      pv_slot p = slot \<and> pv_offer p = offer \<and>
      proved_reply C y report p dst = (Inr (for_responder k, n2), d2) \<and> n2 \<le> MAX_PAYLOAD \<and>
      envelope_decode (take n2 d2) = Inr e2 \<and>
      pending_finish C en \<lparr>hn_initiator = i, hn_header = h, hn_ours = of_version offer\<rparr> e2 buf = (Inr s, b2) \<and>
      hs_channel s = for_initiator k \<and> hs_report s = report \<and>
      version_agreed (of_version offer) (hr_version report) = Inr (hs_version s)"
    using prove reply e2(1) finish f2(1) v by (fastforce simp: splice_def)
  have arrives: "envelope_decode (take (length ?f1) (splice dst 0 ?f1)) = Inr e1" "arrival_decode e1 = Inr ?a"
    using e1 by (simp_all add: splice_def)
  have sent: "length (ha_admit ?a) = MAC_TAG_BYTES" "admit_tag C key prologue (ha_handshake ?a) = ha_admit ?a"
    using tag by simp_all
  show ?thesis
    using sent
  proof (cases rule: arrival_admit_own [where before = before and slot = slot and later = later])
    case own
    then have "arrival_admit C prologue slots ?a = Inr ?w"
      using assms(9) by simp
    then show ?thesis
      using start f1(1) arrives opened by fastforce
  next
    case (earlier s k')
    then have "arrival_admit C prologue slots ?a =
        Inr \<lparr>ad_slot = s, ad_header = h, ad_suite = en_suite en, ad_handshake = ?msg\<rparr>"
      using assms(9) by simp
    then show ?thesis
      using start f1(1) arrives earlier(1,2) by fastforce
  qed
qed

lemma hello_opens_the_slots_session_witness:
  "\<exists>pending n1 d1 e1 a w p b1 k n2 d2 e2 s b2 other key.
    let C = example_crypto; en = enrolment_new (replicate 16 7) (c_public C [3]) (from_secret C [4]) Su_X25519ChachapolySha256 (Epoch 1);
      offer = \<lparr>of_version = V1_0, of_client_version = [0x6F, 0x38, 0x39]\<rparr>;
      h = \<lparr>h_kind = Mt_Hello, h_session = Assigned 4, h_req_id = 1\<rparr>;
      report = \<lparr>hr_version = V1_0, hr_session = Assigned 4, hr_fw_controller = [], hr_fw_comms = [], hr_capabilities = 5,
        hr_log_oldest_seq = 1, hr_log_newest_seq = 9, hr_state_seq = 2, hr_time_known = True, hr_caps = caps_this_controller,
        hr_topology = topology_this_controller, hr_client_id = ClientId 2, hr_generation = Generation 1\<rparr> in
    static_admit_key C (from_secret C [3]) (replicate 16 7) (c_public C [5]) = Inr other \<and>
    static_admit_key C (from_secret C [3]) (replicate 16 7) (c_public C [4]) = Inr key \<and>
    pending_start C [9] en [1] offer h (replicate 1100 0) = (Inr (pending, n1), d1) \<and>
    envelope_decode (take n1 d1) = Inr e1 \<and> arrival_decode e1 = Inr a \<and>
    arrival_admit C [9] [(1 :: nat, other), (2, key)] a = Inr w \<and>
    admitted_prove C [9] (from_secret C [3]) (c_public C [4], Su_X25519ChachapolySha256) w (replicate 400 0) = (Inr p, b1) \<and>
    pv_slot p = 2 \<and> pv_offer p = offer \<and>
    proved_reply C [2] report p (replicate 1100 0) = (Inr (for_responder k, n2), d2) \<and>
    envelope_decode (take n2 d2) = Inr e2 \<and> pending_finish C en pending e2 (replicate 400 0) = (Inr s, b2) \<and>
    hs_channel s = for_initiator k \<and> hs_report s = report"
proof -
  let ?en = "enrolment_new (replicate 16 7) (c_public example_crypto [3]) (from_secret example_crypto [4]) Su_X25519ChachapolySha256 (Epoch 1)"
  let ?offer = "\<lparr>of_version = V1_0, of_client_version = [0x6F, 0x38, 0x39]\<rparr> :: hello_offer"
  let ?h = "\<lparr>h_kind = Mt_Hello, h_session = Assigned 4, h_req_id = 1\<rparr>"
  let ?r = "\<lparr>hr_version = V1_0, hr_session = Assigned 4, hr_fw_controller = [], hr_fw_comms = [], hr_capabilities = 5,
        hr_log_oldest_seq = 1, hr_log_newest_seq = 9, hr_state_seq = 2, hr_time_known = True, hr_caps = caps_this_controller,
        hr_topology = topology_this_controller, hr_client_id = ClientId 2, hr_generation = Generation 1\<rparr> :: hello_report"
  obtain es ss ee se where dh: "c_dh example_crypto [1] (c_public example_crypto [3]) = Some es"
    "c_dh example_crypto [4] (c_public example_crypto [3]) = Some ss" "c_dh example_crypto [1] (c_public example_crypto [2]) = Some ee"
    "c_dh example_crypto [4] (c_public example_crypto [2]) = Some se"
    using example_dh [of "[1]" "[2]"] example_dh [of "[1]" "[3]"] example_dh [of "[4]" "[2]"] example_dh [of "[4]" "[3]"]
    by blast
  let ?rest = "[106, 51, 52, 40, 113, 54, 40, 102, 99, 106, 110, 115, 42, 108, 98, 121, 1] @ replicate 14 0 :: bytes"
  have key: "static_admit_key example_crypto (from_secret example_crypto [3]) (en_device_id ?en) (c_public example_crypto [4]) =
      Inr (0x6B # ?rest)"
    using example_admit_keys(1) by (simp add: enrolment_new_def)
  have report: "report_valid (h_session ?h) ?r"
    by (simp add: report_valid_def text_ok_def utf8.simps caps_this_controller_def CHANNEL_CEILING_def
        topology_this_controller_def client_id_ok_def generation_ok_def)
  have offer: "offer_valid ?offer"
    by (simp add: offer_valid_def text_ok_def utf8.simps MAX_STRING_def)
  have apart: False if "admit_tag example_crypto (0x6A # ?rest) [9] m = t" "t = admit_tag example_crypto (0x6B # ?rest) [9] m" for m t
    using that example_admit_tag [of "0x6A" ?rest "[9]" m] example_admit_tag [of "0x6B" ?rest "[9]" m] by auto
  have en: "en_key ?en = from_secret example_crypto [4]" "en_controller ?en = c_public example_crypto [3]"
    "en_device_id ?en = replicate 16 7" "en_suite ?en = Su_X25519ChachapolySha256"
    by (simp_all add: enrolment_new_def)
  show ?thesis
    using hello_opens_the_slots_session [OF example_crypto_ok dh en(1,2) key, where h = ?h and offer = ?offer and report = ?r
        and dst = "replicate 1100 0" and buf = "replicate 400 0" and before = "[(1, 0x6A # ?rest)]" and slot = "2 :: nat" and later = "[]" and prologue = "[9]",
        OF refl _ _ _ offer report] key example_admit_keys(2) apart
    unfolding Let_def en(3,4)
    by (simp add: V1_0_def limit_defs usize_max_def MAX_HELLO_OFFER_def MAX_HELLO_REPORT_def TEXT_MAX_def TOPOLOGY_REPORT_BYTES_def
        MAX_STRING_def del: append_Cons append_Nil) fastforce
qed

text \<open>C37. An arrival is the first slot's whose admission key tags it and nobody's if no key does,
  which is counted; and of everything a \<open>Hello\<close> can be refused for, what counts towards
  \<open>MAX_AUTH_FAILURES\<close> is exactly what is answered as error 10 or error 12.\<close>

theorem hello_admission_exact:
  assumes "crypto_ok C"
  shows "(case arrival_admit C prologue slots a of
      Inr w \<Rightarrow> \<exists>before key after. slots = before @ (ad_slot w, key) # after \<and>
        admit_tag C key prologue (ha_handshake a) = ha_admit a \<and>
        (\<forall>(s, k) \<in> set before. admit_tag C k prologue (ha_handshake a) \<noteq> ha_admit a)
    | Inl e \<Rightarrow> hello_counts e \<and> (\<forall>(s, k) \<in> set slots. admit_tag C k prologue (ha_handshake a) \<noteq> ha_admit a)) \<and>
    (\<forall>e. hello_counts e \<longleftrightarrow> hello_refusal e \<in> {RefuseClient Ec_AuthenticationFailed, RefuseClient Ec_UnknownClient})"
proof (rule conjI)
  let ?tags = "\<lambda>(_, key). admit_tag C key prologue (ha_handshake a) = ha_admit a"
  show "case arrival_admit C prologue slots a of
      Inr w \<Rightarrow> \<exists>before key after. slots = before @ (ad_slot w, key) # after \<and>
        admit_tag C key prologue (ha_handshake a) = ha_admit a \<and>
        (\<forall>(s, k) \<in> set before. admit_tag C k prologue (ha_handshake a) \<noteq> ha_admit a)
    | Inl e \<Rightarrow> hello_counts e \<and> (\<forall>(s, k) \<in> set slots. admit_tag C k prologue (ha_handshake a) \<noteq> ha_admit a)"
  proof (cases "length (ha_admit a) = MAC_TAG_BYTES")
    case True
    show ?thesis
    proof (cases "List.find ?tags slots")
      case None
      then have "\<forall>(s, k) \<in> set slots. admit_tag C k prologue (ha_handshake a) \<noteq> ha_admit a"
        by (auto simp: find_None_iff)
      then show ?thesis
        by (simp add: arrival_admit_eq [OF True] None)
    next
      case (Some found)
      then obtain before after where "slots = before @ found # after" "?tags found" "\<forall>x \<in> set before. \<not> ?tags x"
        unfolding find_Some_iff by (metis (mono_tags, lifting) id_take_nth_drop in_set_conv_nth length_take min.strict_boundedE nth_take)
      then show ?thesis
        using Some by (cases found) (fastforce simp: arrival_admit_eq [OF True])
    qed
  next
    case False
    moreover have "admit_tag C k prologue (ha_handshake a) \<noteq> ha_admit a" for k
      using length_tag [OF assms] False by (metis admit_tag_def)
    ultimately show ?thesis
      by (auto simp: arrival_admit_width)
  qed
qed (use hello_counts_iff in blast)

lemma hello_admission_exact_witness:
  "let a = \<lparr>ha_header = \<lparr>h_kind = Mt_Hello, h_session = Assigned 4, h_req_id = 1\<rparr>, ha_suite = Su_X25519ChachapolySha256,
      ha_handshake = [1], ha_admit = [2]\<rparr> in
   \<exists>e. arrival_admit example_crypto [9] [(1 :: nat, [7])] a = Inl e \<and> hello_counts e"
  using hello_admission_exact [OF example_crypto_ok, where prologue = "[9]" and slots = "[(1 :: nat, [7])]"
      and a = "\<lparr>ha_header = \<lparr>h_kind = Mt_Hello, h_session = Assigned 4, h_req_id = 1\<rparr>, ha_suite = Su_X25519ChachapolySha256,
      ha_handshake = [1], ha_admit = [2]\<rparr>"]
  by (simp add: arrival_admit_width MAC_TAG_BYTES_def)

end
