(* ===== verification/Slots.thy ===== *)
theory Slots
  imports Limits Keys
begin

text \<open>
  The client table of \<open>crates/km43/src/pairing.rs\<close>: which slot an enrolment gets and the role it
  takes there (\<open>Allocation::choose\<close>). Writing the chosen slot is the caller's, outside the crate.
\<close>

record occupant =
  oc_key :: public_key
  oc_label :: bytes
  oc_role :: role

record slot_view =
  sv_client_id :: client_id
  sv_held :: "occupant option"

record placement =
  pm_client_id :: client_id
  pm_role :: role

datatype allocation = SameKey placement | Free placement | Reclaim placement | Full

text \<open>\<open>Iterator::min_by_key\<close>: the first of the least.\<close>

fun min_by_key :: "('a \<Rightarrow> 'b :: linorder) \<Rightarrow> 'a list \<Rightarrow> 'a option" where
  "min_by_key f [] = None"
| "min_by_key f (x # xs) =
     (case min_by_key f xs of None \<Rightarrow> Some x | Some y \<Rightarrow> if f x \<le> f y then Some x else Some y)"

fun occupants :: "slot_view list \<Rightarrow> (client_id \<times> occupant) list" where
  "occupants [] = []"
| "occupants (s # slots) =
     (case sv_held s of Some oc \<Rightarrow> (sv_client_id s, oc) # occupants slots | None \<Rightarrow> occupants slots)"

definition lowest :: "(occupant \<Rightarrow> bool) \<Rightarrow> slot_view list \<Rightarrow> (client_id \<times> occupant) option" where
  "lowest pick slots = min_by_key (\<lambda>(c, _). client_id_get c) (filter (\<lambda>(_, oc). pick oc) (occupants slots))"

definition holding :: "role \<Rightarrow> slot_view list \<Rightarrow> nat" where
  "holding role slots = length (filter (\<lambda>(_, oc). oc_role oc = role) (occupants slots))"

definition lowest_free :: "slot_view list \<Rightarrow> client_id option" where
  "lowest_free slots = min_by_key client_id_get (map sv_client_id (filter (\<lambda>s. sv_held s = None) slots))"

definition new_role :: "slot_view list \<Rightarrow> role \<times> bool" where
  "new_role slots =
     (if holding Role_Owner slots = 0 then (Role_Owner, True) else (Role_Admin, holding Role_Admin slots < MAX_ADMINS))"

definition allocate_new :: "slot_view list \<Rightarrow> bytes \<Rightarrow> allocation" where
  "allocate_new slots label =
     (case (new_role slots, lowest_free slots) of
        ((role, True), Some c) \<Rightarrow> Free \<lparr>pm_client_id = c, pm_role = role\<rparr>
      | _ \<Rightarrow>
          (case lowest (\<lambda>oc. oc_role oc = Role_Admin \<and> oc_label oc = label) slots of
             Some (c, _) \<Rightarrow> Reclaim \<lparr>pm_client_id = c, pm_role = Role_Admin\<rparr>
           | None \<Rightarrow> Full))"

definition allocate :: "slot_view list \<Rightarrow> public_key option \<Rightarrow> bytes \<Rightarrow> allocation" where
  "allocate slots key label =
     (case (case key of Some k \<Rightarrow> lowest (\<lambda>oc. oc_key oc = k) slots | None \<Rightarrow> None) of
        Some (c, oc) \<Rightarrow> SameKey \<lparr>pm_client_id = c, pm_role = oc_role oc\<rparr>
      | None \<Rightarrow> allocate_new slots label)"

section \<open>What it picks\<close>

lemma min_by_key_None [simp]: "min_by_key f xs = None \<longleftrightarrow> xs = []"
  by (cases xs) (auto split: option.split)

lemma min_by_key_Some: "min_by_key f xs = Some x \<Longrightarrow> x \<in> set xs \<and> (\<forall>y \<in> set xs. f x \<le> f y)"
proof (induction xs arbitrary: x)
  case (Cons z zs)
  then show ?case
    by (cases "min_by_key f zs") (fastforce split: if_splits)+
qed simp

lemma occupants_iff: "(c, oc) \<in> set (occupants slots) \<longleftrightarrow> (\<exists>s \<in> set slots. sv_client_id s = c \<and> sv_held s = Some oc)"
  by (induction slots) (auto split: option.split)

lemma lowest_None: "lowest pick slots = None \<longleftrightarrow> (\<forall>s \<in> set slots. \<forall>oc. sv_held s = Some oc \<longrightarrow> \<not> pick oc)"
  unfolding lowest_def min_by_key_None filter_empty_conv using occupants_iff [of _ _ slots] by fastforce

lemma lowest_Some:
  assumes "lowest pick slots = Some (c, oc)"
  shows "\<exists>s \<in> set slots. sv_client_id s = c \<and> sv_held s = Some oc" and "pick oc"
    and "\<And>s oc'. s \<in> set slots \<Longrightarrow> sv_held s = Some oc' \<Longrightarrow> pick oc' \<Longrightarrow> client_id_get c \<le> client_id_get (sv_client_id s)"
  using min_by_key_Some [OF assms [unfolded lowest_def]] occupants_iff [of _ _ slots] by fastforce+

lemma lowest_free_None: "lowest_free slots = None \<longleftrightarrow> (\<forall>s \<in> set slots. sv_held s \<noteq> None)"
  by (auto simp: lowest_free_def filter_empty_conv)

lemma lowest_free_Some:
  assumes "lowest_free slots = Some c"
  shows "\<exists>s \<in> set slots. sv_client_id s = c \<and> sv_held s = None"
    and "\<And>s. s \<in> set slots \<Longrightarrow> sv_held s = None \<Longrightarrow> client_id_get c \<le> client_id_get (sv_client_id s)"
  using min_by_key_Some [OF assms [unfolded lowest_free_def]] by auto

lemma holding_simps [simp]:
  "holding role [] = 0"
  "holding role (s # slots) =
     (case sv_held s of Some oc \<Rightarrow> (if oc_role oc = role then 1 else 0) | None \<Rightarrow> 0) + holding role slots"
  by (simp_all add: holding_def split: option.split)

lemma allocate_full_needs_no_key:
  assumes "allocate slots None label \<noteq> Full"
  shows "allocate slots key label \<noteq> Full"
  using assms by (auto simp: allocate_def split: option.split)

section \<open>Properties\<close>

text \<open>C11. An enrolment gets the slot that already holds its key, the lowest if several do. Only when
  no slot holds it: the lowest free one, as the owner when there is none and as an admin while there
  is room for admins. Only when there is no free slot or no room: the lowest admin's with the same
  label, byte for byte. Only when there is none of these either: none. An exchange that message 1
  let in, with no key yet, is not turned away at message 3 by the same table.\<close>

theorem allocation_exact:
  shows "(case allocate slots key label of
      SameKey p \<Rightarrow> (\<exists>s \<in> set slots. \<exists>oc. key = Some (oc_key oc) \<and> sv_held s = Some oc \<and>
        p = \<lparr>pm_client_id = sv_client_id s, pm_role = oc_role oc\<rparr> \<and>
        (\<forall>t \<in> set slots. \<forall>oc'. sv_held t = Some oc' \<longrightarrow> oc_key oc' = oc_key oc \<longrightarrow>
          client_id_get (sv_client_id s) \<le> client_id_get (sv_client_id t)))
    | Free p \<Rightarrow> (\<forall>s \<in> set slots. \<forall>oc. sv_held s = Some oc \<longrightarrow> key \<noteq> Some (oc_key oc)) \<and>
        (\<exists>s \<in> set slots. sv_held s = None \<and> pm_client_id p = sv_client_id s \<and>
        (\<forall>t \<in> set slots. sv_held t = None \<longrightarrow> client_id_get (sv_client_id s) \<le> client_id_get (sv_client_id t))) \<and>
        (if holding Role_Owner slots = 0 then pm_role p = Role_Owner
         else pm_role p = Role_Admin \<and> holding Role_Admin slots < MAX_ADMINS)
    | Reclaim p \<Rightarrow> (\<forall>s \<in> set slots. \<forall>oc. sv_held s = Some oc \<longrightarrow> key \<noteq> Some (oc_key oc)) \<and>
        (\<exists>s \<in> set slots. \<exists>oc. sv_held s = Some oc \<and> oc_role oc = Role_Admin \<and> oc_label oc = label \<and>
        p = \<lparr>pm_client_id = sv_client_id s, pm_role = Role_Admin\<rparr> \<and>
        (\<forall>t \<in> set slots. \<forall>oc'. sv_held t = Some oc' \<longrightarrow> oc_role oc' = Role_Admin \<longrightarrow> oc_label oc' = label \<longrightarrow>
          client_id_get (sv_client_id s) \<le> client_id_get (sv_client_id t))) \<and>
        ((\<forall>s \<in> set slots. sv_held s \<noteq> None) \<or> holding Role_Owner slots \<noteq> 0 \<and> MAX_ADMINS \<le> holding Role_Admin slots)
    | Full \<Rightarrow> (\<forall>s \<in> set slots. \<forall>oc. sv_held s = Some oc \<longrightarrow> key \<noteq> Some (oc_key oc) \<and> \<not> (oc_role oc = Role_Admin \<and> oc_label oc = label)) \<and>
        ((\<forall>s \<in> set slots. sv_held s \<noteq> None) \<or> holding Role_Owner slots \<noteq> 0 \<and> MAX_ADMINS \<le> holding Role_Admin slots)) \<and>
    (allocate slots None label \<noteq> Full \<longrightarrow> allocate slots key label \<noteq> Full)"
proof -
  let ?own = "case key of Some k \<Rightarrow> lowest (\<lambda>oc. oc_key oc = k) slots | None \<Rightarrow> None"
  let ?label = "lowest (\<lambda>oc. oc_role oc = Role_Admin \<and> oc_label oc = label) slots"
  show ?thesis
  proof (cases ?own)
    case (Some found)
    then obtain k c oc where found: "key = Some k" "lowest (\<lambda>oc. oc_key oc = k) slots = Some (c, oc)"
      by (cases found) (auto split: option.splits)
    from lowest_Some [OF found(2)] show ?thesis
      using found by (fastforce simp: allocate_def)
  next
    case None
    then have fresh: "\<forall>s \<in> set slots. \<forall>oc. sv_held s = Some oc \<longrightarrow> key \<noteq> Some (oc_key oc)"
      by (auto simp: lowest_None split: option.splits)
    have a: "allocate slots key label = allocate_new slots label"
      using None by (simp add: allocate_def)
    obtain role room where role: "new_role slots = (role, room)"
      by fastforce
    show ?thesis
    proof (cases "room \<and> lowest_free slots \<noteq> None")
      case True
      then obtain c where c: "lowest_free slots = Some c"
        by blast
      have free: "allocate slots key label = Free \<lparr>pm_client_id = c, pm_role = role\<rparr>"
        using True role c by (simp add: a allocate_new_def)
      have "\<exists>s \<in> set slots. sv_held s = None \<and> c = sv_client_id s \<and>
          (\<forall>t \<in> set slots. sv_held t = None \<longrightarrow> client_id_get (sv_client_id s) \<le> client_id_get (sv_client_id t))"
        using lowest_free_Some [OF c] by blast
      moreover have "if holding Role_Owner slots = 0 then role = Role_Owner
          else role = Role_Admin \<and> holding Role_Admin slots < MAX_ADMINS"
        using role True by (auto simp: new_role_def split: if_splits)
      ultimately show ?thesis
        unfolding free allocation.case placement.select_convs using fresh by blast
    next
      case False
      then have none: "allocate slots key label = (case ?label of Some (c, _) \<Rightarrow> Reclaim \<lparr>pm_client_id = c, pm_role = Role_Admin\<rparr> | None \<Rightarrow> Full)"
        using role by (auto simp: a allocate_new_def split: option.split bool.split)
      have full: "(\<forall>s \<in> set slots. sv_held s \<noteq> None) \<or> holding Role_Owner slots \<noteq> 0 \<and> MAX_ADMINS \<le> holding Role_Admin slots"
        using False role lowest_free_None [of slots] by (auto simp: new_role_def split: if_splits)
      show ?thesis
      proof (cases ?label)
        case no_label: None
        then have "allocate slots key label = Full" and "\<forall>s \<in> set slots. \<forall>oc. sv_held s = Some oc \<longrightarrow>
            \<not> (oc_role oc = Role_Admin \<and> oc_label oc = label)"
          using none by (simp, simp add: lowest_None)
        then show ?thesis
          using fresh full allocate_full_needs_no_key [of slots label key] by auto
      next
        case (Some found)
        then obtain c oc where found: "?label = Some (c, oc)"
          by (cases found) auto
        have reclaim: "allocate slots key label = Reclaim \<lparr>pm_client_id = c, pm_role = Role_Admin\<rparr>"
          using none found by simp
        from lowest_Some [OF found] show ?thesis
          unfolding reclaim allocation.case using full fresh by blast
      qed
    qed
  qed
qed

lemma allocation_exact_witness:
  "let slots = [\<lparr>sv_client_id = ClientId 1, sv_held = Some \<lparr>oc_key = [1], oc_label = [9], oc_role = Role_Owner\<rparr>\<rparr>,
      \<lparr>sv_client_id = ClientId 2, sv_held = Some \<lparr>oc_key = [2], oc_label = [7], oc_role = Role_Admin\<rparr>\<rparr>] in
   allocate slots (Some [3]) [7] = Reclaim \<lparr>pm_client_id = ClientId 2, pm_role = Role_Admin\<rparr> \<and>
   allocate slots (Some [3]) [9] = Full \<and> (\<forall>s \<in> set slots. sv_held s \<noteq> None)"
proof -
  let ?slots = "[\<lparr>sv_client_id = ClientId 1, sv_held = Some \<lparr>oc_key = [1], oc_label = [9], oc_role = Role_Owner\<rparr>\<rparr>,
      \<lparr>sv_client_id = ClientId 2, sv_held = Some \<lparr>oc_key = [2], oc_label = [7], oc_role = Role_Admin\<rparr>\<rparr>] :: slot_view list"
  have "allocate ?slots (Some [3]) [7] = Reclaim \<lparr>pm_client_id = ClientId 2, pm_role = Role_Admin\<rparr>"
    "allocate ?slots (Some [3]) [9] = Full"
    by (simp_all add: allocate_def allocate_new_def new_role_def lowest_def lowest_free_def limit_defs)
  then show ?thesis
    using allocation_exact [of ?slots "Some [3]" "[9]"] by simp
qed

end
