(* ===== verification/Pairing.thy ===== *)
theory Pairing
  imports Enrolment Handshake Session Staged Slots
begin

text \<open>
  \<open>crates/km43/src/pairing.rs\<close>: enrolment under the label. \<open>Pair 0x0B\<close>/\<open>0x8B\<close> and \<open>Enrol
  0x13\<close>/\<open>0x93\<close> carry the \<open>XXpsk0\<close> handshake of \<open>Handshake\<close>; the client's side is pending,
  proceeding, enrol pending, the controller's arrival, offered, awaiting, enrolling. The table
  the controller enrols into is \<open>Slots\<close>.
\<close>

definition MAX_PAIR_OFFER :: nat where
  "MAX_PAIR_OFFER = 1 + 5 + 2 + 2 + 2 + MAX_STRING + 2 + 2 + MAX_LABEL"

definition MAX_PAIR_MESSAGE_1 :: nat where "MAX_PAIR_MESSAGE_1 = KEY_BYTES + MAX_PAIR_OFFER + TAG_BYTES"
definition EMPTY_MAP :: bytes where "EMPTY_MAP = [0xA0]"
definition PAIR_MESSAGE_2 :: nat where "PAIR_MESSAGE_2 = KEY_BYTES + SEALED_KEY_BYTES + length EMPTY_MAP + TAG_BYTES"
definition PAIR_MESSAGE_3 :: nat where "PAIR_MESSAGE_3 = SEALED_KEY_BYTES + length EMPTY_MAP + TAG_BYTES"
definition MAX_ENROL_ANSWER :: nat where "MAX_ENROL_ANSWER = 1 + 4 + 1 + 5 + 5 + 1 + CHALLENGE_BYTES"

lemmas pair_sizes = MAX_PAIR_OFFER_def MAX_PAIR_MESSAGE_1_def EMPTY_MAP_def PAIR_MESSAGE_2_def PAIR_MESSAGE_3_def
  MAX_ENROL_ANSWER_def

datatype pair_offer_key = Pk_ProtocolMajor | Pk_ProtocolMinor | Pk_ClientVersion | Pk_ClientKind | Pk_Label

definition PAIR_OFFER_KEY_COUNT :: nat where "PAIR_OFFER_KEY_COUNT = 5"

definition pair_offer_key_of :: "int \<Rightarrow> pair_offer_key option" where
  "pair_offer_key_of number =
     (if number = 1 then Some Pk_ProtocolMajor
      else if number = 2 then Some Pk_ProtocolMinor
      else if number = 3 then Some Pk_ClientVersion
      else if number = 4 then Some Pk_ClientKind
      else if number = 5 then Some Pk_Label
      else None)"

primrec pair_offer_key_number :: "pair_offer_key \<Rightarrow> int" where
  "pair_offer_key_number Pk_ProtocolMajor = 1"
| "pair_offer_key_number Pk_ProtocolMinor = 2"
| "pair_offer_key_number Pk_ClientVersion = 3"
| "pair_offer_key_number Pk_ClientKind = 4"
| "pair_offer_key_number Pk_Label = 5"

datatype pair_key =
    PkSuite | PkHandshake | PkOutcome | PkRefusal | PkClientId | PkGeneration | PkNextChallenge | PkOffer pair_offer_key

datatype pair_error =
    Pe_UnknownKey int
  | Pe_Duplicate pair_key
  | Pe_Missing pair_key
  | Pe_WrongWidth pair_key
  | Pe_UnsupportedSuite u8
  | Pe_UnknownKind u8
  | Pe_LabelTooLong nat
  | Pe_UnknownOutcome u8
  | Pe_SlotOnARefusal
  | Pe_Noise noise_error
  | Pe_Refusal mac_error
  | Pe_NotTheLabelsController
  | Pe_NotThisRequest req_id
  | Pe_WrongMessage message_type message_type
  | Pe_Sealed seal_error
  | Pe_TooLargeToWrite
  | Pe_Envelope envelope_error
  | Pe_Cbor cbor_error

fun pair_refusal_code :: "pair_error \<Rightarrow> refusal option" where
  "pair_refusal_code (Pe_Sealed why) = seal_refusal why"
| "pair_refusal_code (Pe_UnsupportedSuite _) = Some (RefuseClient Ec_UnsupportedSuite)"
| "pair_refusal_code (Pe_Noise Noise_DestinationTooSmall) = Some (RefuseClient Ec_PayloadTooLarge)"
| "pair_refusal_code Pe_TooLargeToWrite = Some (RefuseClient Ec_PayloadTooLarge)"
| "pair_refusal_code (Pe_Noise _) = Some (RefuseClient Ec_AuthenticationFailed)"
| "pair_refusal_code (Pe_Refusal _) = Some (RefuseClient Ec_AuthenticationFailed)"
| "pair_refusal_code Pe_NotTheLabelsController = Some (RefuseClient Ec_AuthenticationFailed)"
| "pair_refusal_code (Pe_Envelope why) = Some (envelope_refusal why)"
| "pair_refusal_code _ = Some (RefuseClient Ec_MalformedFrame)"

fun pair_counts :: "pair_error \<Rightarrow> bool" where
  "pair_counts (Pe_Noise why) \<longleftrightarrow> why \<noteq> Noise_DestinationTooSmall"
| "pair_counts _ \<longleftrightarrow> False"

definition pair_expected :: "header \<Rightarrow> message_type \<Rightarrow> pair_error + unit" where
  "pair_expected h k = (if h_kind h = k then Inr () else Inl (Pe_WrongMessage k (h_kind h)))"

section \<open>The offer\<close>

record pair_offer =
  po_version :: version
  po_client_version :: bytes
  po_client_kind :: client_kind
  po_label :: bytes

definition pair_offer_pairs :: "pair_offer \<Rightarrow> (writer, cbor_error, unit) act" where
  "pair_offer_pairs offer =
     andthen (wr_key (pair_offer_key_number Pk_ProtocolMajor)) (\<lambda>_. andthen (wr_u64 (ucast (ve_major (po_version offer)))) (\<lambda>_.
     andthen (wr_key (pair_offer_key_number Pk_ProtocolMinor)) (\<lambda>_. andthen (wr_u64 (ucast (ve_minor (po_version offer)))) (\<lambda>_.
     andthen (wr_key (pair_offer_key_number Pk_ClientVersion)) (\<lambda>_. andthen (wr_text (po_client_version offer)) (\<lambda>_.
     andthen (wr_key (pair_offer_key_number Pk_ClientKind)) (\<lambda>_. andthen (wr_u64 (ucast (client_kind_num (po_client_kind offer)))) (\<lambda>_.
     andthen (wr_key (pair_offer_key_number Pk_Label)) (\<lambda>_. wr_text (po_label offer))))))))))"

definition pair_offer_encode :: "pair_offer \<Rightarrow> bytes \<Rightarrow> (pair_error + nat) \<times> bytes" where
  "pair_offer_encode offer dst =
     (if MAX_LABEL < length (po_label offer) then (Inl (Pe_LabelTooLong (length (po_label offer))), dst)
      else encoding Pe_Cbor (map_err Pe_Cbor (andthen (wr_map PAIR_OFFER_KEY_COUNT) (\<lambda>_. pair_offer_pairs offer))) dst)"

record pair_offer_slots =
  ps_major :: "u8 option"
  ps_minor :: "u8 option"
  ps_version :: "bytes option"
  ps_kind :: "client_kind option"
  ps_label :: "bytes option"

definition pair_offer_slots_empty :: pair_offer_slots where
  "pair_offer_slots_empty = \<lparr>ps_major = None, ps_minor = None, ps_version = None, ps_kind = None, ps_label = None\<rparr>"

definition label_within :: "bytes \<Rightarrow> pair_error + bytes" where
  "label_within v = (if MAX_LABEL < length v then Inl (Pe_LabelTooLong (length v)) else Inr v)"

definition kind_known :: "u8 \<Rightarrow> pair_error + client_kind" where
  "kind_known raw = (case client_kind_of raw of Some ck \<Rightarrow> Inr ck | None \<Rightarrow> Inl (Pe_UnknownKind raw))"

primrec pair_offer_fill :: "pair_offer_key \<Rightarrow> pair_offer_slots \<Rightarrow> (reader, pair_error, pair_offer_slots) act" where
  "pair_offer_fill Pk_ProtocolMajor slots =
     andthen (map_err Pe_Cbor rd_u8) (\<lambda>v.
     andthen (once (Pe_Duplicate (PkOffer Pk_ProtocolMajor)) (ps_major slots) v) (\<lambda>s.
     ret (slots\<lparr>ps_major := s\<rparr>)))"
| "pair_offer_fill Pk_ProtocolMinor slots =
     andthen (map_err Pe_Cbor rd_u8) (\<lambda>v.
     andthen (once (Pe_Duplicate (PkOffer Pk_ProtocolMinor)) (ps_minor slots) v) (\<lambda>s.
     ret (slots\<lparr>ps_minor := s\<rparr>)))"
| "pair_offer_fill Pk_ClientVersion slots =
     andthen (map_err Pe_Cbor rd_text) (\<lambda>v.
     andthen (once (Pe_Duplicate (PkOffer Pk_ClientVersion)) (ps_version slots) v) (\<lambda>s.
     ret (slots\<lparr>ps_version := s\<rparr>)))"
| "pair_offer_fill Pk_ClientKind slots =
     andthen (map_err Pe_Cbor rd_u8) (\<lambda>v.
     andthen (lift_sum (kind_known v)) (\<lambda>w.
     andthen (once (Pe_Duplicate (PkOffer Pk_ClientKind)) (ps_kind slots) w) (\<lambda>s.
     ret (slots\<lparr>ps_kind := s\<rparr>))))"
| "pair_offer_fill Pk_Label slots =
     andthen (map_err Pe_Cbor rd_text) (\<lambda>v.
     andthen (lift_sum (label_within v)) (\<lambda>w.
     andthen (once (Pe_Duplicate (PkOffer Pk_Label)) (ps_label slots) w) (\<lambda>s.
     ret (slots\<lparr>ps_label := s\<rparr>))))"

definition pair_offer_field :: "pair_offer_slots \<Rightarrow> int \<Rightarrow> (reader, pair_error, pair_offer_slots) act" where
  "pair_offer_field slots number =
     (case pair_offer_key_of number of Some key \<Rightarrow> pair_offer_fill key slots | None \<Rightarrow> skipped Pe_Cbor slots)"

definition pair_offer_complete :: "pair_offer_slots \<Rightarrow> (reader, pair_error, pair_offer) act" where
  "pair_offer_complete slots =
     andthen (ok_or (Pe_Missing (PkOffer Pk_ProtocolMajor)) (ps_major slots)) (\<lambda>major.
     andthen (ok_or (Pe_Missing (PkOffer Pk_ProtocolMinor)) (ps_minor slots)) (\<lambda>minor.
     andthen (ok_or (Pe_Missing (PkOffer Pk_ClientVersion)) (ps_version slots)) (\<lambda>client_version.
     andthen (ok_or (Pe_Missing (PkOffer Pk_ClientKind)) (ps_kind slots)) (\<lambda>kind.
     andthen (ok_or (Pe_Missing (PkOffer Pk_Label)) (ps_label slots)) (\<lambda>label.
     ret \<lparr>po_version = \<lparr>ve_major = major, ve_minor = minor\<rparr>, po_client_version = client_version,
       po_client_kind = kind, po_label = label\<rparr>)))))"

definition pair_offer_decode :: "bytes \<Rightarrow> pair_error + pair_offer" where
  "pair_offer_decode bs = decoding (
     andthen (map_fields Pe_Cbor pair_offer_field pair_offer_slots_empty) (\<lambda>slots.
     andthen (finishing Pe_Cbor) (\<lambda>_. pair_offer_complete slots))) bs"

section \<open>How an enrolment ends\<close>

datatype pair_refusal = RefusedWindowClosed | RefusedTableFull

primrec pair_refusal_outcome :: "pair_refusal \<Rightarrow> pair_outcome" where
  "pair_refusal_outcome RefusedWindowClosed = Pao_WindowClosed"
| "pair_refusal_outcome RefusedTableFull = Pao_TableFull"

datatype enrol_outcome =
    Enrolled client_id generation
  | Reclaimed client_id generation
  | WindowClosed
  | TableFull
  | NotStored

primrec outcome_code :: "enrol_outcome \<Rightarrow> pair_outcome" where
  "outcome_code (Enrolled _ _) = Pao_Enrolled"
| "outcome_code (Reclaimed _ _) = Pao_Reclaimed"
| "outcome_code WindowClosed = Pao_WindowClosed"
| "outcome_code TableFull = Pao_TableFull"
| "outcome_code NotStored = Pao_NotStored"

primrec outcome_slot :: "enrol_outcome \<Rightarrow> (client_id \<times> generation) option" where
  "outcome_slot (Enrolled c g) = Some (c, g)"
| "outcome_slot (Reclaimed c g) = Some (c, g)"
| "outcome_slot WindowClosed = None"
| "outcome_slot TableFull = None"
| "outcome_slot NotStored = None"

record enrol_answer =
  ea_outcome :: enrol_outcome
  ea_next_challenge :: bytes

definition enrol_answer_pairs :: "enrol_answer \<Rightarrow> (writer, cbor_error, unit) act" where
  "enrol_answer_pairs a =
     andthen (wr_key 1) (\<lambda>_. andthen (wr_u64 (ucast (pair_outcome_num (outcome_code (ea_outcome a))))) (\<lambda>_.
     andthen (case outcome_slot (ea_outcome a) of
         None \<Rightarrow> ret ()
       | Some (c, g) \<Rightarrow>
           andthen (wr_key 2) (\<lambda>_. andthen (wr_u64 (ucast (client_id_get c))) (\<lambda>_.
           andthen (wr_key 3) (\<lambda>_. wr_u64 (ucast (generation_get g)))))) (\<lambda>_.
     andthen (wr_key 4) (\<lambda>_. wr_byte_string (ea_next_challenge a)))))"

definition enrol_answer_encode :: "enrol_answer \<Rightarrow> bytes \<Rightarrow> (pair_error + nat) \<times> bytes" where
  "enrol_answer_encode a dst = encoding Pe_Cbor (map_err Pe_Cbor (
     andthen (wr_map (if outcome_slot (ea_outcome a) \<noteq> None then 4 else 2)) (\<lambda>_. enrol_answer_pairs a))) dst"

record enrol_slots =
  es_outcome :: "u8 option"
  es_id :: "u32 option"
  es_generation :: "u32 option"
  es_challenge :: "bytes option"

definition enrol_slots_empty :: enrol_slots where
  "enrol_slots_empty = \<lparr>es_outcome = None, es_id = None, es_generation = None, es_challenge = None\<rparr>"

definition challenge_within :: "bytes \<Rightarrow> pair_error + bytes" where
  "challenge_within v = (if length v = CHALLENGE_BYTES then Inr v else Inl (Pe_WrongWidth PkNextChallenge))"

definition enrol_field :: "enrol_slots \<Rightarrow> int \<Rightarrow> (reader, pair_error, enrol_slots) act" where
  "enrol_field slots number =
     (if number = 1 then
        andthen (map_err Pe_Cbor rd_u8) (\<lambda>v. andthen (once (Pe_Duplicate PkOutcome) (es_outcome slots) v) (\<lambda>s.
        ret (slots\<lparr>es_outcome := s\<rparr>)))
      else if number = 2 then
        andthen (map_err Pe_Cbor rd_u32) (\<lambda>v. andthen (once (Pe_Duplicate PkClientId) (es_id slots) v) (\<lambda>s.
        ret (slots\<lparr>es_id := s\<rparr>)))
      else if number = 3 then
        andthen (map_err Pe_Cbor rd_u32) (\<lambda>v. andthen (once (Pe_Duplicate PkGeneration) (es_generation slots) v) (\<lambda>s.
        ret (slots\<lparr>es_generation := s\<rparr>)))
      else if number = 4 then
        andthen (map_err Pe_Cbor rd_byte_string) (\<lambda>v. andthen (lift_sum (challenge_within v)) (\<lambda>w.
        andthen (once (Pe_Duplicate PkNextChallenge) (es_challenge slots) w) (\<lambda>s.
        ret (slots\<lparr>es_challenge := s\<rparr>))))
      else skipped Pe_Cbor slots)"

definition enrol_slot :: "enrol_slots \<Rightarrow> pair_error + client_id \<times> generation" where
  "enrol_slot slots =
     (case Option.bind (es_id slots) client_id_new of
        None \<Rightarrow> Inl (Pe_Missing PkClientId)
      | Some c \<Rightarrow>
          (case Option.bind (es_generation slots) generation_new of
             None \<Rightarrow> Inl (Pe_Missing PkGeneration)
           | Some g \<Rightarrow> Inr (c, g)))"

definition no_slot :: "enrol_slots \<Rightarrow> enrol_outcome \<Rightarrow> pair_error + enrol_outcome" where
  "no_slot slots outcome =
     (if es_id slots \<noteq> None \<or> es_generation slots \<noteq> None then Inl Pe_SlotOnARefusal else Inr outcome)"

definition enrol_outcome_of :: "u8 \<Rightarrow> enrol_slots \<Rightarrow> pair_error + enrol_outcome" where
  "enrol_outcome_of raw slots =
     (case pair_outcome_of raw of
        None \<Rightarrow> Inl (Pe_UnknownOutcome raw)
      | Some Pao_Enrolled \<Rightarrow> map_sum id (\<lambda>(c, g). Enrolled c g) (enrol_slot slots)
      | Some Pao_Reclaimed \<Rightarrow> map_sum id (\<lambda>(c, g). Reclaimed c g) (enrol_slot slots)
      | Some Pao_WindowClosed \<Rightarrow> no_slot slots WindowClosed
      | Some Pao_TableFull \<Rightarrow> no_slot slots TableFull
      | Some Pao_NotStored \<Rightarrow> no_slot slots NotStored
      | Some Pao_Proceed \<Rightarrow> Inl (Pe_UnknownOutcome raw))"

definition enrol_complete :: "enrol_slots \<Rightarrow> (reader, pair_error, enrol_answer) act" where
  "enrol_complete slots =
     andthen (ok_or (Pe_Missing PkOutcome) (es_outcome slots)) (\<lambda>raw.
     andthen (lift_sum (enrol_outcome_of raw slots)) (\<lambda>outcome.
     andthen (ok_or (Pe_Missing PkNextChallenge) (es_challenge slots)) (\<lambda>challenge.
     ret \<lparr>ea_outcome = outcome, ea_next_challenge = challenge\<rparr>)))"

definition enrol_answer_decode :: "bytes \<Rightarrow> pair_error + enrol_answer" where
  "enrol_answer_decode bs = decoding (
     andthen (map_fields Pe_Cbor enrol_field enrol_slots_empty) (\<lambda>slots.
     andthen (finishing Pe_Cbor) (\<lambda>_. enrol_complete slots))) bs"

section \<open>The client\<close>

record pair_pending =
  pp_initiator :: pair_initiator
  pp_header :: header

definition pair_pairs :: "suite \<Rightarrow> bytes \<Rightarrow> (writer, cbor_error, unit) act" where
  "pair_pairs suite msg =
     andthen (wr_key 1) (\<lambda>_. andthen (wr_u64 (ucast (suite_num suite))) (\<lambda>_.
     andthen (wr_key 2) (\<lambda>_. wr_byte_string msg)))"

definition pairing_start ::
  "crypto \<Rightarrow> bytes \<Rightarrow> suite \<Rightarrow> label \<Rightarrow> bytes \<Rightarrow> pair_offer \<Rightarrow> header \<Rightarrow> (bytes, pair_error, pair_pending \<times> nat) act" where
  "pairing_start C prologue suite label ephemeral offer h =
     andthen (lift_sum (pair_expected h Mt_Pair)) (\<lambda>_.
     andthen (lift_sum (over_zeros Pe_TooLargeToWrite MAX_PAIR_OFFER (pair_offer_encode offer) id)) (\<lambda>(_, payload).
     andthen (lift_sum (over_zeros Pe_TooLargeToWrite MAX_PAIR_MESSAGE_1
       (map_err Pe_Noise (pair_start C prologue (pair_psk C label) ephemeral payload)) snd)) (\<lambda>((initiator, _), msg).
     andthen (enveloping Pe_Cbor (map_err Pe_Envelope (header_write h 2)) (pair_pairs suite msg)) (\<lambda>written.
     ret (\<lparr>pp_initiator = initiator, pp_header = h\<rparr>, written)))))"

record reply_slots =
  rs_outcome :: "u8 option"
  rs_handshake :: "bytes option"
  rs_refusal :: "bytes option"

definition reply_slots_empty :: reply_slots where
  "reply_slots_empty = \<lparr>rs_outcome = None, rs_handshake = None, rs_refusal = None\<rparr>"

definition reply_field :: "reply_slots \<Rightarrow> int \<Rightarrow> (reader, pair_error, reply_slots) act" where
  "reply_field slots number =
     (if number = 1 then
        andthen (map_err Pe_Cbor rd_u8) (\<lambda>v. andthen (once (Pe_Duplicate PkOutcome) (rs_outcome slots) v) (\<lambda>s.
        ret (slots\<lparr>rs_outcome := s\<rparr>)))
      else if number = 2 then
        andthen (map_err Pe_Cbor rd_byte_string) (\<lambda>v. andthen (once (Pe_Duplicate PkHandshake) (rs_handshake slots) v) (\<lambda>s.
        ret (slots\<lparr>rs_handshake := s\<rparr>)))
      else if number = 3 then
        andthen (map_err Pe_Cbor rd_byte_string) (\<lambda>v. andthen (once (Pe_Duplicate PkRefusal) (rs_refusal slots) v) (\<lambda>s.
        ret (slots\<lparr>rs_refusal := s\<rparr>)))
      else fail (Pe_UnknownKey number))"

definition refused_of :: "u8 \<Rightarrow> pair_error + pair_refusal option" where
  "refused_of raw =
     (case pair_outcome_of raw of
        Some Pao_Proceed \<Rightarrow> Inr None
      | Some Pao_WindowClosed \<Rightarrow> Inr (Some RefusedWindowClosed)
      | Some Pao_TableFull \<Rightarrow> Inr (Some RefusedTableFull)
      | _ \<Rightarrow> Inl (Pe_UnknownOutcome raw))"

datatype pair_reply_read = Proceed pair_replied | Refused pair_refusal

definition reply_judge ::
  "crypto \<Rightarrow> pair_initiator \<Rightarrow> label \<Rightarrow> bytes \<Rightarrow> reply_slots \<Rightarrow> (reader, pair_error, pair_reply_read) act" where
  "reply_judge C i label fingerprint slots =
     andthen (ok_or (Pe_Missing PkOutcome) (rs_outcome slots)) (\<lambda>raw.
     andthen (lift_sum (refused_of raw)) (\<lambda>refused.
     case refused of
       Some refused \<Rightarrow>
         if rs_handshake slots \<noteq> None then fail (Pe_UnknownKey 2)
         else
         andthen (ok_or (Pe_Missing PkRefusal) (rs_refusal slots)) (\<lambda>tag.
         andthen (map_err Pe_Refusal (lift_sum (tag_verify
           (refusal_tag C (refusal_key C label) (sy_hash (pi_state i)) (pair_refusal_outcome refused)) tag))) (\<lambda>_.
         ret (Refused refused)))
     | None \<Rightarrow>
         if rs_refusal slots \<noteq> None then fail (Pe_UnknownKey 3)
         else
         andthen (ok_or (Pe_Missing PkHandshake) (rs_handshake slots)) (\<lambda>msg.
         andthen (map_err Pe_Noise (lift_sum (fst (pair_read_reply C i msg (replicate PAIR_MESSAGE_2 0))))) (\<lambda>(replied, _).
         if \<not> vouches_for C fingerprint (pr_controller replied) then fail Pe_NotTheLabelsController
         else ret (Proceed replied)))))"

definition pairing_read :: "crypto \<Rightarrow> pair_pending \<Rightarrow> envelope \<Rightarrow> label \<Rightarrow> bytes \<Rightarrow> pair_error + pair_reply_read" where
  "pairing_read C p e label fingerprint =
     (case pair_expected (e_header e) Mt_PairResponse of
        Inl err \<Rightarrow> Inl err
      | Inr _ \<Rightarrow>
          if h_req_id (e_header e) \<noteq> h_req_id (pp_header p) then Inl (Pe_NotThisRequest (h_req_id (e_header e)))
          else enclosed Pe_Cbor reply_field reply_slots_empty (\<lambda>slots.
            andthen (finishing Pe_Cbor) (\<lambda>_. reply_judge C (pp_initiator p) label fingerprint slots)) e)"

record enrol_pending =
  ep_channel :: client_channel
  ep_header :: header

definition proceeding_finish ::
  "crypto \<Rightarrow> pair_replied \<Rightarrow> static_key \<Rightarrow> header \<Rightarrow> (bytes, pair_error, enrol_pending \<times> nat) act" where
  "proceeding_finish C replied key h =
     andthen (lift_sum (pair_expected h Mt_Enrol)) (\<lambda>_.
     andthen (lift_sum (over_zeros Pe_TooLargeToWrite PAIR_MESSAGE_3
       (map_err Pe_Noise (pair_finish C replied key EMPTY_MAP)) snd)) (\<lambda>((keys, _), msg).
     andthen (enveloping Pe_Cbor (map_err Pe_Envelope (header_write h 1))
       (andthen (wr_key 1) (\<lambda>_. wr_byte_string msg))) (\<lambda>written.
     ret (\<lparr>ep_channel = for_initiator keys, ep_header = h\<rparr>, written))))"

definition enrol_read :: "crypto \<Rightarrow> enrol_pending \<Rightarrow> envelope \<Rightarrow> (bytes, pair_error, enrol_answer) act" where
  "enrol_read C p e =
     andthen (lift_sum (pair_expected (e_header e) Mt_EnrolResponse)) (\<lambda>_.
     if h_req_id (e_header e) \<noteq> h_req_id (ep_header p) then fail (Pe_NotThisRequest (h_req_id (e_header e)))
     else
     andthen (map_err Pe_Sealed (lift_sum (sealed_decode e))) (\<lambda>s.
     andthen (map_err Pe_Sealed (\<lambda>dst. case sealed_open C s dst (cl_rx (ep_channel p)) of (x, out, _) \<Rightarrow> (x, out))) (\<lambda>opened.
     lift_sum (enrol_answer_decode (o_inner opened)))))"

section \<open>The controller\<close>

record pair_slots =
  pt_suite :: "u8 option"
  pt_handshake :: "bytes option"

definition pair_slots_empty :: pair_slots where
  "pair_slots_empty = \<lparr>pt_suite = None, pt_handshake = None\<rparr>"

definition pair_field :: "pair_slots \<Rightarrow> int \<Rightarrow> (reader, pair_error, pair_slots) act" where
  "pair_field slots number =
     (if number = 1 then
        andthen (map_err Pe_Cbor rd_u8) (\<lambda>v. andthen (once (Pe_Duplicate PkSuite) (pt_suite slots) v) (\<lambda>s.
        ret (slots\<lparr>pt_suite := s\<rparr>)))
      else if number = 2 then
        andthen (map_err Pe_Cbor rd_byte_string) (\<lambda>v. andthen (once (Pe_Duplicate PkHandshake) (pt_handshake slots) v) (\<lambda>s.
        ret (slots\<lparr>pt_handshake := s\<rparr>)))
      else fail (Pe_UnknownKey number))"

record pair_arrival =
  pv_arrival_header :: header
  pv_handshake :: bytes

definition pair_arrival_decode :: "envelope \<Rightarrow> pair_error + pair_arrival" where
  "pair_arrival_decode e =
     (case pair_expected (e_header e) Mt_Pair of
        Inl err \<Rightarrow> Inl err
      | Inr _ \<Rightarrow> enclosed Pe_Cbor pair_field pair_slots_empty (\<lambda>slots.
          andthen (finishing Pe_Cbor) (\<lambda>_.
          andthen (ok_or (Pe_Missing PkSuite) (pt_suite slots)) (\<lambda>suite.
          andthen (ok_or (Pe_UnsupportedSuite suite) (suite_of suite)) (\<lambda>_.
          andthen (ok_or (Pe_Missing PkHandshake) (pt_handshake slots)) (\<lambda>handshake.
          ret \<lparr>pv_arrival_header = e_header e, pv_handshake = handshake\<rparr>))))) e)"

record offered =
  of_header :: header
  of_requested :: pair_requested
  of_offer :: pair_offer

definition arrival_open :: "crypto \<Rightarrow> bytes \<Rightarrow> bytes \<Rightarrow> pair_arrival \<Rightarrow> (bytes, pair_error, offered) act" where
  "arrival_open C prologue psk a =
     andthen (map_err Pe_Noise (pair_read_request C prologue psk (pv_handshake a))) (\<lambda>(requested, payload).
     andthen (lift_sum (pair_offer_decode payload)) (\<lambda>offer.
     ret \<lparr>of_header = pv_arrival_header a, of_requested = requested, of_offer = offer\<rparr>))"

definition offered_refuse :: "crypto \<Rightarrow> pair_refusal \<Rightarrow> bytes \<Rightarrow> offered \<Rightarrow> (bytes, pair_error, nat) act" where
  "offered_refuse C refusal key off =
     enveloping Pe_Cbor (map_err Pe_Envelope (header_write ((of_header off)\<lparr>h_kind := Mt_PairResponse\<rparr>) 2))
       (andthen (wr_key 1) (\<lambda>_. andthen (wr_u64 (ucast (pair_outcome_num (pair_refusal_outcome refusal)))) (\<lambda>_.
        andthen (wr_key 3) (\<lambda>_. wr_byte_string
          (refusal_tag C key (sy_hash (pq_state (of_requested off))) (pair_refusal_outcome refusal))))))"

definition offered_proceed :: "crypto \<Rightarrow> static_key \<Rightarrow> bytes \<Rightarrow> offered \<Rightarrow> (bytes, pair_error, pair_awaiting \<times> nat) act" where
  "offered_proceed C controller ephemeral off =
     andthen (lift_sum (over_zeros Pe_TooLargeToWrite PAIR_MESSAGE_2
       (map_err Pe_Noise (pair_reply C (of_requested off) controller ephemeral EMPTY_MAP)) snd)) (\<lambda>((awaiting, _), msg).
     andthen (enveloping Pe_Cbor (map_err Pe_Envelope (header_write ((of_header off)\<lparr>h_kind := Mt_PairResponse\<rparr>) 2))
       (andthen (wr_key 1) (\<lambda>_. andthen (wr_u64 (ucast (pair_outcome_num Pao_Proceed))) (\<lambda>_.
        andthen (wr_key 2) (\<lambda>_. wr_byte_string msg))))) (\<lambda>written.
     ret (awaiting, written)))"

definition enrol_request_field :: "bytes option \<Rightarrow> int \<Rightarrow> (reader, pair_error, bytes option) act" where
  "enrol_request_field handshake number =
     (if number = 1 then
        andthen (map_err Pe_Cbor rd_byte_string) (\<lambda>v. once (Pe_Duplicate PkHandshake) handshake v)
      else fail (Pe_UnknownKey number))"

record enrolling =
  eg_client :: public_key
  eg_header :: header
  eg_channel :: controller_channel

definition awaiting_read :: "crypto \<Rightarrow> pair_awaiting \<Rightarrow> envelope \<Rightarrow> pair_error + enrolling" where
  "awaiting_read C awaiting e =
     (case pair_expected (e_header e) Mt_Enrol of
        Inl err \<Rightarrow> Inl err
      | Inr _ \<Rightarrow> enclosed Pe_Cbor enrol_request_field None (\<lambda>handshake.
          andthen (finishing Pe_Cbor) (\<lambda>_.
          andthen (ok_or (Pe_Missing PkHandshake) handshake) (\<lambda>msg.
          andthen (map_err Pe_Noise (lift_sum (fst (pair_read_finish C awaiting msg (replicate PAIR_MESSAGE_3 0))))) (\<lambda>(finished, _).
          ret \<lparr>eg_client = pf_client finished, eg_header = e_header e, eg_channel = for_responder (pf_keys finished)\<rparr>)))) e)"

definition enrolling_answer :: "crypto \<Rightarrow> enrol_answer \<Rightarrow> enrolling \<Rightarrow> (bytes, pair_error, nat) act" where
  "enrolling_answer C answer eg =
     andthen (lift_sum (over_zeros Pe_TooLargeToWrite MAX_ENROL_ANSWER (enrol_answer_encode answer) id)) (\<lambda>(_, inner).
     map_err Pe_Sealed (\<lambda>dst.
       case seal_response C ((eg_header eg)\<lparr>h_kind := Mt_EnrolResponse\<rparr>) inner dst (ct_tx (eg_channel eg)) of (x, out, _) \<Rightarrow> (x, out)))"

section \<open>The offer and the answer are codecs\<close>

definition pair_offer_fields :: "pair_offer \<Rightarrow> (int \<times> item) list" where
  "pair_offer_fields offer =
     [(1, IUint (ucast (ve_major (po_version offer)))), (2, IUint (ucast (ve_minor (po_version offer)))),
      (3, IText (po_client_version offer)), (4, IUint (ucast (client_kind_num (po_client_kind offer)))),
      (5, IText (po_label offer))]"

definition pair_offer_valid :: "pair_offer \<Rightarrow> bool" where
  "pair_offer_valid offer \<longleftrightarrow> text_ok (po_client_version offer) \<and> length (po_label offer) \<le> MAX_LABEL \<and> utf8 (po_label offer)"

lemma pair_offer_texts:
  assumes "pair_offer_valid offer"
  shows "length (po_client_version offer) \<le> MAX_STRING" "utf8 (po_client_version offer)"
    "length (po_label offer) \<le> MAX_STRING" "utf8 (po_label offer)" "label_within (po_label offer) = Inr (po_label offer)"
  using assms by (simp_all add: pair_offer_valid_def text_ok_def label_within_def limit_defs MAX_STRING_def)

lemma pair_offer_writes: "pair_offer_valid offer \<Longrightarrow> writes_pairs (pair_offer_pairs offer) (pair_offer_fields offer)"
  unfolding pair_offer_pairs_def pair_offer_fields_def pair_offer_key_number.simps
  by (intro item_rules) (simp_all add: pair_offer_texts)

lemma pair_offer_fields_ok [simp]:
  "ascending None (pair_offer_fields offer)" "shallow room (pair_offer_fields offer)" "known 5 (pair_offer_fields offer)"
  "length (pair_offer_fields offer) = 5"
  by (simp_all add: pair_offer_fields_def good_key_def)

lemma pair_offer_field_simps:
  "pair_offer_field s 1 = pair_offer_fill Pk_ProtocolMajor s" "pair_offer_field s 2 = pair_offer_fill Pk_ProtocolMinor s"
  "pair_offer_field s 3 = pair_offer_fill Pk_ClientVersion s" "pair_offer_field s 4 = pair_offer_fill Pk_ClientKind s"
  "pair_offer_field s 5 = pair_offer_fill Pk_Label s" "5 < j \<Longrightarrow> pair_offer_field s j = skipped Pe_Cbor s"
  by (simp_all add: pair_offer_field_def pair_offer_key_of_def)

lemma kind_known_num: "kind_known (client_kind_num k) = Inr k"
  by (simp add: kind_known_def client_kind.of_num_of)

lemma pair_offer_reads:
  assumes "pair_offer_valid offer"
  shows "reads_pairs pair_offer_field (pair_offer_fields offer) pair_offer_slots_empty
    \<lparr>ps_major = Some (ve_major (po_version offer)), ps_minor = Some (ve_minor (po_version offer)),
     ps_version = Some (po_client_version offer), ps_kind = Some (po_client_kind offer), ps_label = Some (po_label offer)\<rparr>"
proof -
  note facts = pair_offer_texts [OF assms] kind_known_num
  have "reads_pairs pair_offer_field (pair_offer_fields offer) pair_offer_slots_empty (pair_offer_slots_empty
    \<lparr>ps_major := Some (ve_major (po_version offer)), ps_minor := Some (ve_minor (po_version offer)),
     ps_version := Some (po_client_version offer), ps_kind := Some (po_client_kind offer), ps_label := Some (po_label offer)\<rparr>)"
    unfolding pair_offer_fields_def
    by (rule reads_Nil | rule reads_Cons | simp only: pair_offer_field_simps pair_offer_fill.simps | rule slot_rules
      | rule item_rules facts | simp add: pair_offer_slots_empty_def; fail)+
  then show ?thesis
    by (simp add: pair_offer_slots_empty_def)
qed

interpretation pair_offer: body_codec pair_offer_encode pair_offer_decode pair_offer_fields pair_offer_valid 5
proof
  fix offer and dst :: bytes
  assume "pair_offer_valid offer" "length (map_bytes (pair_offer_fields offer)) \<le> length dst" "length dst \<le> usize_max"
  then show "pair_offer_encode offer dst =
      (Inr (length (map_bytes (pair_offer_fields offer))), splice dst 0 (map_bytes (pair_offer_fields offer)))"
    unfolding pair_offer_encode_def PAIR_OFFER_KEY_COUNT_def
    using encodes_fields [OF pair_offer_writes, of offer 5 dst Pe_Cbor] by (simp add: pair_offer_valid_def)
next
  fix offer fs
  assume offer: "pair_offer_valid offer" and fs: "extends 5 INNER fs" "length (map_bytes (pair_offer_fields offer @ fs)) \<le> usize_max"
  show "pair_offer_decode (map_bytes (pair_offer_fields offer @ fs)) = Inr offer"
    unfolding pair_offer_decode_def
    by (rule decodes_fields [OF pair_offer_reads [OF offer] _ _ _ fs(1) _ fs(2)])
      (cases offer, cases "po_version offer",
       auto intro!: runs_andthen runs_finishing simp: pair_offer_complete_def pair_offer_field_simps)
qed

lemma pair_offer_bound: "pair_offer_valid offer \<Longrightarrow> length (map_bytes (pair_offer_fields offer)) \<le> MAX_PAIR_OFFER"
  using width_narrow(1) [of "ve_major (po_version offer)"] width_narrow(1) [of "ve_minor (po_version offer)"]
    width_narrow(1) [of "client_kind_num (po_client_kind offer)"] width_text [of "po_client_version offer"] width_text [of "po_label offer"]
  by (simp add: map_bytes_eq pair_offer_fields_def pair_offer_valid_def text_ok_def MAX_PAIR_OFFER_def limit_defs MAX_STRING_def)

definition enrol_answer_fields :: "enrol_answer \<Rightarrow> (int \<times> item) list" where
  "enrol_answer_fields a =
     (1, IUint (ucast (pair_outcome_num (outcome_code (ea_outcome a))))) #
     (case outcome_slot (ea_outcome a) of
        None \<Rightarrow> []
      | Some (c, g) \<Rightarrow> [(2, IUint (ucast (client_id_get c))), (3, IUint (ucast (generation_get g)))]) @
     [(4, IBytes (ea_next_challenge a))]"

definition enrol_answer_valid :: "enrol_answer \<Rightarrow> bool" where
  "enrol_answer_valid a \<longleftrightarrow> length (ea_next_challenge a) = CHALLENGE_BYTES \<and>
     (\<forall>c g. outcome_slot (ea_outcome a) = Some (c, g) \<longrightarrow> client_id_ok c \<and> generation_ok g)"

lemma enrol_answer_writes: "writes_pairs (enrol_answer_pairs a) (enrol_answer_fields a)"
proof (cases "outcome_slot (ea_outcome a)")
  case None
  show ?thesis
    unfolding enrol_answer_pairs_def enrol_answer_fields_def None option.case andthen_ret append_Nil
    by (intro item_rules)
next
  case (Some slot)
  then obtain cl g where slot: "outcome_slot (ea_outcome a) = Some (cl, g)"
    by (cases slot) simp
  show ?thesis
    unfolding enrol_answer_pairs_def enrol_answer_fields_def slot option.case prod.case andthen_assoc append_Nil append_Cons
    by (intro item_rules)
qed

lemma enrol_answer_fields_ok [simp]:
  "ascending None (enrol_answer_fields a)" "shallow room (enrol_answer_fields a)" "known 4 (enrol_answer_fields a)"
  "length (enrol_answer_fields a) = (if outcome_slot (ea_outcome a) \<noteq> None then 4 else 2)"
  by (auto simp: enrol_answer_fields_def good_key_def split: option.split prod.split)

lemma enrol_field_simps:
  "enrol_field s 1 = andthen (map_err Pe_Cbor rd_u8) (\<lambda>v. andthen (once (Pe_Duplicate PkOutcome) (es_outcome s) v) (\<lambda>t.
     ret (s\<lparr>es_outcome := t\<rparr>)))"
  "enrol_field s 2 = andthen (map_err Pe_Cbor rd_u32) (\<lambda>v. andthen (once (Pe_Duplicate PkClientId) (es_id s) v) (\<lambda>t.
     ret (s\<lparr>es_id := t\<rparr>)))"
  "enrol_field s 3 = andthen (map_err Pe_Cbor rd_u32) (\<lambda>v. andthen (once (Pe_Duplicate PkGeneration) (es_generation s) v) (\<lambda>t.
     ret (s\<lparr>es_generation := t\<rparr>)))"
  "enrol_field s 4 = andthen (map_err Pe_Cbor rd_byte_string) (\<lambda>v. andthen (lift_sum (challenge_within v)) (\<lambda>w.
     andthen (once (Pe_Duplicate PkNextChallenge) (es_challenge s) w) (\<lambda>t. ret (s\<lparr>es_challenge := t\<rparr>))))"
  "4 < j \<Longrightarrow> enrol_field s j = skipped Pe_Cbor s"
  by (simp_all add: enrol_field_def)

definition enrol_known :: "enrol_answer \<Rightarrow> enrol_slots" where
  "enrol_known a = \<lparr>es_outcome = Some (pair_outcome_num (outcome_code (ea_outcome a))),
     es_id = map_option (\<lambda>(c, _). client_id_get c) (outcome_slot (ea_outcome a)),
     es_generation = map_option (\<lambda>(_, g). generation_get g) (outcome_slot (ea_outcome a)),
     es_challenge = Some (ea_next_challenge a)\<rparr>"

lemma enrol_answer_reads:
  assumes "enrol_answer_valid a"
  shows "reads_pairs enrol_field (enrol_answer_fields a) enrol_slots_empty (enrol_known a)"
proof -
  have c: "challenge_within (ea_next_challenge a) = Inr (ea_next_challenge a)"
    using assms by (simp add: enrol_answer_valid_def challenge_within_def)
  show ?thesis
  proof (cases "outcome_slot (ea_outcome a)")
    case None
    have "reads_pairs enrol_field (enrol_answer_fields a) enrol_slots_empty (enrol_slots_empty
        \<lparr>es_outcome := Some (pair_outcome_num (outcome_code (ea_outcome a))), es_challenge := Some (ea_next_challenge a)\<rparr>)"
      unfolding enrol_answer_fields_def None option.case append_Nil
      by (rule reads_Nil | rule reads_Cons | simp only: enrol_field_simps | rule slot_rules
        | rule item_rules c | simp add: enrol_slots_empty_def; fail)+
    then show ?thesis
      by (simp add: enrol_slots_empty_def enrol_known_def None)
  next
    case (Some slot)
    then obtain cl g where slot: "outcome_slot (ea_outcome a) = Some (cl, g)"
      by (cases slot) simp
    have "reads_pairs enrol_field (enrol_answer_fields a) enrol_slots_empty (enrol_slots_empty
        \<lparr>es_outcome := Some (pair_outcome_num (outcome_code (ea_outcome a))), es_id := Some (client_id_get cl),
         es_generation := Some (generation_get g), es_challenge := Some (ea_next_challenge a)\<rparr>)"
      unfolding enrol_answer_fields_def slot option.case prod.case append_Nil append_Cons
      by (rule reads_Nil | rule reads_Cons | simp only: enrol_field_simps | rule slot_rules
        | rule item_rules c | simp add: enrol_slots_empty_def; fail)+
    then show ?thesis
      by (simp add: enrol_slots_empty_def enrol_known_def slot)
  qed
qed

lemma enrol_outcome_known:
  assumes "enrol_answer_valid a"
  shows "enrol_outcome_of (pair_outcome_num (outcome_code (ea_outcome a))) (enrol_known a) = Inr (ea_outcome a)"
proof -
  have "outcome_code (ea_outcome a) \<noteq> Pao_Proceed"
    by (cases "ea_outcome a") simp_all
  then show ?thesis
    unfolding enrol_outcome_of_def pair_outcome.of_num_of
    using assms by (cases "ea_outcome a") (simp_all add: enrol_slot_def no_slot_def enrol_known_def enrol_answer_valid_def)
qed

interpretation enrol_answer: body_codec enrol_answer_encode enrol_answer_decode enrol_answer_fields enrol_answer_valid 4
proof
  fix a and dst :: bytes
  assume "length (map_bytes (enrol_answer_fields a)) \<le> length dst" "length dst \<le> usize_max"
  then show "enrol_answer_encode a dst =
      (Inr (length (map_bytes (enrol_answer_fields a))), splice dst 0 (map_bytes (enrol_answer_fields a)))"
    unfolding enrol_answer_encode_def by (intro encodes_fields enrol_answer_writes) simp_all
next
  fix a fs
  assume a: "enrol_answer_valid a" and fs: "extends 4 INNER fs" "length (map_bytes (enrol_answer_fields a @ fs)) \<le> usize_max"
  show "enrol_answer_decode (map_bytes (enrol_answer_fields a @ fs)) = Inr a"
    unfolding enrol_answer_decode_def
    by (rule decodes_fields [OF enrol_answer_reads [OF a] _ _ _ fs(1) _ fs(2)])
      (use enrol_outcome_known [OF a] in \<open>auto intro!: runs_andthen runs_finishing simp: enrol_complete_def enrol_field_simps
        enrol_known_def\<close>)
qed

lemma enrol_answer_bound: "enrol_answer_valid a \<Longrightarrow> length (map_bytes (enrol_answer_fields a)) \<le> MAX_ENROL_ANSWER"
proof -
  assume a: "enrol_answer_valid a"
  have "width_of (ucast (pair_outcome_num o')) = Inline" for o'
    by (cases o') (simp_all add: width_of_def)
  then show ?thesis
    using a width_narrow(3) [of "client_id_get (fst (the (outcome_slot (ea_outcome a))))"]
      width_narrow(3) [of "generation_get (snd (the (outcome_slot (ea_outcome a))))"]
    by (cases "outcome_slot (ea_outcome a)")
      (auto simp: map_bytes_eq enrol_answer_fields_def enrol_answer_valid_def MAX_ENROL_ANSWER_def CHALLENGE_BYTES_def width_of_small)
qed

section \<open>The bodies\<close>

definition pair_fields :: "suite \<Rightarrow> bytes \<Rightarrow> (int \<times> item) list" where
  "pair_fields suite msg = [(1, IUint (ucast (suite_num suite))), (2, IBytes msg)]"

definition proceed_fields :: "bytes \<Rightarrow> (int \<times> item) list" where
  "proceed_fields msg = [(1, IUint (ucast (pair_outcome_num Pao_Proceed))), (2, IBytes msg)]"

definition refused_fields :: "pair_refusal \<Rightarrow> bytes \<Rightarrow> (int \<times> item) list" where
  "refused_fields why tag = [(1, IUint (ucast (pair_outcome_num (pair_refusal_outcome why)))), (3, IBytes tag)]"

definition enrol_fields :: "bytes \<Rightarrow> (int \<times> item) list" where
  "enrol_fields msg = [(1, IBytes msg)]"

lemmas pair_bodies = pair_fields_def proceed_fields_def refused_fields_def enrol_fields_def

lemma pair_bodies_ok [simp]:
  "ascending None (pair_fields suite msg)" "shallow room (pair_fields suite msg)" "length (pair_fields suite msg) = 2"
  "ascending None (proceed_fields msg)" "shallow room (proceed_fields msg)" "length (proceed_fields msg) = 2"
  "ascending None (refused_fields why tag)" "shallow room (refused_fields why tag)" "length (refused_fields why tag) = 2"
  "ascending None (enrol_fields msg)" "shallow room (enrol_fields msg)" "length (enrol_fields msg) = 1"
  by (simp_all add: pair_bodies good_key_def)

lemma pair_bodies_write:
  "writes_pairs (pair_pairs suite msg) (pair_fields suite msg)"
  "writes_pairs (andthen (wr_key 1) (\<lambda>_. andthen (wr_u64 (ucast (pair_outcome_num Pao_Proceed))) (\<lambda>_.
     andthen (wr_key 2) (\<lambda>_. wr_byte_string msg)))) (proceed_fields msg)"
  "writes_pairs (andthen (wr_key 1) (\<lambda>_. andthen (wr_u64 (ucast (pair_outcome_num (pair_refusal_outcome why)))) (\<lambda>_.
     andthen (wr_key 3) (\<lambda>_. wr_byte_string tag)))) (refused_fields why tag)"
  "writes_pairs (andthen (wr_key 1) (\<lambda>_. wr_byte_string msg)) (enrol_fields msg)"
  unfolding pair_pairs_def pair_bodies by (intro item_rules)+

lemma outcome_width: "width_of (ucast (pair_outcome_num o')) = Inline"
  by (cases o') (simp_all add: width_of_def)

lemma length_pair_frames:
  "length msg \<le> 400 \<Longrightarrow> length (frame_bytes h (pair_fields suite msg)) \<le> MAX_PAYLOAD"
  "length msg \<le> 400 \<Longrightarrow> length (frame_bytes h (proceed_fields msg)) \<le> MAX_PAYLOAD"
  "length tag \<le> 400 \<Longrightarrow> length (frame_bytes h (refused_fields why tag)) \<le> MAX_PAYLOAD"
  "length msg \<le> 400 \<Longrightarrow> length (frame_bytes h (enrol_fields msg)) \<le> MAX_PAYLOAD"
  using length_frame_bytes [of h "pair_fields suite msg"] length_frame_bytes [of h "proceed_fields msg"]
    length_frame_bytes [of h "refused_fields why tag"] length_frame_bytes [of h "enrol_fields msg"]
    width_narrow(1) [of "suite_num suite"] width_bytes_le [of "width_of (of_nat (length msg))"]
    width_bytes_le [of "width_of (of_nat (length tag))"]
  by (simp_all add: map_bytes_eq pair_bodies outcome_width limit_defs)

lemma pair_field_simps:
  "pair_field s 1 = andthen (map_err Pe_Cbor rd_u8) (\<lambda>v. andthen (once (Pe_Duplicate PkSuite) (pt_suite s) v) (\<lambda>t.
     ret (s\<lparr>pt_suite := t\<rparr>)))"
  "pair_field s 2 = andthen (map_err Pe_Cbor rd_byte_string) (\<lambda>v. andthen (once (Pe_Duplicate PkHandshake) (pt_handshake s) v) (\<lambda>t.
     ret (s\<lparr>pt_handshake := t\<rparr>)))"
  by (simp_all add: pair_field_def)

lemma reply_field_simps:
  "reply_field s 1 = andthen (map_err Pe_Cbor rd_u8) (\<lambda>v. andthen (once (Pe_Duplicate PkOutcome) (rs_outcome s) v) (\<lambda>t.
     ret (s\<lparr>rs_outcome := t\<rparr>)))"
  "reply_field s 2 = andthen (map_err Pe_Cbor rd_byte_string) (\<lambda>v. andthen (once (Pe_Duplicate PkHandshake) (rs_handshake s) v) (\<lambda>t.
     ret (s\<lparr>rs_handshake := t\<rparr>)))"
  "reply_field s 3 = andthen (map_err Pe_Cbor rd_byte_string) (\<lambda>v. andthen (once (Pe_Duplicate PkRefusal) (rs_refusal s) v) (\<lambda>t.
     ret (s\<lparr>rs_refusal := t\<rparr>)))"
  by (simp_all add: reply_field_def)

lemma pair_reads:
  "reads_pairs pair_field (pair_fields suite msg) pair_slots_empty \<lparr>pt_suite = Some (suite_num suite), pt_handshake = Some msg\<rparr>"
proof -
  have "reads_pairs pair_field (pair_fields suite msg) pair_slots_empty (pair_slots_empty
      \<lparr>pt_suite := Some (suite_num suite), pt_handshake := Some msg\<rparr>)"
    unfolding pair_fields_def
    by (rule reads_Nil | rule reads_Cons | simp only: pair_field_simps | rule slot_rules
      | rule item_rules | simp add: pair_slots_empty_def; fail)+
  then show ?thesis
    by (simp add: pair_slots_empty_def)
qed

lemma proceed_reads:
  "reads_pairs reply_field (proceed_fields msg) reply_slots_empty
    \<lparr>rs_outcome = Some (pair_outcome_num Pao_Proceed), rs_handshake = Some msg, rs_refusal = None\<rparr>"
proof -
  have "reads_pairs reply_field (proceed_fields msg) reply_slots_empty (reply_slots_empty
      \<lparr>rs_outcome := Some (pair_outcome_num Pao_Proceed), rs_handshake := Some msg\<rparr>)"
    unfolding proceed_fields_def
    by (rule reads_Nil | rule reads_Cons | simp only: reply_field_simps | rule slot_rules
      | rule item_rules | simp add: reply_slots_empty_def; fail)+
  then show ?thesis
    by (simp add: reply_slots_empty_def)
qed

lemma refused_reads:
  "reads_pairs reply_field (refused_fields why tag) reply_slots_empty
    \<lparr>rs_outcome = Some (pair_outcome_num (pair_refusal_outcome why)), rs_handshake = None, rs_refusal = Some tag\<rparr>"
proof -
  have "reads_pairs reply_field (refused_fields why tag) reply_slots_empty (reply_slots_empty
      \<lparr>rs_outcome := Some (pair_outcome_num (pair_refusal_outcome why)), rs_refusal := Some tag\<rparr>)"
    unfolding refused_fields_def
    by (rule reads_Nil | rule reads_Cons | simp only: reply_field_simps | rule slot_rules
      | rule item_rules | simp add: reply_slots_empty_def; fail)+
  then show ?thesis
    by (simp add: reply_slots_empty_def)
qed

lemma enrol_reads: "reads_pairs enrol_request_field (enrol_fields msg) None (Some msg)"
proof -
  have "reads_item (enrol_request_field None 1) (IBytes msg) (Some msg)"
    unfolding enrol_request_field_def if_P [OF refl]
    by (rule reads_then [OF reads_map_err [OF reads_bytes]]) (simp add: once_def)
  then show ?thesis
    by (simp add: enrol_fields_def)
qed

lemma pair_decode_frame:
  assumes "h_kind h = Mt_Pair" and "session_ok (h_session h)" and "length (frame_bytes h (pair_fields suite msg)) \<le> usize_max"
  obtains e where "envelope_decode (frame_bytes h (pair_fields suite msg)) = Inr e"
    and "pair_arrival_decode e = Inr \<lparr>pv_arrival_header = h, pv_handshake = msg\<rparr>"
proof -
  let ?f = "\<lambda>slots. andthen (finishing Pe_Cbor) (\<lambda>_. andthen (ok_or (Pe_Missing PkSuite) (pt_suite slots)) (\<lambda>suite.
    andthen (ok_or (Pe_UnsupportedSuite suite) (suite_of suite)) (\<lambda>_.
    andthen (ok_or (Pe_Missing PkHandshake) (pt_handshake slots)) (\<lambda>handshake.
    ret \<lparr>pv_arrival_header = h, pv_handshake = handshake\<rparr>))))"
  obtain e where "envelope_decode (frame_bytes h (pair_fields suite msg)) = Inr e" "e_header e = h"
    "enclosed Pe_Cbor pair_field pair_slots_empty ?f e = Inr \<lparr>pv_arrival_header = h, pv_handshake = msg\<rparr>"
    by (rule encloses_decodes_exactly [where err = Pe_Cbor and f = ?f, OF pair_reads _ _ assms(2,3)])
      (auto intro!: runs_andthen runs_finishing simp: suite.of_num_of)
  then show ?thesis
    using that assms(1) by (simp add: pair_arrival_decode_def pair_expected_def)
qed

lemma enrol_decode_frame:
  assumes "h_kind h = Mt_Enrol" and "session_ok (h_session h)" and "length (frame_bytes h (enrol_fields msg)) \<le> usize_max"
    and "pair_read_finish C w msg (replicate PAIR_MESSAGE_3 0) = (Inr (finished, n), out)"
  obtains e where "envelope_decode (frame_bytes h (enrol_fields msg)) = Inr e"
    and "awaiting_read C w e = Inr \<lparr>eg_client = pf_client finished, eg_header = h, eg_channel = for_responder (pf_keys finished)\<rparr>"
proof -
  let ?f = "\<lambda>handshake. andthen (finishing Pe_Cbor) (\<lambda>_. andthen (ok_or (Pe_Missing PkHandshake) handshake) (\<lambda>msg.
    andthen (map_err Pe_Noise (lift_sum (fst (pair_read_finish C w msg (replicate PAIR_MESSAGE_3 0))))) (\<lambda>(finished, _).
    ret \<lparr>eg_client = pf_client finished, eg_header = h, eg_channel = for_responder (pf_keys finished)\<rparr>)))"
  obtain e where "envelope_decode (frame_bytes h (enrol_fields msg)) = Inr e" "e_header e = h"
    "enclosed Pe_Cbor enrol_request_field None ?f e =
      Inr \<lparr>eg_client = pf_client finished, eg_header = h, eg_channel = for_responder (pf_keys finished)\<rparr>"
    by (rule encloses_decodes_exactly [where err = Pe_Cbor and f = ?f, OF enrol_reads _ _ assms(2,3)])
      (use assms(4) in \<open>auto intro!: runs_andthen runs_finishing\<close>)
  then show ?thesis
    using that assms(1) by (simp add: awaiting_read_def pair_expected_def)
qed

lemma reply_decode_frame:
  assumes "reads_pairs reply_field fs reply_slots_empty slots" and "ascending None fs" and "shallow 6 fs"
    and "h_kind h = Mt_PairResponse" and "h_req_id h = h_req_id (pp_header p)" and "session_ok (h_session h)"
    and "length (frame_bytes h fs) \<le> usize_max"
    and "\<And>r. reply_judge C (pp_initiator p) label fingerprint slots r = (Inr judged, r)"
  obtains e where "envelope_decode (frame_bytes h fs) = Inr e" and "pairing_read C p e label fingerprint = Inr judged"
proof -
  let ?f = "\<lambda>slots. andthen (finishing Pe_Cbor) (\<lambda>_. reply_judge C (pp_initiator p) label fingerprint slots)"
  obtain e where "envelope_decode (frame_bytes h fs) = Inr e" "e_header e = h"
    "enclosed Pe_Cbor reply_field reply_slots_empty ?f e = Inr judged"
    by (rule encloses_decodes_exactly [where err = Pe_Cbor and f = ?f, OF assms(1-3,6,7)])
      (rule runs_andthen [OF runs_finishing], assumption, simp add: runs_def assms(8))
  then show ?thesis
    using that assms(4,5) by (simp add: pairing_read_def pair_expected_def)
qed

section \<open>Each step\<close>

lemma pairing_start_eq:
  assumes "h_kind h = Mt_Pair" and "pair_offer_valid offer"
    and "pair_start C prologue (pair_psk C label) x (map_bytes (pair_offer_fields offer)) (replicate MAX_PAIR_MESSAGE_1 0) =
      (Inr (i, n), out)" and "n \<le> length out"
    and "bs = frame_bytes h (pair_fields suite (take n out))" and "length bs \<le> length dst" and "length dst \<le> usize_max"
  shows "pairing_start C prologue suite label x offer h dst =
    (Inr (\<lparr>pp_initiator = i, pp_header = h\<rparr>, length bs), splice dst 0 bs)"
proof -
  have "over_zeros Pe_TooLargeToWrite MAX_PAIR_OFFER (pair_offer_encode offer) id =
      Inr (length (map_bytes (pair_offer_fields offer)), map_bytes (pair_offer_fields offer))"
    using pair_offer_bound [OF assms(2)]
    by (intro over_zeros_body pair_offer.encode_writes)
      (simp_all add: assms(2) MAX_PAIR_OFFER_def MAX_STRING_def limit_defs usize_max_def)
  moreover have "enveloping Pe_Cbor (map_err Pe_Envelope (header_write h 2)) (pair_pairs suite (take n out)) dst =
      (Inr (length bs), splice dst 0 bs)"
    unfolding assms(5) by (rule encloses_fields) (use assms(5-7) pair_bodies_write in simp_all)
  ultimately show ?thesis
    using over_zeros_step [where big = Pe_TooLargeToWrite and err = Pe_Noise and
        m = "pair_start C prologue (pair_psk C label) x (map_bytes (pair_offer_fields offer))", OF assms(3,4)] assms(1)
    by (simp add: pairing_start_def pair_expected_def)
qed

lemma offered_proceed_eq:
  assumes "pair_reply C (of_requested off) controller y EMPTY_MAP (replicate PAIR_MESSAGE_2 0) = (Inr (w, n), out)"
    and "n \<le> length out" and "bs = frame_bytes ((of_header off)\<lparr>h_kind := Mt_PairResponse\<rparr>) (proceed_fields (take n out))"
    and "length bs \<le> length dst" and "length dst \<le> usize_max"
  shows "offered_proceed C controller y off dst = (Inr (w, length bs), splice dst 0 bs)"
proof -
  have "enveloping Pe_Cbor (map_err Pe_Envelope (header_write ((of_header off)\<lparr>h_kind := Mt_PairResponse\<rparr>) 2))
       (andthen (wr_key 1) (\<lambda>_. andthen (wr_u64 (ucast (pair_outcome_num Pao_Proceed))) (\<lambda>_.
        andthen (wr_key 2) (\<lambda>_. wr_byte_string (take n out))))) dst = (Inr (length bs), splice dst 0 bs)"
    unfolding assms(3) by (rule encloses_fields [OF pair_bodies_write(2)]) (use assms(3-5) in simp_all)
  then show ?thesis
    using over_zeros_step [where big = Pe_TooLargeToWrite and err = Pe_Noise and
        m = "pair_reply C (of_requested off) controller y EMPTY_MAP", OF assms(1,2)]
    by (simp add: offered_proceed_def del: pair_outcome_num.simps)
qed

lemma offered_refuse_eq:
  assumes "tag = refusal_tag C key (sy_hash (pq_state (of_requested off))) (pair_refusal_outcome why)"
    and "bs = frame_bytes ((of_header off)\<lparr>h_kind := Mt_PairResponse\<rparr>) (refused_fields why tag)"
    and "length bs \<le> length dst" and "length dst \<le> usize_max"
  shows "offered_refuse C why key off dst = (Inr (length bs), splice dst 0 bs)"
  unfolding offered_refuse_def assms(2) assms(1) [symmetric]
  by (rule encloses_fields [OF pair_bodies_write(3)]) (use assms(2-4) in simp_all)

lemma proceeding_finish_eq:
  assumes "h_kind h = Mt_Enrol" and "pair_finish C replied key EMPTY_MAP (replicate PAIR_MESSAGE_3 0) = (Inr (k, n), out)"
    and "n \<le> length out" and "bs = frame_bytes h (enrol_fields (take n out))"
    and "length bs \<le> length dst" and "length dst \<le> usize_max"
  shows "proceeding_finish C replied key h dst =
    (Inr (\<lparr>ep_channel = for_initiator k, ep_header = h\<rparr>, length bs), splice dst 0 bs)"
proof -
  have "enveloping Pe_Cbor (map_err Pe_Envelope (header_write h 1)) (andthen (wr_key 1) (\<lambda>_. wr_byte_string (take n out))) dst =
      (Inr (length bs), splice dst 0 bs)"
    unfolding assms(4) by (rule encloses_fields [OF pair_bodies_write(4)]) (use assms(4-6) in simp_all)
  then show ?thesis
    using over_zeros_step [where big = Pe_TooLargeToWrite and err = Pe_Noise and
        m = "pair_finish C replied key EMPTY_MAP", OF assms(2,3)] assms(1)
    by (simp add: proceeding_finish_def pair_expected_def)
qed

text \<open>The answer is the first message of the controller's direction of the new keys.\<close>

lemma enrolment_answered:
  assumes "crypto_ok C" and "enrol_answer_valid answer" and "session_ok (h_session h)" and "h_kind h = Mt_Enrol"
    and "eg_header eg = h" and "eg_channel eg = for_responder k" and "ep_header ep = h" and "ep_channel ep = for_initiator k"
    and "MAX_PAYLOAD \<le> length dst" and "length dst \<le> usize_max" and "MAX_ENROL_ANSWER \<le> length buf" and "length buf \<le> usize_max"
  obtains n out e where "enrolling_answer C answer eg dst = (Inr n, out)" and "n \<le> MAX_PAYLOAD"
    and "envelope_decode (take n out) = Inr e"
    and "enrol_read C ep e buf = (Inr answer, splice buf 0 (map_bytes (enrol_answer_fields answer)))"
proof -
  let ?inner = "map_bytes (enrol_answer_fields answer)" and ?h = "h\<lparr>h_kind := Mt_EnrolResponse\<rparr>"
  let ?tx = "ct_tx (for_responder k)" and ?rx = "cl_rx (for_initiator k)"
  let ?f = "sealed_frame C (cs_key ?tx) ?h 0 (Some 0) ?inner"
  have ends: "cs_next ?tx = 0" "cs_key ?tx = op_key ?rx" "window_admits (op_window ?rx) 0 = Inr ()"
    by (simp_all add: for_responder_def for_initiator_def client_channel_new_def controller_channel_new_def
        opener_new_def window_new_def window_admits_def)
  have inner: "length ?inner \<le> MAX_ENROL_ANSWER"
    by (rule enrol_answer_bound [OF assms(2)])
  then have small: "length ?inner + TAG_BYTES < 65536" "length ?inner \<le> usize_max" "length ?inner \<le> length buf"
    using assms(11) by (simp_all add: MAX_ENROL_ANSWER_def CHALLENGE_BYTES_def TAG_BYTES_def usize_max_def)
  have dir: "direction_check ?h = Inr Controller"
    by (simp add: direction_check_def)
  note carries = carries_response [OF dir, of 0]
  have "framing_bytes ?h \<le> RESPONSE_FRAMING_BYTES"
    using framing_bytes_eq [OF carries] by (simp add: limit_defs)
  then have f: "length ?f \<le> MAX_PAYLOAD"
    using sealed_frame_length [OF assms(1) carries small(1), of "cs_key ?tx"] inner
    by (simp add: limit_defs MAX_ENROL_ANSWER_def CHALLENGE_BYTES_def)
  have "over_zeros Pe_TooLargeToWrite MAX_ENROL_ANSWER (enrol_answer_encode answer) id = Inr (length ?inner, ?inner)"
    using inner by (intro over_zeros_body enrol_answer.encode_writes)
      (simp_all add: assms(2) MAX_ENROL_ANSWER_def CHALLENGE_BYTES_def usize_max_def)
  then have sealed: "enrolling_answer C answer eg dst = (Inr (length ?f), splice dst 0 ?f)"
    using seal_response_eq [OF assms(1) dir, of ?tx ?inner dst] ends(1) f small(2) assms(5,6,9,10)
    by (simp add: enrolling_answer_def map_err_def LAST_NONCE_def)
  obtain e where e: "envelope_decode ?f = Inr e" "e_header e = ?h"
    "sealed_decode e = Inr \<lparr>sl_header = ?h, sl_nonce = 0, sl_ciphertext = sealed_bytes C (cs_key ?tx) 0 (associated_data ?h) ?inner\<rparr>"
    by (rule sealed_decode_eq [OF carries _ assms(1) small(2), of "cs_key ?tx"]) (use assms(3,9,10) f that in auto)
  have "enrol_answer_decode ?inner = Inr answer"
    using enrol_answer.decode_fields [OF assms(2)] small(2) by simp
  then have "enrol_read C ep e buf = (Inr answer, splice buf 0 ?inner)"
    using sealed_open_genuine [OF assms(1), of "\<lparr>sl_header = ?h, sl_nonce = 0,
        sl_ciphertext = sealed_bytes C (cs_key ?tx) 0 (associated_data ?h) ?inner\<rparr>" ?rx ?inner buf] e ends small assms(7,8)
    by (simp add: enrol_read_def pair_expected_def map_err_def LAST_NONCE_def)
  then show ?thesis
    using that sealed f e(1) by (simp add: splice_def)
qed

section \<open>Properties\<close>

text \<open>C9. An enrolment runs to its end: under the label the controller was opened for, the offer
  arrives, both ends learn the other's static key, the client recognises the controller by its
  printed fingerprint, and the answer comes back sealed under the new keys; or, at any moment
  before the controller proceeds, its refusal is read as what it is. No frame exceeds a payload.\<close>

theorem pairing_enrols:
  assumes "crypto_ok C"
    and "c_dh C x (c_public C y) = Some ee" and "c_dh C x (c_public C r) = Some es" and "c_dh C c (c_public C y) = Some se"
    and "vouches_for C fingerprint (c_public C r)"
    and "pair_offer_valid offer" and "enrol_answer_valid answer"
    and "h_kind h = Mt_Pair" and "session_ok (h_session h)" and "h_kind h' = Mt_Enrol" and "session_ok (h_session h')"
    and "MAX_PAYLOAD \<le> length dst" and "length dst \<le> usize_max"
    and "MAX_PAIR_OFFER \<le> length buf" and "MAX_ENROL_ANSWER \<le> length buf" and "length buf \<le> usize_max"
  shows "\<exists>pending n1 d1 e1 a off b1 w n2 d2 e2 g ep n3 d3 e3 eg n4 d4 e4 b4.
    pairing_start C prologue suite label x offer h dst = (Inr (pending, n1), d1) \<and> n1 \<le> MAX_PAYLOAD \<and>
    envelope_decode (take n1 d1) = Inr e1 \<and> pair_arrival_decode e1 = Inr a \<and>
    arrival_open C prologue (pair_psk C label) a buf = (Inr off, b1) \<and> of_offer off = offer \<and>
    (\<forall>why. \<exists>n d e. offered_refuse C why (refusal_key C label) off dst = (Inr n, d) \<and> n \<le> MAX_PAYLOAD \<and>
      envelope_decode (take n d) = Inr e \<and> pairing_read C pending e label fingerprint = Inr (Refused why)) \<and>
    offered_proceed C (from_secret C r) y off dst = (Inr (w, n2), d2) \<and> n2 \<le> MAX_PAYLOAD \<and>
    envelope_decode (take n2 d2) = Inr e2 \<and> pairing_read C pending e2 label fingerprint = Inr (Proceed g) \<and>
    pr_controller g = c_public C r \<and>
    proceeding_finish C g (from_secret C c) h' dst = (Inr (ep, n3), d3) \<and> n3 \<le> MAX_PAYLOAD \<and>
    envelope_decode (take n3 d3) = Inr e3 \<and> awaiting_read C w e3 = Inr eg \<and> eg_client eg = c_public C c \<and>
    enrolling_answer C answer eg dst = (Inr n4, d4) \<and> n4 \<le> MAX_PAYLOAD \<and>
    envelope_decode (take n4 d4) = Inr e4 \<and> enrol_read C ep e4 buf = (Inr answer, b4)"
proof -
  let ?p = "map_bytes (pair_offer_fields offer)"
  have p: "length ?p \<le> MAX_PAIR_OFFER"
    by (rule pair_offer_bound [OF assms(6)])
  have sizes: "MAX_PAIR_OFFER = 112" "length ?p + 48 \<le> MAX_PAIR_MESSAGE_1" "MAX_PAIR_MESSAGE_1 = 160"
    "length EMPTY_MAP + 96 = PAIR_MESSAGE_2" "length EMPTY_MAP + 64 \<le> PAIR_MESSAGE_3" "PAIR_MESSAGE_2 = 97" "PAIR_MESSAGE_3 = 65"
    using p by (simp_all add: pair_sizes crypto_sizes limit_defs MAX_STRING_def)
  obtain i n1 o1 a w n2 o2 g k n3 o3 f where run:
    "pair_start C prologue (pair_psk C label) x ?p (replicate MAX_PAIR_MESSAGE_1 0) = (Inr (i, n1), o1)"
    "pair_read_request C prologue (pair_psk C label) (take n1 o1) buf = (Inr (a, ?p), splice buf 0 ?p)"
    "pair_reply C a (from_secret C r) y EMPTY_MAP (replicate PAIR_MESSAGE_2 0) = (Inr (w, n2), o2)"
    "pair_read_reply C i (take n2 o2) (replicate PAIR_MESSAGE_2 0) = (Inr (g, EMPTY_MAP), splice (replicate PAIR_MESSAGE_2 0) 0 EMPTY_MAP)"
    "pair_finish C g (from_secret C c) EMPTY_MAP (replicate PAIR_MESSAGE_3 0) = (Inr (k, n3), o3)"
    "pair_read_finish C w (take n3 o3) (replicate PAIR_MESSAGE_3 0) = (Inr (f, EMPTY_MAP), splice (replicate PAIR_MESSAGE_3 0) 0 EMPTY_MAP)"
    and ends: "pr_controller g = c_public C r" "pf_client f = c_public C c" "pf_keys f = k" "pq_state a = pi_state i"
    and n: "n1 = length ?p + 48" "n2 = length EMPTY_MAP + 96" "n3 = length EMPTY_MAP + 64"
      "length o1 = MAX_PAIR_MESSAGE_1" "length o2 = PAIR_MESSAGE_2" "length o3 = PAIR_MESSAGE_3"
    by (rule pair_runs_over [OF assms(1-4), where p = ?p and q = EMPTY_MAP and z = EMPTY_MAP and psk = "pair_psk C label"
          and ?d1.0 = "replicate MAX_PAIR_MESSAGE_1 0" and ?d2.0 = "replicate PAIR_MESSAGE_2 0" and ?d3.0 = "replicate PAIR_MESSAGE_3 0"
          and ?b1.0 = buf and ?b2.0 = "replicate PAIR_MESSAGE_2 0" and ?b3.0 = "replicate PAIR_MESSAGE_3 0" and prologue = prologue])
      (use sizes p assms(14,16) that in \<open>auto simp: usize_max_def\<close>)
  have room: "n1 \<le> length o1" "n2 \<le> length o2" "n3 \<le> length o3" "length (take n1 o1) \<le> 400" "length (take n2 o2) \<le> 400"
    "length (take n3 o3) \<le> 400"
    using sizes n p by auto
  have fits: "l \<le> length dst" "l \<le> usize_max" if "l \<le> MAX_PAYLOAD" for l
    using that assms(12,13) by auto
  let ?f1 = "frame_bytes h (pair_fields suite (take n1 o1))"
  let ?pending = "\<lparr>pp_initiator = i, pp_header = h\<rparr>" and ?a = "\<lparr>pv_arrival_header = h, pv_handshake = take n1 o1\<rparr>"
  have f1: "length ?f1 \<le> MAX_PAYLOAD"
    by (rule length_pair_frames(1) [OF room(4)])
  have start: "pairing_start C prologue suite label x offer h dst = (Inr (?pending, length ?f1), splice dst 0 ?f1)"
    by (rule pairing_start_eq [OF assms(8,6) run(1) room(1) refl fits(1) [OF f1] assms(13)])
  obtain e1 where e1: "envelope_decode ?f1 = Inr e1" "pair_arrival_decode e1 = Inr ?a"
    by (rule pair_decode_frame [OF assms(8,9) fits(2) [OF f1]])
  let ?off = "\<lparr>of_header = h, of_requested = a, of_offer = offer\<rparr>"
  have "pair_offer_decode ?p = Inr offer"
    using pair_offer.decode_fields [OF assms(6)] p assms(14,16) by simp
  then have opened: "arrival_open C prologue (pair_psk C label) ?a buf = (Inr ?off, splice buf 0 ?p)"
    using run(2) by (simp add: arrival_open_def)
  let ?h2 = "h\<lparr>h_kind := Mt_PairResponse\<rparr>"
  have refusing: "\<exists>n d e. offered_refuse C why (refusal_key C label) ?off dst = (Inr n, d) \<and> n \<le> MAX_PAYLOAD \<and>
      envelope_decode (take n d) = Inr e \<and> pairing_read C ?pending e label fingerprint = Inr (Refused why)" for why
  proof -
    let ?tag = "refusal_tag C (refusal_key C label) (sy_hash (pi_state i)) (pair_refusal_outcome why)"
    let ?f = "frame_bytes ?h2 (refused_fields why ?tag)"
    have tag: "length ?tag = MAC_TAG_BYTES"
      using length_tag [OF assms(1)] by (simp add: refusal_tag_def)
    have f: "length ?f \<le> MAX_PAYLOAD"
      by (rule length_pair_frames(3)) (simp add: tag MAC_TAG_BYTES_def)
    have refuses: "refused_of (pair_outcome_num (pair_refusal_outcome why)) = Inr (Some why)"
      unfolding refused_of_def pair_outcome.of_num_of by (cases why) simp_all
    obtain e where "envelope_decode ?f = Inr e" "pairing_read C ?pending e label fingerprint = Inr (Refused why)"
      by (rule reply_decode_frame [OF refused_reads, of why ?tag ?h2 ?pending C label fingerprint "Refused why"])
        (use assms(9) fits(2) [OF f] tag refuses that in \<open>simp_all add: reply_judge_def tag_verify_def\<close>)
    moreover have "offered_refuse C why (refusal_key C label) ?off dst = (Inr (length ?f), splice dst 0 ?f)"
      by (rule offered_refuse_eq [where tag = ?tag]) (use ends(4) fits(1) [OF f] assms(13) in simp_all)
    ultimately show ?thesis
      using f by (fastforce simp: splice_def)
  qed
  let ?f2 = "frame_bytes ?h2 (proceed_fields (take n2 o2))"
  have f2: "length ?f2 \<le> MAX_PAYLOAD"
    by (rule length_pair_frames(2) [OF room(5)])
  have proceed: "offered_proceed C (from_secret C r) y ?off dst = (Inr (w, length ?f2), splice dst 0 ?f2)"
    by (rule offered_proceed_eq [OF _ room(2) _ fits(1) [OF f2] assms(13)]) (use run(3) in simp_all)
  have proceeds: "refused_of (pair_outcome_num Pao_Proceed) = Inr None"
    unfolding refused_of_def pair_outcome.of_num_of by simp
  obtain e2 where e2: "envelope_decode ?f2 = Inr e2" "pairing_read C ?pending e2 label fingerprint = Inr (Proceed g)"
    by (rule reply_decode_frame [OF proceed_reads, of "take n2 o2" ?h2 ?pending C label fingerprint "Proceed g"])
      (use assms(5,9) fits(2) [OF f2] run(4) ends(1) proceeds that in \<open>simp_all add: reply_judge_def\<close>)
  let ?f3 = "frame_bytes h' (enrol_fields (take n3 o3))" and ?ep = "\<lparr>ep_channel = for_initiator k, ep_header = h'\<rparr>"
  have f3: "length ?f3 \<le> MAX_PAYLOAD"
    by (rule length_pair_frames(4) [OF room(6)])
  have finish: "proceeding_finish C g (from_secret C c) h' dst = (Inr (?ep, length ?f3), splice dst 0 ?f3)"
    by (rule proceeding_finish_eq [OF assms(10) run(5) room(3) refl fits(1) [OF f3] assms(13)])
  let ?eg = "\<lparr>eg_client = c_public C c, eg_header = h', eg_channel = for_responder k\<rparr>"
  obtain e3 where e3: "envelope_decode ?f3 = Inr e3" "awaiting_read C w e3 = Inr ?eg"
    by (rule enrol_decode_frame [OF assms(10,11) fits(2) [OF f3] run(6)]) (use ends(2,3) that in simp)
  obtain n4 d4 e4 where "enrolling_answer C answer ?eg dst = (Inr n4, d4)" "n4 \<le> MAX_PAYLOAD"
    "envelope_decode (take n4 d4) = Inr e4" "enrol_read C ?ep e4 buf = (Inr answer, splice buf 0 (map_bytes (enrol_answer_fields answer)))"
    by (rule enrolment_answered [OF assms(1,7,11,10), of ?eg k ?ep dst buf]) (use assms(12-16) that in simp_all)
  moreover have "envelope_decode (take (length ?f1) (splice dst 0 ?f1)) = Inr e1"
    "envelope_decode (take (length ?f2) (splice dst 0 ?f2)) = Inr e2"
    "envelope_decode (take (length ?f3) (splice dst 0 ?f3)) = Inr e3"
    using e1(1) e2(1) e3(1) by (simp_all add: take_message)
  moreover have "\<forall>why. \<exists>n d e. offered_refuse C why (refusal_key C label) ?off dst = (Inr n, d) \<and> n \<le> MAX_PAYLOAD \<and>
      envelope_decode (take n d) = Inr e \<and> pairing_read C ?pending e label fingerprint = Inr (Refused why)"
    using refusing by blast
  ultimately show ?thesis
    using start e1(2) opened proceed e2(2) finish e3(2) f1 f2 f3 ends(1)
    by (intro exI conjI) (assumption | simp)+
qed

lemma pairing_enrols_witness:
  "\<exists>pending n1 d1 e1 a off b1 w n2 d2 e2 g ep n3 d3 e3 eg n4 d4 e4 b4.
    let C = example_crypto; label = \<lparr>la_device_id = replicate 16 7, la_printed_secret = replicate 16 3\<rparr>;
      fingerprint = fingerprint_of C (c_public C [3]);
      offer = \<lparr>po_version = V1_0, po_client_version = [0x6F, 0x38], po_client_kind = Ck_App, po_label = [0x70]\<rparr>;
      answer = \<lparr>ea_outcome = Enrolled (ClientId 1) (Generation 1), ea_next_challenge = replicate CHALLENGE_BYTES 5\<rparr>;
      h = \<lparr>h_kind = Mt_Pair, h_session = NoSession, h_req_id = 1\<rparr>; h' = \<lparr>h_kind = Mt_Enrol, h_session = NoSession, h_req_id = 2\<rparr> in
    pairing_start C [9] Su_X25519ChachapolySha256 label [1] offer h (replicate 1100 0) = (Inr (pending, n1), d1) \<and>
    envelope_decode (take n1 d1) = Inr e1 \<and> pair_arrival_decode e1 = Inr a \<and>
    arrival_open C [9] (pair_psk C label) a (replicate 200 0) = (Inr off, b1) \<and> of_offer off = offer \<and>
    offered_proceed C (from_secret C [3]) [2] off (replicate 1100 0) = (Inr (w, n2), d2) \<and>
    envelope_decode (take n2 d2) = Inr e2 \<and> pairing_read C pending e2 label fingerprint = Inr (Proceed g) \<and>
    proceeding_finish C g (from_secret C [4]) h' (replicate 1100 0) = (Inr (ep, n3), d3) \<and>
    envelope_decode (take n3 d3) = Inr e3 \<and> awaiting_read C w e3 = Inr eg \<and> eg_client eg = c_public C [4] \<and>
    enrolling_answer C answer eg (replicate 1100 0) = (Inr n4, d4) \<and>
    envelope_decode (take n4 d4) = Inr e4 \<and> enrol_read C ep e4 (replicate 200 0) = (Inr answer, b4)"
proof -
  let ?label = "\<lparr>la_device_id = replicate 16 7, la_printed_secret = replicate 16 3\<rparr> :: label"
  let ?offer = "\<lparr>po_version = V1_0, po_client_version = [0x6F, 0x38], po_client_kind = Ck_App, po_label = [0x70]\<rparr> :: pair_offer"
  let ?answer = "\<lparr>ea_outcome = Enrolled (ClientId 1) (Generation 1), ea_next_challenge = replicate CHALLENGE_BYTES 5\<rparr>"
  let ?h = "\<lparr>h_kind = Mt_Pair, h_session = NoSession, h_req_id = 1\<rparr>" and ?h' = "\<lparr>h_kind = Mt_Enrol, h_session = NoSession, h_req_id = 2\<rparr>"
  obtain ee es se where dh: "c_dh example_crypto [1] (c_public example_crypto [2]) = Some ee"
    "c_dh example_crypto [1] (c_public example_crypto [3]) = Some es" "c_dh example_crypto [4] (c_public example_crypto [2]) = Some se"
    using example_dh [of "[1]" "[2]"] example_dh [of "[1]" "[3]"] example_dh [of "[4]" "[2]"] by blast
  have valid: "pair_offer_valid ?offer" "enrol_answer_valid ?answer"
    by (simp_all add: pair_offer_valid_def text_ok_def utf8.simps limit_defs MAX_STRING_def enrol_answer_valid_def
        client_id_ok_def generation_ok_def)
  have v: "vouches_for example_crypto (fingerprint_of example_crypto (c_public example_crypto [3])) (c_public example_crypto [3])"
    by (simp add: vouches_for_def)
  show ?thesis
    using pairing_enrols [OF example_crypto_ok dh v valid, of ?h ?h' "replicate 1100 0" "replicate 200 0"
        "[9]" Su_X25519ChachapolySha256 ?label]
    unfolding Let_def
    by (simp add: limit_defs usize_max_def pair_sizes MAX_STRING_def CHALLENGE_BYTES_def)
      (elim exE conjE, intro exI conjI, assumption+)
qed

text \<open>What a client makes of an answer to its \<open>Pair\<close>, exactly.\<close>

lemma refused_of_eq:
  "refused_of raw = Inr x \<longleftrightarrow> (case x of None \<Rightarrow> raw = pair_outcome_num Pao_Proceed
    | Some why \<Rightarrow> raw = pair_outcome_num (pair_refusal_outcome why))"
proof -
  have "refused_of (pair_outcome_num Pao_Proceed) = Inr None"
    "refused_of (pair_outcome_num (pair_refusal_outcome why)) = Inr (Some why)" for why
    unfolding refused_of_def pair_outcome.of_num_of by (cases why; simp)+
  moreover have "refused_of raw = Inr x \<Longrightarrow> \<exists>o'. raw = pair_outcome_num o' \<and>
      (case x of None \<Rightarrow> o' = Pao_Proceed | Some why \<Rightarrow> o' = pair_refusal_outcome why)"
    by (cases "pair_outcome_of raw"; cases "the (pair_outcome_of raw)")
      (auto simp: refused_of_def dest: pair_outcome.num_of_num)
  ultimately show ?thesis
    by (cases x) auto
qed

lemma reply_judge_exact:
  "reply_judge C i label fingerprint slots r = (Inr judged, r') \<longleftrightarrow> r' = r \<and> (case judged of
      Refused why \<Rightarrow> rs_outcome slots = Some (pair_outcome_num (pair_refusal_outcome why)) \<and> rs_handshake slots = None \<and>
        (\<exists>tag. rs_refusal slots = Some tag \<and>
          tag_verify (refusal_tag C (refusal_key C label) (sy_hash (pi_state i)) (pair_refusal_outcome why)) tag = Inr ())
    | Proceed g \<Rightarrow> rs_outcome slots = Some (pair_outcome_num Pao_Proceed) \<and> rs_refusal slots = None \<and>
        fingerprint = fingerprint_of C (pr_controller g) \<and>
        (\<exists>msg payload out. rs_handshake slots = Some msg \<and> pair_read_reply C i msg (replicate PAIR_MESSAGE_2 0) = (Inr (g, payload), out)))"
    (is "_ = (Inr judged, r') \<longleftrightarrow> ?rhs")
proof (cases "rs_outcome slots")
  case None
  then show ?thesis
    by (cases judged) (simp_all add: reply_judge_def)
next
  case (Some raw)
  show ?thesis
  proof (cases "refused_of raw")
    case (Inl err)
    have "raw \<noteq> pair_outcome_num Pao_Proceed" "raw \<noteq> pair_outcome_num (pair_refusal_outcome why)" for why
      using refused_of_eq [of raw None] refused_of_eq [of raw "Some why"] Inl by auto
    then show ?thesis
      using Inl Some by (cases judged) (auto simp: reply_judge_def)
  next
    case (Inr x)
    show ?thesis
    proof (cases x)
      case None
      have "raw \<noteq> pair_outcome_num (pair_refusal_outcome why)" for why
        using refused_of_eq [of raw "Some why"] Inr None by auto
      then show ?thesis
        using Some Inr None refused_of_eq [of raw None]
        by (cases judged) (auto simp: reply_judge_def vouches_for_def map_err_def fail_def
          split: sum.splits prod.splits option.splits if_splits elim!: decode_InrE, metis prod.collapse)
    next
      case (Some why)
      have "raw \<noteq> pair_outcome_num Pao_Proceed" "raw = pair_outcome_num (pair_refusal_outcome why') \<longleftrightarrow> why' = why" for why'
        using refused_of_eq [of raw None] refused_of_eq [of raw "Some why'"] Inr Some by auto
      then show ?thesis
        using \<open>rs_outcome slots = Some raw\<close> Inr Some
        by (cases judged) (auto simp: reply_judge_def map_err_def fail_def split: sum.splits prod.splits option.splits elim!: decode_InrE)
    qed
  qed
qed

text \<open>C10. A client believes an answer to its \<open>Pair\<close> exactly when it carries its own request id and
  is either a refusal tagged under its label over the transcript its message 1 left, or a message 2
  that opens to a controller key whose fingerprint is the one printed on the label.\<close>

theorem pairing_answer_exact:
  assumes "crypto_ok C"
  shows "pairing_read C p e label fingerprint = Inr judged \<longleftrightarrow>
    h_kind (e_header e) = Mt_PairResponse \<and> h_req_id (e_header e) = h_req_id (pp_header p) \<and>
    (\<exists>slots. enclosed Pe_Cbor reply_field reply_slots_empty (\<lambda>slots. andthen (finishing Pe_Cbor) (\<lambda>_. ret slots)) e = Inr slots \<and>
      (case judged of
        Refused why \<Rightarrow> rs_outcome slots = Some (pair_outcome_num (pair_refusal_outcome why)) \<and> rs_handshake slots = None \<and>
          rs_refusal slots =
            Some (refusal_tag C (refusal_key C label) (sy_hash (pi_state (pp_initiator p))) (pair_refusal_outcome why))
      | Proceed g \<Rightarrow> rs_outcome slots = Some (pair_outcome_num Pao_Proceed) \<and> rs_refusal slots = None \<and>
          fingerprint = fingerprint_of C (pr_controller g) \<and>
          (\<exists>msg payload out. rs_handshake slots = Some msg \<and>
            pair_read_reply C (pp_initiator p) msg (replicate PAIR_MESSAGE_2 0) = (Inr (g, payload), out))))"
proof -
  have tag: "tag_verify (refusal_tag C key h1 o') t = Inr () \<longleftrightarrow> t = refusal_tag C key h1 o'" for key h1 o' t
    using length_tag [OF assms] by (auto simp: tag_verify_def refusal_tag_def)
  have enc: "enclosed Pe_Cbor reply_field reply_slots_empty (\<lambda>slots. andthen (finishing Pe_Cbor) (f slots)) e = Inr y \<longleftrightarrow>
      (\<exists>slots s t u. pairs_loop Pe_Cbor reply_field (e_keys e) reply_slots_empty (e_body e) = (Inr slots, s) \<and>
        finishing Pe_Cbor s = (Inr (), t) \<and> f slots () t = (Inr y, u))"
    for f :: "reply_slots \<Rightarrow> unit \<Rightarrow> (reader, pair_error, 'b) act" and y
    by (auto simp: enclosed_def andthen_def split: prod.splits sum.splits) (metis prod.collapse)+
  show ?thesis
    unfolding pairing_read_def pair_expected_def enc reply_judge_exact tag [symmetric]
    by (cases judged) (auto simp: enc reply_judge_exact tag)
qed

lemma pairing_answer_exact_witness:
  "let p = \<lparr>pp_initiator = \<lparr>pi_state = pair_state example_crypto [9] [8], pi_ephemeral = generate example_crypto [1]\<rparr>,
       pp_header = \<lparr>h_kind = Mt_Pair, h_session = NoSession, h_req_id = 1\<rparr>\<rparr>;
     e = \<lparr>e_header = \<lparr>h_kind = Mt_PairResponse, h_session = NoSession, h_req_id = 2\<rparr>, e_keys = 0, e_body = reader_over []\<rparr>;
     label = \<lparr>la_device_id = replicate 16 7, la_printed_secret = replicate 16 3\<rparr> in
   pairing_read example_crypto p e label [5] \<noteq> Inr (Refused RefusedTableFull)"
  using pairing_answer_exact [OF example_crypto_ok] by (simp add: Let_def)

end
