(* ===== verification/Invite.thy ===== *)
theory Invite
  imports Enrolment
begin

text \<open>
  \<open>crates/km43/src/invite.rs\<close>: enrolling a phone through a relay nobody trusts. The invitee commits
  to its key and a nonce, the controller draws its own, and both compute six digits, a proof and a
  confirmation over one transcript.
\<close>

definition INVITE_NONCE_BYTES :: nat where "INVITE_NONCE_BYTES = 16"
definition COMMITMENT_BYTES :: nat where "COMMITMENT_BYTES = 32"

definition INVITE_TRANSCRIPT_BYTES :: nat where
  "INVITE_TRANSCRIPT_BYTES = 16 + KEY_BYTES + 4 + 1 + 1 + 4 + 4 + KEY_BYTES + INVITE_NONCE_BYTES + INVITE_NONCE_BYTES"

definition SAS_MODULUS :: u32 where "SAS_MODULUS = 1000000"

definition COMMIT_LABEL :: bytes where "COMMIT_LABEL = map of_char ''km43/v1/invite-commit''"
definition SAS_LABEL :: bytes where "SAS_LABEL = map of_char ''km43/v1/invite-sas''"

text \<open>\<open>const_assert!\<close>\<close>

lemma transcript_bytes: "INVITE_TRANSCRIPT_BYTES = 126"
  by (simp add: INVITE_TRANSCRIPT_BYTES_def KEY_BYTES_def INVITE_NONCE_BYTES_def)

datatype invite_error =
    Ie_CommitmentDoesNotOpen
  | Ie_NotThisController
  | Ie_Agreement noise_error
  | Ie_Tag mac_error

definition commitment_of :: "crypto \<Rightarrow> public_key \<Rightarrow> bytes \<Rightarrow> bytes" where
  "commitment_of C invitee reveal = c_sha256 C (COMMIT_LABEL @ invitee @ reveal)"

definition commitment_opens :: "crypto \<Rightarrow> bytes \<Rightarrow> public_key \<Rightarrow> bytes \<Rightarrow> bool" where
  "commitment_opens C commitment invitee reveal \<longleftrightarrow> commitment = commitment_of C invitee reveal"

record invitation =
  iv_device_id :: device_id
  iv_controller :: public_key
  iv_epoch :: epoch
  iv_suite :: suite
  iv_role :: role
  iv_inviter :: client_id
  iv_inviter_generation :: generation
  iv_invitee :: public_key
  iv_nonce :: bytes
  iv_reveal :: bytes

text \<open>The parts in order, zipped over an array of zeros.\<close>

definition transcript_parts :: "invitation \<Rightarrow> bytes" where
  "transcript_parts iv = concat
     [iv_device_id iv, iv_controller iv, be_bytes 4 (epoch_get (iv_epoch iv)), [suite_num (iv_suite iv)],
      [role_num (iv_role iv)], be_bytes 4 (client_id_get (iv_inviter iv)), be_bytes 4 (generation_get (iv_inviter_generation iv)),
      iv_invitee iv, iv_nonce iv, iv_reveal iv]"

definition transcript :: "invitation \<Rightarrow> bytes" where
  "transcript iv = take INVITE_TRANSCRIPT_BYTES
     (transcript_parts iv @ drop (length (transcript_parts iv)) (replicate INVITE_TRANSCRIPT_BYTES 0))"

definition sas :: "crypto \<Rightarrow> invitation \<Rightarrow> u32" where
  "sas C iv = from_be32 (take 4 (c_sha256 C (SAS_LABEL @ transcript iv))) mod SAS_MODULUS"

section \<open>The invitee\<close>

record invite_details =
  dt_device_id :: device_id
  dt_controller :: public_key
  dt_epoch :: epoch
  dt_suite :: suite
  dt_role :: role
  dt_inviter :: client_id
  dt_inviter_generation :: generation
  dt_nonce :: bytes

record invitee_start =
  is_key :: static_key
  is_reveal :: bytes

definition invitee_start_new :: "crypto \<Rightarrow> bytes \<Rightarrow> bytes \<Rightarrow> invitee_start" where
  "invitee_start_new C entropy nonce = \<lparr>is_key = generate C entropy, is_reveal = nonce\<rparr>"

definition start_commitment :: "crypto \<Rightarrow> invitee_start \<Rightarrow> bytes" where
  "start_commitment C s = commitment_of C (sk_public (is_key s)) (is_reveal s)"

record invitee =
  ie_key :: static_key
  ie_invitation :: invitation
  ie_admit :: bytes

definition invited :: "invite_details \<Rightarrow> public_key \<Rightarrow> bytes \<Rightarrow> invitation" where
  "invited d key reveal =
     \<lparr>iv_device_id = dt_device_id d, iv_controller = dt_controller d, iv_epoch = dt_epoch d, iv_suite = dt_suite d,
      iv_role = dt_role d, iv_inviter = dt_inviter d, iv_inviter_generation = dt_inviter_generation d,
      iv_invitee = key, iv_nonce = dt_nonce d, iv_reveal = reveal\<rparr>"

definition invitee_receive :: "crypto \<Rightarrow> invite_details \<Rightarrow> invitee_start \<Rightarrow> invite_error + invitee" where
  "invitee_receive C d s =
     (case static_admit_key C (is_key s) (dt_device_id d) (dt_controller d) of
        Inl why \<Rightarrow> Inl (Ie_Agreement why)
      | Inr admit \<Rightarrow>
          Inr \<lparr>ie_key = is_key s, ie_invitation = invited d (sk_public (is_key s)) (is_reveal s), ie_admit = admit\<rparr>)"

definition invitation_proof :: "crypto \<Rightarrow> bytes \<Rightarrow> invitation \<Rightarrow> bytes" where
  "invitation_proof C admit iv = invite_proof C admit (transcript iv)"

definition invitee_reveal :: "invitee \<Rightarrow> bytes" where
  "invitee_reveal ie = iv_reveal (ie_invitation ie)"

definition invitee_proof :: "crypto \<Rightarrow> invitee \<Rightarrow> bytes" where
  "invitee_proof C ie = invitation_proof C (ie_admit ie) (ie_invitation ie)"

definition invitee_sas :: "crypto \<Rightarrow> invitee \<Rightarrow> u32" where
  "invitee_sas C ie = sas C (ie_invitation ie)"

text \<open>An invitee whose person said the digits matched.\<close>

datatype matched = Matched invitee

definition digits_matched :: "invitee \<Rightarrow> matched" where
  "digits_matched ie = Matched ie"

primrec matched_keep :: "crypto \<Rightarrow> bytes \<Rightarrow> client_id \<Rightarrow> generation \<Rightarrow> matched \<Rightarrow> invite_error + enrolment" where
  "matched_keep C confirm c g (Matched ie) =
     (case tag_verify (invite_confirm C (ie_admit ie) (transcript (ie_invitation ie)) c g) confirm of
        Inl why \<Rightarrow> Inl (Ie_Tag why)
      | Inr _ \<Rightarrow> Inr (with_slot c g (enrolment_new (iv_device_id (ie_invitation ie)) (iv_controller (ie_invitation ie))
          (ie_key ie) (iv_suite (ie_invitation ie)) (iv_epoch (ie_invitation ie)))))"

section \<open>The controller\<close>

record verified =
  vf_transcript :: bytes
  vf_admit :: bytes

definition invitation_verify :: "crypto \<Rightarrow> invitation \<Rightarrow> bytes \<Rightarrow> bytes \<Rightarrow> static_key \<Rightarrow> invite_error + verified" where
  "invitation_verify C iv commitment proof controller =
     (if \<not> commitment_opens C commitment (iv_invitee iv) (iv_reveal iv) then Inl Ie_CommitmentDoesNotOpen
      else if sk_public controller \<noteq> iv_controller iv then Inl Ie_NotThisController
      else case static_admit_key C controller (iv_device_id iv) (iv_invitee iv) of
             Inl why \<Rightarrow> Inl (Ie_Agreement why)
           | Inr admit \<Rightarrow>
               (case tag_verify (invitation_proof C admit iv) proof of
                  Inl why \<Rightarrow> Inl (Ie_Tag why)
                | Inr _ \<Rightarrow> Inr \<lparr>vf_transcript = transcript iv, vf_admit = admit\<rparr>))"

definition verified_confirm :: "crypto \<Rightarrow> verified \<Rightarrow> client_id \<Rightarrow> generation \<Rightarrow> bytes" where
  "verified_confirm C v c g = invite_confirm C (vf_admit v) (vf_transcript v) c g"

section \<open>The transcript names every field\<close>

definition invitation_ok :: "invitation \<Rightarrow> bool" where
  "invitation_ok iv \<longleftrightarrow> length (iv_device_id iv) = DEVICE_ID_BYTES \<and> length (iv_controller iv) = KEY_BYTES \<and>
     length (iv_invitee iv) = KEY_BYTES \<and> length (iv_nonce iv) = INVITE_NONCE_BYTES \<and> length (iv_reveal iv) = INVITE_NONCE_BYTES"

lemma length_transcript [simp]: "length (transcript iv) = INVITE_TRANSCRIPT_BYTES"
  by (simp add: transcript_def)

lemma transcript_eq: "invitation_ok iv \<Longrightarrow> transcript iv = transcript_parts iv"
  by (simp add: transcript_def transcript_parts_def invitation_ok_def INVITE_TRANSCRIPT_BYTES_def DEVICE_ID_BYTES_def)

lemma transcript_injective:
  assumes "invitation_ok iv" and "invitation_ok iv'"
  shows "transcript iv = transcript iv' \<longleftrightarrow> iv = iv'"
proof
  assume "transcript iv = transcript iv'"
  then have "transcript_parts iv = transcript_parts iv'"
    using assms by (simp add: transcript_eq)
  then show "iv = iv'"
    using assms by (cases iv; cases iv') (simp add: transcript_parts_def invitation_ok_def suite.num_of_inj role.num_of_inj)
qed simp

lemma sas_below: "sas C iv < SAS_MODULUS"
  by (simp add: sas_def SAS_MODULUS_def word_mod_less_divisor)

lemma tag_verify_own: "crypto_ok C \<Longrightarrow> tag_verify (invite_proof C k t) candidate = Inr () \<longleftrightarrow> candidate = invite_proof C k t"
  "crypto_ok C \<Longrightarrow> tag_verify (invite_confirm C k t c g) candidate = Inr () \<longleftrightarrow> candidate = invite_confirm C k t c g"
  using length_tag by (auto simp: tag_verify_def invite_proof_def invite_confirm_def)

lemma tag_verify_same:
  "crypto_ok C \<Longrightarrow> tag_verify (invite_proof C k t) (invite_proof C k t) = Inr ()"
  "crypto_ok C \<Longrightarrow> tag_verify (invite_confirm C k t c g) (invite_confirm C k t c g) = Inr ()"
  by (simp_all add: tag_verify_own)

section \<open>Properties\<close>

text \<open>C12. An invite completes: with the controller's details relayed unchanged, the invitee's proof
  verifies against its commitment, both ends show the same six digits, and the controller's
  confirmation for whatever slot it wrote leaves the invitee with the enrolment in that slot, under
  the admission key the controller stores.\<close>

theorem invite_completes:
  assumes "crypto_ok C" and "c_dh C s (c_public C r) = Some shared" and "dt_controller d = c_public C r"
  shows "\<exists>ie v. let start = invitee_start_new C s n; iv = invited d (c_public C s) n in
    invitee_receive C d start = Inr ie \<and>
    invitation_verify C iv (start_commitment C start) (invitee_proof C ie) (from_secret C r) = Inr v \<and>
    invitee_reveal ie = n \<and> invitee_sas C ie = sas C iv \<and> sas C iv < SAS_MODULUS \<and>
    (\<forall>c g. \<exists>en. matched_keep C (verified_confirm C v c g) c g (digits_matched ie) = Inr en \<and>
      en = with_slot c g (enrolment_new (dt_device_id d) (c_public C r) (from_secret C s) (dt_suite d) (dt_epoch d)) \<and>
      enrolment_admit_key C en = Inr (vf_admit v))"
proof -
  obtain admit where admit: "static_admit_key C (from_secret C s) (dt_device_id d) (c_public C r) = Inr admit"
    "static_admit_key C (from_secret C r) (dt_device_id d) (c_public C s) = Inr admit"
    using assms(2) static_keys_agree(1) [OF assms(1), of r "dt_device_id d" s]
    by (simp add: static_admit_key_def agree_def from_secret_def)
  then show ?thesis
    using assms(3) tag_verify_same [OF assms(1)]
    by (simp add: Let_def invitee_receive_def invitee_start_new_def generate_def invitation_verify_def start_commitment_def
        commitment_opens_def invitee_proof_def invitation_proof_def invitee_reveal_def invitee_sas_def sas_below invited_def
        digits_matched_def verified_confirm_def enrolment_admit_key_def with_slot_def enrolment_new_def from_secret_def)
qed

lemma invite_completes_witness:
  "let C = example_crypto; d = \<lparr>dt_device_id = replicate 16 7, dt_controller = c_public C [3], dt_epoch = Epoch 1,
      dt_suite = Su_X25519ChachapolySha256, dt_role = Role_Admin, dt_inviter = ClientId 1, dt_inviter_generation = Generation 2,
      dt_nonce = replicate 16 4\<rparr> in
   \<exists>ie v. invitee_receive C d (invitee_start_new C [5] (replicate 16 6)) = Inr ie \<and>
     invitation_verify C (invited d (c_public C [5]) (replicate 16 6))
       (start_commitment C (invitee_start_new C [5] (replicate 16 6))) (invitee_proof C ie) (from_secret C [3]) = Inr v"
proof -
  let ?d = "\<lparr>dt_device_id = replicate 16 7, dt_controller = c_public example_crypto [3], dt_epoch = Epoch 1,
      dt_suite = Su_X25519ChachapolySha256, dt_role = Role_Admin, dt_inviter = ClientId 1, dt_inviter_generation = Generation 2,
      dt_nonce = replicate 16 4\<rparr> :: invite_details"
  obtain shared where "c_dh example_crypto [5] (c_public example_crypto [3]) = Some shared"
    by (simp add: example_crypto_def)
  from invite_completes [OF example_crypto_ok this, of ?d "replicate 16 6"] show ?thesis
    unfolding Let_def by auto
qed

text \<open>C13. The controller approves exactly an invitation whose commitment the revealed nonce opens
  for the invitee's key, that names this controller, whose agreement is not zero, and whose proof is
  the tag under the enrolment's admission key over its own transcript: of that device, epoch, suite,
  role, inviter, invitee and nonces, and of no other.\<close>

theorem invite_approval_exact:
  assumes "crypto_ok C" and "invitation_ok iv"
  shows "(invitation_verify C iv commitment proof controller = Inr v \<longleftrightarrow>
      commitment = commitment_of C (iv_invitee iv) (iv_reveal iv) \<and> sk_public controller = iv_controller iv \<and>
      (\<exists>admit. static_admit_key C controller (iv_device_id iv) (iv_invitee iv) = Inr admit \<and>
        proof = invite_proof C admit (transcript iv) \<and> v = \<lparr>vf_transcript = transcript iv, vf_admit = admit\<rparr>)) \<and>
    (\<forall>iv'. invitation_ok iv' \<longrightarrow> transcript iv' = transcript iv \<longrightarrow> iv' = iv) \<and>
    (\<forall>confirm c g ie. matched_keep C confirm c g (Matched ie) = Inr en \<longrightarrow>
      confirm = invite_confirm C (ie_admit ie) (transcript (ie_invitation ie)) c g \<and> en_slot en = Some (c, g) \<and>
      en_controller en = iv_controller (ie_invitation ie))"
proof (intro conjI allI impI)
  show "invitation_verify C iv commitment proof controller = Inr v \<longleftrightarrow>
      commitment = commitment_of C (iv_invitee iv) (iv_reveal iv) \<and> sk_public controller = iv_controller iv \<and>
      (\<exists>admit. static_admit_key C controller (iv_device_id iv) (iv_invitee iv) = Inr admit \<and>
        proof = invite_proof C admit (transcript iv) \<and> v = \<lparr>vf_transcript = transcript iv, vf_admit = admit\<rparr>)"
    by (auto simp: tag_verify_own(1) [OF assms(1)] tag_verify_same(1) [OF assms(1)] invitation_verify_def commitment_opens_def invitation_proof_def split: sum.split)
  show "iv' = iv" if "invitation_ok iv'" "transcript iv' = transcript iv" for iv'
    using transcript_injective [OF that(1) assms(2)] that(2) by simp
  fix confirm c g ie
  assume "matched_keep C confirm c g (Matched ie) = Inr en"
  then show "confirm = invite_confirm C (ie_admit ie) (transcript (ie_invitation ie)) c g" "en_slot en = Some (c, g)"
    "en_controller en = iv_controller (ie_invitation ie)"
    using tag_verify_own(2) [OF assms(1)] by (auto simp: with_slot_def enrolment_new_def split: sum.splits)
qed

lemma invite_approval_exact_witness:
  "let C = example_crypto; iv = \<lparr>iv_device_id = replicate 16 7, iv_controller = c_public C [3], iv_epoch = Epoch 1,
      iv_suite = Su_X25519ChachapolySha256, iv_role = Role_Admin, iv_inviter = ClientId 1, iv_inviter_generation = Generation 2,
      iv_invitee = c_public C [5], iv_nonce = replicate 16 4, iv_reveal = replicate 16 6\<rparr> in
   \<forall>commitment proof v. \<not> (invitation_verify C iv commitment proof (from_secret C [3]) = Inr v \<and>
     commitment \<noteq> commitment_of C (c_public C [5]) (replicate 16 6))"
proof -
  let ?iv = "\<lparr>iv_device_id = replicate 16 7, iv_controller = c_public example_crypto [3], iv_epoch = Epoch 1,
      iv_suite = Su_X25519ChachapolySha256, iv_role = Role_Admin, iv_inviter = ClientId 1, iv_inviter_generation = Generation 2,
      iv_invitee = c_public example_crypto [5], iv_nonce = replicate 16 4, iv_reveal = replicate 16 6\<rparr> :: invitation"
  have "invitation_ok ?iv"
    using crypto_ok_sizes [OF example_crypto_ok] by (simp add: invitation_ok_def DEVICE_ID_BYTES_def INVITE_NONCE_BYTES_def)
  from invite_approval_exact [OF example_crypto_ok this] show ?thesis
    unfolding Let_def by auto
qed

end
