(* ===== verification/Vouch.thy ===== *)
theory Vouch
  imports Report
begin

text \<open>
  \<open>crates/km43/src/vouch.rs\<close>: the controller telling one verifier that the client asking holds an
  enrolment in this generation and asked for this account. The statement and its tag are in
  \<open>Keys\<close>; here are the two bodies, the controller's answer and the verifier's check.
\<close>

definition VOUCH_NONCE_BYTES :: nat where "VOUCH_NONCE_BYTES = 16"
definition BINDING_BYTES :: nat where "BINDING_BYTES = 32"

datatype vouch_field =
    Vf_Verifier | Vf_Nonce | Vf_Binding | Vf_Outcome | Vf_Epoch | Vf_ClientId | Vf_Generation | Vf_Tag

datatype vouch_error =
    Vo_Missing vouch_field
  | Vo_Duplicate vouch_field
  | Vo_WrongWidth vouch_field
  | Vo_Zero vouch_field
  | Vo_UnknownOutcome u8
  | Vo_OutcomeDisagrees
  | Vo_Cbor cbor_error

definition vouch_refused :: "vouch_error \<Rightarrow> refusal" where
  "vouch_refused why = RefuseClient Ec_MalformedFrame"

definition vouch_fixed :: "nat \<Rightarrow> vouch_field \<Rightarrow> bytes \<Rightarrow> vouch_error + bytes" where
  "vouch_fixed n field v = (if length v = n then Inr v else Inl (Vo_WrongWidth field))"

section \<open>The request\<close>

record vouch_request =
  vr_verifier :: public_key
  vr_nonce :: bytes
  vr_binding :: bytes

definition vouch_request_pairs :: "vouch_request \<Rightarrow> (writer, cbor_error, unit) act" where
  "vouch_request_pairs q =
     andthen (wr_key 1) (\<lambda>_. andthen (wr_byte_string (vr_verifier q)) (\<lambda>_.
     andthen (wr_key 2) (\<lambda>_. andthen (wr_byte_string (vr_nonce q)) (\<lambda>_.
     andthen (wr_key 3) (\<lambda>_. wr_byte_string (vr_binding q))))))"

definition vouch_request_encode :: "vouch_request \<Rightarrow> bytes \<Rightarrow> (vouch_error + nat) \<times> bytes" where
  "vouch_request_encode q = encoding Vo_Cbor (map_err Vo_Cbor (andthen (wr_map 3) (\<lambda>_. vouch_request_pairs q)))"

record vouch_request_slots =
  vq_verifier :: "bytes option"
  vq_nonce :: "bytes option"
  vq_binding :: "bytes option"

definition vouch_request_empty :: vouch_request_slots where
  "vouch_request_empty = \<lparr>vq_verifier = None, vq_nonce = None, vq_binding = None\<rparr>"

definition vouch_request_field :: "vouch_request_slots \<Rightarrow> int \<Rightarrow> (reader, vouch_error, vouch_request_slots) act" where
  "vouch_request_field slots number =
     (if number = 1 then
        andthen (map_err Vo_Cbor rd_byte_string) (\<lambda>v. andthen (lift_sum (vouch_fixed KEY_BYTES Vf_Verifier v)) (\<lambda>w.
        andthen (once (Vo_Duplicate Vf_Verifier) (vq_verifier slots) w) (\<lambda>s. ret (slots\<lparr>vq_verifier := s\<rparr>))))
      else if number = 2 then
        andthen (map_err Vo_Cbor rd_byte_string) (\<lambda>v. andthen (lift_sum (vouch_fixed VOUCH_NONCE_BYTES Vf_Nonce v)) (\<lambda>w.
        andthen (once (Vo_Duplicate Vf_Nonce) (vq_nonce slots) w) (\<lambda>s. ret (slots\<lparr>vq_nonce := s\<rparr>))))
      else if number = 3 then
        andthen (map_err Vo_Cbor rd_byte_string) (\<lambda>v. andthen (lift_sum (vouch_fixed BINDING_BYTES Vf_Binding v)) (\<lambda>w.
        andthen (once (Vo_Duplicate Vf_Binding) (vq_binding slots) w) (\<lambda>s. ret (slots\<lparr>vq_binding := s\<rparr>))))
      else skipped Vo_Cbor slots)"

definition vouch_request_complete :: "vouch_request_slots \<Rightarrow> (reader, vouch_error, vouch_request) act" where
  "vouch_request_complete slots =
     andthen (ok_or (Vo_Missing Vf_Verifier) (vq_verifier slots)) (\<lambda>verifier.
     andthen (ok_or (Vo_Missing Vf_Nonce) (vq_nonce slots)) (\<lambda>nonce.
     andthen (ok_or (Vo_Missing Vf_Binding) (vq_binding slots)) (\<lambda>binding.
     ret \<lparr>vr_verifier = verifier, vr_nonce = nonce, vr_binding = binding\<rparr>)))"

definition vouch_request_decode :: "bytes \<Rightarrow> vouch_error + vouch_request" where
  "vouch_request_decode = decoding (
     andthen (map_fields Vo_Cbor vouch_request_field vouch_request_empty) (\<lambda>slots.
     andthen (finishing Vo_Cbor) (\<lambda>_. vouch_request_complete slots)))"

section \<open>The answer\<close>

datatype vouch_answer = Vouched epoch client_id generation bytes | BadVerifier

definition vouch_answered ::
  "crypto \<Rightarrow> vouch_request \<Rightarrow> static_key \<Rightarrow> device_id \<Rightarrow> epoch \<Rightarrow> client_id \<times> generation \<Rightarrow> vouch_answer" where
  "vouch_answered C q controller device_id epoch bound =
     (case bound of (c, g) \<Rightarrow>
        (case static_vouch_key C controller device_id (vr_verifier q) of
           Inl _ \<Rightarrow> BadVerifier
         | Inr key \<Rightarrow> Vouched epoch c g (vouch_tag C key
             \<lparr>vs_device_id = device_id, vs_epoch = epoch, vs_client_id = c, vs_generation = g,
              vs_nonce = vr_nonce q, vs_binding = vr_binding q\<rparr>)))"

primrec vouch_answer_writes :: "vouch_answer \<Rightarrow> (writer, cbor_error, unit) act" where
  "vouch_answer_writes (Vouched epoch c g tag) =
     andthen (wr_map 5) (\<lambda>_.
     andthen (wr_key 1) (\<lambda>_. andthen (wr_u64 (ucast (vouch_outcome_num Vo_Vouched))) (\<lambda>_.
     andthen (wr_key 2) (\<lambda>_. andthen (wr_u64 (ucast (epoch_get epoch))) (\<lambda>_.
     andthen (wr_key 3) (\<lambda>_. andthen (wr_u64 (ucast (client_id_get c))) (\<lambda>_.
     andthen (wr_key 4) (\<lambda>_. andthen (wr_u64 (ucast (generation_get g))) (\<lambda>_.
     andthen (wr_key 5) (\<lambda>_. wr_byte_string tag))))))))))"
| "vouch_answer_writes BadVerifier =
     andthen (wr_map 1) (\<lambda>_. andthen (wr_key 1) (\<lambda>_. wr_u64 (ucast (vouch_outcome_num Vo_BadVerifier))))"

definition vouch_answer_encode :: "vouch_answer \<Rightarrow> bytes \<Rightarrow> (vouch_error + nat) \<times> bytes" where
  "vouch_answer_encode a = encoding Vo_Cbor (map_err Vo_Cbor (vouch_answer_writes a))"

record vouch_answer_slots =
  va_outcome :: "u8 option"
  va_epoch :: "u32 option"
  va_client_id :: "u32 option"
  va_generation :: "u32 option"
  va_tag :: "bytes option"

definition vouch_answer_empty :: vouch_answer_slots where
  "vouch_answer_empty = \<lparr>va_outcome = None, va_epoch = None, va_client_id = None, va_generation = None, va_tag = None\<rparr>"

definition vouch_answer_field :: "vouch_answer_slots \<Rightarrow> int \<Rightarrow> (reader, vouch_error, vouch_answer_slots) act" where
  "vouch_answer_field slots number =
     (if number = 1 then
        andthen (map_err Vo_Cbor rd_u8) (\<lambda>v. andthen (once (Vo_Duplicate Vf_Outcome) (va_outcome slots) v) (\<lambda>s.
        ret (slots\<lparr>va_outcome := s\<rparr>)))
      else if number = 2 then
        andthen (map_err Vo_Cbor rd_u32) (\<lambda>v. andthen (once (Vo_Duplicate Vf_Epoch) (va_epoch slots) v) (\<lambda>s.
        ret (slots\<lparr>va_epoch := s\<rparr>)))
      else if number = 3 then
        andthen (map_err Vo_Cbor rd_u32) (\<lambda>v. andthen (once (Vo_Duplicate Vf_ClientId) (va_client_id slots) v) (\<lambda>s.
        ret (slots\<lparr>va_client_id := s\<rparr>)))
      else if number = 4 then
        andthen (map_err Vo_Cbor rd_u32) (\<lambda>v. andthen (once (Vo_Duplicate Vf_Generation) (va_generation slots) v) (\<lambda>s.
        ret (slots\<lparr>va_generation := s\<rparr>)))
      else if number = 5 then
        andthen (map_err Vo_Cbor rd_byte_string) (\<lambda>v. andthen (lift_sum (vouch_fixed MAC_TAG_BYTES Vf_Tag v)) (\<lambda>w.
        andthen (once (Vo_Duplicate Vf_Tag) (va_tag slots) w) (\<lambda>s. ret (slots\<lparr>va_tag := s\<rparr>))))
      else skipped Vo_Cbor slots)"

definition vouch_named :: "u32 \<Rightarrow> u32 \<Rightarrow> u32 \<Rightarrow> bytes \<Rightarrow> vouch_error + vouch_answer" where
  "vouch_named epoch client_id generation tag =
     (case epoch_new epoch of
        None \<Rightarrow> Inl (Vo_Zero Vf_Epoch)
      | Some e \<Rightarrow>
          (case client_id_new client_id of
             None \<Rightarrow> Inl (Vo_Zero Vf_ClientId)
           | Some c \<Rightarrow>
               (case generation_new generation of None \<Rightarrow> Inl (Vo_Zero Vf_Generation) | Some g \<Rightarrow> Inr (Vouched e c g tag))))"

definition vouch_outcome_judge :: "vouch_answer_slots \<Rightarrow> u8 \<Rightarrow> vouch_error + vouch_answer" where
  "vouch_outcome_judge slots raw =
     (case vouch_outcome_of raw of
        None \<Rightarrow> Inl (Vo_UnknownOutcome raw)
      | Some Vo_Vouched \<Rightarrow>
          (case (va_epoch slots, va_client_id slots, va_generation slots, va_tag slots) of
             (Some epoch, Some client_id, Some generation, Some tag) \<Rightarrow> vouch_named epoch client_id generation tag
           | _ \<Rightarrow> Inl Vo_OutcomeDisagrees)
      | Some Vo_BadVerifier \<Rightarrow>
          if va_epoch slots \<noteq> None \<or> va_client_id slots \<noteq> None \<or> va_generation slots \<noteq> None \<or> va_tag slots \<noteq> None
          then Inl Vo_OutcomeDisagrees else Inr BadVerifier)"

definition vouch_answer_complete :: "vouch_answer_slots \<Rightarrow> (reader, vouch_error, vouch_answer) act" where
  "vouch_answer_complete slots =
     andthen (ok_or (Vo_Missing Vf_Outcome) (va_outcome slots)) (\<lambda>raw. lift_sum (vouch_outcome_judge slots raw))"

definition vouch_answer_decode :: "bytes \<Rightarrow> vouch_error + vouch_answer" where
  "vouch_answer_decode = decoding (
     andthen (map_fields Vo_Cbor vouch_answer_field vouch_answer_empty) (\<lambda>slots.
     andthen (finishing Vo_Cbor) (\<lambda>_. vouch_answer_complete slots)))"

section \<open>The verifier\<close>

record vouch_issue =
  vi_device_id :: device_id
  vi_epoch :: epoch
  vi_nonce :: bytes
  vi_binding :: bytes

record vouch_claim =
  vc_controller :: public_key
  vc_client_id :: client_id
  vc_generation :: generation
  vc_tag :: bytes

datatype vouch_refusal = NoRecord | WrongController | LowOrderController | TagMismatch

definition claimed :: "vouch_issue \<Rightarrow> vouch_claim \<Rightarrow> vouch_statement" where
  "claimed issue claim =
     \<lparr>vs_device_id = vi_device_id issue, vs_epoch = vi_epoch issue, vs_client_id = vc_client_id claim,
      vs_generation = vc_generation claim, vs_nonce = vi_nonce issue, vs_binding = vi_binding issue\<rparr>"

definition vouch_verify ::
  "crypto \<Rightarrow> vouch_issue \<Rightarrow> static_key \<Rightarrow> bytes option \<Rightarrow> vouch_claim \<Rightarrow> vouch_refusal + vouch_statement" where
  "vouch_verify C issue verifier recorded claim =
     (case recorded of
        None \<Rightarrow> Inl NoRecord
      | Some printed \<Rightarrow>
          if \<not> vouches_for C printed (vc_controller claim) then Inl WrongController
          else case static_vouch_key C verifier (vi_device_id issue) (vc_controller claim) of
                 Inl _ \<Rightarrow> Inl LowOrderController
               | Inr key \<Rightarrow>
                   (case tag_verify (vouch_tag C key (claimed issue claim)) (vc_tag claim) of
                      Inl _ \<Rightarrow> Inl TagMismatch
                    | Inr _ \<Rightarrow> Inr (claimed issue claim)))"

section \<open>The bodies are codecs\<close>

definition vouch_request_fields :: "vouch_request \<Rightarrow> (int \<times> item) list" where
  "vouch_request_fields q = [(1, IBytes (vr_verifier q)), (2, IBytes (vr_nonce q)), (3, IBytes (vr_binding q))]"

definition vouch_request_valid :: "vouch_request \<Rightarrow> bool" where
  "vouch_request_valid q \<longleftrightarrow> length (vr_verifier q) = KEY_BYTES \<and> length (vr_nonce q) = VOUCH_NONCE_BYTES \<and>
     length (vr_binding q) = BINDING_BYTES"

lemma vouch_request_ok [simp]:
  "ascending None (vouch_request_fields q)" "shallow room (vouch_request_fields q)" "known 3 (vouch_request_fields q)"
  "length (vouch_request_fields q) = 3"
  by (simp_all add: vouch_request_fields_def good_key_def)

lemma vouch_request_pairs_write: "writes_pairs (vouch_request_pairs q) (vouch_request_fields q)"
  unfolding vouch_request_pairs_def vouch_request_fields_def by (intro item_rules)

lemma vouch_request_field_simps:
  "vouch_request_field s 1 = andthen (map_err Vo_Cbor rd_byte_string) (\<lambda>v.
     andthen (lift_sum (vouch_fixed KEY_BYTES Vf_Verifier v)) (\<lambda>w.
     andthen (once (Vo_Duplicate Vf_Verifier) (vq_verifier s) w) (\<lambda>t. ret (s\<lparr>vq_verifier := t\<rparr>))))"
  "vouch_request_field s 2 = andthen (map_err Vo_Cbor rd_byte_string) (\<lambda>v.
     andthen (lift_sum (vouch_fixed VOUCH_NONCE_BYTES Vf_Nonce v)) (\<lambda>w.
     andthen (once (Vo_Duplicate Vf_Nonce) (vq_nonce s) w) (\<lambda>t. ret (s\<lparr>vq_nonce := t\<rparr>))))"
  "vouch_request_field s 3 = andthen (map_err Vo_Cbor rd_byte_string) (\<lambda>v.
     andthen (lift_sum (vouch_fixed BINDING_BYTES Vf_Binding v)) (\<lambda>w.
     andthen (once (Vo_Duplicate Vf_Binding) (vq_binding s) w) (\<lambda>t. ret (s\<lparr>vq_binding := t\<rparr>))))"
  "3 < j \<Longrightarrow> vouch_request_field s j = skipped Vo_Cbor s"
  by (simp_all add: vouch_request_field_def)

lemma vouch_request_reads:
  assumes "vouch_request_valid q"
  shows "reads_pairs vouch_request_field (vouch_request_fields q) vouch_request_empty
    \<lparr>vq_verifier = Some (vr_verifier q), vq_nonce = Some (vr_nonce q), vq_binding = Some (vr_binding q)\<rparr>"
proof -
  have widths: "vouch_fixed KEY_BYTES Vf_Verifier (vr_verifier q) = Inr (vr_verifier q)"
    "vouch_fixed VOUCH_NONCE_BYTES Vf_Nonce (vr_nonce q) = Inr (vr_nonce q)"
    "vouch_fixed BINDING_BYTES Vf_Binding (vr_binding q) = Inr (vr_binding q)"
    using assms by (simp_all add: vouch_request_valid_def vouch_fixed_def)
  have "reads_pairs vouch_request_field (vouch_request_fields q) vouch_request_empty (vouch_request_empty
    \<lparr>vq_verifier := Some (vr_verifier q), vq_nonce := Some (vr_nonce q), vq_binding := Some (vr_binding q)\<rparr>)"
    unfolding vouch_request_fields_def
    by (rule reads_Nil | rule reads_Cons | simp only: vouch_request_field_simps | rule slot_rules
      | rule item_rules widths | simp add: vouch_request_empty_def; fail)+
  then show ?thesis
    by (simp add: vouch_request_empty_def)
qed

interpretation vouch_request: body_codec vouch_request_encode vouch_request_decode vouch_request_fields vouch_request_valid 3
proof
  fix q and dst :: bytes
  assume "length (map_bytes (vouch_request_fields q)) \<le> length dst" "length dst \<le> usize_max"
  then show "vouch_request_encode q dst =
      (Inr (length (map_bytes (vouch_request_fields q))), splice dst 0 (map_bytes (vouch_request_fields q)))"
    unfolding vouch_request_encode_def by (intro encodes_fields) (simp_all add: vouch_request_pairs_write)
next
  fix q fs
  assume q: "vouch_request_valid q" and fs: "extends 3 INNER fs" "length (map_bytes (vouch_request_fields q @ fs)) \<le> usize_max"
  show "vouch_request_decode (map_bytes (vouch_request_fields q @ fs)) = Inr q"
    unfolding vouch_request_decode_def
    by (rule decodes_fields [OF vouch_request_reads [OF q] _ _ _ fs(1) _ fs(2)])
      (cases q, auto intro!: runs_andthen runs_finishing simp: vouch_request_complete_def vouch_request_field_simps)
qed

primrec vouch_answer_fields :: "vouch_answer \<Rightarrow> (int \<times> item) list" where
  "vouch_answer_fields (Vouched e c g tag) =
     [(1, IUint (ucast (vouch_outcome_num Vo_Vouched))), (2, IUint (ucast (epoch_get e))), (3, IUint (ucast (client_id_get c))),
      (4, IUint (ucast (generation_get g))), (5, IBytes tag)]"
| "vouch_answer_fields BadVerifier = [(1, IUint (ucast (vouch_outcome_num Vo_BadVerifier)))]"

primrec vouch_answer_valid :: "vouch_answer \<Rightarrow> bool" where
  "vouch_answer_valid (Vouched e c g tag) \<longleftrightarrow> epoch_ok e \<and> client_id_ok c \<and> generation_ok g \<and> length tag = MAC_TAG_BYTES"
| "vouch_answer_valid BadVerifier \<longleftrightarrow> True"

lemma vouch_answer_fields_ok [simp]:
  "ascending None (vouch_answer_fields a)" "shallow room (vouch_answer_fields a)" "known 5 (vouch_answer_fields a)"
  by (cases a; simp add: good_key_def)+

lemma vouch_answer_encodes:
  assumes "length (map_bytes (vouch_answer_fields a)) \<le> length dst" and "length dst \<le> usize_max"
  shows "vouch_answer_encode a dst =
    (Inr (length (map_bytes (vouch_answer_fields a))), splice dst 0 (map_bytes (vouch_answer_fields a)))"
proof (cases a)
  case (Vouched e c g tag)
  show ?thesis
    using assms unfolding vouch_answer_encode_def Vouched vouch_answer_writes.simps vouch_answer_fields.simps
    by (intro encodes_fields item_rules) (simp_all add: good_key_def)
next
  case BadVerifier
  show ?thesis
    using assms unfolding vouch_answer_encode_def BadVerifier vouch_answer_writes.simps vouch_answer_fields.simps
    by (intro encodes_fields item_rules) (simp_all add: good_key_def)
qed

lemma vouch_answer_field_simps:
  "vouch_answer_field s 1 = andthen (map_err Vo_Cbor rd_u8) (\<lambda>v.
     andthen (once (Vo_Duplicate Vf_Outcome) (va_outcome s) v) (\<lambda>t. ret (s\<lparr>va_outcome := t\<rparr>)))"
  "vouch_answer_field s 2 = andthen (map_err Vo_Cbor rd_u32) (\<lambda>v.
     andthen (once (Vo_Duplicate Vf_Epoch) (va_epoch s) v) (\<lambda>t. ret (s\<lparr>va_epoch := t\<rparr>)))"
  "vouch_answer_field s 3 = andthen (map_err Vo_Cbor rd_u32) (\<lambda>v.
     andthen (once (Vo_Duplicate Vf_ClientId) (va_client_id s) v) (\<lambda>t. ret (s\<lparr>va_client_id := t\<rparr>)))"
  "vouch_answer_field s 4 = andthen (map_err Vo_Cbor rd_u32) (\<lambda>v.
     andthen (once (Vo_Duplicate Vf_Generation) (va_generation s) v) (\<lambda>t. ret (s\<lparr>va_generation := t\<rparr>)))"
  "vouch_answer_field s 5 = andthen (map_err Vo_Cbor rd_byte_string) (\<lambda>v. andthen (lift_sum (vouch_fixed MAC_TAG_BYTES Vf_Tag v)) (\<lambda>w.
     andthen (once (Vo_Duplicate Vf_Tag) (va_tag s) w) (\<lambda>t. ret (s\<lparr>va_tag := t\<rparr>))))"
  "5 < j \<Longrightarrow> vouch_answer_field s j = skipped Vo_Cbor s"
  by (simp_all add: vouch_answer_field_def)

primrec vouch_answer_known :: "vouch_answer \<Rightarrow> vouch_answer_slots" where
  "vouch_answer_known (Vouched e c g tag) =
     \<lparr>va_outcome = Some (vouch_outcome_num Vo_Vouched), va_epoch = Some (epoch_get e), va_client_id = Some (client_id_get c),
      va_generation = Some (generation_get g), va_tag = Some tag\<rparr>"
| "vouch_answer_known BadVerifier = vouch_answer_empty\<lparr>va_outcome := Some (vouch_outcome_num Vo_BadVerifier)\<rparr>"

lemma vouch_answer_reads:
  assumes "vouch_answer_valid a"
  shows "reads_pairs vouch_answer_field (vouch_answer_fields a) vouch_answer_empty (vouch_answer_known a)"
proof (cases a)
  case (Vouched e c g tag)
  have width: "vouch_fixed MAC_TAG_BYTES Vf_Tag tag = Inr tag"
    using assms Vouched by (simp add: vouch_fixed_def)
  have "reads_pairs vouch_answer_field (vouch_answer_fields a) vouch_answer_empty (vouch_answer_empty
    \<lparr>va_outcome := Some (vouch_outcome_num Vo_Vouched), va_epoch := Some (epoch_get e), va_client_id := Some (client_id_get c),
      va_generation := Some (generation_get g), va_tag := Some tag\<rparr>)"
    unfolding Vouched vouch_answer_fields.simps
    by (rule reads_Nil | rule reads_Cons | simp only: vouch_answer_field_simps | rule slot_rules
      | rule item_rules width | simp add: vouch_answer_empty_def; fail)+
  then show ?thesis
    by (simp add: vouch_answer_empty_def Vouched)
next
  case BadVerifier
  show ?thesis
    unfolding BadVerifier vouch_answer_fields.simps vouch_answer_known.simps
    by (rule reads_Nil | rule reads_Cons | simp only: vouch_answer_field_simps | rule slot_rules
      | rule item_rules | simp add: vouch_answer_empty_def; fail)+
qed

lemma vouch_judge_known: "vouch_answer_valid a \<Longrightarrow> \<exists>raw. va_outcome (vouch_answer_known a) = Some raw \<and>
    vouch_outcome_judge (vouch_answer_known a) raw = Inr a"
  by (cases a) (simp_all add: vouch_outcome_judge_def vouch_outcome_of_def registry_simps vouch_named_def vouch_answer_empty_def)

interpretation vouch_answer: body_codec vouch_answer_encode vouch_answer_decode vouch_answer_fields vouch_answer_valid 5
proof
  fix a and dst :: bytes
  assume "length (map_bytes (vouch_answer_fields a)) \<le> length dst" "length dst \<le> usize_max"
  then show "vouch_answer_encode a dst =
      (Inr (length (map_bytes (vouch_answer_fields a))), splice dst 0 (map_bytes (vouch_answer_fields a)))"
    by (rule vouch_answer_encodes)
next
  fix a fs
  assume a: "vouch_answer_valid a" and fs: "extends 5 INNER fs" "length (map_bytes (vouch_answer_fields a @ fs)) \<le> usize_max"
  show "vouch_answer_decode (map_bytes (vouch_answer_fields a @ fs)) = Inr a"
    unfolding vouch_answer_decode_def
    by (rule decodes_fields [OF vouch_answer_reads [OF a] _ _ _ fs(1) _ fs(2)])
      (use vouch_judge_known [OF a] in \<open>auto intro!: runs_andthen runs_finishing
        simp: vouch_answer_complete_def vouch_answer_field_simps\<close>)
qed

section \<open>Properties\<close>

lemma tag_verify_vouch: "crypto_ok C \<Longrightarrow> tag_verify (vouch_tag C key s) candidate = Inr () \<longleftrightarrow> candidate = vouch_tag C key s"
  using length_tag by (auto simp: tag_verify_def vouch_tag_def)

lemma vouch_verify_eq:
  assumes "crypto_ok C"
  shows "vouch_verify C issue verifier recorded claim = Inr s \<longleftrightarrow>
    recorded = Some (fingerprint_of C (vc_controller claim)) \<and> s = claimed issue claim \<and>
    (\<exists>key. static_vouch_key C verifier (vi_device_id issue) (vc_controller claim) = Inr key \<and>
      vc_tag claim = vouch_tag C key (claimed issue claim))"
proof -
  have same: "tag_verify (vouch_tag C key t) (vouch_tag C key t) = Inr ()" for key t
    by (simp add: tag_verify_vouch [OF assms])
  show ?thesis
    by (auto simp: vouch_verify_def vouches_for_def tag_verify_vouch [OF assms] same split: option.split sum.split)
qed

text \<open>C14. A vouch is believed for what it says and nothing else. The verifier accepts exactly the tag,
  under its key with the controller its manufacturing record prints, of the statement made of its own
  nonce, binding, device and epoch and the slot claimed; and what the controller answers for a
  request it was sent in that epoch is accepted, after the answer crossed the wire.\<close>

theorem vouch_believed_exactly:
  assumes "crypto_ok C"
    and "c_dh C v (c_public C r) = Some shared"
    and "vr_verifier q = c_public C v" and "vr_nonce q = vi_nonce issue" and "vr_binding q = vi_binding issue"
    and "epoch_ok (vi_epoch issue)" and "client_id_ok c" and "generation_ok g"
    and "64 \<le> length dst" and "length dst \<le> usize_max"
  shows "(\<exists>n out tag. vouch_answer_encode (vouch_answered C q (from_secret C r) (vi_device_id issue) (vi_epoch issue) (c, g)) dst =
        (Inr n, out) \<and> vouch_answer_decode (take n out) = Inr (Vouched (vi_epoch issue) c g tag) \<and>
      vouch_verify C issue (from_secret C v) (Some (fingerprint_of C (c_public C r)))
        \<lparr>vc_controller = c_public C r, vc_client_id = c, vc_generation = g, vc_tag = tag\<rparr> =
        Inr \<lparr>vs_device_id = vi_device_id issue, vs_epoch = vi_epoch issue, vs_client_id = c, vs_generation = g,
          vs_nonce = vi_nonce issue, vs_binding = vi_binding issue\<rparr>) \<and>
    (vouch_verify C issue' verifier recorded claim = Inr s \<longleftrightarrow>
      recorded = Some (fingerprint_of C (vc_controller claim)) \<and> s = claimed issue' claim \<and>
      (\<exists>key. static_vouch_key C verifier (vi_device_id issue') (vc_controller claim) = Inr key \<and>
        vc_tag claim = vouch_tag C key (claimed issue' claim)))"
proof (rule conjI)
  obtain key where key: "static_vouch_key C (from_secret C r) (vi_device_id issue) (c_public C v) = Inr key"
    "static_vouch_key C (from_secret C v) (vi_device_id issue) (c_public C r) = Inr key"
    using assms(2) static_keys_agree(2) [OF assms(1), of r "vi_device_id issue" v]
    by (simp add: static_vouch_key_def agree_def from_secret_def)
  let ?s = "\<lparr>vs_device_id = vi_device_id issue, vs_epoch = vi_epoch issue, vs_client_id = c, vs_generation = g,
          vs_nonce = vi_nonce issue, vs_binding = vi_binding issue\<rparr>"
  let ?a = "Vouched (vi_epoch issue) c g (vouch_tag C key ?s)"
  have answer: "vouch_answered C q (from_secret C r) (vi_device_id issue) (vi_epoch issue) (c, g) = ?a"
    using key(1) assms(3-5) by (simp add: vouch_answered_def)
  have valid: "vouch_answer_valid ?a"
    using assms(6-8) length_tag [OF assms(1)] by (simp add: vouch_tag_def)
  have "length (map_bytes (vouch_answer_fields ?a)) \<le> 64"
    using width_narrow(3) [of "epoch_get (vi_epoch issue)"] width_narrow(3) [of "client_id_get c"]
      width_narrow(3) [of "generation_get g"] length_tag [OF assms(1)]
    by (simp add: map_bytes_eq vouch_tag_def MAC_TAG_BYTES_def width_of_small)
  then obtain n out where "vouch_answer_encode ?a dst = (Inr n, out)" "vouch_answer_decode (take n out) = Inr ?a"
    using vouch_answer.round_trip [OF valid, of dst] assms(9,10) by auto
  moreover have "vouch_verify C issue (from_secret C v) (Some (fingerprint_of C (c_public C r)))
        \<lparr>vc_controller = c_public C r, vc_client_id = c, vc_generation = g, vc_tag = vouch_tag C key ?s\<rparr> = Inr ?s"
    using key(2) by (subst vouch_verify_eq [OF assms(1)]) (simp add: claimed_def)
  ultimately show "\<exists>n out tag. vouch_answer_encode (vouch_answered C q (from_secret C r) (vi_device_id issue) (vi_epoch issue) (c, g)) dst =
        (Inr n, out) \<and> vouch_answer_decode (take n out) = Inr (Vouched (vi_epoch issue) c g tag) \<and>
      vouch_verify C issue (from_secret C v) (Some (fingerprint_of C (c_public C r)))
        \<lparr>vc_controller = c_public C r, vc_client_id = c, vc_generation = g, vc_tag = tag\<rparr> = Inr ?s"
    unfolding answer by blast
qed (rule vouch_verify_eq [OF assms(1)])

lemma vouch_believed_exactly_witness:
  "let C = example_crypto; q = \<lparr>vr_verifier = c_public C [5], vr_nonce = replicate 16 1, vr_binding = replicate 32 2\<rparr>;
     issue = \<lparr>vi_device_id = replicate 16 7, vi_epoch = Epoch 3, vi_nonce = replicate 16 1, vi_binding = replicate 32 2\<rparr> in
   \<exists>n out tag. vouch_answer_encode (vouch_answered C q (from_secret C [3]) (replicate 16 7) (Epoch 3) (ClientId 1, Generation 2))
       (replicate 64 0) = (Inr n, out) \<and>
     vouch_answer_decode (take n out) = Inr (Vouched (Epoch 3) (ClientId 1) (Generation 2) tag) \<and>
     vouch_verify C issue (from_secret C [5]) (Some (fingerprint_of C (c_public C [3])))
        \<lparr>vc_controller = c_public C [3], vc_client_id = ClientId 1, vc_generation = Generation 2, vc_tag = tag\<rparr> =
        Inr \<lparr>vs_device_id = replicate 16 7, vs_epoch = Epoch 3, vs_client_id = ClientId 1, vs_generation = Generation 2,
          vs_nonce = replicate 16 1, vs_binding = replicate 32 2\<rparr>"
proof -
  let ?q = "\<lparr>vr_verifier = c_public example_crypto [5], vr_nonce = replicate 16 1, vr_binding = replicate 32 2\<rparr> :: vouch_request"
  let ?issue = "\<lparr>vi_device_id = replicate 16 7, vi_epoch = Epoch 3, vi_nonce = replicate 16 1, vi_binding = replicate 32 2\<rparr>"
  obtain shared where "c_dh example_crypto [5] (c_public example_crypto [3]) = Some shared"
    by (simp add: example_crypto_def)
  from conjunct1 [OF vouch_believed_exactly [OF example_crypto_ok this, of ?q ?issue "ClientId 1" "Generation 2" "replicate 64 0"]]
  show ?thesis
    unfolding Let_def by (simp add: epoch_ok_def client_id_ok_def generation_ok_def usize_max_def)
qed

end
