(* ===== verification/Kept.thy ===== *)
theory Kept
  imports Body
begin

text \<open>
  What a body decoder's slots keep through its loop: the elimination rules by which a value that
  was decoded is traced back to the item it was read from, so that a decoder is shown to let
  through nothing but what its encoder writes.
\<close>

lemma pairs_loop_keeps:
  assumes "pairs_loop err field n acc r = (Inr acc', r')" and "P acc"
    and "\<And>a k s a' s'. P a \<Longrightarrow> field a k s = (Inr a', s') \<Longrightarrow> P a'"
  shows "P acc'"
  using assms(1,2)
proof (induction n arbitrary: acc r)
  case (Suc n)
  then show ?case
    using assms(3) by (auto simp: pairs_loop_Suc elim!: andthen_InrE)
qed (auto simp: pairs_loop_def)

text \<open>A body that reads as \<open>x\<close>: its slots came out of the loop.\<close>

lemma body_InrE:
  assumes "decoding (andthen (map_fields err field none) (\<lambda>slots. andthen (finishing err) (\<lambda>_. complete slots))) bs = Inr x"
    and "P none" and "\<And>a k s a' s'. P a \<Longrightarrow> field a k s = (Inr a', s') \<Longrightarrow> P a'"
  obtains slots s t where "P slots" and "complete slots s = (Inr x, t)"
proof -
  obtain n s slots t u v where "pairs_loop err field n none s = (Inr slots, t)" "complete slots u = (Inr x, v)"
    using assms(1) by (auto simp: map_fields_def elim!: decoding_InrE andthen_InrE)
  then show ?thesis
    using that pairs_loop_keeps [of err field n none s slots t P] assms(2,3) by blast
qed

text \<open>A value kept in its slot, converted first.\<close>

lemma slot_InrE:
  assumes "andthen m (\<lambda>v. andthen (lift_sum (g v)) (\<lambda>w. andthen (once d slot w) (\<lambda>t. ret (upd t)))) s = (Inr a', s')"
  obtains v w s1 where "m s = (Inr v, s1)" and "g v = Inr w" and "a' = upd (Some w)"
  using assms by (auto simp: once_def elim!: andthen_InrE lift_sum_InrE split: if_splits)

lemma plain_slot_InrE:
  assumes "andthen m (\<lambda>v. andthen (once d slot v) (\<lambda>t. ret (upd t))) s = (Inr a', s')"
  obtains v s1 where "m s = (Inr v, s1)" and "a' = upd (Some v)"
  using assms by (auto simp: once_def elim!: andthen_InrE split: if_splits)

lemma skipped_InrE:
  assumes "skipped err a s = (Inr a', s')"
  obtains "a' = a"
  using assms by (auto simp: skipped_def elim!: andthen_InrE)

text \<open>What a text item is, once read.\<close>

lemma rd_text_InrD:
  assumes "rd_text r = (Inr v, r')"
  shows "utf8 v" and "length v \<le> MAX_STRING"
proof -
  obtain s where "head r = (Inr (HText v), s)"
    using assms by (auto simp: rd_text_def elim!: andthen_InrE split: head.splits)
  then obtain first t u where "rd_decode first t = (Inr (HText v), u)"
    by (auto simp: head_def head_with_def head_byte_def head_rest_def
        elim!: andthen_InrE ret_InrE split: option.splits prod.splits if_splits)
  then obtain len a b where "rd_take len a = (Inr v, b)" "len \<le> MAX_STRING" "utf8 v"
    by (auto simp: rd_decode_def Let_def simple_head_def elim!: andthen_InrE split: major.splits if_splits)
  then show "utf8 v" "length v \<le> MAX_STRING"
    by (auto simp: rd_take_def slice_def dest: checked_add_Some split: option.splits if_splits)
qed

end
