(* ===== verification/Array_Rules.thy ===== *)
theory Array_Rules
  imports Field_Rules Kept
begin

text \<open>
  The calculus of \<open>Field_Rules\<close> for optional fields and for what a body nests: an array written entry by entry and read by
  the loop over its declared length, and a map read where an item stands. An array of records is
  then verified by the rules of one record.
\<close>

section \<open>Writing\<close>

definition item_list_bytes :: "item list \<Rightarrow> bytes" where
  "item_list_bytes ts = concat (map enc_item ts)"

lemma item_list_bytes_simps [simp]:
  "item_list_bytes [] = []" "item_list_bytes (t # ts) = enc_item t @ item_list_bytes ts"
  by (simp_all add: item_list_bytes_def)

lemma array_bytes: "enc_item (IArray ts) = head_bytes Array (of_nat (length ts)) @ item_list_bytes ts"
  by (simp add: item_list_bytes_def)

definition level_room :: "nat \<Rightarrow> item list \<Rightarrow> bool" where
  "level_room room ts \<longleftrightarrow> (\<forall>t \<in> set ts. item_depth t \<le> room)"

lemma level_room_simps [simp]:
  "level_room room []" "level_room room (t # ts) \<longleftrightarrow> item_depth t \<le> room \<and> level_room room ts"
  by (auto simp: level_room_def)

lemma level_room_array: "level_room (item_depth (IArray ts) - 1) ts"
  using foldr_max_ge by (fastforce simp: level_room_def)

lemma array_depth: "level_room room ts \<Longrightarrow> item_depth (IArray ts) \<le> Suc room"
  by (induction ts) auto

text \<open>The entries of an array, each by its own rule.\<close>

lemma for_each_writes:
  assumes "\<And>x. x \<in> set xs \<Longrightarrow> writes_item (w x) (it x)"
    and "writing s (settle_levels ((NArray, length xs, None) # rest)) out dst"
    and "level_room room (map it xs)" and "Suc (length rest) + room \<le> NESTING"
    and "length out + length (item_list_bytes (map it xs)) \<le> length dst"
  shows "runs (for_each w xs) s (\<lambda>_ s'. writing s' (settle_levels rest) (out @ item_list_bytes (map it xs)) dst)"
  using assms(1-3,5)
proof (induction xs arbitrary: s out)
  case (Cons x xs)
  have first: "runs (w x) s (\<lambda>_ s'. writing s' (settle_levels ((NArray, length xs, None) # rest)) (out @ enc_item (it x)) dst)"
    using Cons.prems(1) [of x, unfolded writes_item_def, simplified, rule_format, of s "(NArray, Suc (length xs), None) # rest" out dst]
      Cons.prems(2-4) assms(4) by simp
  show ?case
    unfolding for_each.simps
  proof (rule runs_andthen, rule runs_weaken [OF first])
    fix u s'
    assume "writing s' (settle_levels ((NArray, length xs, None) # rest)) (out @ enc_item (it x)) dst"
    from Cons.IH [OF _ this] show "runs (for_each w xs) s' (\<lambda>_ s'. writing s' (settle_levels rest) (out @ item_list_bytes (map it (x # xs))) dst)"
      using Cons.prems by simp
  qed
qed simp

lemma writes_array [item_rules]:
  assumes "\<And>x. x \<in> set xs \<Longrightarrow> writes_item (w x) (it x)" and "n = length xs"
  shows "writes_item (andthen (map_err err (wr_array n)) (\<lambda>_. for_each w xs)) (IArray (map it xs))"
proof (rule writes_itemI)
  fix s L out dst
  assume s: "writing s L out dst" "\<not> levels_at_key L" "L = [] \<Longrightarrow> out = []"
    "length L + item_depth (IArray (map it xs)) \<le> NESTING"
    "length out + length (enc_item (IArray (map it xs))) \<le> length dst"
  have "length dst \<le> usize_max"
    using s(1) by (auto simp: writing_def writer_ok_def)
  then have small: "n \<le> usize_max"
    using enc_items_length [of "map it xs"] s(5) assms(2) by simp
  have room: "length L < NESTING" "Suc (length L) + (item_depth (IArray (map it xs)) - 1) \<le> NESTING"
    using s(4) by simp_all
  have len: "length (count_levels L) = length L"
    by (cases L) auto
  show "runs (andthen (map_err err (wr_array n)) (\<lambda>_. for_each w xs)) s
      (\<lambda>_ s'. writing s' (settle_levels (count_levels L)) (out @ enc_item (IArray (map it xs))) dst)"
  proof (rule runs_andthen, rule runs_map_err, rule write_array_rule [OF s(1-3) room(1) small])
    fix s'
    assume "writing s' (settle_levels ((NArray, n, None) # count_levels L)) (out @ head_bytes Array (of_nat n)) dst"
    then have "runs (for_each w xs) s' (\<lambda>_ s''. writing s'' (settle_levels (count_levels L))
        ((out @ head_bytes Array (of_nat n)) @ item_list_bytes (map it xs)) dst)"
      using assms room(2) s(5) len level_room_array [of "map it xs"]
      by (intro for_each_writes [where room = "item_depth (IArray (map it xs)) - 1"]) (simp_all add: array_bytes del: item_depth.simps enc_item.simps)
    then show "runs (for_each w xs) s' (\<lambda>_ s''. writing s'' (settle_levels (count_levels L)) (out @ enc_item (IArray (map it xs))) dst)"
      using assms(2) by (simp add: array_bytes del: enc_item.simps)
  qed (use s assms(2) in simp_all)
qed

section \<open>Reading\<close>

fun reads_items :: "('a \<Rightarrow> (reader, 'e, 'a) act) \<Rightarrow> item list \<Rightarrow> 'a \<Rightarrow> 'a \<Rightarrow> bool" where
  "reads_items body [] acc acc' \<longleftrightarrow> acc' = acc"
| "reads_items body (t # ts) acc acc' \<longleftrightarrow> (\<exists>next. reads_item (body acc) t next \<and> reads_items body ts next acc')"

lemma repeat_reads:
  assumes "reads_items body ts acc acc'" and "reading r (settle_levels ((NArray, length ts, None) # rest)) (item_list_bytes ts @ xs)"
    and "level_room room ts" and "Suc (length rest) + room \<le> NESTING"
  shows "runs (repeat_act (length ts) body acc) r (\<lambda>x r'. x = acc' \<and> reading r' (settle_levels rest) xs)"
  using assms(1-3)
proof (induction ts arbitrary: acc r)
  case (Cons t ts)
  obtain next1 where first: "reads_item (body acc) t next1" and rest: "reads_items body ts next1 acc'"
    using Cons.prems(1) by auto
  have "runs (body acc) r (\<lambda>x r'. x = next1 \<and> reading r' (settle_levels ((NArray, length ts, None) # rest)) (item_list_bytes ts @ xs))"
    using first [unfolded reads_item_def, rule_format, of r "(NArray, Suc (length ts), None) # rest" "item_list_bytes ts @ xs"]
      Cons.prems(2,3) assms(4) by simp
  then show ?case
    unfolding list.size(4) add_Suc_right add_0_right repeat_act.simps
  proof (intro runs_andthen, elim runs_weaken, goal_cases)
    case (1 x r')
    then show ?case
      using Cons.IH [OF rest, of r'] Cons.prems(3) by simp
  qed
qed simp

lemma reads_array:
  assumes "reads_items body ts acc acc'" and "f (length ts) = repeat_act (length ts) body acc"
  shows "reads_item (andthen (map_err err rd_array) f) (IArray ts) acc'"
proof (rule reads_itemI)
  fix r L xs
  assume r: "reading r L (enc_item (IArray ts) @ xs)" "\<not> levels_at_key L" "L \<noteq> []" "length L + item_depth (IArray ts) \<le> NESTING"
  have len: "length (count_levels L) = length L"
    by (cases L) auto
  show "runs (andthen (map_err err rd_array) f) r (\<lambda>x r'. x = acc' \<and> reading r' (settle_levels (count_levels L)) xs)"
  proof (rule runs_andthen, rule runs_map_err, rule read_array_rule)
    show "reading r L (head_bytes Array (of_nat (length ts)) @ item_list_bytes ts @ xs)"
      using r(1) by (simp add: array_bytes del: enc_item.simps)
    show "length ts \<le> length (item_list_bytes ts @ xs)"
      using enc_items_length [of ts] by (simp add: item_list_bytes_def)
    fix r'
    assume "reading r' (settle_levels ((NArray, length ts, None) # count_levels L)) (item_list_bytes ts @ xs)"
    then have "runs (repeat_act (length ts) body acc) r' (\<lambda>x r'. x = acc' \<and> reading r' (settle_levels (count_levels L)) xs)"
      using assms(1) r(4) len level_room_array [of ts] by (intro repeat_reads [where room = "item_depth (IArray ts) - 1"]) simp_all
    then show "runs (f (length ts)) r' (\<lambda>x r'. x = acc' \<and> reading r' (settle_levels (count_levels L)) xs)"
      using assms(2) by simp
  qed (use r in simp_all)
qed

text \<open>A list built by pushing each entry read.\<close>

lemma reads_items_map:
  assumes "\<And>i acc. i < length xs \<Longrightarrow> acc = g (take i xs) \<Longrightarrow> reads_item (body acc) (it (xs ! i)) (g (take (Suc i) xs))"
  shows "reads_items body (map it xs) (g []) (g xs)"
proof -
  have "reads_items body (map it (drop i xs)) (g (take i xs)) (g xs)" if "i \<le> length xs" for i
    using that
  proof (induction "length xs - i" arbitrary: i)
    case (Suc n)
    then have i: "i < length xs"
      by simp
    have "reads_items body (map it (drop (Suc i) xs)) (g (take (Suc i) xs)) (g xs)"
      using Suc by (intro Suc.hyps(1)) simp_all
    then show ?case
      using assms [OF i] i by (auto simp: Cons_nth_drop_Suc [symmetric])
  qed simp
  from this [of 0] show ?thesis
    by simp
qed

text \<open>A map where an item stands.\<close>

lemma andthen_unit_ret: "andthen m ret = m"
  by (auto simp: andthen_def fun_eq_iff split: prod.splits sum.splits)

lemma reads_map_with:
  assumes "reads_pairs field fs acc acc'" and "ascending None fs" and "f (length fs) = andthen (pairs_loop err field (length fs) acc) (\<lambda>s. ret (g s))"
  shows "reads_item (andthen (map_err err rd_map) f) (map_item fs) (g acc')"
proof (rule reads_itemI)
  fix r L xs
  assume r: "reading r L (enc_item (map_item fs) @ xs)" "\<not> levels_at_key L" "L \<noteq> []" "length L + item_depth (map_item fs) \<le> NESTING"
  have len: "length (count_levels L) = length L"
    by (cases L) auto
  show "runs (andthen (map_err err rd_map) f) r (\<lambda>x r'. x = g acc' \<and> reading r' (settle_levels (count_levels L)) xs)"
  proof (rule runs_andthen, rule runs_map_err, rule read_map_rule)
    show "reading r L (head_bytes Map (of_nat (length fs)) @ field_bytes fs @ xs)"
      using r(1) map_bytes_eq [of fs] by (simp add: map_bytes_def)
    show "length L < NESTING"
      using r(4) depth_map_item_pos [of fs] by simp
    show "2 * length fs \<le> length (field_bytes fs @ xs)"
      using field_bytes_length [of fs] by simp
    fix r'
    assume "reading r' (settle_levels ((NMap, 2 * length fs, None) # count_levels L)) (field_bytes fs @ xs)"
    then have "runs (pairs_loop err field (length fs + 0) acc) r' (\<lambda>x r'. x = acc' \<and> reading r' (settle_levels (count_levels L)) xs)"
      using assms(1,2) r(4) len depth_map_item_ge [of fs] depth_map_item_pos [of fs]
      by (intro pairs_loop_fields [where acc' = acc' and l = None and rest = "count_levels L" and xs = xs and room = "item_depth (map_item fs) - 1"])
        simp_all
    then show "runs (f (length fs)) r' (\<lambda>x r'. x = g acc' \<and> reading r' (settle_levels (count_levels L)) xs)"
      unfolding assms(3) by (auto intro!: runs_andthen elim: runs_weaken)
  qed (use r in simp_all)
qed

lemma reads_map:
  assumes "reads_pairs field fs acc acc'" and "ascending None fs"
  shows "reads_item (map_fields err field acc) (map_item fs) acc'"
  unfolding map_fields_def by (rule reads_map_with [OF assms, where g = "\<lambda>s. s"]) (simp add: andthen_unit_ret)

text \<open>An encoder whose steps carry the body's own errors.\<close>

lemma encodes_item:
  assumes "writes_item m (map_item fs)" and "shallow 7 fs"
    and "length (map_bytes fs) \<le> length dst" and "length dst \<le> usize_max"
  shows "encoding err m dst = (Inr (length (map_bytes fs)), splice dst 0 (map_bytes fs))"
proof (rule encoding_eq [OF assms(4)])
  have w: "writing (writer_over dst) [] [] dst"
    by (rule writing_over [OF assms(4)])
  from assms(1) [unfolded writes_item_def, rule_format, OF w] depth_map_item [OF assms(2)] assms(3)
  show "runs m (writer_over dst) (\<lambda>_ w. writing w [] (map_bytes fs) dst)"
    by (simp add: map_bytes_def NESTING_val)
qed

text \<open>Keys after its own only make a body longer.\<close>

lemma width_of_mono: "a \<le> b \<Longrightarrow> width_bytes (width_of a) \<le> width_bytes (width_of b)"
  by (auto simp: width_of_def)

lemma map_bytes_prefix:
  assumes "length (fs @ gs) < 2 ^ 64"
  shows "length (map_bytes fs) \<le> length (map_bytes (fs @ gs))"
proof -
  have "(of_nat (length fs) :: u64) \<le> of_nat (length (fs @ gs))"
    using assms by (simp add: word_le_nat_alt unat_of_nat take_bit_nat_eq_self del: of_nat_add)
  then show ?thesis
    using width_of_mono [of "of_nat (length fs)" "of_nat (length (fs @ gs))"] by (simp add: map_bytes_eq del: of_nat_add)
qed

text \<open>One more step of a loop that has come this far.\<close>

lemma for_each_snoc:
  assumes "for_each w xs s = (Inr (), t)"
  shows "for_each w (xs @ [x]) s = w x t"
  using assms by (simp add: for_each_append andthen_unit_ret)

section \<open>Optional fields and registry numbers\<close>

text \<open>\<open>T::try_from(number).map_err(|()| E(number))?\<close>\<close>

definition allocated :: "('n \<Rightarrow> 'a option) \<Rightarrow> ('n \<Rightarrow> 'e) \<Rightarrow> 'n \<Rightarrow> 'e + 'a" where
  "allocated of_num unknown number = (case of_num number of Some v \<Rightarrow> Inr v | None \<Rightarrow> Inl (unknown number))"

lemma allocatedI: "of_num n = Some v \<Longrightarrow> allocated of_num unknown n = Inr v"
  by (simp add: allocated_def)

lemma allocated_InrD: "allocated of_num unknown n = Inr v \<Longrightarrow> of_num n = Some v"
  by (simp add: allocated_def split: option.splits)

lemma reads_optional:
  assumes "\<And>v. o' = Some v \<Longrightarrow> reads_item (field acc k) (it v) (upd (Some v))" and "upd None = acc"
  shows "reads_pairs field (case o' of Some v \<Rightarrow> [(k, it v)] | None \<Rightarrow> []) acc (upd o')"
  using assms by (cases o') auto

lemma reads_eq: "reads_pairs field fs acc b \<Longrightarrow> b = c \<Longrightarrow> reads_pairs field fs acc c"
  by simp

lemma reads_if:
  assumes "b \<Longrightarrow> reads_item (field acc k) t acc'" and "\<not> b \<Longrightarrow> acc = acc'"
  shows "reads_pairs field (if b then [(k, t)] else []) acc acc'"
  using assms by auto

lemma writes_if [item_rules]:
  "(b \<Longrightarrow> writes_pairs m fs) \<Longrightarrow> writes_pairs (if b then m else ret ()) (if b then fs else [])"
  by (auto intro: writes_none)

text \<open>Signed numbers.\<close>

definition i32_item :: "int \<Rightarrow> item" where
  "i32_item v = (if v < 0 then INeg (of_nat (nat (- v) - 1)) else IUint (of_nat (nat v)))"

lemma enc_i32_item: "enc_item (i32_item v) = i32_bytes v"
  by (simp add: i32_item_def i32_bytes_def)

lemma i32_item_simps [simp]: "item_depth (i32_item v) = 0" "wf_item (i32_item v)"
  by (simp_all add: i32_item_def)

lemma writes_i32 [item_rules]: "fits_i32 v \<Longrightarrow> writes_item (wr_i32 v) (i32_item v)"
  by (rule writes_itemI, rule write_i32_rule) (auto simp: enc_i32_item)

lemma reads_i32 [item_rules]: "fits_i32 v \<Longrightarrow> reads_item rd_i32 (i32_item v) v"
  by (rule reads_itemI, rule read_i32_rule) (auto simp: enc_i32_item)

section \<open>What a decoder makes of a map, refused or not\<close>

text \<open>The loop leaves the slots filled and the reader at the end; what becomes of the body is then up to
  what follows the loop.\<close>

lemma decodes_slots:
  assumes "reads_pairs field fs acc acc'" and "ascending None fs" and "shallow 7 fs" and "known k fs"
    and "extends k INNER gs" and "\<And>j. k < j \<Longrightarrow> field acc' j = skipped err acc'"
    and "length (map_bytes (fs @ gs)) \<le> usize_max"
  obtains r where "reading r [] []" and "\<And>f. decoding (andthen (map_fields err field acc) f) (map_bytes (fs @ gs)) = fst (f acc' r)"
proof -
  have "runs (map_fields err field acc) (reader_over (map_bytes (fs @ gs))) (\<lambda>x r. x = acc' \<and> reading r [] [])"
  proof (rule map_fields_rule [OF reading_over [OF assms(7)]])
    fix r
    assume "reading r (settle_levels ((NMap, 2 * length (fs @ gs), None) # count_levels [])) (field_bytes (fs @ gs) @ [])"
    moreover have "reads_pairs field (fs @ gs) acc acc'"
      using assms(1) extends_reads [of k _ gs field acc' err, OF assms(5,6)] by (rule reads_pairs_append)
    ultimately have "runs (pairs_loop err field (length (fs @ gs) + 0) acc) r (\<lambda>x r. x = acc' \<and> reading r [] [])"
      using assms(3) extends_shallow [OF assms(5)] ascending_extends [OF assms(2,4,5)]
      by (intro pairs_loop_fields [where acc' = acc' and room = 7 and l = None and rest = "[]" and xs = "[]"])
        (simp_all add: INNER_val NESTING_val)
    then show "runs (pairs_loop err field (length (fs @ gs)) acc) r (\<lambda>x r. x = acc' \<and> reading r [] [])"
      by simp
  qed (simp_all add: NESTING_val)
  then obtain r where "map_fields err field acc (reader_over (map_bytes (fs @ gs))) = (Inr acc', r)" "reading r [] []"
    by (auto simp: runs_def)
  then show ?thesis
    using that by (simp add: decoding_def)
qed

lemma finishing_at_end: "reading r [] [] \<Longrightarrow> finishing err r = (Inr (), r)"
  by (simp add: finishing_def read_finish)

end
