(* ===== verification/Codec_Rules.thy ===== *)
theory Codec_Rules
  imports Array_Rules Registry_More Report Event
begin

text \<open>What the item rules ask of the values the message bodies share.\<close>

lemma text_okD: "text_ok v \<Longrightarrow> length v \<le> MAX_STRING" "text_ok v \<Longrightarrow> utf8 v"
  by (simp_all add: text_ok_def)

lemma rd_text_ok: "rd_text r = (Inr v, r') \<Longrightarrow> text_ok v"
  by (simp add: text_ok_def rd_text_InrD)

text \<open>A map carried as its own bytes.\<close>

lemma map_of_own_bytes:
  assumes "v = map_bytes gs" and "extends (- 1) room gs"
  shows "wf_item (map_item gs)" and "item_depth (map_item gs) \<le> Suc room" and "enc_item (map_item gs) = v"
  using extends_wf [OF assms(2)] assms(1) by (simp_all add: map_bytes_def)

lemma writes_own_bytes: "wf_item t \<Longrightarrow> enc_item t = v \<Longrightarrow> writes_item (wr_raw v) t"
  using writes_raw by blast

lemma reads_own_bytes: "wf_item t \<Longrightarrow> enc_item t = v \<Longrightarrow> reads_item rd_raw t v"
  using reads_raw by blast

end
