(* ===== verification/Refusal_Rules.thy ===== *)
theory Refusal_Rules
  imports Codec_Rules Kept
begin

text \<open>
  What the bodies share whose refusals matter as much as what they accept: a decoder that reads its
  whole structure and then refuses it, and the errors an action can end in.
\<close>

text \<open>The loop reads; what stands after it decides.\<close>

lemma decodes_fields_sum:
  assumes "reads_pairs field fs acc acc'" and "ascending None fs" and "shallow 7 fs" and "known k fs"
    and "extends k INNER gs" and "\<And>j. k < j \<Longrightarrow> field acc' j = skipped err acc'"
    and "length (map_bytes (fs @ gs)) \<le> usize_max"
    and "\<And>r. reading r [] [] \<Longrightarrow> fst (f acc' r) = v"
  shows "decoding (andthen (map_fields err field acc) f) (map_bytes (fs @ gs)) = v"
proof -
  have "decoding (andthen (map_fields err field acc) (\<lambda>s r. (Inr (fst (f s r)), r))) (map_bytes (fs @ gs)) = Inr v"
    by (rule decodes_fields [OF assms(1-5) _ assms(7)]) (use assms(6,8) in \<open>auto simp: runs_def\<close>)
  then show ?thesis
    by (auto simp: decoding_def andthen_def split: prod.splits sum.splits)
qed

lemma finishing_done: "reading r [] [] \<Longrightarrow> fst (andthen (finishing err) (\<lambda>_. m) r) = fst (m r)"
  using runs_finishing [of r "\<lambda>_ t. t = r" err] by (auto simp: runs_def andthen_def finishing_def split: prod.splits)

text \<open>An action that fails only in certain ways.\<close>

definition fails_only :: "('e \<Rightarrow> bool) \<Rightarrow> ('s, 'e, 'a) act \<Rightarrow> bool" where
  "fails_only P m \<longleftrightarrow> (\<forall>s e t. m s = (Inl e, t) \<longrightarrow> P e)"

named_theorems fails_rules

lemma fails_ret [fails_rules]: "fails_only P (ret x)"
  by (simp add: fails_only_def)

lemma fails_fail [fails_rules]: "P e \<Longrightarrow> fails_only P (fail e)"
  by (simp add: fails_only_def)

lemma fails_andthen [fails_rules]: "fails_only P m \<Longrightarrow> (\<And>x. fails_only P (f x)) \<Longrightarrow> fails_only P (andthen m f)"
  by (fastforce simp: fails_only_def andthen_def split: prod.splits sum.splits)

lemma fails_map_err [fails_rules]: "(\<And>e. P (g e)) \<Longrightarrow> fails_only P (map_err g m)"
  by (auto simp: fails_only_def map_err_def split: prod.splits sum.splits)

lemma fails_skipped [fails_rules]: "(\<And>e. P (err e)) \<Longrightarrow> fails_only P (skipped err acc)"
  unfolding skipped_def by (intro fails_rules)

lemma fails_finishing [fails_rules]: "(\<And>e. P (err e)) \<Longrightarrow> fails_only P (finishing err)"
  by (auto simp: fails_only_def finishing_def map_sum_def split: sum.splits)

lemma fails_once [fails_rules]: "P d \<Longrightarrow> fails_only P (once d slot v)"
  by (simp add: fails_only_def once_def)

lemma fails_ok_or [fails_rules]: "P e \<Longrightarrow> fails_only P (ok_or e v)"
  by (cases v) (simp_all add: fails_only_def)

lemma fails_lift_sum [fails_rules]: "(\<And>e. v = Inl e \<Longrightarrow> P e) \<Longrightarrow> fails_only P (lift_sum v)"
  by (cases v) (simp_all add: fails_only_def)

lemma fails_pairs_loop: "(\<And>acc k. fails_only P (field acc k)) \<Longrightarrow> (\<And>e. P (err e)) \<Longrightarrow> fails_only P (pairs_loop err field n acc)"
proof (induction n arbitrary: acc)
  case (Suc n)
  then show ?case
    unfolding pairs_loop_Suc by (intro fails_rules) auto
qed (simp add: pairs_loop_def fails_only_def)

lemma fails_map_fields [fails_rules]:
  "(\<And>acc k. fails_only P (field acc k)) \<Longrightarrow> (\<And>e. P (err e)) \<Longrightarrow> fails_only P (map_fields err field acc)"
  unfolding map_fields_def by (intro fails_rules fails_pairs_loop)

text \<open>An error that is not one of the reading's came after the whole body had been read.\<close>

lemma refused_after_reading:
  assumes "decoding (andthen (map_fields err field none) (\<lambda>slots. andthen (finishing err) (\<lambda>_. complete slots))) bs = Inl e"
    and "\<And>acc k. fails_only P (field acc k)" and "\<And>c. P (err c)" and "\<not> P e"
  obtains slots r where "decoding (andthen (map_fields err field none) (\<lambda>slots. andthen (finishing err) (\<lambda>_. ret slots))) bs = Inr slots"
    and "fst (complete slots r) = Inl e"
proof -
  have loop: "fails_only P (map_fields err field none)" "fails_only P (finishing err)"
    using assms(2,3) by (intro fails_rules; simp)+
  then show ?thesis
    using that assms(1,4) unfolding decoding_def andthen_def fails_only_def
    by (fastforce split: prod.splits sum.splits)
qed

end
