(* ===== verification/Membership.thy ===== *)
theory Membership
  imports Invite Report Refusal_Rules
begin

text \<open>
  \<open>crates/km43/src/membership.rs\<close>: \<open>Invite 0x15\<close>, \<open>Approve 0x16\<close> and \<open>Remove 0x17\<close> and their answers,
  the signed writes that change who is enrolled. The cryptography of an invite is in \<open>Invite\<close>.
\<close>

definition MAX_INVITE_OPERATION_BYTES :: nat where "MAX_INVITE_OPERATION_BYTES = 110"
definition MAX_INVITE_ACK_BYTES :: nat where "MAX_INVITE_ACK_BYTES = 21"
definition MAX_APPROVE_OPERATION_BYTES :: nat where "MAX_APPROVE_OPERATION_BYTES = 57"
definition MAX_APPROVE_ACK_BYTES :: nat where "MAX_APPROVE_ACK_BYTES = 33"
definition MAX_REMOVE_OPERATION_BYTES :: nat where "MAX_REMOVE_OPERATION_BYTES = 13"
definition MAX_REMOVE_ACK_BYTES :: nat where "MAX_REMOVE_ACK_BYTES = 3"

lemmas membership_bounds = MAX_INVITE_OPERATION_BYTES_def MAX_INVITE_ACK_BYTES_def MAX_APPROVE_OPERATION_BYTES_def
  MAX_APPROVE_ACK_BYTES_def MAX_REMOVE_OPERATION_BYTES_def MAX_REMOVE_ACK_BYTES_def

datatype invite_key = Ik_Role | Ik_Invitee | Ik_Commitment | Ik_ClientKind | Ik_Label

definition INVITE_KEY_COUNT :: nat where "INVITE_KEY_COUNT = 5"

definition invite_key_of :: "int \<Rightarrow> invite_key option" where
  "invite_key_of number =
     (if number = 1 then Some Ik_Role
      else if number = 2 then Some Ik_Invitee
      else if number = 3 then Some Ik_Commitment
      else if number = 4 then Some Ik_ClientKind
      else if number = 5 then Some Ik_Label
      else None)"

primrec invite_key_number :: "invite_key \<Rightarrow> int" where
  "invite_key_number Ik_Role = 1"
| "invite_key_number Ik_Invitee = 2"
| "invite_key_number Ik_Commitment = 3"
| "invite_key_number Ik_ClientKind = 4"
| "invite_key_number Ik_Label = 5"

datatype invite_ack_key = Iak_Outcome | Iak_Nonce

definition invite_ack_key_of :: "int \<Rightarrow> invite_ack_key option" where
  "invite_ack_key_of number =
     (if number = 1 then Some Iak_Outcome
      else if number = 2 then Some Iak_Nonce
      else None)"

primrec invite_ack_key_number :: "invite_ack_key \<Rightarrow> int" where
  "invite_ack_key_number Iak_Outcome = 1"
| "invite_ack_key_number Iak_Nonce = 2"

datatype approve_key = Apk_Nonce | Apk_Decision | Apk_Reveal | Apk_Proof

definition approve_key_of :: "int \<Rightarrow> approve_key option" where
  "approve_key_of number =
     (if number = 1 then Some Apk_Nonce
      else if number = 2 then Some Apk_Decision
      else if number = 3 then Some Apk_Reveal
      else if number = 4 then Some Apk_Proof
      else None)"

primrec approve_key_number :: "approve_key \<Rightarrow> int" where
  "approve_key_number Apk_Nonce = 1"
| "approve_key_number Apk_Decision = 2"
| "approve_key_number Apk_Reveal = 3"
| "approve_key_number Apk_Proof = 4"

datatype approve_ack_key = Aak_Outcome | Aak_ClientId | Aak_Generation | Aak_Confirm

definition approve_ack_key_of :: "int \<Rightarrow> approve_ack_key option" where
  "approve_ack_key_of number =
     (if number = 1 then Some Aak_Outcome
      else if number = 2 then Some Aak_ClientId
      else if number = 3 then Some Aak_Generation
      else if number = 4 then Some Aak_Confirm
      else None)"

primrec approve_ack_key_number :: "approve_ack_key \<Rightarrow> int" where
  "approve_ack_key_number Aak_Outcome = 1"
| "approve_ack_key_number Aak_ClientId = 2"
| "approve_ack_key_number Aak_Generation = 3"
| "approve_ack_key_number Aak_Confirm = 4"

datatype remove_key = Rmk_ClientId | Rmk_Generation

definition REMOVE_KEY_COUNT :: nat where "REMOVE_KEY_COUNT = 2"

definition remove_key_of :: "int \<Rightarrow> remove_key option" where
  "remove_key_of number =
     (if number = 1 then Some Rmk_ClientId
      else if number = 2 then Some Rmk_Generation
      else None)"

primrec remove_key_number :: "remove_key \<Rightarrow> int" where
  "remove_key_number Rmk_ClientId = 1"
| "remove_key_number Rmk_Generation = 2"

datatype membership_key =
    MkInvite invite_key
  | MkInviteAck invite_ack_key
  | MkApprove approve_key
  | MkApproveAck approve_ack_key
  | MkRemove remove_key
  | MkRemoveAckOutcome

datatype membership_error =
    Me_Missing membership_key
  | Me_Duplicate membership_key
  | Me_Unexpected membership_key
  | Me_WrongLength membership_key nat
  | Me_Zero membership_key
  | Me_UnknownRole u8
  | Me_UnknownClientKind u8
  | Me_UnknownDecision u8
  | Me_UnknownOutcome u8
  | Me_EmptyLabel
  | Me_LabelTooLong nat
  | Me_ProposedWithoutNonce
  | Me_EnrolledWithoutSlot
  | Me_Cbor cbor_error

definition membership_refusal :: "membership_error \<Rightarrow> refusal" where
  "membership_refusal why = RefuseClient Ec_MalformedFrame"

definition label_fits :: "bytes \<Rightarrow> membership_error + bytes" where
  "label_fits label =
     (if length label = 0 then Inl Me_EmptyLabel
      else if MAX_LABEL < length label then Inl (Me_LabelTooLong (length label))
      else Inr label)"

definition fixed :: "nat \<Rightarrow> membership_key \<Rightarrow> bytes \<Rightarrow> membership_error + bytes" where
  "fixed n key v = (if length v = n then Inr v else Inl (Me_WrongLength key (length v)))"

definition known_as :: "(u8 \<Rightarrow> 'a option) \<Rightarrow> (u8 \<Rightarrow> membership_error) \<Rightarrow> u8 \<Rightarrow> membership_error + 'a" where
  "known_as of_num unknown number = (case of_num number of Some v \<Rightarrow> Inr v | None \<Rightarrow> Inl (unknown number))"

definition naming :: "(u32 \<Rightarrow> 'a option) \<Rightarrow> membership_key \<Rightarrow> u32 \<Rightarrow> membership_error + 'a" where
  "naming new key v = (case new v of Some x \<Rightarrow> Inr x | None \<Rightarrow> Inl (Me_Zero key))"

section \<open>\<open>Invite 0x15\<close>\<close>

record invite_operation =
  io_role :: role
  io_invitee :: public_key
  io_commitment :: bytes
  io_client_kind :: client_kind
  io_label :: bytes

definition invite_op_pairs :: "invite_operation \<Rightarrow> (writer, cbor_error, unit) act" where
  "invite_op_pairs op =
     andthen (wr_key (invite_key_number Ik_Role)) (\<lambda>_. andthen (wr_u64 (ucast (role_num (io_role op)))) (\<lambda>_.
     andthen (wr_key (invite_key_number Ik_Invitee)) (\<lambda>_. andthen (wr_byte_string (io_invitee op)) (\<lambda>_.
     andthen (wr_key (invite_key_number Ik_Commitment)) (\<lambda>_. andthen (wr_byte_string (io_commitment op)) (\<lambda>_.
     andthen (wr_key (invite_key_number Ik_ClientKind)) (\<lambda>_. andthen (wr_u64 (ucast (client_kind_num (io_client_kind op)))) (\<lambda>_.
     andthen (wr_key (invite_key_number Ik_Label)) (\<lambda>_. wr_text (io_label op))))))))))"

definition invite_op_encode :: "invite_operation \<Rightarrow> bytes \<Rightarrow> (membership_error + nat) \<times> bytes" where
  "invite_op_encode op dst =
     (case label_fits (io_label op) of
        Inl why \<Rightarrow> (Inl why, dst)
      | Inr _ \<Rightarrow> encoding Me_Cbor (map_err Me_Cbor (andthen (wr_map INVITE_KEY_COUNT) (\<lambda>_. invite_op_pairs op))) dst)"

record invite_op_slots =
  iq_role :: "role option"
  iq_invitee :: "bytes option"
  iq_commitment :: "bytes option"
  iq_kind :: "client_kind option"
  iq_label :: "bytes option"

definition invite_op_empty :: invite_op_slots where
  "invite_op_empty = \<lparr>iq_role = None, iq_invitee = None, iq_commitment = None, iq_kind = None, iq_label = None\<rparr>"

primrec invite_op_fill :: "invite_key \<Rightarrow> invite_op_slots \<Rightarrow> (reader, membership_error, invite_op_slots) act" where
  "invite_op_fill Ik_Role slots =
     andthen (map_err Me_Cbor rd_u8) (\<lambda>v. andthen (lift_sum (known_as role_of Me_UnknownRole v)) (\<lambda>w.
     andthen (once (Me_Duplicate (MkInvite Ik_Role)) (iq_role slots) w) (\<lambda>t. ret (slots\<lparr>iq_role := t\<rparr>))))"
| "invite_op_fill Ik_Invitee slots =
     andthen (map_err Me_Cbor rd_byte_string) (\<lambda>v. andthen (lift_sum (fixed KEY_BYTES (MkInvite Ik_Invitee) v)) (\<lambda>w.
     andthen (once (Me_Duplicate (MkInvite Ik_Invitee)) (iq_invitee slots) w) (\<lambda>t. ret (slots\<lparr>iq_invitee := t\<rparr>))))"
| "invite_op_fill Ik_Commitment slots =
     andthen (map_err Me_Cbor rd_byte_string) (\<lambda>v. andthen (lift_sum (fixed COMMITMENT_BYTES (MkInvite Ik_Commitment) v)) (\<lambda>w.
     andthen (once (Me_Duplicate (MkInvite Ik_Commitment)) (iq_commitment slots) w) (\<lambda>t. ret (slots\<lparr>iq_commitment := t\<rparr>))))"
| "invite_op_fill Ik_ClientKind slots =
     andthen (map_err Me_Cbor rd_u8) (\<lambda>v. andthen (lift_sum (known_as client_kind_of Me_UnknownClientKind v)) (\<lambda>w.
     andthen (once (Me_Duplicate (MkInvite Ik_ClientKind)) (iq_kind slots) w) (\<lambda>t. ret (slots\<lparr>iq_kind := t\<rparr>))))"
| "invite_op_fill Ik_Label slots =
     andthen (map_err Me_Cbor rd_text) (\<lambda>v. andthen (lift_sum (label_fits v)) (\<lambda>w.
     andthen (once (Me_Duplicate (MkInvite Ik_Label)) (iq_label slots) w) (\<lambda>t. ret (slots\<lparr>iq_label := t\<rparr>))))"

definition invite_op_field :: "invite_op_slots \<Rightarrow> int \<Rightarrow> (reader, membership_error, invite_op_slots) act" where
  "invite_op_field slots number =
     (case invite_key_of number of Some key \<Rightarrow> invite_op_fill key slots | None \<Rightarrow> skipped Me_Cbor slots)"

definition invite_op_complete :: "invite_op_slots \<Rightarrow> (reader, membership_error, invite_operation) act" where
  "invite_op_complete slots =
     andthen (ok_or (Me_Missing (MkInvite Ik_Role)) (iq_role slots)) (\<lambda>role.
     andthen (ok_or (Me_Missing (MkInvite Ik_Invitee)) (iq_invitee slots)) (\<lambda>invitee.
     andthen (ok_or (Me_Missing (MkInvite Ik_Commitment)) (iq_commitment slots)) (\<lambda>commitment.
     andthen (ok_or (Me_Missing (MkInvite Ik_ClientKind)) (iq_kind slots)) (\<lambda>kind.
     andthen (ok_or (Me_Missing (MkInvite Ik_Label)) (iq_label slots)) (\<lambda>label.
     ret \<lparr>io_role = role, io_invitee = invitee, io_commitment = commitment, io_client_kind = kind, io_label = label\<rparr>)))))"

definition invite_op_decode :: "bytes \<Rightarrow> membership_error + invite_operation" where
  "invite_op_decode = decoding (
     andthen (map_fields Me_Cbor invite_op_field invite_op_empty) (\<lambda>slots.
     andthen (finishing Me_Cbor) (\<lambda>_. invite_op_complete slots)))"

section \<open>\<open>InviteAck 0x95\<close>\<close>

record invite_ack =
  ik_outcome :: invite_outcome
  ik_nonce :: "bytes option"

definition invite_proposed :: "bytes \<Rightarrow> invite_ack" where
  "invite_proposed nonce = \<lparr>ik_outcome = Io_Proposed, ik_nonce = Some nonce\<rparr>"

definition invite_refused :: "invite_outcome \<Rightarrow> membership_error + invite_ack" where
  "invite_refused outcome =
     (if outcome = Io_Proposed then Inl Me_ProposedWithoutNonce else Inr \<lparr>ik_outcome = outcome, ik_nonce = None\<rparr>)"

definition invite_ack_pairs :: "invite_ack \<Rightarrow> (writer, cbor_error, unit) act" where
  "invite_ack_pairs a =
     andthen (wr_key (invite_ack_key_number Iak_Outcome)) (\<lambda>_. andthen (wr_u64 (ucast (invite_outcome_num (ik_outcome a)))) (\<lambda>_.
     case ik_nonce a of
       Some nonce \<Rightarrow> andthen (wr_key (invite_ack_key_number Iak_Nonce)) (\<lambda>_. wr_byte_string nonce)
     | None \<Rightarrow> ret ()))"

definition invite_ack_encode :: "invite_ack \<Rightarrow> bytes \<Rightarrow> (membership_error + nat) \<times> bytes" where
  "invite_ack_encode a = encoding Me_Cbor (map_err Me_Cbor (
     andthen (wr_map (if ik_nonce a \<noteq> None then 2 else 1)) (\<lambda>_. invite_ack_pairs a)))"

record invite_ack_slots =
  iaq_outcome :: "invite_outcome option"
  iaq_nonce :: "bytes option"

definition invite_ack_empty :: invite_ack_slots where
  "invite_ack_empty = \<lparr>iaq_outcome = None, iaq_nonce = None\<rparr>"

primrec invite_ack_fill :: "invite_ack_key \<Rightarrow> invite_ack_slots \<Rightarrow> (reader, membership_error, invite_ack_slots) act" where
  "invite_ack_fill Iak_Outcome slots =
     andthen (map_err Me_Cbor rd_u8) (\<lambda>v. andthen (lift_sum (known_as invite_outcome_of Me_UnknownOutcome v)) (\<lambda>w.
     andthen (once (Me_Duplicate (MkInviteAck Iak_Outcome)) (iaq_outcome slots) w) (\<lambda>t. ret (slots\<lparr>iaq_outcome := t\<rparr>))))"
| "invite_ack_fill Iak_Nonce slots =
     andthen (map_err Me_Cbor rd_byte_string) (\<lambda>v. andthen (lift_sum (fixed INVITE_NONCE_BYTES (MkInviteAck Iak_Nonce) v)) (\<lambda>w.
     andthen (once (Me_Duplicate (MkInviteAck Iak_Nonce)) (iaq_nonce slots) w) (\<lambda>t. ret (slots\<lparr>iaq_nonce := t\<rparr>))))"

definition invite_ack_field :: "invite_ack_slots \<Rightarrow> int \<Rightarrow> (reader, membership_error, invite_ack_slots) act" where
  "invite_ack_field slots number =
     (case invite_ack_key_of number of Some key \<Rightarrow> invite_ack_fill key slots | None \<Rightarrow> skipped Me_Cbor slots)"

fun invite_ack_judge :: "invite_outcome \<Rightarrow> bytes option \<Rightarrow> membership_error + invite_ack" where
  "invite_ack_judge Io_Proposed (Some nonce) = Inr (invite_proposed nonce)"
| "invite_ack_judge Io_Proposed None = Inl Me_ProposedWithoutNonce"
| "invite_ack_judge _ (Some _) = Inl (Me_Unexpected (MkInviteAck Iak_Nonce))"
| "invite_ack_judge outcome None = invite_refused outcome"

definition invite_ack_complete :: "invite_ack_slots \<Rightarrow> (reader, membership_error, invite_ack) act" where
  "invite_ack_complete slots =
     andthen (ok_or (Me_Missing (MkInviteAck Iak_Outcome)) (iaq_outcome slots)) (\<lambda>outcome.
     lift_sum (invite_ack_judge outcome (iaq_nonce slots)))"

definition invite_ack_decode :: "bytes \<Rightarrow> membership_error + invite_ack" where
  "invite_ack_decode = decoding (
     andthen (map_fields Me_Cbor invite_ack_field invite_ack_empty) (\<lambda>slots.
     andthen (finishing Me_Cbor) (\<lambda>_. invite_ack_complete slots)))"

section \<open>\<open>Approve 0x16\<close>\<close>

datatype decision = Approving bytes bytes | Declining

record approve_operation =
  ao_nonce :: bytes
  ao_decision :: decision

primrec decision_code :: "decision \<Rightarrow> invite_decision \<times> nat" where
  "decision_code (Approving _ _) = (Id_Approve, 4)"
| "decision_code Declining = (Id_Decline, 2)"

primrec decision_pairs :: "decision \<Rightarrow> (writer, cbor_error, unit) act" where
  "decision_pairs (Approving reveal proof) =
     andthen (wr_key (approve_key_number Apk_Reveal)) (\<lambda>_. andthen (wr_byte_string reveal) (\<lambda>_.
     andthen (wr_key (approve_key_number Apk_Proof)) (\<lambda>_. wr_byte_string proof)))"
| "decision_pairs Declining = ret ()"

definition approve_op_pairs :: "approve_operation \<Rightarrow> (writer, cbor_error, unit) act" where
  "approve_op_pairs op =
     andthen (wr_key (approve_key_number Apk_Nonce)) (\<lambda>_. andthen (wr_byte_string (ao_nonce op)) (\<lambda>_.
     andthen (wr_key (approve_key_number Apk_Decision)) (\<lambda>_.
     andthen (wr_u64 (ucast (invite_decision_num (fst (decision_code (ao_decision op)))))) (\<lambda>_.
     decision_pairs (ao_decision op)))))"

definition approve_op_encode :: "approve_operation \<Rightarrow> bytes \<Rightarrow> (membership_error + nat) \<times> bytes" where
  "approve_op_encode op = encoding Me_Cbor (map_err Me_Cbor (
     andthen (wr_map (snd (decision_code (ao_decision op)))) (\<lambda>_. approve_op_pairs op)))"

record approve_op_slots =
  aq_nonce :: "bytes option"
  aq_decision :: "invite_decision option"
  aq_reveal :: "bytes option"
  aq_proof :: "bytes option"

definition approve_op_empty :: approve_op_slots where
  "approve_op_empty = \<lparr>aq_nonce = None, aq_decision = None, aq_reveal = None, aq_proof = None\<rparr>"

primrec approve_op_fill :: "approve_key \<Rightarrow> approve_op_slots \<Rightarrow> (reader, membership_error, approve_op_slots) act" where
  "approve_op_fill Apk_Nonce slots =
     andthen (map_err Me_Cbor rd_byte_string) (\<lambda>v. andthen (lift_sum (fixed INVITE_NONCE_BYTES (MkApprove Apk_Nonce) v)) (\<lambda>w.
     andthen (once (Me_Duplicate (MkApprove Apk_Nonce)) (aq_nonce slots) w) (\<lambda>t. ret (slots\<lparr>aq_nonce := t\<rparr>))))"
| "approve_op_fill Apk_Decision slots =
     andthen (map_err Me_Cbor rd_u8) (\<lambda>v. andthen (lift_sum (known_as invite_decision_of Me_UnknownDecision v)) (\<lambda>w.
     andthen (once (Me_Duplicate (MkApprove Apk_Decision)) (aq_decision slots) w) (\<lambda>t. ret (slots\<lparr>aq_decision := t\<rparr>))))"
| "approve_op_fill Apk_Reveal slots =
     andthen (map_err Me_Cbor rd_byte_string) (\<lambda>v. andthen (lift_sum (fixed INVITE_NONCE_BYTES (MkApprove Apk_Reveal) v)) (\<lambda>w.
     andthen (once (Me_Duplicate (MkApprove Apk_Reveal)) (aq_reveal slots) w) (\<lambda>t. ret (slots\<lparr>aq_reveal := t\<rparr>))))"
| "approve_op_fill Apk_Proof slots =
     andthen (map_err Me_Cbor rd_byte_string) (\<lambda>v. andthen (lift_sum (fixed TAG_BYTES (MkApprove Apk_Proof) v)) (\<lambda>w.
     andthen (once (Me_Duplicate (MkApprove Apk_Proof)) (aq_proof slots) w) (\<lambda>t. ret (slots\<lparr>aq_proof := t\<rparr>))))"

definition approve_op_field :: "approve_op_slots \<Rightarrow> int \<Rightarrow> (reader, membership_error, approve_op_slots) act" where
  "approve_op_field slots number =
     (case approve_key_of number of Some key \<Rightarrow> approve_op_fill key slots | None \<Rightarrow> skipped Me_Cbor slots)"

definition decision_judge :: "approve_op_slots \<Rightarrow> invite_decision \<Rightarrow> membership_error + decision" where
  "decision_judge slots decided =
     (case decided of
        Id_Approve \<Rightarrow>
          (case aq_reveal slots of
             None \<Rightarrow> Inl (Me_Missing (MkApprove Apk_Reveal))
           | Some reveal \<Rightarrow>
               (case aq_proof slots of
                  None \<Rightarrow> Inl (Me_Missing (MkApprove Apk_Proof))
                | Some proof \<Rightarrow> Inr (Approving reveal proof)))
      | Id_Decline \<Rightarrow>
          if aq_reveal slots \<noteq> None then Inl (Me_Unexpected (MkApprove Apk_Reveal))
          else if aq_proof slots \<noteq> None then Inl (Me_Unexpected (MkApprove Apk_Proof))
          else Inr Declining)"

definition approve_op_complete :: "approve_op_slots \<Rightarrow> (reader, membership_error, approve_operation) act" where
  "approve_op_complete slots =
     andthen (ok_or (Me_Missing (MkApprove Apk_Nonce)) (aq_nonce slots)) (\<lambda>nonce.
     andthen (ok_or (Me_Missing (MkApprove Apk_Decision)) (aq_decision slots)) (\<lambda>decided.
     andthen (lift_sum (decision_judge slots decided)) (\<lambda>decision.
     ret \<lparr>ao_nonce = nonce, ao_decision = decision\<rparr>)))"

definition approve_op_decode :: "bytes \<Rightarrow> membership_error + approve_operation" where
  "approve_op_decode = decoding (
     andthen (map_fields Me_Cbor approve_op_field approve_op_empty) (\<lambda>slots.
     andthen (finishing Me_Cbor) (\<lambda>_. approve_op_complete slots)))"

section \<open>\<open>ApproveAck 0x96\<close>\<close>

record enrolled_slot =
  el_client_id :: client_id
  el_generation :: generation
  el_confirm :: bytes

record approve_ack =
  ap_outcome :: approve_outcome
  ap_enrolled :: "enrolled_slot option"

definition approve_enrolled :: "enrolled_slot \<Rightarrow> approve_ack" where
  "approve_enrolled e = \<lparr>ap_outcome = Apo_Enrolled, ap_enrolled = Some e\<rparr>"

definition approve_other :: "approve_outcome \<Rightarrow> membership_error + approve_ack" where
  "approve_other outcome =
     (if outcome = Apo_Enrolled then Inl Me_EnrolledWithoutSlot else Inr \<lparr>ap_outcome = outcome, ap_enrolled = None\<rparr>)"

definition approve_ack_pairs :: "approve_ack \<Rightarrow> (writer, cbor_error, unit) act" where
  "approve_ack_pairs a =
     andthen (wr_key (approve_ack_key_number Aak_Outcome)) (\<lambda>_. andthen (wr_u64 (ucast (approve_outcome_num (ap_outcome a)))) (\<lambda>_.
     case ap_enrolled a of
       Some e \<Rightarrow>
         andthen (wr_key (approve_ack_key_number Aak_ClientId)) (\<lambda>_. andthen (wr_u64 (ucast (client_id_get (el_client_id e)))) (\<lambda>_.
         andthen (wr_key (approve_ack_key_number Aak_Generation)) (\<lambda>_. andthen (wr_u64 (ucast (generation_get (el_generation e)))) (\<lambda>_.
         andthen (wr_key (approve_ack_key_number Aak_Confirm)) (\<lambda>_. wr_byte_string (el_confirm e))))))
     | None \<Rightarrow> ret ()))"

definition approve_ack_encode :: "approve_ack \<Rightarrow> bytes \<Rightarrow> (membership_error + nat) \<times> bytes" where
  "approve_ack_encode a = encoding Me_Cbor (map_err Me_Cbor (
     andthen (wr_map (if ap_enrolled a \<noteq> None then 4 else 1)) (\<lambda>_. approve_ack_pairs a)))"

record approve_ack_slots =
  akq_outcome :: "approve_outcome option"
  akq_client_id :: "client_id option"
  akq_generation :: "generation option"
  akq_confirm :: "bytes option"

definition approve_ack_empty :: approve_ack_slots where
  "approve_ack_empty = \<lparr>akq_outcome = None, akq_client_id = None, akq_generation = None, akq_confirm = None\<rparr>"

primrec approve_ack_fill :: "approve_ack_key \<Rightarrow> approve_ack_slots \<Rightarrow> (reader, membership_error, approve_ack_slots) act" where
  "approve_ack_fill Aak_Outcome slots =
     andthen (map_err Me_Cbor rd_u8) (\<lambda>v. andthen (lift_sum (known_as approve_outcome_of Me_UnknownOutcome v)) (\<lambda>w.
     andthen (once (Me_Duplicate (MkApproveAck Aak_Outcome)) (akq_outcome slots) w) (\<lambda>t. ret (slots\<lparr>akq_outcome := t\<rparr>))))"
| "approve_ack_fill Aak_ClientId slots =
     andthen (map_err Me_Cbor rd_u32) (\<lambda>v. andthen (lift_sum (naming client_id_new (MkApproveAck Aak_ClientId) v)) (\<lambda>w.
     andthen (once (Me_Duplicate (MkApproveAck Aak_ClientId)) (akq_client_id slots) w) (\<lambda>t. ret (slots\<lparr>akq_client_id := t\<rparr>))))"
| "approve_ack_fill Aak_Generation slots =
     andthen (map_err Me_Cbor rd_u32) (\<lambda>v. andthen (lift_sum (naming generation_new (MkApproveAck Aak_Generation) v)) (\<lambda>w.
     andthen (once (Me_Duplicate (MkApproveAck Aak_Generation)) (akq_generation slots) w) (\<lambda>t. ret (slots\<lparr>akq_generation := t\<rparr>))))"
| "approve_ack_fill Aak_Confirm slots =
     andthen (map_err Me_Cbor rd_byte_string) (\<lambda>v. andthen (lift_sum (fixed TAG_BYTES (MkApproveAck Aak_Confirm) v)) (\<lambda>w.
     andthen (once (Me_Duplicate (MkApproveAck Aak_Confirm)) (akq_confirm slots) w) (\<lambda>t. ret (slots\<lparr>akq_confirm := t\<rparr>))))"

definition approve_ack_field :: "approve_ack_slots \<Rightarrow> int \<Rightarrow> (reader, membership_error, approve_ack_slots) act" where
  "approve_ack_field slots number =
     (case approve_ack_key_of number of Some key \<Rightarrow> approve_ack_fill key slots | None \<Rightarrow> skipped Me_Cbor slots)"

definition approve_ack_judge :: "approve_ack_slots \<Rightarrow> approve_outcome \<Rightarrow> membership_error + approve_ack" where
  "approve_ack_judge slots outcome =
     (if outcome = Apo_Enrolled then
        (case akq_client_id slots of
           None \<Rightarrow> Inl Me_EnrolledWithoutSlot
         | Some c \<Rightarrow>
             (case akq_generation slots of
                None \<Rightarrow> Inl Me_EnrolledWithoutSlot
              | Some g \<Rightarrow>
                  (case akq_confirm slots of
                     None \<Rightarrow> Inl Me_EnrolledWithoutSlot
                   | Some confirm \<Rightarrow>
                       Inr (approve_enrolled \<lparr>el_client_id = c, el_generation = g, el_confirm = confirm\<rparr>))))
      else if akq_client_id slots \<noteq> None then Inl (Me_Unexpected (MkApproveAck Aak_ClientId))
      else if akq_generation slots \<noteq> None then Inl (Me_Unexpected (MkApproveAck Aak_Generation))
      else if akq_confirm slots \<noteq> None then Inl (Me_Unexpected (MkApproveAck Aak_Confirm))
      else approve_other outcome)"

definition approve_ack_complete :: "approve_ack_slots \<Rightarrow> (reader, membership_error, approve_ack) act" where
  "approve_ack_complete slots =
     andthen (ok_or (Me_Missing (MkApproveAck Aak_Outcome)) (akq_outcome slots)) (\<lambda>outcome.
     lift_sum (approve_ack_judge slots outcome))"

definition approve_ack_decode :: "bytes \<Rightarrow> membership_error + approve_ack" where
  "approve_ack_decode = decoding (
     andthen (map_fields Me_Cbor approve_ack_field approve_ack_empty) (\<lambda>slots.
     andthen (finishing Me_Cbor) (\<lambda>_. approve_ack_complete slots)))"

section \<open>\<open>Remove 0x17\<close> and \<open>RemoveAck 0x97\<close>\<close>

record remove_operation =
  rm_client_id :: client_id
  rm_generation :: generation

definition remove_op_pairs :: "remove_operation \<Rightarrow> (writer, cbor_error, unit) act" where
  "remove_op_pairs op =
     andthen (wr_key (remove_key_number Rmk_ClientId)) (\<lambda>_. andthen (wr_u64 (ucast (client_id_get (rm_client_id op)))) (\<lambda>_.
     andthen (wr_key (remove_key_number Rmk_Generation)) (\<lambda>_. wr_u64 (ucast (generation_get (rm_generation op))))))"

definition remove_op_encode :: "remove_operation \<Rightarrow> bytes \<Rightarrow> (membership_error + nat) \<times> bytes" where
  "remove_op_encode op = encoding Me_Cbor (map_err Me_Cbor (andthen (wr_map REMOVE_KEY_COUNT) (\<lambda>_. remove_op_pairs op)))"

record remove_op_slots =
  rq_client_id :: "client_id option"
  rq_generation :: "generation option"

definition remove_op_empty :: remove_op_slots where
  "remove_op_empty = \<lparr>rq_client_id = None, rq_generation = None\<rparr>"

primrec remove_op_fill :: "remove_key \<Rightarrow> remove_op_slots \<Rightarrow> (reader, membership_error, remove_op_slots) act" where
  "remove_op_fill Rmk_ClientId slots =
     andthen (map_err Me_Cbor rd_u32) (\<lambda>v. andthen (lift_sum (naming client_id_new (MkRemove Rmk_ClientId) v)) (\<lambda>w.
     andthen (once (Me_Duplicate (MkRemove Rmk_ClientId)) (rq_client_id slots) w) (\<lambda>t. ret (slots\<lparr>rq_client_id := t\<rparr>))))"
| "remove_op_fill Rmk_Generation slots =
     andthen (map_err Me_Cbor rd_u32) (\<lambda>v. andthen (lift_sum (naming generation_new (MkRemove Rmk_Generation) v)) (\<lambda>w.
     andthen (once (Me_Duplicate (MkRemove Rmk_Generation)) (rq_generation slots) w) (\<lambda>t. ret (slots\<lparr>rq_generation := t\<rparr>))))"

definition remove_op_field :: "remove_op_slots \<Rightarrow> int \<Rightarrow> (reader, membership_error, remove_op_slots) act" where
  "remove_op_field slots number =
     (case remove_key_of number of Some key \<Rightarrow> remove_op_fill key slots | None \<Rightarrow> skipped Me_Cbor slots)"

definition remove_op_complete :: "remove_op_slots \<Rightarrow> (reader, membership_error, remove_operation) act" where
  "remove_op_complete slots =
     andthen (ok_or (Me_Missing (MkRemove Rmk_ClientId)) (rq_client_id slots)) (\<lambda>c.
     andthen (ok_or (Me_Missing (MkRemove Rmk_Generation)) (rq_generation slots)) (\<lambda>g.
     ret \<lparr>rm_client_id = c, rm_generation = g\<rparr>))"

definition remove_op_decode :: "bytes \<Rightarrow> membership_error + remove_operation" where
  "remove_op_decode = decoding (
     andthen (map_fields Me_Cbor remove_op_field remove_op_empty) (\<lambda>slots.
     andthen (finishing Me_Cbor) (\<lambda>_. remove_op_complete slots)))"

definition remove_ack_encode :: "remove_outcome \<Rightarrow> bytes \<Rightarrow> (membership_error + nat) \<times> bytes" where
  "remove_ack_encode outcome = encoding Me_Cbor (map_err Me_Cbor (
     andthen (wr_map 1) (\<lambda>_. andthen (wr_key 1) (\<lambda>_. wr_u64 (ucast (remove_outcome_num outcome))))))"

definition remove_ack_field :: "remove_outcome option \<Rightarrow> int \<Rightarrow> (reader, membership_error, remove_outcome option) act" where
  "remove_ack_field outcome number =
     (if number = 1 then
        andthen (map_err Me_Cbor rd_u8) (\<lambda>v. andthen (lift_sum (known_as remove_outcome_of Me_UnknownOutcome v)) (\<lambda>w.
        once (Me_Duplicate MkRemoveAckOutcome) outcome w))
      else skipped Me_Cbor outcome)"

definition remove_ack_decode :: "bytes \<Rightarrow> membership_error + remove_outcome" where
  "remove_ack_decode = decoding (
     andthen (map_fields Me_Cbor remove_ack_field None) (\<lambda>outcome.
     andthen (finishing Me_Cbor) (\<lambda>_. ok_or (Me_Missing MkRemoveAckOutcome) outcome)))"


section \<open>The six bodies are codecs\<close>

lemma known_as_num:
  "known_as role_of u (role_num r) = Inr r" "known_as client_kind_of u (client_kind_num k) = Inr k"
  "known_as invite_outcome_of u (invite_outcome_num i) = Inr i" "known_as invite_decision_of u (invite_decision_num d) = Inr d"
  "known_as approve_outcome_of u (approve_outcome_num a) = Inr a" "known_as remove_outcome_of u (remove_outcome_num x) = Inr x"
  by (simp_all only: known_as_def role.of_num_of client_kind.of_num_of invite_outcome.of_num_of invite_decision.of_num_of
      approve_outcome.of_num_of remove_outcome.of_num_of option.case)

lemma fixed_width: "length v = n \<Longrightarrow> fixed n key v = Inr v"
  by (simp add: fixed_def)

lemma naming_get:
  "client_id_ok c \<Longrightarrow> naming client_id_new key (client_id_get c) = Inr c"
  "generation_ok g \<Longrightarrow> naming generation_new key (generation_get g) = Inr g"
  by (simp_all add: naming_def)

definition label_ok :: "bytes \<Rightarrow> bool" where
  "label_ok label \<longleftrightarrow> label \<noteq> [] \<and> length label \<le> MAX_LABEL \<and> utf8 label"

lemma label_facts: "label_ok label \<Longrightarrow> label_fits label = Inr label"
  "label_ok label \<Longrightarrow> length label \<le> MAX_STRING" "label_ok label \<Longrightarrow> utf8 label"
  by (simp_all add: label_ok_def label_fits_def limit_defs MAX_STRING_def)

definition invite_op_fields :: "invite_operation \<Rightarrow> (int \<times> item) list" where
  "invite_op_fields op =
     [(1, IUint (ucast (role_num (io_role op)))), (2, IBytes (io_invitee op)), (3, IBytes (io_commitment op)),
      (4, IUint (ucast (client_kind_num (io_client_kind op)))), (5, IText (io_label op))]"

definition invite_op_valid :: "invite_operation \<Rightarrow> bool" where
  "invite_op_valid op \<longleftrightarrow> length (io_invitee op) = KEY_BYTES \<and> length (io_commitment op) = COMMITMENT_BYTES \<and> label_ok (io_label op)"

lemma invite_op_ok [simp]:
  "ascending None (invite_op_fields op)" "shallow room (invite_op_fields op)" "known 5 (invite_op_fields op)"
  "length (invite_op_fields op) = 5"
  by (simp_all add: invite_op_fields_def good_key_def)

lemma invite_op_writes: "invite_op_valid op \<Longrightarrow> writes_pairs (invite_op_pairs op) (invite_op_fields op)"
  unfolding invite_op_pairs_def invite_op_fields_def invite_key_number.simps
  by (intro item_rules) (simp add: label_facts invite_op_valid_def)

lemma invite_op_field_simps:
  "invite_op_field s 1 = invite_op_fill Ik_Role s"
  "invite_op_field s 2 = invite_op_fill Ik_Invitee s"
  "invite_op_field s 3 = invite_op_fill Ik_Commitment s"
  "invite_op_field s 4 = invite_op_fill Ik_ClientKind s"
  "invite_op_field s 5 = invite_op_fill Ik_Label s"
  "5 < j \<Longrightarrow> invite_op_field s j = skipped Me_Cbor s"
  by (simp_all add: invite_op_field_def invite_key_of_def)

lemma invite_op_reads:
  assumes "invite_op_valid op"
  shows "reads_pairs invite_op_field (invite_op_fields op) invite_op_empty
    \<lparr>iq_role = Some (io_role op), iq_invitee = Some (io_invitee op), iq_commitment = Some (io_commitment op),
     iq_kind = Some (io_client_kind op), iq_label = Some (io_label op)\<rparr>"
proof -
  have facts: "length (io_invitee op) = KEY_BYTES" "length (io_commitment op) = COMMITMENT_BYTES"
    "label_fits (io_label op) = Inr (io_label op)" "length (io_label op) \<le> MAX_STRING" "utf8 (io_label op)"
    using assms label_facts by (simp_all add: invite_op_valid_def)
  have "reads_pairs invite_op_field (invite_op_fields op) invite_op_empty (invite_op_empty
    \<lparr>iq_role := Some (io_role op), iq_invitee := Some (io_invitee op), iq_commitment := Some (io_commitment op),
     iq_kind := Some (io_client_kind op), iq_label := Some (io_label op)\<rparr>)"
    unfolding invite_op_fields_def
    by (rule reads_Nil | rule reads_Cons | simp only: invite_op_field_simps invite_op_fill.simps | rule slot_rules
      | rule item_rules facts fixed_width known_as_num | simp add: invite_op_empty_def; fail)+
  then show ?thesis
    by (simp add: invite_op_empty_def)
qed

interpretation invite_op: body_codec invite_op_encode invite_op_decode invite_op_fields invite_op_valid 5
proof
  fix x and dst :: bytes
  assume "invite_op_valid x" "length (map_bytes (invite_op_fields x)) \<le> length dst" "length dst \<le> usize_max"
  then show "invite_op_encode x dst = (Inr (length (map_bytes (invite_op_fields x))), splice dst 0 (map_bytes (invite_op_fields x)))"
    unfolding invite_op_encode_def INVITE_KEY_COUNT_def
    by (simp add: encodes_fields [OF invite_op_writes] label_facts invite_op_valid_def)
next
  fix x fs
  assume x: "invite_op_valid x" and fs: "extends 5 INNER fs" "length (map_bytes (invite_op_fields x @ fs)) \<le> usize_max"
  show "invite_op_decode (map_bytes (invite_op_fields x @ fs)) = Inr x"
    unfolding invite_op_decode_def
    by (rule decodes_fields [OF invite_op_reads [OF x] _ _ _ fs(1) _ fs(2)])
      (cases x, auto intro!: runs_andthen runs_finishing simp: invite_op_complete_def invite_op_field_simps)
qed

definition invite_ack_fields :: "invite_ack \<Rightarrow> (int \<times> item) list" where
  "invite_ack_fields a =
     (1, IUint (ucast (invite_outcome_num (ik_outcome a)))) # (case ik_nonce a of Some nonce \<Rightarrow> [(2, IBytes nonce)] | None \<Rightarrow> [])"

definition invite_ack_valid :: "invite_ack \<Rightarrow> bool" where
  "invite_ack_valid a \<longleftrightarrow> (ik_nonce a \<noteq> None \<longleftrightarrow> ik_outcome a = Io_Proposed) \<and>
     list_all (\<lambda>nonce. length nonce = INVITE_NONCE_BYTES) (case ik_nonce a of None \<Rightarrow> [] | Some nonce \<Rightarrow> [nonce])"

lemma invite_ack_ok [simp]:
  "ascending None (invite_ack_fields a)" "shallow room (invite_ack_fields a)" "known 2 (invite_ack_fields a)"
  "length (invite_ack_fields a) = (if ik_nonce a \<noteq> None then 2 else 1)"
  by (auto simp: invite_ack_fields_def good_key_def split: option.split)

lemma invite_ack_writes: "writes_pairs (invite_ack_pairs a) (invite_ack_fields a)"
  unfolding invite_ack_pairs_def invite_ack_fields_def invite_ack_key_number.simps by (intro item_rules)

lemma invite_ack_field_simps:
  "invite_ack_field s 1 = invite_ack_fill Iak_Outcome s"
  "invite_ack_field s 2 = invite_ack_fill Iak_Nonce s"
  "2 < j \<Longrightarrow> invite_ack_field s j = skipped Me_Cbor s"
  by (simp_all add: invite_ack_field_def invite_ack_key_of_def)

lemma invite_ack_reads:
  assumes "invite_ack_valid a"
  shows "reads_pairs invite_ack_field (invite_ack_fields a) invite_ack_empty
    \<lparr>iaq_outcome = Some (ik_outcome a), iaq_nonce = ik_nonce a\<rparr>"
proof (cases "ik_nonce a")
  case None
  have "reads_pairs invite_ack_field (invite_ack_fields a) invite_ack_empty (invite_ack_empty\<lparr>iaq_outcome := Some (ik_outcome a)\<rparr>)"
    unfolding invite_ack_fields_def None option.case
    by (rule reads_Nil | rule reads_Cons | simp only: invite_ack_field_simps invite_ack_fill.simps | rule slot_rules
      | rule item_rules known_as_num | simp add: invite_ack_empty_def; fail)+
  then show ?thesis
    by (simp add: invite_ack_empty_def None)
next
  case (Some nonce)
  then have width: "length nonce = INVITE_NONCE_BYTES"
    using assms by (simp add: invite_ack_valid_def)
  have "reads_pairs invite_ack_field (invite_ack_fields a) invite_ack_empty (invite_ack_empty
      \<lparr>iaq_outcome := Some (ik_outcome a), iaq_nonce := Some nonce\<rparr>)"
    unfolding invite_ack_fields_def Some option.case
    by (rule reads_Nil | rule reads_Cons | simp only: invite_ack_field_simps invite_ack_fill.simps | rule slot_rules
      | rule item_rules known_as_num fixed_width width | simp add: invite_ack_empty_def; fail)+
  then show ?thesis
    by (simp add: invite_ack_empty_def Some)
qed

lemma invite_ack_judge_own: "invite_ack_valid a \<Longrightarrow> invite_ack_judge (ik_outcome a) (ik_nonce a) = Inr a"
  by (cases a; cases "ik_outcome a"; cases "ik_nonce a")
    (simp_all add: invite_ack_valid_def invite_proposed_def invite_refused_def)

interpretation invite_ack: body_codec invite_ack_encode invite_ack_decode invite_ack_fields invite_ack_valid 2
proof
  fix x and dst :: bytes
  assume "invite_ack_valid x" "length (map_bytes (invite_ack_fields x)) \<le> length dst" "length dst \<le> usize_max"
  then show "invite_ack_encode x dst = (Inr (length (map_bytes (invite_ack_fields x))), splice dst 0 (map_bytes (invite_ack_fields x)))"
    unfolding invite_ack_encode_def by (simp add: encodes_fields [OF invite_ack_writes])
next
  fix x fs
  assume x: "invite_ack_valid x" and fs: "extends 2 INNER fs" "length (map_bytes (invite_ack_fields x @ fs)) \<le> usize_max"
  show "invite_ack_decode (map_bytes (invite_ack_fields x @ fs)) = Inr x"
    unfolding invite_ack_decode_def
    by (rule decodes_fields [OF invite_ack_reads [OF x] _ _ _ fs(1) _ fs(2)])
      (auto intro!: runs_andthen runs_finishing simp: invite_ack_complete_def invite_ack_field_simps invite_ack_judge_own [OF x])
qed

primrec decision_fields :: "decision \<Rightarrow> (int \<times> item) list" where
  "decision_fields (Approving reveal proof) = [(3, IBytes reveal), (4, IBytes proof)]"
| "decision_fields Declining = []"

definition approve_op_fields :: "approve_operation \<Rightarrow> (int \<times> item) list" where
  "approve_op_fields op =
     (1, IBytes (ao_nonce op)) # (2, IUint (ucast (invite_decision_num (fst (decision_code (ao_decision op)))))) #
     decision_fields (ao_decision op)"

primrec decision_valid :: "decision \<Rightarrow> bool" where
  "decision_valid (Approving reveal proof) \<longleftrightarrow> length reveal = INVITE_NONCE_BYTES \<and> length proof = TAG_BYTES"
| "decision_valid Declining \<longleftrightarrow> True"

definition approve_op_valid :: "approve_operation \<Rightarrow> bool" where
  "approve_op_valid op \<longleftrightarrow> length (ao_nonce op) = INVITE_NONCE_BYTES \<and> decision_valid (ao_decision op)"

lemma approve_op_ok [simp]:
  "ascending None (approve_op_fields op)" "shallow room (approve_op_fields op)" "known 4 (approve_op_fields op)"
  "length (approve_op_fields op) = snd (decision_code (ao_decision op))"
  by (cases "ao_decision op"; simp add: approve_op_fields_def good_key_def)+

lemma approve_op_writes: "writes_pairs (approve_op_pairs op) (approve_op_fields op)"
proof -
  have "writes_pairs (decision_pairs d) (decision_fields d)" for d
  proof (cases d)
    case (Approving reveal tag)
    show ?thesis
      unfolding Approving decision_pairs.simps decision_fields.simps approve_key_number.simps by (intro item_rules)
  qed (simp add: writes_none)
  then show ?thesis
    unfolding approve_op_pairs_def approve_op_fields_def approve_key_number.simps by (intro item_rules)
qed

lemma approve_op_field_simps:
  "approve_op_field s 1 = approve_op_fill Apk_Nonce s"
  "approve_op_field s 2 = approve_op_fill Apk_Decision s"
  "approve_op_field s 3 = approve_op_fill Apk_Reveal s"
  "approve_op_field s 4 = approve_op_fill Apk_Proof s"
  "4 < j \<Longrightarrow> approve_op_field s j = skipped Me_Cbor s"
  by (simp_all add: approve_op_field_def approve_key_of_def)

primrec decision_slots :: "decision \<Rightarrow> bytes option \<times> bytes option" where
  "decision_slots (Approving reveal proof) = (Some reveal, Some proof)"
| "decision_slots Declining = (None, None)"

lemma approve_op_reads:
  assumes "approve_op_valid op"
  shows "reads_pairs approve_op_field (approve_op_fields op) approve_op_empty
    \<lparr>aq_nonce = Some (ao_nonce op), aq_decision = Some (fst (decision_code (ao_decision op))),
     aq_reveal = fst (decision_slots (ao_decision op)), aq_proof = snd (decision_slots (ao_decision op))\<rparr>"
proof (cases "ao_decision op")
  case (Approving reveal tag)
  then have widths: "length (ao_nonce op) = INVITE_NONCE_BYTES" "length reveal = INVITE_NONCE_BYTES" "length tag = TAG_BYTES"
    using assms by (simp_all add: approve_op_valid_def)
  have "reads_pairs approve_op_field (approve_op_fields op) approve_op_empty (approve_op_empty
      \<lparr>aq_nonce := Some (ao_nonce op), aq_decision := Some (fst (decision_code (ao_decision op))),
       aq_reveal := Some reveal, aq_proof := Some tag\<rparr>)"
    unfolding approve_op_fields_def Approving decision_fields.simps
    by (rule reads_Nil | rule reads_Cons | simp only: approve_op_field_simps approve_op_fill.simps | rule slot_rules
      | rule item_rules known_as_num fixed_width widths | simp add: approve_op_empty_def; fail)+
  then show ?thesis
    by (simp add: approve_op_empty_def Approving)
next
  case Declining
  have width: "length (ao_nonce op) = INVITE_NONCE_BYTES"
    using assms by (simp add: approve_op_valid_def)
  have "reads_pairs approve_op_field (approve_op_fields op) approve_op_empty (approve_op_empty
      \<lparr>aq_nonce := Some (ao_nonce op), aq_decision := Some (fst (decision_code (ao_decision op)))\<rparr>)"
    unfolding approve_op_fields_def Declining decision_fields.simps
    by (rule reads_Nil | rule reads_Cons | simp only: approve_op_field_simps approve_op_fill.simps | rule slot_rules
      | rule item_rules known_as_num fixed_width width | simp add: approve_op_empty_def; fail)+
  then show ?thesis
    by (simp add: approve_op_empty_def Declining)
qed

lemma decision_judge_own:
  "decision_judge \<lparr>aq_nonce = n, aq_decision = q, aq_reveal = fst (decision_slots d), aq_proof = snd (decision_slots d)\<rparr>
     (fst (decision_code d)) = Inr d"
  by (cases d) (simp_all add: decision_judge_def)

interpretation approve_op: body_codec approve_op_encode approve_op_decode approve_op_fields approve_op_valid 4
proof
  fix x and dst :: bytes
  assume "approve_op_valid x" "length (map_bytes (approve_op_fields x)) \<le> length dst" "length dst \<le> usize_max"
  then show "approve_op_encode x dst = (Inr (length (map_bytes (approve_op_fields x))), splice dst 0 (map_bytes (approve_op_fields x)))"
    unfolding approve_op_encode_def by (simp add: encodes_fields [OF approve_op_writes])
next
  fix x fs
  assume x: "approve_op_valid x" and fs: "extends 4 INNER fs" "length (map_bytes (approve_op_fields x @ fs)) \<le> usize_max"
  show "approve_op_decode (map_bytes (approve_op_fields x @ fs)) = Inr x"
    unfolding approve_op_decode_def
    by (rule decodes_fields [OF approve_op_reads [OF x] _ _ _ fs(1) _ fs(2)])
      (auto intro!: runs_andthen runs_finishing simp: approve_op_complete_def approve_op_field_simps decision_judge_own)
qed

definition approve_ack_fields :: "approve_ack \<Rightarrow> (int \<times> item) list" where
  "approve_ack_fields a =
     (1, IUint (ucast (approve_outcome_num (ap_outcome a)))) #
     (case ap_enrolled a of
        Some e \<Rightarrow> [(2, IUint (ucast (client_id_get (el_client_id e)))), (3, IUint (ucast (generation_get (el_generation e)))),
                   (4, IBytes (el_confirm e))]
      | None \<Rightarrow> [])"

definition enrolled_slot_ok :: "enrolled_slot \<Rightarrow> bool" where
  "enrolled_slot_ok e \<longleftrightarrow> client_id_ok (el_client_id e) \<and> generation_ok (el_generation e) \<and> length (el_confirm e) = TAG_BYTES"

definition approve_ack_valid :: "approve_ack \<Rightarrow> bool" where
  "approve_ack_valid a \<longleftrightarrow> (ap_enrolled a \<noteq> None \<longleftrightarrow> ap_outcome a = Apo_Enrolled) \<and>
     list_all enrolled_slot_ok (case ap_enrolled a of None \<Rightarrow> [] | Some e \<Rightarrow> [e])"

lemma approve_ack_ok [simp]:
  "ascending None (approve_ack_fields a)" "shallow room (approve_ack_fields a)" "known 4 (approve_ack_fields a)"
  "length (approve_ack_fields a) = (if ap_enrolled a \<noteq> None then 4 else 1)"
  by (auto simp: approve_ack_fields_def good_key_def split: option.split)

lemma approve_ack_writes: "writes_pairs (approve_ack_pairs a) (approve_ack_fields a)"
  unfolding approve_ack_pairs_def approve_ack_fields_def approve_ack_key_number.simps by (intro item_rules)

lemma approve_ack_field_simps:
  "approve_ack_field s 1 = approve_ack_fill Aak_Outcome s"
  "approve_ack_field s 2 = approve_ack_fill Aak_ClientId s"
  "approve_ack_field s 3 = approve_ack_fill Aak_Generation s"
  "approve_ack_field s 4 = approve_ack_fill Aak_Confirm s"
  "4 < j \<Longrightarrow> approve_ack_field s j = skipped Me_Cbor s"
  by (simp_all add: approve_ack_field_def approve_ack_key_of_def)

lemma approve_ack_reads:
  assumes "approve_ack_valid a"
  shows "reads_pairs approve_ack_field (approve_ack_fields a) approve_ack_empty
    \<lparr>akq_outcome = Some (ap_outcome a), akq_client_id = map_option el_client_id (ap_enrolled a),
     akq_generation = map_option el_generation (ap_enrolled a), akq_confirm = map_option el_confirm (ap_enrolled a)\<rparr>"
proof (cases "ap_enrolled a")
  case None
  have "reads_pairs approve_ack_field (approve_ack_fields a) approve_ack_empty (approve_ack_empty\<lparr>akq_outcome := Some (ap_outcome a)\<rparr>)"
    unfolding approve_ack_fields_def None option.case
    by (rule reads_Nil | rule reads_Cons | simp only: approve_ack_field_simps approve_ack_fill.simps | rule slot_rules
      | rule item_rules known_as_num | simp add: approve_ack_empty_def; fail)+
  then show ?thesis
    by (simp add: approve_ack_empty_def None)
next
  case (Some e)
  then have facts: "client_id_ok (el_client_id e)" "generation_ok (el_generation e)" "length (el_confirm e) = TAG_BYTES"
    using assms by (simp_all add: approve_ack_valid_def enrolled_slot_ok_def)
  have "reads_pairs approve_ack_field (approve_ack_fields a) approve_ack_empty (approve_ack_empty
      \<lparr>akq_outcome := Some (ap_outcome a), akq_client_id := Some (el_client_id e), akq_generation := Some (el_generation e),
       akq_confirm := Some (el_confirm e)\<rparr>)"
    unfolding approve_ack_fields_def Some option.case
    by (rule reads_Nil | rule reads_Cons | simp only: approve_ack_field_simps approve_ack_fill.simps | rule slot_rules
      | rule item_rules known_as_num naming_get fixed_width facts | simp add: approve_ack_empty_def; fail)+
  then show ?thesis
    by (simp add: approve_ack_empty_def Some)
qed

lemma approve_ack_judge_own:
  assumes "approve_ack_valid a"
  shows "approve_ack_judge \<lparr>akq_outcome = Some (ap_outcome a), akq_client_id = map_option el_client_id (ap_enrolled a),
     akq_generation = map_option el_generation (ap_enrolled a), akq_confirm = map_option el_confirm (ap_enrolled a)\<rparr>
     (ap_outcome a) = Inr a"
  using assms by (cases a; cases "ap_enrolled a")
    (auto simp: approve_ack_valid_def approve_ack_judge_def approve_enrolled_def approve_other_def)

interpretation approve_ack: body_codec approve_ack_encode approve_ack_decode approve_ack_fields approve_ack_valid 4
proof
  fix x and dst :: bytes
  assume "approve_ack_valid x" "length (map_bytes (approve_ack_fields x)) \<le> length dst" "length dst \<le> usize_max"
  then show "approve_ack_encode x dst = (Inr (length (map_bytes (approve_ack_fields x))), splice dst 0 (map_bytes (approve_ack_fields x)))"
    unfolding approve_ack_encode_def by (simp add: encodes_fields [OF approve_ack_writes])
next
  fix x fs
  assume x: "approve_ack_valid x" and fs: "extends 4 INNER fs" "length (map_bytes (approve_ack_fields x @ fs)) \<le> usize_max"
  show "approve_ack_decode (map_bytes (approve_ack_fields x @ fs)) = Inr x"
    unfolding approve_ack_decode_def
    by (rule decodes_fields [OF approve_ack_reads [OF x] _ _ _ fs(1) _ fs(2)])
      (auto intro!: runs_andthen runs_finishing simp: approve_ack_complete_def approve_ack_field_simps approve_ack_judge_own [OF x])
qed

definition remove_op_fields :: "remove_operation \<Rightarrow> (int \<times> item) list" where
  "remove_op_fields op =
     [(1, IUint (ucast (client_id_get (rm_client_id op)))), (2, IUint (ucast (generation_get (rm_generation op))))]"

definition remove_op_valid :: "remove_operation \<Rightarrow> bool" where
  "remove_op_valid op \<longleftrightarrow> client_id_ok (rm_client_id op) \<and> generation_ok (rm_generation op)"

lemma remove_op_ok [simp]:
  "ascending None (remove_op_fields op)" "shallow room (remove_op_fields op)" "known 2 (remove_op_fields op)"
  "length (remove_op_fields op) = 2"
  by (simp_all add: remove_op_fields_def good_key_def)

lemma remove_op_writes: "writes_pairs (remove_op_pairs op) (remove_op_fields op)"
  unfolding remove_op_pairs_def remove_op_fields_def remove_key_number.simps by (intro item_rules)

lemma remove_op_field_simps:
  "remove_op_field s 1 = remove_op_fill Rmk_ClientId s"
  "remove_op_field s 2 = remove_op_fill Rmk_Generation s"
  "2 < j \<Longrightarrow> remove_op_field s j = skipped Me_Cbor s"
  by (simp_all add: remove_op_field_def remove_key_of_def)

lemma remove_op_reads:
  assumes "remove_op_valid op"
  shows "reads_pairs remove_op_field (remove_op_fields op) remove_op_empty
    \<lparr>rq_client_id = Some (rm_client_id op), rq_generation = Some (rm_generation op)\<rparr>"
proof -
  have facts: "client_id_ok (rm_client_id op)" "generation_ok (rm_generation op)"
    using assms by (simp_all add: remove_op_valid_def)
  have "reads_pairs remove_op_field (remove_op_fields op) remove_op_empty (remove_op_empty
      \<lparr>rq_client_id := Some (rm_client_id op), rq_generation := Some (rm_generation op)\<rparr>)"
    unfolding remove_op_fields_def
    by (rule reads_Nil | rule reads_Cons | simp only: remove_op_field_simps remove_op_fill.simps | rule slot_rules
      | rule item_rules naming_get facts | simp add: remove_op_empty_def; fail)+
  then show ?thesis
    by (simp add: remove_op_empty_def)
qed

interpretation remove_op: body_codec remove_op_encode remove_op_decode remove_op_fields remove_op_valid 2
proof
  fix x and dst :: bytes
  assume "remove_op_valid x" "length (map_bytes (remove_op_fields x)) \<le> length dst" "length dst \<le> usize_max"
  then show "remove_op_encode x dst = (Inr (length (map_bytes (remove_op_fields x))), splice dst 0 (map_bytes (remove_op_fields x)))"
    unfolding remove_op_encode_def REMOVE_KEY_COUNT_def by (simp add: encodes_fields [OF remove_op_writes])
next
  fix x fs
  assume x: "remove_op_valid x" and fs: "extends 2 INNER fs" "length (map_bytes (remove_op_fields x @ fs)) \<le> usize_max"
  show "remove_op_decode (map_bytes (remove_op_fields x @ fs)) = Inr x"
    unfolding remove_op_decode_def
    by (rule decodes_fields [OF remove_op_reads [OF x] _ _ _ fs(1) _ fs(2)])
      (cases x, auto intro!: runs_andthen runs_finishing simp: remove_op_complete_def remove_op_field_simps)
qed

definition remove_ack_fields :: "remove_outcome \<Rightarrow> (int \<times> item) list" where
  "remove_ack_fields outcome = [(1, IUint (ucast (remove_outcome_num outcome)))]"

lemma remove_ack_ok [simp]:
  "ascending None (remove_ack_fields x)" "shallow room (remove_ack_fields x)" "known 1 (remove_ack_fields x)"
  "length (remove_ack_fields x) = 1"
  by (simp_all add: remove_ack_fields_def good_key_def)

lemma remove_ack_reads: "reads_pairs remove_ack_field (remove_ack_fields x) None (Some x)"
proof -
  have "reads_item (remove_ack_field None 1) (IUint (ucast (remove_outcome_num x))) (Some x)"
    unfolding remove_ack_field_def if_P [OF refl]
    by (rule reads_then [OF reads_map_err [OF reads_u8]]) (simp add: once_def known_as_num fun_eq_iff)
  then show ?thesis
    by (simp add: remove_ack_fields_def)
qed

interpretation remove_ack: body_codec remove_ack_encode remove_ack_decode remove_ack_fields "\<lambda>_. True" 1
proof
  fix x and dst :: bytes
  assume "length (map_bytes (remove_ack_fields x)) \<le> length dst" "length dst \<le> usize_max"
  then show "remove_ack_encode x dst = (Inr (length (map_bytes (remove_ack_fields x))), splice dst 0 (map_bytes (remove_ack_fields x)))"
    unfolding remove_ack_encode_def remove_ack_fields_def by (intro encodes_fields item_rules) (simp_all add: good_key_def)
next
  fix x fs
  assume fs: "extends 1 INNER fs" "length (map_bytes (remove_ack_fields x @ fs)) \<le> usize_max"
  show "remove_ack_decode (map_bytes (remove_ack_fields x @ fs)) = Inr x"
    unfolding remove_ack_decode_def
    by (rule decodes_fields [OF remove_ack_reads _ _ _ fs(1) _ fs(2)])
      (auto intro!: runs_andthen runs_finishing simp: remove_ack_field_def)
qed

section \<open>What no bytes decode to\<close>

lemma fixed_InrD: "fixed n key v = Inr w \<Longrightarrow> length w = n"
  by (auto simp: fixed_def split: if_splits)

lemma naming_InrD:
  "naming client_id_new key v = Inr c \<Longrightarrow> client_id_ok c" "naming generation_new key v = Inr g \<Longrightarrow> generation_ok g"
  by (auto simp: naming_def client_id_ok_def generation_ok_def new_Some split: option.splits)

lemma label_fits_InrD: "label_fits v = Inr w \<Longrightarrow> utf8 v \<Longrightarrow> label_ok w"
  by (auto simp: label_fits_def label_ok_def split: if_splits)

lemmas conversions = fixed_InrD naming_InrD label_fits_InrD rd_text_InrD

definition invite_op_kept :: "invite_op_slots \<Rightarrow> bool" where
  "invite_op_kept s \<longleftrightarrow> (\<forall>v. iq_invitee s = Some v \<longrightarrow> length v = KEY_BYTES) \<and>
     (\<forall>v. iq_commitment s = Some v \<longrightarrow> length v = COMMITMENT_BYTES) \<and> (\<forall>v. iq_label s = Some v \<longrightarrow> label_ok v)"

lemma invite_op_none: "invite_op_kept invite_op_empty"
  by (simp add: invite_op_kept_def invite_op_empty_def)

lemma invite_op_keeps:
  assumes "invite_op_kept a" and "invite_op_field a k s = (Inr a', s')"
  shows "invite_op_kept a'"
proof (cases "invite_key_of k")
  case None
  then show ?thesis
    using assms by (auto simp: invite_op_field_def elim: skipped_InrE)
next
  case (Some key)
  then show ?thesis
    using assms by (cases key)
      (auto simp: invite_op_field_def invite_op_kept_def elim!: slot_InrE map_err_InrE dest: conversions)
qed

interpretation invite_op: faithful_codec invite_op_encode invite_op_decode invite_op_fields invite_op_valid 5
proof
  fix bs x assume "invite_op_decode bs = Inr x"
  then obtain slots s t where "invite_op_kept slots" "invite_op_complete slots s = (Inr x, t)"
    unfolding invite_op_decode_def
    by (rule body_InrE [where P = invite_op_kept, OF _ invite_op_none]) (blast intro: invite_op_keeps)+
  then show "invite_op_valid x"
    by (auto simp: invite_op_complete_def invite_op_kept_def invite_op_valid_def elim!: decode_InrE)
qed

definition invite_ack_kept :: "invite_ack_slots \<Rightarrow> bool" where
  "invite_ack_kept s \<longleftrightarrow> (\<forall>v. iaq_nonce s = Some v \<longrightarrow> length v = INVITE_NONCE_BYTES)"

lemma invite_ack_none: "invite_ack_kept invite_ack_empty"
  by (simp add: invite_ack_kept_def invite_ack_empty_def)

lemma invite_ack_keeps:
  assumes "invite_ack_kept a" and "invite_ack_field a k s = (Inr a', s')"
  shows "invite_ack_kept a'"
proof (cases "invite_ack_key_of k")
  case None
  then show ?thesis
    using assms by (auto simp: invite_ack_field_def elim: skipped_InrE)
next
  case (Some key)
  then show ?thesis
    using assms by (cases key)
      (auto simp: invite_ack_field_def invite_ack_kept_def elim!: slot_InrE map_err_InrE dest: conversions)
qed

lemma invite_ack_judge_valid: "invite_ack_judge outcome nonce = Inr a \<Longrightarrow> invite_ack_kept s \<Longrightarrow> iaq_nonce s = nonce \<Longrightarrow> invite_ack_valid a"
  by (cases outcome; cases nonce)
    (auto simp: invite_proposed_def invite_refused_def invite_ack_valid_def invite_ack_kept_def)

interpretation invite_ack: faithful_codec invite_ack_encode invite_ack_decode invite_ack_fields invite_ack_valid 2
proof
  fix bs x assume "invite_ack_decode bs = Inr x"
  then obtain slots s t where "invite_ack_kept slots" "invite_ack_complete slots s = (Inr x, t)"
    unfolding invite_ack_decode_def
    by (rule body_InrE [where P = invite_ack_kept, OF _ invite_ack_none]) (blast intro: invite_ack_keeps)+
  then show "invite_ack_valid x"
    by (auto simp: invite_ack_complete_def intro: invite_ack_judge_valid elim!: decode_InrE)
qed

definition approve_op_kept :: "approve_op_slots \<Rightarrow> bool" where
  "approve_op_kept s \<longleftrightarrow> (\<forall>v. aq_nonce s = Some v \<longrightarrow> length v = INVITE_NONCE_BYTES) \<and>
     (\<forall>v. aq_reveal s = Some v \<longrightarrow> length v = INVITE_NONCE_BYTES) \<and> (\<forall>v. aq_proof s = Some v \<longrightarrow> length v = TAG_BYTES)"

lemma approve_op_none: "approve_op_kept approve_op_empty"
  by (simp add: approve_op_kept_def approve_op_empty_def)

lemma approve_op_keeps:
  assumes "approve_op_kept a" and "approve_op_field a k s = (Inr a', s')"
  shows "approve_op_kept a'"
proof (cases "approve_key_of k")
  case None
  then show ?thesis
    using assms by (auto simp: approve_op_field_def elim: skipped_InrE)
next
  case (Some key)
  then show ?thesis
    using assms by (cases key)
      (auto simp: approve_op_field_def approve_op_kept_def elim!: slot_InrE map_err_InrE dest: conversions)
qed

lemma decision_judge_valid: "decision_judge slots decided = Inr d \<Longrightarrow> approve_op_kept slots \<Longrightarrow> decision_valid d"
  by (auto simp: decision_judge_def approve_op_kept_def split: invite_decision.splits option.splits if_splits)

interpretation approve_op: faithful_codec approve_op_encode approve_op_decode approve_op_fields approve_op_valid 4
proof
  fix bs x assume "approve_op_decode bs = Inr x"
  then obtain slots s t where kept: "approve_op_kept slots" "approve_op_complete slots s = (Inr x, t)"
    unfolding approve_op_decode_def
    by (rule body_InrE [where P = approve_op_kept, OF _ approve_op_none]) (blast intro: approve_op_keeps)+
  then obtain decided where "decision_judge slots decided = Inr (ao_decision x)" "aq_nonce slots = Some (ao_nonce x)"
    by (auto simp: approve_op_complete_def elim!: decode_InrE)
  then show "approve_op_valid x"
    using kept(1) decision_judge_valid by (auto simp: approve_op_valid_def approve_op_kept_def)
qed

definition approve_ack_kept :: "approve_ack_slots \<Rightarrow> bool" where
  "approve_ack_kept s \<longleftrightarrow> (\<forall>c. akq_client_id s = Some c \<longrightarrow> client_id_ok c) \<and>
     (\<forall>g. akq_generation s = Some g \<longrightarrow> generation_ok g) \<and> (\<forall>v. akq_confirm s = Some v \<longrightarrow> length v = TAG_BYTES)"

lemma approve_ack_none: "approve_ack_kept approve_ack_empty"
  by (simp add: approve_ack_kept_def approve_ack_empty_def)

lemma approve_ack_keeps:
  assumes "approve_ack_kept a" and "approve_ack_field a k s = (Inr a', s')"
  shows "approve_ack_kept a'"
proof (cases "approve_ack_key_of k")
  case None
  then show ?thesis
    using assms by (auto simp: approve_ack_field_def elim: skipped_InrE)
next
  case (Some key)
  then show ?thesis
    using assms by (cases key)
      (auto simp: approve_ack_field_def approve_ack_kept_def elim!: slot_InrE map_err_InrE dest: conversions)
qed

lemma approve_ack_judge_valid: "approve_ack_judge slots outcome = Inr a \<Longrightarrow> approve_ack_kept slots \<Longrightarrow> approve_ack_valid a"
  by (auto simp: approve_ack_judge_def approve_ack_kept_def approve_ack_valid_def approve_enrolled_def approve_other_def
      enrolled_slot_ok_def split: option.splits if_splits)

interpretation approve_ack: faithful_codec approve_ack_encode approve_ack_decode approve_ack_fields approve_ack_valid 4
proof
  fix bs x assume "approve_ack_decode bs = Inr x"
  then obtain slots s t where "approve_ack_kept slots" "approve_ack_complete slots s = (Inr x, t)"
    unfolding approve_ack_decode_def
    by (rule body_InrE [where P = approve_ack_kept, OF _ approve_ack_none]) (blast intro: approve_ack_keeps)+
  then show "approve_ack_valid x"
    by (auto simp: approve_ack_complete_def intro: approve_ack_judge_valid elim!: decode_InrE)
qed

definition remove_op_kept :: "remove_op_slots \<Rightarrow> bool" where
  "remove_op_kept s \<longleftrightarrow> (\<forall>c. rq_client_id s = Some c \<longrightarrow> client_id_ok c) \<and> (\<forall>g. rq_generation s = Some g \<longrightarrow> generation_ok g)"

lemma remove_op_none: "remove_op_kept remove_op_empty"
  by (simp add: remove_op_kept_def remove_op_empty_def)

lemma remove_op_keeps:
  assumes "remove_op_kept a" and "remove_op_field a k s = (Inr a', s')"
  shows "remove_op_kept a'"
proof (cases "remove_key_of k")
  case None
  then show ?thesis
    using assms by (auto simp: remove_op_field_def elim: skipped_InrE)
next
  case (Some key)
  then show ?thesis
    using assms by (cases key)
      (auto simp: remove_op_field_def remove_op_kept_def elim!: slot_InrE map_err_InrE dest: conversions)
qed

interpretation remove_op: faithful_codec remove_op_encode remove_op_decode remove_op_fields remove_op_valid 2
proof
  fix bs x assume "remove_op_decode bs = Inr x"
  then obtain slots s t where "remove_op_kept slots" "remove_op_complete slots s = (Inr x, t)"
    unfolding remove_op_decode_def
    by (rule body_InrE [where P = remove_op_kept, OF _ remove_op_none]) (blast intro: remove_op_keeps)+
  then show "remove_op_valid x"
    by (auto simp: remove_op_complete_def remove_op_kept_def remove_op_valid_def elim!: decode_InrE)
qed

section \<open>The bounds\<close>

lemma narrow_bound:
  "width_bytes (width_of (ucast (client_id_get c))) \<le> 4" "width_bytes (width_of (ucast (generation_get g))) \<le> 4"
  using width_narrow(3) by blast+

lemma registry_width:
  "width_of (ucast (role_num r)) = Inline" "width_of (ucast (client_kind_num k)) = Inline"
  "width_of (ucast (invite_outcome_num i)) = Inline" "width_of (ucast (invite_decision_num d)) = Inline"
  "width_of (ucast (approve_outcome_num a)) = Inline" "width_of (ucast (remove_outcome_num x)) = Inline"
  by (induction r; simp add: width_of_def) (induction k; simp add: width_of_def | induction i; simp add: width_of_def
    | induction d; simp add: width_of_def | induction a; simp add: width_of_def | induction x; simp add: width_of_def)+

lemma width_32: "width_of 32 = One"
  by (simp add: width_of_def)

lemmas membership_sizes = map_bytes_eq registry_width membership_bounds KEY_BYTES_def COMMITMENT_BYTES_def INVITE_NONCE_BYTES_def
  TAG_BYTES_def width_of_small width_32

lemma invite_op_bound: "invite_op_valid op \<Longrightarrow> length (map_bytes (invite_op_fields op)) \<le> MAX_INVITE_OPERATION_BYTES"
  using width_text [of "io_label op"]
  by (simp add: membership_sizes invite_op_fields_def invite_op_valid_def label_ok_def limit_defs MAX_STRING_def)

lemma invite_ack_bound: "invite_ack_valid a \<Longrightarrow> length (map_bytes (invite_ack_fields a)) \<le> MAX_INVITE_ACK_BYTES"
  by (auto simp: membership_sizes invite_ack_fields_def invite_ack_valid_def split: option.splits)

lemma approve_op_bound: "approve_op_valid op \<Longrightarrow> length (map_bytes (approve_op_fields op)) \<le> MAX_APPROVE_OPERATION_BYTES"
  by (cases "ao_decision op") (simp_all add: membership_sizes approve_op_fields_def approve_op_valid_def)

lemma approve_ack_bound: "approve_ack_valid a \<Longrightarrow> length (map_bytes (approve_ack_fields a)) \<le> MAX_APPROVE_ACK_BYTES"
  using narrow_bound(1) [of "el_client_id (the (ap_enrolled a))"] narrow_bound(2) [of "el_generation (the (ap_enrolled a))"]
  by (auto simp: membership_sizes approve_ack_fields_def approve_ack_valid_def enrolled_slot_ok_def split: option.splits)

lemma remove_op_bound: "length (map_bytes (remove_op_fields op)) \<le> MAX_REMOVE_OPERATION_BYTES"
  using narrow_bound(1) [of "rm_client_id op"] narrow_bound(2) [of "rm_generation op"]
  by (simp add: membership_sizes remove_op_fields_def)

lemma remove_ack_bound: "length (map_bytes (remove_ack_fields x)) \<le> MAX_REMOVE_ACK_BYTES"
  by (simp add: membership_sizes remove_ack_fields_def)

section \<open>Bodies whose parts may disagree\<close>

text \<open>Each answer with its outcome or decision and, beside it, any of the keys that may or may not
  belong there: what a sender that does not keep the rules would write.\<close>

definition pair_if :: "int \<Rightarrow> ('a \<Rightarrow> item) \<Rightarrow> 'a option \<Rightarrow> (int \<times> item) list" where
  "pair_if k f v = (case v of None \<Rightarrow> [] | Some x \<Rightarrow> [(k, f x)])"

definition holds_if :: "('a \<Rightarrow> bool) \<Rightarrow> 'a option \<Rightarrow> bool" where
  "holds_if P v \<longleftrightarrow> (case v of None \<Rightarrow> True | Some x \<Rightarrow> P x)"

lemma pair_if_simps [simp]: "pair_if k f None = []" "pair_if k f (Some x) = [(k, f x)]"
  by (simp_all add: pair_if_def)

lemma holds_if_simps [simp]: "holds_if P None" "holds_if P (Some x) \<longleftrightarrow> P x"
  by (simp_all add: holds_if_def)

definition shown_invite_ack :: "invite_outcome \<Rightarrow> bytes option \<Rightarrow> (int \<times> item) list" where
  "shown_invite_ack outcome nonce = (1, IUint (ucast (invite_outcome_num outcome))) # pair_if 2 IBytes nonce"

definition shown_approve :: "bytes \<Rightarrow> invite_decision \<Rightarrow> bytes option \<Rightarrow> bytes option \<Rightarrow> (int \<times> item) list" where
  "shown_approve nonce decided reveal proof =
     (1, IBytes nonce) # (2, IUint (ucast (invite_decision_num decided))) # pair_if 3 IBytes reveal @ pair_if 4 IBytes proof"

definition shown_approve_ack ::
  "approve_outcome \<Rightarrow> client_id option \<Rightarrow> generation option \<Rightarrow> bytes option \<Rightarrow> (int \<times> item) list" where
  "shown_approve_ack outcome c g confirm =
     (1, IUint (ucast (approve_outcome_num outcome))) # pair_if 2 (\<lambda>c. IUint (ucast (client_id_get c))) c @
     pair_if 3 (\<lambda>g. IUint (ucast (generation_get g))) g @ pair_if 4 IBytes confirm"

lemma shown_ok [simp]:
  "ascending None (shown_invite_ack i n)" "shallow room (shown_invite_ack i n)" "known 2 (shown_invite_ack i n)"
  "ascending None (shown_approve v d r t)" "shallow room (shown_approve v d r t)" "known 4 (shown_approve v d r t)"
  "ascending None (shown_approve_ack a c g t)" "shallow room (shown_approve_ack a c g t)" "known 4 (shown_approve_ack a c g t)"
  by (auto simp: shown_invite_ack_def shown_approve_def shown_approve_ack_def pair_if_def good_key_def split: option.split)

lemma shown_invite_ack_reads:
  assumes "holds_if (\<lambda>v. length v = INVITE_NONCE_BYTES) n"
  shows "reads_pairs invite_ack_field (shown_invite_ack outcome n) invite_ack_empty \<lparr>iaq_outcome = Some outcome, iaq_nonce = n\<rparr>"
  by (insert assms, cases n; simp add: shown_invite_ack_def del: reads_pairs.simps; rule reads_eq,
      (rule reads_Nil | rule reads_Cons | simp only: invite_ack_field_simps invite_ack_fill.simps | rule slot_rules
        | rule item_rules known_as_num fixed_width | assumption | simp add: invite_ack_empty_def; fail)+)

lemma shown_approve_reads:
  assumes "length v = INVITE_NONCE_BYTES" and "holds_if (\<lambda>r. length r = INVITE_NONCE_BYTES) r" and "holds_if (\<lambda>t. length t = TAG_BYTES) t"
  shows "reads_pairs approve_op_field (shown_approve v decided r t) approve_op_empty
    \<lparr>aq_nonce = Some v, aq_decision = Some decided, aq_reveal = r, aq_proof = t\<rparr>"
  by (insert assms, cases r; cases t; simp add: shown_approve_def del: reads_pairs.simps; rule reads_eq,
      (rule reads_Nil | rule reads_Cons | simp only: approve_op_field_simps approve_op_fill.simps | rule slot_rules
        | rule item_rules known_as_num fixed_width | assumption | simp add: approve_op_empty_def; fail)+)

lemma shown_approve_ack_reads:
  assumes "holds_if client_id_ok c" and "holds_if generation_ok g" and "holds_if (\<lambda>t. length t = TAG_BYTES) t"
  shows "reads_pairs approve_ack_field (shown_approve_ack outcome c g t) approve_ack_empty
    \<lparr>akq_outcome = Some outcome, akq_client_id = c, akq_generation = g, akq_confirm = t\<rparr>"
  by (insert assms, cases c; cases g; cases t; simp add: shown_approve_ack_def del: reads_pairs.simps; rule reads_eq,
      (rule reads_Nil | rule reads_Cons | simp only: approve_ack_field_simps approve_ack_fill.simps | rule slot_rules
        | rule item_rules known_as_num naming_get fixed_width | assumption | simp add: approve_ack_empty_def; fail)+)

lemma shown_invite_ack_decode:
  assumes "holds_if (\<lambda>v. length v = INVITE_NONCE_BYTES) n" and "extends 2 INNER gs"
    and "length (map_bytes (shown_invite_ack outcome n @ gs)) \<le> usize_max"
  shows "invite_ack_decode (map_bytes (shown_invite_ack outcome n @ gs)) = invite_ack_judge outcome n"
  unfolding invite_ack_decode_def
  by (rule decodes_fields_sum [OF shown_invite_ack_reads [OF assms(1)] _ _ _ assms(2) _ assms(3)])
    (simp_all add: finishing_done invite_ack_complete_def invite_ack_field_simps)

lemma shown_approve_decode:
  assumes "length v = INVITE_NONCE_BYTES" and "holds_if (\<lambda>r. length r = INVITE_NONCE_BYTES) r" and "holds_if (\<lambda>t. length t = TAG_BYTES) t"
    and "extends 4 INNER gs" and "length (map_bytes (shown_approve v decided r t @ gs)) \<le> usize_max"
  shows "approve_op_decode (map_bytes (shown_approve v decided r t @ gs)) =
    map_sum id (\<lambda>d. \<lparr>ao_nonce = v, ao_decision = d\<rparr>)
      (decision_judge \<lparr>aq_nonce = Some v, aq_decision = Some decided, aq_reveal = r, aq_proof = t\<rparr> decided)"
  unfolding approve_op_decode_def
  by (rule decodes_fields_sum [OF shown_approve_reads [OF assms(1-3)] _ _ _ assms(4) _ assms(5)])
    (simp_all add: finishing_done approve_op_complete_def approve_op_field_simps, simp add: andthen_def lift_sum_def split: sum.split)

lemma shown_approve_ack_decode:
  assumes "holds_if client_id_ok c" and "holds_if generation_ok g" and "holds_if (\<lambda>t. length t = TAG_BYTES) t"
    and "extends 4 INNER gs" and "length (map_bytes (shown_approve_ack outcome c g t @ gs)) \<le> usize_max"
  shows "approve_ack_decode (map_bytes (shown_approve_ack outcome c g t @ gs)) =
    approve_ack_judge \<lparr>akq_outcome = Some outcome, akq_client_id = c, akq_generation = g, akq_confirm = t\<rparr> outcome"
  unfolding approve_ack_decode_def
  by (rule decodes_fields_sum [OF shown_approve_ack_reads [OF assms(1-3)] _ _ _ assms(4) _ assms(5)])
    (simp_all add: finishing_done approve_ack_complete_def approve_ack_field_simps)

text \<open>What stands after the reading lets through exactly what agrees.\<close>

lemma invite_ack_judge_iff:
  "invite_ack_judge outcome n = Inr a \<longleftrightarrow> a = \<lparr>ik_outcome = outcome, ik_nonce = n\<rparr> \<and> (n \<noteq> None \<longleftrightarrow> outcome = Io_Proposed)"
  by (cases outcome; cases n) (auto simp: invite_proposed_def invite_refused_def)

lemma decision_judge_iff:
  "decision_judge slots decided = Inr d \<longleftrightarrow> decided = fst (decision_code d) \<and> (aq_reveal slots, aq_proof slots) = decision_slots d"
  by (cases d; cases decided) (auto simp: decision_judge_def split: option.splits)

lemma approve_ack_judge_iff:
  "approve_ack_judge slots outcome = Inr a \<longleftrightarrow> ap_outcome a = outcome \<and> (ap_enrolled a \<noteq> None \<longleftrightarrow> outcome = Apo_Enrolled) \<and>
     akq_client_id slots = map_option el_client_id (ap_enrolled a) \<and>
     akq_generation slots = map_option el_generation (ap_enrolled a) \<and> akq_confirm slots = map_option el_confirm (ap_enrolled a)"
proof (cases "outcome = Apo_Enrolled")
  case True
  then show ?thesis
    by (cases a; cases "ap_enrolled a") (auto simp: approve_ack_judge_def approve_enrolled_def split: option.splits)
next
  case False
  then show ?thesis
    by (cases a; cases "ap_enrolled a") (auto simp: approve_ack_judge_def approve_other_def)
qed

text \<open>So what is read, with whatever a later minor added, is exactly what agrees.\<close>

lemma shown_invite_ack_iff:
  assumes "holds_if (\<lambda>v. length v = INVITE_NONCE_BYTES) n" and "extends 2 INNER gs"
    and "length (map_bytes (shown_invite_ack outcome n @ gs)) \<le> usize_max"
  shows "invite_ack_decode (map_bytes (shown_invite_ack outcome n @ gs)) = Inr a \<longleftrightarrow>
    a = \<lparr>ik_outcome = outcome, ik_nonce = n\<rparr> \<and> (n \<noteq> None \<longleftrightarrow> outcome = Io_Proposed)"
  by (simp only: shown_invite_ack_decode [OF assms] invite_ack_judge_iff)

lemma shown_approve_iff:
  assumes "length v = INVITE_NONCE_BYTES" and "holds_if (\<lambda>r. length r = INVITE_NONCE_BYTES) r" and "holds_if (\<lambda>t. length t = TAG_BYTES) t"
    and "extends 4 INNER gs" and "length (map_bytes (shown_approve v decided r t @ gs)) \<le> usize_max"
  shows "approve_op_decode (map_bytes (shown_approve v decided r t @ gs)) = Inr op \<longleftrightarrow> ao_nonce op = v \<and>
    (case ao_decision op of
       Approving r' t' \<Rightarrow> decided = Id_Approve \<and> r = Some r' \<and> t = Some t'
     | Declining \<Rightarrow> decided = Id_Decline \<and> r = None \<and> t = None)"
proof -
  have "map_sum id (\<lambda>d. \<lparr>ao_nonce = v, ao_decision = d\<rparr>) x = Inr op \<longleftrightarrow> ao_nonce op = v \<and> x = Inr (ao_decision op)" for x :: "membership_error + decision"
    by (cases x; cases op) auto
  then show ?thesis
    by (cases "ao_decision op") (auto simp: shown_approve_decode [OF assms] decision_judge_iff)
qed

lemma shown_approve_ack_iff:
  assumes "holds_if client_id_ok c" and "holds_if generation_ok g" and "holds_if (\<lambda>t. length t = TAG_BYTES) t"
    and "extends 4 INNER gs" and "length (map_bytes (shown_approve_ack outcome c g t @ gs)) \<le> usize_max"
  shows "approve_ack_decode (map_bytes (shown_approve_ack outcome c g t @ gs)) = Inr a \<longleftrightarrow>
    ap_outcome a = outcome \<and> (ap_enrolled a \<noteq> None \<longleftrightarrow> outcome = Apo_Enrolled) \<and>
    c = map_option el_client_id (ap_enrolled a) \<and> g = map_option el_generation (ap_enrolled a) \<and>
    t = map_option el_confirm (ap_enrolled a)"
  by (simp only: shown_approve_ack_decode [OF assms] approve_ack_judge_iff approve_ack_slots.select_convs)

section \<open>Properties\<close>



end
