(* ===== verification/ReadLog.thy ===== *)
theory ReadLog
  imports Event Array_Rules
begin

text \<open>
  \<open>crates/km43/src/readlog.rs\<close>: a client reading the log backwards, a page at a time. A page's
  cursor is moved by \<open>push\<close> and by nothing else, past the highest record the page carries, so that
  fed back as the next \<open>from_seq\<close> it repeats no record. The array of \<open>MAX_LOG_PAGE_ENTRIES\<close> slots
  with a length beside it is the list of the slots below the length: a slot past it is never read.
\<close>

datatype readlog_key = Rlk_FromSeq | Rlk_MaxEntries

definition READLOG_KEY_COUNT :: nat where "READLOG_KEY_COUNT = 2"

definition readlog_key_of :: "int \<Rightarrow> readlog_key option" where
  "readlog_key_of number =
     (if number = 1 then Some Rlk_FromSeq
      else if number = 2 then Some Rlk_MaxEntries
      else None)"

primrec readlog_key_number :: "readlog_key \<Rightarrow> int" where
  "readlog_key_number Rlk_FromSeq = 1"
| "readlog_key_number Rlk_MaxEntries = 2"

datatype page_key = Pgk_Entries | Pgk_NextSeq | Pgk_OldestSeq | Pgk_Complete

definition PAGE_KEY_COUNT :: nat where "PAGE_KEY_COUNT = 4"

definition page_key_of :: "int \<Rightarrow> page_key option" where
  "page_key_of number =
     (if number = 1 then Some Pgk_Entries
      else if number = 2 then Some Pgk_NextSeq
      else if number = 3 then Some Pgk_OldestSeq
      else if number = 4 then Some Pgk_Complete
      else None)"

primrec page_key_number :: "page_key \<Rightarrow> int" where
  "page_key_number Pgk_Entries = 1"
| "page_key_number Pgk_NextSeq = 2"
| "page_key_number Pgk_OldestSeq = 3"
| "page_key_number Pgk_Complete = 4"

datatype readlog_body_key = RequestKey readlog_key | PageKey page_key

datatype readlog_error =
    Rl_Missing readlog_body_key
  | Rl_Duplicate readlog_body_key
  | Rl_PageFull nat
  | Rl_SeqAtTheCeiling
  | Rl_PageTooLong nat
  | Rl_Entry event_error
  | Rl_Cbor cbor_error

primrec readlog_refusal :: "readlog_error \<Rightarrow> refusal" where
  "readlog_refusal (Rl_PageTooLong _) = RefuseClient Ec_PayloadTooLarge"
| "readlog_refusal (Rl_Missing _) = RefuseClient Ec_MalformedFrame"
| "readlog_refusal (Rl_Duplicate _) = RefuseClient Ec_MalformedFrame"
| "readlog_refusal (Rl_PageFull _) = RefuseClient Ec_MalformedFrame"
| "readlog_refusal Rl_SeqAtTheCeiling = RefuseClient Ec_MalformedFrame"
| "readlog_refusal (Rl_Entry _) = RefuseClient Ec_MalformedFrame"
| "readlog_refusal (Rl_Cbor _) = RefuseClient Ec_MalformedFrame"

section \<open>One record of a page\<close>

record log_entry =
  le_seq :: u64
  le_at :: "u64 option"
  le_kind :: event_kind
  le_body :: bytes

definition entry_from_event :: "event \<Rightarrow> log_entry" where
  "entry_from_event ev = \<lparr>le_seq = ev_seq ev, le_at = ev_at ev, le_kind = ev_kind ev, le_body = ev_body ev\<rparr>"

definition entry_as_event :: "log_entry \<Rightarrow> readlog_error + event" where
  "entry_as_event e = map_sum Rl_Entry id (event_new (le_seq e) (le_at e) (le_kind e) (le_body e))"

definition entry_new :: "u64 \<Rightarrow> u64 option \<Rightarrow> event_kind \<Rightarrow> bytes \<Rightarrow> readlog_error + log_entry" where
  "entry_new seq at k body = map_sum Rl_Entry entry_from_event (event_new seq at k body)"

definition entry_encode :: "log_entry \<Rightarrow> (writer, readlog_error, unit) act" where
  "entry_encode e = andthen (lift_sum (entry_as_event e)) (\<lambda>ev. map_err (\<lambda>why. Rl_Entry (Ev_Cbor why)) (event_encode_into ev))"

definition entry_decode :: "(reader, readlog_error, log_entry) act" where
  "entry_decode = andthen (map_err Rl_Entry event_decode_from) (\<lambda>ev. ret (entry_from_event ev))"

section \<open>The request\<close>

record read_log =
  rl_from_seq :: u64
  rl_max_entries :: u16

definition page_size :: "read_log \<Rightarrow> nat" where
  "page_size r = min (unat (rl_max_entries r)) MAX_LOG_PAGE_ENTRIES"

definition read_start_at :: "read_log \<Rightarrow> u64 \<Rightarrow> u64" where
  "read_start_at r oldest = max (rl_from_seq r) oldest"

definition read_log_encode :: "read_log \<Rightarrow> bytes \<Rightarrow> (readlog_error + nat) \<times> bytes" where
  "read_log_encode r = encoding Rl_Cbor (map_err Rl_Cbor (
     andthen (wr_map READLOG_KEY_COUNT) (\<lambda>_.
     andthen (wr_key (readlog_key_number Rlk_FromSeq)) (\<lambda>_. andthen (wr_u64 (rl_from_seq r)) (\<lambda>_.
     andthen (wr_key (readlog_key_number Rlk_MaxEntries)) (\<lambda>_. wr_u64 (ucast (rl_max_entries r))))))))"

record read_log_slots =
  rlq_from_seq :: "u64 option"
  rlq_max_entries :: "u16 option"

definition read_log_empty :: read_log_slots where
  "read_log_empty = \<lparr>rlq_from_seq = None, rlq_max_entries = None\<rparr>"

primrec read_log_fill :: "readlog_key \<Rightarrow> read_log_slots \<Rightarrow> (reader, readlog_error, read_log_slots) act" where
  "read_log_fill Rlk_FromSeq slots =
     andthen (map_err Rl_Cbor rd_u64) (\<lambda>v.
     andthen (once (Rl_Duplicate (RequestKey Rlk_FromSeq)) (rlq_from_seq slots) v) (\<lambda>t. ret (slots\<lparr>rlq_from_seq := t\<rparr>)))"
| "read_log_fill Rlk_MaxEntries slots =
     andthen (map_err Rl_Cbor rd_u16) (\<lambda>v.
     andthen (once (Rl_Duplicate (RequestKey Rlk_MaxEntries)) (rlq_max_entries slots) v) (\<lambda>t. ret (slots\<lparr>rlq_max_entries := t\<rparr>)))"

definition read_log_field :: "read_log_slots \<Rightarrow> int \<Rightarrow> (reader, readlog_error, read_log_slots) act" where
  "read_log_field slots number =
     (case readlog_key_of number of Some key \<Rightarrow> read_log_fill key slots | None \<Rightarrow> skipped Rl_Cbor slots)"

definition read_log_complete :: "read_log_slots \<Rightarrow> (reader, readlog_error, read_log) act" where
  "read_log_complete slots =
     andthen (ok_or (Rl_Missing (RequestKey Rlk_FromSeq)) (rlq_from_seq slots)) (\<lambda>from_seq.
     andthen (ok_or (Rl_Missing (RequestKey Rlk_MaxEntries)) (rlq_max_entries slots)) (\<lambda>max_entries.
     ret \<lparr>rl_from_seq = from_seq, rl_max_entries = max_entries\<rparr>))"

definition read_log_decode :: "bytes \<Rightarrow> readlog_error + read_log" where
  "read_log_decode = decoding (
     andthen (map_fields Rl_Cbor read_log_field read_log_empty) (\<lambda>slots.
     andthen (finishing Rl_Cbor) (\<lambda>_. read_log_complete slots)))"

section \<open>The page\<close>

record log_page =
  lp_entries :: "log_entry list"
  lp_next_seq :: u64
  lp_oldest_seq :: u64
  lp_complete :: bool

definition page_new :: "u64 \<Rightarrow> u64 \<Rightarrow> bool \<Rightarrow> log_page" where
  "page_new resume_at oldest complete =
     \<lparr>lp_entries = [], lp_next_seq = resume_at, lp_oldest_seq = oldest, lp_complete = complete\<rparr>"

definition page_push :: "log_entry \<Rightarrow> (log_page, readlog_error, unit) act" where
  "page_push e p =
     (if le_seq e = - 1 then (Inl Rl_SeqAtTheCeiling, p)
      else if MAX_LOG_PAGE_ENTRIES \<le> length (lp_entries p) then (Inl (Rl_PageFull MAX_LOG_PAGE_ENTRIES), p)
      else (Inr (), p\<lparr>lp_entries := lp_entries p @ [e],
          lp_next_seq := if lp_next_seq p < le_seq e + 1 then le_seq e + 1 else lp_next_seq p\<rparr>))"

definition entry_too_long :: "bool \<Rightarrow> readlog_error \<Rightarrow> readlog_error" where
  "entry_too_long capped why =
     (if capped \<and> (why = Rl_Entry (Ev_Cbor CborDestinationTooSmall) \<or> why = Rl_Cbor CborDestinationTooSmall)
      then Rl_PageTooLong MAX_LOG_PAGE_BYTES else why)"

definition page_too_long :: "bool \<Rightarrow> cbor_error \<Rightarrow> readlog_error" where
  "page_too_long capped why =
     (if capped \<and> why = CborDestinationTooSmall then Rl_PageTooLong MAX_LOG_PAGE_BYTES else Rl_Cbor why)"

definition page_writes :: "bool \<Rightarrow> log_page \<Rightarrow> (writer, readlog_error, unit) act" where
  "page_writes capped p =
     andthen (map_err Rl_Cbor (wr_map PAGE_KEY_COUNT)) (\<lambda>_.
     andthen (map_err Rl_Cbor (wr_key (page_key_number Pgk_Entries))) (\<lambda>_.
     andthen (andthen (map_err Rl_Cbor (wr_array (length (lp_entries p)))) (\<lambda>_.
       for_each (\<lambda>e. map_err (entry_too_long capped) (entry_encode e)) (lp_entries p))) (\<lambda>_.
     andthen (map_err Rl_Cbor (wr_key (page_key_number Pgk_NextSeq))) (\<lambda>_.
     andthen (map_err Rl_Cbor (wr_u64 (lp_next_seq p))) (\<lambda>_.
     andthen (map_err Rl_Cbor (wr_key (page_key_number Pgk_OldestSeq))) (\<lambda>_.
     andthen (map_err Rl_Cbor (wr_u64 (lp_oldest_seq p))) (\<lambda>_.
     andthen (map_err Rl_Cbor (wr_key (page_key_number Pgk_Complete))) (\<lambda>_.
     map_err Rl_Cbor (wr_bool (lp_complete p))))))))))"

text \<open>The cap is put on the buffer: the writer sees its first \<open>MAX_LOG_PAGE_BYTES\<close> bytes and no more.\<close>

definition page_encode :: "log_page \<Rightarrow> bytes \<Rightarrow> (readlog_error + nat) \<times> bytes" where
  "page_encode p dst =
     (let capped = MAX_LOG_PAGE_BYTES \<le> length dst;
          room = if capped then take MAX_LOG_PAGE_BYTES dst else dst;
          (result, out) = encoding (page_too_long capped) (page_writes capped p) room
      in (result, out @ drop (length room) dst))"

definition entries_loop :: "nat \<Rightarrow> log_page \<Rightarrow> (reader, readlog_error, log_page) act" where
  "entries_loop count = repeat_act count (\<lambda>p.
     andthen entry_decode (\<lambda>e. case page_push e p of (Inl why, _) \<Rightarrow> fail why | (Inr _, p') \<Rightarrow> ret p'))"

definition entries_from :: "(reader, readlog_error, log_entry list) act" where
  "entries_from =
     andthen (andthen (map_err Rl_Cbor rd_array) (\<lambda>count.
       if MAX_LOG_PAGE_ENTRIES < count then fail (Rl_PageFull MAX_LOG_PAGE_ENTRIES)
       else entries_loop count (page_new 0 0 False))) (\<lambda>p. ret (lp_entries p))"

record page_slots =
  pgq_entries :: "(log_entry list) option"
  pgq_next_seq :: "u64 option"
  pgq_oldest_seq :: "u64 option"
  pgq_complete :: "bool option"

definition page_empty :: page_slots where
  "page_empty = \<lparr>pgq_entries = None, pgq_next_seq = None, pgq_oldest_seq = None, pgq_complete = None\<rparr>"

primrec page_fill :: "page_key \<Rightarrow> page_slots \<Rightarrow> (reader, readlog_error, page_slots) act" where
  "page_fill Pgk_Entries slots =
     andthen (entries_from) (\<lambda>v.
     andthen (once (Rl_Duplicate (PageKey Pgk_Entries)) (pgq_entries slots) v) (\<lambda>t. ret (slots\<lparr>pgq_entries := t\<rparr>)))"
| "page_fill Pgk_NextSeq slots =
     andthen (map_err Rl_Cbor rd_u64) (\<lambda>v.
     andthen (once (Rl_Duplicate (PageKey Pgk_NextSeq)) (pgq_next_seq slots) v) (\<lambda>t. ret (slots\<lparr>pgq_next_seq := t\<rparr>)))"
| "page_fill Pgk_OldestSeq slots =
     andthen (map_err Rl_Cbor rd_u64) (\<lambda>v.
     andthen (once (Rl_Duplicate (PageKey Pgk_OldestSeq)) (pgq_oldest_seq slots) v) (\<lambda>t. ret (slots\<lparr>pgq_oldest_seq := t\<rparr>)))"
| "page_fill Pgk_Complete slots =
     andthen (map_err Rl_Cbor rd_bool) (\<lambda>v.
     andthen (once (Rl_Duplicate (PageKey Pgk_Complete)) (pgq_complete slots) v) (\<lambda>t. ret (slots\<lparr>pgq_complete := t\<rparr>)))"

definition page_field :: "page_slots \<Rightarrow> int \<Rightarrow> (reader, readlog_error, page_slots) act" where
  "page_field slots number =
     (case page_key_of number of Some key \<Rightarrow> page_fill key slots | None \<Rightarrow> skipped Rl_Cbor slots)"

definition page_complete :: "page_slots \<Rightarrow> (reader, readlog_error, log_page) act" where
  "page_complete slots =
     andthen (ok_or (Rl_Missing (PageKey Pgk_Entries)) (pgq_entries slots)) (\<lambda>entries.
     andthen (ok_or (Rl_Missing (PageKey Pgk_NextSeq)) (pgq_next_seq slots)) (\<lambda>next_seq.
     andthen (ok_or (Rl_Missing (PageKey Pgk_OldestSeq)) (pgq_oldest_seq slots)) (\<lambda>oldest_seq.
     andthen (ok_or (Rl_Missing (PageKey Pgk_Complete)) (pgq_complete slots)) (\<lambda>complete.
     ret ((page_new next_seq oldest_seq complete)\<lparr>lp_entries := entries\<rparr>)))))"

definition page_decode :: "bytes \<Rightarrow> readlog_error + log_page" where
  "page_decode payload =
     (if MAX_LOG_PAGE_BYTES < length payload then Inl (Rl_PageTooLong (length payload))
      else decoding (andthen (map_fields Rl_Cbor page_field page_empty) (\<lambda>slots.
        andthen (finishing Rl_Cbor) (\<lambda>_. page_complete slots))) payload)"

section \<open>The request's codec\<close>

definition read_log_fields :: "read_log \<Rightarrow> (int \<times> item) list" where
  "read_log_fields r = [(1, IUint (rl_from_seq r)), (2, IUint (ucast (rl_max_entries r)))]"

lemma read_log_ok [simp]:
  "ascending None (read_log_fields r)" "shallow room (read_log_fields r)" "known 2 (read_log_fields r)"
  "length (read_log_fields r) = 2"
  by (auto simp: read_log_fields_def good_key_def)

lemma read_log_field_simps:
  "read_log_field s 1 = read_log_fill Rlk_FromSeq s"
  "read_log_field s 2 = read_log_fill Rlk_MaxEntries s"
  "2 < j \<Longrightarrow> read_log_field s j = skipped Rl_Cbor s"
  by (simp_all add: read_log_field_def readlog_key_of_def)

lemma read_log_reads:
  "reads_pairs read_log_field (read_log_fields r) read_log_empty
     (read_log_empty\<lparr>rlq_from_seq := Some (rl_from_seq r), rlq_max_entries := Some (rl_max_entries r)\<rparr>)"
  unfolding read_log_fields_def
  by (rule reads_Nil | rule reads_Cons | simp only: read_log_field_simps read_log_fill.simps | rule slot_rules
      | rule item_rules  | simp add: read_log_empty_def; fail)+

interpretation read_log: body_codec read_log_encode read_log_decode read_log_fields "\<lambda>_. True" 2
proof
  fix x and dst :: bytes
  assume "length (map_bytes (read_log_fields x)) \<le> length dst" "length dst \<le> usize_max"
  moreover have "writes_pairs (andthen (wr_key (readlog_key_number Rlk_FromSeq)) (\<lambda>_. andthen (wr_u64 (rl_from_seq x)) (\<lambda>_.
     andthen (wr_key (readlog_key_number Rlk_MaxEntries)) (\<lambda>_. wr_u64 (ucast (rl_max_entries x)))))) (read_log_fields x)"
    unfolding read_log_fields_def readlog_key_number.simps by (intro item_rules)
  ultimately show "read_log_encode x dst = (Inr (length (map_bytes (read_log_fields x))), splice dst 0 (map_bytes (read_log_fields x)))"
    unfolding read_log_encode_def READLOG_KEY_COUNT_def by (simp add: encodes_fields)
next
  fix x fs
  assume fs: "extends 2 INNER fs" "length (map_bytes (read_log_fields x @ fs)) \<le> usize_max"
  show "read_log_decode (map_bytes (read_log_fields x @ fs)) = Inr x"
    unfolding read_log_decode_def
    by (rule decodes_fields [OF read_log_reads _ _ _ fs(1) _ fs(2)])
      (auto intro!: runs_andthen runs_finishing simp: read_log_complete_def read_log_field_simps)
qed

section \<open>The cursor\<close>

lemma past_seq: "s \<noteq> - 1 \<Longrightarrow> unat (s + 1 :: u64) = unat s + 1"
  using unat_next [of s] unat_u64 [of s]
  by (auto simp: word_unat_eq_iff unsigned_minus_1_eq_mask mask_eq_exp_minus_1)

lemma page_push_Some:
  assumes "page_push e p = (Inr (), q)"
  shows "lp_entries q = lp_entries p @ [e]" and "length (lp_entries p) < MAX_LOG_PAGE_ENTRIES"
    and "unat (lp_next_seq q) = max (unat (lp_next_seq p)) (unat (le_seq e) + 1)"
    and "lp_oldest_seq q = lp_oldest_seq p" and "lp_complete q = lp_complete p"
  using assms past_seq [of "le_seq e"]
  by (auto simp: page_push_def word_less_nat_alt split: if_splits)

lemma page_pushes:
  assumes "for_each page_push es p = (Inr (), q)" and "length (lp_entries p) \<le> MAX_LOG_PAGE_ENTRIES"
  shows "lp_entries q = lp_entries p @ es \<and> length (lp_entries q) \<le> MAX_LOG_PAGE_ENTRIES \<and>
    unat (lp_next_seq q) = foldr max (map (\<lambda>e. unat (le_seq e) + 1) es) (unat (lp_next_seq p))"
  using assms
proof (induction es arbitrary: p)
  case (Cons e es)
  obtain p' where push: "page_push e p = (Inr (), p')" and rest: "for_each page_push es p' = (Inr (), q)"
    using Cons.prems(1) by (auto elim: andthen_InrE)
  have max_out: "foldr max xs (max (m :: nat) x) = max x (foldr max xs m)" for xs m x
    by (induction xs) auto
  show ?case
    using Cons.IH [OF rest] page_push_Some [OF push] by (auto simp: max_out)
qed simp

section \<open>The page's codec\<close>

text \<open>\<open>G\<close> gives the map each record carries as its body.\<close>

definition entry_event :: "log_entry \<Rightarrow> event" where
  "entry_event e = \<lparr>ev_seq = le_seq e, ev_at = le_at e, ev_kind = le_kind e, ev_body = le_body e\<rparr>"

definition entry_item :: "(log_entry \<Rightarrow> (int \<times> item) list) \<Rightarrow> log_entry \<Rightarrow> item" where
  "entry_item G e = map_item (event_fields (entry_event e) (G e))"

definition entry_valid :: "(log_entry \<Rightarrow> (int \<times> item) list) \<Rightarrow> log_entry \<Rightarrow> bool" where
  "entry_valid G e \<longleftrightarrow> le_body e = map_bytes (G e) \<and> extends (- 1) 4 (G e) \<and> length (le_body e) \<le> MAX_EVENT_BODY \<and> le_seq e \<noteq> - 1"

definition page_fields :: "(log_entry \<Rightarrow> (int \<times> item) list) \<Rightarrow> log_page \<Rightarrow> (int \<times> item) list" where
  "page_fields G p =
     [(1, IArray (map (entry_item G) (lp_entries p))), (2, IUint (lp_next_seq p)), (3, IUint (lp_oldest_seq p)),
      (4, IBool (lp_complete p))]"

definition page_valid :: "(log_entry \<Rightarrow> (int \<times> item) list) \<Rightarrow> log_page \<Rightarrow> bool" where
  "page_valid G p \<longleftrightarrow> list_all (entry_valid G) (lp_entries p) \<and> length (lp_entries p) \<le> MAX_LOG_PAGE_ENTRIES"

lemma entry_of_event [simp]: "entry_from_event (entry_event e) = e"
  by (simp add: entry_from_event_def entry_event_def)

lemma entry_body:
  assumes "entry_valid G e"
  shows "shaped (le_body e) = Inr ()" and "wf_item (map_item (G e))" and "item_depth (map_item (G e)) \<le> 5"
    and "le_body e = enc_item (map_item (G e))"
proof -
  have G: "extends (- 1) 4 (G e)" "le_body e = map_bytes (G e)" "length (map_bytes (G e)) \<le> MAX_EVENT_BODY"
    using assms by (auto simp: entry_valid_def)
  show "shaped (le_body e) = Inr ()"
    unfolding G(2) by (rule shaped_map [OF extends_mono [OF G(1)] G(3)]) (simp add: INNER_val)
  show "wf_item (map_item (G e))" "item_depth (map_item (G e)) \<le> 5"
    using extends_wf [OF G(1)] by simp_all
  show "le_body e = enc_item (map_item (G e))"
    using G(2) by (simp add: map_bytes_def)
qed

lemma event_fields_ok:
  "ascending None (event_fields ev gs)" "length (event_fields ev gs) = EVENT_KEY_COUNT - (if ev_at ev = None then 1 else 0)"
  "item_depth (map_item gs) \<le> 5 \<Longrightarrow> shallow 5 (event_fields ev gs)"
  by (auto simp: event_fields_def good_key_def EVENT_KEY_COUNT_def split: option.split)

lemma entry_writes [item_rules]:
  assumes "entry_valid G e"
  shows "writes_item (entry_encode e) (entry_item G e)"
proof -
  note body = entry_body [OF assms]
  have "entry_as_event e = Inr (entry_event e)"
    by (simp add: entry_as_event_def event_new_def body(1) entry_event_def)
  then have eq: "entry_encode e = map_err (\<lambda>why. Rl_Entry (Ev_Cbor why)) (event_encode_into (entry_event e))"
    by (simp add: entry_encode_def)
  have "ev_body (entry_event e) = enc_item (map_item (G e))"
    using body(4) by (simp add: entry_event_def)
  then show ?thesis
    unfolding eq event_encode_into_def entry_item_def event_fields_def event_key_number.simps
    using body(2) event_fields_ok(1,2) [of "entry_event e" "G e", unfolded event_fields_def]
    by (intro writes_item_err writes_map writes_Cons writes_append writes_option item_rules) (simp_all add: writes_raw)
qed

lemma page_fields_ok:
  assumes "page_valid G p"
  shows "ascending None (page_fields G p)" "shallow 7 (page_fields G p)" "known 4 (page_fields G p)" "length (page_fields G p) = 4"
proof -
  have "level_room 6 (map (entry_item G) (lp_entries p))"
    using assms entry_body(3) event_fields_ok(3) depth_map_item [of 5]
    by (fastforce simp: level_room_def page_valid_def entry_item_def list_all_iff)
  then have "item_depth (IArray (map (entry_item G) (lp_entries p))) \<le> 7"
    using array_depth [of 6] by (simp del: item_depth.simps)
  then show "ascending None (page_fields G p)" "shallow 7 (page_fields G p)" "known 4 (page_fields G p)" "length (page_fields G p) = 4"
    by (simp_all add: page_fields_def good_key_def del: item_depth.simps(4))
qed

lemma page_writes_item:
  assumes "page_valid G p"
  shows "writes_item (page_writes capped p) (map_item (page_fields G p))"
proof -
  have "entry_valid G e" if "e \<in> set (lp_entries p)" for e
    using assms that by (simp add: page_valid_def list_all_iff)
  then show ?thesis
    unfolding page_writes_def PAGE_KEY_COUNT_def page_fields_def page_key_number.simps
    using page_fields_ok(1) [OF assms, unfolded page_fields_def]
    by (intro item_rules) simp_all
qed

lemma page_encode_writes:
  assumes "page_valid G p" and "length (map_bytes (page_fields G p)) \<le> MAX_LOG_PAGE_BYTES"
    and "length (map_bytes (page_fields G p)) \<le> length dst" and "length dst \<le> usize_max"
  shows "page_encode p dst = (Inr (length (map_bytes (page_fields G p))), splice dst 0 (map_bytes (page_fields G p)))"
proof -
  let ?bs = "map_bytes (page_fields G p)"
  have whole: "encoding err (page_writes capped p) room = (Inr (length ?bs), splice room 0 ?bs)"
    if "length ?bs \<le> length room" "length room \<le> usize_max" for room err capped
    by (rule encodes_item [OF page_writes_item [OF assms(1)] page_fields_ok(2) [OF assms(1)] that])
  show ?thesis
  proof (cases "MAX_LOG_PAGE_BYTES \<le> length dst")
    case True
    then have "splice (take MAX_LOG_PAGE_BYTES dst) 0 ?bs @ drop MAX_LOG_PAGE_BYTES dst = splice dst 0 ?bs"
      using assms(2) by (simp add: splice_def drop_take) (metis append_take_drop_id drop_drop le_add_diff_inverse2)
    then show ?thesis
      using whole [of "take MAX_LOG_PAGE_BYTES dst"] assms(2,4) True by (simp add: page_encode_def min_def)
  next
    case False
    then show ?thesis
      using whole [of dst] assms(3,4) by (simp add: page_encode_def)
  qed
qed

text \<open>Reading a record where it stands.\<close>

lemma event_field_simps:
  "event_field (seq, at, k, body) 1 =
     andthen (map_err Ev_Cbor rd_u64) (\<lambda>v. andthen (once (Ev_Duplicate EvSeq) seq v) (\<lambda>t. ret (t, at, k, body)))"
  "event_field (seq, at, k, body) 2 =
     andthen (map_err Ev_Cbor rd_u64) (\<lambda>v. andthen (once (Ev_Duplicate EvAt) at v) (\<lambda>t. ret (seq, t, k, body)))"
  "event_field (seq, at, k, body) 3 =
     andthen (map_err Ev_Cbor rd_u16) (\<lambda>v. andthen (once (Ev_Duplicate EvKind) k v) (\<lambda>t. ret (seq, at, t, body)))"
  "event_field (seq, at, k, body) 4 =
     andthen (map_err Ev_Cbor rd_raw) (\<lambda>v. andthen (once (Ev_Duplicate EvBody) body v) (\<lambda>t. ret (seq, at, k, t)))"
  by (simp_all add: event_key_of_def)

lemma event_pairs_read:
  assumes "wf_item (map_item gs)"
  shows "reads_pairs event_field (event_fields ev gs) (None, None, None, None)
    (Some (ev_seq ev), ev_at ev, Some (event_kind_num (ev_kind ev)), Some (enc_item (map_item gs)))"
  using assms unfolding event_fields_def
  by (cases "ev_at ev")
    (simp only: option.case append.simps, (rule reads_Nil | rule reads_Cons | simp only: event_field_simps
      | rule slot_rules [where upd = "\<lambda>t. (t, _, _, _)"] slot_rules [where upd = "\<lambda>t. (_, t, _, _)"]
         slot_rules [where upd = "\<lambda>t. (_, _, t, _)"] slot_rules [where upd = "\<lambda>t. (_, _, _, t)"]
      | rule item_rules | simp; fail)+)+

lemma entry_reads:
  assumes "entry_valid G e"
  shows "reads_item entry_decode (entry_item G e) e"
proof -
  note body = entry_body [OF assms]
  have "reads_item event_decode_from (entry_item G e) (entry_event e)"
    unfolding event_decode_from_def entry_item_def
    by (rule reads_then [OF reads_map [OF event_pairs_read [OF body(2)] event_fields_ok(1)]])
      (use body in \<open>simp add: entry_event_def fun_eq_iff\<close>)
  then show ?thesis
    unfolding entry_decode_def by (rule reads_then [OF reads_map_err]) simp
qed

lemma entries_read:
  assumes "page_valid G p"
  shows "reads_item entries_from (IArray (map (entry_item G) (lp_entries p))) (lp_entries p)"
proof -
  let ?es = "lp_entries p" and ?body = "\<lambda>p. andthen entry_decode (\<lambda>e. case page_push e p of (Inl why, _) \<Rightarrow> fail why | (Inr _, p') \<Rightarrow> ret p')"
  define page where "page es = snd (for_each page_push es (page_new 0 0 False))" for es
  have ok: "\<forall>e \<in> set ?es. entry_valid G e" "length ?es \<le> MAX_LOG_PAGE_ENTRIES"
    using assms by (simp_all add: page_valid_def list_all_iff)
  have run: "for_each page_push (take i ?es) (page_new 0 0 False) = (Inr (), page (take i ?es)) \<and> lp_entries (page (take i ?es)) = take i ?es"
    if "i \<le> length ?es" for i
    using that
  proof (induction i)
    case (Suc i)
    let ?q = "page (take i ?es)" and ?e = "?es ! i"
    have "le_seq ?e \<noteq> - 1" "length (lp_entries ?q) < MAX_LOG_PAGE_ENTRIES"
      using Suc ok by (auto simp: entry_valid_def)
    then obtain q where q: "page_push ?e ?q = (Inr (), q)"
      by (simp add: page_push_def)
    have "for_each page_push (take (Suc i) ?es) (page_new 0 0 False) = (Inr (), q)"
      using for_each_snoc [of page_push "take i ?es" "page_new 0 0 False" ?q ?e] Suc q by (simp add: take_Suc_conv_app_nth)
    moreover from this have "page (take (Suc i) ?es) = q"
      by (simp add: page_def)
    ultimately show ?case
      using page_push_Some(1) [OF q] Suc by (simp add: take_Suc_conv_app_nth)
  qed (simp add: page_def page_new_def)
  have "reads_items ?body (map (entry_item G) ?es) (page []) (page ?es)"
  proof (rule reads_items_map)
    fix i q assume i: "i < length ?es" and q: "q = page (take i ?es)"
    have "page_push (?es ! i) q = (Inr (), page (take (Suc i) ?es))"
      using for_each_snoc [of page_push "take i ?es" "page_new 0 0 False" q "?es ! i"] run [of i] run [of "Suc i"] i q
      by (simp add: take_Suc_conv_app_nth)
    then show "reads_item (andthen entry_decode (\<lambda>e. case page_push e q of (Inl why, _) \<Rightarrow> fail why | (Inr _, p') \<Rightarrow> ret p'))
        (entry_item G (?es ! i)) (page (take (Suc i) ?es))"
      using ok(1) i by (intro reads_then [OF entry_reads]) (auto simp: fun_eq_iff)
  qed
  then have "reads_items ?body (map (entry_item G) ?es) (page_new 0 0 False) (page ?es)"
    by (simp add: page_def)
  then show ?thesis
    unfolding entries_from_def
    using ok(2) run [of "length ?es"]
    by (intro reads_then [where v = "page ?es"] reads_array) (auto simp: entries_loop_def fun_eq_iff)
qed

lemma page_field_simps:
  "page_field s 1 = page_fill Pgk_Entries s"
  "page_field s 2 = page_fill Pgk_NextSeq s"
  "page_field s 3 = page_fill Pgk_OldestSeq s"
  "page_field s 4 = page_fill Pgk_Complete s"
  "4 < j \<Longrightarrow> page_field s j = skipped Rl_Cbor s"
  by (simp_all add: page_field_def page_key_of_def)

lemma page_reads:
  assumes "page_valid G p"
  shows "reads_pairs page_field (page_fields G p) page_empty
    (page_empty\<lparr>pgq_entries := Some (lp_entries p), pgq_next_seq := Some (lp_next_seq p), pgq_oldest_seq := Some (lp_oldest_seq p),
       pgq_complete := Some (lp_complete p)\<rparr>)"
  unfolding page_fields_def
  by (rule reads_Nil | rule reads_Cons | simp only: page_field_simps page_fill.simps | rule slot_rules
      | rule item_rules entries_read [OF assms] | simp add: page_empty_def; fail)+

lemma page_refill: "(page_new (lp_next_seq p) (lp_oldest_seq p) (lp_complete p))\<lparr>lp_entries := lp_entries p\<rparr> = p"
  by (simp add: page_new_def)

lemma page_decode_extended:
  assumes "page_valid G p" and "extends 4 INNER fs" and "length (map_bytes (page_fields G p @ fs)) \<le> MAX_LOG_PAGE_BYTES"
  shows "page_decode (map_bytes (page_fields G p @ fs)) = Inr p"
proof -
  have small: "length (map_bytes (page_fields G p @ fs)) \<le> usize_max"
    using assms(3) by (simp add: limit_defs usize_max_def)
  have "decoding (andthen (map_fields Rl_Cbor page_field page_empty) (\<lambda>slots.
      andthen (finishing Rl_Cbor) (\<lambda>_. page_complete slots))) (map_bytes (page_fields G p @ fs)) = Inr p"
    by (rule decodes_fields [OF page_reads [OF assms(1)] _ _ _ assms(2) _ small])
      (auto intro!: runs_andthen runs_finishing simp: page_complete_def page_field_simps page_fields_ok [OF assms(1)] page_refill)
  then show ?thesis
    using assms(3) by (simp add: page_decode_def)
qed

section \<open>Properties\<close>

text \<open>C17. A log page carries exactly what was pushed, at most \<open>MAX_LOG_PAGE_ENTRIES\<close> records, and its
  cursor is where the page resumes or one past its highest record, whichever is further, so the next
  request repeats none of them; and within \<open>MAX_LOG_PAGE_BYTES\<close> the page is written and read back as
  it was, in whatever order its records stand and with keys of a later version after its own.\<close>

theorem log_page_pages_forward:
  assumes "for_each page_push es (page_new resume oldest complete) = (Inr (), p)"
  shows "lp_entries p = es \<and> length es \<le> MAX_LOG_PAGE_ENTRIES \<and>
    unat (lp_next_seq p) = foldr max (map (\<lambda>e. unat (le_seq e) + 1) es) (unat resume) \<and>
    list_all (\<lambda>e. le_seq e < read_start_at \<lparr>rl_from_seq = lp_next_seq p, rl_max_entries = n\<rparr> o') es \<and>
    (list_all (entry_valid G) es \<longrightarrow> extends 4 INNER fs \<longrightarrow>
       length (map_bytes (page_fields G p @ fs)) \<le> MAX_LOG_PAGE_BYTES \<longrightarrow> MAX_LOG_PAGE_BYTES \<le> length dst \<longrightarrow> length dst \<le> usize_max \<longrightarrow>
       page_decode (map_bytes (page_fields G p @ fs)) = Inr p \<and>
       (\<exists>k out. page_encode p dst = (Inr k, out) \<and> k \<le> MAX_LOG_PAGE_BYTES \<and> page_decode (take k out) = Inr p))"
proof -
  have page: "lp_entries p = es" "length es \<le> MAX_LOG_PAGE_ENTRIES"
    "unat (lp_next_seq p) = foldr max (map (\<lambda>e. unat (le_seq e) + 1) es) (unat resume)"
    using page_pushes [OF assms] by (auto simp: page_new_def)
  have below: "y \<in> set ys \<Longrightarrow> y \<le> foldr max ys (m :: nat)" for y ys m
    by (induction ys) (auto intro: le_max_iff_disj [THEN iffD2])
  have past: "le_seq e < max (lp_next_seq p) o'" if "e \<in> set es" for e
  proof -
    have "unat (le_seq e) + 1 \<le> unat (lp_next_seq p)"
      unfolding page(3) using that by (intro below) simp
    then have "le_seq e < lp_next_seq p"
      by (simp add: word_less_nat_alt)
    then show ?thesis
      by (simp add: less_max_iff_disj)
  qed
  have codec: "page_decode (map_bytes (page_fields G p @ fs)) = Inr p \<and>
      (\<exists>k out. page_encode p dst = (Inr k, out) \<and> k \<le> MAX_LOG_PAGE_BYTES \<and> page_decode (take k out) = Inr p)"
    if "list_all (entry_valid G) es" "extends 4 INNER fs" "length (map_bytes (page_fields G p @ fs)) \<le> MAX_LOG_PAGE_BYTES"
      "MAX_LOG_PAGE_BYTES \<le> length dst" "length dst \<le> usize_max"
  proof -
    have valid: "page_valid G p"
      using that(1) page(1,2) by (simp add: page_valid_def)
    have own: "length (map_bytes (page_fields G p)) \<le> length (map_bytes (page_fields G p @ fs))"
      by (rule map_bytes_prefix) (use that(3) field_bytes_length [of "page_fields G p @ fs"] in \<open>simp add: map_bytes_eq limit_defs\<close>)
    then have "page_encode p dst = (Inr (length (map_bytes (page_fields G p))), splice dst 0 (map_bytes (page_fields G p)))"
      using that valid by (intro page_encode_writes) auto
    moreover have "page_decode (map_bytes (page_fields G p)) = Inr p"
      using page_decode_extended [OF valid, of "[]"] own that(3) by simp
    ultimately show ?thesis
      using page_decode_extended [OF valid that(2,3)] own that(3) by (simp add: splice_def)
  qed
  show ?thesis
    using page past codec by (simp add: read_start_at_def list_all_iff)
qed

lemma log_page_pages_forward_witness:
  "\<exists>p k out. for_each page_push [\<lparr>le_seq = 9, le_at = Some 70000, le_kind = BOOT, le_body = map_bytes []\<rparr>,
       \<lparr>le_seq = 7, le_at = None, le_kind = BOOT, le_body = map_bytes []\<rparr>] (page_new 3 1 False) = (Inr (), p) \<and>
     unat (lp_next_seq p) = 10 \<and> page_encode p (replicate 1000 0) = (Inr k, out) \<and> page_decode (take k out) = Inr p"
proof -
  let ?es = "[\<lparr>le_seq = 9, le_at = Some 70000, le_kind = BOOT, le_body = map_bytes []\<rparr>,
       \<lparr>le_seq = 7, le_at = None, le_kind = BOOT, le_body = map_bytes []\<rparr>]"
  let ?p = "\<lparr>lp_entries = ?es, lp_next_seq = 10, lp_oldest_seq = 1, lp_complete = False\<rparr>"
  have pushed: "for_each page_push ?es (page_new 3 1 False) = (Inr (), ?p)"
    by (simp add: page_push_def page_new_def limit_defs andthen_def)
  have w: "width_of 70000 = Four" "width_of 0x0601 = Two" "width_of 10 = Inline"
    by (simp_all add: width_of_def)
  have valid: "list_all (entry_valid (\<lambda>_. [])) ?es"
    by (simp add: entry_valid_def map_bytes_eq limit_defs)
  have room: "length (map_bytes (page_fields (\<lambda>_. []) ?p @ [])) \<le> MAX_LOG_PAGE_BYTES"
    by (simp add: page_fields_def entry_item_def event_fields_def entry_event_def map_bytes_eq BOOT_def map_item_def pairs_of_def
        key_rank_def w limit_defs)
  have "list_all (entry_valid (\<lambda>_. [])) ?es" "extends 4 INNER []" "MAX_LOG_PAGE_BYTES \<le> length (replicate 1000 (0 :: u8))"
    "length (replicate 1000 (0 :: u8)) \<le> usize_max"
    using valid by (simp_all add: limit_defs usize_max_def)
  then obtain k out where "page_encode ?p (replicate 1000 0) = (Inr k, out)" "page_decode (take k out) = Inr ?p"
    using log_page_pages_forward [OF pushed, where G = "\<lambda>_. []" and fs = "[]" and dst = "replicate 1000 0"] room by blast
  with pushed show ?thesis
    by (intro exI conjI) (assumption | simp)+
qed

section \<open>A page that its own trailer does not fit\<close>

text \<open>\<open>LogPage::encode\<close> promises to refuse a page past the cap as too long for a page. It does so when a
  record outgrows the cap, and not when the keys after the records do: those are refused as a buffer
  that was too small, and answered as a malformed frame.\<close>

lemma write_key_short:
  assumes "writing w ((NMap, n, l) # rest) out dst" and "even n" and "next_key k l" and "length dst < length out + length (key_bytes k)"
  shows "fst (wr_key k w) = Inl CborDestinationTooSmall"
proof -
  let ?L = "(NMap, n, l) # rest" and ?w = "settled w"
  have k: "0 \<le> k" and above: "above_key (KeyRank False (of_int k)) l"
    using assms(3) by (simp_all add: next_key_iff good_key_def key_rank_def)
  have w: "writing ?w ?L out dst" "levels (wr_nest ?w) = ?L"
    using writing_settled [OF assms(1)] by auto
  then have nest: "nest_ok (wr_nest ?w)" and at: "at_key (wr_nest ?w)"
    using assms(2) by (auto simp: writing_def writer_ok_def at_key_levels)
  obtain m where m: "take_key (of_int k) (wr_nest ?w) = (Inr (), m)" "nest_ok m"
    using take_key_levels(1) [OF nest w(2) above] by blast
  let ?v = "?w\<lparr>wr_nest := m\<rparr>"
  have ok: "writer_ok ?v" "length (wr_dst ?v) < wr_next ?v + length (key_bytes k)"
    using w(1) m(2) assms(4) by (auto simp: writing_def writer_ok_def)
  have "wr_key k w = andthen (wr_head Unsigned (of_int k) 0) (\<lambda>_. in_nest count_item) ?v"
    using k at m(1) by (simp add: wr_key_def andthen_def in_nest_def settled_def)
  then show ?thesis
    using emits_count [OF emits_head ok(1)] ok(2) by (simp add: key_bytes_def)
qed

lemma page_trailer_refused:
  assumes "page_valid G p" and "length dst = 1024"
    and "1 + length (field_bytes [(1, IArray (map (entry_item G) (lp_entries p)))]) = MAX_LOG_PAGE_BYTES"
  shows "fst (page_encode p dst) = Inl (Rl_Cbor CborDestinationTooSmall)"
proof -
  let ?room = "take MAX_LOG_PAGE_BYTES dst" and ?fs = "[(1, IArray (map (entry_item G) (lp_entries p)))]"
  let ?entries = "andthen (map_err Rl_Cbor (wr_array (length (lp_entries p)))) (\<lambda>_.
       for_each (\<lambda>e. map_err (entry_too_long True) (entry_encode e)) (lp_entries p))"
  let ?first = "andthen (map_err Rl_Cbor (wr_map 4)) (\<lambda>_. andthen (map_err Rl_Cbor (wr_key 1)) (\<lambda>_. ?entries))"
  let ?rest = "\<lambda>_::unit. andthen (map_err Rl_Cbor (wr_key 2)) (\<lambda>_.
     andthen (map_err Rl_Cbor (wr_u64 (lp_next_seq p))) (\<lambda>_.
     andthen (map_err Rl_Cbor (wr_key 3)) (\<lambda>_.
     andthen (map_err Rl_Cbor (wr_u64 (lp_oldest_seq p))) (\<lambda>_.
     andthen (map_err Rl_Cbor (wr_key 4)) (\<lambda>_.
     map_err Rl_Cbor (wr_bool (lp_complete p)))))))"
  have room: "length ?room = MAX_LOG_PAGE_BYTES" "MAX_LOG_PAGE_BYTES \<le> usize_max"
    using assms(2) by (simp_all add: limit_defs usize_max_def)
  have pairs: "writes_pairs (andthen (map_err Rl_Cbor (wr_key 1)) (\<lambda>_. ?entries)) ?fs"
    using assms(1) by (intro item_rules) (simp_all add: page_valid_def list_all_iff)
  have depth: "shallow 7 ?fs"
    using page_fields_ok(2) [OF assms(1)] by (simp add: page_fields_def del: item_depth.simps)
  have "runs (andthen (map_err Rl_Cbor (wr_map 4)) (\<lambda>_. andthen (map_err Rl_Cbor (wr_key 1)) (\<lambda>_. ?entries))) (writer_over ?room)
      (\<lambda>_ w. writing w [(NMap, 6, Some (key_rank 1))] (head_bytes Map 4 @ field_bytes ?fs) ?room)"
  proof (rule runs_andthen, rule runs_map_err, rule write_map_rule [where L = "[]" and out = "[]"])
    show "writing (writer_over ?room) [] [] ?room"
      using room by (intro writing_over) simp
    fix w
    assume "writing w (settle_levels ((NMap, 2 * 4, None) # count_levels [])) ([] @ head_bytes Map (of_nat 4)) ?room"
    then have w: "writing w (settle_levels ((NMap, 2 * length ?fs + 6, None) # [])) (head_bytes Map 4) ?room"
      by simp
    show "runs (andthen (map_err Rl_Cbor (wr_key 1)) (\<lambda>_. ?entries)) w
        (\<lambda>_ w. writing w [(NMap, 6, Some (key_rank 1))] (head_bytes Map 4 @ field_bytes ?fs) ?room)"
      using writes_pairsD [OF pairs w _ _ depth] assms(3) room
      by (simp add: NESTING_val good_key_def del: item_depth.simps enc_item.simps field_bytes_simps)
  qed (use room in \<open>simp_all add: NESTING_val usize_max_def limit_defs\<close>)
  then obtain w where w: "andthen (map_err Rl_Cbor (wr_map 4)) (\<lambda>_. andthen (map_err Rl_Cbor (wr_key 1)) (\<lambda>_. ?entries)) (writer_over ?room) = (Inr (), w)"
    "writing w [(NMap, 6, Some (key_rank 1))] (head_bytes Map 4 @ field_bytes ?fs) ?room"
    by (auto simp: runs_def)
  have "fst (wr_key 2 w) = Inl CborDestinationTooSmall"
    by (rule write_key_short [OF w(2)]) (use assms(3) room(1) in \<open>simp_all add: next_key_iff good_key_def key_rank_less
        del: item_depth.simps enc_item.simps field_bytes_simps\<close>)
  then obtain v where v: "wr_key 2 w = (Inl CborDestinationTooSmall, v)"
    by (cases "wr_key 2 w") simp
  have eq: "page_writes True p = andthen (andthen (map_err Rl_Cbor (wr_map 4)) (\<lambda>_. andthen (map_err Rl_Cbor (wr_key 1)) (\<lambda>_. ?entries))) ?rest"
    by (simp add: page_writes_def PAGE_KEY_COUNT_def andthen_assoc)
  have "page_writes True p (writer_over ?room) = (Inl (Rl_Cbor CborDestinationTooSmall), v)"
    unfolding eq by (simp only: andthen_Inr [where m = ?first and f = ?rest, OF w(1)]) (simp add: v)
  then show ?thesis
    using assms(2) by (simp add: page_encode_def encoding_def limit_defs)
qed

lemma page_past_the_cap_is_not_too_long:
  "\<exists>p. length (lp_entries p) = 1 \<and> fst (page_encode p (replicate 1024 0)) = Inl (Rl_Cbor CborDestinationTooSmall) \<and>
     readlog_refusal (Rl_Cbor CborDestinationTooSmall) = RefuseClient Ec_MalformedFrame"
proof -
  let ?G = "\<lambda>e. [(1, IBytes (replicate 880 0))]"
  let ?e = "\<lparr>le_seq = 0, le_at = None, le_kind = BOOT, le_body = map_bytes [(1, IBytes (replicate 880 0))]\<rparr>"
  let ?p = "\<lparr>lp_entries = [?e], lp_next_seq = 1, lp_oldest_seq = 0, lp_complete = True\<rparr>"
  have w: "width_of 880 = Two" "width_of 0x0601 = Two"
    by (simp_all add: width_of_def)
  have "page_valid ?G ?p"
    by (simp add: page_valid_def entry_valid_def map_bytes_eq limit_defs w good_key_def)
  moreover have "1 + length (field_bytes [(1, IArray (map (entry_item ?G) (lp_entries ?p)))]) = MAX_LOG_PAGE_BYTES"
    by (simp add: entry_item_def event_fields_def entry_event_def BOOT_def map_item_def pairs_of_def
        key_rank_def w limit_defs)
  ultimately show ?thesis
    using page_trailer_refused [of ?G ?p "replicate 1024 0"] by (intro exI [of _ ?p]) simp
qed

end
