(* ===== verification/Command.thy ===== *)
theory Command
  imports Codec_Rules
begin

text \<open>
  \<open>crates/km43/src/command.rs\<close>: the operation a client signs to act on an output and the controller's
  answer. The arguments travel as the bytes of one map that nothing here looks inside.
\<close>

definition MAX_COMMAND_ACK_BYTES :: nat where
  "MAX_COMMAND_ACK_BYTES = 1 + (1 + 5) + (1 + 1) + (1 + 2 + MAX_STRING)"

datatype command_key = Cmk_CmdId | Cmk_Kind | Cmk_Args

definition COMMAND_KEY_COUNT :: nat where "COMMAND_KEY_COUNT = 3"

definition command_key_of :: "int \<Rightarrow> command_key option" where
  "command_key_of number =
     (if number = 1 then Some Cmk_CmdId
      else if number = 2 then Some Cmk_Kind
      else if number = 3 then Some Cmk_Args
      else None)"

primrec command_key_number :: "command_key \<Rightarrow> int" where
  "command_key_number Cmk_CmdId = 1"
| "command_key_number Cmk_Kind = 2"
| "command_key_number Cmk_Args = 3"

datatype command_ack_key = Cak_CmdId | Cak_Outcome | Cak_Detail

definition COMMAND_ACK_KEY_COUNT :: nat where "COMMAND_ACK_KEY_COUNT = 3"

definition command_ack_key_of :: "int \<Rightarrow> command_ack_key option" where
  "command_ack_key_of number =
     (if number = 1 then Some Cak_CmdId
      else if number = 2 then Some Cak_Outcome
      else if number = 3 then Some Cak_Detail
      else None)"

primrec command_ack_key_number :: "command_ack_key \<Rightarrow> int" where
  "command_ack_key_number Cak_CmdId = 1"
| "command_ack_key_number Cak_Outcome = 2"
| "command_ack_key_number Cak_Detail = 3"

datatype command_body_key = OperationKey command_key | AckKey command_ack_key

datatype command_error =
    Cm_Missing command_body_key
  | Cm_Duplicate command_body_key
  | Cm_UnknownKind u16
  | Cm_UnknownOutcome u8
  | Cm_ArgsNotAMap
  | Cm_Cbor cbor_error

definition command_refusal :: "command_error \<Rightarrow> refusal" where
  "command_refusal why = RefuseClient Ec_MalformedFrame"

definition a_map :: "bytes \<Rightarrow> command_error + unit" where
  "a_map args = map_sum (\<lambda>_. Cm_ArgsNotAMap) (\<lambda>_. ()) (fst (rd_map (reader_over args)))"

section \<open>The operation\<close>

record command_operation =
  co_cmd_id :: u32
  co_kind :: command_kind
  co_args :: bytes

definition command_op_encode :: "command_operation \<Rightarrow> bytes \<Rightarrow> (command_error + nat) \<times> bytes" where
  "command_op_encode op dst =
     (case a_map (co_args op) of
        Inl why \<Rightarrow> (Inl why, dst)
      | Inr _ \<Rightarrow> encoding Cm_Cbor (map_err Cm_Cbor (andthen (wr_map COMMAND_KEY_COUNT) (\<lambda>_.
          andthen (wr_key (command_key_number Cmk_CmdId)) (\<lambda>_. andthen (wr_u64 (ucast (co_cmd_id op))) (\<lambda>_.
          andthen (wr_key (command_key_number Cmk_Kind)) (\<lambda>_. andthen (wr_u64 (ucast (command_kind_num (co_kind op)))) (\<lambda>_.
          andthen (wr_key (command_key_number Cmk_Args)) (\<lambda>_. wr_raw (co_args op))))))))) dst)"

record command_op_slots =
  cq_cmd_id :: "u32 option"
  cq_kind :: "command_kind option"
  cq_args :: "bytes option"

definition command_op_empty :: command_op_slots where
  "command_op_empty = \<lparr>cq_cmd_id = None, cq_kind = None, cq_args = None\<rparr>"

definition checked_args :: "bytes \<Rightarrow> command_error + bytes" where
  "checked_args raw = map_sum id (\<lambda>_. raw) (a_map raw)"

primrec command_op_fill :: "command_key \<Rightarrow> command_op_slots \<Rightarrow> (reader, command_error, command_op_slots) act" where
  "command_op_fill Cmk_CmdId slots =
     andthen (map_err Cm_Cbor rd_u32) (\<lambda>v.
     andthen (once (Cm_Duplicate (OperationKey Cmk_CmdId)) (cq_cmd_id slots) v) (\<lambda>t. ret (slots\<lparr>cq_cmd_id := t\<rparr>)))"
| "command_op_fill Cmk_Kind slots =
     andthen (map_err Cm_Cbor rd_u16) (\<lambda>v. andthen (lift_sum (allocated command_kind_of Cm_UnknownKind v)) (\<lambda>w.
     andthen (once (Cm_Duplicate (OperationKey Cmk_Kind)) (cq_kind slots) w) (\<lambda>t. ret (slots\<lparr>cq_kind := t\<rparr>))))"
| "command_op_fill Cmk_Args slots =
     andthen (map_err Cm_Cbor rd_raw) (\<lambda>v. andthen (lift_sum (checked_args v)) (\<lambda>w.
     andthen (once (Cm_Duplicate (OperationKey Cmk_Args)) (cq_args slots) w) (\<lambda>t. ret (slots\<lparr>cq_args := t\<rparr>))))"

definition command_op_field :: "command_op_slots \<Rightarrow> int \<Rightarrow> (reader, command_error, command_op_slots) act" where
  "command_op_field slots number =
     (case command_key_of number of Some key \<Rightarrow> command_op_fill key slots | None \<Rightarrow> skipped Cm_Cbor slots)"

definition command_op_complete :: "command_op_slots \<Rightarrow> (reader, command_error, command_operation) act" where
  "command_op_complete slots =
     andthen (ok_or (Cm_Missing (OperationKey Cmk_CmdId)) (cq_cmd_id slots)) (\<lambda>cmd_id.
     andthen (ok_or (Cm_Missing (OperationKey Cmk_Kind)) (cq_kind slots)) (\<lambda>ck.
     andthen (ok_or (Cm_Missing (OperationKey Cmk_Args)) (cq_args slots)) (\<lambda>args.
     ret \<lparr>co_cmd_id = cmd_id, co_kind = ck, co_args = args\<rparr>)))"

definition command_op_decode :: "bytes \<Rightarrow> command_error + command_operation" where
  "command_op_decode = decoding (
     andthen (map_fields Cm_Cbor command_op_field command_op_empty) (\<lambda>slots.
     andthen (finishing Cm_Cbor) (\<lambda>_. command_op_complete slots)))"

section \<open>The answer\<close>

record command_ack =
  ca_cmd_id :: u32
  ca_outcome :: command_outcome
  ca_detail :: bytes

definition command_ack_pairs :: "command_ack \<Rightarrow> (writer, cbor_error, unit) act" where
  "command_ack_pairs x =
     andthen (wr_key (command_ack_key_number Cak_CmdId)) (\<lambda>_. andthen (wr_u64 (ucast (ca_cmd_id x))) (\<lambda>_.
     andthen (wr_key (command_ack_key_number Cak_Outcome)) (\<lambda>_. andthen (wr_u64 (ucast (command_outcome_num (ca_outcome x)))) (\<lambda>_.
     andthen (wr_key (command_ack_key_number Cak_Detail)) (\<lambda>_. wr_text (ca_detail x))))))"

definition command_ack_encode :: "command_ack \<Rightarrow> bytes \<Rightarrow> (command_error + nat) \<times> bytes" where
  "command_ack_encode x =
     encoding Cm_Cbor (map_err Cm_Cbor (andthen (wr_map 3) (\<lambda>_. command_ack_pairs x)))"

record command_ack_slots =
  caq_cmd_id :: "u32 option"
  caq_outcome :: "command_outcome option"
  caq_detail :: "bytes option"

definition command_ack_empty :: command_ack_slots where
  "command_ack_empty = \<lparr>caq_cmd_id = None, caq_outcome = None, caq_detail = None\<rparr>"

primrec command_ack_fill :: "command_ack_key \<Rightarrow> command_ack_slots \<Rightarrow> (reader, command_error, command_ack_slots) act" where
  "command_ack_fill Cak_CmdId slots =
     andthen (map_err Cm_Cbor rd_u32) (\<lambda>v.
     andthen (once (Cm_Duplicate (AckKey Cak_CmdId)) (caq_cmd_id slots) v) (\<lambda>t. ret (slots\<lparr>caq_cmd_id := t\<rparr>)))"
| "command_ack_fill Cak_Outcome slots =
     andthen (map_err Cm_Cbor rd_u8) (\<lambda>v. andthen (lift_sum (allocated command_outcome_of Cm_UnknownOutcome v)) (\<lambda>w.
     andthen (once (Cm_Duplicate (AckKey Cak_Outcome)) (caq_outcome slots) w) (\<lambda>t. ret (slots\<lparr>caq_outcome := t\<rparr>))))"
| "command_ack_fill Cak_Detail slots =
     andthen (map_err Cm_Cbor rd_text) (\<lambda>v.
     andthen (once (Cm_Duplicate (AckKey Cak_Detail)) (caq_detail slots) v) (\<lambda>t. ret (slots\<lparr>caq_detail := t\<rparr>)))"

definition command_ack_field :: "command_ack_slots \<Rightarrow> int \<Rightarrow> (reader, command_error, command_ack_slots) act" where
  "command_ack_field slots number =
     (case command_ack_key_of number of Some key \<Rightarrow> command_ack_fill key slots | None \<Rightarrow> skipped Cm_Cbor slots)"

definition command_ack_complete :: "command_ack_slots \<Rightarrow> (reader, command_error, command_ack) act" where
  "command_ack_complete slots =
     andthen (ok_or (Cm_Missing (AckKey Cak_CmdId)) (caq_cmd_id slots)) (\<lambda>cmd_id.
     andthen (ok_or (Cm_Missing (AckKey Cak_Outcome)) (caq_outcome slots)) (\<lambda>outcome.
     andthen (ok_or (Cm_Missing (AckKey Cak_Detail)) (caq_detail slots)) (\<lambda>detail.
     ret \<lparr>ca_cmd_id = cmd_id, ca_outcome = outcome, ca_detail = detail\<rparr>)))"

definition command_ack_decode :: "bytes \<Rightarrow> command_error + command_ack" where
  "command_ack_decode = decoding (
     andthen (map_fields Cm_Cbor command_ack_field command_ack_empty) (\<lambda>slots.
     andthen (finishing Cm_Cbor) (\<lambda>_. command_ack_complete slots)))"

section \<open>The codecs\<close>

text \<open>\<open>G\<close> gives the map the arguments are.\<close>

definition command_op_fields :: "(bytes \<Rightarrow> (int \<times> item) list) \<Rightarrow> command_operation \<Rightarrow> (int \<times> item) list" where
  "command_op_fields G op =
     [(1, IUint (ucast (co_cmd_id op))), (2, IUint (ucast (command_kind_num (co_kind op)))), (3, map_item (G (co_args op)))]"

definition command_op_valid :: "(bytes \<Rightarrow> (int \<times> item) list) \<Rightarrow> command_operation \<Rightarrow> bool" where
  "command_op_valid G op \<longleftrightarrow> co_args op = map_bytes (G (co_args op)) \<and> extends (- 1) 6 (G (co_args op)) \<and>
     length (co_args op) \<le> usize_max"

lemma allocated_num [simp]:
  "allocated command_kind_of f (command_kind_num c) = Inr c" "allocated command_outcome_of g (command_outcome_num d) = Inr d"
  unfolding allocated_def command_kind.of_num_of command_outcome.of_num_of by simp_all

lemma a_map_own:
  assumes "length (map_bytes gs) \<le> usize_max"
  shows "a_map (map_bytes gs) = Inr ()"
proof -
  have "runs rd_map (reader_over (map_bytes gs)) (\<lambda>_ _. True)"
  proof (rule read_map_rule)
    show "reading (reader_over (map_bytes gs)) [] (head_bytes Map (of_nat (length gs)) @ field_bytes gs)"
      using reading_over [OF assms] by (simp add: map_bytes_eq)
  qed (use field_bytes_length [of gs] in \<open>simp_all add: NESTING_val\<close>)
  then show ?thesis
    by (auto simp: a_map_def runs_def)
qed

lemma command_op_args:
  assumes "command_op_valid G op"
  shows "a_map (co_args op) = Inr ()" and "wf_item (map_item (G (co_args op)))" and "item_depth (map_item (G (co_args op))) \<le> 7"
    and "enc_item (map_item (G (co_args op))) = co_args op"
proof -
  have own: "co_args op = map_bytes (G (co_args op))" "extends (- 1) 6 (G (co_args op))" "length (co_args op) \<le> usize_max"
    using assms by (auto simp: command_op_valid_def)
  show "a_map (co_args op) = Inr ()"
    using a_map_own [of "G (co_args op)"] own(1,3) by simp
  show "wf_item (map_item (G (co_args op)))" "item_depth (map_item (G (co_args op))) \<le> 7"
    "enc_item (map_item (G (co_args op))) = co_args op"
    using map_of_own_bytes [OF own(1,2)] by simp_all
qed

lemma command_op_ok:
  assumes "command_op_valid G op"
  shows "ascending None (command_op_fields G op)" "shallow 7 (command_op_fields G op)" "known 3 (command_op_fields G op)"
    "length (command_op_fields G op) = 3"
  using command_op_args(3) [OF assms] by (auto simp: command_op_fields_def good_key_def)

lemma command_op_field_simps:
  "command_op_field s 1 = command_op_fill Cmk_CmdId s"
  "command_op_field s 2 = command_op_fill Cmk_Kind s"
  "command_op_field s 3 = command_op_fill Cmk_Args s"
  "3 < j \<Longrightarrow> command_op_field s j = skipped Cm_Cbor s"
  by (simp_all add: command_op_field_def command_key_of_def)

lemma command_op_reads:
  assumes "command_op_valid G op"
  shows "reads_pairs command_op_field (command_op_fields G op) command_op_empty
    \<lparr>cq_cmd_id = Some (co_cmd_id op), cq_kind = Some (co_kind op), cq_args = Some (co_args op)\<rparr>"
proof -
  note args = command_op_args [OF assms]
  have raw: "reads_item (map_err Cm_Cbor rd_raw) (map_item (G (co_args op))) (co_args op)"
    using reads_map_err [OF reads_raw [OF args(2)], of Cm_Cbor] by (simp add: args(4))
  have checked: "checked_args (co_args op) = Inr (co_args op)"
    by (simp add: checked_args_def args(1))
  show ?thesis
    by (rule reads_eq, unfold command_op_fields_def)
      (rule reads_Nil | rule reads_Cons | simp only: command_op_field_simps command_op_fill.simps | rule slot_rules
      | rule raw checked | rule item_rules allocated_num | simp add: command_op_empty_def; fail)+
qed

interpretation command_op: body_codec command_op_encode command_op_decode "command_op_fields G" "command_op_valid G" 3 for G
proof
  fix x and dst :: bytes
  assume x: "command_op_valid G x" "length (map_bytes (command_op_fields G x)) \<le> length dst" "length dst \<le> usize_max"
  note args = command_op_args [OF x(1)]
  have "writes_item (wr_raw (co_args x)) (map_item (G (co_args x)))"
    using writes_raw [OF args(2)] by (simp add: args(4))
  then have "writes_pairs (andthen (wr_key (command_key_number Cmk_CmdId)) (\<lambda>_. andthen (wr_u64 (ucast (co_cmd_id x))) (\<lambda>_.
          andthen (wr_key (command_key_number Cmk_Kind)) (\<lambda>_. andthen (wr_u64 (ucast (command_kind_num (co_kind x)))) (\<lambda>_.
          andthen (wr_key (command_key_number Cmk_Args)) (\<lambda>_. wr_raw (co_args x))))))) (command_op_fields G x)"
    unfolding command_op_fields_def command_key_number.simps by (intro item_rules)
  from encodes_fields [OF this command_op_ok(1,2) [OF x(1)] _ x(2,3)] command_op_ok(4) [OF x(1)]
  show "command_op_encode x dst = (Inr (length (map_bytes (command_op_fields G x))), splice dst 0 (map_bytes (command_op_fields G x)))"
    by (simp add: command_op_encode_def COMMAND_KEY_COUNT_def args(1))
next
  fix x fs
  assume x: "command_op_valid G x" "extends 3 INNER fs" "length (map_bytes (command_op_fields G x @ fs)) \<le> usize_max"
  show "command_op_decode (map_bytes (command_op_fields G x @ fs)) = Inr x"
    unfolding command_op_decode_def
    by (rule decodes_fields [OF command_op_reads [OF x(1)] command_op_ok(1-3) [OF x(1)] x(2) _ x(3)])
      (auto intro!: runs_andthen runs_finishing simp: command_op_complete_def command_op_field_simps)
qed

definition command_ack_fields :: "command_ack \<Rightarrow> (int \<times> item) list" where
  "command_ack_fields x =
     [(1, IUint (ucast (ca_cmd_id x))), (2, IUint (ucast (command_outcome_num (ca_outcome x)))), (3, IText (ca_detail x))]"

definition command_ack_valid :: "command_ack \<Rightarrow> bool" where
  "command_ack_valid x \<longleftrightarrow> text_ok (ca_detail x)"

lemma command_ack_ok [simp]:
  "ascending None (command_ack_fields x)" "shallow room (command_ack_fields x)" "known 3 (command_ack_fields x)"
  "length (command_ack_fields x) = 3"
  by (auto simp: command_ack_fields_def good_key_def split: option.split)

lemma command_ack_writes:
  assumes "command_ack_valid x"
  shows "writes_pairs (command_ack_pairs x) (command_ack_fields x)"
  using assms unfolding command_ack_pairs_def command_ack_fields_def command_ack_key_number.simps
  by (intro writes_append writes_option item_rules) (simp_all add: command_ack_valid_def text_ok_def)

lemma command_ack_field_simps:
  "command_ack_field s 1 = command_ack_fill Cak_CmdId s"
  "command_ack_field s 2 = command_ack_fill Cak_Outcome s"
  "command_ack_field s 3 = command_ack_fill Cak_Detail s"
  "3 < j \<Longrightarrow> command_ack_field s j = skipped Cm_Cbor s"
  by (simp_all add: command_ack_field_def command_ack_key_of_def)

lemma command_ack_reads:
  assumes "command_ack_valid x"
  shows "reads_pairs command_ack_field (command_ack_fields x) command_ack_empty
    \<lparr>caq_cmd_id = Some (ca_cmd_id x), caq_outcome = Some (ca_outcome x), caq_detail = Some (ca_detail x)\<rparr>"
proof -
  have ok: "text_ok (ca_detail x)"
    using assms by (auto simp: command_ack_valid_def)
  show ?thesis
    by (rule reads_eq, unfold command_ack_fields_def)
      (rule reads_Nil | rule reads_Cons | rule reads_pairs_append, rule reads_optional | rule reads_optional | simp only: command_ack_field_simps command_ack_fill.simps
      | rule slot_rules | rule item_rules allocated_num text_okD ok | assumption | simp add: command_ack_empty_def; fail)+
qed

interpretation command_ack: body_codec command_ack_encode command_ack_decode command_ack_fields command_ack_valid 3
proof
  fix x and dst :: bytes
  assume x: "command_ack_valid x" "length (map_bytes (command_ack_fields x)) \<le> length dst" "length dst \<le> usize_max"
  then show "command_ack_encode x dst = (Inr (length (map_bytes (command_ack_fields x))), splice dst 0 (map_bytes (command_ack_fields x)))"
    unfolding command_ack_encode_def by (simp add: encodes_fields [OF command_ack_writes [OF x(1)]])
next
  fix x fs
  assume x: "command_ack_valid x" "extends 3 INNER fs" "length (map_bytes (command_ack_fields x @ fs)) \<le> usize_max"
  show "command_ack_decode (map_bytes (command_ack_fields x @ fs)) = Inr x"
    unfolding command_ack_decode_def
    by (rule decodes_fields [OF command_ack_reads [OF x(1)] _ _ _ x(2) _ x(3)])
      (auto intro!: runs_andthen runs_finishing simp: command_ack_complete_def command_ack_field_simps)
qed

definition command_ack_kept :: "command_ack_slots \<Rightarrow> bool" where
  "command_ack_kept s \<longleftrightarrow> (\<forall>v. caq_detail s = Some v \<longrightarrow> text_ok v)"

lemma command_ack_none: "command_ack_kept command_ack_empty"
  by (simp add: command_ack_kept_def command_ack_empty_def)

lemma command_ack_keeps:
  assumes "command_ack_kept a" and "command_ack_field a k s = (Inr a', s')"
  shows "command_ack_kept a'"
proof (cases "command_ack_key_of k")
  case None
  then show ?thesis
    using assms by (auto simp: command_ack_field_def elim: skipped_InrE)
next
  case (Some key)
  then show ?thesis
    using assms by (cases key)
      (auto simp: command_ack_field_def command_ack_kept_def elim!: slot_InrE plain_slot_InrE map_err_InrE dest: allocated_InrD rd_text_ok)
qed

interpretation command_ack: faithful_codec command_ack_encode command_ack_decode command_ack_fields command_ack_valid 3
proof
  fix bs x assume "command_ack_decode bs = Inr x"
  then obtain slots s t where "command_ack_kept slots" "command_ack_complete slots s = (Inr x, t)"
    unfolding command_ack_decode_def
    by (rule body_InrE [where P = command_ack_kept, OF _ command_ack_none]) (blast intro: command_ack_keeps)+
  then show "command_ack_valid x"
    by (auto simp: command_ack_complete_def command_ack_kept_def command_ack_valid_def elim!: decode_InrE)
qed

end
