(* ===== verification/Boot.thy ===== *)
theory Boot
  imports Codec_Rules
begin

text \<open>
  \<open>crates/km43/src/boot.rs\<close>: the body of the boot record, why the controller came up and what the run
  before it said last; and \<open>counter.rs\<close>, the judgement of a counter that went backwards. The last
  words ride with the reason that explains them and with no other.
\<close>

definition BOOT_MAX_BYTES :: nat where "BOOT_MAX_BYTES = 21"

record starved =
  st_task :: u8
  st_overdue_ms :: u32

record panic_site =
  ps_file :: u32
  ps_line :: u32

datatype boot_cause =
    Bc_Power
  | Bc_Watchdog "starved option"
  | Bc_SoftwareReset
  | Bc_Panic panic_site
  | Bc_PinReset
  | Bc_OptionByteReload
  | Bc_WindowWatchdog
  | Bc_LowPowerEntry

primrec cause_reason :: "boot_cause \<Rightarrow> boot_reason" where
  "cause_reason Bc_Power = Br_Power"
| "cause_reason (Bc_Watchdog _) = Br_Watchdog"
| "cause_reason Bc_SoftwareReset = Br_SoftwareReset"
| "cause_reason (Bc_Panic _) = Br_Panic"
| "cause_reason Bc_PinReset = Br_PinReset"
| "cause_reason Bc_OptionByteReload = Br_OptionByteReload"
| "cause_reason Bc_WindowWatchdog = Br_WindowWatchdog"
| "cause_reason Bc_LowPowerEntry = Br_LowPowerEntry"

record boot =
  bo_cause :: boot_cause
  bo_backup_valid :: bool
  bo_rtc_crystal :: bool
  bo_rail_cycled :: bool

datatype boot_error =
    Bo_Missing u8
  | Bo_Duplicate u8
  | Bo_UnknownReason u8
  | Bo_WordsWithoutTheirReason boot_reason
  | Bo_Cbor cbor_error

definition boot_refusal :: "boot_error \<Rightarrow> refusal" where
  "boot_refusal why = RefuseClient Ec_MalformedFrame"

section \<open>Writing\<close>

fun cause_words :: "boot_cause \<Rightarrow> nat" where
  "cause_words (Bc_Watchdog (Some _)) = 2"
| "cause_words (Bc_Panic _) = 2"
| "cause_words _ = 0"

fun words_pairs :: "boot_cause \<Rightarrow> (writer, cbor_error, unit) act" where
  "words_pairs (Bc_Watchdog (Some s)) =
     andthen (wr_key 5) (\<lambda>_. andthen (wr_u64 (ucast (st_task s))) (\<lambda>_.
     andthen (wr_key 6) (\<lambda>_. wr_u64 (ucast (st_overdue_ms s)))))"
| "words_pairs (Bc_Panic p) =
     andthen (wr_key 7) (\<lambda>_. andthen (wr_u64 (ucast (ps_file p))) (\<lambda>_.
     andthen (wr_key 8) (\<lambda>_. wr_u64 (ucast (ps_line p)))))"
| "words_pairs _ = ret ()"

definition boot_pairs :: "boot \<Rightarrow> (writer, cbor_error, unit) act" where
  "boot_pairs b =
     andthen (wr_key 1) (\<lambda>_. andthen (wr_u64 (ucast (boot_reason_num (cause_reason (bo_cause b))))) (\<lambda>_.
     andthen (wr_key 2) (\<lambda>_. andthen (wr_bool (bo_backup_valid b)) (\<lambda>_.
     andthen (wr_key 3) (\<lambda>_. andthen (wr_bool (bo_rtc_crystal b)) (\<lambda>_.
     andthen (wr_key 4) (\<lambda>_. andthen (wr_bool (bo_rail_cycled b)) (\<lambda>_.
     words_pairs (bo_cause b)))))))))"

definition boot_encode :: "boot \<Rightarrow> bytes \<Rightarrow> (boot_error + nat) \<times> bytes" where
  "boot_encode b = encoding Bo_Cbor (map_err Bo_Cbor (andthen (wr_map (4 + cause_words (bo_cause b))) (\<lambda>_. boot_pairs b)))"

section \<open>Reading\<close>

record boot_slots =
  bq_reason :: "boot_reason option"
  bq_backup_valid :: "bool option"
  bq_rtc_crystal :: "bool option"
  bq_rail_cycled :: "bool option"
  bq_task :: "u8 option"
  bq_overdue_ms :: "u32 option"
  bq_file :: "u32 option"
  bq_line :: "u32 option"

definition boot_empty :: boot_slots where
  "boot_empty = \<lparr>bq_reason = None, bq_backup_valid = None, bq_rtc_crystal = None, bq_rail_cycled = None, bq_task = None, bq_overdue_ms = None, bq_file = None, bq_line = None\<rparr>"

definition boot_field :: "boot_slots \<Rightarrow> int \<Rightarrow> (reader, boot_error, boot_slots) act" where
  "boot_field slots number =
     (if number = 1 then
     andthen (map_err Bo_Cbor rd_u8) (\<lambda>v. andthen (lift_sum (allocated boot_reason_of Bo_UnknownReason v)) (\<lambda>w.
     andthen (once (Bo_Duplicate 1) (bq_reason slots) w) (\<lambda>t. ret (slots\<lparr>bq_reason := t\<rparr>))))
      else if number = 2 then
     andthen (map_err Bo_Cbor rd_bool) (\<lambda>v.
     andthen (once (Bo_Duplicate 2) (bq_backup_valid slots) v) (\<lambda>t. ret (slots\<lparr>bq_backup_valid := t\<rparr>)))
      else if number = 3 then
     andthen (map_err Bo_Cbor rd_bool) (\<lambda>v.
     andthen (once (Bo_Duplicate 3) (bq_rtc_crystal slots) v) (\<lambda>t. ret (slots\<lparr>bq_rtc_crystal := t\<rparr>)))
      else if number = 4 then
     andthen (map_err Bo_Cbor rd_bool) (\<lambda>v.
     andthen (once (Bo_Duplicate 4) (bq_rail_cycled slots) v) (\<lambda>t. ret (slots\<lparr>bq_rail_cycled := t\<rparr>)))
      else if number = 5 then
     andthen (map_err Bo_Cbor rd_u8) (\<lambda>v.
     andthen (once (Bo_Duplicate 5) (bq_task slots) v) (\<lambda>t. ret (slots\<lparr>bq_task := t\<rparr>)))
      else if number = 6 then
     andthen (map_err Bo_Cbor rd_u32) (\<lambda>v.
     andthen (once (Bo_Duplicate 6) (bq_overdue_ms slots) v) (\<lambda>t. ret (slots\<lparr>bq_overdue_ms := t\<rparr>)))
      else if number = 7 then
     andthen (map_err Bo_Cbor rd_u32) (\<lambda>v.
     andthen (once (Bo_Duplicate 7) (bq_file slots) v) (\<lambda>t. ret (slots\<lparr>bq_file := t\<rparr>)))
      else if number = 8 then
     andthen (map_err Bo_Cbor rd_u32) (\<lambda>v.
     andthen (once (Bo_Duplicate 8) (bq_line slots) v) (\<lambda>t. ret (slots\<lparr>bq_line := t\<rparr>)))
      else skipped Bo_Cbor slots)"

definition both :: "u8 \<Rightarrow> u8 \<Rightarrow> 'a option \<Rightarrow> 'b option \<Rightarrow> boot_error + ('a \<times> 'b) option" where
  "both k l a b =
     (case (a, b) of
        (Some x, Some y) \<Rightarrow> Inr (Some (x, y))
      | (None, None) \<Rightarrow> Inr None
      | (Some _, None) \<Rightarrow> Inl (Bo_Missing l)
      | (None, Some _) \<Rightarrow> Inl (Bo_Missing k))"

fun cause_of :: "boot_reason \<Rightarrow> starved option \<Rightarrow> panic_site option \<Rightarrow> boot_error + boot_cause" where
  "cause_of Br_Watchdog starved None = Inr (Bc_Watchdog starved)"
| "cause_of Br_Panic None (Some site) = Inr (Bc_Panic site)"
| "cause_of Br_Panic None None = Inl (Bo_Missing 7)"
| "cause_of Br_Power None None = Inr Bc_Power"
| "cause_of Br_SoftwareReset None None = Inr Bc_SoftwareReset"
| "cause_of Br_PinReset None None = Inr Bc_PinReset"
| "cause_of Br_OptionByteReload None None = Inr Bc_OptionByteReload"
| "cause_of Br_WindowWatchdog None None = Inr Bc_WindowWatchdog"
| "cause_of Br_LowPowerEntry None None = Inr Bc_LowPowerEntry"
| "cause_of reason _ _ = Inl (Bo_WordsWithoutTheirReason reason)"

definition boot_complete :: "boot_slots \<Rightarrow> (reader, boot_error, boot) act" where
  "boot_complete slots =
     andthen (ok_or (Bo_Missing 1) (bq_reason slots)) (\<lambda>reason.
     andthen (lift_sum (both 5 6 (bq_task slots) (bq_overdue_ms slots))) (\<lambda>late.
     andthen (lift_sum (both 7 8 (bq_file slots) (bq_line slots))) (\<lambda>site.
     andthen (lift_sum (cause_of reason (map_option (\<lambda>(task, ms). \<lparr>st_task = task, st_overdue_ms = ms\<rparr>) late)
       (map_option (\<lambda>(file, line). \<lparr>ps_file = file, ps_line = line\<rparr>) site))) (\<lambda>cause.
     andthen (ok_or (Bo_Missing 2) (bq_backup_valid slots)) (\<lambda>backup_valid.
     andthen (ok_or (Bo_Missing 3) (bq_rtc_crystal slots)) (\<lambda>rtc_crystal.
     andthen (ok_or (Bo_Missing 4) (bq_rail_cycled slots)) (\<lambda>rail_cycled.
     ret \<lparr>bo_cause = cause, bo_backup_valid = backup_valid, bo_rtc_crystal = rtc_crystal, bo_rail_cycled = rail_cycled\<rparr>)))))))"

definition boot_decode :: "bytes \<Rightarrow> boot_error + boot" where
  "boot_decode = decoding (
     andthen (map_fields Bo_Cbor boot_field boot_empty) (\<lambda>slots.
     andthen (finishing Bo_Cbor) (\<lambda>_. boot_complete slots)))"

section \<open>The codec\<close>

fun words_fields :: "boot_cause \<Rightarrow> (int \<times> item) list" where
  "words_fields (Bc_Watchdog (Some s)) = [(5, IUint (ucast (st_task s))), (6, IUint (ucast (st_overdue_ms s)))]"
| "words_fields (Bc_Panic p) = [(7, IUint (ucast (ps_file p))), (8, IUint (ucast (ps_line p)))]"
| "words_fields _ = []"

definition boot_fields :: "boot \<Rightarrow> (int \<times> item) list" where
  "boot_fields b =
     (1, IUint (ucast (boot_reason_num (cause_reason (bo_cause b))))) # (2, IBool (bo_backup_valid b)) #
     (3, IBool (bo_rtc_crystal b)) # (4, IBool (bo_rail_cycled b)) # words_fields (bo_cause b)"

lemma words_ok [simp]:
  "ascending (Some (key_rank 4)) (words_fields c)" "shallow room (words_fields c)" "known 8 (words_fields c)"
  "length (words_fields c) = cause_words c"
  by (induction c rule: words_fields.induct) (simp_all add: good_key_def)

lemma boot_ok [simp]:
  "ascending None (boot_fields b)" "shallow room (boot_fields b)" "known 8 (boot_fields b)"
  "length (boot_fields b) = 4 + cause_words (bo_cause b)"
  by (simp_all add: boot_fields_def good_key_def)

lemma words_writes [item_rules]: "writes_pairs (words_pairs c) (words_fields c)"
  by (induction c rule: words_fields.induct) (unfold words_pairs.simps words_fields.simps, (intro item_rules)+)

lemma boot_writes: "writes_pairs (boot_pairs b) (boot_fields b)"
  unfolding boot_pairs_def boot_fields_def by (intro item_rules)

lemma boot_field_simps:
  "boot_field s 1 = andthen (map_err Bo_Cbor rd_u8) (\<lambda>v. andthen (lift_sum (allocated boot_reason_of Bo_UnknownReason v)) (\<lambda>w.
     andthen (once (Bo_Duplicate 1) (bq_reason s) w) (\<lambda>t. ret (s\<lparr>bq_reason := t\<rparr>))))"
  "boot_field s 2 = andthen (map_err Bo_Cbor rd_bool) (\<lambda>v.
     andthen (once (Bo_Duplicate 2) (bq_backup_valid s) v) (\<lambda>t. ret (s\<lparr>bq_backup_valid := t\<rparr>)))"
  "boot_field s 3 = andthen (map_err Bo_Cbor rd_bool) (\<lambda>v.
     andthen (once (Bo_Duplicate 3) (bq_rtc_crystal s) v) (\<lambda>t. ret (s\<lparr>bq_rtc_crystal := t\<rparr>)))"
  "boot_field s 4 = andthen (map_err Bo_Cbor rd_bool) (\<lambda>v.
     andthen (once (Bo_Duplicate 4) (bq_rail_cycled s) v) (\<lambda>t. ret (s\<lparr>bq_rail_cycled := t\<rparr>)))"
  "boot_field s 5 = andthen (map_err Bo_Cbor rd_u8) (\<lambda>v.
     andthen (once (Bo_Duplicate 5) (bq_task s) v) (\<lambda>t. ret (s\<lparr>bq_task := t\<rparr>)))"
  "boot_field s 6 = andthen (map_err Bo_Cbor rd_u32) (\<lambda>v.
     andthen (once (Bo_Duplicate 6) (bq_overdue_ms s) v) (\<lambda>t. ret (s\<lparr>bq_overdue_ms := t\<rparr>)))"
  "boot_field s 7 = andthen (map_err Bo_Cbor rd_u32) (\<lambda>v.
     andthen (once (Bo_Duplicate 7) (bq_file s) v) (\<lambda>t. ret (s\<lparr>bq_file := t\<rparr>)))"
  "boot_field s 8 = andthen (map_err Bo_Cbor rd_u32) (\<lambda>v.
     andthen (once (Bo_Duplicate 8) (bq_line s) v) (\<lambda>t. ret (s\<lparr>bq_line := t\<rparr>)))"
  "8 < j \<Longrightarrow> boot_field s j = skipped Bo_Cbor s"
  by (simp_all add: boot_field_def)

fun words_into :: "boot_cause \<Rightarrow> boot_slots \<Rightarrow> boot_slots" where
  "words_into (Bc_Watchdog (Some s)) slots = slots\<lparr>bq_task := Some (st_task s), bq_overdue_ms := Some (st_overdue_ms s)\<rparr>"
| "words_into (Bc_Panic p) slots = slots\<lparr>bq_file := Some (ps_file p), bq_line := Some (ps_line p)\<rparr>"
| "words_into _ slots = slots"

lemma words_reads:
  assumes "bq_task s = None" and "bq_overdue_ms s = None" and "bq_file s = None" and "bq_line s = None"
  shows "reads_pairs boot_field (words_fields c) s (words_into c s)"
  using assms
  by (induction c s rule: words_into.induct)
    (unfold words_fields.simps words_into.simps, (rule reads_Nil | rule reads_Cons | simp only: boot_field_simps | rule slot_rules
      | rule item_rules | simp; fail)+)

lemma reason_known: "allocated boot_reason_of f (boot_reason_num r) = Inr r"
  by (rule allocatedI) (rule boot_reason.of_num_of)

lemma boot_reads:
  "reads_pairs boot_field (boot_fields b) boot_empty (words_into (bo_cause b) (boot_empty
     \<lparr>bq_reason := Some (cause_reason (bo_cause b)), bq_backup_valid := Some (bo_backup_valid b),
       bq_rtc_crystal := Some (bo_rtc_crystal b), bq_rail_cycled := Some (bo_rail_cycled b)\<rparr>))"
  unfolding boot_fields_def
  by (rule words_reads | rule reads_Cons | simp only: boot_field_simps | rule slot_rules | rule item_rules reason_known
      | simp add: boot_empty_def; fail)+

lemma boot_complete_own:
  "boot_complete (words_into (bo_cause b) (boot_empty
     \<lparr>bq_reason := Some (cause_reason (bo_cause b)), bq_backup_valid := Some (bo_backup_valid b),
       bq_rtc_crystal := Some (bo_rtc_crystal b), bq_rail_cycled := Some (bo_rail_cycled b)\<rparr>)) = ret b"
proof -
  obtain c v x y where b: "b = \<lparr>bo_cause = c, bo_backup_valid = v, bo_rtc_crystal = x, bo_rail_cycled = y\<rparr>"
    by (cases b)
  show ?thesis
    unfolding b by (induction c rule: words_fields.induct) (simp_all add: boot_complete_def boot_empty_def both_def fun_eq_iff)
qed

interpretation boot: body_codec boot_encode boot_decode boot_fields "\<lambda>_. True" 8
proof
  fix x and dst :: bytes
  assume x: "length (map_bytes (boot_fields x)) \<le> length dst" "length dst \<le> usize_max"
  then show "boot_encode x dst = (Inr (length (map_bytes (boot_fields x))), splice dst 0 (map_bytes (boot_fields x)))"
    unfolding boot_encode_def by (simp add: encodes_fields [OF boot_writes])
next
  fix x fs
  assume x: "extends 8 INNER fs" "length (map_bytes (boot_fields x @ fs)) \<le> usize_max"
  show "boot_decode (map_bytes (boot_fields x @ fs)) = Inr x"
    unfolding boot_decode_def
    by (rule decodes_fields [OF boot_reads _ _ _ x(1) _ x(2)])
      (auto intro!: runs_andthen runs_finishing simp: boot_complete_own boot_field_simps)
qed

lemma words_size: "length (field_bytes (words_fields c)) \<le> 12"
proof (induction c rule: words_fields.induct)
  case (1 s)
  then show ?case
    using width_narrow(1) [of "st_task s"] width_narrow(3) [of "st_overdue_ms s"] by simp
next
  case (2 p)
  then show ?case
    using width_narrow(3) [of "ps_file p"] width_narrow(3) [of "ps_line p"] by simp
qed simp_all

lemma boot_bound: "length (map_bytes (boot_fields b)) \<le> BOOT_MAX_BYTES"
proof -
  have "width_of (ucast (boot_reason_num (cause_reason (bo_cause b)))) = Inline"
    by (cases "cause_reason (bo_cause b)") (simp_all add: width_of_def)
  moreover have "width_of (4 + of_nat (cause_words (bo_cause b))) = Inline"
    by (cases "bo_cause b" rule: cause_words.cases) simp_all
  ultimately show ?thesis
    using words_size [of "bo_cause b"] by (simp add: map_bytes_eq boot_fields_def BOOT_MAX_BYTES_def)
qed

text \<open>A body that says reason, lateness and panic site independently of each other, which only an encoder
  that breaks the rule writes.\<close>

definition mixed_fields :: "boot_reason \<Rightarrow> starved option \<Rightarrow> panic_site option \<Rightarrow> bool \<Rightarrow> bool \<Rightarrow> bool \<Rightarrow> (int \<times> item) list" where
  "mixed_fields reason late site v x y =
     (1, IUint (ucast (boot_reason_num reason))) # (2, IBool v) # (3, IBool x) # (4, IBool y) #
     (case late of Some s \<Rightarrow> [(5, IUint (ucast (st_task s))), (6, IUint (ucast (st_overdue_ms s)))] | None \<Rightarrow> []) @
     (case site of Some p \<Rightarrow> [(7, IUint (ucast (ps_file p))), (8, IUint (ucast (ps_line p)))] | None \<Rightarrow> [])"

lemma mixed_ok [simp]:
  "ascending None (mixed_fields reason late site v x y)" "shallow room (mixed_fields reason late site v x y)"
  "known 8 (mixed_fields reason late site v x y)"
  by (auto simp: mixed_fields_def good_key_def split: option.split)

lemma mixed_reads:
  "reads_pairs boot_field (mixed_fields reason late site v x y) boot_empty
     \<lparr>bq_reason = Some reason, bq_backup_valid = Some v, bq_rtc_crystal = Some x, bq_rail_cycled = Some y,
      bq_task = map_option st_task late, bq_overdue_ms = map_option st_overdue_ms late,
      bq_file = map_option ps_file site, bq_line = map_option ps_line site\<rparr>"
  by (cases late; cases site; hypsubst; rule reads_eq, unfold mixed_fields_def option.case append.simps,
      (rule reads_Nil | rule reads_Cons | simp only: boot_field_simps | rule slot_rules | rule item_rules reason_known
        | simp add: boot_empty_def; fail)+)

definition words_of :: "boot_cause \<Rightarrow> starved option \<times> panic_site option" where
  "words_of c = (case c of Bc_Watchdog late \<Rightarrow> (late, None) | Bc_Panic site \<Rightarrow> (None, Some site) | _ \<Rightarrow> (None, None))"

lemma cause_of_exact: "cause_of reason late site = Inr c \<longleftrightarrow> cause_reason c = reason \<and> words_of c = (late, site)"
  by (cases reason; cases late; cases site; cases c) (auto simp: words_of_def)

section \<open>A counter that went backwards\<close>

type_synonym i32 = int

datatype counter_run = CounterRun "i32 option"

definition counter_new :: counter_run where
  "counter_new = CounterRun None"

primrec counter_last :: "counter_run \<Rightarrow> i32 option" where
  "counter_last (CounterRun prev) = prev"

definition counter_judge :: "counter_run \<Rightarrow> i32 \<Rightarrow> validity" where
  "counter_judge run tally =
     (if tally < 0 then Va_OutOfRange
      else case counter_last run of
        Some prev \<Rightarrow> if tally < prev then Va_Reset else Va_Ok
      | None \<Rightarrow> Va_Ok)"

definition counter_published :: "i32 \<Rightarrow> counter_run \<Rightarrow> counter_run" where
  "counter_published tally run = (if 0 \<le> tally then CounterRun (Some tally) else run)"

section \<open>Properties\<close>

text \<open>C21. Last words ride with the reason that explains them and with no other: of every body that names a
  reason, a lateness or none and a panic site or none, \<open>Boot::decode\<close> accepts exactly those whose words are
  the reason's own, and gives back the one cause that says both; and every record is written in at
  most \<open>BOOT_MAX_BYTES\<close> and read back as it was.\<close>

theorem boot_words_ride_with_their_reason:
  assumes "extends 8 INNER gs" and "length (map_bytes (mixed_fields reason late site v x y @ gs)) \<le> usize_max"
    and "BOOT_MAX_BYTES \<le> length dst" and "length dst \<le> usize_max"
  shows "(boot_decode (map_bytes (mixed_fields reason late site v x y @ gs)) = Inr b \<longleftrightarrow>
      cause_reason (bo_cause b) = reason \<and> words_of (bo_cause b) = (late, site) \<and>
      bo_backup_valid b = v \<and> bo_rtc_crystal b = x \<and> bo_rail_cycled b = y) \<and>
    (\<exists>n out. boot_encode b dst = (Inr n, out) \<and> n \<le> BOOT_MAX_BYTES \<and> boot_decode (take n out) = Inr b)"
proof
  obtain r where end_reached: "reading r [] []" and
    decoded: "\<And>f :: boot_slots \<Rightarrow> (reader, boot_error, boot) act. decoding (andthen (map_fields Bo_Cbor boot_field boot_empty) f) (map_bytes (mixed_fields reason late site v x y @ gs)) =
      fst (f \<lparr>bq_reason = Some reason, bq_backup_valid = Some v, bq_rtc_crystal = Some x, bq_rail_cycled = Some y,
      bq_task = map_option st_task late, bq_overdue_ms = map_option st_overdue_ms late,
      bq_file = map_option ps_file site, bq_line = map_option ps_line site\<rparr> r)"
  proof (rule decodes_slots [OF mixed_reads [of reason late site v x y] _ _ _ assms(1) _ assms(2)])
    show "boot_field \<lparr>bq_reason = Some reason, bq_backup_valid = Some v, bq_rtc_crystal = Some x, bq_rail_cycled = Some y,
        bq_task = map_option st_task late, bq_overdue_ms = map_option st_overdue_ms late,
        bq_file = map_option ps_file site, bq_line = map_option ps_line site\<rparr> j = skipped Bo_Cbor
       \<lparr>bq_reason = Some reason, bq_backup_valid = Some v, bq_rtc_crystal = Some x, bq_rail_cycled = Some y,
        bq_task = map_option st_task late, bq_overdue_ms = map_option st_overdue_ms late,
        bq_file = map_option ps_file site, bq_line = map_option ps_line site\<rparr>" if "8 < j" for j
      using that by (rule boot_field_simps)
  qed (simp; fail | rule that, assumption, assumption)+
  have words: "both 5 6 (map_option st_task late) (map_option st_overdue_ms late) = Inr (map_option (\<lambda>s. (st_task s, st_overdue_ms s)) late)"
    "both 7 8 (map_option ps_file site) (map_option ps_line site) = Inr (map_option (\<lambda>p. (ps_file p, ps_line p)) site)"
    "map_option (\<lambda>(task, ms). \<lparr>st_task = task, st_overdue_ms = ms\<rparr>) (map_option (\<lambda>s. (st_task s, st_overdue_ms s)) late) = late"
    "map_option (\<lambda>(file, line). \<lparr>ps_file = file, ps_line = line\<rparr>) (map_option (\<lambda>p. (ps_file p, ps_line p)) site) = site"
    by (cases late; cases site; simp add: both_def)+
  have "boot_decode (map_bytes (mixed_fields reason late site v x y @ gs)) =
      map_sum id (\<lambda>c. \<lparr>bo_cause = c, bo_backup_valid = v, bo_rtc_crystal = x, bo_rail_cycled = y\<rparr>) (cause_of reason late site)"
    unfolding boot_decode_def decoded
    by (cases "cause_of reason late site")
      (simp_all add: finishing_at_end [OF end_reached] boot_complete_def words del: option.map_comp)
  then show "boot_decode (map_bytes (mixed_fields reason late site v x y @ gs)) = Inr b \<longleftrightarrow>
      cause_reason (bo_cause b) = reason \<and> words_of (bo_cause b) = (late, site) \<and>
      bo_backup_valid b = v \<and> bo_rtc_crystal b = x \<and> bo_rail_cycled b = y"
    using cause_of_exact [of reason late site "bo_cause b"]
    by (cases b; cases "cause_of reason late site") auto
  show "\<exists>n out. boot_encode b dst = (Inr n, out) \<and> n \<le> BOOT_MAX_BYTES \<and> boot_decode (take n out) = Inr b"
    by (rule boot.fits [OF _ boot_bound assms(3,4)]) simp
qed

lemma boot_words_ride_with_their_reason_witness:
  "\<not> (\<exists>b. boot_decode (map_bytes (mixed_fields Br_Power None (Some \<lparr>ps_file = 7, ps_line = 9\<rparr>) True True False)) = Inr b)"
proof -
  have room: "extends 8 INNER []" "length (map_bytes (mixed_fields Br_Power None (Some \<lparr>ps_file = 7, ps_line = 9\<rparr>) True True False @ [])) \<le> usize_max"
    "BOOT_MAX_BYTES \<le> length (replicate 21 (0 :: u8))" "length (replicate 21 (0 :: u8)) \<le> usize_max"
    by (simp_all add: mixed_fields_def map_bytes_eq BOOT_MAX_BYTES_def usize_max_def)
  have "\<not> (cause_reason c = Br_Power \<and> words_of c = (None, Some s))" for c s
    by (cases c) (simp_all add: words_of_def)
  moreover have "cause_reason (bo_cause b) = Br_Power \<and> words_of (bo_cause b) = (None, Some \<lparr>ps_file = 7, ps_line = 9\<rparr>)"
    if "boot_decode (map_bytes (mixed_fields Br_Power None (Some \<lparr>ps_file = 7, ps_line = 9\<rparr>) True True False)) = Inr b" for b
    using boot_words_ride_with_their_reason [OF room, of b] that by simp
  ultimately show ?thesis
    by blast
qed

text \<open>A counter that went backwards restarted: over any sequence of totals published one after another,
  a total is judged \<open>reset\<close> exactly when it is below the last one that was published with a value,
  \<open>out_of_range\<close> exactly when it is negative, and the first is never a reset.\<close>

definition counter_runs :: "i32 list \<Rightarrow> counter_run" where
  "counter_runs totals = fold counter_published totals counter_new"

theorem counter_reset_exactly_when_it_fell:
  "let valued = filter (\<lambda>t. 0 \<le> t) totals; v = counter_judge (counter_runs totals) t in
     (v = Va_OutOfRange \<longleftrightarrow> t < 0) \<and>
     (v = Va_Reset \<longleftrightarrow> 0 \<le> t \<and> valued \<noteq> [] \<and> t < last valued) \<and>
     (v \<in> {Va_OutOfRange, Va_Reset, Va_Ok})"
proof -
  have "counter_last (fold counter_published totals run) =
      (if filter (\<lambda>t. 0 \<le> t) totals = [] then counter_last run else Some (last (filter (\<lambda>t. 0 \<le> t) totals)))" for run
    by (induction totals arbitrary: run) (auto simp: counter_published_def)
  then show ?thesis
    by (auto simp: counter_judge_def counter_runs_def counter_new_def Let_def split: option.splits if_splits)
qed

end
