(* ===== verification/Error_Body.thy ===== *)
theory Error_Body
  imports Codec_Rules
begin

text \<open>
  \<open>crates/km43/src/error.rs\<close>: a refusal, bare in an envelope or inside a sealed body. A body nobody
  authenticated is read as a hint, and a code the registry marks as sealed is not read from one at all.
\<close>

datatype error_key = Erk_Code | Erk_Detail

definition ERROR_KEY_COUNT :: nat where "ERROR_KEY_COUNT = 2"

definition error_key_of :: "int \<Rightarrow> error_key option" where
  "error_key_of number =
     (if number = 1 then Some Erk_Code
      else if number = 2 then Some Erk_Detail
      else None)"

primrec error_key_number :: "error_key \<Rightarrow> int" where
  "error_key_number Erk_Code = 1"
| "error_key_number Erk_Detail = 2"

datatype error_body_error =
    Eb_Missing error_key
  | Eb_Duplicate error_key
  | Eb_BareCodeNeedsASeal error_code
  | Eb_Cbor cbor_error
  | Eb_WrongMessage message_type

primrec error_body_refusal :: "error_body_error \<Rightarrow> refusal" where
  "error_body_refusal (Eb_Missing _) = RefuseClient Ec_MalformedFrame"
| "error_body_refusal (Eb_Duplicate _) = RefuseClient Ec_MalformedFrame"
| "error_body_refusal (Eb_BareCodeNeedsASeal _) = RefuseClient Ec_MalformedFrame"
| "error_body_refusal (Eb_Cbor _) = RefuseClient Ec_MalformedFrame"
| "error_body_refusal (Eb_WrongMessage _) = RefuseClient Ec_UnknownMessageType"

record error_body =
  eb_code :: incoming
  eb_detail :: bytes

datatype hint = Hint error_body

primrec wire_code :: "incoming \<Rightarrow> u16" where
  "wire_code (Client e) = error_code_num e"
| "wire_code (LinkLocal e) = link_error_code_num e"
| "wire_code (Unknown raw) = raw"

section \<open>Writing\<close>

definition error_pairs :: "error_body \<Rightarrow> (writer, cbor_error, unit) act" where
  "error_pairs b =
     andthen (wr_key (error_key_number Erk_Code)) (\<lambda>_. andthen (wr_u64 (ucast (wire_code (eb_code b)))) (\<lambda>_.
     andthen (wr_key (error_key_number Erk_Detail)) (\<lambda>_. wr_text (eb_detail b))))"

definition error_encode :: "error_body \<Rightarrow> bytes \<Rightarrow> (error_body_error + nat) \<times> bytes" where
  "error_encode b = encoding Eb_Cbor (map_err Eb_Cbor (andthen (wr_map ERROR_KEY_COUNT) (\<lambda>_. error_pairs b)))"

definition error_write :: "error_body \<Rightarrow> header \<Rightarrow> bytes \<Rightarrow> (error_body_error + nat) \<times> bytes" where
  "error_write b h dst =
     (if h_kind h \<noteq> Mt_ErrorResponse then (Inl (Eb_WrongMessage (h_kind h)), dst)
      else enveloping Eb_Cbor (map_err (\<lambda>_. Eb_Cbor CborDestinationTooSmall) (header_write h ERROR_KEY_COUNT)) (error_pairs b) dst)"

section \<open>Reading\<close>

record error_body_slots =
  ebq_code :: "u16 option"
  ebq_detail :: "bytes option"

definition error_body_empty :: error_body_slots where
  "error_body_empty = \<lparr>ebq_code = None, ebq_detail = None\<rparr>"

primrec error_body_fill :: "error_key \<Rightarrow> error_body_slots \<Rightarrow> (reader, error_body_error, error_body_slots) act" where
  "error_body_fill Erk_Code slots =
     andthen (map_err Eb_Cbor rd_u16) (\<lambda>v.
     andthen (once (Eb_Duplicate Erk_Code) (ebq_code slots) v) (\<lambda>t. ret (slots\<lparr>ebq_code := t\<rparr>)))"
| "error_body_fill Erk_Detail slots =
     andthen (map_err Eb_Cbor rd_text) (\<lambda>v.
     andthen (once (Eb_Duplicate Erk_Detail) (ebq_detail slots) v) (\<lambda>t. ret (slots\<lparr>ebq_detail := t\<rparr>)))"

definition error_body_field :: "error_body_slots \<Rightarrow> int \<Rightarrow> (reader, error_body_error, error_body_slots) act" where
  "error_body_field slots number =
     (case error_key_of number of Some key \<Rightarrow> error_body_fill key slots | None \<Rightarrow> skipped Eb_Cbor slots)"

definition error_body_complete :: "error_body_slots \<Rightarrow> (reader, error_body_error, error_body) act" where
  "error_body_complete slots =
     andthen (ok_or (Eb_Missing Erk_Detail) (ebq_detail slots)) (\<lambda>detail.
     andthen (ok_or (Eb_Missing Erk_Code) (ebq_code slots)) (\<lambda>raw.
     ret \<lparr>eb_code = incoming_of raw, eb_detail = detail\<rparr>))"

definition error_finish :: "error_body_slots \<Rightarrow> (reader, error_body_error, error_body) act" where
  "error_finish slots = andthen (finishing Eb_Cbor) (\<lambda>_. error_body_complete slots)"

definition error_decode :: "bytes \<Rightarrow> error_body_error + error_body" where
  "error_decode = decoding (andthen (map_fields Eb_Cbor error_body_field error_body_empty) error_finish)"

definition error_authenticated :: "bytes \<Rightarrow> error_body_error + error_body" where
  "error_authenticated = error_decode"

definition hint_of :: "error_body \<Rightarrow> error_body_error + hint" where
  "hint_of b =
     (case eb_code b of
        Client e \<Rightarrow> if needs_a_seal e then Inl (Eb_BareCodeNeedsASeal e) else Inr (Hint b)
      | _ \<Rightarrow> Inr (Hint b))"

definition error_bare :: "bytes \<Rightarrow> error_body_error + hint" where
  "error_bare payload = (case error_decode payload of Inl why \<Rightarrow> Inl why | Inr b \<Rightarrow> hint_of b)"

definition error_from_envelope :: "envelope \<Rightarrow> error_body_error + hint" where
  "error_from_envelope e =
     (if h_kind (e_header e) \<noteq> Mt_ErrorResponse then Inl (Eb_WrongMessage (h_kind (e_header e)))
      else case enclosed Eb_Cbor error_body_field error_body_empty error_finish e of
        Inl why \<Rightarrow> Inl why
      | Inr b \<Rightarrow> hint_of b)"

primrec hint_code :: "hint \<Rightarrow> incoming" where
  "hint_code (Hint b) = eb_code b"

primrec hint_detail :: "hint \<Rightarrow> bytes" where
  "hint_detail (Hint b) = eb_detail b"

section \<open>The codec, sealed and bare\<close>

definition error_fields :: "error_body \<Rightarrow> (int \<times> item) list" where
  "error_fields b = [(1, IUint (ucast (wire_code (eb_code b)))), (2, IText (eb_detail b))]"

text \<open>A code stands for itself unless it is a raw number that a space of codes allocates.\<close>

definition error_valid :: "error_body \<Rightarrow> bool" where
  "error_valid b \<longleftrightarrow> incoming_of (wire_code (eb_code b)) = eb_code b \<and> text_ok (eb_detail b)"

lemma error_ok [simp]:
  "ascending None (error_fields b)" "shallow room (error_fields b)" "known 2 (error_fields b)" "length (error_fields b) = 2"
  by (simp_all add: error_fields_def good_key_def)

lemma error_writes: "error_valid b \<Longrightarrow> writes_pairs (error_pairs b) (error_fields b)"
  unfolding error_pairs_def error_fields_def error_key_number.simps
  by (intro item_rules) (simp add: error_valid_def text_okD)

lemma error_field_simps:
  "error_body_field s 1 = error_body_fill Erk_Code s"
  "error_body_field s 2 = error_body_fill Erk_Detail s"
  "2 < j \<Longrightarrow> error_body_field s j = skipped Eb_Cbor s"
  by (simp_all add: error_body_field_def error_key_of_def)

lemma error_reads:
  assumes "error_valid b"
  shows "reads_pairs error_body_field (error_fields b) error_body_empty
    \<lparr>ebq_code = Some (wire_code (eb_code b)), ebq_detail = Some (eb_detail b)\<rparr>"
proof -
  have ok: "text_ok (eb_detail b)"
    using assms by (simp add: error_valid_def)
  show ?thesis
    by (rule reads_eq, unfold error_fields_def)
      (rule reads_Nil | rule reads_Cons | simp only: error_field_simps error_body_fill.simps | rule slot_rules
      | rule item_rules text_okD ok | simp add: error_body_empty_def; fail)+
qed

lemma error_finishes:
  "error_valid b \<Longrightarrow> reading r [] [] \<Longrightarrow>
   runs (error_finish \<lparr>ebq_code = Some (wire_code (eb_code b)), ebq_detail = Some (eb_detail b)\<rparr>) r (\<lambda>y _. y = b)"
  by (auto intro!: runs_andthen runs_finishing simp: error_finish_def error_body_complete_def error_valid_def)

interpretation error_body: body_codec error_encode error_decode error_fields error_valid 2
proof
  fix x and dst :: bytes
  assume x: "error_valid x" "length (map_bytes (error_fields x)) \<le> length dst" "length dst \<le> usize_max"
  then show "error_encode x dst = (Inr (length (map_bytes (error_fields x))), splice dst 0 (map_bytes (error_fields x)))"
    unfolding error_encode_def by (simp add: encodes_fields [OF error_writes [OF x(1)]] ERROR_KEY_COUNT_def)
next
  fix x fs
  assume x: "error_valid x" "extends 2 INNER fs" "length (map_bytes (error_fields x @ fs)) \<le> usize_max"
  show "error_decode (map_bytes (error_fields x @ fs)) = Inr x"
    unfolding error_decode_def
    by (rule decodes_fields [where f = error_finish, OF error_reads [OF x(1)] _ _ _ x(2) _ x(3) error_finishes [OF x(1)]])
      (simp_all add: error_field_simps)
qed

lemma error_frame:
  assumes b: "error_valid b" and h: "session_ok (h_session h)"
    and fs: "extends 2 6 fs" "length (frame_bytes h (error_fields b @ fs)) \<le> usize_max"
  obtains e where "envelope_decode (frame_bytes h (error_fields b @ fs)) = Inr e" and "e_header e = h"
    and "enclosed Eb_Cbor error_body_field error_body_empty error_finish e = Inr b"
  by (rule encloses_decodes_fields [where err = Eb_Cbor and f = error_finish,
      OF error_reads [OF b] _ _ _ fs(1) _ h fs(2) error_finishes [OF b]])
    (simp_all add: error_field_simps that)

text \<open>The codes the registry marks: 6, 7 and 20.\<close>

lemma sealed_codes: "needs_a_seal e \<longleftrightarrow> error_code_num e \<in> {6, 7, 20}"
  by (cases e) (simp_all add: needs_a_seal_def registry_simps)

section \<open>Properties\<close>

text \<open>C22. A refusal is written the same in both of its shapes, and each is read by its own rule: inside a
  sealed body it is read as it is; bare, in an envelope or as a payload, it is read as a hint when its
  code may travel unsealed and refused as \<open>BareCodeNeedsASeal\<close> when the registry marks the code, and no
  bytes at all become a hint of a marked code.\<close>

theorem bare_error_is_a_hint:
  assumes "error_valid b" and "h_kind h = Mt_ErrorResponse" and "session_ok (h_session h)"
    and "11 + (8 + MAX_STRING) \<le> length dst" and "length dst \<le> usize_max"
  shows "(\<exists>n out e. error_write b h dst = (Inr n, out) \<and> envelope_decode (take n out) = Inr e \<and> e_header e = h \<and>
      error_from_envelope e = hint_of b) \<and>
    (\<exists>n out. error_encode b dst = (Inr n, out) \<and> error_authenticated (take n out) = Inr b \<and> error_bare (take n out) = hint_of b) \<and>
    (\<forall>bs hint code. error_bare bs = Inr hint \<longrightarrow> hint_code hint = Client code \<longrightarrow> \<not> needs_a_seal code)"
proof (intro conjI allI impI)
  have size: "length (map_bytes (error_fields b)) \<le> 8 + MAX_STRING"
    using width_narrow(2) [of "wire_code (eb_code b)"] width_text [of "eb_detail b"] assms(1)
    by (simp add: map_bytes_eq error_fields_def error_valid_def text_ok_def MAX_STRING_def)
  have frame: "length (frame_bytes h (error_fields b)) \<le> length dst"
    using length_frame_bytes [of h "error_fields b"] size assms(4) by simp
  have "error_write b h dst = (Inr (length (frame_bytes h (error_fields b))), splice dst 0 (frame_bytes h (error_fields b)))"
    unfolding error_write_def using assms(2,5) frame
    by (simp add: encloses_fields [OF error_writes [OF assms(1)]] ERROR_KEY_COUNT_def)
  moreover obtain e where "envelope_decode (frame_bytes h (error_fields b @ [])) = Inr e" "e_header e = h"
    "enclosed Eb_Cbor error_body_field error_body_empty error_finish e = Inr b"
    using assms frame by (auto intro: error_frame [of b h "[]"])
  ultimately show "\<exists>n out e. error_write b h dst = (Inr n, out) \<and> envelope_decode (take n out) = Inr e \<and> e_header e = h \<and>
      error_from_envelope e = hint_of b"
    using assms(2) by (simp add: error_from_envelope_def splice_def)
  show "\<exists>n out. error_encode b dst = (Inr n, out) \<and> error_authenticated (take n out) = Inr b \<and> error_bare (take n out) = hint_of b"
    using error_body.fits [OF assms(1) size _ assms(5)] assms(4) by (auto simp: error_authenticated_def error_bare_def)
  show "\<not> needs_a_seal code" if "error_bare bs = Inr hint" "hint_code hint = Client code" for bs hint code
    using that by (auto simp: error_bare_def hint_of_def split: sum.splits incoming.splits if_splits)
qed

lemma bare_error_is_a_hint_witness:
  "\<exists>n out. error_encode \<lparr>eb_code = Client Ec_BusyRetry, eb_detail = []\<rparr> (replicate 200 0) = (Inr n, out) \<and>
     error_bare (take n out) = Inl (Eb_BareCodeNeedsASeal Ec_BusyRetry)"
proof -
  have "error_valid \<lparr>eb_code = Client Ec_BusyRetry, eb_detail = []\<rparr>"
    unfolding error_valid_def by (simp add: incoming_of_def error_code_of_def error_code_arms_def text_ok_def utf8.simps)
  moreover have "hint_of \<lparr>eb_code = Client Ec_BusyRetry, eb_detail = []\<rparr> = Inl (Eb_BareCodeNeedsASeal Ec_BusyRetry)"
    by (simp add: hint_of_def needs_a_seal_def registry_simps)
  moreover have "11 + (8 + MAX_STRING) \<le> length (replicate 200 (0 :: u8))" "length (replicate 200 (0 :: u8)) \<le> usize_max"
    "session_ok (h_session \<lparr>h_kind = Mt_ErrorResponse, h_session = Assigned 4, h_req_id = 1\<rparr>)"
    by (simp_all add: MAX_STRING_def usize_max_def)
  ultimately show ?thesis
    using bare_error_is_a_hint [of _ "\<lparr>h_kind = Mt_ErrorResponse, h_session = Assigned 4, h_req_id = 1\<rparr>" "replicate 200 0"]
    by fastforce
qed

end
