(* ===== verification/Row_Rules.thy ===== *)
theory Row_Rules
  imports Array_Rules
begin

text \<open>
  What the lists of rows share, whichever message carries them: an array kept as the bytes it arrived
  in, opened and walked once per row with the row's own reader.
\<close>

lemma wf_map_item:
  assumes "ascending None fs" and "\<forall>f \<in> set fs. wf_item (snd f)"
  shows "wf_item (map_item fs)"
proof -
  have "ascending l fs \<Longrightarrow> sorted_wrt (<) (map (key_rank \<circ> fst) fs) \<and> (\<forall>k. l = Some k \<longrightarrow> (\<forall>f \<in> set fs. k < key_rank (fst f)))" for l
    by (induction fs arbitrary: l) (fastforce simp: next_key_iff)+
  then show ?thesis
    using assms by (simp add: map_item_def list_all_iff)
      (metis (no_types, lifting) list.map_comp pairs_of_simps set_map image_iff)
qed

lemma item_list_size:
  assumes "\<And>x. x \<in> set xs \<Longrightarrow> length (enc_item (f x)) \<le> k"
  shows "length (item_list_bytes (map f xs)) \<le> length xs * k"
  using assms by (induction xs) (auto simp: add_le_mono)

lemma opens_item_array:
  assumes "length (enc_item (IArray ts)) \<le> usize_max"
  obtains r where "rd_array (reader_over (enc_item (IArray ts))) = (Inr (length ts), r)"
    and "reading r (settle_levels [(NArray, length ts, None)]) (item_list_bytes ts)"
proof -
  have "runs rd_array (reader_over (enc_item (IArray ts)))
      (\<lambda>n r. n = length ts \<and> reading r (settle_levels [(NArray, length ts, None)]) (item_list_bytes ts))"
  proof (rule read_array_rule)
    show "reading (reader_over (enc_item (IArray ts))) [] (head_bytes Array (of_nat (length ts)) @ item_list_bytes ts)"
      using reading_over [OF assms] by (simp add: array_bytes del: enc_item.simps)
    show "length ts \<le> length (item_list_bytes ts)"
      using enc_items_length [of ts] by (simp add: item_list_bytes_def)
  qed (simp_all add: NESTING_val)
  then show ?thesis
    using that by (auto simp: runs_def)
qed

text \<open>An iterator that reads a row each time it is asked, whatever came of the last.\<close>

primrec rows_next :: "(reader, 'e, 'r) act \<Rightarrow> nat \<Rightarrow> reader \<Rightarrow> ('e + 'r) list" where
  "rows_next m 0 r = []"
| "rows_next m (Suc n) r = (case m r of (x, r') \<Rightarrow> x # rows_next m n r')"

lemma rows_next_read:
  assumes "\<And>x. x \<in> set rs \<Longrightarrow> reads_item m (it x) x \<and> item_depth (it x) \<le> 6"
    and "reading r (settle_levels [(NArray, length rs, None)]) (item_list_bytes (map it rs))"
  shows "rows_next m (length rs) r = map Inr rs"
  using assms
proof (induction rs arbitrary: r)
  case (Cons x rs)
  have one: "reads_item m (it x) x" "item_depth (it x) \<le> 6"
    using Cons.prems(1) by simp_all
  have "runs m r (\<lambda>y r'. y = x \<and> reading r' (settle_levels (count_levels [(NArray, Suc (length rs), None)]))
      (item_list_bytes (map it rs)))"
    using one(1) [unfolded reads_item_def, rule_format, of r "[(NArray, Suc (length rs), None)]" "item_list_bytes (map it rs)"]
      one(2) Cons.prems(2) by (simp add: NESTING_val)
  then obtain r' where "m r = (Inr x, r')" "reading r' (settle_levels [(NArray, length rs, None)]) (item_list_bytes (map it rs))"
    by (auto simp: runs_def)
  then show ?case
    using Cons by simp
qed simp

text \<open>A reader whose errors are another message's.\<close>

lemma reads_pairs_err: "reads_pairs field fs a b \<Longrightarrow> reads_pairs (\<lambda>s k. map_err g (field s k)) fs a b"
proof (induction fs arbitrary: a)
  case (Cons f fs)
  then show ?case
    by (cases f) (auto intro: reads_map_err)
qed auto

lemma skipped_err: "map_err g (skipped err s) = skipped (g \<circ> err) s"
  by (auto simp: skipped_def map_err_def andthen_def fun_eq_iff split: prod.splits sum.splits)

end
