(* ===== verification/Clients.thy ===== *)
theory Clients
  imports Codec_Rules Row_Rules Invite
begin

text \<open>
  \<open>crates/km43/src/clients.rs\<close>: who is enrolled and who has been proposed, in one answer. A list of rows
  is the controller's own table or the CBOR array as it arrived, walked and checked once; what a list
  needs of its rows is the trait \<open>Row\<close>, here the record of its methods, and what the list's own code
  relies on is the locale \<open>row_kind\<close>, which both rows interpret.
\<close>

definition MAX_EXPIRES_IN :: u64 where "MAX_EXPIRES_IN = INVITE_TTL_MS div 1000"

datatype clients_field =
    Cf_Clients | Cf_Invites | Cf_ClientId | Cf_Generation | Cf_Role | Cf_ClientKind | Cf_Label
  | Cf_Nonce | Cf_Invitee | Cf_Inviter | Cf_InviterGeneration | Cf_ExpiresIn | Cf_Suite

datatype clients_error =
    Cl_Missing clients_field
  | Cl_Duplicate clients_field
  | Cl_Unallocated clients_field u8
  | Cl_Zero clients_field
  | Cl_WrongLength clients_field nat
  | Cl_LabelLength nat
  | Cl_ExpiresTooLate u32
  | Cl_TooMany clients_field nat
  | Cl_SlotsOutOfOrder
  | Cl_InviteRepeated
  | Cl_Cbor cbor_error

definition clients_refusal :: "clients_error \<Rightarrow> refusal" where
  "clients_refusal why = RefuseClient Ec_MalformedFrame"

definition row_client_id :: "clients_field \<Rightarrow> u32 \<Rightarrow> clients_error + client_id" where
  "row_client_id fl v = (case client_id_new v of Some c \<Rightarrow> Inr c | None \<Rightarrow> Inl (Cl_Zero fl))"

definition row_generation :: "clients_field \<Rightarrow> u32 \<Rightarrow> clients_error + generation" where
  "row_generation fl v = (case generation_new v of Some g \<Rightarrow> Inr g | None \<Rightarrow> Inl (Cl_Zero fl))"

definition row_fixed :: "nat \<Rightarrow> clients_field \<Rightarrow> bytes \<Rightarrow> clients_error + bytes" where
  "row_fixed n fl v = (if length v = n then Inr v else Inl (Cl_WrongLength fl (length v)))"

section \<open>Lists of rows\<close>

record 'r row_methods =
  rw_max :: nat
  rw_field :: clients_field
  rw_check :: "'r \<Rightarrow> clients_error + unit"
  rw_encode :: "'r \<Rightarrow> (writer, clients_error, unit) act"
  rw_decode :: "(reader, clients_error, 'r) act"
  rw_follows :: "'r \<Rightarrow> 'r \<Rightarrow> clients_error + unit"

datatype 'r rows = Built "'r list" | Read bytes nat

primrec rows_len :: "'r rows \<Rightarrow> nat" where
  "rows_len (Built rs) = length rs"
| "rows_len (Read array n) = n"

primrec rows_left :: "'r row_methods \<Rightarrow> nat \<Rightarrow> reader \<Rightarrow> (clients_error + 'r) list" where
  "rows_left R 0 r = []"
| "rows_left R (Suc n) r = (case rw_decode R r of (x, r') \<Rightarrow> x # rows_left R n r')"

primrec rows_iter :: "'r row_methods \<Rightarrow> 'r rows \<Rightarrow> (clients_error + 'r) list" where
  "rows_iter R (Built rs) = map Inr rs"
| "rows_iter R (Read array n) =
     (if n = 0 then []
      else case rd_array (reader_over array) of
        (Inl why, _) \<Rightarrow> [Inl (Cl_Cbor why)]
      | (Inr _, r) \<Rightarrow> rows_left R n r)"

primrec follows_each :: "'r row_methods \<Rightarrow> 'r \<Rightarrow> 'r list \<Rightarrow> clients_error + unit" where
  "follows_each R row [] = Inr ()"
| "follows_each R row (e # es) = (case rw_follows R row e of Inl why \<Rightarrow> Inl why | Inr _ \<Rightarrow> follows_each R row es)"

fun check_each :: "'r row_methods \<Rightarrow> 'r list \<Rightarrow> (clients_error + 'r) list \<Rightarrow> clients_error + unit" where
  "check_each R earlier [] = Inr ()"
| "check_each R earlier (Inl why # rest) = Inl why"
| "check_each R earlier (Inr row # rest) =
     (case rw_check R row of
        Inl why \<Rightarrow> Inl why
      | Inr _ \<Rightarrow> case follows_each R row earlier of
          Inl why \<Rightarrow> Inl why
        | Inr _ \<Rightarrow> check_each R (earlier @ [row]) rest)"

definition rows_check :: "'r row_methods \<Rightarrow> 'r rows \<Rightarrow> clients_error + unit" where
  "rows_check R rows =
     (if rw_max R < rows_len rows then Inl (Cl_TooMany (rw_field R) (rows_len rows))
      else check_each R [] (rows_iter R rows))"

primrec rows_encode :: "'r row_methods \<Rightarrow> 'r rows \<Rightarrow> (writer, clients_error, unit) act" where
  "rows_encode R (Built rs) = andthen (map_err Cl_Cbor (wr_array (length rs))) (\<lambda>_. for_each (rw_encode R) rs)"
| "rows_encode R (Read array n) = map_err Cl_Cbor (wr_raw array)"

definition rows_read :: "'r row_methods \<Rightarrow> bytes \<Rightarrow> clients_error + 'r rows" where
  "rows_read R array =
     (case fst (rd_array (reader_over array)) of
        Inl why \<Rightarrow> Inl (Cl_Cbor why)
      | Inr n \<Rightarrow>
          if rw_max R < n then Inl (Cl_TooMany (rw_field R) n)
          else case rows_check R (Read array n) of Inl why \<Rightarrow> Inl why | Inr _ \<Rightarrow> Inr (Read array n))"

definition rows_same :: "'r row_methods \<Rightarrow> 'r rows \<Rightarrow> 'r rows \<Rightarrow> bool" where
  "rows_same R a b \<longleftrightarrow> rows_len a = rows_len b \<and> list_all (\<lambda>(x, y). x = y) (zip (rows_iter R a) (rows_iter R b))"

section \<open>One occupied slot\<close>

record client_row =
  cr_client_id :: client_id
  cr_generation :: generation
  cr_role :: role
  cr_kind :: client_kind
  cr_label :: bytes

definition client_row_check :: "client_row \<Rightarrow> clients_error + unit" where
  "client_row_check x = (if MAX_LABEL < length (cr_label x) then Inl (Cl_LabelLength (length (cr_label x))) else Inr ())"

definition client_row_pairs :: "client_row \<Rightarrow> (writer, cbor_error, unit) act" where
  "client_row_pairs x =
     andthen (wr_key 1) (\<lambda>_. andthen (wr_u64 (ucast (client_id_get (cr_client_id x)))) (\<lambda>_.
     andthen (wr_key 2) (\<lambda>_. andthen (wr_u64 (ucast (generation_get (cr_generation x)))) (\<lambda>_.
     andthen (wr_key 3) (\<lambda>_. andthen (wr_u64 (ucast (role_num (cr_role x)))) (\<lambda>_.
     andthen (wr_key 4) (\<lambda>_. andthen (wr_u64 (ucast (client_kind_num (cr_kind x)))) (\<lambda>_.
     andthen (wr_key 5) (\<lambda>_. wr_text (cr_label x))))))))))"

definition client_row_encode_into :: "client_row \<Rightarrow> (writer, clients_error, unit) act" where
  "client_row_encode_into x =
     andthen (lift_sum (client_row_check x)) (\<lambda>_. map_err Cl_Cbor (andthen (wr_map 5) (\<lambda>_. client_row_pairs x)))"

record client_row_slots =
  crq_client_id :: "client_id option"
  crq_generation :: "generation option"
  crq_role :: "role option"
  crq_kind :: "client_kind option"
  crq_label :: "bytes option"

definition client_row_empty :: client_row_slots where
  "client_row_empty = \<lparr>crq_client_id = None, crq_generation = None, crq_role = None, crq_kind = None, crq_label = None\<rparr>"

definition client_row_field :: "client_row_slots \<Rightarrow> int \<Rightarrow> (reader, clients_error, client_row_slots) act" where
  "client_row_field slots number =
     (if number = 1 then
     andthen (map_err Cl_Cbor rd_u32) (\<lambda>v. andthen (lift_sum (row_client_id Cf_ClientId v)) (\<lambda>w.
     andthen (once (Cl_Duplicate Cf_ClientId) (crq_client_id slots) w) (\<lambda>t. ret (slots\<lparr>crq_client_id := t\<rparr>))))
      else if number = 2 then
     andthen (map_err Cl_Cbor rd_u32) (\<lambda>v. andthen (lift_sum (row_generation Cf_Generation v)) (\<lambda>w.
     andthen (once (Cl_Duplicate Cf_Generation) (crq_generation slots) w) (\<lambda>t. ret (slots\<lparr>crq_generation := t\<rparr>))))
      else if number = 3 then
     andthen (map_err Cl_Cbor rd_u8) (\<lambda>v. andthen (lift_sum (allocated role_of (Cl_Unallocated Cf_Role) v)) (\<lambda>w.
     andthen (once (Cl_Duplicate Cf_Role) (crq_role slots) w) (\<lambda>t. ret (slots\<lparr>crq_role := t\<rparr>))))
      else if number = 4 then
     andthen (map_err Cl_Cbor rd_u8) (\<lambda>v. andthen (lift_sum (allocated client_kind_of (Cl_Unallocated Cf_ClientKind) v)) (\<lambda>w.
     andthen (once (Cl_Duplicate Cf_ClientKind) (crq_kind slots) w) (\<lambda>t. ret (slots\<lparr>crq_kind := t\<rparr>))))
      else if number = 5 then
     andthen (map_err Cl_Cbor rd_text) (\<lambda>v.
     andthen (once (Cl_Duplicate Cf_Label) (crq_label slots) v) (\<lambda>t. ret (slots\<lparr>crq_label := t\<rparr>)))
      else skipped Cl_Cbor slots)"

definition client_row_complete :: "client_row_slots \<Rightarrow> (reader, clients_error, client_row) act" where
  "client_row_complete slots =
     andthen (ok_or (Cl_Missing Cf_ClientId) (crq_client_id slots)) (\<lambda>cid.
     andthen (ok_or (Cl_Missing Cf_Generation) (crq_generation slots)) (\<lambda>gen.
     andthen (ok_or (Cl_Missing Cf_Role) (crq_role slots)) (\<lambda>rl.
     andthen (ok_or (Cl_Missing Cf_ClientKind) (crq_kind slots)) (\<lambda>ck.
     andthen (ok_or (Cl_Missing Cf_Label) (crq_label slots)) (\<lambda>label.
     andthen (ret \<lparr>cr_client_id = cid, cr_generation = gen, cr_role = rl, cr_kind = ck, cr_label = label\<rparr>) (\<lambda>x.
     andthen (lift_sum (client_row_check x)) (\<lambda>_. ret x)))))))"

definition client_row_decode_from :: "(reader, clients_error, client_row) act" where
  "client_row_decode_from = andthen (map_fields Cl_Cbor client_row_field client_row_empty) client_row_complete"

definition client_row_follows :: "client_row \<Rightarrow> client_row \<Rightarrow> clients_error + unit" where
  "client_row_follows x earlier =
     (if client_id_get (cr_client_id x) \<le> client_id_get (cr_client_id earlier) then Inl Cl_SlotsOutOfOrder else Inr ())"

definition client_rows :: "client_row row_methods" where
  "client_rows = \<lparr>rw_max = MAX_CLIENTS, rw_field = Cf_Clients, rw_check = client_row_check, rw_encode = client_row_encode_into,
     rw_decode = client_row_decode_from, rw_follows = client_row_follows\<rparr>"

section \<open>One pending invite\<close>

record invite_row =
  ir_nonce :: bytes
  ir_role :: role
  ir_invitee :: public_key
  ir_inviter :: client_id
  ir_inviter_generation :: generation
  ir_kind :: client_kind
  ir_label :: bytes
  ir_expires_in :: u32
  ir_suite :: suite

definition invite_row_check :: "invite_row \<Rightarrow> clients_error + unit" where
  "invite_row_check x =
     (if ir_label x = [] \<or> MAX_LABEL < length (ir_label x) then Inl (Cl_LabelLength (length (ir_label x)))
      else if MAX_EXPIRES_IN < ucast (ir_expires_in x) then Inl (Cl_ExpiresTooLate (ir_expires_in x))
      else Inr ())"

definition invite_row_pairs :: "invite_row \<Rightarrow> (writer, cbor_error, unit) act" where
  "invite_row_pairs x =
     andthen (wr_key 1) (\<lambda>_. andthen (wr_byte_string (ir_nonce x)) (\<lambda>_.
     andthen (wr_key 2) (\<lambda>_. andthen (wr_u64 (ucast (role_num (ir_role x)))) (\<lambda>_.
     andthen (wr_key 3) (\<lambda>_. andthen (wr_byte_string (ir_invitee x)) (\<lambda>_.
     andthen (wr_key 4) (\<lambda>_. andthen (wr_u64 (ucast (client_id_get (ir_inviter x)))) (\<lambda>_.
     andthen (wr_key 5) (\<lambda>_. andthen (wr_u64 (ucast (generation_get (ir_inviter_generation x)))) (\<lambda>_.
     andthen (wr_key 6) (\<lambda>_. andthen (wr_u64 (ucast (client_kind_num (ir_kind x)))) (\<lambda>_.
     andthen (wr_key 7) (\<lambda>_. andthen (wr_text (ir_label x)) (\<lambda>_.
     andthen (wr_key 8) (\<lambda>_. andthen (wr_u64 (ucast (ir_expires_in x))) (\<lambda>_.
     andthen (wr_key 9) (\<lambda>_. wr_u64 (ucast (suite_num (ir_suite x))))))))))))))))))))"

definition invite_row_encode_into :: "invite_row \<Rightarrow> (writer, clients_error, unit) act" where
  "invite_row_encode_into x =
     andthen (lift_sum (invite_row_check x)) (\<lambda>_. map_err Cl_Cbor (andthen (wr_map 9) (\<lambda>_. invite_row_pairs x)))"

record invite_row_slots =
  irq_nonce :: "bytes option"
  irq_role :: "role option"
  irq_invitee :: "bytes option"
  irq_inviter :: "client_id option"
  irq_inviter_generation :: "generation option"
  irq_kind :: "client_kind option"
  irq_label :: "bytes option"
  irq_expires_in :: "u32 option"
  irq_suite :: "suite option"

definition invite_row_empty :: invite_row_slots where
  "invite_row_empty = \<lparr>irq_nonce = None, irq_role = None, irq_invitee = None, irq_inviter = None, irq_inviter_generation = None, irq_kind = None, irq_label = None, irq_expires_in = None, irq_suite = None\<rparr>"

definition invite_row_field :: "invite_row_slots \<Rightarrow> int \<Rightarrow> (reader, clients_error, invite_row_slots) act" where
  "invite_row_field slots number =
     (if number = 1 then
     andthen (map_err Cl_Cbor rd_byte_string) (\<lambda>v. andthen (lift_sum (row_fixed INVITE_NONCE_BYTES Cf_Nonce v)) (\<lambda>w.
     andthen (once (Cl_Duplicate Cf_Nonce) (irq_nonce slots) w) (\<lambda>t. ret (slots\<lparr>irq_nonce := t\<rparr>))))
      else if number = 2 then
     andthen (map_err Cl_Cbor rd_u8) (\<lambda>v. andthen (lift_sum (allocated role_of (Cl_Unallocated Cf_Role) v)) (\<lambda>w.
     andthen (once (Cl_Duplicate Cf_Role) (irq_role slots) w) (\<lambda>t. ret (slots\<lparr>irq_role := t\<rparr>))))
      else if number = 3 then
     andthen (map_err Cl_Cbor rd_byte_string) (\<lambda>v. andthen (lift_sum (row_fixed KEY_BYTES Cf_Invitee v)) (\<lambda>w.
     andthen (once (Cl_Duplicate Cf_Invitee) (irq_invitee slots) w) (\<lambda>t. ret (slots\<lparr>irq_invitee := t\<rparr>))))
      else if number = 4 then
     andthen (map_err Cl_Cbor rd_u32) (\<lambda>v. andthen (lift_sum (row_client_id Cf_Inviter v)) (\<lambda>w.
     andthen (once (Cl_Duplicate Cf_Inviter) (irq_inviter slots) w) (\<lambda>t. ret (slots\<lparr>irq_inviter := t\<rparr>))))
      else if number = 5 then
     andthen (map_err Cl_Cbor rd_u32) (\<lambda>v. andthen (lift_sum (row_generation Cf_InviterGeneration v)) (\<lambda>w.
     andthen (once (Cl_Duplicate Cf_InviterGeneration) (irq_inviter_generation slots) w) (\<lambda>t. ret (slots\<lparr>irq_inviter_generation := t\<rparr>))))
      else if number = 6 then
     andthen (map_err Cl_Cbor rd_u8) (\<lambda>v. andthen (lift_sum (allocated client_kind_of (Cl_Unallocated Cf_ClientKind) v)) (\<lambda>w.
     andthen (once (Cl_Duplicate Cf_ClientKind) (irq_kind slots) w) (\<lambda>t. ret (slots\<lparr>irq_kind := t\<rparr>))))
      else if number = 7 then
     andthen (map_err Cl_Cbor rd_text) (\<lambda>v.
     andthen (once (Cl_Duplicate Cf_Label) (irq_label slots) v) (\<lambda>t. ret (slots\<lparr>irq_label := t\<rparr>)))
      else if number = 8 then
     andthen (map_err Cl_Cbor rd_u32) (\<lambda>v.
     andthen (once (Cl_Duplicate Cf_ExpiresIn) (irq_expires_in slots) v) (\<lambda>t. ret (slots\<lparr>irq_expires_in := t\<rparr>)))
      else if number = 9 then
     andthen (map_err Cl_Cbor rd_u8) (\<lambda>v. andthen (lift_sum (allocated suite_of (Cl_Unallocated Cf_Suite) v)) (\<lambda>w.
     andthen (once (Cl_Duplicate Cf_Suite) (irq_suite slots) w) (\<lambda>t. ret (slots\<lparr>irq_suite := t\<rparr>))))
      else skipped Cl_Cbor slots)"

definition invite_row_complete :: "invite_row_slots \<Rightarrow> (reader, clients_error, invite_row) act" where
  "invite_row_complete slots =
     andthen (ok_or (Cl_Missing Cf_Nonce) (irq_nonce slots)) (\<lambda>nonce.
     andthen (ok_or (Cl_Missing Cf_Role) (irq_role slots)) (\<lambda>rl.
     andthen (ok_or (Cl_Missing Cf_Invitee) (irq_invitee slots)) (\<lambda>invitee.
     andthen (ok_or (Cl_Missing Cf_Inviter) (irq_inviter slots)) (\<lambda>inviter.
     andthen (ok_or (Cl_Missing Cf_InviterGeneration) (irq_inviter_generation slots)) (\<lambda>gen.
     andthen (ok_or (Cl_Missing Cf_ClientKind) (irq_kind slots)) (\<lambda>ck.
     andthen (ok_or (Cl_Missing Cf_Label) (irq_label slots)) (\<lambda>label.
     andthen (ok_or (Cl_Missing Cf_ExpiresIn) (irq_expires_in slots)) (\<lambda>expires_in.
     andthen (ok_or (Cl_Missing Cf_Suite) (irq_suite slots)) (\<lambda>st.
     andthen (ret \<lparr>ir_nonce = nonce, ir_role = rl, ir_invitee = invitee, ir_inviter = inviter, ir_inviter_generation = gen, ir_kind = ck, ir_label = label, ir_expires_in = expires_in, ir_suite = st\<rparr>) (\<lambda>x.
     andthen (lift_sum (invite_row_check x)) (\<lambda>_. ret x)))))))))))"

definition invite_row_decode_from :: "(reader, clients_error, invite_row) act" where
  "invite_row_decode_from = andthen (map_fields Cl_Cbor invite_row_field invite_row_empty) invite_row_complete"

definition invite_row_follows :: "invite_row \<Rightarrow> invite_row \<Rightarrow> clients_error + unit" where
  "invite_row_follows x earlier = (if ir_nonce x = ir_nonce earlier then Inl Cl_InviteRepeated else Inr ())"

definition invite_rows :: "invite_row row_methods" where
  "invite_rows = \<lparr>rw_max = MAX_INVITES, rw_field = Cf_Invites, rw_check = invite_row_check, rw_encode = invite_row_encode_into,
     rw_decode = invite_row_decode_from, rw_follows = invite_row_follows\<rparr>"

section \<open>The answer\<close>

record clients_answer =
  an_clients :: "client_row rows"
  an_invites :: "invite_row rows"

definition clients_new :: "client_row list \<Rightarrow> invite_row list \<Rightarrow> clients_error + clients_answer" where
  "clients_new cs invites =
     (case rows_check client_rows (Built cs) of
        Inl why \<Rightarrow> Inl why
      | Inr _ \<Rightarrow> case rows_check invite_rows (Built invites) of
          Inl why \<Rightarrow> Inl why
        | Inr _ \<Rightarrow> Inr \<lparr>an_clients = Built cs, an_invites = Built invites\<rparr>)"

definition answer_clients :: "clients_answer \<Rightarrow> (clients_error + client_row) list" where
  "answer_clients a = rows_iter client_rows (an_clients a)"

definition answer_invites :: "clients_answer \<Rightarrow> (clients_error + invite_row) list" where
  "answer_invites a = rows_iter invite_rows (an_invites a)"

definition answer_counts :: "clients_answer \<Rightarrow> nat \<times> nat" where
  "answer_counts a = (rows_len (an_clients a), rows_len (an_invites a))"

definition answer_same :: "clients_answer \<Rightarrow> clients_answer \<Rightarrow> bool" where
  "answer_same a b \<longleftrightarrow> rows_same client_rows (an_clients a) (an_clients b) \<and> rows_same invite_rows (an_invites a) (an_invites b)"

definition answer_encode :: "clients_answer \<Rightarrow> bytes \<Rightarrow> (clients_error + nat) \<times> bytes" where
  "answer_encode a = encoding Cl_Cbor (
     andthen (map_err Cl_Cbor (wr_map 2)) (\<lambda>_.
     andthen (map_err Cl_Cbor (wr_key 1)) (\<lambda>_. andthen (rows_encode client_rows (an_clients a)) (\<lambda>_.
     andthen (map_err Cl_Cbor (wr_key 2)) (\<lambda>_. rows_encode invite_rows (an_invites a))))))"

record answer_slots =
  anq_clients :: "bytes option"
  anq_invites :: "bytes option"

definition answer_empty :: answer_slots where
  "answer_empty = \<lparr>anq_clients = None, anq_invites = None\<rparr>"

definition answer_field :: "answer_slots \<Rightarrow> int \<Rightarrow> (reader, clients_error, answer_slots) act" where
  "answer_field slots number =
     (if number = 1 then
     andthen (map_err Cl_Cbor rd_raw) (\<lambda>v.
     andthen (once (Cl_Duplicate Cf_Clients) (anq_clients slots) v) (\<lambda>t. ret (slots\<lparr>anq_clients := t\<rparr>)))
      else if number = 2 then
     andthen (map_err Cl_Cbor rd_raw) (\<lambda>v.
     andthen (once (Cl_Duplicate Cf_Invites) (anq_invites slots) v) (\<lambda>t. ret (slots\<lparr>anq_invites := t\<rparr>)))
      else skipped Cl_Cbor slots)"

definition answer_complete :: "answer_slots \<Rightarrow> (reader, clients_error, clients_answer) act" where
  "answer_complete slots =
     andthen (ok_or (Cl_Missing Cf_Clients) (anq_clients slots)) (\<lambda>cs.
     andthen (lift_sum (rows_read client_rows cs)) (\<lambda>client_list.
     andthen (ok_or (Cl_Missing Cf_Invites) (anq_invites slots)) (\<lambda>invites.
     andthen (lift_sum (rows_read invite_rows invites)) (\<lambda>invite_list.
     ret \<lparr>an_clients = client_list, an_invites = invite_list\<rparr>))))"

definition answer_decode :: "bytes \<Rightarrow> clients_error + clients_answer" where
  "answer_decode = decoding (
     andthen (map_fields Cl_Cbor answer_field answer_empty) (\<lambda>slots.
     andthen (finishing Cl_Cbor) (\<lambda>_. answer_complete slots)))"

section \<open>The rows on the wire\<close>

definition label_text :: "bytes \<Rightarrow> bool" where
  "label_text v \<longleftrightarrow> utf8 v \<and> length v \<le> MAX_LABEL"

lemma label_textD: "label_text v \<Longrightarrow> utf8 v" "label_text v \<Longrightarrow> length v \<le> MAX_STRING" "label_text v \<Longrightarrow> length v \<le> MAX_LABEL"
  by (simp_all add: label_text_def limit_defs MAX_STRING_def)

lemma row_ids:
  "client_id_ok c \<Longrightarrow> row_client_id fl (client_id_get c) = Inr c" "generation_ok g \<Longrightarrow> row_generation fl (generation_get g) = Inr g"
  by (simp_all add: row_client_id_def row_generation_def new_get)

lemma row_fixed_own: "length v = n \<Longrightarrow> row_fixed n fl v = Inr v"
  by (simp add: row_fixed_def)

lemma row_known:
  "allocated role_of f (role_num r) = Inr r" "allocated client_kind_of g (client_kind_num k) = Inr k"
  "allocated suite_of h (suite_num s) = Inr s"
  unfolding allocated_def role.of_num_of client_kind.of_num_of suite.of_num_of by simp_all


definition client_row_fields :: "client_row \<Rightarrow> (int \<times> item) list" where
  "client_row_fields x =
     [(1, IUint (ucast (client_id_get (cr_client_id x)))), (2, IUint (ucast (generation_get (cr_generation x)))), (3, IUint (ucast (role_num (cr_role x)))), (4, IUint (ucast (client_kind_num (cr_kind x)))), (5, IText (cr_label x))]"

definition client_row_valid :: "client_row \<Rightarrow> bool" where
  "client_row_valid x \<longleftrightarrow> client_id_ok (cr_client_id x) \<and> generation_ok (cr_generation x) \<and> label_text (cr_label x)"

lemma client_row_ok [simp]:
  "ascending None (client_row_fields x)" "shallow room (client_row_fields x)" "known 5 (client_row_fields x)"
  "length (client_row_fields x) = 5"
  by (auto simp: client_row_fields_def good_key_def split: option.split)

lemma client_row_writes:
  assumes "client_row_valid x"
  shows "writes_pairs (client_row_pairs x) (client_row_fields x)"
  using assms unfolding client_row_pairs_def client_row_fields_def
  by (intro writes_append writes_option item_rules) (simp add: client_row_valid_def label_textD)

lemma client_row_field_simps:
  "client_row_field s 1 = andthen (map_err Cl_Cbor rd_u32) (\<lambda>v. andthen (lift_sum (row_client_id Cf_ClientId v)) (\<lambda>w.
     andthen (once (Cl_Duplicate Cf_ClientId) (crq_client_id s) w) (\<lambda>t. ret (s\<lparr>crq_client_id := t\<rparr>))))"
  "client_row_field s 2 = andthen (map_err Cl_Cbor rd_u32) (\<lambda>v. andthen (lift_sum (row_generation Cf_Generation v)) (\<lambda>w.
     andthen (once (Cl_Duplicate Cf_Generation) (crq_generation s) w) (\<lambda>t. ret (s\<lparr>crq_generation := t\<rparr>))))"
  "client_row_field s 3 = andthen (map_err Cl_Cbor rd_u8) (\<lambda>v. andthen (lift_sum (allocated role_of (Cl_Unallocated Cf_Role) v)) (\<lambda>w.
     andthen (once (Cl_Duplicate Cf_Role) (crq_role s) w) (\<lambda>t. ret (s\<lparr>crq_role := t\<rparr>))))"
  "client_row_field s 4 = andthen (map_err Cl_Cbor rd_u8) (\<lambda>v. andthen (lift_sum (allocated client_kind_of (Cl_Unallocated Cf_ClientKind) v)) (\<lambda>w.
     andthen (once (Cl_Duplicate Cf_ClientKind) (crq_kind s) w) (\<lambda>t. ret (s\<lparr>crq_kind := t\<rparr>))))"
  "client_row_field s 5 = andthen (map_err Cl_Cbor rd_text) (\<lambda>v.
     andthen (once (Cl_Duplicate Cf_Label) (crq_label s) v) (\<lambda>t. ret (s\<lparr>crq_label := t\<rparr>)))"
  "5 < j \<Longrightarrow> client_row_field s j = skipped Cl_Cbor s"
  by (simp_all add: client_row_field_def)

lemma client_row_reads:
  assumes "client_row_valid x"
  shows "reads_pairs client_row_field (client_row_fields x) client_row_empty
    \<lparr>crq_client_id = Some (cr_client_id x), crq_generation = Some (cr_generation x), crq_role = Some (cr_role x), crq_kind = Some (cr_kind x), crq_label = Some (cr_label x)\<rparr>"
proof -
  have ok: "client_id_ok (cr_client_id x)" "generation_ok (cr_generation x)" "label_text (cr_label x)"
    using assms by (auto simp: client_row_valid_def)
  show ?thesis
    by (rule reads_eq, unfold client_row_fields_def)
      (rule reads_Nil | rule reads_Cons | rule reads_pairs_append, rule reads_optional | rule reads_optional | simp only: client_row_field_simps
      | rule slot_rules | rule item_rules row_ids row_fixed_own row_known label_textD ok | assumption | simp add: client_row_empty_def; fail)+
qed

definition invite_row_fields :: "invite_row \<Rightarrow> (int \<times> item) list" where
  "invite_row_fields x =
     [(1, IBytes (ir_nonce x)), (2, IUint (ucast (role_num (ir_role x)))), (3, IBytes (ir_invitee x)), (4, IUint (ucast (client_id_get (ir_inviter x)))), (5, IUint (ucast (generation_get (ir_inviter_generation x)))), (6, IUint (ucast (client_kind_num (ir_kind x)))), (7, IText (ir_label x)), (8, IUint (ucast (ir_expires_in x))), (9, IUint (ucast (suite_num (ir_suite x))))]"

definition invite_row_valid :: "invite_row \<Rightarrow> bool" where
  "invite_row_valid x \<longleftrightarrow> length (ir_nonce x) = INVITE_NONCE_BYTES \<and> length (ir_invitee x) = KEY_BYTES \<and> client_id_ok (ir_inviter x) \<and> generation_ok (ir_inviter_generation x) \<and> label_text (ir_label x)"

lemma invite_row_ok [simp]:
  "ascending None (invite_row_fields x)" "shallow room (invite_row_fields x)" "known 9 (invite_row_fields x)"
  "length (invite_row_fields x) = 9"
  by (auto simp: invite_row_fields_def good_key_def split: option.split)

lemma invite_row_writes:
  assumes "invite_row_valid x"
  shows "writes_pairs (invite_row_pairs x) (invite_row_fields x)"
  using assms unfolding invite_row_pairs_def invite_row_fields_def
  by (intro writes_append writes_option item_rules) (simp add: invite_row_valid_def label_textD)

lemma invite_row_field_simps:
  "invite_row_field s 1 = andthen (map_err Cl_Cbor rd_byte_string) (\<lambda>v. andthen (lift_sum (row_fixed INVITE_NONCE_BYTES Cf_Nonce v)) (\<lambda>w.
     andthen (once (Cl_Duplicate Cf_Nonce) (irq_nonce s) w) (\<lambda>t. ret (s\<lparr>irq_nonce := t\<rparr>))))"
  "invite_row_field s 2 = andthen (map_err Cl_Cbor rd_u8) (\<lambda>v. andthen (lift_sum (allocated role_of (Cl_Unallocated Cf_Role) v)) (\<lambda>w.
     andthen (once (Cl_Duplicate Cf_Role) (irq_role s) w) (\<lambda>t. ret (s\<lparr>irq_role := t\<rparr>))))"
  "invite_row_field s 3 = andthen (map_err Cl_Cbor rd_byte_string) (\<lambda>v. andthen (lift_sum (row_fixed KEY_BYTES Cf_Invitee v)) (\<lambda>w.
     andthen (once (Cl_Duplicate Cf_Invitee) (irq_invitee s) w) (\<lambda>t. ret (s\<lparr>irq_invitee := t\<rparr>))))"
  "invite_row_field s 4 = andthen (map_err Cl_Cbor rd_u32) (\<lambda>v. andthen (lift_sum (row_client_id Cf_Inviter v)) (\<lambda>w.
     andthen (once (Cl_Duplicate Cf_Inviter) (irq_inviter s) w) (\<lambda>t. ret (s\<lparr>irq_inviter := t\<rparr>))))"
  "invite_row_field s 5 = andthen (map_err Cl_Cbor rd_u32) (\<lambda>v. andthen (lift_sum (row_generation Cf_InviterGeneration v)) (\<lambda>w.
     andthen (once (Cl_Duplicate Cf_InviterGeneration) (irq_inviter_generation s) w) (\<lambda>t. ret (s\<lparr>irq_inviter_generation := t\<rparr>))))"
  "invite_row_field s 6 = andthen (map_err Cl_Cbor rd_u8) (\<lambda>v. andthen (lift_sum (allocated client_kind_of (Cl_Unallocated Cf_ClientKind) v)) (\<lambda>w.
     andthen (once (Cl_Duplicate Cf_ClientKind) (irq_kind s) w) (\<lambda>t. ret (s\<lparr>irq_kind := t\<rparr>))))"
  "invite_row_field s 7 = andthen (map_err Cl_Cbor rd_text) (\<lambda>v.
     andthen (once (Cl_Duplicate Cf_Label) (irq_label s) v) (\<lambda>t. ret (s\<lparr>irq_label := t\<rparr>)))"
  "invite_row_field s 8 = andthen (map_err Cl_Cbor rd_u32) (\<lambda>v.
     andthen (once (Cl_Duplicate Cf_ExpiresIn) (irq_expires_in s) v) (\<lambda>t. ret (s\<lparr>irq_expires_in := t\<rparr>)))"
  "invite_row_field s 9 = andthen (map_err Cl_Cbor rd_u8) (\<lambda>v. andthen (lift_sum (allocated suite_of (Cl_Unallocated Cf_Suite) v)) (\<lambda>w.
     andthen (once (Cl_Duplicate Cf_Suite) (irq_suite s) w) (\<lambda>t. ret (s\<lparr>irq_suite := t\<rparr>))))"
  "9 < j \<Longrightarrow> invite_row_field s j = skipped Cl_Cbor s"
  by (simp_all add: invite_row_field_def)

lemma invite_row_reads:
  assumes "invite_row_valid x"
  shows "reads_pairs invite_row_field (invite_row_fields x) invite_row_empty
    \<lparr>irq_nonce = Some (ir_nonce x), irq_role = Some (ir_role x), irq_invitee = Some (ir_invitee x), irq_inviter = Some (ir_inviter x), irq_inviter_generation = Some (ir_inviter_generation x), irq_kind = Some (ir_kind x), irq_label = Some (ir_label x), irq_expires_in = Some (ir_expires_in x), irq_suite = Some (ir_suite x)\<rparr>"
proof -
  have ok: "length (ir_nonce x) = INVITE_NONCE_BYTES" "length (ir_invitee x) = KEY_BYTES" "client_id_ok (ir_inviter x)" "generation_ok (ir_inviter_generation x)" "label_text (ir_label x)"
    using assms by (auto simp: invite_row_valid_def)
  show ?thesis
    by (rule reads_eq, unfold invite_row_fields_def)
      (rule reads_Nil | rule reads_Cons | rule reads_pairs_append, rule reads_optional | rule reads_optional | simp only: invite_row_field_simps
      | rule slot_rules | rule item_rules row_ids row_fixed_own row_known label_textD ok | assumption | simp add: invite_row_empty_def; fail)+
qed

lemma row_slots_complete:
  assumes "client_row_valid x"
  shows "client_row_complete \<lparr>crq_client_id = Some (cr_client_id x), crq_generation = Some (cr_generation x), crq_role = Some (cr_role x),
      crq_kind = Some (cr_kind x), crq_label = Some (cr_label x)\<rparr> = andthen (lift_sum (client_row_check x)) (\<lambda>_. ret x)"
  by (cases x) (simp add: client_row_complete_def)

lemma invite_slots_complete:
  assumes "invite_row_valid x"
  shows "invite_row_complete \<lparr>irq_nonce = Some (ir_nonce x), irq_role = Some (ir_role x), irq_invitee = Some (ir_invitee x),
      irq_inviter = Some (ir_inviter x), irq_inviter_generation = Some (ir_inviter_generation x), irq_kind = Some (ir_kind x),
      irq_label = Some (ir_label x), irq_expires_in = Some (ir_expires_in x), irq_suite = Some (ir_suite x)\<rparr> =
    andthen (lift_sum (invite_row_check x)) (\<lambda>_. ret x)"
  by (cases x) (simp add: invite_row_complete_def)

section \<open>What a list needs of its rows\<close>

lemma checks_each:
  "check_each R earlier (map Inr rs) = Inr () \<longleftrightarrow>
     list_all (\<lambda>r. rw_check R r = Inr ()) rs \<and> sorted_wrt (\<lambda>e r. rw_follows R r e = Inr ()) rs \<and>
     (\<forall>e \<in> set earlier. \<forall>r \<in> set rs. rw_follows R r e = Inr ())"
proof (induction rs arbitrary: earlier)
  case (Cons row rs)
  have each: "follows_each R row es = Inr () \<longleftrightarrow> (\<forall>e \<in> set es. rw_follows R row e = Inr ())" for es
    by (induction es) (auto split: sum.split)
  have unit: "(x :: clients_error + unit) = Inr () \<or> (\<exists>why. x = Inl why)" for x
    by (cases x) auto
  show ?case
    using unit [of "rw_check R row"] unit [of "follows_each R row earlier"] each [of earlier]
    by (auto simp: Cons.IH)
qed simp

locale row_kind =
  fixes R :: "'r row_methods" and item :: "'r \<Rightarrow> item" and typed :: "'r \<Rightarrow> bool"
  assumes encode_item: "\<lbrakk>typed x; rw_check R x = Inr ()\<rbrakk> \<Longrightarrow> writes_item (rw_encode R x) (item x)"
    and decode_item: "\<lbrakk>typed x; rw_check R x = Inr ()\<rbrakk> \<Longrightarrow> reads_item (rw_decode R) (item x) x"
    and item_small: "typed x \<Longrightarrow> item_depth (item x) \<le> 1"
    and item_wf: "typed x \<Longrightarrow> wf_item (item x)"
begin

abbreviation array_of :: "'r list \<Rightarrow> item" where
  "array_of rs \<equiv> IArray (map item rs)"

lemma array_item: "list_all typed rs \<Longrightarrow> wf_item (array_of rs) \<and> item_depth (array_of rs) \<le> 2"
  using item_wf item_small array_depth [of 1 "map item rs"] by (auto simp: list_all_iff level_room_def)

lemma built_writes:
  assumes "list_all typed rs" and "rows_check R (Built rs) = Inr ()"
  shows "writes_item (rows_encode R (Built rs)) (array_of rs)"
proof -
  have "rw_check R x = Inr ()" if "x \<in> set rs" for x
    using assms(2) that by (auto simp: rows_check_def checks_each list_all_iff split: if_splits)
  then show ?thesis
    using assms(1) by (auto intro!: writes_array encode_item simp: list_all_iff)
qed

lemma left_reads:
  assumes "list_all typed rs" and "list_all (\<lambda>r. rw_check R r = Inr ()) rs"
    and "reading r (settle_levels [(NArray, length rs, None)]) (item_list_bytes (map item rs))"
  shows "rows_left R (length rs) r = map Inr rs"
  using assms
proof (induction rs arbitrary: r)
  case (Cons x rs)
  have step: "reads_item (rw_decode R) (item x) x" "item_depth (item x) \<le> 1"
    using Cons.prems decode_item item_small by simp_all
  have "runs (rw_decode R) r (\<lambda>y r'. y = x \<and> reading r' (settle_levels (count_levels [(NArray, Suc (length rs), None)]))
      (item_list_bytes (map item rs)))"
    using step(1) [unfolded reads_item_def, rule_format, of r "[(NArray, Suc (length rs), None)]" "item_list_bytes (map item rs)"]
      Cons.prems(3) step(2) by (simp add: NESTING_val)
  then obtain r' where "rw_decode R r = (Inr x, r')" "reading r' (settle_levels [(NArray, length rs, None)]) (item_list_bytes (map item rs))"
    by (auto simp: runs_def)
  then show ?case
    using Cons by simp
qed simp

text \<open>The array as it arrived is the list that was built.\<close>

lemma read_iter:
  assumes "list_all typed rs" and "rows_check R (Built rs) = Inr ()" and "length (enc_item (array_of rs)) \<le> usize_max"
  shows "rows_iter R (Read (enc_item (array_of rs)) (length rs)) = map Inr rs"
proof -
  have checked: "list_all (\<lambda>r. rw_check R r = Inr ()) rs"
    using assms(2) by (simp add: rows_check_def checks_each split: if_splits)
  obtain r where r: "rd_array (reader_over (enc_item (array_of rs))) = (Inr (length rs), r)"
    "reading r (settle_levels [(NArray, length rs, None)]) (item_list_bytes (map item rs))"
    by (rule opens_item_array [OF assms(3)]) simp
  show ?thesis
    using left_reads [OF assms(1) checked r(2)] r(1) by (simp del: enc_item.simps)
qed

lemma read_built:
  assumes "list_all typed rs" and "rows_check R (Built rs) = Inr ()" and "length (enc_item (array_of rs)) \<le> usize_max"
  shows "rows_read R (enc_item (array_of rs)) = Inr (Read (enc_item (array_of rs)) (length rs))"
proof -
  have "rows_check R (Read (enc_item (array_of rs)) (length rs)) = Inr ()"
    using assms(2) read_iter [OF assms] by (simp add: rows_check_def split: if_splits)
  moreover have "length rs \<le> rw_max R"
    using assms(2) by (simp add: rows_check_def split: if_splits)
  moreover obtain r where "rd_array (reader_over (enc_item (array_of rs))) = (Inr (length rs), r)"
    by (rule opens_item_array [OF assms(3)]) simp
  ultimately show ?thesis
    by (simp add: rows_read_def del: enc_item.simps)
qed

lemma read_same:
  assumes "list_all typed rs" and "rows_check R (Built rs) = Inr ()" and "length (enc_item (array_of rs)) \<le> usize_max"
  shows "rows_same R (Built rs) (Read (enc_item (array_of rs)) (length rs))"
  using read_iter [OF assms] by (auto simp: rows_same_def list_all_iff set_zip simp del: rows_iter.simps(2) enc_item.simps)

end

interpretation client_row: row_kind client_rows "\<lambda>x. map_item (client_row_fields x)" client_row_valid
proof
  fix x assume x: "client_row_valid x"
  show "item_depth (map_item (client_row_fields x)) \<le> 1"
    using depth_map_item [of 0 "client_row_fields x"] by simp
  show "wf_item (map_item (client_row_fields x))"
    by (rule wf_map_item) (use x in \<open>auto simp: client_row_fields_def client_row_valid_def label_textD good_key_def\<close>)
  assume ok: "rw_check client_rows x = Inr ()"
  show "writes_item (rw_encode client_rows x) (map_item (client_row_fields x))"
    using ok writes_item_err [OF writes_map [OF client_row_writes [OF x], of 5], of Cl_Cbor]
    by (simp add: client_rows_def client_row_encode_into_def)
  show "reads_item (rw_decode client_rows) (map_item (client_row_fields x)) x"
    unfolding client_rows_def row_methods.select_convs client_row_decode_from_def
    by (rule reads_then [OF reads_map [OF client_row_reads [OF x]]])
      (use ok in \<open>simp_all add: row_slots_complete [OF x] client_rows_def fun_eq_iff\<close>)
qed

interpretation invite_row: row_kind invite_rows "\<lambda>x. map_item (invite_row_fields x)" invite_row_valid
proof
  fix x assume x: "invite_row_valid x"
  show "item_depth (map_item (invite_row_fields x)) \<le> 1"
    using depth_map_item [of 0 "invite_row_fields x"] by simp
  show "wf_item (map_item (invite_row_fields x))"
    by (rule wf_map_item) (use x in \<open>auto simp: invite_row_fields_def invite_row_valid_def label_textD good_key_def\<close>)
  assume ok: "rw_check invite_rows x = Inr ()"
  show "writes_item (rw_encode invite_rows x) (map_item (invite_row_fields x))"
    using ok writes_item_err [OF writes_map [OF invite_row_writes [OF x], of 9], of Cl_Cbor]
    by (simp add: invite_rows_def invite_row_encode_into_def)
  show "reads_item (rw_decode invite_rows) (map_item (invite_row_fields x)) x"
    unfolding invite_rows_def row_methods.select_convs invite_row_decode_from_def
    by (rule reads_then [OF reads_map [OF invite_row_reads [OF x]]])
      (use ok in \<open>simp_all add: invite_slots_complete [OF x] invite_rows_def fun_eq_iff\<close>)
qed

section \<open>The answer on the wire\<close>

definition answer_fields :: "client_row list \<Rightarrow> invite_row list \<Rightarrow> (int \<times> item) list" where
  "answer_fields cs invites = [(1, client_row.array_of cs), (2, invite_row.array_of invites)]"

lemma clients_new_Inr:
  "clients_new cs invites = Inr a \<longleftrightarrow> rows_check client_rows (Built cs) = Inr () \<and> rows_check invite_rows (Built invites) = Inr () \<and>
     a = \<lparr>an_clients = Built cs, an_invites = Built invites\<rparr>"
  by (auto simp: clients_new_def split: sum.splits)

lemma answer_fields_ok:
  assumes "list_all client_row_valid cs" and "list_all invite_row_valid invites"
  shows "ascending None (answer_fields cs invites)" "shallow 7 (answer_fields cs invites)" "known 2 (answer_fields cs invites)"
  using client_row.array_item [OF assms(1)] invite_row.array_item [OF assms(2)]
  by (auto simp: answer_fields_def good_key_def simp del: item_depth.simps)

lemma answer_field_simps:
  "answer_field s 1 = andthen (map_err Cl_Cbor rd_raw) (\<lambda>v.
     andthen (once (Cl_Duplicate Cf_Clients) (anq_clients s) v) (\<lambda>t. ret (s\<lparr>anq_clients := t\<rparr>)))"
  "answer_field s 2 = andthen (map_err Cl_Cbor rd_raw) (\<lambda>v.
     andthen (once (Cl_Duplicate Cf_Invites) (anq_invites s) v) (\<lambda>t. ret (s\<lparr>anq_invites := t\<rparr>)))"
  "2 < j \<Longrightarrow> answer_field s j = skipped Cl_Cbor s"
  by (simp_all add: answer_field_def)

lemma answer_writes:
  assumes "writes_item (rows_encode client_rows (an_clients a)) (client_row.array_of cs)"
    and "writes_item (rows_encode invite_rows (an_invites a)) (invite_row.array_of invites)"
    and "list_all client_row_valid cs" and "list_all invite_row_valid invites"
    and "length (map_bytes (answer_fields cs invites)) \<le> length dst" and "length dst \<le> usize_max"
  shows "answer_encode a dst = (Inr (length (map_bytes (answer_fields cs invites))), splice dst 0 (map_bytes (answer_fields cs invites)))"
  unfolding answer_encode_def
  by (rule encodes_item [OF writes_map_err answer_fields_ok(2) [OF assms(3,4)] assms(5,6)],
      unfold answer_fields_def, intro item_rules assms(1,2))
    (use answer_fields_ok(1) [OF assms(3,4)] in \<open>simp_all add: answer_fields_def\<close>)

lemma answer_reads:
  assumes "list_all client_row_valid cs" and "list_all invite_row_valid invites"
  shows "reads_pairs answer_field (answer_fields cs invites) answer_empty
    \<lparr>anq_clients = Some (enc_item (client_row.array_of cs)), anq_invites = Some (enc_item (invite_row.array_of invites))\<rparr>"
proof -
  have wf: "wf_item (client_row.array_of cs)" "wf_item (invite_row.array_of invites)"
    using client_row.array_item [OF assms(1)] invite_row.array_item [OF assms(2)] by blast+
  show ?thesis
    by (rule reads_eq, unfold answer_fields_def)
      (rule reads_Nil | rule reads_Cons | simp only: answer_field_simps | rule slot_rules | rule item_rules | rule wf
        | simp add: answer_empty_def del: enc_item.simps wf_item.simps; fail)+
qed

lemma row_widths:
  "width_of (ucast (role_num r)) = Inline" "width_of (ucast (client_kind_num k)) = Inline" "width_of (ucast (suite_num u)) = Inline"
  "width_of 32 = One"
  by (induction r; induction k; induction u; simp add: width_of_def)+

lemma label_width: "label_text v \<Longrightarrow> width_bytes (width_of (of_nat (length v))) \<le> 1"
  using width_text [of v] label_textD by simp

lemma client_row_size:
  assumes "client_row_valid x"
  shows "length (map_bytes (client_row_fields x)) \<le> CLIENT_ROW_MAX_BYTES"
  using assms width_narrow(3) [of "client_id_get (cr_client_id x)"] width_narrow(3) [of "generation_get (cr_generation x)"]
    label_width [of "cr_label x"] label_textD(3) [of "cr_label x"]
  by (simp add: map_bytes_eq client_row_fields_def client_row_valid_def row_widths limit_defs)

text \<open>The row's bound counts on the deadline: an \<open>expires_in\<close> of any \<open>u32\<close> would not fit it.\<close>

lemma invite_row_size:
  assumes "invite_row_valid x" and "invite_row_check x = Inr ()"
  shows "length (map_bytes (invite_row_fields x)) \<le> INVITE_ROW_MAX_BYTES"
proof -
  have "ucast (ir_expires_in x) \<le> (3600 :: u64)"
    using assms(2) by (simp add: invite_row_check_def MAX_EXPIRES_IN_def INVITE_TTL_MS_def not_less split: if_splits)
  moreover have "width_of 3600 = Two"
    by (simp add: width_of_def)
  ultimately have "width_bytes (width_of (ucast (ir_expires_in x))) \<le> 2"
    using width_of_mono [of "ucast (ir_expires_in x)" 3600] by simp
  then show ?thesis
    using assms(1) width_narrow(3) [of "client_id_get (ir_inviter x)"] width_narrow(3) [of "generation_get (ir_inviter_generation x)"]
      label_width [of "ir_label x"] label_textD(3) [of "ir_label x"]
    by (simp add: map_bytes_eq invite_row_fields_def invite_row_valid_def row_widths limit_defs INVITE_NONCE_BYTES_def KEY_BYTES_def)
qed

lemma answer_sizes:
  assumes "list_all client_row_valid cs" and "list_all invite_row_valid invites"
    and "rows_check client_rows (Built cs) = Inr ()" and "rows_check invite_rows (Built invites) = Inr ()"
  shows "length (map_bytes (answer_fields cs invites)) \<le> CLIENTS_MAX_BYTES"
proof -
  have counts: "length cs \<le> MAX_CLIENTS" "length invites \<le> MAX_INVITES"
    using assms(3,4) by (simp_all add: rows_check_def client_rows_def invite_rows_def split: if_splits)
  have row: "length (enc_item (map_item (client_row_fields x))) \<le> CLIENT_ROW_MAX_BYTES" if "x \<in> set cs" for x
    using client_row_size [of x] assms(1) that by (simp add: list_all_iff map_bytes_def)
  have invite: "length (enc_item (map_item (invite_row_fields x))) \<le> INVITE_ROW_MAX_BYTES" if "x \<in> set invites" for x
    using invite_row_size [of x] assms(2,4) that
    by (auto simp: list_all_iff map_bytes_def rows_check_def invite_rows_def checks_each split: if_splits)
  have cs: "length (item_list_bytes (map (\<lambda>x. map_item (client_row_fields x)) cs)) \<le> MAX_CLIENTS * CLIENT_ROW_MAX_BYTES"
    by (rule le_trans [OF item_list_size [OF row] mult_le_mono1 [OF counts(1)]])
  have invites: "length (item_list_bytes (map (\<lambda>x. map_item (invite_row_fields x)) invites)) \<le> MAX_INVITES * INVITE_ROW_MAX_BYTES"
    by (rule le_trans [OF item_list_size [OF invite] mult_le_mono1 [OF counts(2)]])
  have few: "width_of (of_nat n) = Inline" if "n \<le> 8" for n
    using that by (auto simp: width_of_def word_less_nat_alt unat_of_nat)
  have "length (map_bytes (answer_fields cs invites)) =
      5 + length (item_list_bytes (map (\<lambda>x. map_item (client_row_fields x)) cs)) +
      length (item_list_bytes (map (\<lambda>x. map_item (invite_row_fields x)) invites))"
    using counts few [of "length cs"] few [of "length invites"]
    by (simp add: answer_fields_def map_bytes_eq array_bytes limit_defs del: enc_item.simps)
  then show ?thesis
    using cs invites by (simp add: CLIENTS_MAX_BYTES_def CLIENTS_HEADER_BYTES_def)
qed

section \<open>Properties\<close>

text \<open>C16. The answer that lists the enrolled and the proposed is accepted only with its slots strictly
  ascending and no invite twice; it is written in at most \<open>CLIENTS_MAX_BYTES\<close>, and what a client reads
  is the same answer, row for row in the same order, which written again is the same bytes.\<close>

theorem clients_answer_round_trip:
  assumes "clients_new cs invites = Inr a" and "list_all client_row_valid cs" and "list_all invite_row_valid invites"
    and "CLIENTS_MAX_BYTES \<le> length dst" and "length dst \<le> usize_max"
  shows "sorted_wrt (\<lambda>x y. client_id_get (cr_client_id x) < client_id_get (cr_client_id y)) cs \<and> distinct (map ir_nonce invites) \<and>
    (\<exists>n out b. answer_encode a dst = (Inr n, out) \<and> n \<le> CLIENTS_MAX_BYTES \<and> answer_decode (take n out) = Inr b \<and>
      answer_same a b \<and> answer_clients b = map Inr cs \<and> answer_invites b = map Inr invites \<and>
      answer_counts b = (length cs, length invites) \<and> answer_encode b dst = (Inr n, out))"
proof (intro conjI)
  have checked: "rows_check client_rows (Built cs) = Inr ()" "rows_check invite_rows (Built invites) = Inr ()"
    and a: "a = \<lparr>an_clients = Built cs, an_invites = Built invites\<rparr>"
    using assms(1) by (simp_all add: clients_new_Inr)
  have counts: "length cs \<le> MAX_CLIENTS" "length invites \<le> MAX_INVITES"
    using checked by (simp_all add: rows_check_def client_rows_def invite_rows_def split: if_splits)
  have rows: "sorted_wrt (\<lambda>e r. client_row_follows r e = Inr ()) cs" "sorted_wrt (\<lambda>e r. invite_row_follows r e = Inr ()) invites"
    using checked by (simp_all add: rows_check_def checks_each client_rows_def invite_rows_def split: if_splits)
  show "sorted_wrt (\<lambda>x y. client_id_get (cr_client_id x) < client_id_get (cr_client_id y)) cs"
    by (rule sorted_wrt_mono_rel [OF _ rows(1)]) (simp add: client_row_follows_def not_le split: if_splits)
  show "distinct (map ir_nonce invites)"
    using rows(2) by (induction invites) (auto simp: invite_row_follows_def split: if_splits)
  let ?bs = "map_bytes (answer_fields cs invites)"
  let ?b = "\<lparr>an_clients = Read (enc_item (client_row.array_of cs)) (length cs),
      an_invites = Read (enc_item (invite_row.array_of invites)) (length invites)\<rparr>"
  have size: "length ?bs \<le> CLIENTS_MAX_BYTES"
    by (rule answer_sizes [OF assms(2,3) checked])
  have arrays: "length (enc_item (client_row.array_of cs)) \<le> usize_max" "length (enc_item (invite_row.array_of invites)) \<le> usize_max"
    using size by (simp_all add: map_bytes_eq answer_fields_def limit_defs usize_max_def del: enc_item.simps)
  have written: "answer_encode a dst = (Inr (length ?bs), splice dst 0 ?bs)"
    unfolding a using size assms(2-5) checked
    by (intro answer_writes) (simp_all add: client_row.built_writes invite_row.built_writes del: rows_encode.simps)
  have again: "answer_encode ?b dst = (Inr (length ?bs), splice dst 0 ?bs)"
    using size assms(2-5) client_row.array_item [OF assms(2)] invite_row.array_item [OF assms(3)]
    by (intro answer_writes) (simp_all add: writes_item_err writes_raw del: enc_item.simps wf_item.simps)
  have "answer_decode (map_bytes (answer_fields cs invites @ [])) = Inr ?b"
    unfolding answer_decode_def
    by (rule decodes_fields [OF answer_reads [OF assms(2,3)] answer_fields_ok [OF assms(2,3)]])
      (use size client_row.read_built [OF assms(2) checked(1) arrays(1)] invite_row.read_built [OF assms(3) checked(2) arrays(2)] in
        \<open>auto intro!: runs_andthen runs_finishing simp: answer_complete_def answer_field_simps limit_defs usize_max_def simp del: enc_item.simps\<close>)
  then have "answer_decode (take (length ?bs) (splice dst 0 ?bs)) = Inr ?b"
    by (simp add: splice_def)
  moreover have "answer_same a ?b"
    using client_row.read_same [OF assms(2) checked(1) arrays(1)] invite_row.read_same [OF assms(3) checked(2) arrays(2)]
    by (simp add: answer_same_def a)
  moreover have "answer_clients ?b = map Inr cs" "answer_invites ?b = map Inr invites"
    using client_row.read_iter [OF assms(2) checked(1) arrays(1)] invite_row.read_iter [OF assms(3) checked(2) arrays(2)]
    by (simp_all add: answer_clients_def answer_invites_def del: rows_iter.simps enc_item.simps)
  moreover have "answer_counts ?b = (length cs, length invites)"
    by (simp add: answer_counts_def)
  ultimately show "\<exists>n out b. answer_encode a dst = (Inr n, out) \<and> n \<le> CLIENTS_MAX_BYTES \<and> answer_decode (take n out) = Inr b \<and>
      answer_same a b \<and> answer_clients b = map Inr cs \<and> answer_invites b = map Inr invites \<and>
      answer_counts b = (length cs, length invites) \<and> answer_encode b dst = (Inr n, out)"
    using written again size by (intro exI conjI) (assumption | simp)+
qed

lemma clients_answer_round_trip_witness:
  "let c = \<lparr>cr_client_id = ClientId 2, cr_generation = Generation 7, cr_role = Role_Owner, cr_kind = Ck_App, cr_label = [0x61]\<rparr> in
   \<exists>a n out b. clients_new [c] [] = Inr a \<and> answer_encode a (replicate 1000 0) = (Inr n, out) \<and>
     answer_decode (take n out) = Inr b \<and> answer_clients b = [Inr c]"
proof -
  let ?c = "\<lparr>cr_client_id = ClientId 2, cr_generation = Generation 7, cr_role = Role_Owner, cr_kind = Ck_App, cr_label = [0x61]\<rparr>"
  have new: "clients_new [?c] [] = Inr \<lparr>an_clients = Built [?c], an_invites = Built []\<rparr>"
    by (simp add: clients_new_Inr rows_check_def client_rows_def invite_rows_def client_row_check_def limit_defs)
  have typed: "list_all client_row_valid [?c]" "list_all invite_row_valid []"
    by (simp_all add: client_row_valid_def client_id_ok_def generation_ok_def label_text_def utf8.simps limit_defs)
  show ?thesis
    using clients_answer_round_trip [OF new typed, of "replicate 1000 0"] new
    by (auto simp: limit_defs usize_max_def Let_def)
qed

end
