(* ===== verification/Link_Codec.thy ===== *)
theory Link_Codec
  imports Field_Rules Kept
begin

text \<open>
  Bodies that ride a link-local envelope, between the two chips (\<open>linklocal.rs\<close>,
  \<open>pairing_window.rs\<close> and the link half of \<open>wifi.rs\<close>): what a sender writes behind a
  \<open>LinkHeader\<close>, what a receiver reads out of a \<open>LinkEnvelope\<close>, the rules for both, and the
  contract every such body keeps. \<open>link_codec\<close> is the round trip with later keys skipped,
  \<open>strict_link_codec\<close> adds that nothing decodes but what the writer could have written.
\<close>

section \<open>The shapes\<close>

definition link_header_bytes :: "link_header \<Rightarrow> bytes" where
  "link_header_bytes h = scalar_bytes (link_message_type_num (lh_kind h)) (lh_session h) (lh_req_id h)"

definition link_bytes :: "link_header \<Rightarrow> (int \<times> item) list \<Rightarrow> bytes" where
  "link_bytes h fs = link_header_bytes h @ map_bytes fs"

text \<open>\<open>header.write(keys, dst).map_err(..)?\<close>, the pairs, \<open>finish\<close>.\<close>

definition link_writing ::
  "(cbor_error \<Rightarrow> 'e) \<Rightarrow> link_header \<Rightarrow> nat \<Rightarrow> (writer, 'e, unit) act \<Rightarrow> bytes \<Rightarrow> ('e + nat) \<times> bytes" where
  "link_writing err h keys m =
     encoding err (andthen (map_err (\<lambda>_. err CborDestinationTooSmall) (link_header_write h keys)) (\<lambda>_. m))"

text \<open>\<open>envelope.keys()\<close>, \<open>envelope.into_body()\<close>, the loop over the pairs and \<open>body.finish()?\<close>.\<close>

definition link_reading ::
  "(cbor_error \<Rightarrow> 'e) \<Rightarrow> ('a \<Rightarrow> int \<Rightarrow> (reader, 'e, 'a) act) \<Rightarrow> 'a \<Rightarrow> ('a \<Rightarrow> (reader, 'e, 'b) act) \<Rightarrow> link_envelope \<Rightarrow> 'e + 'b" where
  "link_reading err field acc complete e =
     fst (andthen (pairs_loop err field (le_keys e) acc) (\<lambda>slots.
       andthen (finishing err) (\<lambda>_. complete slots)) (le_body e))"

lemma link_bytes_eq:
  "link_bytes h fs = link_header_bytes h @ head_bytes Map (of_nat (length fs)) @ field_bytes fs"
  by (simp add: link_bytes_def map_bytes_eq)

lemma link_header_length: "length (link_header_bytes h) \<le> 11"
  using scalar_bytes_length [of "link_message_type_num (lh_kind h)" "lh_session h" "lh_req_id h"]
  by (simp add: link_header_bytes_def)

lemma length_link_bytes: "length (link_bytes h fs) \<le> 11 + length (map_bytes fs)"
  using link_header_length [of h] by (simp add: link_bytes_def)

section \<open>Rules\<close>

lemma writes_pairs_err: "writes_pairs m fs \<Longrightarrow> writes_pairs (map_err err m) fs"
  unfolding writes_pairs_def by (blast intro: runs_map_err)

lemma link_writes_err:
  assumes "writes_pairs m fs" and "ascending None fs" and "shallow 6 fs" and "n = length fs"
    and "length (link_bytes h fs) \<le> length dst" and "length dst \<le> usize_max"
  shows "link_writing err h n m dst = (Inr (length (link_bytes h fs)), splice dst 0 (link_bytes h fs))"
  unfolding link_writing_def
proof (rule encoding_eq [OF assms(6)], intro runs_andthen runs_map_err)
  have "2 * length fs \<le> usize_max"
    using field_bytes_length [of fs] assms(5,6) by (simp add: link_bytes_eq)
  moreover have "runs m w (\<lambda>_ w. writing w [] (link_bytes h fs) dst)"
    if "writing w (body_levels (length fs)) (link_header_bytes h @ head_bytes Map (of_nat (length fs))) dst" for w
  proof -
    have "runs m w (\<lambda>_ w'. writing w' (settle_levels ((NMap, 0, last_key None fs) # in_envelope))
        ((link_header_bytes h @ head_bytes Map (of_nat (length fs))) @ field_bytes fs) dst)"
      using that assms(2,3,5) by (intro writes_pairsD [OF assms(1), where room = 6]) (simp_all add: NESTING_val link_bytes_eq)
    then show ?thesis
      by (simp add: link_bytes_eq)
  qed
  ultimately show "runs (link_header_write h n) (writer_over dst) (\<lambda>_ s. runs m s (\<lambda>_ w. writing w [] (link_bytes h fs) dst))"
    unfolding link_header_write_def assms(4)
    using assms(5,6) by (intro write_scalars_rule) (simp_all add: link_bytes_eq link_header_bytes_def)
qed

lemma link_writes:
  assumes "writes_pairs m fs" and "ascending None fs" and "shallow 6 fs" and "n = length fs"
    and "length (link_bytes h fs) \<le> length dst" and "length dst \<le> usize_max"
  shows "link_writing err h n (map_err err m) dst = (Inr (length (link_bytes h fs)), splice dst 0 (link_bytes h fs))"
  using link_writes_err [OF writes_pairs_err [OF assms(1)] assms(2-6)] .

lemma link_reads:
  assumes "reads_pairs field fs acc acc'" and "ascending None fs" and "shallow 6 fs" and "known k fs"
    and "extends k 6 gs" and "\<And>j. k < j \<Longrightarrow> field acc' j = skipped err acc'"
    and "session_ok (lh_session h)" and "length (link_bytes h (fs @ gs)) \<le> usize_max"
    and "\<And>r. runs (complete acc') r (\<lambda>y _. y = v)"
  shows "\<exists>e. link_envelope_decode (link_bytes h (fs @ gs)) = Inr e \<and>
    le_opcode e = link_message_type_num (lh_kind h) \<and> le_session e = lh_session h \<and> le_req_id e = lh_req_id h \<and>
    link_reading err field acc complete e = Inr v"
proof -
  obtain r where r: "link_envelope_decode (link_bytes h (fs @ gs)) =
      Inr \<lparr>le_opcode = link_message_type_num (lh_kind h), le_session = lh_session h, le_req_id = lh_req_id h,
        le_keys = length (fs @ gs), le_body = r\<rparr>"
    "reading r (body_levels (length (fs @ gs))) (field_bytes (fs @ gs))"
    using link_envelope_decode_eq [OF assms(7) field_bytes_length [of "fs @ gs"]
        assms(8) [unfolded link_bytes_eq link_header_bytes_def]]
    unfolding link_bytes_eq link_header_bytes_def by blast
  have both: "reads_pairs field (fs @ gs) acc acc'"
    using assms(1) extends_reads [of k _ gs field acc' err, OF assms(5,6)] by (rule reads_pairs_append)
  have "runs (pairs_loop err field (length (fs @ gs) + 0) acc) r (\<lambda>slots r.
      runs (andthen (finishing err) (\<lambda>_. complete slots)) r (\<lambda>y _. y = v))"
    using r(2) both assms(3,9) extends_shallow [OF assms(5)] ascending_extends [OF assms(2,4,5)]
    by (intro pairs_loop_fields [where acc' = acc' and room = 6 and l = None and rest = in_envelope and xs = "[]"])
      (auto simp: NESTING_val intro!: runs_andthen runs_finishing)
  then have "runs (andthen (pairs_loop err field (length (fs @ gs)) acc) (\<lambda>slots.
      andthen (finishing err) (\<lambda>_. complete slots))) r (\<lambda>y _. y = v)"
    by (intro runs_andthen) simp
  then show ?thesis
    using r(1) by (auto simp: link_reading_def runs_def)
qed

text \<open>A body that read: its slots came out of the loop.\<close>

lemma link_reading_InrE:
  assumes "link_reading err field none complete e = Inr x"
    and "P none" and "\<And>a k s a' s'. P a \<Longrightarrow> field a k s = (Inr a', s') \<Longrightarrow> P a'"
  obtains slots s t where "P slots" and "complete slots s = (Inr x, t)"
proof -
  obtain r where "andthen (pairs_loop err field (le_keys e) none) (\<lambda>slots.
      andthen (finishing err) (\<lambda>_. complete slots)) (le_body e) = (Inr x, r)"
    using assms(1) unfolding link_reading_def by (rule fst_InrE)
  then obtain slots t u v where "pairs_loop err field (le_keys e) none (le_body e) = (Inr slots, t)"
    "complete slots u = (Inr x, v)"
    by (auto elim!: andthen_InrE)
  then show ?thesis
    using that pairs_loop_keeps [of err field "le_keys e" none "le_body e" slots t P] assms(2,3) by blast
qed

section \<open>The contract\<close>

locale link_codec =
  fixes put :: "'a \<Rightarrow> link_header \<Rightarrow> bytes \<Rightarrow> ('e + nat) \<times> bytes"
    and decode :: "link_envelope \<Rightarrow> 'e + 'a"
    and fields :: "'a \<Rightarrow> (int \<times> item) list"
    and valid :: "'a \<Rightarrow> bool"
    and last_known :: int
  assumes put_link: "\<lbrakk>valid x; length (link_bytes h (fields x)) \<le> length dst; length dst \<le> usize_max\<rbrakk> \<Longrightarrow>
      put x h dst = (Inr (length (link_bytes h (fields x))), splice dst 0 (link_bytes h (fields x)))"
    and decode_link: "\<lbrakk>valid x; session_ok (lh_session h); extends last_known 6 fs;
        length (link_bytes h (fields x @ fs)) \<le> usize_max\<rbrakk> \<Longrightarrow>
      \<exists>e. link_envelope_decode (link_bytes h (fields x @ fs)) = Inr e \<and>
        le_opcode e = link_message_type_num (lh_kind h) \<and> le_session e = lh_session h \<and> le_req_id e = lh_req_id h \<and>
        decode e = Inr x"
begin

text \<open>What one chip writes into any buffer with room, the other reads out of the bytes written.\<close>

lemma crosses:
  assumes "valid x" and "session_ok (lh_session h)"
    and "length (link_bytes h (fields x)) \<le> length dst" and "length dst \<le> usize_max"
  shows "\<exists>n out e. put x h dst = (Inr n, out) \<and> n = length (link_bytes h (fields x)) \<and> length out = length dst \<and>
    take n out = link_bytes h (fields x) \<and> link_envelope_decode (take n out) = Inr e \<and>
    le_opcode e = link_message_type_num (lh_kind h) \<and> le_session e = lh_session h \<and> le_req_id e = lh_req_id h \<and>
    decode e = Inr x"
proof -
  have "take (length (link_bytes h (fields x))) (splice dst 0 (link_bytes h (fields x))) = link_bytes h (fields x)"
    by (simp add: splice_def)
  then show ?thesis
    using put_link [OF assms(1,3,4)] decode_link [OF assms(1,2), of "[]"] assms(3,4) by auto
qed

end

locale strict_link_codec = link_codec +
  assumes decode_strict: "decode e = Inr x \<Longrightarrow> valid x"
begin

text \<open>Whatever was read can be written again, and reads the same.\<close>

lemma relays:
  assumes "decode e = Inr x" and "session_ok (lh_session h)"
    and "length (link_bytes h (fields x)) \<le> length dst" and "length dst \<le> usize_max"
  shows "\<exists>n out e'. put x h dst = (Inr n, out) \<and> link_envelope_decode (take n out) = Inr e' \<and> decode e' = Inr x"
  using crosses [OF decode_strict [OF assms(1)] assms(2-4)] by blast

end

end
