(* ===== verification/Link_Local.thy ===== *)
theory Link_Local
  imports Link_Codec Codec_Rules
begin

text \<open>
  \<open>crates/km43/src/linklocal.rs\<close>, first half: what a receiver does with a link-local frame before
  it means anything, which side a message travels to, what a link error may be shown to, and the
  grammar of a firmware's own version. The errors of the radio messages (\<open>wifi.rs\<close>) are here
  because \<open>LinkError\<close> carries them.
\<close>

section \<open>Errors\<close>

definition reaches_a_client :: "link_error_code \<Rightarrow> bool" where
  "reaches_a_client c =
     (case c of Le_LinkTypeOnClientTransport \<Rightarrow> True | Le_BeforeLinkUp \<Rightarrow> True | Le_UnknownHandle \<Rightarrow> True
      | Le_WrongSide \<Rightarrow> False | Le_ConnectionTableFull \<Rightarrow> False | Le_LinkMajorMismatch \<Rightarrow> False
      | Le_TooManyOutstanding \<Rightarrow> False | Le_NonZeroSession \<Rightarrow> False | Le_NoAuthorisation \<Rightarrow> False)"

datatype wifi_field =
    Wf_Refresh | Wf_Scan | Wf_Refused | Wf_AgeMs | Wf_Aps | Wf_Unlisted | Wf_Ssid | Wf_Rssi | Wf_Security
  | Wf_Band | Wf_Channel | Wf_Section | Wf_Version | Wf_State | Wf_Reason | Wf_Ipv4 | Wf_Outcome

datatype wifi_error =
    We_Missing wifi_field
  | We_Duplicate wifi_field
  | We_Unallocated wifi_field u8
  | We_SsidLength nat
  | We_RssiOutOfRange int
  | We_ChannelOutOfRange u8
  | We_TooManyAccessPoints nat
  | We_OutOfOrder
  | We_SsidRepeated
  | We_ListIncomplete
  | We_RefusedWhileRunning
  | We_ScanStateDisagrees
  | We_JoiningIsNotRecorded
  | We_ReportIncomplete
  | We_ReasonDisagrees
  | We_AddressDisagrees
  | We_Ipv4Length nat
  | We_ZeroScan
  | We_Cbor cbor_error

definition wifi_refusal :: "wifi_error \<Rightarrow> refusal" where
  "wifi_refusal why = RefuseClient Ec_MalformedFrame"

datatype link_field =
    Lf_ProtocolMajor | Lf_ProtocolMinor | Lf_Role | Lf_Fw | Lf_BootId | Lf_Hw | Lf_NetVersion | Lf_DeviceId
  | Lf_NetOrigin | Lf_Conn | Lf_Uptime | Lf_Conns | Lf_Transport | Lf_Peer | Lf_Reason | Lf_Outcome | Lf_Closed
  | Lf_Op | Lf_Ssid | Lf_Psk | Lf_Country | Lf_Hostname | Lf_Origin | Lf_UnixMs | Lf_Source | Lf_AccuracyMs
  | Lf_Server | Lf_ReleaseVersion | Lf_ImageLen | Lf_Digest | Lf_BytesHave | Lf_PairingRevision | Lf_RemainingMs

datatype link_error =
    Lk_Missing link_field
  | Lk_Duplicate link_field
  | Lk_UnknownRole u8
  | Lk_TooLong link_field nat
  | Lk_NotAVersion link_field
  | Lk_NetVersionFromController
  | Lk_DeviceIdFromComms
  | Lk_NetOriginFromController
  | Lk_NetOriginWithoutVersion
  | Lk_OriginNotEight nat
  | Lk_NoSuchConnection
  | Lk_UnknownTransport u8
  | Lk_UnknownReason u8
  | Lk_UnknownOutcome u8
  | Lk_UnknownOp u8
  | Lk_UnknownSource u8
  | Lk_PassphraseLength nat
  | Lk_CountryNotTwoBytes nat
  | Lk_ClearCarriedCredentials
  | Lk_ZeroNetworkVersion
  | Lk_UnwrittenClearCarriedMetadata
  | Lk_UnwrittenClearCarriedOrigin
  | Lk_DigestNotSha256 nat
  | Lk_DeviceIdNotSixteen nat
  | Lk_Wifi wifi_error
  | Lk_ZeroPairingRevision
  | Lk_PairingWindowTooLong u32
  | Lk_Cbor cbor_error

definition link_of_wifi :: "wifi_error \<Rightarrow> link_error" where
  "link_of_wifi why = (case why of We_Cbor e \<Rightarrow> Lk_Cbor e | _ \<Rightarrow> Lk_Wifi why)"

section \<open>Sides and intake\<close>

datatype side = Side_Controller | Side_Comms

primrec side_number :: "side \<Rightarrow> u8" where
  "side_number Side_Controller = 1"
| "side_number Side_Comms = 2"

definition side_of :: "u8 \<Rightarrow> link_error + side" where
  "side_of number =
     (if number = 1 then Inr Side_Controller
      else if number = 2 then Inr Side_Comms
      else Inl (Lk_UnknownRole number))"

primrec side_other :: "side \<Rightarrow> side" where
  "side_other Side_Controller = Side_Comms"
| "side_other Side_Comms = Side_Controller"

primrec side_starting :: "link_direction \<Rightarrow> side option" where
  "side_starting Either = None"
| "side_starting CommsToController = Some Side_Comms"
| "side_starting ControllerToComms = Some Side_Controller"

datatype intake = Act link_message_type | Refuse link_error_code

definition is_ack :: "link_message_type \<Rightarrow> bool" where
  "is_ack k = (link_message_type_num k AND 0x80 \<noteq> 0)"

definition permitted :: "link_message_type \<Rightarrow> side \<Rightarrow> bool" where
  "permitted k at =
     (case side_starting (link_direction_of k) of
        None \<Rightarrow> True
      | Some started \<Rightarrow> if is_ack k then at = started else at = side_other started)"

definition arriving :: "u8 \<Rightarrow> side \<Rightarrow> session_id \<Rightarrow> intake" where
  "arriving opcode at session =
     (case link_message_type_of opcode of
        None \<Rightarrow> Refuse Le_WrongSide
      | Some k \<Rightarrow>
          if \<not> permitted k at then Refuse Le_WrongSide
          else if session \<noteq> NoSession then Refuse Le_NonZeroSession
          else Act k)"

section \<open>Texts and versions\<close>

definition bounded_text :: "link_field \<Rightarrow> bytes \<Rightarrow> link_error + bytes" where
  "bounded_text key v = (if MAX_LINK_TEXT < length v then Inl (Lk_TooLong key (length v)) else Inr v)"

definition COMPONENT_DIGITS :: nat where "COMPONENT_DIGITS = 3"
definition PRE_RELEASE_LONGEST :: nat where "PRE_RELEASE_LONGEST = 8"
definition COMMIT_DIGITS :: nat where "COMMIT_DIGITS = 8"

definition ascii_digit :: "u8 \<Rightarrow> bool" where
  "ascii_digit b \<longleftrightarrow> 0x30 \<le> b \<and> b \<le> 0x39"

definition ascii_alphanumeric :: "u8 \<Rightarrow> bool" where
  "ascii_alphanumeric b \<longleftrightarrow> ascii_digit b \<or> 0x41 \<le> b \<and> b \<le> 0x5A \<or> 0x61 \<le> b \<and> b \<le> 0x7A"

text \<open>\<open>str::split\<close> and \<open>str::split_once\<close> on an ASCII character, which no other UTF-8 sequence contains.\<close>

fun split_on :: "u8 \<Rightarrow> bytes \<Rightarrow> bytes list" where
  "split_on c [] = [[]]"
| "split_on c (x # xs) =
     (if x = c then [] # split_on c xs
      else case split_on c xs of p # ps \<Rightarrow> (x # p) # ps | [] \<Rightarrow> [[x]])"

fun split_once :: "u8 \<Rightarrow> bytes \<Rightarrow> (bytes \<times> bytes) option" where
  "split_once c [] = None"
| "split_once c (x # xs) =
     (if x = c then Some ([], xs) else map_option (\<lambda>(a, b). (x # a, b)) (split_once c xs))"

text \<open>\<open>windows(2).position(|pair| pair == b"+g")\<close>, and the text on either side of it.\<close>

definition commit_split :: "bytes \<Rightarrow> (bytes \<times> bytes) option" where
  "commit_split v =
     (case find (\<lambda>at. take 2 (drop at v) = [0x2B, 0x67]) [0..<length v - 1] of
        None \<Rightarrow> None
      | Some at \<Rightarrow> Some (take at v, drop (at + 2) v))"

definition plain_number :: "bytes \<Rightarrow> bool" where
  "plain_number part \<longleftrightarrow> length part = 1 \<or> take 1 part \<noteq> [0x30]"

definition version_component :: "bytes \<Rightarrow> bool" where
  "version_component part \<longleftrightarrow>
     1 \<le> length part \<and> length part \<le> COMPONENT_DIGITS \<and> list_all ascii_digit part \<and> plain_number part"

definition version_identifier :: "bytes \<Rightarrow> bool" where
  "version_identifier part \<longleftrightarrow>
     part \<noteq> [] \<and> list_all (\<lambda>b. ascii_alphanumeric b \<or> b = 0x2D) part \<and>
     (\<not> list_all ascii_digit part \<or> plain_number part)"

definition version_pre_release :: "bytes \<Rightarrow> bool" where
  "version_pre_release pre \<longleftrightarrow>
     1 \<le> length pre \<and> length pre \<le> PRE_RELEASE_LONGEST \<and> list_all version_identifier (split_on 0x2E pre)"

definition commit_digit :: "u8 \<Rightarrow> bool" where
  "commit_digit b \<longleftrightarrow> 0x30 \<le> b \<and> b \<le> 0x39 \<or> 0x61 \<le> b \<and> b \<le> 0x66"

definition version_conforms :: "bytes \<Rightarrow> bytes \<Rightarrow> bool" where
  "version_conforms release commit =
     (let (core, pre) = (case split_once 0x2D release of Some (core, pre) \<Rightarrow> (core, Some pre) | None \<Rightarrow> (release, None))
      in (case split_on 0x2E core of
            [a, b, c] \<Rightarrow> version_component a \<and> version_component b \<and> version_component c
          | _ \<Rightarrow> False) \<and>
         (case pre of None \<Rightarrow> True | Some p \<Rightarrow> version_pre_release p) \<and>
         length commit = COMMIT_DIGITS \<and> list_all commit_digit commit)"

definition versioned :: "link_field \<Rightarrow> bytes \<Rightarrow> link_error + bytes" where
  "versioned key v =
     (case commit_split v of
        None \<Rightarrow> Inl (Lk_NotAVersion key)
      | Some (release, commit) \<Rightarrow> if version_conforms release commit then Inr v else Inl (Lk_NotAVersion key))"

section \<open>Who receives what\<close>

lemma arriving_Act_iff:
  "arriving b at session = Act k \<longleftrightarrow> b = link_message_type_num k \<and> permitted k at \<and> session = NoSession"
  using link_message_type.of_num_iff [of b k]
  by (auto simp: arriving_def link_message_type.of_num_of split: option.splits)

lemma arriving_num:
  "arriving (link_message_type_num k) at session =
     (if \<not> permitted k at then Refuse Le_WrongSide else if session \<noteq> NoSession then Refuse Le_NonZeroSession else Act k)"
  by (simp add: arriving_def link_message_type.of_num_of)

text \<open>The type that answers a request: its number with the high bit set.\<close>

definition acknowledges :: "link_message_type \<Rightarrow> link_message_type \<Rightarrow> bool" where
  "acknowledges a k \<longleftrightarrow> \<not> is_ack k \<and> link_message_type_num a = link_message_type_num k OR 0x80"

lemma ack_bit: "is_ack k \<longleftrightarrow> 0x80 \<le> link_message_type_num k"
  by (cases k) (simp_all add: is_ack_def)

lemma acknowledged_direction: "acknowledges a k \<Longrightarrow> link_direction_of a = link_direction_of k \<and> is_ack a"
  by (cases k; cases a; simp add: acknowledges_def is_ack_def)

lemma side_other_iff [simp]: "side_other x = y \<longleftrightarrow> x \<noteq> y" "x = side_other y \<longleftrightarrow> x \<noteq> y"
  by (cases x; cases y; simp)+

text \<open>The opcodes each side acts on: what the other side starts, and the answers to what it starts itself.\<close>

definition BOTH_TAKE :: "u8 set" where
  "BOTH_TAKE = {0x60, 0xE0, 0x61, 0xE1}"

definition CONTROLLER_TAKES :: "u8 set" where
  "CONTROLLER_TAKES = {0x62, 0x63, 0x66, 0x6B, 0x6C} \<union> {0xE4, 0xE5, 0xE7, 0xE8, 0xE9, 0xEA}"

definition COMMS_TAKES :: "u8 set" where
  "COMMS_TAKES = {0x64, 0x65, 0x67, 0x68, 0x69, 0x6A} \<union> {0xE2, 0xE3, 0xE6, 0xEB, 0xEC}"

lemma takes:
  "(\<exists>k. arriving b Side_Controller NoSession = Act k) \<longleftrightarrow> b \<in> BOTH_TAKE \<union> CONTROLLER_TAKES"
  "(\<exists>k. arriving b Side_Comms NoSession = Act k) \<longleftrightarrow> b \<in> BOTH_TAKE \<union> COMMS_TAKES"
proof -
  have act: "(\<exists>k. arriving b at NoSession = Act k) \<longleftrightarrow> (\<exists>k. link_message_type_num k = b \<and> permitted k at)" for at
    by (auto simp: arriving_Act_iff)
  have num: "link_message_type_num k \<in> BOTH_TAKE \<union> CONTROLLER_TAKES \<longleftrightarrow> permitted k Side_Controller"
    "link_message_type_num k \<in> BOTH_TAKE \<union> COMMS_TAKES \<longleftrightarrow> permitted k Side_Comms" for k
    by (cases k; simp add: permitted_def is_ack_def BOTH_TAKE_def CONTROLLER_TAKES_def COMMS_TAKES_def)+
  have all: "b \<in> link_message_type_num ` UNIV" if "b \<in> BOTH_TAKE \<union> CONTROLLER_TAKES \<union> COMMS_TAKES"
  proof -
    have "{b. link_message_type_of b \<noteq> None} = link_message_type_num ` UNIV"
      using link_message_type.of_num_iff by force
    then show ?thesis
      using that by (auto simp: BOTH_TAKE_def CONTROLLER_TAKES_def COMMS_TAKES_def link_message_type_of_def link_message_type_arms_def)
  qed
  show "(\<exists>k. arriving b Side_Controller NoSession = Act k) \<longleftrightarrow> b \<in> BOTH_TAKE \<union> CONTROLLER_TAKES"
    unfolding act using num(1) all by blast
  show "(\<exists>k. arriving b Side_Comms NoSession = Act k) \<longleftrightarrow> b \<in> BOTH_TAKE \<union> COMMS_TAKES"
    unfolding act using num(2) all by blast
qed

text \<open>C19. A link-local frame is acted on exactly when its opcode is allocated, it travels the way the
  registry says and it names no client's session; every other frame is refused with one code for the
  type and the side and another for the session. The controller acts on the connections, the time
  and the radio's reports that comms starts and on the answers to what it starts itself; comms on
  the closing, the network, the release, the download, the pairing window and the scan that the
  controller starts and on the answers to its own; \<open>LinkUp\<close> and \<open>Heartbeat\<close> with their answers go
  both ways. So an exchange comms may start reaches the controller and its acknowledgement comms,
  one the controller may start the other way about, and the acknowledgement of any request the side
  that asked.\<close>

theorem link_intake_exact:
  shows "(arriving b at session = Act k \<longleftrightarrow> link_message_type_of b = Some k \<and> permitted k at \<and> session = NoSession) \<and>
    (arriving b at session = Refuse Le_NonZeroSession \<longleftrightarrow>
       (\<exists>k. link_message_type_of b = Some k \<and> permitted k at) \<and> session \<noteq> NoSession) \<and>
    (arriving b at session = Refuse Le_WrongSide \<longleftrightarrow> \<not> (\<exists>k. link_message_type_of b = Some k \<and> permitted k at)) \<and>
    ((\<exists>k. arriving b Side_Controller NoSession = Act k) \<longleftrightarrow> b \<in> BOTH_TAKE \<union> CONTROLLER_TAKES) \<and>
    ((\<exists>k. arriving b Side_Comms NoSession = Act k) \<longleftrightarrow> b \<in> BOTH_TAKE \<union> COMMS_TAKES) \<and>
    (permitted k at \<longleftrightarrow>
       (case link_direction_of k of
          Either \<Rightarrow> True
        | CommsToController \<Rightarrow> at = (if is_ack k then Side_Comms else Side_Controller)
        | ControllerToComms \<Rightarrow> at = (if is_ack k then Side_Controller else Side_Comms))) \<and>
    (acknowledges a k \<longrightarrow> permitted a at = permitted k (side_other at))"
proof (intro conjI)
  show "acknowledges a k \<longrightarrow> permitted a at = permitted k (side_other at)"
    using acknowledged_direction [of a k]
    by (cases "link_direction_of k"; cases at) (auto simp: permitted_def acknowledges_def)
  show "permitted k at \<longleftrightarrow>
       (case link_direction_of k of
          Either \<Rightarrow> True
        | CommsToController \<Rightarrow> at = (if is_ack k then Side_Comms else Side_Controller)
        | ControllerToComms \<Rightarrow> at = (if is_ack k then Side_Controller else Side_Comms))"
    by (cases "link_direction_of k"; cases at) (simp_all add: permitted_def)
qed (simp_all only: takes, auto simp: arriving_def split: option.splits)

lemma link_intake_exact_witness:
  "acknowledges Lm_ClientConnectedAck Lm_ClientConnected \<and>
   permitted Lm_ClientConnectedAck Side_Comms = permitted Lm_ClientConnected Side_Controller \<and>
   (\<exists>k. arriving 0x62 Side_Controller NoSession = Act k) \<and> \<not> (\<exists>k. arriving 0x62 Side_Comms NoSession = Act k)"
proof -
  have "acknowledges Lm_ClientConnectedAck Lm_ClientConnected"
    by (simp add: acknowledges_def is_ack_def)
  then show ?thesis
    using link_intake_exact [of "0x62" Side_Comms NoSession Lm_ClientConnected Lm_ClientConnectedAck]
    by (simp add: BOTH_TAKE_def CONTROLLER_TAKES_def COMMS_TAKES_def)
qed

section \<open>The grammar of a version\<close>

lemma split_once_none: "c \<notin> set v \<Longrightarrow> split_once c v = None"
  by (induction v) auto

lemma split_once_first: "c \<notin> set a \<Longrightarrow> split_once c (a @ c # b) = Some (a, b)"
  by (induction a) auto

lemma split_once_SomeD: "split_once c v = Some (a, b) \<Longrightarrow> v = a @ c # b"
  by (induction v arbitrary: a) (auto split: if_splits)

lemma split_on_plain: "c \<notin> set v \<Longrightarrow> split_on c v = [v]"
  by (induction v) auto

lemma split_on_first: "c \<notin> set a \<Longrightarrow> split_on c (a @ c # b) = a # split_on c b"
  by (induction a) auto

lemma split_on_some [simp]: "split_on c v \<noteq> []"
  by (cases v) (auto split: list.splits)

lemma split_on_join: "split_on c v = p # ps \<Longrightarrow> v = p @ concat (map (Cons c) ps)"
proof (induction v arbitrary: p ps)
  case (Cons x v)
  obtain q qs where q: "split_on c v = q # qs"
    by (cases "split_on c v") simp_all
  have "p = (if x = c then [] else x # q)" and "ps = (if x = c then q # qs else qs)"
    using Cons.prems q by (simp_all split: if_splits)
  then show ?case
    using Cons.IH [OF q] by simp
qed simp

lemma find_split: "\<forall>y\<in>set xs. \<not> P y \<Longrightarrow> P x \<Longrightarrow> find P (xs @ x # ys) = Some x"
  by (induction xs) auto

lemma set_split_on: "set v \<subseteq> insert c (\<Union> (set ` set (split_on c v)))"
proof (cases "split_on c v")
  case Nil
  then show ?thesis by simp
next
  case (Cons p ps)
  then show ?thesis
    using split_on_join [OF Cons] by auto
qed

lemma commit_split_first:
  assumes "0x2B \<notin> set a"
  shows "commit_split (a @ [0x2B, 0x67] @ b) = Some (a, b)"
proof -
  let ?v = "a @ [0x2B, 0x67] @ b"
  have "take 2 (drop i ?v) \<noteq> [0x2B, 0x67]" if "i < length a" for i
  proof -
    have "hd (take 2 (drop i ?v)) = a ! i"
      using that by (simp add: hd_drop_conv_nth nth_append)
    then show ?thesis
      using assms nth_mem [OF that] by fastforce
  qed
  moreover have "[0..<length ?v - 1] = [0..<length a] @ length a # [Suc (length a)..<length ?v - 1]"
    using upt_add_eq_append [of 0 "length a" "Suc (length b)"] by (simp add: upt_conv_Cons del: upt_Suc)
  ultimately have "find (\<lambda>at. take 2 (drop at ?v) = [0x2B, 0x67]) [0..<length ?v - 1] = Some (length a)"
    by (simp add: find_split del: upt_Suc)
  then show ?thesis
    by (simp add: commit_split_def)
qed

lemma commit_split_SomeD:
  assumes "commit_split v = Some (a, b)"
  shows "v = a @ [0x2B, 0x67] @ b"
proof -
  obtain at where at: "find (\<lambda>at. take 2 (drop at v) = [0x2B, 0x67]) [0..<length v - 1] = Some at"
    "a = take at v" "b = drop (at + 2) v"
    using assms by (auto simp: commit_split_def split: option.splits)
  then have "take 2 (drop at v) = [0x2B, 0x67]"
    by (auto simp: find_Some_iff)
  then have "drop at v = [0x2B, 0x67] @ drop 2 (drop at v)"
    by (metis append_take_drop_id)
  then show ?thesis
    using at(2,3) by (metis append_take_drop_id drop_drop add.commute)
qed

text \<open>The grammar the code reads, as texts are written in it.\<close>

definition pre_part :: "bytes option \<Rightarrow> bytes" where
  "pre_part pre = (case pre of None \<Rightarrow> [] | Some p \<Rightarrow> 0x2D # p)"

definition version_text :: "bytes \<Rightarrow> bytes \<Rightarrow> bytes \<Rightarrow> bytes option \<Rightarrow> bytes \<Rightarrow> bytes" where
  "version_text major minor patch pre commit =
     major @ [0x2E] @ minor @ [0x2E] @ patch @ pre_part pre @ [0x2B, 0x67] @ commit"

lemma component_bytes:
  assumes "version_component p" and "\<not> ascii_digit c"
  shows "c \<notin> set p"
  using assms by (auto simp: version_component_def list_all_iff)

lemma not_digits [simp]: "\<not> ascii_digit 0x2E" "\<not> ascii_digit 0x2D" "\<not> ascii_digit 0x2B"
  by (simp_all add: ascii_digit_def)

lemma pre_release_bytes:
  assumes "version_pre_release p"
  shows "0x2B \<notin> set p"
proof
  assume "0x2B \<in> set p"
  then obtain q where "q \<in> set (split_on 0x2E p)" "0x2B \<in> set q"
    using set_split_on [of p "0x2E"] by auto
  moreover from this(1) have "version_identifier q"
    using assms by (auto simp: version_pre_release_def list_all_iff)
  ultimately show False
    by (auto simp: version_identifier_def list_all_iff ascii_alphanumeric_def ascii_digit_def)
qed

definition version_parts_ok :: "bytes \<Rightarrow> bytes \<Rightarrow> bytes \<Rightarrow> bytes option \<Rightarrow> bytes \<Rightarrow> bool" where
  "version_parts_ok major minor patch pre commit \<longleftrightarrow>
     version_component major \<and> version_component minor \<and> version_component patch \<and>
     (\<forall>p. pre = Some p \<longrightarrow> version_pre_release p) \<and> length commit = COMMIT_DIGITS \<and> list_all commit_digit commit"

lemma version_text_read:
  assumes "version_parts_ok a b c pre commit"
  shows "versioned key (version_text a b c pre commit) = Inr (version_text a b c pre commit)"
proof -
  note ok = assms [unfolded version_parts_ok_def]
  let ?core = "a @ [0x2E] @ b @ [0x2E] @ c"
  have dots: "split_on 0x2E ?core = [a, b, c]"
    using ok component_bytes [of _ "0x2E"] by (simp add: split_on_first split_on_plain)
  have dash: "0x2D \<notin> set ?core" and plus: "0x2B \<notin> set (?core @ pre_part pre)"
    using ok component_bytes [of _ "0x2D"] component_bytes [of _ "0x2B"] pre_release_bytes
    by (auto simp: pre_part_def split: option.splits)
  have "split_once 0x2D (?core @ pre_part pre) = (case pre of None \<Rightarrow> None | Some p \<Rightarrow> Some (?core, p))"
    using split_once_none [OF dash] split_once_first [OF dash] by (simp add: pre_part_def split: option.splits)
  then have "version_conforms (?core @ pre_part pre) commit"
    using ok dots by (auto simp: version_conforms_def pre_part_def split: option.splits)
  moreover have "commit_split (version_text a b c pre commit) = Some (?core @ pre_part pre, commit)"
    using commit_split_first [OF plus, of commit] by (simp add: version_text_def)
  ultimately show ?thesis
    by (simp add: versioned_def)
qed

lemma version_read_text:
  assumes "versioned key v = Inr w"
  shows "w = v \<and> (\<exists>a b c pre commit. v = version_text a b c pre commit \<and> version_parts_ok a b c pre commit)"
proof -
  obtain release commit where v: "commit_split v = Some (release, commit)" "version_conforms release commit" "w = v"
    using assms by (auto simp: versioned_def split: option.splits if_splits)
  define pair where "pair = (case split_once 0x2D release of Some (core, pre) \<Rightarrow> (core, Some pre) | None \<Rightarrow> (release, None))"
  obtain core pre where pair: "pair = (core, pre)"
    by (cases pair)
  have release: "release = core @ pre_part pre"
    using pair split_once_SomeD [of "0x2D" release] by (auto simp: pair_def pre_part_def split: option.splits)
  have "(case split_on 0x2E core of
      [a, b, c] \<Rightarrow> version_component a \<and> version_component b \<and> version_component c | _ \<Rightarrow> False)"
    and rest: "case pre of None \<Rightarrow> True | Some p \<Rightarrow> version_pre_release p" "length commit = COMMIT_DIGITS"
      "list_all commit_digit commit"
    using v(2) pair unfolding version_conforms_def pair_def Let_def by auto
  then obtain a b c where abc: "split_on 0x2E core = [a, b, c]" "version_component a" "version_component b" "version_component c"
    by (auto split: list.splits)
  then have "version_parts_ok a b c pre commit"
    using rest by (auto simp: version_parts_ok_def)
  moreover have "v = version_text a b c pre commit"
    using commit_split_SomeD [OF v(1)] release split_on_join [OF abc(1)] by (simp add: version_text_def)
  ultimately show ?thesis
    using v(3) by blast
qed

text \<open>C20. A firmware's own version is accepted exactly when it is three numbers of at most three digits
  without leading zeros, perhaps a pre-release of at most eight bytes, and the eight hex digits of a
  commit; nothing a pre-release may contain can be mistaken for the commit's separator, and a version
  that conforms always fits the field that carries it.\<close>

theorem versioned_exactly:
  "(versioned key v = Inr v \<longleftrightarrow>
      (\<exists>major minor patch pre commit. v = version_text major minor patch pre commit \<and>
         version_parts_ok major minor patch pre commit)) \<and>
   (versioned key v = Inr v \<or> versioned key v = Inl (Lk_NotAVersion key)) \<and>
   (versioned key v = Inl (Lk_NotAVersion key) \<or> bounded_text key v = Inr v)"
proof (intro conjI)
  show "versioned key v = Inr v \<longleftrightarrow> (\<exists>major minor patch pre commit. v = version_text major minor patch pre commit \<and>
         version_parts_ok major minor patch pre commit)"
    using version_text_read version_read_text [of key v v] by blast
  show total: "versioned key v = Inr v \<or> versioned key v = Inl (Lk_NotAVersion key)"
    by (simp add: versioned_def split: option.splits)
  have "length v \<le> MAX_LINK_TEXT" if read: "versioned key v = Inr v"
  proof -
    obtain a b c pre commit where v: "v = version_text a b c pre commit" "version_parts_ok a b c pre commit"
      using version_read_text [OF read] by blast
    then have "length a \<le> 3" "length b \<le> 3" "length c \<le> 3" "length (pre_part pre) \<le> 9" "length commit = 8"
      by (auto simp: version_parts_ok_def version_component_def version_pre_release_def pre_part_def
          COMPONENT_DIGITS_def PRE_RELEASE_LONGEST_def COMMIT_DIGITS_def split: option.splits)
    then show ?thesis
      by (simp add: v(1) version_text_def MAX_LINK_TEXT_def)
  qed
  then show "versioned key v = Inl (Lk_NotAVersion key) \<or> bounded_text key v = Inr v"
    using total by (auto simp: bounded_text_def)
qed

end
