(* ===== verification/Link_Bodies.thy ===== *)
theory Link_Bodies
  imports Link_Local
begin

text \<open>
  \<open>crates/km43/src/linklocal.rs\<close>, second half: the bodies the two chips exchange. Each is a record,
  the writer of its pairs behind a link header, the slots its reader fills and what completes them,
  with the contract of \<open>Link_Codec\<close> interpreted on it: what one chip writes the other reads, and,
  but for \<open>LinkUp\<close> and the two releases whose writers check a grammar their readers do not, nothing else reads.
  An answer that carries only an outcome is the registry's enumeration itself.
\<close>

text \<open>\<open>first?; second\<close>\<close>

definition first_error :: "'e + 'a \<Rightarrow> 'e + 'b \<Rightarrow> 'e + 'b" where
  "first_error a b = (case a of Inl e \<Rightarrow> Inl e | Inr _ \<Rightarrow> b)"

lemma first_error_Inr: "first_error a b = Inr y \<longleftrightarrow> (\<exists>x. a = Inr x) \<and> b = Inr y"
  by (cases a) (simp_all add: first_error_def)

lemma first_error_simps [simp]: "first_error (Inr x) b = b" "first_error (Inl e) b = Inl e"
  by (simp_all add: first_error_def)

lemma link_numbers [simp]:
  "allocated link_transport_of f1 (link_transport_num x1) = Inr x1"
  "allocated disconnect_reason_of f2 (disconnect_reason_num x2) = Inr x2"
  "allocated close_reason_of f3 (close_reason_num x3) = Inr x3"
  "allocated close_connection_outcome_of f4 (close_connection_outcome_num x4) = Inr x4"
  "allocated net_config_op_of f5 (net_config_op_num x5) = Inr x5"
  "allocated download_reason_of f6 (download_reason_num x6) = Inr x6"
  "allocated net_config_outcome_of f7 (net_config_outcome_num x7) = Inr x7"
  "allocated comms_release_op_of f8 (comms_release_op_num x8) = Inr x8"
  "allocated comms_release_outcome_of f9 (comms_release_outcome_num x9) = Inr x9"
  unfolding allocated_def link_transport.of_num_of disconnect_reason.of_num_of close_reason.of_num_of
    close_connection_outcome.of_num_of net_config_op.of_num_of download_reason.of_num_of
    net_config_outcome.of_num_of comms_release_op.of_num_of comms_release_outcome.of_num_of
  by simp_all

text \<open>A text that fits its field.\<close>

definition link_text :: "bytes \<Rightarrow> bool" where
  "link_text v \<longleftrightarrow> text_ok v \<and> length v \<le> MAX_LINK_TEXT"

lemma link_textD: "link_text v \<Longrightarrow> bounded_text key v = Inr v" "link_text v \<Longrightarrow> text_ok v"
    "link_text v \<Longrightarrow> length v \<le> MAX_STRING" "link_text v \<Longrightarrow> utf8 v"
  by (simp_all add: link_text_def bounded_text_def text_ok_def)

lemma bounded_text_InrD: "bounded_text key v = Inr w \<Longrightarrow> w = v \<and> length v \<le> MAX_LINK_TEXT"
  by (simp add: bounded_text_def split: if_splits)

lemma link_textI: "rd_text r = (Inr v, r') \<Longrightarrow> bounded_text key v = Inr w \<Longrightarrow> link_text w"
  by (auto simp: link_text_def rd_text_ok dest: bounded_text_InrD)

section \<open>Heartbeats\<close>

record heartbeat =
  hb_uptime_s :: u32
  hb_conns :: u8

definition heartbeat_pairs :: "heartbeat \<Rightarrow> (writer, cbor_error, unit) act" where
  "heartbeat_pairs x =
     andthen (wr_key 1) (\<lambda>_. andthen (wr_u64 (ucast (hb_uptime_s x))) (\<lambda>_.
     andthen (wr_key 2) (\<lambda>_. wr_u64 (ucast (hb_conns x)))))"

definition heartbeat_write :: "heartbeat \<Rightarrow> link_header \<Rightarrow> bytes \<Rightarrow> (link_error + nat) \<times> bytes" where
  "heartbeat_write x h dst =
     link_writing Lk_Cbor h 2 (map_err Lk_Cbor (heartbeat_pairs x)) dst"

record heartbeat_slots =
  hbq_uptime :: "u32 option"
  hbq_conns :: "u8 option"

definition heartbeat_empty :: heartbeat_slots where
  "heartbeat_empty = \<lparr>hbq_uptime = None, hbq_conns = None\<rparr>"

definition heartbeat_field :: "heartbeat_slots \<Rightarrow> int \<Rightarrow> (reader, link_error, heartbeat_slots) act" where
  "heartbeat_field slots number =
     (if number = 1 then
     andthen (map_err Lk_Cbor rd_u32) (\<lambda>v.
     andthen (once (Lk_Duplicate Lf_Uptime) (hbq_uptime slots) v) (\<lambda>t. ret (slots\<lparr>hbq_uptime := t\<rparr>)))
      else if number = 2 then
     andthen (map_err Lk_Cbor rd_u8) (\<lambda>v.
     andthen (once (Lk_Duplicate Lf_Conns) (hbq_conns slots) v) (\<lambda>t. ret (slots\<lparr>hbq_conns := t\<rparr>)))
      else skipped Lk_Cbor slots)"

definition heartbeat_complete :: "heartbeat_slots \<Rightarrow> (reader, link_error, heartbeat) act" where
  "heartbeat_complete slots =
     andthen (ok_or (Lk_Missing Lf_Uptime) (hbq_uptime slots)) (\<lambda>uptime_s.
     andthen (ok_or (Lk_Missing Lf_Conns) (hbq_conns slots)) (\<lambda>conns.
     ret \<lparr>hb_uptime_s = uptime_s, hb_conns = conns\<rparr>))"

definition heartbeat_decode :: "link_envelope \<Rightarrow> link_error + heartbeat" where
  "heartbeat_decode = link_reading Lk_Cbor heartbeat_field heartbeat_empty heartbeat_complete"

definition heartbeat_fields :: "heartbeat \<Rightarrow> (int \<times> item) list" where
  "heartbeat_fields x =
     [(1, IUint (ucast (hb_uptime_s x))), (2, IUint (ucast (hb_conns x)))]"

lemma heartbeat_ok [simp]:
  "ascending None (heartbeat_fields x)" "shallow room (heartbeat_fields x)" "known 2 (heartbeat_fields x)"
  "length (heartbeat_fields x) = 2"
  by (auto simp: heartbeat_fields_def good_key_def split: option.split)

lemma heartbeat_writes:
  shows "writes_pairs (heartbeat_pairs x) (heartbeat_fields x)"
  unfolding heartbeat_pairs_def heartbeat_fields_def
  by (intro writes_append writes_option item_rules)

lemma heartbeat_field_simps:
  "heartbeat_field s 1 = andthen (map_err Lk_Cbor rd_u32) (\<lambda>v.
     andthen (once (Lk_Duplicate Lf_Uptime) (hbq_uptime s) v) (\<lambda>t. ret (s\<lparr>hbq_uptime := t\<rparr>)))"
  "heartbeat_field s 2 = andthen (map_err Lk_Cbor rd_u8) (\<lambda>v.
     andthen (once (Lk_Duplicate Lf_Conns) (hbq_conns s) v) (\<lambda>t. ret (s\<lparr>hbq_conns := t\<rparr>)))"
  "2 < j \<Longrightarrow> heartbeat_field s j = skipped Lk_Cbor s"
  by (simp_all add: heartbeat_field_def)

lemma heartbeat_reads:
  shows "reads_pairs heartbeat_field (heartbeat_fields x) heartbeat_empty
    \<lparr>hbq_uptime = Some (hb_uptime_s x), hbq_conns = Some (hb_conns x)\<rparr>"
  by (rule reads_eq, unfold heartbeat_fields_def)
    (rule reads_Nil | rule reads_Cons | rule reads_pairs_append, rule reads_optional | rule reads_optional | simp only: heartbeat_field_simps
      | rule slot_rules | rule item_rules  | assumption | simp add: heartbeat_empty_def; fail)+

interpretation heartbeat: strict_link_codec heartbeat_write heartbeat_decode heartbeat_fields "\<lambda>_. True" 2
proof
  fix x h and dst :: bytes
  assume x: "length (link_bytes h (heartbeat_fields x)) \<le> length dst" "length dst \<le> usize_max"
  then show "heartbeat_write x h dst = (Inr (length (link_bytes h (heartbeat_fields x))), splice dst 0 (link_bytes h (heartbeat_fields x)))"
    unfolding heartbeat_write_def by (simp add: link_writes [OF heartbeat_writes])
next
  fix x h fs
  assume x: "session_ok (lh_session h)" "extends 2 6 fs" "length (link_bytes h (heartbeat_fields x @ fs)) \<le> usize_max"
  show "\<exists>e. link_envelope_decode (link_bytes h (heartbeat_fields x @ fs)) = Inr e \<and>
    le_opcode e = link_message_type_num (lh_kind h) \<and> le_session e = lh_session h \<and> le_req_id e = lh_req_id h \<and>
    heartbeat_decode e = Inr x"
    unfolding heartbeat_decode_def
    by (rule link_reads [OF heartbeat_reads _ _ _ x(2) _ x(1) x(3)])
      (auto intro!: runs_andthen simp: heartbeat_complete_def heartbeat_field_simps)
qed simp_all

section \<open>Connections\<close>

record client_up =
  cu_conn :: u16
  cu_transport :: link_transport
  cu_peer :: bytes

definition client_up_pairs :: "client_up \<Rightarrow> (writer, cbor_error, unit) act" where
  "client_up_pairs x =
     andthen (wr_key 1) (\<lambda>_. andthen (wr_u64 (ucast (cu_conn x))) (\<lambda>_.
     andthen (wr_key 2) (\<lambda>_. andthen (wr_u64 (ucast (link_transport_num (cu_transport x)))) (\<lambda>_.
     andthen (wr_key 3) (\<lambda>_. wr_text (cu_peer x))))))"

definition client_up_write :: "client_up \<Rightarrow> link_header \<Rightarrow> bytes \<Rightarrow> (link_error + nat) \<times> bytes" where
  "client_up_write x h dst =
     (case (if cu_conn x = 0 then Inl Lk_NoSuchConnection else Inr ()) of Inl why \<Rightarrow> (Inl why, dst) | Inr _ \<Rightarrow>
       link_writing Lk_Cbor h 3 (map_err Lk_Cbor (client_up_pairs x)) dst)"

record client_up_slots =
  cuq_conn :: "u16 option"
  cuq_transport :: "link_transport option"
  cuq_peer :: "bytes option"

definition client_up_empty :: client_up_slots where
  "client_up_empty = \<lparr>cuq_conn = None, cuq_transport = None, cuq_peer = None\<rparr>"

definition client_up_field :: "client_up_slots \<Rightarrow> int \<Rightarrow> (reader, link_error, client_up_slots) act" where
  "client_up_field slots number =
     (if number = 1 then
     andthen (map_err Lk_Cbor rd_u16) (\<lambda>v.
     andthen (once (Lk_Duplicate Lf_Conn) (cuq_conn slots) v) (\<lambda>t. ret (slots\<lparr>cuq_conn := t\<rparr>)))
      else if number = 2 then
     andthen (map_err Lk_Cbor rd_u8) (\<lambda>v. andthen (lift_sum (allocated link_transport_of Lk_UnknownTransport v)) (\<lambda>w.
     andthen (once (Lk_Duplicate Lf_Transport) (cuq_transport slots) w) (\<lambda>t. ret (slots\<lparr>cuq_transport := t\<rparr>))))
      else if number = 3 then
     andthen (map_err Lk_Cbor rd_text) (\<lambda>v.
     andthen (once (Lk_Duplicate Lf_Peer) (cuq_peer slots) v) (\<lambda>t. ret (slots\<lparr>cuq_peer := t\<rparr>)))
      else skipped Lk_Cbor slots)"

definition client_up_complete :: "client_up_slots \<Rightarrow> (reader, link_error, client_up) act" where
  "client_up_complete slots =
     andthen (ok_or (Lk_Missing Lf_Conn) (cuq_conn slots)) (\<lambda>conn.
     if conn = 0 then fail Lk_NoSuchConnection else
     andthen (ok_or (Lk_Missing Lf_Transport) (cuq_transport slots)) (\<lambda>transport.
     andthen (ok_or (Lk_Missing Lf_Peer) (cuq_peer slots)) (\<lambda>peer.
     ret \<lparr>cu_conn = conn, cu_transport = transport, cu_peer = peer\<rparr>)))"

definition client_up_decode :: "link_envelope \<Rightarrow> link_error + client_up" where
  "client_up_decode = link_reading Lk_Cbor client_up_field client_up_empty client_up_complete"

definition client_up_fields :: "client_up \<Rightarrow> (int \<times> item) list" where
  "client_up_fields x =
     [(1, IUint (ucast (cu_conn x))), (2, IUint (ucast (link_transport_num (cu_transport x)))), (3, IText (cu_peer x))]"

definition client_up_valid :: "client_up \<Rightarrow> bool" where
  "client_up_valid x \<longleftrightarrow> text_ok (cu_peer x) \<and> cu_conn x \<noteq> 0"

lemma client_up_ok [simp]:
  "ascending None (client_up_fields x)" "shallow room (client_up_fields x)" "known 3 (client_up_fields x)"
  "length (client_up_fields x) = 3"
  by (auto simp: client_up_fields_def good_key_def split: option.split)

lemma client_up_writes:
  assumes "client_up_valid x"
  shows "writes_pairs (client_up_pairs x) (client_up_fields x)"
  using assms unfolding client_up_pairs_def client_up_fields_def
  by (intro writes_append writes_option item_rules) (simp_all add: client_up_valid_def text_ok_def)

lemma client_up_field_simps:
  "client_up_field s 1 = andthen (map_err Lk_Cbor rd_u16) (\<lambda>v.
     andthen (once (Lk_Duplicate Lf_Conn) (cuq_conn s) v) (\<lambda>t. ret (s\<lparr>cuq_conn := t\<rparr>)))"
  "client_up_field s 2 = andthen (map_err Lk_Cbor rd_u8) (\<lambda>v. andthen (lift_sum (allocated link_transport_of Lk_UnknownTransport v)) (\<lambda>w.
     andthen (once (Lk_Duplicate Lf_Transport) (cuq_transport s) w) (\<lambda>t. ret (s\<lparr>cuq_transport := t\<rparr>))))"
  "client_up_field s 3 = andthen (map_err Lk_Cbor rd_text) (\<lambda>v.
     andthen (once (Lk_Duplicate Lf_Peer) (cuq_peer s) v) (\<lambda>t. ret (s\<lparr>cuq_peer := t\<rparr>)))"
  "3 < j \<Longrightarrow> client_up_field s j = skipped Lk_Cbor s"
  by (simp_all add: client_up_field_def)

lemma client_up_reads:
  assumes "client_up_valid x"
  shows "reads_pairs client_up_field (client_up_fields x) client_up_empty
    \<lparr>cuq_conn = Some (cu_conn x), cuq_transport = Some (cu_transport x), cuq_peer = Some (cu_peer x)\<rparr>"
proof -
  have ok: "text_ok (cu_peer x)"
    using assms by (auto simp: client_up_valid_def)
  show ?thesis
    by (rule reads_eq, unfold client_up_fields_def)
      (rule reads_Nil | rule reads_Cons | rule reads_pairs_append, rule reads_optional | rule reads_optional | simp only: client_up_field_simps
      | rule slot_rules | rule item_rules link_numbers text_okD ok | assumption | simp add: client_up_empty_def; fail)+
qed

definition client_up_kept :: "client_up_slots \<Rightarrow> bool" where
  "client_up_kept s \<longleftrightarrow> (\<forall>v. cuq_peer s = Some v \<longrightarrow> text_ok v)"

lemma client_up_none: "client_up_kept client_up_empty"
  by (simp add: client_up_kept_def client_up_empty_def)

lemma client_up_keeps:
  assumes "client_up_kept a" and "client_up_field a k s = (Inr a', s')"
  shows "client_up_kept a'"
  using assms by (auto simp: client_up_field_def client_up_kept_def elim!: slot_InrE plain_slot_InrE map_err_InrE skipped_InrE dest: allocated_InrD rd_text_ok split: if_splits)

interpretation client_up: strict_link_codec client_up_write client_up_decode client_up_fields client_up_valid 3
proof
  fix x h and dst :: bytes
  assume x: "client_up_valid x" "length (link_bytes h (client_up_fields x)) \<le> length dst" "length dst \<le> usize_max"
  then show "client_up_write x h dst = (Inr (length (link_bytes h (client_up_fields x))), splice dst 0 (link_bytes h (client_up_fields x)))"
    unfolding client_up_write_def by (simp add: link_writes [OF client_up_writes [OF x(1)]] client_up_valid_def)
next
  fix x h fs
  assume x: "client_up_valid x" "session_ok (lh_session h)" "extends 3 6 fs" "length (link_bytes h (client_up_fields x @ fs)) \<le> usize_max"
  show "\<exists>e. link_envelope_decode (link_bytes h (client_up_fields x @ fs)) = Inr e \<and>
    le_opcode e = link_message_type_num (lh_kind h) \<and> le_session e = lh_session h \<and> le_req_id e = lh_req_id h \<and>
    client_up_decode e = Inr x"
    unfolding client_up_decode_def
    by (rule link_reads [OF client_up_reads [OF x(1)] _ _ _ x(3) _ x(2) x(4)])
      (insert x(1), auto intro!: runs_andthen simp: client_up_complete_def client_up_field_simps client_up_valid_def)
next
  fix e x assume "client_up_decode e = Inr x"
  then obtain slots s t where "client_up_kept slots" "client_up_complete slots s = (Inr x, t)"
    unfolding client_up_decode_def by (rule link_reading_InrE [where P = client_up_kept, OF _ client_up_none]) (blast intro: client_up_keeps)+
  then show "client_up_valid x"
    by (auto simp: client_up_complete_def client_up_kept_def client_up_valid_def split: if_splits elim!: decode_InrE)
qed

record client_down =
  cd_conn :: u16
  cd_reason :: disconnect_reason

definition client_down_pairs :: "client_down \<Rightarrow> (writer, cbor_error, unit) act" where
  "client_down_pairs x =
     andthen (wr_key 1) (\<lambda>_. andthen (wr_u64 (ucast (cd_conn x))) (\<lambda>_.
     andthen (wr_key 2) (\<lambda>_. wr_u64 (ucast (disconnect_reason_num (cd_reason x))))))"

definition client_down_write :: "client_down \<Rightarrow> link_header \<Rightarrow> bytes \<Rightarrow> (link_error + nat) \<times> bytes" where
  "client_down_write x h dst =
     (case (if cd_conn x = 0 then Inl Lk_NoSuchConnection else Inr ()) of Inl why \<Rightarrow> (Inl why, dst) | Inr _ \<Rightarrow>
       link_writing Lk_Cbor h 2 (map_err Lk_Cbor (client_down_pairs x)) dst)"

record client_down_slots =
  cdq_conn :: "u16 option"
  cdq_reason :: "disconnect_reason option"

definition client_down_empty :: client_down_slots where
  "client_down_empty = \<lparr>cdq_conn = None, cdq_reason = None\<rparr>"

definition client_down_field :: "client_down_slots \<Rightarrow> int \<Rightarrow> (reader, link_error, client_down_slots) act" where
  "client_down_field slots number =
     (if number = 1 then
     andthen (map_err Lk_Cbor rd_u16) (\<lambda>v.
     andthen (once (Lk_Duplicate Lf_Conn) (cdq_conn slots) v) (\<lambda>t. ret (slots\<lparr>cdq_conn := t\<rparr>)))
      else if number = 2 then
     andthen (map_err Lk_Cbor rd_u8) (\<lambda>v. andthen (lift_sum (allocated disconnect_reason_of Lk_UnknownReason v)) (\<lambda>w.
     andthen (once (Lk_Duplicate Lf_Reason) (cdq_reason slots) w) (\<lambda>t. ret (slots\<lparr>cdq_reason := t\<rparr>))))
      else skipped Lk_Cbor slots)"

definition client_down_complete :: "client_down_slots \<Rightarrow> (reader, link_error, client_down) act" where
  "client_down_complete slots =
     andthen (ok_or (Lk_Missing Lf_Conn) (cdq_conn slots)) (\<lambda>conn.
     if conn = 0 then fail Lk_NoSuchConnection else
     andthen (ok_or (Lk_Missing Lf_Reason) (cdq_reason slots)) (\<lambda>reason.
     ret \<lparr>cd_conn = conn, cd_reason = reason\<rparr>))"

definition client_down_decode :: "link_envelope \<Rightarrow> link_error + client_down" where
  "client_down_decode = link_reading Lk_Cbor client_down_field client_down_empty client_down_complete"

definition client_down_fields :: "client_down \<Rightarrow> (int \<times> item) list" where
  "client_down_fields x =
     [(1, IUint (ucast (cd_conn x))), (2, IUint (ucast (disconnect_reason_num (cd_reason x))))]"

definition client_down_valid :: "client_down \<Rightarrow> bool" where
  "client_down_valid x \<longleftrightarrow> cd_conn x \<noteq> 0"

lemma client_down_ok [simp]:
  "ascending None (client_down_fields x)" "shallow room (client_down_fields x)" "known 2 (client_down_fields x)"
  "length (client_down_fields x) = 2"
  by (auto simp: client_down_fields_def good_key_def split: option.split)

lemma client_down_writes:
  assumes "client_down_valid x"
  shows "writes_pairs (client_down_pairs x) (client_down_fields x)"
  unfolding client_down_pairs_def client_down_fields_def
  by (intro writes_append writes_option item_rules)

lemma client_down_field_simps:
  "client_down_field s 1 = andthen (map_err Lk_Cbor rd_u16) (\<lambda>v.
     andthen (once (Lk_Duplicate Lf_Conn) (cdq_conn s) v) (\<lambda>t. ret (s\<lparr>cdq_conn := t\<rparr>)))"
  "client_down_field s 2 = andthen (map_err Lk_Cbor rd_u8) (\<lambda>v. andthen (lift_sum (allocated disconnect_reason_of Lk_UnknownReason v)) (\<lambda>w.
     andthen (once (Lk_Duplicate Lf_Reason) (cdq_reason s) w) (\<lambda>t. ret (s\<lparr>cdq_reason := t\<rparr>))))"
  "2 < j \<Longrightarrow> client_down_field s j = skipped Lk_Cbor s"
  by (simp_all add: client_down_field_def)

lemma client_down_reads:
  assumes "client_down_valid x"
  shows "reads_pairs client_down_field (client_down_fields x) client_down_empty
    \<lparr>cdq_conn = Some (cd_conn x), cdq_reason = Some (cd_reason x)\<rparr>"
  by (rule reads_eq, unfold client_down_fields_def)
    (rule reads_Nil | rule reads_Cons | rule reads_pairs_append, rule reads_optional | rule reads_optional | simp only: client_down_field_simps
      | rule slot_rules | rule item_rules link_numbers text_okD | assumption | simp add: client_down_empty_def; fail)+

definition client_down_kept :: "client_down_slots \<Rightarrow> bool" where
  "client_down_kept s \<longleftrightarrow> True"

lemma client_down_none: "client_down_kept client_down_empty"
  by (simp add: client_down_kept_def client_down_empty_def)

lemma client_down_keeps:
  assumes "client_down_kept a" and "client_down_field a k s = (Inr a', s')"
  shows "client_down_kept a'"
  using assms by (auto simp: client_down_field_def client_down_kept_def elim!: slot_InrE plain_slot_InrE map_err_InrE skipped_InrE dest: allocated_InrD rd_text_ok split: if_splits)

interpretation client_down: strict_link_codec client_down_write client_down_decode client_down_fields client_down_valid 2
proof
  fix x h and dst :: bytes
  assume x: "client_down_valid x" "length (link_bytes h (client_down_fields x)) \<le> length dst" "length dst \<le> usize_max"
  then show "client_down_write x h dst = (Inr (length (link_bytes h (client_down_fields x))), splice dst 0 (link_bytes h (client_down_fields x)))"
    unfolding client_down_write_def by (simp add: link_writes [OF client_down_writes [OF x(1)]] client_down_valid_def)
next
  fix x h fs
  assume x: "client_down_valid x" "session_ok (lh_session h)" "extends 2 6 fs" "length (link_bytes h (client_down_fields x @ fs)) \<le> usize_max"
  show "\<exists>e. link_envelope_decode (link_bytes h (client_down_fields x @ fs)) = Inr e \<and>
    le_opcode e = link_message_type_num (lh_kind h) \<and> le_session e = lh_session h \<and> le_req_id e = lh_req_id h \<and>
    client_down_decode e = Inr x"
    unfolding client_down_decode_def
    by (rule link_reads [OF client_down_reads [OF x(1)] _ _ _ x(3) _ x(2) x(4)])
      (insert x(1), auto intro!: runs_andthen simp: client_down_complete_def client_down_field_simps client_down_valid_def)
next
  fix e x assume "client_down_decode e = Inr x"
  then obtain slots s t where "client_down_kept slots" "client_down_complete slots s = (Inr x, t)"
    unfolding client_down_decode_def by (rule link_reading_InrE [where P = client_down_kept, OF _ client_down_none]) (blast intro: client_down_keeps)+
  then show "client_down_valid x"
    by (auto simp: client_down_complete_def client_down_kept_def client_down_valid_def split: if_splits elim!: decode_InrE)
qed

record close_connections =
  cc_conn :: u16
  cc_reason :: close_reason

definition close_connections_pairs :: "close_connections \<Rightarrow> (writer, cbor_error, unit) act" where
  "close_connections_pairs x =
     andthen (wr_key 1) (\<lambda>_. andthen (wr_u64 (ucast (cc_conn x))) (\<lambda>_.
     andthen (wr_key 2) (\<lambda>_. wr_u64 (ucast (close_reason_num (cc_reason x))))))"

definition close_connections_write :: "close_connections \<Rightarrow> link_header \<Rightarrow> bytes \<Rightarrow> (link_error + nat) \<times> bytes" where
  "close_connections_write x h dst =
     link_writing Lk_Cbor h 2 (map_err Lk_Cbor (close_connections_pairs x)) dst"

record close_connections_slots =
  ccq_conn :: "u16 option"
  ccq_reason :: "close_reason option"

definition close_connections_empty :: close_connections_slots where
  "close_connections_empty = \<lparr>ccq_conn = None, ccq_reason = None\<rparr>"

definition close_connections_field :: "close_connections_slots \<Rightarrow> int \<Rightarrow> (reader, link_error, close_connections_slots) act" where
  "close_connections_field slots number =
     (if number = 1 then
     andthen (map_err Lk_Cbor rd_u16) (\<lambda>v.
     andthen (once (Lk_Duplicate Lf_Conn) (ccq_conn slots) v) (\<lambda>t. ret (slots\<lparr>ccq_conn := t\<rparr>)))
      else if number = 2 then
     andthen (map_err Lk_Cbor rd_u8) (\<lambda>v. andthen (lift_sum (allocated close_reason_of Lk_UnknownReason v)) (\<lambda>w.
     andthen (once (Lk_Duplicate Lf_Reason) (ccq_reason slots) w) (\<lambda>t. ret (slots\<lparr>ccq_reason := t\<rparr>))))
      else skipped Lk_Cbor slots)"

definition close_connections_complete :: "close_connections_slots \<Rightarrow> (reader, link_error, close_connections) act" where
  "close_connections_complete slots =
     andthen (ok_or (Lk_Missing Lf_Conn) (ccq_conn slots)) (\<lambda>conn.
     andthen (ok_or (Lk_Missing Lf_Reason) (ccq_reason slots)) (\<lambda>reason.
     ret \<lparr>cc_conn = conn, cc_reason = reason\<rparr>))"

definition close_connections_decode :: "link_envelope \<Rightarrow> link_error + close_connections" where
  "close_connections_decode = link_reading Lk_Cbor close_connections_field close_connections_empty close_connections_complete"

definition is_every_connection :: "close_connections \<Rightarrow> bool" where
  "is_every_connection x \<longleftrightarrow> cc_conn x = 0"

definition close_connections_fields :: "close_connections \<Rightarrow> (int \<times> item) list" where
  "close_connections_fields x =
     [(1, IUint (ucast (cc_conn x))), (2, IUint (ucast (close_reason_num (cc_reason x))))]"

lemma close_connections_ok [simp]:
  "ascending None (close_connections_fields x)" "shallow room (close_connections_fields x)" "known 2 (close_connections_fields x)"
  "length (close_connections_fields x) = 2"
  by (auto simp: close_connections_fields_def good_key_def split: option.split)

lemma close_connections_writes:
  shows "writes_pairs (close_connections_pairs x) (close_connections_fields x)"
  unfolding close_connections_pairs_def close_connections_fields_def
  by (intro writes_append writes_option item_rules)

lemma close_connections_field_simps:
  "close_connections_field s 1 = andthen (map_err Lk_Cbor rd_u16) (\<lambda>v.
     andthen (once (Lk_Duplicate Lf_Conn) (ccq_conn s) v) (\<lambda>t. ret (s\<lparr>ccq_conn := t\<rparr>)))"
  "close_connections_field s 2 = andthen (map_err Lk_Cbor rd_u8) (\<lambda>v. andthen (lift_sum (allocated close_reason_of Lk_UnknownReason v)) (\<lambda>w.
     andthen (once (Lk_Duplicate Lf_Reason) (ccq_reason s) w) (\<lambda>t. ret (s\<lparr>ccq_reason := t\<rparr>))))"
  "2 < j \<Longrightarrow> close_connections_field s j = skipped Lk_Cbor s"
  by (simp_all add: close_connections_field_def)

lemma close_connections_reads:
  shows "reads_pairs close_connections_field (close_connections_fields x) close_connections_empty
    \<lparr>ccq_conn = Some (cc_conn x), ccq_reason = Some (cc_reason x)\<rparr>"
  by (rule reads_eq, unfold close_connections_fields_def)
    (rule reads_Nil | rule reads_Cons | rule reads_pairs_append, rule reads_optional | rule reads_optional | simp only: close_connections_field_simps
      | rule slot_rules | rule item_rules link_numbers text_okD | assumption | simp add: close_connections_empty_def; fail)+

interpretation close_connections: strict_link_codec close_connections_write close_connections_decode close_connections_fields "\<lambda>_. True" 2
proof
  fix x h and dst :: bytes
  assume x: "length (link_bytes h (close_connections_fields x)) \<le> length dst" "length dst \<le> usize_max"
  then show "close_connections_write x h dst = (Inr (length (link_bytes h (close_connections_fields x))), splice dst 0 (link_bytes h (close_connections_fields x)))"
    unfolding close_connections_write_def by (simp add: link_writes [OF close_connections_writes])
next
  fix x h fs
  assume x: "session_ok (lh_session h)" "extends 2 6 fs" "length (link_bytes h (close_connections_fields x @ fs)) \<le> usize_max"
  show "\<exists>e. link_envelope_decode (link_bytes h (close_connections_fields x @ fs)) = Inr e \<and>
    le_opcode e = link_message_type_num (lh_kind h) \<and> le_session e = lh_session h \<and> le_req_id e = lh_req_id h \<and>
    close_connections_decode e = Inr x"
    unfolding close_connections_decode_def
    by (rule link_reads [OF close_connections_reads _ _ _ x(2) _ x(1) x(3)])
      (auto intro!: runs_andthen simp: close_connections_complete_def close_connections_field_simps)
qed simp_all

record close_report =
  cr_outcome :: close_connection_outcome
  cr_closed :: u8

definition close_report_pairs :: "close_report \<Rightarrow> (writer, cbor_error, unit) act" where
  "close_report_pairs x =
     andthen (wr_key 1) (\<lambda>_. andthen (wr_u64 (ucast (close_connection_outcome_num (cr_outcome x)))) (\<lambda>_.
     andthen (wr_key 2) (\<lambda>_. wr_u64 (ucast (cr_closed x)))))"

definition close_report_write :: "close_report \<Rightarrow> link_header \<Rightarrow> bytes \<Rightarrow> (link_error + nat) \<times> bytes" where
  "close_report_write x h dst =
     link_writing Lk_Cbor h 2 (map_err Lk_Cbor (close_report_pairs x)) dst"

record close_report_slots =
  crq_outcome :: "close_connection_outcome option"
  crq_closed :: "u8 option"

definition close_report_empty :: close_report_slots where
  "close_report_empty = \<lparr>crq_outcome = None, crq_closed = None\<rparr>"

definition close_report_field :: "close_report_slots \<Rightarrow> int \<Rightarrow> (reader, link_error, close_report_slots) act" where
  "close_report_field slots number =
     (if number = 1 then
     andthen (map_err Lk_Cbor rd_u8) (\<lambda>v. andthen (lift_sum (allocated close_connection_outcome_of Lk_UnknownOutcome v)) (\<lambda>w.
     andthen (once (Lk_Duplicate Lf_Outcome) (crq_outcome slots) w) (\<lambda>t. ret (slots\<lparr>crq_outcome := t\<rparr>))))
      else if number = 2 then
     andthen (map_err Lk_Cbor rd_u8) (\<lambda>v.
     andthen (once (Lk_Duplicate Lf_Closed) (crq_closed slots) v) (\<lambda>t. ret (slots\<lparr>crq_closed := t\<rparr>)))
      else skipped Lk_Cbor slots)"

definition close_report_complete :: "close_report_slots \<Rightarrow> (reader, link_error, close_report) act" where
  "close_report_complete slots =
     andthen (ok_or (Lk_Missing Lf_Outcome) (crq_outcome slots)) (\<lambda>outcome.
     andthen (ok_or (Lk_Missing Lf_Closed) (crq_closed slots)) (\<lambda>closed.
     ret \<lparr>cr_outcome = outcome, cr_closed = closed\<rparr>))"

definition close_report_decode :: "link_envelope \<Rightarrow> link_error + close_report" where
  "close_report_decode = link_reading Lk_Cbor close_report_field close_report_empty close_report_complete"

definition close_report_fields :: "close_report \<Rightarrow> (int \<times> item) list" where
  "close_report_fields x =
     [(1, IUint (ucast (close_connection_outcome_num (cr_outcome x)))), (2, IUint (ucast (cr_closed x)))]"

lemma close_report_ok [simp]:
  "ascending None (close_report_fields x)" "shallow room (close_report_fields x)" "known 2 (close_report_fields x)"
  "length (close_report_fields x) = 2"
  by (auto simp: close_report_fields_def good_key_def split: option.split)

lemma close_report_writes:
  shows "writes_pairs (close_report_pairs x) (close_report_fields x)"
  unfolding close_report_pairs_def close_report_fields_def
  by (intro writes_append writes_option item_rules)

lemma close_report_field_simps:
  "close_report_field s 1 = andthen (map_err Lk_Cbor rd_u8) (\<lambda>v. andthen (lift_sum (allocated close_connection_outcome_of Lk_UnknownOutcome v)) (\<lambda>w.
     andthen (once (Lk_Duplicate Lf_Outcome) (crq_outcome s) w) (\<lambda>t. ret (s\<lparr>crq_outcome := t\<rparr>))))"
  "close_report_field s 2 = andthen (map_err Lk_Cbor rd_u8) (\<lambda>v.
     andthen (once (Lk_Duplicate Lf_Closed) (crq_closed s) v) (\<lambda>t. ret (s\<lparr>crq_closed := t\<rparr>)))"
  "2 < j \<Longrightarrow> close_report_field s j = skipped Lk_Cbor s"
  by (simp_all add: close_report_field_def)

lemma close_report_reads:
  shows "reads_pairs close_report_field (close_report_fields x) close_report_empty
    \<lparr>crq_outcome = Some (cr_outcome x), crq_closed = Some (cr_closed x)\<rparr>"
  by (rule reads_eq, unfold close_report_fields_def)
    (rule reads_Nil | rule reads_Cons | rule reads_pairs_append, rule reads_optional | rule reads_optional | simp only: close_report_field_simps
      | rule slot_rules | rule item_rules link_numbers text_okD | assumption | simp add: close_report_empty_def; fail)+

interpretation close_report: strict_link_codec close_report_write close_report_decode close_report_fields "\<lambda>_. True" 2
proof
  fix x h and dst :: bytes
  assume x: "length (link_bytes h (close_report_fields x)) \<le> length dst" "length dst \<le> usize_max"
  then show "close_report_write x h dst = (Inr (length (link_bytes h (close_report_fields x))), splice dst 0 (link_bytes h (close_report_fields x)))"
    unfolding close_report_write_def by (simp add: link_writes [OF close_report_writes])
next
  fix x h fs
  assume x: "session_ok (lh_session h)" "extends 2 6 fs" "length (link_bytes h (close_report_fields x @ fs)) \<le> usize_max"
  show "\<exists>e. link_envelope_decode (link_bytes h (close_report_fields x @ fs)) = Inr e \<and>
    le_opcode e = link_message_type_num (lh_kind h) \<and> le_session e = lh_session h \<and> le_req_id e = lh_req_id h \<and>
    close_report_decode e = Inr x"
    unfolding close_report_decode_def
    by (rule link_reads [OF close_report_reads _ _ _ x(2) _ x(1) x(3)])
      (auto intro!: runs_andthen simp: close_report_complete_def close_report_field_simps)
qed simp_all

section \<open>Offers, verdicts and releases\<close>

definition NTP :: u8 where "NTP = 1"

record clock_offer =
  cl_unix_ms :: u64
  cl_source :: u8
  cl_accuracy_ms :: u32
  cl_server :: bytes

definition clock_offer_pairs :: "clock_offer \<Rightarrow> (writer, cbor_error, unit) act" where
  "clock_offer_pairs x =
     andthen (wr_key 1) (\<lambda>_. andthen (wr_u64 (cl_unix_ms x)) (\<lambda>_.
     andthen (wr_key 2) (\<lambda>_. andthen (wr_u64 (ucast (cl_source x))) (\<lambda>_.
     andthen (wr_key 3) (\<lambda>_. andthen (wr_u64 (ucast (cl_accuracy_ms x))) (\<lambda>_.
     andthen (wr_key 4) (\<lambda>_. wr_text (cl_server x))))))))"

definition clock_offer_write :: "clock_offer \<Rightarrow> link_header \<Rightarrow> bytes \<Rightarrow> (link_error + nat) \<times> bytes" where
  "clock_offer_write x h dst =
     (case first_error (if cl_source x \<noteq> NTP then Inl (Lk_UnknownSource (cl_source x)) else Inr ()) (bounded_text Lf_Server (cl_server x)) of Inl why \<Rightarrow> (Inl why, dst) | Inr _ \<Rightarrow>
       link_writing Lk_Cbor h 4 (map_err Lk_Cbor (clock_offer_pairs x)) dst)"

record clock_offer_slots =
  clq_unix_ms :: "u64 option"
  clq_source :: "u8 option"
  clq_accuracy_ms :: "u32 option"
  clq_server :: "bytes option"

definition clock_offer_empty :: clock_offer_slots where
  "clock_offer_empty = \<lparr>clq_unix_ms = None, clq_source = None, clq_accuracy_ms = None, clq_server = None\<rparr>"

definition clock_offer_field :: "clock_offer_slots \<Rightarrow> int \<Rightarrow> (reader, link_error, clock_offer_slots) act" where
  "clock_offer_field slots number =
     (if number = 1 then
     andthen (map_err Lk_Cbor rd_u64) (\<lambda>v.
     andthen (once (Lk_Duplicate Lf_UnixMs) (clq_unix_ms slots) v) (\<lambda>t. ret (slots\<lparr>clq_unix_ms := t\<rparr>)))
      else if number = 2 then
     andthen (map_err Lk_Cbor rd_u8) (\<lambda>v.
     andthen (once (Lk_Duplicate Lf_Source) (clq_source slots) v) (\<lambda>t. ret (slots\<lparr>clq_source := t\<rparr>)))
      else if number = 3 then
     andthen (map_err Lk_Cbor rd_u32) (\<lambda>v.
     andthen (once (Lk_Duplicate Lf_AccuracyMs) (clq_accuracy_ms slots) v) (\<lambda>t. ret (slots\<lparr>clq_accuracy_ms := t\<rparr>)))
      else if number = 4 then
     andthen (map_err Lk_Cbor rd_text) (\<lambda>v. andthen (lift_sum (bounded_text Lf_Server v)) (\<lambda>w.
     andthen (once (Lk_Duplicate Lf_Server) (clq_server slots) w) (\<lambda>t. ret (slots\<lparr>clq_server := t\<rparr>))))
      else skipped Lk_Cbor slots)"

definition clock_offer_complete :: "clock_offer_slots \<Rightarrow> (reader, link_error, clock_offer) act" where
  "clock_offer_complete slots =
     andthen (ok_or (Lk_Missing Lf_UnixMs) (clq_unix_ms slots)) (\<lambda>unix_ms.
     andthen (ok_or (Lk_Missing Lf_Source) (clq_source slots)) (\<lambda>source.
     if source \<noteq> NTP then fail (Lk_UnknownSource source) else
     andthen (ok_or (Lk_Missing Lf_AccuracyMs) (clq_accuracy_ms slots)) (\<lambda>accuracy_ms.
     andthen (ok_or (Lk_Missing Lf_Server) (clq_server slots)) (\<lambda>server.
     ret \<lparr>cl_unix_ms = unix_ms, cl_source = source, cl_accuracy_ms = accuracy_ms, cl_server = server\<rparr>))))"

definition clock_offer_decode :: "link_envelope \<Rightarrow> link_error + clock_offer" where
  "clock_offer_decode = link_reading Lk_Cbor clock_offer_field clock_offer_empty clock_offer_complete"

definition clock_offer_fields :: "clock_offer \<Rightarrow> (int \<times> item) list" where
  "clock_offer_fields x =
     [(1, IUint (cl_unix_ms x)), (2, IUint (ucast (cl_source x))), (3, IUint (ucast (cl_accuracy_ms x))), (4, IText (cl_server x))]"

definition clock_offer_valid :: "clock_offer \<Rightarrow> bool" where
  "clock_offer_valid x \<longleftrightarrow> link_text (cl_server x) \<and> cl_source x = NTP"

lemma clock_offer_ok [simp]:
  "ascending None (clock_offer_fields x)" "shallow room (clock_offer_fields x)" "known 4 (clock_offer_fields x)"
  "length (clock_offer_fields x) = 4"
  by (auto simp: clock_offer_fields_def good_key_def split: option.split)

lemma clock_offer_writes:
  assumes "clock_offer_valid x"
  shows "writes_pairs (clock_offer_pairs x) (clock_offer_fields x)"
  using assms unfolding clock_offer_pairs_def clock_offer_fields_def
  by (intro writes_append writes_option item_rules) (simp_all add: clock_offer_valid_def link_textD)

lemma clock_offer_field_simps:
  "clock_offer_field s 1 = andthen (map_err Lk_Cbor rd_u64) (\<lambda>v.
     andthen (once (Lk_Duplicate Lf_UnixMs) (clq_unix_ms s) v) (\<lambda>t. ret (s\<lparr>clq_unix_ms := t\<rparr>)))"
  "clock_offer_field s 2 = andthen (map_err Lk_Cbor rd_u8) (\<lambda>v.
     andthen (once (Lk_Duplicate Lf_Source) (clq_source s) v) (\<lambda>t. ret (s\<lparr>clq_source := t\<rparr>)))"
  "clock_offer_field s 3 = andthen (map_err Lk_Cbor rd_u32) (\<lambda>v.
     andthen (once (Lk_Duplicate Lf_AccuracyMs) (clq_accuracy_ms s) v) (\<lambda>t. ret (s\<lparr>clq_accuracy_ms := t\<rparr>)))"
  "clock_offer_field s 4 = andthen (map_err Lk_Cbor rd_text) (\<lambda>v. andthen (lift_sum (bounded_text Lf_Server v)) (\<lambda>w.
     andthen (once (Lk_Duplicate Lf_Server) (clq_server s) w) (\<lambda>t. ret (s\<lparr>clq_server := t\<rparr>))))"
  "4 < j \<Longrightarrow> clock_offer_field s j = skipped Lk_Cbor s"
  by (simp_all add: clock_offer_field_def)

lemma clock_offer_reads:
  assumes "clock_offer_valid x"
  shows "reads_pairs clock_offer_field (clock_offer_fields x) clock_offer_empty
    \<lparr>clq_unix_ms = Some (cl_unix_ms x), clq_source = Some (cl_source x), clq_accuracy_ms = Some (cl_accuracy_ms x), clq_server = Some (cl_server x)\<rparr>"
proof -
  have ok: "link_text (cl_server x)"
    using assms by (auto simp: clock_offer_valid_def)
  show ?thesis
    by (rule reads_eq, unfold clock_offer_fields_def)
      (rule reads_Nil | rule reads_Cons | rule reads_pairs_append, rule reads_optional | rule reads_optional | simp only: clock_offer_field_simps
      | rule slot_rules | rule item_rules link_textD ok | assumption | simp add: clock_offer_empty_def; fail)+
qed

definition clock_offer_kept :: "clock_offer_slots \<Rightarrow> bool" where
  "clock_offer_kept s \<longleftrightarrow> (\<forall>v. clq_server s = Some v \<longrightarrow> link_text v)"

lemma clock_offer_none: "clock_offer_kept clock_offer_empty"
  by (simp add: clock_offer_kept_def clock_offer_empty_def)

lemma clock_offer_keeps:
  assumes "clock_offer_kept a" and "clock_offer_field a k s = (Inr a', s')"
  shows "clock_offer_kept a'"
  using assms by (auto simp: clock_offer_field_def clock_offer_kept_def elim!: slot_InrE plain_slot_InrE map_err_InrE skipped_InrE dest: link_textI split: if_splits)

interpretation clock_offer: strict_link_codec clock_offer_write clock_offer_decode clock_offer_fields clock_offer_valid 4
proof
  fix x h and dst :: bytes
  assume x: "clock_offer_valid x" "length (link_bytes h (clock_offer_fields x)) \<le> length dst" "length dst \<le> usize_max"
  then show "clock_offer_write x h dst = (Inr (length (link_bytes h (clock_offer_fields x))), splice dst 0 (link_bytes h (clock_offer_fields x)))"
    unfolding clock_offer_write_def by (simp add: link_writes [OF clock_offer_writes [OF x(1)]] clock_offer_valid_def link_textD)
next
  fix x h fs
  assume x: "clock_offer_valid x" "session_ok (lh_session h)" "extends 4 6 fs" "length (link_bytes h (clock_offer_fields x @ fs)) \<le> usize_max"
  show "\<exists>e. link_envelope_decode (link_bytes h (clock_offer_fields x @ fs)) = Inr e \<and>
    le_opcode e = link_message_type_num (lh_kind h) \<and> le_session e = lh_session h \<and> le_req_id e = lh_req_id h \<and>
    clock_offer_decode e = Inr x"
    unfolding clock_offer_decode_def
    by (rule link_reads [OF clock_offer_reads [OF x(1)] _ _ _ x(3) _ x(2) x(4)])
      (insert x(1), auto intro!: runs_andthen simp: clock_offer_complete_def clock_offer_field_simps clock_offer_valid_def)
next
  fix e x assume "clock_offer_decode e = Inr x"
  then obtain slots s t where "clock_offer_kept slots" "clock_offer_complete slots s = (Inr x, t)"
    unfolding clock_offer_decode_def by (rule link_reading_InrE [where P = clock_offer_kept, OF _ clock_offer_none]) (blast intro: clock_offer_keeps)+
  then show "clock_offer_valid x"
    by (auto simp: clock_offer_complete_def clock_offer_kept_def clock_offer_valid_def split: if_splits elim!: decode_InrE)
qed

record download_request =
  dr_reason :: download_reason

definition download_request_pairs :: "download_request \<Rightarrow> (writer, cbor_error, unit) act" where
  "download_request_pairs x =
     andthen (wr_key 1) (\<lambda>_. wr_u64 (ucast (download_reason_num (dr_reason x))))"

definition download_request_write :: "download_request \<Rightarrow> link_header \<Rightarrow> bytes \<Rightarrow> (link_error + nat) \<times> bytes" where
  "download_request_write x h dst =
     link_writing Lk_Cbor h 1 (map_err Lk_Cbor (download_request_pairs x)) dst"

record download_request_slots =
  drq_reason :: "download_reason option"

definition download_request_empty :: download_request_slots where
  "download_request_empty = \<lparr>drq_reason = None\<rparr>"

definition download_request_field :: "download_request_slots \<Rightarrow> int \<Rightarrow> (reader, link_error, download_request_slots) act" where
  "download_request_field slots number =
     (if number = 1 then
     andthen (map_err Lk_Cbor rd_u8) (\<lambda>v. andthen (lift_sum (allocated download_reason_of Lk_UnknownReason v)) (\<lambda>w.
     andthen (once (Lk_Duplicate Lf_Reason) (drq_reason slots) w) (\<lambda>t. ret (slots\<lparr>drq_reason := t\<rparr>))))
      else skipped Lk_Cbor slots)"

definition download_request_complete :: "download_request_slots \<Rightarrow> (reader, link_error, download_request) act" where
  "download_request_complete slots =
     andthen (ok_or (Lk_Missing Lf_Reason) (drq_reason slots)) (\<lambda>reason.
     ret \<lparr>dr_reason = reason\<rparr>)"

definition download_request_decode :: "link_envelope \<Rightarrow> link_error + download_request" where
  "download_request_decode = link_reading Lk_Cbor download_request_field download_request_empty download_request_complete"

definition download_request_fields :: "download_request \<Rightarrow> (int \<times> item) list" where
  "download_request_fields x =
     [(1, IUint (ucast (download_reason_num (dr_reason x))))]"

lemma download_request_ok [simp]:
  "ascending None (download_request_fields x)" "shallow room (download_request_fields x)" "known 1 (download_request_fields x)"
  "length (download_request_fields x) = 1"
  by (auto simp: download_request_fields_def good_key_def split: option.split)

lemma download_request_writes:
  shows "writes_pairs (download_request_pairs x) (download_request_fields x)"
  unfolding download_request_pairs_def download_request_fields_def
  by (intro writes_append writes_option item_rules)

lemma download_request_field_simps:
  "download_request_field s 1 = andthen (map_err Lk_Cbor rd_u8) (\<lambda>v. andthen (lift_sum (allocated download_reason_of Lk_UnknownReason v)) (\<lambda>w.
     andthen (once (Lk_Duplicate Lf_Reason) (drq_reason s) w) (\<lambda>t. ret (s\<lparr>drq_reason := t\<rparr>))))"
  "1 < j \<Longrightarrow> download_request_field s j = skipped Lk_Cbor s"
  by (simp_all add: download_request_field_def)

lemma download_request_reads:
  shows "reads_pairs download_request_field (download_request_fields x) download_request_empty
    \<lparr>drq_reason = Some (dr_reason x)\<rparr>"
  by (rule reads_eq, unfold download_request_fields_def)
    (rule reads_Nil | rule reads_Cons | rule reads_pairs_append, rule reads_optional | rule reads_optional | simp only: download_request_field_simps
      | rule slot_rules | rule item_rules link_numbers text_okD | assumption | simp add: download_request_empty_def; fail)+

interpretation download_request: strict_link_codec download_request_write download_request_decode download_request_fields "\<lambda>_. True" 1
proof
  fix x h and dst :: bytes
  assume x: "length (link_bytes h (download_request_fields x)) \<le> length dst" "length dst \<le> usize_max"
  then show "download_request_write x h dst = (Inr (length (link_bytes h (download_request_fields x))), splice dst 0 (link_bytes h (download_request_fields x)))"
    unfolding download_request_write_def by (simp add: link_writes [OF download_request_writes])
next
  fix x h fs
  assume x: "session_ok (lh_session h)" "extends 1 6 fs" "length (link_bytes h (download_request_fields x @ fs)) \<le> usize_max"
  show "\<exists>e. link_envelope_decode (link_bytes h (download_request_fields x @ fs)) = Inr e \<and>
    le_opcode e = link_message_type_num (lh_kind h) \<and> le_session e = lh_session h \<and> le_req_id e = lh_req_id h \<and>
    download_request_decode e = Inr x"
    unfolding download_request_decode_def
    by (rule link_reads [OF download_request_reads _ _ _ x(2) _ x(1) x(3)])
      (auto intro!: runs_andthen simp: download_request_complete_def download_request_field_simps)
qed simp_all

record net_verdict =
  nv_outcome :: net_config_outcome
  nv_version :: u32

definition net_verdict_pairs :: "net_verdict \<Rightarrow> (writer, cbor_error, unit) act" where
  "net_verdict_pairs x =
     andthen (wr_key 1) (\<lambda>_. andthen (wr_u64 (ucast (net_config_outcome_num (nv_outcome x)))) (\<lambda>_.
     andthen (wr_key 2) (\<lambda>_. wr_u64 (ucast (nv_version x)))))"

definition net_verdict_write :: "net_verdict \<Rightarrow> link_header \<Rightarrow> bytes \<Rightarrow> (link_error + nat) \<times> bytes" where
  "net_verdict_write x h dst =
     link_writing Lk_Cbor h 2 (map_err Lk_Cbor (net_verdict_pairs x)) dst"

record net_verdict_slots =
  nvq_outcome :: "net_config_outcome option"
  nvq_version :: "u32 option"

definition net_verdict_empty :: net_verdict_slots where
  "net_verdict_empty = \<lparr>nvq_outcome = None, nvq_version = None\<rparr>"

definition net_verdict_field :: "net_verdict_slots \<Rightarrow> int \<Rightarrow> (reader, link_error, net_verdict_slots) act" where
  "net_verdict_field slots number =
     (if number = 1 then
     andthen (map_err Lk_Cbor rd_u8) (\<lambda>v. andthen (lift_sum (allocated net_config_outcome_of Lk_UnknownOutcome v)) (\<lambda>w.
     andthen (once (Lk_Duplicate Lf_Outcome) (nvq_outcome slots) w) (\<lambda>t. ret (slots\<lparr>nvq_outcome := t\<rparr>))))
      else if number = 2 then
     andthen (map_err Lk_Cbor rd_u32) (\<lambda>v.
     andthen (once (Lk_Duplicate Lf_NetVersion) (nvq_version slots) v) (\<lambda>t. ret (slots\<lparr>nvq_version := t\<rparr>)))
      else skipped Lk_Cbor slots)"

definition net_verdict_complete :: "net_verdict_slots \<Rightarrow> (reader, link_error, net_verdict) act" where
  "net_verdict_complete slots =
     andthen (ok_or (Lk_Missing Lf_Outcome) (nvq_outcome slots)) (\<lambda>outcome.
     andthen (ok_or (Lk_Missing Lf_NetVersion) (nvq_version slots)) (\<lambda>version.
     ret \<lparr>nv_outcome = outcome, nv_version = version\<rparr>))"

definition net_verdict_decode :: "link_envelope \<Rightarrow> link_error + net_verdict" where
  "net_verdict_decode = link_reading Lk_Cbor net_verdict_field net_verdict_empty net_verdict_complete"

definition net_verdict_fields :: "net_verdict \<Rightarrow> (int \<times> item) list" where
  "net_verdict_fields x =
     [(1, IUint (ucast (net_config_outcome_num (nv_outcome x)))), (2, IUint (ucast (nv_version x)))]"

lemma net_verdict_ok [simp]:
  "ascending None (net_verdict_fields x)" "shallow room (net_verdict_fields x)" "known 2 (net_verdict_fields x)"
  "length (net_verdict_fields x) = 2"
  by (auto simp: net_verdict_fields_def good_key_def split: option.split)

lemma net_verdict_writes:
  shows "writes_pairs (net_verdict_pairs x) (net_verdict_fields x)"
  unfolding net_verdict_pairs_def net_verdict_fields_def
  by (intro writes_append writes_option item_rules)

lemma net_verdict_field_simps:
  "net_verdict_field s 1 = andthen (map_err Lk_Cbor rd_u8) (\<lambda>v. andthen (lift_sum (allocated net_config_outcome_of Lk_UnknownOutcome v)) (\<lambda>w.
     andthen (once (Lk_Duplicate Lf_Outcome) (nvq_outcome s) w) (\<lambda>t. ret (s\<lparr>nvq_outcome := t\<rparr>))))"
  "net_verdict_field s 2 = andthen (map_err Lk_Cbor rd_u32) (\<lambda>v.
     andthen (once (Lk_Duplicate Lf_NetVersion) (nvq_version s) v) (\<lambda>t. ret (s\<lparr>nvq_version := t\<rparr>)))"
  "2 < j \<Longrightarrow> net_verdict_field s j = skipped Lk_Cbor s"
  by (simp_all add: net_verdict_field_def)

lemma net_verdict_reads:
  shows "reads_pairs net_verdict_field (net_verdict_fields x) net_verdict_empty
    \<lparr>nvq_outcome = Some (nv_outcome x), nvq_version = Some (nv_version x)\<rparr>"
  by (rule reads_eq, unfold net_verdict_fields_def)
    (rule reads_Nil | rule reads_Cons | rule reads_pairs_append, rule reads_optional | rule reads_optional | simp only: net_verdict_field_simps
      | rule slot_rules | rule item_rules link_numbers text_okD | assumption | simp add: net_verdict_empty_def; fail)+

interpretation net_verdict: strict_link_codec net_verdict_write net_verdict_decode net_verdict_fields "\<lambda>_. True" 2
proof
  fix x h and dst :: bytes
  assume x: "length (link_bytes h (net_verdict_fields x)) \<le> length dst" "length dst \<le> usize_max"
  then show "net_verdict_write x h dst = (Inr (length (link_bytes h (net_verdict_fields x))), splice dst 0 (link_bytes h (net_verdict_fields x)))"
    unfolding net_verdict_write_def by (simp add: link_writes [OF net_verdict_writes])
next
  fix x h fs
  assume x: "session_ok (lh_session h)" "extends 2 6 fs" "length (link_bytes h (net_verdict_fields x @ fs)) \<le> usize_max"
  show "\<exists>e. link_envelope_decode (link_bytes h (net_verdict_fields x @ fs)) = Inr e \<and>
    le_opcode e = link_message_type_num (lh_kind h) \<and> le_session e = lh_session h \<and> le_req_id e = lh_req_id h \<and>
    net_verdict_decode e = Inr x"
    unfolding net_verdict_decode_def
    by (rule link_reads [OF net_verdict_reads _ _ _ x(2) _ x(1) x(3)])
      (auto intro!: runs_andthen simp: net_verdict_complete_def net_verdict_field_simps)
qed simp_all

definition DIGEST_BYTES :: nat where "DIGEST_BYTES = 32"

definition whole_digest :: "bytes \<Rightarrow> link_error + bytes" where
  "whole_digest v = (if length v = DIGEST_BYTES then Inr v else Inl (Lk_DigestNotSha256 (length v)))"

lemma whole_digestD: "length v = DIGEST_BYTES \<Longrightarrow> whole_digest v = Inr v" "whole_digest v = Inr w \<Longrightarrow> length w = DIGEST_BYTES"
  by (auto simp: whole_digest_def split: if_splits)

text \<open>What a release's writer asks of its version.\<close>

definition release_text :: "bytes \<Rightarrow> bool" where
  "release_text v \<longleftrightarrow> link_text v \<and> versioned Lf_ReleaseVersion v = Inr v"

lemma release_textD: "release_text v \<Longrightarrow> bounded_text key v = Inr v" "release_text v \<Longrightarrow> versioned Lf_ReleaseVersion v = Inr v"
    "release_text v \<Longrightarrow> length v \<le> MAX_STRING" "release_text v \<Longrightarrow> utf8 v"
  by (simp_all add: release_text_def link_textD)

record release_request =
  rr_op :: comms_release_op
  rr_version :: bytes
  rr_image_len :: u32
  rr_digest :: bytes

definition release_request_pairs :: "release_request \<Rightarrow> (writer, cbor_error, unit) act" where
  "release_request_pairs x =
     andthen (wr_key 1) (\<lambda>_. andthen (wr_u64 (ucast (comms_release_op_num (rr_op x)))) (\<lambda>_.
     andthen (wr_key 2) (\<lambda>_. andthen (wr_text (rr_version x)) (\<lambda>_.
     andthen (wr_key 3) (\<lambda>_. andthen (wr_u64 (ucast (rr_image_len x))) (\<lambda>_.
     andthen (wr_key 4) (\<lambda>_. wr_byte_string (rr_digest x))))))))"

definition release_request_write :: "release_request \<Rightarrow> link_header \<Rightarrow> bytes \<Rightarrow> (link_error + nat) \<times> bytes" where
  "release_request_write x h dst =
     (case first_error (bounded_text Lf_ReleaseVersion (rr_version x)) (versioned Lf_ReleaseVersion (rr_version x)) of Inl why \<Rightarrow> (Inl why, dst) | Inr _ \<Rightarrow>
       link_writing Lk_Cbor h 4 (map_err Lk_Cbor (release_request_pairs x)) dst)"

record release_request_slots =
  rrq_op :: "comms_release_op option"
  rrq_version :: "bytes option"
  rrq_image_len :: "u32 option"
  rrq_digest :: "bytes option"

definition release_request_empty :: release_request_slots where
  "release_request_empty = \<lparr>rrq_op = None, rrq_version = None, rrq_image_len = None, rrq_digest = None\<rparr>"

definition release_request_field :: "release_request_slots \<Rightarrow> int \<Rightarrow> (reader, link_error, release_request_slots) act" where
  "release_request_field slots number =
     (if number = 1 then
     andthen (map_err Lk_Cbor rd_u8) (\<lambda>v. andthen (lift_sum (allocated comms_release_op_of Lk_UnknownOp v)) (\<lambda>w.
     andthen (once (Lk_Duplicate Lf_Op) (rrq_op slots) w) (\<lambda>t. ret (slots\<lparr>rrq_op := t\<rparr>))))
      else if number = 2 then
     andthen (map_err Lk_Cbor rd_text) (\<lambda>v. andthen (lift_sum (bounded_text Lf_ReleaseVersion v)) (\<lambda>w.
     andthen (once (Lk_Duplicate Lf_ReleaseVersion) (rrq_version slots) w) (\<lambda>t. ret (slots\<lparr>rrq_version := t\<rparr>))))
      else if number = 3 then
     andthen (map_err Lk_Cbor rd_u32) (\<lambda>v.
     andthen (once (Lk_Duplicate Lf_ImageLen) (rrq_image_len slots) v) (\<lambda>t. ret (slots\<lparr>rrq_image_len := t\<rparr>)))
      else if number = 4 then
     andthen (map_err Lk_Cbor rd_byte_string) (\<lambda>v. andthen (lift_sum (whole_digest v)) (\<lambda>w.
     andthen (once (Lk_Duplicate Lf_Digest) (rrq_digest slots) w) (\<lambda>t. ret (slots\<lparr>rrq_digest := t\<rparr>))))
      else skipped Lk_Cbor slots)"

definition release_request_complete :: "release_request_slots \<Rightarrow> (reader, link_error, release_request) act" where
  "release_request_complete slots =
     andthen (ok_or (Lk_Missing Lf_Op) (rrq_op slots)) (\<lambda>op.
     andthen (ok_or (Lk_Missing Lf_ReleaseVersion) (rrq_version slots)) (\<lambda>version.
     andthen (ok_or (Lk_Missing Lf_ImageLen) (rrq_image_len slots)) (\<lambda>image_len.
     andthen (ok_or (Lk_Missing Lf_Digest) (rrq_digest slots)) (\<lambda>digest.
     ret \<lparr>rr_op = op, rr_version = version, rr_image_len = image_len, rr_digest = digest\<rparr>))))"

definition release_request_decode :: "link_envelope \<Rightarrow> link_error + release_request" where
  "release_request_decode = link_reading Lk_Cbor release_request_field release_request_empty release_request_complete"

definition release_request_fields :: "release_request \<Rightarrow> (int \<times> item) list" where
  "release_request_fields x =
     [(1, IUint (ucast (comms_release_op_num (rr_op x)))), (2, IText (rr_version x)), (3, IUint (ucast (rr_image_len x))), (4, IBytes (rr_digest x))]"

definition release_request_valid :: "release_request \<Rightarrow> bool" where
  "release_request_valid x \<longleftrightarrow> release_text (rr_version x) \<and> length (rr_digest x) = DIGEST_BYTES"

lemma release_request_ok [simp]:
  "ascending None (release_request_fields x)" "shallow room (release_request_fields x)" "known 4 (release_request_fields x)"
  "length (release_request_fields x) = 4"
  by (auto simp: release_request_fields_def good_key_def split: option.split)

lemma release_request_writes:
  assumes "release_request_valid x"
  shows "writes_pairs (release_request_pairs x) (release_request_fields x)"
  using assms unfolding release_request_pairs_def release_request_fields_def
  by (intro writes_append writes_option item_rules) (simp_all add: release_request_valid_def release_textD)

lemma release_request_field_simps:
  "release_request_field s 1 = andthen (map_err Lk_Cbor rd_u8) (\<lambda>v. andthen (lift_sum (allocated comms_release_op_of Lk_UnknownOp v)) (\<lambda>w.
     andthen (once (Lk_Duplicate Lf_Op) (rrq_op s) w) (\<lambda>t. ret (s\<lparr>rrq_op := t\<rparr>))))"
  "release_request_field s 2 = andthen (map_err Lk_Cbor rd_text) (\<lambda>v. andthen (lift_sum (bounded_text Lf_ReleaseVersion v)) (\<lambda>w.
     andthen (once (Lk_Duplicate Lf_ReleaseVersion) (rrq_version s) w) (\<lambda>t. ret (s\<lparr>rrq_version := t\<rparr>))))"
  "release_request_field s 3 = andthen (map_err Lk_Cbor rd_u32) (\<lambda>v.
     andthen (once (Lk_Duplicate Lf_ImageLen) (rrq_image_len s) v) (\<lambda>t. ret (s\<lparr>rrq_image_len := t\<rparr>)))"
  "release_request_field s 4 = andthen (map_err Lk_Cbor rd_byte_string) (\<lambda>v. andthen (lift_sum (whole_digest v)) (\<lambda>w.
     andthen (once (Lk_Duplicate Lf_Digest) (rrq_digest s) w) (\<lambda>t. ret (s\<lparr>rrq_digest := t\<rparr>))))"
  "4 < j \<Longrightarrow> release_request_field s j = skipped Lk_Cbor s"
  by (simp_all add: release_request_field_def)

lemma release_request_reads:
  assumes "release_request_valid x"
  shows "reads_pairs release_request_field (release_request_fields x) release_request_empty
    \<lparr>rrq_op = Some (rr_op x), rrq_version = Some (rr_version x), rrq_image_len = Some (rr_image_len x), rrq_digest = Some (rr_digest x)\<rparr>"
proof -
  have ok: "release_text (rr_version x)" "length (rr_digest x) = DIGEST_BYTES"
    using assms by (auto simp: release_request_valid_def)
  show ?thesis
    by (rule reads_eq, unfold release_request_fields_def)
      (rule reads_Nil | rule reads_Cons | rule reads_pairs_append, rule reads_optional | rule reads_optional | simp only: release_request_field_simps
      | rule slot_rules | rule item_rules link_numbers release_textD whole_digestD(1) ok | assumption | simp add: release_request_empty_def; fail)+
qed

interpretation release_request: link_codec release_request_write release_request_decode release_request_fields release_request_valid 4
proof
  fix x h and dst :: bytes
  assume x: "release_request_valid x" "length (link_bytes h (release_request_fields x)) \<le> length dst" "length dst \<le> usize_max"
  then show "release_request_write x h dst = (Inr (length (link_bytes h (release_request_fields x))), splice dst 0 (link_bytes h (release_request_fields x)))"
    unfolding release_request_write_def by (simp add: link_writes [OF release_request_writes [OF x(1)]] release_request_valid_def release_textD)
next
  fix x h fs
  assume x: "release_request_valid x" "session_ok (lh_session h)" "extends 4 6 fs" "length (link_bytes h (release_request_fields x @ fs)) \<le> usize_max"
  show "\<exists>e. link_envelope_decode (link_bytes h (release_request_fields x @ fs)) = Inr e \<and>
    le_opcode e = link_message_type_num (lh_kind h) \<and> le_session e = lh_session h \<and> le_req_id e = lh_req_id h \<and>
    release_request_decode e = Inr x"
    unfolding release_request_decode_def
    by (rule link_reads [OF release_request_reads [OF x(1)] _ _ _ x(3) _ x(2) x(4)])
      (auto intro!: runs_andthen simp: release_request_complete_def release_request_field_simps)
qed

record release_verdict =
  rv_outcome :: comms_release_outcome
  rv_version :: bytes
  rv_bytes_have :: u32

definition release_verdict_pairs :: "release_verdict \<Rightarrow> (writer, cbor_error, unit) act" where
  "release_verdict_pairs x =
     andthen (wr_key 1) (\<lambda>_. andthen (wr_u64 (ucast (comms_release_outcome_num (rv_outcome x)))) (\<lambda>_.
     andthen (wr_key 2) (\<lambda>_. andthen (wr_text (rv_version x)) (\<lambda>_.
     andthen (wr_key 3) (\<lambda>_. wr_u64 (ucast (rv_bytes_have x)))))))"

definition release_verdict_write :: "release_verdict \<Rightarrow> link_header \<Rightarrow> bytes \<Rightarrow> (link_error + nat) \<times> bytes" where
  "release_verdict_write x h dst =
     (case first_error (bounded_text Lf_ReleaseVersion (rv_version x)) (versioned Lf_ReleaseVersion (rv_version x)) of Inl why \<Rightarrow> (Inl why, dst) | Inr _ \<Rightarrow>
       link_writing Lk_Cbor h 3 (map_err Lk_Cbor (release_verdict_pairs x)) dst)"

record release_verdict_slots =
  rvq_outcome :: "comms_release_outcome option"
  rvq_version :: "bytes option"
  rvq_bytes_have :: "u32 option"

definition release_verdict_empty :: release_verdict_slots where
  "release_verdict_empty = \<lparr>rvq_outcome = None, rvq_version = None, rvq_bytes_have = None\<rparr>"

definition release_verdict_field :: "release_verdict_slots \<Rightarrow> int \<Rightarrow> (reader, link_error, release_verdict_slots) act" where
  "release_verdict_field slots number =
     (if number = 1 then
     andthen (map_err Lk_Cbor rd_u8) (\<lambda>v. andthen (lift_sum (allocated comms_release_outcome_of Lk_UnknownOutcome v)) (\<lambda>w.
     andthen (once (Lk_Duplicate Lf_Outcome) (rvq_outcome slots) w) (\<lambda>t. ret (slots\<lparr>rvq_outcome := t\<rparr>))))
      else if number = 2 then
     andthen (map_err Lk_Cbor rd_text) (\<lambda>v. andthen (lift_sum (bounded_text Lf_ReleaseVersion v)) (\<lambda>w.
     andthen (once (Lk_Duplicate Lf_ReleaseVersion) (rvq_version slots) w) (\<lambda>t. ret (slots\<lparr>rvq_version := t\<rparr>))))
      else if number = 3 then
     andthen (map_err Lk_Cbor rd_u32) (\<lambda>v.
     andthen (once (Lk_Duplicate Lf_BytesHave) (rvq_bytes_have slots) v) (\<lambda>t. ret (slots\<lparr>rvq_bytes_have := t\<rparr>)))
      else skipped Lk_Cbor slots)"

definition release_verdict_complete :: "release_verdict_slots \<Rightarrow> (reader, link_error, release_verdict) act" where
  "release_verdict_complete slots =
     andthen (ok_or (Lk_Missing Lf_Outcome) (rvq_outcome slots)) (\<lambda>outcome.
     andthen (ok_or (Lk_Missing Lf_ReleaseVersion) (rvq_version slots)) (\<lambda>version.
     andthen (ok_or (Lk_Missing Lf_BytesHave) (rvq_bytes_have slots)) (\<lambda>bytes_have.
     ret \<lparr>rv_outcome = outcome, rv_version = version, rv_bytes_have = bytes_have\<rparr>)))"

definition release_verdict_decode :: "link_envelope \<Rightarrow> link_error + release_verdict" where
  "release_verdict_decode = link_reading Lk_Cbor release_verdict_field release_verdict_empty release_verdict_complete"

definition release_verdict_fields :: "release_verdict \<Rightarrow> (int \<times> item) list" where
  "release_verdict_fields x =
     [(1, IUint (ucast (comms_release_outcome_num (rv_outcome x)))), (2, IText (rv_version x)), (3, IUint (ucast (rv_bytes_have x)))]"

definition release_verdict_valid :: "release_verdict \<Rightarrow> bool" where
  "release_verdict_valid x \<longleftrightarrow> release_text (rv_version x)"

lemma release_verdict_ok [simp]:
  "ascending None (release_verdict_fields x)" "shallow room (release_verdict_fields x)" "known 3 (release_verdict_fields x)"
  "length (release_verdict_fields x) = 3"
  by (auto simp: release_verdict_fields_def good_key_def split: option.split)

lemma release_verdict_writes:
  assumes "release_verdict_valid x"
  shows "writes_pairs (release_verdict_pairs x) (release_verdict_fields x)"
  using assms unfolding release_verdict_pairs_def release_verdict_fields_def
  by (intro writes_append writes_option item_rules) (simp_all add: release_verdict_valid_def release_textD)

lemma release_verdict_field_simps:
  "release_verdict_field s 1 = andthen (map_err Lk_Cbor rd_u8) (\<lambda>v. andthen (lift_sum (allocated comms_release_outcome_of Lk_UnknownOutcome v)) (\<lambda>w.
     andthen (once (Lk_Duplicate Lf_Outcome) (rvq_outcome s) w) (\<lambda>t. ret (s\<lparr>rvq_outcome := t\<rparr>))))"
  "release_verdict_field s 2 = andthen (map_err Lk_Cbor rd_text) (\<lambda>v. andthen (lift_sum (bounded_text Lf_ReleaseVersion v)) (\<lambda>w.
     andthen (once (Lk_Duplicate Lf_ReleaseVersion) (rvq_version s) w) (\<lambda>t. ret (s\<lparr>rvq_version := t\<rparr>))))"
  "release_verdict_field s 3 = andthen (map_err Lk_Cbor rd_u32) (\<lambda>v.
     andthen (once (Lk_Duplicate Lf_BytesHave) (rvq_bytes_have s) v) (\<lambda>t. ret (s\<lparr>rvq_bytes_have := t\<rparr>)))"
  "3 < j \<Longrightarrow> release_verdict_field s j = skipped Lk_Cbor s"
  by (simp_all add: release_verdict_field_def)

lemma release_verdict_reads:
  assumes "release_verdict_valid x"
  shows "reads_pairs release_verdict_field (release_verdict_fields x) release_verdict_empty
    \<lparr>rvq_outcome = Some (rv_outcome x), rvq_version = Some (rv_version x), rvq_bytes_have = Some (rv_bytes_have x)\<rparr>"
proof -
  have ok: "release_text (rv_version x)"
    using assms by (auto simp: release_verdict_valid_def)
  show ?thesis
    by (rule reads_eq, unfold release_verdict_fields_def)
      (rule reads_Nil | rule reads_Cons | rule reads_pairs_append, rule reads_optional | rule reads_optional | simp only: release_verdict_field_simps
      | rule slot_rules | rule item_rules link_numbers release_textD ok | assumption | simp add: release_verdict_empty_def; fail)+
qed

interpretation release_verdict: link_codec release_verdict_write release_verdict_decode release_verdict_fields release_verdict_valid 3
proof
  fix x h and dst :: bytes
  assume x: "release_verdict_valid x" "length (link_bytes h (release_verdict_fields x)) \<le> length dst" "length dst \<le> usize_max"
  then show "release_verdict_write x h dst = (Inr (length (link_bytes h (release_verdict_fields x))), splice dst 0 (link_bytes h (release_verdict_fields x)))"
    unfolding release_verdict_write_def by (simp add: link_writes [OF release_verdict_writes [OF x(1)]] release_verdict_valid_def release_textD)
next
  fix x h fs
  assume x: "release_verdict_valid x" "session_ok (lh_session h)" "extends 3 6 fs" "length (link_bytes h (release_verdict_fields x @ fs)) \<le> usize_max"
  show "\<exists>e. link_envelope_decode (link_bytes h (release_verdict_fields x @ fs)) = Inr e \<and>
    le_opcode e = link_message_type_num (lh_kind h) \<and> le_session e = lh_session h \<and> le_req_id e = lh_req_id h \<and>
    release_verdict_decode e = Inr x"
    unfolding release_verdict_decode_def
    by (rule link_reads [OF release_verdict_reads [OF x(1)] _ _ _ x(3) _ x(2) x(4)])
      (auto intro!: runs_andthen simp: release_verdict_complete_def release_verdict_field_simps)
qed

text \<open>\<open>outcome_only\<close> and \<open>outcome\<close>: a body of one outcome.\<close>

definition outcome_only :: "u8 \<Rightarrow> link_header \<Rightarrow> bytes \<Rightarrow> (link_error + nat) \<times> bytes" where
  "outcome_only said h dst =
     link_writing Lk_Cbor h 1 (map_err Lk_Cbor (andthen (wr_key 1) (\<lambda>_. wr_u64 (ucast said)))) dst"

definition outcome_field :: "(u8 \<Rightarrow> 'a option) \<Rightarrow> 'a option \<Rightarrow> int \<Rightarrow> (reader, link_error, 'a option) act" where
  "outcome_field of_raw slot number =
     (if number = 1 then
        andthen (map_err Lk_Cbor rd_u8) (\<lambda>raw. andthen (lift_sum (allocated of_raw Lk_UnknownOutcome raw)) (\<lambda>taken.
        once (Lk_Duplicate Lf_Outcome) slot taken))
      else skipped Lk_Cbor slot)"

definition outcome_reading :: "(u8 \<Rightarrow> 'a option) \<Rightarrow> link_envelope \<Rightarrow> link_error + 'a" where
  "outcome_reading of_raw = link_reading Lk_Cbor (outcome_field of_raw) None (ok_or (Lk_Missing Lf_Outcome))"

locale outcome_kind = registry_enum of_num num_of for of_num :: "u8 \<Rightarrow> 'a option" and num_of :: "'a \<Rightarrow> u8"
begin

lemma outcome_reads: "reads_pairs (outcome_field of_num) [(1, IUint (ucast (num_of x)))] None (Some x)"
proof (rule reads_Cons)
  show "reads_pairs (outcome_field of_num) [] (Some x) (Some x)"
    by (rule reads_Nil)
  have "allocated of_num Lk_UnknownOutcome (num_of x) = Inr x"
    by (rule allocatedI) (rule of_num_of)
  then show "reads_item (outcome_field of_num None 1) (IUint (ucast (num_of x))) (Some x)"
    by (simp add: outcome_field_def once_def del: enc_item.simps)
      (rule reads_then, rule reads_map_err, rule reads_u8, simp add: once_def fun_eq_iff)
qed

end

sublocale outcome_kind \<subseteq> said: strict_link_codec "\<lambda>x. outcome_only (num_of x)" "outcome_reading of_num"
  "\<lambda>x. [(1, IUint (ucast (num_of x)))]" "\<lambda>_. True" 1
proof
  fix x :: 'a and h and dst :: bytes
  let ?fs = "[(1, IUint (ucast (num_of x)))]"
  assume "length (link_bytes h ?fs) \<le> length dst" "length dst \<le> usize_max"
  then show "outcome_only (num_of x) h dst = (Inr (length (link_bytes h ?fs)), splice dst 0 (link_bytes h ?fs))"
    unfolding outcome_only_def by (intro link_writes item_rules) (simp_all add: good_key_def)
next
  fix x :: 'a and h fs
  let ?fs = "[(1, IUint (ucast (num_of x)))]"
  assume x: "session_ok (lh_session h)" "extends 1 6 fs" "length (link_bytes h (?fs @ fs)) \<le> usize_max"
  show "\<exists>e. link_envelope_decode (link_bytes h (?fs @ fs)) = Inr e \<and>
    le_opcode e = link_message_type_num (lh_kind h) \<and> le_session e = lh_session h \<and> le_req_id e = lh_req_id h \<and>
    outcome_reading of_num e = Inr x"
    unfolding outcome_reading_def
    by (rule link_reads [OF outcome_reads _ _ _ x(2) _ x(1,3)]) (simp_all add: good_key_def outcome_field_def)
qed simp

definition time_verdict_write :: "time_offer_outcome \<Rightarrow> link_header \<Rightarrow> bytes \<Rightarrow> (link_error + nat) \<times> bytes" where
  "time_verdict_write said = outcome_only (time_offer_outcome_num said)"

definition time_verdict_decode :: "link_envelope \<Rightarrow> link_error + time_offer_outcome" where
  "time_verdict_decode = outcome_reading time_offer_outcome_of"

definition download_verdict_write :: "enter_download_outcome \<Rightarrow> link_header \<Rightarrow> bytes \<Rightarrow> (link_error + nat) \<times> bytes" where
  "download_verdict_write said = outcome_only (enter_download_outcome_num said)"

definition download_verdict_decode :: "link_envelope \<Rightarrow> link_error + enter_download_outcome" where
  "download_verdict_decode = outcome_reading enter_download_outcome_of"

definition client_up_ack_write :: "client_connected_outcome \<Rightarrow> link_header \<Rightarrow> bytes \<Rightarrow> (link_error + nat) \<times> bytes" where
  "client_up_ack_write said = outcome_only (client_connected_outcome_num said)"

definition client_up_ack_decode :: "link_envelope \<Rightarrow> link_error + client_connected_outcome" where
  "client_up_ack_decode = outcome_reading client_connected_outcome_of"

definition client_down_ack_write :: "client_disconnected_outcome \<Rightarrow> link_header \<Rightarrow> bytes \<Rightarrow> (link_error + nat) \<times> bytes" where
  "client_down_ack_write said = outcome_only (client_disconnected_outcome_num said)"

definition client_down_ack_decode :: "link_envelope \<Rightarrow> link_error + client_disconnected_outcome" where
  "client_down_ack_decode = outcome_reading client_disconnected_outcome_of"

interpretation time_verdict: outcome_kind time_offer_outcome_of time_offer_outcome_num
  rewrites "\<lambda>x. outcome_only (time_offer_outcome_num x) \<equiv> time_verdict_write" and "outcome_reading time_offer_outcome_of \<equiv> time_verdict_decode"
  by unfold_locales (simp_all add: time_verdict_write_def [abs_def] time_verdict_decode_def)

interpretation download_verdict: outcome_kind enter_download_outcome_of enter_download_outcome_num
  by unfold_locales

interpretation client_up_ack: outcome_kind client_connected_outcome_of client_connected_outcome_num
  by unfold_locales

interpretation client_down_ack: outcome_kind client_disconnected_outcome_of client_disconnected_outcome_num
  by unfold_locales

section \<open>Link-up\<close>

definition NET_ORIGIN_BYTES :: nat where "NET_ORIGIN_BYTES = 8"

datatype net_origin = NetOrigin (origin_bytes: bytes)

definition net_origin_of :: "bytes \<Rightarrow> link_error + net_origin" where
  "net_origin_of v = (if length v = NET_ORIGIN_BYTES then Inr (NetOrigin v) else Inl (Lk_OriginNotEight (length v)))"

definition origin_ok :: "net_origin \<Rightarrow> bool" where
  "origin_ok n \<longleftrightarrow> length (origin_bytes n) = NET_ORIGIN_BYTES"

lemma origin_okD: "origin_ok n \<Longrightarrow> net_origin_of (origin_bytes n) = Inr n"
  by (cases n) (simp add: origin_ok_def net_origin_of_def)

lemma net_origin_of_InrD: "net_origin_of v = Inr n \<Longrightarrow> origin_ok n"
  by (auto simp: origin_ok_def net_origin_of_def split: if_splits)

definition whole_device_id :: "bytes \<Rightarrow> link_error + bytes" where
  "whole_device_id v = (if length v = DEVICE_ID_BYTES then Inr v else Inl (Lk_DeviceIdNotSixteen (length v)))"

lemma whole_device_idD: "length v = DEVICE_ID_BYTES \<Longrightarrow> whole_device_id v = Inr v"
    "whole_device_id v = Inr w \<Longrightarrow> length w = DEVICE_ID_BYTES"
  by (auto simp: whole_device_id_def split: if_splits)

lemma side_of_number [simp]: "side_of (side_number s) = Inr s"
  by (cases s) (simp_all add: side_of_def)

record link_up =
  lu_version :: version
  lu_role :: side
  lu_fw :: bytes
  lu_boot_id :: u32
  lu_hw :: bytes
  lu_net_version :: "u32 option"
  lu_device_id :: "bytes option"
  lu_net_origin :: "net_origin option"

definition SHARED_KEYS :: nat where "SHARED_KEYS = 6"

definition sides_agree :: "link_up \<Rightarrow> link_error + unit" where
  "sides_agree x =
     (case lu_role x of
        Side_Controller \<Rightarrow>
          if lu_net_version x \<noteq> None then Inl Lk_NetVersionFromController
          else if lu_net_origin x \<noteq> None then Inl Lk_NetOriginFromController
          else if lu_device_id x = None then Inl (Lk_Missing Lf_DeviceId)
          else Inr ()
      | Side_Comms \<Rightarrow>
          if lu_device_id x \<noteq> None then Inl Lk_DeviceIdFromComms
          else if lu_net_origin x \<noteq> None \<and> (lu_net_version x = None \<or> lu_net_version x = Some 0) then Inl Lk_NetOriginWithoutVersion
          else Inr ())"

definition link_up_pairs :: "link_up \<Rightarrow> (writer, cbor_error, unit) act" where
  "link_up_pairs x =
     andthen (wr_key 1) (\<lambda>_. andthen (wr_u64 (ucast (ve_major (lu_version x)))) (\<lambda>_.
     andthen (wr_key 2) (\<lambda>_. andthen (wr_u64 (ucast (ve_minor (lu_version x)))) (\<lambda>_.
     andthen (wr_key 3) (\<lambda>_. andthen (wr_u64 (ucast (side_number (lu_role x)))) (\<lambda>_.
     andthen (wr_key 4) (\<lambda>_. andthen (wr_text (lu_fw x)) (\<lambda>_.
     andthen (wr_key 5) (\<lambda>_. andthen (wr_u64 (ucast (lu_boot_id x))) (\<lambda>_.
     andthen (wr_key 6) (\<lambda>_. andthen (wr_text (lu_hw x)) (\<lambda>_.
     andthen (case (lu_net_version x) of Some v \<Rightarrow> andthen (wr_key 7) (\<lambda>_. wr_u64 (ucast v)) | None \<Rightarrow> ret ()) (\<lambda>_.
     andthen (case (lu_device_id x) of Some v \<Rightarrow> andthen (wr_key 8) (\<lambda>_. wr_byte_string v) | None \<Rightarrow> ret ()) (\<lambda>_.
     (case (lu_net_origin x) of Some v \<Rightarrow> andthen (wr_key 9) (\<lambda>_. wr_byte_string (origin_bytes v)) | None \<Rightarrow> ret ())))))))))))))))"

definition link_up_write :: "link_up \<Rightarrow> link_header \<Rightarrow> bytes \<Rightarrow> (link_error + nat) \<times> bytes" where
  "link_up_write x h dst =
     (case first_error (bounded_text Lf_Fw (lu_fw x)) (first_error (versioned Lf_Fw (lu_fw x)) (first_error (bounded_text Lf_Hw (lu_hw x)) (sides_agree x))) of Inl why \<Rightarrow> (Inl why, dst) | Inr _ \<Rightarrow>
       link_writing Lk_Cbor h (SHARED_KEYS + (if lu_net_version x \<noteq> None then 1 else 0) + (if lu_device_id x \<noteq> None then 1 else 0) + (if lu_net_origin x \<noteq> None then 1 else 0)) (map_err Lk_Cbor (link_up_pairs x)) dst)"

record link_up_slots =
  luq_major :: "u8 option"
  luq_minor :: "u8 option"
  luq_role :: "side option"
  luq_fw :: "bytes option"
  luq_boot_id :: "u32 option"
  luq_hw :: "bytes option"
  luq_net_version :: "u32 option"
  luq_device_id :: "bytes option"
  luq_net_origin :: "net_origin option"

definition link_up_empty :: link_up_slots where
  "link_up_empty = \<lparr>luq_major = None, luq_minor = None, luq_role = None, luq_fw = None, luq_boot_id = None, luq_hw = None, luq_net_version = None, luq_device_id = None, luq_net_origin = None\<rparr>"

definition link_up_field :: "link_up_slots \<Rightarrow> int \<Rightarrow> (reader, link_error, link_up_slots) act" where
  "link_up_field slots number =
     (if number = 1 then
     andthen (map_err Lk_Cbor rd_u8) (\<lambda>v.
     andthen (once (Lk_Duplicate Lf_ProtocolMajor) (luq_major slots) v) (\<lambda>t. ret (slots\<lparr>luq_major := t\<rparr>)))
      else if number = 2 then
     andthen (map_err Lk_Cbor rd_u8) (\<lambda>v.
     andthen (once (Lk_Duplicate Lf_ProtocolMinor) (luq_minor slots) v) (\<lambda>t. ret (slots\<lparr>luq_minor := t\<rparr>)))
      else if number = 3 then
     andthen (map_err Lk_Cbor rd_u8) (\<lambda>v. andthen (lift_sum (side_of v)) (\<lambda>w.
     andthen (once (Lk_Duplicate Lf_Role) (luq_role slots) w) (\<lambda>t. ret (slots\<lparr>luq_role := t\<rparr>))))
      else if number = 4 then
     andthen (map_err Lk_Cbor rd_text) (\<lambda>v. andthen (lift_sum (bounded_text Lf_Fw v)) (\<lambda>w.
     andthen (once (Lk_Duplicate Lf_Fw) (luq_fw slots) w) (\<lambda>t. ret (slots\<lparr>luq_fw := t\<rparr>))))
      else if number = 5 then
     andthen (map_err Lk_Cbor rd_u32) (\<lambda>v.
     andthen (once (Lk_Duplicate Lf_BootId) (luq_boot_id slots) v) (\<lambda>t. ret (slots\<lparr>luq_boot_id := t\<rparr>)))
      else if number = 6 then
     andthen (map_err Lk_Cbor rd_text) (\<lambda>v. andthen (lift_sum (bounded_text Lf_Hw v)) (\<lambda>w.
     andthen (once (Lk_Duplicate Lf_Hw) (luq_hw slots) w) (\<lambda>t. ret (slots\<lparr>luq_hw := t\<rparr>))))
      else if number = 7 then
     andthen (map_err Lk_Cbor rd_u32) (\<lambda>v.
     andthen (once (Lk_Duplicate Lf_NetVersion) (luq_net_version slots) v) (\<lambda>t. ret (slots\<lparr>luq_net_version := t\<rparr>)))
      else if number = 8 then
     andthen (map_err Lk_Cbor rd_byte_string) (\<lambda>v. andthen (lift_sum (whole_device_id v)) (\<lambda>w.
     andthen (once (Lk_Duplicate Lf_DeviceId) (luq_device_id slots) w) (\<lambda>t. ret (slots\<lparr>luq_device_id := t\<rparr>))))
      else if number = 9 then
     andthen (map_err Lk_Cbor rd_byte_string) (\<lambda>v. andthen (lift_sum (net_origin_of v)) (\<lambda>w.
     andthen (once (Lk_Duplicate Lf_NetOrigin) (luq_net_origin slots) w) (\<lambda>t. ret (slots\<lparr>luq_net_origin := t\<rparr>))))
      else skipped Lk_Cbor slots)"

definition link_up_complete :: "link_up_slots \<Rightarrow> (reader, link_error, link_up) act" where
  "link_up_complete slots =
     andthen (ok_or (Lk_Missing Lf_ProtocolMajor) (luq_major slots)) (\<lambda>major.
     andthen (ok_or (Lk_Missing Lf_ProtocolMinor) (luq_minor slots)) (\<lambda>minor.
     andthen (ok_or (Lk_Missing Lf_Role) (luq_role slots)) (\<lambda>role.
     andthen (ok_or (Lk_Missing Lf_Fw) (luq_fw slots)) (\<lambda>fw.
     andthen (ok_or (Lk_Missing Lf_BootId) (luq_boot_id slots)) (\<lambda>boot_id.
     andthen (ok_or (Lk_Missing Lf_Hw) (luq_hw slots)) (\<lambda>hw.
     let up = \<lparr>lu_version = \<lparr>ve_major = major, ve_minor = minor\<rparr>, lu_role = role, lu_fw = fw, lu_boot_id = boot_id, lu_hw = hw,
        lu_net_version = luq_net_version slots, lu_device_id = luq_device_id slots, lu_net_origin = luq_net_origin slots\<rparr> in
     andthen (lift_sum (sides_agree up)) (\<lambda>_. ret up)))))))"

lemma link_up_eta:
  "\<lparr>lu_version = \<lparr>ve_major = ve_major (lu_version x), ve_minor = ve_minor (lu_version x)\<rparr>, lu_role = lu_role x, lu_fw = lu_fw x,
     lu_boot_id = lu_boot_id x, lu_hw = lu_hw x, lu_net_version = lu_net_version x, lu_device_id = lu_device_id x,
     lu_net_origin = lu_net_origin x\<rparr> = x"
  by simp

definition link_up_decode :: "link_envelope \<Rightarrow> link_error + link_up" where
  "link_up_decode = link_reading Lk_Cbor link_up_field link_up_empty link_up_complete"

definition link_up_fields :: "link_up \<Rightarrow> (int \<times> item) list" where
  "link_up_fields x =
     (1, IUint (ucast (ve_major (lu_version x)))) # (2, IUint (ucast (ve_minor (lu_version x)))) # (3, IUint (ucast (side_number (lu_role x)))) # (4, IText (lu_fw x)) # (5, IUint (ucast (lu_boot_id x))) # (6, IText (lu_hw x)) # (case (lu_net_version x) of Some v \<Rightarrow> [(7, IUint (ucast v))] | None \<Rightarrow> []) @ (case (lu_device_id x) of Some v \<Rightarrow> [(8, IBytes v)] | None \<Rightarrow> []) @ (case (lu_net_origin x) of Some v \<Rightarrow> [(9, IBytes (origin_bytes v))] | None \<Rightarrow> [])"

definition link_up_valid :: "link_up \<Rightarrow> bool" where
  "link_up_valid x \<longleftrightarrow> link_text (lu_fw x) \<and> link_text (lu_hw x) \<and> (\<forall>v. (lu_device_id x) = Some v \<longrightarrow> length v = DEVICE_ID_BYTES) \<and> (\<forall>v. (lu_net_origin x) = Some v \<longrightarrow> origin_ok v) \<and> versioned Lf_Fw (lu_fw x) = Inr (lu_fw x) \<and> sides_agree x = Inr ()"

lemma link_up_ok [simp]:
  "ascending None (link_up_fields x)" "shallow room (link_up_fields x)" "known 9 (link_up_fields x)"
  "length (link_up_fields x) = (6 + (if (lu_net_version x) \<noteq> None then 1 else 0) + (if (lu_device_id x) \<noteq> None then 1 else 0) + (if (lu_net_origin x) \<noteq> None then 1 else 0))"
  by (auto simp: link_up_fields_def good_key_def split: option.split)

lemma link_up_writes:
  assumes "link_up_valid x"
  shows "writes_pairs (link_up_pairs x) (link_up_fields x)"
  using assms unfolding link_up_pairs_def link_up_fields_def
  by (intro writes_append writes_option item_rules) (simp_all add: link_up_valid_def link_textD)

lemma link_up_field_simps:
  "link_up_field s 1 = andthen (map_err Lk_Cbor rd_u8) (\<lambda>v.
     andthen (once (Lk_Duplicate Lf_ProtocolMajor) (luq_major s) v) (\<lambda>t. ret (s\<lparr>luq_major := t\<rparr>)))"
  "link_up_field s 2 = andthen (map_err Lk_Cbor rd_u8) (\<lambda>v.
     andthen (once (Lk_Duplicate Lf_ProtocolMinor) (luq_minor s) v) (\<lambda>t. ret (s\<lparr>luq_minor := t\<rparr>)))"
  "link_up_field s 3 = andthen (map_err Lk_Cbor rd_u8) (\<lambda>v. andthen (lift_sum (side_of v)) (\<lambda>w.
     andthen (once (Lk_Duplicate Lf_Role) (luq_role s) w) (\<lambda>t. ret (s\<lparr>luq_role := t\<rparr>))))"
  "link_up_field s 4 = andthen (map_err Lk_Cbor rd_text) (\<lambda>v. andthen (lift_sum (bounded_text Lf_Fw v)) (\<lambda>w.
     andthen (once (Lk_Duplicate Lf_Fw) (luq_fw s) w) (\<lambda>t. ret (s\<lparr>luq_fw := t\<rparr>))))"
  "link_up_field s 5 = andthen (map_err Lk_Cbor rd_u32) (\<lambda>v.
     andthen (once (Lk_Duplicate Lf_BootId) (luq_boot_id s) v) (\<lambda>t. ret (s\<lparr>luq_boot_id := t\<rparr>)))"
  "link_up_field s 6 = andthen (map_err Lk_Cbor rd_text) (\<lambda>v. andthen (lift_sum (bounded_text Lf_Hw v)) (\<lambda>w.
     andthen (once (Lk_Duplicate Lf_Hw) (luq_hw s) w) (\<lambda>t. ret (s\<lparr>luq_hw := t\<rparr>))))"
  "link_up_field s 7 = andthen (map_err Lk_Cbor rd_u32) (\<lambda>v.
     andthen (once (Lk_Duplicate Lf_NetVersion) (luq_net_version s) v) (\<lambda>t. ret (s\<lparr>luq_net_version := t\<rparr>)))"
  "link_up_field s 8 = andthen (map_err Lk_Cbor rd_byte_string) (\<lambda>v. andthen (lift_sum (whole_device_id v)) (\<lambda>w.
     andthen (once (Lk_Duplicate Lf_DeviceId) (luq_device_id s) w) (\<lambda>t. ret (s\<lparr>luq_device_id := t\<rparr>))))"
  "link_up_field s 9 = andthen (map_err Lk_Cbor rd_byte_string) (\<lambda>v. andthen (lift_sum (net_origin_of v)) (\<lambda>w.
     andthen (once (Lk_Duplicate Lf_NetOrigin) (luq_net_origin s) w) (\<lambda>t. ret (s\<lparr>luq_net_origin := t\<rparr>))))"
  "9 < j \<Longrightarrow> link_up_field s j = skipped Lk_Cbor s"
  by (simp_all add: link_up_field_def)

lemma link_up_reads:
  assumes "link_up_valid x"
  shows "reads_pairs link_up_field (link_up_fields x) link_up_empty
    \<lparr>luq_major = Some (ve_major (lu_version x)), luq_minor = Some (ve_minor (lu_version x)), luq_role = Some (lu_role x), luq_fw = Some (lu_fw x), luq_boot_id = Some (lu_boot_id x), luq_hw = Some (lu_hw x), luq_net_version = (lu_net_version x), luq_device_id = (lu_device_id x), luq_net_origin = (lu_net_origin x)\<rparr>"
proof -
  have ok: "link_text (lu_fw x)" "link_text (lu_hw x)" "\<And>v. (lu_device_id x) = Some v \<Longrightarrow> length v = DEVICE_ID_BYTES" "\<And>v. (lu_net_origin x) = Some v \<Longrightarrow> origin_ok v"
    using assms by (auto simp: link_up_valid_def)
  show ?thesis
    by (rule reads_eq, unfold link_up_fields_def)
      (rule reads_Nil | rule reads_Cons | rule reads_pairs_append, rule reads_optional | rule reads_optional | simp only: link_up_field_simps
      | rule slot_rules | rule item_rules link_textD side_of_number whole_device_idD(1) origin_okD ok | assumption | simp add: link_up_empty_def; fail)+
qed

interpretation link_up: link_codec link_up_write link_up_decode link_up_fields link_up_valid 9
proof
  fix x h and dst :: bytes
  assume x: "link_up_valid x" "length (link_bytes h (link_up_fields x)) \<le> length dst" "length dst \<le> usize_max"
  then show "link_up_write x h dst = (Inr (length (link_bytes h (link_up_fields x))), splice dst 0 (link_bytes h (link_up_fields x)))"
    unfolding link_up_write_def by (simp add: link_writes [OF link_up_writes [OF x(1)]] link_up_valid_def link_textD SHARED_KEYS_def)
next
  fix x h fs
  assume x: "link_up_valid x" "session_ok (lh_session h)" "extends 9 6 fs" "length (link_bytes h (link_up_fields x @ fs)) \<le> usize_max"
  show "\<exists>e. link_envelope_decode (link_bytes h (link_up_fields x @ fs)) = Inr e \<and>
    le_opcode e = link_message_type_num (lh_kind h) \<and> le_session e = lh_session h \<and> le_req_id e = lh_req_id h \<and>
    link_up_decode e = Inr x"
    unfolding link_up_decode_def
    by (rule link_reads [OF link_up_reads [OF x(1)] _ _ _ x(3) _ x(2) x(4)])
      (insert x(1), auto intro!: runs_andthen simp: link_up_complete_def link_up_field_simps link_up_valid_def Let_def link_up_eta)
qed

end
