(* ===== verification/Net_Origin.thy ===== *)
theory Net_Origin
  imports Link_Bodies
begin

text \<open>
  The network a comms processor is given: \<open>NetChange\<close> of \<open>linklocal.rs\<close>, the change that carries
  credentials or removes them, and \<open>crates/km43/src/net_origin.rs\<close>, the stamp both chips compare to
  tell whether the cache still holds what the controller wrote. \<open>pairing_window.rs\<close>, the report of
  how long the radio stays reachable for pairing, is the last section.
\<close>

section \<open>Changes\<close>

definition PSK_SHORTEST :: nat where "PSK_SHORTEST = 8"
definition PSK_LONGEST :: nat where "PSK_LONGEST = 63"
definition COUNTRY_BYTES :: nat where "COUNTRY_BYTES = 2"

datatype net_change =
    NetSet (set_version: u32) (set_ssid: bytes) (set_psk: bytes) (set_country: bytes) (set_hostname: bytes) (set_origin: net_origin)
  | NetClearUnwritten
  | NetClear (clear_version: u32) (clear_country: bytes) (clear_hostname: bytes) (clear_origin: net_origin)

primrec nc_op :: "net_change \<Rightarrow> net_config_op" where
  "nc_op (NetSet v ssid psk country hostname origin) = NetConfigOp_Set"
| "nc_op NetClearUnwritten = NetConfigOp_Clear"
| "nc_op (NetClear v country hostname origin) = NetConfigOp_Clear"

primrec nc_version :: "net_change \<Rightarrow> u32" where
  "nc_version (NetSet v ssid psk country hostname origin) = v"
| "nc_version NetClearUnwritten = 0"
| "nc_version (NetClear v country hostname origin) = v"

primrec nc_credentials :: "net_change \<Rightarrow> (bytes \<times> bytes) option" where
  "nc_credentials (NetSet v ssid psk country hostname origin) = Some (ssid, psk)"
| "nc_credentials NetClearUnwritten = None"
| "nc_credentials (NetClear v country hostname origin) = None"

primrec nc_metadata :: "net_change \<Rightarrow> (bytes \<times> bytes \<times> net_origin) option" where
  "nc_metadata (NetSet v ssid psk country hostname origin) = Some (country, hostname, origin)"
| "nc_metadata NetClearUnwritten = None"
| "nc_metadata (NetClear v country hostname origin) = Some (country, hostname, origin)"

primrec nc_keys :: "net_change \<Rightarrow> nat" where
  "nc_keys (NetSet v ssid psk country hostname origin) = 7"
| "nc_keys NetClearUnwritten = 2"
| "nc_keys (NetClear v country hostname origin) = 5"

definition passphrase :: "bytes \<Rightarrow> link_error + bytes" where
  "passphrase psk =
     (if length psk < PSK_SHORTEST \<or> PSK_LONGEST < length psk then Inl (Lk_PassphraseLength (length psk)) else Inr psk)"

definition two_letters :: "bytes \<Rightarrow> link_error + bytes" where
  "two_letters country = (if length country \<noteq> COUNTRY_BYTES then Inl (Lk_CountryNotTwoBytes (length country)) else Inr country)"

text \<open>What \<open>write\<close> checks before its first byte.\<close>

definition net_change_check :: "net_change \<Rightarrow> link_error + unit" where
  "net_change_check x =
     first_error (case nc_credentials x of None \<Rightarrow> Inr [] | Some (ssid, psk) \<Rightarrow> first_error (bounded_text Lf_Ssid ssid) (passphrase psk))
       (case nc_metadata x of None \<Rightarrow> Inr () | Some (country, hostname, _) \<Rightarrow>
          if nc_version x = 0 then Inl Lk_ZeroNetworkVersion
          else first_error (two_letters country) (first_error (bounded_text Lf_Hostname hostname) (Inr ())))"

definition net_change_pairs :: "net_change \<Rightarrow> (writer, cbor_error, unit) act" where
  "net_change_pairs x =
     andthen (wr_key 1) (\<lambda>_. andthen (wr_u64 (ucast (net_config_op_num (nc_op x)))) (\<lambda>_.
     andthen (wr_key 2) (\<lambda>_. andthen (wr_u64 (ucast (nc_version x))) (\<lambda>_.
     andthen (case (map_option (\<lambda>t. fst t) (nc_credentials x)) of Some v \<Rightarrow> andthen (wr_key 3) (\<lambda>_. wr_text v) | None \<Rightarrow> ret ()) (\<lambda>_.
     andthen (case (map_option (\<lambda>t. snd t) (nc_credentials x)) of Some v \<Rightarrow> andthen (wr_key 4) (\<lambda>_. wr_text v) | None \<Rightarrow> ret ()) (\<lambda>_.
     andthen (case (map_option (\<lambda>t. fst t) (nc_metadata x)) of Some v \<Rightarrow> andthen (wr_key 5) (\<lambda>_. wr_text v) | None \<Rightarrow> ret ()) (\<lambda>_.
     andthen (case (map_option (\<lambda>t. fst (snd t)) (nc_metadata x)) of Some v \<Rightarrow> andthen (wr_key 6) (\<lambda>_. wr_text v) | None \<Rightarrow> ret ()) (\<lambda>_.
     (case (map_option (\<lambda>t. snd (snd t)) (nc_metadata x)) of Some v \<Rightarrow> andthen (wr_key 7) (\<lambda>_. wr_byte_string (origin_bytes v)) | None \<Rightarrow> ret ())))))))))"

definition net_change_write :: "net_change \<Rightarrow> link_header \<Rightarrow> bytes \<Rightarrow> (link_error + nat) \<times> bytes" where
  "net_change_write x h dst =
     (case net_change_check x of Inl why \<Rightarrow> (Inl why, dst) | Inr _ \<Rightarrow>
       link_writing Lk_Cbor h (nc_keys x) (map_err Lk_Cbor (net_change_pairs x)) dst)"

record net_change_slots =
  ncq_op :: "net_config_op option"
  ncq_version :: "u32 option"
  ncq_ssid :: "bytes option"
  ncq_psk :: "bytes option"
  ncq_country :: "bytes option"
  ncq_hostname :: "bytes option"
  ncq_origin :: "net_origin option"

definition net_change_empty :: net_change_slots where
  "net_change_empty = \<lparr>ncq_op = None, ncq_version = None, ncq_ssid = None, ncq_psk = None, ncq_country = None, ncq_hostname = None, ncq_origin = None\<rparr>"

definition net_change_field :: "net_change_slots \<Rightarrow> int \<Rightarrow> (reader, link_error, net_change_slots) act" where
  "net_change_field slots number =
     (if number = 1 then
     andthen (map_err Lk_Cbor rd_u8) (\<lambda>v. andthen (lift_sum (allocated net_config_op_of Lk_UnknownOp v)) (\<lambda>w.
     andthen (once (Lk_Duplicate Lf_Op) (ncq_op slots) w) (\<lambda>t. ret (slots\<lparr>ncq_op := t\<rparr>))))
      else if number = 2 then
     andthen (map_err Lk_Cbor rd_u32) (\<lambda>v.
     andthen (once (Lk_Duplicate Lf_NetVersion) (ncq_version slots) v) (\<lambda>t. ret (slots\<lparr>ncq_version := t\<rparr>)))
      else if number = 3 then
     andthen (map_err Lk_Cbor rd_text) (\<lambda>v.
     andthen (once (Lk_Duplicate Lf_Ssid) (ncq_ssid slots) v) (\<lambda>t. ret (slots\<lparr>ncq_ssid := t\<rparr>)))
      else if number = 4 then
     andthen (map_err Lk_Cbor rd_text) (\<lambda>v.
     andthen (once (Lk_Duplicate Lf_Psk) (ncq_psk slots) v) (\<lambda>t. ret (slots\<lparr>ncq_psk := t\<rparr>)))
      else if number = 5 then
     andthen (map_err Lk_Cbor rd_text) (\<lambda>v.
     andthen (once (Lk_Duplicate Lf_Country) (ncq_country slots) v) (\<lambda>t. ret (slots\<lparr>ncq_country := t\<rparr>)))
      else if number = 6 then
     andthen (map_err Lk_Cbor rd_text) (\<lambda>v.
     andthen (once (Lk_Duplicate Lf_Hostname) (ncq_hostname slots) v) (\<lambda>t. ret (slots\<lparr>ncq_hostname := t\<rparr>)))
      else if number = 7 then
     andthen (map_err Lk_Cbor rd_byte_string) (\<lambda>v. andthen (lift_sum (net_origin_of v)) (\<lambda>w.
     andthen (once (Lk_Duplicate Lf_Origin) (ncq_origin slots) w) (\<lambda>t. ret (slots\<lparr>ncq_origin := t\<rparr>))))
      else skipped Lk_Cbor slots)"

text \<open>A change with a version: what is left once nothing is refused for being a clear.\<close>

definition net_change_written :: "net_config_op \<Rightarrow> u32 \<Rightarrow> net_change_slots \<Rightarrow> (reader, link_error, net_change) act" where
  "net_change_written op version slots =
     andthen (ok_or (Lk_Missing Lf_Country) (ncq_country slots)) (\<lambda>raw.
     andthen (lift_sum (two_letters raw)) (\<lambda>country.
     andthen (ok_or (Lk_Missing Lf_Hostname) (ncq_hostname slots)) (\<lambda>raw.
     andthen (lift_sum (bounded_text Lf_Hostname raw)) (\<lambda>hostname.
     andthen (ok_or (Lk_Missing Lf_Origin) (ncq_origin slots)) (\<lambda>origin.
     case op of
       NetConfigOp_Set \<Rightarrow>
         andthen (ok_or (Lk_Missing Lf_Psk) (ncq_psk slots)) (\<lambda>raw.
         andthen (lift_sum (passphrase raw)) (\<lambda>psk.
         andthen (ok_or (Lk_Missing Lf_Ssid) (ncq_ssid slots)) (\<lambda>raw.
         andthen (lift_sum (bounded_text Lf_Ssid raw)) (\<lambda>ssid.
         ret (NetSet version ssid psk country hostname origin)))))
     | NetConfigOp_Clear \<Rightarrow> ret (NetClear version country hostname origin))))))"

definition net_change_complete :: "net_change_slots \<Rightarrow> (reader, link_error, net_change) act" where
  "net_change_complete slots =
     andthen (ok_or (Lk_Missing Lf_NetVersion) (ncq_version slots)) (\<lambda>version.
     andthen (ok_or (Lk_Missing Lf_Op) (ncq_op slots)) (\<lambda>op.
     if op = NetConfigOp_Clear \<and> (ncq_ssid slots \<noteq> None \<or> ncq_psk slots \<noteq> None) then fail Lk_ClearCarriedCredentials
     else if op = NetConfigOp_Clear \<and> version = 0 then
       (if ncq_country slots \<noteq> None \<or> ncq_hostname slots \<noteq> None then fail Lk_UnwrittenClearCarriedMetadata
        else if ncq_origin slots \<noteq> None then fail Lk_UnwrittenClearCarriedOrigin
        else ret NetClearUnwritten)
     else if version = 0 then fail Lk_ZeroNetworkVersion
     else net_change_written op version slots))"

definition net_change_decode :: "link_envelope \<Rightarrow> link_error + net_change" where
  "net_change_decode = link_reading Lk_Cbor net_change_field net_change_empty net_change_complete"

definition net_change_fields :: "net_change \<Rightarrow> (int \<times> item) list" where
  "net_change_fields x =
     (1, IUint (ucast (net_config_op_num (nc_op x)))) # (2, IUint (ucast (nc_version x))) # (case (map_option (\<lambda>t. fst t) (nc_credentials x)) of Some v \<Rightarrow> [(3, IText v)] | None \<Rightarrow> []) @ (case (map_option (\<lambda>t. snd t) (nc_credentials x)) of Some v \<Rightarrow> [(4, IText v)] | None \<Rightarrow> []) @ (case (map_option (\<lambda>t. fst t) (nc_metadata x)) of Some v \<Rightarrow> [(5, IText v)] | None \<Rightarrow> []) @ (case (map_option (\<lambda>t. fst (snd t)) (nc_metadata x)) of Some v \<Rightarrow> [(6, IText v)] | None \<Rightarrow> []) @ (case (map_option (\<lambda>t. snd (snd t)) (nc_metadata x)) of Some v \<Rightarrow> [(7, IBytes (origin_bytes v))] | None \<Rightarrow> [])"

definition net_change_valid :: "net_change \<Rightarrow> bool" where
  "net_change_valid x \<longleftrightarrow> (\<forall>v. (map_option (\<lambda>t. fst t) (nc_credentials x)) = Some v \<longrightarrow> text_ok v) \<and> (\<forall>v. (map_option (\<lambda>t. snd t) (nc_credentials x)) = Some v \<longrightarrow> text_ok v) \<and> (\<forall>v. (map_option (\<lambda>t. fst t) (nc_metadata x)) = Some v \<longrightarrow> text_ok v) \<and> (\<forall>v. (map_option (\<lambda>t. fst (snd t)) (nc_metadata x)) = Some v \<longrightarrow> text_ok v) \<and> (\<forall>v. (map_option (\<lambda>t. snd (snd t)) (nc_metadata x)) = Some v \<longrightarrow> origin_ok v) \<and> net_change_check x = Inr ()"

lemma net_change_ok [simp]:
  "ascending None (net_change_fields x)" "shallow room (net_change_fields x)" "known 7 (net_change_fields x)"
  "length (net_change_fields x) = (nc_keys x)"
  by (cases x; auto simp: net_change_fields_def good_key_def split: option.split)+

lemma net_change_writes:
  assumes "net_change_valid x"
  shows "writes_pairs (net_change_pairs x) (net_change_fields x)"
  using assms unfolding net_change_pairs_def net_change_fields_def
  by (intro writes_append writes_option item_rules) (auto simp: net_change_valid_def text_ok_def)

lemma net_change_field_simps:
  "net_change_field s 1 = andthen (map_err Lk_Cbor rd_u8) (\<lambda>v. andthen (lift_sum (allocated net_config_op_of Lk_UnknownOp v)) (\<lambda>w.
     andthen (once (Lk_Duplicate Lf_Op) (ncq_op s) w) (\<lambda>t. ret (s\<lparr>ncq_op := t\<rparr>))))"
  "net_change_field s 2 = andthen (map_err Lk_Cbor rd_u32) (\<lambda>v.
     andthen (once (Lk_Duplicate Lf_NetVersion) (ncq_version s) v) (\<lambda>t. ret (s\<lparr>ncq_version := t\<rparr>)))"
  "net_change_field s 3 = andthen (map_err Lk_Cbor rd_text) (\<lambda>v.
     andthen (once (Lk_Duplicate Lf_Ssid) (ncq_ssid s) v) (\<lambda>t. ret (s\<lparr>ncq_ssid := t\<rparr>)))"
  "net_change_field s 4 = andthen (map_err Lk_Cbor rd_text) (\<lambda>v.
     andthen (once (Lk_Duplicate Lf_Psk) (ncq_psk s) v) (\<lambda>t. ret (s\<lparr>ncq_psk := t\<rparr>)))"
  "net_change_field s 5 = andthen (map_err Lk_Cbor rd_text) (\<lambda>v.
     andthen (once (Lk_Duplicate Lf_Country) (ncq_country s) v) (\<lambda>t. ret (s\<lparr>ncq_country := t\<rparr>)))"
  "net_change_field s 6 = andthen (map_err Lk_Cbor rd_text) (\<lambda>v.
     andthen (once (Lk_Duplicate Lf_Hostname) (ncq_hostname s) v) (\<lambda>t. ret (s\<lparr>ncq_hostname := t\<rparr>)))"
  "net_change_field s 7 = andthen (map_err Lk_Cbor rd_byte_string) (\<lambda>v. andthen (lift_sum (net_origin_of v)) (\<lambda>w.
     andthen (once (Lk_Duplicate Lf_Origin) (ncq_origin s) w) (\<lambda>t. ret (s\<lparr>ncq_origin := t\<rparr>))))"
  "7 < j \<Longrightarrow> net_change_field s j = skipped Lk_Cbor s"
  by (simp_all add: net_change_field_def)

lemma net_change_reads:
  assumes "net_change_valid x"
  shows "reads_pairs net_change_field (net_change_fields x) net_change_empty
    \<lparr>ncq_op = Some (nc_op x), ncq_version = Some (nc_version x), ncq_ssid = (map_option (\<lambda>t. fst t) (nc_credentials x)), ncq_psk = (map_option (\<lambda>t. snd t) (nc_credentials x)), ncq_country = (map_option (\<lambda>t. fst t) (nc_metadata x)), ncq_hostname = (map_option (\<lambda>t. fst (snd t)) (nc_metadata x)), ncq_origin = (map_option (\<lambda>t. snd (snd t)) (nc_metadata x))\<rparr>"
proof -
  have ok: "\<And>v. (map_option (\<lambda>t. fst t) (nc_credentials x)) = Some v \<Longrightarrow> text_ok v" "\<And>v. (map_option (\<lambda>t. snd t) (nc_credentials x)) = Some v \<Longrightarrow> text_ok v" "\<And>v. (map_option (\<lambda>t. fst t) (nc_metadata x)) = Some v \<Longrightarrow> text_ok v" "\<And>v. (map_option (\<lambda>t. fst (snd t)) (nc_metadata x)) = Some v \<Longrightarrow> text_ok v" "\<And>v. (map_option (\<lambda>t. snd (snd t)) (nc_metadata x)) = Some v \<Longrightarrow> origin_ok v"
    using assms by (auto simp: net_change_valid_def)
  show ?thesis
    by (rule reads_eq, unfold net_change_fields_def)
      (rule reads_Nil | rule reads_Cons | rule reads_pairs_append, rule reads_optional | rule reads_optional | simp only: net_change_field_simps
      | rule slot_rules | rule item_rules link_numbers text_okD origin_okD ok | assumption | simp add: net_change_empty_def; fail)+
qed

definition net_change_kept :: "net_change_slots \<Rightarrow> bool" where
  "net_change_kept s \<longleftrightarrow> (\<forall>v. ncq_ssid s = Some v \<longrightarrow> text_ok v) \<and> (\<forall>v. ncq_psk s = Some v \<longrightarrow> text_ok v) \<and> (\<forall>v. ncq_country s = Some v \<longrightarrow> text_ok v) \<and> (\<forall>v. ncq_hostname s = Some v \<longrightarrow> text_ok v) \<and> (\<forall>v. ncq_origin s = Some v \<longrightarrow> origin_ok v)"

lemma net_change_none: "net_change_kept net_change_empty"
  by (simp add: net_change_kept_def net_change_empty_def)

lemma net_change_keeps:
  assumes "net_change_kept a" and "net_change_field a k s = (Inr a', s')"
  shows "net_change_kept a'"
  using assms by (auto simp: net_change_field_def net_change_kept_def elim!: slot_InrE plain_slot_InrE map_err_InrE skipped_InrE dest: allocated_InrD rd_text_ok net_origin_of_InrD split: if_splits)

lemma check_same:
  "passphrase p = Inr q \<Longrightarrow> q = p" "two_letters c = Inr d \<Longrightarrow> d = c" "bounded_text k t = Inr u \<Longrightarrow> u = t"
  by (simp_all add: passphrase_def two_letters_def bounded_text_def split: if_splits)

lemma net_change_completes:
  assumes "net_change_valid x"
  shows "runs (net_change_complete \<lparr>ncq_op = Some (nc_op x), ncq_version = Some (nc_version x),
      ncq_ssid = map_option fst (nc_credentials x), ncq_psk = map_option snd (nc_credentials x),
      ncq_country = map_option fst (nc_metadata x), ncq_hostname = map_option (\<lambda>t. fst (snd t)) (nc_metadata x),
      ncq_origin = map_option (\<lambda>t. snd (snd t)) (nc_metadata x)\<rparr>) r (\<lambda>y _. y = x)"
  using assms
  by (cases x) (auto simp: net_change_complete_def net_change_written_def net_change_valid_def net_change_check_def first_error_Inr
      passphrase_def two_letters_def bounded_text_def split: if_splits)

lemma written_valid:
  assumes "net_change_written op version slots s = (Inr x, t)" and "net_change_kept slots" and "version \<noteq> 0"
  shows "net_change_valid x"
proof -
  obtain country hostname origin where meta: "ncq_country slots = Some country" "ncq_hostname slots = Some hostname"
      "ncq_origin slots = Some origin" "two_letters country = Inr country" "bounded_text Lf_Hostname hostname = Inr hostname"
    and rest: "(case op of
       NetConfigOp_Set \<Rightarrow>
         andthen (ok_or (Lk_Missing Lf_Psk) (ncq_psk slots)) (\<lambda>raw.
         andthen (lift_sum (passphrase raw)) (\<lambda>psk.
         andthen (ok_or (Lk_Missing Lf_Ssid) (ncq_ssid slots)) (\<lambda>raw.
         andthen (lift_sum (bounded_text Lf_Ssid raw)) (\<lambda>ssid.
         ret (NetSet version ssid psk country hostname origin)))))
     | NetConfigOp_Clear \<Rightarrow> ret (NetClear version country hostname origin)) s = (Inr x, t)"
    using assms(1) check_same unfolding net_change_written_def by (elim decode_InrE) metis
  show ?thesis
  proof (cases op)
    case NetConfigOp_Clear
    then show ?thesis
      using rest meta assms(2,3) by (auto simp: net_change_valid_def net_change_check_def net_change_kept_def)
  next
    case NetConfigOp_Set
    obtain ssid psk where creds: "ncq_psk slots = Some psk" "ncq_ssid slots = Some ssid" "passphrase psk = Inr psk"
      "bounded_text Lf_Ssid ssid = Inr ssid" "x = NetSet version ssid psk country hostname origin"
      using rest check_same unfolding NetConfigOp_Set net_config_op.case by (elim decode_InrE) (metis ret_InrE)
    then show ?thesis
      using meta assms(2,3) by (simp add: net_change_valid_def net_change_check_def net_change_kept_def)
  qed
qed

lemma unwritten_valid: "net_change_valid NetClearUnwritten"
  by (simp add: net_change_valid_def net_change_check_def)

lemma completed_valid:
  assumes "net_change_complete slots s = (Inr x, t)" and "net_change_kept slots"
  shows "net_change_valid x"
  using assms unfolding net_change_complete_def
  by (elim decode_InrE) (auto split: if_splits intro: written_valid unwritten_valid)

interpretation net_change: strict_link_codec net_change_write net_change_decode net_change_fields net_change_valid 7
proof
  fix x h and dst :: bytes
  assume x: "net_change_valid x" "length (link_bytes h (net_change_fields x)) \<le> length dst" "length dst \<le> usize_max"
  then show "net_change_write x h dst = (Inr (length (link_bytes h (net_change_fields x))), splice dst 0 (link_bytes h (net_change_fields x)))"
    unfolding net_change_write_def by (simp add: link_writes [OF net_change_writes [OF x(1)]] net_change_valid_def)
next
  fix x h fs
  assume x: "net_change_valid x" "session_ok (lh_session h)" "extends 7 6 fs" "length (link_bytes h (net_change_fields x @ fs)) \<le> usize_max"
  show "\<exists>e. link_envelope_decode (link_bytes h (net_change_fields x @ fs)) = Inr e \<and>
    le_opcode e = link_message_type_num (lh_kind h) \<and> le_session e = lh_session h \<and> le_req_id e = lh_req_id h \<and>
    net_change_decode e = Inr x"
    unfolding net_change_decode_def
    by (rule link_reads [OF net_change_reads [OF x(1)] _ _ _ x(3) _ x(2) x(4)])
      (insert x(1), auto intro!: runs_andthen simp: net_change_completes net_change_field_simps)
next
  fix e x assume "net_change_decode e = Inr x"
  then obtain slots s t where "net_change_kept slots" "net_change_complete slots s = (Inr x, t)"
    unfolding net_change_decode_def by (rule link_reading_InrE [where P = net_change_kept, OF _ net_change_none]) (blast intro: net_change_keeps)+
  then show "net_change_valid x"
    by (rule completed_valid [rotated])
qed

section \<open>Stamps\<close>

datatype nvs_write = Nvs_Durable | Nvs_Failed

datatype net_stamp = Stamp_Unwritten | Stamp_Written u32 net_origin

definition stamp_of :: "net_change \<Rightarrow> link_error + net_stamp" where
  "stamp_of change =
     (case change of
        NetClearUnwritten \<Rightarrow> Inr Stamp_Unwritten
      | NetSet version _ _ _ _ origin \<Rightarrow> if version = 0 then Inl Lk_ZeroNetworkVersion else Inr (Stamp_Written version origin)
      | NetClear version _ _ origin \<Rightarrow> if version = 0 then Inl Lk_ZeroNetworkVersion else Inr (Stamp_Written version origin))"

primrec stamp_version :: "net_stamp \<Rightarrow> u32" where
  "stamp_version Stamp_Unwritten = 0"
| "stamp_version (Stamp_Written version origin) = version"

primrec stamp_origin :: "net_stamp \<Rightarrow> net_origin option" where
  "stamp_origin Stamp_Unwritten = None"
| "stamp_origin (Stamp_Written version origin) = Some origin"

definition needs_push :: "net_stamp \<Rightarrow> link_up \<Rightarrow> bool" where
  "needs_push stamp cache =
     (case stamp of
        Stamp_Unwritten \<Rightarrow> lu_net_version cache \<noteq> Some 0
      | Stamp_Written version origin \<Rightarrow> lu_net_version cache \<noteq> Some version \<or> lu_net_origin cache \<noteq> Some origin)"

definition settle :: "net_stamp \<Rightarrow> net_change \<Rightarrow> nvs_write \<Rightarrow> link_error + (net_stamp \<times> net_verdict)" where
  "settle held change outcome =
     (case stamp_of change of
        Inl e \<Rightarrow> Inl e
      | Inr offered \<Rightarrow>
          let (now, said) = (case outcome of Nvs_Durable \<Rightarrow> (offered, Nco_Stored) | Nvs_Failed \<Rightarrow> (held, Nco_NvsWriteFailed))
          in Inr (now, \<lparr>nv_outcome = said, nv_version = stamp_version now\<rparr>))"

text \<open>A version is a \<open>NonZeroU32\<close>.\<close>

primrec stamp_ok :: "net_stamp \<Rightarrow> bool" where
  "stamp_ok Stamp_Unwritten \<longleftrightarrow> True"
| "stamp_ok (Stamp_Written version origin) \<longleftrightarrow> version \<noteq> 0 \<and> origin_ok origin"

lemma stamp_of_ok: "net_change_valid c \<Longrightarrow> \<exists>s. stamp_of c = Inr s \<and> stamp_ok s \<and> stamp_version s = nc_version c"
  by (cases c) (auto simp: net_change_valid_def net_change_check_def stamp_of_def first_error_Inr split: if_splits)

text \<open>The \<open>LinkUp\<close> of a comms processor that holds \<open>s\<close>.\<close>

definition reports :: "link_up \<Rightarrow> net_stamp \<Rightarrow> bool" where
  "reports up s \<longleftrightarrow> lu_role up = Side_Comms \<and> lu_net_version up = Some (stamp_version s) \<and> lu_net_origin up = stamp_origin s \<and>
     lu_device_id up = None"

lemma needs_push_iff: "stamp_ok s \<Longrightarrow> stamp_ok held \<Longrightarrow> reports up held \<Longrightarrow> needs_push s up \<longleftrightarrow> held \<noteq> s"
  by (cases s; cases held) (auto simp: needs_push_def reports_def)

lemma reported_sides_agree: "reports up s \<Longrightarrow> stamp_ok s \<Longrightarrow> sides_agree up = Inr ()"
  by (cases s) (auto simp: reports_def sides_agree_def)

lemma reported_valid:
  assumes "reports up s" and "stamp_ok s" and "versioned Lf_Fw (lu_fw up) = Inr (lu_fw up)" and "link_text (lu_fw up)"
    and "link_text (lu_hw up)"
  shows "link_up_valid up"
  using assms reported_sides_agree [OF assms(1,2)]
  by (cases s) (auto simp: link_up_valid_def reports_def)

text \<open>C18. The network pushed to a comms processor settles. The change the controller writes is the one
  its comms processor reads; a durable write leaves the cache with the change's own stamp and says so,
  a failed one leaves it as it was and reports what it still holds; and whichever happened, the next
  \<open>LinkUp\<close>, over the wire, has the controller push again exactly when the cache is not the change.\<close>

theorem network_push_settles:
  assumes "net_change_valid change" and "stamp_ok held"
    and "session_ok (lh_session h)" and "length (link_bytes h (net_change_fields change)) \<le> length dst" and "length dst \<le> usize_max"
    and "versioned Lf_Fw (lu_fw up) = Inr (lu_fw up)" and "link_text (lu_fw up)" and "link_text (lu_hw up)"
    and "session_ok (lh_session h')" and "length (link_bytes h' (link_up_fields up)) \<le> length dst'" and "length dst' \<le> usize_max"
  shows "\<exists>s n out e now verdict. stamp_of change = Inr s \<and>
    net_change_write change h dst = (Inr n, out) \<and> link_envelope_decode (take n out) = Inr e \<and> net_change_decode e = Inr change \<and>
    settle held change outcome = Inr (now, verdict) \<and>
    now = (case outcome of Nvs_Durable \<Rightarrow> s | Nvs_Failed \<Rightarrow> held) \<and> nv_version verdict = stamp_version now \<and>
    (nv_outcome verdict = Nco_Stored \<longleftrightarrow> outcome = Nvs_Durable) \<and>
    (reports up now \<longrightarrow> (\<exists>n' out' e' up'. link_up_write up h' dst' = (Inr n', out') \<and>
       link_envelope_decode (take n' out') = Inr e' \<and> link_up_decode e' = Inr up' \<and> (needs_push s up' \<longleftrightarrow> now \<noteq> s)))"
proof -
  obtain s where s: "stamp_of change = Inr s" "stamp_ok s"
    using stamp_of_ok [OF assms(1)] by blast
  obtain n out e where sent: "net_change_write change h dst = (Inr n, out)" "link_envelope_decode (take n out) = Inr e"
    "net_change_decode e = Inr change"
    using net_change.crosses [OF assms(1,3-5)] by blast
  define now where "now = (case outcome of Nvs_Durable \<Rightarrow> s | Nvs_Failed \<Rightarrow> held)"
  define verdict where "verdict = \<lparr>nv_outcome = (case outcome of Nvs_Durable \<Rightarrow> Nco_Stored | Nvs_Failed \<Rightarrow> Nco_NvsWriteFailed),
    nv_version = stamp_version now\<rparr>"
  have settled: "settle held change outcome = Inr (now, verdict)" "nv_version verdict = stamp_version now"
    "nv_outcome verdict = Nco_Stored \<longleftrightarrow> outcome = Nvs_Durable"
    by (cases outcome; simp add: settle_def s(1) now_def verdict_def)+
  have ok: "stamp_ok now"
    using s(2) assms(2) by (cases outcome) (simp_all add: now_def)
  have "\<exists>n' out' e' up'. link_up_write up h' dst' = (Inr n', out') \<and>
       link_envelope_decode (take n' out') = Inr e' \<and> link_up_decode e' = Inr up' \<and> (needs_push s up' \<longleftrightarrow> now \<noteq> s)"
    if "reports up now"
    using link_up.crosses [OF reported_valid [OF that ok assms(6-8)] assms(9-11)] needs_push_iff [OF s(2) ok that] by blast
  then show ?thesis
    using s(1) sent settled now_def by blast
qed

definition example_change :: net_change where
  "example_change = NetClear 7 [0x45, 0x53] [0x78] (NetOrigin [1, 2, 3, 4, 5, 6, 7, 8])"

definition example_link_up :: link_up where
  "example_link_up = \<lparr>lu_version = V1_0, lu_role = Side_Comms,
     lu_fw = version_text [0x30] [0x31] [0x30] None [0x61, 0x62, 0x63, 0x64, 0x65, 0x66, 0x30, 0x31], lu_boot_id = 9, lu_hw = [0x78],
     lu_net_version = Some 7, lu_device_id = None, lu_net_origin = Some (NetOrigin [1, 2, 3, 4, 5, 6, 7, 8])\<rparr>"

definition link_header_example :: link_header where
  "link_header_example = \<lparr>lh_kind = Lm_NetConfig, lh_session = NoSession, lh_req_id = 1\<rparr>"

lemma network_push_settles_witness:
  "\<exists>s now verdict. stamp_of example_change = Inr s \<and> settle Stamp_Unwritten example_change Nvs_Durable = Inr (now, verdict) \<and> now = s \<and>
     (\<exists>n out e up. link_up_write example_link_up link_header_example (replicate 128 0) = (Inr n, out) \<and>
       link_envelope_decode (take n out) = Inr e \<and> link_up_decode e = Inr up \<and> \<not> needs_push s up)"
proof -
  have small: "length (link_bytes link_header_example (net_change_fields example_change)) \<le> 128"
    "length (link_bytes link_header_example (link_up_fields example_link_up)) \<le> 128"
    using length_link_bytes [of link_header_example "net_change_fields example_change"]
      length_link_bytes [of link_header_example "link_up_fields example_link_up"]
    by (simp_all add: example_change_def example_link_up_def net_change_fields_def link_up_fields_def map_bytes_eq V1_0_def
        version_text_def pre_part_def width_of_def side_number_def key_bytes_def)
  have fw: "versioned Lf_Fw (lu_fw example_link_up) = Inr (lu_fw example_link_up)" "link_text (lu_fw example_link_up)"
    "link_text (lu_hw example_link_up)" "text_ok [0x45, 0x53]" "text_ok [0x78]"
    by code_simp+
  have change: "net_change_valid example_change"
    using fw(4,5) by (simp add: net_change_valid_def example_change_def net_change_check_def two_letters_def COUNTRY_BYTES_def
        bounded_text_def MAX_LINK_TEXT_def origin_ok_def NET_ORIGIN_BYTES_def)
  have "session_ok (lh_session link_header_example)" "reports example_link_up (Stamp_Written 7 (NetOrigin [1, 2, 3, 4, 5, 6, 7, 8]))"
    "stamp_of example_change = Inr (Stamp_Written 7 (NetOrigin [1, 2, 3, 4, 5, 6, 7, 8]))"
    by (simp_all add: link_header_example_def reports_def example_link_up_def stamp_of_def example_change_def)
  then show ?thesis
    using network_push_settles [OF change, of Stamp_Unwritten link_header_example "replicate 128 0" example_link_up
        link_header_example "replicate 128 0" Nvs_Durable] fw small
    by (auto simp: usize_max_def)
qed

section \<open>The pairing window\<close>

definition MAX_PAIRING_WINDOW_MS :: u32 where "MAX_PAIRING_WINDOW_MS = 120000"

definition pairing_revision :: "u64 \<Rightarrow> link_error + u64" where
  "pairing_revision v = (if v = 0 then Inl Lk_ZeroPairingRevision else Inr v)"

lemma pairing_revisionD: "v \<noteq> 0 \<Longrightarrow> pairing_revision v = Inr v" "pairing_revision v = Inr w \<Longrightarrow> w \<noteq> 0"
  by (auto simp: pairing_revision_def split: if_splits)

record pairing_window_notice =
  pw_revision :: u64
  pw_remaining_ms :: u32

definition pairing_window_notice_new :: "u64 \<Rightarrow> u32 \<Rightarrow> link_error + pairing_window_notice" where
  "pairing_window_notice_new revision remaining_ms =
     (if MAX_PAIRING_WINDOW_MS < remaining_ms then Inl (Lk_PairingWindowTooLong remaining_ms)
      else Inr \<lparr>pw_revision = revision, pw_remaining_ms = remaining_ms\<rparr>)"

definition pairing_window_notice_pairs :: "pairing_window_notice \<Rightarrow> (writer, cbor_error, unit) act" where
  "pairing_window_notice_pairs x =
     andthen (wr_key 1) (\<lambda>_. andthen (wr_u64 (pw_revision x)) (\<lambda>_.
     andthen (wr_key 2) (\<lambda>_. wr_u64 (ucast (pw_remaining_ms x)))))"

definition pairing_window_notice_write :: "pairing_window_notice \<Rightarrow> link_header \<Rightarrow> bytes \<Rightarrow> (link_error + nat) \<times> bytes" where
  "pairing_window_notice_write x h dst =
     link_writing Lk_Cbor h 2 (map_err Lk_Cbor (pairing_window_notice_pairs x)) dst"

record pairing_window_notice_slots =
  pwq_revision :: "u64 option"
  pwq_remaining :: "u32 option"

definition pairing_window_notice_empty :: pairing_window_notice_slots where
  "pairing_window_notice_empty = \<lparr>pwq_revision = None, pwq_remaining = None\<rparr>"

definition pairing_window_notice_field :: "pairing_window_notice_slots \<Rightarrow> int \<Rightarrow> (reader, link_error, pairing_window_notice_slots) act" where
  "pairing_window_notice_field slots number =
     (if number = 1 then
     andthen (map_err Lk_Cbor rd_u64) (\<lambda>v. andthen (lift_sum (pairing_revision v)) (\<lambda>w.
     andthen (once (Lk_Duplicate Lf_PairingRevision) (pwq_revision slots) w) (\<lambda>t. ret (slots\<lparr>pwq_revision := t\<rparr>))))
      else if number = 2 then
     andthen (map_err Lk_Cbor rd_u32) (\<lambda>v.
     andthen (once (Lk_Duplicate Lf_RemainingMs) (pwq_remaining slots) v) (\<lambda>t. ret (slots\<lparr>pwq_remaining := t\<rparr>)))
      else skipped Lk_Cbor slots)"

definition pairing_window_notice_complete :: "pairing_window_notice_slots \<Rightarrow> (reader, link_error, pairing_window_notice) act" where
  "pairing_window_notice_complete slots =
     andthen (ok_or (Lk_Missing Lf_PairingRevision) (pwq_revision slots)) (\<lambda>revision.
     andthen (ok_or (Lk_Missing Lf_RemainingMs) (pwq_remaining slots)) (\<lambda>remaining.
     lift_sum (pairing_window_notice_new revision remaining)))"

definition pairing_window_notice_decode :: "link_envelope \<Rightarrow> link_error + pairing_window_notice" where
  "pairing_window_notice_decode = link_reading Lk_Cbor pairing_window_notice_field pairing_window_notice_empty pairing_window_notice_complete"

definition pairing_window_notice_fields :: "pairing_window_notice \<Rightarrow> (int \<times> item) list" where
  "pairing_window_notice_fields x =
     [(1, IUint (pw_revision x)), (2, IUint (ucast (pw_remaining_ms x)))]"

definition pairing_window_notice_valid :: "pairing_window_notice \<Rightarrow> bool" where
  "pairing_window_notice_valid x \<longleftrightarrow> (pw_revision x) \<noteq> 0 \<and> pw_remaining_ms x \<le> MAX_PAIRING_WINDOW_MS"

lemma pairing_window_notice_ok [simp]:
  "ascending None (pairing_window_notice_fields x)" "shallow room (pairing_window_notice_fields x)" "known 2 (pairing_window_notice_fields x)"
  "length (pairing_window_notice_fields x) = 2"
  by (auto simp: pairing_window_notice_fields_def good_key_def split: option.split)

lemma pairing_window_notice_writes:
  assumes "pairing_window_notice_valid x"
  shows "writes_pairs (pairing_window_notice_pairs x) (pairing_window_notice_fields x)"
  unfolding pairing_window_notice_pairs_def pairing_window_notice_fields_def
  by (intro writes_append writes_option item_rules)

lemma pairing_window_notice_field_simps:
  "pairing_window_notice_field s 1 = andthen (map_err Lk_Cbor rd_u64) (\<lambda>v. andthen (lift_sum (pairing_revision v)) (\<lambda>w.
     andthen (once (Lk_Duplicate Lf_PairingRevision) (pwq_revision s) w) (\<lambda>t. ret (s\<lparr>pwq_revision := t\<rparr>))))"
  "pairing_window_notice_field s 2 = andthen (map_err Lk_Cbor rd_u32) (\<lambda>v.
     andthen (once (Lk_Duplicate Lf_RemainingMs) (pwq_remaining s) v) (\<lambda>t. ret (s\<lparr>pwq_remaining := t\<rparr>)))"
  "2 < j \<Longrightarrow> pairing_window_notice_field s j = skipped Lk_Cbor s"
  by (simp_all add: pairing_window_notice_field_def)

lemma pairing_window_notice_reads:
  assumes "pairing_window_notice_valid x"
  shows "reads_pairs pairing_window_notice_field (pairing_window_notice_fields x) pairing_window_notice_empty
    \<lparr>pwq_revision = Some (pw_revision x), pwq_remaining = Some (pw_remaining_ms x)\<rparr>"
proof -
  have ok: "(pw_revision x) \<noteq> 0"
    using assms by (auto simp: pairing_window_notice_valid_def)
  show ?thesis
    by (rule reads_eq, unfold pairing_window_notice_fields_def)
      (rule reads_Nil | rule reads_Cons | rule reads_pairs_append, rule reads_optional | rule reads_optional | simp only: pairing_window_notice_field_simps
      | rule slot_rules | rule item_rules pairing_revisionD(1) ok | assumption | simp add: pairing_window_notice_empty_def; fail)+
qed

definition pairing_window_notice_kept :: "pairing_window_notice_slots \<Rightarrow> bool" where
  "pairing_window_notice_kept s \<longleftrightarrow> (\<forall>v. pwq_revision s = Some v \<longrightarrow> v \<noteq> 0)"

lemma pairing_window_notice_none: "pairing_window_notice_kept pairing_window_notice_empty"
  by (simp add: pairing_window_notice_kept_def pairing_window_notice_empty_def)

lemma pairing_window_notice_keeps:
  assumes "pairing_window_notice_kept a" and "pairing_window_notice_field a k s = (Inr a', s')"
  shows "pairing_window_notice_kept a'"
  using assms by (auto simp: pairing_window_notice_field_def pairing_window_notice_kept_def elim!: slot_InrE plain_slot_InrE map_err_InrE skipped_InrE dest: pairing_revisionD(2) split: if_splits)

interpretation pairing_window_notice: strict_link_codec pairing_window_notice_write pairing_window_notice_decode pairing_window_notice_fields pairing_window_notice_valid 2
proof
  fix x h and dst :: bytes
  assume x: "pairing_window_notice_valid x" "length (link_bytes h (pairing_window_notice_fields x)) \<le> length dst" "length dst \<le> usize_max"
  then show "pairing_window_notice_write x h dst = (Inr (length (link_bytes h (pairing_window_notice_fields x))), splice dst 0 (link_bytes h (pairing_window_notice_fields x)))"
    unfolding pairing_window_notice_write_def by (simp add: link_writes [OF pairing_window_notice_writes [OF x(1)]])
next
  fix x h fs
  assume x: "pairing_window_notice_valid x" "session_ok (lh_session h)" "extends 2 6 fs" "length (link_bytes h (pairing_window_notice_fields x @ fs)) \<le> usize_max"
  show "\<exists>e. link_envelope_decode (link_bytes h (pairing_window_notice_fields x @ fs)) = Inr e \<and>
    le_opcode e = link_message_type_num (lh_kind h) \<and> le_session e = lh_session h \<and> le_req_id e = lh_req_id h \<and>
    pairing_window_notice_decode e = Inr x"
    unfolding pairing_window_notice_decode_def
    by (rule link_reads [OF pairing_window_notice_reads [OF x(1)] _ _ _ x(3) _ x(2) x(4)])
      (insert x(1), auto intro!: runs_andthen simp: pairing_window_notice_complete_def pairing_window_notice_field_simps pairing_window_notice_valid_def pairing_window_notice_new_def)
next
  fix e x assume "pairing_window_notice_decode e = Inr x"
  then obtain slots s t where "pairing_window_notice_kept slots" "pairing_window_notice_complete slots s = (Inr x, t)"
    unfolding pairing_window_notice_decode_def by (rule link_reading_InrE [where P = pairing_window_notice_kept, OF _ pairing_window_notice_none]) (blast intro: pairing_window_notice_keeps)+
  then show "pairing_window_notice_valid x"
    by (auto simp: pairing_window_notice_complete_def pairing_window_notice_kept_def pairing_window_notice_valid_def pairing_window_notice_new_def split: if_splits elim!: decode_InrE)
qed

record pairing_window_ack =
  pk_revision :: u64

definition pairing_window_ack_pairs :: "pairing_window_ack \<Rightarrow> (writer, cbor_error, unit) act" where
  "pairing_window_ack_pairs x =
     andthen (wr_key 1) (\<lambda>_. wr_u64 (pk_revision x))"

definition pairing_window_ack_write :: "pairing_window_ack \<Rightarrow> link_header \<Rightarrow> bytes \<Rightarrow> (link_error + nat) \<times> bytes" where
  "pairing_window_ack_write x h dst =
     link_writing Lk_Cbor h 1 (map_err Lk_Cbor (pairing_window_ack_pairs x)) dst"

record pairing_window_ack_slots =
  pkq_revision :: "u64 option"

definition pairing_window_ack_empty :: pairing_window_ack_slots where
  "pairing_window_ack_empty = \<lparr>pkq_revision = None\<rparr>"

definition pairing_window_ack_field :: "pairing_window_ack_slots \<Rightarrow> int \<Rightarrow> (reader, link_error, pairing_window_ack_slots) act" where
  "pairing_window_ack_field slots number =
     (if number = 1 then
     andthen (map_err Lk_Cbor rd_u64) (\<lambda>v. andthen (lift_sum (pairing_revision v)) (\<lambda>w.
     andthen (once (Lk_Duplicate Lf_PairingRevision) (pkq_revision slots) w) (\<lambda>t. ret (slots\<lparr>pkq_revision := t\<rparr>))))
      else skipped Lk_Cbor slots)"

definition pairing_window_ack_complete :: "pairing_window_ack_slots \<Rightarrow> (reader, link_error, pairing_window_ack) act" where
  "pairing_window_ack_complete slots =
     andthen (ok_or (Lk_Missing Lf_PairingRevision) (pkq_revision slots)) (\<lambda>revision.
     ret \<lparr>pk_revision = revision\<rparr>)"

definition pairing_window_ack_decode :: "link_envelope \<Rightarrow> link_error + pairing_window_ack" where
  "pairing_window_ack_decode = link_reading Lk_Cbor pairing_window_ack_field pairing_window_ack_empty pairing_window_ack_complete"

definition pairing_window_ack_fields :: "pairing_window_ack \<Rightarrow> (int \<times> item) list" where
  "pairing_window_ack_fields x =
     [(1, IUint (pk_revision x))]"

definition pairing_window_ack_valid :: "pairing_window_ack \<Rightarrow> bool" where
  "pairing_window_ack_valid x \<longleftrightarrow> (pk_revision x) \<noteq> 0"

lemma pairing_window_ack_ok [simp]:
  "ascending None (pairing_window_ack_fields x)" "shallow room (pairing_window_ack_fields x)" "known 1 (pairing_window_ack_fields x)"
  "length (pairing_window_ack_fields x) = 1"
  by (auto simp: pairing_window_ack_fields_def good_key_def split: option.split)

lemma pairing_window_ack_writes:
  assumes "pairing_window_ack_valid x"
  shows "writes_pairs (pairing_window_ack_pairs x) (pairing_window_ack_fields x)"
  unfolding pairing_window_ack_pairs_def pairing_window_ack_fields_def
  by (intro writes_append writes_option item_rules)

lemma pairing_window_ack_field_simps:
  "pairing_window_ack_field s 1 = andthen (map_err Lk_Cbor rd_u64) (\<lambda>v. andthen (lift_sum (pairing_revision v)) (\<lambda>w.
     andthen (once (Lk_Duplicate Lf_PairingRevision) (pkq_revision s) w) (\<lambda>t. ret (s\<lparr>pkq_revision := t\<rparr>))))"
  "1 < j \<Longrightarrow> pairing_window_ack_field s j = skipped Lk_Cbor s"
  by (simp_all add: pairing_window_ack_field_def)

lemma pairing_window_ack_reads:
  assumes "pairing_window_ack_valid x"
  shows "reads_pairs pairing_window_ack_field (pairing_window_ack_fields x) pairing_window_ack_empty
    \<lparr>pkq_revision = Some (pk_revision x)\<rparr>"
proof -
  have ok: "(pk_revision x) \<noteq> 0"
    using assms by (auto simp: pairing_window_ack_valid_def)
  show ?thesis
    by (rule reads_eq, unfold pairing_window_ack_fields_def)
      (rule reads_Nil | rule reads_Cons | rule reads_pairs_append, rule reads_optional | rule reads_optional | simp only: pairing_window_ack_field_simps
      | rule slot_rules | rule item_rules pairing_revisionD(1) ok | assumption | simp add: pairing_window_ack_empty_def; fail)+
qed

definition pairing_window_ack_kept :: "pairing_window_ack_slots \<Rightarrow> bool" where
  "pairing_window_ack_kept s \<longleftrightarrow> (\<forall>v. pkq_revision s = Some v \<longrightarrow> v \<noteq> 0)"

lemma pairing_window_ack_none: "pairing_window_ack_kept pairing_window_ack_empty"
  by (simp add: pairing_window_ack_kept_def pairing_window_ack_empty_def)

lemma pairing_window_ack_keeps:
  assumes "pairing_window_ack_kept a" and "pairing_window_ack_field a k s = (Inr a', s')"
  shows "pairing_window_ack_kept a'"
  using assms by (auto simp: pairing_window_ack_field_def pairing_window_ack_kept_def elim!: slot_InrE plain_slot_InrE map_err_InrE skipped_InrE dest: pairing_revisionD(2) split: if_splits)

interpretation pairing_window_ack: strict_link_codec pairing_window_ack_write pairing_window_ack_decode pairing_window_ack_fields pairing_window_ack_valid 1
proof
  fix x h and dst :: bytes
  assume x: "pairing_window_ack_valid x" "length (link_bytes h (pairing_window_ack_fields x)) \<le> length dst" "length dst \<le> usize_max"
  then show "pairing_window_ack_write x h dst = (Inr (length (link_bytes h (pairing_window_ack_fields x))), splice dst 0 (link_bytes h (pairing_window_ack_fields x)))"
    unfolding pairing_window_ack_write_def by (simp add: link_writes [OF pairing_window_ack_writes [OF x(1)]])
next
  fix x h fs
  assume x: "pairing_window_ack_valid x" "session_ok (lh_session h)" "extends 1 6 fs" "length (link_bytes h (pairing_window_ack_fields x @ fs)) \<le> usize_max"
  show "\<exists>e. link_envelope_decode (link_bytes h (pairing_window_ack_fields x @ fs)) = Inr e \<and>
    le_opcode e = link_message_type_num (lh_kind h) \<and> le_session e = lh_session h \<and> le_req_id e = lh_req_id h \<and>
    pairing_window_ack_decode e = Inr x"
    unfolding pairing_window_ack_decode_def
    by (rule link_reads [OF pairing_window_ack_reads [OF x(1)] _ _ _ x(3) _ x(2) x(4)])
      (auto intro!: runs_andthen simp: pairing_window_ack_complete_def pairing_window_ack_field_simps)
next
  fix e x assume "pairing_window_ack_decode e = Inr x"
  then obtain slots s t where "pairing_window_ack_kept slots" "pairing_window_ack_complete slots s = (Inr x, t)"
    unfolding pairing_window_ack_decode_def by (rule link_reading_InrE [where P = pairing_window_ack_kept, OF _ pairing_window_ack_none]) (blast intro: pairing_window_ack_keeps)+
  then show "pairing_window_ack_valid x"
    by (auto simp: pairing_window_ack_complete_def pairing_window_ack_kept_def pairing_window_ack_valid_def elim!: decode_InrE)
qed

end
