(* ===== verification/Controller_Record.thy ===== *)
theory Controller_Record
  imports Codec_Rules
begin

text \<open>
  \<open>crates/km43/src/controller_record.rs\<close>: the clock, comms and log-integrity records. The kind of the
  event a record rides in selects the schema of its body.
\<close>

definition CONTROLLER_RECORD_MAX_BYTES :: nat where "CONTROLLER_RECORD_MAX_BYTES = 23"

datatype controller_record =
    TimeSet "u64 option" u64 time_source
  | RecordFailedCrc u32
  | CommsLinkLost
  | CommsPowerCycled u32
  | CommsUnrecoverable bool
  | SessionsShed u32
  | CommsBootNoise u32
  | CommsHeldDown held_down_reason

datatype controller_record_error =
    Cre_UnknownKind event_kind
  | Cre_MissingKey u8
  | Cre_DuplicateKey u8
  | Cre_UnknownSource u8
  | Cre_UnknownReason u8
  | Cre_ZeroCount
  | Cre_Cbor cbor_error

definition controller_record_refusal :: "controller_record_error \<Rightarrow> refusal" where
  "controller_record_refusal why = RefuseClient Ec_MalformedFrame"

primrec record_kind :: "controller_record \<Rightarrow> event_kind" where
  "record_kind (TimeSet old new source) = TIME_SET"
| "record_kind (RecordFailedCrc count) = RECORD_FAILED_CRC"
| "record_kind CommsLinkLost = COMMS_LINK_LOST"
| "record_kind (CommsPowerCycled count) = COMMS_POWER_CYCLED"
| "record_kind (CommsUnrecoverable rail_on) = COMMS_UNRECOVERABLE"
| "record_kind (SessionsShed count) = SESSIONS_SHED_FOR_BACKPRESSURE"
| "record_kind (CommsBootNoise count) = COMMS_BOOT_NOISE"
| "record_kind (CommsHeldDown reason) = COMMS_HELD_DOWN"

section \<open>Writing\<close>

primrec record_pairs :: "controller_record \<Rightarrow> nat \<times> (writer, cbor_error, unit) act" where
  "record_pairs (TimeSet old new source) =
     (if old \<noteq> None then 3 else 2,
      andthen (case old of Some v \<Rightarrow> andthen (wr_key 1) (\<lambda>_. wr_u64 v) | None \<Rightarrow> ret ()) (\<lambda>_.
      andthen (wr_key 2) (\<lambda>_. andthen (wr_u64 new) (\<lambda>_.
      andthen (wr_key 3) (\<lambda>_. wr_u64 (ucast (time_source_num source)))))))"
| "record_pairs CommsLinkLost = (0, ret ())"
| "record_pairs (RecordFailedCrc count) = (1, andthen (wr_key 1) (\<lambda>_. wr_u64 (ucast count)))"
| "record_pairs (CommsPowerCycled count) = (1, andthen (wr_key 1) (\<lambda>_. wr_u64 (ucast count)))"
| "record_pairs (SessionsShed count) = (1, andthen (wr_key 1) (\<lambda>_. wr_u64 (ucast count)))"
| "record_pairs (CommsUnrecoverable rail_on) = (1, andthen (wr_key 1) (\<lambda>_. wr_bool rail_on))"
| "record_pairs (CommsBootNoise count) = (1, andthen (wr_key 1) (\<lambda>_. wr_u64 (ucast count)))"
| "record_pairs (CommsHeldDown reason) = (1, andthen (wr_key 1) (\<lambda>_. wr_u64 (ucast (held_down_reason_num reason))))"

definition record_encode :: "controller_record \<Rightarrow> bytes \<Rightarrow> (controller_record_error + nat) \<times> bytes" where
  "record_encode x = encoding Cre_Cbor (map_err Cre_Cbor (andthen (wr_map (fst (record_pairs x))) (\<lambda>_. snd (record_pairs x))))"

section \<open>Reading\<close>

record record_slots =
  rs_old :: "u64 option"
  rs_new :: "u64 option"
  rs_source :: "time_source option"
  rs_count :: "u32 option"
  rs_rail_on :: "bool option"
  rs_reason :: "held_down_reason option"

definition record_empty :: record_slots where
  "record_empty = \<lparr>rs_old = None, rs_new = None, rs_source = None, rs_count = None, rs_rail_on = None, rs_reason = None\<rparr>"

definition counts :: "event_kind \<Rightarrow> bool" where
  "counts k \<longleftrightarrow> k = RECORD_FAILED_CRC \<or> k = COMMS_POWER_CYCLED \<or> k = SESSIONS_SHED_FOR_BACKPRESSURE \<or> k = COMMS_BOOT_NOISE"

definition record_field :: "event_kind \<Rightarrow> record_slots \<Rightarrow> int \<Rightarrow> (reader, controller_record_error, record_slots) act" where
  "record_field k slots number =
     (if k = TIME_SET \<and> number = 1 then
        andthen (map_err Cre_Cbor rd_u64) (\<lambda>v.
        andthen (once (Cre_DuplicateKey 1) (rs_old slots) v) (\<lambda>t. ret (slots\<lparr>rs_old := t\<rparr>)))
      else if k = TIME_SET \<and> number = 2 then
        andthen (map_err Cre_Cbor rd_u64) (\<lambda>v.
        andthen (once (Cre_DuplicateKey 2) (rs_new slots) v) (\<lambda>t. ret (slots\<lparr>rs_new := t\<rparr>)))
      else if k = TIME_SET \<and> number = 3 then
        andthen (map_err Cre_Cbor rd_u8) (\<lambda>v. andthen (lift_sum (allocated time_source_of Cre_UnknownSource v)) (\<lambda>w.
        andthen (once (Cre_DuplicateKey 3) (rs_source slots) w) (\<lambda>t. ret (slots\<lparr>rs_source := t\<rparr>))))
      else if k = COMMS_UNRECOVERABLE \<and> number = 1 then
        andthen (map_err Cre_Cbor rd_bool) (\<lambda>v.
        andthen (once (Cre_DuplicateKey 1) (rs_rail_on slots) v) (\<lambda>t. ret (slots\<lparr>rs_rail_on := t\<rparr>)))
      else if k = COMMS_HELD_DOWN \<and> number = 1 then
        andthen (map_err Cre_Cbor rd_u8) (\<lambda>v. andthen (lift_sum (allocated held_down_reason_of Cre_UnknownReason v)) (\<lambda>w.
        andthen (once (Cre_DuplicateKey 1) (rs_reason slots) w) (\<lambda>t. ret (slots\<lparr>rs_reason := t\<rparr>))))
      else if counts k \<and> number = 1 then
        andthen (map_err Cre_Cbor rd_u32) (\<lambda>v.
        andthen (once (Cre_DuplicateKey 1) (rs_count slots) v) (\<lambda>t. ret (slots\<lparr>rs_count := t\<rparr>)))
      else skipped Cre_Cbor slots)"

definition nonzero_count :: "u32 option \<Rightarrow> (reader, controller_record_error, u32) act" where
  "nonzero_count count =
     andthen (ok_or (Cre_MissingKey 1) count) (\<lambda>v. if v = 0 then fail Cre_ZeroCount else ret v)"

definition record_complete :: "event_kind \<Rightarrow> record_slots \<Rightarrow> (reader, controller_record_error, controller_record) act" where
  "record_complete k slots =
     (if k = TIME_SET then
        andthen (ok_or (Cre_MissingKey 2) (rs_new slots)) (\<lambda>new.
        andthen (ok_or (Cre_MissingKey 3) (rs_source slots)) (\<lambda>source. ret (TimeSet (rs_old slots) new source)))
      else if k = COMMS_LINK_LOST then ret CommsLinkLost
      else if k = COMMS_UNRECOVERABLE then
        andthen (ok_or (Cre_MissingKey 1) (rs_rail_on slots)) (\<lambda>rail_on. ret (CommsUnrecoverable rail_on))
      else if k = RECORD_FAILED_CRC then andthen (nonzero_count (rs_count slots)) (\<lambda>count. ret (RecordFailedCrc count))
      else if k = COMMS_POWER_CYCLED then andthen (nonzero_count (rs_count slots)) (\<lambda>count. ret (CommsPowerCycled count))
      else if k = SESSIONS_SHED_FOR_BACKPRESSURE then andthen (nonzero_count (rs_count slots)) (\<lambda>count. ret (SessionsShed count))
      else if k = COMMS_BOOT_NOISE then
        andthen (ok_or (Cre_MissingKey 1) (rs_count slots)) (\<lambda>count. ret (CommsBootNoise count))
      else if k = COMMS_HELD_DOWN then
        andthen (ok_or (Cre_MissingKey 1) (rs_reason slots)) (\<lambda>reason. ret (CommsHeldDown reason))
      else fail (Cre_UnknownKind k))"

definition record_decode :: "event_kind \<Rightarrow> bytes \<Rightarrow> controller_record_error + controller_record" where
  "record_decode k = decoding (
     andthen (map_fields Cre_Cbor (record_field k) record_empty) (\<lambda>slots.
     andthen (finishing Cre_Cbor) (\<lambda>_. record_complete k slots)))"

section \<open>The codec\<close>

primrec record_fields :: "controller_record \<Rightarrow> (int \<times> item) list" where
  "record_fields (TimeSet old new source) =
     (case old of Some v \<Rightarrow> [(1, IUint v)] | None \<Rightarrow> []) @ [(2, IUint new), (3, IUint (ucast (time_source_num source)))]"
| "record_fields CommsLinkLost = []"
| "record_fields (RecordFailedCrc count) = [(1, IUint (ucast count))]"
| "record_fields (CommsPowerCycled count) = [(1, IUint (ucast count))]"
| "record_fields (SessionsShed count) = [(1, IUint (ucast count))]"
| "record_fields (CommsUnrecoverable rail_on) = [(1, IBool rail_on)]"
| "record_fields (CommsBootNoise count) = [(1, IUint (ucast count))]"
| "record_fields (CommsHeldDown reason) = [(1, IUint (ucast (held_down_reason_num reason)))]"

text \<open>A \<open>NonZeroU32\<close> is not zero.\<close>

primrec record_valid :: "controller_record \<Rightarrow> bool" where
  "record_valid (TimeSet old new source) \<longleftrightarrow> True"
| "record_valid CommsLinkLost \<longleftrightarrow> True"
| "record_valid (RecordFailedCrc count) \<longleftrightarrow> count \<noteq> 0"
| "record_valid (CommsPowerCycled count) \<longleftrightarrow> count \<noteq> 0"
| "record_valid (SessionsShed count) \<longleftrightarrow> count \<noteq> 0"
| "record_valid (CommsUnrecoverable rail_on) \<longleftrightarrow> True"
| "record_valid (CommsBootNoise count) \<longleftrightarrow> True"
| "record_valid (CommsHeldDown reason) \<longleftrightarrow> True"

lemma record_ok [simp]:
  "ascending None (record_fields x)" "shallow room (record_fields x)" "known 3 (record_fields x)"
  "length (record_fields x) = fst (record_pairs x)"
  by ((cases x; auto simp: good_key_def split: option.split)+)

lemma record_writes: "writes_pairs (snd (record_pairs x)) (record_fields x)"
  by (cases x; simp del: enc_item.simps) (intro writes_append writes_option writes_none item_rules)+

lemma record_numbers [simp]:
  "allocated time_source_of f (time_source_num a) = Inr a" "allocated held_down_reason_of g (held_down_reason_num b) = Inr b"
  unfolding allocated_def time_source.of_num_of held_down_reason.of_num_of by simp_all

lemmas record_kinds = TIME_SET_def RECORD_FAILED_CRC_def COMMS_LINK_LOST_def COMMS_POWER_CYCLED_def COMMS_UNRECOVERABLE_def
  SESSIONS_SHED_FOR_BACKPRESSURE_def COMMS_BOOT_NOISE_def COMMS_HELD_DOWN_def

lemma record_field_simps:
  "record_field TIME_SET s 1 = andthen (map_err Cre_Cbor rd_u64) (\<lambda>v.
     andthen (once (Cre_DuplicateKey 1) (rs_old s) v) (\<lambda>t. ret (s\<lparr>rs_old := t\<rparr>)))"
  "record_field TIME_SET s 2 = andthen (map_err Cre_Cbor rd_u64) (\<lambda>v.
     andthen (once (Cre_DuplicateKey 2) (rs_new s) v) (\<lambda>t. ret (s\<lparr>rs_new := t\<rparr>)))"
  "record_field TIME_SET s 3 = andthen (map_err Cre_Cbor rd_u8) (\<lambda>v.
     andthen (lift_sum (allocated time_source_of Cre_UnknownSource v)) (\<lambda>w.
     andthen (once (Cre_DuplicateKey 3) (rs_source s) w) (\<lambda>t. ret (s\<lparr>rs_source := t\<rparr>))))"
  "record_field COMMS_UNRECOVERABLE s 1 = andthen (map_err Cre_Cbor rd_bool) (\<lambda>v.
     andthen (once (Cre_DuplicateKey 1) (rs_rail_on s) v) (\<lambda>t. ret (s\<lparr>rs_rail_on := t\<rparr>)))"
  "record_field COMMS_HELD_DOWN s 1 = andthen (map_err Cre_Cbor rd_u8) (\<lambda>v.
     andthen (lift_sum (allocated held_down_reason_of Cre_UnknownReason v)) (\<lambda>w.
     andthen (once (Cre_DuplicateKey 1) (rs_reason s) w) (\<lambda>t. ret (s\<lparr>rs_reason := t\<rparr>))))"
  "counts k \<Longrightarrow> record_field k s 1 = andthen (map_err Cre_Cbor rd_u32) (\<lambda>v.
     andthen (once (Cre_DuplicateKey 1) (rs_count s) v) (\<lambda>t. ret (s\<lparr>rs_count := t\<rparr>)))"
  "3 < j \<Longrightarrow> record_field k s j = skipped Cre_Cbor s"
  "counts RECORD_FAILED_CRC" "counts COMMS_POWER_CYCLED" "counts SESSIONS_SHED_FOR_BACKPRESSURE" "counts COMMS_BOOT_NOISE"
  by (auto simp: record_field_def counts_def record_kinds)

text \<open>The slots a record's own body fills.\<close>

primrec record_filled :: "controller_record \<Rightarrow> record_slots" where
  "record_filled (TimeSet old new source) = record_empty\<lparr>rs_old := old, rs_new := Some new, rs_source := Some source\<rparr>"
| "record_filled CommsLinkLost = record_empty"
| "record_filled (RecordFailedCrc count) = record_empty\<lparr>rs_count := Some count\<rparr>"
| "record_filled (CommsPowerCycled count) = record_empty\<lparr>rs_count := Some count\<rparr>"
| "record_filled (SessionsShed count) = record_empty\<lparr>rs_count := Some count\<rparr>"
| "record_filled (CommsUnrecoverable rail_on) = record_empty\<lparr>rs_rail_on := Some rail_on\<rparr>"
| "record_filled (CommsBootNoise count) = record_empty\<lparr>rs_count := Some count\<rparr>"
| "record_filled (CommsHeldDown reason) = record_empty\<lparr>rs_reason := Some reason\<rparr>"

lemma record_reads: "reads_pairs (record_field (record_kind x)) (record_fields x) record_empty (record_filled x)"
  by (cases x; simp only: record_fields.simps record_kind.simps record_filled.simps; rule reads_eq)
    (rule reads_Nil | rule reads_Cons | rule reads_pairs_append, rule reads_optional | simp only: record_field_simps
      | rule slot_rules | rule item_rules record_numbers | simp add: record_empty_def; fail)+

lemma record_completes:
  assumes "record_valid x"
  shows "runs (record_complete (record_kind x) (record_filled x)) r (\<lambda>y _. y = x)"
  using assms by (cases x) (simp_all add: record_complete_def record_kinds record_empty_def nonzero_count_def)

lemma record_complete_valid: "record_complete k slots s = (Inr x, t) \<Longrightarrow> record_valid x \<and> record_kind x = k"
  unfolding record_complete_def nonzero_count_def
  by (auto split: if_splits elim!: andthen_InrE ok_or_InrE ret_InrE)

interpretation controller_record: faithful_codec record_encode "record_decode k" record_fields
  "\<lambda>x. record_valid x \<and> record_kind x = k" 3 for k
proof
  fix x and dst :: bytes
  assume "record_valid x \<and> record_kind x = k" and "length (map_bytes (record_fields x)) \<le> length dst" "length dst \<le> usize_max"
  then show "record_encode x dst = (Inr (length (map_bytes (record_fields x))), splice dst 0 (map_bytes (record_fields x)))"
    unfolding record_encode_def by (simp add: encodes_fields [OF record_writes])
next
  fix x fs
  assume x: "record_valid x \<and> record_kind x = k" "extends 3 INNER fs" "length (map_bytes (record_fields x @ fs)) \<le> usize_max"
  show "record_decode k (map_bytes (record_fields x @ fs)) = Inr x"
    unfolding record_decode_def x(1) [THEN conjunct2, symmetric]
    by (rule decodes_fields [OF record_reads _ _ _ x(2) _ x(3)])
      (auto intro!: runs_andthen runs_finishing record_completes simp: record_field_simps x(1) [THEN conjunct1])
next
  fix bs x assume "record_decode k bs = Inr x"
  then obtain slots s t where "record_complete k slots s = (Inr x, t)"
    unfolding record_decode_def by (rule body_InrE [where P = "\<lambda>_. True"]) blast+
  then show "record_valid x \<and> record_kind x = k"
    by (rule record_complete_valid)
qed

lemma record_size: "length (map_bytes (record_fields x)) \<le> CONTROLLER_RECORD_MAX_BYTES"
proof (cases x)
  case (TimeSet old new source)
  have "width_of (ucast (time_source_num source)) = Inline"
    by (cases source) (simp_all add: width_of_def)
  then show ?thesis
    using width_bytes_le [of "width_of new"] width_bytes_le [of "width_of (the old)"] TimeSet
    by (cases old) (simp_all add: map_bytes_eq CONTROLLER_RECORD_MAX_BYTES_def)
next
  case (CommsHeldDown reason)
  have "width_of (ucast (held_down_reason_num reason)) = Inline"
    by (cases reason) (simp_all add: width_of_def)
  then show ?thesis
    using CommsHeldDown by (simp add: map_bytes_eq CONTROLLER_RECORD_MAX_BYTES_def)
next
  case (RecordFailedCrc count)
  then show ?thesis
    using width_narrow(3) [of count] by (simp add: map_bytes_eq CONTROLLER_RECORD_MAX_BYTES_def)
next
  case (CommsPowerCycled count)
  then show ?thesis
    using width_narrow(3) [of count] by (simp add: map_bytes_eq CONTROLLER_RECORD_MAX_BYTES_def)
next
  case (SessionsShed count)
  then show ?thesis
    using width_narrow(3) [of count] by (simp add: map_bytes_eq CONTROLLER_RECORD_MAX_BYTES_def)
next
  case (CommsBootNoise count)
  then show ?thesis
    using width_narrow(3) [of count] by (simp add: map_bytes_eq CONTROLLER_RECORD_MAX_BYTES_def)
qed (simp_all add: map_bytes_eq CONTROLLER_RECORD_MAX_BYTES_def)

text \<open>A controller record is written in at most its documented size and read back by the kind it was
  written under; no other kind gives it back, whatever the bytes, and what any bytes give is a record
  that would be written.\<close>

theorem controller_record_by_its_kind:
  assumes "record_valid x" and "CONTROLLER_RECORD_MAX_BYTES \<le> length dst" and "length dst \<le> usize_max"
  shows "(\<exists>n out. record_encode x dst = (Inr n, out) \<and> n \<le> CONTROLLER_RECORD_MAX_BYTES \<and>
      record_decode (record_kind x) (take n out) = Inr x) \<and>
    (record_decode k bs = Inr y \<longrightarrow> k = record_kind y \<and> record_valid y)"
  using controller_record.fits [of x "record_kind x", OF _ record_size assms(2,3)] assms(1)
    controller_record.decode_valid [of k bs y] by auto

end
