(* ===== verification/Wifi_Scan.thy ===== *)
theory Wifi_Scan
  imports Link_Local Row_Rules
begin

text \<open>
  \<open>crates/km43/src/wifi.rs\<close>, what the radio can hear: access points, the list of them built by one
  end or held as the bytes it arrived in, the answer a client is given and the result that crosses
  the link. One list serves both hops, so a list relayed is the list that was built.
\<close>

definition MAX_SSID :: nat where "MAX_SSID = 32"
definition MAX_CHANNEL :: u8 where "MAX_CHANNEL = 233"

definition closed :: "('n \<Rightarrow> 'a option) \<Rightarrow> ('n \<Rightarrow> wifi_error) \<Rightarrow> 'n \<Rightarrow> wifi_error + 'a" where
  "closed = allocated"

definition scan_number :: "u32 \<Rightarrow> wifi_error + u32" where
  "scan_number raw = (if raw = 0 then Inl We_ZeroScan else Inr raw)"

section \<open>Access points\<close>

text \<open>An \<open>rssi\<close> is an \<open>i8\<close>.\<close>

record access_point =
  ap_ssid :: bytes
  ap_rssi :: int
  ap_security :: wifi_security
  ap_band :: wifi_band
  ap_channel :: u8

definition ap_check :: "access_point \<Rightarrow> wifi_error + unit" where
  "ap_check x =
     (if ap_ssid x = [] \<or> MAX_SSID < length (ap_ssid x) then Inl (We_SsidLength (length (ap_ssid x)))
      else if ap_channel x = 0 \<or> MAX_CHANNEL < ap_channel x then Inl (We_ChannelOutOfRange (ap_channel x))
      else Inr ())"

definition fits_i8 :: "int \<Rightarrow> bool" where
  "fits_i8 v \<longleftrightarrow> - 128 \<le> v \<and> v \<le> 127"

definition rssi_of :: "int \<Rightarrow> wifi_error + int" where
  "rssi_of dbm = (if fits_i8 dbm then Inr dbm else Inl (We_RssiOutOfRange dbm))"

definition access_point_pairs :: "access_point \<Rightarrow> (writer, cbor_error, unit) act" where
  "access_point_pairs x =
     andthen (wr_key 1) (\<lambda>_. andthen (wr_text (ap_ssid x)) (\<lambda>_.
     andthen (wr_key 2) (\<lambda>_. andthen (wr_i32 (ap_rssi x)) (\<lambda>_.
     andthen (wr_key 3) (\<lambda>_. andthen (wr_u64 (ucast (wifi_security_num (ap_security x)))) (\<lambda>_.
     andthen (wr_key 4) (\<lambda>_. andthen (wr_u64 (ucast (wifi_band_num (ap_band x)))) (\<lambda>_.
     andthen (wr_key 5) (\<lambda>_. wr_u64 (ucast (ap_channel x)))))))))))"

record access_point_slots =
  apq_ssid :: "bytes option"
  apq_rssi :: "int option"
  apq_security :: "wifi_security option"
  apq_band :: "wifi_band option"
  apq_channel :: "u8 option"

definition access_point_empty :: access_point_slots where
  "access_point_empty = \<lparr>apq_ssid = None, apq_rssi = None, apq_security = None, apq_band = None, apq_channel = None\<rparr>"

definition access_point_field :: "access_point_slots \<Rightarrow> int \<Rightarrow> (reader, wifi_error, access_point_slots) act" where
  "access_point_field slots number =
     (if number = 1 then
     andthen (map_err We_Cbor rd_text) (\<lambda>v.
     andthen (once (We_Duplicate Wf_Ssid) (apq_ssid slots) v) (\<lambda>t. ret (slots\<lparr>apq_ssid := t\<rparr>)))
      else if number = 2 then
     andthen (map_err We_Cbor rd_i32) (\<lambda>v. andthen (lift_sum (rssi_of v)) (\<lambda>w.
     andthen (once (We_Duplicate Wf_Rssi) (apq_rssi slots) w) (\<lambda>t. ret (slots\<lparr>apq_rssi := t\<rparr>))))
      else if number = 3 then
     andthen (map_err We_Cbor rd_u8) (\<lambda>v. andthen (lift_sum (closed wifi_security_of (We_Unallocated Wf_Security) v)) (\<lambda>w.
     andthen (once (We_Duplicate Wf_Security) (apq_security slots) w) (\<lambda>t. ret (slots\<lparr>apq_security := t\<rparr>))))
      else if number = 4 then
     andthen (map_err We_Cbor rd_u8) (\<lambda>v. andthen (lift_sum (closed wifi_band_of (We_Unallocated Wf_Band) v)) (\<lambda>w.
     andthen (once (We_Duplicate Wf_Band) (apq_band slots) w) (\<lambda>t. ret (slots\<lparr>apq_band := t\<rparr>))))
      else if number = 5 then
     andthen (map_err We_Cbor rd_u8) (\<lambda>v.
     andthen (once (We_Duplicate Wf_Channel) (apq_channel slots) v) (\<lambda>t. ret (slots\<lparr>apq_channel := t\<rparr>)))
      else skipped We_Cbor slots)"

definition access_point_complete :: "access_point_slots \<Rightarrow> (reader, wifi_error, access_point) act" where
  "access_point_complete slots =
     andthen (ok_or (We_Missing Wf_Ssid) (apq_ssid slots)) (\<lambda>ssid.
     andthen (ok_or (We_Missing Wf_Rssi) (apq_rssi slots)) (\<lambda>rssi.
     andthen (ok_or (We_Missing Wf_Security) (apq_security slots)) (\<lambda>security.
     andthen (ok_or (We_Missing Wf_Band) (apq_band slots)) (\<lambda>band.
     andthen (ok_or (We_Missing Wf_Channel) (apq_channel slots)) (\<lambda>channel.
     andthen (ret \<lparr>ap_ssid = ssid, ap_rssi = rssi, ap_security = security, ap_band = band, ap_channel = channel\<rparr>) (\<lambda>x.
     andthen (lift_sum (ap_check x)) (\<lambda>_. ret x)))))))"

definition ap_encode_into :: "access_point \<Rightarrow> (writer, wifi_error, unit) act" where
  "ap_encode_into x =
     andthen (lift_sum (ap_check x)) (\<lambda>_. map_err We_Cbor (andthen (wr_map 5) (\<lambda>_. access_point_pairs x)))"

definition ap_decode_from :: "(reader, wifi_error, access_point) act" where
  "ap_decode_from = andthen (map_fields We_Cbor access_point_field access_point_empty) access_point_complete"

section \<open>Lists\<close>

datatype ap_rows = ApBuilt "access_point list" | ApRead bytes nat

record scan_list =
  sl_rows :: ap_rows
  sl_unlisted :: u16

definition scan_len :: "scan_list \<Rightarrow> nat" where
  "scan_len l = (case sl_rows l of ApBuilt rs \<Rightarrow> length rs | ApRead array n \<Rightarrow> n)"

definition scan_iter :: "scan_list \<Rightarrow> (wifi_error + access_point) list" where
  "scan_iter l =
     (case sl_rows l of
        ApBuilt rs \<Rightarrow> map Inr rs
      | ApRead array n \<Rightarrow>
          if n = 0 then []
          else case rd_array (reader_over array) of
            (Inl why, _) \<Rightarrow> [Inl (We_Cbor why)]
          | (Inr _, r) \<Rightarrow> rows_next ap_decode_from n r)"

text \<open>The walk of \<open>check\<close>: the weakest signal so far and the SSIDs seen, in a table of \<open>MAX_SCAN_APS\<close>.\<close>

fun scan_walk :: "int \<Rightarrow> bytes list \<Rightarrow> (wifi_error + access_point) list \<Rightarrow> wifi_error + unit" where
  "scan_walk weaker_than seen [] = Inr ()"
| "scan_walk weaker_than seen (Inl why # rest) = Inl why"
| "scan_walk weaker_than seen (Inr row # rest) =
     (case ap_check row of
        Inl why \<Rightarrow> Inl why
      | Inr _ \<Rightarrow>
          if weaker_than < ap_rssi row then Inl We_OutOfOrder
          else if MAX_SCAN_APS < length seen then Inl (We_TooManyAccessPoints (length seen))
          else if ap_ssid row \<in> set seen then Inl We_SsidRepeated
          else if MAX_SCAN_APS \<le> length seen then Inl (We_TooManyAccessPoints (length seen))
          else scan_walk (ap_rssi row) (seen @ [ap_ssid row]) rest)"

definition scan_check :: "scan_list \<Rightarrow> wifi_error + unit" where
  "scan_check l =
     (if MAX_SCAN_APS < scan_len l then Inl (We_TooManyAccessPoints (scan_len l)) else scan_walk 127 [] (scan_iter l))"

definition scan_list_new :: "access_point list \<Rightarrow> u16 \<Rightarrow> wifi_error + scan_list" where
  "scan_list_new rs unlisted =
     (let l = \<lparr>sl_rows = ApBuilt rs, sl_unlisted = unlisted\<rparr>
      in case scan_check l of Inl why \<Rightarrow> Inl why | Inr _ \<Rightarrow> Inr l)"

definition scan_encode_rows :: "scan_list \<Rightarrow> (writer, wifi_error, unit) act" where
  "scan_encode_rows l =
     (case sl_rows l of
        ApBuilt rs \<Rightarrow> andthen (map_err We_Cbor (wr_array (length rs))) (\<lambda>_. for_each ap_encode_into rs)
      | ApRead array n \<Rightarrow> map_err We_Cbor (wr_raw array))"

definition scan_list_read :: "bytes \<Rightarrow> u16 \<Rightarrow> wifi_error + scan_list" where
  "scan_list_read array unlisted =
     (case fst (rd_array (reader_over array)) of
        Inl why \<Rightarrow> Inl (We_Cbor why)
      | Inr n \<Rightarrow>
          if MAX_SCAN_APS < n then Inl (We_TooManyAccessPoints n)
          else let l = \<lparr>sl_rows = ApRead array n, sl_unlisted = unlisted\<rparr>
               in case scan_check l of Inl why \<Rightarrow> Inl why | Inr _ \<Rightarrow> Inr l)"

definition scan_same :: "scan_list \<Rightarrow> scan_list \<Rightarrow> bool" where
  "scan_same a b \<longleftrightarrow> sl_unlisted a = sl_unlisted b \<and> scan_len a = scan_len b \<and>
     list_all (\<lambda>(x, y). x = y) (zip (scan_iter a) (scan_iter b))"

text \<open>\<open>held\<close>: a list with its age and its count, or neither.\<close>

record held_list =
  hl_age_ms :: u32
  hl_list :: scan_list

definition held_of :: "u32 option \<Rightarrow> bytes option \<Rightarrow> u16 option \<Rightarrow> wifi_error + held_list option" where
  "held_of age rows unlisted =
     (case (age, rows, unlisted) of
        (None, None, None) \<Rightarrow> Inr None
      | (Some age, Some rows, Some unlisted) \<Rightarrow>
          (case scan_list_read rows unlisted of Inl why \<Rightarrow> Inl why | Inr l \<Rightarrow> Inr (Some \<lparr>hl_age_ms = age, hl_list = l\<rparr>))
      | _ \<Rightarrow> Inl We_ListIncomplete)"

section \<open>The request\<close>

record scan_request =
  sr_refresh :: bool

definition scan_request_pairs :: "scan_request \<Rightarrow> (writer, cbor_error, unit) act" where
  "scan_request_pairs x =
     andthen (wr_key 1) (\<lambda>_. wr_bool (sr_refresh x))"

definition scan_request_encode :: "scan_request \<Rightarrow> bytes \<Rightarrow> (wifi_error + nat) \<times> bytes" where
  "scan_request_encode x =
     encoding We_Cbor (map_err We_Cbor (andthen (wr_map 1) (\<lambda>_. scan_request_pairs x)))"

record scan_request_slots =
  srq_refresh :: "bool option"

definition scan_request_empty :: scan_request_slots where
  "scan_request_empty = \<lparr>srq_refresh = None\<rparr>"

definition scan_request_field :: "scan_request_slots \<Rightarrow> int \<Rightarrow> (reader, wifi_error, scan_request_slots) act" where
  "scan_request_field slots number =
     (if number = 1 then
     andthen (map_err We_Cbor rd_bool) (\<lambda>v.
     andthen (once (We_Duplicate Wf_Refresh) (srq_refresh slots) v) (\<lambda>t. ret (slots\<lparr>srq_refresh := t\<rparr>)))
      else skipped We_Cbor slots)"

definition scan_request_complete :: "scan_request_slots \<Rightarrow> (reader, wifi_error, scan_request) act" where
  "scan_request_complete slots =
     andthen (ok_or (We_Missing Wf_Refresh) (srq_refresh slots)) (\<lambda>refresh.
     ret \<lparr>sr_refresh = refresh\<rparr>)"

definition scan_request_decode :: "bytes \<Rightarrow> wifi_error + scan_request" where
  "scan_request_decode = decoding (
     andthen (map_fields We_Cbor scan_request_field scan_request_empty) (\<lambda>slots.
     andthen (finishing We_Cbor) (\<lambda>_. scan_request_complete slots)))"

section \<open>The answer\<close>

record scan_answer =
  sa_scan :: scan_state
  sa_refused :: "scan_refusal option"
  sa_held :: "held_list option"

definition scan_answer_new :: "scan_state \<Rightarrow> scan_refusal option \<Rightarrow> held_list option \<Rightarrow> wifi_error + scan_answer" where
  "scan_answer_new scan refused held =
     (if scan = ScanState_Running \<and> refused \<noteq> None then Inl We_RefusedWhileRunning
      else if scan = ScanState_Complete \<and> held = None \<or> scan = ScanState_None \<and> held \<noteq> None then Inl We_ScanStateDisagrees
      else Inr \<lparr>sa_scan = scan, sa_refused = refused, sa_held = held\<rparr>)"

definition scan_answer_keys :: "scan_answer \<Rightarrow> nat" where
  "scan_answer_keys x = 1 + (if sa_refused x \<noteq> None then 1 else 0) + 3 * (if sa_held x \<noteq> None then 1 else 0)"

definition scan_answer_pairs :: "scan_answer \<Rightarrow> (writer, wifi_error, unit) act" where
  "scan_answer_pairs x =
     andthen (map_err We_Cbor (wr_key 1)) (\<lambda>_. andthen (map_err We_Cbor (wr_u64 (ucast (scan_state_num (sa_scan x))))) (\<lambda>_.
     andthen (case sa_refused x of Some v \<Rightarrow> andthen (map_err We_Cbor (wr_key 2)) (\<lambda>_. map_err We_Cbor (wr_u64 (ucast (scan_refusal_num v))))
       | None \<Rightarrow> ret ()) (\<lambda>_.
     case sa_held x of Some h \<Rightarrow>
       andthen (map_err We_Cbor (wr_key 3)) (\<lambda>_. andthen (map_err We_Cbor (wr_u64 (ucast (hl_age_ms h)))) (\<lambda>_.
       andthen (map_err We_Cbor (wr_key 4)) (\<lambda>_. andthen (scan_encode_rows (hl_list h)) (\<lambda>_.
       andthen (map_err We_Cbor (wr_key 5)) (\<lambda>_. map_err We_Cbor (wr_u64 (ucast (sl_unlisted (hl_list h)))))))))
     | None \<Rightarrow> ret ())))"

definition scan_answer_encode :: "scan_answer \<Rightarrow> bytes \<Rightarrow> (wifi_error + nat) \<times> bytes" where
  "scan_answer_encode x = encoding We_Cbor (andthen (map_err We_Cbor (wr_map (scan_answer_keys x))) (\<lambda>_. scan_answer_pairs x))"

record scan_answer_slots =
  saq_scan :: "scan_state option"
  saq_refused :: "scan_refusal option"
  saq_age :: "u32 option"
  saq_rows :: "bytes option"
  saq_unlisted :: "u16 option"

definition scan_answer_empty :: scan_answer_slots where
  "scan_answer_empty = \<lparr>saq_scan = None, saq_refused = None, saq_age = None, saq_rows = None, saq_unlisted = None\<rparr>"

definition scan_answer_field :: "scan_answer_slots \<Rightarrow> int \<Rightarrow> (reader, wifi_error, scan_answer_slots) act" where
  "scan_answer_field slots number =
     (if number = 1 then
     andthen (map_err We_Cbor rd_u8) (\<lambda>v. andthen (lift_sum (closed scan_state_of (We_Unallocated Wf_Scan) v)) (\<lambda>w.
     andthen (once (We_Duplicate Wf_Scan) (saq_scan slots) w) (\<lambda>t. ret (slots\<lparr>saq_scan := t\<rparr>))))
      else if number = 2 then
     andthen (map_err We_Cbor rd_u8) (\<lambda>v. andthen (lift_sum (closed scan_refusal_of (We_Unallocated Wf_Refused) v)) (\<lambda>w.
     andthen (once (We_Duplicate Wf_Refused) (saq_refused slots) w) (\<lambda>t. ret (slots\<lparr>saq_refused := t\<rparr>))))
      else if number = 3 then
     andthen (map_err We_Cbor rd_u32) (\<lambda>v.
     andthen (once (We_Duplicate Wf_AgeMs) (saq_age slots) v) (\<lambda>t. ret (slots\<lparr>saq_age := t\<rparr>)))
      else if number = 4 then
     andthen (map_err We_Cbor rd_raw) (\<lambda>v.
     andthen (once (We_Duplicate Wf_Aps) (saq_rows slots) v) (\<lambda>t. ret (slots\<lparr>saq_rows := t\<rparr>)))
      else if number = 5 then
     andthen (map_err We_Cbor rd_u16) (\<lambda>v.
     andthen (once (We_Duplicate Wf_Unlisted) (saq_unlisted slots) v) (\<lambda>t. ret (slots\<lparr>saq_unlisted := t\<rparr>)))
      else skipped We_Cbor slots)"

definition scan_answer_complete :: "scan_answer_slots \<Rightarrow> (reader, wifi_error, scan_answer) act" where
  "scan_answer_complete slots =
     andthen (lift_sum (held_of (saq_age slots) (saq_rows slots) (saq_unlisted slots))) (\<lambda>held.
     andthen (ok_or (We_Missing Wf_Scan) (saq_scan slots)) (\<lambda>scan.
     lift_sum (scan_answer_new scan (saq_refused slots) held)))"

definition scan_answer_decode :: "bytes \<Rightarrow> wifi_error + scan_answer" where
  "scan_answer_decode = decoding (
     andthen (map_fields We_Cbor scan_answer_field scan_answer_empty) (\<lambda>slots.
     andthen (finishing We_Cbor) (\<lambda>_. scan_answer_complete slots)))"

section \<open>The result on the link\<close>

text \<open>A \<open>NonZeroU32\<close> numbers a scan.\<close>

record scan_result =
  sc_scan :: u32
  sc_list :: "scan_list option"

definition scan_outcome :: "scan_result \<Rightarrow> wifi_scan_result_outcome" where
  "scan_outcome x = (if sc_list x \<noteq> None then Wro_Complete else Wro_Failed)"

definition scan_result_pairs :: "scan_result \<Rightarrow> (writer, wifi_error, unit) act" where
  "scan_result_pairs x =
     andthen (map_err We_Cbor (wr_key 1)) (\<lambda>_. andthen (map_err We_Cbor (wr_u64 (ucast (sc_scan x)))) (\<lambda>_.
     andthen (map_err We_Cbor (wr_key 2)) (\<lambda>_. andthen (map_err We_Cbor (wr_u64 (ucast (wifi_scan_result_outcome_num (scan_outcome x))))) (\<lambda>_.
     case sc_list x of Some l \<Rightarrow>
       andthen (map_err We_Cbor (wr_key 3)) (\<lambda>_. andthen (scan_encode_rows l) (\<lambda>_.
       andthen (map_err We_Cbor (wr_key 4)) (\<lambda>_. map_err We_Cbor (wr_u64 (ucast (sl_unlisted l))))))
     | None \<Rightarrow> ret ()))))"

definition scan_result_write :: "scan_result \<Rightarrow> link_header \<Rightarrow> bytes \<Rightarrow> (link_error + nat) \<times> bytes" where
  "scan_result_write x h dst =
     link_writing Lk_Cbor h (if sc_list x \<noteq> None then 4 else 2) (map_err link_of_wifi (scan_result_pairs x)) dst"

record scan_result_slots =
  scq_scan :: "u32 option"
  scq_outcome :: "wifi_scan_result_outcome option"
  scq_rows :: "bytes option"
  scq_unlisted :: "u16 option"

definition scan_result_empty :: scan_result_slots where
  "scan_result_empty = \<lparr>scq_scan = None, scq_outcome = None, scq_rows = None, scq_unlisted = None\<rparr>"

definition scan_result_field :: "scan_result_slots \<Rightarrow> int \<Rightarrow> (reader, wifi_error, scan_result_slots) act" where
  "scan_result_field slots number =
     (if number = 1 then
     andthen (map_err We_Cbor rd_u32) (\<lambda>v. andthen (lift_sum (scan_number v)) (\<lambda>w.
     andthen (once (We_Duplicate Wf_Scan) (scq_scan slots) w) (\<lambda>t. ret (slots\<lparr>scq_scan := t\<rparr>))))
      else if number = 2 then
     andthen (map_err We_Cbor rd_u8) (\<lambda>v. andthen (lift_sum (closed wifi_scan_result_outcome_of (We_Unallocated Wf_Outcome) v)) (\<lambda>w.
     andthen (once (We_Duplicate Wf_Outcome) (scq_outcome slots) w) (\<lambda>t. ret (slots\<lparr>scq_outcome := t\<rparr>))))
      else if number = 3 then
     andthen (map_err We_Cbor rd_raw) (\<lambda>v.
     andthen (once (We_Duplicate Wf_Aps) (scq_rows slots) v) (\<lambda>t. ret (slots\<lparr>scq_rows := t\<rparr>)))
      else if number = 4 then
     andthen (map_err We_Cbor rd_u16) (\<lambda>v.
     andthen (once (We_Duplicate Wf_Unlisted) (scq_unlisted slots) v) (\<lambda>t. ret (slots\<lparr>scq_unlisted := t\<rparr>)))
      else skipped We_Cbor slots)"

definition scan_result_complete :: "scan_result_slots \<Rightarrow> (reader, wifi_error, scan_result) act" where
  "scan_result_complete slots =
     andthen (ok_or (We_Missing Wf_Scan) (scq_scan slots)) (\<lambda>scan.
     andthen (ok_or (We_Missing Wf_Outcome) (scq_outcome slots)) (\<lambda>outcome.
     case (outcome, scq_rows slots, scq_unlisted slots) of
       (Wro_Complete, Some rows, Some unlisted) \<Rightarrow>
         andthen (lift_sum (scan_list_read rows unlisted)) (\<lambda>l. ret \<lparr>sc_scan = scan, sc_list = Some l\<rparr>)
     | (Wro_Failed, None, None) \<Rightarrow> ret \<lparr>sc_scan = scan, sc_list = None\<rparr>
     | _ \<Rightarrow> fail We_ListIncomplete))"

definition scan_result_decode :: "link_envelope \<Rightarrow> link_error + scan_result" where
  "scan_result_decode =
     link_reading Lk_Cbor (\<lambda>s k. map_err link_of_wifi (scan_result_field s k)) scan_result_empty
       (\<lambda>slots. map_err link_of_wifi (scan_result_complete slots))"

section \<open>Rows on the wire\<close>

lemma fits_i8D: "fits_i8 v \<Longrightarrow> rssi_of v = Inr v" "fits_i8 v \<Longrightarrow> fits_i32 v"
  by (simp_all add: fits_i8_def rssi_of_def fits_i32_def)

lemma wifi_numbers [simp]:
  "closed wifi_security_of f1 (wifi_security_num x1) = Inr x1" "closed wifi_band_of f2 (wifi_band_num x2) = Inr x2"
  "closed scan_state_of f3 (scan_state_num x3) = Inr x3" "closed scan_refusal_of f4 (scan_refusal_num x4) = Inr x4"
  "closed wifi_scan_result_outcome_of f5 (wifi_scan_result_outcome_num x5) = Inr x5"
  "closed wifi_scan_outcome_of f6 (wifi_scan_outcome_num x6) = Inr x6"
  "closed wifi_state_of f7 (wifi_state_num x7) = Inr x7" "closed wifi_failure_of f8 (wifi_failure_num x8) = Inr x8"
  unfolding closed_def allocated_def wifi_security.of_num_of wifi_band.of_num_of scan_state.of_num_of scan_refusal.of_num_of
    wifi_scan_result_outcome.of_num_of wifi_scan_outcome.of_num_of wifi_state.of_num_of wifi_failure.of_num_of
  by simp_all

definition access_point_fields :: "access_point \<Rightarrow> (int \<times> item) list" where
  "access_point_fields x =
     [(1, IText (ap_ssid x)), (2, i32_item (ap_rssi x)), (3, IUint (ucast (wifi_security_num (ap_security x)))), (4, IUint (ucast (wifi_band_num (ap_band x)))), (5, IUint (ucast (ap_channel x)))]"

definition access_point_valid :: "access_point \<Rightarrow> bool" where
  "access_point_valid x \<longleftrightarrow> text_ok (ap_ssid x) \<and> fits_i8 (ap_rssi x)"

lemma access_point_ok [simp]:
  "ascending None (access_point_fields x)" "shallow room (access_point_fields x)" "known 5 (access_point_fields x)"
  "length (access_point_fields x) = 5"
  by (auto simp: access_point_fields_def good_key_def split: option.split)

lemma access_point_writes:
  assumes "access_point_valid x"
  shows "writes_pairs (access_point_pairs x) (access_point_fields x)"
  using assms unfolding access_point_pairs_def access_point_fields_def
  by (intro writes_append writes_option item_rules) (simp_all add: access_point_valid_def text_ok_def fits_i8D)

lemma access_point_field_simps:
  "access_point_field s 1 = andthen (map_err We_Cbor rd_text) (\<lambda>v.
     andthen (once (We_Duplicate Wf_Ssid) (apq_ssid s) v) (\<lambda>t. ret (s\<lparr>apq_ssid := t\<rparr>)))"
  "access_point_field s 2 = andthen (map_err We_Cbor rd_i32) (\<lambda>v. andthen (lift_sum (rssi_of v)) (\<lambda>w.
     andthen (once (We_Duplicate Wf_Rssi) (apq_rssi s) w) (\<lambda>t. ret (s\<lparr>apq_rssi := t\<rparr>))))"
  "access_point_field s 3 = andthen (map_err We_Cbor rd_u8) (\<lambda>v. andthen (lift_sum (closed wifi_security_of (We_Unallocated Wf_Security) v)) (\<lambda>w.
     andthen (once (We_Duplicate Wf_Security) (apq_security s) w) (\<lambda>t. ret (s\<lparr>apq_security := t\<rparr>))))"
  "access_point_field s 4 = andthen (map_err We_Cbor rd_u8) (\<lambda>v. andthen (lift_sum (closed wifi_band_of (We_Unallocated Wf_Band) v)) (\<lambda>w.
     andthen (once (We_Duplicate Wf_Band) (apq_band s) w) (\<lambda>t. ret (s\<lparr>apq_band := t\<rparr>))))"
  "access_point_field s 5 = andthen (map_err We_Cbor rd_u8) (\<lambda>v.
     andthen (once (We_Duplicate Wf_Channel) (apq_channel s) v) (\<lambda>t. ret (s\<lparr>apq_channel := t\<rparr>)))"
  "5 < j \<Longrightarrow> access_point_field s j = skipped We_Cbor s"
  by (simp_all add: access_point_field_def)

lemma access_point_reads:
  assumes "access_point_valid x"
  shows "reads_pairs access_point_field (access_point_fields x) access_point_empty
    \<lparr>apq_ssid = Some (ap_ssid x), apq_rssi = Some (ap_rssi x), apq_security = Some (ap_security x), apq_band = Some (ap_band x), apq_channel = Some (ap_channel x)\<rparr>"
proof -
  have ok: "text_ok (ap_ssid x)" "fits_i8 (ap_rssi x)"
    using assms by (auto simp: access_point_valid_def)
  show ?thesis
    by (rule reads_eq, unfold access_point_fields_def)
      (rule reads_Nil | rule reads_Cons | rule reads_pairs_append, rule reads_optional | rule reads_optional | simp only: access_point_field_simps
      | rule slot_rules | rule item_rules wifi_numbers text_okD fits_i8D ok | assumption | simp add: access_point_empty_def; fail)+
qed

definition scan_request_fields :: "scan_request \<Rightarrow> (int \<times> item) list" where
  "scan_request_fields x =
     [(1, IBool (sr_refresh x))]"

lemma scan_request_ok [simp]:
  "ascending None (scan_request_fields x)" "shallow room (scan_request_fields x)" "known 1 (scan_request_fields x)"
  "length (scan_request_fields x) = 1"
  by (auto simp: scan_request_fields_def good_key_def split: option.split)

lemma scan_request_writes:
  shows "writes_pairs (scan_request_pairs x) (scan_request_fields x)"
  unfolding scan_request_pairs_def scan_request_fields_def
  by (intro writes_append writes_option item_rules)

lemma scan_request_field_simps:
  "scan_request_field s 1 = andthen (map_err We_Cbor rd_bool) (\<lambda>v.
     andthen (once (We_Duplicate Wf_Refresh) (srq_refresh s) v) (\<lambda>t. ret (s\<lparr>srq_refresh := t\<rparr>)))"
  "1 < j \<Longrightarrow> scan_request_field s j = skipped We_Cbor s"
  by (simp_all add: scan_request_field_def)

lemma scan_request_reads:
  shows "reads_pairs scan_request_field (scan_request_fields x) scan_request_empty
    \<lparr>srq_refresh = Some (sr_refresh x)\<rparr>"
  by (rule reads_eq, unfold scan_request_fields_def)
    (rule reads_Nil | rule reads_Cons | rule reads_pairs_append, rule reads_optional | rule reads_optional | simp only: scan_request_field_simps
      | rule slot_rules | rule item_rules  | assumption | simp add: scan_request_empty_def; fail)+

interpretation scan_request: body_codec scan_request_encode scan_request_decode scan_request_fields "\<lambda>_. True" 1
proof
  fix x and dst :: bytes
  assume x: "length (map_bytes (scan_request_fields x)) \<le> length dst" "length dst \<le> usize_max"
  then show "scan_request_encode x dst = (Inr (length (map_bytes (scan_request_fields x))), splice dst 0 (map_bytes (scan_request_fields x)))"
    unfolding scan_request_encode_def by (simp add: encodes_fields [OF scan_request_writes])
next
  fix x fs
  assume x: "extends 1 INNER fs" "length (map_bytes (scan_request_fields x @ fs)) \<le> usize_max"
  show "scan_request_decode (map_bytes (scan_request_fields x @ fs)) = Inr x"
    unfolding scan_request_decode_def
    by (rule decodes_fields [OF scan_request_reads _ _ _ x(1) _ x(2)])
      (auto intro!: runs_andthen runs_finishing simp: scan_request_complete_def scan_request_field_simps)
qed

section \<open>Lists on the wire\<close>

abbreviation ap_item :: "access_point \<Rightarrow> item" where
  "ap_item x \<equiv> map_item (access_point_fields x)"

abbreviation aps_item :: "access_point list \<Rightarrow> item" where
  "aps_item rs \<equiv> IArray (map ap_item rs)"

lemma ap_completes:
  "access_point_complete \<lparr>apq_ssid = Some (ap_ssid x), apq_rssi = Some (ap_rssi x), apq_security = Some (ap_security x),
     apq_band = Some (ap_band x), apq_channel = Some (ap_channel x)\<rparr> = andthen (lift_sum (ap_check x)) (\<lambda>_. ret x)"
  by (cases x) (simp add: access_point_complete_def)

lemma ap_codec:
  assumes "access_point_valid x" and "ap_check x = Inr ()"
  shows "writes_item (ap_encode_into x) (ap_item x)" and "reads_item ap_decode_from (ap_item x) x"
    and "item_depth (ap_item x) \<le> 1" and "wf_item (ap_item x)"
proof -
  show "writes_item (ap_encode_into x) (ap_item x)"
    using writes_item_err [OF writes_map [OF access_point_writes [OF assms(1)], of 5], of We_Cbor]
    by (simp add: ap_encode_into_def assms(2))
  show "reads_item ap_decode_from (ap_item x) x"
    unfolding ap_decode_from_def
    by (rule reads_then [OF reads_map [OF access_point_reads [OF assms(1)]]]) (simp_all add: ap_completes assms(2) fun_eq_iff)
  show "item_depth (ap_item x) \<le> 1"
    using depth_map_item [of 0 "access_point_fields x"] by simp
  show "wf_item (ap_item x)"
    by (rule wf_map_item) (use assms(1) in \<open>auto simp: access_point_fields_def access_point_valid_def text_okD good_key_def\<close>)
qed

lemma walk_iff:
  "length seen + length rs \<le> MAX_SCAN_APS \<Longrightarrow> scan_walk w seen (map Inr rs) = Inr () \<longleftrightarrow>
     list_all (\<lambda>r. ap_check r = Inr ()) rs \<and> sorted_wrt (\<lambda>a b. ap_rssi b \<le> ap_rssi a) rs \<and> (\<forall>r \<in> set rs. ap_rssi r \<le> w) \<and>
     distinct (map ap_ssid rs) \<and> set (map ap_ssid rs) \<inter> set seen = {}"
proof (induction rs arbitrary: w seen)
  case (Cons r rs)
  have unit: "ap_check r = Inr () \<or> (\<exists>why. ap_check r = Inl why)"
    by (cases "ap_check r") auto
  show ?case
    using unit Cons.prems Cons.IH [of "seen @ [ap_ssid r]" "ap_rssi r"] by auto
qed simp

definition list_ok :: "access_point list \<Rightarrow> bool" where
  "list_ok rs \<longleftrightarrow> list_all access_point_valid rs \<and> list_all (\<lambda>r. ap_check r = Inr ()) rs \<and> length rs \<le> MAX_SCAN_APS \<and>
     sorted_wrt (\<lambda>a b. ap_rssi b \<le> ap_rssi a) rs \<and> distinct (map ap_ssid rs)"

lemma scan_check_rows:
  assumes "scan_iter l = map Inr rs" and "scan_len l = length rs" and "list_all access_point_valid rs"
  shows "scan_check l = Inr () \<longleftrightarrow> list_ok rs"
  using assms walk_iff [of "[]" rs 127]
  by (auto simp: scan_check_def list_ok_def list_all_iff access_point_valid_def fits_i8_def)

lemma scan_list_new_iff:
  assumes "list_all access_point_valid rs"
  shows "scan_list_new rs u = Inr l \<longleftrightarrow> list_ok rs \<and> l = \<lparr>sl_rows = ApBuilt rs, sl_unlisted = u\<rparr>"
proof -
  let ?l = "\<lparr>sl_rows = ApBuilt rs, sl_unlisted = u\<rparr>"
  have "scan_check ?l = Inr () \<longleftrightarrow> list_ok rs"
    by (rule scan_check_rows) (simp_all add: scan_iter_def scan_len_def assms)
  moreover have "scan_check ?l = Inr () \<or> (\<exists>why. scan_check ?l = Inl why)"
    by (cases "scan_check ?l") auto
  ultimately show ?thesis
    by (auto simp: scan_list_new_def)
qed

text \<open>A list that holds \<open>rs\<close>, built or as it arrived.\<close>

definition holds :: "scan_list \<Rightarrow> access_point list \<Rightarrow> bool" where
  "holds l rs \<longleftrightarrow> list_ok rs \<and> length (enc_item (aps_item rs)) \<le> usize_max \<and>
     (sl_rows l = ApBuilt rs \<or> sl_rows l = ApRead (enc_item (aps_item rs)) (length rs))"

lemma aps_item_ok:
  assumes "list_ok rs"
  shows "wf_item (aps_item rs)" and "item_depth (aps_item rs) \<le> 2"
proof -
  have each: "wf_item (ap_item x)" "item_depth (ap_item x) \<le> 1" if "x \<in> set rs" for x
    using assms that ap_codec(3,4) [of x] by (auto simp: list_ok_def list_all_iff)
  then show "wf_item (aps_item rs)"
    by (auto simp: list_all_iff)
  show "item_depth (aps_item rs) \<le> 2"
    using each(2) array_depth [of 1 "map ap_item rs"] by (simp add: level_room_def)
qed

lemma holds_writes: "holds l rs \<Longrightarrow> writes_item (scan_encode_rows l) (aps_item rs)"
  using ap_codec(1) writes_item_err [OF writes_raw [OF aps_item_ok(1)], of rs]
  by (auto simp: holds_def scan_encode_rows_def list_ok_def list_all_iff intro!: writes_array simp del: enc_item.simps)

lemma holds_iter:
  assumes "holds l rs"
  shows "scan_iter l = map Inr rs" and "scan_len l = length rs"
proof -
  show "scan_len l = length rs"
    using assms by (auto simp: holds_def scan_len_def)
  obtain r where r: "rd_array (reader_over (enc_item (aps_item rs))) = (Inr (length rs), r)"
    "reading r (settle_levels [(NArray, length rs, None)]) (item_list_bytes (map ap_item rs))"
    using assms opens_item_array [of "map ap_item rs"] by (auto simp: holds_def simp del: enc_item.simps)
  have "rows_next ap_decode_from (length rs) r = map Inr rs"
    using assms ap_codec(2,3) r(2) by (intro rows_next_read) (fastforce simp: holds_def list_ok_def list_all_iff)+
  then show "scan_iter l = map Inr rs"
    using assms r(1) by (auto simp: holds_def scan_iter_def simp del: enc_item.simps)
qed

lemma reads_held:
  assumes "list_ok rs" and "length (enc_item (aps_item rs)) \<le> usize_max"
  obtains l where "scan_list_read (enc_item (aps_item rs)) u = Inr l" and "holds l rs" and "sl_unlisted l = u"
proof -
  let ?l = "\<lparr>sl_rows = ApRead (enc_item (aps_item rs)) (length rs), sl_unlisted = u\<rparr>"
  have l: "holds ?l rs"
    using assms by (simp add: holds_def del: enc_item.simps)
  have "scan_check ?l = Inr ()"
    using scan_check_rows [OF holds_iter [OF l]] assms(1) by (simp add: list_ok_def)
  moreover obtain r where "rd_array (reader_over (enc_item (aps_item rs))) = (Inr (length rs), r)"
    using opens_item_array [of "map ap_item rs"] assms(2) by (auto simp del: enc_item.simps)
  ultimately have "scan_list_read (enc_item (aps_item rs)) u = Inr ?l"
    using assms(1) by (simp add: scan_list_read_def list_ok_def del: enc_item.simps)
  then show ?thesis
    using that l by simp
qed

lemma holds_same: "holds a rs \<Longrightarrow> holds b rs \<Longrightarrow> sl_unlisted a = sl_unlisted b \<Longrightarrow> scan_same a b"
  using holds_iter by (auto simp: scan_same_def list_all_iff set_zip)

section \<open>The bodies on the wire\<close>

definition list_fields :: "int \<Rightarrow> access_point list \<Rightarrow> u16 \<Rightarrow> (int \<times> item) list" where
  "list_fields k rs u = [(k, aps_item rs), (k + 1, IUint (ucast u))]"

definition scan_result_fields :: "u32 \<Rightarrow> wifi_scan_result_outcome \<Rightarrow> (access_point list \<times> u16) option \<Rightarrow> (int \<times> item) list" where
  "scan_result_fields scan outcome l =
     [(1, IUint (ucast scan)), (2, IUint (ucast (wifi_scan_result_outcome_num outcome)))] @
     (case l of Some (rs, u) \<Rightarrow> list_fields 3 rs u | None \<Rightarrow> [])"

lemma scan_result_ok:
  "case l of Some (rs, u) \<Rightarrow> list_ok rs | None \<Rightarrow> True \<Longrightarrow>
   ascending None (scan_result_fields scan outcome l) \<and> shallow 6 (scan_result_fields scan outcome l) \<and> known 4 (scan_result_fields scan outcome l)"
  using aps_item_ok(2) [of "fst (the l)"]
  by (cases l) (auto simp: scan_result_fields_def list_fields_def good_key_def simp del: item_depth.simps(1))

lemma scan_result_writes:
  assumes "case sc_list x of Some l \<Rightarrow> holds l rs | None \<Rightarrow> True"
  shows "writes_pairs (scan_result_pairs x) (scan_result_fields (sc_scan x) (scan_outcome x) (map_option (\<lambda>l. (rs, sl_unlisted l)) (sc_list x)))"
proof (cases "sc_list x")
  case None
  then show ?thesis
    by (simp add: scan_result_pairs_def scan_result_fields_def andthen_unit_ret del: enc_item.simps)
      (intro item_rules)
next
  case (Some l)
  then have l: "writes_item (scan_encode_rows l) (aps_item rs)"
    using assms holds_writes by simp
  show ?thesis
    by (simp add: scan_result_pairs_def scan_result_fields_def list_fields_def Some del: enc_item.simps)
      (intro item_rules l)
qed

lemma scan_result_field_simps:
  "scan_result_field s 1 = andthen (map_err We_Cbor rd_u32) (\<lambda>v. andthen (lift_sum (scan_number v)) (\<lambda>w.
     andthen (once (We_Duplicate Wf_Scan) (scq_scan s) w) (\<lambda>t. ret (s\<lparr>scq_scan := t\<rparr>))))"
  "scan_result_field s 2 = andthen (map_err We_Cbor rd_u8) (\<lambda>v. andthen (lift_sum (closed wifi_scan_result_outcome_of (We_Unallocated Wf_Outcome) v)) (\<lambda>w.
     andthen (once (We_Duplicate Wf_Outcome) (scq_outcome s) w) (\<lambda>t. ret (s\<lparr>scq_outcome := t\<rparr>))))"
  "scan_result_field s 3 = andthen (map_err We_Cbor rd_raw) (\<lambda>v.
     andthen (once (We_Duplicate Wf_Aps) (scq_rows s) v) (\<lambda>t. ret (s\<lparr>scq_rows := t\<rparr>)))"
  "scan_result_field s 4 = andthen (map_err We_Cbor rd_u16) (\<lambda>v.
     andthen (once (We_Duplicate Wf_Unlisted) (scq_unlisted s) v) (\<lambda>t. ret (s\<lparr>scq_unlisted := t\<rparr>)))"
  "4 < j \<Longrightarrow> scan_result_field s j = skipped We_Cbor s"
  by (simp_all add: scan_result_field_def)

lemma scan_number_own: "v \<noteq> 0 \<Longrightarrow> scan_number v = Inr v"
  by (simp add: scan_number_def)

lemma scan_result_reads:
  assumes "scan \<noteq> 0" and "case l of Some (rs, u) \<Rightarrow> list_ok rs | None \<Rightarrow> True"
  shows "reads_pairs scan_result_field (scan_result_fields scan outcome l) scan_result_empty
    \<lparr>scq_scan = Some scan, scq_outcome = Some outcome,
     scq_rows = map_option (\<lambda>(rs, u). enc_item (aps_item rs)) l, scq_unlisted = map_option snd l\<rparr>"
proof (cases l)
  case None
  then show ?thesis
    by (simp add: scan_result_fields_def del: reads_pairs.simps enc_item.simps) (rule reads_eq,
      (rule reads_Nil | rule reads_Cons | simp only: scan_result_field_simps | rule slot_rules | rule item_rules wifi_numbers scan_number_own assms(1)
        | simp add: scan_result_empty_def; fail)+)
next
  case (Some p)
  obtain rs u where p: "p = (rs, u)"
    by (cases p)
  have wf: "wf_item (aps_item rs)"
    using assms(2) aps_item_ok(1) by (simp add: Some p del: wf_item.simps)
  show ?thesis
    by (simp add: Some p scan_result_fields_def list_fields_def del: reads_pairs.simps enc_item.simps) (rule reads_eq,
      (rule reads_Nil | rule reads_Cons | simp only: scan_result_field_simps | rule slot_rules | rule item_rules wifi_numbers scan_number_own assms(1) wf
        | simp add: scan_result_empty_def del: enc_item.simps; fail)+)
qed

definition scan_answer_fields :: "scan_state \<Rightarrow> scan_refusal option \<Rightarrow> (u32 \<times> access_point list \<times> u16) option \<Rightarrow> (int \<times> item) list" where
  "scan_answer_fields scan refused l =
     (1, IUint (ucast (scan_state_num scan))) #
     (case refused of Some v \<Rightarrow> [(2, IUint (ucast (scan_refusal_num v)))] | None \<Rightarrow> []) @
     (case l of Some (age, rs, u) \<Rightarrow> (3, IUint (ucast age)) # list_fields 4 rs u | None \<Rightarrow> [])"

lemma scan_answer_ok:
  "case l of Some (age, rs, u) \<Rightarrow> list_ok rs | None \<Rightarrow> True \<Longrightarrow>
   ascending None (scan_answer_fields scan refused l) \<and> shallow 7 (scan_answer_fields scan refused l) \<and> known 5 (scan_answer_fields scan refused l)"
  using aps_item_ok(2) [of "fst (snd (the l))"]
  by (cases l; cases refused) (auto simp: scan_answer_fields_def list_fields_def good_key_def simp del: item_depth.simps(1))

lemma scan_answer_writes:
  assumes "case sa_held x of Some h \<Rightarrow> holds (hl_list h) rs | None \<Rightarrow> True"
  shows "writes_pairs (scan_answer_pairs x) (scan_answer_fields (sa_scan x) (sa_refused x)
    (map_option (\<lambda>h. (hl_age_ms h, rs, sl_unlisted (hl_list h))) (sa_held x)))"
proof (cases "sa_held x")
  case None
  show ?thesis
    by (simp add: scan_answer_pairs_def scan_answer_fields_def None andthen_unit_ret del: enc_item.simps)
      (intro item_rules writes_option)
next
  case (Some h)
  then have h: "writes_item (scan_encode_rows (hl_list h)) (aps_item rs)"
    using assms holds_writes by simp
  show ?thesis
    by (simp add: scan_answer_pairs_def scan_answer_fields_def Some list_fields_def del: enc_item.simps)
      (intro item_rules writes_option writes_append h)
qed

lemma scan_answer_field_simps:
  "scan_answer_field s 1 = andthen (map_err We_Cbor rd_u8) (\<lambda>v. andthen (lift_sum (closed scan_state_of (We_Unallocated Wf_Scan) v)) (\<lambda>w.
     andthen (once (We_Duplicate Wf_Scan) (saq_scan s) w) (\<lambda>t. ret (s\<lparr>saq_scan := t\<rparr>))))"
  "scan_answer_field s 2 = andthen (map_err We_Cbor rd_u8) (\<lambda>v. andthen (lift_sum (closed scan_refusal_of (We_Unallocated Wf_Refused) v)) (\<lambda>w.
     andthen (once (We_Duplicate Wf_Refused) (saq_refused s) w) (\<lambda>t. ret (s\<lparr>saq_refused := t\<rparr>))))"
  "scan_answer_field s 3 = andthen (map_err We_Cbor rd_u32) (\<lambda>v.
     andthen (once (We_Duplicate Wf_AgeMs) (saq_age s) v) (\<lambda>t. ret (s\<lparr>saq_age := t\<rparr>)))"
  "scan_answer_field s 4 = andthen (map_err We_Cbor rd_raw) (\<lambda>v.
     andthen (once (We_Duplicate Wf_Aps) (saq_rows s) v) (\<lambda>t. ret (s\<lparr>saq_rows := t\<rparr>)))"
  "scan_answer_field s 5 = andthen (map_err We_Cbor rd_u16) (\<lambda>v.
     andthen (once (We_Duplicate Wf_Unlisted) (saq_unlisted s) v) (\<lambda>t. ret (s\<lparr>saq_unlisted := t\<rparr>)))"
  "5 < j \<Longrightarrow> scan_answer_field s j = skipped We_Cbor s"
  by (simp_all add: scan_answer_field_def)

lemma scan_answer_reads:
  assumes "case l of Some (age, rs, u) \<Rightarrow> list_ok rs | None \<Rightarrow> True"
  shows "reads_pairs scan_answer_field (scan_answer_fields scan refused l) scan_answer_empty
    \<lparr>saq_scan = Some scan, saq_refused = refused, saq_age = map_option fst l,
     saq_rows = map_option (\<lambda>(age, rs, u). enc_item (aps_item rs)) l, saq_unlisted = map_option (\<lambda>(age, rs, u). u) l\<rparr>"
proof (cases l)
  case None
  then show ?thesis
    by (simp add: scan_answer_fields_def del: reads_pairs.simps enc_item.simps) (rule reads_eq,
      (rule reads_Nil | rule reads_Cons | rule reads_optional | simp only: scan_answer_field_simps | rule slot_rules | rule item_rules wifi_numbers
        | simp add: scan_answer_empty_def; fail)+)
next
  case (Some p)
  obtain age rs u where p: "p = (age, rs, u)"
    by (cases p)
  have wf: "wf_item (aps_item rs)"
    using assms aps_item_ok(1) by (simp add: Some p del: wf_item.simps)
  show ?thesis
    by (simp add: Some p scan_answer_fields_def list_fields_def del: reads_pairs.simps enc_item.simps) (rule reads_eq,
      (rule reads_Nil | rule reads_Cons | rule reads_pairs_append, rule reads_optional | simp only: scan_answer_field_simps | rule slot_rules
        | rule item_rules wifi_numbers wf | simp add: scan_answer_empty_def del: enc_item.simps; fail)+)
qed

lemma array_within:
  assumes "(k, t) \<in> set fs"
  shows "length (enc_item t) \<le> length (map_bytes fs)"
proof -
  have "length (enc_item t) \<le> length (field_bytes fs)"
    using assms by (induction fs) auto
  then show ?thesis
    by (simp add: map_bytes_eq)
qed

section \<open>The two hops\<close>

lemma scan_result_crosses:
  assumes "case sc_list x of Some l \<Rightarrow> holds l rs | None \<Rightarrow> True" and "sc_scan x \<noteq> 0" and "session_ok (lh_session h)"
    and "length (link_bytes h (scan_result_fields (sc_scan x) (scan_outcome x) (map_option (\<lambda>l. (rs, sl_unlisted l)) (sc_list x)))) \<le> length dst"
    and "length dst \<le> usize_max"
  obtains n out e y where "scan_result_write x h dst = (Inr n, out)" and "link_envelope_decode (take n out) = Inr e"
    and "scan_result_decode e = Inr y" and "sc_scan y = sc_scan x"
    and "rel_option (\<lambda>l k. holds k rs \<and> sl_unlisted k = sl_unlisted l) (sc_list x) (sc_list y)"
proof -
  let ?l = "map_option (\<lambda>l. (rs, sl_unlisted l)) (sc_list x)"
  let ?fs = "scan_result_fields (sc_scan x) (scan_outcome x) ?l"
  have good: "case ?l of Some (rs, u) \<Rightarrow> list_ok rs | None \<Rightarrow> True"
    using assms(1) by (auto simp: holds_def split: option.splits)
  note ok = scan_result_ok [OF good, of "sc_scan x" "scan_outcome x"]
  have n: "length ?fs = (if sc_list x \<noteq> None then 4 else 2)"
    by (auto simp: scan_result_fields_def list_fields_def)
  have written: "scan_result_write x h dst = (Inr (length (link_bytes h ?fs)), splice dst 0 (link_bytes h ?fs))"
    unfolding scan_result_write_def
    by (rule link_writes_err [OF writes_pairs_err [OF scan_result_writes [OF assms(1)]] _ _ _ assms(4,5)]) (use ok n in simp_all)
  have taken: "take (length (link_bytes h ?fs)) (splice dst 0 (link_bytes h ?fs)) = link_bytes h (?fs @ [])"
    by (simp add: splice_def)
  let ?slots = "\<lparr>scq_scan = Some (sc_scan x), scq_outcome = Some (scan_outcome x),
     scq_rows = map_option (\<lambda>(rs, u). enc_item (aps_item rs)) ?l, scq_unlisted = map_option snd ?l\<rparr>"
  obtain y where y: "\<And>s. scan_result_complete ?slots s = (Inr y, s)" "sc_scan y = sc_scan x"
    "rel_option (\<lambda>l k. holds k rs \<and> sl_unlisted k = sl_unlisted l) (sc_list x) (sc_list y)"
  proof (cases "sc_list x")
    case None
    show ?thesis
      by (rule that [of "\<lparr>sc_scan = sc_scan x, sc_list = None\<rparr>"]) (simp_all add: scan_result_complete_def scan_outcome_def None)
  next
    case (Some l)
    obtain k where "scan_list_read (enc_item (aps_item rs)) (sl_unlisted l) = Inr k" "holds k rs" "sl_unlisted k = sl_unlisted l"
      using assms(1) Some reads_held [of rs "sl_unlisted l"] by (auto simp: holds_def)
    then show ?thesis
      by (intro that [of "\<lparr>sc_scan = sc_scan x, sc_list = Some k\<rparr>"])
        (simp_all add: scan_result_complete_def scan_outcome_def Some del: enc_item.simps)
  qed
  obtain e where "link_envelope_decode (link_bytes h (?fs @ [])) = Inr e" "scan_result_decode e = Inr y"
    unfolding scan_result_decode_def
    using link_reads [OF reads_pairs_err [OF scan_result_reads [OF assms(2) good]], of "scan_outcome x" 4 "[]" link_of_wifi Lk_Cbor h
        "\<lambda>slots. map_err link_of_wifi (scan_result_complete slots)" y] ok assms(3-5) y(1)
    by (auto simp: scan_result_field_simps skipped_err link_of_wifi_def comp_def runs_def)
  then show ?thesis
    using that [OF written, unfolded taken] y(2,3) by blast
qed

lemma scan_answer_new_iff:
  "scan_answer_new scan refused h = Inr a \<longleftrightarrow> a = \<lparr>sa_scan = scan, sa_refused = refused, sa_held = h\<rparr> \<and>
     \<not> (scan = ScanState_Running \<and> refused \<noteq> None) \<and> \<not> (scan = ScanState_Complete \<and> h = None) \<and> \<not> (scan = ScanState_None \<and> h \<noteq> None)"
  by (auto simp: scan_answer_new_def)

lemma scan_answer_travels:
  assumes "scan_answer_new scan refused hl = Inr x" and "case hl of Some h \<Rightarrow> holds (hl_list h) rs | None \<Rightarrow> True"
    and "length (map_bytes (scan_answer_fields scan refused (map_option (\<lambda>h. (hl_age_ms h, rs, sl_unlisted (hl_list h))) hl))) \<le> length dst"
    and "length dst \<le> usize_max"
  obtains n out y where "scan_answer_encode x dst = (Inr n, out)" and "scan_answer_decode (take n out) = Inr y"
    and "sa_scan y = scan" and "sa_refused y = refused"
    and "rel_option (\<lambda>h k. hl_age_ms k = hl_age_ms h \<and> holds (hl_list k) rs \<and> sl_unlisted (hl_list k) = sl_unlisted (hl_list h)) hl (sa_held y)"
proof -
  have x: "sa_scan x = scan" "sa_refused x = refused" "sa_held x = hl"
    using assms(1) by (simp_all add: scan_answer_new_iff)
  let ?l = "map_option (\<lambda>h. (hl_age_ms h, rs, sl_unlisted (hl_list h))) hl"
  let ?fs = "scan_answer_fields scan refused ?l"
  have good: "case ?l of Some (age, rs, u) \<Rightarrow> list_ok rs | None \<Rightarrow> True"
    using assms(2) by (auto simp: holds_def split: option.splits)
  note ok = scan_answer_ok [OF good, of scan refused]
  have n: "length ?fs = scan_answer_keys x"
    by (cases refused; cases hl) (simp_all add: scan_answer_fields_def list_fields_def scan_answer_keys_def x)
  have "writes_pairs (scan_answer_pairs x) ?fs"
    using scan_answer_writes [where x = x and rs = rs] assms(2) by (simp add: x)
  then have written: "scan_answer_encode x dst = (Inr (length (map_bytes ?fs)), splice dst 0 (map_bytes ?fs))"
    unfolding scan_answer_encode_def
    by (intro encodes_item writes_map_err) (use ok n assms(3,4) in auto)
  have taken: "take (length (map_bytes ?fs)) (splice dst 0 (map_bytes ?fs)) = map_bytes (?fs @ [])"
    by (simp add: splice_def)
  let ?slots = "\<lparr>saq_scan = Some scan, saq_refused = refused, saq_age = map_option fst ?l,
     saq_rows = map_option (\<lambda>(age, rs, u). enc_item (aps_item rs)) ?l, saq_unlisted = map_option (\<lambda>(age, rs, u). u) ?l\<rparr>"
  obtain y where y: "\<And>s. scan_answer_complete ?slots s = (Inr y, s)" "sa_scan y = scan" "sa_refused y = refused"
    "rel_option (\<lambda>h k. hl_age_ms k = hl_age_ms h \<and> holds (hl_list k) rs \<and> sl_unlisted (hl_list k) = sl_unlisted (hl_list h)) hl (sa_held y)"
  proof (cases hl)
    case None
    show ?thesis
      by (rule that [of "\<lparr>sa_scan = scan, sa_refused = refused, sa_held = None\<rparr>"])
        (use assms(1) None in \<open>simp_all add: scan_answer_complete_def held_of_def scan_answer_new_iff\<close>)
  next
    case (Some h)
    obtain k where k: "scan_list_read (enc_item (aps_item rs)) (sl_unlisted (hl_list h)) = Inr k" "holds k rs"
      "sl_unlisted k = sl_unlisted (hl_list h)"
      using assms(2) Some reads_held [of rs "sl_unlisted (hl_list h)"] by (auto simp: holds_def)
    have "scan_answer_new scan refused (Some \<lparr>hl_age_ms = hl_age_ms h, hl_list = k\<rparr>) =
        Inr \<lparr>sa_scan = scan, sa_refused = refused, sa_held = Some \<lparr>hl_age_ms = hl_age_ms h, hl_list = k\<rparr>\<rparr>"
      using assms(1) Some by (simp add: scan_answer_new_iff)
    then show ?thesis
      using k Some by (intro that [of "\<lparr>sa_scan = scan, sa_refused = refused, sa_held = Some \<lparr>hl_age_ms = hl_age_ms h, hl_list = k\<rparr>\<rparr>"])
        (simp_all add: scan_answer_complete_def held_of_def del: enc_item.simps)
  qed
  define slots where "slots = ?slots"
  have reads: "reads_pairs scan_answer_field ?fs scan_answer_empty slots"
    unfolding slots_def by (rule scan_answer_reads [OF good])
  have completes: "runs (scan_answer_complete slots) r (\<lambda>b _. b = y)" for r
    using y(1) [of r] by (simp add: slots_def runs_def del: enc_item.simps)
  have "scan_answer_decode (map_bytes (?fs @ [])) = Inr y"
    unfolding scan_answer_decode_def
    by (rule decodes_fields [OF reads, where k = 5])
      (use ok assms(3,4) in \<open>auto intro!: runs_andthen runs_finishing completes simp: scan_answer_field_simps\<close>)
  then show ?thesis
    using that [OF written, unfolded taken] y(2-4) by blast
qed

text \<open>C6. A scan's list crosses both hops as it was built. It is accepted only with at most \<open>MAX_SCAN_APS\<close>
  rows, strongest first and no SSID twice; the controller that decodes the result and answers a client
  from it relays the very rows, and the client reads them in order, with the count of the unlisted and
  the age the controller gave.\<close>

theorem scan_list_relayed:
  assumes "list_all access_point_valid rs" and "scan_list_new rs u = Inr l" and "scan \<noteq> 0" and "session_ok (lh_session h)"
    and "length (link_bytes h (scan_result_fields scan Wro_Complete (Some (rs, u)))) \<le> length dst" and "length dst \<le> usize_max"
    and "length (map_bytes (scan_answer_fields ScanState_Complete refused (Some (age, rs, u)))) \<le> length dst'"
    and "length dst' \<le> usize_max"
  shows "length rs \<le> MAX_SCAN_APS \<and> sorted_wrt (\<lambda>a b. ap_rssi b \<le> ap_rssi a) rs \<and> distinct (map ap_ssid rs) \<and>
    (\<exists>n out e y k a n' out' b held. scan_result_write \<lparr>sc_scan = scan, sc_list = Some l\<rparr> h dst = (Inr n, out) \<and>
       link_envelope_decode (take n out) = Inr e \<and> scan_result_decode e = Inr y \<and> sc_scan y = scan \<and> sc_list y = Some k \<and>
       scan_answer_new ScanState_Complete refused (Some \<lparr>hl_age_ms = age, hl_list = k\<rparr>) = Inr a \<and>
       scan_answer_encode a dst' = (Inr n', out') \<and> scan_answer_decode (take n' out') = Inr b \<and>
       sa_scan b = ScanState_Complete \<and> sa_refused b = refused \<and> sa_held b = Some held \<and> hl_age_ms held = age \<and>
       scan_iter (hl_list held) = map Inr rs \<and> sl_unlisted (hl_list held) = u \<and> scan_same l (hl_list held))"
proof -
  have rs: "list_ok rs" and l: "l = \<lparr>sl_rows = ApBuilt rs, sl_unlisted = u\<rparr>"
    using scan_list_new_iff [OF assms(1)] assms(2) by simp_all
  have "length (enc_item (aps_item rs)) \<le> length (map_bytes (scan_answer_fields ScanState_Complete refused (Some (age, rs, u))))"
    by (rule array_within [of 4]) (simp add: scan_answer_fields_def list_fields_def del: enc_item.simps)
  then have held: "holds l rs"
    using rs assms(7,8) by (simp add: holds_def l del: enc_item.simps)
  let ?x = "\<lparr>sc_scan = scan, sc_list = Some l\<rparr>"
  have "length (link_bytes h (scan_result_fields (sc_scan ?x) (scan_outcome ?x) (map_option (\<lambda>l. (rs, sl_unlisted l)) (sc_list ?x)))) \<le> length dst"
    using assms(5) by (simp add: scan_outcome_def l)
  then obtain n out e y where hop: "scan_result_write ?x h dst = (Inr n, out)" "link_envelope_decode (take n out) = Inr e"
    "scan_result_decode e = Inr y" "sc_scan y = sc_scan ?x"
    "rel_option (\<lambda>l k. holds k rs \<and> sl_unlisted k = sl_unlisted l) (sc_list ?x) (sc_list y)"
    by (rule scan_result_crosses [rotated 3]) (use held assms(3,4,6) in simp_all)
  then obtain k where k: "sc_list y = Some k" "holds k rs" "sl_unlisted k = u"
    by (auto simp: option_rel_Some1 l)
  let ?h = "\<lparr>hl_age_ms = age, hl_list = k\<rparr>"
  obtain a where a: "scan_answer_new ScanState_Complete refused (Some ?h) = Inr a"
    by (simp add: scan_answer_new_iff)
  obtain n' out' b where answer: "scan_answer_encode a dst' = (Inr n', out')" "scan_answer_decode (take n' out') = Inr b"
    "sa_scan b = ScanState_Complete" "sa_refused b = refused"
    "rel_option (\<lambda>h k. hl_age_ms k = hl_age_ms h \<and> holds (hl_list k) rs \<and> sl_unlisted (hl_list k) = sl_unlisted (hl_list h)) (Some ?h) (sa_held b)"
    using scan_answer_travels [OF a, of rs dst'] k assms(7,8) by auto
  then obtain held' where held': "sa_held b = Some held'" "hl_age_ms held' = age" "holds (hl_list held') rs" "sl_unlisted (hl_list held') = u"
    using k(3) by (auto simp: option_rel_Some1)
  have "scan_iter (hl_list held') = map Inr rs" "scan_same l (hl_list held')"
    using holds_iter(1) [OF held'(3)] holds_same [OF held held'(3)] held'(4) by (simp_all add: l)
  then show ?thesis
    using rs hop(1-4) k(1) a answer(1-4) held'(1,2,4) by (auto simp: list_ok_def intro!: exI conjI)
qed

definition example_ap :: access_point where
  "example_ap = \<lparr>ap_ssid = [0x61], ap_rssi = - 40, ap_security = WifiSecurity_Open, ap_band = WifiBand_Ghz24, ap_channel = 6\<rparr>"

definition scan_header :: link_header where
  "scan_header = \<lparr>lh_kind = Lm_WifiScanResult, lh_session = NoSession, lh_req_id = 1\<rparr>"

lemma scan_list_relayed_witness:
  "\<exists>l n out e y k a n' out' b held. scan_list_new [example_ap] 3 = Inr l \<and>
     scan_result_write \<lparr>sc_scan = 7, sc_list = Some l\<rparr> scan_header (replicate 64 0) = (Inr n, out) \<and>
     link_envelope_decode (take n out) = Inr e \<and> scan_result_decode e = Inr y \<and> sc_list y = Some k \<and>
     scan_answer_new ScanState_Complete None (Some \<lparr>hl_age_ms = 5, hl_list = k\<rparr>) = Inr a \<and>
     scan_answer_encode a (replicate 64 0) = (Inr n', out') \<and> scan_answer_decode (take n' out') = Inr b \<and>
     sa_held b = Some held \<and> scan_iter (hl_list held) = [Inr example_ap]"
proof -
  have new: "scan_list_new [example_ap] 3 = Inr \<lparr>sl_rows = ApBuilt [example_ap], sl_unlisted = 3\<rparr>"
    by (simp add: scan_list_new_def scan_check_def scan_len_def scan_iter_def example_ap_def ap_check_def MAX_SSID_def MAX_CHANNEL_def limit_defs)
  have ok: "list_all access_point_valid [example_ap]"
    by (simp add: access_point_valid_def example_ap_def text_ok_def utf8.simps fits_i8_def MAX_STRING_def)
  have sizes: "length (link_bytes scan_header (scan_result_fields 7 Wro_Complete (Some ([example_ap], 3)))) \<le> 64"
    "length (map_bytes (scan_answer_fields ScanState_Complete None (Some (5, [example_ap], 3)))) \<le> 64"
    using length_link_bytes [of scan_header "scan_result_fields 7 Wro_Complete (Some ([example_ap], 3))"]
    by (simp_all add: scan_result_fields_def scan_answer_fields_def list_fields_def map_bytes_eq map_item_def pairs_of_def
        access_point_fields_def example_ap_def i32_item_def width_of_def)
  show ?thesis
    using scan_list_relayed [OF ok new, of 7 scan_header "replicate 64 0" None 5 "replicate 64 0"] sizes new
    by (auto simp: scan_header_def usize_max_def)
qed

end
