(* ===== verification/Wifi_Status.thy ===== *)
theory Wifi_Status
  imports Wifi_Scan
begin

text \<open>
  \<open>crates/km43/src/wifi.rs\<close>, what the radio is doing: the report the comms processor sends, the status
  and the event the controller shows a client, and the orders and answers of a scan on the link.
  A state and the field it owes are read apart and must agree, so nothing decodes to a failure with no
  reason or an address for a radio that has none.
\<close>

section \<open>The radio\<close>

text \<open>An IPv4 address is four bytes.\<close>

datatype radio =
    Radio_Off
  | Radio_Joining
  | Radio_Joined bytes
  | Radio_Failed wifi_failure

primrec radio_state :: "radio \<Rightarrow> wifi_state" where
  "radio_state Radio_Off = WifiState_Off"
| "radio_state Radio_Joining = WifiState_Joining"
| "radio_state (Radio_Joined ipv4) = WifiState_Joined"
| "radio_state (Radio_Failed reason) = WifiState_Failed"

primrec radio_keys :: "radio \<Rightarrow> nat" where
  "radio_keys Radio_Off = 1"
| "radio_keys Radio_Joining = 1"
| "radio_keys (Radio_Joined ipv4) = 2"
| "radio_keys (Radio_Failed reason) = 2"

definition i64_saturating_add :: "int \<Rightarrow> int \<Rightarrow> int" where
  "i64_saturating_add a b = max (- (2 ^ 63)) (min (2 ^ 63 - 1) (a + b))"

primrec radio_owed :: "int \<Rightarrow> radio \<Rightarrow> (writer, wifi_error, unit) act" where
  "radio_owed first Radio_Off = ret ()"
| "radio_owed first Radio_Joining = ret ()"
| "radio_owed first (Radio_Joined ipv4) =
     andthen (map_err We_Cbor (wr_key (i64_saturating_add first 2))) (\<lambda>_. map_err We_Cbor (wr_byte_string ipv4))"
| "radio_owed first (Radio_Failed reason) =
     andthen (map_err We_Cbor (wr_key (i64_saturating_add first 1))) (\<lambda>_. map_err We_Cbor (wr_u64 (ucast (wifi_failure_num reason))))"

definition radio_encode_into :: "int \<Rightarrow> radio \<Rightarrow> (writer, wifi_error, unit) act" where
  "radio_encode_into first x =
     andthen (map_err We_Cbor (wr_key first)) (\<lambda>_. andthen (map_err We_Cbor (wr_u64 (ucast (wifi_state_num (radio_state x))))) (\<lambda>_.
     radio_owed first x))"

definition radio_of :: "wifi_state \<Rightarrow> wifi_failure option \<Rightarrow> bytes option \<Rightarrow> wifi_error + radio" where
  "radio_of state reason ipv4 =
     (if (reason \<noteq> None) \<noteq> (state = WifiState_Failed) then Inl We_ReasonDisagrees
      else if (ipv4 \<noteq> None) \<noteq> (state = WifiState_Joined) then Inl We_AddressDisagrees
      else case (state, reason, ipv4) of
        (WifiState_Off, _, _) \<Rightarrow> Inr Radio_Off
      | (WifiState_Joining, _, _) \<Rightarrow> Inr Radio_Joining
      | (WifiState_Joined, _, Some bs) \<Rightarrow> if length bs = 4 then Inr (Radio_Joined bs) else Inl (We_Ipv4Length (length bs))
      | (WifiState_Failed, Some reason, _) \<Rightarrow> Inr (Radio_Failed reason)
      | (WifiState_Joined, _, None) \<Rightarrow> Inl We_AddressDisagrees
      | (WifiState_Failed, None, _) \<Rightarrow> Inl We_ReasonDisagrees)"

record radio_report =
  rp_version :: u32
  rp_radio :: radio

record status_keys =
  sk_section :: "u32 option"
  sk_version :: "u32 option"
  sk_state :: "wifi_state option"
  sk_reason :: "wifi_failure option"
  sk_ipv4 :: "bytes option"

definition status_keys_empty :: status_keys where
  "status_keys_empty = \<lparr>sk_section = None, sk_version = None, sk_state = None, sk_reason = None, sk_ipv4 = None\<rparr>"

text \<open>\<open>key.checked_sub(first)\<close>: where it would underflow the difference is below zero and no arm takes it.\<close>

definition status_field :: "int \<Rightarrow> status_keys \<Rightarrow> int \<Rightarrow> (reader, wifi_error, status_keys) act" where
  "status_field first s key =
     (if key = 1 \<and> first = 2 then
        andthen (map_err We_Cbor rd_u32) (\<lambda>v. andthen (once (We_Duplicate Wf_Section) (sk_section s) v) (\<lambda>t. ret (s\<lparr>sk_section := t\<rparr>)))
      else if key - first = 0 then
        andthen (map_err We_Cbor rd_u32) (\<lambda>v. andthen (once (We_Duplicate Wf_Version) (sk_version s) v) (\<lambda>t. ret (s\<lparr>sk_version := t\<rparr>)))
      else if key - first = 1 then
        andthen (map_err We_Cbor rd_u8) (\<lambda>v. andthen (lift_sum (closed wifi_state_of (We_Unallocated Wf_State) v)) (\<lambda>w.
          andthen (once (We_Duplicate Wf_State) (sk_state s) w) (\<lambda>t. ret (s\<lparr>sk_state := t\<rparr>))))
      else if key - first = 2 then
        andthen (map_err We_Cbor rd_u8) (\<lambda>v. andthen (lift_sum (closed wifi_failure_of (We_Unallocated Wf_Reason) v)) (\<lambda>w.
          andthen (once (We_Duplicate Wf_Reason) (sk_reason s) w) (\<lambda>t. ret (s\<lparr>sk_reason := t\<rparr>))))
      else if key - first = 3 then
        andthen (map_err We_Cbor rd_byte_string) (\<lambda>v. andthen (once (We_Duplicate Wf_Ipv4) (sk_ipv4 s) v) (\<lambda>t. ret (s\<lparr>sk_ipv4 := t\<rparr>)))
      else skipped We_Cbor s)"

definition status_report :: "status_keys \<Rightarrow> wifi_error + radio_report option" where
  "status_report k =
     (case (sk_version k, sk_state k) of
        (None, None) \<Rightarrow>
          if sk_reason k \<noteq> None then Inl We_ReasonDisagrees
          else if sk_ipv4 k \<noteq> None then Inl We_AddressDisagrees
          else Inr None
      | (Some version, Some state) \<Rightarrow>
          (case radio_of state (sk_reason k) (sk_ipv4 k) of
             Inl why \<Rightarrow> Inl why
           | Inr radio \<Rightarrow> Inr (Some \<lparr>rp_version = version, rp_radio = radio\<rparr>))
      | _ \<Rightarrow> Inl We_ReportIncomplete)"

section \<open>The status and its event\<close>

record wifi_status =
  ws_section :: u32
  ws_report :: "radio_report option"

definition wifi_status_keys :: "wifi_status \<Rightarrow> nat" where
  "wifi_status_keys x = 1 + (case ws_report x of Some r \<Rightarrow> 1 + radio_keys (rp_radio r) | None \<Rightarrow> 0)"

definition wifi_status_pairs :: "wifi_status \<Rightarrow> (writer, wifi_error, unit) act" where
  "wifi_status_pairs x =
     andthen (map_err We_Cbor (wr_key 1)) (\<lambda>_. andthen (map_err We_Cbor (wr_u64 (ucast (ws_section x)))) (\<lambda>_.
     case ws_report x of Some r \<Rightarrow>
       andthen (map_err We_Cbor (wr_key 2)) (\<lambda>_. andthen (map_err We_Cbor (wr_u64 (ucast (rp_version r)))) (\<lambda>_.
       radio_encode_into 3 (rp_radio r)))
     | None \<Rightarrow> ret ()))"

definition wifi_status_encode :: "wifi_status \<Rightarrow> bytes \<Rightarrow> (wifi_error + nat) \<times> bytes" where
  "wifi_status_encode x =
     encoding We_Cbor (andthen (map_err We_Cbor (wr_map (wifi_status_keys x))) (\<lambda>_. wifi_status_pairs x))"

definition wifi_status_complete :: "status_keys \<Rightarrow> (reader, wifi_error, wifi_status) act" where
  "wifi_status_complete k =
     andthen (ok_or (We_Missing Wf_Section) (sk_section k)) (\<lambda>section.
     andthen (lift_sum (status_report k)) (\<lambda>report. ret \<lparr>ws_section = section, ws_report = report\<rparr>))"

definition wifi_status_decode :: "bytes \<Rightarrow> wifi_error + wifi_status" where
  "wifi_status_decode = decoding (
     andthen (map_fields We_Cbor (status_field 2) status_keys_empty) (\<lambda>k.
     andthen (finishing We_Cbor) (\<lambda>_. wifi_status_complete k)))"

record wifi_changed =
  wc_section :: u32
  wc_report :: radio_report

definition wifi_changed_encode :: "wifi_changed \<Rightarrow> bytes \<Rightarrow> (wifi_error + nat) \<times> bytes" where
  "wifi_changed_encode x dst =
     (if rp_radio (wc_report x) = Radio_Joining then (Inl We_JoiningIsNotRecorded, dst)
      else wifi_status_encode \<lparr>ws_section = wc_section x, ws_report = Some (wc_report x)\<rparr> dst)"

definition wifi_changed_decode :: "bytes \<Rightarrow> wifi_error + wifi_changed" where
  "wifi_changed_decode payload =
     (case wifi_status_decode payload of
        Inl why \<Rightarrow> Inl why
      | Inr status \<Rightarrow>
          (case ws_report status of
             None \<Rightarrow> Inl (We_Missing Wf_Version)
           | Some report \<Rightarrow> Inr \<lparr>wc_section = ws_section status, wc_report = report\<rparr>))"

section \<open>The report on the link\<close>

definition radio_report_write :: "radio_report \<Rightarrow> link_header \<Rightarrow> bytes \<Rightarrow> (link_error + nat) \<times> bytes" where
  "radio_report_write x h dst =
     link_writing Lk_Cbor h (1 + radio_keys (rp_radio x))
       (andthen (map_err Lk_Cbor (wr_key 1)) (\<lambda>_. andthen (map_err Lk_Cbor (wr_u64 (ucast (rp_version x)))) (\<lambda>_.
        map_err link_of_wifi (radio_encode_into 2 (rp_radio x))))) dst"

definition radio_report_complete :: "status_keys \<Rightarrow> (reader, wifi_error, radio_report) act" where
  "radio_report_complete k =
     andthen (lift_sum (status_report k)) (\<lambda>report. ok_or (We_Missing Wf_Version) report)"

definition radio_report_decode :: "link_envelope \<Rightarrow> link_error + radio_report" where
  "radio_report_decode =
     link_reading Lk_Cbor (\<lambda>s k. map_err link_of_wifi (status_field 1 s k)) status_keys_empty
       (\<lambda>k. map_err link_of_wifi (radio_report_complete k))"

text \<open>\<open>WifiStateAck\<close> carries no key and skips what a newer peer adds.\<close>

definition radio_report_ack_write :: "unit \<Rightarrow> link_header \<Rightarrow> bytes \<Rightarrow> (link_error + nat) \<times> bytes" where
  "radio_report_ack_write x h dst = link_writing Lk_Cbor h 0 (ret x) dst"

definition radio_report_ack_decode :: "link_envelope \<Rightarrow> link_error + unit" where
  "radio_report_ack_decode = link_reading Lk_Cbor (\<lambda>_ _. skipped Lk_Cbor ()) () ret"

section \<open>Orders, verdicts and acknowledgements\<close>

text \<open>\<open>scan_only\<close> and \<open>write_scan_only\<close>, the one key two bodies carry.\<close>


definition scan_only_pairs :: "u32 \<Rightarrow> (writer, cbor_error, unit) act" where
  "scan_only_pairs x =
     andthen (wr_key 1) (\<lambda>_. wr_u64 (ucast (x)))"

definition scan_only_write :: "u32 \<Rightarrow> link_header \<Rightarrow> bytes \<Rightarrow> (link_error + nat) \<times> bytes" where
  "scan_only_write x h dst = link_writing Lk_Cbor h 1 (map_err Lk_Cbor (scan_only_pairs x)) dst"

record scan_only_slots =
  soq_scan :: "u32 option"

definition scan_only_empty :: scan_only_slots where
  "scan_only_empty = \<lparr>soq_scan = None\<rparr>"

definition scan_only_field :: "scan_only_slots \<Rightarrow> int \<Rightarrow> (reader, wifi_error, scan_only_slots) act" where
  "scan_only_field slots number =
     (if number = 1 then
     andthen (map_err We_Cbor rd_u32) (\<lambda>v. andthen (lift_sum (scan_number v)) (\<lambda>w.
     andthen (once (We_Duplicate Wf_Scan) (soq_scan slots) w) (\<lambda>t. ret (slots\<lparr>soq_scan := t\<rparr>))))
      else skipped We_Cbor slots)"

definition scan_only_complete :: "scan_only_slots \<Rightarrow> (reader, wifi_error, u32) act" where
  "scan_only_complete slots = ok_or (We_Missing Wf_Scan) (soq_scan slots)"

definition scan_only_decode :: "link_envelope \<Rightarrow> link_error + u32" where
  "scan_only_decode =
     link_reading Lk_Cbor (\<lambda>s k. map_err link_of_wifi (scan_only_field s k)) scan_only_empty (\<lambda>slots. map_err link_of_wifi (scan_only_complete slots))"

record scan_order =
  so_scan :: u32

definition scan_order_write :: "scan_order \<Rightarrow> link_header \<Rightarrow> bytes \<Rightarrow> (link_error + nat) \<times> bytes" where
  "scan_order_write x = scan_only_write (so_scan x)"

definition scan_order_decode :: "link_envelope \<Rightarrow> link_error + scan_order" where
  "scan_order_decode e = (case scan_only_decode e of Inl why \<Rightarrow> Inl why | Inr scan \<Rightarrow> Inr \<lparr>so_scan = scan\<rparr>)"

record scan_result_ack =
  ra_scan :: u32

definition scan_result_ack_write :: "scan_result_ack \<Rightarrow> link_header \<Rightarrow> bytes \<Rightarrow> (link_error + nat) \<times> bytes" where
  "scan_result_ack_write x = scan_only_write (ra_scan x)"

definition scan_result_ack_decode :: "link_envelope \<Rightarrow> link_error + scan_result_ack" where
  "scan_result_ack_decode e = (case scan_only_decode e of Inl why \<Rightarrow> Inl why | Inr scan \<Rightarrow> Inr \<lparr>ra_scan = scan\<rparr>)"

record scan_order_verdict =
  sv_outcome :: wifi_scan_outcome

definition scan_order_verdict_pairs :: "scan_order_verdict \<Rightarrow> (writer, cbor_error, unit) act" where
  "scan_order_verdict_pairs x =
     andthen (wr_key 1) (\<lambda>_. wr_u64 (ucast (wifi_scan_outcome_num (sv_outcome x))))"

definition scan_order_verdict_write :: "scan_order_verdict \<Rightarrow> link_header \<Rightarrow> bytes \<Rightarrow> (link_error + nat) \<times> bytes" where
  "scan_order_verdict_write x h dst = link_writing Lk_Cbor h 1 (map_err Lk_Cbor (scan_order_verdict_pairs x)) dst"

record scan_order_verdict_slots =
  svq_outcome :: "wifi_scan_outcome option"

definition scan_order_verdict_empty :: scan_order_verdict_slots where
  "scan_order_verdict_empty = \<lparr>svq_outcome = None\<rparr>"

definition scan_order_verdict_field :: "scan_order_verdict_slots \<Rightarrow> int \<Rightarrow> (reader, wifi_error, scan_order_verdict_slots) act" where
  "scan_order_verdict_field slots number =
     (if number = 1 then
     andthen (map_err We_Cbor rd_u8) (\<lambda>v. andthen (lift_sum (closed wifi_scan_outcome_of (We_Unallocated Wf_Outcome) v)) (\<lambda>w.
     andthen (once (We_Duplicate Wf_Outcome) (svq_outcome slots) w) (\<lambda>t. ret (slots\<lparr>svq_outcome := t\<rparr>))))
      else skipped We_Cbor slots)"

definition scan_order_verdict_complete :: "scan_order_verdict_slots \<Rightarrow> (reader, wifi_error, scan_order_verdict) act" where
  "scan_order_verdict_complete slots =
     andthen (ok_or (We_Missing Wf_Outcome) (svq_outcome slots)) (\<lambda>outcome.
     ret \<lparr>sv_outcome = outcome\<rparr>)"

definition scan_order_verdict_decode :: "link_envelope \<Rightarrow> link_error + scan_order_verdict" where
  "scan_order_verdict_decode =
     link_reading Lk_Cbor (\<lambda>s k. map_err link_of_wifi (scan_order_verdict_field s k)) scan_order_verdict_empty (\<lambda>slots. map_err link_of_wifi (scan_order_verdict_complete slots))"

section \<open>A state and what it owes\<close>

definition radio_ok :: "radio \<Rightarrow> bool" where
  "radio_ok x \<longleftrightarrow> (\<forall>ipv4. x = Radio_Joined ipv4 \<longrightarrow> length ipv4 = 4)"

definition reason_owed :: "radio \<Rightarrow> wifi_failure option" where
  "reason_owed x = (case x of Radio_Failed reason \<Rightarrow> Some reason | _ \<Rightarrow> None)"

definition address_owed :: "radio \<Rightarrow> bytes option" where
  "address_owed x = (case x of Radio_Joined ipv4 \<Rightarrow> Some ipv4 | _ \<Rightarrow> None)"

lemma radio_of_own: "radio_ok x \<Longrightarrow> radio_of (radio_state x) (reason_owed x) (address_owed x) = Inr x"
  by (cases x) (simp_all add: radio_of_def radio_ok_def reason_owed_def address_owed_def)

lemma radio_of_InrD:
  "radio_of state reason ipv4 = Inr x \<Longrightarrow> radio_ok x \<and> state = radio_state x \<and> reason = reason_owed x \<and> ipv4 = address_owed x"
  by (cases state)
    (auto simp: radio_of_def radio_ok_def reason_owed_def address_owed_def split: if_splits option.splits)

lemma status_report_own:
  "radio_ok (rp_radio r) \<Longrightarrow> status_report \<lparr>sk_section = section, sk_version = Some (rp_version r),
     sk_state = Some (radio_state (rp_radio r)), sk_reason = reason_owed (rp_radio r), sk_ipv4 = address_owed (rp_radio r)\<rparr> = Inr (Some r)"
  by (simp add: status_report_def radio_of_own)

lemma status_report_InrD: "status_report k = Inr (Some r) \<Longrightarrow> radio_ok (rp_radio r)"
  by (auto simp: status_report_def split: option.splits sum.splits if_splits dest: radio_of_InrD)

definition owed_fields :: "int \<Rightarrow> radio \<Rightarrow> (int \<times> item) list" where
  "owed_fields first x =
     (case reason_owed x of Some v \<Rightarrow> [(first + 1, IUint (ucast (wifi_failure_num v)))] | None \<Rightarrow> []) @
     (case address_owed x of Some v \<Rightarrow> [(first + 2, IBytes v)] | None \<Rightarrow> [])"

definition status_fields :: "int \<Rightarrow> radio_report \<Rightarrow> (int \<times> item) list" where
  "status_fields first r =
     [(first, IUint (ucast (rp_version r))), (first + 1, IUint (ucast (wifi_state_num (radio_state (rp_radio r)))))] @
     owed_fields (first + 1) (rp_radio r)"

lemma owed_fields_simps [simp]:
  "owed_fields first Radio_Off = []" "owed_fields first Radio_Joining = []"
  "owed_fields first (Radio_Joined ipv4) = [(first + 2, IBytes ipv4)]"
  "owed_fields first (Radio_Failed reason) = [(first + 1, IUint (ucast (wifi_failure_num reason)))]"
  by (simp_all add: owed_fields_def reason_owed_def address_owed_def)

lemma status_fields_length: "length (status_fields first r) = 1 + radio_keys (rp_radio r)"
  by (cases "rp_radio r") (simp_all add: status_fields_def)

lemma radio_writes:
  assumes "0 \<le> first" and "first < 100"
  shows "writes_pairs (radio_encode_into first x)
    ((first, IUint (ucast (wifi_state_num (radio_state x)))) # owed_fields first x)"
proof -
  have "i64_saturating_add first 1 = first + 1" "i64_saturating_add first 2 = first + 2"
    using assms by (simp_all add: i64_saturating_add_def)
  then have "writes_pairs (radio_owed first x) (owed_fields first x)"
    by (cases x; simp only: owed_fields_simps radio_owed.simps) (intro item_rules writes_none)+
  then show ?thesis
    unfolding radio_encode_into_def by (intro item_rules)
qed

lemma status_field_simps:
  "status_field 2 s 1 = andthen (map_err We_Cbor rd_u32) (\<lambda>v.
     andthen (once (We_Duplicate Wf_Section) (sk_section s) v) (\<lambda>t. ret (s\<lparr>sk_section := t\<rparr>)))"
  "status_field first s first = andthen (map_err We_Cbor rd_u32) (\<lambda>v.
     andthen (once (We_Duplicate Wf_Version) (sk_version s) v) (\<lambda>t. ret (s\<lparr>sk_version := t\<rparr>)))"
  "0 < first \<Longrightarrow> status_field first s (first + 1) = andthen (map_err We_Cbor rd_u8) (\<lambda>v. andthen (lift_sum (closed wifi_state_of (We_Unallocated Wf_State) v)) (\<lambda>w.
     andthen (once (We_Duplicate Wf_State) (sk_state s) w) (\<lambda>t. ret (s\<lparr>sk_state := t\<rparr>))))"
  "0 < first \<Longrightarrow> status_field first s (first + 1 + 1) = andthen (map_err We_Cbor rd_u8) (\<lambda>v. andthen (lift_sum (closed wifi_failure_of (We_Unallocated Wf_Reason) v)) (\<lambda>w.
     andthen (once (We_Duplicate Wf_Reason) (sk_reason s) w) (\<lambda>t. ret (s\<lparr>sk_reason := t\<rparr>))))"
  "0 < first \<Longrightarrow> status_field first s (first + 1 + 2) = andthen (map_err We_Cbor rd_byte_string) (\<lambda>v.
     andthen (once (We_Duplicate Wf_Ipv4) (sk_ipv4 s) v) (\<lambda>t. ret (s\<lparr>sk_ipv4 := t\<rparr>)))"
  "0 < first \<Longrightarrow> first + 3 < j \<Longrightarrow> status_field first s j = skipped We_Cbor s"
  by (auto simp: status_field_def)

lemma status_report_reads:
  assumes "0 < first"
  shows "reads_pairs (status_field first) (status_fields first r)
    \<lparr>sk_section = sect, sk_version = None, sk_state = None, sk_reason = None, sk_ipv4 = None\<rparr>
    \<lparr>sk_section = sect, sk_version = Some (rp_version r), sk_state = Some (radio_state (rp_radio r)),
       sk_reason = reason_owed (rp_radio r), sk_ipv4 = address_owed (rp_radio r)\<rparr>"
  unfolding status_fields_def owed_fields_def
  by (rule reads_eq, (rule reads_Nil | rule reads_Cons | rule reads_pairs_append | rule reads_optional
      | simp only: status_field_simps assms | rule slot_rules | rule item_rules wifi_numbers | simp; fail)+)

definition wifi_status_fields :: "wifi_status \<Rightarrow> (int \<times> item) list" where
  "wifi_status_fields x =
     (1, IUint (ucast (ws_section x))) # (case ws_report x of Some r \<Rightarrow> status_fields 2 r | None \<Rightarrow> [])"

definition wifi_status_valid :: "wifi_status \<Rightarrow> bool" where
  "wifi_status_valid x \<longleftrightarrow> (\<forall>r. ws_report x = Some r \<longrightarrow> radio_ok (rp_radio r))"

lemma status_fields_ok:
  assumes "0 < first" and "first < 100"
  shows "ascending None (status_fields first r)" and "shallow room (status_fields first r)" and "known (first + 3) (status_fields first r)"
  using assms by (cases "rp_radio r"; auto simp: status_fields_def good_key_def)+

lemma wifi_status_ok [simp]:
  "ascending None (wifi_status_fields x)" "shallow room (wifi_status_fields x)" "known 5 (wifi_status_fields x)"
  "length (wifi_status_fields x) = wifi_status_keys x"
proof -
  have "ascending None (wifi_status_fields x) \<and> shallow room (wifi_status_fields x) \<and> known 5 (wifi_status_fields x)"
  proof (cases "ws_report x")
    case (Some r)
    then show ?thesis
      by (cases "rp_radio r") (auto simp: wifi_status_fields_def status_fields_def good_key_def)
  qed (auto simp: wifi_status_fields_def good_key_def)
  then show "ascending None (wifi_status_fields x)" "shallow room (wifi_status_fields x)" "known 5 (wifi_status_fields x)"
    by simp_all
  show "length (wifi_status_fields x) = wifi_status_keys x"
    by (simp add: wifi_status_fields_def wifi_status_keys_def status_fields_length split: option.split)
qed

lemma wifi_status_writes: "writes_pairs (wifi_status_pairs x) (wifi_status_fields x)"
proof -
  have inner: "writes_pairs (andthen (map_err We_Cbor (wr_key 2)) (\<lambda>_. andthen (map_err We_Cbor (wr_u64 (ucast (rp_version r)))) (\<lambda>_.
      radio_encode_into 3 (rp_radio r)))) (status_fields 2 r)" for r
    using radio_writes [of 3 "rp_radio r"] by (simp add: status_fields_def writes_Cons_err writes_item_err writes_u64)
  show ?thesis
    unfolding wifi_status_pairs_def wifi_status_fields_def by (intro item_rules writes_option inner)
qed

lemma wifi_status_reads:
  "reads_pairs (status_field 2) (wifi_status_fields x) status_keys_empty
    \<lparr>sk_section = Some (ws_section x), sk_version = map_option rp_version (ws_report x),
     sk_state = map_option (\<lambda>r. radio_state (rp_radio r)) (ws_report x),
     sk_reason = Option.bind (ws_report x) (\<lambda>r. reason_owed (rp_radio r)),
     sk_ipv4 = Option.bind (ws_report x) (\<lambda>r. address_owed (rp_radio r))\<rparr>"
proof -
  let ?s = "status_keys_empty\<lparr>sk_section := Some (ws_section x)\<rparr>"
  have one: "reads_item (status_field 2 status_keys_empty 1) (IUint (ucast (ws_section x))) ?s"
    unfolding status_field_simps
    by (rule slot_rules item_rules | simp add: status_keys_empty_def)+
  show ?thesis
  proof (cases "ws_report x")
    case None
    then show ?thesis
      using one by (simp add: wifi_status_fields_def status_keys_empty_def)
  next
    case (Some r)
    have "reads_pairs (status_field 2) ((1, IUint (ucast (ws_section x))) # status_fields 2 r) status_keys_empty
        \<lparr>sk_section = Some (ws_section x), sk_version = Some (rp_version r), sk_state = Some (radio_state (rp_radio r)),
           sk_reason = reason_owed (rp_radio r), sk_ipv4 = address_owed (rp_radio r)\<rparr>"
      by (rule reads_Cons [of "status_field 2" _ 1 _ ?s])
        (use one status_report_reads [where first = 2 and sect = "Some (ws_section x)" and r = r] in \<open>simp_all add: status_keys_empty_def\<close>)
    then show ?thesis
      by (simp add: wifi_status_fields_def Some)
  qed
qed

interpretation wifi_status: faithful_codec wifi_status_encode wifi_status_decode wifi_status_fields wifi_status_valid 5
proof
  fix x and dst :: bytes
  assume "length (map_bytes (wifi_status_fields x)) \<le> length dst" "length dst \<le> usize_max"
  then show "wifi_status_encode x dst = (Inr (length (map_bytes (wifi_status_fields x))), splice dst 0 (map_bytes (wifi_status_fields x)))"
    unfolding wifi_status_encode_def
    by (intro encodes_item writes_map_err wifi_status_writes) simp_all
next
  fix x fs
  assume x: "wifi_status_valid x" "extends 5 INNER fs" "length (map_bytes (wifi_status_fields x @ fs)) \<le> usize_max"
  show "wifi_status_decode (map_bytes (wifi_status_fields x @ fs)) = Inr x"
    unfolding wifi_status_decode_def
  proof (rule decodes_fields [OF wifi_status_reads _ _ _ x(2) _ x(3)])
    have "status_report \<lparr>sk_section = Some (ws_section x), sk_version = map_option rp_version (ws_report x),
       sk_state = map_option (\<lambda>r. radio_state (rp_radio r)) (ws_report x),
       sk_reason = Option.bind (ws_report x) (\<lambda>r. reason_owed (rp_radio r)),
       sk_ipv4 = Option.bind (ws_report x) (\<lambda>r. address_owed (rp_radio r))\<rparr> = Inr (ws_report x)"
      using x(1) status_report_own [of _ "Some (ws_section x)"]
      by (cases "ws_report x") (auto simp: wifi_status_valid_def status_report_def [of "\<lparr>sk_section = _, sk_version = None, sk_state = None, sk_reason = None, sk_ipv4 = None\<rparr>"])
    then show "runs (andthen (finishing We_Cbor) (\<lambda>_. wifi_status_complete \<lparr>sk_section = Some (ws_section x), sk_version = map_option rp_version (ws_report x),
       sk_state = map_option (\<lambda>r. radio_state (rp_radio r)) (ws_report x),
       sk_reason = Option.bind (ws_report x) (\<lambda>r. reason_owed (rp_radio r)),
       sk_ipv4 = Option.bind (ws_report x) (\<lambda>r. address_owed (rp_radio r))\<rparr>)) r (\<lambda>y _. y = x)" if "reading r [] []" for r
      using that by (auto intro!: runs_andthen runs_finishing simp: wifi_status_complete_def)
  qed (simp_all add: status_field_simps)
next
  fix bs x assume "wifi_status_decode bs = Inr x"
  then obtain k s t where "wifi_status_complete k s = (Inr x, t)"
    unfolding wifi_status_decode_def by (rule body_InrE [where P = "\<lambda>_. True"]) auto
  then show "wifi_status_valid x"
    by (auto simp: wifi_status_complete_def wifi_status_valid_def elim!: andthen_InrE lift_sum_InrE split: option.splits)
      (rule status_report_InrD, assumption)
qed

section \<open>The report on the link, on the wire\<close>

definition radio_report_valid :: "radio_report \<Rightarrow> bool" where
  "radio_report_valid x \<longleftrightarrow> radio_ok (rp_radio x)"

interpretation radio_report: strict_link_codec radio_report_write radio_report_decode "status_fields 1" radio_report_valid 4
proof
  fix x h and dst :: bytes
  assume x: "length (link_bytes h (status_fields 1 x)) \<le> length dst" "length dst \<le> usize_max"
  have "writes_pairs (map_err link_of_wifi (radio_encode_into 2 (rp_radio x)))
      ((2, IUint (ucast (wifi_state_num (radio_state (rp_radio x))))) # owed_fields 2 (rp_radio x))"
    using radio_writes [of 2] by (intro writes_pairs_err) simp
  then have "writes_pairs (andthen (map_err Lk_Cbor (wr_key 1)) (\<lambda>_. andthen (map_err Lk_Cbor (wr_u64 (ucast (rp_version x)))) (\<lambda>_.
      map_err link_of_wifi (radio_encode_into 2 (rp_radio x))))) (status_fields 1 x)"
    unfolding status_fields_def by simp (intro item_rules)
  then show "radio_report_write x h dst = (Inr (length (link_bytes h (status_fields 1 x))), splice dst 0 (link_bytes h (status_fields 1 x)))"
    unfolding radio_report_write_def
    by (rule link_writes_err) (use x status_fields_ok [of 1] in \<open>simp_all add: status_fields_length\<close>)
next
  fix x h fs
  assume x: "radio_report_valid x" "session_ok (lh_session h)" "extends 4 6 fs" "length (link_bytes h (status_fields 1 x @ fs)) \<le> usize_max"
  define k where "k = status_keys_empty\<lparr>sk_version := Some (rp_version x), sk_state := Some (radio_state (rp_radio x)),
       sk_reason := reason_owed (rp_radio x), sk_ipv4 := address_owed (rp_radio x)\<rparr>"
  have reads: "reads_pairs (\<lambda>s k. map_err link_of_wifi (status_field 1 s k)) (status_fields 1 x) status_keys_empty k"
    using status_report_reads [where first = 1 and sect = None and r = x] by (intro reads_pairs_err) (simp add: k_def status_keys_empty_def)
  have "status_report k = Inr (Some x)"
    using x(1) status_report_own [of x None] by (simp add: k_def radio_report_valid_def status_keys_empty_def)
  then have complete: "runs (map_err link_of_wifi (radio_report_complete k)) r (\<lambda>y _. y = x)" for r
    by (auto intro!: runs_map_err runs_andthen simp: radio_report_complete_def)
  show "\<exists>e. link_envelope_decode (link_bytes h (status_fields 1 x @ fs)) = Inr e \<and>
    le_opcode e = link_message_type_num (lh_kind h) \<and> le_session e = lh_session h \<and> le_req_id e = lh_req_id h \<and>
    radio_report_decode e = Inr x"
    unfolding radio_report_decode_def
    by (rule link_reads [where k = 4 and acc' = k])
      (use reads x(2-4) complete status_fields_ok [of 1] in \<open>auto simp: status_field_simps skipped_err link_of_wifi_def comp_def\<close>)
next
  fix e x assume "radio_report_decode e = Inr x"
  then obtain k s t where "map_err link_of_wifi (radio_report_complete k) s = (Inr x, t)"
    unfolding radio_report_decode_def by (rule link_reading_InrE [where P = "\<lambda>_. True"]) auto
  then show "radio_report_valid x"
    by (auto simp: radio_report_complete_def radio_report_valid_def intro: status_report_InrD elim!: andthen_InrE lift_sum_InrE map_err_InrE decode_InrE split: option.splits)
qed

interpretation radio_report_ack: strict_link_codec radio_report_ack_write radio_report_ack_decode "\<lambda>_. []" "\<lambda>_. True" "- 1"
proof
  fix x :: unit and h and dst :: bytes
  assume "length (link_bytes h []) \<le> length dst" "length dst \<le> usize_max"
  then show "radio_report_ack_write x h dst = (Inr (length (link_bytes h [])), splice dst 0 (link_bytes h []))"
    unfolding radio_report_ack_write_def
    using link_writes_err [OF writes_none, of 0 h dst Lk_Cbor] by simp
next
  fix x :: unit and h fs
  assume x: "session_ok (lh_session h)" "extends (- 1) 6 fs" "length (link_bytes h ([] @ fs)) \<le> usize_max"
  show "\<exists>e. link_envelope_decode (link_bytes h ([] @ fs)) = Inr e \<and>
    le_opcode e = link_message_type_num (lh_kind h) \<and> le_session e = lh_session h \<and> le_req_id e = lh_req_id h \<and>
    radio_report_ack_decode e = Inr x"
    unfolding radio_report_ack_decode_def
    by (rule link_reads [OF reads_Nil _ _ _ x(2) _ x(1,3)]) simp_all
qed simp


section \<open>The one-key bodies\<close>

lemma scan_number_InrD: "scan_number v = Inr w \<Longrightarrow> w = v \<and> w \<noteq> 0"
  by (auto simp: scan_number_def split: if_splits)

definition scan_only_fields :: "u32 \<Rightarrow> (int \<times> item) list" where
  "scan_only_fields x =
     [(1, IUint (ucast (x)))]"

definition scan_only_valid :: "u32 \<Rightarrow> bool" where
  "scan_only_valid x \<longleftrightarrow> (x) \<noteq> 0"

lemma scan_only_ok [simp]:
  "ascending None (scan_only_fields x)" "shallow room (scan_only_fields x)" "known 1 (scan_only_fields x)"
  "length (scan_only_fields x) = 1"
  by (auto simp: scan_only_fields_def good_key_def split: option.split)

lemma scan_only_writes:
  assumes "scan_only_valid x"
  shows "writes_pairs (scan_only_pairs x) (scan_only_fields x)"
  unfolding scan_only_pairs_def scan_only_fields_def
  by (intro writes_append writes_option item_rules)

lemma scan_only_field_simps:
  "scan_only_field s 1 = andthen (map_err We_Cbor rd_u32) (\<lambda>v. andthen (lift_sum (scan_number v)) (\<lambda>w.
     andthen (once (We_Duplicate Wf_Scan) (soq_scan s) w) (\<lambda>t. ret (s\<lparr>soq_scan := t\<rparr>))))"
  "1 < j \<Longrightarrow> scan_only_field s j = skipped We_Cbor s"
  by (simp_all add: scan_only_field_def)

lemma scan_only_reads:
  assumes "scan_only_valid x"
  shows "reads_pairs scan_only_field (scan_only_fields x) scan_only_empty
    \<lparr>soq_scan = Some (x)\<rparr>"
proof -
  have ok: "(x) \<noteq> 0"
    using assms by (auto simp: scan_only_valid_def)
  show ?thesis
    by (rule reads_eq, unfold scan_only_fields_def)
      (rule reads_Nil | rule reads_Cons | rule reads_pairs_append, rule reads_optional | rule reads_optional | simp only: scan_only_field_simps
      | rule slot_rules | rule item_rules scan_number_own ok | assumption | simp add: scan_only_empty_def; fail)+
qed

definition scan_only_kept :: "scan_only_slots \<Rightarrow> bool" where
  "scan_only_kept s \<longleftrightarrow> (\<forall>v. soq_scan s = Some v \<longrightarrow> v \<noteq> 0)"

lemma scan_only_none: "scan_only_kept scan_only_empty"
  by (simp add: scan_only_kept_def scan_only_empty_def)

lemma scan_only_keeps:
  assumes "scan_only_kept a" and "scan_only_field a k s = (Inr a', s')"
  shows "scan_only_kept a'"
  using assms by (auto simp: scan_only_field_def scan_only_kept_def elim!: slot_InrE plain_slot_InrE map_err_InrE skipped_InrE dest: scan_number_InrD split: if_splits)

interpretation scan_only: strict_link_codec scan_only_write scan_only_decode scan_only_fields scan_only_valid 1
proof
  fix x h and dst :: bytes
  assume x: "scan_only_valid x" "length (link_bytes h (scan_only_fields x)) \<le> length dst" "length dst \<le> usize_max"
  then show "scan_only_write x h dst = (Inr (length (link_bytes h (scan_only_fields x))), splice dst 0 (link_bytes h (scan_only_fields x)))"
    unfolding scan_only_write_def by (simp add: link_writes [OF scan_only_writes [OF x(1)]])
next
  fix x h fs
  assume x: "scan_only_valid x" "session_ok (lh_session h)" "extends 1 6 fs" "length (link_bytes h (scan_only_fields x @ fs)) \<le> usize_max"
  show "\<exists>e. link_envelope_decode (link_bytes h (scan_only_fields x @ fs)) = Inr e \<and>
    le_opcode e = link_message_type_num (lh_kind h) \<and> le_session e = lh_session h \<and> le_req_id e = lh_req_id h \<and>
    scan_only_decode e = Inr x"
    unfolding scan_only_decode_def
    by (rule link_reads [OF reads_pairs_err [OF scan_only_reads [OF x(1)]] _ _ _ x(3) _ x(2) x(4)])
      (auto intro!: runs_andthen runs_map_err simp: scan_only_complete_def scan_only_field_simps skipped_err link_of_wifi_def comp_def)
next
  fix e x assume "scan_only_decode e = Inr x"
  then obtain slots s t where "scan_only_kept slots" "map_err link_of_wifi (scan_only_complete slots) s = (Inr x, t)"
    unfolding scan_only_decode_def by (rule link_reading_InrE [where P = scan_only_kept, OF _ scan_only_none]) (blast elim: map_err_InrE intro: scan_only_keeps)+
  then show "scan_only_valid x"
    by (auto simp: scan_only_complete_def scan_only_kept_def scan_only_valid_def elim!: decode_InrE map_err_InrE)
qed

interpretation scan_order: strict_link_codec scan_order_write scan_order_decode "\<lambda>x. scan_only_fields (so_scan x)" "\<lambda>x. scan_only_valid (so_scan x)" 1
proof
  fix e and x :: scan_order assume "scan_order_decode e = Inr x"
  then show "scan_only_valid (so_scan x)"
    by (auto simp: scan_order_decode_def split: sum.splits dest: scan_only.decode_strict)
next
  fix x :: scan_order and h fs
  assume "scan_only_valid (so_scan x)" "session_ok (lh_session h)" "extends 1 6 fs" "length (link_bytes h (scan_only_fields (so_scan x) @ fs)) \<le> usize_max"
  then show "\<exists>e. link_envelope_decode (link_bytes h (scan_only_fields (so_scan x) @ fs)) = Inr e \<and>
    le_opcode e = link_message_type_num (lh_kind h) \<and> le_session e = lh_session h \<and> le_req_id e = lh_req_id h \<and> scan_order_decode e = Inr x"
    using scan_only.decode_link [of "so_scan x" h fs] by (auto simp: scan_order_decode_def)
qed (simp_all add: scan_order_write_def scan_only.put_link)

interpretation scan_result_ack: strict_link_codec scan_result_ack_write scan_result_ack_decode "\<lambda>x. scan_only_fields (ra_scan x)" "\<lambda>x. scan_only_valid (ra_scan x)" 1
proof
  fix e and x :: scan_result_ack assume "scan_result_ack_decode e = Inr x"
  then show "scan_only_valid (ra_scan x)"
    by (auto simp: scan_result_ack_decode_def split: sum.splits dest: scan_only.decode_strict)
next
  fix x :: scan_result_ack and h fs
  assume "scan_only_valid (ra_scan x)" "session_ok (lh_session h)" "extends 1 6 fs" "length (link_bytes h (scan_only_fields (ra_scan x) @ fs)) \<le> usize_max"
  then show "\<exists>e. link_envelope_decode (link_bytes h (scan_only_fields (ra_scan x) @ fs)) = Inr e \<and>
    le_opcode e = link_message_type_num (lh_kind h) \<and> le_session e = lh_session h \<and> le_req_id e = lh_req_id h \<and> scan_result_ack_decode e = Inr x"
    using scan_only.decode_link [of "ra_scan x" h fs] by (auto simp: scan_result_ack_decode_def)
qed (simp_all add: scan_result_ack_write_def scan_only.put_link)

definition scan_order_verdict_fields :: "scan_order_verdict \<Rightarrow> (int \<times> item) list" where
  "scan_order_verdict_fields x =
     [(1, IUint (ucast (wifi_scan_outcome_num (sv_outcome x))))]"

lemma scan_order_verdict_ok [simp]:
  "ascending None (scan_order_verdict_fields x)" "shallow room (scan_order_verdict_fields x)" "known 1 (scan_order_verdict_fields x)"
  "length (scan_order_verdict_fields x) = 1"
  by (auto simp: scan_order_verdict_fields_def good_key_def split: option.split)

lemma scan_order_verdict_writes:
  shows "writes_pairs (scan_order_verdict_pairs x) (scan_order_verdict_fields x)"
  unfolding scan_order_verdict_pairs_def scan_order_verdict_fields_def
  by (intro writes_append writes_option item_rules)

lemma scan_order_verdict_field_simps:
  "scan_order_verdict_field s 1 = andthen (map_err We_Cbor rd_u8) (\<lambda>v. andthen (lift_sum (closed wifi_scan_outcome_of (We_Unallocated Wf_Outcome) v)) (\<lambda>w.
     andthen (once (We_Duplicate Wf_Outcome) (svq_outcome s) w) (\<lambda>t. ret (s\<lparr>svq_outcome := t\<rparr>))))"
  "1 < j \<Longrightarrow> scan_order_verdict_field s j = skipped We_Cbor s"
  by (simp_all add: scan_order_verdict_field_def)

lemma scan_order_verdict_reads:
  shows "reads_pairs scan_order_verdict_field (scan_order_verdict_fields x) scan_order_verdict_empty
    \<lparr>svq_outcome = Some (sv_outcome x)\<rparr>"
  by (rule reads_eq, unfold scan_order_verdict_fields_def)
    (rule reads_Nil | rule reads_Cons | rule reads_pairs_append, rule reads_optional | rule reads_optional | simp only: scan_order_verdict_field_simps
      | rule slot_rules | rule item_rules wifi_numbers | assumption | simp add: scan_order_verdict_empty_def; fail)+

interpretation scan_order_verdict: strict_link_codec scan_order_verdict_write scan_order_verdict_decode scan_order_verdict_fields "\<lambda>_. True" 1
proof
  fix x h and dst :: bytes
  assume x: "length (link_bytes h (scan_order_verdict_fields x)) \<le> length dst" "length dst \<le> usize_max"
  then show "scan_order_verdict_write x h dst = (Inr (length (link_bytes h (scan_order_verdict_fields x))), splice dst 0 (link_bytes h (scan_order_verdict_fields x)))"
    unfolding scan_order_verdict_write_def by (simp add: link_writes [OF scan_order_verdict_writes])
next
  fix x h fs
  assume x: "session_ok (lh_session h)" "extends 1 6 fs" "length (link_bytes h (scan_order_verdict_fields x @ fs)) \<le> usize_max"
  show "\<exists>e. link_envelope_decode (link_bytes h (scan_order_verdict_fields x @ fs)) = Inr e \<and>
    le_opcode e = link_message_type_num (lh_kind h) \<and> le_session e = lh_session h \<and> le_req_id e = lh_req_id h \<and>
    scan_order_verdict_decode e = Inr x"
    unfolding scan_order_verdict_decode_def
    by (rule link_reads [OF reads_pairs_err [OF scan_order_verdict_reads] _ _ _ x(2) _ x(1) x(3)])
      (auto intro!: runs_andthen runs_map_err simp: scan_order_verdict_complete_def scan_order_verdict_field_simps skipped_err link_of_wifi_def comp_def)
qed simp_all

section \<open>Properties\<close>

lemma radio_report_shown_parts:
  assumes "radio_ok (rp_radio report)" and "session_ok (lh_session h)"
    and "length (link_bytes h (status_fields 1 report)) \<le> length link" and "length link \<le> usize_max"
    and "length (map_bytes (wifi_status_fields \<lparr>ws_section = section, ws_report = Some report\<rparr>)) \<le> length dst" and "length dst \<le> usize_max"
  shows "\<exists>n out e m body. radio_report_write report h link = (Inr n, out) \<and> link_envelope_decode (take n out) = Inr e \<and>
      radio_report_decode e = Inr report \<and>
      wifi_status_encode \<lparr>ws_section = section, ws_report = Some report\<rparr> dst = (Inr m, body) \<and>
      wifi_status_decode (take m body) = Inr \<lparr>ws_section = section, ws_report = Some report\<rparr> \<and>
      wifi_changed_decode (take m body) = Inr \<lparr>wc_section = section, wc_report = report\<rparr> \<and>
      wifi_changed_encode \<lparr>wc_section = section, wc_report = report\<rparr> dst =
        (if rp_radio report = Radio_Joining then (Inl We_JoiningIsNotRecorded, dst) else (Inr m, body))"
    and "wifi_changed_decode bs = Inr x \<Longrightarrow> radio_ok (rp_radio (wc_report x))"
    and "radio_report_decode e' = Inr report' \<Longrightarrow> radio_ok (rp_radio report')"
proof -
  let ?status = "\<lparr>ws_section = section, ws_report = Some report\<rparr>"
  obtain n out e where hop: "radio_report_write report h link = (Inr n, out)" "link_envelope_decode (take n out) = Inr e"
    "radio_report_decode e = Inr report"
    using radio_report.crosses [OF _ assms(2-4)] assms(1) by (auto simp: radio_report_valid_def)
  obtain m body where shown: "wifi_status_encode ?status dst = (Inr m, body)" "wifi_status_decode (take m body) = Inr ?status"
    using wifi_status.round_trip [OF _ assms(5,6)] assms(1) by (auto simp: wifi_status_valid_def)
  have "wifi_changed_decode (take m body) = Inr \<lparr>wc_section = section, wc_report = report\<rparr>"
    using shown(2) by (simp add: wifi_changed_decode_def)
  then show "\<exists>n out e m body. radio_report_write report h link = (Inr n, out) \<and> link_envelope_decode (take n out) = Inr e \<and>
      radio_report_decode e = Inr report \<and> wifi_status_encode ?status dst = (Inr m, body) \<and>
      wifi_status_decode (take m body) = Inr ?status \<and>
      wifi_changed_decode (take m body) = Inr \<lparr>wc_section = section, wc_report = report\<rparr> \<and>
      wifi_changed_encode \<lparr>wc_section = section, wc_report = report\<rparr> dst =
        (if rp_radio report = Radio_Joining then (Inl We_JoiningIsNotRecorded, dst) else (Inr m, body))"
    using hop shown by (auto simp: wifi_changed_encode_def)
  show "radio_ok (rp_radio (wc_report x))" if "wifi_changed_decode bs = Inr x"
    using that wifi_status.decode_valid [of bs]
    by (fastforce simp: wifi_changed_decode_def wifi_status_valid_def split: sum.splits option.splits)
  show "radio_ok (rp_radio report')" if "radio_report_decode e' = Inr report'"
    using radio_report.decode_strict [OF that] by (simp add: radio_report_valid_def)
qed

text \<open>C7. A radio's report crosses the link whole, and what the controller then shows a client, and records
  unless the radio is only joining, reads as that report; a \<open>joining\<close> report is refused for the record.
  Whatever bytes decode to a status, an event or a link report, a failure has a reason, a joined radio four
  bytes of address, and they are written again the same.\<close>

theorem radio_report_shown:
  assumes "radio_ok (rp_radio report)" and "session_ok (lh_session h)"
    and "length (link_bytes h (status_fields 1 report)) \<le> length link" and "length link \<le> usize_max"
    and "length (map_bytes (wifi_status_fields \<lparr>ws_section = section, ws_report = Some report\<rparr>)) \<le> length dst" and "length dst \<le> usize_max"
  shows "(\<exists>n out e m body. radio_report_write report h link = (Inr n, out) \<and> link_envelope_decode (take n out) = Inr e \<and>
      radio_report_decode e = Inr report \<and>
      wifi_status_encode \<lparr>ws_section = section, ws_report = Some report\<rparr> dst = (Inr m, body) \<and>
      wifi_status_decode (take m body) = Inr \<lparr>ws_section = section, ws_report = Some report\<rparr> \<and>
      wifi_changed_decode (take m body) = Inr \<lparr>wc_section = section, wc_report = report\<rparr> \<and>
      wifi_changed_encode \<lparr>wc_section = section, wc_report = report\<rparr> dst =
        (if rp_radio report = Radio_Joining then (Inl We_JoiningIsNotRecorded, dst) else (Inr m, body))) \<and>
    (wifi_changed_decode bs = Inr x \<longrightarrow> radio_ok (rp_radio (wc_report x))) \<and>
    (radio_report_decode e' = Inr report' \<longrightarrow> radio_ok (rp_radio report'))"
  by (rule conjI [OF radio_report_shown_parts(1) [OF assms]
    conjI [OF impI [OF radio_report_shown_parts(2) [OF assms]]
    impI [OF radio_report_shown_parts(3) [OF assms]]]])

lemma radio_report_shown_witness:
  "\<exists>n out e m body. radio_report_write \<lparr>rp_version = 3, rp_radio = Radio_Joined [10, 0, 0, 2]\<rparr> scan_header (replicate 40 0) = (Inr n, out) \<and>
     link_envelope_decode (take n out) = Inr e \<and> radio_report_decode e = Inr \<lparr>rp_version = 3, rp_radio = Radio_Joined [10, 0, 0, 2]\<rparr> \<and>
     wifi_changed_encode \<lparr>wc_section = 4, wc_report = \<lparr>rp_version = 3, rp_radio = Radio_Joined [10, 0, 0, 2]\<rparr>\<rparr> (replicate 40 0) = (Inr m, body) \<and>
     wifi_changed_decode (take m body) = Inr \<lparr>wc_section = 4, wc_report = \<lparr>rp_version = 3, rp_radio = Radio_Joined [10, 0, 0, 2]\<rparr>\<rparr>"
proof -
  let ?r = "\<lparr>rp_version = 3, rp_radio = Radio_Joined [10, 0, 0, 2]\<rparr>"
  have "length (link_bytes scan_header (status_fields 1 ?r)) \<le> 40"
    "length (map_bytes (wifi_status_fields \<lparr>ws_section = 4, ws_report = Some ?r\<rparr>)) \<le> 40"
    using length_link_bytes [of scan_header "status_fields 1 ?r"]
    by (simp_all add: status_fields_def wifi_status_fields_def map_bytes_eq)
  then show ?thesis
    using radio_report_shown [of ?r scan_header "replicate 40 0" 4 "replicate 40 0", THEN conjunct1]
    by (auto simp: scan_header_def usize_max_def radio_ok_def)
qed


end
