(* ===== verification/Config.thy ===== *)
theory Config
  imports Wifi_Scan Net_Origin Refusal_Rules
begin

text \<open>
  \<open>crates/km43/src/config.rs\<close>: the bodies of the configuration sections. Every body is read structure
  first and values after, so what is malformed is answered error 1 and what the schema forbids outcome 3.
  The network section has two shapes: a write carries the passphrase and an answer has no field for one.
  A text newtype is its bytes and the function that makes it; a \<open>str\<close> is UTF-8 bytes.
\<close>

definition MAX_HOSTNAME :: nat where "MAX_HOSTNAME = 32"
definition MAX_IDENTITY_BYTES :: nat where "MAX_IDENTITY_BYTES = 36"
definition MAX_BEHAVIOUR_BYTES :: nat where "MAX_BEHAVIOUR_BYTES = 3"
definition MAX_NETWORK_WRITE_BYTES :: nat where "MAX_NETWORK_WRITE_BYTES = 141"
definition MAX_NETWORK_READ_BYTES :: nat where "MAX_NETWORK_READ_BYTES = 77"

section \<open>Keys and errors\<close>

text \<open>\<open>BusesAndDevicesKey\<close> of \<open>buses_devices.rs\<close>, whose errors are configuration errors too.\<close>

datatype buses_key =
    Bk_Buses | Bk_Devices | Bk_Bus | Bk_Rate | Bk_DataBits | Bk_Parity | Bk_StopBits | Bk_Dev | Bk_DeviceBus
  | Bk_Addr | Bk_Product | Bk_Dialect | Bk_Role | Bk_Parent | Bk_Options | Bk_Option device_option

primrec buses_key_number :: "buses_key \<Rightarrow> int" where
  "buses_key_number Bk_Buses = 1"
| "buses_key_number Bk_Bus = 1"
| "buses_key_number Bk_Dev = 1"
| "buses_key_number Bk_Devices = 2"
| "buses_key_number Bk_Rate = 2"
| "buses_key_number Bk_DeviceBus = 2"
| "buses_key_number Bk_DataBits = 3"
| "buses_key_number Bk_Addr = 3"
| "buses_key_number Bk_Parity = 4"
| "buses_key_number Bk_Product = 4"
| "buses_key_number Bk_StopBits = 5"
| "buses_key_number Bk_Dialect = 5"
| "buses_key_number Bk_Role = 6"
| "buses_key_number Bk_Parent = 7"
| "buses_key_number Bk_Options = 8"
| "buses_key_number (Bk_Option option) = uint (device_option_num option)"

datatype section_key =
    Sk_SiteName | Sk_Shadow | Sk_Ssid | Sk_Psk | Sk_PskSet | Sk_Country | Sk_Hostname
  | Sk_BusesAndDevices buses_key

primrec section_key_number :: "section_key \<Rightarrow> int" where
  "section_key_number Sk_SiteName = 1"
| "section_key_number Sk_Ssid = 1"
| "section_key_number Sk_Shadow = uint (behaviour_key_num BehaviourKey_Shadow)"
| "section_key_number Sk_Psk = 2"
| "section_key_number Sk_PskSet = 3"
| "section_key_number Sk_Country = 4"
| "section_key_number Sk_Hostname = 5"
| "section_key_number (Sk_BusesAndDevices key) = buses_key_number key"

definition network_key :: "int \<Rightarrow> section_key option" where
  "network_key number =
     (if number = 1 then Some Sk_Ssid
      else if number = 2 then Some Sk_Psk
      else if number = 3 then Some Sk_PskSet
      else if number = 4 then Some Sk_Country
      else if number = 5 then Some Sk_Hostname
      else None)"

datatype config_error =
    Ce_Missing section_key
  | Ce_Duplicate section_key
  | Ce_Cbor cbor_error
  | Ce_Length section_key nat
  | Ce_CountryNotCapitals
  | Ce_NotAHostname
  | Ce_PassphraseWithoutNetwork
  | Ce_ConfigOnly section_key
  | Ce_SecretInConfig section_key
  | Ce_NoPassphraseHeld
  | Ce_PassphraseForAnotherNetwork
  | Ce_NothingSet section_key
  | Ce_UnknownValue section_key
  | Ce_OutOfOrder section_key
  | Ce_OutOfSchema section_key
  | Ce_TooMany section_key
  | Ce_UnknownOption int
  | Ce_UnknownBus u8
  | Ce_BusTwice u8
  | Ce_NotOnTransport u8 section_key
  | Ce_AddrRequired u8
  | Ce_AddrNotAddressed u8
  | Ce_AddrTwice u8
  | Ce_DialectNotCarried u16 u8
  | Ce_OptionNotInDialect device_option u16
  | Ce_PollTooShort u16 u32
  | Ce_UnknownDev u16
  | Ce_DevTwice u16
  | Ce_DeviceChanged u16
  | Ce_DevsExhausted
  | Ce_ParentNotListed u16
  | Ce_ParentLoop u16
  | Ce_TooDeep u16
  | Ce_AllocatorBehind u16

datatype section_refusal =
    RefuseError error_code
  | RefuseOutcome set_config_outcome

primrec config_answer :: "config_error \<Rightarrow> section_refusal" where
  "config_answer (Ce_Missing _) = RefuseError Ec_MalformedFrame"
| "config_answer (Ce_Duplicate _) = RefuseError Ec_MalformedFrame"
| "config_answer (Ce_Cbor _) = RefuseError Ec_MalformedFrame"
| "config_answer (Ce_SecretInConfig _) = RefuseError Ec_MalformedFrame"
| "config_answer (Ce_NothingSet _) = RefuseError Ec_MalformedFrame"
| "config_answer (Ce_UnknownValue _) = RefuseError Ec_MalformedFrame"
| "config_answer (Ce_OutOfOrder _) = RefuseError Ec_MalformedFrame"
| "config_answer (Ce_Length _ _) = RefuseOutcome Sco_Invalid"
| "config_answer Ce_CountryNotCapitals = RefuseOutcome Sco_Invalid"
| "config_answer Ce_NotAHostname = RefuseOutcome Sco_Invalid"
| "config_answer Ce_PassphraseWithoutNetwork = RefuseOutcome Sco_Invalid"
| "config_answer (Ce_ConfigOnly _) = RefuseOutcome Sco_Invalid"
| "config_answer Ce_NoPassphraseHeld = RefuseOutcome Sco_Invalid"
| "config_answer Ce_PassphraseForAnotherNetwork = RefuseOutcome Sco_Invalid"
| "config_answer (Ce_OutOfSchema _) = RefuseOutcome Sco_Invalid"
| "config_answer (Ce_TooMany _) = RefuseOutcome Sco_Invalid"
| "config_answer (Ce_UnknownOption _) = RefuseOutcome Sco_Invalid"
| "config_answer (Ce_UnknownBus _) = RefuseOutcome Sco_Invalid"
| "config_answer (Ce_BusTwice _) = RefuseOutcome Sco_Invalid"
| "config_answer (Ce_NotOnTransport _ _) = RefuseOutcome Sco_Invalid"
| "config_answer (Ce_AddrRequired _) = RefuseOutcome Sco_Invalid"
| "config_answer (Ce_AddrNotAddressed _) = RefuseOutcome Sco_Invalid"
| "config_answer (Ce_AddrTwice _) = RefuseOutcome Sco_Invalid"
| "config_answer (Ce_DialectNotCarried _ _) = RefuseOutcome Sco_Invalid"
| "config_answer (Ce_OptionNotInDialect _ _) = RefuseOutcome Sco_Invalid"
| "config_answer (Ce_PollTooShort _ _) = RefuseOutcome Sco_Invalid"
| "config_answer (Ce_UnknownDev _) = RefuseOutcome Sco_Invalid"
| "config_answer (Ce_DevTwice _) = RefuseOutcome Sco_Invalid"
| "config_answer (Ce_DeviceChanged _) = RefuseOutcome Sco_Invalid"
| "config_answer Ce_DevsExhausted = RefuseOutcome Sco_Invalid"
| "config_answer (Ce_ParentNotListed _) = RefuseOutcome Sco_Invalid"
| "config_answer (Ce_ParentLoop _) = RefuseOutcome Sco_Invalid"
| "config_answer (Ce_TooDeep _) = RefuseOutcome Sco_Invalid"
| "config_answer (Ce_AllocatorBehind _) = RefuseOutcome Sco_Invalid"

section \<open>Values\<close>

definition within :: "section_key \<Rightarrow> bytes \<Rightarrow> nat \<Rightarrow> nat \<Rightarrow> config_error + unit" where
  "within key text' shortest longest =
     (if length text' < shortest \<or> longest < length text' then Inl (Ce_Length key (length text')) else Inr ())"

definition within_new :: "section_key \<Rightarrow> nat \<Rightarrow> nat \<Rightarrow> bytes \<Rightarrow> config_error + bytes" where
  "within_new key shortest longest text' =
     (case within key text' shortest longest of Inr _ \<Rightarrow> Inr text' | Inl why \<Rightarrow> Inl why)"

definition site_name_new :: "bytes \<Rightarrow> config_error + bytes" where
  "site_name_new = within_new Sk_SiteName 1 MAX_LABEL"

definition ssid_new :: "bytes \<Rightarrow> config_error + bytes" where
  "ssid_new = within_new Sk_Ssid 1 MAX_SSID"

definition psk_new :: "bytes \<Rightarrow> config_error + bytes" where
  "psk_new = within_new Sk_Psk PSK_SHORTEST PSK_LONGEST"

definition capital :: "u8 \<Rightarrow> bool" where
  "capital b \<longleftrightarrow> 0x41 \<le> b \<and> b \<le> 0x5A"

definition country_new :: "bytes \<Rightarrow> config_error + bytes" where
  "country_new text' =
     (if length text' \<noteq> COUNTRY_BYTES then Inl (Ce_Length Sk_Country (length text'))
      else case text' of
        [a, b] \<Rightarrow> if capital a \<and> capital b then Inr text' else Inl Ce_CountryNotCapitals
      | _ \<Rightarrow> Inl Ce_CountryNotCapitals)"

definition ascii_alphanumeric :: "u8 \<Rightarrow> bool" where
  "ascii_alphanumeric b \<longleftrightarrow> 0x30 \<le> b \<and> b \<le> 0x39 \<or> 0x41 \<le> b \<and> b \<le> 0x5A \<or> 0x61 \<le> b \<and> b \<le> 0x7A"

definition hostname_new :: "bytes \<Rightarrow> config_error + bytes" where
  "hostname_new text' =
     (case within Sk_Hostname text' 1 MAX_HOSTNAME of
        Inl why \<Rightarrow> Inl why
      | Inr _ \<Rightarrow>
          if \<not> list_all (\<lambda>b. ascii_alphanumeric b \<or> b = 0x2D) text' \<or> text' \<noteq> [] \<and> hd text' = 0x2D \<or> text' \<noteq> [] \<and> List.last text' = 0x2D
          then Inl Ce_NotAHostname
          else Inr text')"

section \<open>Identity and behaviour\<close>

record identity_section =
  is_site_name :: bytes

definition identity_pairs :: "identity_section \<Rightarrow> (writer, cbor_error, unit) act" where
  "identity_pairs x = andthen (wr_key (section_key_number Sk_SiteName)) (\<lambda>_. wr_text (is_site_name x))"

definition identity_encode :: "identity_section \<Rightarrow> bytes \<Rightarrow> (config_error + nat) \<times> bytes" where
  "identity_encode x = encoding Ce_Cbor (map_err Ce_Cbor (andthen (wr_map 1) (\<lambda>_. identity_pairs x)))"

definition identity_field :: "bytes option \<Rightarrow> int \<Rightarrow> (reader, config_error, bytes option) act" where
  "identity_field slot number =
     (if number = 1 then andthen (map_err Ce_Cbor rd_text) (\<lambda>v. andthen (once (Ce_Duplicate Sk_SiteName) slot v) ret)
      else skipped Ce_Cbor slot)"

definition identity_complete :: "bytes option \<Rightarrow> (reader, config_error, identity_section) act" where
  "identity_complete slot =
     andthen (ok_or (Ce_Missing Sk_SiteName) slot) (\<lambda>v.
     andthen (lift_sum (site_name_new v)) (\<lambda>site_name. ret \<lparr>is_site_name = site_name\<rparr>))"

definition identity_decode :: "bytes \<Rightarrow> config_error + identity_section" where
  "identity_decode = decoding (
     andthen (map_fields Ce_Cbor identity_field None) (\<lambda>slot.
     andthen (finishing Ce_Cbor) (\<lambda>_. identity_complete slot)))"

record behaviour_section =
  bs_shadow :: bool

definition behaviour_pairs :: "behaviour_section \<Rightarrow> (writer, cbor_error, unit) act" where
  "behaviour_pairs x = andthen (wr_key (section_key_number Sk_Shadow)) (\<lambda>_. wr_bool (bs_shadow x))"

definition behaviour_encode :: "behaviour_section \<Rightarrow> bytes \<Rightarrow> (config_error + nat) \<times> bytes" where
  "behaviour_encode x = encoding Ce_Cbor (map_err Ce_Cbor (andthen (wr_map 1) (\<lambda>_. behaviour_pairs x)))"

definition behaviour_field :: "bool option \<Rightarrow> int \<Rightarrow> (reader, config_error, bool option) act" where
  "behaviour_field slot number =
     (if number = section_key_number Sk_Shadow then
        andthen (map_err Ce_Cbor rd_bool) (\<lambda>v. andthen (once (Ce_Duplicate Sk_Shadow) slot v) ret)
      else skipped Ce_Cbor slot)"

definition behaviour_complete :: "bool option \<Rightarrow> (reader, config_error, behaviour_section) act" where
  "behaviour_complete slot = andthen (ok_or (Ce_Missing Sk_Shadow) slot) (\<lambda>shadow. ret \<lparr>bs_shadow = shadow\<rparr>)"

definition behaviour_decode :: "bytes \<Rightarrow> config_error + behaviour_section" where
  "behaviour_decode = decoding (
     andthen (map_fields Ce_Cbor behaviour_field None) (\<lambda>slot.
     andthen (finishing Ce_Cbor) (\<lambda>_. behaviour_complete slot)))"

section \<open>The network\<close>

record join_write =
  jw_ssid :: bytes
  jw_psk :: "bytes option"

record network_write =
  nw_join :: "join_write option"
  nw_country :: bytes
  nw_hostname :: bytes

datatype passphrase_change = Passphrase_Set bytes | Passphrase_Keep | Passphrase_Clear

definition network_common_pairs :: "bytes \<Rightarrow> bytes \<Rightarrow> (writer, cbor_error, unit) act" where
  "network_common_pairs country hostname =
     andthen (wr_key (section_key_number Sk_Country)) (\<lambda>_. andthen (wr_text country) (\<lambda>_.
     andthen (wr_key (section_key_number Sk_Hostname)) (\<lambda>_. wr_text hostname)))"

definition network_write_keys :: "network_write \<Rightarrow> nat" where
  "network_write_keys x =
     (case nw_join x of
        None \<Rightarrow> 2
      | Some j \<Rightarrow> (case jw_psk j of None \<Rightarrow> 3 | Some _ \<Rightarrow> 4))"

definition network_write_pairs :: "network_write \<Rightarrow> (writer, cbor_error, unit) act" where
  "network_write_pairs x =
     andthen
       (case nw_join x of Some j \<Rightarrow>
          andthen (wr_key (section_key_number Sk_Ssid)) (\<lambda>_. andthen (wr_text (jw_ssid j)) (\<lambda>_.
          case jw_psk j of Some v \<Rightarrow> andthen (wr_key (section_key_number Sk_Psk)) (\<lambda>_. wr_text v) | None \<Rightarrow> ret ()))
        | None \<Rightarrow> ret ())
       (\<lambda>_. network_common_pairs (nw_country x) (nw_hostname x))"

definition network_write_encode :: "network_write \<Rightarrow> bytes \<Rightarrow> (config_error + nat) \<times> bytes" where
  "network_write_encode x =
     encoding Ce_Cbor (map_err Ce_Cbor (andthen (wr_map (network_write_keys x)) (\<lambda>_. network_write_pairs x)))"

text \<open>\<open>NetworkText\<close> with the \<open>psk_set\<close> and, in an answer, the mark of a passphrase beside it.\<close>

record network_slots =
  nq_ssid :: "bytes option"
  nq_psk :: "bytes option"
  nq_psk_set :: "bool option"
  nq_country :: "bytes option"
  nq_hostname :: "bytes option"
  nq_secret :: "unit option"

definition network_empty :: network_slots where
  "network_empty = \<lparr>nq_ssid = None, nq_psk = None, nq_psk_set = None, nq_country = None, nq_hostname = None,
     nq_secret = None\<rparr>"

definition text_into :: "section_key \<Rightarrow> bytes option \<Rightarrow> (bytes option \<Rightarrow> network_slots) \<Rightarrow> (reader, config_error, network_slots) act" where
  "text_into key slot upd = andthen (map_err Ce_Cbor rd_text) (\<lambda>v. andthen (once (Ce_Duplicate key) slot v) (\<lambda>t. ret (upd t)))"

definition network_write_field :: "network_slots \<Rightarrow> int \<Rightarrow> (reader, config_error, network_slots) act" where
  "network_write_field s number =
     (case network_key number of
        Some Sk_Ssid \<Rightarrow> text_into Sk_Ssid (nq_ssid s) (\<lambda>t. s\<lparr>nq_ssid := t\<rparr>)
      | Some Sk_Psk \<Rightarrow> text_into Sk_Psk (nq_psk s) (\<lambda>t. s\<lparr>nq_psk := t\<rparr>)
      | Some Sk_PskSet \<Rightarrow>
          andthen (map_err Ce_Cbor rd_bool) (\<lambda>v. andthen (once (Ce_Duplicate Sk_PskSet) (nq_psk_set s) v) (\<lambda>t. ret (s\<lparr>nq_psk_set := t\<rparr>)))
      | Some Sk_Country \<Rightarrow> text_into Sk_Country (nq_country s) (\<lambda>t. s\<lparr>nq_country := t\<rparr>)
      | Some Sk_Hostname \<Rightarrow> text_into Sk_Hostname (nq_hostname s) (\<lambda>t. s\<lparr>nq_hostname := t\<rparr>)
      | _ \<Rightarrow> skipped Ce_Cbor s)"

definition network_common :: "network_slots \<Rightarrow> config_error + bytes \<times> bytes" where
  "network_common s =
     (case nq_country s of
        None \<Rightarrow> Inl (Ce_Missing Sk_Country)
      | Some country \<Rightarrow>
          (case nq_hostname s of
             None \<Rightarrow> Inl (Ce_Missing Sk_Hostname)
           | Some hostname \<Rightarrow>
               (case country_new country of
                  Inl why \<Rightarrow> Inl why
                | Inr c \<Rightarrow> (case hostname_new hostname of Inl why \<Rightarrow> Inl why | Inr h \<Rightarrow> Inr (c, h)))))"

definition join_write_of :: "bytes option \<Rightarrow> bytes option \<Rightarrow> config_error + join_write option" where
  "join_write_of ssid psk =
     (case (ssid, psk) of
        (None, None) \<Rightarrow> Inr None
      | (None, Some _) \<Rightarrow> Inl Ce_PassphraseWithoutNetwork
      | (Some ssid, psk) \<Rightarrow>
          (case ssid_new ssid of
             Inl why \<Rightarrow> Inl why
           | Inr ssid \<Rightarrow>
               (case psk of
                  None \<Rightarrow> Inr (Some \<lparr>jw_ssid = ssid, jw_psk = None\<rparr>)
                | Some psk \<Rightarrow>
                    (case psk_new psk of Inl why \<Rightarrow> Inl why | Inr psk \<Rightarrow> Inr (Some \<lparr>jw_ssid = ssid, jw_psk = Some psk\<rparr>)))))"

definition network_write_complete :: "network_slots \<Rightarrow> (reader, config_error, network_write) act" where
  "network_write_complete s =
     andthen (lift_sum (network_common s)) (\<lambda>(country, hostname).
     if nq_psk_set s \<noteq> None then fail (Ce_ConfigOnly Sk_PskSet)
     else andthen (lift_sum (join_write_of (nq_ssid s) (nq_psk s))) (\<lambda>join.
       ret \<lparr>nw_join = join, nw_country = country, nw_hostname = hostname\<rparr>))"

definition network_write_decode :: "bytes \<Rightarrow> config_error + network_write" where
  "network_write_decode = decoding (
     andthen (map_fields Ce_Cbor network_write_field network_empty) (\<lambda>s.
     andthen (finishing Ce_Cbor) (\<lambda>_. network_write_complete s)))"

definition network_passphrase :: "network_write \<Rightarrow> bytes option \<Rightarrow> config_error + passphrase_change" where
  "network_passphrase x held_for =
     (case (nw_join x, held_for) of
        (None, _) \<Rightarrow> Inr Passphrase_Clear
      | (Some j, held_for) \<Rightarrow>
          (case (jw_psk j, held_for) of
             (Some psk, _) \<Rightarrow> Inr (Passphrase_Set psk)
           | (None, None) \<Rightarrow> Inl Ce_NoPassphraseHeld
           | (None, Some kept) \<Rightarrow> if jw_ssid j = kept then Inr Passphrase_Keep else Inl Ce_PassphraseForAnotherNetwork))"

record join_read =
  jr_ssid :: bytes
  jr_psk_set :: bool

record network_read =
  nr_join :: "join_read option"
  nr_country :: bytes
  nr_hostname :: bytes

definition network_read_pairs :: "network_read \<Rightarrow> (writer, cbor_error, unit) act" where
  "network_read_pairs x =
     andthen
       (case nr_join x of Some j \<Rightarrow>
          andthen (wr_key (section_key_number Sk_Ssid)) (\<lambda>_. andthen (wr_text (jr_ssid j)) (\<lambda>_.
          andthen (wr_key (section_key_number Sk_PskSet)) (\<lambda>_. wr_bool (jr_psk_set j))))
        | None \<Rightarrow> ret ())
       (\<lambda>_. network_common_pairs (nr_country x) (nr_hostname x))"

definition network_read_encode :: "network_read \<Rightarrow> bytes \<Rightarrow> (config_error + nat) \<times> bytes" where
  "network_read_encode x =
     encoding Ce_Cbor (map_err Ce_Cbor (andthen (wr_map (if nr_join x \<noteq> None then 4 else 2)) (\<lambda>_. network_read_pairs x)))"

text \<open>A passphrase is marked as seen, with no byte of it kept, and its item skipped whatever it is.\<close>

definition network_read_field :: "network_slots \<Rightarrow> int \<Rightarrow> (reader, config_error, network_slots) act" where
  "network_read_field s number =
     (case network_key number of
        Some Sk_Ssid \<Rightarrow> text_into Sk_Ssid (nq_ssid s) (\<lambda>t. s\<lparr>nq_ssid := t\<rparr>)
      | Some Sk_Psk \<Rightarrow> andthen (once (Ce_Duplicate Sk_Psk) (nq_secret s) ()) (\<lambda>t. skipped Ce_Cbor (s\<lparr>nq_secret := t\<rparr>))
      | Some Sk_PskSet \<Rightarrow>
          andthen (map_err Ce_Cbor rd_bool) (\<lambda>v. andthen (once (Ce_Duplicate Sk_PskSet) (nq_psk_set s) v) (\<lambda>t. ret (s\<lparr>nq_psk_set := t\<rparr>)))
      | Some Sk_Country \<Rightarrow> text_into Sk_Country (nq_country s) (\<lambda>t. s\<lparr>nq_country := t\<rparr>)
      | Some Sk_Hostname \<Rightarrow> text_into Sk_Hostname (nq_hostname s) (\<lambda>t. s\<lparr>nq_hostname := t\<rparr>)
      | _ \<Rightarrow> skipped Ce_Cbor s)"

definition join_read_of :: "bytes option \<Rightarrow> bool option \<Rightarrow> config_error + join_read option" where
  "join_read_of ssid psk_set =
     (case (ssid, psk_set) of
        (None, None) \<Rightarrow> Inr None
      | (None, Some _) \<Rightarrow> Inl Ce_PassphraseWithoutNetwork
      | (Some _, None) \<Rightarrow> Inl (Ce_Missing Sk_PskSet)
      | (Some ssid, Some psk_set) \<Rightarrow>
          (case ssid_new ssid of Inl why \<Rightarrow> Inl why | Inr ssid \<Rightarrow> Inr (Some \<lparr>jr_ssid = ssid, jr_psk_set = psk_set\<rparr>)))"

definition network_read_complete :: "network_slots \<Rightarrow> (reader, config_error, network_read) act" where
  "network_read_complete s =
     (if nq_secret s \<noteq> None then fail (Ce_SecretInConfig Sk_Psk)
      else andthen (lift_sum (join_read_of (nq_ssid s) (nq_psk_set s))) (\<lambda>join.
        andthen (lift_sum (network_common s)) (\<lambda>(country, hostname).
        ret \<lparr>nr_join = join, nr_country = country, nr_hostname = hostname\<rparr>)))"

definition network_read_decode :: "bytes \<Rightarrow> config_error + network_read" where
  "network_read_decode = decoding (
     andthen (map_fields Ce_Cbor network_read_field network_empty) (\<lambda>s.
     andthen (finishing Ce_Cbor) (\<lambda>_. network_read_complete s)))"

section \<open>Values that were made\<close>

lemma within_new_Inr [simp]: "within_new key a b v = Inr w \<longleftrightarrow> w = v \<and> a \<le> length v \<and> length v \<le> b"
  by (auto simp: within_new_def within_def)

definition text_new :: "(bytes \<Rightarrow> config_error + bytes) \<Rightarrow> bytes \<Rightarrow> bool" where
  "text_new new v \<longleftrightarrow> new v = Inr v \<and> text_ok v"

lemma news_same:
  "site_name_new v = Inr w \<Longrightarrow> w = v" "ssid_new v = Inr w \<Longrightarrow> w = v" "psk_new v = Inr w \<Longrightarrow> w = v"
  "country_new v = Inr w \<Longrightarrow> w = v" "hostname_new v = Inr w \<Longrightarrow> w = v"
  by (auto simp: site_name_new_def ssid_new_def psk_new_def country_new_def hostname_new_def
      split: if_splits list.splits sum.splits)

lemma news_again:
  "site_name_new v = Inr w \<Longrightarrow> site_name_new w = Inr w \<and> w = v" "ssid_new v = Inr w \<Longrightarrow> ssid_new w = Inr w \<and> w = v"
  "psk_new v = Inr w \<Longrightarrow> psk_new w = Inr w \<and> w = v"
  "country_new v = Inr w \<Longrightarrow> country_new w = Inr w \<and> w = v" "hostname_new v = Inr w \<Longrightarrow> hostname_new w = Inr w \<and> w = v"
  using news_same by blast+

lemma new_lengths:
  "site_name_new v = Inr w \<Longrightarrow> length v \<le> 32" "ssid_new v = Inr w \<Longrightarrow> length v \<le> 32" "psk_new v = Inr w \<Longrightarrow> length v \<le> 63"
  "country_new v = Inr w \<Longrightarrow> length v = 2" "hostname_new v = Inr w \<Longrightarrow> length v \<le> 32"
  by (auto simp: site_name_new_def ssid_new_def psk_new_def country_new_def hostname_new_def within_def
      MAX_LABEL_def MAX_SSID_def PSK_LONGEST_def COUNTRY_BYTES_def MAX_HOSTNAME_def split: if_splits list.splits sum.splits)

lemma text_newD: "text_new new v \<Longrightarrow> new v = Inr v" "text_new new v \<Longrightarrow> length v \<le> MAX_STRING" "text_new new v \<Longrightarrow> utf8 v"
  "text_new new v \<Longrightarrow> text_ok v"
  by (simp_all add: text_new_def text_ok_def)

section \<open>Identity and behaviour on the wire\<close>

definition identity_fields :: "identity_section \<Rightarrow> (int \<times> item) list" where
  "identity_fields x = [(1, IText (is_site_name x))]"

definition identity_valid :: "identity_section \<Rightarrow> bool" where
  "identity_valid x \<longleftrightarrow> text_new site_name_new (is_site_name x)"

interpretation identity: faithful_codec identity_encode identity_decode identity_fields identity_valid 1
proof
  fix x and dst :: bytes
  assume x: "identity_valid x" "length (map_bytes (identity_fields x)) \<le> length dst" "length dst \<le> usize_max"
  have "writes_pairs (identity_pairs x) (identity_fields x)"
    using x(1) unfolding identity_pairs_def identity_fields_def section_key_number.simps
    by (intro item_rules) (simp_all add: identity_valid_def text_newD)
  then show "identity_encode x dst = (Inr (length (map_bytes (identity_fields x))), splice dst 0 (map_bytes (identity_fields x)))"
    unfolding identity_encode_def by (rule encodes_fields) (use x(2,3) in \<open>simp_all add: identity_fields_def good_key_def\<close>)
next
  fix x fs
  assume x: "identity_valid x" "extends 1 INNER fs" "length (map_bytes (identity_fields x @ fs)) \<le> usize_max"
  note ok = text_newD [OF x(1) [unfolded identity_valid_def]]
  have "reads_pairs identity_field (identity_fields x) None (Some (is_site_name x))"
    unfolding identity_fields_def
    by (rule reads_eq, (rule reads_Nil | rule reads_Cons | simp only: identity_field_def if_True simp_thms | rule slot_rules | rule item_rules ok | simp; fail)+)
  then show "identity_decode (map_bytes (identity_fields x @ fs)) = Inr x"
    unfolding identity_decode_def
    by (rule decodes_fields [where k = 1])
      (use x(2,3) ok(1) in \<open>auto intro!: runs_andthen runs_finishing simp: identity_complete_def identity_field_def identity_fields_def good_key_def\<close>)
next
  fix bs x assume "identity_decode bs = Inr x"
  then obtain slot s t where "\<forall>v. slot = Some v \<longrightarrow> text_ok v" "identity_complete slot s = (Inr x, t)"
    unfolding identity_decode_def
    by (rule body_InrE [where P = "\<lambda>slot. \<forall>v. slot = Some v \<longrightarrow> text_ok v"])
      (auto simp: identity_field_def once_def elim!: andthen_InrE map_err_InrE skipped_InrE dest: rd_text_ok split: if_splits)
  then show "identity_valid x"
    by (auto simp: identity_complete_def identity_valid_def text_new_def elim!: decode_InrE andthen_InrE lift_sum_InrE dest: news_again)
qed

definition behaviour_fields :: "behaviour_section \<Rightarrow> (int \<times> item) list" where
  "behaviour_fields x = [(1, IBool (bs_shadow x))]"

interpretation behaviour: faithful_codec behaviour_encode behaviour_decode behaviour_fields "\<lambda>_. True" 1
proof
  fix x and dst :: bytes
  assume x: "length (map_bytes (behaviour_fields x)) \<le> length dst" "length dst \<le> usize_max"
  have "writes_pairs (behaviour_pairs x) (behaviour_fields x)"
    unfolding behaviour_pairs_def behaviour_fields_def section_key_number.simps behaviour_key_num.simps by simp (intro item_rules)
  then show "behaviour_encode x dst = (Inr (length (map_bytes (behaviour_fields x))), splice dst 0 (map_bytes (behaviour_fields x)))"
    unfolding behaviour_encode_def by (rule encodes_fields) (use x in \<open>simp_all add: behaviour_fields_def good_key_def\<close>)
next
  fix x fs
  assume x: "extends 1 INNER fs" "length (map_bytes (behaviour_fields x @ fs)) \<le> usize_max"
  have "reads_pairs behaviour_field (behaviour_fields x) None (Some (bs_shadow x))"
    unfolding behaviour_fields_def
    by (rule reads_eq, (rule reads_Nil | rule reads_Cons | simp only: behaviour_field_def section_key_number.simps behaviour_key_num.simps uint_1_eq if_True simp_thms
        | rule slot_rules | rule item_rules | simp; fail)+)
  then show "behaviour_decode (map_bytes (behaviour_fields x @ fs)) = Inr x"
    unfolding behaviour_decode_def
    by (rule decodes_fields [where k = 1])
      (use x in \<open>auto intro!: runs_andthen runs_finishing simp: behaviour_complete_def behaviour_field_def behaviour_fields_def good_key_def\<close>)
qed simp

section \<open>The network on the wire\<close>

definition network_common_ok :: "bytes \<Rightarrow> bytes \<Rightarrow> bool" where
  "network_common_ok country hostname \<longleftrightarrow> text_new country_new country \<and> text_new hostname_new hostname"

definition network_write_valid :: "network_write \<Rightarrow> bool" where
  "network_write_valid x \<longleftrightarrow> network_common_ok (nw_country x) (nw_hostname x) \<and>
     (\<forall>j. nw_join x = Some j \<longrightarrow> text_new ssid_new (jw_ssid j) \<and> (\<forall>v. jw_psk j = Some v \<longrightarrow> text_new psk_new v))"

definition network_read_valid :: "network_read \<Rightarrow> bool" where
  "network_read_valid x \<longleftrightarrow> network_common_ok (nr_country x) (nr_hostname x) \<and>
     (\<forall>j. nr_join x = Some j \<longrightarrow> text_new ssid_new (jr_ssid j))"

definition network_fields :: "bytes option \<Rightarrow> bytes option \<Rightarrow> bool option \<Rightarrow> bytes option \<Rightarrow> bytes option \<Rightarrow> (int \<times> item) list" where
  "network_fields ssid psk psk_set country hostname =
     (case ssid of Some v \<Rightarrow> [(1, IText v)] | None \<Rightarrow> []) @ (case psk of Some v \<Rightarrow> [(2, IText v)] | None \<Rightarrow> []) @
     (case psk_set of Some v \<Rightarrow> [(3, IBool v)] | None \<Rightarrow> []) @ (case country of Some v \<Rightarrow> [(4, IText v)] | None \<Rightarrow> []) @
     (case hostname of Some v \<Rightarrow> [(5, IText v)] | None \<Rightarrow> [])"

definition network_write_fields :: "network_write \<Rightarrow> (int \<times> item) list" where
  "network_write_fields x =
     network_fields (map_option jw_ssid (nw_join x)) (Option.bind (nw_join x) jw_psk) None (Some (nw_country x)) (Some (nw_hostname x))"

definition network_read_fields :: "network_read \<Rightarrow> (int \<times> item) list" where
  "network_read_fields x =
     network_fields (map_option jr_ssid (nr_join x)) None (map_option jr_psk_set (nr_join x)) (Some (nr_country x)) (Some (nr_hostname x))"

lemma network_fields_ok [simp]:
  "ascending None (network_fields a b c d e)" "shallow room (network_fields a b c d e)" "known 5 (network_fields a b c d e)"
  by (auto simp: network_fields_def good_key_def split: option.split)

lemma network_fields_length:
  "length (network_write_fields x) = network_write_keys x" "length (network_read_fields y) = (if nr_join y \<noteq> None then 4 else 2)"
  by (auto simp: network_fields_def network_write_fields_def network_read_fields_def network_write_keys_def split: option.split)

lemma network_common_writes:
  "network_common_ok country hostname \<Longrightarrow>
   writes_pairs (network_common_pairs country hostname) [(4, IText country), (5, IText hostname)]"
  unfolding network_common_pairs_def section_key_number.simps
  by (intro item_rules) (auto simp: network_common_ok_def dest: text_newD)

lemma network_write_writes:
  assumes "network_write_valid x"
  shows "writes_pairs (network_write_pairs x) (network_write_fields x)"
proof (cases "nw_join x")
  case None
  then show ?thesis
    using assms network_common_writes by (simp add: network_write_pairs_def network_write_fields_def network_fields_def network_write_valid_def)
next
  case (Some j)
  then have ok: "text_ok (jw_ssid j)" "\<And>v. jw_psk j = Some v \<Longrightarrow> text_ok v" "network_common_ok (nw_country x) (nw_hostname x)"
    using assms by (auto simp: network_write_valid_def text_newD)
  have "writes_pairs (andthen (andthen (wr_key 1) (\<lambda>_. andthen (wr_text (jw_ssid j)) (\<lambda>_.
        case jw_psk j of Some v \<Rightarrow> andthen (wr_key 2) (\<lambda>_. wr_text v) | None \<Rightarrow> ret ())))
      (\<lambda>_. network_common_pairs (nw_country x) (nw_hostname x)))
    (((1, IText (jw_ssid j)) # (case jw_psk j of Some v \<Rightarrow> [(2, IText v)] | None \<Rightarrow> [])) @
      [(4, IText (nw_country x)), (5, IText (nw_hostname x))])"
    using ok by (intro writes_append writes_option item_rules network_common_writes) (simp_all add: text_okD)
  then show ?thesis
    unfolding network_write_pairs_def section_key_number.simps by (simp add: network_write_fields_def network_fields_def Some)
qed

lemma network_read_writes:
  assumes "network_read_valid x"
  shows "writes_pairs (network_read_pairs x) (network_read_fields x)"
proof (cases "nr_join x")
  case None
  then show ?thesis
    using assms network_common_writes by (simp add: network_read_pairs_def network_read_fields_def network_fields_def network_read_valid_def)
next
  case (Some j)
  then have ok: "text_ok (jr_ssid j)" "network_common_ok (nr_country x) (nr_hostname x)"
    using assms by (auto simp: network_read_valid_def text_newD)
  have "writes_pairs (andthen (andthen (wr_key 1) (\<lambda>_. andthen (wr_text (jr_ssid j)) (\<lambda>_. andthen (wr_key 3) (\<lambda>_. wr_bool (jr_psk_set j)))))
      (\<lambda>_. network_common_pairs (nr_country x) (nr_hostname x)))
    ([(1, IText (jr_ssid j)), (3, IBool (jr_psk_set j))] @ [(4, IText (nr_country x)), (5, IText (nr_hostname x))])"
    using ok by (intro writes_append item_rules network_common_writes) (simp_all add: text_okD)
  then show ?thesis
    by (simp add: network_read_pairs_def network_read_fields_def network_fields_def Some)
qed


lemma network_write_field_simps:
  "network_write_field s 1 = text_into Sk_Ssid (nq_ssid s) (\<lambda>t. s\<lparr>nq_ssid := t\<rparr>)"
  "network_write_field s 2 = text_into Sk_Psk (nq_psk s) (\<lambda>t. s\<lparr>nq_psk := t\<rparr>)"
  "network_write_field s 3 = andthen (map_err Ce_Cbor rd_bool) (\<lambda>v.
     andthen (once (Ce_Duplicate Sk_PskSet) (nq_psk_set s) v) (\<lambda>t. ret (s\<lparr>nq_psk_set := t\<rparr>)))"
  "network_write_field s 4 = text_into Sk_Country (nq_country s) (\<lambda>t. s\<lparr>nq_country := t\<rparr>)"
  "network_write_field s 5 = text_into Sk_Hostname (nq_hostname s) (\<lambda>t. s\<lparr>nq_hostname := t\<rparr>)"
  "5 < j \<Longrightarrow> network_write_field s j = skipped Ce_Cbor s"
  by (simp_all add: network_write_field_def network_key_def)

lemma network_read_field_simps:
  "network_read_field s 1 = text_into Sk_Ssid (nq_ssid s) (\<lambda>t. s\<lparr>nq_ssid := t\<rparr>)"
  "network_read_field s 2 = andthen (once (Ce_Duplicate Sk_Psk) (nq_secret s) ()) (\<lambda>t. skipped Ce_Cbor (s\<lparr>nq_secret := t\<rparr>))"
  "network_read_field s 3 = andthen (map_err Ce_Cbor rd_bool) (\<lambda>v.
     andthen (once (Ce_Duplicate Sk_PskSet) (nq_psk_set s) v) (\<lambda>t. ret (s\<lparr>nq_psk_set := t\<rparr>)))"
  "network_read_field s 4 = text_into Sk_Country (nq_country s) (\<lambda>t. s\<lparr>nq_country := t\<rparr>)"
  "network_read_field s 5 = text_into Sk_Hostname (nq_hostname s) (\<lambda>t. s\<lparr>nq_hostname := t\<rparr>)"
  "5 < j \<Longrightarrow> network_read_field s j = skipped Ce_Cbor s"
  by (simp_all add: network_read_field_def network_key_def)

lemma reads_secret:
  "nq_secret s = None \<Longrightarrow> wf_item t \<Longrightarrow> reads_item (network_read_field s 2) t (s\<lparr>nq_secret := Some ()\<rparr>)"
  using reads_skip [of t Ce_Cbor "s\<lparr>nq_secret := Some ()\<rparr>"]
  by (simp add: network_read_field_simps once_def andthen_def reads_item_def runs_def)

text \<open>Either shape reads every key either writes; only what it makes of them differs.\<close>

definition texts_ok :: "bytes option \<Rightarrow> bytes option \<Rightarrow> bytes option \<Rightarrow> bytes option \<Rightarrow> bool" where
  "texts_ok ssid psk country hostname \<longleftrightarrow> (\<forall>v. ssid = Some v \<longrightarrow> text_ok v) \<and> (\<forall>v. psk = Some v \<longrightarrow> text_ok v) \<and>
     (\<forall>v. country = Some v \<longrightarrow> text_ok v) \<and> (\<forall>v. hostname = Some v \<longrightarrow> text_ok v)"

lemma network_write_reads:
  assumes "texts_ok ssid psk country hostname"
  shows "reads_pairs network_write_field (network_fields ssid psk psk_set country hostname) network_empty
    \<lparr>nq_ssid = ssid, nq_psk = psk, nq_psk_set = psk_set, nq_country = country, nq_hostname = hostname, nq_secret = None\<rparr>"
proof -
  have ok: "\<And>v. ssid = Some v \<Longrightarrow> text_ok v" "\<And>v. psk = Some v \<Longrightarrow> text_ok v" "\<And>v. country = Some v \<Longrightarrow> text_ok v" "\<And>v. hostname = Some v \<Longrightarrow> text_ok v"
    using assms by (auto simp: texts_ok_def)
  show ?thesis
    unfolding network_fields_def
    by (rule reads_eq, (rule reads_optional | rule reads_pairs_append
        | simp only: network_write_field_simps text_into_def | rule slot_rules | rule item_rules text_okD ok | assumption | simp add: network_empty_def; fail)+)
qed

lemma network_read_reads:
  assumes "texts_ok ssid psk country hostname"
  shows "reads_pairs network_read_field (network_fields ssid psk psk_set country hostname) network_empty
    \<lparr>nq_ssid = ssid, nq_psk = None, nq_psk_set = psk_set, nq_country = country, nq_hostname = hostname, nq_secret = map_option (\<lambda>_. ()) psk\<rparr>"
proof -
  have ok: "\<And>v. ssid = Some v \<Longrightarrow> text_ok v" "\<And>v. psk = Some v \<Longrightarrow> text_ok v" "\<And>v. country = Some v \<Longrightarrow> text_ok v" "\<And>v. hostname = Some v \<Longrightarrow> text_ok v"
    using assms by (auto simp: texts_ok_def)
  have one: "reads_pairs network_read_field (case ssid of Some v \<Rightarrow> [(1, IText v)] | None \<Rightarrow> []) network_empty (network_empty\<lparr>nq_ssid := ssid\<rparr>)"
    by (rule reads_optional, simp only: network_read_field_simps text_into_def)
      (rule slot_rules | rule item_rules text_okD ok | assumption | simp add: network_empty_def; fail)+
  have two: "reads_pairs network_read_field (case psk of Some v \<Rightarrow> [(2, IText v)] | None \<Rightarrow> []) (network_empty\<lparr>nq_ssid := ssid\<rparr>)
      (network_empty\<lparr>nq_ssid := ssid, nq_secret := map_option (\<lambda>_. ()) psk\<rparr>)"
    using reads_secret [of "network_empty\<lparr>nq_ssid := ssid\<rparr>"] ok(2) text_okD
    by (cases psk) (simp_all add: network_empty_def)
  have rest: "reads_pairs network_read_field ((case psk_set of Some v \<Rightarrow> [(3, IBool v)] | None \<Rightarrow> []) @ (case country of Some v \<Rightarrow> [(4, IText v)] | None \<Rightarrow> []) @
      (case hostname of Some v \<Rightarrow> [(5, IText v)] | None \<Rightarrow> []))
      (network_empty\<lparr>nq_ssid := ssid, nq_secret := map_option (\<lambda>_. ()) psk\<rparr>)
      \<lparr>nq_ssid = ssid, nq_psk = None, nq_psk_set = psk_set, nq_country = country, nq_hostname = hostname, nq_secret = map_option (\<lambda>_. ()) psk\<rparr>"
    by (rule reads_eq, (rule reads_optional | rule reads_pairs_append
        | simp only: network_read_field_simps text_into_def | rule slot_rules | rule item_rules text_okD ok | assumption | simp add: network_empty_def; fail)+)
  show ?thesis
    unfolding network_fields_def
    by (rule reads_pairs_append [OF one reads_pairs_append [OF two rest]])
qed


lemma network_common_own:
  "network_common_ok c h \<Longrightarrow> nq_country s = Some c \<Longrightarrow> nq_hostname s = Some h \<Longrightarrow> network_common s = Inr (c, h)"
  by (simp add: network_common_def network_common_ok_def text_new_def)

lemma join_write_own:
  assumes "network_write_valid x"
  shows "join_write_of (map_option jw_ssid (nw_join x)) (Option.bind (nw_join x) jw_psk) = Inr (nw_join x)"
proof (cases "nw_join x")
  case (Some j)
  then have "ssid_new (jw_ssid j) = Inr (jw_ssid j)" "\<And>v. jw_psk j = Some v \<Longrightarrow> psk_new v = Inr v"
    using assms by (auto simp: network_write_valid_def text_new_def)
  then show ?thesis
    by (cases j; cases "jw_psk j") (auto simp: Some join_write_of_def)
qed (simp add: join_write_of_def)

lemma join_read_own:
  assumes "network_read_valid x"
  shows "join_read_of (map_option jr_ssid (nr_join x)) (map_option jr_psk_set (nr_join x)) = Inr (nr_join x)"
proof (cases "nr_join x")
  case (Some j)
  then have "ssid_new (jr_ssid j) = Inr (jr_ssid j)"
    using assms by (auto simp: network_read_valid_def text_new_def)
  then show ?thesis
    by (cases j) (simp add: Some join_read_of_def)
qed (simp add: join_read_of_def)

lemma network_write_texts:
  "network_write_valid x \<Longrightarrow> texts_ok (map_option jw_ssid (nw_join x)) (Option.bind (nw_join x) jw_psk) (Some (nw_country x)) (Some (nw_hostname x))"
  by (cases "nw_join x") (auto simp: network_write_valid_def network_common_ok_def texts_ok_def dest: text_newD)

lemma network_read_texts:
  "network_read_valid x \<Longrightarrow> texts_ok (map_option jr_ssid (nr_join x)) None (Some (nr_country x)) (Some (nr_hostname x))"
  by (cases "nr_join x") (auto simp: network_read_valid_def network_common_ok_def texts_ok_def dest: text_newD)

definition network_kept :: "network_slots \<Rightarrow> bool" where
  "network_kept s \<longleftrightarrow> (\<forall>v. nq_ssid s = Some v \<longrightarrow> text_ok v) \<and> (\<forall>v. nq_psk s = Some v \<longrightarrow> text_ok v) \<and>
     (\<forall>v. nq_country s = Some v \<longrightarrow> text_ok v) \<and> (\<forall>v. nq_hostname s = Some v \<longrightarrow> text_ok v)"

lemma text_intoE:
  assumes "text_into key slot upd s = (Inr a, t)"
  obtains v where "text_ok v" and "a = upd (Some v)"
  using assms unfolding text_into_def by (elim plain_slot_InrE) (auto elim!: map_err_InrE dest: rd_text_ok)

lemma network_none: "network_kept network_empty"
  by (simp add: network_kept_def network_empty_def)

lemma network_keeps:
  assumes "network_kept a"
  shows "network_write_field a k s = (Inr a', s') \<Longrightarrow> network_kept a'" and "network_read_field a k s = (Inr a', s') \<Longrightarrow> network_kept a'"
proof -
  have mark: "\<And>t. network_kept (a\<lparr>nq_psk_set := t\<rparr>)" "\<And>t. network_kept (a\<lparr>nq_secret := t\<rparr>)"
    using assms by (simp_all add: network_kept_def)
  have put: "network_kept (a\<lparr>nq_ssid := Some v\<rparr>)" "network_kept (a\<lparr>nq_psk := Some v\<rparr>)" "network_kept (a\<lparr>nq_country := Some v\<rparr>)"
    "network_kept (a\<lparr>nq_hostname := Some v\<rparr>)" if "text_ok v" for v
    using assms that by (simp_all add: network_kept_def)
  show "network_kept a'" if "network_write_field a k s = (Inr a', s')"
    using that assms mark put
    by (auto simp: network_write_field_def split: option.splits section_key.splits elim!: text_intoE skipped_InrE plain_slot_InrE)
  show "network_kept a'" if "network_read_field a k s = (Inr a', s')"
    using that assms mark put
    by (auto simp: network_read_field_def split: option.splits section_key.splits elim!: text_intoE skipped_InrE plain_slot_InrE andthen_InrE)
qed

lemma text_newI:
  "site_name_new v = Inr w \<Longrightarrow> text_ok v \<Longrightarrow> text_new site_name_new w" "ssid_new v = Inr w \<Longrightarrow> text_ok v \<Longrightarrow> text_new ssid_new w"
  "psk_new v = Inr w \<Longrightarrow> text_ok v \<Longrightarrow> text_new psk_new w" "country_new v = Inr w \<Longrightarrow> text_ok v \<Longrightarrow> text_new country_new w"
  "hostname_new v = Inr w \<Longrightarrow> text_ok v \<Longrightarrow> text_new hostname_new w"
  using news_same by (simp_all add: text_new_def) metis+

lemma network_common_InrD:
  assumes "network_common s = Inr (c, h)" and "network_kept s"
  shows "network_common_ok c h"
proof -
  obtain a b where "nq_country s = Some a" "nq_hostname s = Some b" "country_new a = Inr c" "hostname_new b = Inr h"
    using assms(1) by (auto simp: network_common_def split: option.splits sum.splits)
  then show ?thesis
    using assms(2) by (auto simp: network_common_ok_def network_kept_def intro: text_newI)
qed

lemma join_write_InrD:
  assumes "join_write_of (nq_ssid s) (nq_psk s) = Inr (Some j)" and "network_kept s"
  shows "text_new ssid_new (jw_ssid j)" and "jw_psk j = Some v \<Longrightarrow> text_new psk_new v"
proof -
  obtain a where a: "nq_ssid s = Some a" "ssid_new a = Inr (jw_ssid j)"
    "jw_psk j = None \<or> (\<exists>b c. nq_psk s = Some b \<and> psk_new b = Inr c \<and> jw_psk j = Some c)"
    using assms(1) by (auto simp: join_write_of_def split: option.splits sum.splits)
  then show "text_new ssid_new (jw_ssid j)"
    using assms(2) by (auto simp: network_kept_def intro: text_newI)
  show "text_new psk_new v" if "jw_psk j = Some v"
    using a(3) assms(2) that by (auto simp: network_kept_def intro: text_newI)
qed

lemma join_read_InrD:
  assumes "join_read_of (nq_ssid s) (nq_psk_set s) = Inr (Some j)" and "network_kept s"
  shows "text_new ssid_new (jr_ssid j)"
proof -
  obtain a where "nq_ssid s = Some a" "ssid_new a = Inr (jr_ssid j)"
    using assms(1) by (auto simp: join_read_of_def split: option.splits sum.splits)
  then show ?thesis
    using assms(2) by (auto simp: network_kept_def intro: text_newI)
qed

interpretation network_write: faithful_codec network_write_encode network_write_decode network_write_fields network_write_valid 5
proof
  fix x and dst :: bytes
  assume x: "network_write_valid x" "length (map_bytes (network_write_fields x)) \<le> length dst" "length dst \<le> usize_max"
  then show "network_write_encode x dst = (Inr (length (map_bytes (network_write_fields x))), splice dst 0 (map_bytes (network_write_fields x)))"
    unfolding network_write_encode_def
    by (intro encodes_fields [OF network_write_writes]) (simp_all only: network_fields_length, simp_all add: network_write_fields_def)
next
  fix x fs
  assume x: "network_write_valid x" "extends 5 INNER fs" "length (map_bytes (network_write_fields x @ fs)) \<le> usize_max"
  show "network_write_decode (map_bytes (network_write_fields x @ fs)) = Inr x"
    unfolding network_write_decode_def network_write_fields_def
    by (rule decodes_fields [OF network_write_reads [OF network_write_texts [OF x(1)]] _ _ _ x(2) _ x(3) [unfolded network_write_fields_def]])
      (use x(1) in \<open>auto intro!: runs_andthen runs_finishing simp: network_write_complete_def network_write_field_simps
        join_write_own network_common_own [of "nw_country x" "nw_hostname x"] network_write_valid_def\<close>)
next
  fix bs x assume "network_write_decode bs = Inr x"
  then obtain slots s t where "network_kept slots" "network_write_complete slots s = (Inr x, t)"
    unfolding network_write_decode_def by (rule body_InrE [where P = network_kept, OF _ network_none]) (blast intro: network_keeps)+
  then show "network_write_valid x"
    by (auto simp: network_write_complete_def network_write_valid_def elim!: andthen_InrE lift_sum_InrE split: if_splits)
      (blast intro: join_write_InrD network_common_InrD)+
qed

interpretation network_read: faithful_codec network_read_encode network_read_decode network_read_fields network_read_valid 5
proof
  fix x and dst :: bytes
  assume x: "network_read_valid x" "length (map_bytes (network_read_fields x)) \<le> length dst" "length dst \<le> usize_max"
  then show "network_read_encode x dst = (Inr (length (map_bytes (network_read_fields x))), splice dst 0 (map_bytes (network_read_fields x)))"
    unfolding network_read_encode_def
    by (intro encodes_fields [OF network_read_writes]) (simp_all only: network_fields_length, simp_all add: network_read_fields_def)
next
  fix x fs
  assume x: "network_read_valid x" "extends 5 INNER fs" "length (map_bytes (network_read_fields x @ fs)) \<le> usize_max"
  show "network_read_decode (map_bytes (network_read_fields x @ fs)) = Inr x"
    unfolding network_read_decode_def network_read_fields_def
    by (rule decodes_fields [OF network_read_reads [OF network_read_texts [OF x(1)]] _ _ _ x(2) _ x(3) [unfolded network_read_fields_def]])
      (use x(1) in \<open>auto intro!: runs_andthen runs_finishing simp: network_read_complete_def network_read_field_simps
        join_read_own network_common_own [of "nr_country x" "nr_hostname x"] network_read_valid_def\<close>)
next
  fix bs x assume "network_read_decode bs = Inr x"
  then obtain slots s t where "network_kept slots" "network_read_complete slots s = (Inr x, t)"
    unfolding network_read_decode_def by (rule body_InrE [where P = network_kept, OF _ network_none]) (blast intro: network_keeps)+
  then show "network_read_valid x"
    by (auto simp: network_read_complete_def network_read_valid_def elim!: andthen_InrE lift_sum_InrE split: if_splits)
      (blast intro: join_read_InrD network_common_InrD)+
qed


section \<open>Sizes\<close>

lemma text_item_size: "length v \<le> MAX_STRING \<Longrightarrow> length (enc_item (IText v)) \<le> 2 + length v"
  using width_text [of v] by simp

lemma network_sizes:
  "network_write_valid x \<Longrightarrow> length (map_bytes (network_write_fields x)) \<le> MAX_NETWORK_WRITE_BYTES"
  "network_read_valid y \<Longrightarrow> length (map_bytes (network_read_fields y)) \<le> MAX_NETWORK_READ_BYTES"
proof -
  have short: "length (enc_item (IText v)) \<le> 2 + k" if "new v = Inr v" "text_ok v" "new v = Inr v \<Longrightarrow> length v \<le> k" for new v k
    using that text_item_size [of v] by (auto simp: text_ok_def simp del: enc_item.simps)
  have common: "length (enc_item (IText c)) \<le> 3 \<and> length (enc_item (IText h)) \<le> 34" if "network_common_ok c h" for c h
  proof -
    have "length c = 2" "length (enc_item (IText h)) \<le> 34"
      using that short [of hostname_new h 32] new_lengths(4,5) by (auto simp: network_common_ok_def text_new_def simp del: enc_item.simps)
    then show ?thesis
      by simp
  qed
  show "length (map_bytes (network_write_fields x)) \<le> MAX_NETWORK_WRITE_BYTES" if "network_write_valid x"
  proof -
    have "length (enc_item (IText (jw_ssid j))) \<le> 34 \<and> (\<forall>v. jw_psk j = Some v \<longrightarrow> length (enc_item (IText v)) \<le> 65)" if "nw_join x = Some j" for j
      using that \<open>network_write_valid x\<close> short [of ssid_new "jw_ssid j" 32] short [of psk_new _ 63] new_lengths(2,3)
      by (auto simp: network_write_valid_def text_new_def simp del: enc_item.simps)
    then show ?thesis
      using that common [of "nw_country x" "nw_hostname x"]
      by (cases "nw_join x") (auto simp: network_write_valid_def network_write_fields_def network_fields_def map_bytes_eq
          MAX_NETWORK_WRITE_BYTES_def simp del: enc_item.simps(4) split: option.split)
  qed
  show "length (map_bytes (network_read_fields y)) \<le> MAX_NETWORK_READ_BYTES" if "network_read_valid y"
  proof -
    have "length (enc_item (IText (jr_ssid j))) \<le> 34" if "nr_join y = Some j" for j
      using that \<open>network_read_valid y\<close> short [of ssid_new "jr_ssid j" 32] new_lengths(2)
      by (auto simp: network_read_valid_def text_new_def simp del: enc_item.simps)
    then show ?thesis
      using that common [of "nr_country y" "nr_hostname y"]
      by (cases "nr_join y") (auto simp: network_read_valid_def network_read_fields_def network_fields_def map_bytes_eq
          MAX_NETWORK_READ_BYTES_def simp del: enc_item.simps(4) split: option.split)
  qed
qed

lemma section_sizes:
  "identity_valid x \<Longrightarrow> length (map_bytes (identity_fields x)) \<le> MAX_IDENTITY_BYTES"
  "length (map_bytes (behaviour_fields y)) \<le> MAX_BEHAVIOUR_BYTES"
  using text_item_size [of "is_site_name x"] new_lengths(1) [of "is_site_name x"] text_newD [of site_name_new "is_site_name x"]
  by (auto simp: identity_valid_def identity_fields_def behaviour_fields_def map_bytes_eq MAX_IDENTITY_BYTES_def MAX_BEHAVIOUR_BYTES_def)

section \<open>Structure first\<close>

text \<open>Reading a body's structure fails only in ways answered error 1.\<close>

definition malformed :: "config_error \<Rightarrow> bool" where
  "malformed why \<longleftrightarrow> config_answer why = RefuseError Ec_MalformedFrame"

lemma malformed_simps [simp]: "malformed (Ce_Missing k)" "malformed (Ce_Duplicate k)" "malformed (Ce_Cbor c)"
  "malformed (Ce_SecretInConfig k)" "malformed (Ce_NothingSet k)" "malformed (Ce_UnknownValue k)" "malformed (Ce_OutOfOrder k)"
  by (simp_all add: malformed_def)

lemma network_field_fails: "fails_only malformed (network_write_field s k)" "fails_only malformed (network_read_field s k)"
proof -
  show "fails_only malformed (network_write_field s k)"
    unfolding network_write_field_def text_into_def
    by (auto split: option.split section_key.split intro!: fails_rules)
  show "fails_only malformed (network_read_field s k)"
    unfolding network_read_field_def text_into_def
    by (auto split: option.split section_key.split intro!: fails_rules)
qed

section \<open>Properties\<close>

lemma network_section_keeps_its_secret_parts:
  assumes "texts_ok ssid psk country hostname" and "extends 5 INNER fs"
    and "length (map_bytes (network_fields ssid psk psk_set country hostname @ fs)) \<le> usize_max"
  shows "psk \<noteq> None \<Longrightarrow> network_read_decode (map_bytes (network_fields ssid psk psk_set country hostname @ fs)) = Inl (Ce_SecretInConfig Sk_Psk)"
    and "psk_set \<noteq> None \<Longrightarrow> \<exists>e. network_write_decode (map_bytes (network_fields ssid psk psk_set country hostname @ fs)) = Inl e \<and>
      (\<forall>c h. country = Some c \<and> hostname = Some h \<and> network_common_ok c h \<longrightarrow> e = Ce_ConfigOnly Sk_PskSet)"
    and "network_write_valid x \<Longrightarrow> MAX_NETWORK_WRITE_BYTES \<le> length dst \<Longrightarrow> length dst \<le> usize_max \<Longrightarrow>
      \<exists>n out. network_write_encode x dst = (Inr n, out) \<and> n \<le> MAX_NETWORK_WRITE_BYTES \<and> network_write_decode (take n out) = Inr x"
    and "network_read_valid y \<Longrightarrow> MAX_NETWORK_READ_BYTES \<le> length dst \<Longrightarrow> length dst \<le> usize_max \<Longrightarrow>
      \<exists>n out. network_read_encode y dst = (Inr n, out) \<and> n \<le> MAX_NETWORK_READ_BYTES \<and> network_read_decode (take n out) = Inr y"
    and "network_write_decode bs = Inr x' \<Longrightarrow> network_write_valid x'" and "network_read_decode bs = Inr y' \<Longrightarrow> network_read_valid y'"
    and "network_write_decode bs = Inl why \<Longrightarrow> config_answer why = RefuseOutcome outcome \<Longrightarrow>
      outcome = Sco_Invalid \<and> (\<exists>slots. decoding (andthen (map_fields Ce_Cbor network_write_field network_empty)
        (\<lambda>s. andthen (finishing Ce_Cbor) (\<lambda>_. ret s))) bs = Inr slots)"
    and "network_passphrase x held_for = Inr Passphrase_Keep \<longleftrightarrow>
      (\<exists>j. nw_join x = Some j \<and> jw_psk j = None \<and> held_for = Some (jw_ssid j))"
proof -
  have three: "known 5 (network_fields ssid psk psk_set country hostname)" "shallow 7 (network_fields ssid psk psk_set country hostname)"
    by simp_all
  show "network_read_decode (map_bytes (network_fields ssid psk psk_set country hostname @ fs)) = Inl (Ce_SecretInConfig Sk_Psk)" if "psk \<noteq> None"
    unfolding network_read_decode_def
    by (rule decodes_fields_sum [OF network_read_reads [OF assms(1)] _ _ _ assms(2) _ assms(3)])
      (use that in \<open>auto simp: finishing_done network_read_field_simps network_read_complete_def\<close>)
  show "\<exists>e. network_write_decode (map_bytes (network_fields ssid psk psk_set country hostname @ fs)) = Inl e \<and>
      (\<forall>c h. country = Some c \<and> hostname = Some h \<and> network_common_ok c h \<longrightarrow> e = Ce_ConfigOnly Sk_PskSet)" if "psk_set \<noteq> None"
  proof -
    let ?s = "\<lparr>nq_ssid = ssid, nq_psk = psk, nq_psk_set = psk_set, nq_country = country, nq_hostname = hostname, nq_secret = None\<rparr>"
    let ?e = "case network_common ?s of Inl why \<Rightarrow> why | Inr _ \<Rightarrow> Ce_ConfigOnly Sk_PskSet"
    have "network_write_decode (map_bytes (network_fields ssid psk psk_set country hostname @ fs)) = Inl ?e"
      unfolding network_write_decode_def
      by (rule decodes_fields_sum [OF network_write_reads [OF assms(1)] _ _ _ assms(2) _ assms(3)];
          cases "network_common ?s"; use that in \<open>auto simp: finishing_done network_write_field_simps network_write_complete_def\<close>)
    moreover have "?e = Ce_ConfigOnly Sk_PskSet" if "country = Some c" "hostname = Some h" "network_common_ok c h" for c h
      using network_common_own [OF that(3), of ?s] that by simp
    ultimately show ?thesis
      by blast
  qed
  show "\<exists>n out. network_write_encode x dst = (Inr n, out) \<and> n \<le> MAX_NETWORK_WRITE_BYTES \<and> network_write_decode (take n out) = Inr x"
    if "network_write_valid x" "MAX_NETWORK_WRITE_BYTES \<le> length dst" "length dst \<le> usize_max"
    by (rule network_write.fits [OF that(1) network_sizes(1) [OF that(1)] that(2,3)])
  show "\<exists>n out. network_read_encode y dst = (Inr n, out) \<and> n \<le> MAX_NETWORK_READ_BYTES \<and> network_read_decode (take n out) = Inr y"
    if "network_read_valid y" "MAX_NETWORK_READ_BYTES \<le> length dst" "length dst \<le> usize_max"
    by (rule network_read.fits [OF that(1) network_sizes(2) [OF that(1)] that(2,3)])
  show "network_write_valid x'" if "network_write_decode bs = Inr x'"
    using that by (rule network_write.decode_valid)
  show "network_read_valid y'" if "network_read_decode bs = Inr y'"
    using that by (rule network_read.decode_valid)
  show "outcome = Sco_Invalid \<and> (\<exists>slots. decoding (andthen (map_fields Ce_Cbor network_write_field network_empty)
        (\<lambda>s. andthen (finishing Ce_Cbor) (\<lambda>_. ret s))) bs = Inr slots)"
    if "network_write_decode bs = Inl why" "config_answer why = RefuseOutcome outcome"
  proof -
    have "\<not> malformed why" "outcome = Sco_Invalid"
      using that(2) by (cases why; simp add: malformed_def)+
    then show ?thesis
      using refused_after_reading [OF that(1) [unfolded network_write_decode_def] network_field_fails(1)] by auto
  qed
  show "network_passphrase x held_for = Inr Passphrase_Keep \<longleftrightarrow> (\<exists>j. nw_join x = Some j \<and> jw_psk j = None \<and> held_for = Some (jw_ssid j))"
    by (auto simp: network_passphrase_def split: option.split)
qed



end
