(* ===== verification/Config_Messages.thy ===== *)
theory Config_Messages
  imports Config Command
begin

text \<open>
  \<open>crates/km43/src/config_messages.rs\<close>: reading a configuration section and writing one. The section's
  body travels as its own bytes and is one CBOR map; a section nobody has written is version 0 and has no
  body. In the lemmas \<open>G\<close> gives the map a body is.
\<close>

definition MAX_GET_CONFIG_BYTES :: nat where "MAX_GET_CONFIG_BYTES = 5"
definition MAX_SET_CONFIG_ACK_BYTES :: nat where "MAX_SET_CONFIG_ACK_BYTES = 13"
definition CONFIG_HEADER_BYTES :: nat where "CONFIG_HEADER_BYTES = 12"

datatype config_message_key = Cmk_Section | Cmk_Version | Cmk_ExpectedVersion | Cmk_Body | Cmk_Outcome'

primrec config_message_key_number :: "config_message_key \<Rightarrow> int" where
  "config_message_key_number Cmk_Section = 1"
| "config_message_key_number Cmk_Version = 2"
| "config_message_key_number Cmk_ExpectedVersion = 2"
| "config_message_key_number Cmk_Body = 3"
| "config_message_key_number Cmk_Outcome' = 3"

datatype config_message_error =
    Cfm_Missing config_message_key
  | Cfm_Duplicate config_message_key
  | Cfm_UnknownSection u16
  | Cfm_UnknownOutcome u8
  | Cfm_BodyNotAMap
  | Cfm_UnwrittenWithBody
  | Cfm_WrittenWithoutBody
  | Cfm_Cbor cbor_error

primrec config_message_refusal :: "config_message_error \<Rightarrow> refusal" where
  "config_message_refusal (Cfm_UnknownSection _) = RefuseClient Ec_UnknownSection"
| "config_message_refusal (Cfm_Missing _) = RefuseClient Ec_MalformedFrame"
| "config_message_refusal (Cfm_Duplicate _) = RefuseClient Ec_MalformedFrame"
| "config_message_refusal (Cfm_UnknownOutcome _) = RefuseClient Ec_MalformedFrame"
| "config_message_refusal Cfm_BodyNotAMap = RefuseClient Ec_MalformedFrame"
| "config_message_refusal Cfm_UnwrittenWithBody = RefuseClient Ec_MalformedFrame"
| "config_message_refusal Cfm_WrittenWithoutBody = RefuseClient Ec_MalformedFrame"
| "config_message_refusal (Cfm_Cbor _) = RefuseClient Ec_MalformedFrame"

definition body_map :: "bytes \<Rightarrow> config_message_error + unit" where
  "body_map body = map_sum (\<lambda>_. Cfm_BodyNotAMap) (\<lambda>_. ()) (fst (rd_map (reader_over body)))"

definition checked_body :: "bytes \<Rightarrow> config_message_error + bytes" where
  "checked_body raw = map_sum id (\<lambda>_. raw) (body_map raw)"

section \<open>The four messages\<close>

record get_config =
  gc_section :: config_section

definition get_config_pairs :: "get_config \<Rightarrow> (writer, cbor_error, unit) act" where
  "get_config_pairs x =
     andthen (wr_key 1) (\<lambda>_. wr_u64 (ucast (config_section_num (gc_section x))))"

definition get_config_encode :: "get_config \<Rightarrow> bytes \<Rightarrow> (config_message_error + nat) \<times> bytes" where
  "get_config_encode x =
     encoding Cfm_Cbor (map_err Cfm_Cbor (andthen (wr_map 1) (\<lambda>_. get_config_pairs x)))"

record get_config_slots =
  gcq_section :: "config_section option"

definition get_config_empty :: get_config_slots where
  "get_config_empty = \<lparr>gcq_section = None\<rparr>"

definition get_config_field :: "get_config_slots \<Rightarrow> int \<Rightarrow> (reader, config_message_error, get_config_slots) act" where
  "get_config_field slots number =
     (if number = 1 then
     andthen (map_err Cfm_Cbor rd_u16) (\<lambda>v. andthen (lift_sum (allocated config_section_of Cfm_UnknownSection v)) (\<lambda>w.
     andthen (once (Cfm_Duplicate Cmk_Section) (gcq_section slots) w) (\<lambda>t. ret (slots\<lparr>gcq_section := t\<rparr>))))
      else skipped Cfm_Cbor slots)"

definition get_config_complete :: "get_config_slots \<Rightarrow> (reader, config_message_error, get_config) act" where
  "get_config_complete slots =
     andthen (ok_or (Cfm_Missing Cmk_Section) (gcq_section slots)) (\<lambda>section'.
     ret \<lparr>gc_section = section'\<rparr>)"

definition get_config_decode :: "bytes \<Rightarrow> config_message_error + get_config" where
  "get_config_decode = decoding (
     andthen (map_fields Cfm_Cbor get_config_field get_config_empty) (\<lambda>slots.
     andthen (finishing Cfm_Cbor) (\<lambda>_. get_config_complete slots)))"

record config_msg =
  cf_section :: config_section
  cf_version :: u32
  cf_body :: "bytes option"

definition config_msg_new :: "config_section \<Rightarrow> u32 \<Rightarrow> bytes option \<Rightarrow> config_message_error + config_msg" where
  "config_msg_new section' version body =
     (case (version = 0, body) of
        (True, None) \<Rightarrow> Inr \<lparr>cf_section = section', cf_version = version, cf_body = body\<rparr>
      | (True, Some _) \<Rightarrow> Inl Cfm_UnwrittenWithBody
      | (False, None) \<Rightarrow> Inl Cfm_WrittenWithoutBody
      | (False, Some b) \<Rightarrow>
          (case body_map b of
             Inl why \<Rightarrow> Inl why
           | Inr _ \<Rightarrow> Inr \<lparr>cf_section = section', cf_version = version, cf_body = body\<rparr>))"

definition config_msg_pairs :: "config_msg \<Rightarrow> (writer, cbor_error, unit) act" where
  "config_msg_pairs x =
     andthen (wr_key 1) (\<lambda>_. andthen (wr_u64 (ucast (config_section_num (cf_section x)))) (\<lambda>_.
     andthen (wr_key 2) (\<lambda>_. andthen (wr_u64 (ucast (cf_version x))) (\<lambda>_.
     (case (cf_body x) of Some v \<Rightarrow> andthen (wr_key 3) (\<lambda>_. wr_raw v) | None \<Rightarrow> ret ())))))"

definition config_msg_encode :: "config_msg \<Rightarrow> bytes \<Rightarrow> (config_message_error + nat) \<times> bytes" where
  "config_msg_encode x =
     encoding Cfm_Cbor (map_err Cfm_Cbor (andthen (wr_map (2 + (if (cf_body x) \<noteq> None then 1 else 0))) (\<lambda>_. config_msg_pairs x)))"

record config_msg_slots =
  cfq_section :: "config_section option"
  cfq_version :: "u32 option"
  cfq_body :: "bytes option"

definition config_msg_empty :: config_msg_slots where
  "config_msg_empty = \<lparr>cfq_section = None, cfq_version = None, cfq_body = None\<rparr>"

definition config_msg_field :: "config_msg_slots \<Rightarrow> int \<Rightarrow> (reader, config_message_error, config_msg_slots) act" where
  "config_msg_field slots number =
     (if number = 1 then
     andthen (map_err Cfm_Cbor rd_u16) (\<lambda>v. andthen (lift_sum (allocated config_section_of Cfm_UnknownSection v)) (\<lambda>w.
     andthen (once (Cfm_Duplicate Cmk_Section) (cfq_section slots) w) (\<lambda>t. ret (slots\<lparr>cfq_section := t\<rparr>))))
      else if number = 2 then
     andthen (map_err Cfm_Cbor rd_u32) (\<lambda>v.
     andthen (once (Cfm_Duplicate Cmk_Version) (cfq_version slots) v) (\<lambda>t. ret (slots\<lparr>cfq_version := t\<rparr>)))
      else if number = 3 then
     andthen (map_err Cfm_Cbor rd_raw) (\<lambda>v.
     andthen (once (Cfm_Duplicate Cmk_Body) (cfq_body slots) v) (\<lambda>t. ret (slots\<lparr>cfq_body := t\<rparr>)))
      else skipped Cfm_Cbor slots)"

definition config_msg_complete :: "config_msg_slots \<Rightarrow> (reader, config_message_error, config_msg) act" where
  "config_msg_complete slots =
     andthen (ok_or (Cfm_Missing Cmk_Section) (cfq_section slots)) (\<lambda>section'.
     andthen (ok_or (Cfm_Missing Cmk_Version) (cfq_version slots)) (\<lambda>version.
     lift_sum (config_msg_new section' version (cfq_body slots))))"

definition config_msg_decode :: "bytes \<Rightarrow> config_message_error + config_msg" where
  "config_msg_decode = decoding (
     andthen (map_fields Cfm_Cbor config_msg_field config_msg_empty) (\<lambda>slots.
     andthen (finishing Cfm_Cbor) (\<lambda>_. config_msg_complete slots)))"

record set_config_op =
  sco_section :: config_section
  sco_expected_version :: u32
  sco_body :: bytes

definition set_config_op_pairs :: "set_config_op \<Rightarrow> (writer, cbor_error, unit) act" where
  "set_config_op_pairs x =
     andthen (wr_key 1) (\<lambda>_. andthen (wr_u64 (ucast (config_section_num (sco_section x)))) (\<lambda>_.
     andthen (wr_key 2) (\<lambda>_. andthen (wr_u64 (ucast (sco_expected_version x))) (\<lambda>_.
     andthen (wr_key 3) (\<lambda>_. wr_raw (sco_body x))))))"

definition set_config_op_encode :: "set_config_op \<Rightarrow> bytes \<Rightarrow> (config_message_error + nat) \<times> bytes" where
  "set_config_op_encode x dst =
     (case body_map (sco_body x) of Inl why \<Rightarrow> (Inl why, dst) | Inr _ \<Rightarrow> encoding Cfm_Cbor (map_err Cfm_Cbor (andthen (wr_map 3) (\<lambda>_. set_config_op_pairs x))) dst)"

record set_config_op_slots =
  scoq_section :: "config_section option"
  scoq_expected :: "u32 option"
  scoq_body :: "bytes option"

definition set_config_op_empty :: set_config_op_slots where
  "set_config_op_empty = \<lparr>scoq_section = None, scoq_expected = None, scoq_body = None\<rparr>"

definition set_config_op_field :: "set_config_op_slots \<Rightarrow> int \<Rightarrow> (reader, config_message_error, set_config_op_slots) act" where
  "set_config_op_field slots number =
     (if number = 1 then
     andthen (map_err Cfm_Cbor rd_u16) (\<lambda>v. andthen (lift_sum (allocated config_section_of Cfm_UnknownSection v)) (\<lambda>w.
     andthen (once (Cfm_Duplicate Cmk_Section) (scoq_section slots) w) (\<lambda>t. ret (slots\<lparr>scoq_section := t\<rparr>))))
      else if number = 2 then
     andthen (map_err Cfm_Cbor rd_u32) (\<lambda>v.
     andthen (once (Cfm_Duplicate Cmk_ExpectedVersion) (scoq_expected slots) v) (\<lambda>t. ret (slots\<lparr>scoq_expected := t\<rparr>)))
      else if number = 3 then
     andthen (map_err Cfm_Cbor rd_raw) (\<lambda>v. andthen (lift_sum (checked_body v)) (\<lambda>w.
     andthen (once (Cfm_Duplicate Cmk_Body) (scoq_body slots) w) (\<lambda>t. ret (slots\<lparr>scoq_body := t\<rparr>))))
      else skipped Cfm_Cbor slots)"

definition set_config_op_complete :: "set_config_op_slots \<Rightarrow> (reader, config_message_error, set_config_op) act" where
  "set_config_op_complete slots =
     andthen (ok_or (Cfm_Missing Cmk_Section) (scoq_section slots)) (\<lambda>section'.
     andthen (ok_or (Cfm_Missing Cmk_ExpectedVersion) (scoq_expected slots)) (\<lambda>expected.
     andthen (ok_or (Cfm_Missing Cmk_Body) (scoq_body slots)) (\<lambda>body.
     ret \<lparr>sco_section = section', sco_expected_version = expected, sco_body = body\<rparr>)))"

definition set_config_op_decode :: "bytes \<Rightarrow> config_message_error + set_config_op" where
  "set_config_op_decode = decoding (
     andthen (map_fields Cfm_Cbor set_config_op_field set_config_op_empty) (\<lambda>slots.
     andthen (finishing Cfm_Cbor) (\<lambda>_. set_config_op_complete slots)))"

definition check_version :: "set_config_op \<Rightarrow> u32 \<Rightarrow> set_config_outcome + unit" where
  "check_version x current = (if sco_expected_version x = current then Inr () else Inl Sco_StaleVersion)"

record set_config_ack =
  sca_section :: config_section
  sca_version :: u32
  sca_outcome :: set_config_outcome

definition set_config_ack_pairs :: "set_config_ack \<Rightarrow> (writer, cbor_error, unit) act" where
  "set_config_ack_pairs x =
     andthen (wr_key 1) (\<lambda>_. andthen (wr_u64 (ucast (config_section_num (sca_section x)))) (\<lambda>_.
     andthen (wr_key 2) (\<lambda>_. andthen (wr_u64 (ucast (sca_version x))) (\<lambda>_.
     andthen (wr_key 3) (\<lambda>_. wr_u64 (ucast (set_config_outcome_num (sca_outcome x))))))))"

definition set_config_ack_encode :: "set_config_ack \<Rightarrow> bytes \<Rightarrow> (config_message_error + nat) \<times> bytes" where
  "set_config_ack_encode x =
     encoding Cfm_Cbor (map_err Cfm_Cbor (andthen (wr_map 3) (\<lambda>_. set_config_ack_pairs x)))"

record set_config_ack_slots =
  scaq_section :: "config_section option"
  scaq_version :: "u32 option"
  scaq_outcome :: "set_config_outcome option"

definition set_config_ack_empty :: set_config_ack_slots where
  "set_config_ack_empty = \<lparr>scaq_section = None, scaq_version = None, scaq_outcome = None\<rparr>"

definition set_config_ack_field :: "set_config_ack_slots \<Rightarrow> int \<Rightarrow> (reader, config_message_error, set_config_ack_slots) act" where
  "set_config_ack_field slots number =
     (if number = 1 then
     andthen (map_err Cfm_Cbor rd_u16) (\<lambda>v. andthen (lift_sum (allocated config_section_of Cfm_UnknownSection v)) (\<lambda>w.
     andthen (once (Cfm_Duplicate Cmk_Section) (scaq_section slots) w) (\<lambda>t. ret (slots\<lparr>scaq_section := t\<rparr>))))
      else if number = 2 then
     andthen (map_err Cfm_Cbor rd_u32) (\<lambda>v.
     andthen (once (Cfm_Duplicate Cmk_Version) (scaq_version slots) v) (\<lambda>t. ret (slots\<lparr>scaq_version := t\<rparr>)))
      else if number = 3 then
     andthen (map_err Cfm_Cbor rd_u8) (\<lambda>v. andthen (lift_sum (allocated set_config_outcome_of Cfm_UnknownOutcome v)) (\<lambda>w.
     andthen (once (Cfm_Duplicate Cmk_Outcome') (scaq_outcome slots) w) (\<lambda>t. ret (slots\<lparr>scaq_outcome := t\<rparr>))))
      else skipped Cfm_Cbor slots)"

definition set_config_ack_complete :: "set_config_ack_slots \<Rightarrow> (reader, config_message_error, set_config_ack) act" where
  "set_config_ack_complete slots =
     andthen (ok_or (Cfm_Missing Cmk_Section) (scaq_section slots)) (\<lambda>section'.
     andthen (ok_or (Cfm_Missing Cmk_Version) (scaq_version slots)) (\<lambda>version.
     andthen (ok_or (Cfm_Missing Cmk_Outcome') (scaq_outcome slots)) (\<lambda>outcome.
     ret \<lparr>sca_section = section', sca_version = version, sca_outcome = outcome\<rparr>)))"

definition set_config_ack_decode :: "bytes \<Rightarrow> config_message_error + set_config_ack" where
  "set_config_ack_decode = decoding (
     andthen (map_fields Cfm_Cbor set_config_ack_field set_config_ack_empty) (\<lambda>slots.
     andthen (finishing Cfm_Cbor) (\<lambda>_. set_config_ack_complete slots)))"

section \<open>Bodies that are maps\<close>

lemma config_numbers [simp]:
  "allocated config_section_of f1 (config_section_num x1) = Inr x1"
  "allocated set_config_outcome_of f2 (set_config_outcome_num x2) = Inr x2"
  unfolding allocated_def config_section.of_num_of set_config_outcome.of_num_of by simp_all

definition own_map :: "(bytes \<Rightarrow> (int \<times> item) list) \<Rightarrow> bytes \<Rightarrow> bool" where
  "own_map G v \<longleftrightarrow> v = map_bytes (G v) \<and> extends (- 1) 6 (G v) \<and> length v \<le> usize_max"

lemma own_mapD:
  assumes "own_map G v"
  shows "reads_item rd_raw (map_item (G v)) v" and "writes_item (wr_raw v) (map_item (G v))" and "item_depth (map_item (G v)) \<le> 7"
    and "checked_body v = Inr v"
proof -
  have own: "v = map_bytes (G v)" "extends (- 1) 6 (G v)" "length v \<le> usize_max"
    using assms by (auto simp: own_map_def)
  note it = map_of_own_bytes [OF own(1,2)]
  show "reads_item rd_raw (map_item (G v)) v" "writes_item (wr_raw v) (map_item (G v))" "item_depth (map_item (G v)) \<le> 7"
    using it reads_own_bytes writes_own_bytes by simp_all
  have "a_map v = Inr ()"
    using a_map_own [of "G v"] own(1,3) by simp
  then show "checked_body v = Inr v"
    by (cases "fst (rd_map (reader_over v))") (simp_all add: a_map_def checked_body_def body_map_def)
qed

lemma body_map_own: "own_map G v \<Longrightarrow> body_map v = Inr ()"
  using own_mapD(4) [of G v] by (cases "body_map v") (simp_all add: checked_body_def)


definition get_config_fields :: "get_config \<Rightarrow> (int \<times> item) list" where
  "get_config_fields x =
     [(1, IUint (ucast (config_section_num (gc_section x))))]"

lemma get_config_ok [simp]:
  "ascending None (get_config_fields x)" "shallow room (get_config_fields x)" "known 1 (get_config_fields x)"
  "length (get_config_fields x) = 1"
  by (auto simp: get_config_fields_def good_key_def split: option.split)

lemma get_config_writes:
  shows "writes_pairs (get_config_pairs x) (get_config_fields x)"
  unfolding get_config_pairs_def get_config_fields_def
  by (intro writes_append writes_option item_rules)

lemma get_config_field_simps:
  "get_config_field s 1 = andthen (map_err Cfm_Cbor rd_u16) (\<lambda>v. andthen (lift_sum (allocated config_section_of Cfm_UnknownSection v)) (\<lambda>w.
     andthen (once (Cfm_Duplicate Cmk_Section) (gcq_section s) w) (\<lambda>t. ret (s\<lparr>gcq_section := t\<rparr>))))"
  "1 < j \<Longrightarrow> get_config_field s j = skipped Cfm_Cbor s"
  by (simp_all add: get_config_field_def)

lemma get_config_reads:
  shows "reads_pairs get_config_field (get_config_fields x) get_config_empty
    \<lparr>gcq_section = Some (gc_section x)\<rparr>"
  by (rule reads_eq, unfold get_config_fields_def)
    (rule reads_Nil | rule reads_Cons | rule reads_pairs_append, rule reads_optional | rule reads_optional | simp only: get_config_field_simps
      | rule slot_rules | rule config_numbers item_rules | assumption | simp add: get_config_empty_def; fail)+

interpretation get_config: body_codec get_config_encode get_config_decode get_config_fields "\<lambda>_. True" 1
proof
  fix x and dst :: bytes
  assume x: "length (map_bytes (get_config_fields x)) \<le> length dst" "length dst \<le> usize_max"
  then show "get_config_encode x dst = (Inr (length (map_bytes (get_config_fields x))), splice dst 0 (map_bytes (get_config_fields x)))"
    unfolding get_config_encode_def by (simp add: encodes_fields [OF get_config_writes])
next
  fix x fs
  assume x: "extends 1 INNER fs" "length (map_bytes (get_config_fields x @ fs)) \<le> usize_max"
  show "get_config_decode (map_bytes (get_config_fields x @ fs)) = Inr x"
    unfolding get_config_decode_def
    by (rule decodes_fields [OF get_config_reads _ _ _ x(1) _ x(2)])
      (auto intro!: runs_andthen runs_finishing simp: get_config_complete_def get_config_field_simps)
qed

definition set_config_ack_fields :: "set_config_ack \<Rightarrow> (int \<times> item) list" where
  "set_config_ack_fields x =
     [(1, IUint (ucast (config_section_num (sca_section x)))), (2, IUint (ucast (sca_version x))), (3, IUint (ucast (set_config_outcome_num (sca_outcome x))))]"

lemma set_config_ack_ok [simp]:
  "ascending None (set_config_ack_fields x)" "shallow room (set_config_ack_fields x)" "known 3 (set_config_ack_fields x)"
  "length (set_config_ack_fields x) = 3"
  by (auto simp: set_config_ack_fields_def good_key_def split: option.split)

lemma set_config_ack_writes:
  shows "writes_pairs (set_config_ack_pairs x) (set_config_ack_fields x)"
  unfolding set_config_ack_pairs_def set_config_ack_fields_def
  by (intro writes_append writes_option item_rules)

lemma set_config_ack_field_simps:
  "set_config_ack_field s 1 = andthen (map_err Cfm_Cbor rd_u16) (\<lambda>v. andthen (lift_sum (allocated config_section_of Cfm_UnknownSection v)) (\<lambda>w.
     andthen (once (Cfm_Duplicate Cmk_Section) (scaq_section s) w) (\<lambda>t. ret (s\<lparr>scaq_section := t\<rparr>))))"
  "set_config_ack_field s 2 = andthen (map_err Cfm_Cbor rd_u32) (\<lambda>v.
     andthen (once (Cfm_Duplicate Cmk_Version) (scaq_version s) v) (\<lambda>t. ret (s\<lparr>scaq_version := t\<rparr>)))"
  "set_config_ack_field s 3 = andthen (map_err Cfm_Cbor rd_u8) (\<lambda>v. andthen (lift_sum (allocated set_config_outcome_of Cfm_UnknownOutcome v)) (\<lambda>w.
     andthen (once (Cfm_Duplicate Cmk_Outcome') (scaq_outcome s) w) (\<lambda>t. ret (s\<lparr>scaq_outcome := t\<rparr>))))"
  "3 < j \<Longrightarrow> set_config_ack_field s j = skipped Cfm_Cbor s"
  by (simp_all add: set_config_ack_field_def)

lemma set_config_ack_reads:
  shows "reads_pairs set_config_ack_field (set_config_ack_fields x) set_config_ack_empty
    \<lparr>scaq_section = Some (sca_section x), scaq_version = Some (sca_version x), scaq_outcome = Some (sca_outcome x)\<rparr>"
  by (rule reads_eq, unfold set_config_ack_fields_def)
    (rule reads_Nil | rule reads_Cons | rule reads_pairs_append, rule reads_optional | rule reads_optional | simp only: set_config_ack_field_simps
      | rule slot_rules | rule config_numbers item_rules | assumption | simp add: set_config_ack_empty_def; fail)+

interpretation set_config_ack: body_codec set_config_ack_encode set_config_ack_decode set_config_ack_fields "\<lambda>_. True" 3
proof
  fix x and dst :: bytes
  assume x: "length (map_bytes (set_config_ack_fields x)) \<le> length dst" "length dst \<le> usize_max"
  then show "set_config_ack_encode x dst = (Inr (length (map_bytes (set_config_ack_fields x))), splice dst 0 (map_bytes (set_config_ack_fields x)))"
    unfolding set_config_ack_encode_def by (simp add: encodes_fields [OF set_config_ack_writes])
next
  fix x fs
  assume x: "extends 3 INNER fs" "length (map_bytes (set_config_ack_fields x @ fs)) \<le> usize_max"
  show "set_config_ack_decode (map_bytes (set_config_ack_fields x @ fs)) = Inr x"
    unfolding set_config_ack_decode_def
    by (rule decodes_fields [OF set_config_ack_reads _ _ _ x(1) _ x(2)])
      (auto intro!: runs_andthen runs_finishing simp: set_config_ack_complete_def set_config_ack_field_simps)
qed

definition set_config_op_fields :: "(bytes \<Rightarrow> (int \<times> item) list) \<Rightarrow> set_config_op \<Rightarrow> (int \<times> item) list" where
  "set_config_op_fields G x =
     [(1, IUint (ucast (config_section_num (sco_section x)))), (2, IUint (ucast (sco_expected_version x))), (3, map_item (G (sco_body x)))]"

definition set_config_op_valid :: "(bytes \<Rightarrow> (int \<times> item) list) \<Rightarrow> set_config_op \<Rightarrow> bool" where
  "set_config_op_valid G x \<longleftrightarrow> own_map G (sco_body x)"

lemma set_config_op_ok:
  assumes "set_config_op_valid G x"
  shows "ascending None (set_config_op_fields G x)" "shallow 7 (set_config_op_fields G x)" "known 3 (set_config_op_fields G x)"
    "length (set_config_op_fields G x) = 3"
  using assms own_mapD(3) by (auto simp: set_config_op_fields_def set_config_op_valid_def good_key_def split: option.split)

lemma set_config_op_writes:
  assumes "set_config_op_valid G x"
  shows "writes_pairs (set_config_op_pairs x) (set_config_op_fields G x)"
  using assms unfolding set_config_op_pairs_def set_config_op_fields_def
  by (intro writes_append writes_option item_rules) (simp_all add: set_config_op_valid_def own_mapD)

lemma set_config_op_field_simps:
  "set_config_op_field s 1 = andthen (map_err Cfm_Cbor rd_u16) (\<lambda>v. andthen (lift_sum (allocated config_section_of Cfm_UnknownSection v)) (\<lambda>w.
     andthen (once (Cfm_Duplicate Cmk_Section) (scoq_section s) w) (\<lambda>t. ret (s\<lparr>scoq_section := t\<rparr>))))"
  "set_config_op_field s 2 = andthen (map_err Cfm_Cbor rd_u32) (\<lambda>v.
     andthen (once (Cfm_Duplicate Cmk_ExpectedVersion) (scoq_expected s) v) (\<lambda>t. ret (s\<lparr>scoq_expected := t\<rparr>)))"
  "set_config_op_field s 3 = andthen (map_err Cfm_Cbor rd_raw) (\<lambda>v. andthen (lift_sum (checked_body v)) (\<lambda>w.
     andthen (once (Cfm_Duplicate Cmk_Body) (scoq_body s) w) (\<lambda>t. ret (s\<lparr>scoq_body := t\<rparr>))))"
  "3 < j \<Longrightarrow> set_config_op_field s j = skipped Cfm_Cbor s"
  by (simp_all add: set_config_op_field_def)

lemma set_config_op_reads:
  assumes "set_config_op_valid G x"
  shows "reads_pairs set_config_op_field (set_config_op_fields G x) set_config_op_empty
    \<lparr>scoq_section = Some (sco_section x), scoq_expected = Some (sco_expected_version x), scoq_body = Some (sco_body x)\<rparr>"
proof -
  have ok: "own_map G (sco_body x)"
    using assms by (auto simp: set_config_op_valid_def)
  show ?thesis
    by (rule reads_eq, unfold set_config_op_fields_def)
      (rule reads_Nil | rule reads_Cons | rule reads_pairs_append, rule reads_optional | rule reads_optional | simp only: set_config_op_field_simps
      | rule slot_rules | rule config_numbers own_mapD ok item_rules | assumption | simp add: set_config_op_empty_def; fail)+
qed

interpretation set_config_op: body_codec set_config_op_encode set_config_op_decode "set_config_op_fields G" "set_config_op_valid G" 3 for G
proof
  fix x and dst :: bytes
  assume x: "set_config_op_valid G x" "length (map_bytes (set_config_op_fields G x)) \<le> length dst" "length dst \<le> usize_max"
  then show "set_config_op_encode x dst = (Inr (length (map_bytes (set_config_op_fields G x))), splice dst 0 (map_bytes (set_config_op_fields G x)))"
    unfolding set_config_op_encode_def by (simp add: encodes_fields [OF set_config_op_writes [OF x(1)] set_config_op_ok(1,2) [OF x(1)]] set_config_op_ok(4) [OF x(1)] body_map_own [OF x(1) [unfolded set_config_op_valid_def]])
next
  fix x fs
  assume x: "set_config_op_valid G x" "extends 3 INNER fs" "length (map_bytes (set_config_op_fields G x @ fs)) \<le> usize_max"
  show "set_config_op_decode (map_bytes (set_config_op_fields G x @ fs)) = Inr x"
    unfolding set_config_op_decode_def
    by (rule decodes_fields [OF set_config_op_reads [OF x(1)] set_config_op_ok(1-3) [OF x(1)] x(2) _ x(3)])
      (auto intro!: runs_andthen runs_finishing simp: set_config_op_complete_def set_config_op_field_simps)
qed

lemma config_msg_new_own:
  "(cf_version x = 0 \<longleftrightarrow> cf_body x = None) \<Longrightarrow> (\<forall>v. cf_body x = Some v \<longrightarrow> own_map G v) \<Longrightarrow>
   config_msg_new (cf_section x) (cf_version x) (cf_body x) = Inr x"
  by (cases x) (auto simp: config_msg_new_def body_map_own split: option.split)


definition config_msg_fields :: "(bytes \<Rightarrow> (int \<times> item) list) \<Rightarrow> config_msg \<Rightarrow> (int \<times> item) list" where
  "config_msg_fields G x =
     (1, IUint (ucast (config_section_num (cf_section x)))) # (2, IUint (ucast (cf_version x))) # (case (cf_body x) of Some v \<Rightarrow> [(3, map_item (G v))] | None \<Rightarrow> [])"

definition config_msg_valid :: "(bytes \<Rightarrow> (int \<times> item) list) \<Rightarrow> config_msg \<Rightarrow> bool" where
  "config_msg_valid G x \<longleftrightarrow> (\<forall>v. (cf_body x) = Some v \<longrightarrow> own_map G v) \<and> (cf_version x = 0 \<longleftrightarrow> cf_body x = None)"

lemma config_msg_ok:
  assumes "config_msg_valid G x"
  shows "ascending None (config_msg_fields G x)" "shallow 7 (config_msg_fields G x)" "known 3 (config_msg_fields G x)"
    "length (config_msg_fields G x) = (2 + (if (cf_body x) \<noteq> None then 1 else 0))"
  using assms own_mapD(3) by (auto simp: config_msg_fields_def config_msg_valid_def good_key_def split: option.split)

lemma config_msg_writes:
  assumes "config_msg_valid G x"
  shows "writes_pairs (config_msg_pairs x) (config_msg_fields G x)"
  using assms unfolding config_msg_pairs_def config_msg_fields_def
  by (intro writes_append writes_option item_rules) (simp_all add: config_msg_valid_def own_mapD)

lemma config_msg_field_simps:
  "config_msg_field s 1 = andthen (map_err Cfm_Cbor rd_u16) (\<lambda>v. andthen (lift_sum (allocated config_section_of Cfm_UnknownSection v)) (\<lambda>w.
     andthen (once (Cfm_Duplicate Cmk_Section) (cfq_section s) w) (\<lambda>t. ret (s\<lparr>cfq_section := t\<rparr>))))"
  "config_msg_field s 2 = andthen (map_err Cfm_Cbor rd_u32) (\<lambda>v.
     andthen (once (Cfm_Duplicate Cmk_Version) (cfq_version s) v) (\<lambda>t. ret (s\<lparr>cfq_version := t\<rparr>)))"
  "config_msg_field s 3 = andthen (map_err Cfm_Cbor rd_raw) (\<lambda>v.
     andthen (once (Cfm_Duplicate Cmk_Body) (cfq_body s) v) (\<lambda>t. ret (s\<lparr>cfq_body := t\<rparr>)))"
  "3 < j \<Longrightarrow> config_msg_field s j = skipped Cfm_Cbor s"
  by (simp_all add: config_msg_field_def)

lemma config_msg_reads:
  assumes "config_msg_valid G x"
  shows "reads_pairs config_msg_field (config_msg_fields G x) config_msg_empty
    \<lparr>cfq_section = Some (cf_section x), cfq_version = Some (cf_version x), cfq_body = (cf_body x)\<rparr>"
proof -
  have ok: "\<And>v. (cf_body x) = Some v \<Longrightarrow> own_map G v"
    using assms by (auto simp: config_msg_valid_def)
  show ?thesis
    by (rule reads_eq, unfold config_msg_fields_def)
      (rule reads_Nil | rule reads_Cons | rule reads_pairs_append, rule reads_optional | rule reads_optional | simp only: config_msg_field_simps
      | rule slot_rules | rule config_numbers own_mapD ok item_rules | assumption | simp add: config_msg_empty_def; fail)+
qed

interpretation config_msg: body_codec config_msg_encode config_msg_decode "config_msg_fields G" "config_msg_valid G" 3 for G
proof
  fix x and dst :: bytes
  assume x: "config_msg_valid G x" "length (map_bytes (config_msg_fields G x)) \<le> length dst" "length dst \<le> usize_max"
  then show "config_msg_encode x dst = (Inr (length (map_bytes (config_msg_fields G x))), splice dst 0 (map_bytes (config_msg_fields G x)))"
    unfolding config_msg_encode_def by (simp add: encodes_fields [OF config_msg_writes [OF x(1)] config_msg_ok(1,2) [OF x(1)]] config_msg_ok(4) [OF x(1)])
next
  fix x fs
  assume x: "config_msg_valid G x" "extends 3 INNER fs" "length (map_bytes (config_msg_fields G x @ fs)) \<le> usize_max"
  show "config_msg_decode (map_bytes (config_msg_fields G x @ fs)) = Inr x"
    unfolding config_msg_decode_def
    by (rule decodes_fields [OF config_msg_reads [OF x(1)] config_msg_ok(1-3) [OF x(1)] x(2) _ x(3)])
      (insert x(1), auto intro!: runs_andthen runs_finishing simp: config_msg_complete_def config_msg_field_simps config_msg_valid_def config_msg_new_own [of x G])
qed

section \<open>What any bytes decode to\<close>

lemma config_msg_new_InrD:
  "config_msg_new s v b = Inr x \<Longrightarrow> (cf_version x = 0 \<longleftrightarrow> cf_body x = None) \<and> (\<forall>w. cf_body x = Some w \<longrightarrow> body_map w = Inr ())"
  by (auto simp: config_msg_new_def split: option.splits sum.splits bool.splits)

lemma config_msg_decode_InrD:
  assumes "config_msg_decode bs = Inr x"
  shows "cf_version x = 0 \<longleftrightarrow> cf_body x = None" and "cf_body x = Some w \<Longrightarrow> body_map w = Inr ()"
proof -
  obtain slots s t where "config_msg_complete slots s = (Inr x, t)"
    using assms unfolding config_msg_decode_def by (rule body_InrE [where P = "\<lambda>_. True"]) auto
  then obtain a v b where "config_msg_new a v b = Inr x"
    by (auto simp: config_msg_complete_def elim!: andthen_InrE lift_sum_InrE)
  then show "cf_version x = 0 \<longleftrightarrow> cf_body x = None" "cf_body x = Some w \<Longrightarrow> body_map w = Inr ()"
    using config_msg_new_InrD by blast+
qed

lemma checked_body_InrD: "checked_body v = Inr w \<Longrightarrow> w = v \<and> body_map v = Inr ()"
  by (cases "body_map v") (auto simp: checked_body_def)

definition set_config_op_kept :: "set_config_op_slots \<Rightarrow> bool" where
  "set_config_op_kept s \<longleftrightarrow> (\<forall>w. scoq_body s = Some w \<longrightarrow> body_map w = Inr ())"

lemma set_config_op_decode_InrD:
  assumes "set_config_op_decode bs = Inr x"
  shows "body_map (sco_body x) = Inr ()"
proof -
  have keeps: "set_config_op_kept a'" if "set_config_op_kept a" "set_config_op_field a k s = (Inr a', s')" for a k s a' s'
    using that by (auto simp: set_config_op_field_def set_config_op_kept_def elim!: slot_InrE plain_slot_InrE map_err_InrE skipped_InrE
        dest: checked_body_InrD split: if_splits)
  obtain slots s t where "set_config_op_kept slots" "set_config_op_complete slots s = (Inr x, t)"
    using assms unfolding set_config_op_decode_def
    by (rule body_InrE [where P = set_config_op_kept]) (simp add: set_config_op_kept_def set_config_op_empty_def, blast intro: keeps, blast)
  then show ?thesis
    by (auto simp: set_config_op_complete_def set_config_op_kept_def elim!: decode_InrE)
qed

lemma config_sizes:
  assumes "own_map G body"
  shows "length (map_bytes (config_msg_fields G \<lparr>cf_section = s, cf_version = v, cf_body = Some body\<rparr>)) \<le> CONFIG_HEADER_BYTES + length body"
    and "length (map_bytes (set_config_op_fields G \<lparr>sco_section = s, sco_expected_version = v, sco_body = body\<rparr>)) \<le> CONFIG_HEADER_BYTES + length body"
    and "length (map_bytes (get_config_fields y)) \<le> MAX_GET_CONFIG_BYTES" and "length (map_bytes (set_config_ack_fields z)) \<le> MAX_SET_CONFIG_ACK_BYTES"
proof -
  have body: "length (enc_item (map_item (G body))) = length body"
    using assms map_of_own_bytes(3) [of body "G body" 6] by (simp add: own_map_def)
  note narrow = width_narrow
  show "length (map_bytes (config_msg_fields G \<lparr>cf_section = s, cf_version = v, cf_body = Some body\<rparr>)) \<le> CONFIG_HEADER_BYTES + length body"
    "length (map_bytes (set_config_op_fields G \<lparr>sco_section = s, sco_expected_version = v, sco_body = body\<rparr>)) \<le> CONFIG_HEADER_BYTES + length body"
    using narrow(2) [of "config_section_num s"] narrow(3) [of v]
    by (simp_all add: config_msg_fields_def set_config_op_fields_def map_bytes_eq body CONFIG_HEADER_BYTES_def)
  show "length (map_bytes (get_config_fields y)) \<le> MAX_GET_CONFIG_BYTES" "length (map_bytes (set_config_ack_fields z)) \<le> MAX_SET_CONFIG_ACK_BYTES"
    using narrow(2) [of "config_section_num (gc_section y)"] narrow(2) [of "config_section_num (sca_section z)"] narrow(3) [of "sca_version z"]
    by (cases "sca_outcome z"; simp add: get_config_fields_def set_config_ack_fields_def map_bytes_eq MAX_GET_CONFIG_BYTES_def MAX_SET_CONFIG_ACK_BYTES_def)+
qed

section \<open>Properties\<close>

lemma config_write_is_compare_and_set_parts:
  assumes "own_map G body" and "own_map G body'" and "version \<noteq> 0"
    and "CONFIG_HEADER_BYTES + length body \<le> length dst" and "length dst \<le> usize_max"
    and "CONFIG_HEADER_BYTES + length body' \<le> length dst'" and "length dst' \<le> usize_max"
  shows "\<exists>x n out y n' out' z. config_msg_new section' version (Some body) = Inr x \<and>
      config_msg_encode x dst = (Inr n, out) \<and> n \<le> CONFIG_HEADER_BYTES + length body \<and>
      config_msg_decode (take n out) = Inr y \<and> cf_body y = Some body \<and>
      set_config_op_encode \<lparr>sco_section = cf_section y, sco_expected_version = cf_version y, sco_body = body'\<rparr> dst' = (Inr n', out') \<and>
      n' \<le> CONFIG_HEADER_BYTES + length body' \<and> set_config_op_decode (take n' out') = Inr z \<and>
      sco_section z = section' \<and> sco_body z = body' \<and>
      check_version z current = (if current = version then Inr () else Inl Sco_StaleVersion)"
    and "config_msg_decode bs = Inr a \<Longrightarrow> (cf_version a = 0 \<longleftrightarrow> cf_body a = None) \<and> (\<forall>b. cf_body a = Some b \<longrightarrow> body_map b = Inr ())"
    and "set_config_op_decode bs = Inr c \<Longrightarrow> body_map (sco_body c) = Inr ()"
proof -
  let ?x = "\<lparr>cf_section = section', cf_version = version, cf_body = Some body\<rparr>"
  let ?w = "\<lparr>sco_section = section', sco_expected_version = version, sco_body = body'\<rparr>"
  have valid: "config_msg_valid G ?x" "set_config_op_valid G ?w"
    using assms(1-3) by (simp_all add: config_msg_valid_def set_config_op_valid_def)
  have new: "config_msg_new section' version (Some body) = Inr ?x"
    using config_msg_new_own [of ?x G] assms(1,3) by simp
  obtain n out where read: "config_msg_encode ?x dst = (Inr n, out)" "n \<le> CONFIG_HEADER_BYTES + length body" "config_msg_decode (take n out) = Inr ?x"
    using config_msg.fits [OF valid(1) config_sizes(1) [OF assms(1)] assms(4,5)] by blast
  obtain n' out' where wrote: "set_config_op_encode ?w dst' = (Inr n', out')" "n' \<le> CONFIG_HEADER_BYTES + length body'"
    "set_config_op_decode (take n' out') = Inr ?w"
    using set_config_op.fits [OF valid(2) config_sizes(2) [OF assms(2)] assms(6,7)] by blast
  show "\<exists>x n out y n' out' z. config_msg_new section' version (Some body) = Inr x \<and>
      config_msg_encode x dst = (Inr n, out) \<and> n \<le> CONFIG_HEADER_BYTES + length body \<and>
      config_msg_decode (take n out) = Inr y \<and> cf_body y = Some body \<and>
      set_config_op_encode \<lparr>sco_section = cf_section y, sco_expected_version = cf_version y, sco_body = body'\<rparr> dst' = (Inr n', out') \<and>
      n' \<le> CONFIG_HEADER_BYTES + length body' \<and> set_config_op_decode (take n' out') = Inr z \<and>
      sco_section z = section' \<and> sco_body z = body' \<and>
      check_version z current = (if current = version then Inr () else Inl Sco_StaleVersion)"
    by (rule exI [of _ ?x], rule exI [of _ n], rule exI [of _ out], rule exI [of _ ?x], rule exI [of _ n'], rule exI [of _ out'], rule exI [of _ ?w])
      (simp add: new read wrote check_version_def)
  show "(cf_version a = 0 \<longleftrightarrow> cf_body a = None) \<and> (\<forall>b. cf_body a = Some b \<longrightarrow> body_map b = Inr ())" if "config_msg_decode bs = Inr a"
    using config_msg_decode_InrD [OF that] by blast
  show "body_map (sco_body c) = Inr ()" if "set_config_op_decode bs = Inr c"
    using that by (rule set_config_op_decode_InrD)
qed

text \<open>C5. A section read and written back. The answer carries the section's bytes whole, within its header and
  their length; the operation composed against its version carries the new ones whole; and the controller
  takes it exactly while the section still holds the version that was read, anything else being
  \<open>stale_version\<close>. No bytes decode to an answer whose version and body disagree about whether the section
  was ever written, nor to a body that is not a map.\<close>

theorem config_write_is_compare_and_set:
  assumes "own_map G body" and "own_map G body'" and "version \<noteq> 0"
    and "CONFIG_HEADER_BYTES + length body \<le> length dst" and "length dst \<le> usize_max"
    and "CONFIG_HEADER_BYTES + length body' \<le> length dst'" and "length dst' \<le> usize_max"
  shows "(\<exists>x n out y n' out' z. config_msg_new section' version (Some body) = Inr x \<and>
      config_msg_encode x dst = (Inr n, out) \<and> n \<le> CONFIG_HEADER_BYTES + length body \<and>
      config_msg_decode (take n out) = Inr y \<and> cf_body y = Some body \<and>
      set_config_op_encode \<lparr>sco_section = cf_section y, sco_expected_version = cf_version y, sco_body = body'\<rparr> dst' = (Inr n', out') \<and>
      n' \<le> CONFIG_HEADER_BYTES + length body' \<and> set_config_op_decode (take n' out') = Inr z \<and>
      sco_section z = section' \<and> sco_body z = body' \<and>
      check_version z current = (if current = version then Inr () else Inl Sco_StaleVersion)) \<and>
    (config_msg_decode bs = Inr a \<longrightarrow> ((cf_version a = 0 \<longleftrightarrow> cf_body a = None) \<and> (\<forall>b. cf_body a = Some b \<longrightarrow> body_map b = Inr ()))) \<and>
    (set_config_op_decode bs = Inr c \<longrightarrow> body_map (sco_body c) = Inr ())"
  by (rule conjI [OF config_write_is_compare_and_set_parts(1) [OF assms]
    conjI [OF impI [OF config_write_is_compare_and_set_parts(2) [OF assms]]
    impI [OF config_write_is_compare_and_set_parts(3) [OF assms]]]])

lemma config_write_is_compare_and_set_witness:
  "\<exists>x n out y n' out' z. config_msg_new Cs_GeneratorBehaviour 7 (Some (map_bytes [(1, IBool True)])) = Inr x \<and>
     config_msg_encode x (replicate 64 0) = (Inr n, out) \<and> config_msg_decode (take n out) = Inr y \<and>
     set_config_op_encode \<lparr>sco_section = cf_section y, sco_expected_version = cf_version y, sco_body = map_bytes [(1, IBool False)]\<rparr> (replicate 64 0) = (Inr n', out') \<and>
     set_config_op_decode (take n' out') = Inr z \<and> check_version z 8 = Inl Sco_StaleVersion"
proof -
  define G :: "bytes \<Rightarrow> (int \<times> item) list" where "G = (\<lambda>v. if v = map_bytes [(1, IBool True)] then [(1, IBool True)] else [(1, IBool False)])"
  have "own_map G (map_bytes [(1, IBool True)])" "own_map G (map_bytes [(1, IBool False)])"
    by (auto simp: own_map_def G_def good_key_def map_bytes_eq usize_max_def)
  then show ?thesis
    using config_write_is_compare_and_set [of G "map_bytes [(1, IBool True)]" "map_bytes [(1, IBool False)]" 7 "replicate 64 0" "replicate 64 0" Cs_GeneratorBehaviour 8, THEN conjunct1]
    by (auto simp: CONFIG_HEADER_BYTES_def map_bytes_eq usize_max_def)
qed


end
