(* ===== verification/Buses_Devices.thy ===== *)
theory Buses_Devices
  imports Config
begin

text \<open>
  \<open>crates/km43/src/buses_devices.rs\<close>, what a body of the section means: the entries, the check against the
  board, the dialects and the caps, the walk up a parent chain, and \<open>accept\<close>, the one place a device id is
  handed out. The two arrays of optional entries are filled from the front and never emptied, so each is the
  list of its filled slots. A \<open>DevId\<close> is a \<open>u16\<close> that \<open>dev_id_new\<close> made; the trait \<open>DevSlot\<close>, which has
  two instances, is the record of its items.
\<close>

type_synonym dev_id = u16
type_synonym product = u16
type_synonym dialect = u16
type_synonym device_role = u16

definition MAX_BUSES_AND_DEVICES_BYTES :: nat where "MAX_BUSES_AND_DEVICES_BYTES = 901"

abbreviation bk :: "buses_key \<Rightarrow> section_key" where "bk \<equiv> Sk_BusesAndDevices"

section \<open>Transports, ids and entries\<close>

primrec addressed_on :: "transport \<Rightarrow> bool" where
  "addressed_on Transport_Rs485 = True"
| "addressed_on Transport_Can = True"
| "addressed_on Transport_Ip = True"
| "addressed_on Transport_Onewire = True"
| "addressed_on Transport_VeDirect = False"
| "addressed_on Transport_LocalIo = False"
| "addressed_on Transport_Internal = False"

primrec has_rate :: "transport \<Rightarrow> bool" where
  "has_rate Transport_Rs485 = True"
| "has_rate Transport_Can = True"
| "has_rate Transport_VeDirect = True"
| "has_rate Transport_LocalIo = False"
| "has_rate Transport_Ip = False"
| "has_rate Transport_Onewire = False"
| "has_rate Transport_Internal = False"

primrec is_serial_line :: "transport \<Rightarrow> bool" where
  "is_serial_line Transport_Rs485 = True"
| "is_serial_line Transport_VeDirect = True"
| "is_serial_line Transport_Can = False"
| "is_serial_line Transport_LocalIo = False"
| "is_serial_line Transport_Ip = False"
| "is_serial_line Transport_Onewire = False"
| "is_serial_line Transport_Internal = False"

definition DEV_PLACEHOLDER :: dev_id where "DEV_PLACEHOLDER = 0xFFFF"

definition dev_id_new :: "u16 \<Rightarrow> config_error + dev_id" where
  "dev_id_new dev = (if dev = 0 then Inl (Ce_OutOfSchema (bk Bk_Dev)) else Inr dev)"

text \<open>\<open>DevAllocator\<close>: the next id, or none once every id has been given.\<close>

type_synonym dev_allocator = "dev_id option"

definition FIRST :: dev_allocator where "FIRST = Some 1"

definition dev_allocate :: "dev_allocator \<Rightarrow> config_error + (dev_id \<times> dev_allocator)" where
  "dev_allocate alloc =
     (case alloc of
        None \<Rightarrow> Inl Ce_DevsExhausted
      | Some given \<Rightarrow> Inr (given, if given = 0xFFFF then None else Some (given + 1)))"

datatype data_bits = Seven | Eight

definition data_bits_of :: "u8 \<Rightarrow> data_bits option" where
  "data_bits_of bits = (if bits = 7 then Some Seven else if bits = 8 then Some Eight else None)"

primrec data_bits_wire :: "data_bits \<Rightarrow> u8" where
  "data_bits_wire Seven = 7"
| "data_bits_wire Eight = 8"

datatype stop_bits = One_Stop | Two_Stop

definition stop_bits_of :: "u8 \<Rightarrow> stop_bits option" where
  "stop_bits_of bits = (if bits = 1 then Some One_Stop else if bits = 2 then Some Two_Stop else None)"

primrec stop_bits_wire :: "stop_bits \<Rightarrow> u8" where
  "stop_bits_wire One_Stop = 1"
| "stop_bits_wire Two_Stop = 2"

text \<open>A rate is a \<open>NonZeroU32\<close>.\<close>

record bus_entry =
  be_bus :: u8
  be_rate :: "u32 option"
  be_data_bits :: "data_bits option"
  be_parity :: "parity option"
  be_stop_bits :: "stop_bits option"

definition bus_check :: "bus_entry \<Rightarrow> transport \<Rightarrow> config_error + unit" where
  "bus_check e transport =
     (if be_rate e = None \<and> be_data_bits e = None \<and> be_parity e = None \<and> be_stop_bits e = None
      then Inl (Ce_NothingSet (bk Bk_Bus))
      else if be_rate e \<noteq> None \<and> \<not> has_rate transport then Inl (Ce_NotOnTransport (be_bus e) (bk Bk_Rate))
      else if \<not> is_serial_line transport \<and> be_data_bits e \<noteq> None then Inl (Ce_NotOnTransport (be_bus e) (bk Bk_DataBits))
      else if \<not> is_serial_line transport \<and> be_parity e \<noteq> None then Inl (Ce_NotOnTransport (be_bus e) (bk Bk_Parity))
      else if \<not> is_serial_line transport \<and> be_stop_bits e \<noteq> None then Inl (Ce_NotOnTransport (be_bus e) (bk Bk_StopBits))
      else Inr ())"

definition addr_new :: "bytes \<Rightarrow> config_error + bytes" where
  "addr_new bs = (if bs = [] \<or> MAX_ADDR < length bs then Inl (Ce_Length (bk Bk_Addr) (length bs)) else Inr bs)"

datatype current_direction = PositiveIsIn | PositiveIsOut

primrec current_direction_wire :: "current_direction \<Rightarrow> signal_direction" where
  "current_direction_wire PositiveIsIn = Dir_PositiveIsIn"
| "current_direction_wire PositiveIsOut = Dir_PositiveIsOut"

record device_options =
  do_current_direction :: "current_direction option"
  do_pylontech_version :: "pylontech_version option"
  do_ve_direct_3v3 :: "bool option"
  do_poll_period_ms :: "u32 option"

definition NO_OPTIONS :: device_options where
  "NO_OPTIONS = \<lparr>do_current_direction = None, do_pylontech_version = None, do_ve_direct_3v3 = None, do_poll_period_ms = None\<rparr>"

definition options_set :: "device_options \<Rightarrow> device_option option list" where
  "options_set o' =
     [map_option (\<lambda>_. DeviceOption_CurrentDirection) (do_current_direction o'),
      map_option (\<lambda>_. DeviceOption_PylontechVersion) (do_pylontech_version o'),
      map_option (\<lambda>_. DeviceOption_VeDirect3v3) (do_ve_direct_3v3 o'),
      map_option (\<lambda>_. DeviceOption_PollPeriod) (do_poll_period_ms o')]"

definition options_flat :: "device_options \<Rightarrow> device_option list" where
  "options_flat o' = List.map_filter id (options_set o')"

record dialect_rule =
  dlr_dialect :: dialect
  dlr_transports :: "transport list"
  dlr_options :: "device_option list"
  dlr_min_poll_ms :: u32

definition options_check :: "device_options \<Rightarrow> dialect_rule \<Rightarrow> config_error + unit" where
  "options_check o' rule =
     (case find (\<lambda>option. option \<notin> set (dlr_options rule)) (options_flat o') of
        Some option \<Rightarrow> Inl (Ce_OptionNotInDialect option (dlr_dialect rule))
      | None \<Rightarrow>
          (case do_poll_period_ms o' of
             Some period \<Rightarrow>
               if period < dlr_min_poll_ms rule then Inl (Ce_PollTooShort (dlr_dialect rule) (dlr_min_poll_ms rule)) else Inr ()
           | None \<Rightarrow> Inr ()))"

record 'd dev_slot =
  answer :: bool
  slot_dev :: "'d \<Rightarrow> dev_id option"
  from_decoded :: "dev_id option \<Rightarrow> config_error + 'd"

definition write_slot :: "dev_id option dev_slot" where
  "write_slot = \<lparr>answer = False, slot_dev = (\<lambda>d. d), from_decoded = Inr\<rparr>"

definition read_slot :: "dev_id dev_slot" where
  "read_slot = \<lparr>answer = True, slot_dev = Some,
     from_decoded = (\<lambda>d. case d of None \<Rightarrow> Inl (Ce_Missing (bk Bk_Dev)) | Some dev \<Rightarrow> Inr dev)\<rparr>"

record 'd device_entry =
  de_dev :: 'd
  de_bus :: u8
  de_addr :: "bytes option"
  de_product :: product
  de_dialect :: dialect
  de_role :: device_role
  de_parent :: "dev_id option"
  de_options :: device_options

record board_bus =
  bb_bus :: u8
  bb_transport :: transport

record site_rules =
  ru_buses :: "board_bus list"
  ru_dialects :: "dialect_rule list"
  ru_max_devices :: nat
  ru_max_topology_depth :: nat

definition rule_transport :: "site_rules \<Rightarrow> u8 \<Rightarrow> transport option" where
  "rule_transport rules bus = map_option bb_transport (find (\<lambda>board. bb_bus board = bus) (ru_buses rules))"

definition rule_dialect :: "site_rules \<Rightarrow> dialect \<Rightarrow> transport \<Rightarrow> dialect_rule option" where
  "rule_dialect rules dialect transport =
     find (\<lambda>rule. dlr_dialect rule = dialect \<and> transport \<in> set (dlr_transports rule)) (ru_dialects rules)"

record 'd buses_devices =
  bd_buses :: "bus_entry list"
  bd_devices :: "'d device_entry list"

definition EMPTY_SECTION :: "'d buses_devices" where
  "EMPTY_SECTION = \<lparr>bd_buses = [], bd_devices = []\<rparr>"

definition push_bus :: "bus_entry \<Rightarrow> 'd buses_devices \<Rightarrow> config_error + 'd buses_devices" where
  "push_bus entry s =
     (if length (bd_buses s) < MAX_CONFIG_BUSES then Inr (s\<lparr>bd_buses := bd_buses s @ [entry]\<rparr>)
      else Inl (Ce_TooMany (bk Bk_Buses)))"

definition push_device :: "'d device_entry \<Rightarrow> 'd buses_devices \<Rightarrow> config_error + 'd buses_devices" where
  "push_device entry s =
     (if length (bd_devices s) < MAX_CONFIG_DEVICES then Inr (s\<lparr>bd_devices := bd_devices s @ [entry]\<rparr>)
      else Inl (Ce_TooMany (bk Bk_Devices)))"

section \<open>The check\<close>

text \<open>An \<open>Option\<close> compares with nothing below something.\<close>

fun option_le :: "dev_id option \<Rightarrow> dev_id option \<Rightarrow> bool" where
  "option_le None _ = True"
| "option_le (Some _) None = False"
| "option_le (Some a) (Some b) = (a \<le> b)"

definition section_ascending :: "'d dev_slot \<Rightarrow> 'd buses_devices \<Rightarrow> config_error + unit" where
  "section_ascending sl s =
     (if \<not> answer sl then Inr ()
      else if list_ex (\<lambda>(a, b). be_bus b \<le> be_bus a) (zip (bd_buses s) (drop 1 (bd_buses s)))
      then Inl (Ce_OutOfOrder (bk Bk_Bus))
      else if list_ex (\<lambda>(a, b). option_le (slot_dev sl (de_dev b)) (slot_dev sl (de_dev a))) (zip (bd_devices s) (drop 1 (bd_devices s)))
      then Inl (Ce_OutOfOrder (bk Bk_Dev))
      else Inr ())"

primrec check_buses :: "site_rules \<Rightarrow> bus_entry list \<Rightarrow> config_error + unit" where
  "check_buses rules [] = Inr ()"
| "check_buses rules (e # rest) =
     (case rule_transport rules (be_bus e) of
        None \<Rightarrow> Inl (Ce_UnknownBus (be_bus e))
      | Some transport \<Rightarrow>
          if list_ex (\<lambda>other. be_bus other = be_bus e) rest then Inl (Ce_BusTwice (be_bus e))
          else first_error (bus_check e transport) (check_buses rules rest))"

definition check_addr :: "'d device_entry list \<Rightarrow> 'd device_entry \<Rightarrow> transport \<Rightarrow> config_error + unit" where
  "check_addr rest d transport =
     (case (de_addr d, addressed_on transport) of
        (None, True) \<Rightarrow> Inl (Ce_AddrRequired (de_bus d))
      | (Some _, False) \<Rightarrow> Inl (Ce_AddrNotAddressed (de_bus d))
      | (None, False) \<Rightarrow> Inr ()
      | (Some addr, True) \<Rightarrow>
          if list_ex (\<lambda>other. de_bus other = de_bus d \<and> de_addr other = Some addr) rest then Inl (Ce_AddrTwice (de_bus d)) else Inr ())"

primrec check_devices :: "'d dev_slot \<Rightarrow> site_rules \<Rightarrow> 'd device_entry list \<Rightarrow> config_error + unit" where
  "check_devices sl rules [] = Inr ()"
| "check_devices sl rules (d # rest) =
     (case rule_transport rules (de_bus d) of
        None \<Rightarrow> Inl (Ce_UnknownBus (de_bus d))
      | Some transport \<Rightarrow>
          first_error (check_addr rest d transport)
            (case rule_dialect rules (de_dialect d) transport of
               None \<Rightarrow> Inl (Ce_DialectNotCarried (de_dialect d) (de_bus d))
             | Some rule \<Rightarrow>
                 first_error (options_check (de_options d) rule)
                   (case slot_dev sl (de_dev d) of
                      Some dev \<Rightarrow>
                        if list_ex (\<lambda>other. slot_dev sl (de_dev other) = Some dev) rest then Inl (Ce_DevTwice dev)
                        else check_devices sl rules rest
                    | None \<Rightarrow> check_devices sl rules rest)))"

text \<open>The walk up: \<open>fuel\<close> is what is left of \<open>0..MAX_CONFIG_DEVICES\<close>.\<close>

primrec chain_walk :: "'d dev_slot \<Rightarrow> 'd device_entry list \<Rightarrow> dev_id option \<Rightarrow> nat \<Rightarrow> nat \<Rightarrow> dev_id list \<Rightarrow> nat \<Rightarrow> dev_id option \<Rightarrow> config_error + unit" where
  "chain_walk sl devices from limit 0 seen count link = Inl (Ce_ParentLoop (case from of None \<Rightarrow> 0 | Some dev \<Rightarrow> dev))"
| "chain_walk sl devices from limit (Suc fuel) seen count link =
     (case link of
        None \<Rightarrow> if limit < count then Inl (Ce_TooDeep (case from of None \<Rightarrow> 0 | Some dev \<Rightarrow> dev)) else Inr ()
      | Some parent \<Rightarrow>
          if from = Some parent \<or> parent \<in> set seen then Inl (Ce_ParentLoop parent)
          else case find (\<lambda>other. slot_dev sl (de_dev other) = Some parent) devices of
            None \<Rightarrow> Inl (Ce_ParentNotListed parent)
          | Some up \<Rightarrow> chain_walk sl devices from limit fuel (seen @ [parent]) (saturating_add count 1) (de_parent up))"

definition check_chain :: "'d dev_slot \<Rightarrow> 'd device_entry list \<Rightarrow> 'd device_entry \<Rightarrow> nat \<Rightarrow> config_error + unit" where
  "check_chain sl devices d limit = chain_walk sl devices (slot_dev sl (de_dev d)) limit MAX_CONFIG_DEVICES [] 1 (de_parent d)"

primrec check_chains :: "'d dev_slot \<Rightarrow> 'd device_entry list \<Rightarrow> nat \<Rightarrow> 'd device_entry list \<Rightarrow> config_error + unit" where
  "check_chains sl devices limit [] = Inr ()"
| "check_chains sl devices limit (d # rest) = first_error (check_chain sl devices d limit) (check_chains sl devices limit rest)"

definition section_check :: "'d dev_slot \<Rightarrow> site_rules \<Rightarrow> 'd buses_devices \<Rightarrow> config_error + unit" where
  "section_check sl rules s =
     first_error (check_buses rules (bd_buses s))
       (if ru_max_devices rules < length (bd_devices s) \<or> MAX_CONFIG_DEVICES < length (bd_devices s) then Inl (Ce_TooMany (bk Bk_Devices))
        else first_error (check_devices sl rules (bd_devices s))
          (check_chains sl (bd_devices s) (ru_max_topology_depth rules) (bd_devices s)))"

section \<open>Accepting a write\<close>

text \<open>The loop over the devices of a write, each given its id and pushed.\<close>

primrec accept_devices ::
  "dev_id device_entry list \<Rightarrow> dev_id option device_entry list \<Rightarrow> dev_id buses_devices \<Rightarrow> dev_allocator \<Rightarrow>
    config_error + (dev_id buses_devices \<times> dev_allocator)" where
  "accept_devices was [] s alloc = Inr (s, alloc)"
| "accept_devices was (d # rest) s alloc =
     (case (case de_dev d of
        Some dev \<Rightarrow>
          (case find (\<lambda>w. de_dev w = dev) was of
             None \<Rightarrow> Inl (Ce_UnknownDev dev)
           | Some w \<Rightarrow>
               if de_product w \<noteq> de_product d \<or> de_dialect w \<noteq> de_dialect d then Inl (Ce_DeviceChanged dev) else Inr (dev, alloc))
      | None \<Rightarrow> dev_allocate alloc) of
        Inl why \<Rightarrow> Inl why
      | Inr (dev, alloc') \<Rightarrow>
          (case push_device \<lparr>de_dev = dev, de_bus = de_bus d, de_addr = de_addr d, de_product = de_product d, de_dialect = de_dialect d,
              de_role = de_role d, de_parent = de_parent d, de_options = de_options d\<rparr> s of
             Inl why \<Rightarrow> Inl why
           | Inr s' \<Rightarrow> accept_devices was rest s' alloc'))"

primrec push_buses :: "bus_entry list \<Rightarrow> 'd buses_devices \<Rightarrow> config_error + 'd buses_devices" where
  "push_buses [] s = Inr s"
| "push_buses (e # rest) s = (case push_bus e s of Inl why \<Rightarrow> Inl why | Inr s' \<Rightarrow> push_buses rest s')"

text \<open>\<open>sort_unstable_by_key\<close>: a checked section has no two equal keys, so any sort is this one.\<close>

definition section_sort :: "dev_id buses_devices \<Rightarrow> dev_id buses_devices" where
  "section_sort s = \<lparr>bd_buses = sort_key be_bus (bd_buses s), bd_devices = sort_key de_dev (bd_devices s)\<rparr>"

definition section_accept ::
  "dev_id option buses_devices \<Rightarrow> site_rules \<Rightarrow> dev_id buses_devices \<Rightarrow> dev_allocator \<Rightarrow>
    config_error + (dev_id buses_devices \<times> dev_allocator)" where
  "section_accept w rules was alloc =
     (case section_check write_slot rules w of
        Inl why \<Rightarrow> Inl why
      | Inr _ \<Rightarrow>
          (case (case alloc of
             Some next' \<Rightarrow> if list_ex (\<lambda>d. next' \<le> de_dev d) (bd_devices was) then Inl (Ce_AllocatorBehind next') else Inr ()
           | None \<Rightarrow> Inr ()) of
             Inl why \<Rightarrow> Inl why
           | Inr _ \<Rightarrow>
               (case push_buses (bd_buses w) EMPTY_SECTION of
                  Inl why \<Rightarrow> Inl why
                | Inr s \<Rightarrow>
                    (case accept_devices (bd_devices was) (bd_devices w) s alloc of
                       Inl why \<Rightarrow> Inl why
                     | Inr (s', alloc') \<Rightarrow> Inr (section_sort s', alloc')))))"

end
