(* ===== verification/Device_Ids.thy ===== *)
theory Device_Ids
  imports Buses_Devices
begin

text \<open>
  What accepting a write keeps (\<open>BusesAndDevicesWrite::accept\<close>): the check of parent chains means there
  is no loop among the devices and none hangs deeper than the cap; the section accepted ascends and can be
  encoded; and a device id, once given, never means another device.
\<close>

section \<open>Parent chains\<close>

definition entry_of :: "'d dev_slot \<Rightarrow> 'd device_entry list \<Rightarrow> dev_id \<Rightarrow> 'd device_entry option" where
  "entry_of sl devices dev = find (\<lambda>other. slot_dev sl (de_dev other) = Some dev) devices"

text \<open>The reference: a chain is a list of devices, each the parent of the one before, the last with none.\<close>

inductive chain :: "'d dev_slot \<Rightarrow> 'd device_entry list \<Rightarrow> dev_id option \<Rightarrow> dev_id list \<Rightarrow> bool"
  for sl devices where
  chain_end: "chain sl devices None []"
| chain_link: "entry_of sl devices dev = Some d \<Longrightarrow> chain sl devices (de_parent d) ps \<Longrightarrow> chain sl devices (Some dev) (dev # ps)"

inductive_simps chain_None [simp]: "chain sl devices None ps"
inductive_simps chain_Some: "chain sl devices (Some dev) ps"

lemma chain_unique: "chain sl devices link ps \<Longrightarrow> chain sl devices link qs \<Longrightarrow> ps = qs"
proof (induction arbitrary: qs rule: chain.induct)
  case (chain_link dev d ps)
  then obtain rs where "qs = dev # rs" "chain sl devices (de_parent d) rs"
    unfolding chain_Some by auto
  then show ?case
    using chain_link.IH by simp
qed simp

lemma chain_head: "chain sl devices link (x # xs) \<Longrightarrow> link = Some x \<and> (\<exists>d. entry_of sl devices x = Some d \<and> chain sl devices (de_parent d) xs)"
  by (erule chain.cases) simp_all

lemma chain_suffix: "chain sl devices link (xs @ dev # ys) \<Longrightarrow> chain sl devices (Some dev) (dev # ys)"
proof (induction xs arbitrary: link)
  case Nil
  then show ?case
    using chain_head [of sl devices link dev ys] by simp
next
  case (Cons x xs)
  then show ?case
    using chain_head [of sl devices link x "xs @ dev # ys"] by auto
qed

text \<open>A chain that ends holds no device twice: the chain from a repeated one would be longer than itself.\<close>

lemma chain_distinct: "chain sl devices link ps \<Longrightarrow> distinct ps"
proof (induction rule: chain.induct)
  case (chain_link dev d ps)
  have "dev \<notin> set ps"
  proof
    assume "dev \<in> set ps"
    then obtain xs ys where ps: "ps = xs @ dev # ys"
      by (meson split_list)
    then have "chain sl devices (Some dev) (dev # ys)"
      using chain_suffix chain_link.hyps(2) by fast
    moreover have "chain sl devices (Some dev) (dev # ps)"
      using chain_link.hyps by (rule chain.chain_link)
    ultimately have "ps = ys"
      by (auto dest: chain_unique)
    then show False
      using ps by (metis append_eq_append_conv2 length_Cons length_append not_add_less2 lessI)
  qed
  then show ?case
    using chain_link.IH by simp
qed simp

lemma chain_listed: "chain sl devices link ps \<Longrightarrow> dev \<in> set ps \<Longrightarrow> entry_of sl devices dev \<noteq> None"
  by (induction rule: chain.induct) auto

text \<open>The walk finds the chain, whatever it has passed, while its fuel lasts.\<close>

lemma chain_walk_iff:
  "count + fuel \<le> usize_max \<Longrightarrow>
   chain_walk sl devices from limit fuel seen count link = Inr () \<longleftrightarrow>
     (\<exists>ps. chain sl devices link ps \<and> length ps < fuel \<and> from \<notin> Some ` set ps \<and> set ps \<inter> set seen = {} \<and> count + length ps \<le> limit)"
proof (induction fuel arbitrary: seen count link)
  case (Suc fuel)
  show ?case
  proof (cases link)
    case (Some parent)
    show ?thesis
    proof (cases "entry_of sl devices parent")
      case None
      then show ?thesis
        by (auto simp: Some chain_Some entry_of_def split: option.split)
    next
      case (Some up)
      have sat: "saturating_add count (Suc 0) = Suc count"
        using Suc.prems by (simp add: saturating_add_def)
      have "chain_walk sl devices from limit (Suc fuel) seen count link = Inr () \<longleftrightarrow>
          from \<noteq> Some parent \<and> parent \<notin> set seen \<and> chain_walk sl devices from limit fuel (seen @ [parent]) (Suc count) (de_parent up) = Inr ()"
        using Some by (simp add: \<open>link = Some parent\<close> entry_of_def sat)
      also have "\<dots> \<longleftrightarrow> (\<exists>ps. chain sl devices link ps \<and> length ps < Suc fuel \<and> from \<notin> Some ` set ps \<and> set ps \<inter> set seen = {} \<and> count + length ps \<le> limit)"
      proof
        assume "from \<noteq> Some parent \<and> parent \<notin> set seen \<and> chain_walk sl devices from limit fuel (seen @ [parent]) (Suc count) (de_parent up) = Inr ()"
        then obtain ps where "chain sl devices (de_parent up) ps" "length ps < fuel" "from \<notin> Some ` set ps" "set ps \<inter> set (seen @ [parent]) = {}"
          "Suc count + length ps \<le> limit" "from \<noteq> Some parent" "parent \<notin> set seen"
          using Suc.IH [of "Suc count"] Suc.prems by auto
        then show "\<exists>ps. chain sl devices link ps \<and> length ps < Suc fuel \<and> from \<notin> Some ` set ps \<and> set ps \<inter> set seen = {} \<and> count + length ps \<le> limit"
          using Some by (intro exI [of _ "parent # ps"]) (auto simp: \<open>link = Some parent\<close> chain_Some)
      next
        assume "\<exists>ps. chain sl devices link ps \<and> length ps < Suc fuel \<and> from \<notin> Some ` set ps \<and> set ps \<inter> set seen = {} \<and> count + length ps \<le> limit"
        then obtain ps where ps: "chain sl devices (Some parent) (parent # ps)" "length ps < fuel" "from \<notin> Some ` set (parent # ps)"
          "set (parent # ps) \<inter> set seen = {}" "Suc count + length ps \<le> limit" "chain sl devices (de_parent up) ps"
          using Some by (auto simp: \<open>link = Some parent\<close> chain_Some)
        then have "parent \<notin> set ps"
          using chain_distinct by fastforce
        then show "from \<noteq> Some parent \<and> parent \<notin> set seen \<and> chain_walk sl devices from limit fuel (seen @ [parent]) (Suc count) (de_parent up) = Inr ()"
          using ps Suc.IH [of "Suc count"] Suc.prems by auto
      qed
      finally show ?thesis .
    qed
  qed auto
qed auto

text \<open>With no more devices than \<open>MAX_CONFIG_DEVICES\<close> the fuel always lasts.\<close>

lemma chain_fits:
  assumes "chain sl devices (de_parent d) ps" and "d \<in> set devices" and "slot_dev sl (de_dev d) \<notin> Some ` set ps"
  shows "length ps < length devices"
proof -
  have known: "\<exists>e \<in> set devices. slot_dev sl (de_dev e) = Some p" if "p \<in> set ps" for p
    using chain_listed [OF assms(1) that] by (auto simp: entry_of_def find_Some_iff find_None_iff)
  have "Some ` set ps \<subseteq> (\<lambda>e. slot_dev sl (de_dev e)) ` (set devices - {d})"
  proof
    fix x assume "x \<in> Some ` set ps"
    then obtain p where p: "x = Some p" "p \<in> set ps"
      by blast
    then obtain e where "e \<in> set devices" "slot_dev sl (de_dev e) = Some p"
      using known by blast
    moreover have "e \<noteq> d"
      using assms(3) p(2) calculation(2) by force
    ultimately show "x \<in> (\<lambda>e. slot_dev sl (de_dev e)) ` (set devices - {d})"
      using p(1) by force
  qed
  then have "card (Some ` set ps) \<le> card ((\<lambda>e. slot_dev sl (de_dev e)) ` (set devices - {d}))"
    by (intro card_mono) auto
  also have "\<dots> \<le> card (set devices - {d})"
    by (rule card_image_le) simp
  also have "\<dots> < length devices"
    using assms(2) card_length [of devices] by (metis card_Diff1_less finite_set order_less_le_trans)
  finally show ?thesis
    using chain_distinct [OF assms(1)] by (simp add: card_image distinct_card)
qed

lemma check_chain_iff:
  assumes "d \<in> set devices" and "length devices \<le> MAX_CONFIG_DEVICES"
  shows "check_chain sl devices d limit = Inr () \<longleftrightarrow>
    (\<exists>ps. chain sl devices (de_parent d) ps \<and> slot_dev sl (de_dev d) \<notin> Some ` set ps \<and> length ps < limit)"
proof -
  have "1 + MAX_CONFIG_DEVICES \<le> usize_max"
    by (simp add: MAX_CONFIG_DEVICES_def usize_max_def)
  then show ?thesis
    using chain_walk_iff [of 1 MAX_CONFIG_DEVICES sl devices "slot_dev sl (de_dev d)" limit "[]" "de_parent d"] chain_fits [of sl devices d] assms
    by (fastforce simp: check_chain_def)
qed

lemma first_error_unit: "first_error a b = Inr () \<longleftrightarrow> a = Inr () \<and> b = Inr ()" for a b :: "'e + unit"
  by (cases a) auto

lemma check_chains_iff: "check_chains sl devices limit ds = Inr () \<longleftrightarrow> (\<forall>d \<in> set ds. check_chain sl devices d limit = Inr ())"
  by (induction ds) (auto simp: first_error_unit)

text \<open>Who is whose parent, over the devices that have an id.\<close>

definition parents :: "'d dev_slot \<Rightarrow> 'd device_entry list \<Rightarrow> (dev_id \<times> dev_id) set" where
  "parents sl devices = {(dev, p). \<exists>d. entry_of sl devices dev = Some d \<and> de_parent d = Some p}"

lemma chain_shrinks:
  "(a, b) \<in> (parents sl devices)\<^sup>+ \<Longrightarrow> chain sl devices (Some a) ps \<Longrightarrow> \<exists>qs. chain sl devices (Some b) qs \<and> length qs < length ps"
proof (induction rule: trancl_induct)
  case (base b)
  then show ?case
    by (auto simp: parents_def chain_Some [of _ _ a])
next
  case (step b c)
  obtain qs where "chain sl devices (Some b) qs" "length qs < length ps"
    using step.IH step.prems by blast
  moreover obtain d where "entry_of sl devices b = Some d" "de_parent d = Some c"
    using step.hyps(2) by (auto simp: parents_def)
  ultimately show ?case
    by (auto simp: chain_Some [of _ _ b])
qed

lemma chains_acyclic:
  assumes "\<And>dev d. entry_of sl devices dev = Some d \<Longrightarrow> \<exists>ps. chain sl devices (de_parent d) ps"
  shows "acyclic (parents sl devices)"
proof (rule acyclicI, intro allI notI)
  fix a assume a: "(a, a) \<in> (parents sl devices)\<^sup>+"
  then obtain d where "entry_of sl devices a = Some d"
    by (auto simp: parents_def dest: tranclD)
  moreover from this obtain ps where "chain sl devices (de_parent d) ps"
    using assms by blast
  ultimately have "chain sl devices (Some a) (a # ps)"
    by (rule chain_link)
  then show False
    using chain_shrinks [OF a] chain_unique by fastforce
qed


section \<open>What a checked body is\<close>

lemma in_map_filter: "y \<in> set (List.map_filter f xs) \<longleftrightarrow> (\<exists>x \<in> set xs. f x = Some y)"
  by (induction xs) (auto simp: List.map_filter_simps split: option.splits)

lemma check_devices_distinct:
  "check_devices sl rules ds = Inr () \<Longrightarrow> distinct (List.map_filter (\<lambda>d. slot_dev sl (de_dev d)) ds)"
  by (induction ds) (auto simp: List.map_filter_simps first_error_unit in_map_filter list_ex_iff split: option.splits if_splits)

lemma check_buses_distinct: "check_buses rules bs = Inr () \<Longrightarrow> distinct (map be_bus bs)"
  by (induction bs) (auto simp: first_error_unit list_ex_iff split: option.splits if_splits)

lemma section_checkD:
  assumes "section_check sl rules s = Inr ()"
  shows "distinct (map be_bus (bd_buses s))" and "distinct (List.map_filter (\<lambda>d. slot_dev sl (de_dev d)) (bd_devices s))"
    and "length (bd_devices s) \<le> MAX_CONFIG_DEVICES" and "length (bd_devices s) \<le> ru_max_devices rules"
    and "d \<in> set (bd_devices s) \<Longrightarrow> \<exists>ps. chain sl (bd_devices s) (de_parent d) ps \<and> slot_dev sl (de_dev d) \<notin> Some ` set ps \<and>
      length ps < ru_max_topology_depth rules"
proof -
  have all: "check_buses rules (bd_buses s) = Inr ()" "check_devices sl rules (bd_devices s) = Inr ()"
    "check_chains sl (bd_devices s) (ru_max_topology_depth rules) (bd_devices s) = Inr ()"
    and caps: "length (bd_devices s) \<le> MAX_CONFIG_DEVICES" "length (bd_devices s) \<le> ru_max_devices rules"
    using assms by (auto simp: section_check_def first_error_unit split: if_splits)
  show "distinct (map be_bus (bd_buses s))" "distinct (List.map_filter (\<lambda>d. slot_dev sl (de_dev d)) (bd_devices s))"
    "length (bd_devices s) \<le> MAX_CONFIG_DEVICES" "length (bd_devices s) \<le> ru_max_devices rules"
    using check_buses_distinct [OF all(1)] check_devices_distinct [OF all(2)] caps by simp_all
  show "\<exists>ps. chain sl (bd_devices s) (de_parent d) ps \<and> slot_dev sl (de_dev d) \<notin> Some ` set ps \<and> length ps < ru_max_topology_depth rules"
    if "d \<in> set (bd_devices s)"
    using all(3) that check_chain_iff [OF that caps(1)] by (auto simp: check_chains_iff)
qed

section \<open>Ids\<close>

definition id_bound :: "dev_allocator \<Rightarrow> nat" where
  "id_bound alloc = (case alloc of None \<Rightarrow> 65536 | Some dev \<Rightarrow> unat dev)"

lemma unat_dev: "unat (dev :: dev_id) < 65536"
  using unat_u16 [of dev] by simp

lemma id_bound_le: "id_bound alloc \<le> 65536"
  using unat_dev by (auto simp: id_bound_def less_imp_le split: option.split)

lemma dev_allocateD: "dev_allocate alloc = Inr (dev, alloc') \<Longrightarrow> unat dev = id_bound alloc \<and> id_bound alloc' = Suc (id_bound alloc)"
proof -
  assume a: "dev_allocate alloc = Inr (dev, alloc')"
  have "unat (given + 1) = Suc (unat given)" if "given \<noteq> 0xFFFF" for given :: dev_id
  proof -
    have "unat given \<noteq> 65535"
      using that by unat_arith
    then show ?thesis
      using unat_dev [of given] by (simp add: unat_word_ariths)
  qed
  then show ?thesis
    using a by (auto simp: dev_allocate_def id_bound_def split: option.splits if_splits)
qed

definition with_dev :: "dev_id \<Rightarrow> dev_id option device_entry \<Rightarrow> dev_id device_entry" where
  "with_dev dev d = \<lparr>de_dev = dev, de_bus = de_bus d, de_addr = de_addr d, de_product = de_product d, de_dialect = de_dialect d,
     de_role = de_role d, de_parent = de_parent d, de_options = de_options d\<rparr>"

lemma with_dev_simps [simp]: "de_dev (with_dev dev d) = dev" "de_parent (with_dev dev d) = de_parent d"
  "de_product (with_dev dev d) = de_product d" "de_dialect (with_dev dev d) = de_dialect d"
  by (simp_all add: with_dev_def)

text \<open>What became of one entry: an edit keeps its id and what the id means, an addition gets a new one.\<close>

definition kept_or_new :: "dev_id device_entry list \<Rightarrow> nat \<Rightarrow> nat \<Rightarrow> dev_id \<Rightarrow> dev_id option device_entry \<Rightarrow> bool" where
  "kept_or_new was lo hi dev d \<longleftrightarrow>
     (case de_dev d of
        Some v \<Rightarrow> dev = v \<and> (\<exists>w \<in> set was. de_dev w = v \<and> de_product w = de_product d \<and> de_dialect w = de_dialect d)
      | None \<Rightarrow> lo \<le> unat dev \<and> unat dev < hi)"

lemma kept_or_new_mono: "kept_or_new was lo hi dev d \<Longrightarrow> lo' \<le> lo \<Longrightarrow> hi \<le> hi' \<Longrightarrow> kept_or_new was lo' hi' dev d"
  by (auto simp: kept_or_new_def split: option.splits)

lemma accept_devices_spec:
  assumes "accept_devices was ds s alloc = Inr (s', alloc')" and "\<forall>w \<in> set was. unat (de_dev w) < id_bound alloc"
    and "distinct (List.map_filter de_dev ds)"
  shows "\<exists>ids. length ids = length ds \<and> bd_devices s' = bd_devices s @ map2 with_dev ids ds \<and> bd_buses s' = bd_buses s \<and>
    id_bound alloc \<le> id_bound alloc' \<and> list_all2 (kept_or_new was (id_bound alloc) (id_bound alloc')) ids ds \<and> distinct ids"
  using assms
proof (induction ds arbitrary: s alloc)
  case (Cons d ds)
  obtain dev alloc1 s1 where step: "(case de_dev d of
        Some dev \<Rightarrow>
          (case find (\<lambda>w. de_dev w = dev) was of
             None \<Rightarrow> Inl (Ce_UnknownDev dev)
           | Some w \<Rightarrow>
               if de_product w \<noteq> de_product d \<or> de_dialect w \<noteq> de_dialect d then Inl (Ce_DeviceChanged dev) else Inr (dev, alloc))
      | None \<Rightarrow> dev_allocate alloc) = Inr (dev, alloc1)"
    and push: "push_device (with_dev dev d) s = Inr s1" and rest: "accept_devices was ds s1 alloc1 = Inr (s', alloc')"
    using Cons.prems(1) by (auto simp: with_dev_def split: sum.splits prod.splits)
  have s1: "bd_devices s1 = bd_devices s @ [with_dev dev d]" "bd_buses s1 = bd_buses s"
    using push by (auto simp: push_device_def split: if_splits)
  have one: "id_bound alloc \<le> id_bound alloc1" "kept_or_new was (id_bound alloc) (id_bound alloc1) dev d"
    "de_dev d = None \<Longrightarrow> unat dev = id_bound alloc \<and> id_bound alloc1 = Suc (id_bound alloc)"
    "\<And>v. de_dev d = Some v \<Longrightarrow> unat v < id_bound alloc \<and> dev = v"
    using step Cons.prems(2) dev_allocateD [of alloc dev alloc1]
    by (auto simp: kept_or_new_def find_Some_iff split: option.splits if_splits)
  have old: "\<forall>w \<in> set was. unat (de_dev w) < id_bound alloc1"
    using Cons.prems(2) one(1) by fastforce
  have dist: "distinct (List.map_filter de_dev ds)"
    using Cons.prems(3) by (auto simp: List.map_filter_simps split: option.splits)
  obtain ids where ids: "length ids = length ds" "bd_devices s' = bd_devices s1 @ map2 with_dev ids ds" "bd_buses s' = bd_buses s1"
    "id_bound alloc1 \<le> id_bound alloc'" "list_all2 (kept_or_new was (id_bound alloc1) (id_bound alloc')) ids ds" "distinct ids"
    using Cons.IH [OF rest old dist] by blast
  have "dev \<notin> set ids"
  proof
    assume "dev \<in> set ids"
    then obtain e where e: "(dev, e) \<in> set (zip ids ds)"
      using ids(1) by (metis in_set_impl_in_set_zip1)
    then have "kept_or_new was (id_bound alloc1) (id_bound alloc') dev e" "e \<in> set ds"
      using ids(5) by (auto simp: list_all2_iff dest: set_zip_rightD)
    then show False
      using one(1,3,4) Cons.prems(2,3)
      by (cases "de_dev d"; cases "de_dev e") (fastforce simp: kept_or_new_def List.map_filter_simps in_map_filter)+
  qed
  moreover have "list_all2 (kept_or_new was (id_bound alloc) (id_bound alloc')) ids ds"
    using ids(5) by (rule list_all2_mono) (use one(1) in \<open>auto intro: kept_or_new_mono\<close>)
  ultimately show ?case
    using ids s1 one(1,2) by (intro exI [of _ "dev # ids"]) (auto intro: kept_or_new_mono)
qed auto

lemma push_buses_spec: "push_buses bs s = Inr s' \<Longrightarrow> bd_buses s' = bd_buses s @ bs \<and> bd_devices s' = bd_devices s"
  by (induction bs arbitrary: s) (auto simp: push_bus_def split: sum.splits if_splits)

section \<open>The section accepted\<close>

lemma accept_spec:
  assumes "section_accept w rules was alloc = Inr (s, alloc')"
  shows "\<exists>ids. length ids = length (bd_devices w) \<and> bd_devices s = sort_key de_dev (map2 with_dev ids (bd_devices w)) \<and>
    bd_buses s = sort_key be_bus (bd_buses w) \<and> id_bound alloc \<le> id_bound alloc' \<and>
    list_all2 (kept_or_new (bd_devices was) (id_bound alloc) (id_bound alloc')) ids (bd_devices w) \<and> distinct ids \<and>
    section_check write_slot rules w = Inr () \<and> (\<forall>v \<in> set (bd_devices was). unat (de_dev v) < id_bound alloc)"
proof -
  obtain s1 s2 where steps: "section_check write_slot rules w = Inr ()" "push_buses (bd_buses w) EMPTY_SECTION = Inr s1"
    "accept_devices (bd_devices was) (bd_devices w) s1 alloc = Inr (s2, alloc')" "s = section_sort s2"
    "\<forall>n. alloc = Some n \<longrightarrow> (\<forall>v \<in> set (bd_devices was). de_dev v < n)"
    using assms by (auto simp: section_accept_def list_ex_iff not_le split: sum.splits option.splits if_splits prod.splits)
  have old: "\<forall>v \<in> set (bd_devices was). unat (de_dev v) < id_bound alloc"
    using steps(5) unat_dev by (auto simp: id_bound_def word_less_nat_alt split: option.split)
  have dist: "distinct (List.map_filter de_dev (bd_devices w))"
    using section_checkD(2) [OF steps(1)] by (simp add: write_slot_def)
  show ?thesis
    using accept_devices_spec [OF steps(3) old dist] push_buses_spec [OF steps(2)] steps(1,4) old
    by (auto simp: section_sort_def EMPTY_SECTION_def)
qed

lemma zip_drop_ordered:
  fixes f :: "'a \<Rightarrow> 'b :: linorder"
  shows "sorted_wrt (<) (map f xs) \<Longrightarrow> \<not> list_ex (\<lambda>(a, b). f b \<le> f a) (zip xs (drop 1 xs))"
proof (induction xs)
  case (Cons x xs)
  then show ?case
    by (cases xs) (auto simp: not_le)
qed simp

lemma sort_strict:
  fixes f :: "'a \<Rightarrow> 'b :: linorder"
  assumes "distinct (map f xs)"
  shows "sorted_wrt (<) (map f (sort_key f xs))"
proof -
  have "distinct (map f (sort_key f xs))"
    using assms by (simp add: distinct_map)
  then show ?thesis
    by (simp add: strict_sorted_iff)
qed

lemma map_with_dev: "length ids = length ds \<Longrightarrow> map de_dev (map2 with_dev ids ds) = ids"
  by (rule nth_equalityI) auto

lemma accept_ids:
  assumes "section_accept w rules was alloc = Inr (s, alloc')"
  shows "sorted_wrt (<) (map de_dev (bd_devices s))" and "sorted_wrt (<) (map be_bus (bd_buses s))"
    and "d \<in> set (bd_devices s) \<Longrightarrow>
      (\<exists>v \<in> set (bd_devices was). de_dev v = de_dev d \<and> de_product v = de_product d \<and> de_dialect v = de_dialect d) \<or>
      (id_bound alloc \<le> unat (de_dev d) \<and> unat (de_dev d) < id_bound alloc')"
    and "d \<in> set (bd_devices s) \<Longrightarrow> \<exists>e \<in> set (bd_devices w). d = with_dev (de_dev d) e"
proof -
  obtain ids where ids: "length ids = length (bd_devices w)" "bd_devices s = sort_key de_dev (map2 with_dev ids (bd_devices w))"
    "bd_buses s = sort_key be_bus (bd_buses w)" "list_all2 (kept_or_new (bd_devices was) (id_bound alloc) (id_bound alloc')) ids (bd_devices w)"
    "distinct ids" "section_check write_slot rules w = Inr ()"
    using accept_spec [OF assms] by blast
  show "sorted_wrt (<) (map de_dev (bd_devices s))"
    unfolding ids(2) by (rule sort_strict) (simp add: map_with_dev [OF ids(1)] ids(5) del: map_map)
  show "sorted_wrt (<) (map be_bus (bd_buses s))"
    unfolding ids(3) by (rule sort_strict [OF section_checkD(1) [OF ids(6)]])
  have entry: "\<exists>i e. (i, e) \<in> set (zip ids (bd_devices w)) \<and> d = with_dev i e" if "d \<in> set (bd_devices s)"
    using that ids(2) by auto
  show "(\<exists>v \<in> set (bd_devices was). de_dev v = de_dev d \<and> de_product v = de_product d \<and> de_dialect v = de_dialect d) \<or>
      (id_bound alloc \<le> unat (de_dev d) \<and> unat (de_dev d) < id_bound alloc')" if "d \<in> set (bd_devices s)"
    using entry [OF that] ids(4) by (fastforce simp: list_all2_iff kept_or_new_def split: option.splits)
  show "\<exists>e \<in> set (bd_devices w). d = with_dev (de_dev d) e" if "d \<in> set (bd_devices s)"
    using entry [OF that] by (auto dest: set_zip_rightD)
qed


lemma accept_answers:
  assumes "section_accept w rules was alloc = Inr (s, alloc')"
  shows "section_ascending read_slot s = Inr ()"
  using zip_drop_ordered [OF accept_ids(1) [OF assms]] zip_drop_ordered [OF accept_ids(2) [OF assms]]
  by (simp add: section_ascending_def read_slot_def)

lemma entry_unique:
  assumes "distinct (map de_dev ds)" and "d \<in> set ds"
  shows "entry_of read_slot ds (de_dev d) = Some d"
proof -
  obtain e where e: "entry_of read_slot ds (de_dev d) = Some e"
    using assms(2) by (cases "entry_of read_slot ds (de_dev d)") (auto simp: entry_of_def read_slot_def find_None_iff)
  then have "e \<in> set ds" "de_dev e = de_dev d"
    by (auto simp: entry_of_def read_slot_def find_Some_iff)
  then show ?thesis
    using assms e by (metis distinct_map inj_on_def)
qed

text \<open>The parents a client named are the parents the controller holds.\<close>

lemma accept_chains:
  assumes "section_accept w rules was alloc = Inr (s, alloc')" and "chain write_slot (bd_devices w) link ps"
  shows "chain read_slot (bd_devices s) link ps"
  using assms(2)
proof (induction rule: chain.induct)
  case (chain_link dev d ps)
  obtain ids where ids: "length ids = length (bd_devices w)" "bd_devices s = sort_key de_dev (map2 with_dev ids (bd_devices w))"
    "list_all2 (kept_or_new (bd_devices was) (id_bound alloc) (id_bound alloc')) ids (bd_devices w)"
    using accept_spec [OF assms(1)] by blast
  have d: "d \<in> set (bd_devices w)" "de_dev d = Some dev"
    using chain_link.hyps(1) by (auto simp: entry_of_def write_slot_def find_Some_iff)
  then obtain i where i: "(i, d) \<in> set (zip ids (bd_devices w))"
    using ids(1) by (metis in_set_impl_in_set_zip2)
  then have "kept_or_new (bd_devices was) (id_bound alloc) (id_bound alloc') i d"
    using ids(3) by (auto simp: list_all2_iff)
  then have "i = dev"
    using d(2) by (simp add: kept_or_new_def)
  then have "with_dev dev d \<in> set (bd_devices s)"
    using i ids(2) by force
  moreover have "distinct (map de_dev (bd_devices s))"
    using accept_ids(1) [OF assms(1)] by (simp add: strict_sorted_iff)
  ultimately have "entry_of read_slot (bd_devices s) dev = Some (with_dev dev d)"
    using entry_unique by fastforce
  then show ?case
    using chain_link.IH by (intro chain.chain_link) auto
qed (rule chain_end)

lemma accept_acyclic:
  assumes "section_accept w rules was alloc = Inr (s, alloc')"
  shows "d \<in> set (bd_devices s) \<Longrightarrow> \<exists>ps. chain read_slot (bd_devices s) (de_parent d) ps \<and> length ps < ru_max_topology_depth rules"
    and "acyclic (parents read_slot (bd_devices s))"
proof -
  have checked: "section_check write_slot rules w = Inr ()"
    using accept_spec [OF assms] by blast
  show all: "\<exists>ps. chain read_slot (bd_devices s) (de_parent d) ps \<and> length ps < ru_max_topology_depth rules" if d: "d \<in> set (bd_devices s)" for d
  proof -
    obtain e where e: "e \<in> set (bd_devices w)" "d = with_dev (de_dev d) e"
      using accept_ids(4) [OF assms d] by blast
    then obtain ps where "chain write_slot (bd_devices w) (de_parent e) ps" "length ps < ru_max_topology_depth rules"
      using section_checkD(5) [OF checked] by blast
    moreover have "de_parent d = de_parent e"
      by (subst e(2)) simp
    ultimately show ?thesis
      using accept_chains [OF assms] by auto
  qed
  show "acyclic (parents read_slot (bd_devices s))"
  proof (rule chains_acyclic)
    fix dev e assume "entry_of read_slot (bd_devices s) dev = Some e"
    then have "e \<in> set (bd_devices s)"
      by (auto simp: entry_of_def find_Some_iff)
    then show "\<exists>ps. chain read_slot (bd_devices s) (de_parent e) ps"
      using all by blast
  qed
qed

section \<open>The life of a site\<close>

text \<open>What the controller stores, and every meaning an id was ever given: writes accepted, under whatever
  rules hold then, and sub-devices adopted at run time out of the same ids.\<close>

inductive site :: "dev_id buses_devices \<Rightarrow> dev_allocator \<Rightarrow> (dev_id \<times> product \<times> dialect) set \<Rightarrow> bool" where
  site_new: "site EMPTY_SECTION FIRST {}"
| site_write: "site was alloc given \<Longrightarrow> section_accept w rules was alloc = Inr (s, alloc') \<Longrightarrow>
    site s alloc' (given \<union> (\<lambda>d. (de_dev d, de_product d, de_dialect d)) ` set (bd_devices s))"
| site_adopt: "site was alloc given \<Longrightarrow> dev_allocate alloc = Inr (dev, alloc') \<Longrightarrow> site was alloc' (insert (dev, p, l) given)"

lemma site_inv:
  assumes "site s alloc given"
  shows "(\<forall>(dev, p, l) \<in> given. unat dev < id_bound alloc) \<and>
    (\<forall>d \<in> set (bd_devices s). (de_dev d, de_product d, de_dialect d) \<in> given) \<and>
    (\<forall>dev p l p' l'. (dev, p, l) \<in> given \<longrightarrow> (dev, p', l') \<in> given \<longrightarrow> p = p' \<and> l = l')"
  using assms
proof (induction rule: site.induct)
  case (site_write was alloc given w rules s alloc')
  let ?new = "(\<lambda>d. (de_dev d, de_product d, de_dialect d)) ` set (bd_devices s)"
  have ih: "\<And>dev p l. (dev, p, l) \<in> given \<Longrightarrow> unat dev < id_bound alloc"
    "\<And>d. d \<in> set (bd_devices was) \<Longrightarrow> (de_dev d, de_product d, de_dialect d) \<in> given"
    "\<And>dev p l p' l'. (dev, p, l) \<in> given \<Longrightarrow> (dev, p', l') \<in> given \<Longrightarrow> p = p' \<and> l = l'"
    using site_write.IH by blast+
  have bound: "id_bound alloc \<le> id_bound alloc'"
    using accept_spec [OF site_write.hyps(2)] by blast
  have each: "(de_dev d, de_product d, de_dialect d) \<in> given \<or> (id_bound alloc \<le> unat (de_dev d) \<and> unat (de_dev d) < id_bound alloc')"
    if d: "d \<in> set (bd_devices s)" for d
    using accept_ids(3) [OF site_write.hyps(2) d] ih(2) by metis
  have single: "distinct (map de_dev (bd_devices s))"
    using accept_ids(1) [OF site_write.hyps(2)] by (simp add: strict_sorted_iff)
  have new_old: "p = de_product d \<and> l = de_dialect d" if "d \<in> set (bd_devices s)" "(de_dev d, p, l) \<in> given" for d p l
    using each [OF that(1)] ih(1) [OF that(2)] ih(3) [OF that(2)] by auto
  have new_new: "d = e" if "d \<in> set (bd_devices s)" "e \<in> set (bd_devices s)" "de_dev d = de_dev e" for d e
    using single that by (metis distinct_map inj_on_def)
  have "p = p' \<and> l = l'" if "(dev, p, l) \<in> given \<union> ?new" "(dev, p', l') \<in> given \<union> ?new" for dev p l p' l'
    using that
  proof (elim UnE)
    assume "(dev, p, l) \<in> given" "(dev, p', l') \<in> given"
    then show ?thesis
      by (rule ih(3))
  next
    assume "(dev, p, l) \<in> given" "(dev, p', l') \<in> ?new"
    then show ?thesis
      using new_old by auto
  next
    assume "(dev, p, l) \<in> ?new" "(dev, p', l') \<in> given"
    then show ?thesis
      using new_old by auto
  next
    assume "(dev, p, l) \<in> ?new" "(dev, p', l') \<in> ?new"
    then show ?thesis
      using new_new by auto
  qed
  moreover have "unat dev < id_bound alloc'" if "(dev, p, l) \<in> given \<union> ?new" for dev p l
    using that each ih(1) bound by (fastforce dest: ih(1))
  ultimately show ?case
    by blast
next
  case (site_adopt was alloc given dev alloc' p l)
  have ih: "\<And>dev p l. (dev, p, l) \<in> given \<Longrightarrow> unat dev < id_bound alloc"
    "\<And>d. d \<in> set (bd_devices was) \<Longrightarrow> (de_dev d, de_product d, de_dialect d) \<in> given"
    "\<And>dev p l p' l'. (dev, p, l) \<in> given \<Longrightarrow> (dev, p', l') \<in> given \<Longrightarrow> p = p' \<and> l = l'"
    using site_adopt.IH by blast+
  have dev: "unat dev = id_bound alloc" "id_bound alloc' = Suc (id_bound alloc)"
    using dev_allocateD [OF site_adopt.hyps(2)] by simp_all
  have "(dev, p', l') \<notin> given" for p' l'
    using ih(1) dev(1) by fastforce
  moreover have "unat dev' < Suc (id_bound alloc)" if "(dev', p', l') \<in> given" for dev' p' l'
    using ih(1) [OF that] by simp
  ultimately show ?case
    using ih(2,3) dev by auto
qed (simp add: EMPTY_SECTION_def)

section \<open>Properties\<close>

lemma device_ids_never_change_meaning_parts:
  assumes "site was alloc given" and "section_accept w rules was alloc = Inr (s, alloc')"
  shows "(dev, p, l) \<in> given \<Longrightarrow> d \<in> set (bd_devices s) \<Longrightarrow> de_dev d = dev \<Longrightarrow> de_product d = p \<and> de_dialect d = l"
    and "(dev, p, l) \<in> given \<Longrightarrow> (dev, p', l') \<in> given \<Longrightarrow> p = p' \<and> l = l'"
    and "section_ascending read_slot s = Inr ()" and "distinct (map de_dev (bd_devices s))"
    and "acyclic (parents read_slot (bd_devices s))"
    and "d \<in> set (bd_devices s) \<Longrightarrow> \<exists>ps. chain read_slot (bd_devices s) (de_parent d) ps \<and> length ps < ru_max_topology_depth rules"
    and "section_check write_slot rules' w' = Inr () \<Longrightarrow> v \<in> set (bd_devices was') \<Longrightarrow> next' \<le> de_dev v \<Longrightarrow>
      section_accept w' rules' was' (Some next') = Inl (Ce_AllocatorBehind next')"
proof -
  have life: "site s alloc' (given \<union> (\<lambda>d. (de_dev d, de_product d, de_dialect d)) ` set (bd_devices s))"
    using assms by (rule site_write)
  have single: "\<forall>dev p l p' l'. (dev, p, l) \<in> given \<union> (\<lambda>d. (de_dev d, de_product d, de_dialect d)) ` set (bd_devices s) \<longrightarrow>
      (dev, p', l') \<in> given \<union> (\<lambda>d. (de_dev d, de_product d, de_dialect d)) ` set (bd_devices s) \<longrightarrow> p = p' \<and> l = l'"
    using site_inv [OF life] by (elim conjE)
  show "de_product d = p \<and> de_dialect d = l" if "(dev, p, l) \<in> given" "d \<in> set (bd_devices s)" "de_dev d = dev"
    using single [rule_format, of dev p l "de_product d" "de_dialect d"] that by auto
  show "p = p' \<and> l = l'" if "(dev, p, l) \<in> given" "(dev, p', l') \<in> given"
    using single [rule_format, of dev p l p' l'] that by blast
  show "section_ascending read_slot s = Inr ()"
    by (rule accept_answers [OF assms(2)])
  show "distinct (map de_dev (bd_devices s))"
    using accept_ids(1) [OF assms(2)] by (simp add: strict_sorted_iff)
  show "acyclic (parents read_slot (bd_devices s))"
    by (rule accept_acyclic(2) [OF assms(2)])
  show "\<exists>ps. chain read_slot (bd_devices s) (de_parent d) ps \<and> length ps < ru_max_topology_depth rules" if "d \<in> set (bd_devices s)"
    using accept_acyclic(1) [OF assms(2) that] .
  show "section_accept w' rules' was' (Some next') = Inl (Ce_AllocatorBehind next')"
    if "section_check write_slot rules' w' = Inr ()" "v \<in> set (bd_devices was')" "next' \<le> de_dev v"
    using that by (auto simp: section_accept_def list_ex_iff)
qed

text \<open>C1. A device id is given once and always means the same product and dialect, however many writes the
  controller accepts and sub-devices it adopts; the section it holds after a write ascends, so it can be
  answered with, and among its devices there is no parent loop and no chain past \<open>max_topology_depth\<close>; and a
  write is refused when the allocator shows it was resumed behind what the section holds.\<close>

theorem device_ids_never_change_meaning:
  assumes "site was alloc given" and "section_accept w rules was alloc = Inr (s, alloc')"
  shows "((dev, p, l) \<in> given \<longrightarrow> d \<in> set (bd_devices s) \<longrightarrow> de_dev d = dev \<longrightarrow> (de_product d = p \<and> de_dialect d = l)) \<and>
    ((dev, p, l) \<in> given \<longrightarrow> (dev, p', l') \<in> given \<longrightarrow> (p = p' \<and> l = l')) \<and>
    section_ascending read_slot s = Inr () \<and>
    distinct (map de_dev (bd_devices s)) \<and>
    acyclic (parents read_slot (bd_devices s)) \<and>
    (d \<in> set (bd_devices s) \<longrightarrow> (\<exists>ps. chain read_slot (bd_devices s) (de_parent d) ps \<and> length ps < ru_max_topology_depth rules)) \<and>
    (section_check write_slot rules' w' = Inr () \<longrightarrow> v \<in> set (bd_devices was') \<longrightarrow> next' \<le> de_dev v \<longrightarrow> section_accept w' rules' was' (Some next') = Inl (Ce_AllocatorBehind next'))"
  by (rule conjI [OF impI [OF impI [OF impI [OF device_ids_never_change_meaning_parts(1) [OF assms]]]]
    conjI [OF impI [OF impI [OF device_ids_never_change_meaning_parts(2) [OF assms]]]
    conjI [OF device_ids_never_change_meaning_parts(3) [OF assms]
    conjI [OF device_ids_never_change_meaning_parts(4) [OF assms]
    conjI [OF device_ids_never_change_meaning_parts(5) [OF assms]
    conjI [OF impI [OF device_ids_never_change_meaning_parts(6) [OF assms]]
    impI [OF impI [OF impI [OF device_ids_never_change_meaning_parts(7) [OF assms]]]]]]]]]])

definition example_rules :: site_rules where
  "example_rules = \<lparr>ru_buses = [\<lparr>bb_bus = 1, bb_transport = Transport_VeDirect\<rparr>],
     ru_dialects = [\<lparr>dlr_dialect = 2, dlr_transports = [Transport_VeDirect], dlr_options = [], dlr_min_poll_ms = 0\<rparr>],
     ru_max_devices = 16, ru_max_topology_depth = 4\<rparr>"

definition example_addition :: "dev_id option buses_devices" where
  "example_addition = \<lparr>bd_buses = [], bd_devices = [\<lparr>de_dev = None, de_bus = 1, de_addr = None, de_product = 5, de_dialect = 2, de_role = 1,
     de_parent = None, de_options = NO_OPTIONS\<rparr>]\<rparr>"

lemma example_accepted:
  obtains s where "section_accept example_addition example_rules EMPTY_SECTION FIRST = Inr (s, Some 2)" and "map de_dev (bd_devices s) = [1]"
proof -
  have "section_check write_slot example_rules example_addition = Inr ()"
    by (simp add: section_check_def example_rules_def example_addition_def rule_transport_def rule_dialect_def check_addr_def
        options_check_def options_flat_def options_set_def NO_OPTIONS_def List.map_filter_simps write_slot_def check_chain_def
        MAX_CONFIG_DEVICES_def numeral_eq_Suc)
  then show ?thesis
    using that by (simp add: section_accept_def example_addition_def EMPTY_SECTION_def FIRST_def dev_allocate_def push_device_def MAX_CONFIG_DEVICES_def
        section_sort_def)
qed

lemma device_ids_never_change_meaning_witness:
  "\<exists>s alloc'. section_accept example_addition example_rules EMPTY_SECTION FIRST = Inr (s, alloc') \<and> map de_dev (bd_devices s) = [1] \<and>
     section_ascending read_slot s = Inr () \<and> acyclic (parents read_slot (bd_devices s))"
proof -
  obtain s where s: "section_accept example_addition example_rules EMPTY_SECTION FIRST = Inr (s, Some 2)" "map de_dev (bd_devices s) = [1]"
    by (rule example_accepted)
  then show ?thesis
    using device_ids_never_change_meaning [OF site_new s(1)] by (intro exI [of _ s] exI [of _ "Some 2"]) simp
qed

end
