(* ===== verification/Buses_Codec.thy ===== *)
theory Buses_Codec
  imports Device_Ids Row_Rules
begin

text \<open>
  \<open>crates/km43/src/buses_devices.rs\<close>, the body of the section on the wire. A body is read to its end before
  any value is judged: the first value-level refusal met is held back in an \<open>Invalid\<close>, which the decoders of
  the entries pass along, so what is malformed is error 1 whatever values stand in it.
\<close>

section \<open>What is held back\<close>

type_synonym invalid = "config_error option"

definition note_why :: "config_error \<Rightarrow> invalid \<Rightarrow> invalid" where
  "note_why why invalid = (case invalid of None \<Rightarrow> Some why | Some _ \<Rightarrow> invalid)"

definition unless_some :: "buses_key \<Rightarrow> 'a option \<Rightarrow> invalid \<Rightarrow> 'a option \<times> invalid" where
  "unless_some key v invalid = (v, if v = None then note_why (Ce_OutOfSchema (bk key)) invalid else invalid)"

definition unless_ok :: "config_error + 'a \<Rightarrow> invalid \<Rightarrow> 'a option \<times> invalid" where
  "unless_ok v invalid = (case v of Inr x \<Rightarrow> (Some x, invalid) | Inl why \<Rightarrow> (None, note_why why invalid))"

definition invalid_result :: "invalid \<Rightarrow> config_error + unit" where
  "invalid_result invalid = (case invalid of None \<Rightarrow> Inr () | Some why \<Rightarrow> Inl why)"

text \<open>\<open>slot.and_then(|v| invalid.unless(..))\<close>.\<close>

definition judged :: "('v \<Rightarrow> invalid \<Rightarrow> 'a option \<times> invalid) \<Rightarrow> 'v option \<Rightarrow> invalid \<Rightarrow> 'a option \<times> invalid" where
  "judged judge slot invalid = (case slot of None \<Rightarrow> (None, invalid) | Some v \<Rightarrow> judge v invalid)"

section \<open>Bus entries\<close>

definition bus_pairs :: "bus_entry \<Rightarrow> nat" where
  "bus_pairs e = 1 + of_bool (be_rate e \<noteq> None) + of_bool (be_data_bits e \<noteq> None) + of_bool (be_parity e \<noteq> None)
     + of_bool (be_stop_bits e \<noteq> None)"

definition bus_encode :: "bus_entry \<Rightarrow> (writer, cbor_error, unit) act" where
  "bus_encode e =
     andthen (wr_map (bus_pairs e)) (\<lambda>_.
     andthen (wr_key (buses_key_number Bk_Bus)) (\<lambda>_. andthen (wr_u64 (ucast (be_bus e))) (\<lambda>_.
     andthen (case be_rate e of Some rate \<Rightarrow> andthen (wr_key (buses_key_number Bk_Rate)) (\<lambda>_. wr_u64 (ucast rate)) | None \<Rightarrow> ret ()) (\<lambda>_.
     andthen (case be_data_bits e of Some bits \<Rightarrow> andthen (wr_key (buses_key_number Bk_DataBits)) (\<lambda>_. wr_u64 (ucast (data_bits_wire bits))) | None \<Rightarrow> ret ()) (\<lambda>_.
     andthen (case be_parity e of Some parity \<Rightarrow> andthen (wr_key (buses_key_number Bk_Parity)) (\<lambda>_. wr_u64 (ucast (parity_num parity))) | None \<Rightarrow> ret ()) (\<lambda>_.
     case be_stop_bits e of Some bits \<Rightarrow> andthen (wr_key (buses_key_number Bk_StopBits)) (\<lambda>_. wr_u64 (ucast (stop_bits_wire bits))) | None \<Rightarrow> ret ()))))))"

record bus_slots =
  bq_bus :: "u8 option"
  bq_rate :: "u32 option"
  bq_data_bits :: "u8 option"
  bq_parity :: "parity option"
  bq_stop_bits :: "u8 option"

definition bus_empty :: bus_slots where
  "bus_empty = \<lparr>bq_bus = None, bq_rate = None, bq_data_bits = None, bq_parity = None, bq_stop_bits = None\<rparr>"

definition bus_field :: "bus_slots \<Rightarrow> int \<Rightarrow> (reader, config_error, bus_slots) act" where
  "bus_field s number =
     (if number = 1 then andthen (map_err Ce_Cbor rd_u8) (\<lambda>v. andthen (once (Ce_Duplicate (bk Bk_Bus)) (bq_bus s) v) (\<lambda>t. ret (s\<lparr>bq_bus := t\<rparr>)))
      else if number = 2 then andthen (map_err Ce_Cbor rd_u32) (\<lambda>v. andthen (once (Ce_Duplicate (bk Bk_Rate)) (bq_rate s) v) (\<lambda>t. ret (s\<lparr>bq_rate := t\<rparr>)))
      else if number = 3 then andthen (map_err Ce_Cbor rd_u8) (\<lambda>v. andthen (once (Ce_Duplicate (bk Bk_DataBits)) (bq_data_bits s) v) (\<lambda>t. ret (s\<lparr>bq_data_bits := t\<rparr>)))
      else if number = 4 then andthen (map_err Ce_Cbor rd_u8) (\<lambda>v. andthen (ok_or (Ce_UnknownValue (bk Bk_Parity)) (parity_of v)) (\<lambda>w.
        andthen (once (Ce_Duplicate (bk Bk_Parity)) (bq_parity s) w) (\<lambda>t. ret (s\<lparr>bq_parity := t\<rparr>))))
      else if number = 5 then andthen (map_err Ce_Cbor rd_u8) (\<lambda>v. andthen (once (Ce_Duplicate (bk Bk_StopBits)) (bq_stop_bits s) v) (\<lambda>t. ret (s\<lparr>bq_stop_bits := t\<rparr>)))
      else skipped Ce_Cbor s)"

definition nonzero_rate :: "u32 \<Rightarrow> u32 option" where
  "nonzero_rate rate = (if rate = 0 then None else Some rate)"

definition bus_complete :: "invalid \<Rightarrow> bus_slots \<Rightarrow> (reader, config_error, bus_entry \<times> invalid) act" where
  "bus_complete invalid s =
     andthen (ok_or (Ce_Missing (bk Bk_Bus)) (bq_bus s)) (\<lambda>bus.
     if bq_rate s = None \<and> bq_data_bits s = None \<and> bq_parity s = None \<and> bq_stop_bits s = None
     then fail (Ce_NothingSet (bk Bk_Bus))
     else ret
       (let (rate, invalid) = judged (unless_some Bk_Rate \<circ> nonzero_rate) (bq_rate s) invalid;
            (data_bits, invalid) = judged (unless_some Bk_DataBits \<circ> data_bits_of) (bq_data_bits s) invalid;
            (stop_bits, invalid) = judged (unless_some Bk_StopBits \<circ> stop_bits_of) (bq_stop_bits s) invalid
        in (\<lparr>be_bus = bus, be_rate = rate, be_data_bits = data_bits, be_parity = bq_parity s, be_stop_bits = stop_bits\<rparr>, invalid)))"

definition bus_decode :: "invalid \<Rightarrow> (reader, config_error, bus_entry \<times> invalid) act" where
  "bus_decode invalid = andthen (map_fields Ce_Cbor bus_field bus_empty) (bus_complete invalid)"

section \<open>Device options\<close>

definition options_pairs :: "device_options \<Rightarrow> nat" where
  "options_pairs o' = length (options_flat o')"

definition options_encode :: "device_options \<Rightarrow> (writer, cbor_error, unit) act" where
  "options_encode o' =
     andthen (wr_map (options_pairs o')) (\<lambda>_.
     andthen (case do_current_direction o' of
         Some direction \<Rightarrow> andthen (wr_key (uint (device_option_num DeviceOption_CurrentDirection)))
           (\<lambda>_. wr_u64 (ucast (signal_direction_num (current_direction_wire direction))))
       | None \<Rightarrow> ret ()) (\<lambda>_.
     andthen (case do_pylontech_version o' of
         Some version \<Rightarrow> andthen (wr_key (uint (device_option_num DeviceOption_PylontechVersion))) (\<lambda>_. wr_u64 (ucast (pylontech_version_num version)))
       | None \<Rightarrow> ret ()) (\<lambda>_.
     andthen (case do_ve_direct_3v3 o' of
         Some low \<Rightarrow> andthen (wr_key (uint (device_option_num DeviceOption_VeDirect3v3))) (\<lambda>_. wr_bool low)
       | None \<Rightarrow> ret ()) (\<lambda>_.
     case do_poll_period_ms o' of
       Some period \<Rightarrow> andthen (wr_key (uint (device_option_num DeviceOption_PollPeriod))) (\<lambda>_. wr_u64 (ucast period))
     | None \<Rightarrow> ret ()))))"

record option_slots =
  oq_options :: device_options
  oq_direction :: "signal_direction option"
  oq_invalid :: invalid

definition option_of_key :: "int \<Rightarrow> device_option option" where
  "option_of_key number = (if 0 \<le> number \<and> number < 65536 then device_option_of (of_int number) else None)"

definition options_field :: "option_slots \<Rightarrow> int \<Rightarrow> (reader, config_error, option_slots) act" where
  "options_field s number =
     (case option_of_key number of
        None \<Rightarrow> skipped Ce_Cbor (s\<lparr>oq_invalid := note_why (Ce_UnknownOption number) (oq_invalid s)\<rparr>)
      | Some option \<Rightarrow>
          (let key = bk (Bk_Option option) in
           case option of
             DeviceOption_CurrentDirection \<Rightarrow>
               andthen (map_err Ce_Cbor rd_u8) (\<lambda>v. andthen (ok_or (Ce_UnknownValue key) (signal_direction_of v)) (\<lambda>w.
               andthen (once (Ce_Duplicate key) (oq_direction s) w) (\<lambda>t. ret (s\<lparr>oq_direction := t\<rparr>))))
           | DeviceOption_PylontechVersion \<Rightarrow>
               andthen (map_err Ce_Cbor rd_u8) (\<lambda>v. andthen (ok_or (Ce_UnknownValue key) (pylontech_version_of v)) (\<lambda>w.
               andthen (once (Ce_Duplicate key) (do_pylontech_version (oq_options s)) w) (\<lambda>t.
               ret (s\<lparr>oq_options := (oq_options s)\<lparr>do_pylontech_version := t\<rparr>\<rparr>))))
           | DeviceOption_VeDirect3v3 \<Rightarrow>
               andthen (map_err Ce_Cbor rd_bool) (\<lambda>v. andthen (once (Ce_Duplicate key) (do_ve_direct_3v3 (oq_options s)) v) (\<lambda>t.
               ret (s\<lparr>oq_options := (oq_options s)\<lparr>do_ve_direct_3v3 := t\<rparr>\<rparr>)))
           | DeviceOption_PollPeriod \<Rightarrow>
               andthen (map_err Ce_Cbor rd_u32) (\<lambda>v. andthen (once (Ce_Duplicate key) (do_poll_period_ms (oq_options s)) v) (\<lambda>t.
               ret (s\<lparr>oq_options := (oq_options s)\<lparr>do_poll_period_ms := t\<rparr>\<rparr>)))))"

primrec direction_judged :: "signal_direction \<Rightarrow> invalid \<Rightarrow> current_direction option \<times> invalid" where
  "direction_judged Dir_PositiveIsIn invalid = (Some PositiveIsIn, invalid)"
| "direction_judged Dir_PositiveIsOut invalid = (Some PositiveIsOut, invalid)"
| "direction_judged Dir_MagnitudeOnly invalid = (None, note_why (Ce_OutOfSchema (bk (Bk_Option DeviceOption_CurrentDirection))) invalid)"

definition options_complete :: "option_slots \<Rightarrow> device_options \<times> invalid" where
  "options_complete s =
     (let (direction, invalid) = judged direction_judged (oq_direction s) (oq_invalid s)
      in ((oq_options s)\<lparr>do_current_direction := direction\<rparr>, invalid))"

definition options_decode :: "invalid \<Rightarrow> (reader, config_error, device_options \<times> invalid) act" where
  "options_decode invalid =
     andthen (map_err Ce_Cbor rd_map) (\<lambda>pairs.
     if pairs = 0 then fail (Ce_NothingSet (bk Bk_Options))
     else andthen (pairs_loop Ce_Cbor options_field pairs \<lparr>oq_options = NO_OPTIONS, oq_direction = None, oq_invalid = invalid\<rparr>)
       (\<lambda>s. ret (options_complete s)))"

section \<open>Device entries\<close>

definition device_pairs :: "'d dev_slot \<Rightarrow> 'd device_entry \<Rightarrow> nat" where
  "device_pairs sl d = 4 + of_bool (slot_dev sl (de_dev d) \<noteq> None) + of_bool (de_addr d \<noteq> None) + of_bool (de_parent d \<noteq> None)
     + of_bool (de_options d \<noteq> NO_OPTIONS)"

definition device_encode :: "'d dev_slot \<Rightarrow> 'd device_entry \<Rightarrow> (writer, cbor_error, unit) act" where
  "device_encode sl d =
     andthen (wr_map (device_pairs sl d)) (\<lambda>_.
     andthen (case slot_dev sl (de_dev d) of Some dev \<Rightarrow> andthen (wr_key (buses_key_number Bk_Dev)) (\<lambda>_. wr_u64 (ucast dev)) | None \<Rightarrow> ret ()) (\<lambda>_.
     andthen (wr_key (buses_key_number Bk_DeviceBus)) (\<lambda>_. andthen (wr_u64 (ucast (de_bus d))) (\<lambda>_.
     andthen (case de_addr d of Some addr \<Rightarrow> andthen (wr_key (buses_key_number Bk_Addr)) (\<lambda>_. wr_byte_string addr) | None \<Rightarrow> ret ()) (\<lambda>_.
     andthen (wr_key (buses_key_number Bk_Product)) (\<lambda>_. andthen (wr_u64 (ucast (de_product d))) (\<lambda>_.
     andthen (wr_key (buses_key_number Bk_Dialect)) (\<lambda>_. andthen (wr_u64 (ucast (de_dialect d))) (\<lambda>_.
     andthen (wr_key (buses_key_number Bk_Role)) (\<lambda>_. andthen (wr_u64 (ucast (de_role d))) (\<lambda>_.
     andthen (case de_parent d of Some parent \<Rightarrow> andthen (wr_key (buses_key_number Bk_Parent)) (\<lambda>_. wr_u64 (ucast parent)) | None \<Rightarrow> ret ()) (\<lambda>_.
     if de_options d \<noteq> NO_OPTIONS then andthen (wr_key (buses_key_number Bk_Options)) (\<lambda>_. options_encode (de_options d)) else ret ()))))))))))))"

record device_slots =
  dq_dev :: "u16 option"
  dq_bus :: "u8 option"
  dq_addr :: "bytes option"
  dq_product :: "u16 option"
  dq_dialect :: "u16 option"
  dq_role :: "u16 option"
  dq_parent :: "u16 option"
  dq_options :: "device_options option"
  dq_invalid :: invalid

definition device_empty :: "invalid \<Rightarrow> device_slots" where
  "device_empty invalid = \<lparr>dq_dev = None, dq_bus = None, dq_addr = None, dq_product = None, dq_dialect = None, dq_role = None,
     dq_parent = None, dq_options = None, dq_invalid = invalid\<rparr>"

definition device_field :: "device_slots \<Rightarrow> int \<Rightarrow> (reader, config_error, device_slots) act" where
  "device_field s number =
     (if number = 1 then andthen (map_err Ce_Cbor rd_u16) (\<lambda>v. andthen (once (Ce_Duplicate (bk Bk_Dev)) (dq_dev s) v) (\<lambda>t. ret (s\<lparr>dq_dev := t\<rparr>)))
      else if number = 2 then andthen (map_err Ce_Cbor rd_u8) (\<lambda>v. andthen (once (Ce_Duplicate (bk Bk_DeviceBus)) (dq_bus s) v) (\<lambda>t. ret (s\<lparr>dq_bus := t\<rparr>)))
      else if number = 3 then andthen (map_err Ce_Cbor rd_byte_string) (\<lambda>v. andthen (once (Ce_Duplicate (bk Bk_Addr)) (dq_addr s) v) (\<lambda>t. ret (s\<lparr>dq_addr := t\<rparr>)))
      else if number = 4 then andthen (map_err Ce_Cbor rd_u16) (\<lambda>v. andthen (once (Ce_Duplicate (bk Bk_Product)) (dq_product s) v) (\<lambda>t. ret (s\<lparr>dq_product := t\<rparr>)))
      else if number = 5 then andthen (map_err Ce_Cbor rd_u16) (\<lambda>v. andthen (once (Ce_Duplicate (bk Bk_Dialect)) (dq_dialect s) v) (\<lambda>t. ret (s\<lparr>dq_dialect := t\<rparr>)))
      else if number = 6 then andthen (map_err Ce_Cbor rd_u16) (\<lambda>v. andthen (once (Ce_Duplicate (bk Bk_Role)) (dq_role s) v) (\<lambda>t. ret (s\<lparr>dq_role := t\<rparr>)))
      else if number = 7 then andthen (map_err Ce_Cbor rd_u16) (\<lambda>v. andthen (once (Ce_Duplicate (bk Bk_Parent)) (dq_parent s) v) (\<lambda>t. ret (s\<lparr>dq_parent := t\<rparr>)))
      else if number = 8 then andthen (options_decode (dq_invalid s)) (\<lambda>(read, invalid).
        andthen (once (Ce_Duplicate (bk Bk_Options)) (dq_options s) read) (\<lambda>t. ret (s\<lparr>dq_options := t, dq_invalid := invalid\<rparr>)))
      else skipped Ce_Cbor s)"

text \<open>A \<open>dev\<close> of 0 is held as a stand-in.\<close>

definition dev_decoded :: "'d dev_slot \<Rightarrow> u16 option \<Rightarrow> invalid \<Rightarrow> config_error + ('d \<times> invalid)" where
  "dev_decoded sl slot invalid =
     (case slot of
        None \<Rightarrow> (case from_decoded sl None of Inl why \<Rightarrow> Inl why | Inr dev \<Rightarrow> Inr (dev, invalid))
      | Some raw \<Rightarrow>
          (let (dev, invalid) = unless_ok (dev_id_new raw) invalid in
           case from_decoded sl (Some (case dev of Some dev \<Rightarrow> dev | None \<Rightarrow> DEV_PLACEHOLDER)) of
             Inl why \<Rightarrow> Inl why
           | Inr dev \<Rightarrow> Inr (dev, invalid)))"

definition parent_new :: "u16 \<Rightarrow> config_error + dev_id" where
  "parent_new parent = map_sum (\<lambda>_. Ce_OutOfSchema (bk Bk_Parent)) id (dev_id_new parent)"

definition device_complete :: "'d dev_slot \<Rightarrow> device_slots \<Rightarrow> (reader, config_error, 'd device_entry \<times> invalid) act" where
  "device_complete sl s =
     andthen (ok_or (Ce_Missing (bk Bk_Product)) (dq_product s)) (\<lambda>product.
     andthen (ok_or (Ce_Missing (bk Bk_Dialect)) (dq_dialect s)) (\<lambda>dialect.
     andthen (ok_or (Ce_Missing (bk Bk_Role)) (dq_role s)) (\<lambda>role.
     andthen (ok_or (Ce_Missing (bk Bk_DeviceBus)) (dq_bus s)) (\<lambda>bus.
     andthen (lift_sum (dev_decoded sl (dq_dev s) (dq_invalid s))) (\<lambda>(dev, invalid). ret
       (let (addr, invalid) = judged (unless_ok \<circ> addr_new) (dq_addr s) invalid;
            (parent, invalid) = judged (unless_ok \<circ> parent_new) (dq_parent s) invalid
        in (\<lparr>de_dev = dev, de_bus = bus, de_addr = addr, de_product = product, de_dialect = dialect, de_role = role,
             de_parent = parent, de_options = (case dq_options s of Some o' \<Rightarrow> o' | None \<Rightarrow> NO_OPTIONS)\<rparr>, invalid)))))))"

definition device_decode :: "'d dev_slot \<Rightarrow> invalid \<Rightarrow> (reader, config_error, 'd device_entry \<times> invalid) act" where
  "device_decode sl invalid = andthen (map_fields Ce_Cbor device_field (device_empty invalid)) (device_complete sl)"

section \<open>The section\<close>

definition section_pairs :: "'d dev_slot \<Rightarrow> 'd buses_devices \<Rightarrow> (writer, cbor_error, unit) act" where
  "section_pairs sl s =
     andthen (wr_key (buses_key_number Bk_Buses)) (\<lambda>_.
     andthen (andthen (wr_array (length (bd_buses s))) (\<lambda>_. for_each bus_encode (bd_buses s))) (\<lambda>_.
     andthen (wr_key (buses_key_number Bk_Devices)) (\<lambda>_.
     andthen (wr_array (length (bd_devices s))) (\<lambda>_. for_each (device_encode sl) (bd_devices s)))))"

definition section_encode :: "'d dev_slot \<Rightarrow> 'd buses_devices \<Rightarrow> bytes \<Rightarrow> (config_error + nat) \<times> bytes" where
  "section_encode sl s dst =
     (case section_ascending sl s of
        Inl why \<Rightarrow> (Inl why, dst)
      | Inr _ \<Rightarrow> encoding Ce_Cbor (map_err Ce_Cbor (andthen (wr_map 2) (\<lambda>_. section_pairs sl s))) dst)"

record 'd section_slots =
  sq_buses :: "unit option"
  sq_devices :: "unit option"
  sq_section :: "'d buses_devices"
  sq_invalid :: invalid

definition section_start :: "'d section_slots" where
  "section_start = \<lparr>sq_buses = None, sq_devices = None, sq_section = EMPTY_SECTION, sq_invalid = None\<rparr>"

text \<open>An entry read, pushed, and noted when there is no room for it.\<close>

definition pushed :: "buses_key \<Rightarrow> config_error + 'd buses_devices \<Rightarrow> invalid \<Rightarrow> 'd section_slots \<Rightarrow> 'd section_slots" where
  "pushed key outcome invalid s =
     (case outcome of
        Inr section \<Rightarrow> s\<lparr>sq_section := section, sq_invalid := invalid\<rparr>
      | Inl _ \<Rightarrow> s\<lparr>sq_invalid := note_why (Ce_TooMany (bk key)) invalid\<rparr>)"

definition bus_step :: "'d section_slots \<Rightarrow> (reader, config_error, 'd section_slots) act" where
  "bus_step s = andthen (bus_decode (sq_invalid s)) (\<lambda>(entry, invalid). ret (pushed Bk_Buses (push_bus entry (sq_section s)) invalid s))"

definition device_step :: "'d dev_slot \<Rightarrow> 'd section_slots \<Rightarrow> (reader, config_error, 'd section_slots) act" where
  "device_step sl s =
     andthen (device_decode sl (sq_invalid s)) (\<lambda>(entry, invalid). ret (pushed Bk_Devices (push_device entry (sq_section s)) invalid s))"

definition section_field :: "'d dev_slot \<Rightarrow> 'd section_slots \<Rightarrow> int \<Rightarrow> (reader, config_error, 'd section_slots) act" where
  "section_field sl s number =
     (if number = 1 then andthen (once (Ce_Duplicate (bk Bk_Buses)) (sq_buses s) ()) (\<lambda>t.
        andthen (map_err Ce_Cbor rd_array) (\<lambda>n. repeat_act n bus_step (s\<lparr>sq_buses := t\<rparr>)))
      else if number = 2 then andthen (once (Ce_Duplicate (bk Bk_Devices)) (sq_devices s) ()) (\<lambda>t.
        andthen (map_err Ce_Cbor rd_array) (\<lambda>n. repeat_act n (device_step sl) (s\<lparr>sq_devices := t\<rparr>)))
      else skipped Ce_Cbor s)"

definition section_complete :: "'d dev_slot \<Rightarrow> 'd section_slots \<Rightarrow> (reader, config_error, 'd buses_devices) act" where
  "section_complete sl s =
     andthen (ok_or (Ce_Missing (bk Bk_Buses)) (sq_buses s)) (\<lambda>_.
     andthen (ok_or (Ce_Missing (bk Bk_Devices)) (sq_devices s)) (\<lambda>_.
     andthen (lift_sum (invalid_result (sq_invalid s))) (\<lambda>_.
     andthen (lift_sum (section_ascending sl (sq_section s))) (\<lambda>_. ret (sq_section s)))))"

definition section_decode :: "'d dev_slot \<Rightarrow> bytes \<Rightarrow> config_error + 'd buses_devices" where
  "section_decode sl = decoding (
     andthen (map_fields Ce_Cbor (section_field sl) section_start) (\<lambda>s.
     andthen (finishing Ce_Cbor) (\<lambda>_. section_complete sl s)))"

section \<open>Entries on the wire\<close>

definition bus_fields :: "bus_entry \<Rightarrow> (int \<times> item) list" where
  "bus_fields e =
     [(1, IUint (ucast (be_bus e)))] @
     (case be_rate e of Some v \<Rightarrow> [(2, IUint (ucast v))] | None \<Rightarrow> []) @
     (case be_data_bits e of Some v \<Rightarrow> [(3, IUint (ucast (data_bits_wire v)))] | None \<Rightarrow> []) @
     (case be_parity e of Some v \<Rightarrow> [(4, IUint (ucast (parity_num v)))] | None \<Rightarrow> []) @
     (case be_stop_bits e of Some v \<Rightarrow> [(5, IUint (ucast (stop_bits_wire v)))] | None \<Rightarrow> [])"

definition bus_valid :: "bus_entry \<Rightarrow> bool" where
  "bus_valid e \<longleftrightarrow> be_rate e \<noteq> Some 0 \<and> \<not> (be_rate e = None \<and> be_data_bits e = None \<and> be_parity e = None \<and> be_stop_bits e = None)"

lemma data_bits_own [simp]: "data_bits_of (data_bits_wire b) = Some b"
  by (cases b) (simp_all add: data_bits_of_def)

lemma stop_bits_own [simp]: "stop_bits_of (stop_bits_wire b) = Some b"
  by (cases b) (simp_all add: stop_bits_of_def)

lemma bus_ok: "ascending None (bus_fields e)" "length (bus_fields e) = bus_pairs e" "item_depth (map_item (bus_fields e)) = 1"
  by (cases "be_rate e"; cases "be_data_bits e"; cases "be_parity e"; cases "be_stop_bits e";
      simp add: bus_fields_def bus_pairs_def good_key_def map_item_def pairs_of_def)+

lemma bus_writes: "writes_item (bus_encode e) (map_item (bus_fields e))"
  unfolding bus_encode_def
proof (rule writes_map)
  show "writes_pairs (andthen (wr_key (buses_key_number Bk_Bus)) (\<lambda>_. andthen (wr_u64 (ucast (be_bus e))) (\<lambda>_.
     andthen (case be_rate e of Some rate \<Rightarrow> andthen (wr_key (buses_key_number Bk_Rate)) (\<lambda>_. wr_u64 (ucast rate)) | None \<Rightarrow> ret ()) (\<lambda>_.
     andthen (case be_data_bits e of Some bits \<Rightarrow> andthen (wr_key (buses_key_number Bk_DataBits)) (\<lambda>_. wr_u64 (ucast (data_bits_wire bits))) | None \<Rightarrow> ret ()) (\<lambda>_.
     andthen (case be_parity e of Some parity \<Rightarrow> andthen (wr_key (buses_key_number Bk_Parity)) (\<lambda>_. wr_u64 (ucast (parity_num parity))) | None \<Rightarrow> ret ()) (\<lambda>_.
     case be_stop_bits e of Some bits \<Rightarrow> andthen (wr_key (buses_key_number Bk_StopBits)) (\<lambda>_. wr_u64 (ucast (stop_bits_wire bits))) | None \<Rightarrow> ret ())))))) (bus_fields e)"
    unfolding bus_fields_def buses_key_number.simps append.simps by (intro item_rules writes_append)
qed (simp_all add: bus_ok)

lemma bus_field_simps:
  "bus_field s 1 = andthen (map_err Ce_Cbor rd_u8) (\<lambda>v. andthen (once (Ce_Duplicate (bk Bk_Bus)) (bq_bus s) v) (\<lambda>t. ret (s\<lparr>bq_bus := t\<rparr>)))"
  "bus_field s 2 = andthen (map_err Ce_Cbor rd_u32) (\<lambda>v. andthen (once (Ce_Duplicate (bk Bk_Rate)) (bq_rate s) v) (\<lambda>t. ret (s\<lparr>bq_rate := t\<rparr>)))"
  "bus_field s 3 = andthen (map_err Ce_Cbor rd_u8) (\<lambda>v. andthen (once (Ce_Duplicate (bk Bk_DataBits)) (bq_data_bits s) v) (\<lambda>t. ret (s\<lparr>bq_data_bits := t\<rparr>)))"
  "bus_field s 4 = andthen (map_err Ce_Cbor rd_u8) (\<lambda>v. andthen (ok_or (Ce_UnknownValue (bk Bk_Parity)) (parity_of v)) (\<lambda>w.
     andthen (once (Ce_Duplicate (bk Bk_Parity)) (bq_parity s) w) (\<lambda>t. ret (s\<lparr>bq_parity := t\<rparr>))))"
  "bus_field s 5 = andthen (map_err Ce_Cbor rd_u8) (\<lambda>v. andthen (once (Ce_Duplicate (bk Bk_StopBits)) (bq_stop_bits s) v) (\<lambda>t. ret (s\<lparr>bq_stop_bits := t\<rparr>)))"
  by (simp_all add: bus_field_def)

lemma bus_reads: "reads_pairs bus_field (bus_fields e) bus_empty
    \<lparr>bq_bus = Some (be_bus e), bq_rate = be_rate e, bq_data_bits = map_option data_bits_wire (be_data_bits e), bq_parity = be_parity e,
     bq_stop_bits = map_option stop_bits_wire (be_stop_bits e)\<rparr>"
  by (cases "be_rate e"; cases "be_data_bits e"; cases "be_parity e"; cases "be_stop_bits e";
      simp add: bus_fields_def del: reads_pairs.simps; rule reads_eq,
      (rule reads_Nil | rule reads_Cons | simp only: bus_field_simps | rule slot_rules | rule item_rules parity.of_num_of | simp add: bus_empty_def; fail)+)

lemma bus_reads_item:
  assumes "bus_valid e"
  shows "reads_item (bus_decode invalid) (map_item (bus_fields e)) (e, invalid)"
  unfolding bus_decode_def
  by (rule reads_then [OF reads_map [OF bus_reads bus_ok(1)]])
    (use assms in \<open>auto simp: bus_complete_def bus_valid_def judged_def unless_some_def nonzero_rate_def split: option.splits\<close>)

definition options_fields :: "device_options \<Rightarrow> (int \<times> item) list" where
  "options_fields o' =
     (case do_current_direction o' of Some v \<Rightarrow> [(1, IUint (ucast (signal_direction_num (current_direction_wire v))))] | None \<Rightarrow> []) @
     (case do_pylontech_version o' of Some v \<Rightarrow> [(2, IUint (ucast (pylontech_version_num v)))] | None \<Rightarrow> []) @
     (case do_ve_direct_3v3 o' of Some v \<Rightarrow> [(3, IBool v)] | None \<Rightarrow> []) @
     (case do_poll_period_ms o' of Some v \<Rightarrow> [(4, IUint (ucast v))] | None \<Rightarrow> [])"

lemma options_ok: "ascending None (options_fields o')" "length (options_fields o') = options_pairs o'"
  "item_depth (map_item (options_fields o')) = 1" "o' \<noteq> NO_OPTIONS \<Longrightarrow> options_fields o' \<noteq> []"
  by (cases o'; cases "do_current_direction o'"; cases "do_pylontech_version o'"; cases "do_ve_direct_3v3 o'"; cases "do_poll_period_ms o'";
      simp add: options_fields_def options_pairs_def options_flat_def options_set_def map_filter_simps good_key_def map_item_def pairs_of_def NO_OPTIONS_def)+

lemma option_numbers [simp]:
  "uint (device_option_num DeviceOption_CurrentDirection) = 1" "uint (device_option_num DeviceOption_PylontechVersion) = 2"
  "uint (device_option_num DeviceOption_VeDirect3v3) = 3" "uint (device_option_num DeviceOption_PollPeriod) = 4"
  by simp_all

lemma options_writes: "writes_item (options_encode o') (map_item (options_fields o'))"
  unfolding options_encode_def
  apply (rule writes_map)
  subgoal unfolding options_fields_def option_numbers by (intro item_rules writes_append)
  by (simp_all add: options_ok)

lemma options_field_simps:
  "options_field s 1 = andthen (map_err Ce_Cbor rd_u8) (\<lambda>v. andthen (ok_or (Ce_UnknownValue (bk (Bk_Option DeviceOption_CurrentDirection))) (signal_direction_of v)) (\<lambda>w.
     andthen (once (Ce_Duplicate (bk (Bk_Option DeviceOption_CurrentDirection))) (oq_direction s) w) (\<lambda>t. ret (s\<lparr>oq_direction := t\<rparr>))))"
  "options_field s 2 = andthen (map_err Ce_Cbor rd_u8) (\<lambda>v. andthen (ok_or (Ce_UnknownValue (bk (Bk_Option DeviceOption_PylontechVersion))) (pylontech_version_of v)) (\<lambda>w.
     andthen (once (Ce_Duplicate (bk (Bk_Option DeviceOption_PylontechVersion))) (do_pylontech_version (oq_options s)) w) (\<lambda>t.
     ret (s\<lparr>oq_options := (oq_options s)\<lparr>do_pylontech_version := t\<rparr>\<rparr>))))"
  "options_field s 3 = andthen (map_err Ce_Cbor rd_bool) (\<lambda>v. andthen (once (Ce_Duplicate (bk (Bk_Option DeviceOption_VeDirect3v3))) (do_ve_direct_3v3 (oq_options s)) v) (\<lambda>t.
     ret (s\<lparr>oq_options := (oq_options s)\<lparr>do_ve_direct_3v3 := t\<rparr>\<rparr>)))"
  "options_field s 4 = andthen (map_err Ce_Cbor rd_u32) (\<lambda>v. andthen (once (Ce_Duplicate (bk (Bk_Option DeviceOption_PollPeriod))) (do_poll_period_ms (oq_options s)) v) (\<lambda>t.
     ret (s\<lparr>oq_options := (oq_options s)\<lparr>do_poll_period_ms := t\<rparr>\<rparr>)))"
  by (simp_all add: options_field_def option_of_key_def device_option_of_def device_option_arms_def Let_def)

lemma options_reads: "reads_pairs options_field (options_fields o') \<lparr>oq_options = NO_OPTIONS, oq_direction = None, oq_invalid = invalid\<rparr>
    \<lparr>oq_options = o'\<lparr>do_current_direction := None\<rparr>, oq_direction = map_option current_direction_wire (do_current_direction o'), oq_invalid = invalid\<rparr>"
  by (cases o'; cases "do_current_direction o'"; cases "do_pylontech_version o'"; cases "do_ve_direct_3v3 o'"; cases "do_poll_period_ms o'";
      simp add: options_fields_def NO_OPTIONS_def del: reads_pairs.simps; rule reads_eq,
      (rule reads_Nil | rule reads_Cons | simp only: options_field_simps | rule slot_rules
        | rule item_rules signal_direction.of_num_of pylontech_version.of_num_of | simp; fail)+)

lemma options_reads_item:
  assumes "o' \<noteq> NO_OPTIONS"
  shows "reads_item (options_decode invalid) (map_item (options_fields o')) (o', invalid)"
proof -
  let ?s = "\<lparr>oq_options = o'\<lparr>do_current_direction := None\<rparr>, oq_direction = map_option current_direction_wire (do_current_direction o'),
      oq_invalid = invalid\<rparr>"
  have "reads_item (options_decode invalid) (map_item (options_fields o')) (options_complete ?s)"
    unfolding options_decode_def by (rule reads_map_with [OF options_reads options_ok(1)]) (use options_ok(4) [OF assms] in simp)
  moreover have "options_complete ?s = (o', invalid)"
  proof (cases "do_current_direction o'")
    case (Some v)
    then show ?thesis
      by (cases v) (simp_all add: options_complete_def judged_def)
  qed (simp add: options_complete_def judged_def)
  ultimately show ?thesis
    by simp
qed

definition device_fields :: "'d dev_slot \<Rightarrow> 'd device_entry \<Rightarrow> (int \<times> item) list" where
  "device_fields sl d =
     (case slot_dev sl (de_dev d) of Some v \<Rightarrow> [(1, IUint (ucast v))] | None \<Rightarrow> []) @
     (2, IUint (ucast (de_bus d))) #
     (case de_addr d of Some v \<Rightarrow> [(3, IBytes v)] | None \<Rightarrow> []) @
     (4, IUint (ucast (de_product d))) # (5, IUint (ucast (de_dialect d))) # (6, IUint (ucast (de_role d))) #
     (case de_parent d of Some v \<Rightarrow> [(7, IUint (ucast v))] | None \<Rightarrow> []) @
     (if de_options d \<noteq> NO_OPTIONS then [(8, map_item (options_fields (de_options d)))] else [])"

definition device_valid :: "'d dev_slot \<Rightarrow> 'd device_entry \<Rightarrow> bool" where
  "device_valid sl d \<longleftrightarrow> slot_dev sl (de_dev d) \<noteq> Some 0 \<and> de_parent d \<noteq> Some 0 \<and>
     (case de_addr d of Some a \<Rightarrow> a \<noteq> [] \<and> length a \<le> MAX_ADDR | None \<Rightarrow> True)"

text \<open>What the section asks of its two kinds of id: an id decoded from its own number is the same id, and
  none can be 0.\<close>

locale dev_kind =
  fixes sl :: "'d dev_slot"
  assumes own: "from_decoded sl (slot_dev sl d) = Inr d"
    and decoded: "from_decoded sl dev = Inr d \<Longrightarrow> slot_dev sl d = dev"
    and refuses: "from_decoded sl dev = Inl why \<Longrightarrow> malformed why"

interpretation write_kind: dev_kind write_slot
  by unfold_locales (simp_all add: write_slot_def)

interpretation read_kind: dev_kind read_slot
  by unfold_locales (auto simp: read_slot_def split: option.splits)

lemma device_ok: "ascending None (device_fields sl d)" "length (device_fields sl d) = device_pairs sl d"
  "item_depth (map_item (device_fields sl d)) \<le> 2"
proof -
  show "ascending None (device_fields sl d)" "length (device_fields sl d) = device_pairs sl d"
    by (cases "slot_dev sl (de_dev d)"; cases "de_addr d"; cases "de_parent d"; simp add: device_fields_def device_pairs_def good_key_def)+
  have "shallow 1 (device_fields sl d)"
    using options_ok(3) [of "de_options d"]
    by (cases "slot_dev sl (de_dev d)"; cases "de_addr d"; cases "de_parent d"; simp add: device_fields_def)
  then show "item_depth (map_item (device_fields sl d)) \<le> 2"
    using depth_map_item [of 1 "device_fields sl d"] by simp
qed

lemma device_writes: "writes_item (device_encode sl d) (map_item (device_fields sl d))"
  unfolding device_encode_def
  apply (rule writes_map)
  subgoal unfolding device_fields_def buses_key_number.simps by (intro item_rules writes_append options_writes)
  by (simp_all add: device_ok)

lemma device_field_simps:
  "device_field s 1 = andthen (map_err Ce_Cbor rd_u16) (\<lambda>v. andthen (once (Ce_Duplicate (bk Bk_Dev)) (dq_dev s) v) (\<lambda>t. ret (s\<lparr>dq_dev := t\<rparr>)))"
  "device_field s 2 = andthen (map_err Ce_Cbor rd_u8) (\<lambda>v. andthen (once (Ce_Duplicate (bk Bk_DeviceBus)) (dq_bus s) v) (\<lambda>t. ret (s\<lparr>dq_bus := t\<rparr>)))"
  "device_field s 3 = andthen (map_err Ce_Cbor rd_byte_string) (\<lambda>v. andthen (once (Ce_Duplicate (bk Bk_Addr)) (dq_addr s) v) (\<lambda>t. ret (s\<lparr>dq_addr := t\<rparr>)))"
  "device_field s 4 = andthen (map_err Ce_Cbor rd_u16) (\<lambda>v. andthen (once (Ce_Duplicate (bk Bk_Product)) (dq_product s) v) (\<lambda>t. ret (s\<lparr>dq_product := t\<rparr>)))"
  "device_field s 5 = andthen (map_err Ce_Cbor rd_u16) (\<lambda>v. andthen (once (Ce_Duplicate (bk Bk_Dialect)) (dq_dialect s) v) (\<lambda>t. ret (s\<lparr>dq_dialect := t\<rparr>)))"
  "device_field s 6 = andthen (map_err Ce_Cbor rd_u16) (\<lambda>v. andthen (once (Ce_Duplicate (bk Bk_Role)) (dq_role s) v) (\<lambda>t. ret (s\<lparr>dq_role := t\<rparr>)))"
  "device_field s 7 = andthen (map_err Ce_Cbor rd_u16) (\<lambda>v. andthen (once (Ce_Duplicate (bk Bk_Parent)) (dq_parent s) v) (\<lambda>t. ret (s\<lparr>dq_parent := t\<rparr>)))"
  "device_field s 8 = andthen (options_decode (dq_invalid s)) (\<lambda>(read, invalid).
     andthen (once (Ce_Duplicate (bk Bk_Options)) (dq_options s) read) (\<lambda>t. ret (s\<lparr>dq_options := t, dq_invalid := invalid\<rparr>)))"
  by (simp_all add: device_field_def)

lemma device_options_read:
  assumes "o' \<noteq> NO_OPTIONS" and "dq_options s = None"
  shows "reads_item (device_field s 8) (map_item (options_fields o')) (s\<lparr>dq_options := Some o'\<rparr>)"
  unfolding device_field_simps
  by (rule reads_then [OF options_reads_item [OF assms(1)]]) (simp add: once_def assms(2) ret_def [abs_def])

lemma device_reads: "reads_pairs device_field (device_fields sl d) (device_empty invalid)
    \<lparr>dq_dev = slot_dev sl (de_dev d), dq_bus = Some (de_bus d), dq_addr = de_addr d, dq_product = Some (de_product d),
     dq_dialect = Some (de_dialect d), dq_role = Some (de_role d), dq_parent = de_parent d,
     dq_options = (if de_options d \<noteq> NO_OPTIONS then Some (de_options d) else None), dq_invalid = invalid\<rparr>"
  by (cases "slot_dev sl (de_dev d)"; cases "de_addr d"; cases "de_parent d"; cases "de_options d \<noteq> NO_OPTIONS";
      simp add: device_fields_def del: reads_pairs.simps; rule reads_eq,
      (rule reads_Nil | rule reads_Cons | rule device_options_read | simp only: device_field_simps(1-7) | rule slot_rules | rule item_rules
        | assumption | simp add: device_empty_def; fail)+)

context dev_kind
begin

lemma device_completes:
  assumes "device_valid sl d"
  shows "device_complete sl \<lparr>dq_dev = slot_dev sl (de_dev d), dq_bus = Some (de_bus d), dq_addr = de_addr d, dq_product = Some (de_product d),
     dq_dialect = Some (de_dialect d), dq_role = Some (de_role d), dq_parent = de_parent d,
     dq_options = (if de_options d \<noteq> NO_OPTIONS then Some (de_options d) else None), dq_invalid = invalid\<rparr> = ret (d, invalid)"
proof -
  have "dev_decoded sl (slot_dev sl (de_dev d)) invalid = Inr (de_dev d, invalid)"
    using assms own [of "de_dev d"] by (cases "slot_dev sl (de_dev d)") (simp_all add: dev_decoded_def device_valid_def dev_id_new_def unless_ok_def)
  moreover have "judged (unless_ok \<circ> addr_new) (de_addr d) invalid = (de_addr d, invalid)"
    using assms by (cases "de_addr d") (auto simp: judged_def unless_ok_def addr_new_def device_valid_def)
  moreover have "judged (unless_ok \<circ> parent_new) (de_parent d) invalid = (de_parent d, invalid)"
    using assms by (cases "de_parent d") (auto simp: judged_def unless_ok_def parent_new_def dev_id_new_def device_valid_def)
  ultimately show ?thesis
    by (cases d) (simp add: device_complete_def ret_def [abs_def])
qed

lemma device_reads_item:
  assumes "device_valid sl d"
  shows "reads_item (device_decode sl invalid) (map_item (device_fields sl d)) (d, invalid)"
  unfolding device_decode_def
  by (rule reads_then [OF reads_map [OF device_reads device_ok(1)]]) (rule device_completes [OF assms])

end

section \<open>The section on the wire\<close>

definition section_fields :: "'d dev_slot \<Rightarrow> 'd buses_devices \<Rightarrow> (int \<times> item) list" where
  "section_fields sl s =
     [(1, IArray (map (\<lambda>e. map_item (bus_fields e)) (bd_buses s))), (2, IArray (map (\<lambda>d. map_item (device_fields sl d)) (bd_devices s)))]"

text \<open>A section that could have been sent: entries that can be, in their number, and ascending in an answer.\<close>

definition entries_valid :: "'d dev_slot \<Rightarrow> 'd buses_devices \<Rightarrow> bool" where
  "entries_valid sl s \<longleftrightarrow> list_all bus_valid (bd_buses s) \<and> list_all (device_valid sl) (bd_devices s)"

definition section_valid :: "'d dev_slot \<Rightarrow> 'd buses_devices \<Rightarrow> bool" where
  "section_valid sl s \<longleftrightarrow> entries_valid sl s \<and> length (bd_buses s) \<le> MAX_CONFIG_BUSES \<and> length (bd_devices s) \<le> MAX_CONFIG_DEVICES \<and>
     section_ascending sl s = Inr ()"

lemma section_ok: "ascending None (section_fields sl s)" "shallow 7 (section_fields sl s)" "length (section_fields sl s) = 2"
  "known 2 (section_fields sl s)"
proof -
  have "level_room 2 (map (\<lambda>e. map_item (bus_fields e)) (bd_buses s))" "level_room 2 (map (\<lambda>d. map_item (device_fields sl d)) (bd_devices s))"
    using device_ok(3) by (auto simp: level_room_def bus_ok(3))
  then have "item_depth (IArray (map (\<lambda>e. map_item (bus_fields e)) (bd_buses s))) \<le> Suc 2"
    "item_depth (IArray (map (\<lambda>d. map_item (device_fields sl d)) (bd_devices s))) \<le> Suc 2"
    by (auto dest: array_depth simp del: item_depth.simps)
  then show "shallow 7 (section_fields sl s)"
    by (simp add: section_fields_def del: item_depth.simps)
qed (simp_all add: section_fields_def good_key_def)

lemma section_writes: "writes_pairs (section_pairs sl s) (section_fields sl s)"
  unfolding section_pairs_def section_fields_def buses_key_number.simps
  by (intro item_rules writes_array [where err = "\<lambda>e. e", unfolded map_err_id] bus_writes device_writes) simp_all

lemma section_field_simps:
  "section_field sl s 1 = andthen (once (Ce_Duplicate (bk Bk_Buses)) (sq_buses s) ()) (\<lambda>t.
     andthen (map_err Ce_Cbor rd_array) (\<lambda>n. repeat_act n bus_step (s\<lparr>sq_buses := t\<rparr>)))"
  "section_field sl s 2 = andthen (once (Ce_Duplicate (bk Bk_Devices)) (sq_devices s) ()) (\<lambda>t.
     andthen (map_err Ce_Cbor rd_array) (\<lambda>n. repeat_act n (device_step sl) (s\<lparr>sq_devices := t\<rparr>)))"
  "2 < k \<Longrightarrow> section_field sl s k = skipped Ce_Cbor s"
  by (simp_all add: section_field_def)

text \<open>Entries past the cap are read and noted, whatever number of them.\<close>

definition buses_read :: "'d section_slots \<Rightarrow> bus_entry list \<Rightarrow> 'd section_slots" where
  "buses_read s es = s\<lparr>sq_section := (sq_section s)\<lparr>bd_buses := take MAX_CONFIG_BUSES es\<rparr>,
     sq_invalid := (if MAX_CONFIG_BUSES < length es then note_why (Ce_TooMany (bk Bk_Buses)) (sq_invalid s) else sq_invalid s)\<rparr>"

definition devices_read :: "'d section_slots \<Rightarrow> 'd device_entry list \<Rightarrow> 'd section_slots" where
  "devices_read s ds = s\<lparr>sq_section := (sq_section s)\<lparr>bd_devices := take MAX_CONFIG_DEVICES ds\<rparr>,
     sq_invalid := (if MAX_CONFIG_DEVICES < length ds then note_why (Ce_TooMany (bk Bk_Devices)) (sq_invalid s) else sq_invalid s)\<rparr>"

lemma noted_twice: "note_why why (note_why why invalid) = note_why why invalid"
  by (cases invalid) (simp_all add: note_why_def)

lemma buses_reads:
  assumes "list_all bus_valid es" and "bd_buses (sq_section s) = []"
  shows "reads_items bus_step (map (\<lambda>e. map_item (bus_fields e)) es) s (buses_read s es)"
proof -
  have "reads_items bus_step (map (\<lambda>e. map_item (bus_fields e)) es) (buses_read s []) (buses_read s es)"
  proof (rule reads_items_map)
    fix i acc assume i: "i < length es" "acc = buses_read s (take i es)"
    have "bus_valid (es ! i)"
      using assms(1) i(1) by (simp add: list_all_length)
    from bus_reads_item [OF this, of "sq_invalid acc"]
    show "reads_item (bus_step acc) (map_item (bus_fields (es ! i))) (buses_read s (take (Suc i) es))"
      unfolding bus_step_def
    proof (rule reads_then)
      show "(case (es ! i, sq_invalid acc) of (entry, invalid) \<Rightarrow> ret (pushed Bk_Buses (push_bus entry (sq_section acc)) invalid acc)) =
          ret (buses_read s (take (Suc i) es))"
        using i by (cases "i < MAX_CONFIG_BUSES")
          (auto simp: buses_read_def pushed_def push_bus_def take_Suc_conv_app_nth noted_twice min_def take_take not_less less_Suc_eq)
    qed
  qed
  moreover have "buses_read s [] = s"
    using assms(2) by (cases s; cases "sq_section s") (simp add: buses_read_def)
  ultimately show ?thesis
    by simp
qed

context dev_kind
begin

lemma devices_reads:
  assumes "list_all (device_valid sl) ds" and "bd_devices (sq_section s) = []"
  shows "reads_items (device_step sl) (map (\<lambda>d. map_item (device_fields sl d)) ds) s (devices_read s ds)"
proof -
  have "reads_items (device_step sl) (map (\<lambda>d. map_item (device_fields sl d)) ds) (devices_read s []) (devices_read s ds)"
  proof (rule reads_items_map)
    fix i acc assume i: "i < length ds" "acc = devices_read s (take i ds)"
    have "device_valid sl (ds ! i)"
      using assms(1) i(1) by (simp add: list_all_length)
    from device_reads_item [OF this, of "sq_invalid acc"]
    show "reads_item (device_step sl acc) (map_item (device_fields sl (ds ! i))) (devices_read s (take (Suc i) ds))"
      unfolding device_step_def
    proof (rule reads_then)
      show "(case (ds ! i, sq_invalid acc) of (entry, invalid) \<Rightarrow> ret (pushed Bk_Devices (push_device entry (sq_section acc)) invalid acc)) =
          ret (devices_read s (take (Suc i) ds))"
        using i by (cases "i < MAX_CONFIG_DEVICES")
          (auto simp: devices_read_def pushed_def push_device_def take_Suc_conv_app_nth noted_twice min_def take_take not_less less_Suc_eq)
    qed
  qed
  moreover have "devices_read s [] = s"
    using assms(2) by (cases s; cases "sq_section s") (simp add: devices_read_def)
  ultimately show ?thesis
    by simp
qed

lemma section_reads:
  assumes "entries_valid sl s"
  shows "reads_pairs (section_field sl) (section_fields sl s) section_start
    \<lparr>sq_buses = Some (), sq_devices = Some (),
     sq_section = \<lparr>bd_buses = take MAX_CONFIG_BUSES (bd_buses s), bd_devices = take MAX_CONFIG_DEVICES (bd_devices s)\<rparr>,
     sq_invalid = (if MAX_CONFIG_BUSES < length (bd_buses s) then Some (Ce_TooMany (bk Bk_Buses))
       else if MAX_CONFIG_DEVICES < length (bd_devices s) then Some (Ce_TooMany (bk Bk_Devices)) else None)\<rparr>"
proof -
  let ?first = "section_start\<lparr>sq_buses := Some ()\<rparr> :: 'd section_slots"
  let ?next = "buses_read ?first (bd_buses s)\<lparr>sq_devices := Some ()\<rparr>"
  have once: "andthen (once e None ()) f = f (Some ())" for e and f :: "unit option \<Rightarrow> (reader, config_error, 'd section_slots) act"
    by (simp add: once_def)
  have "reads_item (section_field sl section_start 1) (IArray (map (\<lambda>e. map_item (bus_fields e)) (bd_buses s))) (buses_read ?first (bd_buses s))"
    unfolding section_field_simps
    using buses_reads [of "bd_buses s" ?first] assms
    by (simp add: once section_start_def EMPTY_SECTION_def entries_valid_def reads_array)
  moreover have "reads_item (section_field sl (buses_read ?first (bd_buses s)) 2)
      (IArray (map (\<lambda>d. map_item (device_fields sl d)) (bd_devices s))) (devices_read ?next (bd_devices s))"
    unfolding section_field_simps
    using devices_reads [of "bd_devices s" ?next] assms
    by (simp add: once section_start_def EMPTY_SECTION_def entries_valid_def buses_read_def reads_array)
  moreover have "devices_read ?next (bd_devices s) = \<lparr>sq_buses = Some (), sq_devices = Some (),
     sq_section = \<lparr>bd_buses = take MAX_CONFIG_BUSES (bd_buses s), bd_devices = take MAX_CONFIG_DEVICES (bd_devices s)\<rparr>,
     sq_invalid = (if MAX_CONFIG_BUSES < length (bd_buses s) then Some (Ce_TooMany (bk Bk_Buses))
       else if MAX_CONFIG_DEVICES < length (bd_devices s) then Some (Ce_TooMany (bk Bk_Devices)) else None)\<rparr>"
    by (simp add: devices_read_def buses_read_def section_start_def EMPTY_SECTION_def note_why_def)
  ultimately show ?thesis
    by (auto simp: section_fields_def)
qed

end

section \<open>What decodes could have been sent\<close>

text \<open>Nothing held back means that nothing was noted before either, and that the entry is as it should be.\<close>

lemma note_why_Some [simp]: "note_why why invalid \<noteq> None"
  by (cases invalid) (simp_all add: note_why_def)

lemma unless_some_None: "unless_some key v invalid = (x, None) \<longleftrightarrow> invalid = None \<and> x = v \<and> v \<noteq> None"
  by (auto simp: unless_some_def)

lemma unless_ok_None: "unless_ok v invalid = (x, None) \<longleftrightarrow> invalid = None \<and> (\<exists>w. v = Inr w \<and> x = Some w)"
  by (auto simp: unless_ok_def split: sum.splits)

lemma judged_None: "judged judge slot invalid = (x, None) \<longleftrightarrow>
    (case slot of None \<Rightarrow> x = None \<and> invalid = None | Some v \<Rightarrow> judge v invalid = (x, None))"
  by (auto simp: judged_def split: option.splits)

lemma bus_yields: "yields (\<lambda>(e, invalid'). invalid' = None \<longrightarrow> invalid = None \<and> bus_valid e) (bus_decode invalid)"
  unfolding bus_decode_def
proof (rule yields_then)
  fix s
  show "yields (\<lambda>(e, invalid'). invalid' = None \<longrightarrow> invalid = None \<and> bus_valid e) (bus_complete invalid s)"
    unfolding bus_complete_def
    by (rule yields_then) (auto simp: bus_valid_def judged_None unless_some_None nonzero_rate_def Let_def
        split: prod.splits option.splits if_splits)
qed

lemma options_yields: "yields (\<lambda>(o', invalid'). invalid' = None \<longrightarrow> invalid = None) (options_decode invalid)"
proof -
  let ?P = "\<lambda>s. oq_invalid s = None \<longrightarrow> invalid = None"
  have step: "yields ?P (options_field s k)" if "?P s" for s k
    unfolding options_field_def Let_def
    using that by (auto split: option.split device_option.split simp: skipped_def intro!: yields_then)
  have "direction_judged v i = (d, None) \<Longrightarrow> i = None" for v i d
    by (cases v) auto
  then have judged: "judged direction_judged slot i = (d, None) \<Longrightarrow> i = None" for slot i d
    by (auto simp: judged_None split: option.splits)
  show ?thesis
    unfolding options_decode_def
    by (rule yields_then) (auto intro!: yields_andthen [OF yields_pairs_loop [where P = ?P, OF _ step]]
        simp: options_complete_def split: prod.splits dest: judged)
qed

context dev_kind
begin

lemma device_yields: "yields (\<lambda>(d, invalid'). invalid' = None \<longrightarrow> invalid = None \<and> device_valid sl d) (device_decode sl invalid)"
proof -
  let ?P = "\<lambda>s. dq_invalid s = None \<longrightarrow> invalid = None"
  have step: "yields ?P (device_field s k)" if "?P s" for s k
    unfolding device_field_def
    using that by (auto simp: skipped_def intro!: yields_then yields_andthen [OF options_yields])
  have dev: "dev_decoded sl slot i = Inr (d, None) \<Longrightarrow> i = None \<and> slot_dev sl d \<noteq> Some 0" for slot i d
    using decoded by (auto simp: dev_decoded_def unless_ok_def dev_id_new_def split: option.splits sum.splits if_splits)
  have parent: "parent_new raw = Inr w \<Longrightarrow> w \<noteq> 0" for raw w
    by (auto simp: parent_new_def dev_id_new_def split: if_splits)
  have complete: "yields (\<lambda>(d, invalid'). invalid' = None \<longrightarrow> invalid = None \<and> device_valid sl d) (device_complete sl s)" if "?P s" for s
    unfolding device_complete_def
  proof (rule yields_then, rule yields_then, rule yields_then, rule yields_then)
    fix product dialect role bus
    have "yields (\<lambda>(d, i). i = None \<longrightarrow> dq_invalid s = None \<and> slot_dev sl d \<noteq> Some 0) (lift_sum (dev_decoded sl (dq_dev s) (dq_invalid s)))"
      by (auto simp: yields_def lift_sum_def dest: dev split: sum.splits)
    then show "yields (\<lambda>(d, invalid'). invalid' = None \<longrightarrow> invalid = None \<and> device_valid sl d)
        (andthen (lift_sum (dev_decoded sl (dq_dev s) (dq_invalid s))) (\<lambda>(dev, invalid). ret
       (let (addr, invalid) = judged (unless_ok \<circ> addr_new) (dq_addr s) invalid;
            (parent, invalid) = judged (unless_ok \<circ> parent_new) (dq_parent s) invalid
        in (\<lparr>de_dev = dev, de_bus = bus, de_addr = addr, de_product = product, de_dialect = dialect, de_role = role,
             de_parent = parent, de_options = (case dq_options s of Some o' \<Rightarrow> o' | None \<Rightarrow> NO_OPTIONS)\<rparr>, invalid))))"
      by (rule yields_andthen)
        (use that in \<open>auto simp: judged_None unless_ok_None addr_new_def device_valid_def Let_def dest: parent split: prod.splits option.splits if_splits\<close>)
  qed
  show ?thesis
    unfolding device_decode_def map_fields_def andthen_assoc
    by (rule yields_then, rule yields_andthen [OF yields_pairs_loop [where P = ?P, OF _ step]]) (use complete in \<open>auto simp: device_empty_def\<close>)
qed

definition section_kept :: "'d section_slots \<Rightarrow> bool" where
  "section_kept s \<longleftrightarrow> length (bd_buses (sq_section s)) \<le> MAX_CONFIG_BUSES \<and> length (bd_devices (sq_section s)) \<le> MAX_CONFIG_DEVICES \<and>
     (sq_invalid s = None \<longrightarrow> entries_valid sl (sq_section s))"

lemma section_keeps:
  assumes "section_kept s"
  shows "yields section_kept (section_field sl s k)"
proof -
  have loop: "yields section_kept (repeat_act n step s)" if "section_kept s" "\<And>s. section_kept s \<Longrightarrow> yields section_kept (step s)" for n step s
    using that(1)
  proof (induction n arbitrary: s)
    case (Suc n)
    then show ?case
      unfolding repeat_act.simps by (intro yields_andthen [OF that(2)]) auto
  qed simp
  have bus: "yields section_kept (bus_step s)" if "section_kept s" for s
    unfolding bus_step_def
    by (rule yields_andthen [OF bus_yields])
      (use that in \<open>auto simp: section_kept_def pushed_def push_bus_def entries_valid_def split: if_splits\<close>)
  have device: "yields section_kept (device_step sl s)" if "section_kept s" for s
    unfolding device_step_def
    by (rule yields_andthen [OF device_yields])
      (use that in \<open>auto simp: section_kept_def pushed_def push_device_def entries_valid_def split: if_splits\<close>)
  show ?thesis
    unfolding section_field_def
    using assms by (auto intro!: yields_then loop bus device simp: skipped_def section_kept_def)
qed

end

sublocale dev_kind \<subseteq> body: faithful_codec "section_encode sl" "section_decode sl" "section_fields sl" "section_valid sl" 2
proof
  fix x and dst :: bytes
  assume x: "section_valid sl x" "length (map_bytes (section_fields sl x)) \<le> length dst" "length dst \<le> usize_max"
  then show "section_encode sl x dst = (Inr (length (map_bytes (section_fields sl x))), splice dst 0 (map_bytes (section_fields sl x)))"
    unfolding section_encode_def section_valid_def
    using encodes_fields [OF section_writes section_ok(1,2) _ x(2,3), of 2 Ce_Cbor] by (simp add: section_ok(3))
next
  fix x fs
  assume x: "section_valid sl x" "extends 2 INNER fs" "length (map_bytes (section_fields sl x @ fs)) \<le> usize_max"
  then have valid: "entries_valid sl x" "length (bd_buses x) \<le> MAX_CONFIG_BUSES" "length (bd_devices x) \<le> MAX_CONFIG_DEVICES"
    "section_ascending sl x = Inr ()"
    by (simp_all add: section_valid_def)
  have whole: "\<lparr>bd_buses = bd_buses x, bd_devices = bd_devices x\<rparr> = x"
    by simp
  show "section_decode sl (map_bytes (section_fields sl x @ fs)) = Inr x"
    unfolding section_decode_def
    by (rule decodes_fields [OF section_reads [OF valid(1)] section_ok(1,2,4) x(2) _ x(3)])
      (use valid in \<open>auto intro!: runs_andthen runs_finishing simp: section_field_simps section_complete_def invalid_result_def whole\<close>)
next
  fix bs x assume "section_decode sl bs = Inr x"
  then obtain slots s t where "section_kept slots" "section_complete sl slots s = (Inr x, t)"
    unfolding section_decode_def
    by (rule body_InrE [where P = section_kept], simp add: section_kept_def section_start_def EMPTY_SECTION_def entries_valid_def)
      (blast intro: yieldsD [OF section_keeps])
  then show "section_valid sl x"
    by (auto simp: section_complete_def section_kept_def section_valid_def invalid_result_def elim!: andthen_InrE lift_sum_InrE split: option.splits)
qed


section \<open>Sizes\<close>

lemma bus_size: "length (enc_item (map_item (bus_fields e))) \<le> 16"
  using width_narrow(1) [of "be_bus e"] width_narrow(3) [of "the (be_rate e)"]
  by (cases "be_rate e"; cases "be_data_bits e"; cases "be_parity e"; cases "be_stop_bits e";
      cases "the (be_data_bits e)"; cases "the (be_parity e)"; cases "the (be_stop_bits e)")
    (simp_all add: bus_fields_def map_bytes_def [symmetric] map_bytes_eq)

lemma options_size: "length (enc_item (map_item (options_fields o'))) \<le> 13"
  using width_narrow(3) [of "the (do_poll_period_ms o')"]
  by (cases "do_current_direction o'"; cases "do_pylontech_version o'"; cases "do_ve_direct_3v3 o'"; cases "do_poll_period_ms o'";
      cases "the (do_current_direction o')"; cases "the (do_pylontech_version o')")
    (simp_all add: options_fields_def map_bytes_def [symmetric] map_bytes_eq)

lemma device_size:
  assumes "device_valid sl d"
  shows "length (enc_item (map_item (device_fields sl d))) \<le> 48"
proof -
  have addr: "length (enc_item (IBytes a)) \<le> 9" if "de_addr d = Some a" for a
    using assms that by (simp add: device_valid_def MAX_ADDR_def width_of_def word_less_nat_alt unat_of_nat take_bit_nat_eq_self)
  show ?thesis
    using addr options_size [of "de_options d"] width_narrow(1) [of "de_bus d"]
      width_narrow(2) [of "the (slot_dev sl (de_dev d))"] width_narrow(2) [of "de_product d"] width_narrow(2) [of "de_dialect d"]
      width_narrow(2) [of "de_role d"] width_narrow(2) [of "the (de_parent d)"]
    by (cases "slot_dev sl (de_dev d)"; cases "de_addr d"; cases "de_parent d"; cases "de_options d \<noteq> NO_OPTIONS")
      (simp_all add: device_fields_def map_bytes_def [symmetric] map_bytes_eq)
qed

lemma section_size:
  assumes "section_valid sl s"
  shows "length (map_bytes (section_fields sl s)) \<le> MAX_BUSES_AND_DEVICES_BYTES"
proof -
  have caps: "length (bd_buses s) \<le> 8" "length (bd_devices s) \<le> 16" "list_all (device_valid sl) (bd_devices s)"
    using assms by (simp_all add: section_valid_def entries_valid_def MAX_CONFIG_BUSES_def MAX_CONFIG_DEVICES_def)
  have "length (item_list_bytes (map (\<lambda>e. map_item (bus_fields e)) (bd_buses s))) \<le> length (bd_buses s) * 16"
    by (rule item_list_size) (rule bus_size)
  moreover have "length (item_list_bytes (map (\<lambda>d. map_item (device_fields sl d)) (bd_devices s))) \<le> length (bd_devices s) * 48"
    using caps(3) by (intro item_list_size device_size) (simp add: list_all_iff)
  moreover have "width_bytes (width_of (of_nat (length (bd_buses s)))) = 0" "width_bytes (width_of (of_nat (length (bd_devices s)))) = 0"
    using caps(1,2) by (simp_all add: width_of_def word_less_nat_alt unat_of_nat take_bit_nat_eq_self)
  ultimately show ?thesis
    using caps(1,2) by (simp add: section_fields_def map_bytes_eq array_bytes MAX_BUSES_AND_DEVICES_BYTES_def del: enc_item.simps)
qed

section \<open>Structure before values\<close>

lemma bus_fails: "fails_only malformed (bus_decode invalid)"
  unfolding bus_decode_def bus_field_def bus_complete_def by (intro fails_rules) (auto intro!: fails_rules)

lemma options_fails: "fails_only malformed (options_decode invalid)"
proof -
  have "fails_only malformed (options_field s k)" for s k
    unfolding options_field_def Let_def by (auto intro!: fails_rules split: option.split device_option.split)
  then show ?thesis
    unfolding options_decode_def by (auto intro!: fails_rules fails_pairs_loop)
qed

context dev_kind
begin

lemma device_fails: "fails_only malformed (device_decode sl invalid)"
proof -
  have "fails_only malformed (device_field s k)" for s k
    unfolding device_field_def by (auto intro!: fails_rules options_fails)
  moreover have "malformed why" if "dev_decoded sl slot i = Inl why" for slot i why
    using that by (auto simp: dev_decoded_def unless_ok_def Let_def split: option.splits sum.splits prod.splits intro: refuses)
  ultimately show ?thesis
    unfolding device_decode_def device_complete_def by (intro fails_rules) (auto intro!: fails_rules)
qed

lemma fails_repeat: "(\<And>s. fails_only P (step s)) \<Longrightarrow> fails_only P (repeat_act n step s)"
  by (induction n arbitrary: s) (auto intro!: fails_rules)

lemma section_field_fails: "fails_only malformed (section_field sl s k)"
proof -
  have "fails_only malformed (bus_step s)" "fails_only malformed (device_step sl s)" for s
    unfolding bus_step_def device_step_def by (auto intro!: fails_rules bus_fails device_fails)
  then show ?thesis
    unfolding section_field_def by (auto intro!: fails_rules fails_repeat)
qed

text \<open>A value is refused only once the body has been read to its end, and then for the first thing noted.\<close>

lemma refused_late:
  assumes "section_decode sl bs = Inl why" and "config_answer why = RefuseOutcome outcome"
  shows "outcome = Sco_Invalid \<and> (\<exists>s. decoding (andthen (map_fields Ce_Cbor (section_field sl) section_start)
    (\<lambda>s. andthen (finishing Ce_Cbor) (\<lambda>_. ret s))) bs = Inr s \<and> sq_invalid s = Some why)"
proof -
  have not: "\<not> malformed why"
    using assms(2) by (simp add: malformed_def)
  obtain s r where s: "decoding (andthen (map_fields Ce_Cbor (section_field sl) section_start) (\<lambda>s. andthen (finishing Ce_Cbor) (\<lambda>_. ret s))) bs = Inr s"
    and end_: "fst (section_complete sl s r) = Inl why"
    by (rule refused_after_reading [OF assms(1) [unfolded section_decode_def], of malformed]) (use not in \<open>auto intro: section_field_fails\<close>)
  have "section_ascending sl x = Inl e \<Longrightarrow> malformed e" for x e
    by (auto simp: section_ascending_def split: if_splits)
  then have "sq_invalid s = Some why"
    using end_ not by (auto simp: section_complete_def invalid_result_def andthen_def ok_or_def lift_sum_def fail_def ret_def
        split: option.splits sum.splits prod.splits)
  moreover have "outcome = Sco_Invalid"
    using assms(2) by (cases why) auto
  ultimately show ?thesis
    using s by blast
qed

text \<open>Entries past a cap are never dropped.\<close>

lemma too_many:
  assumes "entries_valid sl s" and "extends 2 INNER fs" and "length (map_bytes (section_fields sl s @ fs)) \<le> usize_max"
    and "MAX_CONFIG_BUSES < length (bd_buses s) \<or> MAX_CONFIG_DEVICES < length (bd_devices s)"
  shows "section_decode sl (map_bytes (section_fields sl s @ fs)) =
    Inl (Ce_TooMany (bk (if MAX_CONFIG_BUSES < length (bd_buses s) then Bk_Buses else Bk_Devices)))"
  unfolding section_decode_def
  by (rule decodes_fields_sum [OF section_reads [OF assms(1)] section_ok(1,2,4) assms(2) _ assms(3)])
    (use assms(4) in \<open>auto simp: finishing_done section_field_simps section_complete_def invalid_result_def\<close>)

end

section \<open>Properties\<close>

text \<open>What a write can be accepted as, the controller can answer with: its ids are given ones or new ones, none 0.\<close>

lemma accept_valid:
  assumes "section_accept w rules was alloc = Inr (s, alloc')" and "section_valid write_slot w" and "section_valid read_slot was"
    and "alloc \<noteq> Some 0"
  shows "section_valid read_slot s"
proof -
  obtain ids where ids: "length ids = length (bd_devices w)" "bd_devices s = sort_key de_dev (map2 with_dev ids (bd_devices w))"
    "bd_buses s = sort_key be_bus (bd_buses w)"
    using accept_spec [OF assms(1)] by blast
  have dev: "de_dev d \<noteq> 0" if "d \<in> set (bd_devices s)" for d
    using accept_ids(3) [OF assms(1) that] assms(3,4)
    by (auto simp: section_valid_def entries_valid_def device_valid_def read_slot_def list_all_iff id_bound_def unat_eq_0 split: option.splits)
  have "device_valid read_slot d" if d: "d \<in> set (bd_devices s)" for d
  proof -
    obtain e where e: "e \<in> set (bd_devices w)" "d = with_dev (de_dev d) e"
      using accept_ids(4) [OF assms(1) d] by blast
    then have "device_valid write_slot e"
      using assms(2) by (simp add: section_valid_def entries_valid_def list_all_iff)
    moreover have "de_addr d = de_addr e" "de_parent d = de_parent e"
      using arg_cong [OF e(2), of de_addr] arg_cong [OF e(2), of de_parent] by (simp_all add: with_dev_def)
    ultimately show ?thesis
      using dev [OF d] by (simp add: device_valid_def read_slot_def)
  qed
  moreover have "length (bd_devices s) = length (bd_devices w)"
    using ids(1,2) by simp
  ultimately show ?thesis
    using assms(2) ids(3) accept_answers [OF assms(1)] by (simp add: section_valid_def entries_valid_def list_all_iff)
qed

text \<open>C2. A section written by a client reaches the controller whole and within the size the limits are derived
  from; what the controller makes of it, ids and all, goes back in the answer the same way, so the client
  reads exactly the section the controller holds, and the next write meets the same conditions.\<close>

theorem section_written_and_answered:
  assumes "section_valid write_slot w" and "section_valid read_slot was" and "alloc \<noteq> Some 0"
    and "section_accept w rules was alloc = Inr (s, alloc')"
    and "MAX_BUSES_AND_DEVICES_BYTES \<le> length dst" and "length dst \<le> usize_max"
  shows "\<exists>n out m back. section_encode write_slot w dst = (Inr n, out) \<and> n \<le> MAX_BUSES_AND_DEVICES_BYTES \<and>
    section_decode write_slot (take n out) = Inr w \<and> section_encode read_slot s dst = (Inr m, back) \<and>
    m \<le> MAX_BUSES_AND_DEVICES_BYTES \<and> section_decode read_slot (take m back) = Inr s \<and> section_valid read_slot s"
  using write_kind.body.fits [OF assms(1) section_size [OF assms(1)] assms(5,6)] accept_valid [OF assms(4,1-3)]
    read_kind.body.fits [OF _ section_size assms(5,6), of s] by blast

lemma section_written_and_answered_witness:
  "\<exists>s alloc' n out m back. section_accept example_addition example_rules EMPTY_SECTION FIRST = Inr (s, alloc') \<and>
    section_encode write_slot example_addition (replicate 901 0) = (Inr n, out) \<and> section_decode write_slot (take n out) = Inr example_addition \<and>
    section_encode read_slot s (replicate 901 0) = (Inr m, back) \<and> section_decode read_slot (take m back) = Inr s"
proof -
  obtain s where s: "section_accept example_addition example_rules EMPTY_SECTION FIRST = Inr (s, Some 2)"
    by (rule example_accepted)
  have "section_valid write_slot example_addition" "section_valid read_slot EMPTY_SECTION"
    by (simp_all add: section_valid_def entries_valid_def EMPTY_SECTION_def example_addition_def device_valid_def section_ascending_def
        write_slot_def MAX_CONFIG_DEVICES_def read_slot_def)
  then show ?thesis
    using section_written_and_answered [OF _ _ _ s, of "replicate 901 0"] s
    by (auto simp: FIRST_def MAX_BUSES_AND_DEVICES_BYTES_def usize_max_def)
qed

text \<open>C3. Structure before values. A body refused for a value was read to its end first, the refusal is
  \<open>invalid\<close> and names the first value noted; whatever is read is a section that could have been written; and a
  body of good entries past a cap, with any later keys behind it, is refused for their number, never cut.\<close>

theorem section_structure_before_values:
  assumes "entries_valid write_slot s" and "extends 2 INNER fs" and "length (map_bytes (section_fields write_slot s @ fs)) \<le> usize_max"
  shows "(section_decode write_slot bs = Inl why \<longrightarrow> config_answer why = RefuseOutcome outcome \<longrightarrow> outcome = Sco_Invalid \<and>
      (\<exists>slots. decoding (andthen (map_fields Ce_Cbor (section_field write_slot) section_start)
        (\<lambda>slots. andthen (finishing Ce_Cbor) (\<lambda>_. ret slots))) bs = Inr slots \<and> sq_invalid slots = Some why)) \<and>
    (section_decode write_slot bs = Inr x \<longrightarrow> section_valid write_slot x) \<and>
    section_decode write_slot (map_bytes (section_fields write_slot s @ fs)) =
      (if MAX_CONFIG_BUSES < length (bd_buses s) then Inl (Ce_TooMany (bk Bk_Buses))
       else if MAX_CONFIG_DEVICES < length (bd_devices s) then Inl (Ce_TooMany (bk Bk_Devices))
       else Inr s)"
proof -
  have "section_decode write_slot (map_bytes (section_fields write_slot s @ fs)) =
      (if MAX_CONFIG_BUSES < length (bd_buses s) then Inl (Ce_TooMany (bk Bk_Buses))
       else if MAX_CONFIG_DEVICES < length (bd_devices s) then Inl (Ce_TooMany (bk Bk_Devices)) else Inr s)"
  proof (cases "MAX_CONFIG_BUSES < length (bd_buses s) \<or> MAX_CONFIG_DEVICES < length (bd_devices s)")
    case True
    then show ?thesis
      using write_kind.too_many [OF assms True] by auto
  next
    case False
    then have "section_valid write_slot s"
      using assms(1) by (simp add: section_valid_def section_ascending_def write_slot_def)
    then show ?thesis
      using write_kind.body.decode_extended [OF _ assms(2,3)] False by simp
  qed
  then show ?thesis
    using write_kind.refused_late [of bs why outcome] write_kind.body.decode_valid [of bs x] by blast
qed

lemma section_structure_before_values_witness:
  "section_decode write_slot (map_bytes (section_fields write_slot
     \<lparr>bd_buses = replicate 9 \<lparr>be_bus = 1, be_rate = Some 9600, be_data_bits = None, be_parity = None, be_stop_bits = None\<rparr>, bd_devices = []\<rparr> @
     [(7, IBool True)])) = Inl (Ce_TooMany (bk Bk_Buses))"
proof -
  define e :: bus_entry where "e = \<lparr>be_bus = 1, be_rate = Some 9600, be_data_bits = None, be_parity = None, be_stop_bits = None\<rparr>"
  define s :: "dev_id option buses_devices" where "s = \<lparr>bd_buses = replicate 9 e, bd_devices = []\<rparr>"
  have "entries_valid write_slot s" "extends 2 INNER [(7, IBool True)]"
    by (simp_all add: entries_valid_def bus_valid_def list_all_iff good_key_def s_def e_def)
  moreover have "length (item_list_bytes (map (\<lambda>e. map_item (bus_fields e)) (bd_buses s))) \<le> 144"
    using item_list_size [of "bd_buses s" "\<lambda>e. map_item (bus_fields e)" 16] bus_size by (simp add: s_def)
  then have "length (map_bytes (section_fields write_slot s @ [(7, IBool True)])) \<le> usize_max"
    using width_bytes_le [of "width_of (of_nat (length (bd_buses s)))"]
    by (simp add: section_fields_def map_bytes_eq array_bytes usize_max_def s_def del: enc_item.simps(1,2))
  ultimately have "section_decode write_slot (map_bytes (section_fields write_slot s @ [(7, IBool True)])) = Inl (Ce_TooMany (bk Bk_Buses))"
    using section_structure_before_values [of s "[(7, IBool True)]", THEN conjunct2, THEN conjunct2] by (simp add: MAX_CONFIG_BUSES_def s_def)
  then show ?thesis
    by (simp only: s_def e_def)
qed

end
