(* ===== verification/Quality.thy ===== *)
theory Quality
  imports Codec_Rules Row_Rules Refusal_Rules Boot
begin

text \<open>
  One reading, scalar or series, of \<open>crates/km43/src/readings.rs\<close>, with \<open>ident.rs\<close>: the \<open>q\<close> byte and what it
  says of the number beside it, and a row's shape checked the same way where it is built and where it is
  read. A \<open>SignalQuality\<close> is the byte that passed; an \<open>Id\<close> is the nonzero number.
\<close>

type_synonym signal_quality = u8
type_synonym ident = u16

section \<open>Errors\<close>

datatype id_error = Ie_Zero

definition ident_new :: "u16 \<Rightarrow> id_error + ident" where
  "ident_new v = (if v = 0 then Inl Ie_Zero else Inr v)"

datatype quality_error =
    Qe_NoValueToCarry validity
  | Qe_ValueOmitted validity
  | Qe_CarryingWithoutProvenance
  | Qe_StaleWithoutAge
  | Qe_AgeWithoutStaleness validity
  | Qe_Disagree validity provenance
  | Qe_UnknownValidity u8
  | Qe_UnknownProvenance u8
  | Qe_SeriesLength nat
  | Qe_ValueCount nat nat

definition quality_refusal :: "quality_error \<Rightarrow> refusal" where
  "quality_refusal why = RefuseClient Ec_MalformedFrame"

datatype readings_error =
    Re_Duplicate u8
  | Re_ZeroId
  | Re_SelectorNamesNotOne nat
  | Re_UnknownSelectorKey int
  | Re_TooManySelectors
  | Re_MissingRequest u8
  | Re_MissingResponse u8
  | Re_RowTooLong nat
  | Re_AnsweredNothing readings_outcome
  | Re_UnknownOutcome u8
  | Re_Quality quality_error
  | Re_Cbor cbor_error

primrec readings_error_of_id :: "id_error \<Rightarrow> readings_error" where
  "readings_error_of_id Ie_Zero = Re_ZeroId"

primrec readings_refusal :: "readings_error \<Rightarrow> refusal" where
  "readings_refusal (Re_RowTooLong _) = RefuseClient Ec_PayloadTooLarge"
| "readings_refusal (Re_Quality why) = quality_refusal why"
| "readings_refusal (Re_Duplicate _) = RefuseClient Ec_MalformedFrame"
| "readings_refusal Re_ZeroId = RefuseClient Ec_MalformedFrame"
| "readings_refusal (Re_SelectorNamesNotOne _) = RefuseClient Ec_MalformedFrame"
| "readings_refusal (Re_UnknownSelectorKey _) = RefuseClient Ec_MalformedFrame"
| "readings_refusal Re_TooManySelectors = RefuseClient Ec_MalformedFrame"
| "readings_refusal (Re_MissingRequest _) = RefuseClient Ec_MalformedFrame"
| "readings_refusal (Re_MissingResponse _) = RefuseClient Ec_MalformedFrame"
| "readings_refusal (Re_AnsweredNothing _) = RefuseClient Ec_MalformedFrame"
| "readings_refusal (Re_UnknownOutcome _) = RefuseClient Ec_MalformedFrame"
| "readings_refusal (Re_Cbor _) = RefuseClient Ec_MalformedFrame"

section \<open>The \<open>q\<close> byte\<close>

primrec has_value :: "validity \<Rightarrow> bool" where
  "has_value Va_Ok = True"
| "has_value Va_Stale = True"
| "has_value Va_Reset = True"
| "has_value Va_Initialising = False"
| "has_value Va_Unsupported = False"
| "has_value Va_SensorFault = False"
| "has_value Va_OutOfRange = False"
| "has_value Va_Absent = False"
| "has_value Va_UnnamedState = False"

definition quality_pack :: "validity \<Rightarrow> provenance \<Rightarrow> u8" where
  "quality_pack v p = push_bit 4 (validity_num v) OR provenance_num p"

definition carrying :: "validity \<Rightarrow> provenance \<Rightarrow> quality_error + signal_quality" where
  "carrying v p =
     (if \<not> has_value v then Inl (Qe_NoValueToCarry v)
      else if p = Pv_None then Inl Qe_CarryingWithoutProvenance
      else Inr (quality_pack v p))"

definition absent :: "validity \<Rightarrow> quality_error + signal_quality" where
  "absent v = (if has_value v then Inl (Qe_ValueOmitted v) else Inr (quality_pack v Pv_None))"

definition quality_validity :: "signal_quality \<Rightarrow> validity" where
  "quality_validity q =
     (let high = drop_bit 4 q in
      if high = 2 then Va_Stale
      else if high = 3 then Va_Initialising
      else if high = 4 then Va_Unsupported
      else if high = 5 then Va_SensorFault
      else if high = 6 then Va_OutOfRange
      else if high = 7 then Va_Absent
      else if high = 8 then Va_UnnamedState
      else if high = 9 then Va_Reset
      else Va_Ok)"

definition quality_provenance :: "signal_quality \<Rightarrow> provenance" where
  "quality_provenance q =
     (let low = q AND 0x0F in
      if low = 1 then Pv_Measured
      else if low = 2 then Pv_Counted
      else if low = 3 then Pv_Derived
      else if low = 4 then Pv_Estimated
      else if low = 5 then Pv_Reported
      else if low = 6 then Pv_Commanded
      else Pv_None)"

definition carries_value :: "signal_quality \<Rightarrow> bool" where
  "carries_value q = has_value (quality_validity q)"

definition quality_from_byte :: "u8 \<Rightarrow> quality_error + signal_quality" where
  "quality_from_byte raw =
     (case validity_of (drop_bit 4 raw) of
        None \<Rightarrow> Inl (Qe_UnknownValidity (drop_bit 4 raw))
      | Some v \<Rightarrow>
          (case provenance_of (raw AND 0x0F) of
             None \<Rightarrow> Inl (Qe_UnknownProvenance (raw AND 0x0F))
           | Some p \<Rightarrow> if has_value v = (p = Pv_None) then Inl (Qe_Disagree v p) else Inr raw))"

section \<open>A scalar reading\<close>

record sample =
  sm_sig :: ident
  sm_value :: "i32 option"
  sm_q :: signal_quality
  sm_age :: "u32 option"

definition sample_new :: "ident \<Rightarrow> signal_quality \<Rightarrow> i32 option \<Rightarrow> u32 option \<Rightarrow> quality_error + sample" where
  "sample_new sig q v age =
     (if carries_value q \<and> v = None then Inl (Qe_ValueOmitted (quality_validity q))
      else if \<not> carries_value q \<and> v \<noteq> None then Inl (Qe_NoValueToCarry (quality_validity q))
      else let stale = (quality_validity q = Va_Stale) in
        if stale \<and> age = None then Inl Qe_StaleWithoutAge
        else if \<not> stale \<and> age \<noteq> None then Inl (Qe_AgeWithoutStaleness (quality_validity q))
        else Inr \<lparr>sm_sig = sig, sm_value = v, sm_q = q, sm_age = age\<rparr>)"

definition sample_encode :: "sample \<Rightarrow> (writer, cbor_error, unit) act" where
  "sample_encode x =
     andthen (wr_map (2 + of_bool (sm_value x \<noteq> None) + of_bool (sm_age x \<noteq> None))) (\<lambda>_.
     andthen (wr_key 1) (\<lambda>_. andthen (wr_u64 (ucast (sm_sig x))) (\<lambda>_.
     andthen (case sm_value x of Some v \<Rightarrow> andthen (wr_key 2) (\<lambda>_. wr_i32 v) | None \<Rightarrow> ret ()) (\<lambda>_.
     andthen (wr_key 3) (\<lambda>_. andthen (wr_u64 (ucast (sm_q x))) (\<lambda>_.
     case sm_age x of Some age \<Rightarrow> andthen (wr_key 4) (\<lambda>_. wr_u64 (ucast age)) | None \<Rightarrow> ret ()))))))"

record sample_slots =
  smq_sig :: "ident option"
  smq_value :: "i32 option"
  smq_q :: "u8 option"
  smq_age :: "u32 option"

definition sample_empty :: sample_slots where
  "sample_empty = \<lparr>smq_sig = None, smq_value = None, smq_q = None, smq_age = None\<rparr>"

definition reading_id :: "u16 \<Rightarrow> readings_error + ident" where
  "reading_id v = map_sum readings_error_of_id id (ident_new v)"

definition sample_field :: "sample_slots \<Rightarrow> int \<Rightarrow> (reader, readings_error, sample_slots) act" where
  "sample_field s number =
     (if number = 1 then andthen (map_err Re_Cbor rd_u16) (\<lambda>v. andthen (lift_sum (reading_id v)) (\<lambda>w.
        andthen (once (Re_Duplicate 1) (smq_sig s) w) (\<lambda>t. ret (s\<lparr>smq_sig := t\<rparr>))))
      else if number = 2 then andthen (map_err Re_Cbor rd_i32) (\<lambda>v. andthen (once (Re_Duplicate 2) (smq_value s) v) (\<lambda>t. ret (s\<lparr>smq_value := t\<rparr>)))
      else if number = 3 then andthen (map_err Re_Cbor rd_u8) (\<lambda>v. andthen (once (Re_Duplicate 3) (smq_q s) v) (\<lambda>t. ret (s\<lparr>smq_q := t\<rparr>)))
      else if number = 4 then andthen (map_err Re_Cbor rd_u32) (\<lambda>v. andthen (once (Re_Duplicate 4) (smq_age s) v) (\<lambda>t. ret (s\<lparr>smq_age := t\<rparr>)))
      else skipped Re_Cbor s)"

definition sample_complete :: "sample_slots \<Rightarrow> (reader, readings_error, sample) act" where
  "sample_complete s =
     andthen (ok_or (Re_MissingResponse 1) (smq_sig s)) (\<lambda>sig.
     andthen (ok_or (Re_MissingResponse 3) (smq_q s)) (\<lambda>raw.
     andthen (lift_sum (map_sum Re_Quality id (quality_from_byte raw))) (\<lambda>q.
     lift_sum (map_sum Re_Quality id (sample_new sig q (smq_value s) (smq_age s))))))"

definition sample_decode :: "(reader, readings_error, sample) act" where
  "sample_decode = andthen (map_fields Re_Cbor sample_field sample_empty) sample_complete"

section \<open>A series\<close>

record series =
  se_sig :: ident
  se_q :: "signal_quality list"
  se_values :: "i32 list"
  se_age :: "u32 option"

definition series_new :: "ident \<Rightarrow> signal_quality list \<Rightarrow> i32 list \<Rightarrow> u32 option \<Rightarrow> quality_error + series" where
  "series_new sig q vs age =
     (if length q < 2 \<or> MAX_SERIES_LEN < length q then Inl (Qe_SeriesLength (length q))
      else let carrying = length (filter carries_value q) in
        if length vs \<noteq> carrying then Inl (Qe_ValueCount carrying (length vs))
        else let stale = list_ex (\<lambda>one. quality_validity one = Va_Stale) q in
          if stale \<and> age = None then Inl Qe_StaleWithoutAge
          else if \<not> stale \<and> age \<noteq> None then Inl (Qe_AgeWithoutStaleness Va_Ok)
          else Inr \<lparr>se_sig = sig, se_q = q, se_values = vs, se_age = age\<rparr>)"

definition series_value_at :: "series \<Rightarrow> nat \<Rightarrow> i32 option" where
  "series_value_at s index =
     (case get_at (se_q s) index of
        None \<Rightarrow> None
      | Some here \<Rightarrow>
          if \<not> carries_value here then None
          else get_at (se_values s) (length (filter carries_value (take index (se_q s)))))"

definition series_encode :: "series \<Rightarrow> bytes \<Rightarrow> (writer, cbor_error, unit) act" where
  "series_encode s scratch =
     (if length scratch < length (se_q s) then fail CborDestinationTooSmall
      else andthen (wr_map (3 + of_bool (se_age s \<noteq> None))) (\<lambda>_.
        andthen (wr_key 1) (\<lambda>_. andthen (wr_u64 (ucast (se_sig s))) (\<lambda>_.
        andthen (wr_key 2) (\<lambda>_. andthen (wr_byte_string (se_q s)) (\<lambda>_.
        andthen (wr_key 3) (\<lambda>_. andthen (andthen (wr_array (length (se_values s))) (\<lambda>_. for_each wr_i32 (se_values s))) (\<lambda>_.
        case se_age s of Some age \<Rightarrow> andthen (wr_key 4) (\<lambda>_. wr_u64 (ucast age)) | None \<Rightarrow> ret ()))))))))"

text \<open>The loop of \<open>check\<close> over the bytes of key 2.\<close>

primrec quality_walk :: "u8 list \<Rightarrow> nat \<Rightarrow> bool \<Rightarrow> readings_error + (nat \<times> bool)" where
  "quality_walk [] with_value stale = Inr (with_value, stale)"
| "quality_walk (raw # rest) with_value stale =
     (case quality_from_byte raw of
        Inl why \<Rightarrow> Inl (Re_Quality why)
      | Inr q \<Rightarrow> quality_walk rest (if carries_value q then saturating_add with_value 1 else with_value)
          (stale \<or> quality_validity q = Va_Stale))"

record series_slots =
  seq_sig :: "u16 option"
  seq_carrying :: "nat option"
  seq_elements :: "nat option"
  seq_integers :: "nat option"
  seq_age :: "u32 option"
  seq_stale :: bool

definition series_empty :: series_slots where
  "series_empty = \<lparr>seq_sig = None, seq_carrying = None, seq_elements = None, seq_integers = None, seq_age = None, seq_stale = False\<rparr>"

definition series_field :: "series_slots \<Rightarrow> int \<Rightarrow> (reader, readings_error, series_slots) act" where
  "series_field s number =
     (if number = 1 then andthen (map_err Re_Cbor rd_u16) (\<lambda>v. andthen (lift_sum (reading_id v)) (\<lambda>w.
        andthen (once (Re_Duplicate 1) (seq_sig s) w) (\<lambda>t. ret (s\<lparr>seq_sig := t\<rparr>))))
      else if number = 2 then andthen (map_err Re_Cbor rd_byte_string) (\<lambda>bs. andthen (lift_sum (quality_walk bs 0 (seq_stale s))) (\<lambda>(with_value, stale).
        andthen (once (Re_Duplicate 2) (seq_elements s) (length bs)) (\<lambda>t. ret (s\<lparr>seq_elements := t, seq_carrying := Some with_value, seq_stale := stale\<rparr>))))
      else if number = 3 then andthen (andthen (map_err Re_Cbor rd_array) (\<lambda>n. repeat_act n (\<lambda>i. andthen (map_err Re_Cbor rd_i32) (\<lambda>_. ret (Suc i))) 0)) (\<lambda>n.
        andthen (once (Re_Duplicate 3) (seq_integers s) n) (\<lambda>t. ret (s\<lparr>seq_integers := t\<rparr>)))
      else if number = 4 then andthen (map_err Re_Cbor rd_u32) (\<lambda>v. andthen (once (Re_Duplicate 4) (seq_age s) v) (\<lambda>t. ret (s\<lparr>seq_age := t\<rparr>)))
      else skipped Re_Cbor s)"

definition series_complete :: "series_slots \<Rightarrow> (reader, readings_error, u16 \<times> nat) act" where
  "series_complete s =
     andthen (ok_or (Re_MissingResponse 2) (seq_elements s)) (\<lambda>elements.
     andthen (ok_or (Re_MissingResponse 2) (seq_carrying s)) (\<lambda>want.
     andthen (ok_or (Re_MissingResponse 3) (seq_integers s)) (\<lambda>got.
     if want \<noteq> got then fail (Re_Quality (Qe_ValueCount want got))
     else if elements < 2 \<or> MAX_SERIES_LEN < elements then fail (Re_Quality (Qe_SeriesLength elements))
     else if seq_stale s \<and> seq_age s = None then fail (Re_Quality Qe_StaleWithoutAge)
     else if \<not> seq_stale s \<and> seq_age s \<noteq> None then fail (Re_Quality (Qe_AgeWithoutStaleness Va_Ok))
     else andthen (ok_or (Re_MissingResponse 1) (seq_sig s)) (\<lambda>sig. ret (sig, elements)))))"

definition series_check :: "bytes \<Rightarrow> readings_error + (u16 \<times> nat)" where
  "series_check = decoding (
     andthen (map_fields Re_Cbor series_field series_empty) (\<lambda>s.
     andthen (finishing Re_Cbor) (\<lambda>_. series_complete s)))"

section \<open>What a value means\<close>

text \<open>\<open>reading.rs\<close>, with the table of the registry's enumeration spaces (\<open>generated.rs\<close>), sorted on both
  axes, in which a binary search finds what is there.\<close>

type_synonym enum_space = u16

definition ENUM_SPACE_MEMBERS :: "(enum_space \<times> i32 list) list" where
  "ENUM_SPACE_MEMBERS =
     [(0x0001, [1, 2, 3, 4]),
      (0x0002, [1, 2, 3, 4, 5, 6]),
      (0x0003, [1, 2, 3, 4, 5, 6]),
      (0x0004, [1, 2, 3]),
      (0x0005, [1, 2, 4, 5, 6, 7, 8, 9]),
      (0x0006, [1, 2, 3, 4, 5, 6, 7])]"

definition space_members :: "enum_space \<Rightarrow> i32 list option" where
  "space_members space = map_of ENUM_SPACE_MEMBERS space"

definition space_names :: "enum_space \<Rightarrow> i32 \<Rightarrow> bool" where
  "space_names space v = (case space_members space of Some ms \<Rightarrow> v \<in> set ms | None \<Rightarrow> False)"

datatype meaning = Measurement i32 | Named i32 | Unrecognised i32 | Nothing

definition meaning_of :: "i32 option \<Rightarrow> enum_space option \<Rightarrow> meaning" where
  "meaning_of v space =
     (case v of
        None \<Rightarrow> Nothing
      | Some v \<Rightarrow>
          (case space of
             None \<Rightarrow> Measurement v
           | Some space \<Rightarrow> if space_names space v then Named v else Unrecognised v))"

primrec meaning_raw :: "meaning \<Rightarrow> i32 option" where
  "meaning_raw (Measurement v) = Some v"
| "meaning_raw (Named v) = Some v"
| "meaning_raw (Unrecognised v) = Some v"
| "meaning_raw Nothing = None"

section \<open>The byte, exactly\<close>

lemma byte_halves: "(raw :: u8) = push_bit 4 (drop_bit 4 raw) OR (raw AND 0x0F)"
proof (rule bit_word_eqI)
  fix n assume n: "n < LENGTH(8)"
  have low: "(0x0F :: u8) = mask 4"
    by (simp add: mask_eq_exp_minus_1)
  show "bit raw n \<longleftrightarrow> bit (push_bit 4 (drop_bit 4 raw) OR (raw AND 0x0F)) n"
    unfolding low using n by (auto simp: bit_or_iff bit_and_iff bit_push_bit_iff bit_drop_bit_eq bit_mask_iff)
qed

lemma pack_halves: "drop_bit 4 (quality_pack v p) = validity_num v" "quality_pack v p AND 0x0F = provenance_num p"
  by (cases v; cases p; simp add: quality_pack_def)+

lemma pack_inj: "raw = quality_pack v p \<longleftrightarrow> drop_bit 4 raw = validity_num v \<and> raw AND 0x0F = provenance_num p"
proof
  assume "drop_bit 4 raw = validity_num v \<and> raw AND 0x0F = provenance_num p"
  then show "raw = quality_pack v p"
    using byte_halves [of raw] by (simp add: quality_pack_def)
qed (simp add: pack_halves)

lemma quality_of_pack [simp]: "quality_validity (quality_pack v p) = v" "quality_provenance (quality_pack v p) = p"
  unfolding quality_validity_def quality_provenance_def pack_halves Let_def by (cases v; simp) (cases p; simp)

lemma from_byte_iff:
  "quality_from_byte raw = Inr q \<longleftrightarrow> q = raw \<and> (\<exists>v p. raw = quality_pack v p \<and> has_value v = (p \<noteq> Pv_None))"
  unfolding quality_from_byte_def pack_inj
  by (auto split: option.splits simp: validity.of_num_iff provenance.of_num_iff validity.unknown_iff provenance.unknown_iff
      validity.num_of_inj provenance.num_of_inj)

lemma from_byte_built: "quality_from_byte raw = Inr q \<longleftrightarrow> q = raw \<and> ((\<exists>v p. carrying v p = Inr raw) \<or> (\<exists>v. absent v = Inr raw))"
  unfolding from_byte_iff carrying_def absent_def by (auto split: if_splits)

section \<open>A scalar on the wire\<close>

definition sample_fields :: "sample \<Rightarrow> (int \<times> item) list" where
  "sample_fields x =
     [(1, IUint (ucast (sm_sig x)))] @
     (case sm_value x of Some v \<Rightarrow> [(2, i32_item v)] | None \<Rightarrow> []) @
     (3, IUint (ucast (sm_q x))) #
     (case sm_age x of Some v \<Rightarrow> [(4, IUint (ucast v))] | None \<Rightarrow> [])"

text \<open>The shape a reading has: an id, a byte that says what it is, a number exactly when the byte says there
  is one, and an age exactly when it is stale.\<close>

definition sample_valid :: "sample \<Rightarrow> bool" where
  "sample_valid x \<longleftrightarrow> sm_sig x \<noteq> 0 \<and> quality_from_byte (sm_q x) = Inr (sm_q x) \<and>
     (carries_value (sm_q x) \<longleftrightarrow> sm_value x \<noteq> None) \<and> (quality_validity (sm_q x) = Va_Stale \<longleftrightarrow> sm_age x \<noteq> None) \<and>
     (\<forall>v. sm_value x = Some v \<longrightarrow> fits_i32 v)"

lemma sample_new_iff:
  "sample_new sig q v age = Inr x \<longleftrightarrow> x = \<lparr>sm_sig = sig, sm_value = v, sm_q = q, sm_age = age\<rparr> \<and>
     (carries_value q \<longleftrightarrow> v \<noteq> None) \<and> (quality_validity q = Va_Stale \<longleftrightarrow> age \<noteq> None)"
  by (auto simp: sample_new_def Let_def)

lemma reading_id_iff: "reading_id v = Inr w \<longleftrightarrow> w = v \<and> v \<noteq> 0"
  by (auto simp: reading_id_def ident_new_def)

lemma sample_ok: "ascending None (sample_fields x)" "length (sample_fields x) = 2 + of_bool (sm_value x \<noteq> None) + of_bool (sm_age x \<noteq> None)"
  "item_depth (map_item (sample_fields x)) = 1"
  by (cases "sm_value x"; cases "sm_age x"; simp add: sample_fields_def good_key_def map_item_def pairs_of_def)+

lemma sample_writes:
  assumes "\<forall>v. sm_value x = Some v \<longrightarrow> fits_i32 v"
  shows "writes_item (sample_encode x) (map_item (sample_fields x))"
  unfolding sample_encode_def
  apply (rule writes_map)
  subgoal unfolding sample_fields_def append.simps using assms by (intro item_rules writes_append) auto
  by (simp_all add: sample_ok)

lemma sample_field_simps:
  "sample_field s 1 = andthen (map_err Re_Cbor rd_u16) (\<lambda>v. andthen (lift_sum (reading_id v)) (\<lambda>w.
     andthen (once (Re_Duplicate 1) (smq_sig s) w) (\<lambda>t. ret (s\<lparr>smq_sig := t\<rparr>))))"
  "sample_field s 2 = andthen (map_err Re_Cbor rd_i32) (\<lambda>v. andthen (once (Re_Duplicate 2) (smq_value s) v) (\<lambda>t. ret (s\<lparr>smq_value := t\<rparr>)))"
  "sample_field s 3 = andthen (map_err Re_Cbor rd_u8) (\<lambda>v. andthen (once (Re_Duplicate 3) (smq_q s) v) (\<lambda>t. ret (s\<lparr>smq_q := t\<rparr>)))"
  "sample_field s 4 = andthen (map_err Re_Cbor rd_u32) (\<lambda>v. andthen (once (Re_Duplicate 4) (smq_age s) v) (\<lambda>t. ret (s\<lparr>smq_age := t\<rparr>)))"
  by (simp_all add: sample_field_def)

lemma sample_reads:
  assumes "sample_valid x"
  shows "reads_pairs sample_field (sample_fields x) sample_empty
    \<lparr>smq_sig = Some (sm_sig x), smq_value = sm_value x, smq_q = Some (sm_q x), smq_age = sm_age x\<rparr>"
proof -
  note ok = assms [unfolded sample_valid_def]
  have id: "reading_id (sm_sig x) = Inr (sm_sig x)" and fits: "\<And>v. sm_value x = Some v \<Longrightarrow> fits_i32 v"
    using ok by (auto simp: reading_id_iff)
  show ?thesis
    by (cases "sm_value x"; cases "sm_age x"; simp add: sample_fields_def del: reads_pairs.simps; rule reads_eq,
      (rule reads_Nil | rule reads_Cons | simp only: sample_field_simps | rule slot_rules | rule item_rules id fits | assumption
        | simp add: sample_empty_def; fail)+)
qed

lemma sample_reads_item:
  assumes "sample_valid x"
  shows "reads_item sample_decode (map_item (sample_fields x)) x"
proof -
  have "sample_complete \<lparr>smq_sig = Some (sm_sig x), smq_value = sm_value x, smq_q = Some (sm_q x), smq_age = sm_age x\<rparr> = ret x"
    using assms sample_new_iff [of "sm_sig x" "sm_q x" "sm_value x" "sm_age x" x]
    by (auto simp: sample_complete_def sample_valid_def)
  then show ?thesis
    unfolding sample_decode_def by (rule reads_then [OF reads_map [OF sample_reads [OF assms] sample_ok(1)]])
qed

lemma yields_i32: "yields fits_i32 rd_i32"
  unfolding rd_i32_def by (rule yields_then) (auto split: head.splits intro!: yields_then)

definition sample_kept :: "sample_slots \<Rightarrow> bool" where
  "sample_kept s \<longleftrightarrow> smq_sig s \<noteq> Some 0 \<and> (\<forall>v. smq_value s = Some v \<longrightarrow> fits_i32 v)"

lemma map_sum_Inr: "map_sum f id v = Inr x \<longleftrightarrow> v = Inr x"
  by (cases v) auto

lemma sample_yields: "yields sample_valid sample_decode"
proof -
  have "yields sample_kept (sample_field s k)" if "sample_kept s" for s k
  proof (rule yieldsI)
    fix r x t assume "sample_field s k r = (Inr x, t)"
    then show "sample_kept x"
      using that by (auto simp: sample_field_def sample_kept_def reading_id_iff dest: yieldsD [OF yields_map_err [OF yields_i32]]
          split: if_splits elim!: slot_InrE plain_slot_InrE skipped_InrE)
  qed
  moreover have "yields sample_valid (sample_complete s)" if "sample_kept s" for s
    unfolding sample_complete_def
    using that by (auto simp: yields_def sample_kept_def sample_new_iff map_sum_Inr from_byte_iff sample_valid_def
        elim!: andthen_InrE lift_sum_InrE ok_or_InrE)
  ultimately show ?thesis
    unfolding sample_decode_def map_fields_def andthen_assoc
    by (intro yields_then yields_andthen [OF yields_pairs_loop [where P = sample_kept]]) (auto simp: sample_kept_def sample_empty_def)
qed


lemma i32_size:
  assumes "fits_i32 v"
  shows "length (enc_item (i32_item v)) \<le> 5"
proof -
  have "width_bytes (width_of (of_nat n)) \<le> 4" if "n < 2 ^ 32" for n
    using that by (simp add: width_of_def word_le_nat_alt unat_of_nat take_bit_nat_eq_self)
  from this [of "nat v"] this [of "nat (- v) - 1"] show ?thesis
    using assms by (auto simp: i32_item_def fits_i32_def)
qed

lemma sample_size:
  assumes "\<forall>v. sm_value x = Some v \<longrightarrow> fits_i32 v"
  shows "length (enc_item (map_item (sample_fields x))) \<le> SAMPLE_MAX_BYTES"
  using assms i32_size [of "the (sm_value x)"] width_narrow(2) [of "sm_sig x"] width_narrow(1) [of "sm_q x"] width_narrow(3) [of "the (sm_age x)"]
  by (cases "sm_value x"; cases "sm_age x")
    (simp_all add: sample_fields_def map_bytes_def [symmetric] map_bytes_eq SAMPLE_MAX_BYTES_def)

section \<open>A series on the wire\<close>

definition series_fields :: "ident \<Rightarrow> signal_quality list \<Rightarrow> i32 list \<Rightarrow> u32 option \<Rightarrow> (int \<times> item) list" where
  "series_fields sig q vs age =
     [(1, IUint (ucast sig)), (2, IBytes q), (3, IArray (map i32_item vs))] @ (case age of Some v \<Rightarrow> [(4, IUint (ucast v))] | None \<Rightarrow> [])"

definition series_valid :: "series \<Rightarrow> bool" where
  "series_valid s \<longleftrightarrow> se_sig s \<noteq> 0 \<and> list_all (\<lambda>q. quality_from_byte q = Inr q) (se_q s) \<and> list_all fits_i32 (se_values s) \<and>
     series_new (se_sig s) (se_q s) (se_values s) (se_age s) = Inr s"

lemma series_ok: "ascending None (series_fields sig q vs age)" "length (series_fields sig q vs age) = 3 + of_bool (age \<noteq> None)"
  "shallow 1 (series_fields sig q vs age)" "known 4 (series_fields sig q vs age)"
proof -
  have "level_room 0 (map i32_item vs)"
    by (auto simp: level_room_def)
  from array_depth [OF this] show "shallow 1 (series_fields sig q vs age)"
    by (cases age) (simp_all add: series_fields_def del: item_depth.simps(1))
qed (cases age; simp add: series_fields_def good_key_def)+

lemma series_writes:
  assumes "list_all fits_i32 (se_values s)" and "length (se_q s) \<le> length scratch"
  shows "writes_item (series_encode s scratch) (map_item (series_fields (se_sig s) (se_q s) (se_values s) (se_age s)))"
proof -
  have each: "writes_item (wr_i32 v) (i32_item v)" if "v \<in> set (se_values s)" for v
    using assms(1) that by (intro writes_i32) (simp add: list_all_iff)
  show ?thesis
    unfolding series_encode_def using assms(2)
    apply (simp only: not_le [symmetric] simp_thms if_False)
    apply (rule writes_map)
    subgoal unfolding series_fields_def append.simps
      by (intro item_rules writes_append writes_array [where err = "\<lambda>e. e", unfolded map_err_id] each) simp_all
    by (simp_all add: series_ok)
qed

lemma quality_walk_good:
  assumes "list_all (\<lambda>q. quality_from_byte q = Inr q) qs" and "n + length qs \<le> usize_max"
  shows "quality_walk qs n stale = Inr (n + length (filter carries_value qs), stale \<or> list_ex (\<lambda>q. quality_validity q = Va_Stale) qs)"
  using assms by (induction qs arbitrary: n stale) (auto simp: saturating_add_small)

lemma series_field_simps:
  "series_field s 1 = andthen (map_err Re_Cbor rd_u16) (\<lambda>v. andthen (lift_sum (reading_id v)) (\<lambda>w.
     andthen (once (Re_Duplicate 1) (seq_sig s) w) (\<lambda>t. ret (s\<lparr>seq_sig := t\<rparr>))))"
  "series_field s 2 = andthen (map_err Re_Cbor rd_byte_string) (\<lambda>bs. andthen (lift_sum (quality_walk bs 0 (seq_stale s))) (\<lambda>(with_value, stale).
     andthen (once (Re_Duplicate 2) (seq_elements s) (length bs)) (\<lambda>t. ret (s\<lparr>seq_elements := t, seq_carrying := Some with_value, seq_stale := stale\<rparr>))))"
  "series_field s 3 = andthen (andthen (map_err Re_Cbor rd_array) (\<lambda>n. repeat_act n (\<lambda>i. andthen (map_err Re_Cbor rd_i32) (\<lambda>_. ret (Suc i))) 0)) (\<lambda>n.
     andthen (once (Re_Duplicate 3) (seq_integers s) n) (\<lambda>t. ret (s\<lparr>seq_integers := t\<rparr>)))"
  "series_field s 4 = andthen (map_err Re_Cbor rd_u32) (\<lambda>v. andthen (once (Re_Duplicate 4) (seq_age s) v) (\<lambda>t. ret (s\<lparr>seq_age := t\<rparr>)))"
  "4 < k \<Longrightarrow> series_field s k = skipped Re_Cbor s"
  by (simp_all add: series_field_def)

lemma integers_counted:
  assumes "list_all fits_i32 vs"
  shows "reads_item (andthen (map_err Re_Cbor rd_array) (\<lambda>n. repeat_act n (\<lambda>i. andthen (map_err Re_Cbor rd_i32) (\<lambda>_. ret (Suc i))) 0))
    (IArray (map i32_item vs)) (length vs)"
proof (rule reads_array)
  have "reads_items (\<lambda>i. andthen (map_err Re_Cbor rd_i32) (\<lambda>_. ret (Suc i))) (map i32_item vs) (length ([] :: i32 list)) (length vs)"
  proof (rule reads_items_map)
    fix i acc assume i: "i < length vs" "acc = length (take i vs)"
    have "fits_i32 (vs ! i)"
      using assms i(1) by (simp add: list_all_length)
    then show "reads_item (andthen (map_err Re_Cbor rd_i32) (\<lambda>_. ret (Suc acc))) (i32_item (vs ! i)) (length (take (Suc i) vs))"
      using i by (intro reads_then [OF reads_map_err [OF reads_i32]]) simp_all
  qed
  then show "reads_items (\<lambda>i. andthen (map_err Re_Cbor rd_i32) (\<lambda>_. ret (Suc i))) (map i32_item vs) 0 (length vs)"
    by simp
qed simp

lemma series_reads:
  assumes "sig \<noteq> 0" and "list_all (\<lambda>q. quality_from_byte q = Inr q) q" and "list_all fits_i32 vs" and "length q \<le> usize_max"
  shows "reads_pairs series_field (series_fields sig q vs age) series_empty
    \<lparr>seq_sig = Some sig, seq_carrying = Some (length (filter carries_value q)), seq_elements = Some (length q), seq_integers = Some (length vs),
     seq_age = age, seq_stale = list_ex (\<lambda>q. quality_validity q = Va_Stale) q\<rparr>"
proof -
  have id: "reading_id sig = Inr sig"
    using assms(1) by (simp add: reading_id_iff)
  have bytes: "reads_item (series_field s 2) (IBytes q) (s\<lparr>seq_elements := Some (length q), seq_carrying := Some (length (filter carries_value q)),
      seq_stale := seq_stale s \<or> list_ex (\<lambda>q. quality_validity q = Va_Stale) q\<rparr>)" if "seq_elements s = None" for s
    unfolding series_field_simps
    by (rule reads_then [OF reads_map_err [OF reads_bytes]])
      (simp add: quality_walk_good [OF assms(2), of 0] assms(4) once_def that ret_def [abs_def])
  show ?thesis
    by (cases age; simp add: series_fields_def del: reads_pairs.simps; rule reads_eq,
      (rule reads_Nil | rule reads_Cons | rule bytes | simp only: series_field_simps(1,3,4) | rule slot_rules | rule integers_counted [OF assms(3)]
        | rule item_rules id | simp add: series_empty_def; fail)+)
qed

lemma series_check_exact:
  assumes "sig \<noteq> 0" and "list_all (\<lambda>q. quality_from_byte q = Inr q) q" and "list_all fits_i32 vs"
    and "extends 4 INNER fs" and "length (map_bytes (series_fields sig q vs age @ fs)) \<le> usize_max" and "length q \<le> usize_max"
  shows "series_check (map_bytes (series_fields sig q vs age @ fs)) = Inr x \<longleftrightarrow>
    x = (sig, length q) \<and> (\<exists>s. series_new sig q vs age = Inr s)"
proof -
  let ?s = "\<lparr>seq_sig = Some sig, seq_carrying = Some (length (filter carries_value q)), seq_elements = Some (length q), seq_integers = Some (length vs),
     seq_age = age, seq_stale = list_ex (\<lambda>q. quality_validity q = Va_Stale) q\<rparr>"
  have shallow: "shallow 7 (series_fields sig q vs age)"
    using series_ok(3) [of sig q vs age] by (auto simp: shallow_def)
  obtain r where "series_check (map_bytes (series_fields sig q vs age @ fs)) = fst (andthen (finishing Re_Cbor) (\<lambda>_. series_complete ?s) r)" "reading r [] []"
    using decodes_slots [OF series_reads [OF assms(1-3,6)] series_ok(1) shallow series_ok(4) assms(4) _ assms(5), of Re_Cbor]
    unfolding series_check_def by (auto simp: series_field_simps)
  then show ?thesis
    by (auto simp: finishing_done series_complete_def series_new_def Let_def)
qed

lemma series_size:
  assumes "series_valid s"
  shows "length (map_bytes (series_fields (se_sig s) (se_q s) (se_values s) (se_age s))) \<le> SERIES_MAX_BYTES"
proof -
  have parts: "length (se_q s) \<le> 16" "length (se_values s) = length (filter carries_value (se_q s))" and fits: "list_all fits_i32 (se_values s)"
    using assms by (auto simp: series_valid_def series_new_def Let_def MAX_SERIES_LEN_def split: if_splits)
  have short: "length (se_q s) \<le> 16" "length (se_values s) \<le> 16"
    using parts length_filter_le [of carries_value "se_q s"] by linarith+
  have "length (item_list_bytes (map i32_item (se_values s))) \<le> length (se_values s) * 5"
    using fits by (intro item_list_size i32_size) (simp add: list_all_iff)
  moreover have "width_bytes (width_of (of_nat (length (se_values s)))) = 0" "width_bytes (width_of (of_nat (length (se_q s)))) = 0"
    using short by (simp_all add: width_of_def word_less_nat_alt unat_of_nat take_bit_nat_eq_self)
  ultimately show ?thesis
    using short width_narrow(2) [of "se_sig s"] width_narrow(3) [of "the (se_age s)"]
    by (cases "se_age s") (simp_all add: series_fields_def map_bytes_eq array_bytes SERIES_MAX_BYTES_def del: enc_item.simps(1))
qed

text \<open>Position is identity: the value at a place is the one that was put there, whatever gaps stand before.\<close>

lemma series_positions:
  assumes "\<forall>(q, v) \<in> set es. carries_value q \<longleftrightarrow> v \<noteq> None"
    and "series_new sig (map fst es) (List.map_filter snd es) age = Inr s" and "i < length es"
  shows "series_value_at s i = snd (es ! i)"
proof -
  have s: "se_q s = map fst es" "se_values s = List.map_filter snd es"
    using assms(2) by (auto simp: series_new_def Let_def split: if_splits)
  have count: "length (filter carries_value (map fst xs)) = length (List.map_filter snd xs)" if "set xs \<subseteq> set es" for xs
    using that assms(1) by (induction xs) (auto simp: map_filter_simps split: option.splits)
  have split: "List.map_filter snd es = List.map_filter snd (take i es) @ List.map_filter snd (drop i es)"
    by (metis append_take_drop_id List.map_filter_def filter_append map_append)
  obtain q v where e: "es ! i = (q, v)" "(q, v) \<in> set es"
    using assms(3) by (metis nth_mem surj_pair)
  have "drop i es = (q, v) # drop (Suc i) es"
    using assms(3) e(1) by (simp add: Cons_nth_drop_Suc [symmetric])
  then have "v = Some w \<Longrightarrow> get_at (List.map_filter snd es) (length (List.map_filter snd (take i es))) = Some w" for w
    by (simp add: split get_at_def map_filter_simps nth_append)
  moreover have "carries_value q \<longleftrightarrow> v \<noteq> None"
    using assms(1) e(2) by auto
  ultimately show ?thesis
    using assms(3) e(1) count [of "take i es"] set_take_subset [of i es]
    by (auto simp: series_value_at_def s get_at_def take_map)
qed

section \<open>Properties\<close>



end
