(* ===== verification/Readings.thy ===== *)
theory Readings
  imports Quality
begin

text \<open>
  \<open>crates/km43/src/readings.rs\<close> around its rows: which signals a client asks for, the page a controller
  fills in one byte budget, the answer that carries it and what a client reads out of it. An outcome is the
  registry's enumeration one for one. The array of \<open>MAX_SELECTORS\<close> slots with a length beside it is the list
  of the slots below the length.
\<close>

section \<open>Selectors\<close>

datatype sel = SelDev ident | SelCmp ident | SelSig ident

primrec sel_key :: "sel \<Rightarrow> int" where
  "sel_key (SelDev _) = 1"
| "sel_key (SelCmp _) = 2"
| "sel_key (SelSig _) = 3"

primrec sel_id :: "sel \<Rightarrow> ident" where
  "sel_id (SelDev i) = i"
| "sel_id (SelCmp i) = i"
| "sel_id (SelSig i) = i"

definition sel_encode :: "sel \<Rightarrow> (writer, cbor_error, unit) act" where
  "sel_encode s = andthen (wr_map 1) (\<lambda>_. andthen (wr_key (sel_key s)) (\<lambda>_. wr_u64 (ucast (sel_id s))))"

definition sel_decode :: "(reader, readings_error, sel) act" where
  "sel_decode =
     andthen (map_err Re_Cbor rd_map) (\<lambda>pairs.
     if pairs \<noteq> 1 then fail (Re_SelectorNamesNotOne pairs)
     else andthen (map_err Re_Cbor rd_key) (\<lambda>key.
       andthen (map_err Re_Cbor rd_u16) (\<lambda>v. andthen (lift_sum (reading_id v)) (\<lambda>i.
       if key = 1 then ret (SelDev i)
       else if key = 2 then ret (SelCmp i)
       else if key = 3 then ret (SelSig i)
       else fail (Re_UnknownSelectorKey key)))))"

record read_signals =
  rs_rev :: u32
  rs_from :: u16
  rs_sel :: "sel list"

definition signals_everything :: "u32 \<Rightarrow> u16 \<Rightarrow> read_signals" where
  "signals_everything held from = \<lparr>rs_rev = held, rs_from = from, rs_sel = []\<rparr>"

definition signals_select :: "sel \<Rightarrow> (read_signals, readings_error, unit) act" where
  "signals_select s r =
     (if length (rs_sel r) < MAX_SELECTORS then (Inr (), r\<lparr>rs_sel := rs_sel r @ [s]\<rparr>) else (Inl Re_TooManySelectors, r))"

definition is_everything :: "read_signals \<Rightarrow> bool" where
  "is_everything r \<longleftrightarrow> rs_sel r = []"

definition signals_encode :: "read_signals \<Rightarrow> bytes \<Rightarrow> (readings_error + nat) \<times> bytes" where
  "signals_encode r = encoding Re_Cbor (map_err Re_Cbor (
     andthen (wr_map (if is_everything r then 2 else 3)) (\<lambda>_.
     andthen (wr_key 1) (\<lambda>_. andthen (wr_u64 (ucast (rs_rev r))) (\<lambda>_.
     andthen (if \<not> is_everything r then andthen (wr_key 2) (\<lambda>_. andthen (wr_array (length (rs_sel r))) (\<lambda>_. for_each sel_encode (rs_sel r)))
              else ret ()) (\<lambda>_.
     andthen (wr_key 3) (\<lambda>_. wr_u64 (ucast (rs_from r)))))))))"

record signals_slots =
  rsq_rev :: "u32 option"
  rsq_from :: "u16 option"
  rsq_out :: read_signals
  rsq_selectors :: "unit option"

definition signals_empty :: signals_slots where
  "signals_empty = \<lparr>rsq_rev = None, rsq_from = None, rsq_out = signals_everything 0 0, rsq_selectors = None\<rparr>"

definition sel_step :: "read_signals \<Rightarrow> (reader, readings_error, read_signals) act" where
  "sel_step out = andthen sel_decode (\<lambda>s. case signals_select s out of (Inl why, _) \<Rightarrow> fail why | (Inr _, out') \<Rightarrow> ret out')"

definition signals_field :: "signals_slots \<Rightarrow> int \<Rightarrow> (reader, readings_error, signals_slots) act" where
  "signals_field s number =
     (if number = 1 then andthen (map_err Re_Cbor rd_u32) (\<lambda>v. andthen (once (Re_Duplicate 1) (rsq_rev s) v) (\<lambda>t. ret (s\<lparr>rsq_rev := t\<rparr>)))
      else if number = 2 then andthen (once (Re_Duplicate 2) (rsq_selectors s) ()) (\<lambda>t.
        andthen (map_err Re_Cbor rd_array) (\<lambda>count.
        if MAX_SELECTORS < count then fail Re_TooManySelectors
        else andthen (repeat_act count sel_step (rsq_out s)) (\<lambda>out. ret (s\<lparr>rsq_selectors := t, rsq_out := out\<rparr>))))
      else if number = 3 then andthen (map_err Re_Cbor rd_u16) (\<lambda>v. andthen (once (Re_Duplicate 3) (rsq_from s) v) (\<lambda>t. ret (s\<lparr>rsq_from := t\<rparr>)))
      else skipped Re_Cbor s)"

definition signals_complete :: "signals_slots \<Rightarrow> (reader, readings_error, read_signals) act" where
  "signals_complete s =
     andthen (ok_or (Re_MissingRequest 1) (rsq_rev s)) (\<lambda>rev.
     andthen (ok_or (Re_MissingRequest 3) (rsq_from s)) (\<lambda>from.
     ret ((rsq_out s)\<lparr>rs_rev := rev, rs_from := from\<rparr>)))"

definition signals_decode :: "bytes \<Rightarrow> readings_error + read_signals" where
  "signals_decode = decoding (
     andthen (map_fields Re_Cbor signals_field signals_empty) (\<lambda>s.
     andthen (finishing Re_Cbor) (\<lambda>_. signals_complete s)))"

section \<open>The page\<close>

definition MAX_READINGS_ROWS :: nat where
  "MAX_READINGS_ROWS = MAX_SAMPLES + MAX_SERIES"

text \<open>A slot is a row's length and whether it is a series.\<close>

record readings_page =
  pg_scratch :: bytes
  pg_slots :: "(nat \<times> bool) list"
  pg_used :: nat
  pg_samples :: nat
  pg_series :: nat
  pg_next :: u16

definition readings_page_new :: readings_page where
  "readings_page_new = \<lparr>pg_scratch = replicate MAX_READINGS_BYTES 0, pg_slots = replicate MAX_READINGS_ROWS (0, False),
     pg_used = 0, pg_samples = 0, pg_series = 0, pg_next = 0\<rparr>"

definition keep_row :: "bytes \<Rightarrow> nat \<Rightarrow> bool \<Rightarrow> (readings_page, readings_error, bool) act" where
  "keep_row row len series p =
     (let end = saturating_add (pg_used p) len;
          rows = saturating_add (pg_samples p) (pg_series p)
      in if MAX_READINGS_BYTES < end \<or> MAX_READINGS_ROWS \<le> rows then (Inr False, p)
         else if slice (pg_scratch p) (pg_used p) end = None then (Inl (Re_RowTooLong len), p)
         else case slice row 0 len of
             None \<Rightarrow> (Inl (Re_RowTooLong len), p)
           | Some src \<Rightarrow>
               let p' = p\<lparr>pg_scratch := splice (pg_scratch p) (pg_used p) src\<rparr>
               in if length (pg_slots p') \<le> rows then (Inl (Re_RowTooLong len), p')
                  else (Inr True, p'\<lparr>pg_slots := (pg_slots p')[rows := (len, series)], pg_used := end\<rparr>))"

definition push_sample :: "sample \<Rightarrow> (readings_page, readings_error, bool) act" where
  "push_sample x p =
     (if MAX_SAMPLES \<le> pg_samples p then (Inr False, p\<lparr>pg_next := sm_sig x\<rparr>)
      else case encoding Re_Cbor (map_err Re_Cbor (sample_encode x)) (replicate SAMPLE_MAX_BYTES 0) of
          (Inl why, _) \<Rightarrow> (Inl why, p)
        | (Inr len, one) \<Rightarrow>
            (case keep_row one len False p of
               (Inl why, p') \<Rightarrow> (Inl why, p')
             | (Inr False, p') \<Rightarrow> (Inr False, p'\<lparr>pg_next := sm_sig x\<rparr>)
             | (Inr True, p') \<Rightarrow> (Inr True, p'\<lparr>pg_samples := saturating_add (pg_samples p') 1\<rparr>)))"

definition push_series :: "series \<Rightarrow> (readings_page, readings_error, bool) act" where
  "push_series x p =
     (if MAX_SERIES \<le> pg_series p then (Inr False, p\<lparr>pg_next := se_sig x\<rparr>)
      else case encoding Re_Cbor (map_err Re_Cbor (series_encode x (replicate MAX_SERIES_LEN 0))) (replicate SERIES_MAX_BYTES 0) of
          (Inl why, _) \<Rightarrow> (Inl why, p)
        | (Inr len, one) \<Rightarrow>
            (case keep_row one len True p of
               (Inl why, p') \<Rightarrow> (Inl why, p')
             | (Inr False, p') \<Rightarrow> (Inr False, p'\<lparr>pg_next := se_sig x\<rparr>)
             | (Inr True, p') \<Rightarrow> (Inr True, p'\<lparr>pg_series := saturating_add (pg_series p') 1\<rparr>)))"

definition readings_page_empty :: "readings_page \<Rightarrow> bool" where
  "readings_page_empty p \<longleftrightarrow> pg_samples p = 0 \<and> pg_series p = 0"

text \<open>The walk of \<open>encode_array\<close> over the slots, with the offset it accumulates.\<close>

fun array_rows :: "bytes \<Rightarrow> bool \<Rightarrow> (nat \<times> bool) list \<Rightarrow> nat \<Rightarrow> (writer, readings_error, unit) act" where
  "array_rows scratch series [] at = ret ()"
| "array_rows scratch series ((len, which) # slots) at =
     (let end = saturating_add at len
      in case slice scratch at end of
           None \<Rightarrow> fail (Re_RowTooLong len)
         | Some row \<Rightarrow>
             andthen (if which = series
                      then andthen (lift_sum (map_sum Re_Cbor id (fst (rd_raw (reader_over row))))) (\<lambda>raw. map_err Re_Cbor (wr_raw raw))
                      else ret ()) (\<lambda>_. array_rows scratch series slots end))"

definition page_array :: "readings_page \<Rightarrow> bool \<Rightarrow> (writer, readings_error, unit) act" where
  "page_array p series =
     andthen (map_err Re_Cbor (wr_array (if series then pg_series p else pg_samples p))) (\<lambda>_.
     array_rows (pg_scratch p) series (take (saturating_add (pg_samples p) (pg_series p)) (pg_slots p)) 0)"

section \<open>The answer\<close>

record readings_body =
  rb_seq :: u64
  rb_rev :: u32
  rb_at :: "u64 option"
  rb_outcome :: readings_outcome
  rb_total :: u16
  rb_page :: "readings_page option"

definition readings_body_encode :: "readings_body \<Rightarrow> bytes \<Rightarrow> (readings_error + nat) \<times> bytes" where
  "readings_body_encode b dst =
     (let answered = (rb_outcome b = Rdo_Ok)
      in if \<not> answered \<and> (case rb_page b of Some p \<Rightarrow> \<not> readings_page_empty p | None \<Rightarrow> False)
         then (Inl (Re_AnsweredNothing (rb_outcome b)), dst)
         else let page = (if answered then rb_page b else None);
                  next = (case page of Some p \<Rightarrow> pg_next p | None \<Rightarrow> 0);
                  samples = (case page of Some p \<Rightarrow> 0 < pg_samples p | None \<Rightarrow> False);
                  series = (case page of Some p \<Rightarrow> 0 < pg_series p | None \<Rightarrow> False)
              in encoding Re_Cbor (
                andthen (map_err Re_Cbor (wr_map (5 + of_bool (rb_at b \<noteq> None) + of_bool samples + of_bool series))) (\<lambda>_.
                andthen (map_err Re_Cbor (wr_key 1)) (\<lambda>_. andthen (map_err Re_Cbor (wr_u64 (rb_seq b))) (\<lambda>_.
                andthen (map_err Re_Cbor (wr_key 2)) (\<lambda>_. andthen (map_err Re_Cbor (wr_u64 (ucast (rb_rev b)))) (\<lambda>_.
                andthen (case rb_at b of
                    Some at \<Rightarrow> andthen (map_err Re_Cbor (wr_key 3)) (\<lambda>_. map_err Re_Cbor (wr_u64 at)) | None \<Rightarrow> ret ()) (\<lambda>_.
                andthen (if samples then andthen (map_err Re_Cbor (wr_key 4)) (\<lambda>_. page_array (the page) False) else ret ()) (\<lambda>_.
                andthen (if series then andthen (map_err Re_Cbor (wr_key 5)) (\<lambda>_. page_array (the page) True) else ret ()) (\<lambda>_.
                andthen (map_err Re_Cbor (wr_key 6)) (\<lambda>_. andthen (map_err Re_Cbor (wr_u64 (ucast next))) (\<lambda>_.
                andthen (map_err Re_Cbor (wr_key 7)) (\<lambda>_. andthen (map_err Re_Cbor (wr_u64 (ucast (rb_total b)))) (\<lambda>_.
                andthen (map_err Re_Cbor (wr_key 8)) (\<lambda>_. map_err Re_Cbor (wr_u64 (ucast (readings_outcome_num (rb_outcome b)))))))))))))))))) dst)"

record readings_header =
  rh_seq :: u64
  rh_rev :: u32
  rh_at :: "u64 option"
  rh_outcome :: readings_outcome
  rh_next :: u16
  rh_total :: u16
  rh_samples :: nat
  rh_series :: nat

record header_slots =
  hq_seq :: "u64 option"
  hq_rev :: "u32 option"
  hq_at :: "u64 option"
  hq_next :: "u16 option"
  hq_total :: "u16 option"
  hq_outcome :: "u8 option"
  hq_samples :: "nat option"
  hq_series :: "nat option"

definition header_empty :: header_slots where
  "header_empty = \<lparr>hq_seq = None, hq_rev = None, hq_at = None, hq_next = None, hq_total = None, hq_outcome = None,
     hq_samples = None, hq_series = None\<rparr>"

definition rows_count :: "(reader, readings_error, nat) act" where
  "rows_count = andthen (map_err Re_Cbor rd_array) (\<lambda>n. andthen (repeat_act n (\<lambda>_. map_err Re_Cbor skip) ()) (\<lambda>_. ret n))"

definition header_field :: "header_slots \<Rightarrow> int \<Rightarrow> (reader, readings_error, header_slots) act" where
  "header_field s number =
     (if number = 1 then andthen (map_err Re_Cbor rd_u64) (\<lambda>v. andthen (once (Re_Duplicate 1) (hq_seq s) v) (\<lambda>t. ret (s\<lparr>hq_seq := t\<rparr>)))
      else if number = 2 then andthen (map_err Re_Cbor rd_u32) (\<lambda>v. andthen (once (Re_Duplicate 2) (hq_rev s) v) (\<lambda>t. ret (s\<lparr>hq_rev := t\<rparr>)))
      else if number = 3 then andthen (map_err Re_Cbor rd_u64) (\<lambda>v. andthen (once (Re_Duplicate 3) (hq_at s) v) (\<lambda>t. ret (s\<lparr>hq_at := t\<rparr>)))
      else if number = 4 then andthen rows_count (\<lambda>v. andthen (once (Re_Duplicate 4) (hq_samples s) v) (\<lambda>t. ret (s\<lparr>hq_samples := t\<rparr>)))
      else if number = 5 then andthen rows_count (\<lambda>v. andthen (once (Re_Duplicate 5) (hq_series s) v) (\<lambda>t. ret (s\<lparr>hq_series := t\<rparr>)))
      else if number = 6 then andthen (map_err Re_Cbor rd_u16) (\<lambda>v. andthen (once (Re_Duplicate 6) (hq_next s) v) (\<lambda>t. ret (s\<lparr>hq_next := t\<rparr>)))
      else if number = 7 then andthen (map_err Re_Cbor rd_u16) (\<lambda>v. andthen (once (Re_Duplicate 7) (hq_total s) v) (\<lambda>t. ret (s\<lparr>hq_total := t\<rparr>)))
      else if number = 8 then andthen (map_err Re_Cbor rd_u8) (\<lambda>v. andthen (once (Re_Duplicate 8) (hq_outcome s) v) (\<lambda>t. ret (s\<lparr>hq_outcome := t\<rparr>)))
      else skipped Re_Cbor s)"

definition header_complete :: "header_slots \<Rightarrow> (reader, readings_error, readings_header) act" where
  "header_complete s =
     (let samples = (case hq_samples s of Some n \<Rightarrow> n | None \<Rightarrow> 0);
          series = (case hq_series s of Some n \<Rightarrow> n | None \<Rightarrow> 0)
      in andthen (ok_or (Re_MissingResponse 8) (hq_outcome s)) (\<lambda>number.
         andthen (lift_sum (allocated readings_outcome_of Re_UnknownOutcome number)) (\<lambda>outcome.
         andthen (ok_or (Re_MissingResponse 6) (hq_next s)) (\<lambda>next.
         if outcome \<noteq> Rdo_Ok \<and> (next \<noteq> 0 \<or> 0 < samples \<or> 0 < series) then fail (Re_AnsweredNothing outcome)
         else andthen (ok_or (Re_MissingResponse 1) (hq_seq s)) (\<lambda>seq.
           andthen (ok_or (Re_MissingResponse 2) (hq_rev s)) (\<lambda>rev.
           andthen (ok_or (Re_MissingResponse 7) (hq_total s)) (\<lambda>total.
           ret \<lparr>rh_seq = seq, rh_rev = rev, rh_at = hq_at s, rh_outcome = outcome, rh_next = next, rh_total = total,
             rh_samples = samples, rh_series = series\<rparr>)))))))"

definition header_decode :: "bytes \<Rightarrow> readings_error + readings_header" where
  "header_decode = decoding (
     andthen (map_fields Re_Cbor header_field header_empty) (\<lambda>s.
     andthen (finishing Re_Cbor) (\<lambda>_. header_complete s)))"

text \<open>\<open>for_each_sample\<close> hands each row to a callback as it is read: what it returns, and the rows handed over.\<close>

definition samples_field :: "bytes option \<Rightarrow> int \<Rightarrow> (reader, readings_error, bytes option) act" where
  "samples_field s number =
     (if number = 4 then andthen (map_err Re_Cbor rd_raw) (\<lambda>v. andthen (once (Re_Duplicate 4) s v) (\<lambda>t. ret t))
      else skipped Re_Cbor s)"

primrec deliver :: "nat \<Rightarrow> reader \<Rightarrow> (readings_error + unit) \<times> sample list" where
  "deliver 0 r = (Inr (), [])"
| "deliver (Suc n) r =
     (case sample_decode r of
        (Inl why, _) \<Rightarrow> (Inl why, [])
      | (Inr x, r') \<Rightarrow> (case deliver n r' of (result, xs) \<Rightarrow> (result, x # xs)))"

definition for_each_sample :: "bytes \<Rightarrow> (readings_error + nat) \<times> sample list" where
  "for_each_sample payload =
     (case decoding (andthen (map_fields Re_Cbor samples_field None) (\<lambda>s. andthen (finishing Re_Cbor) (\<lambda>_. ret s))) payload of
        Inl why \<Rightarrow> (Inl why, [])
      | Inr None \<Rightarrow> (Inr 0, [])
      | Inr (Some array) \<Rightarrow>
          (case rd_array (reader_over array) of
             (Inl why, _) \<Rightarrow> (Inl (Re_Cbor why), [])
           | (Inr rows, r) \<Rightarrow> (case deliver rows r of (result, xs) \<Rightarrow> (map_sum id (\<lambda>_. rows) result, xs))))"

section \<open>Selectors on the wire\<close>

definition sel_fields :: "sel \<Rightarrow> (int \<times> item) list" where
  "sel_fields s = [(sel_key s, IUint (ucast (sel_id s)))]"

lemma sel_ok [simp]: "ascending None (sel_fields s)" "length (sel_fields s) = 1" "item_depth (map_item (sel_fields s)) = 1"
  by (cases s; simp add: sel_fields_def good_key_def map_item_def pairs_of_def)+

lemma sel_writes: "writes_item (sel_encode s) (map_item (sel_fields s))"
  unfolding sel_encode_def
  apply (rule writes_map)
  subgoal unfolding sel_fields_def by (intro item_rules)
  by simp_all

definition sel_field :: "int \<Rightarrow> (reader, readings_error, sel option) act" where
  "sel_field key = andthen (map_err Re_Cbor rd_u16) (\<lambda>v. andthen (lift_sum (reading_id v)) (\<lambda>i.
     if key = 1 then ret (Some (SelDev i))
     else if key = 2 then ret (Some (SelCmp i))
     else if key = 3 then ret (Some (SelSig i))
     else fail (Re_UnknownSelectorKey key)))"

lemma sel_field_some: "yields (\<lambda>x. x \<noteq> None) (sel_field key)"
  unfolding sel_field_def by (auto simp: yields_def elim!: andthen_InrE split: if_splits)

lemma sel_reads:
  assumes "sel_id s \<noteq> 0"
  shows "reads_item sel_decode (map_item (sel_fields s)) s"
proof -
  have id: "reading_id (sel_id s) = Inr (sel_id s)"
    using assms by (simp add: reading_id_iff)
  have field: "reads_item (sel_field (sel_key s)) (IUint (ucast (sel_id s))) (Some s)"
    unfolding sel_field_def
    by (rule reads_then [OF reads_map_err [OF reads_u16]]) (use id in \<open>cases s; simp add: ret_def [abs_def]\<close>)
  have "reads_item (andthen (map_err Re_Cbor rd_map) (\<lambda>pairs. if pairs \<noteq> 1 then fail (Re_SelectorNamesNotOne pairs)
      else andthen (pairs_loop Re_Cbor (\<lambda>_. sel_field) pairs None) (\<lambda>x. ret (the x)))) (map_item (sel_fields s)) (the (Some s))"
    by (rule reads_map_with [where acc = None and field = "\<lambda>_. sel_field"]) (use field sel_ok in \<open>simp_all add: sel_fields_def\<close>)
  moreover have "sel_decode = andthen (map_err Re_Cbor rd_map) (\<lambda>pairs. if pairs \<noteq> 1 then fail (Re_SelectorNamesNotOne pairs)
      else andthen (pairs_loop Re_Cbor (\<lambda>_. sel_field) pairs None) (\<lambda>x. ret (the x)))"
    unfolding sel_decode_def
    by (rule arg_cong [where f = "andthen (map_err Re_Cbor rd_map)"])
      (auto simp: fun_eq_iff pairs_loop_def sel_field_def andthen_def ret_def fail_def split: prod.splits sum.splits)
  ultimately show ?thesis
    by simp
qed

definition signals_fields :: "read_signals \<Rightarrow> (int \<times> item) list" where
  "signals_fields r =
     (1, IUint (ucast (rs_rev r))) #
     (if rs_sel r \<noteq> [] then [(2, IArray (map (\<lambda>s. map_item (sel_fields s)) (rs_sel r)))] else []) @
     [(3, IUint (ucast (rs_from r)))]"

definition signals_valid :: "read_signals \<Rightarrow> bool" where
  "signals_valid r \<longleftrightarrow> length (rs_sel r) \<le> MAX_SELECTORS \<and> list_all (\<lambda>s. sel_id s \<noteq> 0) (rs_sel r)"

lemma signals_ok: "ascending None (signals_fields r)" "length (signals_fields r) = (if is_everything r then 2 else 3)"
  "shallow 7 (signals_fields r)" "known 3 (signals_fields r)"
proof -
  have "level_room 1 (map (\<lambda>s. map_item (sel_fields s)) (rs_sel r))"
    by (auto simp: level_room_def)
  from array_depth [OF this] show "shallow 7 (signals_fields r)"
    by (simp add: signals_fields_def del: item_depth.simps(1))
qed (simp_all add: signals_fields_def good_key_def is_everything_def)

lemma signals_encode_writes:
  assumes "length (map_bytes (signals_fields r)) \<le> length dst" and "length dst \<le> usize_max"
  shows "signals_encode r dst = (Inr (length (map_bytes (signals_fields r))), splice dst 0 (map_bytes (signals_fields r)))"
proof -
  have "writes_pairs (andthen (wr_key 1) (\<lambda>_. andthen (wr_u64 (ucast (rs_rev r))) (\<lambda>_.
     andthen (if \<not> is_everything r then andthen (wr_key 2) (\<lambda>_. andthen (wr_array (length (rs_sel r))) (\<lambda>_. for_each sel_encode (rs_sel r)))
              else ret ()) (\<lambda>_.
     andthen (wr_key 3) (\<lambda>_. wr_u64 (ucast (rs_from r))))))) (signals_fields r)"
    unfolding signals_fields_def is_everything_def
    by (intro item_rules writes_append writes_array [where err = "\<lambda>e. e", unfolded map_err_id] sel_writes) simp_all
  then show ?thesis
    unfolding signals_encode_def by (intro encodes_fields [OF _ signals_ok(1,3) _ assms]) (simp_all add: signals_ok(2))
qed

lemma signals_field_simps:
  "signals_field s 1 = andthen (map_err Re_Cbor rd_u32) (\<lambda>v. andthen (once (Re_Duplicate 1) (rsq_rev s) v) (\<lambda>t. ret (s\<lparr>rsq_rev := t\<rparr>)))"
  "signals_field s 2 = andthen (once (Re_Duplicate 2) (rsq_selectors s) ()) (\<lambda>t.
     andthen (map_err Re_Cbor rd_array) (\<lambda>count.
     if MAX_SELECTORS < count then fail Re_TooManySelectors
     else andthen (repeat_act count sel_step (rsq_out s)) (\<lambda>out. ret (s\<lparr>rsq_selectors := t, rsq_out := out\<rparr>))))"
  "signals_field s 3 = andthen (map_err Re_Cbor rd_u16) (\<lambda>v. andthen (once (Re_Duplicate 3) (rsq_from s) v) (\<lambda>t. ret (s\<lparr>rsq_from := t\<rparr>)))"
  "3 < k \<Longrightarrow> signals_field s k = skipped Re_Cbor s"
  by (simp_all add: signals_field_def)

lemma selectors_read:
  assumes "list_all (\<lambda>s. sel_id s \<noteq> 0) ss" and "length ss \<le> MAX_SELECTORS"
  shows "reads_items sel_step (map (\<lambda>s. map_item (sel_fields s)) ss) (signals_everything 0 0) \<lparr>rs_rev = 0, rs_from = 0, rs_sel = ss\<rparr>"
proof -
  have "reads_items sel_step (map (\<lambda>s. map_item (sel_fields s)) ss) \<lparr>rs_rev = 0, rs_from = 0, rs_sel = []\<rparr> \<lparr>rs_rev = 0, rs_from = 0, rs_sel = ss\<rparr>"
  proof (rule reads_items_map [where g = "\<lambda>ss. \<lparr>rs_rev = 0, rs_from = 0, rs_sel = ss\<rparr>"])
    fix i acc assume i: "i < length ss" "acc = \<lparr>rs_rev = 0, rs_from = 0, rs_sel = take i ss\<rparr>"
    then have "sel_id (ss ! i) \<noteq> 0"
      using assms(1) by (simp add: list_all_length)
    then show "reads_item (sel_step acc) (map_item (sel_fields (ss ! i))) \<lparr>rs_rev = 0, rs_from = 0, rs_sel = take (Suc i) ss\<rparr>"
      unfolding sel_step_def
      by (rule reads_then [OF sel_reads]) (use i assms(2) in \<open>simp add: signals_select_def take_Suc_conv_app_nth\<close>)
  qed
  then show ?thesis
    by (simp add: signals_everything_def)
qed

lemma reads_array_with:
  assumes "reads_items body ts acc acc'" and "f (length ts) = andthen (repeat_act (length ts) body acc) (\<lambda>s. ret (g s))"
  shows "reads_item (andthen (map_err err rd_array) f) (IArray ts) (g acc')"
proof (rule reads_itemI)
  fix r L xs
  assume r: "reading r L (enc_item (IArray ts) @ xs)" "\<not> levels_at_key L" "L \<noteq> []" "length L + item_depth (IArray ts) \<le> NESTING"
  have len: "length (count_levels L) = length L"
    by (cases L) auto
  show "runs (andthen (map_err err rd_array) f) r (\<lambda>x r'. x = g acc' \<and> reading r' (settle_levels (count_levels L)) xs)"
  proof (rule runs_andthen, rule runs_map_err, rule read_array_rule)
    show "reading r L (head_bytes Array (of_nat (length ts)) @ item_list_bytes ts @ xs)"
      using r(1) by (simp add: array_bytes del: enc_item.simps)
    show "length ts \<le> length (item_list_bytes ts @ xs)"
      using enc_items_length [of ts] by (simp add: item_list_bytes_def)
    fix r'
    assume "reading r' (settle_levels ((NArray, length ts, None) # count_levels L)) (item_list_bytes ts @ xs)"
    then have "runs (repeat_act (length ts) body acc) r' (\<lambda>x r'. x = acc' \<and> reading r' (settle_levels (count_levels L)) xs)"
      using assms(1) r(4) len level_room_array [of ts] by (intro repeat_reads [where room = "item_depth (IArray ts) - 1"]) simp_all
    then show "runs (f (length ts)) r' (\<lambda>x r'. x = g acc' \<and> reading r' (settle_levels (count_levels L)) xs)"
      unfolding assms(2) by (auto intro!: runs_andthen elim: runs_weaken)
  qed (use r in simp_all)
qed

lemma signals_reads:
  assumes "signals_valid r"
  shows "reads_pairs signals_field (signals_fields r) signals_empty
    \<lparr>rsq_rev = Some (rs_rev r), rsq_from = Some (rs_from r), rsq_out = \<lparr>rs_rev = 0, rs_from = 0, rs_sel = rs_sel r\<rparr>,
     rsq_selectors = (if rs_sel r \<noteq> [] then Some () else None)\<rparr>"
proof (cases "rs_sel r = []")
  case True
  show ?thesis
    unfolding signals_fields_def True
    by (simp del: reads_pairs.simps, rule reads_eq, (rule reads_Nil | rule reads_Cons | simp only: signals_field_simps | rule slot_rules
        | rule item_rules | simp add: signals_empty_def signals_everything_def; fail)+)
next
  case False
  have two: "reads_item (signals_field s 2) (IArray (map (\<lambda>s. map_item (sel_fields s)) (rs_sel r)))
      (s\<lparr>rsq_selectors := Some (), rsq_out := \<lparr>rs_rev = 0, rs_from = 0, rs_sel = rs_sel r\<rparr>\<rparr>)"
    if "rsq_selectors s = None" "rsq_out s = signals_everything 0 0" for s
  proof -
    have "reads_item (andthen (map_err Re_Cbor rd_array) (\<lambda>count. if MAX_SELECTORS < count then fail Re_TooManySelectors
        else andthen (repeat_act count sel_step (rsq_out s)) (\<lambda>out. ret (s\<lparr>rsq_selectors := Some (), rsq_out := out\<rparr>))))
      (IArray (map (\<lambda>s. map_item (sel_fields s)) (rs_sel r))) (s\<lparr>rsq_selectors := Some (), rsq_out := \<lparr>rs_rev = 0, rs_from = 0, rs_sel = rs_sel r\<rparr>\<rparr>)"
      by (rule reads_array_with [OF selectors_read, where g = "\<lambda>out. s\<lparr>rsq_selectors := Some (), rsq_out := out\<rparr>"])
        (use assms that in \<open>simp_all add: signals_valid_def\<close>)
    then show ?thesis
      by (simp add: signals_field_simps once_def that)
  qed
  show ?thesis
    unfolding signals_fields_def using False
    by (simp del: reads_pairs.simps) (rule reads_eq, (rule reads_Nil | rule reads_Cons | rule two | simp only: signals_field_simps(1,3) | rule slot_rules
        | rule item_rules | simp add: signals_empty_def; fail)+)
qed

interpretation signals: body_codec signals_encode signals_decode signals_fields signals_valid 3
proof
  fix x and dst :: bytes
  assume "length (map_bytes (signals_fields x)) \<le> length dst" "length dst \<le> usize_max"
  then show "signals_encode x dst = (Inr (length (map_bytes (signals_fields x))), splice dst 0 (map_bytes (signals_fields x)))"
    by (rule signals_encode_writes)
next
  fix x fs
  assume x: "signals_valid x" "extends 3 INNER fs" "length (map_bytes (signals_fields x @ fs)) \<le> usize_max"
  have "signals_complete \<lparr>rsq_rev = Some (rs_rev x), rsq_from = Some (rs_from x), rsq_out = \<lparr>rs_rev = 0, rs_from = 0, rs_sel = rs_sel x\<rparr>,
     rsq_selectors = (if rs_sel x \<noteq> [] then Some () else None)\<rparr> = ret x" (is "signals_complete ?s = _")
    by (cases x) (simp add: signals_complete_def ret_def [abs_def])
  then have "fst (andthen (finishing Re_Cbor) (\<lambda>_. signals_complete ?s) r) = Inr x" if "reading r [] []" for r
    by (simp add: finishing_done [OF that])
  then show "signals_decode (map_bytes (signals_fields x @ fs)) = Inr x"
    unfolding signals_decode_def
    by (intro decodes_fields_sum [OF signals_reads [OF x(1)] signals_ok(1,3,4) x(2) _ x(3)]) (simp_all add: signals_field_simps)
qed

definition signals_kept :: "signals_slots \<Rightarrow> bool" where
  "signals_kept s \<longleftrightarrow> signals_valid (rsq_out s)"

lemma sel_yields: "yields (\<lambda>s. sel_id s \<noteq> 0) sel_decode"
proof (rule yieldsI)
  fix r x t assume "sel_decode r = (Inr x, t)"
  then show "sel_id x \<noteq> 0"
    unfolding sel_decode_def
    by (auto elim!: andthen_InrE lift_sum_InrE split: if_splits simp: reading_id_iff)
qed

lemma sel_step_yields:
  assumes "signals_valid out"
  shows "yields signals_valid (sel_step out)"
proof (rule yieldsI)
  fix r x t assume "sel_step out r = (Inr x, t)"
  then obtain s u where "sel_decode r = (Inr s, u)" and x: "signals_select s out = (Inr (), x)"
    by (auto simp: sel_step_def elim!: andthen_InrE split: prod.splits sum.splits)
  then have "sel_id s \<noteq> 0"
    using sel_yields by (auto simp: yields_def)
  then show "signals_valid x"
    using x assms by (auto simp: signals_select_def signals_valid_def split: if_splits)
qed

interpretation signals: faithful_codec signals_encode signals_decode signals_fields signals_valid 3
proof
  fix bs x assume "signals_decode bs = Inr x"
  moreover have "signals_kept signals_empty"
    by (simp add: signals_kept_def signals_empty_def signals_everything_def signals_valid_def)
  moreover have "signals_kept s'" if "signals_field s k r = (Inr s', t)" "signals_kept s" for s k r s' t
  proof -
    have loop: "yields signals_valid (repeat_act n sel_step out)" if "signals_valid out" for n out
      using that by (induction n arbitrary: out) (auto intro: yields_andthen sel_step_yields)
    have "signals_valid (rsq_out s)"
      using that(2) by (simp add: signals_kept_def)
    note ends = yieldsD [OF loop [OF this]]
    show ?thesis
      using that unfolding signals_field_def signals_kept_def
      by (auto elim!: plain_slot_InrE slot_InrE skipped_InrE andthen_InrE split: if_splits) (erule ends)
  qed
  ultimately obtain slots s t where "signals_kept slots" "signals_complete slots s = (Inr x, t)"
    unfolding signals_decode_def by (elim body_InrE [where P = signals_kept]) blast+
  then show "signals_valid x"
    by (auto simp: signals_complete_def signals_kept_def signals_valid_def elim!: andthen_InrE)
qed

section \<open>The page, row by row\<close>

text \<open>A row is one signal's reading, of either kind; what a page holds is the list of the rows it took.\<close>

datatype signal_row = Scalar sample | Elements series

primrec row_is_series :: "signal_row \<Rightarrow> bool" where
  "row_is_series (Scalar _) = False"
| "row_is_series (Elements _) = True"

primrec row_sig :: "signal_row \<Rightarrow> ident" where
  "row_sig (Scalar x) = sm_sig x"
| "row_sig (Elements x) = se_sig x"

primrec row_fields :: "signal_row \<Rightarrow> (int \<times> item) list" where
  "row_fields (Scalar x) = sample_fields x"
| "row_fields (Elements x) = series_fields (se_sig x) (se_q x) (se_values x) (se_age x)"

primrec row_valid :: "signal_row \<Rightarrow> bool" where
  "row_valid (Scalar x) \<longleftrightarrow> sample_valid x"
| "row_valid (Elements x) \<longleftrightarrow> series_valid x"

primrec push_row :: "signal_row \<Rightarrow> (readings_page, readings_error, bool) act" where
  "push_row (Scalar x) = push_sample x"
| "push_row (Elements x) = push_series x"

definition row_item :: "signal_row \<Rightarrow> item" where
  "row_item r = map_item (row_fields r)"

definition rows_of :: "bool \<Rightarrow> signal_row list \<Rightarrow> signal_row list" where
  "rows_of series = filter (\<lambda>r. row_is_series r = series)"

lemma rows_of_simps [simp]:
  "rows_of series [] = []" "rows_of series (r # rs) = (if row_is_series r = series then r # rows_of series rs else rows_of series rs)"
  "rows_of series (rs @ ss) = rows_of series rs @ rows_of series ss"
  by (simp_all add: rows_of_def)

lemma rows_of_total: "length (rows_of False rs) + length (rows_of True rs) = length rs"
  by (induction rs) auto

definition page_holds :: "readings_page \<Rightarrow> signal_row list \<Rightarrow> bool" where
  "page_holds p rs \<longleftrightarrow> list_all row_valid rs \<and>
     length (pg_scratch p) = MAX_READINGS_BYTES \<and> length (pg_slots p) = MAX_READINGS_ROWS \<and>
     pg_samples p = length (rows_of False rs) \<and> pg_series p = length (rows_of True rs) \<and>
     pg_samples p \<le> MAX_SAMPLES \<and> pg_series p \<le> MAX_SERIES \<and>
     take (length rs) (pg_slots p) = map (\<lambda>r. (length (enc_item (row_item r)), row_is_series r)) rs \<and>
     pg_used p = length (item_list_bytes (map row_item rs)) \<and> pg_used p \<le> MAX_READINGS_BYTES \<and>
     take (pg_used p) (pg_scratch p) = item_list_bytes (map row_item rs)"

lemma page_holds_new: "page_holds readings_page_new []"
  by (simp add: page_holds_def readings_page_new_def)

lemma series_valid_parts:
  assumes "series_valid s"
  shows "list_all fits_i32 (se_values s)" and "length (se_q s) \<le> MAX_SERIES_LEN"
  using assms by (auto simp: series_valid_def series_new_def Let_def split: if_splits)

lemma row_fields_ok:
  assumes "row_valid r"
  shows "ascending None (row_fields r)" and "shallow 1 (row_fields r)" and "wf_item (row_item r)" and "item_depth (row_item r) \<le> 2"
    and "length (enc_item (row_item r)) \<le> (if row_is_series r then SERIES_MAX_BYTES else SAMPLE_MAX_BYTES)"
proof -
  show up: "ascending None (row_fields r)"
    by (cases r) (simp_all add: sample_ok series_ok)
  show low: "shallow 1 (row_fields r)"
  proof (cases r)
    case (Scalar x)
    then show ?thesis
      by (cases "sm_value x"; cases "sm_age x"; simp add: sample_fields_def)
  next
    case (Elements x)
    then show ?thesis
      using series_ok(3) by simp
  qed
  show "item_depth (row_item r) \<le> 2"
    using depth_map_item [OF low] by (simp add: row_item_def)
  have "wf_item (snd f)" if "f \<in> set (row_fields r)" for f
    using that by (cases r) (auto simp: sample_fields_def series_fields_def list_all_iff split: option.splits)
  then show "wf_item (row_item r)"
    unfolding row_item_def by (intro wf_map_item [OF up]) blast
  show "length (enc_item (row_item r)) \<le> (if row_is_series r then SERIES_MAX_BYTES else SAMPLE_MAX_BYTES)"
  proof (cases r)
    case (Scalar x)
    then show ?thesis
      using assms sample_size [of x] by (simp add: row_item_def sample_valid_def del: enc_item.simps)
  next
    case (Elements s)
    then show ?thesis
      using assms series_size [of s] by (simp add: row_item_def map_bytes_def del: enc_item.simps)
  qed
qed

lemma row_writes:
  assumes "row_valid r"
  shows "writes_item (case r of Scalar x \<Rightarrow> sample_encode x | Elements x \<Rightarrow> series_encode x (replicate MAX_SERIES_LEN 0)) (row_item r)"
proof (cases r)
  case (Scalar x)
  then show ?thesis
    using assms sample_writes [of x] by (simp add: row_item_def sample_valid_def)
next
  case (Elements s)
  then show ?thesis
    using assms series_writes [of s "replicate MAX_SERIES_LEN 0"] series_valid_parts [of s] by (simp add: row_item_def)
qed

lemma row_encodes:
  assumes "row_valid r" and "length (enc_item (row_item r)) \<le> length dst" and "length dst \<le> usize_max"
  shows "encoding Re_Cbor (map_err Re_Cbor (case r of Scalar x \<Rightarrow> sample_encode x | Elements x \<Rightarrow> series_encode x (replicate MAX_SERIES_LEN 0))) dst =
    (Inr (length (enc_item (row_item r))), splice dst 0 (enc_item (row_item r)))"
proof -
  have "shallow 7 (row_fields r)"
    using row_fields_ok(2) [OF assms(1)] by (auto simp: shallow_def)
  from encodes_item [OF writes_item_err [OF row_writes [OF assms(1), unfolded row_item_def]] this] assms(2,3) show ?thesis
    by (simp add: row_item_def map_bytes_def del: enc_item.simps)
qed

text \<open>Why a page turns a row away: its kind's cap, or the bytes left.\<close>

definition page_full :: "readings_page \<Rightarrow> signal_row \<Rightarrow> bool" where
  "page_full p r \<longleftrightarrow> (if row_is_series r then MAX_SERIES \<le> pg_series p else MAX_SAMPLES \<le> pg_samples p) \<or>
     MAX_READINGS_BYTES < pg_used p + length (enc_item (row_item r))"

lemma take_snoc_update: "length xs < length ys \<Longrightarrow> take (length xs) ys = xs \<Longrightarrow> take (Suc (length xs)) (ys[length xs := y]) = xs @ [y]"
  by (simp add: take_Suc_conv_app_nth)

lemma keep_row_fits:
  assumes "page_holds p rs" and "row_valid r" and "\<not> page_full p r" and "take (length (enc_item (row_item r))) row = enc_item (row_item r)"
    and "length (enc_item (row_item r)) \<le> length row"
  obtains q where "keep_row row (length (enc_item (row_item r))) (row_is_series r) p = (Inr True, q)"
    and "pg_samples q = pg_samples p" and "pg_series q = pg_series p" and "pg_next q = pg_next p"
    and "page_holds (if row_is_series r then q\<lparr>pg_series := Suc (pg_series p)\<rparr> else q\<lparr>pg_samples := Suc (pg_samples p)\<rparr>) (rs @ [r])"
proof -
  let ?e = "enc_item (row_item r)" and ?u = "pg_used p"
  note p = assms(1) [unfolded page_holds_def]
  have caps: "?u + length ?e \<le> MAX_READINGS_BYTES" "length rs < MAX_READINGS_ROWS" "pg_samples p + pg_series p = length rs"
    using assms(1,3) rows_of_total [of rs] by (auto simp: page_full_def page_holds_def MAX_READINGS_ROWS_def split: if_splits)
  have small: "?u + length ?e \<le> usize_max" "length rs \<le> usize_max"
    using caps(1,2) by (simp_all add: limit_defs MAX_READINGS_ROWS_def usize_max_def)
  let ?q = "p\<lparr>pg_scratch := splice (pg_scratch p) ?u ?e, pg_slots := (pg_slots p)[length rs := (length ?e, row_is_series r)],
      pg_used := ?u + length ?e\<rparr>"
  have "keep_row row (length ?e) (row_is_series r) p = (Inr True, ?q)"
    using caps small p assms(4,5) by (simp add: keep_row_def slice_def Let_def)
  moreover have "page_holds (if row_is_series r then ?q\<lparr>pg_series := Suc (pg_series p)\<rparr> else ?q\<lparr>pg_samples := Suc (pg_samples p)\<rparr>) (rs @ [r])"
    using p caps assms(2,3) take_splice_end [of ?u ?e "pg_scratch p"]
      take_snoc_update [of "map (\<lambda>r. (length (enc_item (row_item r)), row_is_series r)) rs" "pg_slots p"]
    by (auto simp: page_holds_def page_full_def item_list_bytes_def)
  ultimately show ?thesis
    by (intro that [of ?q]) simp_all
qed

lemma keep_row_full:
  assumes "page_holds p rs" and "MAX_READINGS_BYTES < pg_used p + length (enc_item (row_item r))" and "row_valid r"
  shows "keep_row row (length (enc_item (row_item r))) k p = (Inr False, p)"
proof -
  have "length (enc_item (row_item r)) \<le> SERIES_MAX_BYTES \<or> length (enc_item (row_item r)) \<le> SAMPLE_MAX_BYTES"
    using row_fields_ok(5) [OF assms(3)] by (auto split: if_splits)
  then have "pg_used p + length (enc_item (row_item r)) \<le> usize_max"
    using assms(1) by (auto simp: page_holds_def limit_defs usize_max_def)
  then show ?thesis
    using assms(2) by (simp add: keep_row_def Let_def)
qed

text \<open>A push takes the row whole and leaves the cursor, or leaves the page and points the cursor at the row.\<close>

lemma push_row_exact:
  assumes "page_holds p rs" and "row_valid r"
  obtains (taken) q where "\<not> page_full p r" and "push_row r p = (Inr True, q)" and "page_holds q (rs @ [r])" and "pg_next q = pg_next p"
    | (turned) "page_full p r" and "push_row r p = (Inr False, p\<lparr>pg_next := row_sig r\<rparr>)"
proof -
  let ?len = "length (enc_item (row_item r))" and ?one = "replicate (if row_is_series r then SERIES_MAX_BYTES else SAMPLE_MAX_BYTES) (0 :: u8)"
  let ?bs = "splice ?one 0 (enc_item (row_item r))"
  have fits: "?len \<le> length ?one" "length ?one \<le> usize_max"
    using row_fields_ok(5) [OF assms(2)] by (simp_all add: limit_defs usize_max_def)
  note enc = row_encodes [OF assms(2) fits]
  have row: "take ?len ?bs = enc_item (row_item r)" "?len \<le> length ?bs"
    using fits(1) by (simp_all add: splice_def)
  have push: "push_row r p =
     (if (if row_is_series r then MAX_SERIES \<le> pg_series p else MAX_SAMPLES \<le> pg_samples p) then (Inr False, p\<lparr>pg_next := row_sig r\<rparr>)
      else case keep_row ?bs ?len (row_is_series r) p of
          (Inl why, p') \<Rightarrow> (Inl why, p')
        | (Inr False, p') \<Rightarrow> (Inr False, p'\<lparr>pg_next := row_sig r\<rparr>)
        | (Inr True, p') \<Rightarrow> (Inr True, if row_is_series r then p'\<lparr>pg_series := saturating_add (pg_series p') 1\<rparr>
                                    else p'\<lparr>pg_samples := saturating_add (pg_samples p') 1\<rparr>))"
    using enc by (cases r) (simp_all add: push_sample_def push_series_def split: prod.split sum.split bool.split)
  show ?thesis
  proof (cases "page_full p r")
    case True
    show ?thesis
      by (rule turned [OF True]) (use True push keep_row_full [OF assms(1) _ assms(2), of ?bs "row_is_series r"] in \<open>auto simp: page_full_def\<close>)
  next
    case False
    obtain q where q: "keep_row ?bs ?len (row_is_series r) p = (Inr True, q)"
      "pg_samples q = pg_samples p" "pg_series q = pg_series p" "pg_next q = pg_next p"
      "page_holds (if row_is_series r then q\<lparr>pg_series := Suc (pg_series p)\<rparr> else q\<lparr>pg_samples := Suc (pg_samples p)\<rparr>) (rs @ [r])"
      by (rule keep_row_fits [OF assms False row])
    have small: "Suc (pg_series p) \<le> usize_max" "Suc (pg_samples p) \<le> usize_max"
      using assms(1) by (simp_all add: page_holds_def limit_defs usize_max_def)
    show ?thesis
      by (rule taken [OF False _ q(5)]) (use False push q(1-4) small in \<open>simp_all add: page_full_def split: if_splits\<close>)
  qed
qed

section \<open>The rows on the wire\<close>

lemma raw_of_item:
  assumes "wf_item t" and "item_depth t \<le> 7" and "length (enc_item t) \<le> usize_max"
  shows "fst (rd_raw (reader_over (enc_item t))) = Inr (enc_item t)"
proof -
  have "reading (reader_over (enc_item t)) [] (enc_item t @ [])"
    using reading_over [OF assms(3)] by simp
  then have "runs rd_raw (reader_over (enc_item t)) (\<lambda>x r. x = enc_item t)"
    by (rule raw_rule [OF _ assms(1)]) (use assms(2) in \<open>simp_all add: NESTING_val\<close>)
  then show ?thesis
    by (auto simp: runs_def)
qed

lemma array_rows_eq:
  assumes "scratch = pre @ item_list_bytes (map row_item rs) @ post" and "length scratch \<le> usize_max" and "list_all row_valid rs"
  shows "array_rows scratch k (map (\<lambda>r. (length (enc_item (row_item r)), row_is_series r)) rs) (length pre) =
    for_each (\<lambda>r. map_err Re_Cbor (wr_raw (enc_item (row_item r)))) (rows_of k rs)"
  using assms
proof (induction rs arbitrary: pre)
  case (Cons r rs)
  let ?e = "enc_item (row_item r)"
  have len: "length pre + length ?e \<le> usize_max" "length ?e \<le> usize_max"
    using Cons.prems(1,2) by simp_all
  have "slice scratch (length pre) (length pre + length ?e) = Some ?e"
    using Cons.prems(1) by (simp add: slice_def)
  moreover have "fst (rd_raw (reader_over ?e)) = Inr ?e"
    using row_fields_ok(3,4) [of r] Cons.prems(3) len(2) by (intro raw_of_item) auto
  moreover have "array_rows scratch k (map (\<lambda>r. (length (enc_item (row_item r)), row_is_series r)) rs) (length (pre @ ?e)) =
      for_each (\<lambda>r. map_err Re_Cbor (wr_raw (enc_item (row_item r)))) (rows_of k rs)"
    using Cons.prems by (intro Cons.IH) simp_all
  ultimately show ?case
    using len by (simp add: Let_def)
qed simp

lemma page_array_writes:
  assumes "page_holds p rs"
  shows "writes_item (page_array p k) (IArray (map row_item (rows_of k rs)))"
proof -
  note p = assms [unfolded page_holds_def]
  have count: "pg_samples p + pg_series p = length rs" "(if k then pg_series p else pg_samples p) = length (rows_of k rs)"
    using p rows_of_total [of rs] by auto
  have small: "length rs \<le> usize_max" "length (pg_scratch p) \<le> usize_max"
    using p count(1) by (simp_all add: limit_defs usize_max_def)
  have "pg_scratch p = [] @ item_list_bytes (map row_item rs) @ drop (pg_used p) (pg_scratch p)"
    using p by (metis append_Nil append_take_drop_id)
  from array_rows_eq [OF this small(2), of k] have rows:
    "array_rows (pg_scratch p) k (map (\<lambda>r. (length (enc_item (row_item r)), row_is_series r)) rs) 0 =
      for_each (\<lambda>r. map_err Re_Cbor (wr_raw (enc_item (row_item r)))) (rows_of k rs)"
    using p by simp
  have "writes_item (map_err Re_Cbor (wr_raw (enc_item (row_item r)))) (row_item r)" if "r \<in> set (rows_of k rs)" for r
    using that p row_fields_ok(3) [of r] by (intro writes_item_err writes_raw) (auto simp: rows_of_def list_all_iff)
  then show ?thesis
    unfolding page_array_def using count small p rows by (simp add: writes_array)
qed

definition rows_field :: "int \<Rightarrow> signal_row list \<Rightarrow> (int \<times> item) list" where
  "rows_field k rs = (if rs \<noteq> [] then [(k, IArray (map row_item rs))] else [])"

definition answer_fields :: "readings_body \<Rightarrow> u16 \<Rightarrow> signal_row list \<Rightarrow> (int \<times> item) list" where
  "answer_fields b resume rs =
     [(1, IUint (rb_seq b)), (2, IUint (ucast (rb_rev b)))] @
     (case rb_at b of Some v \<Rightarrow> [(3, IUint v)] | None \<Rightarrow> []) @
     rows_field 4 (rows_of False rs) @ rows_field 5 (rows_of True rs) @
     [(6, IUint (ucast resume)), (7, IUint (ucast (rb_total b))), (8, IUint (ucast (readings_outcome_num (rb_outcome b))))]"

text \<open>The page a body shows: what it holds and where its cursor stands; none, when nothing was answered.\<close>

definition shows_rows :: "readings_body \<Rightarrow> u16 \<Rightarrow> signal_row list \<Rightarrow> bool" where
  "shows_rows b resume rs \<longleftrightarrow>
     (case rb_page b of
        Some p \<Rightarrow> page_holds p rs \<and> (if rb_outcome b = Rdo_Ok then resume = pg_next p else rs = [] \<and> resume = 0)
      | None \<Rightarrow> rs = [] \<and> resume = 0)"

lemma answer_ok:
  assumes "list_all row_valid rs"
  shows "ascending None (answer_fields b resume rs)" and "shallow 7 (answer_fields b resume rs)" and "known 8 (answer_fields b resume rs)"
    and "length (answer_fields b resume rs) = 5 + of_bool (rb_at b \<noteq> None) + of_bool (rows_of False rs \<noteq> []) + of_bool (rows_of True rs \<noteq> [])"
proof -
  have "level_room 2 (map row_item (rows_of k rs))" for k
    using assms row_fields_ok(4) by (auto simp: level_room_def list_all_iff rows_of_def)
  then have "item_depth (IArray (map row_item (rows_of k rs))) \<le> 7" for k
    by (rule order_trans [OF array_depth]) simp
  then show "shallow 7 (answer_fields b resume rs)"
    by (cases "rb_at b") (auto simp: answer_fields_def rows_field_def simp del: item_depth.simps(1))
qed (cases "rb_at b"; simp add: answer_fields_def rows_field_def good_key_def)+

lemma readings_answer_writes:
  assumes "shows_rows b resume rs" and "length (map_bytes (answer_fields b resume rs)) \<le> length dst" and "length dst \<le> usize_max"
  shows "readings_body_encode b dst = (Inr (length (map_bytes (answer_fields b resume rs))), splice dst 0 (map_bytes (answer_fields b resume rs)))"
proof -
  let ?page = "if rb_outcome b = Rdo_Ok then rb_page b else None"
  let ?samples = "rows_of False rs \<noteq> []" and ?series = "rows_of True rs \<noteq> []"
  have valid: "list_all row_valid rs"
    using assms(1) by (auto simp: shows_rows_def page_holds_def split: option.splits)
  have empty: "\<not> (rb_outcome b \<noteq> Rdo_Ok \<and> (case rb_page b of Some p \<Rightarrow> \<not> readings_page_empty p | None \<Rightarrow> False))"
    using assms(1) by (auto simp: shows_rows_def page_holds_def readings_page_empty_def split: option.splits if_splits)
  have shown: "(case ?page of Some p \<Rightarrow> pg_next p | None \<Rightarrow> 0) = resume"
    "(case ?page of Some p \<Rightarrow> 0 < pg_samples p | None \<Rightarrow> False) = ?samples"
    "(case ?page of Some p \<Rightarrow> 0 < pg_series p | None \<Rightarrow> False) = ?series"
    using assms(1) by (auto simp: shows_rows_def page_holds_def split: option.splits if_splits)
  have arrays: "writes_item (page_array (the ?page) k) (IArray (map row_item (rows_of k rs)))" if "rows_of k rs \<noteq> []" for k
  proof -
    have "page_holds (the ?page) rs"
      using assms(1) that by (auto simp: shows_rows_def split: option.splits if_splits)
    then show ?thesis
      by (rule page_array_writes)
  qed
  have pairs: "writes_pairs (
      andthen (map_err Re_Cbor (wr_key 1)) (\<lambda>_. andthen (map_err Re_Cbor (wr_u64 (rb_seq b))) (\<lambda>_.
      andthen (map_err Re_Cbor (wr_key 2)) (\<lambda>_. andthen (map_err Re_Cbor (wr_u64 (ucast (rb_rev b)))) (\<lambda>_.
      andthen (case rb_at b of
          Some at \<Rightarrow> andthen (map_err Re_Cbor (wr_key 3)) (\<lambda>_. map_err Re_Cbor (wr_u64 at)) | None \<Rightarrow> ret ()) (\<lambda>_.
      andthen (if ?samples then andthen (map_err Re_Cbor (wr_key 4)) (\<lambda>_. page_array (the ?page) False) else ret ()) (\<lambda>_.
      andthen (if ?series then andthen (map_err Re_Cbor (wr_key 5)) (\<lambda>_. page_array (the ?page) True) else ret ()) (\<lambda>_.
      andthen (map_err Re_Cbor (wr_key 6)) (\<lambda>_. andthen (map_err Re_Cbor (wr_u64 (ucast resume))) (\<lambda>_.
      andthen (map_err Re_Cbor (wr_key 7)) (\<lambda>_. andthen (map_err Re_Cbor (wr_u64 (ucast (rb_total b)))) (\<lambda>_.
      andthen (map_err Re_Cbor (wr_key 8)) (\<lambda>_. map_err Re_Cbor (wr_u64 (ucast (readings_outcome_num (rb_outcome b)))))))))))))))))
      (answer_fields b resume rs)"
    unfolding answer_fields_def rows_field_def append.simps
    by (intro writes_Cons_err writes_last_err writes_append writes_if writes_option writes_item_err item_rules arrays)
  note whole = encodes_item [OF writes_map_err [OF pairs answer_ok(1) [OF valid] refl] answer_ok(2) [OF valid] assms(2,3), where err = Re_Cbor, of Re_Cbor]
  show ?thesis
    unfolding readings_body_encode_def Let_def shown using empty whole answer_ok(4) [OF valid, of b resume] by simp
qed

section \<open>What a client reads\<close>

lemma rows_counted:
  assumes "list_all row_valid rs"
  shows "reads_item rows_count (IArray (map row_item rs)) (length rs)"
proof -
  have "reads_items (\<lambda>_. map_err Re_Cbor skip) (map row_item rs) () ()"
  proof (rule reads_items_map [where g = "\<lambda>_. ()"])
    fix i and acc :: unit assume i: "i < length rs"
    then have "wf_item (row_item (rs ! i))"
      using assms row_fields_ok(3) by (simp add: list_all_length)
    then show "reads_item (map_err Re_Cbor skip) (row_item (rs ! i)) ()"
      by (intro reads_map_err) (rule reads_itemI, rule skip_rule, auto)
  qed
  from reads_array_with [OF this, where g = "\<lambda>_. length rs"] show ?thesis
    unfolding rows_count_def by simp
qed

lemma header_field_simps:
  "header_field s 1 = andthen (map_err Re_Cbor rd_u64) (\<lambda>v. andthen (once (Re_Duplicate 1) (hq_seq s) v) (\<lambda>t. ret (s\<lparr>hq_seq := t\<rparr>)))"
  "header_field s 2 = andthen (map_err Re_Cbor rd_u32) (\<lambda>v. andthen (once (Re_Duplicate 2) (hq_rev s) v) (\<lambda>t. ret (s\<lparr>hq_rev := t\<rparr>)))"
  "header_field s 3 = andthen (map_err Re_Cbor rd_u64) (\<lambda>v. andthen (once (Re_Duplicate 3) (hq_at s) v) (\<lambda>t. ret (s\<lparr>hq_at := t\<rparr>)))"
  "header_field s 4 = andthen rows_count (\<lambda>v. andthen (once (Re_Duplicate 4) (hq_samples s) v) (\<lambda>t. ret (s\<lparr>hq_samples := t\<rparr>)))"
  "header_field s 5 = andthen rows_count (\<lambda>v. andthen (once (Re_Duplicate 5) (hq_series s) v) (\<lambda>t. ret (s\<lparr>hq_series := t\<rparr>)))"
  "header_field s 6 = andthen (map_err Re_Cbor rd_u16) (\<lambda>v. andthen (once (Re_Duplicate 6) (hq_next s) v) (\<lambda>t. ret (s\<lparr>hq_next := t\<rparr>)))"
  "header_field s 7 = andthen (map_err Re_Cbor rd_u16) (\<lambda>v. andthen (once (Re_Duplicate 7) (hq_total s) v) (\<lambda>t. ret (s\<lparr>hq_total := t\<rparr>)))"
  "header_field s 8 = andthen (map_err Re_Cbor rd_u8) (\<lambda>v. andthen (once (Re_Duplicate 8) (hq_outcome s) v) (\<lambda>t. ret (s\<lparr>hq_outcome := t\<rparr>)))"
  "8 < k \<Longrightarrow> header_field s k = skipped Re_Cbor s"
  by (simp_all add: header_field_def)

definition count_slot :: "signal_row list \<Rightarrow> nat option" where
  "count_slot rs = (if rs \<noteq> [] then Some (length rs) else None)"

lemma header_reads:
  assumes "list_all row_valid rs"
  shows "reads_pairs header_field (answer_fields b resume rs) header_empty
    \<lparr>hq_seq = Some (rb_seq b), hq_rev = Some (rb_rev b), hq_at = rb_at b, hq_next = Some resume, hq_total = Some (rb_total b),
     hq_outcome = Some (readings_outcome_num (rb_outcome b)), hq_samples = count_slot (rows_of False rs), hq_series = count_slot (rows_of True rs)\<rparr>"
proof -
  have valid: "list_all row_valid (rows_of k rs)" for k
    using assms by (simp add: list_all_iff rows_of_def)
  note counted = rows_counted [OF valid]
  have split: "answer_fields b resume rs = [(1, IUint (rb_seq b)), (2, IUint (ucast (rb_rev b)))] @
     (case rb_at b of Some v \<Rightarrow> [(3, IUint v)] | None \<Rightarrow> []) @ rows_field 4 (rows_of False rs) @ rows_field 5 (rows_of True rs) @
     [(6, IUint (ucast resume)), (7, IUint (ucast (rb_total b))), (8, IUint (ucast (readings_outcome_num (rb_outcome b))))]"
    by (simp add: answer_fields_def)
  have four: "reads_item (header_field s 4) (IArray (map row_item (rows_of False rs))) (s\<lparr>hq_samples := Some (length (rows_of False rs))\<rparr>)"
    if "hq_samples s = None" for s
    unfolding header_field_simps by (rule reads_then [OF counted]) (simp add: once_def that ret_def andthen_def fun_eq_iff)
  have five: "reads_item (header_field s 5) (IArray (map row_item (rows_of True rs))) (s\<lparr>hq_series := Some (length (rows_of True rs))\<rparr>)"
    if "hq_series s = None" for s
    unfolding header_field_simps by (rule reads_then [OF counted]) (simp add: once_def that ret_def andthen_def fun_eq_iff)
  show ?thesis
    unfolding split rows_field_def count_slot_def
    apply (cases "rb_at b"; cases "rows_of False rs = []"; cases "rows_of True rs = []")
    by (simp_all del: reads_pairs.simps) (rule reads_eq, (rule reads_Nil | rule reads_Cons | rule four | rule five
      | simp only: header_field_simps(1-3,6-8) | rule slot_rules | rule item_rules | simp add: header_empty_def; fail)+)+
qed

text \<open>The answer is never larger than the header's size and the page's budget.\<close>

lemma rows_split: "length (item_list_bytes (map row_item (rows_of False rs))) + length (item_list_bytes (map row_item (rows_of True rs))) =
    length (item_list_bytes (map row_item rs))"
  by (induction rs) (auto simp: item_list_bytes_def)

lemma few_rows: "n \<le> 255 \<Longrightarrow> width_bytes (width_of (of_nat n)) \<le> 1" "n \<le> 23 \<Longrightarrow> width_bytes (width_of (of_nat n)) = 0"
  by (simp_all add: width_of_def word_le_nat_alt word_less_nat_alt unat_of_nat take_bit_nat_eq_self)

lemma answer_size:
  assumes "shows_rows b resume rs"
  shows "length (map_bytes (answer_fields b resume rs)) \<le> READINGS_HEADER_BYTES + MAX_READINGS_BYTES"
proof -
  have bounds: "length (rows_of False rs) \<le> 40" "length (rows_of True rs) \<le> 7" "length (item_list_bytes (map row_item rs)) \<le> MAX_READINGS_BYTES"
    using assms by (auto simp: shows_rows_def page_holds_def limit_defs item_list_bytes_def split: option.splits)
  have one: "length (field_bytes (rows_field 4 (rows_of False rs))) \<le> 3 + length (item_list_bytes (map row_item (rows_of False rs)))"
    using few_rows(1) [of "length (rows_of False rs)"] bounds(1) by (simp add: rows_field_def array_bytes del: enc_item.simps(1))
  have two: "length (field_bytes (rows_field 5 (rows_of True rs))) \<le> 2 + length (item_list_bytes (map row_item (rows_of True rs)))"
    using few_rows(2) [of "length (rows_of True rs)"] bounds(2) by (simp add: rows_field_def array_bytes del: enc_item.simps(1))
  have "length (answer_fields b resume rs) \<le> 23"
    by (cases "rb_at b") (simp_all add: answer_fields_def rows_field_def)
  then have head: "width_bytes (width_of (of_nat (length (answer_fields b resume rs)))) = 0"
    by (rule few_rows)
  have last: "length (enc_item (IUint (ucast (readings_outcome_num (rb_outcome b))))) = 1"
    by (cases "rb_outcome b") simp_all
  have "length (field_bytes (answer_fields b resume rs)) \<le> 36 + length (field_bytes (rows_field 4 (rows_of False rs))) +
      length (field_bytes (rows_field 5 (rows_of True rs)))"
    using width_bytes_le [of "width_of (rb_seq b)"] width_narrow(3) [of "rb_rev b"] width_bytes_le [of "width_of (the (rb_at b))"]
      width_narrow(2) [of resume] width_narrow(2) [of "rb_total b"] last
    by (cases "rb_at b") (simp_all add: answer_fields_def)
  then show ?thesis
    using one two bounds(3) head rows_split [of rs] by (simp add: map_bytes_eq limit_defs)
qed

text \<open>The callback is handed the scalars, in the order they were pushed.\<close>

definition scalars :: "signal_row list \<Rightarrow> sample list" where
  "scalars rs = List.map_filter (\<lambda>r. case r of Scalar x \<Rightarrow> Some x | Elements _ \<Rightarrow> None) rs"

lemma scalars_simps [simp]:
  "scalars [] = []" "scalars (Scalar x # rs) = x # scalars rs" "scalars (Elements y # rs) = scalars rs"
  by (simp_all add: scalars_def map_filter_simps)

lemma rows_of_scalars: "rows_of False rs = map Scalar (scalars rs)"
proof (induction rs)
  case (Cons r rs)
  then show ?case
    by (cases r) simp_all
qed simp

lemma scalars_valid: "list_all row_valid rs \<Longrightarrow> list_all sample_valid (scalars rs)"
proof (induction rs)
  case (Cons r rs)
  then show ?case
    by (cases r) simp_all
qed simp

lemma deliver_read:
  assumes "list_all sample_valid xs" and "reading r (settle_levels [(NArray, length xs, None)]) (item_list_bytes (map (\<lambda>x. row_item (Scalar x)) xs))"
  shows "deliver (length xs) r = (Inr (), xs)"
  using assms
proof (induction xs arbitrary: r)
  case (Cons x xs)
  have one: "reads_item sample_decode (row_item (Scalar x)) x" "item_depth (row_item (Scalar x)) \<le> 2"
    using Cons.prems(1) sample_reads_item [of x] row_fields_ok(4) [of "Scalar x"] by (simp_all add: row_item_def sample_valid_def)
  have "runs sample_decode r (\<lambda>y r'. y = x \<and> reading r' (settle_levels (count_levels [(NArray, Suc (length xs), None)]))
      (item_list_bytes (map (\<lambda>x. row_item (Scalar x)) xs)))"
    using one(1) [unfolded reads_item_def, rule_format, of r "[(NArray, Suc (length xs), None)]" "item_list_bytes (map (\<lambda>x. row_item (Scalar x)) xs)"]
      one(2) Cons.prems(2) by (simp add: NESTING_val)
  then obtain r' where "sample_decode r = (Inr x, r')" "reading r' (settle_levels [(NArray, length xs, None)]) (item_list_bytes (map (\<lambda>x. row_item (Scalar x)) xs))"
    by (auto simp: runs_def)
  then show ?case
    using Cons by simp
qed simp

lemma samples_field_simps:
  "samples_field s 4 = andthen (map_err Re_Cbor rd_raw) (\<lambda>v. andthen (once (Re_Duplicate 4) s v) (\<lambda>t. ret t))"
  "k \<noteq> 4 \<Longrightarrow> samples_field s k = skipped Re_Cbor s"
  by (simp_all add: samples_field_def)

lemma samples_elsewhere: "(\<And>k t. (k, t) \<in> set fs \<Longrightarrow> k \<noteq> 4 \<and> wf_item t) \<Longrightarrow> reads_pairs samples_field fs s s"
proof (induction fs)
  case (Cons f fs)
  obtain k t where f: "f = (k, t)"
    by (cases f)
  have "reads_item (samples_field s k) t s"
    using Cons.prems [of k t] by (simp add: f samples_field_simps reads_skip)
  moreover have "reads_pairs samples_field fs s s"
    using Cons by (meson list.set_intros(2))
  ultimately show ?case
    unfolding f by (rule reads_Cons)
qed simp

lemma samples_read:
  assumes "list_all row_valid rs"
  shows "reads_pairs samples_field (answer_fields b resume rs) None
    (if rows_of False rs \<noteq> [] then Some (enc_item (IArray (map row_item (rows_of False rs)))) else None)"
proof -
  have split: "answer_fields b resume rs = [(1, IUint (rb_seq b)), (2, IUint (ucast (rb_rev b)))] @
     (case rb_at b of Some v \<Rightarrow> [(3, IUint v)] | None \<Rightarrow> []) @ rows_field 4 (rows_of False rs) @ rows_field 5 (rows_of True rs) @
     [(6, IUint (ucast resume)), (7, IUint (ucast (rb_total b))), (8, IUint (ucast (readings_outcome_num (rb_outcome b))))]"
    by (simp add: answer_fields_def)
  have wf: "wf_item (IArray (map row_item (rows_of k rs)))" for k
    using assms row_fields_ok(3) by (auto simp: list_all_iff rows_of_def)
  have four: "reads_item (samples_field None 4) (IArray (map row_item (rows_of False rs))) (Some (enc_item (IArray (map row_item (rows_of False rs)))))"
    unfolding samples_field_simps by (rule reads_then [OF reads_map_err [OF reads_raw [OF wf]]]) (simp add: once_def ret_def andthen_def fun_eq_iff)
  have tail: "reads_pairs samples_field (rows_field 5 (rows_of True rs) @
      [(6, IUint (ucast resume)), (7, IUint (ucast (rb_total b))), (8, IUint (ucast (readings_outcome_num (rb_outcome b))))]) s s" for s
    using wf [of True] by (intro samples_elsewhere) (auto simp: rows_field_def simp del: wf_item.simps(2) split: if_splits)
  have middle: "reads_pairs samples_field (rows_field 4 (rows_of False rs)) None
      (if rows_of False rs \<noteq> [] then Some (enc_item (IArray (map row_item (rows_of False rs)))) else None)"
    using four by (simp add: rows_field_def del: enc_item.simps)
  have front: "reads_pairs samples_field ([(1, IUint (rb_seq b)), (2, IUint (ucast (rb_rev b)))] @ (case rb_at b of Some v \<Rightarrow> [(3, IUint v)] | None \<Rightarrow> [])) None None"
    by (rule samples_elsewhere) (auto split: option.splits)
  show ?thesis
    unfolding split using reads_pairs_append [OF front reads_pairs_append [OF middle tail]] by simp
qed

lemma answer_walked:
  assumes "shows_rows b resume rs" and "extends 8 INNER fs" and "length (map_bytes (answer_fields b resume rs @ fs)) \<le> usize_max"
  shows "for_each_sample (map_bytes (answer_fields b resume rs @ fs)) = (Inr (length (scalars rs)), scalars rs)"
proof -
  have valid: "list_all row_valid rs"
    using assms(1) by (auto simp: shows_rows_def page_holds_def split: option.splits)
  let ?array = "enc_item (IArray (map row_item (rows_of False rs)))"
  have slot: "decoding (andthen (map_fields Re_Cbor samples_field None) (\<lambda>s. andthen (finishing Re_Cbor) (\<lambda>_. ret s)))
      (map_bytes (answer_fields b resume rs @ fs)) = Inr (if rows_of False rs \<noteq> [] then Some ?array else None)"
    by (rule decodes_fields_sum [OF samples_read [OF valid] answer_ok(1,2,3) [OF valid] assms(2) _ assms(3)])
      (simp_all add: samples_field_simps finishing_done ret_def del: enc_item.simps)
  show ?thesis
  proof (cases "rows_of False rs = []")
    case True
    then show ?thesis
      using slot by (simp add: for_each_sample_def rows_of_scalars)
  next
    case False
    have "length (item_list_bytes (map row_item (rows_of False rs))) \<le> MAX_READINGS_BYTES" "length (rows_of False rs) \<le> 40"
      using assms(1) rows_split [of rs] by (auto simp: shows_rows_def page_holds_def limit_defs item_list_bytes_def split: option.splits)
    then have "length ?array \<le> usize_max"
      using few_rows(1) [of "length (rows_of False rs)"] by (simp add: array_bytes limit_defs usize_max_def del: enc_item.simps)
    then obtain r where r: "rd_array (reader_over ?array) = (Inr (length (scalars rs)), r)"
      "reading r (settle_levels [(NArray, length (scalars rs), None)]) (item_list_bytes (map (\<lambda>x. row_item (Scalar x)) (scalars rs)))"
      using opens_item_array [of "map row_item (rows_of False rs)"] by (auto simp: rows_of_scalars comp_def simp del: enc_item.simps)
    show ?thesis
      using slot False r(1) deliver_read [OF scalars_valid [OF valid] r(2)] by (simp add: for_each_sample_def del: enc_item.simps)
  qed
qed

definition shown_header :: "readings_body \<Rightarrow> u16 \<Rightarrow> signal_row list \<Rightarrow> readings_header" where
  "shown_header b resume rs = \<lparr>rh_seq = rb_seq b, rh_rev = rb_rev b, rh_at = rb_at b, rh_outcome = rb_outcome b, rh_next = resume,
     rh_total = rb_total b, rh_samples = length (rows_of False rs), rh_series = length (rows_of True rs)\<rparr>"

lemma answer_headed:
  assumes "shows_rows b resume rs" and "extends 8 INNER fs" and "length (map_bytes (answer_fields b resume rs @ fs)) \<le> usize_max"
  shows "header_decode (map_bytes (answer_fields b resume rs @ fs)) = Inr (shown_header b resume rs)"
proof -
  have valid: "list_all row_valid rs" and quiet: "rb_outcome b = Rdo_Ok \<or> resume = 0 \<and> rs = []"
    using assms(1) by (auto simp: shows_rows_def page_holds_def split: option.splits)
  let ?s = "\<lparr>hq_seq = Some (rb_seq b), hq_rev = Some (rb_rev b), hq_at = rb_at b, hq_next = Some resume, hq_total = Some (rb_total b),
     hq_outcome = Some (readings_outcome_num (rb_outcome b)), hq_samples = count_slot (rows_of False rs), hq_series = count_slot (rows_of True rs)\<rparr>"
  have known: "allocated readings_outcome_of Re_UnknownOutcome (readings_outcome_num (rb_outcome b)) = Inr (rb_outcome b)"
    by (rule allocatedI) (rule readings_outcome.of_num_of)
  have "(case count_slot xs of Some n \<Rightarrow> n | None \<Rightarrow> 0) = length xs" for xs
    by (simp add: count_slot_def)
  note steps = this header_complete_def shown_header_def ret_def fun_eq_iff andthen_def lift_sum_def Let_def known
  have "header_complete ?s = ret (shown_header b resume rs)"
    using quiet
  proof (elim disjE conjE)
    assume "rb_outcome b = Rdo_Ok"
    then show ?thesis
      using known by (auto simp: steps)
  next
    assume "resume = 0" "rs = []"
    then show ?thesis
      by (simp add: steps)
  qed
  then have "fst (andthen (finishing Re_Cbor) (\<lambda>_. header_complete ?s) r) = Inr (shown_header b resume rs)" if "reading r [] []" for r
    by (simp add: finishing_done [OF that] ret_def)
  then show ?thesis
    unfolding header_decode_def
    by (intro decodes_fields_sum [OF header_reads [OF valid] answer_ok(1,2,3) [OF valid] assms(2) _ assms(3)]) (simp_all add: header_field_simps)
qed

text \<open>A page a caller has pushed rows into: what it took, and the signal of the last row it turned away, or 0.\<close>

inductive page_after :: "readings_page \<Rightarrow> signal_row list \<Rightarrow> u16 \<Rightarrow> bool" where
  empty: "page_after readings_page_new [] 0"
| taken: "page_after p rs c \<Longrightarrow> row_valid r \<Longrightarrow> push_row r p = (Inr True, q) \<Longrightarrow> page_after q (rs @ [r]) c"
| turned: "page_after p rs c \<Longrightarrow> row_valid r \<Longrightarrow> push_row r p = (Inr False, q) \<Longrightarrow> page_after q rs (row_sig r)"

lemma page_holds_cursor: "page_holds (p\<lparr>pg_next := n\<rparr>) rs = page_holds p rs"
  by (simp add: page_holds_def)

lemma page_after_holds: "page_after p rs c \<Longrightarrow> page_holds p rs \<and> pg_next p = c"
proof (induction rule: page_after.induct)
  case empty
  then show ?case
    by (simp add: page_holds_new) (simp add: readings_page_new_def)
next
  case (taken p rs c r q)
  then have "page_holds p rs"
    by simp
  from this taken.hyps(2) show ?case
    by (cases rule: push_row_exact) (use taken in auto)
next
  case (turned p rs c r q)
  then have "page_holds p rs"
    by simp
  from this turned.hyps(2) show ?case
    by (cases rule: push_row_exact) (use turned in \<open>auto simp: page_holds_cursor\<close>)
qed

text \<open>
  A page takes a row whole, or turns it away for its kind's cap or for the bytes left and names it as the place to
  resume; either way it never fails. The answer that carries the page fits the header and the budget, whatever
  later keys stand behind it a client counts its rows and sees where to resume, and the callback is handed
  its scalars in the order they were pushed.
\<close>

theorem readings_page_read_back:
  assumes "page_after p rs c" and "rb_page b = Some p" and "rb_outcome b = Rdo_Ok" and "row_valid r"
    and "READINGS_HEADER_BYTES + MAX_READINGS_BYTES \<le> length dst" and "length dst \<le> usize_max"
    and "extends 8 INNER fs" and "length (map_bytes (answer_fields b c rs @ fs)) \<le> usize_max"
  shows "(\<exists>q. push_row r p = (Inr (\<not> page_full p r), q) \<and> page_after q (if page_full p r then rs else rs @ [r]) (if page_full p r then row_sig r else c)) \<and>
    (\<exists>n out. readings_body_encode b dst = (Inr n, out) \<and> n \<le> READINGS_HEADER_BYTES + MAX_READINGS_BYTES \<and>
      take n out = map_bytes (answer_fields b c rs)) \<and>
    header_decode (map_bytes (answer_fields b c rs @ fs)) = Inr (shown_header b c rs) \<and>
    for_each_sample (map_bytes (answer_fields b c rs @ fs)) = (Inr (length (scalars rs)), scalars rs)"
proof (intro conjI)
  have holds: "page_holds p rs" "pg_next p = c"
    using page_after_holds [OF assms(1)] by simp_all
  then have answer: "shows_rows b c rs"
    using assms(2,3) by (simp add: shows_rows_def)
  show "\<exists>q. push_row r p = (Inr (\<not> page_full p r), q) \<and> page_after q (if page_full p r then rs else rs @ [r]) (if page_full p r then row_sig r else c)"
    by (cases rule: push_row_exact [OF holds(1) assms(4)]) (auto intro: page_after.intros(2,3) [OF assms(1,4)])
  have "length (map_bytes (answer_fields b c rs)) \<le> length dst"
    using answer_size [OF answer] assms(5) by linarith
  then show "\<exists>n out. readings_body_encode b dst = (Inr n, out) \<and> n \<le> READINGS_HEADER_BYTES + MAX_READINGS_BYTES \<and>
      take n out = map_bytes (answer_fields b c rs)"
    using readings_answer_writes [OF answer _ assms(6)] answer_size [OF answer] by (simp add: splice_def)
  show "header_decode (map_bytes (answer_fields b c rs @ fs)) = Inr (shown_header b c rs)"
    by (rule answer_headed [OF answer assms(7,8)])
  show "for_each_sample (map_bytes (answer_fields b c rs @ fs)) = (Inr (length (scalars rs)), scalars rs)"
    by (rule answer_walked [OF answer assms(7,8)])
qed

text \<open>An outcome that answered nothing is neither written nor read with rows or with a cursor beside it.\<close>

lemma header_complete_ok: "header_complete s r = (Inr h, t) \<Longrightarrow> rh_outcome h \<noteq> Rdo_Ok \<Longrightarrow> rh_next h = 0 \<and> rh_samples h = 0 \<and> rh_series h = 0"
  by (auto simp: header_complete_def Let_def elim!: andthen_InrE lift_sum_InrE split: if_splits)

theorem readings_answered_nothing:
  shows "rb_outcome b \<noteq> Rdo_Ok \<Longrightarrow> rb_page b = Some p \<Longrightarrow> \<not> readings_page_empty p \<Longrightarrow>
      readings_body_encode b dst = (Inl (Re_AnsweredNothing (rb_outcome b)), dst)"
    and "header_decode bs = Inr h \<Longrightarrow> rh_outcome h \<noteq> Rdo_Ok \<Longrightarrow> rh_next h = 0 \<and> rh_samples h = 0 \<and> rh_series h = 0"
proof -
  show "readings_body_encode b dst = (Inl (Re_AnsweredNothing (rb_outcome b)), dst)"
    if "rb_outcome b \<noteq> Rdo_Ok" "rb_page b = Some p" "\<not> readings_page_empty p"
    using that by (simp add: readings_body_encode_def)
  show "rh_next h = 0 \<and> rh_samples h = 0 \<and> rh_series h = 0" if h: "header_decode bs = Inr h" "rh_outcome h \<noteq> Rdo_Ok"
  proof -
    obtain slots s t where "header_complete slots s = (Inr h, t)"
      using h(1) unfolding header_decode_def by (elim body_InrE [where P = "\<lambda>_. True"]) auto
    then show ?thesis
      using h(2) by (rule header_complete_ok)
  qed
qed

end
