(* ===== verification/Spec2Isabelle.thy ===== *)
theory Spec2Isabelle
  imports Crc Cobs Limits Frame Ble Registry Utf8 Cbor_Item Body Envelope Time Session Handshake Event Requests Empty Subscribe Drbg Keys Report Enrolment Hello Slots Pairing Invite Vouch Membership ReadLog Command Boot Error_Body Clients Link_Codec Link_Local Link_Bodies Net_Origin Controller_Record Wifi_Scan Wifi_Status Config Config_Messages Buses_Devices Device_Ids Buses_Codec Quality Readings
begin

text \<open>
  A model of \<open>km43\<close>, the bounded, authenticated message protocol between an Origin89 controller
  and its clients (the \<open>no_std\<close> crate \<open>crates/km43\<close>), and the theorems that make it correct.

  \<^bold>\<open>The program.\<close> A message is a deterministic CBOR map under a four-field envelope; it is cut
  into frames for a UART or into values for BLE; once a client is enrolled every message is sealed
  under a key of a session that a Noise handshake opened. All of it runs over buffers the caller
  owns, with no allocation, and every failure is a value. The model keeps all three: an operation
  is a function of the state and the buffer, it returns the result, an error among them, and the
  state and the buffer it leaves.

  \<^bold>\<open>How Rust is read.\<close> \<open>Prelude\<close> holds the vocabulary. \<open>u8\<close> to \<open>u64\<close> are words; \<open>usize\<close> is a
  natural number with \<open>checked_add\<close> and \<open>checked_mul\<close> written out against \<open>usize_max\<close>, the 32-bit
  controller's, the smaller of the two targets; \<open>&mut self\<close> with a \<open>Result\<close> is \<open>('s, 'e, 'a) act\<close>,
  a function to \<open>('e + 'a) \<times> 's\<close>, and \<open>?\<close> is \<open>andthen\<close>; slices are lists, \<open>get\<close> and \<open>get_mut\<close>
  the partial \<open>slice\<close>; a struct is a record, an enum a datatype. \<open>&str\<close> is the bytes of one, with
  \<open>utf8\<close> (\<open>Utf8\<close>) where the code checks or guarantees it. A type whose constructor refuses values
  (\<open>NonZeroU16\<close>, \<open>ClientId\<close>) is its representation with a predicate that names the constructor's
  range.

  \<^bold>\<open>Wire.\<close>
  \<^item> \<open>Crc\<close> (\<open>crc.rs\<close>): the register shifted bit by bit, against remainders of polynomials.
  \<^item> \<open>Cobs\<close> (\<open>cobs.rs\<close>): encoder and in-place decoder as loops over indices, proved equal to list
    functions \<open>enc_run\<close>, \<open>dec_run\<close>, and inverse.
  \<^item> \<open>Frame\<close> (\<open>frame.rs\<close>): writer, byte-fed reader, time-out. \<open>frames_in\<close> cuts a stream at its
    delimiters; the reader refines it, keeps its invariant, and resynchronises at one delimiter.
  \<^item> \<open>Ble\<close> (\<open>ble.rs\<close>): sender and receiver of values. \<open>Receiver\<close> is the locale both transports
    interpret: what one receiver promises the layer above, and what follows for a run of messages.
  \<^item> \<open>Limits\<close> (\<open>limits.rs\<close> and the scalars of \<open>generated.rs\<close>), \<open>Registry\<close> and \<open>Registry_More\<close>
    (\<open>generated.rs\<close>): the caps and the closed enumerations, each one an interpretation of
    \<open>registry_enum\<close>.

  \<^bold>\<open>CBOR\<close> (\<open>cbor.rs\<close>). \<open>Cbor_Nest\<close> is the stack of open containers the two ends share,
  \<open>Cbor_Reader\<close> and \<open>Cbor_Writer\<close> the methods, \<open>Cbor_Wire\<close> writer against reader head by head,
  \<open>Cbor_Item\<close> whole items: trees of heads, taken off by \<open>skip\<close>, copied by \<open>raw\<close>, keys searched
  exactly. Loops over a container's declared length recurse on that number; \<open>skip\<close> is bounded by
  the bytes left, since each head takes one, and the nest by \<open>MAX_DEPTH\<close>, which is where it refuses.
  \<open>Body\<close> is the loop over a map's pairs that every decoder is, with its \<open>once\<close> slots;
  \<open>Field_Rules\<close> the rules by which a decoder's arms and an encoder's lines are read off against a
  list of fields; \<open>Array_Rules\<close> and \<open>Row_Rules\<close> those for optional fields, arrays and lists of rows kept
  as the bytes they arrived in, \<open>Codec_Rules\<close> those for the values bodies share. \<open>Kept\<close> traces a decoded
  value back to the item it was read from, \<open>Refusal_Rules\<close> says what a decoder ends in that reads its
  whole structure before it judges a value. Every codec interprets \<open>body_codec\<close> (what is written is read,
  later keys skipped) and, where nothing else decodes, \<open>faithful_codec\<close>; \<open>Framed\<close> and \<open>Staged\<close> are the
  two ways a body is written, in an envelope and over an array of zeros.

  \<^bold>\<open>Envelope and bodies.\<close> \<open>Envelope\<close> (\<open>envelope.rs\<close>): header, client and link envelopes, the refusal a
  failure is answered with. \<open>Time\<close> (\<open>time.rs\<close>), \<open>Event\<close> (\<open>event.rs\<close>), \<open>Empty\<close> (\<open>empty.rs\<close>),
  \<open>Subscribe\<close> (\<open>subscribe.rs\<close>), \<open>Report\<close> (\<open>handshake.rs\<close>: discovery, the report, the prologue),
  \<open>Requests\<close> (\<open>admission.rs\<close>, \<open>signed.rs\<close>, \<open>routing.rs\<close>), \<open>ReadLog\<close> (\<open>readlog.rs\<close>: pages whose
  cursor only \<open>push\<close> moves), \<open>Command\<close> (\<open>command.rs\<close>), \<open>Boot\<close> (\<open>boot.rs\<close>, and the counters of
  \<open>counter.rs\<close>), \<open>Controller_Record\<close> (\<open>controller_record.rs\<close>) and \<open>Error_Body\<close> (\<open>error.rs\<close>: what a
  refusal counts for bare and under a seal): for each codec that what is written is read, with the keys
  of a later version after it, and for each type the values no bytes decode to. \<open>Quality\<close>
  (\<open>ident.rs\<close>, \<open>reading.rs\<close> and the rows of \<open>readings.rs\<close>) is one reading, scalar or series, with the
  byte that says what its number is worth, and \<open>Readings\<close> the rest of \<open>readings.rs\<close>: the selectors of a
  \<open>ReadSignals\<close>, the page that takes rows in one byte budget until one is turned away, the answer that
  carries it and what a client reads out of it (\<open>readings_page_read_back\<close>: whatever rows were pushed, the
  counts, the place to resume and the scalars in order; \<open>page_after\<close> is a page some calls of \<open>push\<close> led to).

  \<^bold>\<open>Cryptography.\<close> \<open>Crypto\<close> makes the primitives of the other crates one argument \<open>C\<close> of the
  definitions: ChaCha20-Poly1305, X25519, SHA-256, HMAC. \<open>crypto_ok\<close> states what is relied on:
  decryption inverts encryption and accepts nothing else, sizes, and that a Diffie-Hellman agrees
  from either side. It is satisfied by \<open>example_crypto\<close>, over which the witnesses run. Nothing
  states that a tag cannot be forged or a hash collides: a theorem says which bytes are accepted
  (the seal under this key and no other), never who could have made them.
  \<open>Noise\<close> is \<open>noise.rs\<close>'s cipher and symmetric states, \<open>Handshake\<close> the \<open>XXpsk0\<close> and \<open>IK\<close> patterns,
  one definition per message and side. \<open>Keys\<close> (\<open>kdf.rs\<close>, \<open>mac.rs\<close>) derives keys and tags with the
  domain each is separated by; \<open>Drbg\<close> (\<open>drbg.rs\<close>) draws through a store that may lose a write or be
  interrupted: its hypothesis \<open>durable\<close> is what the trait asks of a store, and less.

  \<^bold>\<open>Sessions.\<close> \<open>Anti_Replay\<close> is the locale of a guard that never takes a nonce twice: \<open>Window\<close>
  (the bitmap of \<open>sealed.rs\<close>, refined to the set of accepted nonces) and the mark of \<open>Event\<close>
  interpret it. \<open>Sealed\<close> is the rest of \<open>sealed.rs\<close>; \<open>Session\<close> puts both ends together and runs
  them against a network that may replay, reorder, withhold and invent, an inductive step relation
  with its reachable states. \<open>Enrolment\<close> (\<open>kdf/stored.rs\<close>) is what a client keeps; \<open>Hello\<close>
  (\<open>hello.rs\<close>) opens a session over it, bodies, admission and handshake from end to end.

  \<^bold>\<open>Enrolment.\<close> \<open>Slots\<close> (\<open>pairing.rs\<close>) chooses the slot an enrolment gets and its role there; writing
  the table is the caller's. \<open>Pairing\<close> (\<open>pairing.rs\<close>) is enrolment under the printed label, each stage of
  both sides, with what a client believes of an answer. \<open>Invite\<close> (\<open>invite.rs\<close>) enrols through a relay
  nobody trusts, commitment, digits, proof and confirmation over one transcript, \<open>Membership\<close>
  (\<open>membership.rs\<close>) holds the signed writes that carry it, \<open>Vouch\<close> (\<open>vouch.rs\<close>) the controller's word
  to a verifier, and \<open>Clients\<close> (\<open>clients.rs\<close>) the list of who is enrolled and who is proposed, whose two
  kinds of row interpret the locale \<open>row_kind\<close>.

  \<^bold>\<open>The link.\<close> \<open>Link_Codec\<close> is the contract of the bodies the two chips exchange, \<open>link_codec\<close> and
  \<open>strict_link_codec\<close>. \<open>Link_Local\<close> and \<open>Link_Bodies\<close> are \<open>linklocal.rs\<close>: which opcodes each side acts
  on, the grammar of a firmware's version, every body with its answer. \<open>Net_Origin\<close> (\<open>net_origin.rs\<close>,
  \<open>pairing_window.rs\<close>) is the network pushed to comms and the stamp both ends compare. \<open>Wifi_Scan\<close> and
  \<open>Wifi_Status\<close> (\<open>wifi.rs\<close>) are what the radio hears and what it is doing, on the link and to a client.

  \<^bold>\<open>Configuration.\<close> \<open>Config\<close> (\<open>config.rs\<close>) is the sections' bodies, among them the network's two shapes;
  \<open>Config_Messages\<close> (\<open>config_messages.rs\<close>) reads a section and writes one against its version.
  \<open>Buses_Devices\<close>, \<open>Device_Ids\<close> and \<open>Buses_Codec\<close> are \<open>buses_devices.rs\<close>: the section's check against
  the board, the allocation of device ids, and the body, whose first value-level refusal is held back
  until its structure has been read.

  \<^bold>\<open>Not modelled.\<close> \<open>Display\<close> and \<open>Debug\<close>, \<open>defmt\<close>, accessors that return a field, \<open>From\<close> between
  error types (the conversions are named where they happen) and the erasing of secrets on drop,
  which no value shows. \<open>crates/xtask\<close> (vectors, bindings, the consistency gate) and
  \<open>packages/km43\<close> are tools around the crate, \<open>requirement.rs\<close> and \<open>requirements.rs\<close> a generated table of
  the numbered rules, \<open>render.rs\<close> and \<open>residue.rs\<close> helpers of its tests. \<open>inventory.rs\<close>, \<open>received_topology.rs\<close>,
  \<open>concerns.rs\<close> and \<open>changes.rs\<close>, the bodies that describe devices, signals and what is wrong with
  them, are not modelled, and neither are the open identifier spaces of \<open>generated.rs\<close> that only they
  use. The manifest lists every part with its state.
\<close>

end
